(* ===== verification/San_Prelude.thy ===== *)
theory San_Prelude
  imports Main "HOL-Library.Word" "HOL-Library.Monad_Syntax"
begin

text \<open>
  Shared vocabulary of the development: the fixed-width integer types of
  \<^verbatim>\<open>sanitizer_internal_defs.h\<close>, the \<^verbatim>\<open>CHECK\<close> macros as a partial
  computation, and the lemmas on words, options and lists that the component theories use.
\<close>

unbundle bit_operations_syntax

section \<open>Collections of facts\<close>

named_theorems san_check \<open>unfolding of the CHECK macros\<close>
named_theorems san_unat \<open>word operations read as natural numbers\<close>

section \<open>Integer types (64-bit target)\<close>

type_synonym uptr = "64 word"
type_synonym u64 = "64 word"
type_synonym u32 = "32 word"
type_synonym u16 = "16 word"
type_synonym u8 = "8 word"

section \<open>CHECK and Die\<close>

text \<open>
  A failing \<^verbatim>\<open>CHECK\<close> (or an explicit \<^verbatim>\<open>Die()\<close>) ends the process. A function
  that contains one returns an \<open>option\<close>: \<open>None\<close> is the dead process.
\<close>

definition CHECK :: "bool \<Rightarrow> unit option" where
  "CHECK b = (if b then Some () else None)"

lemma CHECK_True [simp, san_check]: "CHECK True = Some ()"
  by (simp add: CHECK_def)

lemma CHECK_False [simp, san_check]: "CHECK False = None"
  by (simp add: CHECK_def)

lemma CHECK_Some_iff [simp, san_check]: "CHECK b = Some u \<longleftrightarrow> b"
  by (simp add: CHECK_def)

lemma CHECK_None_iff [simp, san_check]: "CHECK b = None \<longleftrightarrow> \<not> b"
  by (simp add: CHECK_def)

lemma bind_CHECK [san_check]: "Option.bind (CHECK b) f = (if b then f () else None)"
  by (simp add: CHECK_def)

lemma bind_CHECK_Some_iff [simp]:
  "Option.bind (CHECK b) f = Some r \<longleftrightarrow> b \<and> f () = Some r"
  by (simp add: CHECK_def)

section \<open>Words as natural numbers\<close>

lemma unat_and_not_mask [san_unat]:
  fixes x :: "'a::len word"
  shows "unat (x AND NOT (mask k)) = unat x div 2 ^ k * 2 ^ k"
proof -
  have "x AND NOT (mask k) = push_bit k (drop_bit k x)"
    by (rule bit_word_eqI) (auto simp: bit_simps)
  moreover have "unat (push_bit k (drop_bit k x)) = unat x div 2 ^ k * 2 ^ k"
  proof -
    have "unat x div 2 ^ k * 2 ^ k \<le> unat x" by simp
    then have "unat x div 2 ^ k * 2 ^ k < 2 ^ LENGTH('a)"
      using unsigned_less [of x] by (metis order_le_less_trans)
    then show ?thesis
      by (simp add: unsigned_push_bit_eq unat_drop_bit_eq take_bit_nat_eq_self del: push_bit_nat_eq
          flip: push_bit_eq_mult drop_bit_eq_div)
  qed
  ultimately show ?thesis by simp
qed

lemma unat_and_mask [san_unat]:
  fixes x :: "'a::len word"
  shows "unat (x AND mask k) = unat x mod 2 ^ k"
  by (metis take_bit_eq_mask take_bit_eq_mod unsigned_take_bit_eq)

lemma uptr_bound: "unat (a :: uptr) < 2 ^ 64"
  using unsigned_less [of a] by simp

lemma word_range_iff:
  fixes p q r :: uptr
  assumes "p \<le> r"
  shows "q - p < r - p \<longleftrightarrow> p \<le> q \<and> q < r"
proof (cases "p \<le> q")
  case True
  then have "unat (q - p) = unat q - unat p" "unat (r - p) = unat r - unat p"
    using assms by (simp_all add: unat_sub)
  then show ?thesis using True assms by (auto simp: word_less_nat_alt word_le_nat_alt)
next
  case False
  then have "unat (q - p) = unat q + 2 ^ 64 - unat p"
    by (simp add: unat_sub_if_size word_size word_le_nat_alt)
  moreover have "unat (r - p) = unat r - unat p" using assms by (simp add: unat_sub)
  ultimately show ?thesis using False uptr_bound [of r]
    by (auto simp: word_less_nat_alt word_le_nat_alt)
qed

lemma unat_plus_1: "unat (a::uptr) < 2 ^ 64 - 1 \<Longrightarrow> unat (a + 1) = unat a + 1"
  by (simp add: unat_word_ariths)

lemma unat_succ_less: "(p::uptr) < e \<Longrightarrow> unat (p + 1) = unat p + 1"
  using uptr_bound [of e] by (simp add: word_less_nat_alt unat_plus_1)

lemma unat_minus_1: "(a::uptr) \<noteq> 0 \<Longrightarrow> unat (a - 1) = unat a - 1"
  by (rule unat_minus_one)

lemma unat_minus_1_uptr: "unat (-1 :: uptr) = 2 ^ 64 - 1"
  by (simp add: unsigned_minus_1_eq_mask mask_eq_exp_minus_1)

lemma unat_of_nat_uptr: "n < 2 ^ 64 \<Longrightarrow> unat (of_nat n :: uptr) = n"
  by (simp add: unat_of_nat)

lemma unat_add_of_nat: "unat (d::uptr) + i < 2 ^ 64 \<Longrightarrow> unat (d + of_nat i) = unat d + i"
  by (simp add: unat_word_ariths unat_of_nat)

section \<open>Signed bytes\<close>

lemma sint_u8_of_int [simp]: "-128 \<le> v \<Longrightarrow> v < 128 \<Longrightarrow> sint (word_of_int v :: u8) = v"
  by (simp add: signed_of_int signed_take_bit_int_eq_self)

lemma sint_u8_of_nat: "n < 128 \<Longrightarrow> sint (of_nat n :: u8) = int n"
  using sint_u8_of_int [of "int n"] by simp

lemma sint_u8_bounds: "-128 \<le> sint (b :: u8)" "sint (b :: u8) < 128"
  using sint_greater_eq [of b] sint_less [of b] by simp_all

lemma sint_u8_eq_0_iff: "sint (b :: u8) = 0 \<longleftrightarrow> b = 0"
  by (metis signed_0 signed_word_eqI)

lemma length_filter_update:
  assumes "i < length xs"
  shows "length (filter P (xs[i := y])) + (if P (xs ! i) then 1 else 0) = length (filter P xs) + (if P y then 1 else 0)"
proof -
  have e: "xs = take i xs @ xs ! i # drop (Suc i) xs" using assms by (rule id_take_nth_drop)
  have "length (filter P xs) = length (filter P (take i xs)) + (if P (xs ! i) then 1 else 0) + length (filter P (drop (Suc i) xs))"
    by (subst e) simp
  then show ?thesis using assms by (simp add: upd_conv_take_nth_drop)
qed

end
