(* ===== verification/San_Math.thy ===== *)
theory San_Math
  imports San_Prelude
begin

text \<open>
  The arithmetic helpers of \<^verbatim>\<open>sanitizer_common.h\<close> (lines 423--520): set-bit
  indices, powers of two, rounding, and character classes. The addresses and sizes
  are 64-bit words; a bit index is a \<open>nat\<close> below 64.
\<close>

unbundle bit_operations_syntax

section \<open>Bit scans\<close>

text \<open>The compiler builtins \<^verbatim>\<open>__builtin_clzl\<close> and \<^verbatim>\<open>__builtin_ctzl\<close>.\<close>

definition builtin_clzl :: "uptr \<Rightarrow> nat" where
  "builtin_clzl x = length (takeWhile (\<lambda>i. \<not> bit x (63 - i)) [0..<64])"

definition builtin_ctzl :: "uptr \<Rightarrow> nat" where
  "builtin_ctzl x = length (takeWhile (\<lambda>i. \<not> bit x i) [0..<64])"

definition MostSignificantSetBitIndex :: "uptr \<Rightarrow> nat option" where
  "MostSignificantSetBitIndex x = do { CHECK (x \<noteq> 0); Some (64 - 1 - builtin_clzl x) }"

definition LeastSignificantSetBitIndex :: "uptr \<Rightarrow> nat option" where
  "LeastSignificantSetBitIndex x = do { CHECK (x \<noteq> 0); Some (builtin_ctzl x) }"

section \<open>Powers of two and rounding\<close>

definition IsPowerOfTwo :: "uptr \<Rightarrow> bool" where
  "IsPowerOfTwo x \<longleftrightarrow> x AND (x - 1) = 0"

definition RoundUpToPowerOfTwo :: "uptr \<Rightarrow> uptr option" where
  "RoundUpToPowerOfTwo sz = do {
     CHECK (sz \<noteq> 0);
     if IsPowerOfTwo sz then Some sz
     else do {
       up \<leftarrow> MostSignificantSetBitIndex sz;
       CHECK (sz < push_bit (up + 1) 1);
       CHECK (sz > push_bit up 1);
       Some (push_bit (up + 1) 1)
     }
   }"

definition RoundUpTo :: "uptr \<Rightarrow> uptr \<Rightarrow> uptr option" where
  "RoundUpTo sz boundary = do {
     CHECK (IsPowerOfTwo boundary);
     Some ((sz + boundary - 1) AND NOT (boundary - 1))
   }"

definition RoundDownTo :: "uptr \<Rightarrow> uptr \<Rightarrow> uptr" where
  "RoundDownTo x boundary = x AND NOT (boundary - 1)"

definition IsAligned :: "uptr \<Rightarrow> uptr \<Rightarrow> bool" where
  "IsAligned a alignment \<longleftrightarrow> a AND (alignment - 1) = 0"

definition Log2 :: "uptr \<Rightarrow> nat option" where
  "Log2 x = do { CHECK (IsPowerOfTwo x); LeastSignificantSetBitIndex x }"

section \<open>Character classes\<close>

definition IsSpace :: "char \<Rightarrow> bool" where
  "IsSpace c \<longleftrightarrow> c = CHR '' '' \<or> c = CHR 0x0A \<or> c = CHR 0x09 \<or>
     c = CHR 0x0C \<or> c = CHR 0x0D \<or> c = CHR 0x0B"

definition IsDigit :: "char \<Rightarrow> bool" where
  "IsDigit c \<longleftrightarrow> of_char c \<ge> (of_char (CHR ''0'') :: int) \<and> of_char c \<le> (of_char (CHR ''9'') :: int)"

section \<open>Facts\<close>

lemma takeWhile_upt_stop:
  assumes "P k" and "\<And>i. i < k \<Longrightarrow> \<not> P i" and "k < n"
  shows "length (takeWhile (\<lambda>i. \<not> P i) [0..<n]) = k"
proof -
  have "[0..<n] = [0..<k] @ k # [Suc k..<n]"
    using assms(3) by (metis less_imp_le_nat upt_add_eq_append le_add_diff_inverse
        upt_conv_Cons zero_le)
  moreover have "takeWhile (\<lambda>i. \<not> P i) ([0..<k] @ k # [Suc k..<n]) = [0..<k]"
    using assms(1,2) by (subst takeWhile_append2) auto
  ultimately show ?thesis by simp
qed

lemma ex_first_bit:
  assumes "(x::uptr) \<noteq> 0"
  obtains k where "k < 64" and "bit x k" and "\<forall>i<k. \<not> bit x i"
proof -
  define k where "k = (LEAST k. bit x k)"
  have ex: "\<exists>k. bit x k" using assms by (auto simp: bit_eq_iff)
  then have "bit x k" unfolding k_def by (rule LeastI_ex)
  moreover from this have "k < 64" using bit_imp_le_length by fastforce
  moreover have "\<forall>i<k. \<not> bit x i" unfolding k_def using not_less_Least by blast
  ultimately show ?thesis using that by blast
qed

lemma ex_last_bit:
  assumes "(x::uptr) \<noteq> 0"
  obtains k where "k < 64" and "bit x k" and "\<forall>i>k. \<not> bit x i"
proof -
  have fin: "finite {k. bit x k}"
    by (rule finite_subset [of _ "{..<64}"]) (auto dest: bit_imp_le_length)
  have ne: "{k. bit x k} \<noteq> {}" using assms by (auto simp: bit_eq_iff)
  define k where "k = Max {k. bit x k}"
  have "bit x k" using Max_in [OF fin ne] by (simp add: k_def)
  moreover from this have "k < 64" using bit_imp_le_length by fastforce
  moreover have "\<forall>i>k. \<not> bit x i"
    using Max_ge [OF fin] by (auto simp: k_def not_le [symmetric])
  ultimately show ?thesis using that by blast
qed

lemma builtin_ctzl_spec:
  assumes "x \<noteq> 0"
  shows "builtin_ctzl x < 64" and "bit x (builtin_ctzl x)"
    and "\<And>i. i < builtin_ctzl x \<Longrightarrow> \<not> bit x i"
proof -
  obtain k where k: "k < 64" "bit x k" "\<forall>i<k. \<not> bit x i"
    by (rule ex_first_bit [OF assms])
  have "builtin_ctzl x = k"
    unfolding builtin_ctzl_def using k by (intro takeWhile_upt_stop) blast+
  with k show "builtin_ctzl x < 64" "bit x (builtin_ctzl x)"
    "\<And>i. i < builtin_ctzl x \<Longrightarrow> \<not> bit x i" by auto
qed

lemma builtin_clzl_spec:
  assumes "x \<noteq> 0"
  shows "builtin_clzl x < 64" and "bit x (63 - builtin_clzl x)"
    and "\<And>i. 63 - builtin_clzl x < i \<Longrightarrow> \<not> bit x i"
proof -
  obtain k where k: "k < 64" "bit x k" "\<forall>i>k. \<not> bit x i"
    by (rule ex_last_bit [OF assms])
  have "builtin_clzl x = 63 - k"
    unfolding builtin_clzl_def
  proof (rule takeWhile_upt_stop [where P = "\<lambda>i. bit x (63 - i)"])
    show "bit x (63 - (63 - k))" using k(1,2) by simp
    show "\<And>i. i < 63 - k \<Longrightarrow> \<not> bit x (63 - i)" using k(3) by simp
  qed simp
  with k show "builtin_clzl x < 64" "bit x (63 - builtin_clzl x)"
    "\<And>i. 63 - builtin_clzl x < i \<Longrightarrow> \<not> bit x i" by auto
qed

lemma LeastSignificantSetBitIndex_Some_iff:
  "LeastSignificantSetBitIndex x = Some k \<longleftrightarrow> bit x k \<and> (\<forall>i<k. \<not> bit x i)"
proof
  assume "LeastSignificantSetBitIndex x = Some k"
  then show "bit x k \<and> (\<forall>i<k. \<not> bit x i)"
    using builtin_ctzl_spec [of x] by (auto simp: LeastSignificantSetBitIndex_def)
next
  assume k: "bit x k \<and> (\<forall>i<k. \<not> bit x i)"
  then have "x \<noteq> 0" by auto
  with k have "builtin_ctzl x = k"
    using builtin_ctzl_spec [of x] by (metis linorder_neqE_nat)
  with \<open>x \<noteq> 0\<close> show "LeastSignificantSetBitIndex x = Some k"
    by (simp add: LeastSignificantSetBitIndex_def)
qed

lemma word_last_bit_bounds:
  assumes "bit (x::uptr) k" and "\<forall>i>k. \<not> bit x i"
  shows "2 ^ k \<le> unat x" and "unat x < 2 ^ Suc k"
proof -
  have "take_bit (Suc k) x = x"
    using assms by (intro bit_word_eqI) (auto simp: bit_simps not_less_eq [symmetric])
  then have "take_bit (Suc k) (unat x) = unat x"
    by (metis unsigned_take_bit_eq)
  then show "unat x < 2 ^ Suc k"
    by (metis take_bit_nat_less_exp)
  from assms(1) have "bit (unat x) k" by (simp add: bit_unsigned_iff)
  then have "odd (unat x div 2 ^ k)" by (simp add: bit_iff_odd)
  then have "unat x div 2 ^ k \<noteq> 0" by (metis even_zero)
  then show "2 ^ k \<le> unat x" by (simp add: div_eq_0_iff)
qed

lemma MostSignificantSetBitIndex_bounds:
  assumes "MostSignificantSetBitIndex x = Some k"
  shows "k < 64" and "2 ^ k \<le> unat x" and "unat x < 2 ^ Suc k"
proof -
  from assms have x: "x \<noteq> 0" and k: "k = 63 - builtin_clzl x"
    by (auto simp: MostSignificantSetBitIndex_def)
  show "k < 64" using k by simp
  have "bit x k" and "\<forall>i>k. \<not> bit x i"
    using builtin_clzl_spec [OF x] by (auto simp: k)
  then show "2 ^ k \<le> unat x" and "unat x < 2 ^ Suc k"
    by (fact word_last_bit_bounds)+
qed

lemma MostSignificantSetBitIndex_total: "x \<noteq> 0 \<Longrightarrow> \<exists>k. MostSignificantSetBitIndex x = Some k"
  by (simp add: MostSignificantSetBitIndex_def)

lemma MostSignificantSetBitIndex_eq:
  assumes "2 ^ k \<le> unat (x::uptr)" and "unat x < 2 ^ Suc k"
  shows "MostSignificantSetBitIndex x = Some k"
proof -
  from assms(1) have "x \<noteq> 0" by (auto simp: unat_eq_0)
  then obtain j where j: "MostSignificantSetBitIndex x = Some j"
    using MostSignificantSetBitIndex_total by blast
  note b = MostSignificantSetBitIndex_bounds [OF j]
  have "(2::nat) ^ k < 2 ^ Suc j" using assms(1) b(3) by linarith
  moreover have "(2::nat) ^ j < 2 ^ Suc k" using assms(2) b(2) by linarith
  ultimately have "k = j" by (simp add: power_strict_increasing_iff del: power_Suc)
  then show ?thesis using j by simp
qed

lemma IsPowerOfTwo_clear_lowest:
  assumes "bit (x::uptr) k" and "\<forall>i<k. \<not> bit x i"
  shows "x AND (x - 1) = x AND NOT (mask (Suc k))"
proof -
  have k: "k < 64" using bit_imp_le_length [OF assms(1)] by simp
  define h where "h = x AND NOT (mask (Suc k))"
  have disj: "h AND 2 ^ k = 0" "h AND mask k = 0"
    by (auto intro!: bit_word_eqI simp: h_def bit_simps)
  have "x = h OR 2 ^ k"
  proof (rule bit_word_eqI)
    fix n assume "n < LENGTH(64)"
    with assms k show "bit x n \<longleftrightarrow> bit (h OR 2 ^ k) n"
      by (cases n k rule: linorder_cases) (auto simp: h_def bit_simps)
  qed
  also have "\<dots> = h + 2 ^ k" using disj(1) by (simp add: disjunctive_add_eq_or)
  finally have "x - 1 = h + mask k" by (simp add: mask_eq_exp_minus_1)
  also have "\<dots> = h OR mask k" using disj(2) by (simp add: disjunctive_add_eq_or)
  finally have "x - 1 = h OR mask k" .
  then show ?thesis
    by (intro bit_word_eqI) (use assms in \<open>auto simp: h_def bit_simps less_Suc_eq\<close>)
qed

lemma IsPowerOfTwo_iff: "IsPowerOfTwo x \<longleftrightarrow> x = 0 \<or> (\<exists>k<64. x = 2 ^ k)"
proof (cases "x = 0")
  case True
  then show ?thesis by (simp add: IsPowerOfTwo_def)
next
  case False
  obtain k where k: "k < 64" "bit x k" "\<forall>i<k. \<not> bit x i"
    by (rule ex_first_bit [OF False])
  have eq: "IsPowerOfTwo x \<longleftrightarrow> x AND NOT (mask (Suc k)) = 0"
    using IsPowerOfTwo_clear_lowest [OF k(2,3)] by (simp add: IsPowerOfTwo_def)
  have "x AND NOT (mask (Suc k)) = 0 \<longleftrightarrow> x = 2 ^ k"
  proof
    assume z: "x AND NOT (mask (Suc k)) = 0"
    have "\<not> bit x n" if "k < n" "n < 64" for n
    proof -
      from z have "\<not> bit (x AND NOT (mask (Suc k))) n" by simp
      with that show ?thesis by (simp add: bit_simps)
    qed
    then have "bit x n \<longleftrightarrow> n = k" if "n < 64" for n
      using k that by (metis linorder_neqE_nat)
    then show "x = 2 ^ k"
      using k(1) by (intro bit_word_eqI) (auto simp: bit_simps)
  qed (auto intro!: bit_word_eqI simp: bit_simps)
  moreover have "x = 2 ^ j \<Longrightarrow> j < 64 \<Longrightarrow> j = k" for j
    using k(2,3) by (auto simp: bit_simps)
  ultimately show ?thesis using False k(1) eq by blast
qed

lemma IsPowerOfTwo_exp [simp]: "IsPowerOfTwo (2 ^ k)"
proof (cases "k < 64")
  case True
  then show ?thesis unfolding IsPowerOfTwo_iff by blast
next
  case False
  then have "(2 ^ k :: uptr) = 0" by simp
  then show ?thesis unfolding IsPowerOfTwo_iff by blast
qed


lemma unat_exp [san_unat]: "k < 64 \<Longrightarrow> unat (2 ^ k :: uptr) = 2 ^ k"
proof -
  assume k: "k < 64"
  have "unat (of_nat (2 ^ k) :: uptr) = 2 ^ k mod 2 ^ 64"
    unfolding unat_of_nat by simp
  also have "\<dots> = 2 ^ k" using k by (intro mod_less power_strict_increasing) auto
  finally show ?thesis by simp
qed

lemma exp_minus_1_mask: "(2 ^ k - 1 :: uptr) = mask k"
  by (simp add: mask_eq_exp_minus_1)

lemma unat_RoundDownTo [san_unat]: "unat (RoundDownTo x (2 ^ k)) = unat x div 2 ^ k * 2 ^ k"
  by (simp add: RoundDownTo_def exp_minus_1_mask unat_and_not_mask)

lemma IsAligned_iff_dvd: "IsAligned a (2 ^ k) \<longleftrightarrow> 2 ^ k dvd unat a"
  by (simp add: IsAligned_def exp_minus_1_mask unat_eq_0 [symmetric] unat_and_mask dvd_eq_mod_eq_0)

lemma RoundUpTo_exp: "RoundUpTo x (2 ^ k) = Some ((x + mask k) AND NOT (mask k))"
  by (simp add: RoundUpTo_def mask_eq_exp_minus_1 add_diff_eq)

lemma unat_RoundUpTo:
  assumes "RoundUpTo x (2 ^ k) = Some r" and "k < 64" and "unat x + 2 ^ k \<le> 2 ^ 64"
  shows "unat r = (unat x + (2 ^ k - 1)) div 2 ^ k * 2 ^ k"
proof -
  have "unat (mask k :: uptr) = 2 ^ k - 1"
    using assms(2) unat_exp [of k] by (simp add: mask_eq_exp_minus_1 unat_minus_one)
  moreover from this have "unat x + unat (mask k :: uptr) < 2 ^ 64"
    using assms(3) by simp
  then have "unat (x + mask k) = unat x + unat (mask k :: uptr)"
    by (simp add: unat_word_ariths)
  moreover from assms(1) have "r = (x + mask k) AND NOT (mask k)"
    by (simp add: RoundUpTo_exp)
  ultimately show ?thesis by (simp add: unat_and_not_mask)
qed

lemma round_up_div_bounds:
  fixes n b :: nat
  assumes "0 < b"
  shows "n \<le> (n + (b - 1)) div b * b" and "(n + (b - 1)) div b * b < n + b"
proof -
  have "(n + (b - 1)) div b * b + (n + (b - 1)) mod b = n + (b - 1)" by (rule div_mult_mod_eq)
  moreover have "(n + (b - 1)) mod b < b" using assms by simp
  ultimately show "n \<le> (n + (b - 1)) div b * b" and "(n + (b - 1)) div b * b < n + b"
    using assms by linarith+
qed

lemma RoundUpToPowerOfTwo_Some:
  assumes "RoundUpToPowerOfTwo x = Some r"
  obtains k where "k < 64" and "r = 2 ^ k" and "unat x \<le> 2 ^ k"
    and "\<forall>j. unat x \<le> 2 ^ j \<longrightarrow> k \<le> j"
proof (cases "IsPowerOfTwo x")
  case True
  with assms obtain k where k: "k < 64" "x = 2 ^ k" "r = x"
    by (auto simp: RoundUpToPowerOfTwo_def IsPowerOfTwo_iff)
  then show ?thesis by (intro that [of k]) (auto simp: unat_exp)
next
  case False
  with assms obtain up where up: "MostSignificantSetBitIndex x = Some up"
    and lt: "x < push_bit (up + 1) 1" and r: "r = push_bit (up + 1) 1"
    by (auto simp: RoundUpToPowerOfTwo_def bind_eq_Some_conv)
  note b = MostSignificantSetBitIndex_bounds [OF up]
  have "up + 1 < 64"
  proof (rule ccontr)
    assume "\<not> up + 1 < 64"
    then have "(2 ^ (up + 1) :: uptr) = 0" by (simp only: exp_eq_zero_iff) simp
    with lt show False by (simp add: push_bit_eq_mult)
  qed
  moreover have "up + 1 \<le> j" if "unat x \<le> 2 ^ j" for j
  proof -
    from False b(1) have "unat x \<noteq> 2 ^ up"
      by (metis IsPowerOfTwo_exp unat_exp word_unat_eq_iff)
    with b(2) that have "(2::nat) ^ up < 2 ^ j" by linarith
    then show ?thesis by (simp add: power_strict_increasing_iff)
  qed
  ultimately show ?thesis
    using b(3) r by (intro that [of "up + 1"]) (auto simp: push_bit_eq_mult)
qed

lemma RoundUpToPowerOfTwo_total:
  assumes "x \<noteq> 0" and "unat x \<le> 2 ^ 63"
  shows "\<exists>r. RoundUpToPowerOfTwo x = Some r"
proof (cases "IsPowerOfTwo x")
  case True
  with assms show ?thesis by (simp add: RoundUpToPowerOfTwo_def)
next
  case False
  from assms(1) obtain up where up: "MostSignificantSetBitIndex x = Some up"
    using MostSignificantSetBitIndex_total by blast
  note b = MostSignificantSetBitIndex_bounds [OF up]
  have ne: "unat x \<noteq> 2 ^ up"
    using False b(1) by (metis IsPowerOfTwo_exp unat_exp word_unat_eq_iff)
  then have "(2::nat) ^ up < 2 ^ 63" using b(2) assms(2) by linarith
  then have "up < 63" by (rule power_less_imp_less_exp [rotated]) simp
  then have "x < push_bit (up + 1) 1" "x > push_bit up 1"
    using b ne by (auto simp: push_bit_eq_mult word_less_nat_alt unat_exp
        simp del: power_Suc simp flip: power_Suc)
  with False up assms(1) show ?thesis by (simp add: RoundUpToPowerOfTwo_def)
qed

lemma Log2_exp: "k < 64 \<Longrightarrow> Log2 (2 ^ k) = Some k"
  by (simp add: Log2_def LeastSignificantSetBitIndex_Some_iff bit_simps)

end
