(* ===== verification/San_Libc.thy ===== *)
theory San_Libc
  imports San_Math
begin

text \<open>
  The memory routines of \<^verbatim>\<open>sanitizer_libc.cpp\<close>: \<^verbatim>\<open>internal_memchr\<close>,
  \<^verbatim>\<open>internal_memrchr\<close>, \<^verbatim>\<open>internal_memcmp\<close>, \<^verbatim>\<open>internal_memcpy\<close>,
  \<^verbatim>\<open>internal_memmove\<close>, \<^verbatim>\<open>internal_memset\<close> and \<^verbatim>\<open>mem_is_zero\<close>, over a memory that
  holds a byte for every address. \<^verbatim>\<open>char\<close> is signed. The loops count with a
  natural number that stays below the 64-bit size; addresses are 64-bit words.
\<close>

unbundle bit_operations_syntax

section \<open>Memory\<close>

type_synonym mem = "uptr \<Rightarrow> u8"

text \<open>The specification of \<^verbatim>\<open>memset(p, v, n)\<close>: the \<open>n\<close> bytes from \<open>p\<close>.\<close>

definition memset :: "mem \<Rightarrow> uptr \<Rightarrow> u8 \<Rightarrow> uptr \<Rightarrow> mem" where
  "memset m p v n = (\<lambda>q. if q - p < n then v else m q)"

text \<open>Little-endian 64-bit loads and stores.\<close>

definition load64 :: "mem \<Rightarrow> uptr \<Rightarrow> u64" where
  "load64 m p = fold (\<lambda>j acc. acc OR push_bit (8 * j) (ucast (m (p + of_nat j)))) [0..<8] 0"

definition store64 :: "mem \<Rightarrow> uptr \<Rightarrow> u64 \<Rightarrow> mem" where
  "store64 m p v = (\<lambda>q. if q - p < 8 then ucast (drop_bit (8 * unat (q - p)) v) else m q)"

section \<open>Searching and comparing\<close>

fun memchr_loop :: "mem \<Rightarrow> uptr \<Rightarrow> int \<Rightarrow> nat \<Rightarrow> uptr option" where
  "memchr_loop m t c 0 = None"
| "memchr_loop m t c (Suc n) = (if sint (m t) = c then Some t else memchr_loop m (t + 1) c n)"

definition internal_memchr :: "mem \<Rightarrow> uptr \<Rightarrow> int \<Rightarrow> uptr \<Rightarrow> uptr option" where
  "internal_memchr m s c n = memchr_loop m s c (unat n)"

fun memrchr_loop :: "mem \<Rightarrow> uptr \<Rightarrow> int \<Rightarrow> nat \<Rightarrow> uptr option \<Rightarrow> uptr option" where
  "memrchr_loop m t c 0 res = res"
| "memrchr_loop m t c (Suc n) res = memrchr_loop m (t + 1) c n (if sint (m t) = c then Some t else res)"

definition internal_memrchr :: "mem \<Rightarrow> uptr \<Rightarrow> int \<Rightarrow> uptr \<Rightarrow> uptr option" where
  "internal_memrchr m s c n = memrchr_loop m s c (unat n) None"

fun memcmp_loop :: "mem \<Rightarrow> uptr \<Rightarrow> uptr \<Rightarrow> nat \<Rightarrow> int" where
  "memcmp_loop m t1 t2 0 = 0"
| "memcmp_loop m t1 t2 (Suc n) =
     (if m t1 \<noteq> m t2 then (if sint (m t1) < sint (m t2) then -1 else 1)
      else memcmp_loop m (t1 + 1) (t2 + 1) n)"

definition internal_memcmp :: "mem \<Rightarrow> uptr \<Rightarrow> uptr \<Rightarrow> uptr \<Rightarrow> int" where
  "internal_memcmp m s1 s2 n = memcmp_loop m s1 s2 (unat n)"

section \<open>Copying and filling\<close>

fun copy_up :: "uptr \<Rightarrow> uptr \<Rightarrow> nat \<Rightarrow> nat \<Rightarrow> mem \<Rightarrow> mem" where
  \<comment> \<open>\<open>for (i = i0; i < n; ++i) d[i] = s[i]\<close>, with \<open>k = n - i0\<close> steps left\<close>
  "copy_up d s i 0 m = m"
| "copy_up d s i (Suc k) m = copy_up d s (Suc i) k (m(d + of_nat i := m (s + of_nat i)))"

fun copy_down :: "uptr \<Rightarrow> uptr \<Rightarrow> nat \<Rightarrow> mem \<Rightarrow> mem" where
  \<comment> \<open>\<open>for (i = n - 1; i >= 0; --i) d[i] = s[i]\<close>\<close>
  "copy_down d s 0 m = m"
| "copy_down d s (Suc i) m = copy_down d s i (m(d + of_nat i := m (s + of_nat i)))"

definition internal_memcpy :: "mem \<Rightarrow> uptr \<Rightarrow> uptr \<Rightarrow> uptr \<Rightarrow> mem" where
  "internal_memcpy m dest src n = copy_up dest src 0 (unat n) m"

definition internal_memmove :: "mem \<Rightarrow> uptr \<Rightarrow> uptr \<Rightarrow> uptr \<Rightarrow> mem option" where
  "internal_memmove m dest src n = do {
     let signed_n = sint n;
     CHECK (signed_n \<ge> 0);
     Some (if dest < src then copy_up dest src 0 (nat signed_n) m
           else if dest > src \<and> signed_n > 0 then copy_down dest src (nat signed_n) m
           else m)
   }"

fun memset_words :: "u64 \<Rightarrow> uptr \<Rightarrow> nat \<Rightarrow> mem \<Rightarrow> mem" where
  \<comment> \<open>\<open>for (; p < e; p += 2) p[0] = p[1] = v\<close>, with \<open>k\<close> iterations left\<close>
  "memset_words v p 0 m = m"
| "memset_words v p (Suc k) m = memset_words v (p + 16) k (store64 (store64 m (p + 8) v) p v)"

fun memset_bytes :: "u8 \<Rightarrow> uptr \<Rightarrow> nat \<Rightarrow> mem \<Rightarrow> mem" where
  "memset_bytes c t 0 m = m"
| "memset_bytes c t (Suc k) m = memset_bytes c (t + 1) k (m(t := c))"

definition internal_memset :: "mem \<Rightarrow> uptr \<Rightarrow> int \<Rightarrow> uptr \<Rightarrow> mem" where
  "internal_memset m s c n =
     (if s mod 16 = 0 \<and> n mod 16 = 0 then
        let v = (word_of_int c :: u64);
            v = v OR push_bit 8 v;
            v = v OR push_bit 16 v;
            v = v OR push_bit 32 v
        in memset_words v s (unat n div 16) m
      else memset_bytes (word_of_int c) s (unat n) m)"

section \<open>Scanning for zero bytes\<close>

function or_bytes :: "mem \<Rightarrow> uptr \<Rightarrow> uptr \<Rightarrow> uptr \<Rightarrow> uptr" where
  "or_bytes m p e all = (if p < e then or_bytes m (p + 1) e (all OR scast (m p)) else all)"
  by pat_completeness auto
termination
  by (relation "measure (\<lambda>(m, p, e, all). unat e - unat p)")
    (auto simp: unat_succ_less word_less_nat_alt)

function or_words :: "mem \<Rightarrow> uptr \<Rightarrow> uptr \<Rightarrow> uptr \<Rightarrow> uptr" where
  \<comment> \<open>both ends are multiples of 8, so the pointer does not wrap\<close>
  "or_words m p e all = (if p < e \<and> p < p + 8 then or_words m (p + 8) e (all OR load64 m p) else all)"
  by pat_completeness auto
termination
  by (relation "measure (\<lambda>(m, p, e, all). unat e - unat p)") (auto simp: word_less_nat_alt)

declare or_bytes.simps [simp del] or_words.simps [simp del]

definition mem_is_zero :: "mem \<Rightarrow> uptr \<Rightarrow> uptr \<Rightarrow> bool option" where
  "mem_is_zero m beg sz = do {
     CHECK (sz \<le> push_bit 40 1);
     let fin = beg + sz;
     aligned_beg \<leftarrow> RoundUpTo beg 8;
     let aligned_end = RoundDownTo fin 8;
     let all = or_bytes m beg (min aligned_beg fin) 0;
     let all = or_words m aligned_beg aligned_end all;
     let all = (if aligned_end \<ge> beg then or_bytes m aligned_end fin all else all);
     Some (all = 0)
   }"

section \<open>Facts\<close>

lemma bit_fold_or:
  "bit (fold (\<lambda>j acc. acc OR f j) xs a) n \<longleftrightarrow> bit a n \<or> (\<exists>j\<in>set xs. bit (f j) n)"
  for a :: "'a::len word"
  by (induction xs arbitrary: a) (auto simp: bit_simps)

lemma load64_eq_0_iff: "load64 m p = 0 \<longleftrightarrow> (\<forall>j<8. m (p + of_nat j) = 0)"
proof
  assume z: "load64 m p = 0"
  show "\<forall>j<8. m (p + of_nat j) = 0"
  proof (intro allI impI)
    fix j :: nat assume j: "j < 8"
    show "m (p + of_nat j) = 0"
    proof (rule bit_word_eqI)
      fix n assume n: "n < LENGTH(8)"
      have "\<not> bit (load64 m p) (8 * j + n)" using z by simp
      then have "\<not> bit (push_bit (8 * j) (ucast (m (p + of_nat j))) :: u64) (8 * j + n)"
        using j unfolding load64_def bit_fold_or by auto
      then show "bit (m (p + of_nat j)) n \<longleftrightarrow> bit (0 :: u8) n"
        using j n by (simp add: bit_simps)
    qed
  qed
next
  assume z: "\<forall>j<8. m (p + of_nat j) = 0"
  have "\<not> bit (load64 m p) n" for n
    unfolding load64_def bit_fold_or using z by auto
  then show "load64 m p = 0" by (simp add: bit_eq_iff)
qed

lemma or_eq_0_iff: "(a OR b) = 0 \<longleftrightarrow> a = 0 \<and> b = 0" for a b :: "'a::len word"
  by (auto simp: bit_eq_iff bit_simps)

lemma scast_u8_eq_0_iff: "(scast (b::u8) :: uptr) = 0 \<longleftrightarrow> b = 0"
proof
  assume z: "(scast b :: uptr) = 0"
  have "b = ucast (scast b :: uptr)" by (rule bit_word_eqI) (auto simp: bit_simps)
  with z show "b = 0" by simp
qed simp

lemma or_bytes_eq_0_iff:
  "or_bytes m p e all = 0 \<longleftrightarrow> all = 0 \<and> (\<forall>q. p \<le> q \<and> q < e \<longrightarrow> m q = 0)"
proof (induction m p e all rule: or_bytes.induct)
  case (1 m p e all)
  show ?case
  proof (cases "p < e")
    case True
    have "p \<le> q \<longleftrightarrow> q = p \<or> p + 1 \<le> q" for q
      using True by (auto simp: word_le_nat_alt unat_succ_less word_unat_eq_iff)
    then show ?thesis using 1 True
      by (subst or_bytes.simps) (auto simp: or_eq_0_iff scast_u8_eq_0_iff)
  next
    case False
    then show ?thesis by (subst or_bytes.simps) auto
  qed
qed

lemma or_words_eq_0_iff:
  assumes "8 dvd unat p" and "8 dvd unat e"
  shows "or_words m p e all = 0 \<longleftrightarrow> all = 0 \<and> (\<forall>q. p \<le> q \<and> q < e \<longrightarrow> m q = 0)"
  using assms
proof (induction m p e all rule: or_words.induct)
  case (1 m p e all)
  show ?case
  proof (cases "p < e")
    case True
    have "unat p + 8 \<le> unat e" using True 1(2,3) by (auto simp: word_less_nat_alt elim!: dvdE)
    then have up: "unat (p + 8) = unat p + 8"
      using uptr_bound [of e] by (simp add: unat_word_ariths)
    have uj: "unat (p + of_nat j) = unat p + j" if "j < 8" for j
      using that \<open>unat p + 8 \<le> unat e\<close> uptr_bound [of e] by (intro unat_add_of_nat) simp
    have split: "p \<le> q \<longleftrightarrow> (\<exists>j<8. q = p + of_nat j) \<or> p + 8 \<le> q" for q
    proof
      assume "p \<le> q"
      then have "unat q - unat p < 8 \<and> q = p + of_nat (unat q - unat p) \<or> p + 8 \<le> q"
        using up by (auto simp: word_le_nat_alt word_unat_eq_iff uj)
      then show "(\<exists>j<8. q = p + of_nat j) \<or> p + 8 \<le> q" by blast
    next
      assume "(\<exists>j<8. q = p + of_nat j) \<or> p + 8 \<le> q"
      then show "p \<le> q" using up uj by (auto simp: word_le_nat_alt)
    qed
    have lt: "p + of_nat j < e" if "j < 8" for j
      using uj [OF that] that \<open>unat p + 8 \<le> unat e\<close> by (simp add: word_less_nat_alt)
    have "p < p + 8" using up by (simp add: word_less_nat_alt)
    moreover have "8 dvd unat (p + 8)" using 1(2) up by simp
    ultimately show ?thesis using 1(1) 1(3) True
      by (subst or_words.simps) (auto simp: or_eq_0_iff load64_eq_0_iff split lt)
  next
    case False
    then show ?thesis by (subst or_words.simps) auto
  qed
qed

lemma round8_cases:
  fixes a s :: nat
  shows "(a + 7) div 8 * 8 \<le> (a + s) div 8 * 8 \<or> a + s \<le> (a + 7) div 8 * 8"
    and "a \<le> (a + s) div 8 * 8 \<or> a + s \<le> (a + 7) div 8 * 8"
proof -
  have *: "8 * q \<le> 8 * q' \<or> 8 * q' + r' \<le> 8 * q" if "r' < 8" for q q' r' :: nat
    using that by (cases "q \<le> q'") simp_all
  have 1: "8 * ((a + 7) div 8) \<le> 8 * ((a + s) div 8) \<or> a + s \<le> 8 * ((a + 7) div 8)"
    using * [OF mod_less_divisor [of 8 "a + s"], of "(a + 7) div 8" "(a + s) div 8"]
    by (auto simp only: mult_div_mod_eq)
  then show "(a + 7) div 8 * 8 \<le> (a + s) div 8 * 8 \<or> a + s \<le> (a + 7) div 8 * 8"
    by (simp only: mult.commute)
  have "a \<le> 8 * ((a + 7) div 8)" using round_up_div_bounds [of 8 a] by simp
  with 1 show "a \<le> (a + s) div 8 * 8 \<or> a + s \<le> (a + 7) div 8 * 8"
    by (auto simp only: mult.commute dest: order_trans)
qed

lemma mem_is_zero_correct:
  assumes "sz \<le> 2 ^ 40" and "unat beg + unat sz + 8 \<le> 2 ^ 64"
  shows "mem_is_zero m beg sz = Some (\<forall>q. beg \<le> q \<and> q < beg + sz \<longrightarrow> m q = 0)"
proof -
  let ?fin = "beg + sz"
  have fin: "unat ?fin = unat beg + unat sz" using assms(2) by (simp add: unat_word_ariths)
  obtain ab where ab: "RoundUpTo beg 8 = Some ab" using RoundUpTo_exp [of beg 3] by simp
  then have uab: "unat ab = (unat beg + 7) div 8 * 8"
    using unat_RoundUpTo [of beg 3 ab] assms(2) by simp
  let ?ae = "RoundDownTo ?fin 8"
  have uae: "unat ?ae = unat ?fin div 8 * 8" using unat_RoundDownTo [of ?fin 3] by simp
  have "?ae \<le> ?fin" by (simp add: word_le_nat_alt uae)
  moreover have "beg \<le> ab" using uab by (simp add: word_le_nat_alt)
  moreover have "ab \<le> ?ae \<or> ?fin \<le> ab"
    unfolding word_le_nat_alt uab uae fin by (rule round8_cases(1))
  moreover have "beg \<le> ?ae \<or> ?fin \<le> ab"
    unfolding word_le_nat_alt uab uae fin by (rule round8_cases(2))
  ultimately have cover: "beg \<le> q \<and> q < ?fin \<longleftrightarrow> (beg \<le> q \<and> q < min ab ?fin) \<or> (ab \<le> q \<and> q < ?ae) \<or>
      (?ae \<ge> beg \<and> ?ae \<le> q \<and> q < ?fin)" for q
    by (auto simp: min_def)
  have d: "8 dvd unat ab" "8 dvd unat ?ae" by (simp_all add: uab uae)
  show ?thesis
    using assms(1) unfolding cover
    by (simp add: mem_is_zero_def ab push_bit_eq_mult or_bytes_eq_0_iff or_words_eq_0_iff [OF d]
        Let_def) blast
qed

lemma copy_up_at:
  assumes "unat s + (i + k) \<le> 2 ^ 64" and "unat d + (i + k) \<le> 2 ^ 64" and "d \<le> s"
  shows "copy_up d s i k m q =
    (if \<exists>j. i \<le> j \<and> j < i + k \<and> q = d + of_nat j then m (s + (q - d)) else m q)"
  using assms
proof (induction d s i k m rule: copy_up.induct)
  case (2 d s i k m)
  have nowrap: "unat (d + of_nat j) = unat d + j" "unat (s + of_nat j) = unat s + j"
    if "j < i + Suc k" for j
    using that 2(2,3) by (simp_all add: unat_add_of_nat)
  have kept: "(m(d + of_nat i := m (s + of_nat i))) (s + of_nat j) = m (s + of_nat j)"
    if "Suc i \<le> j" "j < i + Suc k" for j
  proof -
    have "s + of_nat j \<noteq> d + of_nat i"
      using that nowrap [of j] nowrap [of i] 2(4) by (auto simp: word_unat_eq_iff word_le_nat_alt)
    then show ?thesis by simp
  qed
  have later: "d + of_nat j \<noteq> d + of_nat i" if "Suc i \<le> j" "j < i + Suc k" for j
    using that nowrap(1) [of j] nowrap(1) [of i] by (auto simp: word_unat_eq_iff)
  have IH: "copy_up d s i (Suc k) m q = (if \<exists>j. Suc i \<le> j \<and> j < Suc i + k \<and> q = d + of_nat j
      then (m(d + of_nat i := m (s + of_nat i))) (s + (q - d))
      else (m(d + of_nat i := m (s + of_nat i))) q)"
    using 2(2-4) by (simp only: copy_up.simps, intro 2(1)) simp_all
  show ?case
  proof (cases "\<exists>j. Suc i \<le> j \<and> j < Suc i + k \<and> q = d + of_nat j")
    case True
    then obtain j where j: "Suc i \<le> j" "j < Suc i + k" "q = d + of_nat j" by blast
    then have "copy_up d s i (Suc k) m q = m (s + of_nat j)" using kept [of j] by (subst IH) auto
    moreover have "\<exists>j. i \<le> j \<and> j < i + Suc k \<and> q = d + of_nat j" using j by (intro exI [of _ j]) simp
    ultimately show ?thesis using j(3) by simp
  next
    case False
    then have "(\<exists>j. i \<le> j \<and> j < i + Suc k \<and> q = d + of_nat j) \<longleftrightarrow> q = d + of_nat i"
      by (metis Suc_leI add_Suc_right add_Suc le_neq_implies_less less_add_Suc1 order_refl)
    then show ?thesis using False by (subst IH) auto
  qed
qed auto

lemma copy_down_at:
  assumes "unat s + n \<le> 2 ^ 64" and "unat d + n \<le> 2 ^ 64" and "s \<le> d"
  shows "copy_down d s n m q = (if \<exists>j<n. q = d + of_nat j then m (s + (q - d)) else m q)"
  using assms
proof (induction d s n m rule: copy_down.induct)
  case (2 d s n m)
  have nowrap: "unat (d + of_nat j) = unat d + j" "unat (s + of_nat j) = unat s + j"
    if "j < Suc n" for j
    using that 2(2,3) by (simp_all add: unat_add_of_nat)
  have kept: "(m(d + of_nat n := m (s + of_nat n))) (s + of_nat j) = m (s + of_nat j)" if "j < n" for j
  proof -
    have "s + of_nat j \<noteq> d + of_nat n"
      using that nowrap [of j] nowrap [of n] 2(4) by (auto simp: word_unat_eq_iff word_le_nat_alt)
    then show ?thesis by simp
  qed
  have IH: "copy_down d s (Suc n) m q = (if \<exists>j<n. q = d + of_nat j
      then (m(d + of_nat n := m (s + of_nat n))) (s + (q - d))
      else (m(d + of_nat n := m (s + of_nat n))) q)"
    using 2(2-4) by (simp only: copy_down.simps, intro 2(1)) simp_all
  show ?case
  proof (cases "\<exists>j<n. q = d + of_nat j")
    case True
    then obtain j where j: "j < n" "q = d + of_nat j" by blast
    then have "copy_down d s (Suc n) m q = m (s + of_nat j)" using kept [of j] by (subst IH) auto
    moreover have "\<exists>j<Suc n. q = d + of_nat j" using j by (intro exI [of _ j]) simp
    ultimately show ?thesis using j(2) by simp
  next
    case False
    then have "(\<exists>j<Suc n. q = d + of_nat j) \<longleftrightarrow> q = d + of_nat n" by (auto simp: less_Suc_eq)
    then show ?thesis using False by (subst IH) auto
  qed
qed simp

text \<open>The range \<open>{p..<p+n}\<close> written by offset.\<close>

lemma ex_offset_iff: "(\<exists>j<unat n. q = p + of_nat j) \<longleftrightarrow> q - p < n" for p q n :: uptr
proof
  assume "q - p < n"
  then have "unat (q - p) < unat n \<and> q = p + of_nat (unat (q - p))" by (simp add: word_less_nat_alt)
  then show "\<exists>j<unat n. q = p + of_nat j" by blast
next
  assume "\<exists>j<unat n. q = p + of_nat j"
  then obtain j where "j < unat n" "q - p = of_nat j" by auto
  moreover have "unat (of_nat j :: uptr) = j"
    using \<open>j < unat n\<close> uptr_bound [of n] by (simp add: unat_of_nat)
  ultimately show "q - p < n" by (simp add: word_less_nat_alt)
qed

lemma ex_offset_from_0: "(\<exists>j. 0 \<le> j \<and> j < 0 + n \<and> P j) \<longleftrightarrow> (\<exists>j<n. P j)" for n :: nat
  by simp

lemma sint_nonneg_unat: "n < 2 ^ 63 \<Longrightarrow> sint n = int (unat n)" for n :: uptr
proof -
  assume "n < 2 ^ 63"
  then have "uint n < 2 ^ 63" by (simp add: word_less_alt)
  then have "uint n div 2 ^ 63 = 0" using uint_ge_0 [of n] by (simp only: div_pos_pos_trivial)
  then have "\<not> bit (uint n) 63" by (simp only: bit_iff_odd dvd_0_right simp_thms)
  then have "signed_take_bit 63 (uint n) = uint n"
    using \<open>uint n < 2 ^ 63\<close> by (simp add: signed_take_bit_eq_take_bit_minus take_bit_int_eq_self)
  then show ?thesis by (simp add: sint_uint)
qed

text \<open>
  C35: for every pair of ranges that do not wrap around the address space,
  overlapping or not, and a size that is not negative as a signed number,
  \<^verbatim>\<open>internal_memmove\<close> leaves at each destination byte the value its source byte
  had before the call and changes no other byte.
\<close>

theorem internal_memmove_correct:
  assumes "n < 2 ^ 63" and "unat src + unat n \<le> 2 ^ 64" and "unat dest + unat n \<le> 2 ^ 64"
  shows "internal_memmove m dest src n =
    Some (\<lambda>q. if q - dest < n then m (src + (q - dest)) else m q)"
proof -
  note sn = sint_nonneg_unat [OF assms(1)]
  consider "dest < src" | "src < dest" | "dest = src" by force
  then show ?thesis
  proof cases
    case 1
    then show ?thesis using assms copy_up_at [of src 0 "unat n" dest m]
      by (simp add: internal_memmove_def sn ex_offset_from_0 ex_offset_iff fun_eq_iff)
  next
    case 2
    then have down: "copy_down dest src (unat n) m =
        (\<lambda>q. if q - dest < n then m (src + (q - dest)) else m q)"
      using assms copy_down_at [of src "unat n" dest m] by (simp add: ex_offset_iff fun_eq_iff)
    show ?thesis
    proof (cases "n = 0")
      case True
      then show ?thesis using 2 by (simp add: internal_memmove_def)
    next
      case False
      moreover have "\<not> dest < src" using 2 by simp
      ultimately show ?thesis using 2 down
        by (simp add: internal_memmove_def sn Let_def unat_gt_0 del: of_nat_unat)
    qed
  next
    case 3
    then show ?thesis by (simp add: internal_memmove_def sn fun_eq_iff)
  qed
qed

theorem internal_memmove_correct_witness:
  "internal_memmove (\<lambda>q. ucast q) 0x1002 0x1000 4 =
    Some (\<lambda>q. if q - 0x1002 < 4 then ucast (0x1000 + (q - 0x1002)) else ucast q)"
  by (rule internal_memmove_correct) simp_all

lemma ex_offset_Suc:
  "(\<exists>j<Suc k. q = t + of_nat j) \<longleftrightarrow> q = t \<or> (\<exists>j<k. q = (t + 1) + of_nat j)" for t q :: uptr
proof -
  have "t + of_nat (Suc j) = (t + 1) + of_nat j" for j by simp
  then show ?thesis by (auto simp: less_Suc_eq_0_disj ex_disj_distrib conj_disj_distribR)
qed

lemma memset_bytes_at: "memset_bytes c t k m q = (if \<exists>j<k. q = t + of_nat j then c else m q)"
proof (induction c t k m rule: memset_bytes.induct)
  case (2 c t k m)
  then show ?case unfolding ex_offset_Suc by (simp only: memset_bytes.simps) auto
qed simp

text \<open>The replication of the byte in \<^verbatim>\<open>internal_memset\<close> and the bytes it stores.\<close>

definition replicate_byte :: "u64 \<Rightarrow> u64" where
  "replicate_byte c = (let v = c OR push_bit 8 c; v = v OR push_bit 16 v in v OR push_bit 32 v)"

lemma replicate_byte_bytes:
  assumes "c < 256" and "j < 8"
  shows "ucast (drop_bit (8 * j) (replicate_byte c)) = (ucast c :: u8)"
proof (rule bit_word_eqI)
  fix n assume n: "n < LENGTH(8)"
  have hi: "\<not> bit c i" if "8 \<le> i" for i
  proof -
    have "take_bit 8 c = c" using assms(1) by (simp add: take_bit_eq_mod mod_word_less)
    then show ?thesis using that by (metis bit_take_bit_iff leD)
  qed
  have "j = 0 \<or> j = 1 \<or> j = 2 \<or> j = 3 \<or> j = 4 \<or> j = 5 \<or> j = 6 \<or> j = 7" using assms(2) by arith
  then show "bit (ucast (drop_bit (8 * j) (replicate_byte c)) :: u8) n \<longleftrightarrow> bit (ucast c :: u8) n"
    using n by (elim disjE) (auto simp: replicate_byte_def Let_def bit_simps hi)
qed

lemma load64_cong: "(\<And>j. j < 8 \<Longrightarrow> m (p + of_nat j) = m' (p + of_nat j)) \<Longrightarrow> load64 m p = load64 m' p"
  unfolding load64_def by (rule fold_cong) auto

lemma load64_store64: "load64 (store64 m p v) p = v"
proof (rule bit_word_eqI)
  fix n assume "n < LENGTH(64)"
  then have "bit (load64 (store64 m p v) p) n \<longleftrightarrow> (\<exists>j<8. 8 * j \<le> n \<and> n - 8 * j < 8 \<and> bit v n)"
    unfolding load64_def bit_fold_or
    by (auto simp: store64_def word_less_nat_alt unat_of_nat bit_simps intro!: exI [of _ "n div 8"])
  also have "\<dots> \<longleftrightarrow> bit v n"
    using \<open>n < LENGTH(64)\<close> by (auto intro!: exI [of _ "n div 8"])
  finally show "bit (load64 (store64 m p v) p) n \<longleftrightarrow> bit v n" .
qed

lemma store64_replicate:
  assumes "c < 256"
  shows "store64 m p (replicate_byte c) q = (if q - p < 8 then ucast c else m q)"
  using replicate_byte_bytes [OF assms, of "unat (q - p)"]
  by (simp add: store64_def word_less_nat_alt)

lemma store64_pair:
  assumes "c < 256"
  shows "store64 (store64 m (p + 8) (replicate_byte c)) p (replicate_byte c) q =
    (if q - p < 16 then ucast c else m q)"
proof -
  have "q - p < 16 \<longleftrightarrow> q - p < 8 \<or> q - (p + 8) < 8"
  proof -
    have "unat x < 16 \<longleftrightarrow> unat x < 8 \<or> unat (x - 8) < 8" for x :: uptr
      using unat_sub [of 8 x] by (cases "8 \<le> x") (auto simp: word_le_nat_alt unat_sub_if')
    then show ?thesis by (simp add: word_less_nat_alt diff_diff_add [symmetric])
  qed
  then show ?thesis by (simp add: store64_replicate [OF assms])
qed

lemma memset_words_at:
  assumes "c < 256"
  shows "memset_words (replicate_byte c) p k m q =
    (if \<exists>i<k. q - (p + 16 * of_nat i) < 16 then ucast c else m q)"
proof (induction "replicate_byte c" p k m rule: memset_words.induct)
  case (2 p k m)
  have "(\<exists>i<Suc k. q - (p + 16 * of_nat i) < 16) \<longleftrightarrow>
      q - p < 16 \<or> (\<exists>i<k. q - (p + 16 + 16 * of_nat i) < 16)"
    by (auto simp: less_Suc_eq_0_disj ex_disj_distrib conj_disj_distribR add.assoc)
  then show ?case unfolding memset_words.simps 2 store64_pair [OF assms] by (simp only:) auto
qed simp

text \<open>Sixteen-byte blocks tile a range of a multiple of sixteen bytes.\<close>

lemma blocks_iff:
  fixes p q n :: uptr
  assumes "n mod 16 = 0"
  shows "(\<exists>i<unat n div 16. q - (p + 16 * of_nat i) < 16) \<longleftrightarrow> q - p < n"
proof -
  define x where "x = q - p"
  have n: "unat n = 16 * (unat n div 16)"
  proof -
    have "unat n mod 16 = 0" using assms by (simp add: word_unat_eq_iff unat_mod)
    then show ?thesis by (metis mult_div_mod_eq add_0_right)
  qed
  have block: "x - 16 * of_nat i < 16 \<longleftrightarrow> 16 * i \<le> unat x \<and> unat x < 16 * i + 16"
    if "i < unat n div 16" for i
  proof -
    have "16 * i + 16 \<le> unat n" using that n by linarith
    then have b: "16 * i + 16 < 2 ^ 64" using uptr_bound [of n] by linarith
    then have u: "unat (16 * of_nat i :: uptr) = 16 * i" by (simp add: unat_word_ariths unat_of_nat)
    show ?thesis
      using b uptr_bound [of x] by (simp add: word_less_nat_alt unat_sub_if' u) linarith
  qed
  have "(\<exists>i<unat n div 16. x - 16 * of_nat i < 16) \<longleftrightarrow> unat x < unat n"
  proof
    assume "\<exists>i<unat n div 16. x - 16 * of_nat i < 16"
    then obtain i where "i < unat n div 16" "unat x < 16 * i + 16" using block by blast
    then show "unat x < unat n" using n by linarith
  next
    assume l: "unat x < unat n"
    have "unat x div 16 < unat n div 16" using l n by (simp add: less_mult_imp_div_less mult.commute)
    moreover have "16 * (unat x div 16) \<le> unat x" "unat x < 16 * (unat x div 16) + 16" by simp_all
    ultimately show "\<exists>i<unat n div 16. x - 16 * of_nat i < 16" using block by blast
  qed
  then show ?thesis by (simp add: x_def word_less_nat_alt diff_diff_add)
qed

text \<open>
  C36: when the fill value is a byte value, both the 16-byte-block path and the
  byte path of \<^verbatim>\<open>internal_memset\<close> set exactly the bytes of the range.
\<close>

theorem internal_memset_correct:
  assumes "0 \<le> c" and "c < 256"
  shows "internal_memset m s c n = memset m s (word_of_int c) n"
proof -
  have c: "(word_of_int c :: u64) < 256" using assms by (simp add: word_less_alt uint_word_of_int)
  have u: "(ucast (word_of_int c :: u64) :: u8) = word_of_int c"
    by (rule bit_word_eqI) (simp add: bit_simps)
  show ?thesis
  proof (cases "s mod 16 = 0 \<and> n mod 16 = 0")
    case True
    then have "internal_memset m s c n =
        memset_words (replicate_byte (word_of_int c)) s (unat n div 16) m"
      by (simp add: internal_memset_def replicate_byte_def Let_def)
    then show ?thesis using True blocks_iff [of n]
      by (simp add: memset_words_at [OF c] u memset_def fun_eq_iff)
  next
    case False
    then show ?thesis
      by (auto simp: internal_memset_def memset_bytes_at ex_offset_iff memset_def fun_eq_iff)
  qed
qed

theorem internal_memset_correct_witness:
  "internal_memset (\<lambda>_. 0) 0x1000 0xfa 32 = memset (\<lambda>_. 0) 0x1000 (word_of_int 0xfa) 32"
  by (rule internal_memset_correct) simp_all

text \<open>
  With a negative fill value the block path sign-extends it into the pattern,
  while the byte path stores its low byte: filling 16 aligned bytes with \<open>-256\<close>
  stores \<open>255\<close> at offset 1 where the byte path stores \<open>0\<close>.
\<close>

theorem internal_memset_wide_value_differs:
  "internal_memset (\<lambda>_. 0) 0x1000 (-256) 16 0x1001 = 255 \<and>
   memset (\<lambda>_. 0) 0x1000 (word_of_int (-256)) 16 0x1001 = 0"
  by (simp add: internal_memset_def memset_def store64_def)

end
