(* ===== verification/Ring_Buffer.thy ===== *)
theory Ring_Buffer
  imports San_Prelude
begin

text \<open>
  \<^verbatim>\<open>RingBuffer<T>\<close> of \<^verbatim>\<open>sanitizer_ring_buffer.h\<close> (lines 21--79). The object is one
  mapping: the two pointers \<^verbatim>\<open>last_\<close> and \<^verbatim>\<open>next_\<close> followed by the data elements.
  A \<^verbatim>\<open>T *\<close> into it is modelled by the (signed) element index it stands for; the byte
  offset of element \<open>i\<close> from \<^verbatim>\<open>this\<close> is \<open>16 + sizeof(T) * i\<close>, and \<^verbatim>\<open>&next_\<close>
  is at offset 8. \<open>None\<close> is a failed \<^verbatim>\<open>CHECK\<close> or an access outside the mapping.
\<close>

section \<open>The buffer and its operations\<close>

record 'a RingBuffer =
  rb_sizeof :: int       \<comment> \<open>\<open>sizeof(T)\<close>\<close>
  rb_last :: int         \<comment> \<open>\<open>last_\<close>\<close>
  rb_next :: int         \<comment> \<open>\<open>next_\<close>\<close>
  rb_data :: "'a list"   \<comment> \<open>\<open>data_\<close>\<close>

text \<open>The mapping that \<^verbatim>\<open>MmapOrDie\<close> returns is zero filled; \<open>zero\<close> is the element
  whose bytes are all zero.\<close>

definition ring_New :: "int \<Rightarrow> 'a \<Rightarrow> nat \<Rightarrow> 'a RingBuffer" where
  "ring_New sizeof_T zero n =
     \<lparr>rb_sizeof = sizeof_T, rb_last = int n - 1, rb_next = int n - 1,
      rb_data = replicate n zero\<rparr>"

definition ring_size :: "'a RingBuffer \<Rightarrow> int" where
  "ring_size rb = rb_last rb + 1 - 0"

definition ring_SizeInBytes :: "int \<Rightarrow> int \<Rightarrow> int" where
  "ring_SizeInBytes sizeof_T n = n * sizeof_T + 2 * 8"

definition ring_elt_addr :: "'a RingBuffer \<Rightarrow> int \<Rightarrow> int" where
  "ring_elt_addr rb i = 16 + rb_sizeof rb * i"

definition ring_load :: "'a RingBuffer \<Rightarrow> int \<Rightarrow> 'a option" where
  "ring_load rb i = (if 0 \<le> i \<and> i < int (length (rb_data rb)) then Some (rb_data rb ! nat i) else None)"

definition ring_push :: "'a \<Rightarrow> 'a RingBuffer \<Rightarrow> 'a RingBuffer option" where
  "ring_push t rb = do {
     CHECK (0 \<le> rb_next rb \<and> rb_next rb < int (length (rb_data rb)));
     let data = (rb_data rb)[nat (rb_next rb) := t];
     let nxt = rb_next rb - 1;
     let nxt = (if ring_elt_addr rb nxt \<le> 8 then rb_last rb else nxt);
     Some (rb\<lparr>rb_data := data, rb_next := nxt\<rparr>)
   }"

definition ring_index :: "'a RingBuffer \<Rightarrow> nat \<Rightarrow> 'a option" where
  "ring_index rb idx = do {
     CHECK (int idx < ring_size rb);
     let idx_next = int idx + 1;
     let idx_next = (if idx_next > rb_last rb - rb_next rb then idx_next - ring_size rb else idx_next);
     ring_load rb (rb_next rb + idx_next)
   }"

section \<open>Invariant and abstraction\<close>

text \<open>The invariant: \<^verbatim>\<open>last_\<close> is the last element, \<^verbatim>\<open>next_\<close> points into the data,
  and \<^verbatim>\<open>sizeof(T)\<close> is a positive multiple of the pointer size (the class's
  \<^verbatim>\<open>COMPILER_CHECK\<close>).\<close>

definition ring_inv :: "'a RingBuffer \<Rightarrow> bool" where
  "ring_inv rb \<longleftrightarrow> 0 < rb_sizeof rb \<and> rb_sizeof rb mod 8 = 0 \<and> rb_data rb \<noteq> [] \<and>
     rb_last rb = int (length (rb_data rb)) - 1 \<and> 0 \<le> rb_next rb \<and> rb_next rb \<le> rb_last rb"

text \<open>The contents, most recent first: the elements after \<^verbatim>\<open>next_\<close>, then the elements
  up to and including it.\<close>

definition ring_contents :: "'a RingBuffer \<Rightarrow> 'a list" where
  "ring_contents rb = drop (nat (rb_next rb) + 1) (rb_data rb) @ take (nat (rb_next rb) + 1) (rb_data rb)"

lemma ring_New_inv:
  "0 < n \<Longrightarrow> 0 < sz \<Longrightarrow> sz mod 8 = 0 \<Longrightarrow> ring_inv (ring_New sz zero n)"
  by (simp add: ring_New_def ring_inv_def)

lemma ring_New_contents: "0 < n \<Longrightarrow> ring_contents (ring_New sz zero n) = replicate n zero"
  by (simp add: ring_New_def ring_contents_def nat_diff_distrib)

lemma ring_size_contents: "ring_inv rb \<Longrightarrow> ring_size rb = int (length (ring_contents rb))"
  by (simp add: ring_inv_def ring_size_def ring_contents_def)

lemma ring_wraps_iff: "ring_inv rb \<Longrightarrow> ring_elt_addr rb (rb_next rb - 1) \<le> 8 \<longleftrightarrow> rb_next rb = 0"
proof -
  assume inv: "ring_inv rb"
  then have sz: "8 \<le> rb_sizeof rb" and nx: "0 \<le> rb_next rb"
    by (auto simp: ring_inv_def zmod_eq_0_iff)
  show ?thesis
  proof
    assume "ring_elt_addr rb (rb_next rb - 1) \<le> 8"
    then have "rb_sizeof rb * (rb_next rb - 1) \<le> -8" by (simp add: ring_elt_addr_def)
    then have "rb_next rb - 1 < 0" using sz by (smt (verit) mult_nonneg_nonneg)
    with nx show "rb_next rb = 0" by simp
  next
    assume "rb_next rb = 0"
    with sz show "ring_elt_addr rb (rb_next rb - 1) \<le> 8" by (simp add: ring_elt_addr_def)
  qed
qed

lemma ring_push_total: "ring_inv rb \<Longrightarrow> \<exists>rb'. ring_push t rb = Some rb'"
  by (auto simp: ring_push_def ring_inv_def Let_def)

lemma ring_push_inv:
  assumes "ring_inv rb" and "ring_push t rb = Some rb'"
  shows "ring_inv rb'" and "rb_sizeof rb' = rb_sizeof rb"
  using assms ring_wraps_iff [OF assms(1)]
  by (auto simp: ring_push_def Let_def ring_inv_def split: if_splits)

lemma ring_push_contents:
  assumes "ring_inv rb" and "ring_push t rb = Some rb'"
  shows "ring_contents rb' = t # butlast (ring_contents rb)"
proof -
  define d k where "d = rb_data rb" and "k = nat (rb_next rb)"
  from assms(1) have k: "k < length d" "rb_next rb = int k"
    and last: "rb_last rb = int (length d) - 1"
    by (auto simp: ring_inv_def d_def k_def)
  have w: "ring_elt_addr rb (int k - 1) \<le> 8 \<longleftrightarrow> k = 0"
    using ring_wraps_iff [OF assms(1)] k by simp
  have rb': "rb_data rb' = d[k := t]" "rb_next rb' = (if k = 0 then int (length d) - 1 else int k - 1)"
    using assms(2) k last w by (auto simp: ring_push_def Let_def d_def)
  have but: "butlast (take (Suc k) d) = take k d"
    using k by (simp add: butlast_take)
  show ?thesis
  proof (cases "k = 0")
    case True
    then have "ring_contents rb' = d[0 := t]" using rb' k by (simp add: ring_contents_def nat_diff_distrib)
    moreover have "ring_contents rb = drop 1 d @ take 1 d"
      using True by (simp add: ring_contents_def d_def k_def)
    ultimately show ?thesis using k True by (cases d) auto
  next
    case False
    have "ring_contents rb' = drop k (d[k := t]) @ take k (d[k := t])"
      using rb' False by (simp add: ring_contents_def nat_diff_distrib)
    also have "\<dots> = t # drop (Suc k) d @ take k d"
      using k by (simp add: drop_update_swap Cons_nth_drop_Suc [symmetric])
    finally have "ring_contents rb' = t # drop (Suc k) d @ take k d" .
    moreover have "ring_contents rb = drop (Suc k) d @ take (Suc k) d"
      by (simp add: ring_contents_def d_def k_def)
    ultimately show ?thesis using k but by (simp add: butlast_append)
  qed
qed

lemma ring_index_contents:
  assumes "ring_inv rb" and "i < length (ring_contents rb)"
  shows "ring_index rb i = Some (ring_contents rb ! i)"
proof -
  define d k where "d = rb_data rb" and "k = nat (rb_next rb)"
  from assms(1) have k: "k < length d" "rb_next rb = int k"
    and last: "rb_last rb = int (length d) - 1"
    by (auto simp: ring_inv_def d_def k_def)
  have i: "i < length d" using assms(2) by (simp add: ring_contents_def d_def)
  have c: "ring_contents rb = drop (Suc k) d @ take (Suc k) d"
    by (simp add: ring_contents_def d_def k_def)
  show ?thesis
  proof (cases "i < length d - Suc k")
    case True
    then have "ring_index rb i = ring_load rb (int (Suc k + i))"
      using k last i by (auto simp: ring_index_def ring_size_def Let_def algebra_simps)
    also have "\<dots> = Some (d ! (Suc k + i))"
      using True by (simp add: ring_load_def d_def [symmetric] nat_add_distrib)
    finally show ?thesis using True by (simp add: c nth_append)
  next
    case False
    then have "ring_index rb i = ring_load rb (int (i - (length d - Suc k)))"
      using k last i by (auto simp: ring_index_def ring_size_def Let_def of_nat_diff algebra_simps)
    also have "\<dots> = Some (d ! (i - (length d - Suc k)))"
      using False i by (simp add: ring_load_def d_def [symmetric] nat_diff_distrib)
    finally show ?thesis using False i k by (simp add: c nth_append)
  qed
qed

section \<open>The contract of a bounded history\<close>

text \<open>
  What a client of the buffer relies on: pushing an element makes it the first entry
  and drops the oldest one, and indexing reads the entries in that order.
  \<open>push_all\<close> pushes a list of elements, oldest first.
\<close>

fun push_all :: "('a \<Rightarrow> 'b \<Rightarrow> 'b option) \<Rightarrow> 'a list \<Rightarrow> 'b \<Rightarrow> 'b option" where
  "push_all push [] b = Some b"
| "push_all push (x # xs) b = Option.bind (push x b) (push_all push xs)"

locale bounded_history =
  fixes push :: "'a \<Rightarrow> 'b \<Rightarrow> 'b option"
    and index :: "'b \<Rightarrow> nat \<Rightarrow> 'a option"
    and contents :: "'b \<Rightarrow> 'a list"
    and invar :: "'b \<Rightarrow> bool"
  assumes push_ok: "invar b \<Longrightarrow> \<exists>b'. push t b = Some b' \<and> invar b' \<and> contents b' = t # butlast (contents b)"
    and index_ok: "invar b \<Longrightarrow> i < length (contents b) \<Longrightarrow> index b i = Some (contents b ! i)"
    and nonempty: "invar b \<Longrightarrow> contents b \<noteq> []"
begin

lemma push_all_contents:
  assumes "invar b"
  shows "\<exists>b'. push_all push xs b = Some b' \<and> invar b' \<and>
    contents b' = take (length (contents b)) (rev xs @ contents b)"
  using assms
proof (induction xs arbitrary: b)
  case Nil
  then show ?case by simp
next
  case (Cons x xs)
  obtain b1 where b1: "push x b = Some b1" "invar b1" "contents b1 = x # butlast (contents b)"
    using push_ok [OF Cons.prems] by blast
  obtain b' where b': "push_all push xs b1 = Some b'" "invar b'"
    "contents b' = take (length (contents b1)) (rev xs @ contents b1)"
    using Cons.IH [OF b1(2)] by blast
  have len: "length (contents b1) = length (contents b)"
    using b1(3) nonempty [OF Cons.prems] by (cases "contents b") auto
  have "take (length (contents b)) (rev xs @ x # butlast (contents b)) =
      take (length (contents b)) (rev (x # xs) @ contents b)"
    by (cases "contents b" rule: rev_cases) (auto simp: take_Cons')
  with b' b1(1,3) len show ?case by simp
qed

end

interpretation ring: bounded_history ring_push ring_index ring_contents ring_inv
proof unfold_locales
  fix b :: "'a RingBuffer" and t
  assume inv: "ring_inv b"
  obtain b' where "ring_push t b = Some b'" by (rule exE [OF ring_push_total [OF inv]])
  with inv show "\<exists>b'. ring_push t b = Some b' \<and> ring_inv b' \<and> ring_contents b' = t # butlast (ring_contents b)"
    by (intro exI [of _ b']) (simp add: ring_push_inv ring_push_contents)
  show "ring_contents b \<noteq> []"
    using inv by (auto simp: ring_inv_def ring_contents_def)
qed (rule ring_index_contents)

section \<open>The history a buffer holds\<close>

text \<open>
  C37: after pushing any list of elements on a fresh buffer of \<open>n\<close> elements, index \<open>i < n\<close>
  reads the \<open>i\<close>-th most recent element (or the zero element when fewer were pushed), and an
  index from \<open>n\<close> on fails its \<^verbatim>\<open>CHECK\<close>.
\<close>

theorem ring_buffer_history:
  assumes "0 < n" and "0 < sz" and "sz mod 8 = 0"
  shows "\<exists>rb. push_all ring_push xs (ring_New sz zero n) = Some rb \<and>
    (\<forall>i. ring_index rb i = (if i < n then Some ((rev xs @ replicate n zero) ! i) else None))"
proof -
  have inv: "ring_inv (ring_New sz zero n)" using assms by (rule ring_New_inv)
  obtain rb where rb: "push_all ring_push xs (ring_New sz zero n) = Some rb" "ring_inv rb"
    "ring_contents rb = take n (rev xs @ replicate n zero)"
    by (rule exE [OF ring.push_all_contents [OF inv, of xs]])
      (simp add: ring_New_contents assms)
  have len: "length (ring_contents rb) = n" using rb(3) by simp
  have "ring_index rb i = (if i < n then Some ((rev xs @ replicate n zero) ! i) else None)" for i
  proof (cases "i < n")
    case True
    then have "ring_index rb i = Some (ring_contents rb ! i)"
      using ring.index_ok [OF rb(2)] len by simp
    then show ?thesis using True by (simp add: rb(3) del: take_append)
  next
    case False
    then show ?thesis using ring_size_contents [OF rb(2)] len
      by (simp add: ring_index_def bind_CHECK)
  qed
  with rb(1) show ?thesis by (intro exI [of _ rb]) simp
qed

theorem ring_buffer_history_witness:
  "\<exists>rb. push_all ring_push [1, 2, 3, 4::nat] (ring_New 24 0 3) = Some rb \<and>
    (\<forall>i. ring_index rb i = (if i < 3 then Some ((rev [1, 2, 3, 4] @ replicate 3 0) ! i) else None))"
  by (rule ring_buffer_history) simp_all

end
