(* ===== verification/Asan_Mapping.thy ===== *)
theory Asan_Mapping
  imports San_Math
begin

text \<open>
  The shadow mapping of \<^verbatim>\<open>asan_mapping.h\<close> (lines 164--406): one shadow byte per
  eight bytes of application memory, at \<open>(a >> 3) + offset\<close>. The offset and the limits
  that \<^verbatim>\<open>__asan_init\<close> fills in are the fields of a record, so the lemmas hold for every
  platform whose layout satisfies their hypotheses.
\<close>

unbundle bit_operations_syntax

section \<open>Constants and predicates\<close>

record asan_mapping =
  ASAN_SHADOW_OFFSET :: uptr
  kHighMemEnd :: uptr
  kMidMemBeg :: uptr
  kMidMemEnd :: uptr
  protect_shadow_gap :: bool

definition ASAN_SHADOW_SCALE :: nat where
  "ASAN_SHADOW_SCALE = 3"

definition ASAN_SHADOW_GRANULARITY :: uptr where
  "ASAN_SHADOW_GRANULARITY = push_bit ASAN_SHADOW_SCALE 1"

definition MEM_TO_SHADOW :: "asan_mapping \<Rightarrow> uptr \<Rightarrow> uptr" where
  "MEM_TO_SHADOW m a = drop_bit ASAN_SHADOW_SCALE a + ASAN_SHADOW_OFFSET m"

definition SHADOW_TO_MEM :: "asan_mapping \<Rightarrow> uptr \<Rightarrow> uptr" where
  "SHADOW_TO_MEM m s = push_bit ASAN_SHADOW_SCALE (s - ASAN_SHADOW_OFFSET m)"

definition kLowMemEnd :: "asan_mapping \<Rightarrow> uptr" where
  "kLowMemEnd m = (if ASAN_SHADOW_OFFSET m \<noteq> 0 then ASAN_SHADOW_OFFSET m - 1 else 0)"

definition kLowShadowBeg :: "asan_mapping \<Rightarrow> uptr" where
  "kLowShadowBeg m = ASAN_SHADOW_OFFSET m"

definition kLowShadowEnd :: "asan_mapping \<Rightarrow> uptr" where
  "kLowShadowEnd m = MEM_TO_SHADOW m (kLowMemEnd m)"

definition kHighMemBeg :: "asan_mapping \<Rightarrow> uptr" where
  "kHighMemBeg m = MEM_TO_SHADOW m (kHighMemEnd m) + 1"

definition kHighShadowBeg :: "asan_mapping \<Rightarrow> uptr" where
  "kHighShadowBeg m = MEM_TO_SHADOW m (kHighMemBeg m)"

definition kHighShadowEnd :: "asan_mapping \<Rightarrow> uptr" where
  "kHighShadowEnd m = MEM_TO_SHADOW m (kHighMemEnd m)"

definition kMidShadowBeg :: "asan_mapping \<Rightarrow> uptr" where
  "kMidShadowBeg m = MEM_TO_SHADOW m (kMidMemBeg m)"

definition kMidShadowEnd :: "asan_mapping \<Rightarrow> uptr" where
  "kMidShadowEnd m = MEM_TO_SHADOW m (kMidMemEnd m)"

definition kShadowGapBeg :: "asan_mapping \<Rightarrow> uptr" where
  "kShadowGapBeg m = (if kLowShadowEnd m \<noteq> 0 then kLowShadowEnd m + 1 else 0)"

definition kShadowGapEnd :: "asan_mapping \<Rightarrow> uptr" where
  "kShadowGapEnd m = (if kMidMemBeg m \<noteq> 0 then kMidShadowBeg m else kHighShadowBeg m) - 1"

definition kShadowGap2Beg :: "asan_mapping \<Rightarrow> uptr" where
  "kShadowGap2Beg m = (if kMidMemBeg m \<noteq> 0 then kMidShadowEnd m + 1 else 0)"

definition kShadowGap2End :: "asan_mapping \<Rightarrow> uptr" where
  "kShadowGap2End m = (if kMidMemBeg m \<noteq> 0 then kMidMemBeg m - 1 else 0)"

definition kShadowGap3Beg :: "asan_mapping \<Rightarrow> uptr" where
  "kShadowGap3Beg m = (if kMidMemBeg m \<noteq> 0 then kMidMemEnd m + 1 else 0)"

definition kShadowGap3End :: "asan_mapping \<Rightarrow> uptr" where
  "kShadowGap3End m = (if kMidMemBeg m \<noteq> 0 then kHighShadowBeg m - 1 else 0)"

definition AddrIsInLowMem :: "asan_mapping \<Rightarrow> uptr \<Rightarrow> bool" where
  "AddrIsInLowMem m a \<longleftrightarrow> a \<le> kLowMemEnd m"

definition AddrIsInLowShadow :: "asan_mapping \<Rightarrow> uptr \<Rightarrow> bool" where
  "AddrIsInLowShadow m a \<longleftrightarrow> a \<ge> kLowShadowBeg m \<and> a \<le> kLowShadowEnd m"

definition AddrIsInMidMem :: "asan_mapping \<Rightarrow> uptr \<Rightarrow> bool" where
  "AddrIsInMidMem m a \<longleftrightarrow> kMidMemBeg m \<noteq> 0 \<and> a \<ge> kMidMemBeg m \<and> a \<le> kMidMemEnd m"

definition AddrIsInMidShadow :: "asan_mapping \<Rightarrow> uptr \<Rightarrow> bool" where
  "AddrIsInMidShadow m a \<longleftrightarrow> kMidMemBeg m \<noteq> 0 \<and> a \<ge> kMidShadowBeg m \<and> a \<le> kMidShadowEnd m"

definition AddrIsInHighMem :: "asan_mapping \<Rightarrow> uptr \<Rightarrow> bool" where
  "AddrIsInHighMem m a \<longleftrightarrow> kHighMemBeg m \<noteq> 0 \<and> a \<ge> kHighMemBeg m \<and> a \<le> kHighMemEnd m"

definition AddrIsInHighShadow :: "asan_mapping \<Rightarrow> uptr \<Rightarrow> bool" where
  "AddrIsInHighShadow m a \<longleftrightarrow> kHighMemBeg m \<noteq> 0 \<and> a \<ge> kHighShadowBeg m \<and> a \<le> kHighShadowEnd m"

definition AddrIsInShadowGap :: "asan_mapping \<Rightarrow> uptr \<Rightarrow> bool" where
  "AddrIsInShadowGap m a =
     (if kMidMemBeg m \<noteq> 0 then
        (if a \<le> kShadowGapEnd m then ASAN_SHADOW_OFFSET m = 0 \<or> a \<ge> kShadowGapBeg m
         else (a \<ge> kShadowGap2Beg m \<and> a \<le> kShadowGap2End m) \<or>
              (a \<ge> kShadowGap3Beg m \<and> a \<le> kShadowGap3End m))
      else if ASAN_SHADOW_OFFSET m = 0 then a \<le> kShadowGapEnd m
      else a \<ge> kShadowGapBeg m \<and> a \<le> kShadowGapEnd m)"

definition MemToShadowSize :: "uptr \<Rightarrow> uptr" where
  "MemToShadowSize sz = drop_bit ASAN_SHADOW_SCALE sz"

definition AddrIsInMem :: "asan_mapping \<Rightarrow> uptr \<Rightarrow> bool" where
  "AddrIsInMem m a \<longleftrightarrow> AddrIsInLowMem m a \<or> AddrIsInMidMem m a \<or> AddrIsInHighMem m a \<or>
     (\<not> protect_shadow_gap m \<and> AddrIsInShadowGap m a)"

definition MemToShadow :: "asan_mapping \<Rightarrow> uptr \<Rightarrow> uptr option" where
  "MemToShadow m p = do { CHECK (AddrIsInMem m p); Some (MEM_TO_SHADOW m p) }"

definition AddrIsInShadow :: "asan_mapping \<Rightarrow> uptr \<Rightarrow> bool" where
  "AddrIsInShadow m a \<longleftrightarrow> AddrIsInLowShadow m a \<or> AddrIsInMidShadow m a \<or> AddrIsInHighShadow m a"

definition ShadowToMem :: "asan_mapping \<Rightarrow> uptr \<Rightarrow> uptr option" where
  "ShadowToMem m p = do { CHECK (AddrIsInShadow m p); Some (SHADOW_TO_MEM m p) }"

definition AddrIsAlignedByGranularity :: "uptr \<Rightarrow> bool" where
  "AddrIsAlignedByGranularity a \<longleftrightarrow> a AND (ASAN_SHADOW_GRANULARITY - 1) = 0"

text \<open>The shadow byte of \<open>a\<close>, read as a signed 8-bit value, says how many leading bytes
  of the granule may be accessed: all eight if it is 0, none if it is negative.\<close>

definition AddressIsPoisoned :: "asan_mapping \<Rightarrow> (uptr \<Rightarrow> u8) \<Rightarrow> uptr \<Rightarrow> bool" where
  "AddressIsPoisoned m mem a =
     (let kAccessSize = 1;
          shadow_value = sint (mem (MEM_TO_SHADOW m a))
      in if shadow_value \<noteq> 0 then
           (let last_accessed_byte =
                  (ucast ((a AND (ASAN_SHADOW_GRANULARITY - 1)) + kAccessSize - 1) :: u8)
            in uint last_accessed_byte \<ge> shadow_value)
         else False)"

section \<open>Granules\<close>

text \<open>An address is a granule number and an offset inside the granule.\<close>

definition granule :: "uptr \<Rightarrow> nat" where
  "granule a = unat a div 8"

definition goffset :: "uptr \<Rightarrow> nat" where
  "goffset a = unat a mod 8"

lemma granularity_eq [simp]: "ASAN_SHADOW_GRANULARITY = 8"
  by (simp add: ASAN_SHADOW_GRANULARITY_def ASAN_SHADOW_SCALE_def push_bit_eq_mult)

lemma goffset_less: "goffset a < 8" "goffset a \<le> 7"
  by (simp_all add: goffset_def flip: less_Suc_eq_le)

lemma unat_granule: "unat a = 8 * granule a + goffset a"
  by (simp add: granule_def goffset_def)

lemma granule_bound: "granule a < 2 ^ 61"
  using uptr_bound [of a] by (simp add: granule_def)

lemma addr_less_iff: "a < b \<longleftrightarrow> granule a < granule b \<or> (granule a = granule b \<and> goffset a < goffset b)"
  using goffset_less [of a] goffset_less [of b]
  by (simp only: word_less_nat_alt unat_granule) linarith

lemma addr_le_iff: "a \<le> b \<longleftrightarrow> granule a < granule b \<or> (granule a = granule b \<and> goffset a \<le> goffset b)"
  using goffset_less [of a] goffset_less [of b]
  by (simp only: word_le_nat_alt unat_granule) linarith

lemma addr_eq_iff: "a = b \<longleftrightarrow> granule a = granule b \<and> goffset a = goffset b"
  by (metis unat_granule word_unat_eq_iff)

lemma unat_and_7: "unat (a AND 7 :: uptr) = goffset a"
  using unat_and_mask [of a 3] by (simp add: goffset_def mask_eq_exp_minus_1)

lemma unat_drop_bit_3: "unat (drop_bit 3 a :: uptr) = granule a"
  unfolding unat_drop_bit_eq unfolding drop_bit_eq_div granule_def by simp

lemma aligned_iff: "AddrIsAlignedByGranularity a \<longleftrightarrow> goffset a = 0"
  by (simp add: AddrIsAlignedByGranularity_def unat_eq_0 [symmetric] unat_and_7)

lemma RoundDownTo_granule [simp]:
  "granule (RoundDownTo a 8) = granule a" "goffset (RoundDownTo a 8) = 0"
  using unat_RoundDownTo [of a 3] by (simp_all add: granule_def goffset_def)

lemma MEM_TO_SHADOW_eq_iff: "MEM_TO_SHADOW m a = MEM_TO_SHADOW m b \<longleftrightarrow> granule a = granule b"
  unfolding MEM_TO_SHADOW_def ASAN_SHADOW_SCALE_def add_right_cancel
  by (simp only: word_unat_eq_iff unat_drop_bit_3)

text \<open>The shadow does not wrap around the address space. Every offset of the header
  satisfies this.\<close>

definition offset_ok :: "asan_mapping \<Rightarrow> bool" where
  "offset_ok m \<longleftrightarrow> unat (ASAN_SHADOW_OFFSET m) + 2 ^ 61 \<le> 2 ^ 64"

lemma unat_MEM_TO_SHADOW:
  assumes "offset_ok m"
  shows "unat (MEM_TO_SHADOW m a) = granule a + unat (ASAN_SHADOW_OFFSET m)"
proof -
  have "granule a + unat (ASAN_SHADOW_OFFSET m) < 2 ^ 64"
    using assms granule_bound [of a] by (simp add: offset_ok_def)
  then show ?thesis
    by (simp add: MEM_TO_SHADOW_def ASAN_SHADOW_SCALE_def unat_word_ariths unat_drop_bit_3)
qed

lemma MEM_TO_SHADOW_less_iff:
  "offset_ok m \<Longrightarrow> MEM_TO_SHADOW m a < MEM_TO_SHADOW m b \<longleftrightarrow> granule a < granule b"
  by (simp add: word_less_nat_alt unat_MEM_TO_SHADOW)

lemma AddressIsPoisoned_iff:
  "AddressIsPoisoned m mem a \<longleftrightarrow>
     (let v = sint (mem (MEM_TO_SHADOW m a)) in v \<noteq> 0 \<and> int (goffset a) \<ge> v)"
proof -
  have "goffset a < 256" using goffset_less [of a] by linarith
  then have "unat (ucast (a AND 7 :: uptr) :: u8) = goffset a"
    by (simp add: unsigned_ucast_eq unat_and_7 take_bit_eq_mod)
  then have "uint (ucast (a AND 7 :: uptr) :: u8) = int (goffset a)"
    by (metis uint_nat)
  then show ?thesis by (simp add: AddressIsPoisoned_def Let_def)
qed

section \<open>The layout of the address space\<close>

text \<open>
  What \<^verbatim>\<open>__asan_init\<close> arranges: a non-zero, granule-aligned shadow offset, a high
  memory that ends above its own shadow, and, when a mid memory is used, mid regions in
  the order of the table at the top of the header.
\<close>

definition layout_ok :: "asan_mapping \<Rightarrow> bool" where
  "layout_ok m \<longleftrightarrow> offset_ok m \<and> ASAN_SHADOW_OFFSET m \<noteq> 0 \<and> goffset (ASAN_SHADOW_OFFSET m) = 0 \<and>
     kHighMemBeg m \<noteq> 0 \<and> kHighMemBeg m \<le> kHighMemEnd m \<and>
     (kMidMemBeg m \<noteq> 0 \<longrightarrow>
        kLowShadowEnd m < kMidShadowBeg m \<and> kMidMemBeg m \<le> kMidMemEnd m \<and>
        kMidShadowEnd m < kMidMemBeg m \<and> kMidMemEnd m < kHighShadowBeg m)"

lemma layout_unat:
  assumes "layout_ok m"
  defines "o' \<equiv> unat (ASAN_SHADOW_OFFSET m)" and "h \<equiv> unat (kHighMemEnd m)"
  shows "unat (kLowMemEnd m) = o' - 1" and "unat (kLowShadowEnd m) = (o' - 1) div 8 + o'"
    and "unat (kHighMemBeg m) = h div 8 + o' + 1"
    and "unat (kHighShadowBeg m) = (h div 8 + o' + 1) div 8 + o'"
    and "unat (kHighShadowEnd m) = h div 8 + o'" and "0 < o'" and "8 dvd o'"
    and "h div 8 + o' + 1 \<le> h" and "h < 2 ^ 64"
proof -
  from assms(1) have ok: "offset_ok m" and nz: "ASAN_SHADOW_OFFSET m \<noteq> 0"
    and al: "goffset (ASAN_SHADOW_OFFSET m) = 0" and hm: "kHighMemBeg m \<le> kHighMemEnd m"
    and hz: "kHighMemBeg m \<noteq> 0"
    by (auto simp: layout_ok_def)
  show pos: "0 < o'" using nz by (simp add: o'_def unat_gt_0)
  show "8 dvd o'" using al by (simp add: o'_def goffset_def dvd_eq_mod_eq_0)
  show le: "unat (kLowMemEnd m) = o' - 1" using nz by (simp add: kLowMemEnd_def o'_def unat_minus_1)
  show "unat (kLowShadowEnd m) = (o' - 1) div 8 + o'"
    using le by (simp add: kLowShadowEnd_def unat_MEM_TO_SHADOW [OF ok] granule_def o'_def)
  show "unat (kHighShadowEnd m) = h div 8 + o'"
    by (simp add: kHighShadowEnd_def unat_MEM_TO_SHADOW [OF ok] granule_def o'_def h_def)
  show hb: "unat (kHighMemBeg m) = h div 8 + o' + 1"
  proof -
    have "unat (MEM_TO_SHADOW m (kHighMemEnd m) + 1) = Suc (unat (MEM_TO_SHADOW m (kHighMemEnd m)))"
      using hz by (simp add: kHighMemBeg_def unatSuc add.commute)
    then show ?thesis
      by (simp add: kHighMemBeg_def unat_MEM_TO_SHADOW [OF ok] granule_def o'_def h_def)
  qed
  then show "unat (kHighShadowBeg m) = (h div 8 + o' + 1) div 8 + o'"
    by (simp add: kHighShadowBeg_def unat_MEM_TO_SHADOW [OF ok] granule_def o'_def)
  show "h div 8 + o' + 1 \<le> h" using hm hb by (simp add: word_le_nat_alt h_def)
  show "h < 2 ^ 64" using uptr_bound by (simp add: h_def)
qed

lemma word_le_pred_iff: "(x::uptr) \<noteq> 0 \<Longrightarrow> a \<le> x - 1 \<longleftrightarrow> a < x"
  using unat_minus_1 [of x] unat_gt_0 [of x] by (auto simp: word_le_nat_alt word_less_nat_alt)

lemma word_succ_le_iff: "(x::uptr) < y \<Longrightarrow> x + 1 \<le> a \<longleftrightarrow> x < a"
  using unat_plus_1 [of x] uptr_bound [of y] by (auto simp: word_le_nat_alt word_less_nat_alt)

lemma MEM_TO_SHADOW_mono:
  "offset_ok m \<Longrightarrow> a \<le> b \<Longrightarrow> MEM_TO_SHADOW m a \<le> MEM_TO_SHADOW m b"
  by (simp add: word_le_nat_alt unat_MEM_TO_SHADOW granule_def div_le_mono)

lemma layout_order:
  assumes "layout_ok m"
  shows "kLowShadowBeg m \<le> kLowShadowEnd m" and "kLowShadowEnd m < kHighShadowBeg m"
    and "kHighShadowBeg m \<le> kHighShadowEnd m" and "kHighShadowEnd m < kHighMemEnd m"
    and "kLowShadowEnd m \<noteq> 0" and "kHighShadowBeg m \<noteq> 0"
proof -
  define o' h where "o' = unat (ASAN_SHADOW_OFFSET m)" and "h = unat (kHighMemEnd m)"
  note u = layout_unat [OF assms, folded o'_def h_def]
  show "kLowShadowBeg m \<le> kLowShadowEnd m"
    using u(2) by (simp add: word_le_nat_alt kLowShadowBeg_def o'_def)
  have "(o' - 1) div 8 < o' div 8" using u(6,7) by (auto elim!: dvdE)
  also have "\<dots> \<le> (h div 8 + o' + 1) div 8" by (intro div_le_mono) simp
  finally show "kLowShadowEnd m < kHighShadowBeg m"
    by (simp add: word_less_nat_alt u)
  have "(h div 8 + o' + 1) div 8 \<le> h div 8" using u(8) by (rule div_le_mono)
  then show "kHighShadowBeg m \<le> kHighShadowEnd m" by (simp add: word_le_nat_alt u)
  show "kHighShadowEnd m < kHighMemEnd m" using u(8) by (simp add: word_less_nat_alt u h_def)
  have "0 < unat (kLowShadowEnd m)" "0 < unat (kHighShadowBeg m)" using u(2,4,6) by simp_all
  then show "kLowShadowEnd m \<noteq> 0" and "kHighShadowBeg m \<noteq> 0" by auto
qed

lemma layout_regions:
  assumes "layout_ok m"
  shows "AddrIsInLowMem m a \<longleftrightarrow> a < kLowShadowBeg m"
    and "AddrIsInLowShadow m a \<longleftrightarrow> kLowShadowBeg m \<le> a \<and> a \<le> kLowShadowEnd m"
    and "AddrIsInHighShadow m a \<longleftrightarrow> kHighShadowBeg m \<le> a \<and> a \<le> kHighShadowEnd m"
    and "AddrIsInHighMem m a \<longleftrightarrow> kHighShadowEnd m < a \<and> a \<le> kHighMemEnd m"
    and "kMidMemBeg m = 0 \<Longrightarrow> AddrIsInShadowGap m a \<longleftrightarrow> kLowShadowEnd m < a \<and> a < kHighShadowBeg m"
    and "kMidMemBeg m \<noteq> 0 \<Longrightarrow> AddrIsInShadowGap m a \<longleftrightarrow>
      (if a < kMidShadowBeg m then kLowShadowEnd m < a
       else (kMidShadowEnd m < a \<and> a < kMidMemBeg m) \<or> (kMidMemEnd m < a \<and> a < kHighShadowBeg m))"
proof -
  note o = layout_order [OF assms]
  have nz: "ASAN_SHADOW_OFFSET m \<noteq> 0" "kHighMemBeg m \<noteq> 0"
    using assms by (auto simp: layout_ok_def)
  show "AddrIsInLowMem m a \<longleftrightarrow> a < kLowShadowBeg m"
    using nz by (simp add: AddrIsInLowMem_def kLowMemEnd_def kLowShadowBeg_def word_le_pred_iff)
  show "AddrIsInLowShadow m a \<longleftrightarrow> kLowShadowBeg m \<le> a \<and> a \<le> kLowShadowEnd m"
    by (simp add: AddrIsInLowShadow_def)
  show "AddrIsInHighShadow m a \<longleftrightarrow> kHighShadowBeg m \<le> a \<and> a \<le> kHighShadowEnd m"
    using nz by (simp add: AddrIsInHighShadow_def)
  show "AddrIsInHighMem m a \<longleftrightarrow> kHighShadowEnd m < a \<and> a \<le> kHighMemEnd m"
    using nz word_succ_le_iff [OF o(4)] by (simp add: AddrIsInHighMem_def kHighMemBeg_def kHighShadowEnd_def)
  show "AddrIsInShadowGap m a \<longleftrightarrow> kLowShadowEnd m < a \<and> a < kHighShadowBeg m" if "kMidMemBeg m = 0"
    using that nz o by (simp add: AddrIsInShadowGap_def kShadowGapBeg_def kShadowGapEnd_def
        word_le_pred_iff word_succ_le_iff [OF o(2)])
  show "AddrIsInShadowGap m a \<longleftrightarrow>
      (if a < kMidShadowBeg m then kLowShadowEnd m < a
       else (kMidShadowEnd m < a \<and> a < kMidMemBeg m) \<or> (kMidMemEnd m < a \<and> a < kHighShadowBeg m))"
    if mid: "kMidMemBeg m \<noteq> 0"
  proof -
    have lo: "kLowShadowEnd m < kMidShadowBeg m" "kMidShadowEnd m < kMidMemBeg m"
      "kMidMemEnd m < kHighShadowBeg m" and "kMidShadowBeg m \<noteq> 0"
      using assms mid by (auto simp: layout_ok_def)
    then show ?thesis using mid nz o
      by (simp add: AddrIsInShadowGap_def kShadowGapBeg_def kShadowGapEnd_def kShadowGap2Beg_def
          kShadowGap2End_def kShadowGap3Beg_def kShadowGap3End_def word_le_pred_iff
          word_succ_le_iff [OF lo(1)] word_succ_le_iff [OF lo(2)] word_succ_le_iff [OF lo(3)])
  qed
qed

lemma layout_mid_order:
  assumes "layout_ok m" and "kMidMemBeg m \<noteq> 0"
  shows "kLowShadowEnd m < kMidShadowBeg m" and "kMidShadowBeg m \<le> kMidShadowEnd m"
    and "kMidShadowEnd m < kMidMemBeg m" and "kMidMemBeg m \<le> kMidMemEnd m"
    and "kMidMemEnd m < kHighShadowBeg m"
  using assms by (auto simp: layout_ok_def kMidShadowBeg_def kMidShadowEnd_def MEM_TO_SHADOW_mono)

text \<open>C34: Every address up to \<^verbatim>\<open>kHighMemEnd\<close> is application memory, shadow or gap,
  nothing above it is, and the three kinds of region are disjoint, with or without a mid
  memory.\<close>

theorem address_space_partition:
  assumes "layout_ok m" and "protect_shadow_gap m"
  shows "((AddrIsInMem m a \<or> AddrIsInShadow m a \<or> AddrIsInShadowGap m a) \<longleftrightarrow> a \<le> kHighMemEnd m) \<and>
    \<not> (AddrIsInMem m a \<and> AddrIsInShadow m a) \<and>
    \<not> (AddrIsInMem m a \<and> AddrIsInShadowGap m a) \<and>
    \<not> (AddrIsInShadow m a \<and> AddrIsInShadowGap m a)"
proof (cases "kMidMemBeg m = 0")
  case True
  show ?thesis
    using layout_order(1-4) [OF assms(1)] True assms(2)
    by (simp add: AddrIsInMem_def AddrIsInShadow_def AddrIsInMidMem_def AddrIsInMidShadow_def
        layout_regions(1-5) [OF assms(1)]) auto
next
  case False
  show ?thesis
    using layout_order(1-4) [OF assms(1)] layout_mid_order [OF assms(1) False] False assms(2)
    by (simp add: AddrIsInMem_def AddrIsInShadow_def AddrIsInMidMem_def AddrIsInMidShadow_def
        layout_regions(1-4,6) [OF assms(1)]) auto
qed

text \<open>The default 64-bit Linux mapping (offset of line 218), and the same with the mid
  memory that \<^verbatim>\<open>InitializeShadowMemory\<close> falls back to.\<close>

definition x86_64_mapping :: asan_mapping where
  "x86_64_mapping = \<lparr>ASAN_SHADOW_OFFSET = 0x7fff8000, kHighMemEnd = 0x7fffffffffff,
     kMidMemBeg = 0, kMidMemEnd = 0, protect_shadow_gap = True\<rparr>"

definition x86_64_mid_mapping :: asan_mapping where
  "x86_64_mid_mapping = x86_64_mapping\<lparr>kMidMemBeg := 0x3000000000, kMidMemEnd := 0x4fffffffff\<rparr>"

lemmas mapping_eval =
  layout_ok_def offset_ok_def goffset_def kHighMemBeg_def kLowMemEnd_def kLowShadowBeg_def
  kLowShadowEnd_def kHighShadowBeg_def kHighShadowEnd_def kMidShadowBeg_def kMidShadowEnd_def
  MEM_TO_SHADOW_def ASAN_SHADOW_SCALE_def x86_64_mapping_def x86_64_mid_mapping_def
  drop_bit_eq_div

lemma x86_64_mapping_ok [simp]: "layout_ok x86_64_mapping" "layout_ok x86_64_mid_mapping"
  by (simp_all add: mapping_eval)

lemma x86_64_protect [simp]: "protect_shadow_gap x86_64_mapping" "protect_shadow_gap x86_64_mid_mapping"
  by (simp_all add: x86_64_mapping_def x86_64_mid_mapping_def)

theorem address_space_partition_witness:
  "((AddrIsInMem x86_64_mid_mapping 0x3000000008 \<or> AddrIsInShadow x86_64_mid_mapping 0x3000000008 \<or>
       AddrIsInShadowGap x86_64_mid_mapping 0x3000000008) \<longleftrightarrow>
      (0x3000000008 :: uptr) \<le> kHighMemEnd x86_64_mid_mapping) \<and>
    \<not> (AddrIsInMem x86_64_mid_mapping 0x3000000008 \<and> AddrIsInShadow x86_64_mid_mapping 0x3000000008) \<and>
    \<not> (AddrIsInMem x86_64_mid_mapping 0x3000000008 \<and> AddrIsInShadowGap x86_64_mid_mapping 0x3000000008) \<and>
    \<not> (AddrIsInShadow x86_64_mid_mapping 0x3000000008 \<and> AddrIsInShadowGap x86_64_mid_mapping 0x3000000008)"
  by (rule address_space_partition) simp_all

text \<open>The shadow of application memory is shadow memory, and mapping back from the
  shadow gives the start of the granule: both conversions pass their \<^verbatim>\<open>CHECK\<close>s on
  application addresses.\<close>

theorem mem_to_shadow_roundtrip:
  assumes "layout_ok m" and "protect_shadow_gap m" and "AddrIsInMem m a"
  shows "\<exists>s. MemToShadow m a = Some s \<and> AddrIsInShadow m s \<and> ShadowToMem m s = Some (RoundDownTo a 8)"
proof -
  from assms(1) have ok: "offset_ok m" by (simp add: layout_ok_def)
  note mono = MEM_TO_SHADOW_mono [OF ok]
  have sh: "AddrIsInShadow m (MEM_TO_SHADOW m a)"
  proof -
    consider "AddrIsInLowMem m a" | "AddrIsInMidMem m a" | "AddrIsInHighMem m a"
      using assms(2,3) by (auto simp: AddrIsInMem_def)
    then show ?thesis
    proof cases
      case 1
      then have "a \<le> kLowMemEnd m" by (simp add: AddrIsInLowMem_def)
      then have "MEM_TO_SHADOW m a \<le> kLowShadowEnd m" unfolding kLowShadowEnd_def by (rule mono)
      then have "AddrIsInLowShadow m (MEM_TO_SHADOW m a)"
        by (simp add: AddrIsInLowShadow_def kLowShadowBeg_def word_le_nat_alt unat_MEM_TO_SHADOW [OF ok])
      then show ?thesis by (simp add: AddrIsInShadow_def)
    next
      case 2
      then show ?thesis using mono
        by (simp add: AddrIsInShadow_def AddrIsInMidMem_def AddrIsInMidShadow_def
            kMidShadowBeg_def kMidShadowEnd_def)
    next
      case 3
      then show ?thesis using mono
        by (simp add: AddrIsInShadow_def AddrIsInHighMem_def AddrIsInHighShadow_def
            kHighShadowBeg_def kHighShadowEnd_def)
    qed
  qed
  moreover have "RoundDownTo a 8 = a AND NOT (mask 3)"
    by (simp add: RoundDownTo_def mask_eq_exp_minus_1)
  then have "SHADOW_TO_MEM m (MEM_TO_SHADOW m a) = RoundDownTo a 8"
    by (auto intro!: bit_word_eqI
        simp: SHADOW_TO_MEM_def MEM_TO_SHADOW_def ASAN_SHADOW_SCALE_def bit_simps)
  ultimately show ?thesis using assms(3)
    by (simp add: MemToShadow_def ShadowToMem_def)
qed

theorem mem_to_shadow_roundtrip_witness:
  "\<exists>s. MemToShadow x86_64_mapping 0x602000000013 = Some s \<and> AddrIsInShadow x86_64_mapping s \<and>
     ShadowToMem x86_64_mapping s = Some (RoundDownTo 0x602000000013 8)"
  by (rule mem_to_shadow_roundtrip)
    (simp_all add: AddrIsInMem_def AddrIsInHighMem_def AddrIsInLowMem_def AddrIsInMidMem_def mapping_eval)

end
