(* ===== verification/Asan_Poison.thy ===== *)
theory Asan_Poison
  imports Asan_Mapping Ring_Buffer San_Libc
begin

text \<open>
  Poisoning of shadow memory: \<^verbatim>\<open>asan_poisoning.h\<close> and the first half of
  \<^verbatim>\<open>asan_poisoning.cpp\<close> (the poison history, \<^verbatim>\<open>PoisonShadow\<close>, user poisoning).

  The environment holds the flags and the platform constants, and one parameter for code
  outside the repository: \<open>os_mmap_fixed\<close>, the kernel's fixed anonymous mapping (its
  effect on the bytes, or failure). The state is the shadow memory (a byte for every
  address), the \<^verbatim>\<open>can_poison_memory\<close> flag and the poison history. Debug-only
  \<^verbatim>\<open>DCHECK\<close>s and the verbosity output are left out.
\<close>

unbundle bit_operations_syntax

section \<open>Environment and state\<close>

record PoisonRecord =
  pr_stack_id :: u32
  pr_thread_id :: u32
  pr_begin :: uptr
  pr_end :: uptr

record asan_env =
  mp :: asan_mapping
  allow_user_poisoning :: bool
  poison_partial :: bool
  poison_array_cookie :: bool
  detect_container_overflow :: bool
  halt_on_error :: bool
  poison_history_size :: int
  clear_shadow_mmap_threshold :: uptr
  page_size :: uptr
  os_mmap_fixed :: "uptr \<Rightarrow> uptr \<Rightarrow> mem \<Rightarrow> mem option"

record asan_state =
  shadow :: mem
  can_poison_memory :: bool
  poison_records :: "PoisonRecord RingBuffer option"

definition kAsanHeapFreeMagic :: u8 where "kAsanHeapFreeMagic = 0xfd"
definition kAsanUserPoisonedMemoryMagic :: u8 where "kAsanUserPoisonedMemoryMagic = 0xf7"
definition kAsanContiguousContainerOOBMagic :: u8 where "kAsanContiguousContainerOOBMagic = 0xfc"
definition kAsanStackUseAfterScopeMagic :: u8 where "kAsanStackUseAfterScopeMagic = 0xf8"
definition kAsanArrayCookieMagic :: u8 where "kAsanArrayCookieMagic = 0xac"
definition kAsanIntraObjectRedzone :: u8 where "kAsanIntraObjectRedzone = 0xbb"

definition set_shadow :: "uptr \<Rightarrow> u8 \<Rightarrow> asan_state \<Rightarrow> asan_state" where
  "set_shadow q v st = st\<lparr>shadow := (shadow st)(q := v)\<rparr>"

definition memset_shadow :: "uptr \<Rightarrow> u8 \<Rightarrow> uptr \<Rightarrow> asan_state \<Rightarrow> asan_state" where
  "memset_shadow p v n st = st\<lparr>shadow := memset (shadow st) p v n\<rparr>"

abbreviation poisoned :: "asan_env \<Rightarrow> asan_state \<Rightarrow> uptr \<Rightarrow> bool" where
  "poisoned env st a \<equiv> AddressIsPoisoned (mp env) (shadow st) a"

section \<open>The poison history\<close>

definition zero_PoisonRecord :: PoisonRecord where
  "zero_PoisonRecord = \<lparr>pr_stack_id = 0, pr_thread_id = 0, pr_begin = 0, pr_end = 0\<rparr>"

definition AddPoisonRecord :: "asan_env \<Rightarrow> PoisonRecord \<Rightarrow> asan_state \<Rightarrow> asan_state option" where
  "AddPoisonRecord env new_record st =
     (if poison_history_size env \<le> 0 then Some st
      else do {
        let rb = (case poison_records st of
                    None \<Rightarrow> ring_New 24 zero_PoisonRecord (nat (poison_history_size env))
                  | Some rb \<Rightarrow> rb);
        rb \<leftarrow> ring_push new_record rb;
        Some (st\<lparr>poison_records := Some rb\<rparr>)
      })"

function FindPoisonRecord_loop :: "PoisonRecord RingBuffer \<Rightarrow> uptr \<Rightarrow> nat \<Rightarrow> PoisonRecord option option" where
  "FindPoisonRecord_loop rb addr i =
     (if int i < ring_size rb then do {
        record \<leftarrow> ring_index rb i;
        if pr_begin record \<le> addr \<and> addr < pr_end record then Some (Some record)
        else FindPoisonRecord_loop rb addr (Suc i)
      } else Some None)"
  by pat_completeness auto
termination
  by (relation "measure (\<lambda>(rb, addr, i). nat (ring_size rb) - i)") auto

declare FindPoisonRecord_loop.simps [simp del]

definition FindPoisonRecord :: "asan_env \<Rightarrow> uptr \<Rightarrow> asan_state \<Rightarrow> PoisonRecord option option" where
  "FindPoisonRecord env addr st =
     (if poison_history_size env \<le> 0 then Some None
      else case poison_records st of
             None \<Rightarrow> Some None
           | Some rb \<Rightarrow> FindPoisonRecord_loop rb addr 0)"

section \<open>PoisonShadow\<close>

definition SetCanPoisonMemory :: "bool \<Rightarrow> asan_state \<Rightarrow> asan_state" where
  "SetCanPoisonMemory v st = st\<lparr>can_poison_memory := v\<rparr>"

definition CanPoisonMemory :: "asan_state \<Rightarrow> bool" where
  "CanPoisonMemory st = can_poison_memory st"

definition ReserveShadowMemoryRange :: "asan_env \<Rightarrow> uptr \<Rightarrow> uptr \<Rightarrow> mem \<Rightarrow> mem option" where
  "ReserveShadowMemoryRange env beg end m = do {
     CHECK (beg mod page_size env = 0);
     CHECK ((end + 1) mod page_size env = 0);
     let sz = end - beg + 1;
     os_mmap_fixed env beg sz m
   }"

definition FastPoisonShadow :: "asan_env \<Rightarrow> uptr \<Rightarrow> uptr \<Rightarrow> u8 \<Rightarrow> asan_state \<Rightarrow> asan_state option" where
  "FastPoisonShadow env aligned_beg aligned_size value st = do {
     let shadow_beg = MEM_TO_SHADOW (mp env) aligned_beg;
     let shadow_end = MEM_TO_SHADOW (mp env) (aligned_beg + aligned_size - ASAN_SHADOW_GRANULARITY) + 1;
     if value \<noteq> 0 \<or> shadow_end - shadow_beg < clear_shadow_mmap_threshold env
     then Some (memset_shadow shadow_beg value (shadow_end - shadow_beg) st)
     else do {
       page_beg \<leftarrow> RoundUpTo shadow_beg (page_size env);
       let page_end = RoundDownTo shadow_end (page_size env);
       if page_beg \<ge> page_end
       then Some (memset_shadow shadow_beg 0 (shadow_end - shadow_beg) st)
       else do {
         let st = (if page_beg \<noteq> shadow_beg then memset_shadow shadow_beg 0 (page_beg - shadow_beg) st else st);
         let st = (if page_end \<noteq> shadow_end then memset_shadow page_end 0 (shadow_end - page_end) st else st);
         m \<leftarrow> ReserveShadowMemoryRange env page_beg (page_end - 1) (shadow st);
         Some (st\<lparr>shadow := m\<rparr>)
       }
     }
   }"

function FastPoisonRightRedzone_loop ::
  "bool \<Rightarrow> uptr \<Rightarrow> nat \<Rightarrow> nat \<Rightarrow> u8 \<Rightarrow> nat \<Rightarrow> asan_state \<Rightarrow> asan_state" where
  "FastPoisonRightRedzone_loop partial sh sz redzone_size value i st =
     (if i < redzone_size then
        let st = (if i + 8 \<le> sz then set_shadow sh 0 st
                  else if i \<ge> sz then set_shadow sh value st
                  else set_shadow sh (if partial then of_nat (sz - i) else 0) st)
        in FastPoisonRightRedzone_loop partial (sh + 1) sz redzone_size value (i + 8) st
      else st)"
  by pat_completeness auto
termination
  by (relation "measure (\<lambda>(p, sh, sz, rz, v, i, st). rz - i)") auto

declare FastPoisonRightRedzone_loop.simps [simp del]

definition FastPoisonShadowPartialRightRedzone ::
  "asan_env \<Rightarrow> uptr \<Rightarrow> uptr \<Rightarrow> uptr \<Rightarrow> u8 \<Rightarrow> asan_state \<Rightarrow> asan_state" where
  "FastPoisonShadowPartialRightRedzone env aligned_addr sz redzone_size value st =
     FastPoisonRightRedzone_loop (poison_partial env) (MEM_TO_SHADOW (mp env) aligned_addr)
       (unat sz) (unat redzone_size) value 0 st"

definition PoisonShadow :: "asan_env \<Rightarrow> uptr \<Rightarrow> uptr \<Rightarrow> u8 \<Rightarrow> asan_state \<Rightarrow> asan_state option" where
  "PoisonShadow env addr sz value st =
     (if value \<noteq> 0 \<and> \<not> CanPoisonMemory st then Some st
      else do {
        CHECK (AddrIsAlignedByGranularity addr);
        CHECK (AddrIsInMem (mp env) addr);
        CHECK (AddrIsAlignedByGranularity (addr + sz));
        CHECK (AddrIsInMem (mp env) (addr + sz - ASAN_SHADOW_GRANULARITY));
        FastPoisonShadow env addr sz value st
      })"

definition PoisonShadowPartialRightRedzone ::
  "asan_env \<Rightarrow> uptr \<Rightarrow> uptr \<Rightarrow> uptr \<Rightarrow> u8 \<Rightarrow> asan_state \<Rightarrow> asan_state option" where
  "PoisonShadowPartialRightRedzone env addr sz redzone_size value st =
     (if \<not> CanPoisonMemory st then Some st
      else do {
        CHECK (AddrIsAlignedByGranularity addr);
        CHECK (AddrIsInMem (mp env) addr);
        Some (FastPoisonShadowPartialRightRedzone env addr sz redzone_size value st)
      })"

section \<open>User poisoning\<close>

record ShadowSegmentEndpoint =
  chunk :: uptr
  offset :: int
  seg_value :: int

definition mk_ShadowSegmentEndpoint :: "asan_env \<Rightarrow> asan_state \<Rightarrow> uptr \<Rightarrow> ShadowSegmentEndpoint option" where
  "mk_ShadowSegmentEndpoint env st address = do {
     ch \<leftarrow> MemToShadow (mp env) address;
     Some \<lparr>chunk = ch, offset = uint (address AND (ASAN_SHADOW_GRANULARITY - 1)),
           seg_value = sint (shadow st ch)\<rparr>
   }"

definition asan_poison_memory_region ::
  "asan_env \<Rightarrow> u32 \<Rightarrow> u32 \<Rightarrow> uptr \<Rightarrow> uptr \<Rightarrow> asan_state \<Rightarrow> asan_state option" where
  "asan_poison_memory_region env stack_id current_tid addr sz st =
     (if \<not> allow_user_poisoning env \<or> sz = 0 then Some st
      else do {
        let beg_addr = addr;
        let end_addr = beg_addr + sz;
        st \<leftarrow> (if poison_history_size env > 0
               then AddPoisonRecord env
                      \<lparr>pr_stack_id = stack_id, pr_thread_id = current_tid,
                       pr_begin = beg_addr, pr_end = end_addr\<rparr> st
               else Some st);
        beg \<leftarrow> mk_ShadowSegmentEndpoint env st beg_addr;
        fin \<leftarrow> mk_ShadowSegmentEndpoint env st end_addr;
        if chunk beg = chunk fin then do {
          CHECK (offset beg < offset fin);
          let value = seg_value beg;
          CHECK (value = seg_value fin);
          Some (if value > 0 \<and> value \<le> offset fin then
                  (if offset beg > 0
                   then set_shadow (chunk beg) (word_of_int (min value (offset beg))) st
                   else set_shadow (chunk beg) kAsanUserPoisonedMemoryMagic st)
                else st)
        } else do {
          CHECK (chunk beg < chunk fin);
          let (st, beg_chunk) =
            (if offset beg > 0 then
               (if seg_value beg = 0
                then set_shadow (chunk beg) (word_of_int (offset beg)) st
                else set_shadow (chunk beg) (word_of_int (min (seg_value beg) (offset beg))) st,
                chunk beg + 1)
             else (st, chunk beg));
          let st = memset_shadow beg_chunk kAsanUserPoisonedMemoryMagic (chunk fin - beg_chunk) st;
          Some (if seg_value fin > 0 \<and> seg_value fin \<le> offset fin
                then set_shadow (chunk fin) kAsanUserPoisonedMemoryMagic st else st)
        }
      })"

definition asan_unpoison_memory_region ::
  "asan_env \<Rightarrow> uptr \<Rightarrow> uptr \<Rightarrow> asan_state \<Rightarrow> asan_state option" where
  "asan_unpoison_memory_region env addr sz st =
     (if \<not> allow_user_poisoning env \<or> sz = 0 then Some st
      else do {
        let beg_addr = addr;
        let end_addr = beg_addr + sz;
        beg \<leftarrow> mk_ShadowSegmentEndpoint env st beg_addr;
        fin \<leftarrow> mk_ShadowSegmentEndpoint env st end_addr;
        if chunk beg = chunk fin then do {
          CHECK (offset beg < offset fin);
          let value = seg_value beg;
          CHECK (value = seg_value fin);
          Some (if value \<noteq> 0 then set_shadow (chunk beg) (word_of_int (max value (offset fin))) st
                else st)
        } else do {
          CHECK (chunk beg < chunk fin);
          let st = memset_shadow (chunk beg) 0 (chunk fin - chunk beg) st;
          Some (if offset fin > 0 \<and> seg_value fin \<noteq> 0
                then set_shadow (chunk fin) (word_of_int (max (seg_value fin) (offset fin))) st
                else st)
        }
      })"

definition asan_address_is_poisoned :: "asan_env \<Rightarrow> asan_state \<Rightarrow> uptr \<Rightarrow> bool" where
  "asan_address_is_poisoned env st addr = AddressIsPoisoned (mp env) (shadow st) addr"

section \<open>Effect of the primitive updates\<close>

lemma set_shadow_simps [simp]:
  "can_poison_memory (set_shadow q v st) = can_poison_memory st"
  "poison_records (set_shadow q v st) = poison_records st"
  "can_poison_memory (memset_shadow q v n st) = can_poison_memory st"
  "poison_records (memset_shadow q v n st) = poison_records st"
  by (simp_all add: set_shadow_def memset_shadow_def)

lemma shadow_set_shadow [simp]: "shadow (set_shadow q v st) = (shadow st)(q := v)"
  by (simp add: set_shadow_def)

lemma set_shadow_at:
  "((shadow st)(MEM_TO_SHADOW m y := v)) (MEM_TO_SHADOW m x) =
     (if granule x = granule y then v else shadow st (MEM_TO_SHADOW m x))"
  by (simp add: MEM_TO_SHADOW_eq_iff)

lemma shadow_memset_shadow:
  "p \<le> r \<Longrightarrow> shadow (memset_shadow p v (r - p) st) q = (if p \<le> q \<and> q < r then v else shadow st q)"
  by (simp add: memset_shadow_def memset_def word_range_iff)

lemma memset_shadow_at:
  assumes "offset_ok m" and "granule b \<le> granule e"
  shows "shadow (memset_shadow (MEM_TO_SHADOW m b) v (MEM_TO_SHADOW m e - MEM_TO_SHADOW m b) st) (MEM_TO_SHADOW m x) =
    (if granule b \<le> granule x \<and> granule x < granule e then v else shadow st (MEM_TO_SHADOW m x))"
  using assms by (subst shadow_memset_shadow) (auto simp: word_le_nat_alt word_less_nat_alt unat_MEM_TO_SHADOW)

lemma memset_shadow_at_Suc:
  assumes "offset_ok m" and "granule b < granule e"
  shows "shadow (memset_shadow (MEM_TO_SHADOW m b + 1) v (MEM_TO_SHADOW m e - (MEM_TO_SHADOW m b + 1)) st) (MEM_TO_SHADOW m x) =
    (if granule b < granule x \<and> granule x < granule e then v else shadow st (MEM_TO_SHADOW m x))"
proof -
  have lt: "MEM_TO_SHADOW m b < MEM_TO_SHADOW m e" using assms by (simp add: MEM_TO_SHADOW_less_iff)
  then have "MEM_TO_SHADOW m b + 1 \<le> MEM_TO_SHADOW m e" using word_succ_le_iff [OF lt] by simp
  then show ?thesis
    using assms word_succ_le_iff [OF lt] by (simp add: shadow_memset_shadow MEM_TO_SHADOW_less_iff)
qed

lemma poisoned_alt:
  "poisoned env st x \<longleftrightarrow> (let v = sint (shadow st (MEM_TO_SHADOW (mp env) x)) in v \<noteq> 0 \<and> v \<le> int (goffset x))"
  by (simp add: AddressIsPoisoned_iff Let_def)

lemma sint_magic [simp]:
  "sint kAsanUserPoisonedMemoryMagic = -9" "sint kAsanContiguousContainerOOBMagic = -4"
  "sint kAsanStackUseAfterScopeMagic = -8" "sint kAsanIntraObjectRedzone = -69"
  by (simp_all add: kAsanUserPoisonedMemoryMagic_def kAsanContiguousContainerOOBMagic_def
      kAsanStackUseAfterScopeMagic_def kAsanIntraObjectRedzone_def)

lemma mk_ShadowSegmentEndpoint_in_mem:
  "AddrIsInMem (mp env) a \<Longrightarrow> mk_ShadowSegmentEndpoint env st a =
     Some \<lparr>chunk = MEM_TO_SHADOW (mp env) a, offset = int (goffset a),
           seg_value = sint (shadow st (MEM_TO_SHADOW (mp env) a))\<rparr>"
  by (simp add: mk_ShadowSegmentEndpoint_def MemToShadow_def unat_and_7 uint_nat)

definition history_ok :: "asan_state \<Rightarrow> bool" where
  "history_ok st \<longleftrightarrow> (case poison_records st of None \<Rightarrow> True | Some rb \<Rightarrow> ring_inv rb)"

lemma AddPoisonRecord_total:
  assumes "history_ok st"
  obtains st' where "AddPoisonRecord env r st = Some st'" and "history_ok st'"
    and "shadow st' = shadow st" and "can_poison_memory st' = can_poison_memory st"
proof (cases "poison_history_size env \<le> 0")
  case True
  then show ?thesis using assms that by (simp add: AddPoisonRecord_def)
next
  case False
  define rb where "rb = (case poison_records st of
      None \<Rightarrow> ring_New 24 zero_PoisonRecord (nat (poison_history_size env)) | Some rb \<Rightarrow> rb)"
  have inv: "ring_inv rb"
    using assms False by (auto simp: rb_def history_ok_def intro: ring_New_inv split: option.splits)
  obtain rb' where rb': "ring_push r rb = Some rb'" by (rule exE [OF ring_push_total [OF inv]])
  have "AddPoisonRecord env r st = Some (st\<lparr>poison_records := Some rb'\<rparr>)"
    using False rb' by (simp add: AddPoisonRecord_def rb_def [symmetric])
  then show ?thesis
    using that ring_push_inv(1) [OF inv rb'] by (simp add: history_ok_def)
qed

lemma AddPoisonRecord_if:
  "(if poison_history_size env > 0 then AddPoisonRecord env r st else Some st) = AddPoisonRecord env r st"
  by (simp add: AddPoisonRecord_def)

section \<open>A concrete environment\<close>

text \<open>The default mapping and flags on 64-bit Linux, with a kernel that maps zero pages, and
  the state before anything is poisoned.\<close>

definition x86_64_env :: asan_env where
  "x86_64_env = \<lparr>mp = x86_64_mapping, allow_user_poisoning = True, poison_partial = True,
     poison_array_cookie = True, detect_container_overflow = True, halt_on_error = True, poison_history_size = 0,
     clear_shadow_mmap_threshold = 65536, page_size = 4096,
     os_mmap_fixed = (\<lambda>b n m. Some (memset m b 0 n))\<rparr>"

definition clean_state :: asan_state where
  "clean_state = \<lparr>shadow = (\<lambda>_. 0), can_poison_memory = True, poison_records = None\<rparr>"

lemmas in_mem_eval =
  AddrIsInMem_def AddrIsInHighMem_def AddrIsInLowMem_def AddrIsInMidMem_def mapping_eval
  x86_64_env_def

section \<open>User poisoning is exact\<close>

text \<open>C1: User poisoning is exact: after \<^verbatim>\<open>__asan_poison_memory_region(addr, size)\<close> a byte
  is poisoned iff it was before, or it lies in the region and either its granule is not
  the one of the region's end or the byte at the region's end is poisoned (so that the
  whole tail of that granule can be poisoned). The call succeeds on every region whose
  ends are application memory.\<close>

theorem poison_memory_region_exact:
  assumes "offset_ok (mp env)" and "allow_user_poisoning env" and "history_ok st"
    and "AddrIsInMem (mp env) addr" and "AddrIsInMem (mp env) (addr + sz)" and "addr < addr + sz"
  shows "\<exists>st'. asan_poison_memory_region env stk tid addr sz st = Some st' \<and> history_ok st' \<and>
    (\<forall>x. poisoned env st' x \<longleftrightarrow> poisoned env st x \<or>
       (addr \<le> x \<and> x < addr + sz \<and> (granule x \<noteq> granule (addr + sz) \<or> poisoned env st (addr + sz))))"
proof -
  let ?m = "mp env" and ?e = "addr + sz"
  have sz: "sz \<noteq> 0" using assms(6) by auto
  define r where "r = \<lparr>pr_stack_id = stk, pr_thread_id = tid, pr_begin = addr, pr_end = ?e\<rparr>"
  obtain st1 where st1: "AddPoisonRecord env r st = Some st1" "history_ok st1" "shadow st1 = shadow st"
    by (rule AddPoisonRecord_total [OF assms(3)])
  note lt = assms(6) [unfolded addr_less_iff]
  define v where "v y = sint (shadow st (MEM_TO_SHADOW ?m y))" for y
  have v: "poisoned env st y \<longleftrightarrow> v y \<noteq> 0 \<and> v y \<le> int (goffset y)" for y
    by (simp only: poisoned_alt v_def Let_def)
  have vb: "-128 \<le> v y" "v y < 128" for y by (simp_all add: v_def sint_u8_bounds)
  have vg: "granule y = granule z \<Longrightarrow> v y = v z" for y z
    unfolding v_def by (metis MEM_TO_SHADOW_eq_iff)
  note run = asan_poison_memory_region_def AddPoisonRecord_if r_def [symmetric] st1(1) mk_ShadowSegmentEndpoint_in_mem assms(2,4,5) sz
  show ?thesis
  proof (cases "granule addr = granule ?e")
    case True
    then have same: "MEM_TO_SHADOW ?m addr = MEM_TO_SHADOW ?m ?e" by (simp add: MEM_TO_SHADOW_eq_iff)
    have o: "goffset addr < goffset ?e" using lt True by simp
    define st' where "st' = (if v ?e > 0 \<and> v ?e \<le> int (goffset ?e) then
        (if goffset addr > 0 then set_shadow (MEM_TO_SHADOW ?m ?e) (word_of_int (min (v ?e) (int (goffset addr)))) st1
         else set_shadow (MEM_TO_SHADOW ?m ?e) kAsanUserPoisonedMemoryMagic st1) else st1)"
    have "asan_poison_memory_region env stk tid addr sz st = Some st'"
      using o by (simp add: run same st'_def v_def st1(3) Let_def)
    moreover have "history_ok st'" using st1(2) by (simp add: st'_def history_ok_def)
    moreover have "poisoned env st' x \<longleftrightarrow> poisoned env st x \<or>
       (addr \<le> x \<and> x < ?e \<and> (granule x \<noteq> granule ?e \<or> poisoned env st ?e))" for x
      using True o vb [of ?e] vg [of x ?e] goffset_less [of addr] goffset_less [of x]
      unfolding v addr_le_iff addr_less_iff
      unfolding poisoned_alt st'_def
      by (auto simp: st1(3) MEM_TO_SHADOW_eq_iff v_def [symmetric] Let_def)
    ultimately show ?thesis by (intro exI [of _ st']) simp
  next
    case False
    then have g: "granule addr < granule ?e" using lt by simp
    then have ch: "MEM_TO_SHADOW ?m addr < MEM_TO_SHADOW ?m ?e"
      by (simp add: MEM_TO_SHADOW_less_iff assms(1))
    have ne: "MEM_TO_SHADOW ?m addr \<noteq> MEM_TO_SHADOW ?m ?e" using ch by simp
    define w where "w = (if v addr = 0 then int (goffset addr) else min (v addr) (int (goffset addr)))"
    define st2 where "st2 = (if goffset addr > 0
        then memset_shadow (MEM_TO_SHADOW ?m addr + 1) kAsanUserPoisonedMemoryMagic
               (MEM_TO_SHADOW ?m ?e - (MEM_TO_SHADOW ?m addr + 1))
               (set_shadow (MEM_TO_SHADOW ?m addr) (word_of_int w) st1)
        else memset_shadow (MEM_TO_SHADOW ?m addr) kAsanUserPoisonedMemoryMagic
               (MEM_TO_SHADOW ?m ?e - MEM_TO_SHADOW ?m addr) st1)"
    define st' where "st' = (if v ?e > 0 \<and> v ?e \<le> int (goffset ?e)
        then set_shadow (MEM_TO_SHADOW ?m ?e) kAsanUserPoisonedMemoryMagic st2 else st2)"
    have "asan_poison_memory_region env stk tid addr sz st = Some st'"
      using ch ne by (simp add: run st'_def st2_def v_def w_def st1(3) Let_def)
    moreover have "history_ok st'" using st1(2) by (simp add: st'_def st2_def history_ok_def)
    moreover have "poisoned env st' x \<longleftrightarrow> poisoned env st x \<or>
       (addr \<le> x \<and> x < ?e \<and> (granule x \<noteq> granule ?e \<or> poisoned env st ?e))" for x
    proof -
      have sh2: "shadow st2 (MEM_TO_SHADOW ?m x) =
          (if granule addr < granule x \<and> granule x < granule ?e then kAsanUserPoisonedMemoryMagic
           else if granule x = granule addr then
             (if goffset addr > 0 then word_of_int w else kAsanUserPoisonedMemoryMagic)
           else shadow st (MEM_TO_SHADOW ?m x))"
        using g by (auto simp: st2_def memset_shadow_at memset_shadow_at_Suc assms(1) MEM_TO_SHADOW_eq_iff st1(3))
      have w: "-128 \<le> w" "w < 128" using vb [of addr] goffset_less [of addr] by (auto simp: w_def)
      show ?thesis
        using g w vb [of ?e] vg [of x ?e] vg [of x addr] goffset_less [of addr] goffset_less [of x]
        unfolding v addr_le_iff addr_less_iff
        unfolding poisoned_alt st'_def
        by (auto simp: sh2 MEM_TO_SHADOW_eq_iff v_def [symmetric] w_def Let_def)
    qed
    ultimately show ?thesis by (intro exI [of _ st']) simp
  qed
qed

theorem poison_memory_region_exact_witness:
  "\<exists>st'. asan_poison_memory_region x86_64_env 1 2 0x602000000010 20 clean_state = Some st' \<and> history_ok st' \<and>
    (\<forall>x. poisoned x86_64_env st' x \<longleftrightarrow> poisoned x86_64_env clean_state x \<or>
       (0x602000000010 \<le> x \<and> x < 0x602000000010 + 20 \<and>
        (granule x \<noteq> granule (0x602000000010 + 20) \<or> poisoned x86_64_env clean_state (0x602000000010 + 20))))"
  by (rule poison_memory_region_exact) (simp_all add: in_mem_eval history_ok_def clean_state_def)

text \<open>C2: User unpoisoning is exact: after \<^verbatim>\<open>__asan_unpoison_memory_region(addr, size)\<close>
  a byte is poisoned iff it was before and it is outside the region, extended down to the
  start of the region's first granule.\<close>

theorem unpoison_memory_region_exact:
  assumes "offset_ok (mp env)" and "allow_user_poisoning env"
    and "AddrIsInMem (mp env) addr" and "AddrIsInMem (mp env) (addr + sz)" and "addr < addr + sz"
  shows "\<exists>st'. asan_unpoison_memory_region env addr sz st = Some st' \<and>
    (\<forall>x. poisoned env st' x \<longleftrightarrow>
       poisoned env st x \<and> \<not> (RoundDownTo addr ASAN_SHADOW_GRANULARITY \<le> x \<and> x < addr + sz))"
proof -
  let ?m = "mp env" and ?e = "addr + sz"
  have sz: "sz \<noteq> 0" using assms(5) by auto
  note lt = assms(5) [unfolded addr_less_iff]
  define v where "v y = sint (shadow st (MEM_TO_SHADOW ?m y))" for y
  have v: "poisoned env st y \<longleftrightarrow> v y \<noteq> 0 \<and> v y \<le> int (goffset y)" for y
    by (simp only: poisoned_alt v_def Let_def)
  have vb: "-128 \<le> v y" "v y < 128" for y by (simp_all add: v_def sint_u8_bounds)
  have vg: "granule y = granule z \<Longrightarrow> v y = v z" for y z
    unfolding v_def by (metis MEM_TO_SHADOW_eq_iff)
  note run = asan_unpoison_memory_region_def mk_ShadowSegmentEndpoint_in_mem assms(2-4) sz
  show ?thesis
  proof (cases "granule addr = granule ?e")
    case True
    then have same: "MEM_TO_SHADOW ?m addr = MEM_TO_SHADOW ?m ?e" by (simp add: MEM_TO_SHADOW_eq_iff)
    have o: "goffset addr < goffset ?e" using lt True by simp
    have w: "sint (word_of_int (max (v ?e) (int (goffset ?e))) :: u8) = max (v ?e) (int (goffset ?e))"
      using vb [of ?e] goffset_less [of ?e] by simp
    define st' where "st' = (if v ?e \<noteq> 0
        then set_shadow (MEM_TO_SHADOW ?m ?e) (word_of_int (max (v ?e) (int (goffset ?e)))) st else st)"
    have "asan_unpoison_memory_region env addr sz st = Some st'"
      using o by (simp add: run same st'_def v_def Let_def)
    moreover have "poisoned env st' x \<longleftrightarrow>
       poisoned env st x \<and> \<not> (RoundDownTo addr ASAN_SHADOW_GRANULARITY \<le> x \<and> x < ?e)" for x
      using True o vb [of ?e] vg [of x ?e] goffset_less [of ?e] goffset_less [of x]
      unfolding v addr_le_iff addr_less_iff
      unfolding poisoned_alt st'_def
      by (auto simp: MEM_TO_SHADOW_eq_iff v_def [symmetric] Let_def w)
    ultimately show ?thesis by (intro exI [of _ st']) simp
  next
    case False
    then have g: "granule addr < granule ?e" using lt by simp
    then have ch: "MEM_TO_SHADOW ?m addr < MEM_TO_SHADOW ?m ?e"
      by (simp add: MEM_TO_SHADOW_less_iff assms(1))
    have ne: "MEM_TO_SHADOW ?m addr \<noteq> MEM_TO_SHADOW ?m ?e" using ch by simp
    have w: "sint (word_of_int (max (v ?e) (int (goffset ?e))) :: u8) = max (v ?e) (int (goffset ?e))"
      using vb [of ?e] goffset_less [of ?e] by simp
    define st2 where "st2 = memset_shadow (MEM_TO_SHADOW ?m addr) 0 (MEM_TO_SHADOW ?m ?e - MEM_TO_SHADOW ?m addr) st"
    define st' where "st' = (if goffset ?e > 0 \<and> v ?e \<noteq> 0
        then set_shadow (MEM_TO_SHADOW ?m ?e) (word_of_int (max (v ?e) (int (goffset ?e)))) st2 else st2)"
    have "asan_unpoison_memory_region env addr sz st = Some st'"
      using ch ne by (simp add: run st'_def st2_def v_def Let_def)
    moreover have "poisoned env st' x \<longleftrightarrow>
       poisoned env st x \<and> \<not> (RoundDownTo addr ASAN_SHADOW_GRANULARITY \<le> x \<and> x < ?e)" for x
    proof -
      have sh2: "shadow st2 (MEM_TO_SHADOW ?m x) =
          (if granule addr \<le> granule x \<and> granule x < granule ?e then 0 else shadow st (MEM_TO_SHADOW ?m x))"
        using g by (simp add: st2_def memset_shadow_at assms(1))
      show ?thesis
        using g vb [of ?e] vg [of x ?e] goffset_less [of ?e] goffset_less [of x]
        unfolding v addr_le_iff addr_less_iff
        unfolding poisoned_alt st'_def
        by (auto simp: sh2 MEM_TO_SHADOW_eq_iff v_def [symmetric] Let_def w)
    qed
    ultimately show ?thesis by (intro exI [of _ st']) simp
  qed
qed

theorem unpoison_memory_region_exact_witness:
  "\<exists>st'. asan_unpoison_memory_region x86_64_env 0x602000000011 20 clean_state = Some st' \<and>
    (\<forall>x. poisoned x86_64_env st' x \<longleftrightarrow> poisoned x86_64_env clean_state x \<and>
       \<not> (RoundDownTo 0x602000000011 ASAN_SHADOW_GRANULARITY \<le> x \<and> x < 0x602000000011 + 20))"
  by (rule unpoison_memory_region_exact) (simp_all add: in_mem_eval)

end
