(* ===== verification/Asan_Region.thy ===== *)
theory Asan_Region
  imports Asan_Poison
begin

text \<open>
  The rest of the poisoning interface of \<^verbatim>\<open>asan_poisoning.cpp\<close>: region queries
  (\<^verbatim>\<open>__asan_region_is_poisoned\<close>), the checked unaligned loads and stores, array cookies,
  the shadow setters of the stack instrumentation, and stack and intra-object redzones.
  A report is a value: the bad address, whether the access writes, and its size.
\<close>

unbundle bit_operations_syntax

section \<open>Region queries\<close>

function first_poisoned :: "asan_env \<Rightarrow> asan_state \<Rightarrow> uptr \<Rightarrow> uptr \<Rightarrow> uptr option" where
  \<comment> \<open>the slow loop; \<open>None\<close> is the \<^verbatim>\<open>UNREACHABLE\<close> after it\<close>
  "first_poisoned env st beg fin =
     (if beg < fin then
        (if poisoned env st beg then Some beg else first_poisoned env st (beg + 1) fin)
      else None)"
  by pat_completeness auto
termination
  by (relation "measure (\<lambda>(env, st, beg, fin). unat fin - unat beg)")
    (auto simp: unat_succ_less word_less_nat_alt)

declare first_poisoned.simps [simp del]

definition asan_region_is_poisoned :: "asan_env \<Rightarrow> asan_state \<Rightarrow> uptr \<Rightarrow> uptr \<Rightarrow> uptr option" where
  "asan_region_is_poisoned env st beg sz =
     (if sz = 0 then Some 0
      else do {
        let fin = beg + sz;
        if \<not> AddrIsInMem (mp env) beg then Some beg
        else if \<not> AddrIsInMem (mp env) fin then Some fin
        else do {
          CHECK (beg < fin);
          aligned_b \<leftarrow> RoundUpTo beg ASAN_SHADOW_GRANULARITY;
          let aligned_e = RoundDownTo fin ASAN_SHADOW_GRANULARITY;
          shadow_beg \<leftarrow> MemToShadow (mp env) aligned_b;
          shadow_end \<leftarrow> MemToShadow (mp env) aligned_e;
          clean \<leftarrow> (if \<not> poisoned env st beg \<and> \<not> poisoned env st (fin - 1)
                   then (if shadow_end \<le> shadow_beg then Some True
                         else mem_is_zero (shadow st) shadow_beg (shadow_end - shadow_beg))
                   else Some False);
          if clean then Some 0 else first_poisoned env st beg fin
        }
      })"

record access_report =
  bad_addr :: uptr
  is_write :: bool
  access_size :: uptr

definition CHECK_SMALL_REGION ::
  "asan_env \<Rightarrow> asan_state \<Rightarrow> uptr \<Rightarrow> uptr \<Rightarrow> bool \<Rightarrow> access_report option option" where
  "CHECK_SMALL_REGION env st p sz isWrite =
     (if poisoned env st p \<or> poisoned env st (p + sz - 1)
      then do {
        bad \<leftarrow> asan_region_is_poisoned env st p sz;
        Some (Some \<lparr>bad_addr = bad, is_write = isWrite, access_size = sz\<rparr>)
      } else Some None)"

text \<open>The loads and stores work on the application memory and return the report made
  before the access, if any.\<close>

definition load_bytes :: "mem \<Rightarrow> uptr \<Rightarrow> nat \<Rightarrow> nat" where
  "load_bytes m p n = fold (\<lambda>j acc. acc + 256 ^ j * unat (m (p + of_nat j))) [0..<n] 0"

definition store_bytes :: "mem \<Rightarrow> uptr \<Rightarrow> nat \<Rightarrow> nat \<Rightarrow> mem" where
  "store_bytes m p n v = fold (\<lambda>j m. m(p + of_nat j := of_nat (v div 256 ^ j))) [0..<n] m"

definition sanitizer_unaligned_load16 ::
  "asan_env \<Rightarrow> asan_state \<Rightarrow> mem \<Rightarrow> uptr \<Rightarrow> (access_report option \<times> u16) option" where
  "sanitizer_unaligned_load16 env st m p = do {
     r \<leftarrow> CHECK_SMALL_REGION env st p 2 False;
     Some (r, of_nat (load_bytes m p 2))
   }"

definition sanitizer_unaligned_load32 ::
  "asan_env \<Rightarrow> asan_state \<Rightarrow> mem \<Rightarrow> uptr \<Rightarrow> (access_report option \<times> u32) option" where
  "sanitizer_unaligned_load32 env st m p = do {
     r \<leftarrow> CHECK_SMALL_REGION env st p 4 False;
     Some (r, of_nat (load_bytes m p 4))
   }"

definition sanitizer_unaligned_load64 ::
  "asan_env \<Rightarrow> asan_state \<Rightarrow> mem \<Rightarrow> uptr \<Rightarrow> (access_report option \<times> u64) option" where
  "sanitizer_unaligned_load64 env st m p = do {
     r \<leftarrow> CHECK_SMALL_REGION env st p 8 False;
     Some (r, of_nat (load_bytes m p 8))
   }"

definition sanitizer_unaligned_store16 ::
  "asan_env \<Rightarrow> asan_state \<Rightarrow> uptr \<Rightarrow> u16 \<Rightarrow> mem \<Rightarrow> (access_report option \<times> mem) option" where
  "sanitizer_unaligned_store16 env st p x m = do {
     r \<leftarrow> CHECK_SMALL_REGION env st p 2 True;
     Some (r, store_bytes m p 2 (unat x))
   }"

definition sanitizer_unaligned_store32 ::
  "asan_env \<Rightarrow> asan_state \<Rightarrow> uptr \<Rightarrow> u32 \<Rightarrow> mem \<Rightarrow> (access_report option \<times> mem) option" where
  "sanitizer_unaligned_store32 env st p x m = do {
     r \<leftarrow> CHECK_SMALL_REGION env st p 4 True;
     Some (r, store_bytes m p 4 (unat x))
   }"

definition sanitizer_unaligned_store64 ::
  "asan_env \<Rightarrow> asan_state \<Rightarrow> uptr \<Rightarrow> u64 \<Rightarrow> mem \<Rightarrow> (access_report option \<times> mem) option" where
  "sanitizer_unaligned_store64 env st p x m = do {
     r \<leftarrow> CHECK_SMALL_REGION env st p 8 True;
     Some (r, store_bytes m p 8 (unat x))
   }"

section \<open>Array cookies\<close>

definition asan_poison_cxx_array_cookie :: "asan_env \<Rightarrow> uptr \<Rightarrow> asan_state \<Rightarrow> asan_state" where
  "asan_poison_cxx_array_cookie env p st =
     (if \<not> poison_array_cookie env then st
      else set_shadow (MEM_TO_SHADOW (mp env) p) kAsanArrayCookieMagic st)"

definition asan_load_cxx_array_cookie :: "asan_env \<Rightarrow> asan_state \<Rightarrow> mem \<Rightarrow> uptr \<Rightarrow> uptr" where
  "asan_load_cxx_array_cookie env st m p =
     (if \<not> poison_array_cookie env then load64 m p
      else let sval = shadow st (MEM_TO_SHADOW (mp env) p) in
        if sval = kAsanArrayCookieMagic then load64 m p
        else if sval = kAsanHeapFreeMagic then 0
        else load64 m p)"

section \<open>Stack and intra-object redzones\<close>

definition PoisonAlignedStackMemory ::
  "asan_env \<Rightarrow> uptr \<Rightarrow> uptr \<Rightarrow> bool \<Rightarrow> asan_state \<Rightarrow> asan_state option" where
  "PoisonAlignedStackMemory env addr sz do_poison st =
     (if sz = 0 then Some st
      else do {
        let aligned_size = sz AND NOT (ASAN_SHADOW_GRANULARITY - 1);
        st \<leftarrow> PoisonShadow env addr aligned_size (if do_poison then kAsanStackUseAfterScopeMagic else 0) st;
        if sz = aligned_size then Some st
        else do {
          let end_offset = sint (ucast (sz - aligned_size) :: u8);
          shadow_end \<leftarrow> MemToShadow (mp env) (addr + aligned_size);
          let end_value = sint (shadow st shadow_end);
          Some (if do_poison then
                  (if end_value > 0 \<and> end_value \<le> end_offset
                   then set_shadow shadow_end kAsanStackUseAfterScopeMagic st else st)
                else
                  (if end_value \<noteq> 0
                   then set_shadow shadow_end (word_of_int (max end_value end_offset)) st else st))
        }
      })"

text \<open>\<^verbatim>\<open>__asan_set_shadow_00\<close> to \<^verbatim>\<open>__asan_set_shadow_f8\<close> differ in the byte only.\<close>

definition asan_set_shadow_xx :: "u8 \<Rightarrow> uptr \<Rightarrow> uptr \<Rightarrow> asan_state \<Rightarrow> asan_state" where
  "asan_set_shadow_xx v addr sz st = memset_shadow addr v sz st"

definition asan_poison_stack_memory :: "asan_env \<Rightarrow> uptr \<Rightarrow> uptr \<Rightarrow> asan_state \<Rightarrow> asan_state option" where
  "asan_poison_stack_memory env addr sz st = PoisonAlignedStackMemory env addr sz True st"

definition asan_unpoison_stack_memory :: "asan_env \<Rightarrow> uptr \<Rightarrow> uptr \<Rightarrow> asan_state \<Rightarrow> asan_state option" where
  "asan_unpoison_stack_memory env addr sz st = PoisonAlignedStackMemory env addr sz False st"

function AsanPoisonIntraObject_loop ::
  "asan_env \<Rightarrow> bool \<Rightarrow> uptr \<Rightarrow> uptr \<Rightarrow> asan_state \<Rightarrow> asan_state option" where
  \<comment> \<open>\<open>ptr\<close> and \<open>fin\<close> are multiples of 8 here, so the pointer does not wrap\<close>
  "AsanPoisonIntraObject_loop env poison ptr fin st =
     (if ptr < fin \<and> ptr < ptr + 8 then do {
        s \<leftarrow> MemToShadow (mp env) ptr;
        AsanPoisonIntraObject_loop env poison (ptr + 8) fin
          (set_shadow s (if poison then kAsanIntraObjectRedzone else 0) st)
      } else Some st)"
  by pat_completeness auto
termination
  by (relation "measure (\<lambda>(env, poison, ptr, fin, st). unat fin - unat ptr)")
    (auto simp: word_less_nat_alt)

declare AsanPoisonIntraObject_loop.simps [simp del]

definition AsanPoisonOrUnpoisonIntraObjectRedzone ::
  "asan_env \<Rightarrow> uptr \<Rightarrow> uptr \<Rightarrow> bool \<Rightarrow> asan_state \<Rightarrow> asan_state option" where
  "AsanPoisonOrUnpoisonIntraObjectRedzone env ptr sz poison st = do {
     let fin = ptr + sz;
     CHECK (sz \<noteq> 0);
     CHECK (sz \<le> 4096);
     CHECK (IsAligned fin ASAN_SHADOW_GRANULARITY);
     (st, ptr) \<leftarrow> (if \<not> IsAligned ptr ASAN_SHADOW_GRANULARITY then do {
         s \<leftarrow> MemToShadow (mp env) ptr;
         Some (set_shadow s (if poison then ucast (ptr mod ASAN_SHADOW_GRANULARITY) else 0) st,
               (ptr OR (ASAN_SHADOW_GRANULARITY - 1)) + 1)
       } else Some (st, ptr));
     AsanPoisonIntraObject_loop env poison ptr fin st
   }"

definition asan_poison_intra_object_redzone :: "asan_env \<Rightarrow> uptr \<Rightarrow> uptr \<Rightarrow> asan_state \<Rightarrow> asan_state option" where
  "asan_poison_intra_object_redzone env ptr sz st =
     AsanPoisonOrUnpoisonIntraObjectRedzone env ptr sz True st"

definition asan_unpoison_intra_object_redzone :: "asan_env \<Rightarrow> uptr \<Rightarrow> uptr \<Rightarrow> asan_state \<Rightarrow> asan_state option" where
  "asan_unpoison_intra_object_redzone env ptr sz st =
     AsanPoisonOrUnpoisonIntraObjectRedzone env ptr sz False st"

definition WordIsPoisoned :: "asan_env \<Rightarrow> asan_state \<Rightarrow> uptr \<Rightarrow> bool option" where
  "WordIsPoisoned env st addr = map_option (\<lambda>r. r \<noteq> 0) (asan_region_is_poisoned env st addr 8)"

section \<open>Well-formed shadow\<close>

text \<open>A shadow byte is at most 7 as a signed number: 0, a count of accessible leading
  bytes, or a (negative) magic value.\<close>

definition shadow_ok :: "asan_state \<Rightarrow> bool" where
  "shadow_ok st \<longleftrightarrow> (\<forall>q. sint (shadow st q) \<le> 7)"

lemma first_poisoned_spec:
  assumes "beg \<le> x" and "x < fin" and "poisoned env st x"
  shows "\<exists>r. first_poisoned env st beg fin = Some r \<and> beg \<le> r \<and> r < fin \<and> poisoned env st r \<and>
    (\<forall>y. beg \<le> y \<and> y < r \<longrightarrow> \<not> poisoned env st y)"
  using assms
proof (induction env st beg fin rule: first_poisoned.induct)
  case (1 env st beg fin)
  show ?case
  proof (cases "poisoned env st beg")
    case True
    then show ?thesis using 1(2,3) by (intro exI [of _ beg]) (subst first_poisoned.simps, auto)
  next
    case False
    have lt: "beg < fin" using 1(2,3) by simp
    have "x \<noteq> beg" using False 1(4) by blast
    then have "beg < x" using 1(2) by simp
    note succ = word_succ_le_iff [OF \<open>beg < x\<close>]
    obtain r where r: "first_poisoned env st (beg + 1) fin = Some r" "beg < r" "r < fin"
      "poisoned env st r" "\<forall>y. beg < y \<and> y < r \<longrightarrow> \<not> poisoned env st y"
      using 1(1) [OF lt False] \<open>beg < x\<close> 1(3,4) by (auto simp: succ)
    have "\<forall>y. beg \<le> y \<and> y < r \<longrightarrow> \<not> poisoned env st y"
      using r(5) False by (metis order.order_iff_strict)
    moreover have "first_poisoned env st beg fin = Some r"
      using lt False r(1) by (subst first_poisoned.simps) simp
    ultimately show ?thesis using r(2-4) by (intro exI [of _ r]) simp
  qed
qed

lemma poisoned_granule_iff:
  assumes "shadow_ok st" and "goffset y = 7"
  shows "poisoned env st y \<longleftrightarrow> shadow st (MEM_TO_SHADOW (mp env) y) \<noteq> 0"
  using assms by (simp add: poisoned_alt Let_def shadow_ok_def sint_u8_eq_0_iff)

lemma poisoned_mono:
  "poisoned env st y \<Longrightarrow> granule x = granule y \<Longrightarrow> goffset y \<le> goffset x \<Longrightarrow> poisoned env st x"
  unfolding poisoned_alt Let_def by (metis MEM_TO_SHADOW_eq_iff of_nat_le_iff order_trans)

lemma shadow_range_zero_iff:
  assumes "offset_ok (mp env)" and "shadow_ok st" and "granule b \<le> granule e"
  shows "(\<forall>q. MEM_TO_SHADOW (mp env) b \<le> q \<and> q < MEM_TO_SHADOW (mp env) e \<longrightarrow> shadow st q = 0) \<longleftrightarrow>
    (\<forall>x. granule b \<le> granule x \<and> granule x < granule e \<longrightarrow> \<not> poisoned env st x)"
proof
  assume z: "\<forall>q. MEM_TO_SHADOW (mp env) b \<le> q \<and> q < MEM_TO_SHADOW (mp env) e \<longrightarrow> shadow st q = 0"
  show "\<forall>x. granule b \<le> granule x \<and> granule x < granule e \<longrightarrow> \<not> poisoned env st x"
  proof (intro allI impI)
    fix x assume "granule b \<le> granule x \<and> granule x < granule e"
    then have "MEM_TO_SHADOW (mp env) b \<le> MEM_TO_SHADOW (mp env) x"
      "MEM_TO_SHADOW (mp env) x < MEM_TO_SHADOW (mp env) e"
      using assms(1) by (simp_all add: word_le_nat_alt word_less_nat_alt unat_MEM_TO_SHADOW)
    then show "\<not> poisoned env st x" using z by (simp add: poisoned_alt Let_def)
  qed
next
  assume np: "\<forall>x. granule b \<le> granule x \<and> granule x < granule e \<longrightarrow> \<not> poisoned env st x"
  show "\<forall>q. MEM_TO_SHADOW (mp env) b \<le> q \<and> q < MEM_TO_SHADOW (mp env) e \<longrightarrow> shadow st q = 0"
  proof (intro allI impI)
    fix q assume q: "MEM_TO_SHADOW (mp env) b \<le> q \<and> q < MEM_TO_SHADOW (mp env) e"
    define o' where "o' = unat (ASAN_SHADOW_OFFSET (mp env))"
    have q': "granule b + o' \<le> unat q" "unat q < granule e + o'"
      using q assms(1) by (simp_all add: word_le_nat_alt word_less_nat_alt unat_MEM_TO_SHADOW o'_def)
    define x :: uptr where "x = of_nat (8 * (unat q - o') + 7)"
    have "unat q - o' < 2 ^ 61" using q' granule_bound [of e] by simp
    then have "8 * (unat q - o') + 7 < 2 ^ 64" by simp
    then have ux: "unat x = 8 * (unat q - o') + 7" unfolding x_def by (rule unat_of_nat_uptr)
    then have gx: "granule x = unat q - o'" "goffset x = 7" by (simp_all add: granule_def goffset_def)
    then have "MEM_TO_SHADOW (mp env) x = q"
      using q' assms(1) by (simp add: word_unat_eq_iff unat_MEM_TO_SHADOW o'_def [symmetric])
    moreover have "granule b \<le> granule x \<and> granule x < granule e" using q' by (simp only: gx(1)) linarith
    then have "\<not> poisoned env st x" using np by blast
    ultimately show "shadow st q = 0" using poisoned_granule_iff [OF assms(2) gx(2)] by simp
  qed
qed

lemma RoundUpTo_granule:
  assumes "unat a + 7 < 2 ^ 64" and "RoundUpTo a 8 = Some b"
  shows "granule b = (if goffset a = 0 then granule a else granule a + 1)" and "goffset b = 0"
proof -
  have "unat b = (unat a + 7) div 8 * 8" using unat_RoundUpTo [of a 3 b] assms by simp
  then have "granule b = (unat a + 7) div 8" and "goffset b = 0"
    by (simp_all add: granule_def goffset_def)
  moreover have "(8 * g + r + 7) div 8 = (if r = 0 then g else g + 1)" if "r < 8" for g r :: nat
    using that by (cases r) simp_all
  ultimately show "granule b = (if goffset a = 0 then granule a else granule a + 1)" and "goffset b = 0"
    using goffset_less(1) [of a] by (simp_all only: unat_granule [of a])
qed

definition granules_clean :: "asan_env \<Rightarrow> asan_state \<Rightarrow> uptr \<Rightarrow> uptr \<Rightarrow> bool" where
  "granules_clean env st b e \<longleftrightarrow>
     (\<forall>x. granule b \<le> granule x \<and> granule x < granule e \<longrightarrow> \<not> poisoned env st x)"

text \<open>The fast scan of the shadow decides whether the whole granules are clean.\<close>

lemma region_scan:
  fixes env :: asan_env and b e :: uptr
  defines "sb \<equiv> MEM_TO_SHADOW (mp env) b" and "se \<equiv> MEM_TO_SHADOW (mp env) (RoundDownTo e 8)"
  assumes "offset_ok (mp env)" and "shadow_ok st" and "unat e + 64 \<le> 2 ^ 64"
    and "granule e \<le> granule b + 2 ^ 40"
  shows "(if se \<le> sb then Some True else mem_is_zero (shadow st) sb (se - sb)) =
    Some (granules_clean env st b e)"
proof (cases "granule e \<le> granule b")
  case True
  then show ?thesis
    using assms(3) by (auto simp: granules_clean_def word_le_nat_alt unat_MEM_TO_SHADOW sb_def se_def)
next
  case False
  have lt: "unat sb \<le> unat se" "unat sb < unat se"
    using False assms(3) by (simp_all add: unat_MEM_TO_SHADOW sb_def se_def)
  have g: "granule e < 2 ^ 61 - 7" using assms(5) by (simp add: granule_def)
  have d: "unat (se - sb) = granule e - granule b"
    using lt(1) assms(3) by (simp add: unat_sub word_le_nat_alt unat_MEM_TO_SHADOW sb_def se_def)
  then have small: "se - sb \<le> 2 ^ 40" using assms(6) by (simp add: word_le_nat_alt)
  have nowrap: "unat sb + unat (se - sb) + 8 \<le> 2 ^ 64"
    using d g False assms(3) by (simp add: unat_MEM_TO_SHADOW offset_ok_def sb_def)
  have "mem_is_zero (shadow st) sb (se - sb) = Some (\<forall>q. sb \<le> q \<and> q < se \<longrightarrow> shadow st q = 0)"
    using mem_is_zero_correct [OF small nowrap] by simp
  then show ?thesis
    using lt(2) False shadow_range_zero_iff [OF assms(3,4), of b "RoundDownTo e 8"]
    by (simp add: granules_clean_def word_le_nat_alt sb_def se_def)
qed

text \<open>With a clean last byte, the granules decide for every byte from a boundary on.\<close>

lemma granules_clean_tail:
  assumes "\<not> poisoned env st (e - 1)" and "goffset b = 0" and "e \<noteq> 0"
  shows "granules_clean env st b e \<longleftrightarrow> \<not> (\<exists>x. b \<le> x \<and> x < e \<and> poisoned env st x)"
proof -
  have "granules_clean env st b e" if none: "\<not> (\<exists>x. b \<le> x \<and> x < e \<and> poisoned env st x)"
    using none assms(2) by (auto simp: granules_clean_def addr_le_iff addr_less_iff le_less)
  moreover have "\<not> granules_clean env st b e" if x: "b \<le> x" "x < e" "poisoned env st x" for x
  proof -
    have le: "x \<le> e - 1" "e - 1 < e"
      using x(2) assms(3) unat_minus_1 [OF assms(3)] by (simp_all add: word_le_pred_iff word_less_nat_alt unat_gt_0)
    have "granule x \<noteq> granule e"
    proof
      assume g: "granule x = granule e"
      have "granule x \<le> granule (e - 1)" "granule (e - 1) \<le> granule e"
        using le by (auto simp: addr_le_iff addr_less_iff)
      then have "granule (e - 1) = granule x" using g by simp
      then show False using poisoned_mono [OF x(3)] le assms(1) by (auto simp: addr_le_iff)
    qed
    then show ?thesis using x by (auto simp: granules_clean_def addr_le_iff addr_less_iff le_less)
  qed
  ultimately show ?thesis by blast
qed

lemma region_is_poisoned_run:
  assumes "offset_ok (mp env)" and "shadow_ok st" and "sz \<noteq> 0" and "sz \<le> 2 ^ 40"
    and "unat beg + unat sz + 64 \<le> 2 ^ 64"
    and "AddrIsInMem (mp env) beg" and "AddrIsInMem (mp env) (beg + sz)"
    and "RoundUpTo beg 8 = Some ab" and "AddrIsInMem (mp env) ab"
    and "AddrIsInMem (mp env) (RoundDownTo (beg + sz) 8)"
  shows "beg < beg + sz" and "beg \<le> ab" and "goffset ab = 0"
    and "asan_region_is_poisoned env st beg sz =
      (if \<not> poisoned env st beg \<and> \<not> poisoned env st (beg + sz - 1) \<and> granules_clean env st ab (beg + sz)
       then Some 0 else first_poisoned env st beg (beg + sz))"
proof -
  let ?e = "beg + sz"
  have ue: "unat ?e = unat beg + unat sz" using assms(5) by (simp add: unat_word_ariths)
  have pos: "0 < unat sz" using assms(3) by (simp add: unat_gt_0)
  show lt: "beg < ?e" using ue pos by (simp add: word_less_nat_alt)
  show ab: "beg \<le> ab" "goffset ab = 0"
    using RoundUpTo_granule [OF _ assms(8)] assms(5) by (auto simp: addr_le_iff split: if_splits)
  have "granule ?e \<le> granule ab + 2 ^ 40"
    using ab ue assms(4) unat_granule [of ?e] unat_granule [of ab] by (simp add: word_le_nat_alt)
  note scan = region_scan [OF assms(1,2) _ this]
  show "asan_region_is_poisoned env st beg sz =
      (if \<not> poisoned env st beg \<and> \<not> poisoned env st (?e - 1) \<and> granules_clean env st ab ?e then Some 0
       else first_poisoned env st beg ?e)"
    using assms(3,5-10) lt scan ue
    by (simp add: asan_region_is_poisoned_def MemToShadow_def Let_def del: if_split)
qed

lemma region_query:
  assumes "offset_ok (mp env)" and "shadow_ok st" and "sz \<noteq> 0" and "sz \<le> 2 ^ 40"
    and "unat beg + unat sz + 64 \<le> 2 ^ 64"
    and "AddrIsInMem (mp env) beg" and "AddrIsInMem (mp env) (beg + sz)"
    and "RoundUpTo beg 8 = Some ab" and "AddrIsInMem (mp env) ab"
    and "AddrIsInMem (mp env) (RoundDownTo (beg + sz) 8)"
  shows "\<exists>r. asan_region_is_poisoned env st beg sz = Some r \<and>
    (if poisoned env st beg \<or> poisoned env st (beg + sz - 1) \<or>
        (\<exists>x. ab \<le> x \<and> x < beg + sz \<and> poisoned env st x)
     then beg \<le> r \<and> r < beg + sz \<and> poisoned env st r \<and>
       (\<forall>x. beg \<le> x \<and> x < r \<longrightarrow> \<not> poisoned env st x)
     else r = 0)"
proof -
  let ?e = "beg + sz"
  note run = region_is_poisoned_run [OF assms]
  have ne: "?e \<noteq> 0" using run(1) by (metis word_not_simps(1))
  have last: "beg \<le> ?e - 1" "?e - 1 < ?e"
    using run(1) ne unat_minus_1 [OF ne] by (simp_all add: word_le_pred_iff word_less_nat_alt unat_gt_0)
  note tail = granules_clean_tail [OF _ run(3) ne]
  show ?thesis
  proof (cases "poisoned env st beg \<or> poisoned env st (?e - 1) \<or> (\<exists>x. ab \<le> x \<and> x < ?e \<and> poisoned env st x)")
    case True
    have ex: "\<exists>x. beg \<le> x \<and> x < ?e \<and> poisoned env st x"
      using True run(1,2) last by (meson order_refl order_trans)
    have "asan_region_is_poisoned env st beg sz = first_poisoned env st beg ?e"
      using run(4) True tail by auto
    then show ?thesis using first_poisoned_spec True ex by metis
  next
    case False
    then show ?thesis using run(4) tail by auto
  qed
qed

text \<open>
  C16: \<^verbatim>\<open>__asan_region_is_poisoned\<close> returns on every region of application memory of at
  most \<open>2 ^ 40\<close> bytes. If the first byte, the last byte or a byte from the first granule
  boundary on is poisoned, the result is the least poisoned address of the region;
  otherwise it is 0.
\<close>

theorem region_is_poisoned_result:
  assumes "offset_ok (mp env)" and "shadow_ok st" and "sz \<noteq> 0" and "sz \<le> 2 ^ 40"
    and "unat beg + unat sz + 64 \<le> 2 ^ 64"
    and "AddrIsInMem (mp env) beg" and "AddrIsInMem (mp env) (beg + sz)"
    and "RoundUpTo beg 8 = Some ab" and "AddrIsInMem (mp env) ab"
    and "AddrIsInMem (mp env) (RoundDownTo (beg + sz) 8)"
  shows "\<exists>r. asan_region_is_poisoned env st beg sz = Some r \<and>
    (if poisoned env st beg \<or> poisoned env st (beg + sz - 1) \<or>
        (\<exists>x. ab \<le> x \<and> x < beg + sz \<and> poisoned env st x)
     then beg \<le> r \<and> r < beg + sz \<and> poisoned env st r \<and>
       (\<forall>x. beg \<le> x \<and> x < r \<longrightarrow> \<not> poisoned env st x)
     else r = 0)"
  by (rule region_query [OF assms])

theorem region_is_poisoned_result_witness:
  "\<exists>r. asan_region_is_poisoned x86_64_env clean_state 0x602000000011 20 = Some r \<and>
    (if poisoned x86_64_env clean_state 0x602000000011 \<or>
        poisoned x86_64_env clean_state (0x602000000011 + 20 - 1) \<or>
        (\<exists>x. 0x602000000018 \<le> x \<and> x < 0x602000000011 + 20 \<and> poisoned x86_64_env clean_state x)
     then 0x602000000011 \<le> r \<and> r < 0x602000000011 + 20 \<and> poisoned x86_64_env clean_state r \<and>
       (\<forall>x. 0x602000000011 \<le> x \<and> x < r \<longrightarrow> \<not> poisoned x86_64_env clean_state x)
     else r = 0)"
  by (rule region_is_poisoned_result)
    (simp_all add: in_mem_eval shadow_ok_def clean_state_def RoundUpTo_def IsPowerOfTwo_def RoundDownTo_def)

text \<open>
  C38: the query misses poisoned bytes of a partially accessible first granule: with only
  the first two bytes of the granule at \<open>0x602000000010\<close> accessible and the next granule
  clean, the region from offset 1 to the end of the next granule contains the poisoned
  byte at offset 2, but the result is 0.
\<close>

theorem region_is_poisoned_misses_first_granule:
  "let st = set_shadow (MEM_TO_SHADOW x86_64_mapping 0x602000000010) 2 clean_state in
     poisoned x86_64_env st 0x602000000012 \<and>
     asan_region_is_poisoned x86_64_env st 0x602000000011 15 = Some 0"
proof -
  let ?st = "set_shadow (MEM_TO_SHADOW x86_64_mapping 0x602000000010) 2 clean_state"
  have p: "poisoned x86_64_env ?st x \<longleftrightarrow> granule x = granule 0x602000000010 \<and> 2 \<le> goffset x" for x
    unfolding poisoned_alt by (auto simp: clean_state_def MEM_TO_SHADOW_eq_iff Let_def x86_64_env_def)
  have ok: "shadow_ok ?st" by (simp add: shadow_ok_def clean_state_def)
  have "asan_region_is_poisoned x86_64_env ?st 0x602000000011 15 =
      (if \<not> poisoned x86_64_env ?st 0x602000000011 \<and> \<not> poisoned x86_64_env ?st (0x602000000011 + 15 - 1) \<and>
          granules_clean x86_64_env ?st 0x602000000018 (0x602000000011 + 15)
       then Some 0 else first_poisoned x86_64_env ?st 0x602000000011 (0x602000000011 + 15))"
    by (rule region_is_poisoned_run(4) [OF _ ok])
      (simp_all add: in_mem_eval RoundUpTo_def IsPowerOfTwo_def RoundDownTo_def)
  moreover have "granules_clean x86_64_env ?st 0x602000000018 (0x602000000011 + 15)"
    unfolding granules_clean_def p by (simp add: granule_def)
  ultimately show ?thesis unfolding Let_def p by (simp add: granule_def goffset_def)
qed

end
