(* ===== verification/Asan_Shadow.thy ===== *)
theory Asan_Shadow
  imports Asan_Region
begin

text \<open>
  What the shadow writers guarantee: \<^verbatim>\<open>FastPoisonShadow\<close> fills the shadow of a region
  on each of its three paths, the partial right redzone leaves exactly the first bytes of the
  object accessible, and every entry point keeps the shadow well formed.
\<close>

unbundle bit_operations_syntax

section \<open>Filling the shadow of a region\<close>

text \<open>The documented behaviour of a fixed anonymous mapping: the pages read as zero.\<close>

definition mmap_zeroes :: "asan_env \<Rightarrow> bool" where
  "mmap_zeroes env \<longleftrightarrow> (\<forall>b n m. os_mmap_fixed env b n m = Some (memset m b 0 n))"

lemma memset_at: "p \<le> r \<Longrightarrow> memset m p v (r - p) q = (if p \<le> q \<and> q < r then v else m q)"
  by (simp add: memset_def word_range_iff)

lemma memset_empty [simp]: "memset m p v 0 = m"
  by (simp add: memset_def)

lemma memset_pages:
  assumes "sb \<le> pb" and "pb < pe" and "pe \<le> se"
  shows "memset (memset (memset m sb 0 (pb - sb)) pe 0 (se - pe)) pb 0 (pe - pb) = memset m sb 0 (se - sb)"
  using assms by (auto simp: fun_eq_iff memset_at)

lemma FastPoisonShadow_memset:
  assumes "mmap_zeroes env" and "page_size env = 2 ^ k" and "k < 32"
    and "unat sb + 2 ^ k \<le> 2 ^ 64" and "sb \<le> se"
    and "sb = MEM_TO_SHADOW (mp env) b"
    and "se = MEM_TO_SHADOW (mp env) (b + sz - ASAN_SHADOW_GRANULARITY) + 1"
  shows "FastPoisonShadow env b sz v st = Some (memset_shadow sb v (se - sb) st)"
proof (cases "v \<noteq> 0 \<or> se - sb < clear_shadow_mmap_threshold env")
  note ends = assms(6) [symmetric] assms(7) [unfolded granularity_eq, symmetric]
  case True
  then show ?thesis by (simp add: FastPoisonShadow_def ends)
next
  note ends = assms(6) [symmetric] assms(7) [unfolded granularity_eq, symmetric]
  case False
  obtain pb where pb: "RoundUpTo sb (2 ^ k) = Some pb"
    using RoundUpTo_exp [of sb k] assms(3) by simp
  have upb: "unat pb = (unat sb + (2 ^ k - 1)) div 2 ^ k * 2 ^ k"
    using unat_RoundUpTo [of sb k pb] assms(3,4) pb by simp
  let ?pe = "RoundDownTo se (2 ^ k)"
  have upe: "unat ?pe = unat se div 2 ^ k * 2 ^ k" using unat_RoundDownTo [of se k] assms(3) by simp
  have le: "sb \<le> pb" "?pe \<le> se"
    using round_up_div_bounds(1) [of "2 ^ k" "unat sb"] by (simp_all add: word_le_nat_alt upb upe)
  have ps: "unat (2 ^ k :: uptr) = 2 ^ k" using assms(3) by (simp add: unat_exp)
  have al: "pb mod 2 ^ k = 0" "?pe mod 2 ^ k = 0"
    by (simp_all add: word_unat_eq_iff unat_mod ps upb upe)
  show ?thesis
  proof (cases "?pe \<le> pb")
    case True
    then show ?thesis using False pb
      by (simp add: FastPoisonShadow_def assms(2) ends Let_def)
  next
    case False
    then have lt: "pb < ?pe" by simp
    have "FastPoisonShadow env b sz v st = Some (st\<lparr>shadow :=
        memset (memset (memset (shadow st) sb 0 (pb - sb)) ?pe 0 (se - ?pe)) pb 0 (?pe - pb)\<rparr>)"
      using \<open>\<not> (v \<noteq> 0 \<or> _)\<close> False pb al assms(1)
      by (simp add: FastPoisonShadow_def assms(2) ends Let_def memset_shadow_def
          ReserveShadowMemoryRange_def mmap_zeroes_def)
    then show ?thesis using \<open>\<not> (v \<noteq> 0 \<or> _)\<close> by (simp add: memset_pages [OF le(1) lt le(2)] memset_shadow_def)
  qed
qed

text \<open>What the operations below assume of the platform: a fixed mapping reads as zero, the
  page size is a power of two, and the shadow ends a page below the top of the address space.\<close>

definition platform_ok :: "asan_env \<Rightarrow> bool" where
  "platform_ok env \<longleftrightarrow> mmap_zeroes env \<and>
     (\<exists>k<32. page_size env = 2 ^ k \<and> unat (ASAN_SHADOW_OFFSET (mp env)) + 2 ^ 61 + 2 ^ k \<le> 2 ^ 64)"

lemma platform_offset_ok: "platform_ok env \<Longrightarrow> offset_ok (mp env)"
  by (auto simp: platform_ok_def offset_ok_def)

lemma granule_minus_8:
  assumes "goffset b = 0" and "8 \<le> unat b"
  shows "granule (b - 8) = granule b - 1" and "goffset (b - 8) = 0" and "0 < granule b"
proof -
  have "unat (b - 8) = unat b - 8" using unat_sub [of 8 b] assms(2) by (simp add: word_le_nat_alt)
  then have "unat (b - 8) = 8 * (granule b - 1)"
    using unat_granule [of b] assms(1) by (simp add: algebra_simps)
  then show "granule (b - 8) = granule b - 1" and "goffset (b - 8) = 0"
    by (simp_all add: granule_def goffset_def)
  show "0 < granule b" using assms unat_granule [of b] by simp
qed

lemma PoisonShadow_run:
  assumes "platform_ok env" and "can_poison_memory st \<or> v = 0"
    and "goffset a = 0" and "goffset b = 0" and "granule a \<le> granule b" and "8 \<le> unat b"
    and "AddrIsInMem (mp env) a" and "AddrIsInMem (mp env) (b - 8)"
  shows "\<exists>st'. PoisonShadow env a (b - a) v st = Some st' \<and>
    can_poison_memory st' = can_poison_memory st \<and> poison_records st' = poison_records st \<and>
    (\<forall>x. shadow st' (MEM_TO_SHADOW (mp env) x) =
       (if granule a \<le> granule x \<and> granule x < granule b then v
        else shadow st (MEM_TO_SHADOW (mp env) x)))"
proof -
  let ?m = "mp env"
  obtain k where k: "mmap_zeroes env" "page_size env = 2 ^ k" "k < 32"
    "unat (ASAN_SHADOW_OFFSET ?m) + 2 ^ 61 + 2 ^ k \<le> 2 ^ 64"
    using assms(1) by (auto simp: platform_ok_def)
  have ok: "offset_ok ?m" by (rule platform_offset_ok [OF assms(1)])
  note gb = granule_minus_8(1) [OF assms(4,6)] and pos = granule_minus_8(3) [OF assms(4,6)]
  define sb se where "sb = MEM_TO_SHADOW ?m a" and "se = MEM_TO_SHADOW ?m (b - 8) + 1"
  have usb: "unat sb = granule a + unat (ASAN_SHADOW_OFFSET ?m)"
    by (simp add: sb_def unat_MEM_TO_SHADOW [OF ok])
  have "unat (MEM_TO_SHADOW ?m (b - 8)) < 2 ^ 64 - 1"
    using gb pos granule_bound [of b] ok by (simp add: unat_MEM_TO_SHADOW offset_ok_def)
  then have use: "unat se = granule b + unat (ASAN_SHADOW_OFFSET ?m)"
    using gb pos by (simp add: se_def unat_plus_1 unat_MEM_TO_SHADOW [OF ok])
  have le: "sb \<le> se" using assms(5) by (simp add: word_le_nat_alt usb use)
  have room: "unat sb + 2 ^ k \<le> 2 ^ 64" using usb granule_bound [of a] k(4) by linarith
  have "FastPoisonShadow env a (b - a) v st = Some (memset_shadow sb v (se - sb) st)"
    by (rule FastPoisonShadow_memset [OF k(1-3) room le]) (simp_all add: sb_def se_def)
  then have "PoisonShadow env a (b - a) v st = Some (memset_shadow sb v (se - sb) st)"
    using assms(2-4,7,8) by (auto simp: PoisonShadow_def CanPoisonMemory_def aligned_iff)
  moreover have "shadow (memset_shadow sb v (se - sb) st) (MEM_TO_SHADOW ?m x) =
      (if granule a \<le> granule x \<and> granule x < granule b then v
       else shadow st (MEM_TO_SHADOW ?m x))" for x
    by (simp add: shadow_memset_shadow [OF le] word_le_nat_alt word_less_nat_alt usb use unat_MEM_TO_SHADOW [OF ok])
  ultimately show ?thesis by simp
qed

text \<open>
  C33: \<^verbatim>\<open>PoisonShadow\<close> on an aligned region of application memory writes its value to
  the shadow of every granule of the region and to no other, whether it fills the shadow with
  \<^verbatim>\<open>memset\<close> or clears whole pages by remapping them (given that a fixed mapping reads as
  zero), and leaves the rest of the state alone.
\<close>

theorem poison_shadow_exact:
  assumes "platform_ok env" and "can_poison_memory st \<or> value = 0"
    and "goffset addr = 0" and "goffset (addr + sz) = 0" and "addr < addr + sz"
    and "AddrIsInMem (mp env) addr" and "AddrIsInMem (mp env) (addr + sz - 8)"
  shows "\<exists>st'. PoisonShadow env addr sz value st = Some st' \<and>
    can_poison_memory st' = can_poison_memory st \<and> poison_records st' = poison_records st \<and>
    (\<forall>x. shadow st' (MEM_TO_SHADOW (mp env) x) =
       (if granule addr \<le> granule x \<and> granule x < granule (addr + sz) then value
        else shadow st (MEM_TO_SHADOW (mp env) x)))"
proof -
  have g: "granule addr < granule (addr + sz)" using assms(3-5) by (auto simp: addr_less_iff)
  then have "8 \<le> unat (addr + sz)" using unat_granule [of "addr + sz"] by linarith
  then show ?thesis
    using PoisonShadow_run [OF assms(1,2,3,4) _ _ assms(6,7)] g by simp
qed

lemma x86_64_platform_ok [simp]: "platform_ok x86_64_env"
  unfolding platform_ok_def mmap_zeroes_def
  by (intro conjI exI [of _ 12]) (simp_all add: in_mem_eval)

theorem poison_shadow_exact_witness:
  "\<exists>st'. PoisonShadow x86_64_env 0x602000000010 0x1000 0xfa clean_state = Some st' \<and>
    can_poison_memory st' = can_poison_memory clean_state \<and> poison_records st' = poison_records clean_state \<and>
    (\<forall>x. shadow st' (MEM_TO_SHADOW (mp x86_64_env) x) =
       (if granule 0x602000000010 \<le> granule x \<and> granule x < granule (0x602000000010 + 0x1000) then 0xfa
        else shadow clean_state (MEM_TO_SHADOW (mp x86_64_env) x)))"
  by (rule poison_shadow_exact [OF x86_64_platform_ok]) (simp_all add: in_mem_eval clean_state_def)

section \<open>The partial right redzone\<close>

definition redzone_byte :: "bool \<Rightarrow> nat \<Rightarrow> u8 \<Rightarrow> nat \<Rightarrow> u8" where
  "redzone_byte partial sz value i =
     (if i + 8 \<le> sz then 0 else if i \<ge> sz then value else if partial then of_nat (sz - i) else 0)"

lemma FastPoisonRightRedzone_loop_at:
  assumes "redzone_size < 2 ^ 64"
  shows "shadow (FastPoisonRightRedzone_loop partial sh sz redzone_size v i st) q =
    (if i + 8 * unat (q - sh) < redzone_size then redzone_byte partial sz v (i + 8 * unat (q - sh))
     else shadow st q)"
  using assms
proof (induction partial sh sz redzone_size v i st rule: FastPoisonRightRedzone_loop.induct)
  case (1 partial sh sz redzone_size v i st)
  show ?case
  proof (cases "i < redzone_size")
    case True
    define st1 where "st1 = set_shadow sh (redzone_byte partial sz v i) st"
    have st1: "st1 = (if i + 8 \<le> sz then set_shadow sh 0 st else if i \<ge> sz then set_shadow sh v st
        else set_shadow sh (if partial then of_nat (sz - i) else 0) st)"
      by (simp add: st1_def redzone_byte_def)
    have step: "FastPoisonRightRedzone_loop partial sh sz redzone_size v i st =
        FastPoisonRightRedzone_loop partial (sh + 1) sz redzone_size v (i + 8) st1"
      using True by (subst FastPoisonRightRedzone_loop.simps) (simp only: st1 Let_def if_True)
    note IH = 1(1) [OF True st1 1(2)]
    show ?thesis
    proof (cases "q = sh")
      case True
      have "unat (sh - (sh + 1)) = 2 ^ 64 - 1" by (simp add: unat_minus_1_uptr)
      then show ?thesis using True \<open>i < redzone_size\<close> 1(2) unfolding step IH by (simp add: st1_def)
    next
      case False
      then have "q - sh \<noteq> 0" by simp
      from unat_minus_1 [OF this] have "unat (q - (sh + 1)) = unat (q - sh) - 1"
        by (simp add: diff_diff_add)
      moreover have "0 < unat (q - sh)" using \<open>q - sh \<noteq> 0\<close> by (simp add: unat_gt_0)
      ultimately have eq: "i + 8 + 8 * unat (q - (sh + 1)) = i + 8 * unat (q - sh)" by simp
      show ?thesis using False unfolding step IH eq by (simp add: st1_def)
    qed
  next
    case False
    then show ?thesis by (subst FastPoisonRightRedzone_loop.simps) simp
  qed
qed

lemma redzone_byte_poisoned:
  assumes "sint v < 0" and "j < 8"
  shows "sint (redzone_byte True n v (8 * d)) \<noteq> 0 \<and> sint (redzone_byte True n v (8 * d)) \<le> int j \<longleftrightarrow>
    n \<le> 8 * d + j"
proof -
  have "sint (of_nat (n - 8 * d) :: u8) = int (n - 8 * d)" if "\<not> 8 * d + 8 \<le> n"
    by (rule sint_u8_of_nat) (use that in linarith)
  then show ?thesis using assms by (auto simp: redzone_byte_def simp del: of_nat_diff)
qed

text \<open>
  after \<^verbatim>\<open>PoisonShadowPartialRightRedzone(addr, size, redzone_size, value)\<close> with a
  negative value, partial poisoning on and a redzone of whole granules, a byte of the
  \<open>redzone_size\<close> bytes from \<open>addr\<close> is poisoned iff it is not one of the first \<open>size\<close>
  bytes, and every other byte is as before.
\<close>

theorem partial_right_redzone_exact:
  assumes "offset_ok (mp env)" and "poison_partial env" and "can_poison_memory st"
    and "goffset addr = 0" and "AddrIsInMem (mp env) addr"
    and "8 dvd unat rz" and "unat addr + unat rz \<le> 2 ^ 64" and "sint v < 0"
  shows "\<exists>st'. PoisonShadowPartialRightRedzone env addr sz rz v st = Some st' \<and>
    (\<forall>x. poisoned env st' x \<longleftrightarrow>
       (if addr \<le> x \<and> unat x < unat addr + unat rz then unat addr + unat sz \<le> unat x
        else poisoned env st x))"
proof -
  let ?m = "mp env"
  define st' where "st' = FastPoisonShadowPartialRightRedzone env addr sz rz v st"
  have "PoisonShadowPartialRightRedzone env addr sz rz v st = Some st'"
    using assms(3-5) by (simp add: PoisonShadowPartialRightRedzone_def CanPoisonMemory_def aligned_iff st'_def)
  moreover have "poisoned env st' x \<longleftrightarrow>
      (if addr \<le> x \<and> unat x < unat addr + unat rz then unat addr + unat sz \<le> unat x
       else poisoned env st x)" for x
  proof -
    define d where "d = unat (MEM_TO_SHADOW ?m x - MEM_TO_SHADOW ?m addr)"
    have sh: "shadow st' (MEM_TO_SHADOW ?m x) =
        (if 8 * d < unat rz then redzone_byte True (unat sz) v (8 * d) else shadow st (MEM_TO_SHADOW ?m x))"
      using FastPoisonRightRedzone_loop_at [OF uptr_bound [of rz]] assms(2)
      by (simp add: st'_def FastPoisonShadowPartialRightRedzone_def d_def)
    have ua: "unat addr = 8 * granule addr" using unat_granule [of addr] assms(4) by simp
    obtain r where r: "unat rz = 8 * r" using assms(6) by blast
    show ?thesis
    proof (cases "granule addr \<le> granule x")
      case True
      then have d: "granule x = granule addr + d"
        using assms(1) by (simp add: d_def unat_sub word_le_nat_alt unat_MEM_TO_SHADOW)
      have inr: "addr \<le> x \<and> unat x < unat addr + unat rz \<longleftrightarrow> 8 * d < unat rz"
        using unat_granule [of x] goffset_less [of x] ua r d by (auto simp: word_le_nat_alt)
      have "sint (redzone_byte True (unat sz) v (8 * d)) \<noteq> 0 \<and>
          sint (redzone_byte True (unat sz) v (8 * d)) \<le> int (goffset x) \<longleftrightarrow> unat addr + unat sz \<le> unat x"
        using redzone_byte_poisoned [OF assms(8) goffset_less(1) [of x]] unat_granule [of x] ua d by simp
      then show ?thesis unfolding poisoned_alt Let_def sh by (simp add: inr)
    next
      case False
      then have "\<not> addr \<le> x" by (simp add: addr_le_iff)
      moreover have "d = granule x + 2 ^ 64 - granule addr"
        using False assms(1) by (simp add: d_def unat_sub_if_size word_size unat_MEM_TO_SHADOW)
      then have "2 ^ 64 \<le> 8 * d" using granule_bound [of addr] by simp
      ultimately show ?thesis unfolding poisoned_alt Let_def sh using uptr_bound [of rz] by simp
    qed
  qed
  ultimately show ?thesis by (intro exI [of _ st']) simp
qed

theorem partial_right_redzone_exact_witness:
  "\<exists>st'. PoisonShadowPartialRightRedzone x86_64_env 0x602000000010 13 32 0xfa clean_state = Some st' \<and>
    (\<forall>x. poisoned x86_64_env st' x \<longleftrightarrow>
       (if 0x602000000010 \<le> x \<and> unat x < unat (0x602000000010 :: uptr) + unat (32 :: uptr)
        then unat (0x602000000010 :: uptr) + unat (13 :: uptr) \<le> unat x
        else poisoned x86_64_env clean_state x))"
  by (rule partial_right_redzone_exact) (simp_all add: in_mem_eval clean_state_def)

end
