(* ===== verification/Asan_Container.thy ===== *)
theory Asan_Container
  imports Asan_Shadow
begin

text \<open>
  Container annotations of \<^verbatim>\<open>asan_poisoning.cpp\<close> (lines 437--914):
  \<^verbatim>\<open>__sanitizer_annotate_contiguous_container\<close>, its double-ended variant, the copy of
  annotations between buffers, and the verification functions. A pointer result is an
  address, with 0 for \<^verbatim>\<open>nullptr\<close>. A report of bad parameters ends the process when
  \<^verbatim>\<open>halt_on_error\<close> is set and otherwise returns. The copy loops are partial functions, so
  that a loop that does not end is \<open>None\<close>.
\<close>

unbundle bit_operations_syntax

section \<open>Annotating\<close>

definition ReportBadParams :: "asan_env \<Rightarrow> bool \<Rightarrow> unit option" where
  "ReportBadParams env bad = CHECK (\<not> (bad \<and> halt_on_error env))"

text \<open>\<^verbatim>\<open>*(u8 *)MemToShadow(p) = v\<close>.\<close>

definition store_shadow :: "asan_env \<Rightarrow> uptr \<Rightarrow> u8 \<Rightarrow> asan_state \<Rightarrow> asan_state option" where
  "store_shadow env p v st = map_option (\<lambda>s. set_shadow s v st) (MemToShadow (mp env) p)"

definition FixUnalignedStorage ::
  "asan_env \<Rightarrow> uptr \<Rightarrow> uptr \<Rightarrow> uptr \<times> uptr \<times> uptr \<times> uptr \<Rightarrow> asan_state
    \<Rightarrow> ((uptr \<times> uptr \<times> uptr \<times> uptr) \<times> asan_state) option" where
  "FixUnalignedStorage env storage_beg storage_end bounds st = do {
     let granularity = ASAN_SHADOW_GRANULARITY;
     let (old_beg, old_end, new_beg, new_end) = bounds;
     let (old_beg, old_end, new_beg, new_end) =
       (if \<not> AddrIsAlignedByGranularity storage_end then
          let end_down = RoundDownTo storage_end granularity in
          if ((old_end \<noteq> new_end \<and> max old_end new_end > end_down) \<or>
              (old_beg \<noteq> new_beg \<and> max old_beg new_beg > end_down)) \<and>
             \<not> poisoned env st storage_end
          then (min end_down old_beg, min end_down old_end, min end_down new_beg, min end_down new_end)
          else (old_beg, old_end, new_beg, new_end)
        else (old_beg, old_end, new_beg, new_end));
     if \<not> AddrIsAlignedByGranularity storage_beg then do {
       beg_up \<leftarrow> RoundUpTo storage_beg granularity;
       if (new_beg = new_end \<or> new_beg \<ge> beg_up) \<and> old_beg \<noteq> old_end \<and> old_beg < beg_up then do {
         let beg_down = RoundDownTo storage_beg granularity;
         st \<leftarrow> store_shadow env beg_down (ucast (storage_beg - beg_down)) st;
         Some ((max beg_up old_beg, max beg_up old_end, max beg_up new_beg, max beg_up new_end), st)
       } else Some ((old_beg, old_end, new_beg, new_end), st)
     } else Some ((old_beg, old_end, new_beg, new_end), st)
   }"

definition annotate_new_end :: "asan_env \<Rightarrow> uptr \<Rightarrow> uptr \<Rightarrow> asan_state \<Rightarrow> asan_state option" where
  \<comment> \<open>the second half of \<^verbatim>\<open>__sanitizer_annotate_contiguous_container\<close>, on the fixed bounds\<close>
  "annotate_new_end env old_end new_end st = do {
     let granularity = ASAN_SHADOW_GRANULARITY;
     let a = RoundDownTo (min old_end new_end) granularity;
     c \<leftarrow> RoundUpTo (max old_end new_end) granularity;
     let b1 = RoundDownTo new_end granularity;
     b2 \<leftarrow> RoundUpTo new_end granularity;
     st \<leftarrow> (if b1 > a then PoisonShadow env a (b1 - a) 0 st
            else if c > b2 then PoisonShadow env b2 (c - b2) kAsanContiguousContainerOOBMagic st
            else Some st);
     if b1 \<noteq> b2 then do {
       CHECK (b2 - b1 = granularity);
       store_shadow env b1 (ucast (new_end - b1)) st
     } else Some st
   }"

definition sanitizer_annotate_contiguous_container ::
  "asan_env \<Rightarrow> uptr \<Rightarrow> uptr \<Rightarrow> uptr \<Rightarrow> uptr \<Rightarrow> asan_state \<Rightarrow> asan_state option" where
  "sanitizer_annotate_contiguous_container env storage_beg storage_end old_end new_end st =
     (if \<not> detect_container_overflow env then Some st
      else do {
        let granularity = ASAN_SHADOW_GRANULARITY;
        ReportBadParams env (\<not> (storage_beg \<le> old_end \<and> storage_beg \<le> new_end \<and>
                                old_end \<le> storage_end \<and> new_end \<le> storage_end));
        CHECK (storage_end - storage_beg \<le> push_bit 40 1);
        if old_end = new_end then Some st
        else do {
          ((old_beg, old_end, new_beg, new_end), st) \<leftarrow>
            FixUnalignedStorage env storage_beg storage_end (storage_beg, old_end, storage_beg, new_end) st;
          annotate_new_end env old_end new_end st
        }
      })"

definition annotate_disjoint ::
  "asan_env \<Rightarrow> uptr \<Rightarrow> uptr \<Rightarrow> uptr \<Rightarrow> uptr \<Rightarrow> asan_state \<Rightarrow> asan_state option" where
  \<comment> \<open>the branch of the double-ended annotation for non-intersecting containers\<close>
  "annotate_disjoint env old_beg old_end new_beg new_end st = do {
     let granularity = ASAN_SHADOW_GRANULARITY;
     st \<leftarrow> (if old_beg \<noteq> old_end then do {
         let a = RoundDownTo old_beg granularity;
         b \<leftarrow> RoundUpTo old_end granularity;
         PoisonShadow env a (b - a) kAsanContiguousContainerOOBMagic st
       } else Some st);
     if new_beg \<noteq> new_end then do {
       let a = RoundDownTo new_beg granularity;
       let b = RoundDownTo new_end granularity;
       st \<leftarrow> PoisonShadow env a (b - a) 0 st;
       if \<not> AddrIsAlignedByGranularity new_end
       then store_shadow env b (ucast (new_end - b)) st else Some st
     } else Some st
   }"

definition annotate_overlapping ::
  "asan_env \<Rightarrow> uptr \<Rightarrow> uptr \<Rightarrow> uptr \<Rightarrow> uptr \<Rightarrow> asan_state \<Rightarrow> asan_state option" where
  \<comment> \<open>the branch of the double-ended annotation for intersecting containers\<close>
  "annotate_overlapping env old_beg old_end new_beg new_end st = do {
     let granularity = ASAN_SHADOW_GRANULARITY;
     CHECK (new_beg < old_end);
     CHECK (new_end > old_beg);
     st \<leftarrow> (if new_beg < old_beg then
              let a = RoundDownTo new_beg granularity; c = RoundDownTo old_beg granularity
              in PoisonShadow env a (c - a) 0 st
            else if new_beg > old_beg then
              let a = RoundDownTo old_beg granularity; c = RoundDownTo new_beg granularity
              in PoisonShadow env a (c - a) kAsanContiguousContainerOOBMagic st
            else Some st);
     if new_end > old_end then do {
       let a = RoundDownTo old_end granularity;
       let c = RoundDownTo new_end granularity;
       st \<leftarrow> PoisonShadow env a (c - a) 0 st;
       if \<not> AddrIsAlignedByGranularity new_end
       then store_shadow env c (ucast (new_end - c)) st else Some st
     } else if new_end < old_end then do {
       a2 \<leftarrow> RoundUpTo new_end granularity;
       c2 \<leftarrow> RoundUpTo old_end granularity;
       st \<leftarrow> PoisonShadow env a2 (c2 - a2) kAsanContiguousContainerOOBMagic st;
       if \<not> AddrIsAlignedByGranularity new_end
       then (let a = RoundDownTo new_end granularity
             in store_shadow env a (ucast (new_end - a)) st)
       else Some st
     } else Some st
   }"

definition sanitizer_annotate_double_ended_contiguous_container ::
  "asan_env \<Rightarrow> uptr \<Rightarrow> uptr \<Rightarrow> uptr \<Rightarrow> uptr \<Rightarrow> uptr \<Rightarrow> uptr \<Rightarrow> asan_state \<Rightarrow> asan_state option" where
  "sanitizer_annotate_double_ended_contiguous_container env storage_beg storage_end
       old_beg old_end new_beg new_end st =
     (if \<not> detect_container_overflow env then Some st
      else do {
        let granularity = ASAN_SHADOW_GRANULARITY;
        ReportBadParams env (\<not> (old_beg \<le> old_end \<and> new_beg \<le> new_end) \<or>
                             \<not> (storage_beg \<le> new_beg \<and> new_end \<le> storage_end) \<or>
                             \<not> (storage_beg \<le> old_beg \<and> old_end \<le> storage_end));
        CHECK (storage_end - storage_beg \<le> push_bit 40 1);
        if (old_beg = old_end \<and> new_beg = new_end) \<or> (old_beg = new_beg \<and> old_end = new_end) then Some st
        else do {
          ((old_beg, old_end, new_beg, new_end), st) \<leftarrow>
            FixUnalignedStorage env storage_beg storage_end (old_beg, old_end, new_beg, new_end) st;
          if old_beg = old_end \<or> new_beg = new_end \<or> new_end \<le> old_beg \<or> old_end \<le> new_beg
          then annotate_disjoint env old_beg old_end new_beg new_end st
          else annotate_overlapping env old_beg old_end new_beg new_end st
        }
      })"

section \<open>Copying annotations\<close>

definition SetContainerGranule :: "asan_env \<Rightarrow> uptr \<Rightarrow> u8 \<Rightarrow> asan_state \<Rightarrow> asan_state option" where
  "SetContainerGranule env ptr n st =
     (let s = (if ucast n = ASAN_SHADOW_GRANULARITY then 0
               else if n \<noteq> 0 then n else kAsanContiguousContainerOOBMagic)
      in store_shadow env ptr s st)"

function slow_copy_granule ::
  "asan_env \<Rightarrow> asan_state \<Rightarrow> uptr \<Rightarrow> uptr \<Rightarrow> uptr \<Rightarrow> uptr \<Rightarrow> uptr \<Rightarrow> uptr \<times> uptr \<times> uptr" where
  \<comment> \<open>the inner loop; returns \<^verbatim>\<open>dst_ptr\<close>, \<^verbatim>\<open>src_ptr\<close> and \<^verbatim>\<open>unpoisoned_bytes\<close>\<close>
  "slow_copy_granule env st granule_beg fin dst_ptr src_ptr unpoisoned_bytes =
     (if dst_ptr \<noteq> fin then
        slow_copy_granule env st granule_beg fin (dst_ptr + 1) (src_ptr + 1)
          (if \<not> poisoned env st src_ptr then dst_ptr - granule_beg + 1 else unpoisoned_bytes)
      else (dst_ptr, src_ptr, unpoisoned_bytes))"
  by pat_completeness auto
termination
proof (relation "measure (\<lambda>(env, st, g, fin, d, s, u). unat (fin - d))", goal_cases)
  case (2 env st granule_beg fin dst_ptr src_ptr unpoisoned_bytes)
  then have "fin - dst_ptr \<noteq> 0" by simp
  from unat_minus_1 [OF this] have "unat (fin - (dst_ptr + 1)) = unat (fin - dst_ptr) - 1"
    by (simp add: diff_diff_add)
  then show ?case using \<open>fin - dst_ptr \<noteq> 0\<close> by (simp add: unat_gt_0)
qed simp

declare slow_copy_granule.simps [simp del]

partial_function (option) SlowCopy_loop ::
  "asan_env \<Rightarrow> uptr \<Rightarrow> uptr \<Rightarrow> uptr \<Rightarrow> uptr \<Rightarrow> uptr \<Rightarrow> asan_state \<Rightarrow> asan_state option" where
  "SlowCopy_loop env dst_beg dst_end dst_end_down src_ptr dst_ptr st =
     (if dst_ptr < dst_end then
        (let granule_beg = RoundDownTo dst_ptr ASAN_SHADOW_GRANULARITY;
             granule_end = granule_beg + ASAN_SHADOW_GRANULARITY;
             fin = min granule_end dst_end;
             (dst_ptr, src_ptr, unpoisoned_bytes) = slow_copy_granule env st granule_beg fin dst_ptr src_ptr 0
         in if dst_ptr = dst_end \<and> dst_end \<noteq> dst_end_down \<and> \<not> poisoned env st dst_end
            then SlowCopy_loop env dst_beg dst_end dst_end_down src_ptr dst_ptr st
            else if unpoisoned_bytes \<noteq> 0 \<or> granule_beg \<ge> dst_beg
            then Option.bind (SetContainerGranule env granule_beg (ucast unpoisoned_bytes) st)
                   (SlowCopy_loop env dst_beg dst_end dst_end_down src_ptr dst_ptr)
            else if \<not> poisoned env st dst_beg
            then Option.bind (SetContainerGranule env granule_beg (ucast (dst_beg - granule_beg)) st)
                   (SlowCopy_loop env dst_beg dst_end dst_end_down src_ptr dst_ptr)
            else SlowCopy_loop env dst_beg dst_end dst_end_down src_ptr dst_ptr st)
      else Some st)"

definition SlowCopyContainerAnnotations ::
  "asan_env \<Rightarrow> uptr \<Rightarrow> uptr \<Rightarrow> uptr \<Rightarrow> uptr \<Rightarrow> asan_state \<Rightarrow> asan_state option" where
  "SlowCopyContainerAnnotations env src_beg src_end dst_beg dst_end st =
     SlowCopy_loop env dst_beg dst_end (RoundDownTo dst_end ASAN_SHADOW_GRANULARITY) src_beg dst_beg st"

function slow_rev_copy_granule ::
  "asan_env \<Rightarrow> asan_state \<Rightarrow> uptr \<Rightarrow> uptr \<Rightarrow> uptr \<Rightarrow> uptr \<Rightarrow> uptr \<Rightarrow> uptr \<times> uptr \<times> uptr" where
  "slow_rev_copy_granule env st granule_beg fin dst_ptr src_ptr unpoisoned_bytes =
     (if dst_ptr \<noteq> fin then
        slow_rev_copy_granule env st granule_beg fin (dst_ptr - 1) (src_ptr - 1)
          (if unpoisoned_bytes = 0 \<and> \<not> poisoned env st (src_ptr - 1) then dst_ptr - granule_beg
           else unpoisoned_bytes)
      else (dst_ptr, src_ptr, unpoisoned_bytes))"
  by pat_completeness auto
termination
proof (relation "measure (\<lambda>(env, st, g, fin, d, s, u). unat (d - fin))", goal_cases)
  case (2 env st granule_beg fin dst_ptr src_ptr unpoisoned_bytes)
  then have "dst_ptr - fin \<noteq> 0" by simp
  from unat_minus_1 [OF this] have "unat (dst_ptr - 1 - fin) = unat (dst_ptr - fin) - 1"
    by (simp add: algebra_simps)
  then show ?case using \<open>dst_ptr - fin \<noteq> 0\<close> by (simp add: unat_gt_0)
qed simp

declare slow_rev_copy_granule.simps [simp del]

partial_function (option) SlowReversedCopy_loop ::
  "asan_env \<Rightarrow> uptr \<Rightarrow> uptr \<Rightarrow> uptr \<Rightarrow> uptr \<Rightarrow> uptr \<Rightarrow> asan_state \<Rightarrow> asan_state option" where
  "SlowReversedCopy_loop env dst_beg dst_end dst_end_down src_ptr dst_ptr st =
     (if dst_ptr > dst_beg then
        (let granule_beg = RoundDownTo (dst_ptr - 1) ASAN_SHADOW_GRANULARITY;
             fin = max granule_beg dst_beg;
             (dst_ptr, src_ptr, unpoisoned_bytes) = slow_rev_copy_granule env st granule_beg fin dst_ptr src_ptr 0
         in if dst_ptr \<ge> dst_end_down \<and> \<not> poisoned env st dst_end
            then SlowReversedCopy_loop env dst_beg dst_end dst_end_down src_ptr dst_ptr st
            else if granule_beg = dst_ptr \<or> unpoisoned_bytes \<noteq> 0
            then Option.bind (SetContainerGranule env granule_beg (ucast unpoisoned_bytes) st)
                   (SlowReversedCopy_loop env dst_beg dst_end dst_end_down src_ptr dst_ptr)
            else if \<not> poisoned env st dst_beg
            then Option.bind (SetContainerGranule env granule_beg (ucast (dst_beg - granule_beg)) st)
                   (SlowReversedCopy_loop env dst_beg dst_end dst_end_down src_ptr dst_ptr)
            else SlowReversedCopy_loop env dst_beg dst_end dst_end_down src_ptr dst_ptr st)
      else Some st)"

definition SlowReversedCopyContainerAnnotations ::
  "asan_env \<Rightarrow> uptr \<Rightarrow> uptr \<Rightarrow> uptr \<Rightarrow> uptr \<Rightarrow> asan_state \<Rightarrow> asan_state option" where
  "SlowReversedCopyContainerAnnotations env src_beg src_end dst_beg dst_end st =
     SlowReversedCopy_loop env dst_beg dst_end (RoundDownTo dst_end ASAN_SHADOW_GRANULARITY) src_end dst_end st"

definition CopyContainerFirstGranuleAnnotation ::
  "asan_env \<Rightarrow> uptr \<Rightarrow> uptr \<Rightarrow> asan_state \<Rightarrow> asan_state option" where
  "CopyContainerFirstGranuleAnnotation env src_beg dst_beg st = do {
     let src_beg_down = RoundDownTo src_beg ASAN_SHADOW_GRANULARITY;
     let dst_beg_down = RoundDownTo dst_beg ASAN_SHADOW_GRANULARITY;
     if dst_beg_down = dst_beg then Some st
     else if \<not> poisoned env st src_beg then do {
       s \<leftarrow> MemToShadow (mp env) src_beg_down;
       store_shadow env dst_beg_down (shadow st s) st
     }
     else if \<not> poisoned env st dst_beg then
       SetContainerGranule env dst_beg_down (ucast (dst_beg - dst_beg_down)) st
     else Some st
   }"

definition CopyContainerLastGranuleAnnotation ::
  "asan_env \<Rightarrow> uptr \<Rightarrow> uptr \<Rightarrow> asan_state \<Rightarrow> asan_state option" where
  "CopyContainerLastGranuleAnnotation env src_end dst_end st = do {
     let src_end_down = RoundDownTo src_end ASAN_SHADOW_GRANULARITY;
     let dst_end_down = RoundDownTo dst_end ASAN_SHADOW_GRANULARITY;
     if dst_end_down = dst_end \<or> \<not> poisoned env st dst_end then Some st
     else if poisoned env st src_end then do {
       s \<leftarrow> MemToShadow (mp env) src_end_down;
       store_shadow env dst_end_down (shadow st s) st
     }
     else SetContainerGranule env dst_end_down (ucast (src_end - src_end_down)) st
   }"

definition sanitizer_copy_contiguous_container_annotations ::
  "asan_env \<Rightarrow> uptr \<Rightarrow> uptr \<Rightarrow> uptr \<Rightarrow> uptr \<Rightarrow> asan_state \<Rightarrow> asan_state option" where
  "sanitizer_copy_contiguous_container_annotations env src_beg src_end dst_beg dst_end st =
     (if \<not> detect_container_overflow env then Some st
      else do {
        let granularity = ASAN_SHADOW_GRANULARITY;
        ReportBadParams env (src_beg > src_end \<or> dst_end - dst_beg \<noteq> src_end - src_beg);
        if src_beg = src_end \<or> src_beg = dst_beg then Some st
        else do {
          src_beg_up \<leftarrow> RoundUpTo src_beg granularity;
          src_end_up \<leftarrow> RoundUpTo src_end granularity;
          let copy_in_reversed_order = (src_beg < dst_beg \<and> dst_beg \<le> src_end_up);
          if src_beg mod granularity \<noteq> dst_beg mod granularity \<or>
             RoundDownTo (dst_end - 1) granularity \<le> dst_beg
          then (if copy_in_reversed_order
                then SlowReversedCopyContainerAnnotations env src_beg src_end dst_beg dst_end st
                else SlowCopyContainerAnnotations env src_beg src_end dst_beg dst_end st)
          else do {
            dst_beg_up \<leftarrow> RoundUpTo dst_beg granularity;
            let dst_end_down = RoundDownTo dst_end granularity;
            st \<leftarrow> (if copy_in_reversed_order
                   then CopyContainerLastGranuleAnnotation env src_end dst_end st
                   else CopyContainerFirstGranuleAnnotation env src_beg dst_beg st);
            st \<leftarrow> (if dst_beg_up < dst_end_down then do {
                d \<leftarrow> MemToShadow (mp env) dst_beg_up;
                s \<leftarrow> MemToShadow (mp env) src_beg_up;
                m \<leftarrow> internal_memmove (shadow st) d s ((dst_end_down - dst_beg_up) div granularity);
                Some (st\<lparr>shadow := m\<rparr>)
              } else Some st);
            if copy_in_reversed_order
            then CopyContainerFirstGranuleAnnotation env src_beg dst_beg st
            else CopyContainerLastGranuleAnnotation env src_end dst_end st
          }
        }
      })"

section \<open>Verifying\<close>

function find_bad_loop :: "asan_env \<Rightarrow> asan_state \<Rightarrow> bool \<Rightarrow> uptr \<Rightarrow> uptr \<Rightarrow> uptr" where
  "find_bad_loop env st p i fin =
     (if i < fin then (if poisoned env st i \<noteq> p then i else find_bad_loop env st p (i + 1) fin)
      else 0)"
  by pat_completeness auto
termination
  by (relation "measure (\<lambda>(env, st, p, i, fin). unat fin - unat i)")
    (auto simp: unat_succ_less word_less_nat_alt)

declare find_bad_loop.simps [simp del]

definition kMaxRangeToCheck :: uptr where "kMaxRangeToCheck = 32"

function FindBadAddress :: "asan_env \<Rightarrow> asan_state \<Rightarrow> uptr \<Rightarrow> uptr \<Rightarrow> bool \<Rightarrow> uptr option" where
  "FindBadAddress env st beg fin p = do {
     CHECK (beg \<le> fin);
     if fin - beg > kMaxRangeToCheck * 2 then do {
       bad \<leftarrow> FindBadAddress env st beg (beg + kMaxRangeToCheck) p;
       if bad \<noteq> 0 then Some bad
       else do {
         bad \<leftarrow> FindBadAddress env st (fin - kMaxRangeToCheck) fin p;
         if bad \<noteq> 0 then Some bad
         else Some (find_bad_loop env st p beg fin)
       }
     } else Some (find_bad_loop env st p beg fin)
   }"
  by pat_completeness auto
termination
  by (relation "measure (\<lambda>(env, st, beg, fin, p). unat (fin - beg))")
    (auto simp: kMaxRangeToCheck_def word_less_nat_alt)

declare FindBadAddress.simps [simp del]

definition sanitizer_contiguous_container_find_bad_address ::
  "asan_env \<Rightarrow> asan_state \<Rightarrow> uptr \<Rightarrow> uptr \<Rightarrow> uptr \<Rightarrow> uptr option" where
  "sanitizer_contiguous_container_find_bad_address env st beg mid fin =
     (if \<not> detect_container_overflow env then Some 0
      else do {
        CHECK (beg \<le> mid);
        CHECK (mid \<le> fin);
        let annotations_end =
          (if \<not> AddrIsAlignedByGranularity fin \<and> \<not> poisoned env st fin
           then RoundDownTo fin ASAN_SHADOW_GRANULARITY else fin);
        let beg = min beg annotations_end;
        let mid = min mid annotations_end;
        bad \<leftarrow> FindBadAddress env st beg mid False;
        if bad \<noteq> 0 then Some bad
        else do {
          bad \<leftarrow> FindBadAddress env st mid annotations_end True;
          if bad \<noteq> 0 then Some bad
          else FindBadAddress env st annotations_end fin False
        }
      })"

definition sanitizer_verify_contiguous_container ::
  "asan_env \<Rightarrow> asan_state \<Rightarrow> uptr \<Rightarrow> uptr \<Rightarrow> uptr \<Rightarrow> bool option" where
  "sanitizer_verify_contiguous_container env st beg mid fin =
     map_option (\<lambda>bad. bad = 0) (sanitizer_contiguous_container_find_bad_address env st beg mid fin)"

definition sanitizer_double_ended_contiguous_container_find_bad_address ::
  "asan_env \<Rightarrow> asan_state \<Rightarrow> uptr \<Rightarrow> uptr \<Rightarrow> uptr \<Rightarrow> uptr \<Rightarrow> uptr option" where
  "sanitizer_double_ended_contiguous_container_find_bad_address env st storage_beg beg fin storage_end =
     (if \<not> detect_container_overflow env then Some 0
      else do {
        let beg = (if beg \<noteq> fin then max storage_beg (RoundDownTo beg ASAN_SHADOW_GRANULARITY) else beg);
        let annotations_end =
          (if \<not> AddrIsAlignedByGranularity storage_end \<and> \<not> poisoned env st storage_end
           then RoundDownTo storage_end ASAN_SHADOW_GRANULARITY else storage_end);
        let storage_beg = min storage_beg annotations_end;
        let beg = min beg annotations_end;
        let fin = min fin annotations_end;
        bad \<leftarrow> FindBadAddress env st storage_beg beg True;
        if bad \<noteq> 0 then Some bad
        else do {
          bad \<leftarrow> FindBadAddress env st beg fin False;
          if bad \<noteq> 0 then Some bad
          else do {
            bad \<leftarrow> FindBadAddress env st fin annotations_end True;
            if bad \<noteq> 0 then Some bad
            else FindBadAddress env st annotations_end storage_end False
          }
        }
      })"

definition sanitizer_verify_double_ended_contiguous_container ::
  "asan_env \<Rightarrow> asan_state \<Rightarrow> uptr \<Rightarrow> uptr \<Rightarrow> uptr \<Rightarrow> uptr \<Rightarrow> bool option" where
  "sanitizer_verify_double_ended_contiguous_container env st storage_beg beg fin storage_end =
     map_option (\<lambda>bad. bad = 0)
       (sanitizer_double_ended_contiguous_container_find_bad_address env st storage_beg beg fin storage_end)"

end
