(* ===== verification/Asan_Container_Proofs.thy ===== *)
theory Asan_Container_Proofs
  imports Asan_Container
begin

text \<open>
  Correctness of the container annotations: the bad-address search decides whether a range is
  uniformly poisoned, so the verification functions decide a simple predicate on the shadow, and
  each annotation call takes a state that verifies with the old bounds to one that verifies
  with the new bounds, whatever the alignment of the storage.
\<close>

section \<open>The search for a bad address\<close>

definition uniform :: "asan_env \<Rightarrow> asan_state \<Rightarrow> uptr \<Rightarrow> uptr \<Rightarrow> bool \<Rightarrow> bool" where
  "uniform env st b e p \<longleftrightarrow> (\<forall>x. b \<le> x \<and> x < e \<longrightarrow> poisoned env st x = p)"

lemma find_bad_loop_spec:
  assumes "0 < b"
  shows "if uniform env st b e p then find_bad_loop env st p b e = 0
    else b \<le> find_bad_loop env st p b e \<and> find_bad_loop env st p b e < e \<and>
      poisoned env st (find_bad_loop env st p b e) \<noteq> p"
  using assms
proof (induction env st p b e rule: find_bad_loop.induct)
  case (1 env st p b e)
  show ?case
  proof (cases "b < e \<and> poisoned env st b = p")
    case True
    have succ: "b + 1 \<le> x \<longleftrightarrow> b < x" for x by (rule word_succ_le_iff [OF conjunct1 [OF True]])
    have "uniform env st b e p \<longleftrightarrow> uniform env st (b + 1) e p"
    proof -
      have "b \<le> x \<longleftrightarrow> x = b \<or> b + 1 \<le> x" for x unfolding succ by auto
      then show ?thesis using True unfolding uniform_def by metis
    qed
    moreover have "find_bad_loop env st p b e = find_bad_loop env st p (b + 1) e"
      using True by (subst find_bad_loop.simps) simp
    moreover have "0 < b + 1" using unat_succ_less [of b e] True by (simp add: word_less_nat_alt)
    ultimately show ?thesis using 1(1) True by (auto simp: succ)
  next
    case False
    then show ?thesis using 1(2)
      by (subst (1 2 3 4) find_bad_loop.simps) (auto simp: uniform_def)
  qed
qed

lemma FindBadAddress_spec:
  assumes "0 < b" and "b \<le> e"
  shows "\<exists>r. FindBadAddress env st b e p = Some r \<and>
    (if uniform env st b e p then r = 0 else b \<le> r \<and> r < e \<and> poisoned env st r \<noteq> p)"
  using assms
proof (induction env st b e p rule: FindBadAddress.induct)
  case (1 env st b e p)
  note loop = find_bad_loop_spec [OF 1(3), of env st e p]
  show ?case
  proof (cases "e - b > 64")
    case False
    then show ?thesis using 1(4) loop
      by (subst FindBadAddress.simps) (simp add: kMaxRangeToCheck_def)
  next
    case True
    have u: "unat (e - b) = unat e - unat b" using 1(4) by (simp add: unat_sub word_le_nat_alt)
    then have big: "unat b + 64 < unat e" using True by (simp add: word_less_nat_alt)
    have ub: "unat (b + 32) = unat b + 32" using big uptr_bound [of e] by (simp add: unat_word_ariths)
    have ue: "unat (e - 32) = unat e - 32" using unat_sub [of 32 e] big by (simp add: word_le_nat_alt)
    have le: "b \<le> b + 32" "b + 32 \<le> e" "b \<le> e - 32" "e - 32 \<le> e" "0 < e - 32"
      using ub ue big by (simp_all add: word_le_nat_alt word_less_nat_alt)
    obtain r1 where r1: "FindBadAddress env st b (b + 32) p = Some r1"
      "if uniform env st b (b + 32) p then r1 = 0 else b \<le> r1 \<and> r1 < b + 32 \<and> poisoned env st r1 \<noteq> p"
      using 1(1) [of "()", unfolded kMaxRangeToCheck_def] True 1(3,4) le by auto
    show ?thesis
    proof (cases "r1 = 0")
      case False
      then have "\<not> uniform env st b e p \<and> b \<le> r1 \<and> r1 < e \<and> poisoned env st r1 \<noteq> p"
        using r1(2) le by (auto simp: uniform_def split: if_splits intro: order_less_le_trans)
      moreover have "FindBadAddress env st b e p = Some r1"
        using False True r1(1) 1(4) by (subst FindBadAddress.simps) (simp add: kMaxRangeToCheck_def)
      ultimately show ?thesis by simp
    next
      case zero: True
      obtain r2 where r2: "FindBadAddress env st (e - 32) e p = Some r2"
        "if uniform env st (e - 32) e p then r2 = 0 else e - 32 \<le> r2 \<and> r2 < e \<and> poisoned env st r2 \<noteq> p"
        using 1(2) [of "()" r1, unfolded kMaxRangeToCheck_def] True 1(4) le r1(1) zero by auto
      have run: "FindBadAddress env st b e p = Some (if r2 \<noteq> 0 then r2 else find_bad_loop env st p b e)"
        using zero True r1(1) r2(1) 1(4) by (subst FindBadAddress.simps) (simp add: kMaxRangeToCheck_def)
      show ?thesis
      proof (cases "r2 = 0")
        case True
        then show ?thesis using run loop by simp
      next
        case False
        then have bad: "e - 32 \<le> r2" "r2 < e" "poisoned env st r2 \<noteq> p"
          using r2(2) by (auto split: if_splits)
        then have "b \<le> r2 \<and> r2 < e \<and> poisoned env st r2 \<noteq> p"
          using order_trans [OF le(3) bad(1)] by simp
        moreover from this have "\<not> uniform env st b e p" unfolding uniform_def by blast
        ultimately have "\<not> uniform env st b e p \<and> b \<le> r2 \<and> r2 < e \<and> poisoned env st r2 \<noteq> p" by simp
        then show ?thesis using run False by simp
      qed
    qed
  qed
qed

section \<open>What the verification functions decide\<close>

text \<open>The end of the annotated part of the storage: when the byte after the storage is
  accessible, its granule stays accessible.\<close>

definition annotations_end :: "asan_env \<Rightarrow> asan_state \<Rightarrow> uptr \<Rightarrow> uptr" where
  "annotations_end env st fin =
     (if \<not> AddrIsAlignedByGranularity fin \<and> \<not> poisoned env st fin
      then RoundDownTo fin ASAN_SHADOW_GRANULARITY else fin)"

definition container_ok :: "asan_env \<Rightarrow> asan_state \<Rightarrow> uptr \<Rightarrow> uptr \<Rightarrow> uptr \<Rightarrow> bool" where
  "container_ok env st beg mid fin \<longleftrightarrow>
     (let ae = annotations_end env st fin
      in \<forall>x. min beg ae \<le> x \<and> x < fin \<longrightarrow> (poisoned env st x \<longleftrightarrow> min mid ae \<le> x \<and> x < ae))"

lemma annotations_end_le: "annotations_end env st fin \<le> fin"
  by (auto simp: annotations_end_def addr_le_iff)

lemma annotations_end_pos: "8 \<le> unat fin \<Longrightarrow> 0 < annotations_end env st fin"
  using unat_RoundDownTo [of fin 3] by (auto simp: annotations_end_def word_less_nat_alt)

lemma FindBad3:
  assumes "0 < a" and "a \<le> b" and "b \<le> c" and "c \<le> d"
  shows "\<exists>r. Option.bind (FindBadAddress env st a b p1) (\<lambda>bad. if bad \<noteq> 0 then Some bad
      else Option.bind (FindBadAddress env st b c p2) (\<lambda>bad. if bad \<noteq> 0 then Some bad
      else FindBadAddress env st c d p3)) = Some r \<and>
    (r = 0 \<longleftrightarrow> uniform env st a b p1 \<and> uniform env st b c p2 \<and> uniform env st c d p3)"
proof -
  have pos: "0 < b" "0 < c" using assms by (auto intro: order_less_le_trans)
  obtain r1 where r1: "FindBadAddress env st a b p1 = Some r1"
    "if uniform env st a b p1 then r1 = 0 else a \<le> r1 \<and> r1 < b \<and> poisoned env st r1 \<noteq> p1"
    using FindBadAddress_spec [OF assms(1,2)] by blast
  obtain r2 where r2: "FindBadAddress env st b c p2 = Some r2"
    "if uniform env st b c p2 then r2 = 0 else b \<le> r2 \<and> r2 < c \<and> poisoned env st r2 \<noteq> p2"
    using FindBadAddress_spec [OF pos(1) assms(3)] by blast
  obtain r3 where r3: "FindBadAddress env st c d p3 = Some r3"
    "if uniform env st c d p3 then r3 = 0 else c \<le> r3 \<and> r3 < d \<and> poisoned env st r3 \<noteq> p3"
    using FindBadAddress_spec [OF pos(2) assms(4)] by blast
  have "r1 = 0 \<longleftrightarrow> uniform env st a b p1" "r2 = 0 \<longleftrightarrow> uniform env st b c p2" "r3 = 0 \<longleftrightarrow> uniform env st c d p3"
    using r1(2) r2(2) r3(2) assms(1) pos by (auto simp: leD split: if_splits)
  then show ?thesis using r1(1) r2(1) r3(1) by auto
qed

lemma uniform3_iff:
  assumes "a \<le> b" and "b \<le> c" and "c \<le> d"
  shows "uniform env st a b False \<and> uniform env st b c True \<and> uniform env st c d False \<longleftrightarrow>
    (\<forall>x. a \<le> x \<and> x < d \<longrightarrow> (poisoned env st x \<longleftrightarrow> b \<le> x \<and> x < c))"
proof
  assume u: "uniform env st a b False \<and> uniform env st b c True \<and> uniform env st c d False"
  have "poisoned env st x \<longleftrightarrow> b \<le> x \<and> x < c" if x: "a \<le> x \<and> x < d" for x
  proof -
    consider "x < b" | "b \<le> x" "x < c" | "c \<le> x" "b \<le> x" using assms(2) by force
    then show ?thesis using u x by cases (auto simp: uniform_def leD)
  qed
  then show "\<forall>x. a \<le> x \<and> x < d \<longrightarrow> (poisoned env st x \<longleftrightarrow> b \<le> x \<and> x < c)" by blast
next
  assume a: "\<forall>x. a \<le> x \<and> x < d \<longrightarrow> (poisoned env st x \<longleftrightarrow> b \<le> x \<and> x < c)"
  have "uniform env st a b False"
    using a order_less_le_trans [OF _ order_trans [OF assms(2,3)]] by (auto simp: uniform_def leD)
  moreover have "uniform env st b c True"
    using a order_less_le_trans [OF _ assms(3)] order_trans [OF assms(1)] by (auto simp: uniform_def)
  moreover have "uniform env st c d False"
    using a order_trans [OF order_trans [OF assms(1,2)]] by (auto simp: uniform_def leD)
  ultimately show "uniform env st a b False \<and> uniform env st b c True \<and> uniform env st c d False" by simp
qed

lemma verify_contiguous_iff:
  assumes "detect_container_overflow env" and "0 < beg" and "8 \<le> unat fin" and "beg \<le> mid" and "mid \<le> fin"
  shows "sanitizer_verify_contiguous_container env st beg mid fin = Some (container_ok env st beg mid fin)"
proof -
  let ?ae = "annotations_end env st fin"
  have le: "0 < min beg ?ae" "min beg ?ae \<le> min mid ?ae" "min mid ?ae \<le> ?ae" "?ae \<le> fin"
    using assms annotations_end_le annotations_end_pos [OF assms(3)] by (auto simp: min_def)
  obtain r where r: "sanitizer_contiguous_container_find_bad_address env st beg mid fin = Some r"
    "r = 0 \<longleftrightarrow> uniform env st (min beg ?ae) (min mid ?ae) False \<and> uniform env st (min mid ?ae) ?ae True \<and>
      uniform env st ?ae fin False"
    using FindBad3 [OF le, of env st False True False] assms(1,4,5)
    by (auto simp: sanitizer_contiguous_container_find_bad_address_def annotations_end_def [symmetric] Let_def)
  have "(r = 0) = container_ok env st beg mid fin"
    unfolding r(2) container_ok_def Let_def by (rule uniform3_iff [OF le(2-4)])
  then show ?thesis using r(1) by (simp add: sanitizer_verify_contiguous_container_def)
qed

section \<open>Moving the end of a container\<close>

definition granule_up :: "uptr \<Rightarrow> nat" where
  "granule_up p = (if goffset p = 0 then granule p else granule p + 1)"

lemma RoundUpTo_run:
  assumes "unat p + 7 < 2 ^ 64"
  obtains q where "RoundUpTo p 8 = Some q" and "granule q = granule_up p" and "goffset q = 0"
proof -
  obtain q where q: "RoundUpTo p 8 = Some q" using RoundUpTo_exp [of p 3] by simp
  show ?thesis
    by (rule that [OF q]) (use RoundUpTo_granule [OF assms q] in \<open>simp_all add: granule_up_def\<close>)
qed

lemma granule_up_le: "granule_up p \<le> granule_up q" if "p \<le> q"
  using that by (auto simp: granule_up_def addr_le_iff)

lemma sint_offset_byte: "sint (ucast (p - RoundDownTo p 8) :: u8) = int (goffset p)"
proof -
  have "RoundDownTo p 8 \<le> p" by (simp add: addr_le_iff)
  then have "unat (p - RoundDownTo p 8) = goffset p"
    using unat_granule [of p] unat_granule [of "RoundDownTo p 8"] by (simp add: unat_sub word_le_nat_alt)
  moreover have "(ucast (p - RoundDownTo p 8) :: u8) = of_nat (unat (p - RoundDownTo p 8))" by simp
  ultimately show ?thesis using goffset_less [of p] by (metis sint_u8_of_nat less_trans numeral_less_iff semiring_norm(76,78,80))
qed

text \<open>The shadow value of the granule of an address.\<close>

definition shadow_value :: "asan_env \<Rightarrow> asan_state \<Rightarrow> uptr \<Rightarrow> int" where
  "shadow_value env st x = sint (shadow st (MEM_TO_SHADOW (mp env) x))"

lemma poisoned_value: "poisoned env st x \<longleftrightarrow> shadow_value env st x \<noteq> 0 \<and> shadow_value env st x \<le> int (goffset x)"
  by (simp only: poisoned_alt shadow_value_def Let_def)

lemma store_shadow_run:
  assumes "AddrIsInMem (mp env) p"
  shows "\<exists>st'. store_shadow env p v st = Some st' \<and> can_poison_memory st' = can_poison_memory st \<and>
    (\<forall>x. shadow_value env st' x = (if granule x = granule p then sint v else shadow_value env st x))"
  using assms by (simp add: store_shadow_def MemToShadow_def shadow_value_def MEM_TO_SHADOW_eq_iff)

lemma PoisonShadow_value:
  assumes "platform_ok env" and "can_poison_memory st"
    and "goffset a = 0" and "goffset b = 0" and "granule a \<le> granule b" and "8 \<le> unat b"
    and "AddrIsInMem (mp env) a" and "AddrIsInMem (mp env) (b - 8)"
  shows "\<exists>st'. PoisonShadow env a (b - a) v st = Some st' \<and> can_poison_memory st' \<and>
    (\<forall>x. shadow_value env st' x =
       (if granule a \<le> granule x \<and> granule x < granule b then sint v else shadow_value env st x))"
  by (rule exE [OF PoisonShadow_run [OF assms(1) disjI1 [OF assms(2)] assms(3-8), of v]])
    (auto simp: shadow_value_def assms(2))

lemma annotate_new_end_run:
  assumes ok: "platform_ok env" and cp: "can_poison_memory st" and ne: "O' \<noteq> N"
    and room: "unat (max O' N) + 7 < 2 ^ 64"
    and mem: "\<forall>x. granule (min O' N) \<le> granule x \<and> x < max O' N \<longrightarrow> AddrIsInMem (mp env) x"
  shows "\<exists>st'. annotate_new_end env O' N st = Some st' \<and> can_poison_memory st' \<and>
    (\<forall>x. shadow_value env st' x =
       (if granule x = granule N \<and> goffset N \<noteq> 0 then int (goffset N)
        else if granule O' \<le> granule x \<and> granule x < granule N then 0
        else if granule_up N \<le> granule x \<and> granule x < granule_up O' then -4
        else shadow_value env st x))"
proof -
  let ?a = "RoundDownTo (min O' N) 8" and ?b1 = "RoundDownTo N 8"
  obtain c where c: "RoundUpTo (max O' N) 8 = Some c" "granule c = granule_up (max O' N)" "goffset c = 0"
    by (rule RoundUpTo_run [OF room])
  have "unat N + 7 < 2 ^ 64" using room by (auto simp: max_def word_le_nat_alt split: if_splits)
  then obtain b2 where b2: "RoundUpTo N 8 = Some b2" "granule b2 = granule_up N" "goffset b2 = 0"
    by (rule RoundUpTo_run)
  have mid: "\<exists>st1. (if ?b1 > ?a then PoisonShadow env ?a (?b1 - ?a) 0 st
      else if c > b2 then PoisonShadow env b2 (c - b2) kAsanContiguousContainerOOBMagic st
      else Some st) = Some st1 \<and> can_poison_memory st1 \<and>
    (\<forall>x. shadow_value env st1 x =
        (if granule O' \<le> granule x \<and> granule x < granule N then 0
         else if granule_up N \<le> granule x \<and> granule x < granule_up O' then -4
         else shadow_value env st x))"
  proof (cases "?b1 > ?a")
    case True
    then have lt: "O' < N" and g: "granule O' < granule N"
      by (auto simp: addr_less_iff min_def split: if_splits)
    have b1: "8 \<le> unat ?b1" "goffset ?b1 = 0" using g unat_granule [of ?b1] by simp_all
    note m8 = granule_minus_8 [OF b1(2,1)]
    have mm: "min O' N = O'" "max O' N = N" using lt by simp_all
    have "AddrIsInMem (mp env) ?a" "AddrIsInMem (mp env) (?b1 - 8)"
      using g m8 by (auto intro!: mem [rule_format] simp: addr_less_iff mm)
    then obtain st1 where "PoisonShadow env ?a (?b1 - ?a) 0 st = Some st1" "can_poison_memory st1"
      "\<forall>x. shadow_value env st1 x =
         (if granule ?a \<le> granule x \<and> granule x < granule ?b1 then sint (0 :: u8) else shadow_value env st x)"
      using PoisonShadow_value [OF ok cp _ b1(2) _ b1(1), of ?a 0] g by (auto simp: mm)
    moreover have "granule_up O' \<le> granule_up N" using lt by (simp add: granule_up_le)
    ultimately show ?thesis using True by (intro exI [of _ st1]) (auto simp: mm)
  next
    case F: False
    show ?thesis
    proof (cases "c > b2")
      case True
      then have lt: "N < O'" and g: "granule_up N < granule_up O'"
        using b2 c F ne by (auto simp: addr_less_iff max_def min_def granule_up_def split: if_splits)
      have mm: "min O' N = N" "max O' N = O'" using lt by simp_all
      have cc: "8 \<le> unat c" using g c unat_granule [of c] by (simp add: mm)
      note m8 = granule_minus_8 [OF c(3) cc]
      have "AddrIsInMem (mp env) b2" "AddrIsInMem (mp env) (c - 8)"
        using g m8 b2 c
        by (auto intro!: mem [rule_format] simp: addr_less_iff mm granule_up_def split: if_splits)
      then obtain st1 where "PoisonShadow env b2 (c - b2) kAsanContiguousContainerOOBMagic st = Some st1"
        "can_poison_memory st1" "\<forall>x. shadow_value env st1 x =
         (if granule b2 \<le> granule x \<and> granule x < granule c then sint kAsanContiguousContainerOOBMagic
          else shadow_value env st x)"
        using PoisonShadow_value [OF ok cp b2(3) c(3) _ cc, of kAsanContiguousContainerOOBMagic] g b2 c
        by (auto simp: mm)
      moreover have "granule N \<le> granule O'" using lt by (auto simp: addr_less_iff)
      ultimately show ?thesis using F True b2 c by (intro exI [of _ st1]) (auto simp: mm)
    next
      case False
      have "granule N \<le> granule O' \<and> granule_up O' \<le> granule_up N"
      proof (cases "O' < N")
        case True
        then have mm: "min O' N = O'" using True by simp
        show ?thesis using F True granule_up_le [OF less_imp_le [OF True]] by (auto simp: addr_less_iff mm)
      next
        case gt: False
        then have mm: "max O' N = O'" by simp
        show ?thesis using gt False b2 c ne by (auto simp: addr_less_iff mm not_less)
      qed
      then show ?thesis using F False cp by (intro exI [of _ st]) auto
    qed
  qed
  then obtain st1 where st1: "(if ?b1 > ?a then PoisonShadow env ?a (?b1 - ?a) 0 st
      else if c > b2 then PoisonShadow env b2 (c - b2) kAsanContiguousContainerOOBMagic st
      else Some st) = Some st1" "can_poison_memory st1"
    "\<forall>x. shadow_value env st1 x =
        (if granule O' \<le> granule x \<and> granule x < granule N then 0
         else if granule_up N \<le> granule x \<and> granule x < granule_up O' then -4
         else shadow_value env st x)" by blast
  show ?thesis
  proof (cases "goffset N = 0")
    case True
    then have "?b1 = b2" using b2 by (simp add: addr_eq_iff granule_up_def)
    then show ?thesis using st1 True b2 c
      by (intro exI [of _ st1]) (simp add: annotate_new_end_def Let_def)
  next
    case False
    have d: "b2 - ?b1 = 8"
      using False b2 unat_granule [of b2] unat_granule [of ?b1]
      by (simp add: word_unat_eq_iff unat_sub word_le_nat_alt granule_up_def)
    then have "?b1 \<noteq> b2" by auto
    have "?b1 < N" using False by (simp add: addr_less_iff)
    then have "?b1 < max O' N" by (rule order.strict_trans2) simp
    moreover have "granule (min O' N) \<le> granule ?b1" by (auto simp: min_def addr_le_iff)
    ultimately have "AddrIsInMem (mp env) ?b1" using mem by blast
    then obtain st' where "store_shadow env ?b1 (ucast (N - ?b1)) st1 = Some st'" "can_poison_memory st'"
      "\<forall>x. shadow_value env st' x = (if granule x = granule ?b1 then sint (ucast (N - ?b1) :: u8)
         else shadow_value env st1 x)"
      using store_shadow_run [of env ?b1 "ucast (N - ?b1)" st1] st1(2) by blast
    then show ?thesis using st1(1,3) b2 c d False \<open>?b1 \<noteq> b2\<close>
      by (intro exI [of _ st']) (simp add: annotate_new_end_def Let_def sint_offset_byte)
  qed
qed

section \<open>Annotating a contiguous container\<close>

text \<open>After the cut at the end of the annotations, the bounds are those of the annotated part.\<close>

lemma FixUnalignedStorage_single:
  fixes env :: asan_env and st :: asan_state and sb se oe ne :: uptr
  defines "E \<equiv> annotations_end env st se"
  defines "B \<equiv> min sb E" and "O' \<equiv> min oe E" and "N \<equiv> min ne E"
  assumes "sb \<le> oe" and "sb \<le> ne" and "oe \<le> se" and "ne \<le> se" and "oe \<noteq> ne"
    and bu: "RoundUpTo sb 8 = Some bu" "unat sb + 7 < 2 ^ 64" and "AddrIsInMem (mp env) (RoundDownTo sb 8)"
  defines "trim \<equiv> goffset sb \<noteq> 0 \<and> N = B \<and> B \<noteq> O'"
  shows "\<exists>ob nb st1. FixUnalignedStorage env sb se (sb, oe, sb, ne) st =
      Some ((ob, if trim then max bu O' else O', nb, if trim then max bu N else N), st1) \<and>
    can_poison_memory st1 = can_poison_memory st \<and>
    (\<forall>x. shadow_value env st1 x =
       (if trim \<and> granule x = granule sb then int (goffset sb) else shadow_value env st x))"
proof -
  have clamp: "(if goffset se \<noteq> 0
      then if (oe \<noteq> ne \<and> RoundDownTo se 8 < max oe ne \<or> sb \<noteq> sb \<and> RoundDownTo se 8 < max sb sb) \<and>
              \<not> poisoned env st se
           then (min (RoundDownTo se 8) sb, min (RoundDownTo se 8) oe, min (RoundDownTo se 8) sb, min (RoundDownTo se 8) ne)
           else (sb, oe, sb, ne)
      else (sb, oe, sb, ne)) = (B, O', B, N)"
    using assms(5-9) by (auto simp: B_def O'_def N_def E_def annotations_end_def aligned_iff min_def max_def)
  have lt: "B < bu" if "goffset sb \<noteq> 0"
    using RoundUpTo_granule [OF bu(2,1)] that by (auto simp: B_def min_def addr_less_iff addr_le_iff)
  have run: "FixUnalignedStorage env sb se (sb, oe, sb, ne) st =
      (if trim then map_option (\<lambda>st. ((max bu B, max bu O', max bu B, max bu N), st))
          (store_shadow env (RoundDownTo sb 8) (ucast (sb - RoundDownTo sb 8)) st)
       else Some ((B, O', B, N), st))"
    using lt unfolding FixUnalignedStorage_def Let_def granularity_eq prod.case clamp aligned_iff bu(1)
    by (auto simp: trim_def map_conv_bind_option comp_def)
  show ?thesis
  proof (cases trim)
    case False
    then show ?thesis using run by simp
  next
    case True
    obtain st1 where st1: "store_shadow env (RoundDownTo sb 8) (ucast (sb - RoundDownTo sb 8)) st = Some st1"
      "can_poison_memory st1 = can_poison_memory st"
      "\<forall>x. shadow_value env st1 x = (if granule x = granule (RoundDownTo sb 8)
          then sint (ucast (sb - RoundDownTo sb 8) :: u8) else shadow_value env st x)"
      using store_shadow_run [OF assms(12)] by blast
    have "FixUnalignedStorage env sb se (sb, oe, sb, ne) st =
        Some ((max bu B, max bu O', max bu B, max bu N), st1)"
      using True run st1(1) by simp
    then show ?thesis using True st1(2,3) by (simp add: sint_offset_byte)
  qed
qed

text \<open>The effect of moving the end from \<open>O'\<close> to \<open>N\<close>, on one byte.\<close>

lemma moved_end_byte:
  assumes P: "poisoned env st x \<longleftrightarrow> O' \<le> x \<and> x < E"
    and le: "O' \<le> E" "N \<le> E" and E: "goffset E = 0 \<or> E = se" and x: "x < se"
    and V: "shadow_value env st' x =
       (if granule x = granule N \<and> goffset N \<noteq> 0 then int (goffset N)
        else if granule O' \<le> granule x \<and> granule x < granule N then 0
        else if granule_up N \<le> granule x \<and> granule x < granule_up O' then -4
        else shadow_value env st x)"
  shows "poisoned env st' x \<longleftrightarrow> N \<le> x \<and> x < E"
proof -
  consider (part) "granule x = granule N" "goffset N \<noteq> 0"
    | (good) "\<not> (granule x = granule N \<and> goffset N \<noteq> 0)" "granule O' \<le> granule x" "granule x < granule N"
    | (bad) "\<not> (granule x = granule N \<and> goffset N \<noteq> 0)" "\<not> (granule O' \<le> granule x \<and> granule x < granule N)"
        "granule_up N \<le> granule x" "granule x < granule_up O'"
    | (same) "\<not> (granule x = granule N \<and> goffset N \<noteq> 0)" "\<not> (granule O' \<le> granule x \<and> granule x < granule N)"
        "\<not> (granule_up N \<le> granule x \<and> granule x < granule_up O')" by blast
  then show ?thesis
  proof cases
    case part
    then have "poisoned env st' x \<longleftrightarrow> N \<le> x" unfolding poisoned_value V by (simp add: addr_le_iff)
    moreover have "x < E" using E part le(2) x by (auto simp: addr_le_iff addr_less_iff)
    ultimately show ?thesis by simp
  next
    case good
    then have "\<not> poisoned env st' x" unfolding poisoned_value V by simp
    then show ?thesis using good by (auto simp: addr_le_iff)
  next
    case bad
    then have "poisoned env st' x" unfolding poisoned_value V by simp
    moreover have "N \<le> x" using bad(3) by (auto simp: granule_up_def addr_le_iff split: if_splits)
    moreover have "x < E"
      using E bad(4) le(1) x by (auto simp: granule_up_def addr_le_iff addr_less_iff split: if_splits)
    ultimately show ?thesis by simp
  next
    case same
    have "poisoned env st' x \<longleftrightarrow> poisoned env st x"
      unfolding poisoned_value V if_not_P [OF same(1)] if_not_P [OF same(2)] if_not_P [OF same(3)] by (rule refl)
    moreover have "O' \<le> x \<longleftrightarrow> N \<le> x"
      using same by (auto simp: granule_up_def addr_le_iff split: if_splits)
    ultimately show ?thesis using P by simp
  qed
qed

lemma moved_end_after:
  assumes "goffset se \<noteq> 0" and E: "if poisoned env st se then E = se else E = RoundDownTo se 8"
    and le: "O' \<le> E" "N \<le> E"
    and V: "shadow_value env st' se =
       (if granule se = granule N \<and> goffset N \<noteq> 0 then int (goffset N)
        else if granule O' \<le> granule se \<and> granule se < granule N then 0
        else if granule_up N \<le> granule se \<and> granule se < granule_up O' then -4
        else shadow_value env st se)"
  shows "poisoned env st' se \<longleftrightarrow> poisoned env st se"
proof (cases "poisoned env st se")
  case True
  then have "O' \<le> se" "N \<le> se" using E le by auto
  then show ?thesis using True unfolding poisoned_value V by (auto simp: addr_le_iff)
next
  case False
  then have "granule_up O' \<le> granule se" "\<not> (granule se = granule N \<and> goffset N \<noteq> 0)" "granule N \<le> granule se"
    using E le by (auto simp: addr_le_iff granule_up_def)
  then show ?thesis unfolding poisoned_value V by auto
qed

lemma annotate_new_end_same:
  assumes "goffset p = 0" and "unat p + 7 < 2 ^ 64"
  shows "annotate_new_end env p p st = Some st"
proof -
  obtain q where "RoundUpTo p 8 = Some q" "granule q = granule_up p" "goffset q = 0"
    by (rule RoundUpTo_run [OF assms(2)])
  moreover from this have "q = RoundDownTo p 8" using assms(1) by (simp add: addr_eq_iff granule_up_def)
  ultimately show ?thesis by (simp add: annotate_new_end_def Let_def)
qed

lemma annotations_end_cong:
  "(goffset se \<noteq> 0 \<Longrightarrow> poisoned env st' se \<longleftrightarrow> poisoned env st se) \<Longrightarrow>
    annotations_end env st' se = annotations_end env st se"
  by (auto simp: annotations_end_def aligned_iff)

lemma annotations_end_cases:
  "goffset (annotations_end env st se) = 0 \<or> annotations_end env st se = se"
  "goffset se \<noteq> 0 \<Longrightarrow> if poisoned env st se then annotations_end env st se = se
     else annotations_end env st se = RoundDownTo se 8"
  by (auto simp: annotations_end_def aligned_iff)

lemma annotate_new_end_run_eq:
  assumes "platform_ok env" and "can_poison_memory st" and "O' \<noteq> N \<or> goffset N = 0"
    and "unat (max O' N) + 7 < 2 ^ 64"
    and "\<forall>x. granule (min O' N) \<le> granule x \<and> x < max O' N \<longrightarrow> AddrIsInMem (mp env) x"
  shows "\<exists>st'. annotate_new_end env O' N st = Some st' \<and> can_poison_memory st' \<and>
    (\<forall>x. shadow_value env st' x =
       (if granule x = granule N \<and> goffset N \<noteq> 0 then int (goffset N)
        else if granule O' \<le> granule x \<and> granule x < granule N then 0
        else if granule_up N \<le> granule x \<and> granule x < granule_up O' then -4
        else shadow_value env st x))"
proof (cases "O' = N")
  case True
  then show ?thesis using assms(2-4) annotate_new_end_same [of N env st] by (intro exI [of _ st]) auto
next
  case False
  then show ?thesis using annotate_new_end_run [OF assms(1,2) _ assms(4,5)] by simp
qed

text \<open>The case that empties a container whose first granule is shared with what precedes it.\<close>

lemma emptied_byte:
  assumes P: "poisoned env st x \<longleftrightarrow> O' \<le> x \<and> x < E" and sb: "goffset sb \<noteq> 0" "sb < O'" "O' \<le> E"
    and E: "goffset E = 0 \<or> E = se" and bu: "granule bu = granule sb + 1" "goffset bu = 0"
    and x: "sb \<le> x" "x < se"
    and V: "shadow_value env st' x =
      (if granule_up bu \<le> granule x \<and> granule x < granule_up (max bu O') then -4
       else if granule x = granule sb then int (goffset sb) else shadow_value env st x)"
  shows "poisoned env st' x \<longleftrightarrow> x < E"
proof -
  have up: "granule_up bu = granule sb + 1" using bu by (simp add: granule_up_def)
  have up2: "granule_up (max bu O') = max (granule sb + 1) (granule_up O')"
    using sb(2) bu by (auto simp: max_def granule_up_def addr_le_iff addr_less_iff)
  consider (first) "granule x = granule sb"
    | (mid) "granule sb < granule x" "granule x < granule_up O'"
    | (rest) "granule sb < granule x" "granule_up O' \<le> granule x"
    using x(1) by (fastforce simp: addr_le_iff)
  then show ?thesis
  proof cases
    case first
    then have "poisoned env st' x" unfolding poisoned_value V up using sb(1) x(1) by (simp add: addr_le_iff)
    moreover have "x < E" using first E sb x(2) by (auto simp: addr_le_iff addr_less_iff)
    ultimately show ?thesis by simp
  next
    case mid
    then have "poisoned env st' x" unfolding poisoned_value V up up2 by simp
    moreover have "x < E"
      using E mid(2) sb(3) x(2) by (auto simp: granule_up_def addr_le_iff addr_less_iff split: if_splits)
    ultimately show ?thesis by simp
  next
    case rest
    then have "poisoned env st' x \<longleftrightarrow> poisoned env st x" unfolding poisoned_value V up up2 by auto
    moreover have "O' \<le> x" using rest(2) by (auto simp: granule_up_def addr_le_iff split: if_splits)
    ultimately show ?thesis using P by simp
  qed
qed

lemma emptied_after:
  assumes "goffset se \<noteq> 0" and E: "if poisoned env st se then E = se else E = RoundDownTo se 8"
    and sb: "goffset sb \<noteq> 0" "sb < O'" "O' \<le> E" and bu: "granule bu = granule sb + 1" "goffset bu = 0"
    and V: "shadow_value env st' se =
      (if granule_up bu \<le> granule se \<and> granule se < granule_up (max bu O') then -4
       else if granule se = granule sb then int (goffset sb) else shadow_value env st se)"
  shows "poisoned env st' se \<longleftrightarrow> poisoned env st se"
proof -
  have up: "granule_up bu = granule sb + 1" using bu by (simp add: granule_up_def)
  have up2: "granule_up (max bu O') = max (granule sb + 1) (granule_up O')"
    using sb(2) bu by (auto simp: max_def granule_up_def addr_le_iff addr_less_iff)
  show ?thesis
  proof (cases "poisoned env st se")
    case True
    then have "E = se" using E by simp
    then have "sb < se" using sb(2,3) by simp
    then show ?thesis using True unfolding poisoned_value V up up2
      by (auto simp: addr_less_iff sb(1))
  next
    case False
    then have "E = RoundDownTo se 8" using E by simp
    then have "granule_up O' \<le> granule se" "granule sb < granule se"
      using sb by (auto simp: granule_up_def addr_le_iff addr_less_iff)
    then show ?thesis unfolding poisoned_value V up up2 by auto
  qed
qed

lemma annotate_moving:
  assumes ok: "platform_ok env" and cp: "can_poison_memory st1" and eq: "O' \<noteq> N \<or> goffset N = 0"
    and le: "O' \<le> E" "N \<le> E" "E \<le> se" and room: "unat se + 16 < 2 ^ 64"
    and E: "E = annotations_end env st se"
    and mem: "\<forall>x. granule (min O' N) \<le> granule x \<and> x < se \<longrightarrow> AddrIsInMem (mp env) x"
    and P: "\<forall>x. B \<le> x \<and> x < se \<longrightarrow> (poisoned env st x \<longleftrightarrow> O' \<le> x \<and> x < E)"
    and st1: "\<forall>x. shadow_value env st1 x = shadow_value env st x"
  shows "\<exists>st'. annotate_new_end env O' N st1 = Some st' \<and> annotations_end env st' se = E \<and>
    (\<forall>x. B \<le> x \<and> x < se \<longrightarrow> (poisoned env st' x \<longleftrightarrow> N \<le> x \<and> x < E))"
proof -
  have mx: "max O' N \<le> se" using le by auto
  have "unat (max O' N) + 7 < 2 ^ 64" using mx room by (simp add: word_le_nat_alt)
  moreover have "\<forall>x. granule (min O' N) \<le> granule x \<and> x < max O' N \<longrightarrow> AddrIsInMem (mp env) x"
    using mem order.strict_trans2 [OF _ mx] by blast
  ultimately obtain st' where st': "annotate_new_end env O' N st1 = Some st'"
    "\<forall>x. shadow_value env st' x =
       (if granule x = granule N \<and> goffset N \<noteq> 0 then int (goffset N)
        else if granule O' \<le> granule x \<and> granule x < granule N then 0
        else if granule_up N \<le> granule x \<and> granule x < granule_up O' then -4
        else shadow_value env st x)"
    using annotate_new_end_run_eq [OF ok cp eq] st1 by auto
  note Ec = annotations_end_cases [where env = env and st = st and se = se, folded E]
  have "annotations_end env st' se = E"
    unfolding E by (rule annotations_end_cong, rule moved_end_after [OF _ Ec(2) le(1,2)]) (use st'(2) in auto)
  moreover have "poisoned env st' x \<longleftrightarrow> N \<le> x \<and> x < E" if "B \<le> x" "x < se" for x
    by (rule moved_end_byte [OF _ le(1,2) Ec(1) that(2)]) (use P that st'(2) in auto)
  ultimately show ?thesis using st'(1) by (intro exI [of _ st']) blast
qed

lemma annotate_emptying:
  assumes ok: "platform_ok env" and cp: "can_poison_memory st1"
    and sb: "goffset sb \<noteq> 0" "sb < O'" "O' \<le> E" "E \<le> se" and room: "unat se + 16 < 2 ^ 64"
    and bu: "granule bu = granule sb + 1" "goffset bu = 0"
    and E: "E = annotations_end env st se"
    and mem: "\<forall>x. granule sb \<le> granule x \<and> x < se \<longrightarrow> AddrIsInMem (mp env) x"
    and P: "\<forall>x. sb \<le> x \<and> x < se \<longrightarrow> (poisoned env st x \<longleftrightarrow> O' \<le> x \<and> x < E)"
    and st1: "\<forall>x. shadow_value env st1 x =
      (if granule x = granule sb then int (goffset sb) else shadow_value env st x)"
  shows "\<exists>st'. annotate_new_end env (max bu O') bu st1 = Some st' \<and> annotations_end env st' se = E \<and>
    (\<forall>x. sb \<le> x \<and> x < se \<longrightarrow> (poisoned env st' x \<longleftrightarrow> x < E))"
proof -
  let ?M = "max bu O'"
  have mm: "min ?M bu = bu" "max ?M bu = ?M" by simp_all
  have ubu: "unat bu \<le> unat sb + 8" using bu unat_granule [of bu] unat_granule [of sb] by simp
  have so: "sb < se" "O' \<le> se" using sb by auto
  have "unat ?M + 7 < 2 ^ 64"
    using room ubu so by (auto simp: max_def word_le_nat_alt word_less_nat_alt)
  moreover have "AddrIsInMem (mp env) x" if "granule bu \<le> granule x" "x < ?M" for x
  proof -
    have "\<not> x < bu" using that(1) bu(2) by (auto simp: addr_less_iff)
    then have "x < O'" using that(2) by (auto simp: less_max_iff_disj)
    then show ?thesis using mem so(2) that(1) bu(1) by (auto intro: order.strict_trans2)
  qed
  ultimately obtain st' where st': "annotate_new_end env ?M bu st1 = Some st'"
    "\<forall>x. shadow_value env st' x =
       (if granule ?M \<le> granule x \<and> granule x < granule bu then 0
        else if granule_up bu \<le> granule x \<and> granule x < granule_up ?M then -4
        else shadow_value env st1 x)"
    using annotate_new_end_run_eq [OF ok cp, of ?M bu] bu(2) unfolding mm by auto
  have "granule bu \<le> granule ?M" by (auto simp: max_def addr_le_iff)
  then have V: "shadow_value env st' x =
       (if granule_up bu \<le> granule x \<and> granule x < granule_up ?M then -4
        else if granule x = granule sb then int (goffset sb) else shadow_value env st x)" for x
    using st'(2) st1 by auto
  note Ec = annotations_end_cases [where env = env and st = st and se = se, folded E]
  have "annotations_end env st' se = E"
    unfolding E by (rule annotations_end_cong, rule emptied_after [OF _ Ec(2) sb(1-3) bu V])
  moreover have "poisoned env st' x \<longleftrightarrow> x < E" if "sb \<le> x" "x < se" for x
    by (rule emptied_byte [OF _ sb(1-3) Ec(1) bu that V]) (use P that in auto)
  ultimately show ?thesis using st'(1) by (intro exI [of _ st']) blast
qed

lemma annotate_contiguous_ok:
  assumes ok: "platform_ok env" and cp: "can_poison_memory st" and det: "detect_container_overflow env"
    and le: "sb \<le> oe" "sb \<le> ne" "oe \<le> se" "ne \<le> se"
    and sz: "se - sb \<le> 2 ^ 40" and room: "unat se + 16 < 2 ^ 64"
    and mem: "\<forall>x. granule sb \<le> granule x \<and> x < se \<longrightarrow> AddrIsInMem (mp env) x"
    and pre: "container_ok env st sb oe se"
  shows "\<exists>st'. sanitizer_annotate_contiguous_container env sb se oe ne st = Some st' \<and>
    container_ok env st' sb ne se"
proof (cases "oe = ne")
  case True
  then show ?thesis using le sz pre det
    by (simp add: sanitizer_annotate_contiguous_container_def ReportBadParams_def push_bit_eq_mult)
next
  case False
  define E where "E = annotations_end env st se"
  define B O' N where "B = min sb E" and "O' = min oe E" and "N = min ne E"
  define trim where "trim \<longleftrightarrow> goffset sb \<noteq> 0 \<and> N = B \<and> B \<noteq> O'"
  have Ese: "E \<le> se" by (simp add: E_def annotations_end_le)
  have BON: "B \<le> O'" "B \<le> N" "O' \<le> E" "N \<le> E"
    using le by (simp_all add: B_def O'_def N_def min.coboundedI1)
  have lt: "sb < se" using le False by (metis order_le_less order_less_le_trans)
  have rsb: "unat sb + 7 < 2 ^ 64" using room lt by (simp add: word_less_nat_alt)
  obtain bu where bu: "RoundUpTo sb 8 = Some bu" "granule bu = granule_up sb" "goffset bu = 0"
    by (rule RoundUpTo_run [OF rsb])
  have "AddrIsInMem (mp env) (RoundDownTo sb 8)" using mem lt by (auto simp: addr_less_iff)
  then obtain ob nb st1 where fx: "FixUnalignedStorage env sb se (sb, oe, sb, ne) st =
      Some ((ob, if trim then max bu O' else O', nb, if trim then max bu N else N), st1)"
    "can_poison_memory st1 = can_poison_memory st"
    "\<forall>x. shadow_value env st1 x =
       (if trim \<and> granule x = granule sb then int (goffset sb) else shadow_value env st x)"
    using FixUnalignedStorage_single [OF le False bu(1) rsb]
    unfolding trim_def B_def O'_def N_def E_def by blast
  have run: "sanitizer_annotate_contiguous_container env sb se oe ne st =
      annotate_new_end env (if trim then max bu O' else O') (if trim then max bu N else N) st1"
    using fx(1) le sz det False
    by (simp add: sanitizer_annotate_contiguous_container_def ReportBadParams_def push_bit_eq_mult del: if_split)
  have P: "\<forall>x. B \<le> x \<and> x < se \<longrightarrow> (poisoned env st x \<longleftrightarrow> O' \<le> x \<and> x < E)"
    using pre by (simp add: container_ok_def Let_def B_def O'_def E_def)
  have goal: "container_ok env st' sb ne se" if "annotations_end env st' se = E"
    "\<forall>x. B \<le> x \<and> x < se \<longrightarrow> (poisoned env st' x \<longleftrightarrow> N \<le> x \<and> x < E)" for st'
    using that by (simp add: container_ok_def Let_def B_def N_def)
  show ?thesis
  proof (cases trim)
    case True
    then have tr: "goffset sb \<noteq> 0" "N = B" "B \<noteq> O'" by (simp_all add: trim_def)
    have "sb \<le> E"
    proof (rule ccontr)
      assume "\<not> sb \<le> E"
      then have "E \<le> sb" "E \<le> oe" using le(1) by auto
      then show False using tr(3) by (simp add: B_def O'_def min_absorb2)
    qed
    then have Bsb: "B = sb" by (simp add: B_def min_absorb1)
    have "sb < O'" using BON(1) tr(3) Bsb by simp
    moreover have gbu: "granule bu = granule sb + 1" using bu(2) tr(1) by (simp add: granule_up_def)
    moreover have "\<forall>x. shadow_value env st1 x =
        (if granule x = granule sb then int (goffset sb) else shadow_value env st x)"
      using fx(3) True by simp
    ultimately obtain st' where st': "annotate_new_end env (max bu O') bu st1 = Some st'"
      "annotations_end env st' se = E" "\<forall>x. sb \<le> x \<and> x < se \<longrightarrow> (poisoned env st' x \<longleftrightarrow> x < E)"
      using annotate_emptying [OF ok _ tr(1) _ BON(3) Ese room gbu bu(3) E_def mem] P cp fx(2) Bsb by blast
    have "sb \<le> bu" using gbu by (simp add: addr_le_iff)
    then have "max bu N = bu" using tr(2) Bsb by (simp add: max_absorb1)
    moreover have "container_ok env st' sb ne se"
      by (rule goal [OF st'(2)]) (use st'(3) tr(2) Bsb in auto)
    ultimately show ?thesis using st'(1) run True by (intro exI [of _ st']) simp
  next
    case F: False
    have Ec: "goffset E = 0 \<or> E = se" unfolding E_def by (rule annotations_end_cases(1))
    have eq: "O' \<noteq> N \<or> goffset N = 0"
    proof (cases "E \<le> oe \<and> E \<le> ne")
      case True
      then have "E \<noteq> se" using le(3,4) False by auto
      then show ?thesis using Ec True by (simp add: N_def min_absorb2)
    next
      case lt: False
      then show ?thesis using False by (auto simp: O'_def N_def min_def split: if_splits)
    qed
    have mem': "\<forall>x. granule (min O' N) \<le> granule x \<and> x < se \<longrightarrow> AddrIsInMem (mp env) x"
    proof (intro allI impI)
      fix x assume x: "granule (min O' N) \<le> granule x \<and> x < se"
      show "AddrIsInMem (mp env) x"
      proof (cases "sb \<le> E")
        case True
        then have "sb \<le> min O' N" using BON(1,2) by (simp add: B_def min_absorb1)
        then have "granule sb \<le> granule x" using x by (auto simp: addr_le_iff)
        then show ?thesis using mem x by blast
      next
        case False
        then have "min O' N = E" using le by (auto simp: O'_def N_def min_absorb2)
        moreover have "E \<noteq> se" using False lt by auto
        then have "granule E = granule se" unfolding E_def annotations_end_def by (auto split: if_splits)
        ultimately have "granule sb \<le> granule x" using x lt False by (auto simp: addr_le_iff addr_less_iff)
        then show ?thesis using mem x by blast
      qed
    qed
    obtain st' where "annotate_new_end env O' N st1 = Some st'" "annotations_end env st' se = E"
      "\<forall>x. B \<le> x \<and> x < se \<longrightarrow> (poisoned env st' x \<longleftrightarrow> N \<le> x \<and> x < E)"
      using annotate_moving [OF ok _ eq BON(3,4) Ese room E_def mem' P] cp fx(2,3) F by auto
    then show ?thesis using goal run F by (intro exI [of _ st']) simp
  qed
qed

text \<open>
  C7: if the annotation of a contiguous container verifies with the old end, then
  \<^verbatim>\<open>__sanitizer_annotate_contiguous_container\<close> succeeds and the annotation verifies
  with the new end, for every alignment of the storage and of the ends, and whatever follows
  the storage in its last granule.
\<close>

theorem annotate_contiguous_verified:
  assumes "platform_ok env" and "can_poison_memory st" and "detect_container_overflow env"
    and "0 < sb" and "8 \<le> unat se" and "unat se + 16 < 2 ^ 64" and "se - sb \<le> 2 ^ 40"
    and "sb \<le> old_end" and "sb \<le> new_end" and "old_end \<le> se" and "new_end \<le> se"
    and "\<forall>x. granule sb \<le> granule x \<and> x < se \<longrightarrow> AddrIsInMem (mp env) x"
    and "sanitizer_verify_contiguous_container env st sb old_end se = Some True"
  shows "\<exists>st'. sanitizer_annotate_contiguous_container env sb se old_end new_end st = Some st' \<and>
    sanitizer_verify_contiguous_container env st' sb new_end se = Some True"
proof -
  have "container_ok env st sb old_end se"
    using assms(13) verify_contiguous_iff [OF assms(3-5,8,10)] by simp
  then obtain st' where st': "sanitizer_annotate_contiguous_container env sb se old_end new_end st = Some st'"
    "container_ok env st' sb new_end se"
    using annotate_contiguous_ok [OF assms(1-3,8-11,7,6,12)] by blast
  then show ?thesis using verify_contiguous_iff [OF assms(3-5,9,11)] by (intro exI [of _ st']) simp
qed

text \<open>A fresh state verifies for a container that fills its storage.\<close>

lemma clean_container: "container_ok env clean_state sb se se"
proof -
  have "\<not> poisoned env clean_state x" for x
    unfolding poisoned_value by (simp add: shadow_value_def clean_state_def)
  then show ?thesis by (auto simp: container_ok_def Let_def min_def)
qed

theorem annotate_contiguous_verified_witness:
  "\<exists>st'. sanitizer_annotate_contiguous_container x86_64_env 0x602000000013 0x602000000035
      0x602000000035 0x602000000021 clean_state = Some st' \<and>
    sanitizer_verify_contiguous_container x86_64_env st' 0x602000000013 0x602000000021 0x602000000035 = Some True"
proof (rule annotate_contiguous_verified)
  have det: "detect_container_overflow x86_64_env" by (simp add: x86_64_env_def)
  show "sanitizer_verify_contiguous_container x86_64_env clean_state 0x602000000013 0x602000000035 0x602000000035 = Some True"
    by (subst verify_contiguous_iff [OF det]) (simp_all add: clean_container)
  have "AddrIsInMem x86_64_mapping x"
    if "granule 0x602000000013 \<le> granule x" "x < 0x602000000035" for x
  proof -
    have "13211319402498 \<le> granule x" using that(1) by (simp add: granule_def)
    then have "0x602000000010 \<le> unat x" using unat_granule [of x] by linarith
    then have "0x602000000010 \<le> x" by (simp add: word_le_nat_alt)
    then have "0x10007fff8000 \<le> x" by (rule order_trans [rotated]) simp
    moreover have "x \<le> 0x7fffffffffff"
      by (rule order_trans [OF less_imp_le [OF that(2)]]) simp
    ultimately have "0x10007fff8000 \<le> x \<and> x \<le> 0x7fffffffffff" by simp
    then show ?thesis by (simp add: in_mem_eval)
  qed
  then show "\<forall>x. granule 0x602000000013 \<le> granule x \<and> x < 0x602000000035 \<longrightarrow> AddrIsInMem (mp x86_64_env) x"
    by (simp add: x86_64_env_def)
qed (simp_all add: clean_state_def, simp_all add: x86_64_env_def)

end
