(* ===== verification/Bit_Vector.thy ===== *)
theory Bit_Vector
  imports San_Math
begin

text \<open>
  The bit vectors of \<^verbatim>\<open>sanitizer_bitvector.h\<close>. The class templates that take a bit vector
  as their parameter use a fixed set of member functions: the record \<open>bv_ops\<close> holds them, the
  locale \<open>bitvec\<close> states what they promise of the set of indices a vector stands for, and both
  classes, \<^verbatim>\<open>BasicBitVector<uptr>\<close> and \<^verbatim>\<open>TwoLevelBitVector<k, BasicBitVector<>>\<close>,
  interpret it. The classes have no constructor: \<open>raw\<close> is storage of the right shape, before
  \<^verbatim>\<open>clear\<close> or \<^verbatim>\<open>setAll\<close>; \<open>inv\<close> holds of an initialised vector.
\<close>

unbundle bit_operations_syntax

section \<open>The interface\<close>

record ('b, 'i) bv_ops =
  bv_kSize :: nat
  bv_clear :: "'b \<Rightarrow> 'b"
  bv_setAll :: "'b \<Rightarrow> 'b"
  bv_empty :: "'b \<Rightarrow> bool"
  bv_setBit :: "nat \<Rightarrow> 'b \<Rightarrow> (bool \<times> 'b) option"
  bv_clearBit :: "nat \<Rightarrow> 'b \<Rightarrow> (bool \<times> 'b) option"
  bv_getBit :: "nat \<Rightarrow> 'b \<Rightarrow> bool option"
  bv_getAndClearFirstOne :: "'b \<Rightarrow> (nat \<times> 'b) option"
  bv_setUnion :: "'b \<Rightarrow> 'b \<Rightarrow> (bool \<times> 'b) option"
  bv_setIntersection :: "'b \<Rightarrow> 'b \<Rightarrow> (bool \<times> 'b) option"
  bv_setDifference :: "'b \<Rightarrow> 'b \<Rightarrow> (bool \<times> 'b) option"
  bv_copyFrom :: "'b \<Rightarrow> 'b \<Rightarrow> 'b option"
  bv_intersectsWith :: "'b \<Rightarrow> 'b \<Rightarrow> bool option"
  bv_Iterator :: "'b \<Rightarrow> 'i"
  bv_hasNext :: "'i \<Rightarrow> bool"
  bv_next :: "'i \<Rightarrow> (nat \<times> 'i) option"

text \<open>The argument order of the binary operations is \<open>op v this\<close>.\<close>

fun foldM :: "('a \<Rightarrow> 's \<Rightarrow> 's option) \<Rightarrow> 'a list \<Rightarrow> 's \<Rightarrow> 's option" where
  "foldM f [] s = Some s"
| "foldM f (x # xs) s = Option.bind (f x s) (foldM f xs)"

lemma foldM_append: "foldM f (xs @ ys) s = Option.bind (foldM f xs s) (foldM f ys)"
  by (induction xs arbitrary: s) (auto split: bind_splits)

text \<open>An invariant of the loop, indexed by the elements already treated.\<close>

lemma foldM_rule:
  assumes "distinct xs" and "I {} s"
    and step: "\<forall>x D s. x \<in> set xs \<longrightarrow> x \<notin> D \<longrightarrow> D \<subseteq> set xs \<longrightarrow> I D s \<longrightarrow> (\<exists>s'. f x s = Some s' \<and> I (insert x D) s')"
  shows "\<exists>s'. foldM f xs s = Some s' \<and> I (set xs) s'"
proof -
  have "\<exists>s'. foldM f ys s = Some s' \<and> I (D \<union> set ys) s'"
    if "distinct ys" "set ys \<inter> D = {}" "set ys \<subseteq> set xs" "D \<subseteq> set xs" "I D s" for ys D s
    using that
  proof (induction ys arbitrary: D s)
    case (Cons y ys)
    have "y \<in> set xs" "y \<notin> D" using Cons.prems by auto
    then obtain s1 where s1: "f y s = Some s1" "I (insert y D) s1"
      using step Cons.prems(4,5) by blast
    moreover have "distinct ys" "set ys \<inter> insert y D = {}" "set ys \<subseteq> set xs" "insert y D \<subseteq> set xs"
      using Cons.prems by auto
    ultimately obtain s' where "foldM f ys s1 = Some s'" "I (insert y D \<union> set ys) s'"
      using Cons.IH [of "insert y D" s1] by blast
    then show ?case using s1(1) by simp
  qed simp
  from this [of xs "{}"] show ?thesis using assms(1,2) by simp
qed

text \<open>The loops \<^verbatim>\<open>while (!t.empty()) { i = t.getAndClearFirstOne(); body }\<close> and
  \<^verbatim>\<open>for (BV::Iterator it(bv); it.hasNext();) { i = it.next(); body }\<close>, with the body's effect
  on a state.\<close>

partial_function (option) bv_foreach ::
  "('b, 'i) bv_ops \<Rightarrow> (nat \<Rightarrow> 's \<Rightarrow> 's option) \<Rightarrow> 'b \<Rightarrow> 's \<Rightarrow> 's option" where
  "bv_foreach bv f t s =
     (if bv_empty bv t then Some s
      else Option.bind (bv_getAndClearFirstOne bv t) (\<lambda>(i, t').
           Option.bind (f i s) (bv_foreach bv f t')))"

partial_function (option) bv_drain ::
  "('b, 'i) bv_ops \<Rightarrow> (nat \<Rightarrow> 's \<Rightarrow> 's option) \<Rightarrow> 'b \<Rightarrow> 's \<Rightarrow> ('b \<times> 's) option" where
  \<comment> \<open>the first loop, with the emptied vector as part of the result\<close>
  "bv_drain bv f t s =
     (if bv_empty bv t then Some (t, s)
      else Option.bind (bv_getAndClearFirstOne bv t) (\<lambda>(i, t').
           Option.bind (f i s) (bv_drain bv f t')))"

partial_function (option) bv_it_elems :: "('b, 'i) bv_ops \<Rightarrow> 'i \<Rightarrow> nat list option" where
  "bv_it_elems bv it =
     (if bv_hasNext bv it
      then Option.bind (bv_next bv it) (\<lambda>(i, it').
           Option.bind (bv_it_elems bv it') (\<lambda>is. Some (i # is)))
      else Some [])"

text \<open>The calls on a vector, their effect, and the same calls on a set of indices below \<open>n\<close>.
  A failed \<^verbatim>\<open>CHECK\<close> is \<^const>\<open>None\<close>.\<close>

datatype 'v bv_call =
  SetBit nat | ClearBit nat | GetBit nat | GetAndClearFirstOne | IsEmpty | ClearAll | SetAll
| SetUnion 'v | SetIntersection 'v | SetDifference 'v | CopyFrom 'v | IntersectsWith 'v | Iterate

datatype bv_out = Out_bool bool | Out_idx nat | Out_unit | Out_list "nat list"

fun bv_exec :: "('b, 'i) bv_ops \<Rightarrow> 'b bv_call \<Rightarrow> 'b \<Rightarrow> (bv_out \<times> 'b) option" where
  "bv_exec bv (SetBit i) b = map_option (apfst Out_bool) (bv_setBit bv i b)"
| "bv_exec bv (ClearBit i) b = map_option (apfst Out_bool) (bv_clearBit bv i b)"
| "bv_exec bv (GetBit i) b = map_option (\<lambda>r. (Out_bool r, b)) (bv_getBit bv i b)"
| "bv_exec bv GetAndClearFirstOne b = map_option (apfst Out_idx) (bv_getAndClearFirstOne bv b)"
| "bv_exec bv IsEmpty b = Some (Out_bool (bv_empty bv b), b)"
| "bv_exec bv ClearAll b = Some (Out_unit, bv_clear bv b)"
| "bv_exec bv SetAll b = Some (Out_unit, bv_setAll bv b)"
| "bv_exec bv (SetUnion v) b = map_option (apfst Out_bool) (bv_setUnion bv v b)"
| "bv_exec bv (SetIntersection v) b = map_option (apfst Out_bool) (bv_setIntersection bv v b)"
| "bv_exec bv (SetDifference v) b = map_option (apfst Out_bool) (bv_setDifference bv v b)"
| "bv_exec bv (CopyFrom v) b = map_option (\<lambda>b. (Out_unit, b)) (bv_copyFrom bv v b)"
| "bv_exec bv (IntersectsWith v) b = map_option (\<lambda>r. (Out_bool r, b)) (bv_intersectsWith bv v b)"
| "bv_exec bv Iterate b = map_option (\<lambda>xs. (Out_list xs, b)) (bv_it_elems bv (bv_Iterator bv b))"

fun set_exec :: "nat \<Rightarrow> nat set bv_call \<Rightarrow> nat set \<Rightarrow> (bv_out \<times> nat set) option" where
  "set_exec n (SetBit i) A = (if i < n then Some (Out_bool (i \<notin> A), insert i A) else None)"
| "set_exec n (ClearBit i) A = (if i < n then Some (Out_bool (i \<in> A), A - {i}) else None)"
| "set_exec n (GetBit i) A = (if i < n then Some (Out_bool (i \<in> A), A) else None)"
| "set_exec n GetAndClearFirstOne A = (if A = {} then None else Some (Out_idx (Min A), A - {Min A}))"
| "set_exec n IsEmpty A = Some (Out_bool (A = {}), A)"
| "set_exec n ClearAll A = Some (Out_unit, {})"
| "set_exec n SetAll A = Some (Out_unit, {..<n})"
| "set_exec n (SetUnion V) A = Some (Out_bool (\<not> V \<subseteq> A), A \<union> V)"
| "set_exec n (SetIntersection V) A = Some (Out_bool (\<not> A \<subseteq> V), A \<inter> V)"
| "set_exec n (SetDifference V) A = Some (Out_bool (A \<inter> V \<noteq> {}), A - V)"
| "set_exec n (CopyFrom V) A = Some (Out_unit, V)"
| "set_exec n (IntersectsWith V) A = Some (Out_bool (A \<inter> V \<noteq> {}), A)"
| "set_exec n Iterate A = Some (Out_list (sorted_list_of_set A), A)"

fun bv_exec_all :: "('c \<Rightarrow> 's \<Rightarrow> ('o \<times> 's) option) \<Rightarrow> 'c list \<Rightarrow> 's \<Rightarrow> ('o list \<times> 's) option" where
  "bv_exec_all ex [] s = Some ([], s)"
| "bv_exec_all ex (c # cs) s = do { (r, s) \<leftarrow> ex c s; (rs, s) \<leftarrow> bv_exec_all ex cs s; Some (r # rs, s) }"

locale bitvec =
  fixes ops :: "('b, 'i) bv_ops" and raw :: "'b \<Rightarrow> bool" and inv :: "'b \<Rightarrow> bool" and els :: "'b \<Rightarrow> nat set"
  assumes inv_raw: "inv b \<Longrightarrow> raw b"
    and els_bound: "inv b \<Longrightarrow> els b \<subseteq> {..<bv_kSize ops}"
    and clear: "raw b \<Longrightarrow> inv (bv_clear ops b) \<and> els (bv_clear ops b) = {}"
    and setAll: "raw b \<Longrightarrow> inv (bv_setAll ops b) \<and> els (bv_setAll ops b) = {..<bv_kSize ops}"
    and empty_iff: "inv b \<Longrightarrow> bv_empty ops b \<longleftrightarrow> els b = {}"
    and setBit: "inv b \<Longrightarrow> i < bv_kSize ops \<Longrightarrow>
      \<exists>b'. bv_setBit ops i b = Some (i \<notin> els b, b') \<and> inv b' \<and> els b' = insert i (els b)"
    and clearBit: "inv b \<Longrightarrow> i < bv_kSize ops \<Longrightarrow>
      \<exists>b'. bv_clearBit ops i b = Some (i \<in> els b, b') \<and> inv b' \<and> els b' = els b - {i}"
    and getBit: "inv b \<Longrightarrow> i < bv_kSize ops \<Longrightarrow> bv_getBit ops i b = Some (i \<in> els b)"
    and out_of_range: "\<not> i < bv_kSize ops \<Longrightarrow>
      bv_setBit ops i b = None \<and> bv_clearBit ops i b = None \<and> bv_getBit ops i b = None"
    and first: "inv b \<Longrightarrow> els b \<noteq> {} \<Longrightarrow>
      \<exists>b'. bv_getAndClearFirstOne ops b = Some (Min (els b), b') \<and> inv b' \<and> els b' = els b - {Min (els b)}"
    and first_empty: "inv b \<Longrightarrow> els b = {} \<Longrightarrow> bv_getAndClearFirstOne ops b = None"
    and setUnion: "inv b \<Longrightarrow> inv v \<Longrightarrow>
      \<exists>b'. bv_setUnion ops v b = Some (\<not> els v \<subseteq> els b, b') \<and> inv b' \<and> els b' = els b \<union> els v"
    and setIntersection: "inv b \<Longrightarrow> inv v \<Longrightarrow>
      \<exists>b'. bv_setIntersection ops v b = Some (\<not> els b \<subseteq> els v, b') \<and> inv b' \<and> els b' = els b \<inter> els v"
    and setDifference: "inv b \<Longrightarrow> inv v \<Longrightarrow>
      \<exists>b'. bv_setDifference ops v b = Some (els b \<inter> els v \<noteq> {}, b') \<and> inv b' \<and> els b' = els b - els v"
    and copyFrom: "raw b \<Longrightarrow> inv v \<Longrightarrow>
      \<exists>b'. bv_copyFrom ops v b = Some b' \<and> inv b' \<and> els b' = els v"
    and intersectsWith: "inv b \<Longrightarrow> inv v \<Longrightarrow> bv_intersectsWith ops v b = Some (els b \<inter> els v \<noteq> {})"
    and iterate: "inv b \<Longrightarrow> bv_it_elems ops (bv_Iterator ops b) = Some (sorted_list_of_set (els b))"
begin

lemma finite_els: "inv b \<Longrightarrow> finite (els b)"
  using els_bound finite_subset by blast

lemma exec_refines:
  assumes b: "inv b" and c: "\<forall>v\<in>set_bv_call c. inv v"
  shows "map_option (apsnd els) (bv_exec ops c b) = set_exec (bv_kSize ops) (map_bv_call els c) (els b) \<and>
    (\<forall>r b'. bv_exec ops c b = Some (r, b') \<longrightarrow> inv b')"
proof (cases c)
  case (SetBit i)
  then show ?thesis using setBit [OF b, of i] out_of_range [of i b] by (cases "i < bv_kSize ops") auto
next
  case (ClearBit i)
  show ?thesis
  proof (cases "i < bv_kSize ops")
    case True
    obtain b' where "bv_clearBit ops i b = Some (i \<in> els b, b')" "inv b'" "els b' = els b - {i}"
      using clearBit [OF b True] by blast
    then show ?thesis using ClearBit True by simp
  qed (use ClearBit out_of_range in simp)
next
  case (GetBit i)
  then show ?thesis using b getBit [OF b, of i] out_of_range [of i b] by (cases "i < bv_kSize ops") auto
next
  case GetAndClearFirstOne
  show ?thesis
  proof (cases "els b = {}")
    case False
    obtain b' where "bv_getAndClearFirstOne ops b = Some (Min (els b), b')" "inv b'" "els b' = els b - {Min (els b)}"
      using first [OF b False] by blast
    then show ?thesis using GetAndClearFirstOne False by simp
  qed (use GetAndClearFirstOne first_empty [OF b] in simp)
next
  case (SetUnion v)
  then have "inv v" using c by simp
  from setUnion [OF b this] show ?thesis using SetUnion by auto
next
  case (SetIntersection v)
  then have "inv v" using c by simp
  from setIntersection [OF b this] show ?thesis using SetIntersection by auto
next
  case (SetDifference v)
  then have "inv v" using c by simp
  from setDifference [OF b this] show ?thesis using SetDifference by auto
next
  case (CopyFrom v)
  then have "inv v" using c by simp
  from copyFrom [OF inv_raw [OF b] this] show ?thesis using CopyFrom by auto
qed (use b c in \<open>auto simp: clear setAll inv_raw empty_iff intersectsWith iterate\<close>)

lemma exec_all_refines:
  assumes "inv b" and "\<forall>c\<in>set cs. \<forall>v\<in>set_bv_call c. inv v"
  shows "map_option (apsnd els) (bv_exec_all (bv_exec ops) cs b) =
    bv_exec_all (set_exec (bv_kSize ops)) (map (map_bv_call els) cs) (els b)"
  using assms
proof (induction cs arbitrary: b)
  case (Cons c cs)
  have "\<forall>v\<in>set_bv_call c. inv v" using Cons.prems(2) by simp
  note e = exec_refines [OF Cons.prems(1) this]
  show ?case
  proof (cases "bv_exec ops c b")
    case None
    then have "set_exec (bv_kSize ops) (map_bv_call els c) (els b) = None" using e by simp
    then show ?thesis using None by simp
  next
    case (Some rb)
    obtain r b' where rb: "rb = (r, b')" by fastforce
    have i: "inv b'" using e Some rb by simp
    have s: "set_exec (bv_kSize ops) (map_bv_call els c) (els b) = Some (r, els b')"
      using e Some rb by simp
    have "bv_exec_all (set_exec (bv_kSize ops)) (map (map_bv_call els) cs) (els b') =
        map_option (apsnd els) (bv_exec_all (bv_exec ops) cs b')"
      using Cons.IH [OF i] Cons.prems(2) by simp
    then show ?thesis using Some rb s
      by (cases "bv_exec_all (bv_exec ops) cs b'") (auto simp del: bv_exec.simps set_exec.simps split: prod.splits)
  qed
qed simp

lemma foreach_fold: "inv t \<Longrightarrow> bv_foreach ops f t s = foldM f (sorted_list_of_set (els t)) s"
proof (induction "card (els t)" arbitrary: t s)
  case 0
  then have "els t = {}" using finite_els by simp
  then show ?case using 0(2) by (subst bv_foreach.simps) (simp add: empty_iff)
next
  case (Suc n)
  have ne: "els t \<noteq> {}" using Suc(2) by auto
  obtain t' where t': "bv_getAndClearFirstOne ops t = Some (Min (els t), t')" "inv t'"
    "els t' = els t - {Min (els t)}"
    using first [OF Suc(3) ne] by blast
  have fin: "finite (els t)" by (rule finite_els [OF Suc(3)])
  have "card (els t') = n" using Suc(2) t'(3) fin ne by simp
  then have IH: "bv_foreach ops f t' = foldM f (sorted_list_of_set (els t'))"
    using Suc(1) t'(2) by (intro ext) simp
  have l: "sorted_list_of_set (els t) = Min (els t) # sorted_list_of_set (els t')"
    using fin ne t'(3) by (simp add: sorted_list_of_set_nonempty)
  show ?case
    using ne Suc(3) t'(1) by (subst bv_foreach.simps) (simp add: empty_iff l IH cong: option.case_cong)
qed

lemma drain_fold: "inv t \<Longrightarrow> \<exists>t'. inv t' \<and> (\<forall>s. bv_drain ops f t s = map_option (Pair t') (foldM f (sorted_list_of_set (els t)) s))"
proof (induction "card (els t)" arbitrary: t)
  case 0
  then have "els t = {}" using finite_els by simp
  then have "bv_drain ops f t s = Some (t, s)" for s using 0(2) by (subst bv_drain.simps) (simp add: empty_iff)
  then show ?case using 0(2) \<open>els t = {}\<close> by auto
next
  case (Suc n)
  have ne: "els t \<noteq> {}" using Suc(2) by auto
  obtain t1 where t1: "bv_getAndClearFirstOne ops t = Some (Min (els t), t1)" "inv t1"
    "els t1 = els t - {Min (els t)}"
    using first [OF Suc(3) ne] by blast
  have fin: "finite (els t)" by (rule finite_els [OF Suc(3)])
  have "n = card (els t1)" using Suc(2) t1(3) fin ne by simp
  then obtain t' where t': "inv t'"
    "\<forall>s. bv_drain ops f t1 s = map_option (Pair t') (foldM f (sorted_list_of_set (els t1)) s)"
    using Suc(1) t1(2) by blast
  have l: "sorted_list_of_set (els t) = Min (els t) # sorted_list_of_set (els t1)"
    using fin ne t1(3) by (simp add: sorted_list_of_set_nonempty)
  have "bv_drain ops f t s = map_option (Pair t') (foldM f (sorted_list_of_set (els t)) s)" for s
    using ne Suc(3) t1(1) t'(2) by (subst bv_drain.simps) (cases "f (Min (els t)) s", simp_all add: empty_iff l)
  then show ?case using t'(1) by blast
qed

end

section \<open>BasicBitVector\<close>

definition basic_kSize :: nat where "basic_kSize = 64"

definition basic_clear :: "uptr \<Rightarrow> uptr" where "basic_clear b = 0"

definition basic_setAll :: "uptr \<Rightarrow> uptr" where "basic_setAll b = NOT 0"

definition basic_empty :: "uptr \<Rightarrow> bool" where "basic_empty b \<longleftrightarrow> b = 0"

definition basic_mask :: "nat \<Rightarrow> uptr option" where
  "basic_mask idx = do { CHECK (idx < basic_kSize); Some (push_bit idx 1) }"

definition basic_setBit :: "nat \<Rightarrow> uptr \<Rightarrow> (bool \<times> uptr) option" where
  "basic_setBit idx b = do { m \<leftarrow> basic_mask idx; let old = b; let b = b OR m; Some (b \<noteq> old, b) }"

definition basic_clearBit :: "nat \<Rightarrow> uptr \<Rightarrow> (bool \<times> uptr) option" where
  "basic_clearBit idx b = do { m \<leftarrow> basic_mask idx; let old = b; let b = b AND NOT m; Some (b \<noteq> old, b) }"

definition basic_getBit :: "nat \<Rightarrow> uptr \<Rightarrow> bool option" where
  "basic_getBit idx b = do { m \<leftarrow> basic_mask idx; Some (b AND m \<noteq> 0) }"

definition basic_getAndClearFirstOne :: "uptr \<Rightarrow> (nat \<times> uptr) option" where
  "basic_getAndClearFirstOne b = do {
     CHECK (\<not> basic_empty b);
     idx \<leftarrow> LeastSignificantSetBitIndex b;
     (_, b) \<leftarrow> basic_clearBit idx b;
     Some (idx, b)
   }"

definition basic_setUnion :: "uptr \<Rightarrow> uptr \<Rightarrow> bool \<times> uptr" where
  "basic_setUnion v b = (let old = b; b = b OR v in (b \<noteq> old, b))"

definition basic_setIntersection :: "uptr \<Rightarrow> uptr \<Rightarrow> bool \<times> uptr" where
  "basic_setIntersection v b = (let old = b; b = b AND v in (b \<noteq> old, b))"

definition basic_setDifference :: "uptr \<Rightarrow> uptr \<Rightarrow> bool \<times> uptr" where
  "basic_setDifference v b = (let old = b; b = b AND NOT v in (b \<noteq> old, b))"

definition basic_copyFrom :: "uptr \<Rightarrow> uptr \<Rightarrow> uptr" where "basic_copyFrom v b = v"

definition basic_intersectsWith :: "uptr \<Rightarrow> uptr \<Rightarrow> bool" where
  "basic_intersectsWith v b \<longleftrightarrow> b AND v \<noteq> 0"

text \<open>The iterator is a copy of the vector.\<close>

definition basic_hasNext :: "uptr \<Rightarrow> bool" where "basic_hasNext it \<longleftrightarrow> \<not> basic_empty it"

definition basic_next :: "uptr \<Rightarrow> (nat \<times> uptr) option" where
  "basic_next it = basic_getAndClearFirstOne it"

definition basic_ops :: "(uptr, uptr) bv_ops" where
  "basic_ops = \<lparr>bv_kSize = basic_kSize, bv_clear = basic_clear, bv_setAll = basic_setAll,
     bv_empty = basic_empty, bv_setBit = basic_setBit, bv_clearBit = basic_clearBit,
     bv_getBit = basic_getBit, bv_getAndClearFirstOne = basic_getAndClearFirstOne,
     bv_setUnion = (\<lambda>v b. Some (basic_setUnion v b)),
     bv_setIntersection = (\<lambda>v b. Some (basic_setIntersection v b)),
     bv_setDifference = (\<lambda>v b. Some (basic_setDifference v b)),
     bv_copyFrom = (\<lambda>v b. Some (basic_copyFrom v b)),
     bv_intersectsWith = (\<lambda>v b. Some (basic_intersectsWith v b)),
     bv_Iterator = (\<lambda>b. b), bv_hasNext = basic_hasNext, bv_next = basic_next\<rparr>"

definition basic_els :: "uptr \<Rightarrow> nat set" where "basic_els b = {i. bit b i}"

lemma basic_els_bound: "basic_els b \<subseteq> {..<64}"
proof -
  have "i < 64" if "bit b i" for i using bit_imp_le_length [OF that] by simp
  then show ?thesis by (auto simp: basic_els_def)
qed

lemma basic_els_eq_iff: "basic_els a = basic_els b \<longleftrightarrow> a = b"
proof
  assume "basic_els a = basic_els b"
  then have "bit a n = bit b n" for n unfolding basic_els_def by blast
  then show "a = b" by (intro bit_word_eqI) simp
qed simp

lemma basic_els_simps [simp]:
  "basic_els 0 = {}" "basic_els (a OR b) = basic_els a \<union> basic_els b" "basic_els (a AND b) = basic_els a \<inter> basic_els b"
  "basic_els (NOT b) = {..<64} - basic_els b" "basic_els (-1) = {..<64}"
  "basic_els a \<inter> ({..<64} - X) = basic_els a - X"
  using basic_els_bound by (auto simp: basic_els_def bit_simps)

lemma basic_els_exp [simp]: "idx < 64 \<Longrightarrow> basic_els (2 ^ idx) = {idx}"
  by (auto simp: basic_els_def bit_simps)

lemma basic_els_empty_iff [simp]: "basic_els b = {} \<longleftrightarrow> b = 0"
  using basic_els_eq_iff [of b 0] by simp

lemma basic_setBit_run:
  assumes "i < 64"
  shows "basic_setBit i b = Some (i \<notin> basic_els b, b OR push_bit i 1)" and "basic_els (b OR push_bit i 1) = insert i (basic_els b)"
proof -
  show e: "basic_els (b OR push_bit i 1) = insert i (basic_els b)" using assms by simp
  have "b OR push_bit i 1 \<noteq> b \<longleftrightarrow> i \<notin> basic_els b"
    unfolding basic_els_eq_iff [symmetric] e by auto
  then show "basic_setBit i b = Some (i \<notin> basic_els b, b OR push_bit i 1)"
    using assms by (simp add: basic_setBit_def basic_mask_def basic_kSize_def)
qed

lemma basic_clearBit_run:
  assumes "i < 64"
  shows "basic_clearBit i b = Some (i \<in> basic_els b, b AND NOT (push_bit i 1))"
    and "basic_els (b AND NOT (push_bit i 1)) = basic_els b - {i}"
proof -
  show e: "basic_els (b AND NOT (push_bit i 1)) = basic_els b - {i}" using assms by simp
  have "b AND NOT (push_bit i 1) \<noteq> b \<longleftrightarrow> i \<in> basic_els b"
    unfolding basic_els_eq_iff [symmetric] e by auto
  then show "basic_clearBit i b = Some (i \<in> basic_els b, b AND NOT (push_bit i 1))"
    using assms by (simp add: basic_clearBit_def basic_mask_def basic_kSize_def)
qed

lemma basic_getBit_run: "i < 64 \<Longrightarrow> basic_getBit i b = Some (i \<in> basic_els b)"
proof -
  assume i: "i < 64"
  have "b AND push_bit i 1 \<noteq> 0 \<longleftrightarrow> i \<in> basic_els b"
    unfolding basic_els_empty_iff [symmetric] using i by simp
  then show ?thesis using i by (simp add: basic_getBit_def basic_mask_def basic_kSize_def)
qed

lemma basic_first_run:
  assumes "b \<noteq> 0"
  shows "\<exists>b'. basic_getAndClearFirstOne b = Some (Min (basic_els b), b') \<and> basic_els b' = basic_els b - {Min (basic_els b)}"
proof -
  obtain k where k: "LeastSignificantSetBitIndex b = Some k"
    using assms by (auto simp: LeastSignificantSetBitIndex_def)
  then have "bit b k \<and> (\<forall>i<k. \<not> bit b i)" by (simp add: LeastSignificantSetBitIndex_Some_iff)
  moreover have fin: "finite (basic_els b)" using basic_els_bound finite_subset by blast
  ultimately have "Min (basic_els b) = k" and "k < 64"
    using basic_els_bound [of b] by (auto simp: basic_els_def intro!: Min_eqI leI)
  then show ?thesis using assms k basic_clearBit_run [of k b]
    by (simp add: basic_getAndClearFirstOne_def basic_empty_def)
qed

lemma basic_it_elems: "bv_it_elems basic_ops b = Some (sorted_list_of_set (basic_els b))"
proof (induction "card (basic_els b)" arbitrary: b)
  case 0
  then have "b = 0" using basic_els_bound [of b] finite_subset by fastforce
  then show ?case by (subst bv_it_elems.simps) (simp add: basic_ops_def basic_hasNext_def basic_empty_def)
next
  case (Suc n)
  then have ne: "b \<noteq> 0" by auto
  obtain b' where b': "basic_getAndClearFirstOne b = Some (Min (basic_els b), b')"
    "basic_els b' = basic_els b - {Min (basic_els b)}"
    using basic_first_run [OF ne] by blast
  have fin: "finite (basic_els b)" using basic_els_bound finite_subset by blast
  have "card (basic_els b') = n" using Suc(2) b'(2) fin ne by simp
  then have "bv_it_elems basic_ops b' = Some (sorted_list_of_set (basic_els b'))" using Suc(1) by simp
  moreover have "sorted_list_of_set (basic_els b) = Min (basic_els b) # sorted_list_of_set (basic_els b')"
    using fin ne b'(2) by (simp add: sorted_list_of_set_nonempty)
  ultimately show ?case using ne b'(1)
    by (subst bv_it_elems.simps) (simp add: basic_ops_def basic_hasNext_def basic_empty_def basic_next_def)
qed

lemma basic_binary_run:
  "basic_setUnion v b = (\<not> basic_els v \<subseteq> basic_els b, b OR v)"
  "basic_setIntersection v b = (\<not> basic_els b \<subseteq> basic_els v, b AND v)"
  "basic_setDifference v b = (basic_els b \<inter> basic_els v \<noteq> {}, b AND NOT v)"
  "basic_intersectsWith v b \<longleftrightarrow> basic_els b \<inter> basic_els v \<noteq> {}"
proof -
  have "(b OR v \<noteq> b) = (\<not> basic_els v \<subseteq> basic_els b)" "(b AND v \<noteq> b) = (\<not> basic_els b \<subseteq> basic_els v)"
    "(b AND NOT v \<noteq> b) = (basic_els b \<inter> basic_els v \<noteq> {})" "(b AND v \<noteq> 0) = (basic_els b \<inter> basic_els v \<noteq> {})"
    using basic_els_empty_iff [of "b AND v"] by (auto simp flip: basic_els_eq_iff)
  then show "basic_setUnion v b = (\<not> basic_els v \<subseteq> basic_els b, b OR v)"
    "basic_setIntersection v b = (\<not> basic_els b \<subseteq> basic_els v, b AND v)"
    "basic_setDifference v b = (basic_els b \<inter> basic_els v \<noteq> {}, b AND NOT v)"
    "basic_intersectsWith v b \<longleftrightarrow> basic_els b \<inter> basic_els v \<noteq> {}"
    by (simp_all only: basic_setUnion_def basic_setIntersection_def basic_setDifference_def
        basic_intersectsWith_def Let_def)
qed

lemma basic_ops_sel [simp]:
  "bv_kSize basic_ops = 64" "bv_clear basic_ops = basic_clear" "bv_setAll basic_ops = basic_setAll"
  "bv_empty basic_ops = basic_empty" "bv_setBit basic_ops = basic_setBit" "bv_clearBit basic_ops = basic_clearBit"
  "bv_getBit basic_ops = basic_getBit" "bv_getAndClearFirstOne basic_ops = basic_getAndClearFirstOne"
  "bv_setUnion basic_ops v b = Some (basic_setUnion v b)"
  "bv_setIntersection basic_ops v b = Some (basic_setIntersection v b)"
  "bv_setDifference basic_ops v b = Some (basic_setDifference v b)"
  "bv_copyFrom basic_ops v b = Some (basic_copyFrom v b)"
  "bv_intersectsWith basic_ops v b = Some (basic_intersectsWith v b)"
  "bv_Iterator basic_ops b = b" "bv_hasNext basic_ops = basic_hasNext" "bv_next basic_ops = basic_next"
  by (simp_all add: basic_ops_def basic_kSize_def)

interpretation basic: bitvec basic_ops "\<lambda>_. True" "\<lambda>_. True" basic_els
proof unfold_locales
  show "\<exists>b'. bv_getAndClearFirstOne basic_ops b = Some (Min (basic_els b), b') \<and> True \<and>
      basic_els b' = basic_els b - {Min (basic_els b)}" if "basic_els b \<noteq> {}" for b
    using basic_first_run that by simp
  show "bv_getAndClearFirstOne basic_ops b = None" if "basic_els b = {}" for b
    using that by (simp add: basic_getAndClearFirstOne_def basic_empty_def)
  show "bv_setBit basic_ops i b = None \<and> bv_clearBit basic_ops i b = None \<and> bv_getBit basic_ops i b = None"
    if "\<not> i < bv_kSize basic_ops" for i b
    using that by (simp add: basic_setBit_def basic_clearBit_def basic_getBit_def basic_mask_def basic_kSize_def)
qed (simp_all add: basic_els_bound basic_clear_def basic_setAll_def basic_empty_def basic_setBit_run
    basic_clearBit_run basic_getBit_run basic_binary_run basic_copyFrom_def basic_it_elems)

end
