(* ===== verification/Two_Level_Bit_Vector.thy ===== *)
theory Two_Level_Bit_Vector
  imports Bit_Vector
begin

text \<open>
  \<^verbatim>\<open>TwoLevelBitVector<kLevel1Size, BasicBitVector<>>\<close>: a set bit of the first level says that
  the corresponding vector of the second level has set bits; the second-level vector under a
  clear bit may hold anything. The template argument \<^verbatim>\<open>kLevel1Size\<close> is the argument \<open>k\<close>.
\<close>

unbundle bit_operations_syntax

section \<open>Definitions\<close>

record TwoLevel =
  lev1 :: "uptr list"
  lev2 :: "uptr list list"

definition set_l1 :: "nat \<Rightarrow> uptr \<Rightarrow> TwoLevel \<Rightarrow> TwoLevel" where
  "set_l1 i0 w b = b\<lparr>lev1 := (lev1 b)[i0 := w]\<rparr>"

definition set_l2 :: "nat \<Rightarrow> nat \<Rightarrow> uptr \<Rightarrow> TwoLevel \<Rightarrow> TwoLevel" where
  "set_l2 i0 i1 w b = b\<lparr>lev2 := (lev2 b)[i0 := (lev2 b ! i0)[i1 := w]]\<rparr>"

definition tl_kSize :: "nat \<Rightarrow> nat" where "tl_kSize k = basic_kSize * basic_kSize * k"

definition tl_clear :: "TwoLevel \<Rightarrow> TwoLevel" where
  "tl_clear b = b\<lparr>lev1 := map basic_clear (lev1 b)\<rparr>"

definition tl_setAll :: "TwoLevel \<Rightarrow> TwoLevel" where
  "tl_setAll b = b\<lparr>lev1 := map basic_setAll (lev1 b), lev2 := map (map basic_setAll) (lev2 b)\<rparr>"

definition tl_empty :: "TwoLevel \<Rightarrow> bool" where
  "tl_empty b = list_all basic_empty (lev1 b)"

definition tl_idx0 :: "nat \<Rightarrow> nat \<Rightarrow> nat option" where
  "tl_idx0 k idx = do { let res = idx div (basic_kSize * basic_kSize); CHECK (res < k); Some res }"

definition tl_idx1 :: "nat \<Rightarrow> nat option" where
  "tl_idx1 idx = do { let res = (idx div basic_kSize) mod basic_kSize; CHECK (res < basic_kSize); Some res }"

definition tl_idx2 :: "nat \<Rightarrow> nat option" where
  "tl_idx2 idx = do { let res = idx mod basic_kSize; CHECK (res < basic_kSize); Some res }"

definition tl_setBit :: "nat \<Rightarrow> nat \<Rightarrow> TwoLevel \<Rightarrow> (bool \<times> TwoLevel) option" where
  "tl_setBit k idx b = do {
     CHECK (idx < tl_kSize k);
     i0 \<leftarrow> tl_idx0 k idx;
     i1 \<leftarrow> tl_idx1 idx;
     i2 \<leftarrow> tl_idx2 idx;
     present \<leftarrow> basic_getBit i1 (lev1 b ! i0);
     b \<leftarrow> (if \<not> present then do {
         (_, w) \<leftarrow> basic_setBit i1 (lev1 b ! i0);
         Some (set_l2 i0 i1 (basic_clear (lev2 b ! i0 ! i1)) (set_l1 i0 w b))
       } else Some b);
     (res, w) \<leftarrow> basic_setBit i2 (lev2 b ! i0 ! i1);
     Some (res, set_l2 i0 i1 w b)
   }"

definition tl_clearBit :: "nat \<Rightarrow> nat \<Rightarrow> TwoLevel \<Rightarrow> (bool \<times> TwoLevel) option" where
  "tl_clearBit k idx b = do {
     CHECK (idx < tl_kSize k);
     i0 \<leftarrow> tl_idx0 k idx;
     i1 \<leftarrow> tl_idx1 idx;
     i2 \<leftarrow> tl_idx2 idx;
     present \<leftarrow> basic_getBit i1 (lev1 b ! i0);
     if present then do {
       (res, w) \<leftarrow> basic_clearBit i2 (lev2 b ! i0 ! i1);
       let b = set_l2 i0 i1 w b;
       if basic_empty (lev2 b ! i0 ! i1) then do {
         (_, w) \<leftarrow> basic_clearBit i1 (lev1 b ! i0);
         Some (res, set_l1 i0 w b)
       } else Some (res, b)
     } else Some (False, b)
   }"

definition tl_getBit :: "nat \<Rightarrow> nat \<Rightarrow> TwoLevel \<Rightarrow> bool option" where
  "tl_getBit k idx b = do {
     CHECK (idx < tl_kSize k);
     i0 \<leftarrow> tl_idx0 k idx;
     i1 \<leftarrow> tl_idx1 idx;
     i2 \<leftarrow> tl_idx2 idx;
     present \<leftarrow> basic_getBit i1 (lev1 b ! i0);
     if present then basic_getBit i2 (lev2 b ! i0 ! i1) else Some False
   }"

function tl_first_from :: "nat \<Rightarrow> nat \<Rightarrow> TwoLevel \<Rightarrow> (nat \<times> TwoLevel) option" where
  "tl_first_from k i0 b =
     (if i0 < k then
        (if basic_empty (lev1 b ! i0) then tl_first_from k (Suc i0) b
         else do {
           (i1, w) \<leftarrow> basic_getAndClearFirstOne (lev1 b ! i0);
           let b = set_l1 i0 w b;
           (i2, w) \<leftarrow> basic_getAndClearFirstOne (lev2 b ! i0 ! i1);
           let b = set_l2 i0 i1 w b;
           b \<leftarrow> (if \<not> basic_empty (lev2 b ! i0 ! i1)
                then do { (_, w) \<leftarrow> basic_setBit i1 (lev1 b ! i0); Some (set_l1 i0 w b) } else Some b);
           Some (i0 * basic_kSize * basic_kSize + i1 * basic_kSize + i2, b)
         })
      else None)"
  by pat_completeness auto
termination by (relation "measure (\<lambda>(k, i0, b). k - i0)") auto

declare tl_first_from.simps [simp del]

definition tl_getAndClearFirstOne :: "nat \<Rightarrow> TwoLevel \<Rightarrow> (nat \<times> TwoLevel) option" where
  "tl_getAndClearFirstOne k b = tl_first_from k 0 b"

text \<open>The bodies of the inner loops of the set operations, at second-level index \<open>i1\<close>.\<close>

definition tl_union_body :: "TwoLevel \<Rightarrow> nat \<Rightarrow> nat \<Rightarrow> bool \<times> TwoLevel \<Rightarrow> (bool \<times> TwoLevel) option" where
  "tl_union_body v i0 i1 = (\<lambda>(res, b). do {
     (new, w) \<leftarrow> basic_setBit i1 (lev1 b ! i0);
     let b = set_l1 i0 w b;
     let b = (if new then set_l2 i0 i1 (basic_clear (lev2 b ! i0 ! i1)) b else b);
     let (r, w) = basic_setUnion (lev2 v ! i0 ! i1) (lev2 b ! i0 ! i1);
     Some (r \<or> res, set_l2 i0 i1 w b)
   })"

definition tl_setUnion :: "nat \<Rightarrow> TwoLevel \<Rightarrow> TwoLevel \<Rightarrow> (bool \<times> TwoLevel) option" where
  "tl_setUnion k v b =
     foldM (\<lambda>i0. bv_foreach basic_ops (tl_union_body v i0) (lev1 v ! i0)) [0..<k] (False, b)"

definition tl_intersection_body :: "TwoLevel \<Rightarrow> nat \<Rightarrow> nat \<Rightarrow> bool \<times> TwoLevel \<Rightarrow> (bool \<times> TwoLevel) option" where
  "tl_intersection_body v i0 i1 = (\<lambda>(res, b). do {
     let (r, w) = basic_setIntersection (lev2 v ! i0 ! i1) (lev2 b ! i0 ! i1);
     let (res, b) = (r \<or> res, set_l2 i0 i1 w b);
     if basic_empty (lev2 b ! i0 ! i1)
     then do { (_, w) \<leftarrow> basic_clearBit i1 (lev1 b ! i0); Some (res, set_l1 i0 w b) }
     else Some (res, b)
   })"

definition tl_setIntersection :: "nat \<Rightarrow> TwoLevel \<Rightarrow> TwoLevel \<Rightarrow> (bool \<times> TwoLevel) option" where
  "tl_setIntersection k v b =
     foldM (\<lambda>i0 (res, b). do {
         let (r, w) = basic_setIntersection (lev1 v ! i0) (lev1 b ! i0);
         let (res, b) = (r \<or> res, set_l1 i0 w b);
         if \<not> basic_empty (lev1 b ! i0)
         then bv_foreach basic_ops (tl_intersection_body v i0) (lev1 b ! i0) (res, b)
         else Some (res, b)
       }) [0..<k] (False, b)"

definition tl_difference_body :: "TwoLevel \<Rightarrow> nat \<Rightarrow> nat \<Rightarrow> bool \<times> TwoLevel \<Rightarrow> (bool \<times> TwoLevel) option" where
  "tl_difference_body v i0 i1 = (\<lambda>(res, b). do {
     let (r, w) = basic_setDifference (lev2 v ! i0 ! i1) (lev2 b ! i0 ! i1);
     let (res, b) = (r \<or> res, set_l2 i0 i1 w b);
     if basic_empty (lev2 b ! i0 ! i1)
     then do { (_, w) \<leftarrow> basic_clearBit i1 (lev1 b ! i0); Some (res, set_l1 i0 w b) }
     else Some (res, b)
   })"

definition tl_setDifference :: "nat \<Rightarrow> TwoLevel \<Rightarrow> TwoLevel \<Rightarrow> (bool \<times> TwoLevel) option" where
  "tl_setDifference k v b =
     foldM (\<lambda>i0 (res, b). do {
         let t = snd (basic_setIntersection (lev1 v ! i0) (lev1 b ! i0));
         bv_foreach basic_ops (tl_difference_body v i0) t (res, b)
       }) [0..<k] (False, b)"

definition tl_copyFrom :: "nat \<Rightarrow> TwoLevel \<Rightarrow> TwoLevel \<Rightarrow> TwoLevel option" where
  "tl_copyFrom k v b = map_option snd (tl_setUnion k v (tl_clear b))"

text \<open>The early return is a flag that skips the rest of the loops.\<close>

definition tl_intersectsWith :: "nat \<Rightarrow> TwoLevel \<Rightarrow> TwoLevel \<Rightarrow> bool option" where
  "tl_intersectsWith k v b =
     foldM (\<lambda>i0 found.
         if found then Some True
         else let t = snd (basic_setIntersection (lev1 v ! i0) (lev1 b ! i0)) in
           bv_foreach basic_ops (\<lambda>i1 found.
             if found then Some True
             else do {
               present \<leftarrow> basic_getBit i1 (lev1 v ! i0);
               if \<not> present then Some False
               else Some (basic_intersectsWith (lev2 v ! i0 ! i1) (lev2 b ! i0 ! i1))
             }) t found) [0..<k] False"

record TL_Iterator =
  it_bv :: TwoLevel
  it_i0 :: nat
  it_i1 :: nat
  it_1 :: uptr
  it_2 :: uptr

definition tl_Iterator :: "TwoLevel \<Rightarrow> TL_Iterator" where
  "tl_Iterator b = \<lparr>it_bv = b, it_i0 = 0, it_i1 = 0, it_1 = 0, it_2 = 0\<rparr>"

definition tl_hasNext :: "nat \<Rightarrow> TL_Iterator \<Rightarrow> bool" where
  "tl_hasNext k it = (if basic_hasNext (it_1 it) then True
     else list_ex (\<lambda>i. \<not> basic_empty (lev1 (it_bv it) ! i)) [it_i0 it..<k])"

definition tl_seek :: "nat \<Rightarrow> TL_Iterator \<Rightarrow> TL_Iterator" where
  \<comment> \<open>the loop that advances \<^verbatim>\<open>i0_\<close> to a non-empty first-level vector\<close>
  "tl_seek k it =
     (case List.find (\<lambda>i. \<not> basic_empty (lev1 (it_bv it) ! i)) [it_i0 it..<k] of
        Some i \<Rightarrow> it\<lparr>it_i0 := i, it_1 := lev1 (it_bv it) ! i\<rparr>
      | None \<Rightarrow> it\<lparr>it_i0 := max (it_i0 it) k\<rparr>)"

definition tl_next :: "nat \<Rightarrow> TL_Iterator \<Rightarrow> (nat \<times> TL_Iterator) option" where
  "tl_next k it = do {
     let it = (if \<not> basic_hasNext (it_1 it) \<and> \<not> basic_hasNext (it_2 it) then tl_seek k it else it);
     it \<leftarrow> (if \<not> basic_hasNext (it_2 it) then do {
         CHECK (basic_hasNext (it_1 it));
         (i1, t1) \<leftarrow> basic_next (it_1 it);
         Some (it\<lparr>it_i1 := i1, it_1 := t1, it_2 := lev2 (it_bv it) ! it_i0 it ! i1\<rparr>)
       } else Some it);
     CHECK (basic_hasNext (it_2 it));
     (i2, t2) \<leftarrow> basic_next (it_2 it);
     let it = it\<lparr>it_2 := t2\<rparr>;
     let res = it_i0 it * basic_kSize * basic_kSize + it_i1 it * basic_kSize + i2;
     Some (res, if \<not> basic_hasNext (it_1 it) \<and> \<not> basic_hasNext (it_2 it)
                then it\<lparr>it_i0 := it_i0 it + 1\<rparr> else it)
   }"

definition tl_ops :: "nat \<Rightarrow> (TwoLevel, TL_Iterator) bv_ops" where
  "tl_ops k = \<lparr>bv_kSize = tl_kSize k, bv_clear = tl_clear, bv_setAll = tl_setAll,
     bv_empty = tl_empty, bv_setBit = tl_setBit k, bv_clearBit = tl_clearBit k,
     bv_getBit = tl_getBit k, bv_getAndClearFirstOne = tl_getAndClearFirstOne k,
     bv_setUnion = tl_setUnion k, bv_setIntersection = tl_setIntersection k,
     bv_setDifference = tl_setDifference k, bv_copyFrom = tl_copyFrom k,
     bv_intersectsWith = tl_intersectsWith k,
     bv_Iterator = tl_Iterator, bv_hasNext = tl_hasNext k, bv_next = tl_next k\<rparr>"

section \<open>Cells\<close>

text \<open>The second-level vector that counts: zero under a clear first-level bit.\<close>

definition cell :: "TwoLevel \<Rightarrow> nat \<Rightarrow> nat \<Rightarrow> uptr" where
  "cell b i0 i1 = (if i1 \<in> basic_els (lev1 b ! i0) then lev2 b ! i0 ! i1 else 0)"

definition tl_raw :: "nat \<Rightarrow> TwoLevel \<Rightarrow> bool" where
  "tl_raw k b \<longleftrightarrow> length (lev1 b) = k \<and> length (lev2 b) = k \<and> (\<forall>i0<k. length (lev2 b ! i0) = 64)"

definition tl_inv :: "nat \<Rightarrow> TwoLevel \<Rightarrow> bool" where
  "tl_inv k b \<longleftrightarrow> tl_raw k b \<and> (\<forall>i0<k. \<forall>i1. i1 \<in> basic_els (lev1 b ! i0) \<longrightarrow> lev2 b ! i0 ! i1 \<noteq> 0)"

definition tl_els :: "nat \<Rightarrow> TwoLevel \<Rightarrow> nat set" where
  "tl_els k b = {i. i < 4096 * k \<and> i mod 64 \<in> basic_els (cell b (i div 4096) (i div 64 mod 64))}"

lemma set_l_simps [simp]:
  "lev1 (set_l1 i0 w b) = (lev1 b)[i0 := w]" "lev2 (set_l1 i0 w b) = lev2 b"
  "lev1 (set_l2 i0 i1 w b) = lev1 b" "lev2 (set_l2 i0 i1 w b) = (lev2 b)[i0 := (lev2 b ! i0)[i1 := w]]"
  by (simp_all add: set_l1_def set_l2_def)

lemma set_l_swap: "set_l2 i0 i1 w (set_l1 j v b) = set_l1 j v (set_l2 i0 i1 w b)"
  by (simp add: set_l1_def set_l2_def)

lemma set_l1_twice: "set_l1 i v (set_l1 i w b) = set_l1 i v b"
  by (simp add: set_l1_def)

lemma set_l1_same: "lev1 b ! i = v \<Longrightarrow> set_l1 i v b = b"
  by (auto simp: set_l1_def)

lemma tl_raw_set [simp]:
  "tl_raw k b \<Longrightarrow> tl_raw k (set_l1 i0 w b)" "tl_raw k b \<Longrightarrow> tl_raw k (set_l2 i0 i1 w b)"
proof -
  assume r: "tl_raw k b"
  then show "tl_raw k (set_l1 i0 w b)" by (simp add: tl_raw_def)
  show "tl_raw k (set_l2 i0 i1 w b)"
    using r by (cases "i0 < k") (auto simp: tl_raw_def nth_list_update list_update_beyond)
qed

lemma l1_iff_cell: "tl_inv k b \<Longrightarrow> i0 < k \<Longrightarrow> i1 \<in> basic_els (lev1 b ! i0) \<longleftrightarrow> cell b i0 i1 \<noteq> 0"
  by (auto simp: tl_inv_def cell_def)

lemma split_index:
  fixes i0 i1 i2 :: nat
  assumes "i1 < 64" and "i2 < 64"
  shows "(i0 * 64 * 64 + i1 * 64 + i2) mod 64 = i2" and "(i0 * 64 * 64 + i1 * 64 + i2) div 64 mod 64 = i1"
    and "(i0 * 64 * 64 + i1 * 64 + i2) div 4096 = i0"
proof -
  have e: "i0 * 64 * 64 + i1 * 64 + i2 = i2 + (i1 + i0 * 64) * 64" by simp
  show "(i0 * 64 * 64 + i1 * 64 + i2) mod 64 = i2"
    unfolding e mod_mult_self1 using assms(2) by (rule mod_less)
  have d: "(i0 * 64 * 64 + i1 * 64 + i2) div 64 = i1 + i0 * 64"
    unfolding e using assms(2) by simp
  then show "(i0 * 64 * 64 + i1 * 64 + i2) div 64 mod 64 = i1" using assms(1) by simp
  have "(i0 * 64 * 64 + i1 * 64 + i2) div (64 * 64) = i0"
    unfolding div_mult2_eq d using assms(1) by simp
  then show "(i0 * 64 * 64 + i1 * 64 + i2) div 4096 = i0" by simp
qed

lemma tl_els_split:
  assumes "i0 < k" and "i1 < 64" and "i2 < 64"
  shows "i0 * 64 * 64 + i1 * 64 + i2 \<in> tl_els k b \<longleftrightarrow> i2 \<in> basic_els (cell b i0 i1)"
proof -
  have "i0 * 64 * 64 + i1 * 64 + i2 < 4096 * k" using assms by linarith
  then show ?thesis using split_index [OF assms(2,3), of i0] by (simp add: tl_els_def)
qed

lemma index_join: "i = (i div 4096) * 64 * 64 + (i div 64 mod 64) * 64 + i mod 64" for i :: nat
proof -
  have "i div 4096 = i div 64 div 64" by (simp add: div_mult2_eq [symmetric])
  then have d: "i div 64 = (i div 4096) * 64 + i div 64 mod 64" by simp
  have "i = (i div 64) * 64 + i mod 64" by simp
  also have "\<dots> = ((i div 4096) * 64 + i div 64 mod 64) * 64 + i mod 64" using d by simp
  finally show ?thesis by (simp add: algebra_simps)
qed

lemma index_bound: "i < 4096 * k \<Longrightarrow> i div 4096 < k" for i :: nat
  by (simp add: less_mult_imp_div_less mult.commute)

text \<open>The effect on the cells gives the effect on the set.\<close>

lemma cell_set_l2:
  assumes "tl_raw k b" and "j0 < k" and "j1 < 64"
  shows "cell (set_l2 j0 j1 w b) i0 i1 =
    (if i0 = j0 \<and> i1 = j1 then if j1 \<in> basic_els (lev1 b ! j0) then w else 0 else cell b i0 i1)"
  using assms by (auto simp: cell_def tl_raw_def nth_list_update)

lemma cell_set_l1:
  assumes "tl_raw k b" and "j0 < k"
  shows "cell (set_l1 j0 w b) i0 i1 =
    (if i0 = j0 then if i1 \<in> basic_els w then lev2 b ! j0 ! i1 else 0 else cell b i0 i1)"
  using assms by (auto simp: cell_def tl_raw_def nth_list_update)

section \<open>Single-bit operations\<close>

lemma index_eq_iff:
  fixes i j :: nat
  shows "i = j \<longleftrightarrow> i div 4096 = j div 4096 \<and> i div 64 mod 64 = j div 64 mod 64 \<and> i mod 64 = j mod 64"
  by (metis index_join)

lemma tl_index_run:
  assumes "i < 4096 * k"
  shows "CHECK (i < tl_kSize k) = Some ()" and "tl_idx0 k i = Some (i div 4096)"
    and "tl_idx1 i = Some (i div 64 mod 64)" and "tl_idx2 i = Some (i mod 64)"
  using assms index_bound [OF assms]
  by (simp_all add: tl_kSize_def basic_kSize_def tl_idx0_def tl_idx1_def tl_idx2_def)

lemma tl_els_update:
  assumes "i < 4096 * k"
    and "\<forall>j0<k. \<forall>j1<64. cell b' j0 j1 = (if j0 = i div 4096 \<and> j1 = i div 64 mod 64 then W else cell b j0 j1)"
  shows "basic_els W = insert (i mod 64) (basic_els (cell b (i div 4096) (i div 64 mod 64))) \<Longrightarrow> tl_els k b' = insert i (tl_els k b)"
    and "basic_els W = basic_els (cell b (i div 4096) (i div 64 mod 64)) - {i mod 64} \<Longrightarrow> tl_els k b' = tl_els k b - {i}"
proof -
  have m: "x \<in> tl_els k b' \<longleftrightarrow> x < 4096 * k \<and> x mod 64 \<in> basic_els
      (if x div 4096 = i div 4096 \<and> x div 64 mod 64 = i div 64 mod 64 then W else cell b (x div 4096) (x div 64 mod 64))" for x
    using assms(2) index_bound [of x k] by (auto simp: tl_els_def)
  have o: "x \<in> tl_els k b \<longleftrightarrow> x < 4096 * k \<and> x mod 64 \<in> basic_els (cell b (x div 4096) (x div 64 mod 64))" for x
    by (simp add: tl_els_def)
  show "tl_els k b' = insert i (tl_els k b)"
    if "basic_els W = insert (i mod 64) (basic_els (cell b (i div 4096) (i div 64 mod 64)))"
  proof (rule set_eqI)
    fix x
    show "x \<in> tl_els k b' \<longleftrightarrow> x \<in> insert i (tl_els k b)"
      using assms(1) that index_eq_iff [of x i] unfolding m insert_iff o by (cases "x = i") auto
  qed
  show "tl_els k b' = tl_els k b - {i}"
    if "basic_els W = basic_els (cell b (i div 4096) (i div 64 mod 64)) - {i mod 64}"
  proof (rule set_eqI)
    fix x
    show "x \<in> tl_els k b' \<longleftrightarrow> x \<in> tl_els k b - {i}"
      using that index_eq_iff [of x i] unfolding m Diff_iff singleton_iff o by (cases "x = i") auto
  qed
qed

lemma basic_els_less: "i \<in> basic_els w \<Longrightarrow> i < 64"
  using basic_els_bound by auto

lemma tl_invI:
  assumes "tl_raw k b" and "\<forall>i0<k. \<forall>i1. i1 \<in> basic_els (lev1 b ! i0) \<longrightarrow> lev2 b ! i0 ! i1 \<noteq> 0"
  shows "tl_inv k b"
  using assms by (simp add: tl_inv_def)

lemma or_bit_neq_0 [simp]: "i < 64 \<Longrightarrow> w OR 2 ^ i \<noteq> (0::uptr)"
  unfolding basic_els_empty_iff [symmetric] by simp

text \<open>Writing a second-level vector that is not empty and setting its first-level bit.\<close>

definition grow_cell :: "nat \<Rightarrow> nat \<Rightarrow> uptr \<Rightarrow> TwoLevel \<Rightarrow> TwoLevel" where
  "grow_cell i0 i1 w b = set_l2 i0 i1 w (set_l1 i0 (lev1 b ! i0 OR push_bit i1 1) b)"

lemma grow_cell_run:
  assumes inv: "tl_inv k b" and b: "i0 < k" "i1 < 64" and w: "w \<noteq> 0"
  shows "tl_inv k (grow_cell i0 i1 w b)"
    and "cell (grow_cell i0 i1 w b) j0 j1 = (if j0 = i0 \<and> j1 = i1 then w else cell b j0 j1)"
proof -
  have raw: "tl_raw k b" using inv by (simp add: tl_inv_def)
  show c: "cell (grow_cell i0 i1 w b) j0 j1 = (if j0 = i0 \<and> j1 = i1 then w else cell b j0 j1)" for j0 j1
    using raw b by (auto simp: grow_cell_def cell_def tl_raw_def nth_list_update)
  show "tl_inv k (grow_cell i0 i1 w b)"
  proof (intro tl_invI allI impI)
    show "tl_raw k (grow_cell i0 i1 w b)" using raw by (simp add: grow_cell_def)
    fix j0 j1 assume j: "j0 < k" "j1 \<in> basic_els (lev1 (grow_cell i0 i1 w b) ! j0)"
    then have "lev2 (grow_cell i0 i1 w b) ! j0 ! j1 = cell (grow_cell i0 i1 w b) j0 j1" by (simp add: cell_def)
    moreover have "j0 = i0 \<and> j1 = i1 \<or> j1 \<in> basic_els (lev1 b ! j0)"
      using j b raw by (auto simp: grow_cell_def tl_raw_def nth_list_update split: if_splits)
    ultimately show "lev2 (grow_cell i0 i1 w b) ! j0 ! j1 \<noteq> 0"
      using c w l1_iff_cell [OF inv j(1)] by auto
  qed
qed

lemma set_present: "i \<in> basic_els w \<Longrightarrow> w OR 2 ^ i = w"
  using basic_els_less [of i w] by (intro iffD1 [OF basic_els_eq_iff]) auto

lemma set_l2_twice: "set_l2 i0 i1 v (set_l2 i0 i1 w b) = set_l2 i0 i1 v b"
  by (cases "i0 < length (lev2 b)") (simp_all add: set_l2_def list_update_beyond)

lemma tl_setBit_run:
  assumes inv: "tl_inv k b" and i: "i < 4096 * k"
  shows "\<exists>b'. tl_setBit k i b = Some (i \<notin> tl_els k b, b') \<and> tl_inv k b' \<and> tl_els k b' = insert i (tl_els k b)"
proof -
  define i0 i1 i2 where "i0 = i div 4096" and "i1 = i div 64 mod 64" and "i2 = i mod 64"
  have b: "i0 < k" "i1 < 64" "i2 < 64" using index_bound [OF i] by (simp_all add: i0_def i1_def i2_def)
  have raw: "tl_raw k b" using inv by (simp add: tl_inv_def)
  have mem: "i \<in> tl_els k b \<longleftrightarrow> i2 \<in> basic_els (cell b i0 i1)" using i by (simp add: tl_els_def i0_def i1_def i2_def)
  let ?w = "cell b i0 i1 OR push_bit i2 1"
  have run: "tl_setBit k i b = Some (i2 \<notin> basic_els (cell b i0 i1), grow_cell i0 i1 ?w b)"
  proof (cases "i1 \<in> basic_els (lev1 b ! i0)")
    case True
    then show ?thesis
      unfolding tl_setBit_def tl_index_run [OF i] i0_def [symmetric] i1_def [symmetric] i2_def [symmetric]
      using b by (simp add: basic_getBit_run basic_setBit_run cell_def grow_cell_def set_present set_l1_same)
  next
    case False
    then show ?thesis
      unfolding tl_setBit_def tl_index_run [OF i] i0_def [symmetric] i1_def [symmetric] i2_def [symmetric]
      using b raw by (simp add: basic_getBit_run basic_setBit_run basic_clear_def cell_def grow_cell_def set_l2_twice tl_raw_def)
  qed
  have w: "?w \<noteq> 0" using b by simp
  have "tl_els k (grow_cell i0 i1 ?w b) = insert i (tl_els k b)"
    by (intro tl_els_update(1) [OF i, where W = ?w])
      (use b in \<open>simp_all add: grow_cell_run(2) [OF inv b(1,2) w, simplified] i0_def [symmetric] i1_def [symmetric] i2_def [symmetric]\<close>)
  then show ?thesis using run mem grow_cell_run(1) [OF inv b(1,2) w]
    by (intro exI [of _ "grow_cell i0 i1 ?w b"]) simp
qed

lemma tl_getBit_run:
  assumes "tl_inv k b" and i: "i < 4096 * k"
  shows "tl_getBit k i b = Some (i \<in> tl_els k b)"
  unfolding tl_getBit_def tl_index_run [OF i]
  using i by (auto simp: basic_getBit_run tl_els_def cell_def)

text \<open>Writing a second-level vector and dropping its first-level bit when it becomes empty.\<close>

definition shrink_cell :: "nat \<Rightarrow> nat \<Rightarrow> uptr \<Rightarrow> TwoLevel \<Rightarrow> TwoLevel" where
  "shrink_cell i0 i1 w b =
     (let b = set_l2 i0 i1 w b
      in if w = 0 then set_l1 i0 (lev1 b ! i0 AND NOT (push_bit i1 1)) b else b)"

lemma shrink_cell_run:
  assumes inv: "tl_inv k b" and b: "i0 < k" and l1: "i1 \<in> basic_els (lev1 b ! i0)"
  shows "tl_inv k (shrink_cell i0 i1 w b)"
    and "cell (shrink_cell i0 i1 w b) j0 j1 = (if j0 = i0 \<and> j1 = i1 then w else cell b j0 j1)"
    and "j0 < k \<Longrightarrow> basic_els (lev1 (shrink_cell i0 i1 w b) ! j0) =
      (if j0 = i0 \<and> w = 0 then basic_els (lev1 b ! j0) - {i1} else basic_els (lev1 b ! j0))"
proof -
  have raw: "tl_raw k b" using inv by (simp add: tl_inv_def)
  have i1: "i1 < 64" by (rule basic_els_less [OF l1])
  show c: "cell (shrink_cell i0 i1 w b) j0 j1 = (if j0 = i0 \<and> j1 = i1 then w else cell b j0 j1)" for j0 j1
    using raw b i1 l1 by (auto simp: shrink_cell_def Let_def cell_def tl_raw_def nth_list_update)
  show l: "basic_els (lev1 (shrink_cell i0 i1 w b) ! j0) =
      (if j0 = i0 \<and> w = 0 then basic_els (lev1 b ! j0) - {i1} else basic_els (lev1 b ! j0))" if "j0 < k" for j0
    using raw b i1 that by (auto simp: shrink_cell_def Let_def tl_raw_def nth_list_update)
  show "tl_inv k (shrink_cell i0 i1 w b)"
  proof (intro tl_invI allI impI)
    show "tl_raw k (shrink_cell i0 i1 w b)" using raw by (simp add: shrink_cell_def Let_def)
    fix j0 j1 assume j: "j0 < k" "j1 \<in> basic_els (lev1 (shrink_cell i0 i1 w b) ! j0)"
    then have "lev2 (shrink_cell i0 i1 w b) ! j0 ! j1 = cell (shrink_cell i0 i1 w b) j0 j1" by (simp add: cell_def)
    moreover have "j1 \<in> basic_els (lev1 b ! j0) \<and> \<not> (j0 = i0 \<and> j1 = i1 \<and> w = 0)"
      using j l [OF j(1)] by (auto split: if_splits)
    ultimately show "lev2 (shrink_cell i0 i1 w b) ! j0 ! j1 \<noteq> 0"
      using c l1_iff_cell [OF inv j(1)] by auto
  qed
qed

lemma tl_clearBit_run:
  assumes inv: "tl_inv k b" and i: "i < 4096 * k"
  shows "\<exists>b'. tl_clearBit k i b = Some (i \<in> tl_els k b, b') \<and> tl_inv k b' \<and> tl_els k b' = tl_els k b - {i}"
proof -
  define i0 i1 i2 where "i0 = i div 4096" and "i1 = i div 64 mod 64" and "i2 = i mod 64"
  have b: "i0 < k" "i1 < 64" "i2 < 64" using index_bound [OF i] by (simp_all add: i0_def i1_def i2_def)
  have raw: "tl_raw k b" using inv by (simp add: tl_inv_def)
  have mem: "i \<in> tl_els k b \<longleftrightarrow> i2 \<in> basic_els (cell b i0 i1)" using i by (simp add: tl_els_def i0_def i1_def i2_def)
  show ?thesis
  proof (cases "i1 \<in> basic_els (lev1 b ! i0)")
    case False
    then have "cell b i0 i1 = 0" by (simp add: cell_def)
    then have "i \<notin> tl_els k b" using mem by simp
    moreover have "tl_clearBit k i b = Some (False, b)"
      unfolding tl_clearBit_def tl_index_run [OF i] i0_def [symmetric] i1_def [symmetric] i2_def [symmetric]
      using False b by (simp add: basic_getBit_run)
    ultimately show ?thesis using inv by simp
  next
    case True
    define w where "w = cell b i0 i1 AND NOT (push_bit i2 1)"
    have c: "lev2 b ! i0 ! i1 = cell b i0 i1" using True by (simp add: cell_def)
    have "tl_clearBit k i b = Some (i2 \<in> basic_els (cell b i0 i1), shrink_cell i0 i1 w b)"
      unfolding tl_clearBit_def tl_index_run [OF i] i0_def [symmetric] i1_def [symmetric] i2_def [symmetric]
      using True b raw
      by (simp add: basic_getBit_run basic_clearBit_run c w_def basic_empty_def shrink_cell_def Let_def tl_raw_def)
    moreover have "tl_els k (shrink_cell i0 i1 w b) = tl_els k b - {i}"
      by (intro tl_els_update(2) [OF i, where W = w])
        (use b in \<open>simp_all add: shrink_cell_run(2) [OF inv b(1) True] i0_def [symmetric] i1_def [symmetric] i2_def [symmetric] w_def\<close>)
    ultimately show ?thesis using mem shrink_cell_run(1) [OF inv b(1) True]
      by (intro exI [of _ "shrink_cell i0 i1 w b"]) simp
  qed
qed

section \<open>The first set bit\<close>

lemma finite_basic_els [simp]: "finite (basic_els w)"
  using basic_els_bound finite_subset by blast

lemma basic_Min_in: "w \<noteq> 0 \<Longrightarrow> Min (basic_els w) \<in> basic_els w"
  by (simp add: Min_in)

lemma index_le:
  fixes i0 i1 i2 x0 x1 x2 :: nat
  assumes "i0 \<le> x0" and "x0 = i0 \<longrightarrow> i1 \<le> x1" and "x0 = i0 \<and> x1 = i1 \<longrightarrow> i2 \<le> x2" and "i1 < 64" and "i2 < 64"
  shows "i0 * 64 * 64 + i1 * 64 + i2 \<le> x0 * 64 * 64 + x1 * 64 + x2"
proof -
  consider "x0 = i0" "x1 = i1" | "x0 = i0" "i1 + 1 \<le> x1" | "i0 + 1 \<le> x0" using assms(1,2) by linarith
  then show ?thesis using assms(3-5) by cases auto
qed

lemma tl_els_bound: "tl_els k b \<subseteq> {..<4096 * k}"
  by (auto simp: tl_els_def)

lemma Min_tl_els:
  assumes inv: "tl_inv k b" and i0: "i0 < k" "lev1 b ! i0 \<noteq> 0" and before: "\<forall>j<i0. lev1 b ! j = 0"
  defines "i1 \<equiv> Min (basic_els (lev1 b ! i0))"
  defines "i2 \<equiv> Min (basic_els (cell b i0 i1))"
  shows "Min (tl_els k b) = i0 * 64 * 64 + i1 * 64 + i2" and "i1 \<in> basic_els (lev1 b ! i0)" and "cell b i0 i1 \<noteq> 0"
    and "i2 \<in> basic_els (cell b i0 i1)"
proof -
  show i1: "i1 \<in> basic_els (lev1 b ! i0)" unfolding i1_def by (rule basic_Min_in [OF i0(2)])
  then show c: "cell b i0 i1 \<noteq> 0" using l1_iff_cell [OF inv i0(1)] by simp
  then show i2: "i2 \<in> basic_els (cell b i0 i1)" unfolding i2_def by (rule basic_Min_in)
  have fin: "finite (tl_els k b)" by (rule finite_subset [of _ "{..<4096 * k}"]) (auto simp: tl_els_def)
  have "i0 * 64 * 64 + i1 * 64 + i2 \<in> tl_els k b"
    using i2 tl_els_split [OF i0(1) basic_els_less [OF i1] basic_els_less [OF i2]] by simp
  moreover have "i0 * 64 * 64 + i1 * 64 + i2 \<le> x" if x: "x \<in> tl_els k b" for x
  proof -
    define x0 x1 x2 where "x0 = x div 4096" and "x1 = x div 64 mod 64" and "x2 = x mod 64"
    have xs: "x = x0 * 64 * 64 + x1 * 64 + x2" unfolding x0_def x1_def x2_def by (rule index_join)
    have xc: "x2 \<in> basic_els (cell b x0 x1)" and "x < 4096 * k" using x by (simp_all add: tl_els_def x0_def x1_def x2_def)
    then have x0: "x0 < k" by (simp add: x0_def index_bound)
    have x1: "x1 \<in> basic_els (lev1 b ! x0)" using xc by (auto simp: cell_def split: if_splits)
    then have "i0 \<le> x0" using before by (metis basic_els_simps(1) empty_iff not_le)
    moreover have "i1 \<le> x1" if "x0 = i0" using x1 that by (simp add: i1_def)
    moreover have "i2 \<le> x2" if "x0 = i0" "x1 = i1" using xc that by (simp add: i2_def)
    ultimately show ?thesis
      using basic_els_less [OF i1] basic_els_less [OF i2] unfolding xs by (intro index_le) auto
  qed
  ultimately show "Min (tl_els k b) = i0 * 64 * 64 + i1 * 64 + i2" using fin by (intro Min_eqI) auto
qed

lemma clear_then_set: "i \<in> basic_els w \<Longrightarrow> (w AND NOT (2 ^ i)) OR 2 ^ i = w"
  using basic_els_less [of i w] by (intro iffD1 [OF basic_els_eq_iff]) auto

lemma tl_els_ne_iff:
  assumes "tl_inv k b"
  shows "tl_els k b \<noteq> {} \<longleftrightarrow> (\<exists>i0<k. lev1 b ! i0 \<noteq> 0)"
proof
  assume "tl_els k b \<noteq> {}"
  then obtain x where "x < 4096 * k" "x mod 64 \<in> basic_els (cell b (x div 4096) (x div 64 mod 64))"
    by (auto simp: tl_els_def)
  then have "x div 4096 < k" "x div 64 mod 64 \<in> basic_els (lev1 b ! (x div 4096))"
    using index_bound by (auto simp: cell_def split: if_splits)
  then show "\<exists>i0<k. lev1 b ! i0 \<noteq> 0" by auto
next
  assume "\<exists>i0<k. lev1 b ! i0 \<noteq> 0"
  then obtain i0 where i0: "i0 < k" "lev1 b ! i0 \<noteq> 0" by blast
  obtain i1 where i1: "i1 \<in> basic_els (lev1 b ! i0)" using basic_Min_in [OF i0(2)] by blast
  then have "cell b i0 i1 \<noteq> 0" using l1_iff_cell [OF assms i0(1)] by simp
  then obtain i2 where i2: "i2 \<in> basic_els (cell b i0 i1)" using basic_Min_in by blast
  then show "tl_els k b \<noteq> {}"
    using tl_els_split [OF i0(1) basic_els_less [OF i1] basic_els_less [OF i2]] by blast
qed

lemma tl_first_from_run:
  assumes inv: "tl_inv k b" and "i0 \<le> k" and before: "\<forall>j<i0. lev1 b ! j = 0" and ne: "tl_els k b \<noteq> {}"
  shows "\<exists>b'. tl_first_from k i0 b = Some (Min (tl_els k b), b') \<and> tl_inv k b' \<and> tl_els k b' = tl_els k b - {Min (tl_els k b)}"
  using assms(2-4)
proof (induction "k - i0" arbitrary: i0)
  case 0
  then show ?case using tl_els_ne_iff [OF inv] by auto
next
  case (Suc n)
  have i0: "i0 < k" using Suc(2) by simp
  show ?case
  proof (cases "lev1 b ! i0 = 0")
    case True
    then have "tl_first_from k i0 b = tl_first_from k (Suc i0) b"
      using i0 by (subst tl_first_from.simps) (simp add: basic_empty_def)
    moreover have "\<forall>j<Suc i0. lev1 b ! j = 0" using Suc(4) True by (auto simp: less_Suc_eq)
    ultimately show ?thesis using Suc(1) [of "Suc i0"] Suc(2,5) i0 by simp
  next
    case False
    let ?i1 = "Min (basic_els (lev1 b ! i0))"
    let ?i2 = "Min (basic_els (cell b i0 ?i1))"
    note M = Min_tl_els [OF inv i0 False Suc(4)]
    have raw: "tl_raw k b" using inv by (simp add: tl_inv_def)
    have c: "lev2 b ! i0 ! ?i1 = cell b i0 ?i1" using M(2) by (simp add: cell_def)
    have l: "?i1 < 64" "?i2 < 64" using M basic_els_less by blast+
    obtain w1 where w1: "basic_getAndClearFirstOne (lev1 b ! i0) = Some (?i1, w1)"
      "basic_els w1 = basic_els (lev1 b ! i0) - {?i1}" using basic_first_run [OF False] by blast
    obtain w2 where w2: "basic_getAndClearFirstOne (cell b i0 ?i1) = Some (?i2, w2)"
      "basic_els w2 = basic_els (cell b i0 ?i1) - {?i2}" using basic_first_run [OF M(3)] by blast
    have e1: "w1 = lev1 b ! i0 AND NOT (push_bit ?i1 1)"
      by (rule iffD1 [OF basic_els_eq_iff]) (simp add: w1(2) l)
    have e2: "w2 = cell b i0 ?i1 AND NOT (push_bit ?i2 1)"
      by (rule iffD1 [OF basic_els_eq_iff]) (simp add: w2(2) l)
    have "tl_first_from k i0 b = Some (i0 * 64 * 64 + ?i1 * 64 + ?i2, shrink_cell i0 ?i1 w2 b)"
      using i0 False w1(1) w2(1) c raw l M(2) clear_then_set [OF M(2)]
      by (subst tl_first_from.simps)
        (simp add: basic_empty_def Let_def tl_raw_def basic_setBit_run shrink_cell_def e1 set_l_swap
          set_l1_twice basic_kSize_def set_l1_same)
    moreover have "tl_els k (shrink_cell i0 ?i1 w2 b) = tl_els k b - {Min (tl_els k b)}"
    proof (rule tl_els_update(2) [where W = w2])
      note ix = split_index [OF l, of i0, folded M(1)]
      have "Min (tl_els k b) \<in> tl_els k b" unfolding M(1) using M(4) tl_els_split [OF i0 l] by simp
      then show "Min (tl_els k b) < 4096 * k" using tl_els_bound by blast
      show "\<forall>j0<k. \<forall>j1<64. cell (shrink_cell i0 ?i1 w2 b) j0 j1 =
          (if j0 = Min (tl_els k b) div 4096 \<and> j1 = Min (tl_els k b) div 64 mod 64 then w2 else cell b j0 j1)"
        using shrink_cell_run(2) [OF inv i0 M(2)] by (simp add: ix)
      show "basic_els w2 = basic_els (cell b (Min (tl_els k b) div 4096) (Min (tl_els k b) div 64 mod 64)) - {Min (tl_els k b) mod 64}"
        using w2(2) by (simp add: ix)
    qed
    ultimately show ?thesis using shrink_cell_run(1) [OF inv i0 M(2)] M(1)
      by (intro exI [of _ "shrink_cell i0 ?i1 w2 b"]) simp
  qed
qed

section \<open>Set operations\<close>

lemma tl_els_mem:
  "x \<in> tl_els k b \<longleftrightarrow> x div 4096 < k \<and> x mod 64 \<in> basic_els (cell b (x div 4096) (x div 64 mod 64))"
proof -
  have "x < 4096 * k" if "x div 4096 < k"
    using that by (metis div_less_iff_less_mult mult.commute zero_less_numeral)
  then show ?thesis using index_bound by (auto simp: tl_els_def)
qed

lemma tl_els_subset_iff:
  "tl_els k v \<subseteq> tl_els k b \<longleftrightarrow> (\<forall>i0<k. \<forall>i1<64. basic_els (cell v i0 i1) \<subseteq> basic_els (cell b i0 i1))"
proof
  assume s: "tl_els k v \<subseteq> tl_els k b"
  show "\<forall>i0<k. \<forall>i1<64. basic_els (cell v i0 i1) \<subseteq> basic_els (cell b i0 i1)"
  proof (intro allI impI subsetI)
    fix i0 i1 i2 :: nat assume i: "i0 < k" "i1 < 64" "i2 \<in> basic_els (cell v i0 i1)"
    note i2 = basic_els_less [OF i(3)]
    show "i2 \<in> basic_els (cell b i0 i1)"
      using s i(3) tl_els_split [OF i(1,2) i2, of v] tl_els_split [OF i(1,2) i2, of b] by blast
  qed
next
  assume c: "\<forall>i0<k. \<forall>i1<64. basic_els (cell v i0 i1) \<subseteq> basic_els (cell b i0 i1)"
  show "tl_els k v \<subseteq> tl_els k b"
  proof
    fix x assume "x \<in> tl_els k v"
    then show "x \<in> tl_els k b" using c [rule_format, of "x div 4096" "x div 64 mod 64"] unfolding tl_els_mem by auto
  qed
qed

lemma tl_els_disjoint_iff:
  "tl_els k b \<inter> tl_els k v = {} \<longleftrightarrow> (\<forall>i0<k. \<forall>i1<64. basic_els (cell b i0 i1) \<inter> basic_els (cell v i0 i1) = {})"
proof
  assume s: "tl_els k b \<inter> tl_els k v = {}"
  show "\<forall>i0<k. \<forall>i1<64. basic_els (cell b i0 i1) \<inter> basic_els (cell v i0 i1) = {}"
  proof (intro allI impI equals0I)
    fix i0 i1 i2 :: nat assume i: "i0 < k" "i1 < 64" "i2 \<in> basic_els (cell b i0 i1) \<inter> basic_els (cell v i0 i1)"
    then have i2: "i2 < 64" using basic_els_less by blast
    show False using s i(3) tl_els_split [OF i(1,2) i2, of v] tl_els_split [OF i(1,2) i2, of b] by blast
  qed
next
  assume c: "\<forall>i0<k. \<forall>i1<64. basic_els (cell b i0 i1) \<inter> basic_els (cell v i0 i1) = {}"
  show "tl_els k b \<inter> tl_els k v = {}"
  proof (rule equals0I)
    fix x assume "x \<in> tl_els k b \<inter> tl_els k v"
    then show False using c [rule_format, of "x div 4096" "x div 64 mod 64"] unfolding Int_iff tl_els_mem by auto
  qed
qed

text \<open>The state of a row-wise loop: the cells treated so far have been updated.\<close>

definition rows_done ::
  "nat \<Rightarrow> (uptr \<Rightarrow> uptr \<Rightarrow> uptr) \<Rightarrow> TwoLevel \<Rightarrow> TwoLevel \<Rightarrow> (nat \<times> nat) set \<Rightarrow> TwoLevel \<Rightarrow> bool" where
  "rows_done k g v b0 D b \<longleftrightarrow> tl_inv k b \<and>
     (\<forall>j0 j1. cell b j0 j1 = (if (j0, j1) \<in> D then g (cell b0 j0 j1) (cell v j0 j1) else cell b0 j0 j1))"

lemma row_loop:
  assumes i0: "i0 < k" and done0: "rows_done k g v b0 D0 b1" and D0: "\<forall>j1\<in>basic_els t. (i0, j1) \<notin> D0"
    and skip: "\<forall>j1. j1 \<notin> basic_els t \<longrightarrow> (i0, j1) \<in> D0 \<or> g (cell b0 i0 j1) (cell v i0 j1) = cell b0 i0 j1"
    and step: "\<forall>i1 D b res. i1 \<in> basic_els t \<longrightarrow> (i0, i1) \<notin> D \<longrightarrow> rows_done k g v b0 D b \<longrightarrow>
      (\<exists>b'. f i1 (res, b) = Some (r i0 i1 \<or> res, b') \<and> rows_done k g v b0 (insert (i0, i1) D) b')"
  shows "\<exists>b'. bv_foreach basic_ops f t (res, b1) = Some ((\<exists>j1\<in>basic_els t. r i0 j1) \<or> res, b') \<and>
    rows_done k g v b0 (D0 \<union> {i0} \<times> UNIV) b'"
proof -
  define I where "I E s \<longleftrightarrow> rows_done k g v b0 (D0 \<union> {i0} \<times> E) (snd s) \<and> (fst s \<longleftrightarrow> (\<exists>j1\<in>E. r i0 j1) \<or> res)"
    for E :: "nat set" and s :: "bool \<times> TwoLevel"
  have "\<exists>s'. foldM f (sorted_list_of_set (basic_els t)) (res, b1) = Some s' \<and> I (set (sorted_list_of_set (basic_els t))) s'"
  proof (rule foldM_rule)
    show "I {} (res, b1)" using done0 by (simp add: I_def)
    show "\<forall>x D s. x \<in> set (sorted_list_of_set (basic_els t)) \<longrightarrow> x \<notin> D \<longrightarrow> D \<subseteq> set (sorted_list_of_set (basic_els t)) \<longrightarrow>
        I D s \<longrightarrow> (\<exists>s'. f x s = Some s' \<and> I (insert x D) s')"
    proof (intro allI impI)
      fix x D and s :: "bool \<times> TwoLevel"
      assume x: "x \<in> set (sorted_list_of_set (basic_els t))" "x \<notin> D" and I: "I D s"
      then have "(i0, x) \<notin> D0 \<union> {i0} \<times> D" "rows_done k g v b0 (D0 \<union> {i0} \<times> D) (snd s)"
        using D0 by (auto simp: I_def)
      then obtain b' where b': "f x (fst s, snd s) = Some (r i0 x \<or> fst s, b')"
        "rows_done k g v b0 (insert (i0, x) (D0 \<union> {i0} \<times> D)) b'"
        using step [rule_format, of x "D0 \<union> {i0} \<times> D" "snd s" "fst s"] x(1) by auto
      have "insert (i0, x) (D0 \<union> {i0} \<times> D) = D0 \<union> {i0} \<times> insert x D" by auto
      then have "I (insert x D) (r i0 x \<or> fst s, b')" using b'(2) I by (auto simp: I_def)
      then show "\<exists>s'. f x s = Some s' \<and> I (insert x D) s'" using b'(1) by simp
    qed
  qed simp
  then obtain s' where s': "bv_foreach basic_ops f t (res, b1) = Some s'" "I (basic_els t) s'"
    using basic.foreach_fold [where t = t and f = f and s = "(res, b1)"] by auto
  have rd: "rows_done k g v b0 (D0 \<union> {i0} \<times> basic_els t) (snd s')" and f: "fst s' \<longleftrightarrow> (\<exists>j1\<in>basic_els t. r i0 j1) \<or> res"
    using s'(2) by (simp_all add: I_def)
  have "rows_done k g v b0 (D0 \<union> {i0} \<times> UNIV) (snd s')"
    unfolding rows_done_def
  proof (intro conjI allI)
    show "tl_inv k (snd s')" using rd by (simp add: rows_done_def)
    fix j0 j1
    have "cell (snd s') j0 j1 = (if (j0, j1) \<in> D0 \<union> {i0} \<times> basic_els t
        then g (cell b0 j0 j1) (cell v j0 j1) else cell b0 j0 j1)" using rd unfolding rows_done_def by blast
    then show "cell (snd s') j0 j1 = (if (j0, j1) \<in> D0 \<union> {i0} \<times> UNIV
        then g (cell b0 j0 j1) (cell v j0 j1) else cell b0 j0 j1)"
      using skip [rule_format, of j1] by (cases "j0 = i0"; cases "j1 \<in> basic_els t") auto
  qed
  then show ?thesis using s'(1) f by (intro exI [of _ "snd s'"]) (simp add: prod_eq_iff)
qed

text \<open>All rows.\<close>

lemma all_rows:
  assumes inv: "tl_inv k b0"
    and step: "\<forall>i0 D b res. i0 < k \<longrightarrow> (\<forall>j1. (i0, j1) \<notin> D) \<longrightarrow> rows_done k g v b0 D b \<longrightarrow>
      (\<exists>b'. F i0 (res, b) = Some ((\<exists>j1. r i0 j1) \<or> res, b') \<and> rows_done k g v b0 (D \<union> {i0} \<times> UNIV) b')"
  shows "\<exists>b'. foldM F [0..<k] (False, b0) = Some (\<exists>i0<k. \<exists>j1. r i0 j1, b') \<and> tl_inv k b' \<and>
    (\<forall>i0<k. \<forall>i1. cell b' i0 i1 = g (cell b0 i0 i1) (cell v i0 i1))"
proof -
  define I where "I E s \<longleftrightarrow> rows_done k g v b0 (E \<times> UNIV) (snd s) \<and> (fst s \<longleftrightarrow> (\<exists>i0\<in>E. \<exists>j1. r i0 j1))"
    for E :: "nat set" and s :: "bool \<times> TwoLevel"
  have "\<exists>s'. foldM F [0..<k] (False, b0) = Some s' \<and> I (set [0..<k]) s'"
  proof (rule foldM_rule)
    show "I {} (False, b0)" using inv by (simp add: I_def rows_done_def)
    show "\<forall>x D s. x \<in> set [0..<k] \<longrightarrow> x \<notin> D \<longrightarrow> D \<subseteq> set [0..<k] \<longrightarrow> I D s \<longrightarrow>
        (\<exists>s'. F x s = Some s' \<and> I (insert x D) s')"
    proof (intro allI impI)
      fix x D and s :: "bool \<times> TwoLevel"
      assume x: "x \<in> set [0..<k]" "x \<notin> D" and I: "I D s"
      obtain b' where b': "F x (fst s, snd s) = Some ((\<exists>j1. r x j1) \<or> fst s, b')"
        "rows_done k g v b0 (D \<times> UNIV \<union> {x} \<times> UNIV) b'"
        using step [rule_format, of x "D \<times> UNIV" "snd s" "fst s"] x I by (auto simp: I_def)
      have "D \<times> UNIV \<union> {x} \<times> UNIV = insert x D \<times> (UNIV :: nat set)" by auto
      then have "I (insert x D) ((\<exists>j1. r x j1) \<or> fst s, b')" using b'(2) I by (auto simp: I_def)
      then show "\<exists>s'. F x s = Some s' \<and> I (insert x D) s'" using b'(1) by simp
    qed
  qed simp
  then obtain s' where s': "foldM F [0..<k] (False, b0) = Some s'" "I {0..<k} s'" by auto
  have "fst s' \<longleftrightarrow> (\<exists>i0<k. \<exists>j1. r i0 j1)" using s'(2) by (auto simp: I_def)
  moreover have "tl_inv k (snd s')" "\<forall>i0<k. \<forall>i1. cell (snd s') i0 i1 = g (cell b0 i0 i1) (cell v i0 i1)"
    using s'(2) by (auto simp: I_def rows_done_def)
  ultimately show ?thesis using s'(1) by (intro exI [of _ "snd s'"]) (simp add: prod_eq_iff)
qed

lemma cell_beyond [simp]: "64 \<le> i1 \<Longrightarrow> cell b i0 i1 = 0"
  using basic_els_less [of i1] by (auto simp: cell_def)

lemma rows_done_update:
  assumes "rows_done k g v b0 D b" and "(i0, i1) \<notin> D" and "tl_inv k b'"
    and "\<forall>j0 j1. cell b' j0 j1 = (if j0 = i0 \<and> j1 = i1 then g (cell b i0 i1) (cell v i0 i1) else cell b j0 j1)"
  shows "rows_done k g v b0 (insert (i0, i1) D) b'"
  using assms by (auto simp: rows_done_def)

lemma basic_els_nonzero: "x \<in> basic_els w \<Longrightarrow> w \<noteq> 0"
  by auto

lemma rows_done_cell: "rows_done k g v b0 D b \<Longrightarrow> (i0, i1) \<notin> D \<Longrightarrow> cell b i0 i1 = cell b0 i0 i1"
  by (simp add: rows_done_def)

lemma tl_union_body_run:
  assumes inv: "tl_inv k b" "tl_inv k v" and i0: "i0 < k" and i1: "i1 \<in> basic_els (lev1 v ! i0)"
  shows "tl_union_body v i0 i1 (res, b) =
    Some (\<not> basic_els (cell v i0 i1) \<subseteq> basic_els (cell b i0 i1) \<or> res, grow_cell i0 i1 (cell b i0 i1 OR cell v i0 i1) b)"
proof -
  have raw: "tl_raw k b" using inv(1) by (simp add: tl_inv_def)
  have l: "i1 < 64" by (rule basic_els_less [OF i1])
  have v: "lev2 v ! i0 ! i1 = cell v i0 i1" using i1 by (simp add: cell_def)
  show ?thesis
  proof (cases "i1 \<in> basic_els (lev1 b ! i0)")
    case True
    then show ?thesis using l
      by (simp add: tl_union_body_def basic_setBit_run basic_binary_run v cell_def grow_cell_def Let_def)
  next
    case False
    then show ?thesis using l raw i0
      by (simp add: tl_union_body_def basic_setBit_run basic_binary_run v cell_def [of b] grow_cell_def Let_def
          basic_clear_def set_l2_twice tl_raw_def)
  qed
qed

lemma tl_setUnion_run:
  assumes inv: "tl_inv k b" "tl_inv k v"
  shows "\<exists>b'. tl_setUnion k v b = Some (\<not> tl_els k v \<subseteq> tl_els k b, b') \<and> tl_inv k b' \<and> tl_els k b' = tl_els k b \<union> tl_els k v"
proof -
  define r where "r i0 i1 \<longleftrightarrow> \<not> basic_els (cell v i0 i1) \<subseteq> basic_els (cell b i0 i1)" for i0 i1
  have "\<exists>b'. tl_setUnion k v b = Some (\<exists>i0<k. \<exists>j1. r i0 j1, b') \<and> tl_inv k b' \<and>
    (\<forall>i0<k. \<forall>i1. cell b' i0 i1 = cell b i0 i1 OR cell v i0 i1)"
    unfolding tl_setUnion_def
  proof (rule all_rows [OF inv(1)], intro allI impI)
    fix i0 D b1 res
    assume i0: "i0 < k" and D: "\<forall>j1. (i0, j1) \<notin> D" and rd: "rows_done k (OR) v b D b1"
    have v0: "cell v i0 j1 = 0" if "j1 \<notin> basic_els (lev1 v ! i0)" for j1 using that by (simp add: cell_def)
    have flag: "(\<exists>j1. r i0 j1) \<longleftrightarrow> (\<exists>j1\<in>basic_els (lev1 v ! i0). r i0 j1)"
      using v0 by (force simp: r_def)
    show "\<exists>b'. bv_foreach basic_ops (tl_union_body v i0) (lev1 v ! i0) (res, b1) =
        Some ((\<exists>j1. r i0 j1) \<or> res, b') \<and> rows_done k (OR) v b (D \<union> {i0} \<times> UNIV) b'"
      unfolding flag
    proof (rule row_loop [OF i0 rd]; intro allI impI ballI)
      show "(i0, j1) \<notin> D" for j1 using D by blast
      show "(i0, j1) \<in> D \<or> cell b i0 j1 OR cell v i0 j1 = cell b i0 j1" if "j1 \<notin> basic_els (lev1 v ! i0)" for j1
        using v0 [OF that] by simp
    next
      fix i1 D b1 res
      assume i1: "i1 \<in> basic_els (lev1 v ! i0)" "(i0, i1) \<notin> D" and rd: "rows_done k (OR) v b D b1"
      have inv1: "tl_inv k b1" using rd by (simp add: rows_done_def)
      let ?w = "cell b1 i0 i1 OR cell v i0 i1"
      have "cell v i0 i1 \<noteq> 0" using i1(1) l1_iff_cell [OF inv(2) i0] by simp
      then have w: "?w \<noteq> 0" unfolding basic_els_empty_iff [symmetric] by simp
      note g = grow_cell_run [OF inv1 i0 basic_els_less [OF i1(1)] w]
      have "rows_done k (OR) v b (insert (i0, i1) D) (grow_cell i0 i1 ?w b1)"
        by (rule rows_done_update [OF rd i1(2) g(1)]) (simp add: g(2))
      then show "\<exists>b'. tl_union_body v i0 i1 (res, b1) = Some (r i0 i1 \<or> res, b') \<and>
          rows_done k (OR) v b (insert (i0, i1) D) b'"
        using tl_union_body_run [OF inv1 inv(2) i0 i1(1)] rows_done_cell [OF rd i1(2)] by (simp add: r_def)
    qed
  qed
  then obtain b' where b': "tl_setUnion k v b = Some (\<exists>i0<k. \<exists>j1. r i0 j1, b')" "tl_inv k b'"
    "\<forall>i0<k. \<forall>i1. cell b' i0 i1 = cell b i0 i1 OR cell v i0 i1" by blast
  have "(\<exists>i0<k. \<exists>j1. r i0 j1) = (\<not> tl_els k v \<subseteq> tl_els k b)"
    unfolding tl_els_subset_iff r_def by (metis cell_beyond basic_els_simps(1) empty_subsetI linorder_not_less)
  moreover have "tl_els k b' = tl_els k b \<union> tl_els k v"
    using b'(3) by (intro set_eqI) (auto simp: tl_els_mem)
  ultimately show ?thesis using b'(1,2) by simp
qed

lemma tl_setDifference_run:
  assumes inv: "tl_inv k b" "tl_inv k v"
  shows "\<exists>b'. tl_setDifference k v b = Some (tl_els k b \<inter> tl_els k v \<noteq> {}, b') \<and> tl_inv k b' \<and> tl_els k b' = tl_els k b - tl_els k v"
proof -
  define r where "r i0 i1 \<longleftrightarrow> basic_els (cell b i0 i1) \<inter> basic_els (cell v i0 i1) \<noteq> {}" for i0 i1
  let ?g = "\<lambda>x y :: uptr. x AND NOT y"
  have "\<exists>b'. tl_setDifference k v b = Some (\<exists>i0<k. \<exists>j1. r i0 j1, b') \<and> tl_inv k b' \<and>
    (\<forall>i0<k. \<forall>i1. cell b' i0 i1 = ?g (cell b i0 i1) (cell v i0 i1))"
    unfolding tl_setDifference_def
  proof (rule all_rows [OF inv(1)], intro allI impI)
    fix i0 D b1 res
    assume i0: "i0 < k" and D: "\<forall>j1. (i0, j1) \<notin> D" and rd: "rows_done k ?g v b D b1"
    let ?t = "lev1 b1 ! i0 AND lev1 v ! i0"
    have l1: "j1 \<in> basic_els (lev1 b1 ! i0) \<longleftrightarrow> cell b i0 j1 \<noteq> 0" for j1
      using rd D l1_iff_cell [of k b1 i0 j1] i0 rows_done_cell [OF rd] by (auto simp: rows_done_def)
    have l1v: "j1 \<in> basic_els (lev1 v ! i0) \<longleftrightarrow> cell v i0 j1 \<noteq> 0" for j1 by (rule l1_iff_cell [OF inv(2) i0])
    have flag: "(\<exists>j1. r i0 j1) \<longleftrightarrow> (\<exists>j1\<in>basic_els ?t. r i0 j1)" 
    proof -
      have "cell b i0 j1 \<noteq> 0 \<and> cell v i0 j1 \<noteq> 0" if "r i0 j1" for j1
        using that basic_els_nonzero unfolding r_def by blast
      then show ?thesis by (auto simp: l1 l1v)
    qed
    have "\<exists>b'. bv_foreach basic_ops (tl_difference_body v i0) ?t (res, b1) =
        Some ((\<exists>j1\<in>basic_els ?t. r i0 j1) \<or> res, b') \<and> rows_done k ?g v b (D \<union> {i0} \<times> UNIV) b'"
    proof (rule row_loop [OF i0 rd]; intro allI impI ballI)
      show "(i0, j1) \<notin> D" for j1 using D by blast
      show "(i0, j1) \<in> D \<or> ?g (cell b i0 j1) (cell v i0 j1) = cell b i0 j1" if "j1 \<notin> basic_els ?t" for j1
        using that by (auto simp: l1 l1v)
      fix i1 D b1' res
      assume i1: "i1 \<in> basic_els ?t" "(i0, i1) \<notin> D" and rd': "rows_done k ?g v b D b1'"
      have inv1: "tl_inv k b1'" and raw: "tl_raw k b1'" using rd' by (auto simp: rows_done_def tl_inv_def)
      have c: "cell b1' i0 i1 = cell b i0 i1" by (rule rows_done_cell [OF rd' i1(2)])
      have p: "i1 \<in> basic_els (lev1 b1' ! i0)" using i1(1) c l1 l1_iff_cell [OF inv1 i0] by auto
      have e: "lev2 b1' ! i0 ! i1 = cell b i0 i1" "lev2 v ! i0 ! i1 = cell v i0 i1"
        using p i1(1) c by (auto simp: cell_def)
      note g = shrink_cell_run [OF inv1 i0 p]
      have "tl_difference_body v i0 i1 (res, b1') =
          Some (r i0 i1 \<or> res, shrink_cell i0 i1 (?g (cell b i0 i1) (cell v i0 i1)) b1')"
        unfolding tl_difference_body_def
        using raw i0 basic_els_less [OF p]
        by (simp add: basic_binary_run e r_def Let_def basic_empty_def tl_raw_def basic_clearBit_run shrink_cell_def)
      moreover have "rows_done k ?g v b (insert (i0, i1) D) (shrink_cell i0 i1 (?g (cell b i0 i1) (cell v i0 i1)) b1')"
        by (rule rows_done_update [OF rd' i1(2) g(1)]) (simp add: g(2) c)
      ultimately show "\<exists>b'. tl_difference_body v i0 i1 (res, b1') = Some (r i0 i1 \<or> res, b') \<and>
          rows_done k ?g v b (insert (i0, i1) D) b'" by simp
    qed
    then show "\<exists>b'. (case (res, b1) of (res, b) \<Rightarrow> do {
         let t = snd (basic_setIntersection (lev1 v ! i0) (lev1 b ! i0));
         bv_foreach basic_ops (tl_difference_body v i0) t (res, b) }) =
        Some ((\<exists>j1. r i0 j1) \<or> res, b') \<and> rows_done k ?g v b (D \<union> {i0} \<times> UNIV) b'"
      unfolding flag by (simp add: basic_binary_run)
  qed
  then obtain b' where b': "tl_setDifference k v b = Some (\<exists>i0<k. \<exists>j1. r i0 j1, b')" "tl_inv k b'"
    "\<forall>i0<k. \<forall>i1. cell b' i0 i1 = ?g (cell b i0 i1) (cell v i0 i1)" by blast
  have "(\<exists>i0<k. \<exists>j1. r i0 j1) = (tl_els k b \<inter> tl_els k v \<noteq> {})"
    unfolding tl_els_disjoint_iff r_def by (metis cell_beyond basic_els_simps(1) Int_empty_right linorder_not_less)
  moreover have "tl_els k b' = tl_els k b - tl_els k v"
    using b'(3) by (intro set_eqI) (auto simp: tl_els_mem)
  ultimately show ?thesis using b'(1,2) by simp
qed

text \<open>Dropping the first-level bits that \<open>v\<close> does not have.\<close>

lemma restrict_row:
  assumes rd: "rows_done k (AND) v b0 D b" and i0: "i0 < k" and D: "\<forall>j1. (i0, j1) \<notin> D"
  shows "rows_done k (AND) v b0 (D \<union> {i0} \<times> - basic_els (lev1 v ! i0)) (set_l1 i0 (lev1 b ! i0 AND lev1 v ! i0) b)"
proof -
  have inv: "tl_inv k b" and raw: "tl_raw k b" using rd by (auto simp: rows_done_def tl_inv_def)
  let ?b = "set_l1 i0 (lev1 b ! i0 AND lev1 v ! i0) b"
  have "tl_inv k ?b"
    using inv i0 by (auto simp: tl_inv_def tl_raw_def nth_list_update)
  moreover have "cell ?b j0 j1 = (if j0 = i0 \<and> j1 \<notin> basic_els (lev1 v ! i0) then 0 else cell b j0 j1)" for j0 j1
    using raw i0 by (auto simp: cell_def tl_raw_def nth_list_update)
  moreover have "cell v i0 j1 = 0" if "j1 \<notin> basic_els (lev1 v ! i0)" for j1 using that by (simp add: cell_def)
  ultimately show ?thesis using rd D by (auto simp: rows_done_def)
qed

lemma tl_intersection_row:
  assumes inv: "tl_inv k b" "tl_inv k v" and i0: "i0 < k" and D: "\<forall>j1. (i0, j1) \<notin> D" and rd: "rows_done k (AND) v b D b1"
  defines "t \<equiv> lev1 b1 ! i0 AND lev1 v ! i0"
  defines "r \<equiv> \<lambda>i0 j1. \<not> basic_els (cell b i0 j1) \<subseteq> basic_els (cell v i0 j1)"
  shows "\<exists>b'. bv_foreach basic_ops (tl_intersection_body v i0) t (res, set_l1 i0 t b1) =
      Some ((\<exists>j1\<in>basic_els t. r i0 j1) \<or> res, b') \<and> rows_done k (AND) v b (D \<union> {i0} \<times> UNIV) b'"
proof -
  have l1: "j1 \<in> basic_els (lev1 b1 ! i0) \<longleftrightarrow> cell b i0 j1 \<noteq> 0" for j1
    using rd D l1_iff_cell [of k b1 i0 j1] i0 rows_done_cell [OF rd] by (auto simp: rows_done_def)
  have l1v: "j1 \<in> basic_els (lev1 v ! i0) \<longleftrightarrow> cell v i0 j1 \<noteq> 0" for j1 by (rule l1_iff_cell [OF inv(2) i0])
  let ?D = "D \<union> {i0} \<times> - basic_els (lev1 v ! i0)"
  have "\<exists>b'. bv_foreach basic_ops (tl_intersection_body v i0) t (res, set_l1 i0 t b1) =
      Some ((\<exists>j1\<in>basic_els t. r i0 j1) \<or> res, b') \<and> rows_done k (AND) v b (?D \<union> {i0} \<times> UNIV) b'"
  proof (rule row_loop [OF i0 restrict_row [OF rd i0 D, folded t_def]]; intro allI impI ballI)
    show "(i0, j1) \<notin> ?D" if "j1 \<in> basic_els t" for j1 using D that by (auto simp: t_def)
    show "(i0, j1) \<in> ?D \<or> cell b i0 j1 AND cell v i0 j1 = cell b i0 j1" if "j1 \<notin> basic_els t" for j1
      using that by (auto simp: t_def l1 l1v)
    fix i1 D b1' res
    assume i1: "i1 \<in> basic_els t" "(i0, i1) \<notin> D" and rd': "rows_done k (AND) v b D b1'"
    have inv1: "tl_inv k b1'" and raw: "tl_raw k b1'" using rd' by (auto simp: rows_done_def tl_inv_def)
    have c: "cell b1' i0 i1 = cell b i0 i1" by (rule rows_done_cell [OF rd' i1(2)])
    have p: "i1 \<in> basic_els (lev1 b1' ! i0)" using i1(1) c l1 l1_iff_cell [OF inv1 i0] by (auto simp: t_def)
    have e: "lev2 b1' ! i0 ! i1 = cell b i0 i1" "lev2 v ! i0 ! i1 = cell v i0 i1"
      using p i1(1) c by (auto simp: cell_def t_def)
    note g = shrink_cell_run [OF inv1 i0 p]
    have "tl_intersection_body v i0 i1 (res, b1') =
        Some (r i0 i1 \<or> res, shrink_cell i0 i1 (cell b i0 i1 AND cell v i0 i1) b1')"
      unfolding tl_intersection_body_def
      using raw i0 basic_els_less [OF p]
        by (simp add: basic_binary_run e r_def Let_def basic_empty_def tl_raw_def basic_clearBit_run shrink_cell_def)
    moreover have "rows_done k (AND) v b (insert (i0, i1) D) (shrink_cell i0 i1 (cell b i0 i1 AND cell v i0 i1) b1')"
      by (rule rows_done_update [OF rd' i1(2) g(1)]) (simp add: g(2) c)
    ultimately show "\<exists>b'. tl_intersection_body v i0 i1 (res, b1') = Some (r i0 i1 \<or> res, b') \<and>
        rows_done k (AND) v b (insert (i0, i1) D) b'" by simp
  qed
  moreover have "?D \<union> {i0} \<times> UNIV = D \<union> {i0} \<times> UNIV" by auto
  ultimately show ?thesis by simp
qed

lemma foreach_none: "bv_foreach basic_ops f 0 s = Some s"
  by (subst bv_foreach.simps) (simp add: basic_empty_def)

lemma tl_setIntersection_run:
  assumes inv: "tl_inv k b" "tl_inv k v"
  shows "\<exists>b'. tl_setIntersection k v b = Some (\<not> tl_els k b \<subseteq> tl_els k v, b') \<and> tl_inv k b' \<and> tl_els k b' = tl_els k b \<inter> tl_els k v"
proof -
  define r where "r i0 i1 \<longleftrightarrow> \<not> basic_els (cell b i0 i1) \<subseteq> basic_els (cell v i0 i1)" for i0 i1
  have "\<exists>b'. tl_setIntersection k v b = Some (\<exists>i0<k. \<exists>j1. r i0 j1, b') \<and> tl_inv k b' \<and>
    (\<forall>i0<k. \<forall>i1. cell b' i0 i1 = cell b i0 i1 AND cell v i0 i1)"
    unfolding tl_setIntersection_def
  proof (rule all_rows [OF inv(1)], intro allI impI)
    fix i0 D b1 res
    assume i0: "i0 < k" and D: "\<forall>j1. (i0, j1) \<notin> D" and rd: "rows_done k (AND) v b D b1"
    have len: "i0 < length (lev1 b1)" using rd i0 by (auto simp: rows_done_def tl_inv_def tl_raw_def)
    let ?t = "lev1 b1 ! i0 AND lev1 v ! i0"
    let ?res = "\<not> basic_els (lev1 b1 ! i0) \<subseteq> basic_els (lev1 v ! i0) \<or> res"
    have l1: "j1 \<in> basic_els (lev1 b1 ! i0) \<longleftrightarrow> cell b i0 j1 \<noteq> 0" for j1
      using rd D l1_iff_cell [of k b1 i0 j1] i0 rows_done_cell [OF rd] by (auto simp: rows_done_def)
    have l1v: "j1 \<in> basic_els (lev1 v ! i0) \<longleftrightarrow> cell v i0 j1 \<noteq> 0" for j1 by (rule l1_iff_cell [OF inv(2) i0])
    have flag: "(\<exists>j1. r i0 j1) \<or> res \<longleftrightarrow> (\<exists>j1\<in>basic_els ?t. r i0 j1) \<or> ?res"
    proof -
      have "r i0 j1" if "cell b i0 j1 \<noteq> 0" "cell v i0 j1 = 0" for j1
        using that by (simp add: r_def)
      moreover have "cell b i0 j1 \<noteq> 0" if "r i0 j1" for j1 using that by (auto simp: r_def)
      moreover have "j1 \<in> basic_els ?t \<longleftrightarrow> cell b i0 j1 \<noteq> 0 \<and> cell v i0 j1 \<noteq> 0" for j1 by (simp add: l1 l1v)
      moreover have "\<not> basic_els (lev1 b1 ! i0) \<subseteq> basic_els (lev1 v ! i0) \<longleftrightarrow> (\<exists>j1. cell b i0 j1 \<noteq> 0 \<and> cell v i0 j1 = 0)"
        using l1 l1v by blast
      ultimately show ?thesis by metis
    qed
    show "\<exists>b'. (case (res, b1) of (res, b) \<Rightarrow> do {
         let (r, w) = basic_setIntersection (lev1 v ! i0) (lev1 b ! i0);
         let (res, b) = (r \<or> res, set_l1 i0 w b);
         if \<not> basic_empty (lev1 b ! i0)
         then bv_foreach basic_ops (tl_intersection_body v i0) (lev1 b ! i0) (res, b)
         else Some (res, b) }) =
        Some ((\<exists>j1. r i0 j1) \<or> res, b') \<and> rows_done k (AND) v b (D \<union> {i0} \<times> UNIV) b'"
      unfolding flag
      using tl_intersection_row [OF inv i0 D rd, of ?res, folded r_def] len
      by (cases "?t = 0") (simp_all add: basic_binary_run basic_empty_def foreach_none)
  qed
  then obtain b' where b': "tl_setIntersection k v b = Some (\<exists>i0<k. \<exists>j1. r i0 j1, b')" "tl_inv k b'"
    "\<forall>i0<k. \<forall>i1. cell b' i0 i1 = cell b i0 i1 AND cell v i0 i1" by blast
  have "(\<exists>i0<k. \<exists>j1. r i0 j1) = (\<not> tl_els k b \<subseteq> tl_els k v)"
    unfolding tl_els_subset_iff r_def by (metis cell_beyond basic_els_simps(1) empty_subsetI linorder_not_less)
  moreover have "tl_els k b' = tl_els k b \<inter> tl_els k v"
    using b'(3) by (intro set_eqI) (auto simp: tl_els_mem)
  ultimately show ?thesis using b'(1,2) by simp
qed

lemma tl_clear_run:
  assumes "tl_raw k b"
  shows "tl_inv k (tl_clear b)" and "tl_els k (tl_clear b) = {}"
proof -
  have l: "lev1 (tl_clear b) ! i0 = 0" if "i0 < k" for i0
    using assms that by (simp add: tl_clear_def tl_raw_def basic_clear_def)
  show "tl_inv k (tl_clear b)"
    using assms l by (auto simp: tl_inv_def tl_raw_def) (simp_all add: tl_clear_def)
  show "tl_els k (tl_clear b) = {}"
    using l by (auto simp: tl_els_mem cell_def)
qed

lemma tl_setAll_run:
  assumes "tl_raw k b"
  shows "tl_inv k (tl_setAll b)" and "tl_els k (tl_setAll b) = {..<4096 * k}"
proof -
  have l: "lev1 (tl_setAll b) ! i0 = NOT 0" if "i0 < k" for i0
    using assms that by (simp add: tl_setAll_def tl_raw_def basic_setAll_def)
  have l2: "lev2 (tl_setAll b) ! i0 ! i1 = NOT 0" if "i0 < k" "i1 < 64" for i0 i1
    using assms that by (simp add: tl_setAll_def tl_raw_def basic_setAll_def)
  show "tl_inv k (tl_setAll b)"
  proof (rule tl_invI)
    show "tl_raw k (tl_setAll b)" using assms by (simp add: tl_raw_def tl_setAll_def)
    show "\<forall>i0<k. \<forall>i1. i1 \<in> basic_els (lev1 (tl_setAll b) ! i0) \<longrightarrow> lev2 (tl_setAll b) ! i0 ! i1 \<noteq> 0"
      using l2 by (auto dest: basic_els_less)
  qed
  have "cell (tl_setAll b) i0 i1 = NOT 0" if "i0 < k" "i1 < 64" for i0 i1
    using l [OF that(1)] l2 [OF that] that(2) by (simp add: cell_def)
  then show "tl_els k (tl_setAll b) = {..<4096 * k}"
    using index_bound by (auto simp: tl_els_def)
qed

lemma tl_empty_run:
  assumes "tl_inv k b"
  shows "tl_empty b \<longleftrightarrow> tl_els k b = {}"
proof -
  have "length (lev1 b) = k" using assms by (simp add: tl_inv_def tl_raw_def)
  then show ?thesis
    using tl_els_ne_iff [OF assms] by (auto simp: tl_empty_def list_all_length basic_empty_def)
qed

lemma tl_copyFrom_run:
  assumes "tl_raw k b" and "tl_inv k v"
  shows "\<exists>b'. tl_copyFrom k v b = Some b' \<and> tl_inv k b' \<and> tl_els k b' = tl_els k v"
  using tl_setUnion_run [OF tl_clear_run(1) [OF assms(1)] assms(2)] tl_clear_run(2) [OF assms(1)]
  by (auto simp: tl_copyFrom_def)

lemma foldM_found:
  assumes "\<forall>x\<in>set xs. \<forall>found. f x found = Some (found \<or> p x)"
  shows "foldM f xs found = Some (found \<or> (\<exists>x\<in>set xs. p x))"
  using assms by (induction xs arbitrary: found) auto

lemma tl_intersectsWith_run:
  assumes inv: "tl_inv k b" "tl_inv k v"
  shows "tl_intersectsWith k v b = Some (tl_els k b \<inter> tl_els k v \<noteq> {})"
proof -
  define r where "r i0 i1 \<longleftrightarrow> basic_els (cell b i0 i1) \<inter> basic_els (cell v i0 i1) \<noteq> {}" for i0 i1
  have r0: "i1 \<in> basic_els (lev1 v ! i0 AND lev1 b ! i0)" if "r i0 i1" for i0 i1
    using that by (auto simp: r_def cell_def split: if_splits)
  have "tl_intersectsWith k v b = Some (False \<or> (\<exists>i0\<in>set [0..<k]. \<exists>i1. r i0 i1))"
    unfolding tl_intersectsWith_def
  proof (rule foldM_found, intro ballI allI)
    fix i0 found assume "i0 \<in> set [0..<k]"
    let ?t = "lev1 b ! i0 AND lev1 v ! i0"
    let ?f = "\<lambda>i1 found. if found then Some True
             else do {
               present \<leftarrow> basic_getBit i1 (lev1 v ! i0);
               if \<not> present then Some False
               else Some (basic_intersectsWith (lev2 v ! i0 ! i1) (lev2 b ! i0 ! i1))
             }"
    have "foldM ?f (sorted_list_of_set (basic_els ?t)) found = Some (found \<or> (\<exists>i1\<in>set (sorted_list_of_set (basic_els ?t)). r i0 i1))"
      by (rule foldM_found)
        (auto simp: basic_getBit_run basic_els_less basic_binary_run r_def cell_def)
    moreover have "(\<exists>i1\<in>set (sorted_list_of_set (basic_els ?t)). r i0 i1) \<longleftrightarrow> (\<exists>i1. r i0 i1)"
      using r0 by auto
    ultimately show "(if found then Some True else let t = snd (basic_setIntersection (lev1 v ! i0) (lev1 b ! i0))
        in bv_foreach basic_ops ?f t found) = Some (found \<or> (\<exists>i1. r i0 i1))"
      by (cases found) (simp_all add: basic_binary_run basic.foreach_fold)
  qed
  moreover have "(\<exists>i0\<in>set [0..<k]. \<exists>i1. r i0 i1) = (tl_els k b \<inter> tl_els k v \<noteq> {})"
  proof -
    have "i1 < 64" if "r i0 i1" for i0 i1 using basic_els_less [OF r0 [OF that]] .
    then have "(\<exists>i0\<in>set [0..<k]. \<exists>i1. r i0 i1) \<longleftrightarrow> \<not> (\<forall>i0<k. \<forall>i1<64. \<not> r i0 i1)" by auto blast
    then show ?thesis unfolding tl_els_disjoint_iff by (simp add: r_def)
  qed
  ultimately show ?thesis by simp
qed

section \<open>Iteration\<close>

text \<open>What is left to visit: the rest of the current second-level vector, the rest of the
  current row, the following rows.\<close>

definition tl_cells :: "nat \<Rightarrow> nat \<Rightarrow> uptr \<Rightarrow> nat list" where
  "tl_cells i0 i1 w = map (\<lambda>i2. i0 * 64 * 64 + i1 * 64 + i2) (sorted_list_of_set (basic_els w))"

definition tl_row :: "TwoLevel \<Rightarrow> nat \<Rightarrow> uptr \<Rightarrow> nat list" where
  "tl_row b i0 w = concat (map (\<lambda>i1. tl_cells i0 i1 (cell b i0 i1)) (sorted_list_of_set (basic_els w)))"

definition tl_rows :: "nat \<Rightarrow> TwoLevel \<Rightarrow> nat \<Rightarrow> nat list" where
  "tl_rows k b i0 = concat (map (\<lambda>i0. tl_row b i0 (lev1 b ! i0)) [i0..<k])"

definition tl_rest :: "nat \<Rightarrow> TL_Iterator \<Rightarrow> nat list" where
  "tl_rest k it = (if it_1 it = 0 \<and> it_2 it = 0 then tl_rows k (it_bv it) (it_i0 it)
     else tl_cells (it_i0 it) (it_i1 it) (it_2 it) @ tl_row (it_bv it) (it_i0 it) (it_1 it) @
          tl_rows k (it_bv it) (Suc (it_i0 it)))"

definition it_inv :: "nat \<Rightarrow> TwoLevel \<Rightarrow> TL_Iterator \<Rightarrow> bool" where
  "it_inv k b it \<longleftrightarrow> it_bv it = b \<and> (it_1 it = 0 \<and> it_2 it = 0 \<or>
     it_i0 it < k \<and> lev1 b ! it_i0 it \<noteq> 0 \<and> basic_els (it_1 it) \<subseteq> basic_els (lev1 b ! it_i0 it))"

lemma basic_next_run:
  assumes "w \<noteq> 0"
  obtains w' where "basic_next w = Some (Min (basic_els w), w')" "basic_els w' = basic_els w - {Min (basic_els w)}"
    "sorted_list_of_set (basic_els w) = Min (basic_els w) # sorted_list_of_set (basic_els w')"
  using basic_first_run [OF assms] assms
  by (auto simp: basic_next_def sorted_list_of_set_nonempty)

lemma tl_cells_0 [simp]: "tl_cells i0 i1 0 = []" and tl_row_0 [simp]: "tl_row b i0 0 = []"
  by (simp_all add: tl_cells_def tl_row_def)

lemma tl_cells_Nil_iff [simp]: "tl_cells i0 i1 w = [] \<longleftrightarrow> w = 0"
  by (simp add: tl_cells_def)

lemma tl_row_Nil_iff:
  assumes "tl_inv k b" and "i0 < k" and "basic_els w \<subseteq> basic_els (lev1 b ! i0)"
  shows "tl_row b i0 w = [] \<longleftrightarrow> w = 0"
proof (cases "w = 0")
  case False
  then have "Min (basic_els w) \<in> basic_els w" by (rule basic_Min_in)
  moreover from this have "cell b i0 (Min (basic_els w)) \<noteq> 0"
    using assms(3) l1_iff_cell [OF assms(1,2)] by blast
  ultimately show ?thesis using False by (auto simp: tl_row_def)
qed simp

lemma tl_rows_Cons: "i0 < k \<Longrightarrow> tl_rows k b i0 = tl_row b i0 (lev1 b ! i0) @ tl_rows k b (Suc i0)"
  by (simp add: tl_rows_def upt_conv_Cons)

lemma tl_rows_Nil_iff:
  assumes "tl_inv k b"
  shows "tl_rows k b i0 = [] \<longleftrightarrow> \<not> list_ex (\<lambda>i. \<not> basic_empty (lev1 b ! i)) [i0..<k]"
  using tl_row_Nil_iff [OF assms _ subset_refl] by (auto simp: tl_rows_def list_ex_iff basic_empty_def)

lemma tl_hasNext_run:
  assumes inv: "tl_inv k b" and it: "it_inv k b it"
  shows "tl_hasNext k it \<longleftrightarrow> tl_rest k it \<noteq> []"
proof -
  have "list_ex (\<lambda>i. \<not> basic_empty (lev1 b ! i)) [it_i0 it..<k]" if "it_2 it \<noteq> 0"
    using it that by (auto simp: it_inv_def list_ex_iff basic_empty_def)
  then show ?thesis
    using it tl_rows_Nil_iff [OF inv, of "it_i0 it"] tl_row_Nil_iff [OF inv, of "it_i0 it" "it_1 it"]
    by (auto simp: tl_hasNext_def tl_rest_def it_inv_def basic_hasNext_def basic_empty_def)
qed

lemma tl_seek_run:
  assumes inv: "tl_inv k b" and it: "it_inv k b it" and z: "it_1 it = 0" "it_2 it = 0" and ne: "tl_rest k it \<noteq> []"
  shows "it_inv k b (tl_seek k it)" and "tl_rest k (tl_seek k it) = tl_rest k it" and "it_1 (tl_seek k it) \<noteq> 0"
proof -
  let ?p = "\<lambda>i. \<not> basic_empty (lev1 b ! i)"
  have bv: "it_bv it = b" using it by (simp add: it_inv_def)
  have "list_ex ?p [it_i0 it..<k]" using ne z bv tl_rows_Nil_iff [OF inv] by (simp add: tl_rest_def)
  then obtain n where n: "List.find ?p [it_i0 it..<k] = Some n"
    by (cases "List.find ?p [it_i0 it..<k]") (auto simp: find_None_iff list_ex_iff)
  then obtain m where m: "m < length [it_i0 it..<k]" "n = it_i0 it + m" "?p n" "\<forall>j<m. \<not> ?p (it_i0 it + j)"
    by (auto simp: find_Some_iff)
  then have nk: "n < k" by simp
  have skip: "tl_rows k b (it_i0 it) = tl_rows k b (it_i0 it + j)" if "j \<le> m" for j
    using that m(1,4) by (induction j) (auto simp: tl_rows_Cons basic_empty_def)
  have s: "tl_seek k it = it\<lparr>it_i0 := n, it_1 := lev1 b ! n\<rparr>" using n bv by (simp add: tl_seek_def)
  show "it_inv k b (tl_seek k it)" "it_1 (tl_seek k it) \<noteq> 0"
    using m(3) nk bv by (simp_all add: s it_inv_def basic_empty_def)
  show "tl_rest k (tl_seek k it) = tl_rest k it"
    using z m(2,3) nk bv skip [of m] by (simp add: s tl_rest_def basic_empty_def tl_rows_Cons)
qed

lemma tl_load_run:
  assumes inv: "tl_inv k b" and it: "it_inv k b it" and it1: "it_1 it \<noteq> 0" and z: "it_2 it = 0"
  obtains i1 t1 it' where "basic_next (it_1 it) = Some (i1, t1)"
    "it' = it\<lparr>it_i1 := i1, it_1 := t1, it_2 := lev2 (it_bv it) ! it_i0 it ! i1\<rparr>"
    "it_inv k b it'" "tl_rest k it' = tl_rest k it" "it_2 it' \<noteq> 0"
proof -
  obtain t1 where t1: "basic_next (it_1 it) = Some (Min (basic_els (it_1 it)), t1)"
    "basic_els t1 = basic_els (it_1 it) - {Min (basic_els (it_1 it))}"
    "sorted_list_of_set (basic_els (it_1 it)) = Min (basic_els (it_1 it)) # sorted_list_of_set (basic_els t1)"
    using basic_next_run [OF it1] .
  let ?i1 = "Min (basic_els (it_1 it))"
  have i0: "it_i0 it < k" "basic_els (it_1 it) \<subseteq> basic_els (lev1 b ! it_i0 it)" "it_bv it = b"
    using it it1 by (auto simp: it_inv_def)
  then have l1: "?i1 \<in> basic_els (lev1 b ! it_i0 it)" using basic_Min_in [OF it1] by blast
  then have c: "lev2 b ! it_i0 it ! ?i1 = cell b (it_i0 it) ?i1" by (simp add: cell_def)
  have ne: "cell b (it_i0 it) ?i1 \<noteq> 0" using l1 l1_iff_cell [OF inv i0(1)] by simp
  show thesis
  proof (rule that [OF t1(1) refl])
    show "it_inv k b (it\<lparr>it_i1 := ?i1, it_1 := t1, it_2 := lev2 (it_bv it) ! it_i0 it ! ?i1\<rparr>)"
      using it it1 i0 t1(2) by (auto simp: it_inv_def)
    show "tl_rest k (it\<lparr>it_i1 := ?i1, it_1 := t1, it_2 := lev2 (it_bv it) ! it_i0 it ! ?i1\<rparr>) = tl_rest k it"
      using it1 z i0(3) c ne t1(3) by (simp add: tl_rest_def tl_row_def)
  qed (simp add: i0 c ne)
qed

definition tl_pop :: "TL_Iterator \<Rightarrow> uptr \<Rightarrow> TL_Iterator" where
  "tl_pop it t2 = (let it = it\<lparr>it_2 := t2\<rparr> in
     if \<not> basic_hasNext (it_1 it) \<and> \<not> basic_hasNext (it_2 it) then it\<lparr>it_i0 := it_i0 it + 1\<rparr> else it)"

lemma tl_pop_run:
  assumes it: "it_inv k b it" and ne: "it_2 it \<noteq> 0"
  obtains i2 t2 where "basic_next (it_2 it) = Some (i2, t2)" "it_inv k b (tl_pop it t2)"
    "tl_rest k it = (it_i0 it * 64 * 64 + it_i1 it * 64 + i2) # tl_rest k (tl_pop it t2)"
proof -
  obtain t2 where t2: "basic_next (it_2 it) = Some (Min (basic_els (it_2 it)), t2)"
    "sorted_list_of_set (basic_els (it_2 it)) = Min (basic_els (it_2 it)) # sorted_list_of_set (basic_els t2)"
    using basic_next_run [OF ne] .
  show thesis
  proof (rule that [OF t2(1)])
    show "it_inv k b (tl_pop it t2)"
      using it ne by (auto simp: tl_pop_def it_inv_def basic_hasNext_def basic_empty_def Let_def)
    show "tl_rest k it = (it_i0 it * 64 * 64 + it_i1 it * 64 + Min (basic_els (it_2 it))) # tl_rest k (tl_pop it t2)"
      using ne t2(2) by (auto simp: tl_rest_def tl_pop_def Let_def basic_hasNext_def basic_empty_def tl_cells_def)
  qed
qed

lemma tl_next_run:
  assumes inv: "tl_inv k b" and it: "it_inv k b it" and ne: "tl_rest k it \<noteq> []"
  shows "\<exists>x it'. tl_next k it = Some (x, it') \<and> it_inv k b it' \<and> tl_rest k it = x # tl_rest k it'"
proof -
  define ia where "ia = (if \<not> basic_hasNext (it_1 it) \<and> \<not> basic_hasNext (it_2 it) then tl_seek k it else it)"
  have ia: "it_inv k b ia" "tl_rest k ia = tl_rest k it" "it_1 ia \<noteq> 0 \<or> it_2 ia \<noteq> 0"
    using tl_seek_run [OF inv it _ _ ne] it by (auto simp: ia_def basic_hasNext_def basic_empty_def)
  have "\<exists>ib. (if \<not> basic_hasNext (it_2 ia) then do {
         CHECK (basic_hasNext (it_1 ia));
         (i1, t1) \<leftarrow> basic_next (it_1 ia);
         Some (ia\<lparr>it_i1 := i1, it_1 := t1, it_2 := lev2 (it_bv ia) ! it_i0 ia ! i1\<rparr>)
       } else Some ia) = Some ib \<and> it_inv k b ib \<and> tl_rest k ib = tl_rest k it \<and> it_2 ib \<noteq> 0"
  proof (cases "it_2 ia = 0")
    case True
    with ia(3) have "it_1 ia \<noteq> 0" by simp
    from tl_load_run [OF inv ia(1) this True] obtain i1 t1 it' where "basic_next (it_1 ia) = Some (i1, t1)"
      "it' = ia\<lparr>it_i1 := i1, it_1 := t1, it_2 := lev2 (it_bv ia) ! it_i0 ia ! i1\<rparr>"
      "it_inv k b it'" "tl_rest k it' = tl_rest k ia" "it_2 it' \<noteq> 0" .
    then show ?thesis using True \<open>it_1 ia \<noteq> 0\<close> ia(2)
      by (simp add: basic_hasNext_def basic_empty_def)
  qed (use ia in \<open>simp add: basic_hasNext_def basic_empty_def\<close>)
  then obtain ib where ib: "(if \<not> basic_hasNext (it_2 ia) then do {
         CHECK (basic_hasNext (it_1 ia));
         (i1, t1) \<leftarrow> basic_next (it_1 ia);
         Some (ia\<lparr>it_i1 := i1, it_1 := t1, it_2 := lev2 (it_bv ia) ! it_i0 ia ! i1\<rparr>)
       } else Some ia) = Some ib" "it_inv k b ib" "tl_rest k ib = tl_rest k it" "it_2 ib \<noteq> 0" by blast
  obtain i2 t2 where p: "basic_next (it_2 ib) = Some (i2, t2)" "it_inv k b (tl_pop ib t2)"
    "tl_rest k ib = (it_i0 ib * 64 * 64 + it_i1 ib * 64 + i2) # tl_rest k (tl_pop ib t2)"
    using tl_pop_run [OF ib(2,4)] .
  have "tl_next k it = Some (it_i0 ib * 64 * 64 + it_i1 ib * 64 + i2, tl_pop ib t2)"
    unfolding tl_next_def Let_def ia_def [symmetric, unfolded Let_def] ib(1)
    using ib(4) p(1) by (simp add: basic_hasNext_def basic_empty_def basic_kSize_def tl_pop_def Let_def)
  then show ?thesis using p(2,3) ib(3) by simp
qed

lemma tl_it_elems:
  assumes inv: "tl_inv k b"
  shows "it_inv k b it \<Longrightarrow> bv_it_elems (tl_ops k) it = Some (tl_rest k it)"
proof (induction "tl_rest k it" arbitrary: it)
  case Nil
  then show ?case using tl_hasNext_run [OF inv Nil(2)]
    by (subst bv_it_elems.simps) (simp add: tl_ops_def)
next
  case (Cons x xs)
  have ne: "tl_rest k it \<noteq> []" using Cons(2) by auto
  obtain y it' where y: "tl_next k it = Some (y, it')" "it_inv k b it'" "tl_rest k it = y # tl_rest k it'"
    using tl_next_run [OF inv Cons(3) ne] by blast
  then have "bv_it_elems (tl_ops k) it' = Some (tl_rest k it')" using Cons(1) [of it'] Cons(2) by simp
  then show ?case using tl_hasNext_run [OF inv Cons(3)] ne y
    by (subst bv_it_elems.simps) (simp add: tl_ops_def)
qed

lemma strict_sorted_concat:
  assumes "\<forall>x\<in>set xs. sorted_wrt (<) (f x)" and "sorted_wrt (<) xs"
    and "\<forall>x\<in>set xs. \<forall>y\<in>set xs. x < y \<longrightarrow> (\<forall>a\<in>set (f x). \<forall>b\<in>set (f y). a < b)"
  shows "sorted_wrt (<) (concat (map f xs))"
  using assms by (induction xs) (auto simp: sorted_wrt_append)

lemma strict_sorted_basic: "sorted_wrt (<) (sorted_list_of_set (basic_els w))"
  by (simp add: strict_sorted_list_of_set)

lemma tl_rows_elems:
  "sorted_wrt (<) (tl_rows k b 0) \<and> set (tl_rows k b 0) = tl_els k b"
proof
  have cells: "set (tl_cells i0 i1 w) = {i0 * 64 * 64 + i1 * 64 + i2 |i2. i2 \<in> basic_els w}" for i0 i1 w
    by (auto simp: tl_cells_def)
  have row: "set (tl_row b i0 w) = {i0 * 64 * 64 + i1 * 64 + i2 |i1 i2. i1 \<in> basic_els w \<and> i2 \<in> basic_els (cell b i0 i1)}" for i0 w
    by (auto simp: tl_row_def cells)
  have "sorted_wrt (<) (tl_cells i0 i1 w)" for i0 i1 w
    unfolding tl_cells_def sorted_wrt_map using strict_sorted_basic [of w] by simp
  then have srow: "sorted_wrt (<) (tl_row b i0 w)" for i0 w
    unfolding tl_row_def by (intro strict_sorted_concat) (auto simp: strict_sorted_basic cells dest!: basic_els_less)
  show "sorted_wrt (<) (tl_rows k b 0)"
    unfolding tl_rows_def by (intro strict_sorted_concat) (auto simp: srow row dest!: basic_els_less)
  show "set (tl_rows k b 0) = tl_els k b"
  proof (intro set_eqI iffI)
    fix x assume "x \<in> set (tl_rows k b 0)"
    then obtain i0 i1 i2 where x: "i0 < k" "i1 \<in> basic_els (lev1 b ! i0)" "i2 \<in> basic_els (cell b i0 i1)"
      "x = i0 * 64 * 64 + i1 * 64 + i2" by (auto simp: tl_rows_def row)
    then show "x \<in> tl_els k b" using tl_els_split basic_els_less by blast
  next
    fix x assume "x \<in> tl_els k b"
    then have "x div 4096 < k" "x mod 64 \<in> basic_els (cell b (x div 4096) (x div 64 mod 64))"
      "x div 64 mod 64 \<in> basic_els (lev1 b ! (x div 4096))"
      unfolding tl_els_mem by (auto simp: cell_def split: if_splits)
    then have "x div 4096 < k" and "x \<in> set (tl_row b (x div 4096) (lev1 b ! (x div 4096)))"
      unfolding row using index_join [of x] by blast+
    then show "x \<in> set (tl_rows k b 0)" unfolding tl_rows_def set_concat set_map by auto
  qed
qed

lemma tl_iterate:
  assumes "tl_inv k b"
  shows "bv_it_elems (tl_ops k) (tl_Iterator b) = Some (sorted_list_of_set (tl_els k b))"
proof -
  have "tl_rest k (tl_Iterator b) = tl_rows k b 0" by (simp add: tl_rest_def tl_Iterator_def)
  moreover have "it_inv k b (tl_Iterator b)" by (simp add: it_inv_def tl_Iterator_def)
  ultimately show ?thesis using tl_it_elems [OF assms] tl_rows_elems [of k b]
    by (metis sorted_list_of_set.idem_if_sorted_distinct strict_sorted_iff)
qed

section \<open>The interface\<close>

lemma tl_first_from_empty: "\<forall>j<k. lev1 b ! j = 0 \<Longrightarrow> tl_first_from k i0 b = None"
  by (induction k i0 b rule: tl_first_from.induct) (subst tl_first_from.simps, simp add: basic_empty_def)

lemma tl_inv_raw: "tl_inv k b \<Longrightarrow> tl_raw k b"
  by (simp add: tl_inv_def)

lemma tl_ops_sel [simp]:
  "bv_kSize (tl_ops k) = 4096 * k" "bv_clear (tl_ops k) = tl_clear" "bv_setAll (tl_ops k) = tl_setAll"
  "bv_empty (tl_ops k) = tl_empty" "bv_setBit (tl_ops k) = tl_setBit k" "bv_clearBit (tl_ops k) = tl_clearBit k"
  "bv_getBit (tl_ops k) = tl_getBit k" "bv_getAndClearFirstOne (tl_ops k) = tl_getAndClearFirstOne k"
  "bv_setUnion (tl_ops k) = tl_setUnion k" "bv_setIntersection (tl_ops k) = tl_setIntersection k"
  "bv_setDifference (tl_ops k) = tl_setDifference k" "bv_copyFrom (tl_ops k) = tl_copyFrom k"
  "bv_intersectsWith (tl_ops k) = tl_intersectsWith k"
  "bv_Iterator (tl_ops k) = tl_Iterator" "bv_hasNext (tl_ops k) = tl_hasNext k" "bv_next (tl_ops k) = tl_next k"
  by (simp_all add: tl_ops_def tl_kSize_def basic_kSize_def)

interpretation two: bitvec "tl_ops k" "tl_raw k" "tl_inv k" "tl_els k" for k
proof unfold_locales
  show "\<exists>b'. bv_getAndClearFirstOne (tl_ops k) b = Some (Min (tl_els k b), b') \<and> tl_inv k b' \<and>
      tl_els k b' = tl_els k b - {Min (tl_els k b)}" if "tl_inv k b" "tl_els k b \<noteq> {}" for b
    using tl_first_from_run [OF that(1), of 0] that(2) by (simp add: tl_getAndClearFirstOne_def)
  show "bv_getAndClearFirstOne (tl_ops k) b = None" if "tl_inv k b" "tl_els k b = {}" for b
    using tl_first_from_empty tl_els_ne_iff [OF that(1)] that(2) by (simp add: tl_getAndClearFirstOne_def)
  show "bv_setBit (tl_ops k) i b = None \<and> bv_clearBit (tl_ops k) i b = None \<and> bv_getBit (tl_ops k) i b = None"
    if "\<not> i < bv_kSize (tl_ops k)" for i b
    using that by (simp add: tl_setBit_def tl_clearBit_def tl_getBit_def tl_kSize_def basic_kSize_def)
  show "bv_it_elems (tl_ops k) (bv_Iterator (tl_ops k) b) = Some (sorted_list_of_set (tl_els k b))" if "tl_inv k b" for b
    using tl_iterate [OF that] by simp
qed (simp_all add: tl_els_bound tl_clear_run tl_setAll_run tl_empty_run tl_setBit_run tl_clearBit_run tl_getBit_run
    tl_setUnion_run tl_setIntersection_run tl_setDifference_run tl_copyFrom_run tl_intersectsWith_run tl_inv_raw)

text \<open>
  C17: A two-level bit vector behaves like a set of indices below \<open>64 * 64 * k\<close>: a sequence of
  calls on storage prepared by \<^verbatim>\<open>clear\<close> gives the results and fails at the call that the same
  sequence on the empty set gives and fails at, whatever the storage held.
\<close>

theorem two_level_refines_set:
  assumes "tl_raw k b" and "\<forall>c\<in>set cs. \<forall>v\<in>set_bv_call c. tl_inv k v"
  shows "map_option (apsnd (tl_els k)) (bv_exec_all (bv_exec (tl_ops k)) cs (tl_clear b)) =
    bv_exec_all (set_exec (64 * 64 * k)) (map (map_bv_call (tl_els k)) cs) {}"
  using two.exec_all_refines [OF tl_clear_run(1) [OF assms(1)] assms(2)] tl_clear_run(2) [OF assms(1)] by simp

lemma two_level_refines_set_witness:
  "map_option (apsnd (tl_els 1)) (bv_exec_all (bv_exec (tl_ops 1)) [SetBit 70, SetBit 5000]
      (tl_clear \<lparr>lev1 = [7], lev2 = [replicate 64 9]\<rparr>)) =
    bv_exec_all (set_exec 4096) [SetBit 70, SetBit 5000] {}"
  using two_level_refines_set [of 1 "\<lparr>lev1 = [7], lev2 = [replicate 64 9]\<rparr>" "[SetBit 70, SetBit 5000]"]
  by (simp add: tl_raw_def)

end
