(* ===== verification/Bv_Graph.thy ===== *)
theory Bv_Graph
  imports Two_Level_Bit_Vector
begin

text \<open>
  \<^verbatim>\<open>BVGraph<BV>\<close> of \<^verbatim>\<open>sanitizer_bvgraph.h\<close>: a directed graph as an array of bit vectors. The
  class is a template over the bit vector: its operations take the record \<open>bv\<close> of the vector's
  operations, and what they promise is proved once over the locale \<open>bitvec\<close>. An access outside
  the array \<open>v\<close> or outside the caller's \<open>path\<close> buffer is \<^const>\<open>None\<close>.
\<close>

section \<open>Definitions\<close>

record 'b BVGraph =
  g_v :: "'b list"
  g_t1 :: 'b
  g_t2 :: 'b

definition g_row :: "'b BVGraph \<Rightarrow> nat \<Rightarrow> 'b option" where
  "g_row g i = (if i < length (g_v g) then Some (g_v g ! i) else None)"

definition g_set_row :: "nat \<Rightarrow> 'b \<Rightarrow> 'b BVGraph \<Rightarrow> 'b BVGraph" where
  "g_set_row i w g = g\<lparr>g_v := (g_v g)[i := w]\<rparr>"

definition graph_clear :: "('b, 'i) bv_ops \<Rightarrow> 'b BVGraph \<Rightarrow> 'b BVGraph" where
  "graph_clear bv g = g\<lparr>g_v := map (bv_clear bv) (g_v g)\<rparr>"

definition graph_empty :: "('b, 'i) bv_ops \<Rightarrow> 'b BVGraph \<Rightarrow> bool" where
  "graph_empty bv g = list_all (bv_empty bv) (g_v g)"

definition graph_check :: "('b, 'i) bv_ops \<Rightarrow> nat \<Rightarrow> nat \<Rightarrow> unit option" where
  "graph_check bv idx1 idx2 = do { CHECK (idx1 < bv_kSize bv); CHECK (idx2 < bv_kSize bv); Some () }"

definition graph_addEdge :: "('b, 'i) bv_ops \<Rightarrow> nat \<Rightarrow> nat \<Rightarrow> 'b BVGraph \<Rightarrow> (bool \<times> 'b BVGraph) option" where
  "graph_addEdge bv from to g = do {
     graph_check bv from to;
     row \<leftarrow> g_row g from;
     (res, row) \<leftarrow> bv_setBit bv to row;
     Some (res, g_set_row from row g)
   }"

text \<open>The result is the part of \<^verbatim>\<open>added_edges\<close> that was written; the code returns its length.\<close>

definition graph_addEdges ::
  "('b, 'i) bv_ops \<Rightarrow> 'b \<Rightarrow> nat \<Rightarrow> nat \<Rightarrow> 'b BVGraph \<Rightarrow> (nat list \<times> 'b BVGraph) option" where
  "graph_addEdges bv from to max_added_edges g = do {
     t1 \<leftarrow> bv_copyFrom bv from (g_t1 g);
     (t1, added, g) \<leftarrow> bv_drain bv (\<lambda>node (added, g). do {
         row \<leftarrow> g_row g node;
         (new, row) \<leftarrow> bv_setBit bv to row;
         Some (if new \<and> length added < max_added_edges then added @ [node] else added, g_set_row node row g)
       }) t1 ([], g);
     Some (added, g\<lparr>g_t1 := t1\<rparr>)
   }"

definition graph_hasEdge_racy :: "('b, 'i) bv_ops \<Rightarrow> nat \<Rightarrow> nat \<Rightarrow> 'b BVGraph \<Rightarrow> bool option" where
  "graph_hasEdge_racy bv from to g = do { row \<leftarrow> g_row g from; bv_getBit bv to row }"

definition graph_removeEdge :: "('b, 'i) bv_ops \<Rightarrow> nat \<Rightarrow> nat \<Rightarrow> 'b BVGraph \<Rightarrow> (bool \<times> 'b BVGraph) option" where
  "graph_removeEdge bv from to g = do {
     row \<leftarrow> g_row g from;
     (res, row) \<leftarrow> bv_clearBit bv to row;
     Some (res, g_set_row from row g)
   }"

definition graph_removeEdgesTo :: "('b, 'i) bv_ops \<Rightarrow> 'b \<Rightarrow> 'b BVGraph \<Rightarrow> (bool \<times> 'b BVGraph) option" where
  "graph_removeEdgesTo bv to g =
     foldM (\<lambda>from (res, g). do {
         row \<leftarrow> g_row g from;
         (removed, row) \<leftarrow> bv_setDifference bv to row;
         Some (removed \<or> res, g_set_row from row g)
       }) [0..<bv_kSize bv] (False, g)"

definition graph_removeEdgesFrom :: "('b, 'i) bv_ops \<Rightarrow> 'b \<Rightarrow> 'b BVGraph \<Rightarrow> (bool \<times> 'b BVGraph) option" where
  "graph_removeEdgesFrom bv from g = do {
     t1 \<leftarrow> bv_copyFrom bv from (g_t1 g);
     (t1, res, g) \<leftarrow> bv_drain bv (\<lambda>idx (res, g). do {
         row \<leftarrow> g_row g idx;
         Some (if \<not> bv_empty bv row then (True, g_set_row idx (bv_clear bv row) g) else (res, g))
       }) t1 (False, g);
     Some (res, g\<lparr>g_t1 := t1\<rparr>)
   }"

definition graph_removeEdgesFrom_node :: "('b, 'i) bv_ops \<Rightarrow> nat \<Rightarrow> 'b BVGraph \<Rightarrow> 'b BVGraph option" where
  "graph_removeEdgesFrom_node bv from g = do { row \<leftarrow> g_row g from; Some (g_set_row from (bv_clear bv row) g) }"

definition graph_hasEdge :: "('b, 'i) bv_ops \<Rightarrow> nat \<Rightarrow> nat \<Rightarrow> 'b BVGraph \<Rightarrow> bool option" where
  "graph_hasEdge bv from to g = do { graph_check bv from to; row \<leftarrow> g_row g from; bv_getBit bv to row }"

partial_function (option) graph_reach_loop ::
  "('b, 'i) bv_ops \<Rightarrow> 'b BVGraph \<Rightarrow> 'b \<Rightarrow> 'b \<Rightarrow> ('b \<times> 'b) option" where
  "graph_reach_loop bv g to_visit visited =
     (if bv_empty bv to_visit then Some (to_visit, visited)
      else do {
        (idx, to_visit) \<leftarrow> bv_getAndClearFirstOne bv to_visit;
        (new, visited) \<leftarrow> bv_setBit bv idx visited;
        to_visit \<leftarrow> (if new then do {
            row \<leftarrow> g_row g idx;
            (_, to_visit) \<leftarrow> bv_setUnion bv row to_visit;
            Some to_visit
          } else Some to_visit);
        graph_reach_loop bv g to_visit visited
      })"

definition graph_isReachable :: "('b, 'i) bv_ops \<Rightarrow> nat \<Rightarrow> 'b \<Rightarrow> 'b BVGraph \<Rightarrow> (bool \<times> 'b BVGraph) option" where
  "graph_isReachable bv from targets g = do {
     row \<leftarrow> g_row g from;
     to_visit \<leftarrow> bv_copyFrom bv row (g_t1 g);
     let visited = bv_clear bv (g_t2 g);
     (_, visited) \<leftarrow> bv_setBit bv from visited;
     (to_visit, visited) \<leftarrow> graph_reach_loop bv g to_visit visited;
     res \<leftarrow> bv_intersectsWith bv visited targets;
     Some (res, g\<lparr>g_t1 := to_visit, g_t2 := visited\<rparr>)
   }"

text \<open>\<^verbatim>\<open>findPath\<close> writes to the caller's buffer through a pointer that each recursive call
  advances: \<open>off\<close> is the offset of that pointer.\<close>

definition path_write :: "nat list \<Rightarrow> nat \<Rightarrow> nat \<Rightarrow> nat list option" where
  "path_write path i x = (if i < length path then Some (path[i := x]) else None)"

function (sequential) graph_findPath ::
    "('b, 'i) bv_ops \<Rightarrow> 'b BVGraph \<Rightarrow> 'b \<Rightarrow> nat \<Rightarrow> nat \<Rightarrow> nat \<Rightarrow> nat list \<Rightarrow> (nat \<times> nat list) option"
  and graph_findPath_loop ::
    "('b, 'i) bv_ops \<Rightarrow> 'b BVGraph \<Rightarrow> 'b \<Rightarrow> nat \<Rightarrow> nat list \<Rightarrow> nat \<Rightarrow> nat list \<Rightarrow> (nat \<times> nat list) option"
where
  "graph_findPath bv g targets 0 from off path = Some (0, path)"
| "graph_findPath bv g targets (Suc path_size) from off path = do {
     path \<leftarrow> path_write path off from;
     found \<leftarrow> bv_getBit bv from targets;
     if found then Some (1, path)
     else do {
       row \<leftarrow> g_row g from;
       idxs \<leftarrow> bv_it_elems bv (bv_Iterator bv row);
       graph_findPath_loop bv g targets path_size idxs (off + 1) path
     }
   }"
| "graph_findPath_loop bv g targets path_size [] off path = Some (0, path)"
| "graph_findPath_loop bv g targets path_size (idx # idxs) off path = do {
     (res, path) \<leftarrow> graph_findPath bv g targets path_size idx off path;
     if res \<noteq> 0 then Some (res + 1, path)
     else graph_findPath_loop bv g targets path_size idxs off path
   }"
  by pat_completeness auto
termination
  by (relation "inv_image (less_than <*lex*> less_than)
      (\<lambda>x. case x of Inl (_, _, _, n, _) \<Rightarrow> (n, 0) | Inr (_, _, _, n, idxs, _) \<Rightarrow> (n, Suc (length idxs)))") auto

function graph_shortest_from ::
  "('b, 'i) bv_ops \<Rightarrow> 'b BVGraph \<Rightarrow> 'b \<Rightarrow> nat \<Rightarrow> nat \<Rightarrow> nat \<Rightarrow> nat list \<Rightarrow> (nat \<times> nat list) option" where
  "graph_shortest_from bv g targets path_size p from path =
     (if p \<le> path_size then do {
        (res, path) \<leftarrow> graph_findPath bv g targets p from 0 path;
        if res = p then Some (p, path) else graph_shortest_from bv g targets path_size (p + 1) from path
      } else Some (0, path))"
  by pat_completeness auto
termination by (relation "measure (\<lambda>(_, _, _, n, p, _). Suc n - p)") auto

declare graph_shortest_from.simps [simp del]

definition graph_findShortestPath ::
  "('b, 'i) bv_ops \<Rightarrow> nat \<Rightarrow> 'b \<Rightarrow> nat list \<Rightarrow> nat \<Rightarrow> 'b BVGraph \<Rightarrow> (nat \<times> nat list) option" where
  "graph_findShortestPath bv from targets path path_size g = graph_shortest_from bv g targets path_size 1 from path"

section \<open>The relation a graph stands for\<close>

definition graph_ok :: "('b, 'i) bv_ops \<Rightarrow> ('b \<Rightarrow> bool) \<Rightarrow> ('b \<Rightarrow> bool) \<Rightarrow> 'b BVGraph \<Rightarrow> bool" where
  "graph_ok bv raw ok g \<longleftrightarrow> length (g_v g) = bv_kSize bv \<and> (\<forall>i<bv_kSize bv. ok (g_v g ! i)) \<and> raw (g_t1 g) \<and> raw (g_t2 g)"

definition graph_edges :: "('b \<Rightarrow> nat set) \<Rightarrow> 'b BVGraph \<Rightarrow> (nat \<times> nat) set" where
  "graph_edges els g = {(i, j). i < length (g_v g) \<and> j \<in> els (g_v g ! i)}"

text \<open>A walk from \<open>a\<close> to a target, by its nodes.\<close>

definition walk_to :: "(nat \<times> nat) set \<Rightarrow> nat set \<Rightarrow> nat \<Rightarrow> nat list \<Rightarrow> bool" where
  "walk_to E T a ns \<longleftrightarrow> ns \<noteq> [] \<and> hd ns = a \<and> last ns \<in> T \<and> successively (\<lambda>x y. (x, y) \<in> E) ns"

text \<open>What a search in a buffer of \<open>n\<close> entries starting at \<open>off\<close> promises.\<close>

definition found_path :: "(nat \<times> nat) set \<Rightarrow> nat set \<Rightarrow> nat \<Rightarrow> nat \<Rightarrow> nat \<Rightarrow> nat list \<Rightarrow> nat \<Rightarrow> nat list \<Rightarrow> bool" where
  "found_path E T n a off path res path' \<longleftrightarrow>
     length path' = length path \<and> take off path' = take off path \<and>
     (if res = 0 then \<forall>ns. length ns \<le> n \<longrightarrow> \<not> walk_to E T a ns
      else res \<le> n \<and> walk_to E T a (take res (drop off path')))"

lemma walk_to_Cons:
  "walk_to E T a (b # ns) \<longleftrightarrow> a = b \<and> (if ns = [] then a \<in> T else \<exists>c. (a, c) \<in> E \<and> walk_to E T c ns)"
  by (cases ns) (auto simp: walk_to_def)

lemma walk_to_Nil [simp]: "\<not> walk_to E T a []"
  by (simp add: walk_to_def)

lemma g_row_Some [simp]: "i < length (g_v g) \<Longrightarrow> g_row g i = Some (g_v g ! i)"
  by (simp add: g_row_def)

lemma g_v_set_row [simp]: "g_v (g_set_row i w g) = (g_v g)[i := w]"
  by (simp add: g_set_row_def)

lemma g_t_set_row [simp]: "g_t1 (g_set_row i w g) = g_t1 g" "g_t2 (g_set_row i w g) = g_t2 g"
  by (simp_all add: g_set_row_def)

lemma graph_edges_t [simp]: "graph_edges els (g\<lparr>g_t1 := t1\<rparr>) = graph_edges els g"
  "graph_edges els (g\<lparr>g_t2 := t2\<rparr>) = graph_edges els g"
  by (simp_all add: graph_edges_def)

lemma graph_edges_iff: "(i, j) \<in> graph_edges els g \<longleftrightarrow> i < length (g_v g) \<and> j \<in> els (g_v g ! i)"
  by (simp add: graph_edges_def)

lemma graph_ok_row: "graph_ok bv raw ok g \<Longrightarrow> i < bv_kSize bv \<Longrightarrow> g_row g i = Some (g_v g ! i) \<and> ok (g_v g ! i)"
  by (simp add: graph_ok_def)

lemma graph_ok_set_row:
  "graph_ok bv raw ok g \<Longrightarrow> ok w \<Longrightarrow> graph_ok bv raw ok (g_set_row i w g)"
  by (cases "i < length (g_v g)") (auto simp: graph_ok_def nth_list_update list_update_beyond)

lemma graph_edges_set_row:
  assumes "graph_ok bv raw ok g" and "i < bv_kSize bv"
  shows "(x, y) \<in> graph_edges els (g_set_row i w g) \<longleftrightarrow> (if x = i then y \<in> els w else (x, y) \<in> graph_edges els g)"
  using assms by (auto simp: graph_edges_def graph_ok_def nth_list_update)

section \<open>Operations over the bit vector interface\<close>

lemma rel_eqI: "(\<And>x y. (x, y) \<in> A \<longleftrightarrow> (x, y) \<in> B) \<Longrightarrow> A = B"
  by auto

context bitvec
begin

abbreviation "g_ok \<equiv> graph_ok ops raw inv"
abbreviation "edges \<equiv> graph_edges els"

lemma edge_iff: "g_ok g \<Longrightarrow> i < bv_kSize ops \<Longrightarrow> j \<in> els (g_v g ! i) \<longleftrightarrow> (i, j) \<in> edges g"
  by (simp add: graph_edges_def graph_ok_def)

lemma edge_bounds: "g_ok g \<Longrightarrow> (i, j) \<in> edges g \<Longrightarrow> i < bv_kSize ops \<and> j < bv_kSize ops"
  using els_bound by (fastforce simp: graph_edges_def graph_ok_def)

lemma g_ok_t: "g_ok g \<Longrightarrow> inv t1 \<Longrightarrow> g_ok (g\<lparr>g_t1 := t1\<rparr>)" "g_ok g \<Longrightarrow> inv t2 \<Longrightarrow> g_ok (g\<lparr>g_t2 := t2\<rparr>)"
  using inv_raw by (auto simp: graph_ok_def)

lemma g_ok_raw: "g_ok g \<Longrightarrow> raw (g_t1 g)" "g_ok g \<Longrightarrow> raw (g_t2 g)"
  by (simp_all add: graph_ok_def)

lemma clear_run:
  assumes "length (g_v g) = bv_kSize ops" "\<forall>i<bv_kSize ops. raw (g_v g ! i)" "raw (g_t1 g)" "raw (g_t2 g)"
  shows "g_ok (graph_clear ops g)" and "edges (graph_clear ops g) = {}"
  using assms clear by (auto simp: graph_ok_def graph_clear_def graph_edges_def)

lemma empty_run: "g_ok g \<Longrightarrow> graph_empty ops g \<longleftrightarrow> edges g = {}"
  using empty_iff by (fastforce simp: graph_empty_def graph_edges_def graph_ok_def list_all_length)

lemma hasEdge_run: "g_ok g \<Longrightarrow> i < bv_kSize ops \<Longrightarrow> j < bv_kSize ops \<Longrightarrow> graph_hasEdge ops i j g = Some ((i, j) \<in> edges g)"
  by (simp add: graph_hasEdge_def graph_check_def graph_ok_row getBit edge_iff)

lemma hasEdge_racy_run: "g_ok g \<Longrightarrow> i < bv_kSize ops \<Longrightarrow> j < bv_kSize ops \<Longrightarrow> graph_hasEdge_racy ops i j g = Some ((i, j) \<in> edges g)"
  by (simp add: graph_hasEdge_racy_def graph_ok_row getBit edge_iff)

lemma addEdge_run:
  assumes g: "g_ok g" and b: "i < bv_kSize ops" "j < bv_kSize ops"
  shows "\<exists>g'. graph_addEdge ops i j g = Some ((i, j) \<notin> edges g, g') \<and> g_ok g' \<and> edges g' = insert (i, j) (edges g)"
proof -
  note r = graph_ok_row [OF g b(1)]
  obtain w where w: "bv_setBit ops j (g_v g ! i) = Some (j \<notin> els (g_v g ! i), w)" "inv w" "els w = insert j (els (g_v g ! i))"
    using setBit [OF _ b(2)] r by blast
  have "edges (g_set_row i w g) = insert (i, j) (edges g)"
    by (rule rel_eqI) (auto simp: graph_edges_set_row [OF g b(1)] w(3) edge_iff [OF g b(1)])
  then show ?thesis using r b w graph_ok_set_row [OF g w(2)]
    by (simp add: graph_addEdge_def graph_check_def edge_iff [OF g b(1)])
qed

lemma removeEdge_run:
  assumes g: "g_ok g" and b: "i < bv_kSize ops" "j < bv_kSize ops"
  shows "\<exists>g'. graph_removeEdge ops i j g = Some ((i, j) \<in> edges g, g') \<and> g_ok g' \<and> edges g' = edges g - {(i, j)}"
proof -
  note r = graph_ok_row [OF g b(1)]
  obtain w where w: "bv_clearBit ops j (g_v g ! i) = Some (j \<in> els (g_v g ! i), w)" "inv w" "els w = els (g_v g ! i) - {j}"
    using clearBit [OF _ b(2)] r by blast
  have "edges (g_set_row i w g) = edges g - {(i, j)}"
    by (rule rel_eqI) (auto simp: graph_edges_set_row [OF g b(1)] w(3) edge_iff [OF g b(1)])
  then show ?thesis using r b w graph_ok_set_row [OF g w(2)]
    by (simp add: graph_removeEdge_def edge_iff [OF g b(1)])
qed

lemma removeEdgesFrom_node_run:
  assumes g: "g_ok g" and b: "i < bv_kSize ops"
  shows "\<exists>g'. graph_removeEdgesFrom_node ops i g = Some g' \<and> g_ok g' \<and> edges g' = edges g - {i} \<times> UNIV"
proof -
  note r = graph_ok_row [OF g b]
  note c = clear [OF inv_raw [OF conjunct2 [OF r]]]
  have "edges (g_set_row i (bv_clear ops (g_v g ! i)) g) = edges g - {i} \<times> UNIV"
    by (rule rel_eqI) (auto simp: graph_edges_set_row [OF g b] c)
  then show ?thesis using r c graph_ok_set_row [OF g conjunct1 [OF c]]
    by (simp add: graph_removeEdgesFrom_node_def)
qed

lemma removeEdgesTo_run:
  assumes g: "g_ok g" and to: "inv to"
  shows "\<exists>g'. graph_removeEdgesTo ops to g = Some (edges g \<inter> UNIV \<times> els to \<noteq> {}, g') \<and> g_ok g' \<and> edges g' = edges g - UNIV \<times> els to"
proof -
  define I where "I D s \<longleftrightarrow> g_ok (snd s) \<and> edges (snd s) = edges g - D \<times> els to \<and> (fst s \<longleftrightarrow> edges g \<inter> D \<times> els to \<noteq> {})"
    for D and s :: "bool \<times> 'b BVGraph"
  have "\<exists>s. graph_removeEdgesTo ops to g = Some s \<and> I (set [0..<bv_kSize ops]) s"
    unfolding graph_removeEdgesTo_def
  proof (rule foldM_rule; (intro allI impI)?)
    show "I {} (False, g)" using g by (simp add: I_def)
    fix x D and s :: "bool \<times> 'b BVGraph"
    assume x: "x \<in> set [0..<bv_kSize ops]" "x \<notin> D" and I: "I D s"
    obtain res h where s: "s = (res, h)" by fastforce
    have h: "g_ok h" and xb: "x < bv_kSize ops" using I x by (auto simp: I_def s)
    note r = graph_ok_row [OF h xb]
    obtain w where w: "bv_setDifference ops to (g_v h ! x) = Some (els (g_v h ! x) \<inter> els to \<noteq> {}, w)" "inv w"
      "els w = els (g_v h ! x) - els to" using setDifference [OF _ to] r by blast
    have e: "els (g_v h ! x) = edges g `` {x}"
      using edge_iff [OF h xb] I x(2) by (auto simp: I_def s)
    have "edges (g_set_row x w h) = edges g - insert x D \<times> els to"
      by (rule rel_eqI) (use I in \<open>auto simp: graph_edges_set_row [OF h xb] w(3) e I_def s\<close>)
    moreover have "els (g_v h ! x) \<inter> els to \<noteq> {} \<or> res \<longleftrightarrow> edges g \<inter> insert x D \<times> els to \<noteq> {}"
      using I by (auto simp: e I_def s)
    ultimately have "I (insert x D) (els (g_v h ! x) \<inter> els to \<noteq> {} \<or> res, g_set_row x w h)"
      using graph_ok_set_row [OF h w(2)] by (simp add: I_def)
    then show "\<exists>s'. (case s of (res, g) \<Rightarrow> do { row \<leftarrow> g_row g x; (removed, row) \<leftarrow> bv_setDifference ops to row;
        Some (removed \<or> res, g_set_row x row g) }) = Some s' \<and> I (insert x D) s'"
      using r w(1) by (simp add: s)
  qed simp
  then obtain s where s: "graph_removeEdgesTo ops to g = Some s" "I {0..<bv_kSize ops} s" by auto
  have "edges g \<inter> {0..<bv_kSize ops} \<times> els to = edges g \<inter> UNIV \<times> els to" using edge_bounds [OF g] by auto
  moreover have "edges g - {0..<bv_kSize ops} \<times> els to = edges g - UNIV \<times> els to" using edge_bounds [OF g] by auto
  ultimately show ?thesis using s by (cases s) (simp add: I_def)
qed

lemma add_edges_fold:
  assumes "distinct xs" and "\<forall>x\<in>set xs. x < bv_kSize ops" and "g_ok h" and to: "to < bv_kSize ops"
  shows "\<exists>h'. foldM (\<lambda>node (added, g). do {
         row \<leftarrow> g_row g node;
         (new, row) \<leftarrow> bv_setBit ops to row;
         Some (if new \<and> length added < max_added then added @ [node] else added, g_set_row node row g)
       }) xs (acc, h) = Some (acc @ take (max_added - length acc) (filter (\<lambda>n. (n, to) \<notin> edges h) xs), h') \<and>
     g_ok h' \<and> edges h' = edges h \<union> set xs \<times> {to}"
  using assms(1-3)
proof (induction xs arbitrary: acc h)
  case (Cons x xs)
  have x: "x < bv_kSize ops" "x \<notin> set xs" using Cons.prems by auto
  note r = graph_ok_row [OF Cons.prems(3) x(1)]
  note e = edge_iff [OF Cons.prems(3) x(1)]
  obtain w where w: "bv_setBit ops to (g_v h ! x) = Some (to \<notin> els (g_v h ! x), w)" "inv w"
    "els w = insert to (els (g_v h ! x))" using setBit [OF _ to] r by blast
  define h1 where "h1 = g_set_row x w h"
  have h1: "g_ok h1" unfolding h1_def by (rule graph_ok_set_row [OF Cons.prems(3) w(2)])
  have e1: "edges h1 = insert (x, to) (edges h)"
    unfolding h1_def by (rule rel_eqI) (auto simp: graph_edges_set_row [OF Cons.prems(3) x(1)] w(3) e)
  have f: "filter (\<lambda>n. (n, to) \<notin> edges h1) xs = filter (\<lambda>n. (n, to) \<notin> edges h) xs"
    using x(2) by (auto simp: e1 intro: filter_cong)
  define acc1 where "acc1 = (if (x, to) \<notin> edges h \<and> length acc < max_added then acc @ [x] else acc)"
  have a: "acc1 @ take (max_added - length acc1) (filter (\<lambda>n. (n, to) \<notin> edges h) xs) =
      acc @ take (max_added - length acc) (filter (\<lambda>n. (n, to) \<notin> edges h) (x # xs))"
    by (auto simp: acc1_def Suc_diff_Suc [symmetric])
  have "distinct xs" "\<forall>x\<in>set xs. x < bv_kSize ops" using Cons.prems by auto
  from Cons.IH [OF this h1, of acc1] show ?case
    unfolding f a using r w(1) by (auto simp: acc1_def h1_def [symmetric] e e1)
qed simp

lemma addEdges_run:
  assumes g: "g_ok g" and fr: "inv from" and to: "to < bv_kSize ops"
  shows "\<exists>g'. graph_addEdges ops from to max_added g =
      Some (take max_added (filter (\<lambda>n. (n, to) \<notin> edges g) (sorted_list_of_set (els from))), g') \<and>
    g_ok g' \<and> edges g' = edges g \<union> els from \<times> {to}"
proof -
  obtain t where t: "bv_copyFrom ops from (g_t1 g) = Some t" "inv t" "els t = els from"
    using copyFrom [OF g_ok_raw(1) [OF g] fr] by blast
  let ?f = "\<lambda>node (added, g). do { row \<leftarrow> g_row g node; (new, row) \<leftarrow> bv_setBit ops to row;
         Some (if new \<and> length added < max_added then added @ [node] else added, g_set_row node row g) }"
  obtain t' where t': "inv t'"
    "\<forall>s. bv_drain ops ?f t s = map_option (Pair t') (foldM ?f (sorted_list_of_set (els from)) s)"
    using drain_fold [OF t(2), of ?f] t(3) by auto
  have "\<forall>x\<in>set (sorted_list_of_set (els from)). x < bv_kSize ops"
    using finite_els [OF fr] els_bound [OF fr] by auto
  from add_edges_fold [OF distinct_sorted_list_of_set this g to, of max_added "[]"]
  obtain g' where g': "foldM ?f (sorted_list_of_set (els from)) ([], g) =
      Some (take max_added (filter (\<lambda>n. (n, to) \<notin> edges g) (sorted_list_of_set (els from))), g')"
    "g_ok g'" "edges g' = edges g \<union> els from \<times> {to}" using finite_els [OF fr] by auto
  then show ?thesis using t(1) t' g_ok_t(1) [OF g'(2) t'(1)] by (simp add: graph_addEdges_def)
qed

lemma removeEdgesFrom_run:
  assumes g: "g_ok g" and fr: "inv from"
  shows "\<exists>g'. graph_removeEdgesFrom ops from g = Some (edges g \<inter> els from \<times> UNIV \<noteq> {}, g') \<and>
    g_ok g' \<and> edges g' = edges g - els from \<times> UNIV"
proof -
  obtain t where t: "bv_copyFrom ops from (g_t1 g) = Some t" "inv t" "els t = els from"
    using copyFrom [OF g_ok_raw(1) [OF g] fr] by blast
  let ?f = "\<lambda>idx (res, g). do { row \<leftarrow> g_row g idx;
         Some (if \<not> bv_empty ops row then (True, g_set_row idx (bv_clear ops row) g) else (res, g)) }"
  obtain t' where t': "inv t'"
    "\<forall>s. bv_drain ops ?f t s = map_option (Pair t') (foldM ?f (sorted_list_of_set (els from)) s)"
    using drain_fold [OF t(2), of ?f] t(3) by auto
  define I where "I D s \<longleftrightarrow> g_ok (snd s) \<and> edges (snd s) = edges g - D \<times> UNIV \<and> (fst s \<longleftrightarrow> edges g \<inter> D \<times> UNIV \<noteq> {})"
    for D and s :: "bool \<times> 'b BVGraph"
  have "\<exists>s. foldM ?f (sorted_list_of_set (els from)) (False, g) = Some s \<and> I (set (sorted_list_of_set (els from))) s"
  proof (rule foldM_rule; (intro allI impI)?)
    show "I {} (False, g)" using g by (simp add: I_def)
    fix x D and s :: "bool \<times> 'b BVGraph"
    assume x: "x \<in> set (sorted_list_of_set (els from))" "x \<notin> D" and I: "I D s"
    obtain res h where s: "s = (res, h)" by fastforce
    have h: "g_ok h" using I by (auto simp: I_def s)
    have xb: "x < bv_kSize ops" using x(1) els_bound [OF fr] finite_els [OF fr] by auto
    note r = graph_ok_row [OF h xb]
    note c = clear [OF inv_raw [OF conjunct2 [OF r]]]
    have e: "els (g_v h ! x) = edges g `` {x}" using edge_iff [OF h xb] I x(2) by (auto simp: I_def s)
    have "bv_empty ops (g_v h ! x) \<longleftrightarrow> edges g `` {x} = {}" using empty_iff r e by simp
    moreover have "I (insert x D) (True, g_set_row x (bv_clear ops (g_v h ! x)) h)" if "edges g `` {x} \<noteq> {}"
    proof -
      have "edges (g_set_row x (bv_clear ops (g_v h ! x)) h) = edges g - insert x D \<times> UNIV"
        by (rule rel_eqI) (use I in \<open>auto simp: graph_edges_set_row [OF h xb] c I_def s\<close>)
      then show ?thesis using that graph_ok_set_row [OF h conjunct1 [OF c]] by (auto simp: I_def)
    qed
    moreover have "I (insert x D) (res, h)" if "edges g `` {x} = {}"
    proof -
      have "edges g - insert x D \<times> UNIV = edges g - D \<times> UNIV" "edges g \<inter> insert x D \<times> UNIV = edges g \<inter> D \<times> UNIV"
        using that by auto
      then show ?thesis using I unfolding I_def s by (simp only: fst_conv snd_conv)
    qed
    ultimately show "\<exists>s'. ?f x s = Some s' \<and> I (insert x D) s'" using r by (simp add: s)
  qed simp
  then obtain s where s: "foldM ?f (sorted_list_of_set (els from)) (False, g) = Some s" "I (els from) s"
    using finite_els [OF fr] by auto
  then show ?thesis using t(1) t' g_ok_t(1) [of "snd s" t'] by (cases s) (simp add: graph_removeEdgesFrom_def I_def)
qed

section \<open>Reachability\<close>

lemma reach_loop_run:
  assumes g: "g_ok g" and "inv tv" and "inv vis"
    and "from \<in> els vis" and "els vis \<union> els tv \<subseteq> (edges g)\<^sup>* `` {from}"
    and "edges g `` els vis \<subseteq> els vis \<union> els tv"
  shows "\<exists>tv' vis'. graph_reach_loop ops g tv vis = Some (tv', vis') \<and> inv tv' \<and> inv vis' \<and>
    els vis' = (edges g)\<^sup>* `` {from}"
  using assms(2-6)
proof (induction "(bv_kSize ops - card (els vis), card (els tv))" arbitrary: tv vis
    rule: wf_induct_rule [OF wf_lex_prod [OF wf_less_than wf_less_than]])
  case (1 tv vis)
  note P = 1(2-6)
  show ?case
  proof (cases "els tv = {}")
    case True
    then have "edges g `` els vis \<subseteq> els vis" using P(5) by simp
    then have "(edges g)\<^sup>* `` els vis = els vis" by (rule Image_closed_trancl)
    then have "(edges g)\<^sup>* `` {from} \<subseteq> els vis" using P(3) by blast
    then have "els vis = (edges g)\<^sup>* `` {from}" using P(4) by blast
    then show ?thesis using True P(1,2) by (subst graph_reach_loop.simps) (simp add: empty_iff)
  next
    case False
    obtain tv1 where tv1: "bv_getAndClearFirstOne ops tv = Some (Min (els tv), tv1)" "inv tv1"
      "els tv1 = els tv - {Min (els tv)}" using first [OF P(1) False] by blast
    let ?i = "Min (els tv)"
    have i: "?i \<in> els tv" using False finite_els [OF P(1)] by simp
    then have ib: "?i < bv_kSize ops" using els_bound [OF P(1)] by auto
    obtain vis1 where vis1: "bv_setBit ops ?i vis = Some (?i \<notin> els vis, vis1)" "inv vis1"
      "els vis1 = insert ?i (els vis)" using setBit [OF P(2) ib] by blast
    note r = graph_ok_row [OF g ib]
    obtain tv2 u where tv2: "bv_setUnion ops (g_v g ! ?i) tv1 = Some (u, tv2)" "inv tv2"
      "els tv2 = els tv1 \<union> els (g_v g ! ?i)" using setUnion [OF tv1(2)] r by blast
    have ei: "els (g_v g ! ?i) = edges g `` {?i}" using edge_iff [OF g ib] by auto
    define tv3 where "tv3 = (if ?i \<notin> els vis then tv2 else tv1)"
    have step: "graph_reach_loop ops g tv vis = graph_reach_loop ops g tv3 vis1"
      using False P(1) tv1(1) vis1(1) r tv2(1)
      by (subst graph_reach_loop.simps) (simp add: empty_iff tv3_def)
    have "card (els vis1) \<le> bv_kSize ops"
      using els_bound [OF vis1(2)] card_mono [of "{..<bv_kSize ops}"] by fastforce
    then have dec: "((bv_kSize ops - card (els vis1), card (els tv3)), (bv_kSize ops - card (els vis), card (els tv)))
        \<in> less_than <*lex*> less_than"
      using finite_els [OF P(1)] finite_els [OF P(2)] False i
      by (cases "?i \<in> els vis") (auto simp: tv3_def vis1(3) tv1(3) insert_absorb card_gt_0_iff)
    have "\<exists>tv' vis'. graph_reach_loop ops g tv3 vis1 = Some (tv', vis') \<and> inv tv' \<and> inv vis' \<and>
        els vis' = (edges g)\<^sup>* `` {from}"
    proof (rule 1(1) [OF dec])
      show "inv tv3" "inv vis1" using tv1 tv2 vis1 by (simp_all add: tv3_def)
      show "from \<in> els vis1" using P(3) vis1(3) by simp
      have "?i \<in> (edges g)\<^sup>* `` {from}" using P(4) i by blast
      then have "edges g `` {?i} \<subseteq> (edges g)\<^sup>* `` {from}" by (auto intro: rtrancl_into_rtrancl)
      then show "els vis1 \<union> els tv3 \<subseteq> (edges g)\<^sup>* `` {from}"
        using P(4) i by (auto simp: tv3_def vis1(3) tv2(3) tv1(3) ei split: if_splits)
      show "edges g `` els vis1 \<subseteq> els vis1 \<union> els tv3"
        using P(5) by (auto simp: tv3_def vis1(3) tv2(3) tv1(3) ei)
    qed
    then show ?thesis unfolding step .
  qed
qed

lemma isReachable_run:
  assumes g: "g_ok g" and fr: "from < bv_kSize ops" and T: "inv targets"
  shows "\<exists>g'. graph_isReachable ops from targets g = Some ((edges g)\<^sup>* `` {from} \<inter> els targets \<noteq> {}, g') \<and>
    g_ok g' \<and> edges g' = edges g"
proof -
  note r = graph_ok_row [OF g fr]
  have raw: "raw (g_t1 g)" "raw (g_t2 g)" using g by (simp_all add: graph_ok_def)
  obtain tv where tv: "bv_copyFrom ops (g_v g ! from) (g_t1 g) = Some tv" "inv tv" "els tv = els (g_v g ! from)"
    using copyFrom [OF raw(1)] r by blast
  note c = clear [OF raw(2)]
  obtain vis u where vis: "bv_setBit ops from (bv_clear ops (g_t2 g)) = Some (u, vis)" "inv vis" "els vis = {from}"
    using setBit [OF conjunct1 [OF c] fr] c by auto
  have e: "els (g_v g ! from) = edges g `` {from}" using edge_iff [OF g fr] by auto
  have "\<exists>tv' vis'. graph_reach_loop ops g tv vis = Some (tv', vis') \<and> inv tv' \<and> inv vis' \<and>
      els vis' = (edges g)\<^sup>* `` {from}"
    by (rule reach_loop_run [OF g tv(2) vis(2)]) (auto simp: vis(3) tv(3) e)
  then obtain tv' vis' where v': "graph_reach_loop ops g tv vis = Some (tv', vis')" "inv tv'" "inv vis'"
    "els vis' = (edges g)\<^sup>* `` {from}" by blast
  have "g_ok (g\<lparr>g_t1 := tv', g_t2 := vis'\<rparr>)" by (intro g_ok_t g v'(2,3))
  then show ?thesis using r tv(1) vis(1) v'(1) intersectsWith [OF T v'(3)]
    by (simp add: graph_isReachable_def v'(4) Int_commute)
qed

section \<open>Paths\<close>

lemma findPath_loop_run:
  assumes rec: "\<forall>a path. a < bv_kSize ops \<longrightarrow> off + n \<le> length path \<longrightarrow>
      (\<exists>res path'. graph_findPath ops g T n a off path = Some (res, path') \<and> found_path E (els T) n a off path res path')"
    and "\<forall>i\<in>set idxs. i < bv_kSize ops" and "off + n \<le> length path"
  shows "\<exists>res path'. graph_findPath_loop ops g T n idxs off path = Some (res, path') \<and>
    length path' = length path \<and> take off path' = take off path \<and>
    (if res = 0 then \<forall>i\<in>set idxs. \<forall>ns. length ns \<le> n \<longrightarrow> \<not> walk_to E (els T) i ns
     else res \<le> n + 1 \<and> (\<exists>i\<in>set idxs. walk_to E (els T) i (take (res - 1) (drop off path'))))"
  using assms(2,3)
proof (induction idxs arbitrary: path)
  case (Cons i idxs)
  obtain res path1 where r: "graph_findPath ops g T n i off path = Some (res, path1)"
    "found_path E (els T) n i off path res path1" using rec Cons.prems by (metis list.set_intros(1))
  then have len: "length path1 = length path" "take off path1 = take off path" by (simp_all add: found_path_def)
  show ?case
  proof (cases "res = 0")
    case False
    then show ?thesis using r len by (auto simp: found_path_def)
  next
    case True
    obtain res' path2 where "graph_findPath_loop ops g T n idxs off path1 = Some (res', path2)"
      "length path2 = length path1" "take off path2 = take off path1"
      "if res' = 0 then \<forall>i\<in>set idxs. \<forall>ns. length ns \<le> n \<longrightarrow> \<not> walk_to E (els T) i ns
       else res' \<le> n + 1 \<and> (\<exists>i\<in>set idxs. walk_to E (els T) i (take (res' - 1) (drop off path2)))"
      using Cons.IH [of path1] Cons.prems len by auto
    then show ?thesis using r True len by (auto simp: found_path_def split: if_splits)
  qed
qed simp

lemma findPath_run:
  assumes g: "g_ok g" and T: "inv T"
  shows "a < bv_kSize ops \<Longrightarrow> off + n \<le> length path \<Longrightarrow>
    \<exists>res path'. graph_findPath ops g T n a off path = Some (res, path') \<and> found_path (edges g) (els T) n a off path res path'"
proof (induction n arbitrary: a off path)
  case 0
  then show ?case by (simp add: found_path_def)
next
  case (Suc n)
  let ?p = "path[off := a]"
  have off: "off < length path" using Suc.prems by simp
  note r = graph_ok_row [OF g Suc.prems(1)]
  let ?is = "sorted_list_of_set (els (g_v g ! a))"
  have "inv (g_v g ! a)" using r by simp
  then have ix: "set ?is = edges g `` {a}" "bv_it_elems ops (bv_Iterator ops (g_v g ! a)) = Some ?is"
    using finite_els edge_iff [OF g Suc.prems(1)] iterate by auto
  show ?case
  proof (cases "a \<in> els T")
    case True
    have "take 1 (drop off ?p) = [a]" using off by (simp add: take_Suc_conv_app_nth)
    then show ?thesis using True off T Suc.prems(1)
      by (simp add: path_write_def getBit found_path_def walk_to_def take_Suc_conv_app_nth)
  next
    case False
    have "\<forall>i\<in>set ?is. i < bv_kSize ops" using ix(1) edge_bounds [OF g] by auto
    moreover have "off + 1 + n \<le> length ?p" using Suc.prems by simp
    ultimately obtain res path' where l: "graph_findPath_loop ops g T n ?is (off + 1) ?p = Some (res, path')"
      "length path' = length path" "take (off + 1) path' = take (off + 1) ?p"
      "if res = 0 then \<forall>i\<in>set ?is. \<forall>ns. length ns \<le> n \<longrightarrow> \<not> walk_to (edges g) (els T) i ns
       else res \<le> n + 1 \<and> (\<exists>i\<in>set ?is. walk_to (edges g) (els T) i (take (res - 1) (drop (off + 1) path')))"
      using findPath_loop_run [of "off + 1" n g T "edges g" ?is ?p] Suc.IH by auto
    have "path' ! off = take (off + 1) path' ! off" by simp
    also have "\<dots> = a" unfolding l(3) using off by simp
    finally have d: "drop off path' = a # drop (off + 1) path'" using off l(2) by (simp add: Cons_nth_drop_Suc [symmetric])
    have t: "take off path' = take off path"
    proof -
      have "take off (take (off + 1) path') = take off (take (off + 1) ?p)" using l(3) by simp
      then show ?thesis by (simp add: min_def)
    qed
    have "found_path (edges g) (els T) (Suc n) a off path res path'"
    proof (cases "res = 0")
      case True
      have "\<not> walk_to (edges g) (els T) a ns" if "length ns \<le> Suc n" for ns
        using that True l(4) ix(1) False by (cases ns) (auto simp: walk_to_Cons split: if_splits)
      then show ?thesis using True l(2) t by (simp add: found_path_def)
    next
      case res: False
      then obtain i where i: "(a, i) \<in> edges g" "walk_to (edges g) (els T) i (take (res - 1) (drop (off + 1) path'))"
        using l(4) ix(1) by (auto split: if_splits)
      then have "take res (drop off path') = a # take (res - 1) (drop (off + 1) path')"
        using res by (cases res) (simp_all add: d)
      moreover have "take (res - 1) (drop (off + 1) path') \<noteq> []" using i(2) by auto
      ultimately have "walk_to (edges g) (els T) a (take res (drop off path'))"
        using i by (simp add: walk_to_Cons del: take_eq_Nil) blast
      then show ?thesis using res l(2,4) t by (simp add: found_path_def)
    qed
    then show ?thesis using False off T Suc.prems(1) r ix(2) l(1)
      by (simp add: path_write_def getBit)
  qed
qed

text \<open>A shortest walk, by its number of nodes; 0 when none has at most \<open>n\<close> nodes.\<close>

lemma shortest_from_run:
  assumes g: "g_ok g" and T: "inv T" and a: "a < bv_kSize ops" and "n \<le> length path" and "0 < p"
    and "\<forall>ns. length ns < p \<longrightarrow> \<not> walk_to (edges g) (els T) a ns"
  shows "\<exists>res path'. graph_shortest_from ops g T n p a path = Some (res, path') \<and> length path' = length path \<and>
    (if res = 0 then \<forall>ns. length ns \<le> n \<longrightarrow> \<not> walk_to (edges g) (els T) a ns
     else res \<le> n \<and> walk_to (edges g) (els T) a (take res path') \<and>
       (\<forall>ns. walk_to (edges g) (els T) a ns \<longrightarrow> res \<le> length ns))"
  using assms(4-6)
proof (induction "Suc n - p" arbitrary: p path)
  case 0
  then show ?case by (subst graph_shortest_from.simps) auto
next
  case (Suc d)
  have p: "p \<le> n" using Suc(2) by simp
  obtain res path1 where f: "graph_findPath ops g T p a 0 path = Some (res, path1)"
    "found_path (edges g) (els T) p a 0 path res path1"
    using findPath_run [OF g T a, of 0 p path] Suc.prems(1) p by auto
  have len: "length path1 = length path" using f(2) by (simp add: found_path_def)
  show ?case
  proof (cases "res = p")
    case True
    have "walk_to (edges g) (els T) a (take p path1)"
      using f(2) True Suc.prems(2) by (simp add: found_path_def)
    moreover have "p \<le> length ns" if "walk_to (edges g) (els T) a ns" for ns
      using Suc.prems(3) that by (meson not_le)
    ultimately show ?thesis using f(1) True p len Suc.prems(2) by (subst graph_shortest_from.simps) simp
  next
    case False
    have "res = 0"
    proof (rule ccontr)
      assume "res \<noteq> 0"
      then have w: "res \<le> p" "walk_to (edges g) (els T) a (take res path1)" using f(2) by (simp_all add: found_path_def)
      then have "length (take res path1) < p" using False by simp
      then show False using w(2) Suc.prems(3) by blast
    qed
    then have none: "\<forall>ns. length ns < p + 1 \<longrightarrow> \<not> walk_to (edges g) (els T) a ns"
      using f(2) by (simp add: found_path_def less_Suc_eq_le)
    have "graph_shortest_from ops g T n p a path = graph_shortest_from ops g T n (p + 1) a path1"
      using f(1) False p by (subst graph_shortest_from.simps) simp
    then show ?thesis using Suc(1) [of "p + 1" path1] Suc(2) Suc.prems(1) len none p by auto
  qed
qed

lemma findShortestPath_run:
  assumes "g_ok g" and "inv T" and "a < bv_kSize ops" and "n \<le> length path"
  shows "\<exists>res path'. graph_findShortestPath ops a T path n g = Some (res, path') \<and> length path' = length path \<and>
    (if res = 0 then \<forall>ns. length ns \<le> n \<longrightarrow> \<not> walk_to (edges g) (els T) a ns
     else res \<le> n \<and> walk_to (edges g) (els T) a (take res path') \<and>
       (\<forall>ns. walk_to (edges g) (els T) a ns \<longrightarrow> res \<le> length ns))"
  unfolding graph_findShortestPath_def using assms by (intro shortest_from_run) auto

end

section \<open>The graph of the deadlock detector\<close>

text \<open>\<^verbatim>\<open>BVGraph<TwoLevelBitVector<k>>\<close>.\<close>

abbreviation tl_graph_ok :: "nat \<Rightarrow> TwoLevel BVGraph \<Rightarrow> bool" where
  "tl_graph_ok k \<equiv> graph_ok (tl_ops k) (tl_raw k) (tl_inv k)"

abbreviation tl_edges :: "nat \<Rightarrow> TwoLevel BVGraph \<Rightarrow> (nat \<times> nat) set" where
  "tl_edges k \<equiv> graph_edges (tl_els k)"

text \<open>
  C31: \<^verbatim>\<open>isReachable\<close> terminates, leaves the edges alone and returns true exactly when a target is
  reachable from \<open>from\<close> along edges (\<open>from\<close> itself counts as reachable).
\<close>

theorem graph_isReachable_correct:
  assumes "tl_graph_ok k g" and "from < 4096 * k" and "tl_inv k targets"
  shows "\<exists>g'. graph_isReachable (tl_ops k) from targets g =
      Some (\<exists>t\<in>tl_els k targets. (from, t) \<in> (tl_edges k g)\<^sup>*, g') \<and> tl_graph_ok k g' \<and> tl_edges k g' = tl_edges k g"
proof -
  have "((tl_edges k g)\<^sup>* `` {from} \<inter> tl_els k targets \<noteq> {}) = (\<exists>t\<in>tl_els k targets. (from, t) \<in> (tl_edges k g)\<^sup>*)" by blast
  then show ?thesis using two.isReachable_run [OF assms(1) _ assms(3), of "from"] assms(2) by simp
qed

text \<open>
  C32: \<^verbatim>\<open>findShortestPath\<close> terminates and returns the number of nodes of a shortest walk from
  \<open>from\<close> to a target, which it leaves in the buffer; it returns 0 exactly when no walk has
  \<open>path_size\<close> nodes or fewer.
\<close>

theorem graph_findShortestPath_correct:
  assumes "tl_graph_ok k g" and "from < 4096 * k" and "tl_inv k targets" and "path_size \<le> length path"
  shows "\<exists>res path'. graph_findShortestPath (tl_ops k) from targets path path_size g = Some (res, path') \<and>
    length path' = length path \<and>
    (if res = 0 then \<forall>ns. length ns \<le> path_size \<longrightarrow> \<not> walk_to (tl_edges k g) (tl_els k targets) from ns
     else res \<le> path_size \<and> walk_to (tl_edges k g) (tl_els k targets) from (take res path') \<and>
       (\<forall>ns. walk_to (tl_edges k g) (tl_els k targets) from ns \<longrightarrow> res \<le> length ns))"
  using two.findShortestPath_run [OF assms(1,3) _ assms(4)] assms(2) by simp

definition one_vector :: "uptr \<Rightarrow> TwoLevel" where
  "one_vector w = \<lparr>lev1 = [if w = 0 then 0 else 1], lev2 = [w # replicate 63 0]\<rparr>"

definition one_edge_graph :: "TwoLevel BVGraph" where
  "one_edge_graph = \<lparr>g_v = (replicate 4096 (one_vector 0))[3 := one_vector 32], g_t1 = one_vector 0, g_t2 = one_vector 0\<rparr>"

lemma one_vector_ok: "tl_inv 1 (one_vector w)" "tl_raw 1 (one_vector w)"
proof -
  have "basic_els (1 :: uptr) = {0}" using basic_els_exp [of 0] by simp
  then show "tl_inv 1 (one_vector w)" by (auto simp: tl_inv_def tl_raw_def one_vector_def)
  then show "tl_raw 1 (one_vector w)" by (simp add: tl_inv_def)
qed

lemma one_edge_graph_ok: "tl_graph_ok 1 one_edge_graph"
proof -
  have "tl_inv 1 ((replicate 4096 (one_vector 0))[3 := one_vector 32] ! i)" if "i < 4096" for i
    using that one_vector_ok by (simp add: nth_list_update)
  then show ?thesis using one_vector_ok by (simp add: graph_ok_def one_edge_graph_def)
qed

lemma graph_isReachable_correct_witness:
  "\<exists>g'. graph_isReachable (tl_ops 1) 3 (one_vector 32) one_edge_graph =
      Some (\<exists>t\<in>tl_els 1 (one_vector 32). (3, t) \<in> (tl_edges 1 one_edge_graph)\<^sup>*, g') \<and>
    tl_graph_ok 1 g' \<and> tl_edges 1 g' = tl_edges 1 one_edge_graph"
  by (rule graph_isReachable_correct [OF one_edge_graph_ok _ one_vector_ok(1)]) simp

lemma graph_findShortestPath_correct_witness:
  "\<exists>res path'. graph_findShortestPath (tl_ops 1) 3 (one_vector 32) [0, 0] 2 one_edge_graph = Some (res, path') \<and>
    length path' = length [0, 0 :: nat] \<and>
    (if res = 0 then \<forall>ns. length ns \<le> 2 \<longrightarrow> \<not> walk_to (tl_edges 1 one_edge_graph) (tl_els 1 (one_vector 32)) 3 ns
     else res \<le> 2 \<and> walk_to (tl_edges 1 one_edge_graph) (tl_els 1 (one_vector 32)) 3 (take res path') \<and>
       (\<forall>ns. walk_to (tl_edges 1 one_edge_graph) (tl_els 1 (one_vector 32)) 3 ns \<longrightarrow> res \<le> length ns))"
  by (rule graph_findShortestPath_correct [OF one_edge_graph_ok _ one_vector_ok(1)]) simp_all

end
