(* ===== verification/Deadlock_Detector.thy ===== *)
theory Deadlock_Detector
  imports Bv_Graph
begin

text \<open>
  \<^verbatim>\<open>DeadlockDetectorTLS\<close> and \<^verbatim>\<open>DeadlockDetector\<close> of \<^verbatim>\<open>sanitizer_deadlock_detector.h\<close>. Both are
  templates over the bit vector and take its operations \<open>bv\<close> as an argument. Lock ids, node
  ids and epochs are \<^verbatim>\<open>uptr\<close> values kept as natural numbers; the one sum that can wrap, the
  epoch, and the narrowing casts are written out. Fixed arrays are lists of their length
  together with the counter the code keeps.
\<close>

section \<open>Thread-local state\<close>

definition cast_u32 :: "nat \<Rightarrow> nat" where "cast_u32 x = x mod 2 ^ 32"
definition cast_u16 :: "nat \<Rightarrow> nat" where "cast_u16 x = x mod 2 ^ 16"

record LockWithContext =
  lwc_lock :: nat
  lwc_stk :: nat

record 'b TLS =
  tls_bv :: 'b
  tls_epoch :: nat
  recursive_locks :: "nat list"
  n_recursive_locks :: nat
  all_locks_with_contexts :: "LockWithContext list"
  n_all_locks :: nat

definition kRecursiveLocks :: nat where "kRecursiveLocks = 64"
definition kAllLocks :: nat where "kAllLocks = 128"

definition list_swap :: "'a list \<Rightarrow> nat \<Rightarrow> nat \<Rightarrow> 'a list" where
  "list_swap xs i j = xs[i := xs ! j, j := xs ! i]"

text \<open>The loops \<^verbatim>\<open>for (sptr i = n - 1; i >= 0; i--) if (p(a[i])) ...\<close> that stop at the last match.\<close>

fun find_down :: "('a \<Rightarrow> bool) \<Rightarrow> 'a list \<Rightarrow> nat \<Rightarrow> nat option" where
  "find_down p xs 0 = None"
| "find_down p xs (Suc i) = (if p (xs ! i) then Some i else find_down p xs i)"

definition tls_clear :: "('b, 'i) bv_ops \<Rightarrow> 'b TLS \<Rightarrow> 'b TLS" where
  "tls_clear bv t = t\<lparr>tls_bv := bv_clear bv (tls_bv t), tls_epoch := 0, n_recursive_locks := 0, n_all_locks := 0\<rparr>"

definition tls_empty :: "('b, 'i) bv_ops \<Rightarrow> 'b TLS \<Rightarrow> bool" where
  "tls_empty bv t = bv_empty bv (tls_bv t)"

definition tls_ensureCurrentEpoch :: "('b, 'i) bv_ops \<Rightarrow> nat \<Rightarrow> 'b TLS \<Rightarrow> 'b TLS" where
  "tls_ensureCurrentEpoch bv current_epoch t =
     (if tls_epoch t = current_epoch then t
      else t\<lparr>tls_bv := bv_clear bv (tls_bv t), tls_epoch := current_epoch, n_recursive_locks := 0, n_all_locks := 0\<rparr>)"

definition tls_addLock :: "('b, 'i) bv_ops \<Rightarrow> nat \<Rightarrow> nat \<Rightarrow> nat \<Rightarrow> 'b TLS \<Rightarrow> (bool \<times> 'b TLS) option" where
  "tls_addLock bv lock_id current_epoch stk t = do {
     CHECK (tls_epoch t = current_epoch);
     (new, b) \<leftarrow> bv_setBit bv lock_id (tls_bv t);
     let t = t\<lparr>tls_bv := b\<rparr>;
     if \<not> new then do {
       CHECK (n_recursive_locks t < kRecursiveLocks);
       Some (False, t\<lparr>recursive_locks := (recursive_locks t)[n_recursive_locks t := lock_id],
                      n_recursive_locks := n_recursive_locks t + 1\<rparr>)
     } else do {
       CHECK (n_all_locks t < kAllLocks);
       let l = \<lparr>lwc_lock = cast_u32 lock_id, lwc_stk = stk\<rparr>;
       Some (True, t\<lparr>all_locks_with_contexts := (all_locks_with_contexts t)[n_all_locks t := l],
                     n_all_locks := n_all_locks t + 1\<rparr>)
     }
   }"

definition tls_removeLock :: "('b, 'i) bv_ops \<Rightarrow> nat \<Rightarrow> 'b TLS \<Rightarrow> 'b TLS option" where
  "tls_removeLock bv lock_id t =
     (case find_down (\<lambda>l. l = lock_id) (recursive_locks t) (n_recursive_locks t) of
        Some i \<Rightarrow>
          let n = n_recursive_locks t - 1
          in Some (t\<lparr>n_recursive_locks := n, recursive_locks := list_swap (recursive_locks t) i n\<rparr>)
      | None \<Rightarrow> do {
          (cleared, b) \<leftarrow> bv_clearBit bv lock_id (tls_bv t);
          let t = t\<lparr>tls_bv := b\<rparr>;
          if \<not> cleared then Some t
          else (case find_down (\<lambda>l. lwc_lock l = cast_u32 lock_id) (all_locks_with_contexts t) (n_all_locks t) of
              Some i \<Rightarrow> Some (t\<lparr>all_locks_with_contexts := list_swap (all_locks_with_contexts t) i (n_all_locks t - 1),
                               n_all_locks := n_all_locks t - 1\<rparr>)
            | None \<Rightarrow> Some t)
        })"

definition tls_findLockContext :: "nat \<Rightarrow> 'b TLS \<Rightarrow> nat" where
  "tls_findLockContext lock_id t =
     (case List.find (\<lambda>l. lwc_lock l = cast_u32 lock_id) (take (n_all_locks t) (all_locks_with_contexts t)) of
        Some l \<Rightarrow> lwc_stk l
      | None \<Rightarrow> 0)"

definition tls_getLocks :: "nat \<Rightarrow> 'b TLS \<Rightarrow> 'b option" where
  "tls_getLocks current_epoch t = do { CHECK (tls_epoch t = current_epoch); Some (tls_bv t) }"

definition tls_getLock :: "nat \<Rightarrow> 'b TLS \<Rightarrow> nat" where
  "tls_getLock idx t = lwc_lock (all_locks_with_contexts t ! idx)"

section \<open>The detector\<close>

record Edge =
  e_from :: nat
  e_to :: nat
  e_stk_from :: nat
  e_stk_to :: nat
  e_unique_tid :: int

record 'b Detector =
  current_epoch :: nat
  available_nodes :: 'b
  recycled_nodes :: 'b
  tmp_bv :: 'b
  dd_g :: "'b BVGraph"
  dd_data :: "nat list"
  dd_edges :: "Edge list"
  n_edges :: nat

definition dd_clear :: "('b, 'i) bv_ops \<Rightarrow> 'b Detector \<Rightarrow> 'b Detector" where
  "dd_clear bv d = d\<lparr>current_epoch := 0, available_nodes := bv_clear bv (available_nodes d),
     recycled_nodes := bv_clear bv (recycled_nodes d), dd_g := graph_clear bv (dd_g d), n_edges := 0\<rparr>"

definition nodeToIndexUnchecked :: "('b, 'i) bv_ops \<Rightarrow> nat \<Rightarrow> nat" where
  "nodeToIndexUnchecked bv node = node mod bv_kSize bv"

definition nodeToEpoch :: "('b, 'i) bv_ops \<Rightarrow> nat \<Rightarrow> nat" where
  "nodeToEpoch bv node = node div bv_kSize bv * bv_kSize bv"

definition check_node :: "('b, 'i) bv_ops \<Rightarrow> 'b Detector \<Rightarrow> nat \<Rightarrow> unit option" where
  "check_node bv d node = do {
     CHECK (bv_kSize bv \<le> node);
     CHECK (current_epoch d = nodeToEpoch bv node);
     Some ()
   }"

definition nodeToIndex :: "('b, 'i) bv_ops \<Rightarrow> 'b Detector \<Rightarrow> nat \<Rightarrow> nat option" where
  "nodeToIndex bv d node = do { check_node bv d node; Some (nodeToIndexUnchecked bv node) }"

definition indexToNode :: "('b, 'i) bv_ops \<Rightarrow> 'b Detector \<Rightarrow> nat \<Rightarrow> nat option" where
  "indexToNode bv d idx = do { CHECK (idx < bv_kSize bv); Some (idx + current_epoch d) }"

definition getAvailableNode :: "('b, 'i) bv_ops \<Rightarrow> nat \<Rightarrow> 'b Detector \<Rightarrow> (nat \<times> 'b Detector) option" where
  "getAvailableNode bv data d = do {
     (idx, a) \<leftarrow> bv_getAndClearFirstOne bv (available_nodes d);
     let d = d\<lparr>available_nodes := a, dd_data := (dd_data d)[idx := data]\<rparr>;
     node \<leftarrow> indexToNode bv d idx;
     Some (node, d)
   }"

text \<open>The loop of \<^verbatim>\<open>newNode\<close> that drops the recorded edges of recycled nodes.\<close>

fun drop_recycled_edges ::
  "('b, 'i) bv_ops \<Rightarrow> 'b \<Rightarrow> nat \<Rightarrow> Edge list \<Rightarrow> nat \<Rightarrow> (Edge list \<times> nat) option" where
  "drop_recycled_edges bv recycled 0 es n = Some (es, n)"
| "drop_recycled_edges bv recycled (Suc i) es n = do {
     from \<leftarrow> bv_getBit bv (e_from (es ! i)) recycled;
     hit \<leftarrow> (if from then Some True else bv_getBit bv (e_to (es ! i)) recycled);
     if hit then drop_recycled_edges bv recycled i (list_swap es i (n - 1)) (n - 1)
     else drop_recycled_edges bv recycled i es n
   }"

definition newNode :: "('b, 'i) bv_ops \<Rightarrow> nat \<Rightarrow> 'b Detector \<Rightarrow> (nat \<times> 'b Detector) option" where
  "newNode bv data d =
     (if \<not> bv_empty bv (available_nodes d) then getAvailableNode bv data d
      else if \<not> bv_empty bv (recycled_nodes d) then do {
        (es, n) \<leftarrow> drop_recycled_edges bv (recycled_nodes d) (n_edges d) (dd_edges d) (n_edges d);
        let d = d\<lparr>dd_edges := es, n_edges := n\<rparr>;
        CHECK (bv_empty bv (available_nodes d));
        (_, g) \<leftarrow> graph_removeEdgesTo bv (recycled_nodes d) (dd_g d);
        (_, a) \<leftarrow> bv_setUnion bv (recycled_nodes d) (available_nodes d);
        let d = d\<lparr>dd_g := g, available_nodes := a, recycled_nodes := bv_clear bv (recycled_nodes d)\<rparr>;
        getAvailableNode bv data d
      } else
        let d = d\<lparr>current_epoch := (current_epoch d + bv_kSize bv) mod 2 ^ 64,
                  recycled_nodes := bv_clear bv (recycled_nodes d),
                  available_nodes := bv_setAll bv (available_nodes d),
                  dd_g := graph_clear bv (dd_g d), n_edges := 0\<rparr>
        in getAvailableNode bv data d)"

definition getData :: "('b, 'i) bv_ops \<Rightarrow> 'b Detector \<Rightarrow> nat \<Rightarrow> nat option" where
  "getData bv d node = do { idx \<leftarrow> nodeToIndex bv d node; Some (dd_data d ! idx) }"

definition nodeBelongsToCurrentEpoch :: "('b, 'i) bv_ops \<Rightarrow> 'b Detector \<Rightarrow> nat \<Rightarrow> bool" where
  "nodeBelongsToCurrentEpoch bv d node \<longleftrightarrow> node \<noteq> 0 \<and> node div bv_kSize bv * bv_kSize bv = current_epoch d"

definition removeNode :: "('b, 'i) bv_ops \<Rightarrow> nat \<Rightarrow> 'b Detector \<Rightarrow> 'b Detector option" where
  "removeNode bv node d = do {
     idx \<leftarrow> nodeToIndex bv d node;
     avail \<leftarrow> bv_getBit bv idx (available_nodes d);
     CHECK (\<not> avail);
     (new, r) \<leftarrow> bv_setBit bv idx (recycled_nodes d);
     CHECK new;
     g \<leftarrow> graph_removeEdgesFrom_node bv idx (dd_g d);
     Some (d\<lparr>recycled_nodes := r, dd_g := g\<rparr>)
   }"

definition ensureCurrentEpoch :: "('b, 'i) bv_ops \<Rightarrow> 'b Detector \<Rightarrow> 'b TLS \<Rightarrow> 'b TLS" where
  "ensureCurrentEpoch bv d t = tls_ensureCurrentEpoch bv (current_epoch d) t"

type_synonym 'b dd_state = "'b TLS \<times> 'b Detector"

definition onLockBefore :: "('b, 'i) bv_ops \<Rightarrow> nat \<Rightarrow> 'b dd_state \<Rightarrow> (bool \<times> 'b dd_state) option" where
  "onLockBefore bv cur_node = (\<lambda>(t, d). do {
     let t = ensureCurrentEpoch bv d t;
     cur_idx \<leftarrow> nodeToIndex bv d cur_node;
     locks \<leftarrow> tls_getLocks (current_epoch d) t;
     (res, g) \<leftarrow> graph_isReachable bv cur_idx locks (dd_g d);
     Some (res, t, d\<lparr>dd_g := g\<rparr>)
   })"

definition findLockContext :: "('b, 'i) bv_ops \<Rightarrow> nat \<Rightarrow> 'b dd_state \<Rightarrow> nat option" where
  "findLockContext bv node = (\<lambda>(t, d). do { idx \<leftarrow> nodeToIndex bv d node; Some (tls_findLockContext idx t) })"

definition onLockAfter :: "('b, 'i) bv_ops \<Rightarrow> nat \<Rightarrow> nat \<Rightarrow> 'b dd_state \<Rightarrow> 'b dd_state option" where
  "onLockAfter bv cur_node stk = (\<lambda>(t, d). do {
     let t = ensureCurrentEpoch bv d t;
     cur_idx \<leftarrow> nodeToIndex bv d cur_node;
     (_, t) \<leftarrow> tls_addLock bv cur_idx (current_epoch d) stk t;
     Some (t, d)
   })"

definition hasAllEdges :: "('b, 'i) bv_ops \<Rightarrow> nat \<Rightarrow> 'b dd_state \<Rightarrow> bool option" where
  "hasAllEdges bv cur_node = (\<lambda>(t, d).
     let local_epoch = tls_epoch t in
     if cur_node \<noteq> 0 \<and> local_epoch = current_epoch d \<and> local_epoch = nodeToEpoch bv cur_node then
       let cur_idx = nodeToIndexUnchecked bv cur_node in
       foldM (\<lambda>i all. if \<not> all then Some False else graph_hasEdge_racy bv (tls_getLock i t) cur_idx (dd_g d))
         [0..<n_all_locks t] True
     else Some False)"

definition max_added :: nat where "max_added = 40"

definition kEdges :: "('b, 'i) bv_ops \<Rightarrow> nat" where "kEdges bv = bv_kSize bv * 32"

definition record_edges ::
  "('b, 'i) bv_ops \<Rightarrow> 'b TLS \<Rightarrow> nat \<Rightarrow> nat \<Rightarrow> int \<Rightarrow> nat list \<Rightarrow> 'b Detector \<Rightarrow> 'b Detector" where
  "record_edges bv t cur_idx stk unique_tid added d =
     fold (\<lambda>from d.
       if n_edges d < kEdges bv then
         let e = \<lparr>e_from = cast_u16 from, e_to = cast_u16 cur_idx,
                  e_stk_from = tls_findLockContext from t, e_stk_to = stk, e_unique_tid = unique_tid\<rparr>
         in d\<lparr>dd_edges := (dd_edges d)[n_edges d := e], n_edges := n_edges d + 1\<rparr>
       else d) added d"

definition dd_addEdges ::
  "('b, 'i) bv_ops \<Rightarrow> nat \<Rightarrow> nat \<Rightarrow> int \<Rightarrow> 'b dd_state \<Rightarrow> (nat \<times> 'b dd_state) option" where
  "dd_addEdges bv cur_node stk unique_tid = (\<lambda>(t, d). do {
     let t = ensureCurrentEpoch bv d t;
     cur_idx \<leftarrow> nodeToIndex bv d cur_node;
     locks \<leftarrow> tls_getLocks (current_epoch d) t;
     (added, g) \<leftarrow> graph_addEdges bv locks cur_idx max_added (dd_g d);
     let d = record_edges bv t cur_idx stk unique_tid added (d\<lparr>dd_g := g\<rparr>);
     Some (length added, t, d)
   })"

definition findEdge :: "('b, 'i) bv_ops \<Rightarrow> nat \<Rightarrow> nat \<Rightarrow> 'b Detector \<Rightarrow> (nat \<times> nat \<times> int) option option" where
  \<comment> \<open>the outer \<open>None\<close> is a failed check, the inner one the result false\<close>
  "findEdge bv from_node to_node d = do {
     from_idx \<leftarrow> nodeToIndex bv d from_node;
     to_idx \<leftarrow> nodeToIndex bv d to_node;
     Some (map_option (\<lambda>e. (e_stk_from e, e_stk_to e, e_unique_tid e))
       (List.find (\<lambda>e. e_from e = from_idx \<and> e_to e = to_idx) (take (n_edges d) (dd_edges d))))
   }"

definition isHeld :: "('b, 'i) bv_ops \<Rightarrow> nat \<Rightarrow> 'b dd_state \<Rightarrow> bool option" where
  "isHeld bv node = (\<lambda>(t, d). do {
     locks \<leftarrow> tls_getLocks (current_epoch d) t;
     idx \<leftarrow> nodeToIndex bv d node;
     bv_getBit bv idx locks
   })"

definition onLock :: "('b, 'i) bv_ops \<Rightarrow> nat \<Rightarrow> nat \<Rightarrow> 'b dd_state \<Rightarrow> (bool \<times> 'b dd_state) option" where
  "onLock bv cur_node stk = (\<lambda>(t, d). do {
     let t = ensureCurrentEpoch bv d t;
     held \<leftarrow> isHeld bv cur_node (t, d);
     (is_reachable, s) \<leftarrow> (if \<not> held then onLockBefore bv cur_node (t, d) else Some (False, t, d));
     (_, s) \<leftarrow> dd_addEdges bv cur_node stk 0 s;
     s \<leftarrow> onLockAfter bv cur_node stk s;
     Some (is_reachable, s)
   })"

definition onTryLock :: "('b, 'i) bv_ops \<Rightarrow> nat \<Rightarrow> nat \<Rightarrow> 'b dd_state \<Rightarrow> (bool \<times> 'b dd_state) option" where
  "onTryLock bv cur_node stk = (\<lambda>(t, d). do {
     let t = ensureCurrentEpoch bv d t;
     cur_idx \<leftarrow> nodeToIndex bv d cur_node;
     (_, t) \<leftarrow> tls_addLock bv cur_idx (current_epoch d) stk t;
     Some (False, t, d)
   })"

definition onFirstLock :: "('b, 'i) bv_ops \<Rightarrow> nat \<Rightarrow> nat \<Rightarrow> 'b TLS \<Rightarrow> (bool \<times> 'b TLS) option" where
  "onFirstLock bv node stk t =
     (if \<not> tls_empty bv t then Some (False, t)
      else if tls_epoch t \<noteq> 0 \<and> tls_epoch t = nodeToEpoch bv node then do {
        (_, t) \<leftarrow> tls_addLock bv (nodeToIndexUnchecked bv node) (nodeToEpoch bv node) stk t;
        Some (True, t)
      } else Some (False, t))"

definition findPathToLock ::
  "('b, 'i) bv_ops \<Rightarrow> nat \<Rightarrow> nat list \<Rightarrow> nat \<Rightarrow> 'b dd_state \<Rightarrow> (nat \<times> nat list \<times> 'b dd_state) option" where
  "findPathToLock bv cur_node path path_size = (\<lambda>(t, d). do {
     locks \<leftarrow> tls_getLocks (current_epoch d) t;
     tmp \<leftarrow> bv_copyFrom bv locks (tmp_bv d);
     let d = d\<lparr>tmp_bv := tmp\<rparr>;
     idx \<leftarrow> nodeToIndex bv d cur_node;
     held \<leftarrow> bv_getBit bv idx tmp;
     CHECK (\<not> held);
     (res, path) \<leftarrow> graph_findShortestPath bv idx tmp path path_size (dd_g d);
     path \<leftarrow> foldM (\<lambda>i path. do { n \<leftarrow> indexToNode bv d (path ! i); Some (path[i := n]) }) [0..<res] path;
     CHECK (res = 0 \<or> path ! 0 = cur_node);
     Some (res, path, t, d)
   })"

definition onUnlock :: "('b, 'i) bv_ops \<Rightarrow> nat \<Rightarrow> 'b TLS \<Rightarrow> 'b TLS option" where
  "onUnlock bv node t =
     (if tls_epoch t = nodeToEpoch bv node then tls_removeLock bv (nodeToIndexUnchecked bv node) t else Some t)"

definition onLockFast :: "('b, 'i) bv_ops \<Rightarrow> nat \<Rightarrow> nat \<Rightarrow> 'b dd_state \<Rightarrow> (bool \<times> 'b dd_state) option" where
  "onLockFast bv node stk = (\<lambda>(t, d). do {
     all \<leftarrow> hasAllEdges bv node (t, d);
     if all then do {
       (_, t) \<leftarrow> tls_addLock bv (nodeToIndexUnchecked bv node) (nodeToEpoch bv node) stk t;
       Some (True, t, d)
     } else Some (False, t, d)
   })"

definition testOnlyHasEdge :: "('b, 'i) bv_ops \<Rightarrow> nat \<Rightarrow> nat \<Rightarrow> 'b Detector \<Rightarrow> bool option" where
  "testOnlyHasEdge bv l1 l2 d = do {
     i1 \<leftarrow> nodeToIndex bv d l1;
     i2 \<leftarrow> nodeToIndex bv d l2;
     graph_hasEdge_racy bv i1 i2 (dd_g d)
   }"

end
