(* ===== verification/Deadlock_Proofs.thy ===== *)
theory Deadlock_Proofs
  imports Deadlock_Detector "HOL-Library.Multiset"
begin

text \<open>
  What the deadlock detector guarantees: the thread-local part keeps the multiset of locks a
  thread holds, node allocation hands out fresh nodes, and a lock event is reported exactly
  when it closes a cycle in the lock order graph. The lemmas are proved over the bit vector
  interface and read off for \<^verbatim>\<open>TwoLevelBitVector<>\<close>, the vector the runtime instantiates.
\<close>

section \<open>Arrays with a counter\<close>

lemma find_down_Some: "find_down p xs n = Some i \<Longrightarrow> i < n \<and> p (xs ! i)"
  by (induction n) (auto split: if_splits)

lemma find_down_None: "find_down p xs n = None \<longleftrightarrow> (\<forall>i<n. \<not> p (xs ! i))"
  by (induction n) (auto simp: less_Suc_eq)

lemma take_list_swap:
  assumes "i < n" and "n \<le> length xs"
  shows "mset (take (n - 1) (list_swap xs i (n - 1))) = mset (take n xs) - {#xs ! i#}"
proof -
  define ys where "ys = take n xs"
  have ys: "length ys = n" "ys ! i = xs ! i" "i < length ys" using assms by (simp_all add: ys_def)
  have "take (n - 1) (list_swap xs i (n - 1)) = butlast (list_swap ys i (n - 1))"
    using assms by (simp add: list_swap_def ys_def butlast_conv_take take_update_swap nth_take)
  moreover have "list_swap ys i (n - 1) \<noteq> []" using ys assms by (auto simp: list_swap_def)
  then have "mset (butlast (list_swap ys i (n - 1))) = mset (list_swap ys i (n - 1)) - {#last (list_swap ys i (n - 1))#}"
    by (metis append_butlast_last_id mset_append mset_single_iff_right union_commute add_mset_add_single
        add_mset_remove_trivial mset.simps(1) mset.simps(2) add.right_neutral)
  moreover have "mset (list_swap ys i (n - 1)) = mset ys"
    unfolding list_swap_def using ys assms by (intro mset_swap) auto
  moreover have "last (list_swap ys i (n - 1)) = ys ! i"
    using ys assms by (subst last_conv_nth) (auto simp: list_swap_def)
  ultimately show ?thesis using ys(2) by (simp add: ys_def)
qed

lemma distinct_if_mset_set:
  assumes "mset xs = mset_set A" and "finite A"
  shows "distinct xs \<and> set xs = A"
proof
  show s: "set xs = A" using arg_cong [OF assms(1), of set_mset] assms(2) by simp
  show "distinct xs" unfolding distinct_count_atmost_1 using assms s by (simp add: count_mset_set')
qed

lemma take_append_update: "n < length xs \<Longrightarrow> take (n + 1) (xs[n := x]) = take n xs @ [x]"
  by (simp add: take_Suc_conv_app_nth)

lemma length_list_swap [simp]: "length (list_swap xs i j) = length xs"
  by (simp add: list_swap_def)

section \<open>The locks a thread holds\<close>

definition tls_ok :: "('b \<Rightarrow> bool) \<Rightarrow> ('b \<Rightarrow> nat set) \<Rightarrow> 'b TLS \<Rightarrow> bool" where
  "tls_ok ok els t \<longleftrightarrow> ok (tls_bv t) \<and>
     length (recursive_locks t) = kRecursiveLocks \<and> n_recursive_locks t \<le> kRecursiveLocks \<and>
     length (all_locks_with_contexts t) = kAllLocks \<and> n_all_locks t \<le> kAllLocks \<and>
     distinct (map lwc_lock (take (n_all_locks t) (all_locks_with_contexts t))) \<and>
     lwc_lock ` set (take (n_all_locks t) (all_locks_with_contexts t)) = els (tls_bv t) \<and>
     set (take (n_recursive_locks t) (recursive_locks t)) \<subseteq> els (tls_bv t)"

definition tls_held :: "('b \<Rightarrow> nat set) \<Rightarrow> 'b TLS \<Rightarrow> nat multiset" where
  "tls_held els t = mset_set (els (tls_bv t)) + mset (take (n_recursive_locks t) (recursive_locks t))"

text \<open>The bit vector of the runtime: its indices fit the casts of the code.\<close>

locale dd_bitvec = bitvec +
  assumes kSize_pos: "0 < bv_kSize ops" and kSize_u16: "bv_kSize ops \<le> 2 ^ 16"
begin

lemma cast_id: "i < bv_kSize ops \<Longrightarrow> cast_u16 i = i" "i < bv_kSize ops \<Longrightarrow> cast_u32 i = i"
  using kSize_u16 by (auto simp: cast_u16_def cast_u32_def)

abbreviation "t_ok \<equiv> tls_ok inv els"
abbreviation "held \<equiv> tls_held els"

lemma set_mset_held: "t_ok t \<Longrightarrow> set_mset (held t) = els (tls_bv t)"
  using finite_els by (auto simp: tls_ok_def tls_held_def)

lemma tls_clear_ok:
  assumes "raw (tls_bv t)" and "length (recursive_locks t) = kRecursiveLocks" and "length (all_locks_with_contexts t) = kAllLocks"
  shows "t_ok (tls_clear ops t)" and "held (tls_clear ops t) = {#}"
  using clear [OF assms(1)] assms(2,3) by (simp_all add: tls_ok_def tls_clear_def tls_held_def)

lemma tls_ensure_ok:
  assumes "t_ok t"
  shows "t_ok (tls_ensureCurrentEpoch ops e t)" and "tls_epoch (tls_ensureCurrentEpoch ops e t) = e"
    and "held (tls_ensureCurrentEpoch ops e t) = (if tls_epoch t = e then held t else {#})"
  using clear [OF inv_raw, of "tls_bv t"] assms by (simp_all add: tls_ok_def tls_ensureCurrentEpoch_def tls_held_def)

text \<open>A failed capacity check stops the program.\<close>

lemma tls_addLock_run:
  assumes t: "t_ok t" and l: "l < bv_kSize ops"
    and cap: "if l \<in> els (tls_bv t) then n_recursive_locks t < kRecursiveLocks else n_all_locks t < kAllLocks"
  shows "\<exists>t'. tls_addLock ops l (tls_epoch t) stk t = Some (l \<notin> els (tls_bv t), t') \<and> t_ok t' \<and>
    tls_epoch t' = tls_epoch t \<and> held t' = add_mset l (held t)"
proof -
  have i: "inv (tls_bv t)" using t by (simp add: tls_ok_def)
  obtain b where b: "bv_setBit ops l (tls_bv t) = Some (l \<notin> els (tls_bv t), b)" "inv b" "els b = insert l (els (tls_bv t))"
    using setBit [OF i l] by blast
  show ?thesis
  proof (cases "l \<in> els (tls_bv t)")
    case True
    let ?t = "t\<lparr>tls_bv := b, recursive_locks := (recursive_locks t)[n_recursive_locks t := l], n_recursive_locks := n_recursive_locks t + 1\<rparr>"
    have "n_recursive_locks t < length (recursive_locks t)" using True cap t by (simp add: tls_ok_def)
    note u = take_append_update [OF this, of l]
    have "t_ok ?t" using t True b(2,3) cap u by (auto simp: tls_ok_def)
    moreover have "held ?t = add_mset l (held t)" using True u b(3) by (simp add: tls_held_def insert_absorb)
    ultimately show ?thesis using True b(1) cap by (simp add: tls_addLock_def)
  next
    case False
    let ?t = "t\<lparr>tls_bv := b, all_locks_with_contexts := (all_locks_with_contexts t)[n_all_locks t := \<lparr>lwc_lock = l, lwc_stk = stk\<rparr>],
        n_all_locks := n_all_locks t + 1\<rparr>"
    have "n_all_locks t < length (all_locks_with_contexts t)" using False cap t by (simp add: tls_ok_def)
    note u = take_append_update [OF this, of "\<lparr>lwc_lock = l, lwc_stk = stk\<rparr>"]
    have "t_ok ?t" using t False b(2,3) cap u by (auto simp: tls_ok_def)
    moreover have "held ?t = add_mset l (held t)" using False b(3) finite_els [OF i] by (simp add: tls_held_def)
    ultimately show ?thesis using False b(1) cap by (simp add: tls_addLock_def cast_id [OF l])
  qed
qed

lemma tls_removeLock_run:
  assumes t: "t_ok t" and l: "l < bv_kSize ops"
  shows "\<exists>t'. tls_removeLock ops l t = Some t' \<and> t_ok t' \<and> tls_epoch t' = tls_epoch t \<and> held t' = held t - {#l#}"
proof -
  have i: "inv (tls_bv t)" and len: "n_recursive_locks t \<le> length (recursive_locks t)"
      "n_all_locks t \<le> length (all_locks_with_contexts t)" using t by (auto simp: tls_ok_def)
  show ?thesis
  proof (cases "find_down (\<lambda>x. x = l) (recursive_locks t) (n_recursive_locks t)")
    case (Some j)
    then have j: "j < n_recursive_locks t" "recursive_locks t ! j = l" using find_down_Some by blast+
    let ?n = "n_recursive_locks t - 1"
    let ?t = "t\<lparr>n_recursive_locks := ?n, recursive_locks := list_swap (recursive_locks t) j ?n\<rparr>"
    note sw = take_list_swap [OF j(1) len(1), unfolded j(2)]
    have lin: "l \<in># mset (take (n_recursive_locks t) (recursive_locks t))"
      using j len by (auto simp: in_set_conv_nth intro!: exI [of _ j])
    have "held ?t = held t - {#l#}" using sw lin by (simp add: tls_held_def)
    moreover have "set (take ?n (list_swap (recursive_locks t) j ?n)) \<subseteq> els (tls_bv t)"
      using arg_cong [OF sw, of set_mset] t by (auto simp: tls_ok_def dest!: in_diffD)
    then have "t_ok ?t" using t by (auto simp: tls_ok_def)
    ultimately show ?thesis using Some by (simp add: tls_removeLock_def Let_def)
  next
    case None
    then have nrec: "l \<notin> set (take (n_recursive_locks t) (recursive_locks t))"
      using len by (auto simp: find_down_None in_set_conv_nth)
    obtain b where b: "bv_clearBit ops l (tls_bv t) = Some (l \<in> els (tls_bv t), b)" "inv b" "els b = els (tls_bv t) - {l}"
      using clearBit [OF i l] by blast
    show ?thesis
    proof (cases "l \<in> els (tls_bv t)")
      case False
      have "t_ok (t\<lparr>tls_bv := b\<rparr>)" using t b False by (simp add: tls_ok_def)
      moreover have "l \<notin># held t" using False nrec finite_els [OF i] by (simp add: tls_held_def)
      then have "held (t\<lparr>tls_bv := b\<rparr>) = held t - {#l#}" using b False by (simp add: tls_held_def diff_single_trivial)
      ultimately show ?thesis using None b(1) False by (simp add: tls_removeLock_def)
    next
      case True
      let ?as = "all_locks_with_contexts t" and ?n = "n_all_locks t"
      have "l \<in> lwc_lock ` set (take ?n ?as)" using t True by (simp add: tls_ok_def)
      then obtain j0 where "j0 < ?n" "lwc_lock (?as ! j0) = l" using len by (auto simp: in_set_conv_nth)
      then obtain j where j: "find_down (\<lambda>x. lwc_lock x = l) ?as ?n = Some j"
        by (cases "find_down (\<lambda>x. lwc_lock x = l) ?as ?n") (auto simp: find_down_None)
      then have jn: "j < ?n" "lwc_lock (?as ! j) = l" using find_down_Some by blast+
      define as' where "as' = take (?n - 1) (list_swap ?as j (?n - 1))"
      have sw: "mset as' = mset (take ?n ?as) - {#?as ! j#}" unfolding as'_def by (rule take_list_swap [OF jn(1) len(2)])
      have mem: "?as ! j \<in># mset (take ?n ?as)" using jn len by (auto simp: in_set_conv_nth intro!: exI [of _ j])
      have m: "mset (map lwc_lock as') = mset (map lwc_lock (take ?n ?as)) - {#l#}"
        using mem by (simp add: sw image_mset_Diff jn(2))
      have d: "distinct (map lwc_lock (take ?n ?as))" using t by (simp add: tls_ok_def)
      have "mset (map lwc_lock as') = mset_set (els (tls_bv t) - {l})"
      proof -
        have "mset (map lwc_lock (take ?n ?as)) = mset_set (els (tls_bv t))"
          using mset_set_set [OF d] t by (simp add: tls_ok_def)
        then show ?thesis using m True finite_els [OF i] by (simp add: mset_set_Diff)
      qed
      then have "distinct (map lwc_lock as')" "set (map lwc_lock as') = els (tls_bv t) - {l}"
        using distinct_if_mset_set finite_els [OF i] by blast+
      then have "t_ok (t\<lparr>tls_bv := b, all_locks_with_contexts := list_swap ?as j (?n - 1), n_all_locks := ?n - 1\<rparr>)"
        using t b nrec by (auto simp: tls_ok_def as'_def)
      moreover have "held (t\<lparr>tls_bv := b, all_locks_with_contexts := list_swap ?as j (?n - 1), n_all_locks := ?n - 1\<rparr>) = held t - {#l#}"
        using True b(3) finite_els [OF i] by (simp add: tls_held_def mset_set_Diff)
      ultimately show ?thesis using None b(1) True j by (simp add: tls_removeLock_def cast_id [OF l])
    qed
  qed
qed

end

section \<open>Nodes\<close>

definition edge_ok :: "nat \<Rightarrow> Edge \<Rightarrow> bool" where
  "edge_ok n e \<longleftrightarrow> e_from e < n \<and> e_to e < n"

definition dd_ok :: "('b, 'i) bv_ops \<Rightarrow> ('b \<Rightarrow> bool) \<Rightarrow> ('b \<Rightarrow> bool) \<Rightarrow> ('b \<Rightarrow> nat set) \<Rightarrow> 'b Detector \<Rightarrow> bool" where
  "dd_ok bv raw ok els d \<longleftrightarrow> graph_ok bv raw ok (dd_g d) \<and> ok (available_nodes d) \<and> ok (recycled_nodes d) \<and>
     raw (tmp_bv d) \<and> els (available_nodes d) \<inter> els (recycled_nodes d) = {} \<and>
     length (dd_data d) = bv_kSize bv \<and> length (dd_edges d) = kEdges bv \<and> n_edges d \<le> kEdges bv \<and>
     list_all (edge_ok (bv_kSize bv)) (take (n_edges d) (dd_edges d)) \<and> bv_kSize bv dvd current_epoch d \<and>
     (current_epoch d = 0 \<longrightarrow> els (available_nodes d) = {} \<and> els (recycled_nodes d) = {})"

text \<open>The indices that name no lock.\<close>

definition dd_free :: "('b \<Rightarrow> nat set) \<Rightarrow> 'b Detector \<Rightarrow> nat set" where
  "dd_free els d = els (available_nodes d) \<union> els (recycled_nodes d)"

context dd_bitvec
begin

abbreviation "d_ok \<equiv> dd_ok ops raw inv els"
abbreviation "free \<equiv> dd_free els"

lemma drop_recycled_run:
  assumes r: "inv r" and "i \<le> n" and "n \<le> length es" and "list_all (edge_ok (bv_kSize ops)) (take n es)"
    and "\<forall>j. i \<le> j \<longrightarrow> j < n \<longrightarrow> e_from (es ! j) \<notin> els r \<and> e_to (es ! j) \<notin> els r"
  shows "\<exists>es' n'. drop_recycled_edges ops r i es n = Some (es', n') \<and> length es' = length es \<and> n' \<le> n \<and>
    mset (take n' es') = filter_mset (\<lambda>e. e_from e \<notin> els r \<and> e_to e \<notin> els r) (mset (take n es))"
  using assms(2-5)
proof (induction i arbitrary: es n)
  case 0
  then have "filter_mset (\<lambda>e. e_from e \<notin> els r \<and> e_to e \<notin> els r) (mset (take n es)) = mset (take n es)"
    by (auto simp: filter_mset_eq_conv in_set_conv_nth)
  then show ?case by simp
next
  case (Suc i)
  let ?hit = "\<lambda>e. e_from e \<in> els r \<or> e_to e \<in> els r"
  have mem: "es ! i \<in> set (take n es)" using Suc.prems(1,2) by (auto simp: in_set_conv_nth intro!: exI [of _ i])
  then have ok: "e_from (es ! i) < bv_kSize ops" "e_to (es ! i) < bv_kSize ops"
    using Suc.prems(3) by (auto simp: list_all_iff edge_ok_def)
  show ?case
  proof (cases "?hit (es ! i)")
    case False
    have "\<forall>j. i \<le> j \<longrightarrow> j < n \<longrightarrow> e_from (es ! j) \<notin> els r \<and> e_to (es ! j) \<notin> els r"
      using Suc.prems(4) False by (metis Suc_leI le_neq_implies_less)
    then show ?thesis using Suc.IH [of n es] Suc.prems(1-3) False ok r by (simp add: getBit)
  next
    case True
    let ?es = "list_swap es i (n - 1)"
    have sw: "mset (take (n - 1) ?es) = mset (take n es) - {#es ! i#}"
      by (rule take_list_swap) (use Suc.prems in auto)
    have sub: "set (take (n - 1) ?es) \<subseteq> set (take n es)"
      using arg_cong [OF sw, of set_mset] by (auto dest!: in_diffD)
    have "\<exists>es' n'. drop_recycled_edges ops r i ?es (n - 1) = Some (es', n') \<and> length es' = length ?es \<and> n' \<le> n - 1 \<and>
        mset (take n' es') = filter_mset (\<lambda>e. e_from e \<notin> els r \<and> e_to e \<notin> els r) (mset (take (n - 1) ?es))"
    proof (rule Suc.IH)
      show "list_all (edge_ok (bv_kSize ops)) (take (n - 1) ?es)" using sub Suc.prems(3) by (auto simp: list_all_iff)
      show "\<forall>j. i \<le> j \<longrightarrow> j < n - 1 \<longrightarrow> e_from (?es ! j) \<notin> els r \<and> e_to (?es ! j) \<notin> els r"
      proof (intro allI impI)
        fix j assume j: "i \<le> j" "j < n - 1"
        have "?es ! j = es ! (if j = i then n - 1 else j)"
          using j Suc.prems(2) by (auto simp: list_swap_def nth_list_update)
        moreover have "Suc i \<le> (if j = i then n - 1 else j)" "(if j = i then n - 1 else j) < n"
          using j Suc.prems(1) by auto
        ultimately show "e_from (?es ! j) \<notin> els r \<and> e_to (?es ! j) \<notin> els r" using Suc.prems(4) by metis
      qed
    qed (use Suc.prems in auto)
    moreover have "filter_mset (\<lambda>e. e_from e \<notin> els r \<and> e_to e \<notin> els r) (mset (take (n - 1) ?es)) =
        filter_mset (\<lambda>e. e_from e \<notin> els r \<and> e_to e \<notin> els r) (mset (take n es))"
      unfolding sw using True by (auto simp: multiset_eq_iff)
    ultimately show ?thesis using True ok r by (auto simp: getBit)
  qed
qed

lemma getAvailable_run:
  assumes d: "d_ok d" and ne: "els (available_nodes d) \<noteq> {}"
  shows "\<exists>idx d'. getAvailableNode ops data d = Some (idx + current_epoch d, d') \<and> d_ok d' \<and>
    idx \<in> els (available_nodes d) \<and> els (available_nodes d') = els (available_nodes d) - {idx} \<and>
    recycled_nodes d' = recycled_nodes d \<and> current_epoch d' = current_epoch d \<and> dd_g d' = dd_g d \<and>
    dd_data d' = (dd_data d)[idx := data]"
proof -
  have i: "inv (available_nodes d)" using d by (simp add: dd_ok_def)
  let ?i = "Min (els (available_nodes d))"
  obtain a where a: "bv_getAndClearFirstOne ops (available_nodes d) = Some (?i, a)" "inv a"
    "els a = els (available_nodes d) - {?i}" using first [OF i ne] by blast
  have m: "?i \<in> els (available_nodes d)" using ne finite_els [OF i] by simp
  then have "?i < bv_kSize ops" using els_bound [OF i] by auto
  moreover have "d_ok (d\<lparr>available_nodes := a, dd_data := (dd_data d)[?i := data]\<rparr>)"
    using d a by (auto simp: dd_ok_def)
  ultimately show ?thesis using a m
    by (intro exI [of _ ?i] exI [of _ "d\<lparr>available_nodes := a, dd_data := (dd_data d)[?i := data]\<rparr>"])
      (simp add: getAvailableNode_def indexToNode_def)
qed

text \<open>The three sources of a node: an available one, the recycled ones, a new epoch.\<close>

lemma newNode_run:
  assumes d: "d_ok d" and e: "current_epoch d + bv_kSize ops < 2 ^ 64"
  shows "\<exists>idx d'. newNode ops data d = Some (idx + current_epoch d', d') \<and> d_ok d' \<and> idx < bv_kSize ops \<and>
    0 < current_epoch d' \<and> dd_data d' = (dd_data d)[idx := data] \<and>
    (if free d \<noteq> {} then current_epoch d' = current_epoch d \<and> idx \<in> free d \<and> free d' = free d - {idx} \<and>
       edges (dd_g d') = (if els (available_nodes d) \<noteq> {} then edges (dd_g d) else edges (dd_g d) - UNIV \<times> els (recycled_nodes d))
     else current_epoch d' = current_epoch d + bv_kSize ops \<and> free d' = {..<bv_kSize ops} - {idx} \<and> edges (dd_g d') = {})"
proof -
  have ok: "inv (available_nodes d)" "inv (recycled_nodes d)" "g_ok (dd_g d)" using d by (auto simp: dd_ok_def)
  have bound: "idx < bv_kSize ops" if "idx \<in> els b" "inv b" for idx b using that els_bound by blast
  consider (avail) "els (available_nodes d) \<noteq> {}"
    | (rec) "els (available_nodes d) = {}" "els (recycled_nodes d) \<noteq> {}"
    | (flush) "els (available_nodes d) = {}" "els (recycled_nodes d) = {}" by blast
  then show ?thesis
  proof cases
    case avail
    obtain idx d' where n: "getAvailableNode ops data d = Some (idx + current_epoch d, d')" "d_ok d'"
      "idx \<in> els (available_nodes d)" "els (available_nodes d') = els (available_nodes d) - {idx}"
      "recycled_nodes d' = recycled_nodes d" "current_epoch d' = current_epoch d" "dd_g d' = dd_g d"
      "dd_data d' = (dd_data d)[idx := data]" using getAvailable_run [OF d avail] by blast
    have "idx \<notin> els (recycled_nodes d)" "0 < current_epoch d" using d n(3) by (auto simp: dd_ok_def)
    then show ?thesis using avail n ok(1) bound [OF n(3) ok(1)]
      by (intro exI [of _ idx] exI [of _ d']) (auto simp: newNode_def empty_iff dd_free_def)
  next
    case rec
    have "list_all (edge_ok (bv_kSize ops)) (take (n_edges d) (dd_edges d))" "n_edges d \<le> length (dd_edges d)"
      using d by (auto simp: dd_ok_def)
    then obtain es n where es: "drop_recycled_edges ops (recycled_nodes d) (n_edges d) (dd_edges d) (n_edges d) = Some (es, n)"
      "length es = length (dd_edges d)" "n \<le> n_edges d" "set (take n es) \<subseteq> set (take (n_edges d) (dd_edges d))"
      using drop_recycled_run [OF ok(2), of "n_edges d" "n_edges d" "dd_edges d"]
      by (auto simp del: set_mset_mset simp flip: set_mset_mset)
    obtain g u where g: "graph_removeEdgesTo ops (recycled_nodes d) (dd_g d) = Some (u, g)" "g_ok g"
      "edges g = edges (dd_g d) - UNIV \<times> els (recycled_nodes d)" using removeEdgesTo_run [OF ok(3,2)] by blast
    obtain a v where a: "bv_setUnion ops (recycled_nodes d) (available_nodes d) = Some (v, a)" "inv a"
      "els a = els (recycled_nodes d)" using setUnion [OF ok(1,2)] rec(1) by auto
    define d1 where "d1 = d\<lparr>dd_edges := es, n_edges := n, dd_g := g, available_nodes := a,
        recycled_nodes := bv_clear ops (recycled_nodes d)\<rparr>"
    have "d_ok d1" using d es g a clear [OF inv_raw [OF ok(2)]] rec
      by (auto simp: dd_ok_def d1_def list_all_iff)
    moreover have "els (available_nodes d1) \<noteq> {}" using rec(2) a(3) by (simp add: d1_def)
    ultimately obtain idx d' where n: "getAvailableNode ops data d1 = Some (idx + current_epoch d1, d')" "d_ok d'"
      "idx \<in> els (available_nodes d1)" "els (available_nodes d') = els (available_nodes d1) - {idx}"
      "recycled_nodes d' = recycled_nodes d1" "current_epoch d' = current_epoch d1" "dd_g d' = dd_g d1"
      "dd_data d' = (dd_data d1)[idx := data]" using getAvailable_run by blast
    have "newNode ops data d = getAvailableNode ops data d1"
      using rec ok es(1) g(1) a(1) by (simp add: newNode_def empty_iff d1_def)
    moreover have "0 < current_epoch d" using d rec by (auto simp: dd_ok_def)
    moreover have "idx < bv_kSize ops" by (rule bound [of idx a]) (use n(3) a in \<open>simp_all add: d1_def\<close>)
    ultimately show ?thesis using n rec a(3) g(3) clear [OF inv_raw [OF ok(2)]]
      by (intro exI [of _ idx] exI [of _ d']) (auto simp: dd_free_def d1_def)
  next
    case flush
    define d1 where "d1 = d\<lparr>current_epoch := (current_epoch d + bv_kSize ops) mod 2 ^ 64,
                  recycled_nodes := bv_clear ops (recycled_nodes d),
                  available_nodes := bv_setAll ops (available_nodes d),
                  dd_g := graph_clear ops (dd_g d), n_edges := 0\<rparr>"
    have ep: "current_epoch d1 = current_epoch d + bv_kSize ops" using e by (simp add: d1_def)
    have g: "g_ok (graph_clear ops (dd_g d))" "edges (graph_clear ops (dd_g d)) = {}"
      using clear_run [of "dd_g d"] ok(3) inv_raw by (auto simp: graph_ok_def)
    have "d_ok d1" using d g setAll [OF inv_raw [OF ok(1)]] clear [OF inv_raw [OF ok(2)]] kSize_pos e
      by (auto simp: dd_ok_def d1_def)
    moreover have av: "els (available_nodes d1) = {..<bv_kSize ops}"
      using setAll [OF inv_raw [OF ok(1)]] by (simp add: d1_def)
    ultimately obtain idx d' where n: "getAvailableNode ops data d1 = Some (idx + current_epoch d1, d')" "d_ok d'"
      "idx \<in> els (available_nodes d1)" "els (available_nodes d') = els (available_nodes d1) - {idx}"
      "recycled_nodes d' = recycled_nodes d1" "current_epoch d' = current_epoch d1" "dd_g d' = dd_g d1"
      "dd_data d' = (dd_data d1)[idx := data]" using getAvailable_run kSize_pos by blast
    have "newNode ops data d = getAvailableNode ops data d1"
      using flush ok by (simp add: newNode_def empty_iff d1_def Let_def)
    then show ?thesis using n flush av ep g(2) kSize_pos clear [OF inv_raw [OF ok(2)]]
      by (intro exI [of _ idx] exI [of _ d']) (auto simp: dd_free_def d1_def)
  qed
qed

lemma nodeToIndex_iff:
  "nodeToIndex ops d node = Some c \<longleftrightarrow> bv_kSize ops \<le> node \<and> current_epoch d = nodeToEpoch ops node \<and> c = node mod bv_kSize ops"
  by (auto simp: nodeToIndex_def check_node_def nodeToIndexUnchecked_def bind_eq_Some_conv CHECK_Some_iff)

lemma nodeToIndex_less: "nodeToIndex ops d node = Some c \<Longrightarrow> c < bv_kSize ops"
  using kSize_pos by (simp add: nodeToIndex_iff)

lemma newNode_index:
  assumes "bv_kSize ops dvd e" and "0 < e" and "idx < bv_kSize ops" and "current_epoch d = e"
  shows "nodeToIndex ops d (idx + e) = Some idx"
proof -
  obtain q where q: "e = bv_kSize ops * q" using assms(1) by (auto elim: dvdE)
  then have "(idx + e) div bv_kSize ops = q" "(idx + e) mod bv_kSize ops = idx" using assms(3) by simp_all
  moreover have "bv_kSize ops \<le> idx + e" using assms(2) q by (cases q) auto
  ultimately show ?thesis using assms(4) q by (simp add: nodeToIndex_iff nodeToEpoch_def mult.commute)
qed

lemma removeNode_run:
  assumes d: "d_ok d" and c: "nodeToIndex ops d node = Some c"
  shows "if c \<in> free d then removeNode ops node d = None
    else \<exists>d'. removeNode ops node d = Some d' \<and> d_ok d' \<and> free d' = insert c (free d) \<and>
      current_epoch d' = current_epoch d \<and> dd_data d' = dd_data d \<and> edges (dd_g d') = edges (dd_g d) - {c} \<times> UNIV"
proof -
  note cb = nodeToIndex_less [OF c]
  have ok: "inv (available_nodes d)" "inv (recycled_nodes d)" "g_ok (dd_g d)" using d by (auto simp: dd_ok_def)
  obtain r where r: "bv_setBit ops c (recycled_nodes d) = Some (c \<notin> els (recycled_nodes d), r)" "inv r"
    "els r = insert c (els (recycled_nodes d))" using setBit [OF ok(2) cb] by blast
  obtain g where g: "graph_removeEdgesFrom_node ops c (dd_g d) = Some g" "g_ok g" "edges g = edges (dd_g d) - {c} \<times> UNIV"
    using removeEdgesFrom_node_run [OF ok(3) cb] by blast
  show ?thesis
  proof (cases "c \<in> free d")
    case True
    then show ?thesis using c r getBit [OF ok(1) cb]
      by (cases "c \<in> els (available_nodes d)") (auto simp: removeNode_def dd_free_def)
  next
    case False
    then have n: "c \<notin> els (available_nodes d)" "c \<notin> els (recycled_nodes d)" by (auto simp: dd_free_def)
    have "0 < current_epoch d" using c kSize_pos by (auto simp: nodeToIndex_iff nodeToEpoch_def div_greater_zero_iff)
    then have "d_ok (d\<lparr>recycled_nodes := r, dd_g := g\<rparr>)" using d r g n by (auto simp: dd_ok_def)
    then show ?thesis using False c r g n getBit [OF ok(1) cb]
      by (auto simp: removeNode_def dd_free_def intro!: exI [of _ "d\<lparr>recycled_nodes := r, dd_g := g\<rparr>"])
  qed
qed

section \<open>Lock events\<close>

lemma addLock_over:
  assumes t: "t_ok t" and l: "l < bv_kSize ops"
    and "\<not> (if l \<in> els (tls_bv t) then n_recursive_locks t < kRecursiveLocks else n_all_locks t < kAllLocks)"
  shows "tls_addLock ops l e stk t = None"
proof -
  obtain b where "bv_setBit ops l (tls_bv t) = Some (l \<notin> els (tls_bv t), b)"
    using setBit [OF _ l, of "tls_bv t"] t by (auto simp: tls_ok_def)
  then show ?thesis using assms(3) by (cases "tls_epoch t = e") (auto simp: tls_addLock_def split: if_splits)
qed

lemma record_edges_ok:
  assumes "d_ok d" and "\<forall>a\<in>set added. a < bv_kSize ops" and "c < bv_kSize ops"
  shows "d_ok (record_edges ops t c stk tid added d)" and "dd_g (record_edges ops t c stk tid added d) = dd_g d"
    and "current_epoch (record_edges ops t c stk tid added d) = current_epoch d"
    and "free (record_edges ops t c stk tid added d) = free d"
proof -
  let ?P = "\<lambda>d'. d_ok d' \<and> dd_g d' = dd_g d \<and> current_epoch d' = current_epoch d \<and> free d' = free d"
  have "?P (record_edges ops t c stk tid added d)"
    unfolding record_edges_def
  proof (rule fold_invariant [where Q = "\<lambda>a. a < bv_kSize ops"])
    show "?P d" using assms(1) by simp
  next
    fix a d' assume a: "a < bv_kSize ops" and P: "?P d'"
    let ?e = "\<lparr>e_from = cast_u16 a, e_to = cast_u16 c, e_stk_from = tls_findLockContext a t, e_stk_to = stk, e_unique_tid = tid\<rparr>"
    have "edge_ok (bv_kSize ops) ?e" using a assms(3) by (simp add: edge_ok_def cast_id)
    then have "d_ok (d'\<lparr>dd_edges := (dd_edges d')[n_edges d' := ?e], n_edges := n_edges d' + 1\<rparr>)" if "n_edges d' < kEdges ops"
      using P that by (auto simp: dd_ok_def take_append_update [unfolded Suc_eq_plus1 [symmetric]])
    then show "?P (if n_edges d' < kEdges ops then let e = ?e in
        d'\<lparr>dd_edges := (dd_edges d')[n_edges d' := e], n_edges := n_edges d' + 1\<rparr> else d')"
      using P by (simp add: dd_free_def)
  qed (use assms in auto)
  then show "d_ok (record_edges ops t c stk tid added d)" "dd_g (record_edges ops t c stk tid added d) = dd_g d"
    "current_epoch (record_edges ops t c stk tid added d) = current_epoch d"
    "free (record_edges ops t c stk tid added d) = free d" by auto
qed

lemma dd_addEdges_run:
  assumes t: "t_ok t" and d: "d_ok d" and c: "nodeToIndex ops d node = Some c"
  defines "t1 \<equiv> ensureCurrentEpoch ops d t"
  shows "\<exists>n d'. dd_addEdges ops node stk tid (t, d) = Some (n, t1, d') \<and> d_ok d' \<and>
    current_epoch d' = current_epoch d \<and> free d' = free d \<and> edges (dd_g d') = edges (dd_g d) \<union> set_mset (held t1) \<times> {c} \<and>
    n = min max_added (card {h \<in> set_mset (held t1). (h, c) \<notin> edges (dd_g d)})"
proof -
  have t1: "t_ok t1" "tls_epoch t1 = current_epoch d" unfolding t1_def ensureCurrentEpoch_def by (rule tls_ensure_ok [OF t])+
  have i: "inv (tls_bv t1)" and gok: "g_ok (dd_g d)" using t1(1) d by (auto simp: tls_ok_def dd_ok_def)
  note cb = nodeToIndex_less [OF c]
  define added where "added = take max_added (filter (\<lambda>n. (n, c) \<notin> edges (dd_g d)) (sorted_list_of_set (els (tls_bv t1))))"
  obtain g where g: "graph_addEdges ops (tls_bv t1) c max_added (dd_g d) = Some (added, g)" "g_ok g"
    "edges g = edges (dd_g d) \<union> els (tls_bv t1) \<times> {c}"
    unfolding added_def using addEdges_run [OF gok i cb] by blast
  have dg: "d_ok (d\<lparr>dd_g := g\<rparr>)" using d g(2) by (simp add: dd_ok_def)
  have ab: "\<forall>a\<in>set added. a < bv_kSize ops"
    using els_bound [OF i] finite_els [OF i] by (auto simp: added_def dest!: in_set_takeD)
  note rec = record_edges_ok [OF dg ab cb, of t1 stk tid]
  have "length added = min max_added (card {h \<in> els (tls_bv t1). (h, c) \<notin> edges (dd_g d)})"
  proof -
    have "length (filter (\<lambda>n. (n, c) \<notin> edges (dd_g d)) (sorted_list_of_set (els (tls_bv t1)))) =
        card (set (filter (\<lambda>n. (n, c) \<notin> edges (dd_g d)) (sorted_list_of_set (els (tls_bv t1)))))"
      by (intro distinct_card [symmetric]) simp
    then show ?thesis using finite_els [OF i] by (simp add: added_def min.commute Collect_conj_eq [symmetric] cong: conj_cong)
  qed
  then show ?thesis using rec g c t1 unfolding t1_def [symmetric]
    by (simp add: dd_addEdges_def tls_getLocks_def t1_def [symmetric] set_mset_held [OF t1(1)] Let_def dd_free_def)
qed

lemma onLockBefore_run:
  assumes t: "t_ok t" and d: "d_ok d" and c: "nodeToIndex ops d node = Some c"
  defines "t1 \<equiv> ensureCurrentEpoch ops d t"
  shows "\<exists>d'. onLockBefore ops node (t, d) = Some (\<exists>h\<in>set_mset (held t1). (c, h) \<in> (edges (dd_g d))\<^sup>*, t1, d') \<and> d_ok d' \<and>
    current_epoch d' = current_epoch d \<and> free d' = free d \<and> edges (dd_g d') = edges (dd_g d)"
proof -
  have t1: "t_ok t1" "tls_epoch t1 = current_epoch d" unfolding t1_def ensureCurrentEpoch_def by (rule tls_ensure_ok [OF t])+
  have i: "inv (tls_bv t1)" and gok: "g_ok (dd_g d)" using t1(1) d by (auto simp: tls_ok_def dd_ok_def)
  obtain g where g: "graph_isReachable ops c (tls_bv t1) (dd_g d) = Some ((edges (dd_g d))\<^sup>* `` {c} \<inter> els (tls_bv t1) \<noteq> {}, g)"
    "g_ok g" "edges g = edges (dd_g d)" using isReachable_run [OF gok nodeToIndex_less [OF c] i] by blast
  have "((edges (dd_g d))\<^sup>* `` {c} \<inter> els (tls_bv t1) \<noteq> {}) = (\<exists>h\<in>set_mset (held t1). (c, h) \<in> (edges (dd_g d))\<^sup>*)"
    unfolding set_mset_held [OF t1(1)] by blast
  moreover have "d_ok (d\<lparr>dd_g := g\<rparr>)" using d g(2) by (simp add: dd_ok_def)
  ultimately show ?thesis using g c t1
    by (intro exI [of _ "d\<lparr>dd_g := g\<rparr>"]) (simp add: onLockBefore_def tls_getLocks_def t1_def [symmetric] Let_def dd_free_def)
qed

text \<open>A lock event, on a lock the thread does not hold: the new edges, the new held locks and
  the answer.\<close>

lemma onLock_run:
  assumes t: "t_ok t" and d: "d_ok d"
    and nh: "isHeld ops node (ensureCurrentEpoch ops d t, d) = Some False"
    and run: "onLock ops node stk (t, d) = Some (r, t', d')"
  defines "H \<equiv> set_mset (held (ensureCurrentEpoch ops d t))"
  shows "\<exists>c. nodeToIndex ops d node = Some c \<and> c \<notin> H \<and> (r \<longleftrightarrow> (\<exists>h\<in>H. (c, h) \<in> (edges (dd_g d))\<^sup>*)) \<and>
    edges (dd_g d') = edges (dd_g d) \<union> H \<times> {c} \<and> t_ok t' \<and> d_ok d' \<and> current_epoch d' = current_epoch d \<and>
    free d' = free d \<and> tls_epoch t' = current_epoch d \<and> held t' = add_mset c (held (ensureCurrentEpoch ops d t))"
proof -
  define t1 where "t1 = ensureCurrentEpoch ops d t"
  have t1: "t_ok t1" "tls_epoch t1 = current_epoch d" unfolding t1_def ensureCurrentEpoch_def by (rule tls_ensure_ok [OF t])+
  then have i: "inv (tls_bv t1)" by (simp add: tls_ok_def)
  have idem: "ensureCurrentEpoch ops d2 t1 = t1" if "current_epoch d2 = current_epoch d" for d2
    using t1(2) that by (simp add: ensureCurrentEpoch_def tls_ensureCurrentEpoch_def)
  obtain c where c: "nodeToIndex ops d node = Some c"
    using nh by (auto simp: isHeld_def bind_eq_Some_conv)
  note cb = nodeToIndex_less [OF c]
  have cn: "c \<notin> els (tls_bv t1)"
    using nh c getBit [OF i cb] t1(2) by (simp add: isHeld_def tls_getLocks_def t1_def [symmetric])
  have H: "H = els (tls_bv t1)" unfolding H_def t1_def [symmetric] by (rule set_mset_held [OF t1(1)])
  obtain d1 where d1: "onLockBefore ops node (t1, d) = Some (\<exists>h\<in>H. (c, h) \<in> (edges (dd_g d))\<^sup>*, t1, d1)"
    "d_ok d1" "current_epoch d1 = current_epoch d" "free d1 = free d" "edges (dd_g d1) = edges (dd_g d)"
    using onLockBefore_run [OF t1(1) d c] idem [OF refl] unfolding H_def t1_def [symmetric] by auto
  have c1: "nodeToIndex ops d1 node = Some c" using c d1(3) by (simp add: nodeToIndex_iff)
  obtain n d2 where d2: "dd_addEdges ops node stk 0 (t1, d1) = Some (n, t1, d2)" "d_ok d2"
    "current_epoch d2 = current_epoch d1" "free d2 = free d1" "edges (dd_g d2) = edges (dd_g d1) \<union> H \<times> {c}"
    using dd_addEdges_run [OF t1(1) d1(2) c1, of stk 0] idem [OF d1(3)] unfolding H_def t1_def [symmetric] by auto
  have c2: "nodeToIndex ops d2 node = Some c" using c d1(3) d2(3) by (simp add: nodeToIndex_iff)
  have ol: "onLock ops node stk (t, d) = map_option (\<lambda>s. (\<exists>h\<in>H. (c, h) \<in> (edges (dd_g d))\<^sup>*, s)) (onLockAfter ops node stk (t1, d2))"
    using nh d1(1) d2(1) by (cases "onLockAfter ops node stk (t1, d2)") (simp_all add: onLock_def t1_def [symmetric] Let_def)
  have la: "onLockAfter ops node stk (t1, d2) = map_option (\<lambda>(_, t). (t, d2)) (tls_addLock ops c (tls_epoch t1) stk t1)"
    using c2 idem [of d2] d1(3) d2(3) t1(2)
    by (cases "tls_addLock ops c (tls_epoch t1) stk t1") (simp_all add: onLockAfter_def Let_def split: prod.splits)
  have cap: "n_all_locks t1 < kAllLocks"
  proof (rule ccontr)
    assume "\<not> n_all_locks t1 < kAllLocks"
    then have "tls_addLock ops c (tls_epoch t1) stk t1 = None" using addLock_over [OF t1(1) cb] cn by simp
    then show False using run ol la by simp
  qed
  obtain t2 where t2: "tls_addLock ops c (tls_epoch t1) stk t1 = Some (True, t2)" "t_ok t2" "tls_epoch t2 = tls_epoch t1"
    "held t2 = add_mset c (held t1)"
    using tls_addLock_run [OF t1(1) cb, of stk] cn cap by auto
  then have "r = (\<exists>h\<in>H. (c, h) \<in> (edges (dd_g d))\<^sup>*)" "t' = t2" "d' = d2" using run ol la by auto
  then show ?thesis using c cn H d1 d2 t2 t1(2) by (simp add: t1_def)
qed

end

section \<open>Cycles\<close>

text \<open>The edges a lock event adds close a cycle exactly when the lock reaches a held lock.\<close>

lemma acyclic_add_edges_to:
  assumes "acyclic E" and "finite H"
  shows "acyclic (E \<union> H \<times> {c}) \<longleftrightarrow> (\<forall>h\<in>H. (c, h) \<notin> E\<^sup>*)"
proof
  assume a: "acyclic (E \<union> H \<times> {c})"
  show "\<forall>h\<in>H. (c, h) \<notin> E\<^sup>*"
  proof (intro ballI notI)
    fix h assume h: "h \<in> H" "(c, h) \<in> E\<^sup>*"
    have "(c, h) \<in> (E \<union> H \<times> {c})\<^sup>*" using h(2) by (rule rev_subsetD [OF _ rtrancl_mono]) blast
    moreover have "(h, c) \<in> E \<union> H \<times> {c}" using h(1) by blast
    ultimately have "(c, c) \<in> (E \<union> H \<times> {c})\<^sup>+" by (rule rtrancl_into_trancl1)
    then show False using a by (simp add: acyclic_def)
  qed
next
  assume n: "\<forall>h\<in>H. (c, h) \<notin> E\<^sup>*"
  have reach: "(E \<union> G \<times> {c})\<^sup>* `` {c} \<subseteq> E\<^sup>* `` {c}" if "G \<subseteq> H" for G
  proof -
    have "(E \<union> G \<times> {c}) `` (E\<^sup>* `` {c}) \<subseteq> E\<^sup>* `` {c}" using n that by (auto intro: rtrancl_into_rtrancl)
    then have "(E \<union> G \<times> {c})\<^sup>* `` (E\<^sup>* `` {c}) = E\<^sup>* `` {c}" by (rule Image_closed_trancl)
    then show ?thesis by blast
  qed
  have "acyclic (E \<union> G \<times> {c})" if "finite G" "G \<subseteq> H" for G
    using that
  proof (induction G)
    case empty
    then show ?case using assms(1) by simp
  next
    case (insert h G)
    have "(c, h) \<notin> (E \<union> G \<times> {c})\<^sup>*" using reach [of G] insert.prems n by blast
    moreover have "E \<union> insert h G \<times> {c} = insert (h, c) (E \<union> G \<times> {c})" by auto
    ultimately show ?case using insert by (simp add: acyclic_insert)
  qed
  then show "acyclic (E \<union> H \<times> {c})" using assms(2) by blast
qed

section \<open>Runs of the detector\<close>

text \<open>The events, in any order and from any number of threads: each step carries the answer
  the detector gives. A lock event here is the first acquisition by its thread.\<close>

inductive dd_step :: "('b, 'i) bv_ops \<Rightarrow> (nat \<Rightarrow> 'b TLS) \<times> 'b Detector \<Rightarrow> bool \<Rightarrow> (nat \<Rightarrow> 'b TLS) \<times> 'b Detector \<Rightarrow> bool"
  for bv :: "('b, 'i) bv_ops" where
  new: "newNode bv data d = Some (node, d') \<Longrightarrow> current_epoch d + bv_kSize bv < 2 ^ 64 \<Longrightarrow>
    dd_step bv (T, d) False (T, d')"
| remove: "removeNode bv node d = Some d' \<Longrightarrow> dd_step bv (T, d) False (T, d')"
| lock: "isHeld bv node (ensureCurrentEpoch bv d (T i), d) = Some False \<Longrightarrow>
    onLock bv node stk (T i, d) = Some (r, t', d') \<Longrightarrow> dd_step bv (T, d) r (T(i := t'), d')"
| trylock: "onTryLock bv node stk (T i, d) = Some (r, t', d') \<Longrightarrow> dd_step bv (T, d) r (T(i := t'), d')"
| unlock: "onUnlock bv node (T i) = Some t' \<Longrightarrow> dd_step bv (T, d) False (T(i := t'), d)"

inductive dd_silent :: "('b, 'i) bv_ops \<Rightarrow> (nat \<Rightarrow> 'b TLS) \<times> 'b Detector \<Rightarrow> (nat \<Rightarrow> 'b TLS) \<times> 'b Detector \<Rightarrow> bool"
  for bv :: "('b, 'i) bv_ops" where
  start: "dd_silent bv s s"
| event: "dd_silent bv s s1 \<Longrightarrow> dd_step bv s1 False s2 \<Longrightarrow> dd_silent bv s s2"

inductive_cases dd_stepE: "dd_step bv (T, d) r s'"

definition system_ok ::
  "('b, 'i) bv_ops \<Rightarrow> ('b \<Rightarrow> bool) \<Rightarrow> ('b \<Rightarrow> bool) \<Rightarrow> ('b \<Rightarrow> nat set) \<Rightarrow> (nat \<Rightarrow> 'b TLS) \<times> 'b Detector \<Rightarrow> bool" where
  "system_ok bv raw ok els s \<longleftrightarrow> (\<forall>i. tls_ok ok els (fst s i)) \<and> dd_ok bv raw ok els (snd s)"

definition lock_order :: "('b \<Rightarrow> nat set) \<Rightarrow> (nat \<Rightarrow> 'b TLS) \<times> 'b Detector \<Rightarrow> (nat \<times> nat) set" where
  "lock_order els s = graph_edges els (dd_g (snd s))"

context dd_bitvec
begin

abbreviation "s_ok \<equiv> system_ok ops raw inv els"
abbreviation "order \<equiv> lock_order els"

lemma addLock_Some:
  assumes t: "t_ok t" and l: "l < bv_kSize ops" and run: "tls_addLock ops l e stk t = Some (r, t')"
  shows "t_ok t' \<and> held t' = add_mset l (held t)"
proof -
  have e: "tls_epoch t = e" using run by (auto simp: tls_addLock_def bind_eq_Some_conv CHECK_Some_iff)
  have "if l \<in> els (tls_bv t) then n_recursive_locks t < kRecursiveLocks else n_all_locks t < kAllLocks"
    using addLock_over [OF t l] run by fastforce
  from tls_addLock_run [OF t l this, of stk] show ?thesis using run e by auto
qed

lemma onTryLock_Some:
  assumes "t_ok t" and "onTryLock ops node stk (t, d) = Some (r, t', d')"
  shows "t_ok t' \<and> d' = d \<and> \<not> r"
proof -
  obtain c u where c: "nodeToIndex ops d node = Some c" "tls_addLock ops c (current_epoch d) stk (ensureCurrentEpoch ops d t) = Some (u, t')"
    "d' = d" "\<not> r" using assms(2) by (auto simp: onTryLock_def bind_eq_Some_conv Let_def)
  then show ?thesis using addLock_Some [OF tls_ensure_ok(1) [OF assms(1)] nodeToIndex_less [OF c(1)]]
    unfolding ensureCurrentEpoch_def by blast
qed

lemma onUnlock_run:
  assumes "t_ok t"
  shows "\<exists>t'. onUnlock ops node t = Some t' \<and> t_ok t' \<and>
    held t' = (if tls_epoch t = nodeToEpoch ops node then held t - {#node mod bv_kSize ops#} else held t)"
  using tls_removeLock_run [OF assms, of "node mod bv_kSize ops"] assms kSize_pos
  by (auto simp: onUnlock_def nodeToIndexUnchecked_def)

lemma step_run:
  assumes s: "s_ok s" and st: "dd_step ops s r s'"
  shows "s_ok s' \<and> (acyclic (order s) \<longrightarrow> (r \<longleftrightarrow> \<not> acyclic (order s')))"
  using st
proof cases
  case (new data d node d' T)
  have d: "d_ok d" using s new by (simp add: system_ok_def)
  have "d_ok d'" "edges (dd_g d') \<subseteq> edges (dd_g d)"
    using newNode_run [OF d new(5), of data] new(4) by (auto split: if_splits)
  then show ?thesis using s new by (auto simp: system_ok_def lock_order_def dest: acyclic_subset)
next
  case (remove node d d' T)
  have d: "d_ok d" using s remove by (simp add: system_ok_def)
  obtain c where c: "nodeToIndex ops d node = Some c" using remove(4) by (auto simp: removeNode_def bind_eq_Some_conv)
  have "d_ok d'" "edges (dd_g d') \<subseteq> edges (dd_g d)"
    using removeNode_run [OF d c] remove(4) by (auto split: if_splits)
  then show ?thesis using s remove by (auto simp: system_ok_def lock_order_def dest: acyclic_subset)
next
  case (lock node d T i stk t' d')
  have ok: "t_ok (T i)" "d_ok d" using s lock by (simp_all add: system_ok_def)
  let ?H = "set_mset (held (ensureCurrentEpoch ops d (T i)))"
  obtain c where c: "r \<longleftrightarrow> (\<exists>h\<in>?H. (c, h) \<in> (edges (dd_g d))\<^sup>*)"
    "edges (dd_g d') = edges (dd_g d) \<union> ?H \<times> {c}" "t_ok t'" "d_ok d'"
    using onLock_run [OF ok lock(3,4)] by blast
  then show ?thesis using s lock acyclic_add_edges_to [of "edges (dd_g d)" ?H c]
    by (auto simp: system_ok_def lock_order_def)
next
  case (trylock node stk T i d t' d')
  then have "t_ok t'" "d' = d" "\<not> r" using onTryLock_Some [of "T i" node stk d r t' d'] s by (auto simp: system_ok_def)
  then show ?thesis using s trylock by (auto simp: system_ok_def lock_order_def)
next
  case (unlock node T i t' d)
  then have "t_ok t'" using onUnlock_run [of "T i" node] s by (auto simp: system_ok_def)
  then show ?thesis using s unlock by (auto simp: system_ok_def lock_order_def)
qed

lemma silent_run:
  "dd_silent ops s s' \<Longrightarrow> s_ok s \<Longrightarrow> acyclic (order s) \<Longrightarrow> s_ok s' \<and> acyclic (order s')"
  by (induction rule: dd_silent.induct) (auto dest: step_run)

end

section \<open>The detector of the runtime\<close>

declare One_nat_def [simp del]

interpretation ddbv: dd_bitvec "tl_ops 1" "tl_raw 1" "tl_inv 1" "tl_els 1"
  by unfold_locales simp_all

abbreviation ddbv_ok :: "(nat \<Rightarrow> TwoLevel TLS) \<times> TwoLevel Detector \<Rightarrow> bool" where
  "ddbv_ok \<equiv> system_ok (tl_ops 1) (tl_raw 1) (tl_inv 1) (tl_els 1)"


text \<open>
  \<^verbatim>\<open>newNode\<close> returns a node of the current epoch that named no lock of that epoch, with its
  data; nodes of live locks keep their epoch, index and data unless every index names a live
  lock, and then a new epoch starts with an empty graph.
\<close>

theorem newNode_fresh:
  assumes "dd_ok (tl_ops 1) (tl_raw 1) (tl_inv 1) (tl_els 1) d" and "current_epoch d + 4096 < 2 ^ 64"
  shows "\<exists>node d'. newNode (tl_ops 1) data d = Some (node, d') \<and> dd_ok (tl_ops 1) (tl_raw 1) (tl_inv 1) (tl_els 1) d' \<and>
    nodeToEpoch (tl_ops 1) node = current_epoch d' \<and> getData (tl_ops 1) d' node = Some data \<and>
    (if dd_free (tl_els 1) d \<noteq> {}
     then current_epoch d' = current_epoch d \<and> node mod 4096 \<in> dd_free (tl_els 1) d \<and>
       dd_free (tl_els 1) d' = dd_free (tl_els 1) d - {node mod 4096} \<and>
       (\<forall>i. i \<noteq> node mod 4096 \<longrightarrow> dd_data d' ! i = dd_data d ! i)
     else current_epoch d' = current_epoch d + 4096 \<and> dd_free (tl_els 1) d' = {..<4096} - {node mod 4096} \<and>
       graph_edges (tl_els 1) (dd_g d') = {})"
proof -
  have "\<exists>idx d'. newNode (tl_ops 1) data d = Some (idx + current_epoch d', d') \<and> ddbv.d_ok d' \<and> idx < 4096 \<and>
    0 < current_epoch d' \<and> dd_data d' = (dd_data d)[idx := data] \<and>
    (if dd_free (tl_els 1) d \<noteq> {} then current_epoch d' = current_epoch d \<and> idx \<in> dd_free (tl_els 1) d \<and>
       dd_free (tl_els 1) d' = dd_free (tl_els 1) d - {idx} \<and>
       tl_edges 1 (dd_g d') = (if tl_els 1 (available_nodes d) \<noteq> {} then tl_edges 1 (dd_g d)
         else tl_edges 1 (dd_g d) - UNIV \<times> tl_els 1 (recycled_nodes d))
     else current_epoch d' = current_epoch d + 4096 \<and> dd_free (tl_els 1) d' = {..<4096} - {idx} \<and> tl_edges 1 (dd_g d') = {})"
    using ddbv.newNode_run [OF assms(1), of data] assms(2) by (simp only: tl_ops_sel mult_1_right)
  then obtain idx d' where n: "newNode (tl_ops 1) data d = Some (idx + current_epoch d', d')"
    "ddbv.d_ok d'" "idx < 4096" "0 < current_epoch d'" "dd_data d' = (dd_data d)[idx := data]"
    "if dd_free (tl_els 1) d \<noteq> {} then current_epoch d' = current_epoch d \<and> idx \<in> dd_free (tl_els 1) d \<and>
       dd_free (tl_els 1) d' = dd_free (tl_els 1) d - {idx}
     else current_epoch d' = current_epoch d + 4096 \<and> dd_free (tl_els 1) d' = {..<4096} - {idx} \<and> tl_edges 1 (dd_g d') = {}"
    by (metis (no_types, lifting))
  have "4096 dvd current_epoch d'" using n(2) by (simp add: dd_ok_def)
  then have ix: "nodeToIndex (tl_ops 1) d' (idx + current_epoch d') = Some idx"
    using ddbv.newNode_index [of "current_epoch d'" idx d'] n(3,4) by simp
  then have "(idx + current_epoch d') mod 4096 = idx" "nodeToEpoch (tl_ops 1) (idx + current_epoch d') = current_epoch d'"
    by (simp_all add: ddbv.nodeToIndex_iff)
  moreover have "getData (tl_ops 1) d' (idx + current_epoch d') = Some data"
    using ix n(3,5) assms(1) by (simp add: getData_def dd_ok_def)
  ultimately show ?thesis using n by (intro exI [of _ "idx + current_epoch d'"] exI [of _ d']) (simp split: if_splits)
qed

text \<open>The state after \<^verbatim>\<open>clear\<close>.\<close>

definition dd_start_tls :: "TwoLevel TLS" where
  "dd_start_tls = \<lparr>tls_bv = one_vector 0, tls_epoch = 0, recursive_locks = replicate 64 0, n_recursive_locks = 0,
     all_locks_with_contexts = replicate 128 \<lparr>lwc_lock = 0, lwc_stk = 0\<rparr>, n_all_locks = 0\<rparr>"

definition dd_start :: "TwoLevel Detector" where
  "dd_start = \<lparr>current_epoch = 0, available_nodes = one_vector 0, recycled_nodes = one_vector 0, tmp_bv = one_vector 0,
     dd_g = \<lparr>g_v = replicate 4096 (one_vector 0), g_t1 = one_vector 0, g_t2 = one_vector 0\<rparr>,
     dd_data = replicate 4096 0,
     dd_edges = replicate (4096 * 32) \<lparr>e_from = 0, e_to = 0, e_stk_from = 0, e_stk_to = 0, e_unique_tid = 0\<rparr>, n_edges = 0\<rparr>"

lemma els_one_vector_0: "tl_els 1 (one_vector 0) = {}"
  by (simp add: tl_els_def cell_def one_vector_def)

lemma dd_start_ok: "ddbv_ok (\<lambda>_. dd_start_tls, dd_start)" "lock_order (tl_els 1) (\<lambda>_. dd_start_tls, dd_start) = {}"
  using one_vector_ok els_one_vector_0
  by (simp_all add: system_ok_def tls_ok_def dd_ok_def graph_ok_def dd_start_def dd_start_tls_def kRecursiveLocks_def
      kAllLocks_def kEdges_def lock_order_def graph_edges_def)

lemma newNode_fresh_witness:
  "\<exists>node d'. newNode (tl_ops 1) 7 dd_start = Some (node, d') \<and> dd_ok (tl_ops 1) (tl_raw 1) (tl_inv 1) (tl_els 1) d' \<and>
    nodeToEpoch (tl_ops 1) node = current_epoch d' \<and> getData (tl_ops 1) d' node = Some 7"
  using newNode_fresh [of dd_start 7] dd_start_ok(1) by (auto simp: system_ok_def dd_start_def)


text \<open>
  \<^verbatim>\<open>DeadlockDetector::addEdges\<close> runs to its end, adds an edge from every lock the thread holds
  to the node, and returns the number of edges it added, cut off at 40.
\<close>

theorem addEdges_adds_all_counts_40:
  assumes "tls_ok (tl_inv 1) (tl_els 1) t" and "dd_ok (tl_ops 1) (tl_raw 1) (tl_inv 1) (tl_els 1) d"
    and "tls_epoch t = current_epoch d" and "nodeToIndex (tl_ops 1) d node = Some c"
  shows "\<exists>d'. dd_addEdges (tl_ops 1) node stk tid (t, d) =
      Some (min 40 (card {h \<in> set_mset (tls_held (tl_els 1) t). (h, c) \<notin> tl_edges 1 (dd_g d)}), t, d') \<and>
    tl_edges 1 (dd_g d') = tl_edges 1 (dd_g d) \<union> set_mset (tls_held (tl_els 1) t) \<times> {c}"
proof -
  have "ensureCurrentEpoch (tl_ops 1) d t = t" using assms(3) by (simp add: ensureCurrentEpoch_def tls_ensureCurrentEpoch_def)
  then show ?thesis using ddbv.dd_addEdges_run [OF assms(1,2,4), of stk tid] by (auto simp: max_added_def)
qed

lemma addEdges_adds_all_counts_40_witness:
  "\<exists>d'. dd_addEdges (tl_ops 1) 4096 5 3 (dd_start_tls\<lparr>tls_epoch := 4096\<rparr>, dd_start\<lparr>current_epoch := 4096\<rparr>) =
      Some (0, dd_start_tls\<lparr>tls_epoch := 4096\<rparr>, d') \<and> tl_edges 1 (dd_g d') = {}"
proof -
  let ?t = "dd_start_tls\<lparr>tls_epoch := 4096\<rparr>" and ?d = "dd_start\<lparr>current_epoch := 4096\<rparr>"
  have ok: "tls_ok (tl_inv 1) (tl_els 1) ?t" "dd_ok (tl_ops 1) (tl_raw 1) (tl_inv 1) (tl_els 1) ?d"
    using dd_start_ok(1) by (auto simp: system_ok_def tls_ok_def dd_ok_def)
  have "nodeToIndex (tl_ops 1) ?d 4096 = Some 0" "tls_epoch ?t = current_epoch ?d"
    using ddbv.nodeToIndex_iff [of ?d 4096 0] by (simp_all add: nodeToEpoch_def)
  moreover have "tls_held (tl_els 1) ?t = {#}" "tl_edges 1 (dd_g ?d) = {}"
    using dd_start_ok(2) els_one_vector_0 by (simp_all add: tls_held_def dd_start_tls_def lock_order_def)
  ultimately show ?thesis using addEdges_adds_all_counts_40 [OF ok, of 4096 0 5 3] by simp
qed

declare One_nat_def [simp]

end
