(* ===== verification/Dd_Mutex.thy ===== *)
theory Dd_Mutex
  imports Deadlock_Proofs
begin

text \<open>
  The mutex callbacks of \<^verbatim>\<open>sanitizer_deadlock_detector1.cpp\<close>, over the detector. A \<^verbatim>\<open>DDMutex\<close>
  lives at an address of the client (the detector keeps that address as the data of its node),
  so the mutexes are a map from addresses. What \<^verbatim>\<open>DDCallback::Unwind\<close> and
  \<^verbatim>\<open>DDCallback::UniqueTid\<close> return is part of the callback object. The spin lock around the
  slow paths makes them atomic.
\<close>

section \<open>Definitions\<close>

record DDMutex =
  m_id :: nat
  m_stk :: nat
  m_ctx :: nat

record DDLoopEntry =
  thr_ctx :: nat
  mtx_ctx0 :: nat
  mtx_ctx1 :: nat
  loop_stk0 :: nat
  loop_stk1 :: nat

record DDReport =
  rep_n :: nat
  rep_loop :: "DDLoopEntry list"

record 'b DDLogicalThread =
  lt_ctx :: nat
  lt_dd :: "'b TLS"
  lt_rep :: DDReport
  report_pending :: bool

record 'b DD =
  dd_dd :: "'b Detector"
  second_deadlock_stack :: bool
  dd_mutexes :: "nat \<Rightarrow> DDMutex"

record DDCallback =
  cb_Unwind :: nat
  cb_UniqueTid :: int

type_synonym 'b ddm_state = "'b DDLogicalThread \<times> 'b DD"

definition kMaxLoopSize :: nat where "kMaxLoopSize = 20"

definition CreateLogicalThread :: "('b, 'i) bv_ops \<Rightarrow> nat \<Rightarrow> 'b DDLogicalThread \<Rightarrow> 'b DDLogicalThread" where
  \<comment> \<open>the last argument is the memory \<^verbatim>\<open>InternalAlloc\<close> returns\<close>
  "CreateLogicalThread bv ctx lt = lt\<lparr>lt_ctx := ctx, lt_dd := tls_clear bv (lt_dd lt), report_pending := False\<rparr>"

definition MutexInit :: "DDCallback \<Rightarrow> nat \<Rightarrow> 'b DD \<Rightarrow> 'b DD" where
  "MutexInit cb m w = w\<lparr>dd_mutexes := (dd_mutexes w)(m := (dd_mutexes w m)\<lparr>m_id := 0, m_stk := cb_Unwind cb\<rparr>)\<rparr>"

definition set_mutex_id :: "nat \<Rightarrow> nat \<Rightarrow> 'b DD \<Rightarrow> 'b DD" where
  "set_mutex_id m n w = w\<lparr>dd_mutexes := (dd_mutexes w)(m := (dd_mutexes w m)\<lparr>m_id := n\<rparr>)\<rparr>"

definition MutexEnsureID :: "('b, 'i) bv_ops \<Rightarrow> nat \<Rightarrow> 'b ddm_state \<Rightarrow> 'b ddm_state option" where
  "MutexEnsureID bv m = (\<lambda>(lt, w). do {
     w \<leftarrow> (if \<not> nodeBelongsToCurrentEpoch bv (dd_dd w) (m_id (dd_mutexes w m)) then do {
         (node, d) \<leftarrow> newNode bv m (dd_dd w);
         Some (set_mutex_id m node (w\<lparr>dd_dd := d\<rparr>))
       } else Some w);
     Some (lt\<lparr>lt_dd := ensureCurrentEpoch bv (dd_dd w) (lt_dd lt)\<rparr>, w)
   })"

definition report_entry :: "('b, 'i) bv_ops \<Rightarrow> 'b DD \<Rightarrow> nat list \<Rightarrow> nat \<Rightarrow> nat \<Rightarrow> DDLoopEntry option" where
  "report_entry bv w path len i = do {
     let from = path ! i;
     let to = path ! ((i + 1) mod len);
     m0 \<leftarrow> getData bv (dd_dd w) from;
     m1 \<leftarrow> getData bv (dd_dd w) to;
     e \<leftarrow> findEdge bv from to (dd_dd w);
     let (stk_from, stk_to, unique_tid) = (case e of Some x \<Rightarrow> x | None \<Rightarrow> (0, 0, 0));
     Some \<lparr>thr_ctx = nat (unique_tid mod 2 ^ 64), mtx_ctx0 = m_ctx (dd_mutexes w m0), mtx_ctx1 = m_ctx (dd_mutexes w m1),
           loop_stk0 = stk_to, loop_stk1 = stk_from\<rparr>
   }"

definition ReportDeadlock :: "('b, 'i) bv_ops \<Rightarrow> nat \<Rightarrow> 'b ddm_state \<Rightarrow> 'b ddm_state option" where
  "ReportDeadlock bv m = (\<lambda>(lt, w). do {
     (len, path, t, d) \<leftarrow> findPathToLock bv (m_id (dd_mutexes w m)) (replicate 20 0) 20 (lt_dd lt, dd_dd w);
     let (lt, w) = (lt\<lparr>lt_dd := t\<rparr>, w\<lparr>dd_dd := d\<rparr>);
     if len = 0 then Some (lt, w)
     else do {
       CHECK (m_id (dd_mutexes w m) = path ! 0);
       let len = min len kMaxLoopSize;
       let lt = lt\<lparr>report_pending := True, lt_rep := (lt_rep lt)\<lparr>rep_n := len\<rparr>\<rparr>;
       loop \<leftarrow> foldM (\<lambda>i loop. do { e \<leftarrow> report_entry bv w path len i; Some (loop[i := e]) }) [0..<len] (rep_loop (lt_rep lt));
       Some (lt\<lparr>lt_rep := (lt_rep lt)\<lparr>rep_loop := loop\<rparr>\<rparr>, w)
     }
   })"

definition before_lock_locked :: "('b, 'i) bv_ops \<Rightarrow> DDCallback \<Rightarrow> nat \<Rightarrow> 'b ddm_state \<Rightarrow> 'b ddm_state option" where
  \<comment> \<open>the part of \<^verbatim>\<open>MutexBeforeLock\<close> after \<^verbatim>\<open>MutexEnsureID\<close>\<close>
  "before_lock_locked bv cb m = (\<lambda>(lt, w). do {
     let node = m_id (dd_mutexes w m);
     held \<leftarrow> isHeld bv node (lt_dd lt, dd_dd w);
     if held then Some (lt, w)
     else do {
       (cycle, t, d) \<leftarrow> onLockBefore bv node (lt_dd lt, dd_dd w);
       let (lt, w) = (lt\<lparr>lt_dd := t\<rparr>, w\<lparr>dd_dd := d\<rparr>);
       if cycle then do {
         (_, t, d) \<leftarrow> dd_addEdges bv node (cb_Unwind cb) (cb_UniqueTid cb) (lt_dd lt, dd_dd w);
         ReportDeadlock bv m (lt\<lparr>lt_dd := t\<rparr>, w\<lparr>dd_dd := d\<rparr>)
       } else Some (lt, w)
     }
   })"

definition MutexBeforeLock :: "('b, 'i) bv_ops \<Rightarrow> DDCallback \<Rightarrow> nat \<Rightarrow> 'b ddm_state \<Rightarrow> 'b ddm_state option" where
  "MutexBeforeLock bv cb m = (\<lambda>(lt, w).
     if tls_empty bv (lt_dd lt) then Some (lt, w)
     else do {
       all \<leftarrow> hasAllEdges bv (m_id (dd_mutexes w m)) (lt_dd lt, dd_dd w);
       if all then Some (lt, w)
       else do {
         (lt, w) \<leftarrow> MutexEnsureID bv m (lt, w);
         before_lock_locked bv cb m (lt, w)
       }
     })"

definition MutexAfterLock ::
  "('b, 'i) bv_ops \<Rightarrow> DDCallback \<Rightarrow> nat \<Rightarrow> bool \<Rightarrow> bool \<Rightarrow> 'b ddm_state \<Rightarrow> 'b ddm_state option" where
  "MutexAfterLock bv cb m wlock trylock = (\<lambda>(lt, w). do {
     let stk = (if second_deadlock_stack w then cb_Unwind cb else 0);
     (first, t) \<leftarrow> onFirstLock bv (m_id (dd_mutexes w m)) stk (lt_dd lt);
     let lt = lt\<lparr>lt_dd := t\<rparr>;
     if first then Some (lt, w)
     else do {
       (fast, t, d) \<leftarrow> onLockFast bv (m_id (dd_mutexes w m)) stk (lt_dd lt, dd_dd w);
       let (lt, w) = (lt\<lparr>lt_dd := t\<rparr>, w\<lparr>dd_dd := d\<rparr>);
       if fast then Some (lt, w)
       else do {
         (lt, w) \<leftarrow> MutexEnsureID bv m (lt, w);
         let node = m_id (dd_mutexes w m);
         _ \<leftarrow> (if wlock then do { held \<leftarrow> isHeld bv node (lt_dd lt, dd_dd w); CHECK (\<not> held) } else Some ());
         (t, d) \<leftarrow> (if \<not> trylock then do {
             (_, s) \<leftarrow> dd_addEdges bv node (if stk \<noteq> 0 then stk else cb_Unwind cb) (cb_UniqueTid cb) (lt_dd lt, dd_dd w);
             Some s
           } else Some (lt_dd lt, dd_dd w));
         (t, d) \<leftarrow> onLockAfter bv node stk (t, d);
         Some (lt\<lparr>lt_dd := t\<rparr>, w\<lparr>dd_dd := d\<rparr>)
       }
     }
   })"

definition MutexBeforeUnlock :: "('b, 'i) bv_ops \<Rightarrow> nat \<Rightarrow> 'b ddm_state \<Rightarrow> 'b ddm_state option" where
  "MutexBeforeUnlock bv m = (\<lambda>(lt, w). do {
     t \<leftarrow> onUnlock bv (m_id (dd_mutexes w m)) (lt_dd lt);
     Some (lt\<lparr>lt_dd := t\<rparr>, w)
   })"

definition MutexDestroy :: "('b, 'i) bv_ops \<Rightarrow> nat \<Rightarrow> 'b DD \<Rightarrow> 'b DD option" where
  "MutexDestroy bv m w =
     (if m_id (dd_mutexes w m) = 0 then Some w
      else do {
        w \<leftarrow> (if nodeBelongsToCurrentEpoch bv (dd_dd w) (m_id (dd_mutexes w m)) then do {
            d \<leftarrow> removeNode bv (m_id (dd_mutexes w m)) (dd_dd w);
            Some (w\<lparr>dd_dd := d\<rparr>)
          } else Some w);
        Some (set_mutex_id m 0 w)
      })"

definition GetReport :: "'b DDLogicalThread \<Rightarrow> DDReport option \<times> 'b DDLogicalThread" where
  "GetReport lt = (if \<not> report_pending lt then (None, lt) else (Some (lt_rep lt), lt\<lparr>report_pending := False\<rparr>))"

section \<open>Reports\<close>

text \<open>What a report says: a cycle of the lock order, each entry an edge between the clients'
  contexts of two mutexes.\<close>

definition report_cycle :: "(nat \<times> nat) set \<Rightarrow> 'b DD \<Rightarrow> nat \<Rightarrow> DDReport \<Rightarrow> bool" where
  "report_cycle E w c rep \<longleftrightarrow> (\<exists>ns. ns \<noteq> [] \<and> hd ns = c \<and> length ns = rep_n rep \<and> rep_n rep \<le> kMaxLoopSize \<and>
     (\<forall>i<rep_n rep. (ns ! i, ns ! ((i + 1) mod rep_n rep)) \<in> E \<and>
        mtx_ctx0 (rep_loop rep ! i) = m_ctx (dd_mutexes w (dd_data (dd_dd w) ! (ns ! i))) \<and>
        mtx_ctx1 (rep_loop rep ! i) = m_ctx (dd_mutexes w (dd_data (dd_dd w) ! (ns ! ((i + 1) mod rep_n rep))))))"

lemma walk_rtrancl: "ns \<noteq> [] \<Longrightarrow> successively (\<lambda>x y. (x, y) \<in> E) ns \<Longrightarrow> (hd ns, last ns) \<in> E\<^sup>*"
  by (induction ns rule: induct_list012) (auto intro: converse_rtrancl_into_rtrancl)

lemma walk_closes_cycle:
  assumes w: "walk_to E H c ns" and H: "H \<times> {c} \<subseteq> E" and i: "i < length ns"
  shows "(ns ! i, ns ! ((i + 1) mod length ns)) \<in> E"
proof (cases "i + 1 < length ns")
  case True
  have "(ns ! i, ns ! Suc i) \<in> E" using w True by (simp add: walk_to_def successively_conv_nth)
  then show ?thesis using True by simp
next
  case False
  then have e: "i = length ns - 1" "i + 1 = length ns" using i by auto
  then have "ns ! i \<in> H" using w i by (auto simp: walk_to_def last_conv_nth)
  moreover have "ns ! 0 = c" using w by (auto simp: walk_to_def hd_conv_nth)
  ultimately show ?thesis using H e(2) by auto
qed

lemma foldM_writes:
  assumes "\<forall>i<n. \<forall>ys. ys ! i = xs ! i \<longrightarrow> f i ys = Some (ys[i := g i])" and "n \<le> length xs"
  shows "foldM f [0..<n] xs = Some (map g [0..<n] @ drop n xs)"
  using assms
proof (induction n)
  case (Suc n)
  have "foldM f [0..<n] xs = Some (map g [0..<n] @ drop n xs)" using Suc by simp
  moreover have "(map g [0..<n] @ drop n xs) ! n = xs ! n" using Suc.prems(2) by (simp add: nth_append)
  then have "f n (map g [0..<n] @ drop n xs) = Some ((map g [0..<n] @ drop n xs)[n := g n])" using Suc.prems(1) by simp
  moreover have "(map g [0..<n] @ drop n xs)[n := g n] = map g [0..<Suc n] @ drop (Suc n) xs"
    using Suc.prems(2) by (simp add: list_update_append Cons_nth_drop_Suc [symmetric])
  ultimately show ?case by (simp add: foldM_append)
qed simp

lemma walk_nodes:
  assumes "walk_to E T a ns" and "\<forall>(x, y)\<in>E. y < n" and "a < n"
  shows "\<forall>x\<in>set ns. x < n"
proof -
  have "x < n" if "x \<in> set ns" "walk_to E T a ns" "a < n" for x a
    using that assms(2) by (induction ns arbitrary: a) (auto simp: walk_to_Cons split: if_splits)
  then show ?thesis using assms by blast
qed

context dd_bitvec
begin

lemma findPathToLock_run:
  assumes t: "t_ok t" and d: "d_ok d" and ep: "tls_epoch t = current_epoch d"
    and c: "nodeToIndex ops d node = Some c" "c \<notin> set_mset (held t)" and n: "n \<le> length path"
  shows "\<exists>res path' tmp. findPathToLock ops node path n (t, d) = Some (res, path', t, d\<lparr>tmp_bv := tmp\<rparr>) \<and> inv tmp \<and>
    (if res = 0 then \<forall>ns. length ns \<le> n \<longrightarrow> \<not> walk_to (edges (dd_g d)) (set_mset (held t)) c ns
     else res \<le> n \<and> (\<exists>ns. length ns = res \<and> walk_to (edges (dd_g d)) (set_mset (held t)) c ns \<and>
       take res path' = map (\<lambda>i. i + current_epoch d) ns))"
proof -
  have i: "inv (tls_bv t)" and raw: "raw (tmp_bv d)" and g: "g_ok (dd_g d)" using t d by (auto simp: tls_ok_def dd_ok_def)
  note cb = nodeToIndex_less [OF c(1)]
  have H: "set_mset (held t) = els (tls_bv t)" by (rule set_mset_held [OF t])
  obtain tmp where tmp: "bv_copyFrom ops (tls_bv t) (tmp_bv d) = Some tmp" "inv tmp" "els tmp = els (tls_bv t)"
    using copyFrom [OF raw i] by blast
  have c': "nodeToIndex ops (d\<lparr>tmp_bv := tmp\<rparr>) node = Some c" using c(1) by (simp add: nodeToIndex_iff)
  obtain res path1 where r: "graph_findShortestPath ops c tmp path n (dd_g d) = Some (res, path1)" "length path1 = length path"
    "if res = 0 then \<forall>ns. length ns \<le> n \<longrightarrow> \<not> walk_to (edges (dd_g d)) (els tmp) c ns
     else res \<le> n \<and> walk_to (edges (dd_g d)) (els tmp) c (take res path1)"
    using findShortestPath_run [OF g tmp(2) cb n] by (auto split: if_splits)
  define ns where "ns = take res path1"
  have len: "res \<le> n" using r(3) by (cases "res = 0") auto
  then have lns: "length ns = res" using r(2) n by (simp add: ns_def)
  have ns: "\<forall>x\<in>set ns. x < bv_kSize ops"
  proof (cases "res = 0")
    case False
    then have w: "walk_to (edges (dd_g d)) (els tmp) c ns" using r(3) by (simp add: ns_def)
    show ?thesis by (rule walk_nodes [OF w _ cb]) (use edge_bounds [OF g] in auto)
  qed (simp add: ns_def)
  have f: "foldM (\<lambda>i path. do { n \<leftarrow> indexToNode ops (d\<lparr>tmp_bv := tmp\<rparr>) (path ! i); Some (path[i := n]) }) [0..<res] path1 =
      Some (map (\<lambda>i. path1 ! i + current_epoch d) [0..<res] @ drop res path1)"
  proof (rule foldM_writes; (intro allI impI)?)
    fix j ys assume j: "j < res" "ys ! j = path1 ! j"
    have "path1 ! j \<in> set ns" using j lns by (auto simp: ns_def in_set_conv_nth intro!: exI [of _ j])
    then show "do { n \<leftarrow> indexToNode ops (d\<lparr>tmp_bv := tmp\<rparr>) (ys ! j); Some (ys[j := n]) } = Some (ys[j := path1 ! j + current_epoch d])"
      using ns j by (simp add: indexToNode_def)
  qed (use len r(2) n in simp)
  define path2 where "path2 = map (\<lambda>i. path1 ! i + current_epoch d) [0..<res] @ drop res path1"
  have t2: "take res path2 = map (\<lambda>i. i + current_epoch d) ns"
    using lns by (intro nth_equalityI) (simp_all add: path2_def ns_def)
  have "res = 0 \<or> path2 ! 0 = node"
  proof (cases "res = 0")
    case False
    then have w: "walk_to (edges (dd_g d)) (els tmp) c ns" using r(3) by (simp add: ns_def)
    then have "path1 ! 0 = c" using False lns by (auto simp: walk_to_def ns_def hd_conv_nth)
    moreover have "c + current_epoch d = node"
      using c(1) by (auto simp: nodeToIndex_iff nodeToEpoch_def)
    ultimately show ?thesis using False by (simp add: path2_def nth_append)
  qed simp
  then have "findPathToLock ops node path n (t, d) = Some (res, path2, t, d\<lparr>tmp_bv := tmp\<rparr>)"
    using ep tmp c' getBit [OF tmp(2) cb] c(2) r(1) f H
    by (simp add: findPathToLock_def tls_getLocks_def path2_def [symmetric])
  moreover have "if res = 0 then \<forall>ns. length ns \<le> n \<longrightarrow> \<not> walk_to (edges (dd_g d)) (set_mset (held t)) c ns
     else res \<le> n \<and> (\<exists>ns. length ns = res \<and> walk_to (edges (dd_g d)) (set_mset (held t)) c ns \<and>
       take res path2 = map (\<lambda>i. i + current_epoch d) ns)"
    using r(3) lns t2 by (auto simp: H tmp(3) ns_def)
  ultimately show ?thesis using tmp(2) by blast
qed

lemma report_entry_run:
  assumes d: "d_ok (dd_dd w)" and e: "0 < current_epoch (dd_dd w)" and len: "len = length ns" "i < len"
    and ns: "\<forall>x\<in>set ns. x < bv_kSize ops" and path: "take len path = map (\<lambda>i. i + current_epoch (dd_dd w)) ns"
  shows "\<exists>e. report_entry ops w path len i = Some e \<and> mtx_ctx0 e = m_ctx (dd_mutexes w (dd_data (dd_dd w) ! (ns ! i))) \<and>
    mtx_ctx1 e = m_ctx (dd_mutexes w (dd_data (dd_dd w) ! (ns ! ((i + 1) mod len))))"
proof -
  let ?j = "(i + 1) mod len" and ?e = "current_epoch (dd_dd w)"
  have j: "?j < len" using len by (intro mod_less_divisor) auto
  have "path ! k = ns ! k + ?e" if "k < len" for k
    using arg_cong [OF path, of "\<lambda>xs. xs ! k"] that len(1) by simp
  then have p: "path ! i = ns ! i + ?e" "path ! ?j = ns ! ?j + ?e" using len(2) j by auto
  have "bv_kSize ops dvd ?e" using d by (simp add: dd_ok_def)
  then have "nodeToIndex ops (dd_dd w) (ns ! k + ?e) = Some (ns ! k)" if "k < len" for k
    using newNode_index [OF _ e _ refl] ns that len(1) by simp
  then have "nodeToIndex ops (dd_dd w) (path ! i) = Some (ns ! i)" "nodeToIndex ops (dd_dd w) (path ! ?j) = Some (ns ! ?j)"
    using p len(2) j by auto
  then show ?thesis by (auto simp: report_entry_def getData_def findEdge_def Let_def split: prod.splits)
qed

lemma ReportDeadlock_run:
  assumes t: "t_ok (lt_dd lt)" and d: "d_ok (dd_dd w)" and ep: "tls_epoch (lt_dd lt) = current_epoch (dd_dd w)"
    and c: "nodeToIndex ops (dd_dd w) (m_id (dd_mutexes w m)) = Some c" "c \<notin> set_mset (held (lt_dd lt))"
    and E: "set_mset (held (lt_dd lt)) \<times> {c} \<subseteq> edges (dd_g (dd_dd w))" and l: "length (rep_loop (lt_rep lt)) = kMaxLoopSize"
  shows "\<exists>lt' w'. ReportDeadlock ops m (lt, w) = Some (lt', w') \<and> edges (dd_g (dd_dd w')) = edges (dd_g (dd_dd w)) \<and>
    d_ok (dd_dd w') \<and> lt_dd lt' = lt_dd lt \<and>
    (report_pending lt' \<and> report_cycle (edges (dd_g (dd_dd w'))) w' c (lt_rep lt') \<or>
     report_pending lt' = report_pending lt \<and> (\<forall>ns. length ns \<le> 20 \<longrightarrow> \<not> walk_to (edges (dd_g (dd_dd w))) (set_mset (held (lt_dd lt))) c ns))"
proof -
  let ?d = "dd_dd w" and ?H = "set_mset (held (lt_dd lt))"
  have "20 \<le> length (replicate 20 (0 :: nat))" by simp
  from findPathToLock_run [OF t d ep c this] obtain res path tmp where
    f: "findPathToLock ops (m_id (dd_mutexes w m)) (replicate 20 0) 20 (lt_dd lt, ?d) = Some (res, path, lt_dd lt, ?d\<lparr>tmp_bv := tmp\<rparr>)"
      "inv tmp" "if res = 0 then \<forall>ns. length ns \<le> 20 \<longrightarrow> \<not> walk_to (edges (dd_g ?d)) ?H c ns
       else res \<le> 20 \<and> (\<exists>ns. length ns = res \<and> walk_to (edges (dd_g ?d)) ?H c ns \<and> take res path = map (\<lambda>i. i + current_epoch ?d) ns)"
    by blast
  define w' where "w' = w\<lparr>dd_dd := ?d\<lparr>tmp_bv := tmp\<rparr>\<rparr>"
  have w': "d_ok (dd_dd w')" "edges (dd_g (dd_dd w')) = edges (dd_g ?d)" "dd_mutexes w' = dd_mutexes w"
    "current_epoch (dd_dd w') = current_epoch ?d"
    using d inv_raw [OF f(2)] by (simp_all add: w'_def dd_ok_def)
  show ?thesis
  proof (cases "res = 0")
    case True
    then have "ReportDeadlock ops m (lt, w) = Some (lt, w')" using f(1) by (simp add: ReportDeadlock_def w'_def)
    then show ?thesis using True f(3) w' by auto
  next
    case False
    then obtain ns where ns: "length ns = res" "walk_to (edges (dd_g ?d)) ?H c ns" "res \<le> 20"
      "take res path = map (\<lambda>i. i + current_epoch ?d) ns" using f(3) by auto
    have bound: "\<forall>x\<in>set ns. x < bv_kSize ops"
      by (rule walk_nodes [OF ns(2) _ nodeToIndex_less [OF c(1)]]) (use edge_bounds d in \<open>auto simp: dd_ok_def\<close>)
    have c0: "c + current_epoch ?d = m_id (dd_mutexes w m)" "0 < current_epoch ?d"
      using c(1) kSize_pos by (auto simp: nodeToIndex_iff nodeToEpoch_def div_greater_zero_iff)
    have "path ! 0 = take res path ! 0" using False by simp
    also have "\<dots> = c + current_epoch ?d" using ns(1,2) False by (auto simp: ns(4) walk_to_def hd_conv_nth)
    finally have p0: "m_id (dd_mutexes w m) = path ! 0" using c0(1) by simp
    have "\<forall>i<res. \<exists>e. report_entry ops w' path res i = Some e \<and>
        mtx_ctx0 e = m_ctx (dd_mutexes w' (dd_data (dd_dd w') ! (ns ! i))) \<and>
        mtx_ctx1 e = m_ctx (dd_mutexes w' (dd_data (dd_dd w') ! (ns ! ((i + 1) mod res))))"
      using report_entry_run [OF w'(1)] c0(2) w'(4) ns(1,4) bound by auto
    then obtain e where e: "\<forall>i<res. report_entry ops w' path res i = Some (e i) \<and>
        mtx_ctx0 (e i) = m_ctx (dd_mutexes w' (dd_data (dd_dd w') ! (ns ! i))) \<and>
        mtx_ctx1 (e i) = m_ctx (dd_mutexes w' (dd_data (dd_dd w') ! (ns ! ((i + 1) mod res))))" by metis
    have m: "min res kMaxLoopSize = res" using ns(3) by (simp add: kMaxLoopSize_def)
    have fl: "foldM (\<lambda>i loop. do { e \<leftarrow> report_entry ops w' path res i; Some (loop[i := e]) }) [0..<res] (rep_loop (lt_rep lt)) =
        Some (map e [0..<res] @ drop res (rep_loop (lt_rep lt)))"
      by (rule foldM_writes) (use e l ns(3) in \<open>simp_all add: kMaxLoopSize_def\<close>)
    define lt' where "lt' = lt\<lparr>report_pending := True,
        lt_rep := (lt_rep lt)\<lparr>rep_n := res, rep_loop := map e [0..<res] @ drop res (rep_loop (lt_rep lt))\<rparr>\<rparr>"
    have "ReportDeadlock ops m (lt, w) = Some (lt', w')"
      using False f(1) p0 fl m by (simp add: ReportDeadlock_def w'_def [symmetric] w'(3) lt'_def Let_def)
    moreover have "report_cycle (edges (dd_g (dd_dd w'))) w' c (lt_rep lt')"
      unfolding report_cycle_def
    proof (intro exI [of _ ns] conjI allI impI)
      show "ns \<noteq> []" "hd ns = c" using ns(2) by (auto simp: walk_to_def)
      show "length ns = rep_n (lt_rep lt')" "rep_n (lt_rep lt') \<le> kMaxLoopSize" using ns(1) m by (simp_all add: lt'_def)
      fix i assume i: "i < rep_n (lt_rep lt')"
      then show "(ns ! i, ns ! ((i + 1) mod rep_n (lt_rep lt'))) \<in> edges (dd_g (dd_dd w'))"
        using walk_closes_cycle [OF ns(2) E, of i] ns(1) w'(2) by (simp add: lt'_def)
      show "mtx_ctx0 (rep_loop (lt_rep lt') ! i) = m_ctx (dd_mutexes w' (dd_data (dd_dd w') ! (ns ! i)))"
        "mtx_ctx1 (rep_loop (lt_rep lt') ! i) = m_ctx (dd_mutexes w' (dd_data (dd_dd w') ! (ns ! ((i + 1) mod rep_n (lt_rep lt')))))"
        using i e by (simp_all add: lt'_def nth_append)
    qed
    ultimately show ?thesis using w' by (auto simp: lt'_def)
  qed
qed

lemma MutexEnsureID_run:
  assumes t: "t_ok (lt_dd lt)" and d: "d_ok (dd_dd w)" and e: "current_epoch (dd_dd w) + bv_kSize ops < 2 ^ 64"
    and m: "m_id (dd_mutexes w m) = 0 \<or> bv_kSize ops \<le> m_id (dd_mutexes w m)"
  shows "\<exists>t' w' c. MutexEnsureID ops m (lt, w) = Some (lt\<lparr>lt_dd := t'\<rparr>, w') \<and> t_ok t' \<and> d_ok (dd_dd w') \<and>
    tls_epoch t' = current_epoch (dd_dd w') \<and> nodeToIndex ops (dd_dd w') (m_id (dd_mutexes w' m)) = Some c"
proof -
  obtain w' c where w': "(if \<not> nodeBelongsToCurrentEpoch ops (dd_dd w) (m_id (dd_mutexes w m)) then do {
         (node, d) \<leftarrow> newNode ops m (dd_dd w);
         Some (set_mutex_id m node (w\<lparr>dd_dd := d\<rparr>))
       } else Some w) = Some w'" "d_ok (dd_dd w')" "nodeToIndex ops (dd_dd w') (m_id (dd_mutexes w' m)) = Some c"
  proof (cases "nodeBelongsToCurrentEpoch ops (dd_dd w) (m_id (dd_mutexes w m))")
    case True
    then have "nodeToIndex ops (dd_dd w) (m_id (dd_mutexes w m)) = Some (m_id (dd_mutexes w m) mod bv_kSize ops)"
      using m by (auto simp: nodeBelongsToCurrentEpoch_def nodeToIndex_iff nodeToEpoch_def)
    then show ?thesis using that [of w] True d by simp
  next
    case False
    obtain idx d' where n: "newNode ops m (dd_dd w) = Some (idx + current_epoch d', d')" "d_ok d'" "idx < bv_kSize ops" "0 < current_epoch d'"
      using newNode_run [OF d e, of m] by blast
    have "bv_kSize ops dvd current_epoch d'" using n(2) by (simp add: dd_ok_def)
    then have "nodeToIndex ops d' (idx + current_epoch d') = Some idx" using newNode_index n(3,4) by simp
    then show ?thesis using that [of "set_mutex_id m (idx + current_epoch d') (w\<lparr>dd_dd := d'\<rparr>)"] False n(1,2)
      by (simp add: set_mutex_id_def)
  qed
  then show ?thesis using tls_ensure_ok [OF t, of "current_epoch (dd_dd w')"]
    by (intro exI [of _ "ensureCurrentEpoch ops (dd_dd w') (lt_dd lt)"] exI [of _ w'] exI [of _ c])
      (simp add: MutexEnsureID_def ensureCurrentEpoch_def)
qed

lemma foldM_all:
  "\<forall>x\<in>set xs. g x = Some (p x) \<Longrightarrow> foldM (\<lambda>x all. if \<not> all then Some False else g x) xs b = Some (b \<and> (\<forall>x\<in>set xs. p x))"
  by (induction xs arbitrary: b) auto

lemma hasAllEdges_run:
  assumes t: "t_ok t" and d: "d_ok d"
  shows "hasAllEdges ops node (t, d) = Some (node \<noteq> 0 \<and> tls_epoch t = current_epoch d \<and> tls_epoch t = nodeToEpoch ops node \<and>
    set_mset (held t) \<times> {node mod bv_kSize ops} \<subseteq> edges (dd_g d))"
proof -
  have g: "g_ok (dd_g d)" and i: "inv (tls_bv t)" using d t by (auto simp: dd_ok_def tls_ok_def)
  let ?c = "node mod bv_kSize ops"
  have cb: "?c < bv_kSize ops" using kSize_pos by simp
  have locks: "(\<lambda>i. tls_getLock i t) ` {..<n_all_locks t} = els (tls_bv t)"
  proof -
    have "n_all_locks t \<le> length (all_locks_with_contexts t)" using t by (simp add: tls_ok_def)
    then have "set (take (n_all_locks t) (all_locks_with_contexts t)) = (!) (all_locks_with_contexts t) ` {..<n_all_locks t}"
      by (simp add: nth_image [symmetric] atLeast0LessThan)
    then show ?thesis using t by (auto simp: tls_ok_def tls_getLock_def image_image)
  qed
  have "\<forall>i\<in>set [0..<n_all_locks t]. graph_hasEdge_racy ops (tls_getLock i t) ?c (dd_g d) = Some ((tls_getLock i t, ?c) \<in> edges (dd_g d))"
  proof
    fix i assume "i \<in> set [0..<n_all_locks t]"
    then have "tls_getLock i t \<in> els (tls_bv t)" using locks by auto
    then show "graph_hasEdge_racy ops (tls_getLock i t) ?c (dd_g d) = Some ((tls_getLock i t, ?c) \<in> edges (dd_g d))"
      using hasEdge_racy_run [OF g _ cb] els_bound [OF i] by auto
  qed
  note f = foldM_all [OF this, of True]
  have "(\<forall>i\<in>set [0..<n_all_locks t]. (tls_getLock i t, ?c) \<in> edges (dd_g d)) \<longleftrightarrow> set_mset (held t) \<times> {?c} \<subseteq> edges (dd_g d)"
    unfolding set_mset_held [OF t] locks [symmetric] by auto
  then show ?thesis using f by (auto simp: hasAllEdges_def nodeToIndexUnchecked_def Let_def)
qed

text \<open>The slow path of \<^verbatim>\<open>MutexBeforeLock\<close>, once the mutex has a node of the current epoch.\<close>

lemma before_lock_slow:
  assumes t: "t_ok t1" and d: "d_ok (dd_dd w1)" and ep: "tls_epoch t1 = current_epoch (dd_dd w1)"
    and c: "nodeToIndex ops (dd_dd w1) (m_id (dd_mutexes w1 m)) = Some c"
    and l: "length (rep_loop (lt_rep lt)) = kMaxLoopSize" and np: "\<not> report_pending lt"
  defines "node \<equiv> m_id (dd_mutexes w1 m)" and "H \<equiv> set_mset (held t1)"
  shows "\<exists>lt' w'. before_lock_locked ops cb m (lt\<lparr>lt_dd := t1\<rparr>, w1) = Some (lt', w') \<and>
    (report_pending lt' \<longrightarrow> report_cycle (edges (dd_g (dd_dd w'))) w' c (lt_rep lt')) \<and>
    (c \<notin> H \<and> (\<exists>ns. length ns \<le> 20 \<and> walk_to (edges (dd_g (dd_dd w1))) H c ns) \<longrightarrow> report_pending lt')"
proof -
  have idem: "ensureCurrentEpoch ops d2 t1 = t1" if "current_epoch d2 = current_epoch (dd_dd w1)" for d2
    using ep that by (simp add: ensureCurrentEpoch_def tls_ensureCurrentEpoch_def)
  have i: "inv (tls_bv t1)" using t by (simp add: tls_ok_def)
  have ih: "isHeld ops node (t1, dd_dd w1) = Some (c \<in> H)"
    using ep c getBit [OF i nodeToIndex_less [OF c]] set_mset_held [OF t]
    by (simp add: isHeld_def tls_getLocks_def node_def H_def)
  let ?r = "\<exists>h\<in>H. (c, h) \<in> (edges (dd_g (dd_dd w1)))\<^sup>*"
  obtain d2 where ob: "onLockBefore ops node (t1, dd_dd w1) = Some (?r, t1, d2)" "d_ok d2"
    "current_epoch d2 = current_epoch (dd_dd w1)" "edges (dd_g d2) = edges (dd_g (dd_dd w1))"
    using onLockBefore_run [OF t d c] idem [OF refl] by (auto simp: node_def H_def)
  have c2: "nodeToIndex ops d2 node = Some c" using c ob(3) by (simp add: nodeToIndex_iff node_def)
  obtain n d3 where ae: "dd_addEdges ops node (cb_Unwind cb) (cb_UniqueTid cb) (t1, d2) = Some (n, t1, d3)"
    "d_ok d3" "current_epoch d3 = current_epoch d2" "edges (dd_g d3) = edges (dd_g d2) \<union> H \<times> {c}"
    using dd_addEdges_run [OF t ob(2) c2, of "cb_Unwind cb" "cb_UniqueTid cb"] idem [OF ob(3)] by (auto simp: H_def)
  have walk_r: ?r if "walk_to (edges (dd_g (dd_dd w1))) H c ns" for ns
  proof -
    have "(hd ns, last ns) \<in> (edges (dd_g (dd_dd w1)))\<^sup>*"
      by (rule walk_rtrancl) (use that in \<open>auto simp: walk_to_def\<close>)
    then show ?thesis using that by (auto simp: walk_to_def)
  qed
  consider (held) "c \<in> H" | (none) "c \<notin> H" "\<not> ?r" | (report) "c \<notin> H" ?r by blast
  then show ?thesis
  proof cases
    case report
    let ?lt = "lt\<lparr>lt_dd := t1\<rparr>" and ?w = "w1\<lparr>dd_dd := d3\<rparr>"
    have "\<exists>lt' w'. ReportDeadlock ops m (?lt, ?w) = Some (lt', w') \<and>
      (report_pending lt' \<and> report_cycle (edges (dd_g (dd_dd w'))) w' c (lt_rep lt') \<or>
       report_pending lt' = report_pending ?lt \<and> (\<forall>ns. length ns \<le> 20 \<longrightarrow> \<not> walk_to (edges (dd_g d3)) H c ns))"
      using ReportDeadlock_run [of ?lt ?w m c] t ep ae ob(3) c2 l report(1) by (auto simp: nodeToIndex_iff node_def H_def)
    then obtain lt' w' where r: "ReportDeadlock ops m (?lt, ?w) = Some (lt', w')"
      "report_pending lt' \<and> report_cycle (edges (dd_g (dd_dd w'))) w' c (lt_rep lt') \<or>
       \<not> report_pending lt' \<and> (\<forall>ns. length ns \<le> 20 \<longrightarrow> \<not> walk_to (edges (dd_g d3)) H c ns)" using np by auto
    have "walk_to (edges (dd_g d3)) H c ns" if "walk_to (edges (dd_g (dd_dd w1))) H c ns" for ns
      using that ae(4) ob(4) by (auto simp: walk_to_def intro: successively_mono)
    then show ?thesis using r ih ob(1) ae(1) report by (auto simp: before_lock_locked_def Let_def node_def)
  next
    case held
    then show ?thesis using ih np by (simp add: before_lock_locked_def node_def)
  next
    case none
    then show ?thesis using ih ob(1) np walk_r by (auto simp: before_lock_locked_def node_def)
  qed
qed

lemma MutexBeforeLock_run:
  assumes t: "t_ok (lt_dd lt)" and d: "d_ok (dd_dd w)" and e: "current_epoch (dd_dd w) + bv_kSize ops < 2 ^ 64"
    and m: "m_id (dd_mutexes w m) = 0 \<or> bv_kSize ops \<le> m_id (dd_mutexes w m)"
    and l: "length (rep_loop (lt_rep lt)) = kMaxLoopSize" and np: "\<not> report_pending lt"
  shows "\<exists>lt' w'. MutexBeforeLock ops cb m (lt, w) = Some (lt', w') \<and>
    (report_pending lt' \<longrightarrow> (\<exists>c. report_cycle (edges (dd_g (dd_dd w'))) w' c (lt_rep lt')))"
proof (cases "tls_empty ops (lt_dd lt) \<or> hasAllEdges ops (m_id (dd_mutexes w m)) (lt_dd lt, dd_dd w) = Some True")
  case True
  then have "MutexBeforeLock ops cb m (lt, w) = Some (lt, w)" by (auto simp: MutexBeforeLock_def)
  then show ?thesis using np by simp
next
  case False
  then have h: "hasAllEdges ops (m_id (dd_mutexes w m)) (lt_dd lt, dd_dd w) = Some False"
    using hasAllEdges_run [OF t d] by simp
  obtain t1 w1 c where id: "MutexEnsureID ops m (lt, w) = Some (lt\<lparr>lt_dd := t1\<rparr>, w1)" "t_ok t1" "d_ok (dd_dd w1)"
    "tls_epoch t1 = current_epoch (dd_dd w1)" "nodeToIndex ops (dd_dd w1) (m_id (dd_mutexes w1 m)) = Some c"
    using MutexEnsureID_run [OF t d e m] by blast
  have "MutexBeforeLock ops cb m (lt, w) = before_lock_locked ops cb m (lt\<lparr>lt_dd := t1\<rparr>, w1)"
    using False h id(1) by (simp add: MutexBeforeLock_def)
  then show ?thesis using before_lock_slow [OF id(2-5) l np, of cb] by auto
qed

text \<open>A mutex that already has a node of the epoch, for the witness below.\<close>

lemma MutexBeforeLock_reports:
  assumes t: "t_ok (lt_dd lt)" and d: "d_ok (dd_dd w)" and ep: "tls_epoch (lt_dd lt) = current_epoch (dd_dd w)"
    and c: "nodeToIndex ops (dd_dd w) (m_id (dd_mutexes w m)) = Some c"
    and l: "length (rep_loop (lt_rep lt)) = kMaxLoopSize" and np: "\<not> report_pending lt"
    and ne: "h \<in> set_mset (held (lt_dd lt))" "c \<notin> set_mset (held (lt_dd lt))" "(h, c) \<notin> edges (dd_g (dd_dd w))"
    and wk: "walk_to (edges (dd_g (dd_dd w))) (set_mset (held (lt_dd lt))) c ns" "length ns \<le> 20"
  shows "\<exists>lt' w'. MutexBeforeLock ops cb m (lt, w) = Some (lt', w') \<and> report_pending lt'"
proof -
  have i: "inv (tls_bv (lt_dd lt))" using t by (simp add: tls_ok_def)
  have "\<not> tls_empty ops (lt_dd lt)" using ne(1) set_mset_held [OF t] empty_iff [OF i] by (auto simp: tls_empty_def)
  moreover have "hasAllEdges ops (m_id (dd_mutexes w m)) (lt_dd lt, dd_dd w) = Some False"
    using hasAllEdges_run [OF t d] ne(1,3) c by (auto simp: nodeToIndex_iff)
  moreover have "nodeBelongsToCurrentEpoch ops (dd_dd w) (m_id (dd_mutexes w m))"
    using c kSize_pos by (auto simp: nodeToIndex_iff nodeBelongsToCurrentEpoch_def nodeToEpoch_def)
  then have "MutexEnsureID ops m (lt, w) = Some (lt\<lparr>lt_dd := lt_dd lt\<rparr>, w)"
    using ep by (simp add: MutexEnsureID_def ensureCurrentEpoch_def tls_ensureCurrentEpoch_def)
  ultimately have "MutexBeforeLock ops cb m (lt, w) = before_lock_locked ops cb m (lt\<lparr>lt_dd := lt_dd lt\<rparr>, w)"
    by (simp add: MutexBeforeLock_def)
  then show ?thesis using before_lock_slow [OF t d ep c l np, of cb] ne(2) wk by auto
qed

end

declare One_nat_def [simp del]

text \<open>
  C18: \<^verbatim>\<open>MutexBeforeLock\<close> runs to its end, and when it leaves a report for the thread, the report
  is a genuine cycle: its entries, at most 20, follow edges of the lock order graph from the
  mutex being locked back to itself, and name the clients' contexts of the mutexes at both ends
  of each edge.
\<close>

theorem deadlock_report_is_cycle:
  assumes "tls_ok (tl_inv 1) (tl_els 1) (lt_dd lt)" and "dd_ok (tl_ops 1) (tl_raw 1) (tl_inv 1) (tl_els 1) (dd_dd w)"
    and "current_epoch (dd_dd w) + 4096 < 2 ^ 64" and "m_id (dd_mutexes w m) = 0 \<or> 4096 \<le> m_id (dd_mutexes w m)"
    and "length (rep_loop (lt_rep lt)) = kMaxLoopSize" and "\<not> report_pending lt"
  shows "\<exists>lt' w'. MutexBeforeLock (tl_ops 1) cb m (lt, w) = Some (lt', w') \<and>
    (report_pending lt' \<longrightarrow> (\<exists>c. report_cycle (graph_edges (tl_els 1) (dd_g (dd_dd w'))) w' c (lt_rep lt')))"
  using ddbv.MutexBeforeLock_run [OF assms(1,2) _ _ assms(5,6)] assms(3,4) by simp

text \<open>Lock 0 is held and lock 1 was once held when lock 0 was taken.\<close>

definition inverted_tls :: "TwoLevel TLS" where
  "inverted_tls = \<lparr>tls_bv = one_vector 1, tls_epoch = 4096, recursive_locks = replicate 64 0, n_recursive_locks = 0,
     all_locks_with_contexts = replicate 128 \<lparr>lwc_lock = 0, lwc_stk = 0\<rparr>, n_all_locks = 1\<rparr>"

definition inverted_dd :: "TwoLevel Detector" where
  "inverted_dd = dd_start\<lparr>current_epoch := 4096,
     dd_g := \<lparr>g_v = (replicate 4096 (one_vector 0))[1 := one_vector 1], g_t1 = one_vector 0, g_t2 = one_vector 0\<rparr>\<rparr>"

definition inverted_thread :: "TwoLevel DDLogicalThread" where
  "inverted_thread = \<lparr>lt_ctx = 0, lt_dd = inverted_tls,
     lt_rep = \<lparr>rep_n = 0, rep_loop = replicate 20 \<lparr>thr_ctx = 0, mtx_ctx0 = 0, mtx_ctx1 = 0, loop_stk0 = 0, loop_stk1 = 0\<rparr>\<rparr>,
     report_pending = False\<rparr>"

definition inverted_world :: "TwoLevel DD" where
  "inverted_world = \<lparr>dd_dd = inverted_dd, second_deadlock_stack = False,
     dd_mutexes = (\<lambda>m. \<lparr>m_id = 4096 + m, m_stk = 0, m_ctx = m\<rparr>)\<rparr>"

lemma els_one_vector_1: "tl_els 1 (one_vector 1) = {0}"
proof -
  have b: "basic_els (1 :: uptr) = {0}" using basic_els_exp [of 0] by simp
  have "x \<in> tl_els 1 (one_vector 1) \<longleftrightarrow> x = 0" for x
    using index_eq_iff [of x 0] by (auto simp: tl_els_mem cell_def one_vector_def b)
  then show ?thesis by auto
qed

lemma inverted_edges: "graph_edges (tl_els 1) (dd_g inverted_dd) = {(1, 0)}"
  using els_one_vector_0 els_one_vector_1
  by (auto simp: graph_edges_def inverted_dd_def nth_list_update split: if_splits)

lemma inverted_ok: "tls_ok (tl_inv 1) (tl_els 1) inverted_tls" "dd_ok (tl_ops 1) (tl_raw 1) (tl_inv 1) (tl_els 1) inverted_dd"
proof -
  show "tls_ok (tl_inv 1) (tl_els 1) inverted_tls"
    using one_vector_ok els_one_vector_1 by (simp add: tls_ok_def inverted_tls_def kRecursiveLocks_def kAllLocks_def One_nat_def)
  have "tl_inv 1 ((replicate 4096 (one_vector 0))[1 := one_vector 1] ! i)" if "i < 4096" for i
    using that one_vector_ok by (simp add: nth_list_update)
  then show "dd_ok (tl_ops 1) (tl_raw 1) (tl_inv 1) (tl_els 1) inverted_dd"
    using dd_start_ok(1) one_vector_ok by (auto simp: system_ok_def dd_ok_def graph_ok_def inverted_dd_def)
qed

lemma deadlock_report_is_cycle_witness:
  "\<exists>lt' w' c. MutexBeforeLock (tl_ops 1) \<lparr>cb_Unwind = 5, cb_UniqueTid = 3\<rparr> 1 (inverted_thread, inverted_world) = Some (lt', w') \<and>
     report_pending lt' \<and> report_cycle (graph_edges (tl_els 1) (dd_g (dd_dd w'))) w' c (lt_rep lt')"
proof -
  let ?cb = "\<lparr>cb_Unwind = 5, cb_UniqueTid = 3\<rparr>"
  have sel: "lt_dd inverted_thread = inverted_tls" "dd_dd inverted_world = inverted_dd" "current_epoch inverted_dd = 4096"
    "tls_epoch inverted_tls = 4096" "m_id (dd_mutexes inverted_world 1) = 4097" "\<not> report_pending inverted_thread"
    "length (rep_loop (lt_rep inverted_thread)) = kMaxLoopSize"
    by (simp_all add: inverted_thread_def inverted_world_def inverted_dd_def inverted_tls_def kMaxLoopSize_def)
  have H: "set_mset (tls_held (tl_els 1) inverted_tls) = {0}"
    using ddbv.set_mset_held [OF inverted_ok(1)] els_one_vector_1 by (simp add: inverted_tls_def)
  have n: "nodeToIndex (tl_ops 1) inverted_dd 4097 = Some 1"
    using ddbv.nodeToIndex_iff [of inverted_dd 4097 1] sel(3) by (simp add: nodeToEpoch_def)
  have "walk_to {(1, 0)} {0} 1 [1, 0 :: nat]" by (simp add: walk_to_def)
  then obtain lt' w' where r: "MutexBeforeLock (tl_ops 1) ?cb 1 (inverted_thread, inverted_world) = Some (lt', w')" "report_pending lt'"
    using ddbv.MutexBeforeLock_reports [of inverted_thread inverted_world 1 1 0 "[1, 0]" ?cb]
    by (auto simp: sel H n inverted_ok inverted_edges)
  moreover have "\<exists>c. report_cycle (graph_edges (tl_els 1) (dd_g (dd_dd w'))) w' c (lt_rep lt')"
    using deadlock_report_is_cycle [of inverted_thread inverted_world 1 ?cb] r by (auto simp: sel inverted_ok)
  ultimately show ?thesis by blast
qed

declare One_nat_def [simp]

end
