(* ===== verification/Thread_Registry.thy ===== *)
theory Thread_Registry
  imports San_Prelude
begin

text \<open>
  \<^verbatim>\<open>ThreadContextBase\<close> and \<^verbatim>\<open>ThreadRegistry\<close> of \<^verbatim>\<open>sanitizer_thread_registry.{h,cpp}\<close>. Every public
  operation runs under the registry's lock, so an operation is one step; a failed \<^verbatim>\<open>CHECK\<close>,
  an index outside \<^verbatim>\<open>threads_\<close> and \<^verbatim>\<open>Die\<close> are \<^const>\<open>None\<close>. The pointers to contexts that the
  registry keeps in its two intrusive lists are the contexts' tids, the map \<^verbatim>\<open>live_\<close> is a map.
  The virtual callbacks \<^verbatim>\<open>OnCreated\<close> and so on, empty in the base class, do not touch the state
  modelled here.
\<close>

section \<open>Thread contexts\<close>

datatype ThreadStatus = StatusInvalid | StatusCreated | StatusRunning | StatusFinished | StatusDead

datatype ThreadType = Regular | Worker | Fiber

record ThreadContext =
  tid :: nat
  unique_id :: nat
  reuse_count :: nat
  os_id :: nat
  user_id :: nat
  tname :: string
  status :: ThreadStatus
  detached :: bool
  thread_type :: ThreadType
  parent_tid :: nat
  stack_id :: nat
  thread_destroyed :: bool

definition mk_ThreadContext :: "nat \<Rightarrow> ThreadContext" where
  "mk_ThreadContext t = \<lparr>tid = t, unique_id = 0, reuse_count = 0, os_id = 0, user_id = 0, tname = '''',
     status = StatusInvalid, detached = False, thread_type = Regular, parent_tid = 0, stack_id = 0,
     thread_destroyed = False\<rparr>"

text \<open>A name is the C string in \<^verbatim>\<open>char name[64]\<close>; the argument is a C string or null.\<close>

definition SetName :: "string option \<Rightarrow> ThreadContext \<Rightarrow> ThreadContext" where
  "SetName new_name c = c\<lparr>tname := (case new_name of None \<Rightarrow> '''' | Some s \<Rightarrow> take 63 s)\<rparr>"

definition SetDead :: "ThreadContext \<Rightarrow> ThreadContext option" where
  "SetDead c = do {
     CHECK (status c = StatusRunning \<or> status c = StatusFinished);
     Some (c\<lparr>status := StatusDead, user_id := 0\<rparr>)
   }"

definition SetDestroyed :: "ThreadContext \<Rightarrow> ThreadContext" where
  "SetDestroyed c = c\<lparr>thread_destroyed := True\<rparr>"

definition SetJoined :: "ThreadContext \<Rightarrow> ThreadContext option" where
  "SetJoined c = do {
     CHECK (\<not> detached c);
     CHECK (status c = StatusFinished);
     Some (c\<lparr>status := StatusDead, user_id := 0\<rparr>)
   }"

definition SetFinished :: "ThreadContext \<Rightarrow> ThreadContext" where
  "SetFinished c = (if \<not> detached c \<or> status c = StatusCreated then c\<lparr>status := StatusFinished\<rparr> else c)"

definition SetStarted :: "nat \<Rightarrow> ThreadType \<Rightarrow> ThreadContext \<Rightarrow> ThreadContext" where
  "SetStarted os ty c = c\<lparr>status := StatusRunning, os_id := os, thread_type := ty\<rparr>"

definition kMainTid :: nat where "kMainTid = 0"

definition SetCreated :: "nat \<Rightarrow> nat \<Rightarrow> bool \<Rightarrow> nat \<Rightarrow> nat \<Rightarrow> ThreadContext \<Rightarrow> ThreadContext" where
  "SetCreated u uniq det parent stack c =
     (let c = c\<lparr>status := StatusCreated, user_id := u, unique_id := uniq, detached := det\<rparr>
      in if tid c \<noteq> kMainTid then c\<lparr>parent_tid := parent, stack_id := stack\<rparr> else c)"

definition Reset :: "ThreadContext \<Rightarrow> ThreadContext" where
  "Reset c = (SetName None (c\<lparr>status := StatusInvalid\<rparr>))\<lparr>thread_destroyed := False\<rparr>"

section \<open>The registry\<close>

record Registry =
  max_threads :: nat
  thread_quarantine_size :: nat
  max_reuse :: nat
  total_threads :: nat
  alive_threads :: nat
  max_alive_threads :: nat
  running_threads :: nat
  threads :: "ThreadContext list"
  dead_threads :: "nat list"
  invalid_threads :: "nat list"
  live :: "nat \<rightharpoonup> nat"

definition mk_ThreadRegistry :: "nat \<Rightarrow> nat \<Rightarrow> nat \<Rightarrow> Registry" where
  "mk_ThreadRegistry mt q mr = \<lparr>max_threads = mt, thread_quarantine_size = q, max_reuse = mr, total_threads = 0,
     alive_threads = 0, max_alive_threads = 0, running_threads = 0, threads = [], dead_threads = [],
     invalid_threads = [], live = (\<lambda>_. None)\<rparr>"

definition get_ctx :: "Registry \<Rightarrow> nat \<Rightarrow> ThreadContext option" where
  "get_ctx r t = (if t < length (threads r) then Some (threads r ! t) else None)"

definition set_ctx :: "nat \<Rightarrow> ThreadContext \<Rightarrow> Registry \<Rightarrow> Registry" where
  "set_ctx t c r = r\<lparr>threads := (threads r)[t := c]\<rparr>"

definition erase_live :: "nat \<Rightarrow> Registry \<Rightarrow> Registry" where
  "erase_live u r = r\<lparr>live := (live r)(u := None)\<rparr>"

text \<open>\<^verbatim>\<open>CHECK(live_.try_emplace(u, t).second)\<close>.\<close>

definition emplace_live :: "nat \<Rightarrow> nat \<Rightarrow> Registry \<Rightarrow> Registry option" where
  "emplace_live u t r = do { CHECK (live r u = None); Some (r\<lparr>live := (live r)(u \<mapsto> t)\<rparr>) }"

definition QuarantinePush :: "nat \<Rightarrow> Registry \<Rightarrow> Registry option" where
  "QuarantinePush t r =
     (if t = 0 then Some r
      else let r = r\<lparr>dead_threads := dead_threads r @ [t]\<rparr> in
        if length (dead_threads r) \<le> thread_quarantine_size r then Some r
        else do {
          let t = hd (dead_threads r);
          let r = r\<lparr>dead_threads := tl (dead_threads r)\<rparr>;
          c \<leftarrow> get_ctx r t;
          CHECK (status c = StatusDead);
          let c = Reset c;
          let c = c\<lparr>reuse_count := (reuse_count c + 1) mod 2 ^ 32\<rparr>;
          let r = set_ctx t c r;
          Some (if 0 < max_reuse r \<and> max_reuse r \<le> reuse_count c then r
                else r\<lparr>invalid_threads := invalid_threads r @ [t]\<rparr>)
        })"

definition QuarantinePop :: "Registry \<Rightarrow> nat option \<times> Registry" where
  "QuarantinePop r =
     (case invalid_threads r of [] \<Rightarrow> (None, r)
      | t # ts \<Rightarrow> (Some t, r\<lparr>invalid_threads := ts\<rparr>))"

definition kInvalidTid :: nat where "kInvalidTid = 2 ^ 32 - 1"

text \<open>The counting part of \<^verbatim>\<open>CreateThread\<close>: one more alive thread, and the high-water mark.\<close>

definition count_alive :: "Registry \<Rightarrow> Registry option" where
  "count_alive r = do {
     let r = r\<lparr>alive_threads := alive_threads r + 1\<rparr>;
     if max_alive_threads r < alive_threads r then do {
       let r = r\<lparr>max_alive_threads := max_alive_threads r + 1\<rparr>;
       CHECK (alive_threads r = max_alive_threads r);
       Some r
     } else Some r
   }"

definition CreateThread :: "nat \<Rightarrow> bool \<Rightarrow> nat \<Rightarrow> nat \<Rightarrow> Registry \<Rightarrow> (nat \<times> Registry) option" where
  "CreateThread u det parent stack r = do {
     let (p, r) = QuarantinePop r;
     (t, r) \<leftarrow> (case p of Some t \<Rightarrow> Some (t, r)
       | None \<Rightarrow> if length (threads r) < max_threads r
           then Some (length (threads r), r\<lparr>threads := threads r @ [mk_ThreadContext (length (threads r))]\<rparr>)
           else None);
     c \<leftarrow> get_ctx r t;
     CHECK (t \<noteq> kInvalidTid);
     CHECK (t < max_threads r);
     CHECK (status c = StatusInvalid);
     r \<leftarrow> count_alive r;
     r \<leftarrow> (if u \<noteq> 0 then emplace_live u t r else Some r);
     let c = SetCreated u (total_threads r) det parent stack c;
     Some (t, set_ctx t c (r\<lparr>total_threads := total_threads r + 1\<rparr>))
   }"

definition FindThreadContextLocked :: "(ThreadContext \<Rightarrow> bool) \<Rightarrow> Registry \<Rightarrow> ThreadContext option" where
  "FindThreadContextLocked cb r = List.find cb (threads r)"

definition FindThread :: "(ThreadContext \<Rightarrow> bool) \<Rightarrow> Registry \<Rightarrow> nat" where
  "FindThread cb r = (case List.find cb (threads r) of Some c \<Rightarrow> tid c | None \<Rightarrow> kInvalidTid)"

definition FindThreadContextByOsIDLocked :: "nat \<Rightarrow> Registry \<Rightarrow> ThreadContext option" where
  "FindThreadContextByOsIDLocked os r =
     FindThreadContextLocked (\<lambda>c. os_id c = os \<and> status c \<noteq> StatusInvalid \<and> status c \<noteq> StatusDead) r"

definition SetThreadName :: "nat \<Rightarrow> string option \<Rightarrow> Registry \<Rightarrow> Registry option" where
  "SetThreadName t nm r = do {
     c \<leftarrow> get_ctx r t;
     CHECK (status c = StatusRunning);
     Some (set_ctx t (SetName nm c) r)
   }"

definition SetThreadNameByUserId :: "nat \<Rightarrow> string option \<Rightarrow> Registry \<Rightarrow> Registry option" where
  "SetThreadNameByUserId u nm r =
     (case live r u of None \<Rightarrow> Some r
      | Some t \<Rightarrow> do { c \<leftarrow> get_ctx r t; Some (set_ctx t (SetName nm c) r) })"

definition erase_user :: "ThreadContext \<Rightarrow> Registry \<Rightarrow> Registry" where
  \<comment> \<open>\<^verbatim>\<open>if (tctx->user_id) live_.erase(tctx->user_id)\<close>\<close>
  "erase_user c r = (if user_id c \<noteq> 0 then erase_live (user_id c) r else r)"

definition DetachThread :: "nat \<Rightarrow> Registry \<Rightarrow> Registry option" where
  "DetachThread t r = do {
     c \<leftarrow> get_ctx r t;
     if status c = StatusInvalid then Some r
     else if status c = StatusFinished then do {
       let r = erase_user c r;
       c \<leftarrow> SetDead c;
       QuarantinePush (tid c) (set_ctx t c r)
     } else Some (set_ctx t (c\<lparr>detached := True\<rparr>) r)
   }"

text \<open>One turn of the loop of \<^verbatim>\<open>JoinThread\<close>: the flag says that the call returns; otherwise it
  yields and tries again.\<close>

definition JoinThread_turn :: "nat \<Rightarrow> Registry \<Rightarrow> (bool \<times> Registry) option" where
  "JoinThread_turn t r = do {
     c \<leftarrow> get_ctx r t;
     if status c = StatusInvalid then Some (True, r)
     else if thread_destroyed c then do {
       let r = erase_user c r;
       c \<leftarrow> SetJoined c;
       r \<leftarrow> QuarantinePush (tid c) (set_ctx t c r);
       Some (True, r)
     } else Some (False, r)
   }"

definition FinishThread :: "nat \<Rightarrow> Registry \<Rightarrow> (ThreadStatus \<times> Registry) option" where
  "FinishThread t r = do {
     CHECK (0 < alive_threads r);
     let r = r\<lparr>alive_threads := alive_threads r - 1\<rparr>;
     c \<leftarrow> get_ctx r t;
     let prev_status = status c;
     (dead, r) \<leftarrow> (if status c = StatusRunning then do {
         CHECK (0 < running_threads r);
         Some (detached c, r\<lparr>running_threads := running_threads r - 1\<rparr>)
       } else do { CHECK (status c = StatusCreated); Some (True, r) });
     let c = SetFinished c;
     let r = set_ctx t c r;
     r \<leftarrow> (if dead then do {
         let r = erase_user c r;
         c \<leftarrow> SetDead c;
         QuarantinePush (tid c) (set_ctx t c r)
       } else Some r);
     c \<leftarrow> get_ctx r t;
     Some (prev_status, set_ctx t (SetDestroyed c) r)
   }"

definition StartThread :: "nat \<Rightarrow> nat \<Rightarrow> ThreadType \<Rightarrow> Registry \<Rightarrow> Registry option" where
  "StartThread t os ty r = do {
     let r = r\<lparr>running_threads := running_threads r + 1\<rparr>;
     c \<leftarrow> get_ctx r t;
     CHECK (status c = StatusCreated);
     Some (set_ctx t (SetStarted os ty c) r)
   }"

definition ConsumeThreadUserId :: "nat \<Rightarrow> Registry \<Rightarrow> (nat \<times> Registry) option" where
  "ConsumeThreadUserId u r = do {
     t \<leftarrow> live r u;
     let r = erase_live u r;
     c \<leftarrow> get_ctx r t;
     CHECK (user_id c = u);
     Some (t, set_ctx t (c\<lparr>user_id := 0\<rparr>) r)
   }"

definition SetThreadUserId :: "nat \<Rightarrow> nat \<Rightarrow> Registry \<Rightarrow> Registry option" where
  "SetThreadUserId t u r = do {
     c \<leftarrow> get_ctx r t;
     CHECK (status c \<noteq> StatusInvalid);
     CHECK (status c \<noteq> StatusDead);
     CHECK (user_id c = 0);
     emplace_live u (tid c) (set_ctx t (c\<lparr>user_id := u\<rparr>) r)
   }"

fun OnFork_loop :: "nat \<Rightarrow> nat list \<Rightarrow> Registry \<Rightarrow> Registry option" where
  "OnFork_loop t [] r = Some r"
| "OnFork_loop t (i # is) r = do {
     c \<leftarrow> get_ctx r i;
     if tid c = t \<or> user_id c = 0 then OnFork_loop t is r
     else do {
       CHECK (live r (user_id c) \<noteq> None);
       OnFork_loop t is (set_ctx i (c\<lparr>user_id := 0\<rparr>) (erase_live (user_id c) r))
     }
   }"

definition OnFork :: "nat \<Rightarrow> Registry \<Rightarrow> (nat \<times> Registry) option" where
  "OnFork t r = do { r \<leftarrow> OnFork_loop t [0..<length (threads r)] r; Some (alive_threads r, r) }"

section \<open>The invariant\<close>

definition is_alive :: "ThreadContext \<Rightarrow> bool" where
  "is_alive c \<longleftrightarrow> status c = StatusCreated \<or> status c = StatusRunning"

definition is_running :: "ThreadContext \<Rightarrow> bool" where
  "is_running c \<longleftrightarrow> status c = StatusRunning"

definition ctx_ok :: "nat \<Rightarrow> ThreadContext \<Rightarrow> bool" where
  "ctx_ok q c \<longleftrightarrow> (status c = StatusInvalid \<or> status c = StatusDead \<longrightarrow> user_id c = 0) \<and>
     (0 < q \<and> thread_destroyed c \<longrightarrow> status c = StatusFinished \<or> status c = StatusDead) \<and>
     (status c = StatusFinished \<longrightarrow> thread_destroyed c)"

definition live_ok :: "Registry \<Rightarrow> bool" where
  "live_ok r \<longleftrightarrow> (\<forall>u t. u \<noteq> 0 \<longrightarrow> (live r u = Some t \<longleftrightarrow> t < length (threads r) \<and> user_id (threads r ! t) = u))"

definition lists_ok :: "Registry \<Rightarrow> bool" where
  "lists_ok r \<longleftrightarrow> distinct (dead_threads r) \<and> distinct (invalid_threads r) \<and> length (dead_threads r) \<le> thread_quarantine_size r \<and>
     (\<forall>t\<in>set (dead_threads r). 0 < t \<and> t < length (threads r) \<and> status (threads r ! t) = StatusDead) \<and>
     (\<forall>t\<in>set (invalid_threads r). 0 < t \<and> t < length (threads r) \<and> status (threads r ! t) = StatusInvalid)"

definition registry_ok :: "Registry \<Rightarrow> bool" where
  "registry_ok r \<longleftrightarrow> (\<forall>t<length (threads r). tid (threads r ! t) = t \<and> ctx_ok (thread_quarantine_size r) (threads r ! t)) \<and>
     alive_threads r = length (filter is_alive (threads r)) \<and>
     running_threads r = length (filter is_running (threads r)) \<and>
     alive_threads r \<le> max_alive_threads r \<and> length (threads r) \<le> max_threads r \<and> max_threads r \<le> kInvalidTid \<and>
     live_ok r \<and> lists_ok r"

end
