(* ===== verification/Thread_Registry_Proofs.thy ===== *)
theory Thread_Registry_Proofs
  imports Thread_Registry
begin

text \<open>
  The invariant of the thread registry, its preservation by every operation, and what follows
  for reachable registries: the counters agree with the states of the contexts, user ids are
  looked up correctly, and joining a joinable thread cannot fail a check.
\<close>

section \<open>Updating one context\<close>

lemma get_ctx_Some: "get_ctx r t = Some c \<longleftrightarrow> t < length (threads r) \<and> threads r ! t = c"
  by (auto simp: get_ctx_def)

lemma set_ctx_simps [simp]:
  "threads (set_ctx t c r) = (threads r)[t := c]" "live (set_ctx t c r) = live r" "dead_threads (set_ctx t c r) = dead_threads r"
  "invalid_threads (set_ctx t c r) = invalid_threads r" "alive_threads (set_ctx t c r) = alive_threads r"
  "running_threads (set_ctx t c r) = running_threads r" "max_alive_threads (set_ctx t c r) = max_alive_threads r"
  "max_threads (set_ctx t c r) = max_threads r" "thread_quarantine_size (set_ctx t c r) = thread_quarantine_size r"
  "max_reuse (set_ctx t c r) = max_reuse r" "total_threads (set_ctx t c r) = total_threads r"
  by (simp_all add: set_ctx_def)

lemma erase_live_simps [simp]:
  "threads (erase_live u r) = threads r" "live (erase_live u r) = (live r)(u := None)" "dead_threads (erase_live u r) = dead_threads r"
  "invalid_threads (erase_live u r) = invalid_threads r" "alive_threads (erase_live u r) = alive_threads r"
  "running_threads (erase_live u r) = running_threads r" "max_alive_threads (erase_live u r) = max_alive_threads r"
  "max_threads (erase_live u r) = max_threads r" "thread_quarantine_size (erase_live u r) = thread_quarantine_size r"
  "max_reuse (erase_live u r) = max_reuse r" "total_threads (erase_live u r) = total_threads r"
  by (simp_all add: erase_live_def)

text \<open>A registry that differs from a correct one in the context of \<open>t\<close>.\<close>

lemma registry_ok_update:
  assumes ok: "registry_ok r" and t: "t < length (threads r)"
    and r': "threads r' = (threads r)[t := c]" "thread_quarantine_size r' = thread_quarantine_size r" "max_threads r' = max_threads r"
    and c: "tid c = t" "ctx_ok (thread_quarantine_size r) c"
    and alive: "alive_threads r' + (if is_alive (threads r ! t) then 1 else 0) = alive_threads r + (if is_alive c then 1 else 0)"
    and running: "running_threads r' + (if is_running (threads r ! t) then 1 else 0) = running_threads r + (if is_running c then 1 else 0)"
    and rest: "alive_threads r' \<le> max_alive_threads r'" "live_ok r'" "lists_ok r'"
  shows "registry_ok r'"
proof -
  have "alive_threads r' = length (filter is_alive (threads r'))"
    using alive length_filter_update [OF t, of is_alive c] ok by (simp add: registry_ok_def r')
  moreover have "running_threads r' = length (filter is_running (threads r'))"
    using running length_filter_update [OF t, of is_running c] ok by (simp add: registry_ok_def r')
  moreover have "\<forall>i<length (threads r'). tid (threads r' ! i) = i \<and> ctx_ok (thread_quarantine_size r') (threads r' ! i)"
    using ok c t by (auto simp: registry_ok_def r' nth_list_update)
  ultimately show ?thesis using ok rest by (simp add: registry_ok_def r')
qed

lemma live_ok_same:
  assumes "live_ok r" and "t < length (threads r)" and "user_id c = user_id (threads r ! t)"
    and "threads r' = (threads r)[t := c]" and "live r' = live r"
  shows "live_ok r'"
  using assms by (auto simp: live_ok_def nth_list_update)

lemma live_ok_erase:
  assumes "live_ok r" and "t < length (threads r)" and "user_id c = 0" and "threads r' = (threads r)[t := c]"
    and "live r' = (if user_id (threads r ! t) \<noteq> 0 then (live r)(user_id (threads r ! t) := None) else live r)"
  shows "live_ok r'"
  unfolding live_ok_def
proof (intro allI impI)
  fix u i assume u: "u \<noteq> (0 :: nat)"
  have l: "live r u = Some j \<longleftrightarrow> j < length (threads r) \<and> user_id (threads r ! j) = u" for j
    using assms(1) u by (auto simp: live_ok_def)
  show "live r' u = Some i \<longleftrightarrow> i < length (threads r') \<and> user_id (threads r' ! i) = u"
  proof (cases "u = user_id (threads r ! t)")
    case True
    have "i = t" if "i < length (threads r)" "user_id (threads r ! i) = u" for i
      using l [of i] l [of t] True that assms(2) by simp
    then show ?thesis using True u assms(2-5) by (auto simp: nth_list_update)
  next
    case False
    then show ?thesis using l [of i] u assms(2-5) by (auto simp: nth_list_update)
  qed
qed

lemma live_ok_emplace:
  assumes "live_ok r" and "t < length (threads r)" and "user_id (threads r ! t) = 0" and "live r (user_id c) = None"
    and "threads r' = (threads r)[t := c]" and "live r' = (live r)(user_id c \<mapsto> t)"
  shows "live_ok r'"
  unfolding live_ok_def
proof (intro allI impI)
  fix u i assume u: "u \<noteq> (0 :: nat)"
  have l: "live r u = Some j \<longleftrightarrow> j < length (threads r) \<and> user_id (threads r ! j) = u" for j
    using assms(1) u by (auto simp: live_ok_def)
  show "live r' u = Some i \<longleftrightarrow> i < length (threads r') \<and> user_id (threads r' ! i) = u"
    using l [of i] l [of t] u assms(2-6) by (cases "u = user_id c") (auto simp: nth_list_update)
qed

text \<open>The lists are not concerned when the thread is in neither of them before or after.\<close>

lemma lists_ok_other:
  assumes "lists_ok r" and "t < length (threads r)"
    and "status c = status (threads r ! t) \<or> status (threads r ! t) \<noteq> StatusDead \<and> status (threads r ! t) \<noteq> StatusInvalid"
    and "threads r' = (threads r)[t := c]" and "dead_threads r' = dead_threads r" and "invalid_threads r' = invalid_threads r"
    and "thread_quarantine_size r' = thread_quarantine_size r"
  shows "lists_ok r'"
  using assms by (fastforce simp: lists_ok_def nth_list_update)

lemma registry_okD:
  assumes "registry_ok r"
  shows "live_ok r" "lists_ok r" "alive_threads r \<le> max_alive_threads r"
    and "t < length (threads r) \<Longrightarrow> tid (threads r ! t) = t" "t < length (threads r) \<Longrightarrow> ctx_ok (thread_quarantine_size r) (threads r ! t)"
  using assms by (auto simp: registry_ok_def)

section \<open>The quarantine\<close>

lemma QuarantinePush_run:
  assumes ok: "registry_ok r" and t: "t < length (threads r)" "status (threads r ! t) = StatusDead" "t \<notin> set (dead_threads r)"
  shows "\<exists>r'. QuarantinePush t r = Some r' \<and> registry_ok r' \<and> length (threads r') = length (threads r) \<and>
    alive_threads r' = alive_threads r \<and> thread_quarantine_size r' = thread_quarantine_size r \<and>
    (0 < thread_quarantine_size r \<longrightarrow> threads r' ! t = threads r ! t) \<and>
    (status (threads r' ! t) = StatusDead \<or> status (threads r' ! t) = StatusInvalid)"
proof (cases "t = 0 \<or> length (dead_threads r) < thread_quarantine_size r")
  case True
  have "registry_ok (r\<lparr>dead_threads := dead_threads r @ [t]\<rparr>)" if "t \<noteq> 0"
    using ok t True that by (auto simp: registry_ok_def lists_ok_def live_ok_def)
  then show ?thesis using True t ok by (auto simp: QuarantinePush_def Let_def)
next
  case False
  note L = registry_okD(2) [OF ok]
  define h where "h = hd (dead_threads r @ [t])"
  define ds where "ds = tl (dead_threads r @ [t])"
  have hd: "dead_threads r @ [t] = h # ds" by (simp add: h_def ds_def)
  have nl: "\<not> length (h # ds) \<le> thread_quarantine_size r" unfolding hd [symmetric] using False by simp
  have dist: "distinct (h # ds)" unfolding hd [symmetric] using L t(3) by (simp add: lists_ok_def)
  have mem: "x \<in> set (h # ds) \<Longrightarrow> 0 < x \<and> x < length (threads r) \<and> status (threads r ! x) = StatusDead" for x
    unfolding hd [symmetric] using L t(1,2) False by (auto simp: lists_ok_def)
  have len: "length ds \<le> thread_quarantine_size r" using L by (simp add: ds_def lists_ok_def)
  define c where "c = (Reset (threads r ! h))\<lparr>reuse_count := (reuse_count (Reset (threads r ! h)) + 1) mod 2 ^ 32\<rparr>"
  have cs: "tid c = tid (threads r ! h)" "status c = StatusInvalid" "user_id c = user_id (threads r ! h)" "\<not> thread_destroyed c"
    by (simp_all add: c_def Reset_def SetName_def)
  note H = mem [of h]
  define r2 where "r2 = set_ctx h c (r\<lparr>dead_threads := ds\<rparr>)"
  define r' where "r' = (if 0 < max_reuse r2 \<and> max_reuse r2 \<le> reuse_count c then r2
                else r2\<lparr>invalid_threads := invalid_threads r2 @ [h]\<rparr>)"
  have "QuarantinePush t r = Some r'"
    using False H nl by (simp add: QuarantinePush_def Let_def get_ctx_def hd c_def r2_def r'_def)
  moreover have thr: "threads r' = (threads r)[h := c]" "live r' = live r" "dead_threads r' = ds" "alive_threads r' = alive_threads r"
    "running_threads r' = running_threads r" "max_alive_threads r' = max_alive_threads r" "max_threads r' = max_threads r"
    "thread_quarantine_size r' = thread_quarantine_size r"
    "invalid_threads r' = invalid_threads r \<or> invalid_threads r' = invalid_threads r @ [h]"
    by (simp_all add: r'_def r2_def)
  have "h \<notin> set (invalid_threads r)" using L H by (auto simp: lists_ok_def)
  then have lists: "lists_ok r'" unfolding lists_ok_def thr
    using L thr(9) dist mem len H cs(2) by (auto simp: lists_ok_def nth_list_update)
  have "registry_ok r'"
  proof (rule registry_ok_update [OF ok, of h r' c])
    show "ctx_ok (thread_quarantine_size r) c"
      using registry_okD(5) [OF ok, of h] H cs by (auto simp: ctx_ok_def)
    show "live_ok r'" by (rule live_ok_same [OF registry_okD(1) [OF ok], of h c]) (use H cs thr in auto)
  qed (use H cs thr lists registry_okD [OF ok] in \<open>simp_all add: is_alive_def is_running_def\<close>)
  moreover have "h \<noteq> t" if "0 < thread_quarantine_size r"
    using that False L hd dist by (cases "dead_threads r") (auto simp: lists_ok_def)
  ultimately show ?thesis using thr t cs(2) H by (auto simp: nth_list_update)
qed

section \<open>Every operation keeps the invariant\<close>

definition dead_ctx :: "ThreadContext \<Rightarrow> ThreadContext" where
  "dead_ctx c = c\<lparr>status := StatusDead, user_id := 0\<rparr>"

lemma erase_user_simps [simp]:
  "threads (erase_user c r) = threads r" "dead_threads (erase_user c r) = dead_threads r"
  "invalid_threads (erase_user c r) = invalid_threads r" "alive_threads (erase_user c r) = alive_threads r"
  "running_threads (erase_user c r) = running_threads r" "max_alive_threads (erase_user c r) = max_alive_threads r"
  "max_threads (erase_user c r) = max_threads r" "thread_quarantine_size (erase_user c r) = thread_quarantine_size r"
  "live (erase_user c r) = (if user_id c \<noteq> 0 then (live r)(user_id c := None) else live r)"
  by (simp_all add: erase_user_def)

text \<open>Ending the life of a thread: its counters have been adjusted, its context is dead.\<close>

lemma retire_run:
  assumes ok: "registry_ok r" and t: "t < length (threads r)" "status (threads r ! t) \<noteq> StatusDead" "status (threads r ! t) \<noteq> StatusInvalid"
    and c: "tid c = t" "status c = StatusDead" "user_id c = 0"
    and r1: "threads r1 = (threads r)[t := c]" "dead_threads r1 = dead_threads r" "invalid_threads r1 = invalid_threads r"
      "thread_quarantine_size r1 = thread_quarantine_size r" "max_threads r1 = max_threads r" "max_alive_threads r1 = max_alive_threads r"
      "live r1 = (if user_id (threads r ! t) \<noteq> 0 then (live r)(user_id (threads r ! t) := None) else live r)"
    and n: "alive_threads r1 + (if is_alive (threads r ! t) then 1 else 0) = alive_threads r"
      "running_threads r1 + (if is_running (threads r ! t) then 1 else 0) = running_threads r"
  shows "\<exists>r'. QuarantinePush t r1 = Some r' \<and> registry_ok r' \<and> t < length (threads r') \<and> thread_quarantine_size r' = thread_quarantine_size r \<and>
    (0 < thread_quarantine_size r \<longrightarrow> threads r' ! t = c) \<and>
    (status (threads r' ! t) = StatusDead \<or> status (threads r' ! t) = StatusInvalid)"
proof -
  have "registry_ok r1"
  proof (rule registry_ok_update [OF ok t(1) r1(1,4,5) c(1)])
    show "ctx_ok (thread_quarantine_size r) c" using c by (simp add: ctx_ok_def)
    show "live_ok r1" by (rule live_ok_erase [OF registry_okD(1) [OF ok] t(1) c(3) r1(1,7)])
    show "lists_ok r1" by (rule lists_ok_other [OF registry_okD(2) [OF ok] t(1) _ r1(1-4)]) (use t in simp)
    show "alive_threads r1 \<le> max_alive_threads r1" using n(1) registry_okD(3) [OF ok] r1(6) by simp
  qed (use n c in \<open>simp_all add: is_alive_def is_running_def\<close>)
  moreover have "t \<notin> set (dead_threads r1)" using registry_okD(2) [OF ok] t r1(2) by (auto simp: lists_ok_def)
  ultimately show ?thesis using QuarantinePush_run [of r1 t] t(1) r1 c(2) by auto
qed

lemma context_update_ok:
  assumes ok: "registry_ok r" and t: "t < length (threads r)"
    and c: "tid c = t" "ctx_ok (thread_quarantine_size r) c" "user_id c = user_id (threads r ! t)"
      "is_alive c = is_alive (threads r ! t)" "is_running c = is_running (threads r ! t)"
      "status c = status (threads r ! t) \<or> status (threads r ! t) \<noteq> StatusDead \<and> status (threads r ! t) \<noteq> StatusInvalid"
  shows "registry_ok (set_ctx t c r)"
proof (rule registry_ok_update [OF ok t _ _ _ c(1,2)])
  show "live_ok (set_ctx t c r)" by (rule live_ok_same [OF registry_okD(1) [OF ok] t c(3)]) simp_all
  show "lists_ok (set_ctx t c r)" by (rule lists_ok_other [OF registry_okD(2) [OF ok] t c(6)]) simp_all
qed (use c registry_okD(3) [OF ok] in simp_all)

lemma context_cosmetic_ok:
  assumes ok: "registry_ok r" and t: "t < length (threads r)"
    and c: "tid c = tid (threads r ! t)" "status c = status (threads r ! t)" "user_id c = user_id (threads r ! t)"
      "thread_destroyed c = thread_destroyed (threads r ! t)"
  shows "registry_ok (set_ctx t c r)"
  by (rule context_update_ok [OF ok t])
    (use registry_okD(4,5) [OF ok t] c in \<open>simp_all add: ctx_ok_def is_alive_def is_running_def\<close>)

lemma SetThreadName_ok: "registry_ok r \<Longrightarrow> SetThreadName t nm r = Some r' \<Longrightarrow> registry_ok r'"
  by (auto simp: SetThreadName_def bind_eq_Some_conv CHECK_Some_iff get_ctx_Some SetName_def intro!: context_cosmetic_ok)

lemma SetThreadNameByUserId_ok: "registry_ok r \<Longrightarrow> SetThreadNameByUserId u nm r = Some r' \<Longrightarrow> registry_ok r'"
  by (auto simp: SetThreadNameByUserId_def bind_eq_Some_conv get_ctx_Some SetName_def split: option.splits
      intro!: context_cosmetic_ok)

lemma StartThread_ok:
  assumes ok: "registry_ok r" and run: "StartThread t os ty r = Some r'"
  shows "registry_ok r'"
proof -
  have t: "t < length (threads r)" "status (threads r ! t) = StatusCreated"
    and r': "r' = set_ctx t (SetStarted os ty (threads r ! t)) (r\<lparr>running_threads := running_threads r + 1\<rparr>)"
    using run by (auto simp: StartThread_def bind_eq_Some_conv CHECK_Some_iff get_ctx_Some Let_def)
  note C = registry_okD(4,5) [OF ok t(1)]
  show ?thesis
  proof (rule registry_ok_update [OF ok t(1)])
    show "threads r' = (threads r)[t := SetStarted os ty (threads r ! t)]" by (simp add: r')
    show "live_ok r'" by (rule live_ok_same [OF registry_okD(1) [OF ok] t(1)]) (simp_all add: r' SetStarted_def)
    show "lists_ok r'" by (rule lists_ok_other [OF registry_okD(2) [OF ok] t(1)]) (use t in \<open>simp_all add: r'\<close>)
  qed (use C t registry_okD(3) [OF ok] in \<open>auto simp: r' SetStarted_def is_alive_def is_running_def ctx_ok_def\<close>)
qed

lemma DetachThread_ok:
  assumes ok: "registry_ok r" and run: "DetachThread t r = Some r'"
  shows "registry_ok r'"
proof -
  obtain c where c: "t < length (threads r)" "threads r ! t = c" using run by (auto simp: DetachThread_def bind_eq_Some_conv get_ctx_Some)
  note C = registry_okD(4,5) [OF ok c(1), unfolded c(2)]
  consider (inv) "status c = StatusInvalid" | (fin) "status c = StatusFinished"
    | (oth) "status c \<noteq> StatusInvalid" "status c \<noteq> StatusFinished" by blast
  then show ?thesis
  proof cases
    case fin
    have "QuarantinePush t (set_ctx t (dead_ctx c) (erase_user c r)) = Some r'"
      using run c fin C by (simp add: DetachThread_def get_ctx_def SetDead_def Let_def dead_ctx_def)
    then show ?thesis
      using retire_run [OF ok c(1), of "dead_ctx c" "set_ctx t (dead_ctx c) (erase_user c r)"] C fin c(2)
      by (auto simp: dead_ctx_def is_alive_def is_running_def erase_user_def)
  next
    case oth
    then have "r' = set_ctx t (c\<lparr>detached := True\<rparr>) r" using run c by (simp add: DetachThread_def get_ctx_def)
    then show ?thesis using c by (simp add: context_cosmetic_ok [OF ok c(1)])
  qed (use run c ok in \<open>simp add: DetachThread_def get_ctx_def\<close>)
qed

lemma JoinThread_turn_ok:
  assumes ok: "registry_ok r" and run: "JoinThread_turn t r = Some (b, r')"
  shows "registry_ok r'"
proof -
  obtain c where c: "t < length (threads r)" "threads r ! t = c" using run by (auto simp: JoinThread_turn_def bind_eq_Some_conv get_ctx_Some)
  note C = registry_okD(4,5) [OF ok c(1), unfolded c(2)]
  show ?thesis
  proof (cases "status c \<noteq> StatusInvalid \<and> thread_destroyed c")
    case True
    then have fin: "status c = StatusFinished" "QuarantinePush t (set_ctx t (dead_ctx c) (erase_user c r)) = Some r'"
      using run c C by (auto simp: JoinThread_turn_def get_ctx_def SetJoined_def Let_def dead_ctx_def bind_eq_Some_conv CHECK_Some_iff)
    then show ?thesis
      using retire_run [OF ok c(1), of "dead_ctx c" "set_ctx t (dead_ctx c) (erase_user c r)"] C c(2)
      by (auto simp: dead_ctx_def is_alive_def is_running_def erase_user_def)
  qed (use run c ok in \<open>auto simp: JoinThread_turn_def get_ctx_def split: if_splits\<close>)
qed

lemma SetThreadUserId_ok:
  assumes ok: "registry_ok r" and run: "SetThreadUserId t u r = Some r'"
  shows "registry_ok r'"
proof -
  define c where "c = threads r ! t"
  have c: "t < length (threads r)" "status c \<noteq> StatusInvalid" "status c \<noteq> StatusDead" "user_id c = 0" "live r u = None"
    and r': "r' = (set_ctx t (c\<lparr>user_id := u\<rparr>) r)\<lparr>live := (live r)(u \<mapsto> t)\<rparr>"
    using run registry_okD(4) [OF ok, of t]
    by (auto simp: SetThreadUserId_def bind_eq_Some_conv CHECK_Some_iff get_ctx_Some emplace_live_def c_def)
  note C = registry_okD(4,5) [OF ok c(1), folded c_def]
  show ?thesis
  proof (rule registry_ok_update [OF ok c(1)])
    show "threads r' = (threads r)[t := c\<lparr>user_id := u\<rparr>]" by (simp add: r')
    show "live_ok r'"
      by (rule live_ok_emplace [OF registry_okD(1) [OF ok] c(1), of "c\<lparr>user_id := u\<rparr>"]) (use c in \<open>simp_all add: r' c_def [symmetric]\<close>)
    show "lists_ok r'" by (rule lists_ok_other [OF registry_okD(2) [OF ok] c(1)]) (use c in \<open>simp_all add: r' c_def [symmetric]\<close>)
  qed (use C c registry_okD(3) [OF ok] in \<open>auto simp: r' is_alive_def is_running_def ctx_ok_def c_def [symmetric]\<close>)
qed

lemma ConsumeThreadUserId_ok:
  assumes ok: "registry_ok r" and run: "ConsumeThreadUserId u r = Some (t, r')" and u: "u \<noteq> 0"
  shows "registry_ok r'" and "live r u = Some t"
proof -
  define c where "c = threads r ! t"
  have c: "t < length (threads r)" "user_id c = u" and l: "live r u = Some t"
    and r': "r' = set_ctx t (c\<lparr>user_id := 0\<rparr>) (erase_live u r)"
    using run by (auto simp: ConsumeThreadUserId_def bind_eq_Some_conv CHECK_Some_iff get_ctx_Some c_def Let_def)
  show "live r u = Some t" by (rule l)
  note C = registry_okD(4,5) [OF ok c(1), folded c_def]
  show "registry_ok r'"
  proof (rule registry_ok_update [OF ok c(1)])
    show "threads r' = (threads r)[t := c\<lparr>user_id := 0\<rparr>]" by (simp add: r')
    show "live_ok r'"
      by (rule live_ok_erase [OF registry_okD(1) [OF ok] c(1)]) (use c u in \<open>simp_all add: r' c_def [symmetric]\<close>)
    show "lists_ok r'" by (rule lists_ok_other [OF registry_okD(2) [OF ok] c(1)]) (use c in \<open>simp_all add: r' c_def [symmetric]\<close>)
  qed (use C c registry_okD(3) [OF ok] in \<open>auto simp: r' is_alive_def is_running_def ctx_ok_def c_def [symmetric]\<close>)
qed

lemma OnFork_loop_ok:
  assumes "registry_ok r" and "\<forall>i\<in>set is. i < length (threads r)"
  shows "\<exists>r'. OnFork_loop t is r = Some r' \<and> registry_ok r' \<and> alive_threads r' = alive_threads r \<and>
    length (threads r') = length (threads r) \<and>
    (\<forall>i<length (threads r). threads r' ! i = (if i \<in> set is \<and> i \<noteq> t then (threads r ! i)\<lparr>user_id := 0\<rparr> else threads r ! i))"
  using assms
proof (induction "is" arbitrary: r)
  case (Cons i "is")
  have i: "i < length (threads r)" using Cons.prems(2) by simp
  define c where "c = threads r ! i"
  note C = registry_okD(4,5) [OF Cons.prems(1) i, folded c_def]
  show ?case
  proof (cases "i = t \<or> user_id c = 0")
    case True
    then have "OnFork_loop t (i # is) r = OnFork_loop t is r" using i C by (simp add: get_ctx_def c_def)
    moreover have "c\<lparr>user_id := 0\<rparr> = c" if "i \<noteq> t" using True that by simp
    ultimately show ?thesis using Cons.IH [OF Cons.prems(1)] Cons.prems(2) by (auto simp: c_def)
  next
    case False
    let ?r = "set_ctx i (c\<lparr>user_id := 0\<rparr>) (erase_live (user_id c) r)"
    have "live r (user_id c) = Some i" using registry_okD(1) [OF Cons.prems(1)] False i by (simp add: live_ok_def c_def)
    then have run: "OnFork_loop t (i # is) r = OnFork_loop t is ?r" using False C i by (simp add: get_ctx_def c_def)
    have ok: "registry_ok ?r"
    proof (rule registry_ok_update [OF Cons.prems(1) i, of ?r "c\<lparr>user_id := 0\<rparr>"])
      show "live_ok ?r"
        by (rule live_ok_erase [OF registry_okD(1) [OF Cons.prems(1)] i]) (use False in \<open>simp_all add: c_def [symmetric]\<close>)
      show "lists_ok ?r" by (rule lists_ok_other [OF registry_okD(2) [OF Cons.prems(1)] i]) (simp_all add: c_def [symmetric])
    qed (use C registry_okD(3) [OF Cons.prems(1)] in \<open>auto simp: is_alive_def is_running_def ctx_ok_def c_def [symmetric]\<close>)
    show ?thesis unfolding run using Cons.IH [OF ok] Cons.prems(2) i False by (auto simp: c_def nth_list_update)
  qed
qed simp

lemma FinishThread_ok:
  assumes ok: "registry_ok r" and run: "FinishThread t r = Some (prev, r')"
  shows "registry_ok r'" and "prev = status (threads r ! t)"
proof -
  define c where "c = threads r ! t"
  have t: "t < length (threads r)" and st: "status c = StatusRunning \<or> status c = StatusCreated" and p: "prev = status c"
    and al: "0 < alive_threads r" and rn: "status c = StatusRunning \<longrightarrow> 0 < running_threads r"
    using run by (auto simp: FinishThread_def bind_eq_Some_conv CHECK_Some_iff get_ctx_Some c_def Let_def split: if_splits)
  show "prev = status (threads r ! t)" using p by (simp add: c_def)
  note C = registry_okD(4,5) [OF ok t, folded c_def]
  define r1 where "r1 = r\<lparr>alive_threads := alive_threads r - 1,
      running_threads := (if status c = StatusRunning then running_threads r - 1 else running_threads r)\<rparr>"
  define dead where "dead \<longleftrightarrow> (status c = StatusRunning \<longrightarrow> detached c)"
  show "registry_ok r'"
  proof (cases dead)
    case True
    have f: "status (SetFinished c) = StatusRunning \<or> status (SetFinished c) = StatusFinished" "tid (SetFinished c) = t"
      "user_id (SetFinished c) = user_id c" "dead_ctx (SetFinished c) = dead_ctx c"
      using st C by (auto simp: SetFinished_def dead_ctx_def)
    define r2 where "r2 = set_ctx t (dead_ctx c) (erase_user (SetFinished c) (set_ctx t (SetFinished c) r1))"
    have "\<exists>r3. QuarantinePush t r2 = Some r3 \<and> registry_ok r3 \<and> t < length (threads r3) \<and>
        thread_quarantine_size r3 = thread_quarantine_size r \<and> (0 < thread_quarantine_size r \<longrightarrow> threads r3 ! t = dead_ctx c) \<and>
        (status (threads r3 ! t) = StatusDead \<or> status (threads r3 ! t) = StatusInvalid)"
    proof (rule retire_run [OF ok t])
      show "status (threads r ! t) \<noteq> StatusDead" "status (threads r ! t) \<noteq> StatusInvalid" using st by (auto simp: c_def)
      show "alive_threads r2 + (if is_alive (threads r ! t) then 1 else 0) = alive_threads r"
        unfolding c_def [symmetric] using st al by (auto simp: r2_def r1_def is_alive_def)
      show "running_threads r2 + (if is_running (threads r ! t) then 1 else 0) = running_threads r"
        unfolding c_def [symmetric] using st rn by (auto simp: r2_def r1_def is_running_def)
    qed (simp_all add: r2_def r1_def dead_ctx_def C f(3) c_def [symmetric])
    then obtain r3 where r3: "QuarantinePush t r2 = Some r3" "registry_ok r3" "t < length (threads r3)"
      "thread_quarantine_size r3 = thread_quarantine_size r" "0 < thread_quarantine_size r \<longrightarrow> threads r3 ! t = dead_ctx c"
      "status (threads r3 ! t) = StatusDead \<or> status (threads r3 ! t) = StatusInvalid"
      by (elim exE conjE) (rule that; assumption)
    have fd: "SetDead (SetFinished c) = Some (dead_ctx c)" "tid (dead_ctx c) = t"
      using f C by (auto simp: SetDead_def dead_ctx_def)
    have r': "r' = set_ctx t (SetDestroyed (threads r3 ! t)) r3"
      using run t al rn True r3(1,3) st f(2) fd unfolding dead_def r1_def r2_def
      by (cases "status c = StatusRunning") (simp_all add: FinishThread_def get_ctx_def c_def [symmetric] Let_def)
    show ?thesis unfolding r'
      by (rule context_update_ok [OF r3(2,3)])
        (use registry_okD(4,5) [OF r3(2,3)] r3(4-6) in \<open>auto simp: SetDestroyed_def is_alive_def is_running_def ctx_ok_def dead_ctx_def\<close>)
  next
    case False
    then have run: "status c = StatusRunning" "\<not> detached c" and
      r': "r' = set_ctx t (SetDestroyed (SetFinished c)) (set_ctx t (SetFinished c) r1)"
      using run t al rn st by (auto simp: dead_def FinishThread_def get_ctx_def c_def [symmetric] Let_def r1_def)
    show ?thesis
    proof (rule registry_ok_update [OF ok t])
      show "threads r' = (threads r)[t := SetDestroyed (SetFinished c)]" by (simp add: r' r1_def)
      show "live_ok r'" by (rule live_ok_same [OF registry_okD(1) [OF ok] t])
        (simp_all add: r' r1_def c_def [symmetric] SetDestroyed_def SetFinished_def)
      show "lists_ok r'" by (rule lists_ok_other [OF registry_okD(2) [OF ok] t]) (use run in \<open>simp_all add: r' r1_def c_def [symmetric]\<close>)
    qed (use C run al rn registry_okD(3) [OF ok] in \<open>auto simp: r' r1_def SetDestroyed_def SetFinished_def is_alive_def is_running_def
        ctx_ok_def c_def [symmetric]\<close>)
  qed
qed

lemma new_context_ok:
  assumes ok: "registry_ok r" and "length (threads r) < max_threads r"
  shows "registry_ok (r\<lparr>threads := threads r @ [mk_ThreadContext (length (threads r))]\<rparr>)"
  using assms
  by (auto simp: registry_ok_def live_ok_def lists_ok_def nth_append less_Suc_eq mk_ThreadContext_def ctx_ok_def is_alive_def is_running_def)

lemma pop_context_ok:
  assumes "registry_ok r" and "invalid_threads r = t # ts"
  shows "registry_ok (r\<lparr>invalid_threads := ts\<rparr>)" and "t < length (threads r)" and "status (threads r ! t) = StatusInvalid"
    and "t \<notin> set ts" and "0 < t"
  using assms by (auto simp: registry_ok_def lists_ok_def live_ok_def)

lemma SetCreated_simps [simp]:
  "tid (SetCreated u n d p s c) = tid c" "status (SetCreated u n d p s c) = StatusCreated" "user_id (SetCreated u n d p s c) = u"
  "unique_id (SetCreated u n d p s c) = n" "detached (SetCreated u n d p s c) = d"
  "thread_destroyed (SetCreated u n d p s c) = thread_destroyed c"
  by (simp_all add: SetCreated_def Let_def)

lemma created_ok:
  assumes ok: "registry_ok r" and t: "t < length (threads r)" "status (threads r ! t) = StatusInvalid"
    "t \<notin> set (invalid_threads r)" and u: "u \<noteq> 0 \<longrightarrow> live r u = None"
    and r': "threads r' = (threads r)[t := SetCreated u n d p s (threads r ! t)]" "alive_threads r' = alive_threads r + 1"
      "max_alive_threads r' = max (max_alive_threads r) (alive_threads r + 1)" "running_threads r' = running_threads r"
      "live r' = (if u \<noteq> 0 then (live r)(u \<mapsto> t) else live r)" "dead_threads r' = dead_threads r"
      "invalid_threads r' = invalid_threads r" "thread_quarantine_size r' = thread_quarantine_size r" "max_threads r' = max_threads r"
  shows "registry_ok r'"
proof -
  note C = registry_okD(4,5) [OF ok t(1)]
  have u0: "user_id (threads r ! t) = 0" using C(2) t(2) by (simp add: ctx_ok_def)
  have "live_ok r'"
  proof (cases "u = 0")
    case True
    show ?thesis by (rule live_ok_same [OF registry_okD(1) [OF ok] t(1) _ r'(1)]) (use True u0 r'(5) in simp_all)
  next
    case False
    show ?thesis by (rule live_ok_emplace [OF registry_okD(1) [OF ok] t(1) u0 _ r'(1)]) (use False u r'(5) in simp_all)
  qed
  moreover have "lists_ok r'"
    unfolding lists_ok_def r'
  proof (intro conjI ballI)
    fix x assume "x \<in> set (dead_threads r)"
    then have "0 < x \<and> x < length (threads r) \<and> status (threads r ! x) = StatusDead"
      using registry_okD(2) [OF ok] by (simp add: lists_ok_def)
    then show "0 < x" "x < length ((threads r)[t := SetCreated u n d p s (threads r ! t)])"
      "status ((threads r)[t := SetCreated u n d p s (threads r ! t)] ! x) = StatusDead" using t by (auto simp: nth_list_update)
  next
    fix x assume "x \<in> set (invalid_threads r)"
    then have "0 < x \<and> x < length (threads r) \<and> status (threads r ! x) = StatusInvalid \<and> x \<noteq> t"
      using registry_okD(2) [OF ok] t(3) by (auto simp: lists_ok_def)
    then show "0 < x" "x < length ((threads r)[t := SetCreated u n d p s (threads r ! t)])"
      "status ((threads r)[t := SetCreated u n d p s (threads r ! t)] ! x) = StatusInvalid" by simp_all
  qed (use registry_okD(2) [OF ok] in \<open>simp_all add: lists_ok_def\<close>)
  moreover have "ctx_ok (thread_quarantine_size r) (SetCreated u n d p s (threads r ! t))"
    using C(2) t(2) by (auto simp: ctx_ok_def)
  ultimately show ?thesis
    by (intro registry_ok_update [OF ok t(1) r'(1,8,9)]) (use C r' t(2) in \<open>simp_all add: is_alive_def is_running_def\<close>)
qed

text \<open>Creation: the tid of a context that was invalid, or the next one.\<close>

lemma CreateThread_run:
  assumes ok: "registry_ok r"
    and space: "invalid_threads r \<noteq> [] \<or> length (threads r) < max_threads r"
    and u: "u \<noteq> 0 \<longrightarrow> live r u = None"
  shows "\<exists>t r'. CreateThread u d p s r = Some (t, r') \<and> registry_ok r' \<and> t < length (threads r') \<and>
    (t < length (threads r) \<longrightarrow> status (threads r ! t) = StatusInvalid) \<and> status (threads r' ! t) = StatusCreated \<and>
    user_id (threads r' ! t) = u \<and> detached (threads r' ! t) = d \<and> unique_id (threads r' ! t) = total_threads r"
proof -
  obtain t r1 where t: "(let (p, r) = QuarantinePop r in (case p of Some t \<Rightarrow> Some (t, r)
       | None \<Rightarrow> if length (threads r) < max_threads r
           then Some (length (threads r), r\<lparr>threads := threads r @ [mk_ThreadContext (length (threads r))]\<rparr>)
           else None)) = Some (t, r1)"
    and r1: "registry_ok r1" "t < length (threads r1)" "status (threads r1 ! t) = StatusInvalid" "t \<notin> set (invalid_threads r1)"
      "live r1 = live r" "max_threads r1 = max_threads r" "total_threads r1 = total_threads r"
      "t < length (threads r) \<longrightarrow> status (threads r ! t) = StatusInvalid" "t < max_threads r"
  proof (cases "invalid_threads r")
    case (Cons t ts)
    note P = pop_context_ok [OF ok Cons]
    have "t < max_threads r" using P(2) ok by (simp add: registry_ok_def)
    then show ?thesis using that [of t "r\<lparr>invalid_threads := ts\<rparr>"] P Cons by (simp add: QuarantinePop_def)
  next
    case Nil
    then have "length (threads r) < max_threads r" using space by simp
    then show ?thesis
      using that [of "length (threads r)" "r\<lparr>threads := threads r @ [mk_ThreadContext (length (threads r))]\<rparr>"] new_context_ok [OF ok] Nil
      by (simp add: QuarantinePop_def mk_ThreadContext_def)
  qed
  define r' where "r' = set_ctx t (SetCreated u (total_threads r) d p s (threads r1 ! t))
      (r1\<lparr>alive_threads := alive_threads r1 + 1, max_alive_threads := max (max_alive_threads r1) (alive_threads r1 + 1),
         live := (if u \<noteq> 0 then (live r1)(u \<mapsto> t) else live r1), total_threads := total_threads r1 + 1\<rparr>)"
  have ma: "max_alive_threads r1 + 1 = alive_threads r1 + 1" if "max_alive_threads r1 < alive_threads r1 + 1"
    using that registry_okD(3) [OF r1(1)] by simp
  have tk: "t \<noteq> kInvalidTid" using r1(9) ok by (simp add: registry_ok_def)
  have "CreateThread u d p s r = Some (t, r')"
    using t tk r1(2,3,5-7,9) u ma
    by (cases "max_alive_threads r1 < alive_threads r1 + 1"; cases "u = 0")
      (simp_all add: CreateThread_def count_alive_def Let_def split_beta get_ctx_def emplace_live_def r'_def max_def)
  moreover have "registry_ok r'"
    by (rule created_ok [OF r1(1-4)]) (use u r1(5) in \<open>simp_all add: r'_def\<close>)
  ultimately show ?thesis using r1 by (auto simp: r'_def)
qed

lemma bind_SomeE: "Option.bind x f = Some y \<Longrightarrow> (\<And>a. x = Some a \<Longrightarrow> f a = Some y \<Longrightarrow> P) \<Longrightarrow> P"
  by (cases x) simp_all

lemma CreateThread_live:
  assumes "CreateThread u d p s r = Some (t, r')" and "u \<noteq> 0"
  shows "live r u = None"
proof -
  obtain a where r1: "(case fst (QuarantinePop r) of Some t \<Rightarrow> Some (t, snd (QuarantinePop r))
      | None \<Rightarrow> if length (threads (snd (QuarantinePop r))) < max_threads (snd (QuarantinePop r))
        then Some (length (threads (snd (QuarantinePop r))), (snd (QuarantinePop r))
          \<lparr>threads := threads (snd (QuarantinePop r)) @ [mk_ThreadContext (length (threads (snd (QuarantinePop r))))]\<rparr>)
        else None) = Some a"
    and "\<exists>r2 r3. count_alive (snd a) = Some r2 \<and> (if u \<noteq> 0 then emplace_live u (fst a) r2 else Some r2) = Some r3"
    using assms(1) unfolding CreateThread_def Let_def split_beta
    by (elim bind_SomeE) (rule that, assumption, intro exI conjI; assumption)
  then obtain r2 r3 where "count_alive (snd a) = Some r2" and e: "emplace_live u (fst a) r2 = Some r3" using assms(2) by auto
  then have "live r2 = live (snd a)" by (auto simp: count_alive_def Let_def bind_eq_Some_conv split: if_splits)
  then have "live (snd a) u = None" using e by (auto simp: emplace_live_def CHECK_def split: if_splits)
  moreover have "live (snd a) = live r" using r1 by (auto simp: QuarantinePop_def split: list.splits if_splits)
  ultimately show ?thesis by simp
qed

lemma CreateThread_ok:
  assumes ok: "registry_ok r" and run: "CreateThread u d p s r = Some (t, r')"
  shows "registry_ok r'"
proof -
  have space: "invalid_threads r \<noteq> [] \<or> length (threads r) < max_threads r"
    using run by (auto simp: CreateThread_def QuarantinePop_def split: if_splits)
  have live: "u \<noteq> 0 \<longrightarrow> live r u = None"
    using CreateThread_live [OF run] by simp
  obtain t0 r0 where "CreateThread u d p s r = Some (t0, r0)" and "registry_ok r0"
    using CreateThread_run [OF ok space live, of d p s] by (elim exE conjE) (rule that)
  then show ?thesis using run by simp
qed

section \<open>Reachable registries\<close>

inductive registry_step :: "Registry \<Rightarrow> Registry \<Rightarrow> bool" where
  create: "CreateThread u d p s r = Some (t, r') \<Longrightarrow> registry_step r r'"
| start: "StartThread t os ty r = Some r' \<Longrightarrow> registry_step r r'"
| finish: "FinishThread t r = Some (prev, r') \<Longrightarrow> registry_step r r'"
| detach: "DetachThread t r = Some r' \<Longrightarrow> registry_step r r'"
| join: "JoinThread_turn t r = Some (b, r') \<Longrightarrow> registry_step r r'"
| set_name: "SetThreadName t nm r = Some r' \<Longrightarrow> registry_step r r'"
| set_name_by_user_id: "SetThreadNameByUserId u nm r = Some r' \<Longrightarrow> registry_step r r'"
| consume: "u \<noteq> 0 \<Longrightarrow> ConsumeThreadUserId u r = Some (t, r') \<Longrightarrow> registry_step r r'"
| set_user_id: "SetThreadUserId t u r = Some r' \<Longrightarrow> registry_step r r'"
| fork: "OnFork t r = Some (n, r') \<Longrightarrow> registry_step r r'"

lemma registry_step_ok: "registry_step r r' \<Longrightarrow> registry_ok r \<Longrightarrow> registry_ok r'"
proof (induction rule: registry_step.induct)
  case (fork t r n r')
  then show ?case using OnFork_loop_ok [of r "[0..<length (threads r)]" t] by (auto simp: OnFork_def bind_eq_Some_conv)
qed (blast intro: CreateThread_ok StartThread_ok FinishThread_ok(1) DetachThread_ok JoinThread_turn_ok SetThreadName_ok
    SetThreadNameByUserId_ok ConsumeThreadUserId_ok(1) SetThreadUserId_ok)+

inductive registry_reach :: "Registry \<Rightarrow> Registry \<Rightarrow> bool" for r0 where
  init: "registry_reach r0 r0"
| step: "registry_reach r0 r \<Longrightarrow> registry_step r r' \<Longrightarrow> registry_reach r0 r'"

lemma registry_reach_ok:
  "registry_reach r0 r \<Longrightarrow> registry_ok r0 \<Longrightarrow> registry_ok r"
  by (induction rule: registry_reach.induct) (auto intro: registry_step_ok)

lemma mk_ThreadRegistry_ok: "mt \<le> kInvalidTid \<Longrightarrow> registry_ok (mk_ThreadRegistry mt q mr)"
  by (simp add: registry_ok_def mk_ThreadRegistry_def live_ok_def lists_ok_def)

text \<open>
  C23: In every registry that a sequence of operations can reach, whatever the order in which
  threads are created, started, finished, detached, joined and recycled: the counters of alive
  and running threads are the numbers of contexts in those states, and a user id is mapped to
  the thread that carries it, and to no other.
\<close>

theorem registry_counts_and_ids:
  assumes "registry_reach (mk_ThreadRegistry mt q mr) r" and "mt \<le> kInvalidTid"
  shows "alive_threads r = length (filter is_alive (threads r)) \<and> running_threads r = length (filter is_running (threads r)) \<and>
    (\<forall>u t. u \<noteq> 0 \<longrightarrow> (live r u = Some t \<longleftrightarrow> t < length (threads r) \<and> user_id (threads r ! t) = u))"
  using registry_reach_ok [OF assms(1) mk_ThreadRegistry_ok [OF assms(2)]] by (simp add: registry_ok_def live_ok_def)

text \<open>
  C28: With a non-empty quarantine, in every reachable registry, joining a joinable thread that
  has not been joined never fails a check: the turn retries exactly while the thread has not
  finished, and otherwise the call returns with the thread dead or already recycled.
\<close>

theorem join_never_fails:
  assumes "registry_reach (mk_ThreadRegistry mt q mr) r" and "mt \<le> kInvalidTid" and "0 < thread_quarantine_size r"
    and "t < length (threads r)" and "\<not> detached (threads r ! t)"
    and "status (threads r ! t) \<noteq> StatusInvalid" and "status (threads r ! t) \<noteq> StatusDead"
  shows "\<exists>r'. JoinThread_turn t r = Some (status (threads r ! t) = StatusFinished, r') \<and>
    (if status (threads r ! t) = StatusFinished
     then status (threads r' ! t) = StatusDead \<and> (\<forall>u. u \<noteq> 0 \<longrightarrow> live r' u \<noteq> Some t)
     else r' = r)"
proof -
  have ok: "registry_ok r" by (rule registry_reach_ok [OF assms(1) mk_ThreadRegistry_ok [OF assms(2)]])
  let ?c = "threads r ! t"
  note C = registry_okD(4,5) [OF ok assms(4)]
  show ?thesis
  proof (cases "status ?c = StatusFinished")
    case True
    let ?r1 = "set_ctx t (dead_ctx ?c) (erase_user ?c r)"
    have "\<exists>r'. QuarantinePush t ?r1 = Some r' \<and> registry_ok r' \<and> t < length (threads r') \<and>
        thread_quarantine_size r' = thread_quarantine_size r \<and> (0 < thread_quarantine_size r \<longrightarrow> threads r' ! t = dead_ctx ?c) \<and>
        (status (threads r' ! t) = StatusDead \<or> status (threads r' ! t) = StatusInvalid)"
      by (rule retire_run [OF ok assms(4)]) (use C True in \<open>simp_all add: dead_ctx_def is_alive_def is_running_def\<close>)
    then obtain r' where r': "QuarantinePush t ?r1 = Some r'" "registry_ok r'" "t < length (threads r')" "threads r' ! t = dead_ctx ?c"
      using assms(3) by (elim exE conjE) (rule that; simp)
    have "live r' u \<noteq> Some t" if "u \<noteq> 0" for u
      using registry_okD(1) [OF r'(2)] r'(3,4) that by (auto simp: live_ok_def dead_ctx_def)
    moreover have "JoinThread_turn t r = Some (True, r')"
      using True assms(4,5) C r'(1) by (simp add: JoinThread_turn_def get_ctx_def ctx_ok_def SetJoined_def dead_ctx_def)
    ultimately show ?thesis using True r'(4) by (simp add: dead_ctx_def)
  next
    case False
    then have "\<not> thread_destroyed ?c" using C(2) assms(3,7) by (auto simp: ctx_ok_def)
    then show ?thesis using False assms(4,6) by (simp add: JoinThread_turn_def get_ctx_def)
  qed
qed

text \<open>A main thread and a detached thread that has come and gone, then a joinable one.\<close>

definition registry_example :: "nat \<Rightarrow> Registry option" where
  "registry_example q = do {
     (_, r) \<leftarrow> CreateThread 0 True 0 0 (mk_ThreadRegistry 10 q 0);
     (t, r) \<leftarrow> CreateThread 0 True 0 0 r;
     r \<leftarrow> StartThread t 7 Regular r;
     (_, r) \<leftarrow> FinishThread t r;
     (t, r) \<leftarrow> CreateThread 5 False 0 0 r;
     StartThread t 8 Regular r
   }"

lemmas registry_defs = CreateThread_def count_alive_def QuarantinePop_def QuarantinePush_def mk_ThreadRegistry_def mk_ThreadContext_def get_ctx_def set_ctx_def
  SetCreated_def kMainTid_def StartThread_def SetStarted_def FinishThread_def SetFinished_def SetDead_def SetDestroyed_def
  Reset_def SetName_def erase_user_def erase_live_def emplace_live_def JoinThread_turn_def SetJoined_def CHECK_def

lemma bind_weak_cong: "x = y \<Longrightarrow> Option.bind x f = Option.bind y f"
  by simp

lemma let_weak_cong: "x = y \<Longrightarrow> Let x f = Let y f"
  by simp

lemma kInvalidTid_gt: "n < 4294967295 \<Longrightarrow> n \<noteq> kInvalidTid"
  by (simp add: kInvalidTid_def)

lemma registry_example_reach:
  assumes "registry_example q = Some r"
  shows "registry_reach (mk_ThreadRegistry 10 q 0) r"
proof -
  obtain t1 r1 where 1: "CreateThread 0 True 0 0 (mk_ThreadRegistry 10 q 0) = Some (t1, r1)" and
    "(do { (t, r) \<leftarrow> CreateThread 0 True 0 0 r1; r \<leftarrow> StartThread t 7 Regular r; (_, r) \<leftarrow> FinishThread t r;
       (t, r) \<leftarrow> CreateThread 5 False 0 0 r; StartThread t 8 Regular r }) = Some r"
    using assms unfolding registry_example_def by (auto elim: bind_SomeE)
  then obtain t2 r2 where 2: "CreateThread 0 True 0 0 r1 = Some (t2, r2)" and
    "(do { r \<leftarrow> StartThread t2 7 Regular r2; (_, r) \<leftarrow> FinishThread t2 r;
       (t, r) \<leftarrow> CreateThread 5 False 0 0 r; StartThread t 8 Regular r }) = Some r"
    by (auto elim: bind_SomeE)
  then obtain r3 where 3: "StartThread t2 7 Regular r2 = Some r3" and
    "(do { (_, r) \<leftarrow> FinishThread t2 r3; (t, r) \<leftarrow> CreateThread 5 False 0 0 r; StartThread t 8 Regular r }) = Some r"
    by (auto elim: bind_SomeE)
  then obtain s r4 where 4: "FinishThread t2 r3 = Some (s, r4)" and
    "(do { (t, r) \<leftarrow> CreateThread 5 False 0 0 r4; StartThread t 8 Regular r }) = Some r"
    by (auto elim: bind_SomeE)
  then obtain t5 r5 where 5: "CreateThread 5 False 0 0 r4 = Some (t5, r5)" and 6: "StartThread t5 8 Regular r5 = Some r"
    by (auto elim: bind_SomeE)
  show ?thesis
    by (rule registry_reach.step [OF _ registry_step.start [OF 6]], rule registry_reach.step [OF _ registry_step.create [OF 5]],
        rule registry_reach.step [OF _ registry_step.finish [OF 4]], rule registry_reach.step [OF _ registry_step.start [OF 3]],
        rule registry_reach.step [OF _ registry_step.create [OF 2]], rule registry_reach.step [OF registry_reach.init registry_step.create [OF 1]])
qed

lemma registry_example_1:
  "\<exists>r. registry_example 1 = Some r \<and> length (threads r) = 3 \<and> status (threads r ! 2) = StatusRunning \<and>
     \<not> detached (threads r ! 2) \<and> thread_quarantine_size r = 1 \<and> alive_threads r = 2"
  unfolding registry_example_def
  by (simp add: registry_defs kInvalidTid_gt cong: bind_weak_cong let_weak_cong)

lemma registry_counts_and_ids_witness:
  "\<exists>r. registry_example 1 = Some r \<and> alive_threads r = 2 \<and> length (filter is_alive (threads r)) = 2"
proof -
  obtain r where r: "registry_example 1 = Some r" "alive_threads r = 2" using registry_example_1 by blast
  have "alive_threads r = length (filter is_alive (threads r))"
    using registry_counts_and_ids [OF registry_example_reach [OF r(1)]] by (simp add: kInvalidTid_def)
  then show ?thesis using r by auto
qed

lemma join_never_fails_witness:
  "\<exists>r. registry_example 1 = Some r \<and> JoinThread_turn 2 r = Some (False, r)"
proof -
  obtain r where r: "registry_example 1 = Some r" "length (threads r) = 3" "status (threads r ! 2) = StatusRunning"
    "\<not> detached (threads r ! 2)" "thread_quarantine_size r = 1" using registry_example_1 by blast
  show ?thesis using join_never_fails [OF registry_example_reach [OF r(1)], of 2] r by (simp add: kInvalidTid_def)
qed

text \<open>
  Without a quarantine the flag that \<^verbatim>\<open>FinishThread\<close> sets last lands in a context that has
  already been recycled: a detached thread finishes, its context is reused for a joinable thread
  that is still running, and joining that thread fails a check instead of waiting.
\<close>

theorem join_fails_without_quarantine:
  "\<exists>r. registry_reach (mk_ThreadRegistry 10 0 0) r \<and> status (threads r ! 1) = StatusRunning \<and> \<not> detached (threads r ! 1) \<and>
     JoinThread_turn 1 r = None"
proof -
  have "\<exists>r. registry_example 0 = Some r \<and> status (threads r ! 1) = StatusRunning \<and> \<not> detached (threads r ! 1) \<and>
     JoinThread_turn 1 r = None"
    unfolding registry_example_def
    by (simp add: registry_defs kInvalidTid_gt cong: bind_weak_cong let_weak_cong)
  then show ?thesis using registry_example_reach by blast
qed

end
