(* ===== verification/Intrusive_List.thy ===== *)
theory Intrusive_List
  imports San_Prelude
begin

text \<open>
  \<^verbatim>\<open>IntrusiveList<Item>\<close> of \<^verbatim>\<open>sanitizer_list.h\<close>. The items live in a store; all that the list
  reads and writes of them is their field \<^verbatim>\<open>next\<close>, so the store is the function \<open>h\<close> from
  an item to its \<^verbatim>\<open>next\<close>, and a null pointer is \<^const>\<open>None\<close>. An operation takes and returns the
  store and the list's three fields; its result is \<^const>\<open>None\<close> when a \<^verbatim>\<open>CHECK\<close> fails or a null
  pointer is dereferenced. The abstraction of a list is the sequence of items that following
  \<^verbatim>\<open>next\<close> from \<^verbatim>\<open>first_\<close> visits.
\<close>

section \<open>The list and its operations\<close>

type_synonym 'n links = "'n \<Rightarrow> 'n option"

record 'n ilist =
  il_size :: nat
  il_first :: "'n option"
  il_last :: "'n option"

definition il_clear :: "'n ilist" where
  "il_clear = \<lparr>il_size = 0, il_first = None, il_last = None\<rparr>"

definition il_empty :: "'n ilist \<Rightarrow> bool" where
  "il_empty l \<longleftrightarrow> il_size l = 0"

definition il_push_back :: "'n \<Rightarrow> 'n links \<Rightarrow> 'n ilist \<Rightarrow> ('n links \<times> 'n ilist) option" where
  "il_push_back x h l =
     (if il_empty l then
        Some (h(x := None), l\<lparr>il_first := Some x, il_last := Some x, il_size := 1\<rparr>)
      else do {
        let h = h(x := None);
        y \<leftarrow> il_last l;
        Some (h(y := Some x), l\<lparr>il_last := Some x, il_size := il_size l + 1\<rparr>)
      })"

definition il_push_front :: "'n \<Rightarrow> 'n links \<Rightarrow> 'n ilist \<Rightarrow> 'n links \<times> 'n ilist" where
  "il_push_front x h l =
     (if il_empty l then
        (h(x := None), l\<lparr>il_first := Some x, il_last := Some x, il_size := 1\<rparr>)
      else (h(x := il_first l), l\<lparr>il_first := Some x, il_size := il_size l + 1\<rparr>))"

definition il_pop_front :: "'n links \<Rightarrow> 'n ilist \<Rightarrow> 'n ilist option" where
  "il_pop_front h l = do {
     CHECK (\<not> il_empty l);
     x \<leftarrow> il_first l;
     let l = l\<lparr>il_first := h x\<rparr>;
     let l = (if il_first l = None then l\<lparr>il_last := None\<rparr> else l);
     Some (l\<lparr>il_size := il_size l - 1\<rparr>)
   }"

definition il_extract :: "'n option \<Rightarrow> 'n option \<Rightarrow> 'n links \<Rightarrow> 'n ilist \<Rightarrow> ('n links \<times> 'n ilist) option" where
  "il_extract pp px h l = do {
     CHECK (\<not> il_empty l);
     prev \<leftarrow> pp;
     x \<leftarrow> px;
     CHECK (h prev = Some x);
     let h = h(prev := h x);
     let l = (if il_last l = Some x then l\<lparr>il_last := Some prev\<rparr> else l);
     Some (h, l\<lparr>il_size := il_size l - 1\<rparr>)
   }"

text \<open>The two appending operations are called on two different list objects
  (\<^verbatim>\<open>CHECK_NE(this, l)\<close>); the other list is returned cleared.\<close>

definition il_append_front :: "'n links \<Rightarrow> 'n ilist \<Rightarrow> 'n ilist \<Rightarrow> ('n links \<times> 'n ilist \<times> 'n ilist) option" where
  "il_append_front h this l =
     (if il_empty l then Some (h, this, l)
      else if il_empty this then Some (h, l, il_clear)
      else do {
        y \<leftarrow> il_last l;
        Some (h(y := il_first this), this\<lparr>il_first := il_first l, il_size := il_size this + il_size l\<rparr>, il_clear)
      })"

definition il_append_back :: "'n links \<Rightarrow> 'n ilist \<Rightarrow> 'n ilist \<Rightarrow> ('n links \<times> 'n ilist \<times> 'n ilist) option" where
  "il_append_back h this l =
     (if il_empty l then Some (h, this, l)
      else if il_empty this then Some (h, l, il_clear)
      else do {
        y \<leftarrow> il_last this;
        Some (h(y := il_first l), this\<lparr>il_last := il_last l, il_size := il_size this + il_size l\<rparr>, il_clear)
      })"

text \<open>The counting loop of \<^verbatim>\<open>CheckConsistency\<close>, which ends only if it meets \<^verbatim>\<open>last_\<close>.\<close>

partial_function (option) il_walk :: "'n links \<Rightarrow> 'n option \<Rightarrow> 'n option \<Rightarrow> nat \<Rightarrow> nat option" where
  "il_walk h lst i count =
     (if i = lst then Some (count + 1) else do { x \<leftarrow> i; il_walk h lst (h x) (count + 1) })"

definition il_CheckConsistency :: "'n links \<Rightarrow> 'n ilist \<Rightarrow> unit option" where
  "il_CheckConsistency h l =
     (if il_size l = 0 then do {
        CHECK (il_first l = None);
        CHECK (il_last l = None)
      } else do {
        count \<leftarrow> il_walk h (il_last l) (il_first l) 0;
        CHECK (il_size l = count);
        y \<leftarrow> il_last l;
        CHECK (h y = None)
      })"

section \<open>Segments of the store\<close>

fun seg :: "'n links \<Rightarrow> 'n option \<Rightarrow> 'n list \<Rightarrow> 'n option \<Rightarrow> bool" where
  "seg h p [] q \<longleftrightarrow> p = q"
| "seg h p (x # xs) q \<longleftrightarrow> p = Some x \<and> seg h (h x) xs q"

lemma seg_append [simp]: "seg h p (xs @ ys) q \<longleftrightarrow> (\<exists>r. seg h p xs r \<and> seg h r ys q)"
  by (induction xs arbitrary: p) auto

lemma seg_upd [simp]: "x \<notin> set xs \<Longrightarrow> seg (h(x := v)) p xs q \<longleftrightarrow> seg h p xs q"
  by (induction xs arbitrary: p) auto

lemma seg_cong: "(\<And>x. x \<in> set xs \<Longrightarrow> h x = h' x) \<Longrightarrow> seg h p xs q = seg h' p xs q"
  by (induction xs arbitrary: p) auto

lemma seg_end_unique: "seg h p xs None \<Longrightarrow> seg h p ys None \<Longrightarrow> xs = ys"
proof (induction xs arbitrary: p ys)
  case (Cons x xs)
  then show ?case by (cases ys) auto
next
  case Nil
  then show ?case by (cases ys) auto
qed

text \<open>A segment that reaches null visits no item twice.\<close>

lemma seg_distinct: "seg h p xs None \<Longrightarrow> distinct xs"
proof (induction xs arbitrary: p)
  case (Cons x xs)
  have "x \<notin> set xs"
  proof
    assume "x \<in> set xs"
    then obtain as bs where xs: "xs = as @ x # bs" by (meson split_list)
    then have "seg h (h x) bs None" and "seg h (h x) (as @ x # bs) None" using Cons.prems by auto
    then have "bs = as @ x # bs" by (rule seg_end_unique)
    then have "length bs = length (as @ x # bs)" by simp
    then show False by simp
  qed
  then show ?case using Cons.IH [of "h x"] Cons.prems by simp
qed simp

lemma seg_last: "seg h p xs q \<Longrightarrow> xs \<noteq> [] \<Longrightarrow> h (last xs) = q"
  by (induction xs arbitrary: p) auto

text \<open>Redirecting the last link of a segment.\<close>

lemma seg_relink: "seg h p xs q \<Longrightarrow> distinct xs \<Longrightarrow> xs \<noteq> [] \<Longrightarrow> seg (h(last xs := r)) p xs r"
proof (induction xs arbitrary: p)
  case (Cons x xs)
  then show ?case by (cases xs) auto
qed simp

section \<open>The abstraction\<close>

definition il_repr :: "'n links \<Rightarrow> 'n ilist \<Rightarrow> 'n list \<Rightarrow> bool" where
  "il_repr h l xs \<longleftrightarrow> il_size l = length xs \<and> seg h (il_first l) xs None \<and>
     il_last l = (if xs = [] then None else Some (last xs))"

lemma il_repr_distinct: "il_repr h l xs \<Longrightarrow> distinct xs"
  by (auto simp: il_repr_def dest: seg_distinct)

lemma il_repr_unique: "il_repr h l xs \<Longrightarrow> il_repr h l ys \<Longrightarrow> xs = ys"
  by (auto simp: il_repr_def dest: seg_end_unique)

lemma il_repr_upd: "x \<notin> set xs \<Longrightarrow> il_repr (h(x := v)) l xs \<longleftrightarrow> il_repr h l xs"
  by (simp add: il_repr_def)

lemma il_repr_cong: "(\<And>x. x \<in> set xs \<Longrightarrow> h x = h' x) \<Longrightarrow> il_repr h l xs = il_repr h' l xs"
  using seg_cong [of xs h h'] by (simp add: il_repr_def)

lemma il_empty_iff [simp]: "il_repr h l xs \<Longrightarrow> il_empty l \<longleftrightarrow> xs = []"
  by (auto simp: il_repr_def il_empty_def)

lemma il_clear_repr [simp]: "il_repr h il_clear []"
  by (simp add: il_repr_def il_clear_def)

lemma il_front: "il_repr h l (x # xs) \<Longrightarrow> il_first l = Some x"
  by (simp add: il_repr_def)

lemma il_back: "il_repr h l xs \<Longrightarrow> xs \<noteq> [] \<Longrightarrow> il_last l = Some (last xs)"
  by (simp add: il_repr_def)

lemma il_push_back_repr:
  assumes r: "il_repr h l xs" and x: "x \<notin> set xs"
  shows "\<exists>h' l'. il_push_back x h l = Some (h', l') \<and> il_repr h' l' (xs @ [x]) \<and>
    (\<forall>y. y \<notin> set (xs @ [x]) \<longrightarrow> h' y = h y)"
proof (cases "xs = []")
  case True
  then show ?thesis using r by (simp add: il_push_back_def il_repr_def il_empty_def)
next
  case False
  have "seg (h(x := None)) (il_first l) xs None" using r x by (simp add: il_repr_def)
  then have "seg ((h(x := None))(last xs := Some x)) (il_first l) xs (Some x)"
    using il_repr_distinct [OF r] False by (rule seg_relink)
  moreover have "last xs \<noteq> x" using x False last_in_set by metis
  ultimately show ?thesis using r False by (auto simp: il_push_back_def il_repr_def il_empty_def)
qed

lemma il_push_front_repr:
  assumes r: "il_repr h l xs" and x: "x \<notin> set xs"
  shows "il_repr (fst (il_push_front x h l)) (snd (il_push_front x h l)) (x # xs)"
  using r x by (auto simp: il_push_front_def il_repr_def il_empty_def)

lemma il_pop_front_repr:
  assumes "il_repr h l (x # xs)"
  shows "\<exists>l'. il_pop_front h l = Some l' \<and> il_repr h l' xs"
  using assms by (cases xs) (auto simp: il_pop_front_def il_repr_def il_empty_def Let_def)

lemma il_extract_repr:
  assumes r: "il_repr h l (as @ p # x # bs)"
  shows "\<exists>h' l'. il_extract (Some p) (Some x) h l = Some (h', l') \<and> il_repr h' l' (as @ p # bs) \<and> (\<forall>y. y \<noteq> p \<longrightarrow> h' y = h y)"
proof -
  have d: "distinct (as @ p # x # bs)" by (rule il_repr_distinct [OF r])
  have s: "seg h (il_first l) as (Some p)" "h p = Some x" "seg h (h x) bs None"
    using r by (auto simp: il_repr_def)
  have "seg (h(p := h x)) (il_first l) (as @ p # bs) None" using s d by auto
  moreover have "last (p # x # bs) = x \<longleftrightarrow> bs = []" using d by auto
  ultimately show ?thesis using r s(2) by (auto simp: il_extract_def il_repr_def il_empty_def)
qed

lemma il_append_back_repr:
  assumes r: "il_repr h this xs" "il_repr h l ys" and disj: "set xs \<inter> set ys = {}"
  shows "\<exists>h' this' l'. il_append_back h this l = Some (h', this', l') \<and> il_repr h' this' (xs @ ys) \<and> il_repr h' l' [] \<and>
    (\<forall>y. y \<notin> set xs \<longrightarrow> h' y = h y)"
proof (cases "xs = [] \<or> ys = []")
  case True
  then show ?thesis using r by (auto simp: il_append_back_def)
next
  case False
  have "seg (h(last xs := il_first l)) (il_first this) xs (il_first l)"
    using seg_relink [OF _ il_repr_distinct [OF r(1)]] r(1) False by (auto simp: il_repr_def)
  moreover have "seg (h(last xs := il_first l)) (il_first l) ys None"
    using r(2) disj False by (subst seg_upd) (auto simp: il_repr_def dest: last_in_set)
  ultimately show ?thesis using r False by (auto simp: il_append_back_def il_repr_def il_empty_def il_clear_def)
qed

lemma il_append_front_repr:
  assumes r: "il_repr h this xs" "il_repr h l ys" and disj: "set xs \<inter> set ys = {}"
  shows "\<exists>h' this' l'. il_append_front h this l = Some (h', this', l') \<and> il_repr h' this' (ys @ xs) \<and> il_repr h' l' []"
proof (cases "xs = [] \<or> ys = []")
  case True
  then show ?thesis using r by (auto simp: il_append_front_def)
next
  case False
  have "seg (h(last ys := il_first this)) (il_first l) ys (il_first this)"
    using seg_relink [OF _ il_repr_distinct [OF r(2)]] r(2) False by (auto simp: il_repr_def)
  moreover have "seg (h(last ys := il_first this)) (il_first this) xs None"
    using r(1) disj False by (subst seg_upd) (auto simp: il_repr_def dest: last_in_set)
  ultimately show ?thesis using r False by (auto simp: il_append_front_def il_repr_def il_empty_def il_clear_def)
qed

section \<open>The consistency check\<close>

lemma il_walk_seg:
  "seg h p xs (Some y) \<Longrightarrow> y \<notin> set xs \<Longrightarrow> il_walk h (Some y) p n = Some (n + length xs + 1)"
proof (induction xs arbitrary: p n)
  case Nil
  then show ?case by (subst il_walk.simps) simp
next
  case (Cons x xs)
  then show ?case by (subst il_walk.simps) auto
qed

lemma il_walk_SomeD:
  assumes "il_walk h lst p n = Some m"
  shows "\<exists>xs. seg h p xs lst \<and> lst \<notin> Some ` set xs \<and> m = n + length xs + 1"
  using assms
proof (rule il_walk.raw_induct [where P = "\<lambda>h lst p n m. \<exists>xs. seg h p xs lst \<and> lst \<notin> Some ` set xs \<and> m = n + length xs + 1", rotated])
  fix walk :: "'a links \<Rightarrow> 'a option \<Rightarrow> 'a option \<Rightarrow> nat \<Rightarrow> nat option" and h :: "'a links" and lst p n m
  assume IH: "\<And>h lst p n m. walk h lst p n = Some m \<Longrightarrow> \<exists>xs. seg h p xs lst \<and> lst \<notin> Some ` set xs \<and> m = n + length xs + 1"
    and run: "(if p = lst then Some (n + 1) else p \<bind> (\<lambda>x. walk h lst (h x) (n + 1))) = Some m"
  show "\<exists>xs. seg h p xs lst \<and> lst \<notin> Some ` set xs \<and> m = n + length xs + 1"
  proof (cases "p = lst")
    case True
    then show ?thesis using run by (intro exI [of _ "[]"]) simp
  next
    case False
    then obtain x where p: "p = Some x" "walk h lst (h x) (n + 1) = Some m" using run by (auto simp: bind_eq_Some_conv)
    obtain xs where "seg h (h x) xs lst \<and> lst \<notin> Some ` set xs \<and> m = n + 1 + length xs + 1" using IH [OF p(2)] by blast
    then show ?thesis using p(1) False by (intro exI [of _ "x # xs"]) auto
  qed
qed

text \<open>
  \<^verbatim>\<open>CheckConsistency\<close> succeeds exactly on the lists that are well formed, that is, whose
  links lead from \<^verbatim>\<open>first_\<close> through \<^verbatim>\<open>size_\<close> distinct items to \<^verbatim>\<open>last_\<close> and then to null; on
  every other state it fails a check, dereferences null or does not return.
\<close>

theorem CheckConsistency_iff: "il_CheckConsistency h l = Some () \<longleftrightarrow> (\<exists>xs. il_repr h l xs)"
proof
  assume c: "il_CheckConsistency h l = Some ()"
  show "\<exists>xs. il_repr h l xs"
  proof (cases "il_size l = 0")
    case True
    then show ?thesis using c by (intro exI [of _ "[]"]) (auto simp: il_CheckConsistency_def il_repr_def)
  next
    case False
    then obtain y where y: "il_walk h (il_last l) (il_first l) 0 = Some (il_size l)" "il_last l = Some y" "h y = None"
      using c by (auto simp: il_CheckConsistency_def bind_eq_Some_conv)
    obtain xs where "seg h (il_first l) xs (Some y)" "il_size l = length xs + 1" using il_walk_SomeD [OF y(1)] y(2) by auto
    then show ?thesis using y(2,3) by (intro exI [of _ "xs @ [y]"]) (auto simp: il_repr_def)
  qed
next
  assume "\<exists>xs. il_repr h l xs"
  then obtain xs where r: "il_repr h l xs" by blast
  show "il_CheckConsistency h l = Some ()"
  proof (cases xs rule: rev_cases)
    case Nil
    then show ?thesis using r by (simp add: il_CheckConsistency_def il_repr_def)
  next
    case (snoc ys y)
    then have "seg h (il_first l) ys (Some y)" "y \<notin> set ys" "h y = None"
      using r il_repr_distinct [OF r] by (auto simp: il_repr_def)
    then show ?thesis using il_walk_seg [of h "il_first l" ys y 0] r snoc by (simp add: il_CheckConsistency_def il_repr_def)
  qed
qed

section \<open>Sequences of operations\<close>

text \<open>
  Two lists over one store and the calls on them; the flag says on which of the two lists the
  call is made (the other one is the argument of the appending operations).
\<close>

datatype 'n il_call = PushBack 'n | PushFront 'n | PopFront | Extract 'n 'n | AppendBack | AppendFront

type_synonym 'n il_state = "'n links \<times> 'n ilist \<times> 'n ilist"

definition il_call :: "'n il_call \<Rightarrow> 'n il_state \<Rightarrow> 'n il_state option" where
  "il_call c s = (case s of (h, l, m) \<Rightarrow>
     (case c of PushBack x \<Rightarrow> map_option (\<lambda>(h, l). (h, l, m)) (il_push_back x h l)
      | PushFront x \<Rightarrow> (case il_push_front x h l of (h, l) \<Rightarrow> Some (h, l, m))
      | PopFront \<Rightarrow> map_option (\<lambda>l. (h, l, m)) (il_pop_front h l)
      | Extract p x \<Rightarrow> map_option (\<lambda>(h, l). (h, l, m)) (il_extract (Some p) (Some x) h l)
      | AppendBack \<Rightarrow> il_append_back h l m
      | AppendFront \<Rightarrow> il_append_front h l m))"

definition swap_state :: "'n il_state \<Rightarrow> 'n il_state" where
  "swap_state s = (case s of (h, l, m) \<Rightarrow> (h, m, l))"

fun il_exec :: "(bool \<times> 'n il_call) list \<Rightarrow> 'n il_state \<Rightarrow> 'n il_state option" where
  "il_exec [] s = Some s"
| "il_exec ((b, c) # cs) s =
     Option.bind (if b then il_call c s else map_option swap_state (il_call c (swap_state s))) (il_exec cs)"

text \<open>The same calls on two sequences. \<^const>\<open>None\<close> is a call that its caller may not make: an item
  pushed while it is linked, a pop from an empty list, an item extracted that is not the successor.\<close>

fun remove_after :: "'n \<Rightarrow> 'n \<Rightarrow> 'n list \<Rightarrow> 'n list option" where
  "remove_after p x (y # z # zs) =
     (if y = p \<and> z = x then Some (y # zs) else map_option (Cons y) (remove_after p x (z # zs)))"
| "remove_after p x _ = None"

definition seq_call :: "'n il_call \<Rightarrow> 'n list \<times> 'n list \<Rightarrow> ('n list \<times> 'n list) option" where
  "seq_call c s = (case s of (xs, ys) \<Rightarrow>
     (case c of PushBack x \<Rightarrow> if x \<in> set xs \<union> set ys then None else Some (xs @ [x], ys)
      | PushFront x \<Rightarrow> if x \<in> set xs \<union> set ys then None else Some (x # xs, ys)
      | PopFront \<Rightarrow> (case xs of [] \<Rightarrow> None | _ # xs \<Rightarrow> Some (xs, ys))
      | Extract p x \<Rightarrow> map_option (\<lambda>xs. (xs, ys)) (remove_after p x xs)
      | AppendBack \<Rightarrow> Some (xs @ ys, [])
      | AppendFront \<Rightarrow> Some (ys @ xs, [])))"

fun seq_exec :: "(bool \<times> 'n il_call) list \<Rightarrow> 'n list \<times> 'n list \<Rightarrow> ('n list \<times> 'n list) option" where
  "seq_exec [] s = Some s"
| "seq_exec ((b, c) # cs) s =
     Option.bind (if b then seq_call c s else map_option prod.swap (seq_call c (prod.swap s))) (seq_exec cs)"

definition il_rel :: "'n il_state \<Rightarrow> 'n list \<times> 'n list \<Rightarrow> bool" where
  "il_rel s t = (case s of (h, l, m) \<Rightarrow> case t of (xs, ys) \<Rightarrow>
     il_repr h l xs \<and> il_repr h m ys \<and> set xs \<inter> set ys = {})"

lemma il_rel_swap: "il_rel (swap_state s) (prod.swap t) \<longleftrightarrow> il_rel s t"
  by (auto simp: il_rel_def swap_state_def split: prod.splits)

lemma remove_after_SomeD:
  "remove_after p x xs = Some xs' \<Longrightarrow> \<exists>as bs. xs = as @ p # x # bs \<and> xs' = as @ p # bs"
proof (induction p x xs arbitrary: xs' rule: remove_after.induct)
  case (1 p x y z zs)
  show ?case
  proof (cases "y = p \<and> z = x")
    case True
    then show ?thesis using 1(2) by (intro exI [of _ "[]"] exI [of _ zs]) auto
  next
    case False
    then obtain as bs where "z # zs = as @ p # x # bs" "xs' = y # as @ p # bs" using 1 by (auto split: if_splits)
    then show ?thesis by (intro exI [of _ "y # as"] exI [of _ bs]) auto
  qed
qed simp_all

lemma il_call_refines:
  assumes rel: "il_rel s t" and run: "seq_call c t = Some t'"
  shows "\<exists>s'. il_call c s = Some s' \<and> il_rel s' t'"
proof -
  obtain h l m where s: "s = (h, l, m)" by (cases s)
  obtain xs ys where t: "t = (xs, ys)" by (cases t)
  have r: "il_repr h l xs" "il_repr h m ys" "set xs \<inter> set ys = {}" using rel s t by (simp_all add: il_rel_def)
  show ?thesis
  proof (cases c)
    case (PushBack x)
    then have x: "x \<notin> set xs" "x \<notin> set ys" "t' = (xs @ [x], ys)" using run t by (auto simp: seq_call_def split: if_splits)
    obtain h' l' where h': "il_push_back x h l = Some (h', l')" "il_repr h' l' (xs @ [x])" "\<forall>y. y \<notin> set (xs @ [x]) \<longrightarrow> h' y = h y"
      using il_push_back_repr [OF r(1) x(1)] by blast
    have "il_repr h' m ys" using il_repr_cong [of ys h' h m, THEN iffD2] h'(3) r(2,3) x by fastforce
    then show ?thesis using h' s x PushBack r(3) by (auto simp: il_call_def il_rel_def)
  next
    case (PushFront x)
    then have x: "x \<notin> set xs" "x \<notin> set ys" "t' = (x # xs, ys)" using run t by (auto simp: seq_call_def split: if_splits)
    obtain h' l' where h': "il_push_front x h l = (h', l')" by force
    then have "il_repr h' l' (x # xs)" using il_push_front_repr [OF r(1) x(1)] by simp
    moreover have "h' = h(x := h' x)" using h' by (auto simp: il_push_front_def split: if_splits)
    then have "il_repr h' m ys" using il_repr_upd [OF x(2), of h "h' x" m] r(2) by simp
    ultimately show ?thesis using h' s x PushFront r(3) by (auto simp: il_call_def il_rel_def)
  next
    case PopFront
    then obtain x zs where xs: "xs = x # zs" "t' = (zs, ys)" using run t by (auto simp: seq_call_def split: list.splits)
    then obtain l' where "il_pop_front h l = Some l'" "il_repr h l' zs" using il_pop_front_repr [of h l x zs] r(1) by auto
    then show ?thesis using s xs PopFront r(2,3) by (auto simp: il_call_def il_rel_def)
  next
    case (Extract p x)
    then obtain as bs where xs: "xs = as @ p # x # bs" "t' = (as @ p # bs, ys)"
      using run t remove_after_SomeD by (fastforce simp: seq_call_def)
    then obtain h' l' where h': "il_extract (Some p) (Some x) h l = Some (h', l')" "il_repr h' l' (as @ p # bs)" "\<forall>y. y \<noteq> p \<longrightarrow> h' y = h y"
      using il_extract_repr [of h l as p x bs] r(1) by auto
    have "il_repr h' m ys" using il_repr_cong [of ys h' h m, THEN iffD2] h'(3) r(2,3) xs by fastforce
    then show ?thesis using h' s xs Extract r(3) by (auto simp: il_call_def il_rel_def)
  next
    case AppendBack
    then show ?thesis using il_append_back_repr [OF r] run s t by (auto simp: seq_call_def il_call_def il_rel_def)
  next
    case AppendFront
    then show ?thesis using il_append_front_repr [OF r] run s t by (auto simp: seq_call_def il_call_def il_rel_def)
  qed
qed

lemma il_exec_refines:
  "il_rel s t \<Longrightarrow> seq_exec cs t = Some t' \<Longrightarrow> \<exists>s'. il_exec cs s = Some s' \<and> il_rel s' t'"
proof (induction cs arbitrary: s t)
  case (Cons bc cs)
  obtain b c where bc: "bc = (b, c)" by force
  show ?case
  proof (cases b)
    case True
    then obtain t1 where t1: "seq_call c t = Some t1" "seq_exec cs t1 = Some t'"
      using Cons.prems(2) bc by (auto simp: bind_eq_Some_conv)
    obtain s1 where "il_call c s = Some s1" "il_rel s1 t1" using il_call_refines [OF Cons.prems(1) t1(1)] by blast
    then show ?thesis using Cons.IH [OF _ t1(2)] bc True by auto
  next
    case False
    then obtain t1 where t1: "seq_call c (prod.swap t) = Some t1" "seq_exec cs (prod.swap t1) = Some t'"
      using Cons.prems(2) bc by (auto simp: bind_eq_Some_conv)
    then obtain s1 where "il_call c (swap_state s) = Some s1" "il_rel s1 t1"
      using il_call_refines Cons.prems(1) il_rel_swap by blast
    then have "il_rel (swap_state s1) (prod.swap t1)" "il_call c (swap_state s) = Some s1" using il_rel_swap by blast+
    then show ?thesis using Cons.IH [OF _ t1(2)] bc False by auto
  qed
qed simp

text \<open>
  C21: Two intrusive lists over one store refine two mathematical sequences: starting from two
  cleared lists, every sequence of calls that the sequences allow runs on the linked
  representation without a failed check or a null dereference, and ends in lists whose links,
  ends and sizes represent exactly the resulting sequences.
\<close>

theorem intrusive_lists_refine:
  assumes "seq_exec cs ([], []) = Some (xs, ys)"
  shows "\<exists>h' l m. il_exec cs (h, il_clear, il_clear) = Some (h', l, m) \<and> il_repr h' l xs \<and> il_repr h' m ys \<and> set xs \<inter> set ys = {}"
  using il_exec_refines [OF _ assms, of "(h, il_clear, il_clear)"] by (auto simp: il_rel_def)

lemma intrusive_lists_refine_witness:
  "seq_exec [(True, PushBack (1::nat)), (False, PushFront 2), (True, PushBack 3), (True, AppendBack), (True, Extract 1 3), (True, PopFront)] ([], [])
      = Some ([2], []) \<and>
   (\<exists>h' l m. il_exec [(True, PushBack (1::nat)), (False, PushFront 2), (True, PushBack 3), (True, AppendBack), (True, Extract 1 3), (True, PopFront)]
      (\<lambda>_. None, il_clear, il_clear) = Some (h', l, m) \<and> il_repr h' l [2] \<and> il_repr h' m [])"
proof -
  have "seq_exec [(True, PushBack (1::nat)), (False, PushFront 2), (True, PushBack 3), (True, AppendBack), (True, Extract 1 3), (True, PopFront)] ([], [])
      = Some ([2], [])" by (simp add: seq_call_def)
  then show ?thesis using intrusive_lists_refine [of _ "[2]" "[]" "\<lambda>_. None"] by blast
qed

end
