(* ===== verification/Quarantine.thy ===== *)
theory Quarantine
  imports Intrusive_List
begin

text \<open>
  \<^verbatim>\<open>QuarantineBatch\<close>, \<^verbatim>\<open>QuarantineCache\<close> and \<^verbatim>\<open>Quarantine\<close> of \<^verbatim>\<open>sanitizer_quarantine.h\<close>. The
  batches live in a store, linked by the intrusive lists of \<open>Intrusive_List\<close>; a batch's
  array \<^verbatim>\<open>batch\<close> is the list of its first \<^verbatim>\<open>count\<close> entries. Sizes are 64-bit and wrap. The
  \<^verbatim>\<open>Callback\<close> is the client's: what it returns (\<^verbatim>\<open>Allocate\<close>) is an argument, and the calls made
  to it are recorded, in order, as events. \<^const>\<open>None\<close> is a failed \<^verbatim>\<open>CHECK\<close>, a null dereference or
  a loop that does not end.
\<close>

section \<open>Batches\<close>

record 'p QuarantineBatch =
  qb_size :: nat
  qb_batch :: "'p list"

definition qb_count :: "'p QuarantineBatch \<Rightarrow> nat" where
  "qb_count b = length (qb_batch b)"

definition kSize :: nat where "kSize = 1021"

definition sizeof_batch :: nat where "sizeof_batch = 8 * (3 + kSize)"

definition uptr_add :: "nat \<Rightarrow> nat \<Rightarrow> nat" where
  "uptr_add a b = (a + b) mod 2 ^ 64"

definition uptr_sub :: "nat \<Rightarrow> nat \<Rightarrow> nat" where
  "uptr_sub a b = (a + 2 ^ 64 - b) mod 2 ^ 64"

definition qb_init :: "'p \<Rightarrow> nat \<Rightarrow> 'p QuarantineBatch" where
  "qb_init p sz = \<lparr>qb_size = uptr_add sz sizeof_batch, qb_batch = [p]\<rparr>"

definition qb_quarantined_size :: "'p QuarantineBatch \<Rightarrow> nat" where
  "qb_quarantined_size b = uptr_sub (qb_size b) sizeof_batch"

definition qb_push_back :: "'p \<Rightarrow> nat \<Rightarrow> 'p QuarantineBatch \<Rightarrow> 'p QuarantineBatch option" where
  "qb_push_back p sz b = do {
     CHECK (qb_count b < kSize);
     Some (b\<lparr>qb_batch := qb_batch b @ [p], qb_size := uptr_add (qb_size b) sz\<rparr>)
   }"

definition qb_can_merge :: "'p QuarantineBatch \<Rightarrow> 'p QuarantineBatch \<Rightarrow> bool" where
  "qb_can_merge b from_b \<longleftrightarrow> qb_count b + qb_count from_b \<le> kSize"

definition qb_merge :: "'p QuarantineBatch \<Rightarrow> 'p QuarantineBatch \<Rightarrow> ('p QuarantineBatch \<times> 'p QuarantineBatch) option" where
  "qb_merge b from_b = do {
     CHECK (qb_count b + qb_count from_b \<le> kSize);
     CHECK (sizeof_batch \<le> qb_size b);
     Some (b\<lparr>qb_batch := qb_batch b @ qb_batch from_b, qb_size := uptr_add (qb_size b) (qb_quarantined_size from_b)\<rparr>,
           from_b\<lparr>qb_batch := [], qb_size := sizeof_batch\<rparr>)
   }"

section \<open>Caches\<close>

record 'p QStore =
  qs_next :: "nat links"
  qs_batch :: "nat \<Rightarrow> 'p QuarantineBatch"

record QCache =
  qc_list :: "nat ilist"
  qc_size :: nat

definition qc_new :: QCache where
  "qc_new = \<lparr>qc_list = il_clear, qc_size = 0\<rparr>"

definition qc_OverheadSize :: "QCache \<Rightarrow> nat" where
  "qc_OverheadSize c = il_size (qc_list c) * sizeof_batch"

definition qc_SizeAdd :: "nat \<Rightarrow> QCache \<Rightarrow> QCache" where
  "qc_SizeAdd n c = c\<lparr>qc_size := uptr_add (qc_size c) n\<rparr>"

definition qc_SizeSub :: "nat \<Rightarrow> QCache \<Rightarrow> QCache" where
  "qc_SizeSub n c = c\<lparr>qc_size := uptr_sub (qc_size c) n\<rparr>"

definition qs_set :: "nat \<Rightarrow> 'p QuarantineBatch \<Rightarrow> 'p QStore \<Rightarrow> 'p QStore" where
  "qs_set b v s = s\<lparr>qs_batch := (qs_batch s)(b := v)\<rparr>"

definition qc_EnqueueBatch :: "nat \<Rightarrow> 'p QStore \<Rightarrow> QCache \<Rightarrow> ('p QStore \<times> QCache) option" where
  "qc_EnqueueBatch b s c = do {
     (h, l) \<leftarrow> il_push_back b (qs_next s) (qc_list c);
     Some (s\<lparr>qs_next := h\<rparr>, qc_SizeAdd (qb_size (qs_batch s b)) (c\<lparr>qc_list := l\<rparr>))
   }"

definition qc_Enqueue :: "nat option \<Rightarrow> 'p \<Rightarrow> nat \<Rightarrow> 'p QStore \<Rightarrow> QCache \<Rightarrow> ('p QStore \<times> QCache) option" where
  "qc_Enqueue alloc p sz s c = do {
     full \<leftarrow> (if il_empty (qc_list c) then Some True
       else do { y \<leftarrow> il_last (qc_list c); Some (qb_count (qs_batch s y) = kSize) });
     if full then do {
       b \<leftarrow> alloc;
       qc_EnqueueBatch b (qs_set b (qb_init p sz) s) c
     } else do {
       y \<leftarrow> il_last (qc_list c);
       v \<leftarrow> qb_push_back p sz (qs_batch s y);
       Some (qs_set y v s, qc_SizeAdd sz c)
     }
   }"

definition qc_Transfer :: "'p QStore \<Rightarrow> QCache \<Rightarrow> QCache \<Rightarrow> ('p QStore \<times> QCache \<times> QCache) option" where
  "qc_Transfer s c from_c = do {
     (h, l, m) \<leftarrow> il_append_back (qs_next s) (qc_list c) (qc_list from_c);
     let c = qc_SizeAdd (qc_size from_c) (c\<lparr>qc_list := l\<rparr>);
     Some (s\<lparr>qs_next := h\<rparr>, c, from_c\<lparr>qc_list := m, qc_size := 0\<rparr>)
   }"

definition qc_DequeueBatch :: "'p QStore \<Rightarrow> QCache \<Rightarrow> (nat option \<times> QCache) option" where
  "qc_DequeueBatch s c =
     (if il_empty (qc_list c) then Some (None, c)
      else do {
        b \<leftarrow> il_first (qc_list c);
        l \<leftarrow> il_pop_front (qs_next s) (qc_list c);
        Some (Some b, qc_SizeSub (qb_size (qs_batch s b)) (c\<lparr>qc_list := l\<rparr>))
      })"

text \<open>The loop of \<^verbatim>\<open>MergeBatches\<close>: \<open>ex\<close> is \<^verbatim>\<open>extracted_size\<close>, \<open>t\<close> the cache \<^verbatim>\<open>to_deallocate\<close>.\<close>

partial_function (option) qc_merge_loop ::
  "nat option \<Rightarrow> nat \<Rightarrow> 'p QStore \<Rightarrow> QCache \<Rightarrow> QCache \<Rightarrow> (nat \<times> 'p QStore \<times> QCache \<times> QCache) option" where
  "qc_merge_loop current ex s c t =
     (case current of None \<Rightarrow> Some (ex, s, c, t)
      | Some cur \<Rightarrow> (case qs_next s cur of None \<Rightarrow> Some (ex, s, c, t)
        | Some extracted \<Rightarrow>
            if qb_can_merge (qs_batch s cur) (qs_batch s extracted) then do {
              (v, w) \<leftarrow> qb_merge (qs_batch s cur) (qs_batch s extracted);
              let s = qs_set extracted w (qs_set cur v s);
              CHECK (qb_count (qs_batch s extracted) = 0);
              CHECK (qb_size (qs_batch s extracted) = sizeof_batch);
              (h, l) \<leftarrow> il_extract (Some cur) (Some extracted) (qs_next s) (qc_list c);
              let s = s\<lparr>qs_next := h\<rparr>;
              let ex = uptr_add ex (qb_size (qs_batch s extracted));
              (s, t) \<leftarrow> qc_EnqueueBatch extracted s t;
              qc_merge_loop (Some cur) ex s (c\<lparr>qc_list := l\<rparr>) t
            } else qc_merge_loop (Some extracted) ex s c t))"

definition qc_MergeBatches :: "'p QStore \<Rightarrow> QCache \<Rightarrow> QCache \<Rightarrow> ('p QStore \<times> QCache \<times> QCache) option" where
  "qc_MergeBatches s c t = do {
     (ex, s, c, t) \<leftarrow> qc_merge_loop (il_first (qc_list c)) 0 s c t;
     Some (s, qc_SizeSub ex c, t)
   }"

section \<open>The quarantine\<close>

datatype 'p QEvent = PreQuarantine 'p | RecyclePassThrough 'p | Recycle 'p | Deallocate nat

record 'p Quarantine =
  q_max_size :: nat
  q_min_size :: nat
  q_max_cache_size :: nat
  q_cache :: QCache
  q_store :: "'p QStore"
  q_log :: "'p QEvent list"

definition q_emit :: "'p QEvent list \<Rightarrow> 'p Quarantine \<Rightarrow> 'p Quarantine" where
  "q_emit es q = q\<lparr>q_log := q_log q @ es\<rparr>"

definition q_Init :: "nat \<Rightarrow> nat \<Rightarrow> 'p Quarantine \<Rightarrow> 'p Quarantine option" where
  "q_Init sz cache_size q = do {
     CHECK ((sz = 0 \<and> cache_size = 0) \<or> cache_size \<noteq> 0);
     Some (q\<lparr>q_max_size := sz, q_min_size := sz div 10 * 9, q_max_cache_size := cache_size\<rparr>)
   }"

partial_function (option) q_evict_loop :: "nat \<Rightarrow> 'p QStore \<Rightarrow> QCache \<Rightarrow> QCache \<Rightarrow> ('p QStore \<times> QCache \<times> QCache) option" where
  "q_evict_loop min_size s c t =
     (if min_size < qc_size c then do {
        (b, c) \<leftarrow> qc_DequeueBatch s c;
        b \<leftarrow> b;
        (s, t) \<leftarrow> qc_EnqueueBatch b s t;
        q_evict_loop min_size s c t
      } else Some (s, c, t))"

partial_function (option) q_DoRecycle_loop :: "QCache \<Rightarrow> 'p QStore \<Rightarrow> 'p QEvent list \<Rightarrow> (QCache \<times> 'p QEvent list) option" where
  "q_DoRecycle_loop c s es = do {
     (b, c) \<leftarrow> qc_DequeueBatch s c;
     (case b of None \<Rightarrow> Some (c, es)
      | Some b \<Rightarrow> q_DoRecycle_loop c s (es @ map Recycle (qb_batch (qs_batch s b)) @ [Deallocate b]))
   }"

definition q_DoRecycle :: "QCache \<Rightarrow> 'p Quarantine \<Rightarrow> 'p Quarantine option" where
  "q_DoRecycle c q = do { (c, es) \<leftarrow> q_DoRecycle_loop c (q_store q) []; Some (q_emit es q) }"

definition kOverheadThresholdPercents :: nat where "kOverheadThresholdPercents = 100"

definition q_Recycle :: "nat \<Rightarrow> 'p Quarantine \<Rightarrow> 'p Quarantine option" where
  "q_Recycle min_size q = do {
     let cache_size = qc_size (q_cache q);
     let overhead_size = qc_OverheadSize (q_cache q);
     CHECK (overhead_size \<le> cache_size);
     (s, c, t) \<leftarrow> (if overhead_size < cache_size \<and>
         cache_size * kOverheadThresholdPercents mod 2 ^ 64 < overhead_size * (100 + kOverheadThresholdPercents) mod 2 ^ 64
       then qc_MergeBatches (q_store q) (q_cache q) qc_new
       else Some (q_store q, q_cache q, qc_new));
     (s, c, t) \<leftarrow> q_evict_loop min_size s c t;
     q_DoRecycle t (q\<lparr>q_store := s, q_cache := c\<rparr>)
   }"

text \<open>\<open>locked\<close> is the result of \<^verbatim>\<open>recycle_mutex_.TryLock()\<close>, if it is called.\<close>

definition q_Drain :: "bool \<Rightarrow> QCache \<Rightarrow> 'p Quarantine \<Rightarrow> (QCache \<times> 'p Quarantine) option" where
  "q_Drain locked c q = do {
     (s, g, c) \<leftarrow> qc_Transfer (q_store q) (q_cache q) c;
     let q = q\<lparr>q_store := s, q_cache := g\<rparr>;
     q \<leftarrow> (if q_max_size q < qc_size (q_cache q) \<and> locked then q_Recycle (q_min_size q) q else Some q);
     Some (c, q)
   }"

definition q_DrainAndRecycle :: "QCache \<Rightarrow> 'p Quarantine \<Rightarrow> (QCache \<times> 'p Quarantine) option" where
  "q_DrainAndRecycle c q = do {
     (s, g, c) \<leftarrow> qc_Transfer (q_store q) (q_cache q) c;
     q \<leftarrow> q_Recycle 0 (q\<lparr>q_store := s, q_cache := g\<rparr>);
     Some (c, q)
   }"

definition q_Put :: "bool \<Rightarrow> nat option \<Rightarrow> QCache \<Rightarrow> 'p \<Rightarrow> nat \<Rightarrow> 'p Quarantine \<Rightarrow> (QCache \<times> 'p Quarantine) option" where
  "q_Put locked alloc c p sz q = do {
     let max_cache_size = q_max_cache_size q;
     (c, q) \<leftarrow> (if max_cache_size \<noteq> 0 \<and> sz \<le> q_max_size q then do {
         let q = q_emit [PreQuarantine p] q;
         (s, c) \<leftarrow> qc_Enqueue alloc p sz (q_store q) c;
         Some (c, q\<lparr>q_store := s\<rparr>)
       } else Some (c, q_emit [RecyclePassThrough p] q));
     if max_cache_size < qc_size c then q_Drain locked c q else Some (c, q)
   }"

end
