(* ===== verification/Quarantine_Proofs.thy ===== *)
theory Quarantine_Proofs
  imports Quarantine
begin

text \<open>
  The quarantine loses no chunk, recycles none twice and keeps its order. The linked batches of
  a cache represent a list of batches (\<open>qc_repr\<close>), every operation is described by what it does
  to that list and to the store outside it, and the invariant of a quarantine with any number of
  per-thread caches is carried along every sequence of operations.
\<close>

section \<open>Caches and the batches they hold\<close>

definition batch_ok :: "'p QuarantineBatch \<Rightarrow> bool" where
  "batch_ok b \<longleftrightarrow> sizeof_batch \<le> qb_size b \<and> length (qb_batch b) \<le> kSize"

definition qtotal :: "'p QStore \<Rightarrow> nat list \<Rightarrow> nat" where
  "qtotal s bs = (\<Sum>b\<leftarrow>bs. qb_size (qs_batch s b))"

definition qelems :: "'p QStore \<Rightarrow> nat list \<Rightarrow> 'p list" where
  "qelems s bs = concat (map (\<lambda>b. qb_batch (qs_batch s b)) bs)"

definition qc_repr :: "'p QStore \<Rightarrow> QCache \<Rightarrow> nat list \<Rightarrow> bool" where
  "qc_repr s c bs \<longleftrightarrow> il_repr (qs_next s) (qc_list c) bs \<and> qc_size c = qtotal s bs \<and> qtotal s bs < 2 ^ 64 \<and>
     (\<forall>b\<in>set bs. batch_ok (qs_batch s b))"

definition same_on :: "nat set \<Rightarrow> 'p QStore \<Rightarrow> 'p QStore \<Rightarrow> bool" where
  "same_on X s s' \<longleftrightarrow> (\<forall>b\<in>X. qs_next s' b = qs_next s b \<and> qs_batch s' b = qs_batch s b)"

lemma same_on_refl [simp]: "same_on X s s"
  by (simp add: same_on_def)

lemma same_on_trans: "same_on X s s' \<Longrightarrow> same_on X s' s'' \<Longrightarrow> same_on X s s''"
  by (simp add: same_on_def)

lemma same_on_mono: "same_on X s s' \<Longrightarrow> Y \<subseteq> X \<Longrightarrow> same_on Y s s'"
  by (auto simp: same_on_def)

lemma qtotal_simps [simp]:
  "qtotal s [] = 0" "qtotal s (b # bs) = qb_size (qs_batch s b) + qtotal s bs" "qtotal s (as @ bs) = qtotal s as + qtotal s bs"
  by (simp_all add: qtotal_def)

lemma qelems_simps [simp]:
  "qelems s [] = []" "qelems s (b # bs) = qb_batch (qs_batch s b) @ qelems s bs" "qelems s (as @ bs) = qelems s as @ qelems s bs"
  by (simp_all add: qelems_def)

lemma qtotal_cong: "(\<And>b. b \<in> set bs \<Longrightarrow> qs_batch s b = qs_batch s' b) \<Longrightarrow> qtotal s bs = qtotal s' bs"
  by (simp add: qtotal_def cong: map_cong)

lemma qelems_cong: "(\<And>b. b \<in> set bs \<Longrightarrow> qs_batch s b = qs_batch s' b) \<Longrightarrow> qelems s bs = qelems s' bs"
  by (simp add: qelems_def cong: map_cong)

lemma qtotal_next [simp]: "qtotal (s\<lparr>qs_next := h\<rparr>) bs = qtotal s bs"
  by (simp add: qtotal_def)

lemma qelems_next [simp]: "qelems (s\<lparr>qs_next := h\<rparr>) bs = qelems s bs"
  by (simp add: qelems_def)

lemma qtotal_set [simp]: "b \<notin> set bs \<Longrightarrow> qtotal (qs_set b v s) bs = qtotal s bs"
  by (rule qtotal_cong) (auto simp: qs_set_def)

lemma qelems_set [simp]: "b \<notin> set bs \<Longrightarrow> qelems (qs_set b v s) bs = qelems s bs"
  by (rule qelems_cong) (auto simp: qs_set_def)

lemma qs_set_simps [simp]: "qs_next (qs_set b v s) = qs_next s" "qs_batch (qs_set b v s) = (qs_batch s)(b := v)"
  by (simp_all add: qs_set_def)

lemma same_elems: "same_on X s s' \<Longrightarrow> set bs \<subseteq> X \<Longrightarrow> qelems s' bs = qelems s bs"
  by (rule qelems_cong) (auto simp: same_on_def)

lemma qc_repr_same:
  assumes "same_on X s s'" and "set bs \<subseteq> X" and "qc_repr s c bs"
  shows "qc_repr s' c bs"
proof -
  have "il_repr (qs_next s') (qc_list c) bs" if "il_repr (qs_next s) (qc_list c) bs"
    using il_repr_cong [of bs "qs_next s'" "qs_next s" "qc_list c"] that assms(1,2) by (auto simp: same_on_def subset_iff)
  moreover have "qtotal s' bs = qtotal s bs" using assms(1,2) by (intro qtotal_cong) (auto simp: same_on_def)
  ultimately show ?thesis using assms by (auto simp: qc_repr_def same_on_def)
qed

lemma qc_repr_new [simp]: "qc_repr s qc_new []"
  by (simp add: qc_repr_def qc_new_def)

lemma qc_repr_distinct: "qc_repr s c bs \<Longrightarrow> distinct bs"
  by (auto simp: qc_repr_def dest: il_repr_distinct)

lemma uptr_add_exact: "a + b < 2 ^ 64 \<Longrightarrow> uptr_add a b = a + b"
  by (simp add: uptr_add_def)

lemma uptr_sub_exact:
  assumes "b \<le> a" "a < 2 ^ 64"
  shows "uptr_sub a b = a - b"
proof -
  have "a + 2 ^ 64 - b = (a - b) + 2 ^ 64" using assms by simp
  moreover have "a - b < 2 ^ 64" using assms by simp
  ultimately show ?thesis unfolding uptr_sub_def by (metis mod_add_self2 mod_less)
qed

lemma qtotal_ge: "\<forall>b\<in>set bs. batch_ok (qs_batch s b) \<Longrightarrow> length bs * sizeof_batch \<le> qtotal s bs"
  by (induction bs) (auto simp: batch_ok_def)

section \<open>The operations on one cache\<close>

lemma qc_EnqueueBatch_run:
  assumes r: "qc_repr s c bs" and b: "b \<notin> set bs" "batch_ok (qs_batch s b)" "qtotal s bs + qb_size (qs_batch s b) < 2 ^ 64"
  shows "\<exists>s' c'. qc_EnqueueBatch b s c = Some (s', c') \<and> qc_repr s' c' (bs @ [b]) \<and> qs_batch s' = qs_batch s \<and>
    same_on (- insert b (set bs)) s s'"
proof -
  obtain h l where h: "il_push_back b (qs_next s) (qc_list c) = Some (h, l)" "il_repr h l (bs @ [b])"
      "\<forall>y. y \<notin> set (bs @ [b]) \<longrightarrow> h y = qs_next s y"
    using il_push_back_repr [of "qs_next s" "qc_list c" bs b] r b(1) by (auto simp: qc_repr_def)
  then show ?thesis using r b(2,3)
    by (auto simp: qc_EnqueueBatch_def qc_repr_def qc_SizeAdd_def uptr_add_exact same_on_def)
qed

lemma qc_DequeueBatch_Nil: "qc_repr s c [] \<Longrightarrow> qc_DequeueBatch s c = Some (None, c)"
  by (auto simp: qc_DequeueBatch_def qc_repr_def il_repr_def il_empty_def)

lemma qc_DequeueBatch_Cons:
  assumes r: "qc_repr s c (b # bs)"
  shows "\<exists>c'. qc_DequeueBatch s c = Some (Some b, c') \<and> qc_repr s c' bs"
proof -
  have l: "il_repr (qs_next s) (qc_list c) (b # bs)" using r by (simp add: qc_repr_def)
  obtain l' where l': "il_pop_front (qs_next s) (qc_list c) = Some l'" "il_repr (qs_next s) l' bs"
    using il_pop_front_repr [OF l] by blast
  have "uptr_sub (qc_size c) (qb_size (qs_batch s b)) = qtotal s bs"
    using r by (subst uptr_sub_exact) (auto simp: qc_repr_def)
  then show ?thesis using r l' il_front [OF l] il_empty_iff [OF l]
    by (simp add: qc_DequeueBatch_def qc_repr_def qc_SizeSub_def)
qed

lemma qc_Transfer_run:
  assumes r: "qc_repr s g gs" "qc_repr s c bs" and d: "set gs \<inter> set bs = {}" and t: "qtotal s gs + qtotal s bs < 2 ^ 64"
  shows "\<exists>s' g' c'. qc_Transfer s g c = Some (s', g', c') \<and> qc_repr s' g' (gs @ bs) \<and> qc_repr s' c' [] \<and> qs_batch s' = qs_batch s \<and>
    same_on (- set gs) s s' \<and> qc_size g' = qc_size g + qc_size c \<and> qc_size c' = 0"
proof -
  obtain h l m where h: "il_append_back (qs_next s) (qc_list g) (qc_list c) = Some (h, l, m)" "il_repr h l (gs @ bs)" "il_repr h m []"
      "\<forall>y. y \<notin> set gs \<longrightarrow> h y = qs_next s y"
    using il_append_back_repr [OF _ _ d, of "qs_next s" "qc_list g" "qc_list c"] r by (auto simp: qc_repr_def)
  then show ?thesis using r t by (auto simp: qc_Transfer_def qc_repr_def qc_SizeAdd_def uptr_add_exact same_on_def)
qed

lemma qc_repr_push:
  assumes r: "qc_repr s c (as @ [y])" and v: "v = (qs_batch s y)\<lparr>qb_batch := qb_batch (qs_batch s y) @ [p], qb_size := qb_size (qs_batch s y) + sz\<rparr>"
    and len: "length (qb_batch (qs_batch s y)) < kSize" and sz: "qtotal s (as @ [y]) + sz < 2 ^ 64"
  shows "qc_repr (qs_set y v s) (qc_SizeAdd sz c) (as @ [y])"
proof -
  have "y \<notin> set as" using qc_repr_distinct [OF r] by simp
  then show ?thesis using r v len sz by (auto simp: qc_repr_def qc_SizeAdd_def uptr_add_exact batch_ok_def)
qed

lemma qc_Enqueue_run:
  assumes r: "qc_repr s c bs" and b: "b \<notin> set bs" and sz: "qtotal s bs + sz + sizeof_batch < 2 ^ 64"
  shows "\<exists>s' c' bs'. qc_Enqueue (Some b) p sz s c = Some (s', c') \<and> qc_repr s' c' bs' \<and> qelems s' bs' = qelems s bs @ [p] \<and>
    set bs' \<subseteq> insert b (set bs) \<and> same_on (- insert b (set bs)) s s' \<and> qtotal s' bs' \<le> qtotal s bs + sz + sizeof_batch"
proof -
  have l: "il_repr (qs_next s) (qc_list c) bs" using r by (simp add: qc_repr_def)
  show ?thesis
  proof (cases "bs = [] \<or> qb_count (qs_batch s (last bs)) = kSize")
    case True
    let ?s = "qs_set b (qb_init p sz) s"
    have so: "same_on (- {b}) s ?s" by (simp add: same_on_def)
    have r': "qc_repr ?s c bs" by (rule qc_repr_same [OF so _ r]) (use b in auto)
    have ini: "qb_init p sz = \<lparr>qb_size = sz + sizeof_batch, qb_batch = [p]\<rparr>" using sz by (simp add: qb_init_def uptr_add_exact)
    have okb: "batch_ok (qs_batch ?s b)" by (simp add: batch_ok_def ini kSize_def)
    obtain s' c' where s': "qc_EnqueueBatch b ?s c = Some (s', c')" "qc_repr s' c' (bs @ [b])" "qs_batch s' = qs_batch ?s"
        "same_on (- insert b (set bs)) ?s s'"
      using qc_EnqueueBatch_run [OF r' b okb] sz b by (auto simp: ini)
    have "qc_Enqueue (Some b) p sz s c = Some (s', c')"
      using True s'(1) il_empty_iff [OF l] il_back [OF l] by (auto simp: qc_Enqueue_def)
    moreover have "qelems s' (bs @ [b]) = qelems s bs @ [p]"
      using qelems_set [OF b, of "qb_init p sz" s] qelems_cong [of bs s' ?s] s'(3) by (simp add: ini)
    moreover have "qtotal s' (bs @ [b]) = qtotal s bs + sz + sizeof_batch"
      using qtotal_set [OF b, of "qb_init p sz" s] qtotal_cong [of bs s' ?s] s'(3) by (simp add: ini)
    moreover have "same_on (- insert b (set bs)) s s'"
      by (rule same_on_trans [OF same_on_mono [OF so] s'(4)]) auto
    ultimately show ?thesis using s'(2) by (intro exI [of _ s'] exI [of _ c'] exI [of _ "bs @ [b]"]) simp
  next
    case False
    then obtain as y where bs: "bs = as @ [y]" by (metis rev_exhaust)
    let ?v = "(qs_batch s y)\<lparr>qb_batch := qb_batch (qs_batch s y) @ [p], qb_size := qb_size (qs_batch s y) + sz\<rparr>"
    have len: "length (qb_batch (qs_batch s y)) < kSize"
      using False bs r by (auto simp: qc_repr_def batch_ok_def qb_count_def)
    have y: "y \<notin> set as" using qc_repr_distinct [OF r] bs by simp
    have "qc_repr (qs_set y ?v s) (qc_SizeAdd sz c) bs"
      using qc_repr_push [OF _ refl len] r sz bs by simp
    moreover have "qc_Enqueue (Some b) p sz s c = Some (qs_set y ?v s, qc_SizeAdd sz c)"
      using False il_empty_iff [OF l] il_back [OF l] bs len sz
      by (simp add: qc_Enqueue_def qb_push_back_def qb_count_def uptr_add_exact)
    ultimately show ?thesis using bs y by (intro exI [of _ bs] exI conjI) (auto simp: same_on_def)
  qed
qed

section \<open>Merging batches\<close>

definition merge_inv ::
  "nat \<Rightarrow> 'p list \<Rightarrow> nat set \<Rightarrow> nat \<Rightarrow> 'p QStore \<Rightarrow> QCache \<Rightarrow> QCache \<Rightarrow> nat list \<Rightarrow> nat list \<Rightarrow> bool" where
  "merge_inv S E X ex s c t bs ts \<longleftrightarrow>
     il_repr (qs_next s) (qc_list c) bs \<and> qc_size c = S \<and> S < 2 ^ 64 \<and> qtotal s bs + ex = S \<and> qelems s bs = E \<and>
     (\<forall>b\<in>set bs. batch_ok (qs_batch s b)) \<and> qc_repr s t ts \<and> qtotal s ts = ex \<and> qelems s ts = [] \<and>
     set bs \<inter> set ts = {} \<and> set bs \<union> set ts = X"

lemma qb_merge_run:
  assumes "batch_ok v" "batch_ok w" "qb_can_merge v w" "qb_size v + qb_size w < 2 ^ 64"
  shows "qb_merge v w = Some (v\<lparr>qb_batch := qb_batch v @ qb_batch w, qb_size := qb_size v + (qb_size w - sizeof_batch)\<rparr>,
    w\<lparr>qb_batch := [], qb_size := sizeof_batch\<rparr>)"
proof -
  have "qb_quarantined_size w = qb_size w - sizeof_batch"
    using assms by (simp add: qb_quarantined_size_def uptr_sub_exact batch_ok_def)
  moreover have "uptr_add (qb_size v) (qb_size w - sizeof_batch) = qb_size v + (qb_size w - sizeof_batch)"
    using assms(4) by (intro uptr_add_exact) linarith
  ultimately show ?thesis using assms by (simp add: qb_merge_def qb_can_merge_def batch_ok_def)
qed

lemma qc_merge_step:
  assumes inv: "merge_inv S E X ex s c t (as @ cur # x # rest) ts" and can: "qb_can_merge (qs_batch s cur) (qs_batch s x)"
  shows "\<exists>s' l t'. qc_merge_loop (Some cur) ex s c t = qc_merge_loop (Some cur) (ex + sizeof_batch) s' (c\<lparr>qc_list := l\<rparr>) t' \<and>
    merge_inv S E X (ex + sizeof_batch) s' (c\<lparr>qc_list := l\<rparr>) t' (as @ cur # rest) (ts @ [x]) \<and> same_on (- X) s s'"
proof -
  let ?bs = "as @ cur # x # rest"
  have l: "il_repr (qs_next s) (qc_list c) ?bs" and ts: "qc_repr s t ts" "qtotal s ts = ex" "qelems s ts = []"
    and S: "qtotal s ?bs + ex = S" "S < 2 ^ 64" "qc_size c = S" and E: "qelems s ?bs = E"
    and okb: "\<forall>b\<in>set ?bs. batch_ok (qs_batch s b)" and X: "set ?bs \<inter> set ts = {}" "set ?bs \<union> set ts = X"
    using inv by (simp_all add: merge_inv_def)
  have d: "distinct ?bs" by (rule il_repr_distinct [OF l])
  have nx: "qs_next s cur = Some x" using l by (auto simp: il_repr_def)
  have big: "sizeof_batch \<le> qb_size (qs_batch s x)" using okb by (simp add: batch_ok_def)
  define v where "v = (qs_batch s cur)\<lparr>qb_batch := qb_batch (qs_batch s cur) @ qb_batch (qs_batch s x),
      qb_size := qb_size (qs_batch s cur) + (qb_size (qs_batch s x) - sizeof_batch)\<rparr>"
  define w where "w = (qs_batch s x)\<lparr>qb_batch := [], qb_size := sizeof_batch\<rparr>"
  have mg: "qb_merge (qs_batch s cur) (qs_batch s x) = Some (v, w)"
    unfolding v_def w_def using okb can S(1,2) by (intro qb_merge_run) auto
  obtain h l' where h: "il_extract (Some cur) (Some x) (qs_next s) (qc_list c) = Some (h, l')" "il_repr h l' (as @ cur # rest)"
      "\<forall>y. y \<noteq> cur \<longrightarrow> h y = qs_next s y"
    using il_extract_repr [OF l] by blast
  define s2 where "s2 = (qs_set x w (qs_set cur v s))\<lparr>qs_next := h\<rparr>"
  have so: "same_on (- {cur, x}) s s2" using h(3) by (auto simp: s2_def same_on_def)
  have r2: "qc_repr s2 t ts" by (rule qc_repr_same [OF so _ ts(1)]) (use X(1) in auto)
  have t2: "qtotal s2 ts = ex" using X(1) ts(2) by (simp add: s2_def)
  have w2: "qs_batch s2 x = w" "qs_batch s2 cur = v" using d by (auto simp: s2_def)
  have xt: "x \<notin> set ts" using X(1) by auto
  have bw: "batch_ok (qs_batch s2 x)" using w2 by (simp add: batch_ok_def w_def)
  have bnd: "qtotal s2 ts + qb_size (qs_batch s2 x) < 2 ^ 64" using S(1,2) big by (simp add: t2 w2 w_def)
  obtain s3 t3 where s3: "qc_EnqueueBatch x s2 t = Some (s3, t3)" "qc_repr s3 t3 (ts @ [x])" "qs_batch s3 = qs_batch s2"
      "same_on (- insert x (set ts)) s2 s3"
    using qc_EnqueueBatch_run [OF r2 xt bw bnd] by blast
  have "ex + sizeof_batch < 2 ^ 64" using S(1,2) big by simp
  then have run: "qc_merge_loop (Some cur) ex s c t = qc_merge_loop (Some cur) (ex + sizeof_batch) s3 (c\<lparr>qc_list := l'\<rparr>) t3"
    using nx can mg h(1) s3(1) d
    by (subst qc_merge_loop.simps) (simp add: s2_def w_def qb_count_def uptr_add_exact)
  have b3: "qs_batch s3 = (qs_batch s)(cur := v, x := w)" using s3(3) by (simp add: s2_def)
  have nr: "qelems s3 as = qelems s as" "qelems s3 rest = qelems s rest" "qtotal s3 as = qtotal s as" "qtotal s3 rest = qtotal s rest"
      "qelems s3 ts = qelems s ts" "qtotal s3 ts = qtotal s ts"
    by (rule qelems_cong qtotal_cong; use d X(1) b3 in auto)+
  have "il_repr (qs_next s3) l' (as @ cur # rest)"
    using il_repr_cong [of "as @ cur # rest" "qs_next s3" h l', THEN iffD2] h(2) s3(4) d X(1) by (fastforce simp: same_on_def s2_def)
  moreover have "\<forall>b\<in>set (as @ cur # rest). batch_ok (qs_batch s3 b)"
    using okb can d by (auto simp: b3 v_def batch_ok_def qb_can_merge_def qb_count_def)
  moreover have "qelems s3 (as @ cur # rest) = E" using E d nr by (simp add: b3 v_def)
  moreover have "qtotal s3 (as @ cur # rest) + (ex + sizeof_batch) = S" using S(1) d nr big by (simp add: b3 v_def)
  moreover have "qelems s3 (ts @ [x]) = []" "qtotal s3 (ts @ [x]) = ex + sizeof_batch" using nr ts by (simp_all add: b3 w_def)
  ultimately have "merge_inv S E X (ex + sizeof_batch) s3 (c\<lparr>qc_list := l'\<rparr>) t3 (as @ cur # rest) (ts @ [x])"
    using S(2,3) s3(2) d X by (auto simp: merge_inv_def)
  moreover have "same_on (- X) s s3"
    by (rule same_on_trans [OF same_on_mono [OF so] same_on_mono [OF s3(4)]]) (use X(2) in auto)
  ultimately show ?thesis using run by blast
qed

lemma qc_merge_loop_run:
  "merge_inv S E X ex s c t (as @ cur # rest) ts \<Longrightarrow>
    \<exists>ex' s' c' t' bs' ts'. qc_merge_loop (Some cur) ex s c t = Some (ex', s', c', t') \<and>
      merge_inv S E X ex' s' c' t' bs' ts' \<and> same_on (- X) s s'"
proof (induction rest arbitrary: ex s c t as cur ts)
  case Nil
  then have "qs_next s cur = None" by (auto simp: merge_inv_def il_repr_def)
  then have "qc_merge_loop (Some cur) ex s c t = Some (ex, s, c, t)" by (subst qc_merge_loop.simps) simp
  then show ?case using Nil same_on_refl by blast
next
  case (Cons x rest)
  show ?case
  proof (cases "qb_can_merge (qs_batch s cur) (qs_batch s x)")
    case True
    obtain s1 l t1 where s1: "qc_merge_loop (Some cur) ex s c t = qc_merge_loop (Some cur) (ex + sizeof_batch) s1 (c\<lparr>qc_list := l\<rparr>) t1"
        "merge_inv S E X (ex + sizeof_batch) s1 (c\<lparr>qc_list := l\<rparr>) t1 (as @ cur # rest) (ts @ [x])" "same_on (- X) s s1"
      using qc_merge_step [OF Cons.prems True] by blast
    show ?thesis using Cons.IH [OF s1(2)] s1(1) same_on_trans [OF s1(3)] by metis
  next
    case False
    have "qs_next s cur = Some x" using Cons.prems by (auto simp: merge_inv_def il_repr_def)
    then have "qc_merge_loop (Some cur) ex s c t = qc_merge_loop (Some x) ex s c t"
      using False by (subst qc_merge_loop.simps) simp
    then show ?thesis using Cons.IH [of ex s c t "as @ [cur]" x ts] Cons.prems by simp
  qed
qed

lemma qc_MergeBatches_run:
  assumes r: "qc_repr s c bs"
  shows "\<exists>s' c' t' bs' ts'. qc_MergeBatches s c qc_new = Some (s', c', t') \<and> qc_repr s' c' bs' \<and> qc_repr s' t' ts' \<and>
    qelems s' bs' = qelems s bs \<and> qelems s' ts' = [] \<and> set bs' \<inter> set ts' = {} \<and> set bs' \<union> set ts' = set bs \<and>
    qtotal s' bs' + qtotal s' ts' < 2 ^ 64 \<and> same_on (- set bs) s s'"
proof -
  have inv: "merge_inv (qc_size c) (qelems s bs) (set bs) 0 s c qc_new bs []"
    using r by (simp add: merge_inv_def qc_repr_def qc_new_def)
  have "\<exists>ex' s' c' t' bs' ts'. qc_merge_loop (il_first (qc_list c)) 0 s c qc_new = Some (ex', s', c', t') \<and>
      merge_inv (qc_size c) (qelems s bs) (set bs) ex' s' c' t' bs' ts' \<and> same_on (- set bs) s s'"
  proof (cases bs)
    case Nil
    then have "il_first (qc_list c) = None" using r by (simp add: qc_repr_def il_repr_def)
    then have "qc_merge_loop (il_first (qc_list c)) 0 s c qc_new = Some (0, s, c, qc_new)" by (subst qc_merge_loop.simps) simp
    then show ?thesis using inv same_on_refl by blast
  next
    case (Cons b rest)
    then have "il_first (qc_list c) = Some b" using r by (simp add: qc_repr_def il_repr_def)
    then show ?thesis using qc_merge_loop_run [of _ _ _ 0 s c qc_new "[]" b rest "[]"] inv Cons by simp
  qed
  then obtain ex' s' c' t' bs' ts' where run: "qc_merge_loop (il_first (qc_list c)) 0 s c qc_new = Some (ex', s', c', t')"
      and inv': "merge_inv (qc_size c) (qelems s bs) (set bs) ex' s' c' t' bs' ts'" and so: "same_on (- set bs) s s'" by blast
  have "qc_repr s' (qc_SizeSub ex' c') bs'" using inv' by (auto simp: merge_inv_def qc_repr_def qc_SizeSub_def uptr_sub_exact)
  moreover have "qc_MergeBatches s c qc_new = Some (s', qc_SizeSub ex' c', t')" using run by (simp add: qc_MergeBatches_def)
  moreover have "qtotal s' bs' + qtotal s' ts' < 2 ^ 64" using inv' by (auto simp: merge_inv_def)
  ultimately show ?thesis using inv' so
    by (intro exI [of _ s'] exI [of _ "qc_SizeSub ex' c'"] exI [of _ t'] exI [of _ bs'] exI [of _ ts']) (simp add: merge_inv_def)
qed

section \<open>Evicting and recycling\<close>

lemma q_evict_loop_run:
  assumes "qc_repr s c bs" "qc_repr s t ts" "set bs \<inter> set ts = {}" "qtotal s bs + qtotal s ts < 2 ^ 64"
  shows "\<exists>s' c' t' out keep. q_evict_loop m s c t = Some (s', c', t') \<and> bs = out @ keep \<and> qc_repr s' c' keep \<and> qc_repr s' t' (ts @ out) \<and>
    qs_batch s' = qs_batch s \<and> same_on (- (set bs \<union> set ts)) s s' \<and> qc_size c' \<le> m"
  using assms
proof (induction bs arbitrary: s c t ts)
  case Nil
  then have "qc_size c = 0" by (simp add: qc_repr_def)
  then have "q_evict_loop m s c t = Some (s, c, t)" by (subst q_evict_loop.simps) simp
  then show ?case using Nil \<open>qc_size c = 0\<close> by (intro exI [of _ s] exI [of _ c] exI [of _ t] exI [of _ "[]"]) simp
next
  case (Cons b bs)
  show ?case
  proof (cases "m < qc_size c")
    case True
    obtain c1 where c1: "qc_DequeueBatch s c = Some (Some b, c1)" "qc_repr s c1 bs" using qc_DequeueBatch_Cons [OF Cons.prems(1)] by blast
    have b: "b \<notin> set ts" "batch_ok (qs_batch s b)" "qtotal s ts + qb_size (qs_batch s b) < 2 ^ 64" "b \<notin> set bs"
      using Cons.prems qc_repr_distinct [OF Cons.prems(1)] by (auto simp: qc_repr_def)
    obtain s1 t1 where s1: "qc_EnqueueBatch b s t = Some (s1, t1)" "qc_repr s1 t1 (ts @ [b])" "qs_batch s1 = qs_batch s"
        "same_on (- insert b (set ts)) s s1"
      using qc_EnqueueBatch_run [OF Cons.prems(2) b(1-3)] by blast
    have r1: "qc_repr s1 c1 bs" by (rule qc_repr_same [OF s1(4) _ c1(2)]) (use Cons.prems(3) b(4) in auto)
    have tot: "qtotal s1 bs = qtotal s bs" "qtotal s1 ts = qtotal s ts" using s1(3) by (simp_all add: qtotal_def)
    obtain s' c' t' out keep where IH: "q_evict_loop m s1 c1 t1 = Some (s', c', t')" "bs = out @ keep" "qc_repr s' c' keep"
        "qc_repr s' t' ((ts @ [b]) @ out)" "qs_batch s' = qs_batch s1" "same_on (- (set bs \<union> set (ts @ [b]))) s1 s'" "qc_size c' \<le> m"
      using Cons.IH [OF r1 s1(2)] Cons.prems(3,4) b(4) tot s1(3) by auto
    have "q_evict_loop m s c t = Some (s', c', t')" using True c1(1) s1(1) IH(1) by (subst q_evict_loop.simps) simp
    moreover have "same_on (- (set (b # bs) \<union> set ts)) s s'"
      by (rule same_on_trans [OF same_on_mono [OF s1(4)] same_on_mono [OF IH(6)]]) auto
    ultimately show ?thesis using IH s1(3)
      by (intro exI [of _ s'] exI [of _ c'] exI [of _ t'] exI [of _ "b # out"] exI [of _ keep]) simp
  next
    case False
    then have "q_evict_loop m s c t = Some (s, c, t)" by (subst q_evict_loop.simps) simp
    then show ?thesis using Cons.prems False
      by (intro exI [of _ s] exI [of _ c] exI [of _ t] exI [of _ "[]"] exI [of _ "b # bs"]) simp
  qed
qed

definition recycle_events :: "'p QStore \<Rightarrow> nat list \<Rightarrow> 'p QEvent list" where
  "recycle_events s bs = concat (map (\<lambda>b. map Recycle (qb_batch (qs_batch s b)) @ [Deallocate b]) bs)"

lemma q_DoRecycle_loop_run:
  "qc_repr s c bs \<Longrightarrow> \<exists>c'. q_DoRecycle_loop c s es = Some (c', es @ recycle_events s bs)"
proof (induction bs arbitrary: c es)
  case Nil
  then show ?case by (subst q_DoRecycle_loop.simps) (simp add: qc_DequeueBatch_Nil recycle_events_def)
next
  case (Cons b bs)
  obtain c1 where c1: "qc_DequeueBatch s c = Some (Some b, c1)" "qc_repr s c1 bs" using qc_DequeueBatch_Cons [OF Cons.prems] by blast
  have "q_DoRecycle_loop c s es = q_DoRecycle_loop c1 s (es @ map Recycle (qb_batch (qs_batch s b)) @ [Deallocate b])"
    using c1(1) by (subst q_DoRecycle_loop.simps) simp
  then show ?case using Cons.IH [OF c1(2), of "es @ map Recycle (qb_batch (qs_batch s b)) @ [Deallocate b]"] by (simp add: recycle_events_def)
qed

text \<open>The chunks that entered the quarantine, and those that left it, according to a log.\<close>

fun quarantined :: "'p QEvent list \<Rightarrow> 'p list" where
  "quarantined [] = []"
| "quarantined (PreQuarantine p # es) = p # quarantined es"
| "quarantined (_ # es) = quarantined es"

fun recycled :: "'p QEvent list \<Rightarrow> 'p list" where
  "recycled [] = []"
| "recycled (Recycle p # es) = p # recycled es"
| "recycled (_ # es) = recycled es"

lemma quarantined_append [simp]: "quarantined (es @ fs) = quarantined es @ quarantined fs"
  by (induction es rule: quarantined.induct) auto

lemma recycled_append [simp]: "recycled (es @ fs) = recycled es @ recycled fs"
  by (induction es rule: recycled.induct) auto

lemma map_Recycle [simp]: "recycled (map Recycle ps) = ps" "quarantined (map Recycle ps) = []"
  by (induction ps) auto

lemma recycle_events_log [simp]: "recycled (recycle_events s bs) = qelems s bs" "quarantined (recycle_events s bs) = []"
  by (induction bs) (auto simp: recycle_events_def)

text \<open>What every operation of the quarantine leaves alone: its limits, and the store outside \<open>X\<close>.\<close>

definition q_frame :: "nat set \<Rightarrow> 'p Quarantine \<Rightarrow> 'p Quarantine \<Rightarrow> bool" where
  "q_frame X q q' \<longleftrightarrow> q_max_size q' = q_max_size q \<and> q_min_size q' = q_min_size q \<and>
     q_max_cache_size q' = q_max_cache_size q \<and> same_on (- X) (q_store q) (q_store q')"

lemma q_Recycle_run:
  assumes r: "qc_repr (q_store q) (q_cache q) gs"
  shows "\<exists>q' gs'. q_Recycle m q = Some q' \<and> qc_repr (q_store q') (q_cache q') gs' \<and> set gs' \<subseteq> set gs \<and> q_frame (set gs) q q' \<and>
    recycled (q_log q') @ qelems (q_store q') gs' = recycled (q_log q) @ qelems (q_store q) gs \<and>
    quarantined (q_log q') = quarantined (q_log q) \<and> qc_size (q_cache q') \<le> m"
proof -
  let ?cond = "qc_OverheadSize (q_cache q) < qc_size (q_cache q) \<and> qc_size (q_cache q) * kOverheadThresholdPercents mod 2 ^ 64
      < qc_OverheadSize (q_cache q) * (100 + kOverheadThresholdPercents) mod 2 ^ 64"
  have ov: "qc_OverheadSize (q_cache q) \<le> qc_size (q_cache q)"
    using r qtotal_ge [of gs "q_store q"] by (simp add: qc_repr_def qc_OverheadSize_def il_repr_def)
  have "\<exists>s1 c1 t1 bs1 ts1. (if ?cond then qc_MergeBatches (q_store q) (q_cache q) qc_new else Some (q_store q, q_cache q, qc_new)) = Some (s1, c1, t1) \<and>
      qc_repr s1 c1 bs1 \<and> qc_repr s1 t1 ts1 \<and> qelems s1 bs1 = qelems (q_store q) gs \<and> qelems s1 ts1 = [] \<and> set bs1 \<inter> set ts1 = {} \<and>
      set bs1 \<union> set ts1 = set gs \<and> qtotal s1 bs1 + qtotal s1 ts1 < 2 ^ 64 \<and> same_on (- set gs) (q_store q) s1"
  proof (cases ?cond)
    case True
    show ?thesis unfolding if_P [OF True] by (rule qc_MergeBatches_run [OF r])
  next
    case False
    show ?thesis unfolding if_not_P [OF False] using r
      by (intro exI [of _ "q_store q"] exI [of _ "q_cache q"] exI [of _ qc_new] exI [of _ gs] exI [of _ "[]"]) (simp add: qc_repr_def qc_new_def)
  qed
  then obtain s1 c1 t1 bs1 ts1 where run1: "(if ?cond then qc_MergeBatches (q_store q) (q_cache q) qc_new else Some (q_store q, q_cache q, qc_new)) = Some (s1, c1, t1)"
      and r1: "qc_repr s1 c1 bs1" "qc_repr s1 t1 ts1" "set bs1 \<inter> set ts1 = {}" "qtotal s1 bs1 + qtotal s1 ts1 < 2 ^ 64"
      and e1: "qelems s1 bs1 = qelems (q_store q) gs" "qelems s1 ts1 = []" and u1: "set bs1 \<union> set ts1 = set gs" and so1: "same_on (- set gs) (q_store q) s1"
    by (elim exE conjE) (rule that; assumption)
  obtain s2 c2 t2 out keep where ev: "q_evict_loop m s1 c1 t1 = Some (s2, c2, t2)" "bs1 = out @ keep" "qc_repr s2 c2 keep" "qc_repr s2 t2 (ts1 @ out)"
      "qs_batch s2 = qs_batch s1" "same_on (- (set bs1 \<union> set ts1)) s1 s2" "qc_size c2 \<le> m"
    using q_evict_loop_run [OF r1] by blast
  obtain c3 where dr: "q_DoRecycle_loop t2 s2 [] = Some (c3, recycle_events s2 (ts1 @ out))" using q_DoRecycle_loop_run [OF ev(4), of "[]"] by auto
  let ?q' = "q_emit (recycle_events s2 (ts1 @ out)) (q\<lparr>q_store := s2, q_cache := c2\<rparr>)"
  have run: "q_Recycle m q = Some ?q'"
    using ov run1 ev(1) dr by (simp add: q_Recycle_def q_DoRecycle_def Let_def)
  have el: "qelems s2 bs = qelems s1 bs" for bs using ev(5) by (simp add: qelems_def)
  have "recycled (q_log ?q') @ qelems s2 keep = recycled (q_log q) @ qelems (q_store q) gs"
    using e1 ev(2) by (simp add: q_emit_def el)
  moreover have "same_on (- set gs) (q_store q) s2" using same_on_trans [OF so1] ev(6) u1 by simp
  ultimately show ?thesis using run ev(2,3,7) u1
    by (intro exI [of _ ?q'] exI [of _ keep]) (auto simp: q_emit_def q_frame_def)
qed

section \<open>Draining and putting\<close>

lemma qc_repr_Nil: "qc_repr s c [] \<Longrightarrow> qc_repr s' c []"
  by (simp add: qc_repr_def il_repr_def)

lemma q_frame_refl: "q_frame X q q"
  by (simp add: q_frame_def)

lemma q_frame_trans: "q_frame X q q' \<Longrightarrow> q_frame Y q' q'' \<Longrightarrow> q_frame (X \<union> Y) q q''"
  by (auto simp: q_frame_def same_on_def)

lemma q_frame_mono: "q_frame X q q' \<Longrightarrow> X \<subseteq> Y \<Longrightarrow> q_frame Y q q'"
  by (auto simp: q_frame_def same_on_def)

text \<open>A drained cache \<open>c\<close>: all its chunks have moved to the end of the global queue, or further.\<close>

definition drained :: "nat list \<Rightarrow> nat list \<Rightarrow> QCache \<Rightarrow> 'p Quarantine \<Rightarrow> QCache \<Rightarrow> 'p Quarantine \<Rightarrow> bool" where
  "drained gs bs c q c' q' \<longleftrightarrow> (\<exists>gs'. qc_repr (q_store q') (q_cache q') gs' \<and> qc_repr (q_store q') c' [] \<and> set gs' \<subseteq> set gs \<union> set bs \<and>
     q_frame (set gs \<union> set bs) q q' \<and> quarantined (q_log q') = quarantined (q_log q) \<and>
     recycled (q_log q') @ qelems (q_store q') gs' = recycled (q_log q) @ qelems (q_store q) gs @ qelems (q_store q) bs)"

lemma q_transfer_run:
  assumes r: "qc_repr (q_store q) (q_cache q) gs" "qc_repr (q_store q) c bs" and d: "set gs \<inter> set bs = {}"
    and t: "qc_size (q_cache q) + qc_size c < 2 ^ 64"
  shows "\<exists>s g c'. qc_Transfer (q_store q) (q_cache q) c = Some (s, g, c') \<and> qc_repr s g (gs @ bs) \<and> qc_repr s c' [] \<and>
    q_frame (set gs \<union> set bs) q (q\<lparr>q_store := s, q_cache := g\<rparr>) \<and> qelems s (gs @ bs) = qelems (q_store q) gs @ qelems (q_store q) bs"
proof -
  obtain s g c' where s: "qc_Transfer (q_store q) (q_cache q) c = Some (s, g, c')" "qc_repr s g (gs @ bs)" "qc_repr s c' []"
      "qs_batch s = qs_batch (q_store q)" "same_on (- set gs) (q_store q) s"
    using qc_Transfer_run [OF r d] r t by (auto simp: qc_repr_def)
  moreover have "qelems s xs = qelems (q_store q) xs" for xs using s(4) by (simp add: qelems_def)
  ultimately show ?thesis by (auto simp: q_frame_def same_on_def)
qed

lemma drainedI:
  assumes r: "qc_repr (q_store q1) (q_cache q1) gs1" "qc_repr s0 c' []" and g: "set gs1 \<subseteq> set gs \<union> set bs"
    and f: "q_frame (set gs \<union> set bs) q q1" and l: "quarantined (q_log q1) = quarantined (q_log q)"
    and e: "recycled (q_log q1) @ qelems (q_store q1) gs1 = recycled (q_log q) @ qelems (q_store q) gs @ qelems (q_store q) bs"
  shows "drained gs bs c q c' q1"
  using assms qc_repr_Nil [OF r(2)] by (auto simp: drained_def)

lemma q_transfer_recycle_run:
  assumes s: "qc_repr s g (gs @ bs)" "qc_repr s c' []" "q_frame (set gs \<union> set bs) q (q\<lparr>q_store := s, q_cache := g\<rparr>)"
    "qelems s (gs @ bs) = qelems (q_store q) gs @ qelems (q_store q) bs"
  shows "\<exists>q'. q_Recycle m (q\<lparr>q_store := s, q_cache := g\<rparr>) = Some q' \<and> drained gs bs c q c' q' \<and> qc_size (q_cache q') \<le> m"
proof -
  let ?q1 = "q\<lparr>q_store := s, q_cache := g\<rparr>"
  have r1: "qc_repr (q_store ?q1) (q_cache ?q1) (gs @ bs)" using s(1) by simp
  obtain q2 gs2 where q2: "q_Recycle m ?q1 = Some q2" "qc_repr (q_store q2) (q_cache q2) gs2" "set gs2 \<subseteq> set (gs @ bs)" "q_frame (set (gs @ bs)) ?q1 q2"
      "recycled (q_log q2) @ qelems (q_store q2) gs2 = recycled (q_log ?q1) @ qelems (q_store ?q1) (gs @ bs)"
      "quarantined (q_log q2) = quarantined (q_log ?q1)" "qc_size (q_cache q2) \<le> m"
    using q_Recycle_run [OF r1, of m] by (elim exE conjE) (rule that)
  have "drained gs bs c q c' q2"
    by (rule drainedI [OF q2(2) s(2)]) (use q2(3-6) s(4) q_frame_trans [OF s(3) q2(4)] in simp_all)
  then show ?thesis using q2(1,7) by blast
qed

lemma q_Drain_run:
  assumes r: "qc_repr (q_store q) (q_cache q) gs" "qc_repr (q_store q) c bs" and d: "set gs \<inter> set bs = {}"
    and t: "qc_size (q_cache q) + qc_size c < 2 ^ 64" and m: "q_min_size q \<le> q_max_size q"
  shows "\<exists>c' q'. q_Drain locked c q = Some (c', q') \<and> drained gs bs c q c' q' \<and> (locked \<longrightarrow> qc_size (q_cache q') \<le> q_max_size q)"
proof -
  obtain s g c' where s: "qc_Transfer (q_store q) (q_cache q) c = Some (s, g, c')" "qc_repr s g (gs @ bs)" "qc_repr s c' []"
      "q_frame (set gs \<union> set bs) q (q\<lparr>q_store := s, q_cache := g\<rparr>)" "qelems s (gs @ bs) = qelems (q_store q) gs @ qelems (q_store q) bs"
    using q_transfer_run [OF r d t] by (elim exE conjE) (rule that)
  show ?thesis
  proof (cases "q_max_size q < qc_size g \<and> locked")
    case True
    obtain q2 where "q_Recycle (q_min_size q) (q\<lparr>q_store := s, q_cache := g\<rparr>) = Some q2" "drained gs bs c q c' q2"
        "qc_size (q_cache q2) \<le> q_min_size q"
      using q_transfer_recycle_run [OF s(2-5)] by blast
    then show ?thesis using True s(1) m by (intro exI [of _ c'] exI [of _ q2]) (simp add: q_Drain_def)
  next
    case False
    have "drained gs bs c q c' (q\<lparr>q_store := s, q_cache := g\<rparr>)"
      by (rule drainedI [of _ "gs @ bs" s]) (use s in simp_all)
    then show ?thesis using False s(1) by (intro exI [of _ c'] exI) (auto simp: q_Drain_def)
  qed
qed

lemma q_DrainAndRecycle_run:
  assumes r: "qc_repr (q_store q) (q_cache q) gs" "qc_repr (q_store q) c bs" and d: "set gs \<inter> set bs = {}"
    and t: "qc_size (q_cache q) + qc_size c < 2 ^ 64"
  shows "\<exists>c' q'. q_DrainAndRecycle c q = Some (c', q') \<and> drained gs bs c q c' q' \<and> qc_size (q_cache q') = 0"
proof -
  obtain s g c' where s: "qc_Transfer (q_store q) (q_cache q) c = Some (s, g, c')" "qc_repr s g (gs @ bs)" "qc_repr s c' []"
      "q_frame (set gs \<union> set bs) q (q\<lparr>q_store := s, q_cache := g\<rparr>)" "qelems s (gs @ bs) = qelems (q_store q) gs @ qelems (q_store q) bs"
    using q_transfer_run [OF r d t] by (elim exE conjE) (rule that)
  obtain q2 where "q_Recycle 0 (q\<lparr>q_store := s, q_cache := g\<rparr>) = Some q2" "drained gs bs c q c' q2" "qc_size (q_cache q2) \<le> 0"
    using q_transfer_recycle_run [OF s(2-5)] by blast
  then show ?thesis using s(1) by (intro exI [of _ c'] exI [of _ q2]) (simp add: q_DrainAndRecycle_def)
qed

section \<open>A quarantine with any number of thread caches\<close>

text \<open>
  Thread \<open>i\<close> has the cache \<open>cs i\<close>; \<open>B (Some i)\<close> are the batches linked in it and \<open>B None\<close> those in
  the global queue. \<open>owner\<close> says which thread puts a chunk.
\<close>

definition qsys_ok :: "('p \<Rightarrow> nat) \<Rightarrow> 'p Quarantine \<Rightarrow> (nat \<Rightarrow> QCache) \<Rightarrow> (nat option \<Rightarrow> nat list) \<Rightarrow> bool" where
  "qsys_ok owner q cs B \<longleftrightarrow> qc_repr (q_store q) (q_cache q) (B None) \<and> (\<forall>i. qc_repr (q_store q) (cs i) (B (Some i))) \<and>
     (\<forall>x y. x \<noteq> y \<longrightarrow> set (B x) \<inter> set (B y) = {}) \<and> q_min_size q \<le> q_max_size q \<and>
     (\<forall>i. \<forall>p\<in>set (qelems (q_store q) (B (Some i))). owner p = i) \<and>
     (\<forall>i. filter (\<lambda>p. owner p = i) (quarantined (q_log q)) =
        filter (\<lambda>p. owner p = i) (recycled (q_log q) @ qelems (q_store q) (B None)) @ qelems (q_store q) (B (Some i)))"

lemma filter_owned: "\<forall>p\<in>set xs. owner p = i \<Longrightarrow> filter (\<lambda>p. owner p = j) xs = (if j = i then xs else [])"
  by (induction xs) auto

lemma qsys_step:
  assumes ok: "qsys_ok owner q cs B"
    and r: "qc_repr (q_store q') (q_cache q') gs" "qc_repr (q_store q') c bs"
    and d: "set gs \<inter> set bs = {}" and sub: "set gs \<union> set bs \<subseteq> set (B None) \<union> set (B (Some i)) \<union> F" and F: "\<forall>x. set (B x) \<inter> F = {}"
    and f: "q_frame (set (B None) \<union> set (B (Some i)) \<union> F) q q'"
    and own: "\<forall>p\<in>set new. owner p = i" and bs: "set (qelems (q_store q') bs) \<subseteq> set (qelems (q_store q) (B (Some i))) \<union> set new"
    and log: "quarantined (q_log q') = quarantined (q_log q) @ new"
    and eq: "recycled (q_log q') @ qelems (q_store q') gs @ qelems (q_store q') bs =
      recycled (q_log q) @ qelems (q_store q) (B None) @ qelems (q_store q) (B (Some i)) @ new"
  shows "qsys_ok owner q' (cs(i := c)) (B(None := gs, Some i := bs))"
proof -
  let ?B = "B(None := gs, Some i := bs)" and ?own = "\<lambda>j p. owner p = j"
  have dis: "set (B x) \<inter> set (B y) = {}" if "x \<noteq> y" for x y using ok that by (simp add: qsys_ok_def)
  have so: "same_on (- (set (B None) \<union> set (B (Some i)) \<union> F)) (q_store q) (q_store q')" using f by (simp add: q_frame_def)
  have away: "set (B (Some j)) \<subseteq> - (set (B None) \<union> set (B (Some i)) \<union> F)" if "j \<noteq> i" for j
    using dis [of "Some j" None] dis [of "Some j" "Some i"] F that by auto
  have other: "qc_repr (q_store q') (cs j) (B (Some j))" "qelems (q_store q') (B (Some j)) = qelems (q_store q) (B (Some j))" if "j \<noteq> i" for j
    using qc_repr_same [OF so away [OF that]] same_elems [OF so away [OF that]] ok by (simp_all add: qsys_ok_def)
  have bi: "\<forall>p\<in>set (qelems (q_store q) (B (Some i))). owner p = i" using ok by (simp add: qsys_ok_def)
  then have bo: "\<forall>p\<in>set (qelems (q_store q') bs). owner p = i" using bs own by blast
  have e1: "filter (?own j) (recycled (q_log q') @ qelems (q_store q') gs) @ (if j = i then qelems (q_store q') bs else []) =
      filter (?own j) (recycled (q_log q) @ qelems (q_store q) (B None)) @ (if j = i then qelems (q_store q) (B (Some i)) @ new else [])" for j
    using arg_cong [OF eq, of "filter (?own j)"] filter_owned [OF bo] filter_owned [OF bi] filter_owned [OF own] by (simp split: if_splits)
  have e2: "filter (?own j) (quarantined (q_log q)) =
      filter (?own j) (recycled (q_log q) @ qelems (q_store q) (B None)) @ qelems (q_store q) (B (Some j))" for j
    using ok by (simp add: qsys_ok_def)
  have fifo: "filter (?own j) (quarantined (q_log q')) =
      filter (?own j) (recycled (q_log q') @ qelems (q_store q') (?B None)) @ qelems (q_store q') (?B (Some j))" for j
    using other(2) [of j] filter_owned [OF own, of j] log e1 [of j, symmetric] e2 [of j] by (cases "j = i") simp_all
  have sep: "set (B x) \<inter> (set gs \<union> set bs) = {}" if "x \<noteq> None" "x \<noteq> Some i" for x
    using dis [of x None] dis [of x "Some i"] F sub that by blast
  have "set (?B x) \<inter> set (?B y) = {}" if "x \<noteq> y" for x y
    using dis [OF that] sep [of x] sep [of y] d that by auto
  moreover have "qc_repr (q_store q') ((cs(i := c)) j) (?B (Some j))" for j using other(1) r(2) by simp
  moreover have "\<forall>p\<in>set (qelems (q_store q') (?B (Some j))). owner p = j" for j
    using bo other(2) [of j] ok by (auto simp: qsys_ok_def)
  ultimately show ?thesis using r(1) f fifo ok unfolding qsys_ok_def q_frame_def by simp
qed

lemma qsys_drained:
  assumes ok: "qsys_ok owner q cs B" and dr: "drained (B None) (B (Some i)) (cs i) q c' q'"
  shows "\<exists>B'. qsys_ok owner q' (cs(i := c')) B'"
proof -
  obtain gs' where g: "qc_repr (q_store q') (q_cache q') gs'" "qc_repr (q_store q') c' []" "set gs' \<subseteq> set (B None) \<union> set (B (Some i))"
      "q_frame (set (B None) \<union> set (B (Some i))) q q'" "quarantined (q_log q') = quarantined (q_log q)"
      "recycled (q_log q') @ qelems (q_store q') gs' = recycled (q_log q) @ qelems (q_store q) (B None) @ qelems (q_store q) (B (Some i))"
    using dr unfolding drained_def by (elim exE conjE) (rule that)
  have "qsys_ok owner q' (cs(i := c')) (B(None := gs', Some i := []))"
    by (rule qsys_step [OF ok g(1,2), where F = "{}" and new = "[]"]) (use g(3-6) in simp_all)
  then show ?thesis by blast
qed

text \<open>Memory that \<^verbatim>\<open>Allocate\<close> returns is not linked in a list already; and the sizes of what two
  caches hold, being sizes of disjoint blocks of memory, do not exceed the address space.\<close>

definition fresh_batch :: "'p Quarantine \<Rightarrow> (nat \<Rightarrow> QCache) \<Rightarrow> nat \<Rightarrow> bool" where
  "fresh_batch q cs b \<longleftrightarrow> (\<forall>l xs. (l = qc_list (q_cache q) \<or> (\<exists>i. l = qc_list (cs i))) \<and> il_repr (qs_next (q_store q)) l xs \<longrightarrow> b \<notin> set xs)"

definition fits :: "nat \<Rightarrow> QCache \<Rightarrow> 'p Quarantine \<Rightarrow> bool" where
  "fits n c q \<longleftrightarrow> qc_size c + qc_size (q_cache q) + n < 2 ^ 64"

lemma fresh_batchD: "qsys_ok owner q cs B \<Longrightarrow> fresh_batch q cs b \<Longrightarrow> b \<notin> set (B x)"
  by (cases x) (auto simp: qsys_ok_def fresh_batch_def qc_repr_def)

lemma qsys_enqueue:
  assumes ok: "qsys_ok owner q cs B" and fresh: "fresh_batch q cs b" and own: "owner p = i" and sz: "fits (sz + sizeof_batch) (cs i) q"
  shows "\<exists>s c B'. qc_Enqueue (Some b) p sz (q_store q) (cs i) = Some (s, c) \<and>
    qsys_ok owner ((q_emit [PreQuarantine p] q)\<lparr>q_store := s\<rparr>) (cs(i := c)) B' \<and> fits 0 c q"
proof -
  have r: "qc_repr (q_store q) (cs i) (B (Some i))" "qc_repr (q_store q) (q_cache q) (B None)" using ok by (simp_all add: qsys_ok_def)
  have b: "b \<notin> set (B x)" for x by (rule fresh_batchD [OF ok fresh])
  have tot: "qtotal (q_store q) (B (Some i)) + sz + sizeof_batch < 2 ^ 64" using sz r(1) by (simp add: fits_def qc_repr_def)
  obtain s c bs' where s: "qc_Enqueue (Some b) p sz (q_store q) (cs i) = Some (s, c)" "qc_repr s c bs'"
      "qelems s bs' = qelems (q_store q) (B (Some i)) @ [p]" "set bs' \<subseteq> insert b (set (B (Some i)))"
      "same_on (- insert b (set (B (Some i)))) (q_store q) s" "qtotal s bs' \<le> qtotal (q_store q) (B (Some i)) + sz + sizeof_batch"
    using qc_Enqueue_run [OF r(1) b tot, of p] by (elim exE conjE) (rule that)
  have dis: "set (B None) \<inter> set (B (Some i)) = {}" using ok by (simp add: qsys_ok_def)
  have away: "set (B None) \<subseteq> - insert b (set (B (Some i)))" using b dis by auto
  let ?q = "(q_emit [PreQuarantine p] q)\<lparr>q_store := s\<rparr>"
  have g: "qc_repr (q_store ?q) (q_cache ?q) (B None)" using qc_repr_same [OF s(5) away r(2)] by (simp add: q_emit_def)
  have "qsys_ok owner ?q (cs(i := c)) (B(None := B None, Some i := bs'))"
  proof (rule qsys_step [OF ok g, where F = "{b}" and new = "[p]"])
    show "set (B None) \<inter> set bs' = {}" using s(4) b dis by auto
    show "q_frame (set (B None) \<union> set (B (Some i)) \<union> {b}) q ?q" using s(5) by (simp add: q_frame_def q_emit_def same_on_def)
  qed (use s own b same_elems [OF s(5) away] in \<open>auto simp: q_emit_def\<close>)
  moreover have "fits 0 c q" using s(2,6) sz r(1) by (simp add: fits_def qc_repr_def)
  ultimately show ?thesis using s(1) by blast
qed

lemma q_Put_ok:
  assumes ok: "qsys_ok owner q cs B" and fresh: "fresh_batch q cs b" and own: "owner p = i" and sz: "fits (sz + sizeof_batch) (cs i) q"
  shows "\<exists>c' q' B'. q_Put locked (Some b) (cs i) p sz q = Some (c', q') \<and> qsys_ok owner q' (cs(i := c')) B' \<and>
    qc_size c' \<le> q_max_cache_size q \<and> (locked \<longrightarrow> qc_size (q_cache q') \<le> max (q_max_size q) (qc_size (q_cache q)))"
proof -
  let ?enq = "q_max_cache_size q \<noteq> 0 \<and> sz \<le> q_max_size q"
  have "\<exists>c1 q1 B1. (if ?enq then do { (s, c) \<leftarrow> qc_Enqueue (Some b) p sz (q_store q) (cs i); Some (c, (q_emit [PreQuarantine p] q)\<lparr>q_store := s\<rparr>) }
        else Some (cs i, q_emit [RecyclePassThrough p] q)) = Some (c1, q1) \<and> qsys_ok owner q1 (cs(i := c1)) B1 \<and> fits 0 c1 q1 \<and>
      q_max_size q1 = q_max_size q \<and> q_cache q1 = q_cache q"
  proof (cases ?enq)
    case True
    show ?thesis unfolding if_P [OF True] using qsys_enqueue [OF ok fresh own sz] by (fastforce simp: q_emit_def fits_def)
  next
    case False
    have "qsys_ok owner (q_emit [RecyclePassThrough p] q) (cs(i := cs i)) B" using ok by (simp add: qsys_ok_def q_emit_def)
    then show ?thesis unfolding if_not_P [OF False] using sz by (auto simp: q_emit_def fits_def)
  qed
  then obtain c1 q1 B1 where run1: "(if ?enq then do { (s, c) \<leftarrow> qc_Enqueue (Some b) p sz (q_store q) (cs i); Some (c, (q_emit [PreQuarantine p] q)\<lparr>q_store := s\<rparr>) }
        else Some (cs i, q_emit [RecyclePassThrough p] q)) = Some (c1, q1)" and ok1: "qsys_ok owner q1 (cs(i := c1)) B1" and f1: "fits 0 c1 q1"
      and q1: "q_max_size q1 = q_max_size q" "q_cache q1 = q_cache q"
    by (elim exE conjE) (rule that)
  have put: "q_Put locked (Some b) (cs i) p sz q = (if q_max_cache_size q < qc_size c1 then q_Drain locked c1 q1 else Some (c1, q1))"
    using run1 by (auto simp: q_Put_def Let_def q_emit_def bind_eq_Some_conv split: if_splits)
  show ?thesis
  proof (cases "q_max_cache_size q < qc_size c1")
    case True
    have r: "qc_repr (q_store q1) (q_cache q1) (B1 None)" "qc_repr (q_store q1) c1 (B1 (Some i))" "set (B1 None) \<inter> set (B1 (Some i)) = {}"
        "q_min_size q1 \<le> q_max_size q1"
      using ok1 by (auto simp: qsys_ok_def split: if_splits)
    obtain c' q' where dr: "q_Drain locked c1 q1 = Some (c', q')" "drained (B1 None) (B1 (Some i)) c1 q1 c' q'"
        "locked \<longrightarrow> qc_size (q_cache q') \<le> q_max_size q1"
      using q_Drain_run [OF r(1-3) _ r(4), of locked] f1 by (auto simp: fits_def add.commute)
    have "qc_size c' = 0" using dr(2) by (auto simp: drained_def qc_repr_def)
    moreover obtain B' where "qsys_ok owner q' (cs(i := c')) B'" using qsys_drained [OF ok1, of i c' q'] dr(2) by auto
    ultimately show ?thesis using True put dr q1 by auto
  next
    case False
    then show ?thesis using put ok1 q1 by (auto simp: max_def)
  qed
qed

section \<open>Every sequence of operations\<close>

primrec il_items :: "nat \<Rightarrow> 'n links \<Rightarrow> 'n option \<Rightarrow> 'n list" where
  "il_items 0 h p = []"
| "il_items (Suc n) h p = (case p of None \<Rightarrow> [] | Some x \<Rightarrow> x # il_items n h (h x))"

lemma il_items_seg: "seg h p xs None \<Longrightarrow> il_items (length xs) h p = xs"
  by (induction xs arbitrary: p) auto

text \<open>The chunks in a cache, first in first.\<close>

definition qc_contents :: "'p QStore \<Rightarrow> QCache \<Rightarrow> 'p list" where
  "qc_contents s c = qelems s (il_items (il_size (qc_list c)) (qs_next s) (il_first (qc_list c)))"

lemma qc_contents_repr: "qc_repr s c bs \<Longrightarrow> qc_contents s c = qelems s bs"
  by (auto simp: qc_contents_def qc_repr_def il_repr_def il_items_seg)

definition mk_Quarantine :: "'p QStore \<Rightarrow> 'p Quarantine" where
  "mk_Quarantine s = \<lparr>q_max_size = 0, q_min_size = 0, q_max_cache_size = 0, q_cache = qc_new, q_store = s, q_log = []\<rparr>"

inductive qstep :: "('p \<Rightarrow> nat) \<Rightarrow> 'p Quarantine \<times> (nat \<Rightarrow> QCache) \<Rightarrow> 'p Quarantine \<times> (nat \<Rightarrow> QCache) \<Rightarrow> bool" for owner where
  init: "q_Init sz csz q = Some q' \<Longrightarrow> qstep owner (q, cs) (q', cs)"
| put: "owner p = i \<Longrightarrow> fresh_batch q cs b \<Longrightarrow> fits (sz + sizeof_batch) (cs i) q \<Longrightarrow>
    q_Put locked (Some b) (cs i) p sz q = Some (c', q') \<Longrightarrow> qstep owner (q, cs) (q', cs(i := c'))"
| drain: "fits 0 (cs i) q \<Longrightarrow> q_Drain locked (cs i) q = Some (c', q') \<Longrightarrow> qstep owner (q, cs) (q', cs(i := c'))"
| drain_recycle: "fits 0 (cs i) q \<Longrightarrow> q_DrainAndRecycle (cs i) q = Some (c', q') \<Longrightarrow> qstep owner (q, cs) (q', cs(i := c'))"

inductive_cases qstepE: "qstep owner (q, cs) (q', cs')"

inductive qreach :: "('p \<Rightarrow> nat) \<Rightarrow> 'p Quarantine \<times> (nat \<Rightarrow> QCache) \<Rightarrow> bool" for owner where
  start: "qreach owner (mk_Quarantine s, \<lambda>_. qc_new)"
| step: "qreach owner st \<Longrightarrow> qstep owner st st' \<Longrightarrow> qreach owner st'"

lemma qsys_ok_parts:
  assumes "qsys_ok owner q cs B"
  shows "qc_repr (q_store q) (q_cache q) (B None)" "qc_repr (q_store q) (cs i) (B (Some i))" "set (B None) \<inter> set (B (Some i)) = {}"
    "q_min_size q \<le> q_max_size q"
  using assms by (simp_all add: qsys_ok_def)

lemma qstep_ok:
  assumes "qstep owner (q, cs) (q', cs')" and ok: "qsys_ok owner q cs B"
  shows "\<exists>B'. qsys_ok owner q' cs' B'"
  using assms(1)
proof (rule qstepE)
  fix sz csz assume "q_Init sz csz q = Some q'" and cs: "cs' = cs"
  then have "q' = q\<lparr>q_max_size := sz, q_min_size := sz div 10 * 9, q_max_cache_size := csz\<rparr>" by (auto simp: q_Init_def)
  moreover have "sz div 10 * 9 \<le> sz" by simp
  ultimately show ?thesis using ok cs by (intro exI [of _ B]) (simp add: qsys_ok_def)
next
  fix p b sz locked c' assume c: "cs' = cs(owner p := c')" and pre: "fresh_batch q cs b" "fits (sz + sizeof_batch) (cs (owner p)) q"
    and run: "q_Put locked (Some b) (cs (owner p)) p sz q = Some (c', q')"
  show ?thesis using q_Put_ok [OF ok pre(1) refl pre(2), of locked] run c by auto
next
  fix i locked c' assume c: "cs' = cs(i := c')" and pre: "fits 0 (cs i) q" and run: "q_Drain locked (cs i) q = Some (c', q')"
  have "drained (B None) (B (Some i)) (cs i) q c' q'"
    using q_Drain_run [OF qsys_ok_parts(1,2,3) [OF ok] _ qsys_ok_parts(4) [OF ok], of i locked] pre run by (auto simp: fits_def add.commute)
  then show ?thesis unfolding c by (rule qsys_drained [OF ok])
next
  fix i c' assume c: "cs' = cs(i := c')" and pre: "fits 0 (cs i) q" and run: "q_DrainAndRecycle (cs i) q = Some (c', q')"
  have "drained (B None) (B (Some i)) (cs i) q c' q'"
    using q_DrainAndRecycle_run [OF qsys_ok_parts(1,2,3) [OF ok], of i] pre run by (auto simp: fits_def add.commute)
  then show ?thesis unfolding c by (rule qsys_drained [OF ok])
qed

lemma qreach_ok: "qreach owner (q, cs) \<Longrightarrow> \<exists>B. qsys_ok owner q cs B"
proof (induction "(q, cs)" arbitrary: q cs rule: qreach.induct)
  case (start s)
  then show ?case by (intro exI [of _ "\<lambda>_. []"]) (simp add: qsys_ok_def mk_Quarantine_def)
next
  case (step st)
  obtain q0 cs0 where st: "st = (q0, cs0)" by force
  show ?case using step.hyps(2) [OF st] qstep_ok step.hyps(3) st by blast
qed

text \<open>
  C15: The quarantine is a first-in first-out queue that loses nothing: after any sequence of
  \<^verbatim>\<open>Put\<close>, \<^verbatim>\<open>Drain\<close> and \<^verbatim>\<open>DrainAndRecycle\<close> calls of any threads, with batches merged, evicted and
  handed over in between, the chunks that a thread has put into quarantine are, in that order,
  those that have been recycled, those in the global queue and those in the thread's cache. So no
  chunk is recycled twice, none gets lost, and none overtakes another of its thread.
\<close>

theorem quarantine_fifo:
  assumes "qreach owner (q, cs)"
  shows "filter (\<lambda>p. owner p = i) (quarantined (q_log q)) =
    filter (\<lambda>p. owner p = i) (recycled (q_log q)) @ filter (\<lambda>p. owner p = i) (qc_contents (q_store q) (q_cache q)) @
    qc_contents (q_store q) (cs i)"
proof -
  obtain B where B: "qsys_ok owner q cs B" using qreach_ok [OF assms] by blast
  show ?thesis
    using qc_contents_repr [OF qsys_ok_parts(1) [OF B]] qc_contents_repr [OF qsys_ok_parts(2) [OF B]] B by (simp add: qsys_ok_def)
qed

text \<open>
  C20: In every reachable state \<^verbatim>\<open>Put\<close> returns: no check fails, no loop runs forever and no null
  batch is dereferenced, however far the merging and evicting goes. Afterwards the thread's
  cache is within \<^verbatim>\<open>max_cache_size_\<close>, and the global queue has not grown beyond \<^verbatim>\<open>max_size_\<close>
  unless another thread held the recycling mutex.
\<close>

theorem quarantine_Put_bounds:
  assumes "qreach owner (q, cs)" and "fresh_batch q cs b" and "fits (sz + sizeof_batch) (cs (owner p)) q"
  shows "\<exists>c' q'. q_Put locked (Some b) (cs (owner p)) p sz q = Some (c', q') \<and> qc_size c' \<le> q_max_cache_size q \<and>
    (locked \<longrightarrow> qc_size (q_cache q') \<le> max (q_max_size q) (qc_size (q_cache q)))"
proof -
  obtain B where B: "qsys_ok owner q cs B" using qreach_ok [OF assms(1)] by blast
  show ?thesis using q_Put_ok [OF B assms(2) refl assms(3), of locked] by blast
qed

text \<open>
  C39: \<^verbatim>\<open>DrainAndRecycle\<close> returns in every reachable state, and it empties the quarantine as far as the
  caller can see it: everything that the calling thread has put has been recycled, in order.
\<close>

theorem DrainAndRecycle_recycles_all:
  assumes "qreach owner (q, cs)" and "fits 0 (cs i) q"
  shows "\<exists>c' q'. q_DrainAndRecycle (cs i) q = Some (c', q') \<and> qc_size (q_cache q') = 0 \<and> qc_size c' = 0 \<and>
    filter (\<lambda>p. owner p = i) (recycled (q_log q')) = filter (\<lambda>p. owner p = i) (quarantined (q_log q))"
proof -
  obtain B where B: "qsys_ok owner q cs B" using qreach_ok [OF assms(1)] by blast
  obtain c' q' where run: "q_DrainAndRecycle (cs i) q = Some (c', q')" "drained (B None) (B (Some i)) (cs i) q c' q'" "qc_size (q_cache q') = 0"
    using q_DrainAndRecycle_run [OF qsys_ok_parts(1,2,3) [OF B], of i] assms(2) by (auto simp: fits_def add.commute)
  obtain B' where B': "qsys_ok owner q' (cs(i := c')) B'" using qsys_drained [OF B run(2)] by blast
  have c': "qc_size c' = 0" using run(2) by (auto simp: drained_def qc_repr_def)
  have "qc_repr (q_store q') c' (B' (Some i))" using qsys_ok_parts(2) [OF B', of i] by simp
  then have "B' (Some i) = []" "B' None = []"
    using qtotal_ge [of "B' (Some i)" "q_store q'"] qtotal_ge [of "B' None" "q_store q'"] c' run(3) qsys_ok_parts(1) [OF B']
    by (auto simp: qc_repr_def sizeof_batch_def)
  moreover have "quarantined (q_log q') = quarantined (q_log q)" using run(2) by (auto simp: drained_def)
  ultimately show ?thesis using run c' B' by (auto simp: qsys_ok_def)
qed

text \<open>A run: a quarantine of 20000 bytes with caches of 10000, and the first chunk of thread 3.\<close>

definition q_example_0 :: "nat Quarantine" where
  "q_example_0 = (mk_Quarantine \<lparr>qs_next = (\<lambda>_. None), qs_batch = (\<lambda>_. \<lparr>qb_size = 0, qb_batch = []\<rparr>)\<rparr>)
     \<lparr>q_max_size := 20000, q_min_size := 18000, q_max_cache_size := 10000\<rparr>"

lemma q_example_0_reach: "qreach (\<lambda>p. 3) (q_example_0, \<lambda>_. qc_new)"
  by (rule qreach.step [OF qreach.start], rule qstep.init [where sz = 20000 and csz = 10000])
    (simp add: q_Init_def q_example_0_def mk_Quarantine_def)

lemma q_example_0_fresh: "fresh_batch q_example_0 (\<lambda>_. qc_new) b"
  by (auto simp: fresh_batch_def q_example_0_def mk_Quarantine_def qc_new_def il_repr_def il_clear_def)

lemma q_example_0_fits: "fits (sz + sizeof_batch) qc_new q_example_0" if "sz \<le> 10000"
  using that by (simp add: fits_def q_example_0_def mk_Quarantine_def qc_new_def sizeof_batch_def kSize_def)

lemma quarantine_Put_bounds_witness:
  "\<exists>c' q'. q_Put True (Some 64) qc_new 7 100 q_example_0 = Some (c', q') \<and> qc_size c' \<le> 10000"
proof -
  have "fits (100 + sizeof_batch) qc_new q_example_0" by (rule q_example_0_fits) simp
  then show ?thesis using quarantine_Put_bounds [OF q_example_0_reach q_example_0_fresh, where p = 7 and sz = 100 and b = 64 and locked = True]
    by (auto simp: q_example_0_def)
qed

lemma q_example_put:
  "\<exists>c q. q_Put True (Some 64) qc_new 7 100 q_example_0 = Some (c, q) \<and> quarantined (q_log q) = [7] \<and> fits 0 c q"
  by (simp add: q_Put_def q_example_0_def mk_Quarantine_def qc_Enqueue_def qc_new_def il_clear_def il_empty_def qc_EnqueueBatch_def
      il_push_back_def qb_init_def uptr_add_def sizeof_batch_def kSize_def qc_SizeAdd_def q_emit_def qs_set_def fits_def)

lemma q_example_put_reach:
  assumes "q_Put True (Some 64) qc_new 7 100 q_example_0 = Some (c, q)"
  shows "qreach (\<lambda>p. 3) (q, (\<lambda>_. qc_new)(3 := c))"
  by (rule qreach.step [OF q_example_0_reach], rule qstep.put [OF _ q_example_0_fresh q_example_0_fits assms]) simp_all

lemma quarantine_fifo_witness:
  "\<exists>c q. q_Put True (Some 64) qc_new 7 100 q_example_0 = Some (c, q) \<and>
     [7] = recycled (q_log q) @ qc_contents (q_store q) (q_cache q) @ qc_contents (q_store q) c"
proof -
  obtain c q where cq: "q_Put True (Some 64) qc_new 7 100 q_example_0 = Some (c, q)" "quarantined (q_log q) = [7]"
    using q_example_put by blast
  then show ?thesis using quarantine_fifo [OF q_example_put_reach [OF cq(1)], of 3] by simp
qed

lemma DrainAndRecycle_recycles_all_witness:
  "\<exists>c q c' q'. q_Put True (Some 64) qc_new 7 100 q_example_0 = Some (c, q) \<and> q_DrainAndRecycle c q = Some (c', q') \<and> recycled (q_log q') = [7]"
proof -
  obtain c q where cq: "q_Put True (Some 64) qc_new 7 100 q_example_0 = Some (c, q)" "quarantined (q_log q) = [7]" "fits 0 c q"
    using q_example_put by blast
  then show ?thesis using DrainAndRecycle_recycles_all [OF q_example_put_reach [OF cq(1)], of 3] by auto
qed

end
