(* ===== verification/San_Sort.thy ===== *)
theory San_Sort
  imports San_Prelude "HOL-Library.Multiset"
begin

text \<open>
  The sorting and searching templates of \<^verbatim>\<open>sanitizer_common.h\<close>: the heap sort \<^verbatim>\<open>Sort\<close>, the binary
  search \<^verbatim>\<open>InternalLowerBound\<close> and \<^verbatim>\<open>SortAndDedup\<close>. The comparator is a parameter; what the code
  needs of it is that it is a strict weak order, which is the locale \<open>weak_order\<close>.
\<close>

section \<open>The code\<close>

definition swap :: "nat \<Rightarrow> nat \<Rightarrow> 'a list \<Rightarrow> 'a list" where
  "swap i j v = v[i := v ! j, j := v ! i]"

fun sift_up :: "('a \<Rightarrow> 'a \<Rightarrow> bool) \<Rightarrow> nat \<Rightarrow> 'a list \<Rightarrow> 'a list" where
  "sift_up cmp j v =
     (if 0 < j then
        let p = (j - 1) div 2 in
        if cmp (v ! p) (v ! j) then sift_up cmp p (swap j p v) else v
      else v)"

definition max_child :: "('a \<Rightarrow> 'a \<Rightarrow> bool) \<Rightarrow> nat \<Rightarrow> nat \<Rightarrow> 'a list \<Rightarrow> nat" where
  "max_child cmp i j v =
     (let left = 2 * j + 1; right = 2 * j + 2; max_ind = j;
          max_ind = (if left < i \<and> cmp (v ! max_ind) (v ! left) then left else max_ind);
          max_ind = (if right < i \<and> cmp (v ! max_ind) (v ! right) then right else max_ind)
      in max_ind)"

lemma max_child_bounds: "j < i \<Longrightarrow> j \<le> max_child cmp i j v \<and> max_child cmp i j v < i"
  by (auto simp: max_child_def Let_def)

function sink :: "('a \<Rightarrow> 'a \<Rightarrow> bool) \<Rightarrow> nat \<Rightarrow> nat \<Rightarrow> 'a list \<Rightarrow> 'a list" where
  "sink cmp i j v =
     (if j < i then
        let max_ind = max_child cmp i j v in
        if max_ind \<noteq> j then sink cmp i max_ind (swap j max_ind v) else v
      else v)"
  by pat_completeness auto
termination
proof (relation "measure (\<lambda>(cmp, i, j, v). i - j)")
  fix cmp :: "'a \<Rightarrow> 'a \<Rightarrow> bool" and i j :: nat and v :: "'a list" and x
  assume "j < i" "x = max_child cmp i j v" "x \<noteq> j"
  then show "((cmp, i, x, swap j x v), (cmp, i, j, v)) \<in> measure (\<lambda>(cmp, i, j, v). i - j)"
    using max_child_bounds [of j i cmp v] by auto
qed simp

declare sift_up.simps [simp del] sink.simps [simp del]

definition Sort :: "('a \<Rightarrow> 'a \<Rightarrow> bool) \<Rightarrow> 'a list \<Rightarrow> 'a list" where
  "Sort cmp v =
     (if length v < 2 then v
      else
        let v = fold (sift_up cmp) [1..<length v] v
        in fold (\<lambda>i v. sink cmp i 0 (swap 0 i v)) (rev [1..<length v]) v)"

function lower_bound_loop :: "('a \<Rightarrow> 'b \<Rightarrow> bool) \<Rightarrow> 'a list \<Rightarrow> 'b \<Rightarrow> nat \<Rightarrow> nat \<Rightarrow> nat" where
  "lower_bound_loop cmp v val lo hi =
     (if lo < hi then
        let mid = (lo + hi) div 2 in
        if cmp (v ! mid) val then lower_bound_loop cmp v val (mid + 1) hi
        else lower_bound_loop cmp v val lo mid
      else lo)"
  by pat_completeness auto
termination by (relation "measure (\<lambda>(cmp, v, val, f, l). l - f)") auto

declare lower_bound_loop.simps [simp del]

definition InternalLowerBound :: "('a \<Rightarrow> 'b \<Rightarrow> bool) \<Rightarrow> 'a list \<Rightarrow> 'b \<Rightarrow> nat" where
  "InternalLowerBound cmp v val = lower_bound_loop cmp v val 0 (length v)"

text \<open>The loop of \<^verbatim>\<open>SortAndDedup\<close>, over the indices \<open>1, \<dots>, size - 1\<close>.\<close>

fun dedup_loop :: "('a \<Rightarrow> 'a \<Rightarrow> bool) \<Rightarrow> nat list \<Rightarrow> nat \<Rightarrow> 'a list \<Rightarrow> (nat \<times> 'a list) option" where
  "dedup_loop cmp [] lst v = Some (lst, v)"
| "dedup_loop cmp (i # ks) lst v =
     (if cmp (v ! lst) (v ! i) then
        let lst = lst + 1; v = (if lst \<noteq> i then v[lst := v ! i] else v)
        in dedup_loop cmp ks lst v
      else do { CHECK (\<not> cmp (v ! i) (v ! lst)); dedup_loop cmp ks lst v })"

definition SortAndDedup :: "('a \<Rightarrow> 'a \<Rightarrow> bool) \<Rightarrow> 'a list \<Rightarrow> 'a list option" where
  "SortAndDedup cmp v = do {
     let v = Sort cmp v;
     if length v < 2 then Some v
     else do {
       (lst, v) \<leftarrow> dedup_loop cmp [1..<length v] 0 v;
       Some (take (lst + 1) v)
     }
   }"

section \<open>Exchanging two elements\<close>

lemma length_swap [simp]: "length (swap i j v) = length v"
  by (simp add: swap_def)

lemma mset_swap_eq [simp]: "i < length v \<Longrightarrow> j < length v \<Longrightarrow> mset (swap i j v) = mset v"
  using mset_swap [of i v j] by (cases "i = j") (simp_all add: swap_def list_update_swap)

lemma nth_swap: "i < length v \<Longrightarrow> j < length v \<Longrightarrow> k < length v \<Longrightarrow>
    swap i j v ! k = (if k = i then v ! j else if k = j then v ! i else v ! k)"
  by (auto simp: swap_def nth_list_update)

lemma take_swap: "i < n \<Longrightarrow> j < n \<Longrightarrow> n \<le> length v \<Longrightarrow> take n (swap i j v) = swap i j (take n v)"
  by (simp add: swap_def take_update_swap)

lemma drop_swap: "i < n \<Longrightarrow> j < n \<Longrightarrow> drop n (swap i j v) = drop n v"
  by (simp add: swap_def)

section \<open>Heap sort\<close>

locale weak_order =
  fixes lt :: "'a \<Rightarrow> 'a \<Rightarrow> bool"
  assumes asym: "lt a b \<Longrightarrow> \<not> lt b a"
    and negtrans: "\<not> lt a b \<Longrightarrow> \<not> lt b c \<Longrightarrow> \<not> lt a c"
begin

definition heap :: "nat \<Rightarrow> 'a list \<Rightarrow> bool" where
  "heap n v \<longleftrightarrow> (\<forall>k. 0 < k \<and> k < n \<longrightarrow> \<not> lt (v ! ((k - 1) div 2)) (v ! k))"

text \<open>A heap up to the element at \<open>j\<close>, which may be too large for its parent.\<close>

definition heap_up :: "nat \<Rightarrow> nat \<Rightarrow> 'a list \<Rightarrow> bool" where
  "heap_up n j v \<longleftrightarrow> (\<forall>k. 0 < k \<and> k < n \<and> k \<noteq> j \<longrightarrow> \<not> lt (v ! ((k - 1) div 2)) (v ! k)) \<and>
     (\<forall>k. 0 < k \<and> k < n \<and> (k - 1) div 2 = j \<and> 0 < j \<longrightarrow> \<not> lt (v ! ((j - 1) div 2)) (v ! k))"

lemma irrefl: "\<not> lt a a"
  using asym by blast

lemma heap_up_step:
  assumes h: "heap_up n j v" and j: "0 < j" "j < n" "n \<le> length v" and c: "lt (v ! ((j - 1) div 2)) (v ! j)"
  shows "heap_up n ((j - 1) div 2) (swap j ((j - 1) div 2) v)"
proof -
  let ?p = "(j - 1) div 2" and ?v = "swap j ((j - 1) div 2) v"
  have p: "?p < j" using j(1) by auto
  have nth: "?v ! k = (if k = j then v ! ?p else if k = ?p then v ! j else v ! k)" if "k < n" for k
    using nth_swap [of j v ?p k] that j p by simp
  have h1: "\<not> lt (v ! ((k - 1) div 2)) (v ! k)" if "0 < k" "k < n" "k \<noteq> j" for k using h that by (simp add: heap_up_def)
  have h2: "\<not> lt (v ! ?p) (v ! k)" if "0 < k" "k < n" "(k - 1) div 2 = j" for k using h that j by (simp add: heap_up_def)
  have a: "\<not> lt (?v ! ((k - 1) div 2)) (?v ! k)" if k: "0 < k" "k < n" "k \<noteq> ?p" for k
  proof -
    have par: "(k - 1) div 2 < n" "(k - 1) div 2 < k" using k by auto
    consider "k = j" | "k \<noteq> j" "(k - 1) div 2 = j" | "k \<noteq> j" "(k - 1) div 2 = ?p" | "k \<noteq> j" "(k - 1) div 2 \<noteq> j" "(k - 1) div 2 \<noteq> ?p" by blast
    then show ?thesis
    proof cases
      case 1 then show ?thesis using nth [OF par(1)] nth [OF k(2)] p asym [OF c] j by simp
    next
      case 2 then show ?thesis using nth [OF par(1)] nth [OF k(2)] h2 [OF k(1,2)] k(3) by simp
    next
      case 3
      then have "\<not> lt (v ! ?p) (v ! k)" using h1 [OF k(1,2)] by simp
      then have "\<not> lt (v ! j) (v ! k)" using negtrans asym [OF c] by blast
      then show ?thesis using 3 nth [OF par(1)] nth [OF k(2)] p k(3) by simp
    next
      case 4 then show ?thesis using nth [OF par(1)] nth [OF k(2)] h1 [OF k(1,2)] k(3) by simp
    qed
  qed
  have b: "\<not> lt (?v ! ((?p - 1) div 2)) (?v ! k)" if k: "0 < k" "k < n" "(k - 1) div 2 = ?p" "0 < ?p" for k
  proof -
    have q2: "(?p - 1) div 2 < ?p" using k(4) by (metis diff_less div_le_dividend le_less_trans less_numeral_extra(1))
    then have q: "(?p - 1) div 2 < n" "(?p - 1) div 2 < ?p" using p j by linarith+
    have pp: "\<not> lt (v ! ((?p - 1) div 2)) (v ! ?p)" using h1 [of ?p] k(4) p j by simp
    have "k \<noteq> ?p" using k by auto
    show ?thesis
    proof (cases "k = j")
      case True then show ?thesis using nth [OF q(1)] nth [OF k(2)] q p pp by simp
    next
      case False
      then have "\<not> lt (v ! ?p) (v ! k)" using h1 [OF k(1,2)] k(3) by simp
      then have "\<not> lt (v ! ((?p - 1) div 2)) (v ! k)" using negtrans pp by blast
      then show ?thesis using nth [OF q(1)] nth [OF k(2)] q p False \<open>k \<noteq> ?p\<close> by simp
    qed
  qed
  show ?thesis using a b by (auto simp: heap_up_def)
qed

lemma sift_up_heap:
  "heap_up n j v \<Longrightarrow> j < n \<Longrightarrow> n \<le> length v \<Longrightarrow>
    heap n (sift_up lt j v) \<and> length (sift_up lt j v) = length v \<and> mset (sift_up lt j v) = mset v"
proof (induction j arbitrary: v rule: less_induct)
  case (less j)
  show ?case
  proof (cases "0 < j \<and> lt (v ! ((j - 1) div 2)) (v ! j)")
    case True
    let ?p = "(j - 1) div 2"
    have p: "?p < j" using True by auto
    have "heap n (sift_up lt ?p (swap j ?p v)) \<and> length (sift_up lt ?p (swap j ?p v)) = length (swap j ?p v) \<and>
        mset (sift_up lt ?p (swap j ?p v)) = mset (swap j ?p v)"
      by (rule less.IH [OF p heap_up_step]) (use less.prems True p in simp_all)
    moreover have "sift_up lt j v = sift_up lt ?p (swap j ?p v)" using True by (subst sift_up.simps) (simp add: Let_def)
    ultimately show ?thesis using p less.prems by simp
  next
    case False
    then have "sift_up lt j v = v" by (subst sift_up.simps) (auto simp: Let_def)
    moreover have "heap n v" using less.prems(1) False by (auto simp: heap_def heap_up_def)
    ultimately show ?thesis by simp
  qed
qed

lemma stage1_heap:
  "n \<le> length v \<Longrightarrow> heap n (fold (sift_up lt) [1..<n] v) \<and> length (fold (sift_up lt) [1..<n] v) = length v \<and>
    mset (fold (sift_up lt) [1..<n] v) = mset v"
proof (induction n)
  case (Suc n)
  let ?w = "fold (sift_up lt) [1..<n] v"
  show ?case
  proof (cases "n = 0")
    case False
    have w: "heap n ?w" "length ?w = length v" "mset ?w = mset v" using Suc by auto
    have "heap_up (Suc n) n ?w" using w(1) by (auto simp: heap_def heap_up_def less_Suc_eq)
    then have "heap (Suc n) (sift_up lt n ?w) \<and> length (sift_up lt n ?w) = length ?w \<and> mset (sift_up lt n ?w) = mset ?w"
      by (rule sift_up_heap) (use Suc.prems w(2) in simp_all)
    then show ?thesis using w False by simp
  qed (simp add: heap_def)
qed (simp add: heap_def)

text \<open>A heap but for the element at \<open>j\<close>, which may be too small for its children.\<close>

definition heap_down :: "nat \<Rightarrow> nat \<Rightarrow> 'a list \<Rightarrow> bool" where
  "heap_down n j v \<longleftrightarrow> (\<forall>k. 0 < k \<and> k < n \<and> (k - 1) div 2 \<noteq> j \<longrightarrow> \<not> lt (v ! ((k - 1) div 2)) (v ! k)) \<and>
     (\<forall>k. 0 < k \<and> k < n \<and> (k - 1) div 2 = j \<and> 0 < j \<longrightarrow> \<not> lt (v ! ((j - 1) div 2)) (v ! k))"

lemma children: "0 < k \<Longrightarrow> (k - 1) div 2 = j \<longleftrightarrow> k = 2 * j + 1 \<or> k = 2 * j + 2"
  for k j :: nat by presburger

lemma max_child_max:
  assumes "0 < k" "k < n" "(k - 1) div 2 = j"
  shows "\<not> lt (v ! max_child lt n j v) (v ! k)"
proof -
  have "k = 2 * j + 1 \<or> k = 2 * j + 2" using children assms by blast
  then show ?thesis using assms(2) irrefl asym negtrans unfolding max_child_def Let_def by (smt (verit))
qed

lemma max_child_cases: "max_child lt n j v = j \<or> (max_child lt n j v < n \<and> (max_child lt n j v - 1) div 2 = j \<and> j < max_child lt n j v \<and>
    lt (v ! j) (v ! max_child lt n j v))"
proof -
  have "lt (v ! j) (v ! (2 * j + 2))" if "lt (v ! j) (v ! (2 * j + 1))" "lt (v ! (2 * j + 1)) (v ! (2 * j + 2))"
    using that asym negtrans by blast
  then show ?thesis by (auto simp: max_child_def Let_def)
qed

lemma heap_down_step:
  assumes h: "heap_down n j v" and n: "n \<le> length v" "j < n" and m: "m = max_child lt n j v" "m \<noteq> j"
  shows "heap_down n m (swap j m v)"
proof -
  have mj: "m < n" "(m - 1) div 2 = j" "j < m" "lt (v ! j) (v ! m)" using max_child_cases [of n j v] m by auto
  have nth: "swap j m v ! k = (if k = j then v ! m else if k = m then v ! j else v ! k)" if "k < n" for k
    using nth_swap [of j v m k] that n mj by simp
  have h1: "\<not> lt (v ! ((k - 1) div 2)) (v ! k)" if "0 < k" "k < n" "(k - 1) div 2 \<noteq> j" for k using h that by (simp add: heap_down_def)
  have h2: "\<not> lt (v ! ((j - 1) div 2)) (v ! k)" if "0 < k" "k < n" "(k - 1) div 2 = j" "0 < j" for k using h that by (simp add: heap_down_def)
  have mx: "\<not> lt (v ! m) (v ! k)" if "0 < k" "k < n" "(k - 1) div 2 = j" for k using max_child_max [OF that] m(1) by simp
  have a: "\<not> lt (swap j m v ! ((k - 1) div 2)) (swap j m v ! k)" if k: "0 < k" "k < n" "(k - 1) div 2 \<noteq> m" for k
  proof -
    have par: "(k - 1) div 2 < n" "(k - 1) div 2 < k" using k by auto
    consider "k = m" | "k = j" | "k \<noteq> m" "k \<noteq> j" "(k - 1) div 2 = j" | "k \<noteq> m" "k \<noteq> j" "(k - 1) div 2 \<noteq> j" by blast
    then show ?thesis
    proof cases
      case 1 then show ?thesis using nth [OF par(1)] nth [OF k(2)] mj asym by simp
    next
      case 2
      then have "\<not> lt (v ! ((j - 1) div 2)) (v ! m)" using h2 [of m] mj k by simp
      then show ?thesis using 2 nth [OF par(1)] nth [OF k(2)] par k(3) by simp
    next
      case 3 then show ?thesis using nth [OF par(1)] nth [OF k(2)] mx [OF k(1,2)] by simp
    next
      case 4 then show ?thesis using nth [OF par(1)] nth [OF k(2)] h1 [OF k(1,2)] k(3) by simp
    qed
  qed
  have b: "\<not> lt (swap j m v ! ((m - 1) div 2)) (swap j m v ! k)" if k: "0 < k" "k < n" "(k - 1) div 2 = m" for k
    using nth [of j] nth [OF k(2)] h1 [OF k(1,2)] k mj n by auto
  show ?thesis using a b by (auto simp: heap_down_def)
qed

lemma sink_heap:
  "heap_down n j v \<Longrightarrow> j < n \<Longrightarrow> n \<le> length v \<Longrightarrow>
    heap n (sink lt n j v) \<and> length (sink lt n j v) = length v \<and> mset (take n (sink lt n j v)) = mset (take n v) \<and> drop n (sink lt n j v) = drop n v"
proof (induction "n - j" arbitrary: j v rule: less_induct)
  case less
  let ?m = "max_child lt n j v"
  show ?case
  proof (cases "?m = j")
    case True
    then have "sink lt n j v = v" by (subst sink.simps) (simp add: Let_def)
    moreover have "\<not> lt (v ! ((k - 1) div 2)) (v ! k)" if "0 < k" "k < n" for k
      using max_child_max [OF that, of j v] True less.prems(1) that by (cases "(k - 1) div 2 = j") (auto simp: heap_down_def)
    ultimately show ?thesis by (simp add: heap_def)
  next
    case False
    then have m: "j < ?m" "?m < n" using max_child_cases [of n j v] by auto
    have "heap n (sink lt n ?m (swap j ?m v)) \<and> length (sink lt n ?m (swap j ?m v)) = length (swap j ?m v) \<and>
        mset (take n (sink lt n ?m (swap j ?m v))) = mset (take n (swap j ?m v)) \<and> drop n (sink lt n ?m (swap j ?m v)) = drop n (swap j ?m v)"
      by (rule less.hyps [OF _ heap_down_step [OF less.prems(1)]]) (use less.prems m False in simp_all)
    moreover have "sink lt n j v = sink lt n ?m (swap j ?m v)" using False less.prems(2) by (subst sink.simps) (simp add: Let_def)
    moreover have "mset (take n (swap j ?m v)) = mset (take n v)" using take_swap [of j n ?m v] m less.prems by simp
    moreover have "drop n (swap j ?m v) = drop n v" using drop_swap [of j n ?m v] m less.prems by simp
    ultimately show ?thesis by simp
  qed
qed

lemma heap_root: "heap n v \<Longrightarrow> k < n \<Longrightarrow> \<not> lt (v ! 0) (v ! k)"
proof (induction k rule: less_induct)
  case (less k)
  show ?case
  proof (cases "k = 0")
    case False
    then have "(k - 1) div 2 < k" by auto
    then have "\<not> lt (v ! 0) (v ! ((k - 1) div 2))" using less by simp
    moreover have "\<not> lt (v ! ((k - 1) div 2)) (v ! k)" using less.prems False by (simp add: heap_def)
    ultimately show ?thesis using negtrans by blast
  qed (simp add: irrefl)
qed

abbreviation ordered :: "'a list \<Rightarrow> bool" where
  "ordered \<equiv> sorted_wrt (\<lambda>a b. \<not> lt b a)"

definition stage2_inv :: "nat \<Rightarrow> 'a list \<Rightarrow> bool" where
  "stage2_inv i v \<longleftrightarrow> i < length v \<and> heap (Suc i) v \<and> ordered (drop (Suc i) v) \<and>
     (\<forall>a\<in>set (take (Suc i) v). \<forall>b\<in>set (drop (Suc i) v). \<not> lt b a)"

lemma stage2_step:
  assumes inv: "stage2_inv (Suc i) v"
  shows "stage2_inv i (sink lt (Suc i) 0 (swap 0 (Suc i) v))" "mset (sink lt (Suc i) 0 (swap 0 (Suc i) v)) = mset v"
proof -
  let ?n = "Suc i" let ?w = "swap 0 ?n v" let ?r = "sink lt ?n 0 ?w"
  have len: "?n < length v" and h: "heap (Suc ?n) v" and srt: "ordered (drop (Suc ?n) v)"
    and le: "\<forall>a\<in>set (take (Suc ?n) v). \<forall>b\<in>set (drop (Suc ?n) v). \<not> lt b a" using inv by (simp_all add: stage2_inv_def)
  have nth: "?w ! k = (if k = 0 then v ! ?n else if k = ?n then v ! 0 else v ! k)" if "k < length v" for k
    using len that by (subst nth_swap) auto
  have "\<not> lt (?w ! ((k - 1) div 2)) (?w ! k)" if "0 < k" "k < ?n" "(k - 1) div 2 \<noteq> 0" for k
  proof -
    have "(k - 1) div 2 < ?n" "(k - 1) div 2 < length v" using that len by auto
    then show ?thesis using nth [of "(k - 1) div 2"] nth [of k] that h len by (simp add: heap_def)
  qed
  then have hd: "heap_down ?n 0 ?w" by (simp add: heap_down_def)
  have r: "heap ?n ?r" "length ?r = length v" "mset (take ?n ?r) = mset (take ?n ?w)" "drop ?n ?r = drop ?n ?w"
    using sink_heap [OF hd] len by simp_all
  have w: "drop ?n ?w = v ! 0 # drop (Suc ?n) v"
    using len nth [of ?n] drop_swap [of 0 "Suc ?n" ?n v] Cons_nth_drop_Suc [of ?n ?w] by simp
  have ms: "mset (take (Suc ?n) ?w) = mset (take (Suc ?n) v)" using take_swap [of 0 "Suc ?n" ?n v] len by simp
  have "take (Suc ?n) ?w = take ?n ?w @ [v ! 0]" using len nth [of ?n] by (simp add: take_Suc_conv_app_nth)
  then have tk: "mset (take (Suc ?n) v) = mset (take ?n ?r) + {#v ! 0#}" using ms r(3) by simp
  have mem: "set (take ?n ?r) \<subseteq> set (take (Suc ?n) v)" "v ! 0 \<in> set (take (Suc ?n) v)"
    using arg_cong [OF tk, of set_mset] by auto
  have top: "\<not> lt (v ! 0) a" if "a \<in> set (take (Suc ?n) v)" for a
    using that heap_root [OF h] by (auto simp: in_set_conv_nth)
  have "ordered (drop ?n ?r)" using srt le mem(2) by (simp add: r(4) w)
  moreover have "\<forall>a\<in>set (take ?n ?r). \<forall>b\<in>set (drop ?n ?r). \<not> lt b a" using le mem top by (auto simp: r(4) w)
  ultimately show "stage2_inv i ?r" using r(1,2) len by (simp add: stage2_inv_def)
  have "mset ?r = mset (take ?n ?r) + mset (drop ?n ?r)" by (metis append_take_drop_id mset_append)
  also have "\<dots> = mset (take (Suc ?n) v) + mset (drop (Suc ?n) v)" using tk by (simp add: r(4) w)
  also have "\<dots> = mset v" by (metis append_take_drop_id mset_append)
  finally show "mset ?r = mset v" .
qed

lemma stage2_sorted:
  "stage2_inv i v \<Longrightarrow> ordered (fold (\<lambda>i v. sink lt i 0 (swap 0 i v)) (rev [1..<Suc i]) v) \<and>
    mset (fold (\<lambda>i v. sink lt i 0 (swap 0 i v)) (rev [1..<Suc i]) v) = mset v"
proof (induction i arbitrary: v)
  case 0
  then have "v = v ! 0 # drop 1 v" by (cases v) (auto simp: stage2_inv_def)
  moreover have "ordered (v ! 0 # drop 1 v)" using 0 by (cases v) (auto simp: stage2_inv_def)
  ultimately show ?case by simp
next
  case (Suc i)
  then show ?case using Suc.IH [OF stage2_step(1) [OF Suc.prems]] stage2_step(2) [OF Suc.prems] by simp
qed

lemma Sort_ordered: "ordered (Sort lt v)" and Sort_mset: "mset (Sort lt v) = mset v"
proof -
  have "ordered (Sort lt v) \<and> mset (Sort lt v) = mset v"
  proof (cases "length v < 2")
    case True
    then show ?thesis by (cases v) (auto simp: Sort_def)
  next
    case False
    let ?w = "fold (sift_up lt) [1..<length v] v"
    have w: "heap (length v) ?w" "length ?w = length v" "mset ?w = mset v" using stage1_heap [of "length v" v] by simp_all
    have n: "Suc (length v - 1) = length v" using False by simp
    have "stage2_inv (length v - 1) ?w" unfolding stage2_inv_def n using w False by simp
    then show ?thesis using stage2_sorted [of "length v - 1" ?w] w False unfolding n by (simp add: Sort_def Let_def)
  qed
  then show "ordered (Sort lt v)" "mset (Sort lt v) = mset v" by simp_all
qed

section \<open>Removing duplicates\<close>

lemma lt_trans: "lt a b \<Longrightarrow> lt b c \<Longrightarrow> lt a c"
  using asym negtrans by blast

abbreviation equiv :: "'a \<Rightarrow> 'a \<Rightarrow> bool" where
  "equiv a b \<equiv> \<not> lt a b \<and> \<not> lt b a"

lemma equiv_trans: "equiv a b \<Longrightarrow> equiv b c \<Longrightarrow> equiv a c"
  using negtrans by blast

definition dedup_inv :: "'a list \<Rightarrow> nat \<Rightarrow> nat \<Rightarrow> 'a list \<Rightarrow> bool" where
  "dedup_inv u i lst v \<longleftrightarrow> lst < i \<and> i \<le> length u \<and> length v = length u \<and> drop i v = drop i u \<and> sorted_wrt lt (take (Suc lst) v) \<and>
     set (take (Suc lst) v) \<subseteq> set (take i u) \<and> (\<forall>x\<in>set (take i u). \<exists>y\<in>set (take (Suc lst) v). equiv x y)"

lemma dedup_inv_nth: "dedup_inv u i lst v \<Longrightarrow> i < length u \<Longrightarrow> v ! i = u ! i"
  by (metis dedup_inv_def nth_via_drop Cons_nth_drop_Suc)

lemma dedup_inv_last: "dedup_inv u i lst v \<Longrightarrow> v ! lst \<in> set (take (Suc lst) v)"
  by (auto simp: dedup_inv_def in_set_conv_nth)

lemma dedup_keep:
  assumes inv: "dedup_inv u i lst v" and i: "i < length u" and c: "lt (v ! lst) (u ! i)"
  shows "dedup_inv u (Suc i) (Suc lst) (v[Suc lst := u ! i])"
proof -
  have l: "Suc lst < length v" "lst < i" "length v = length u" using inv i by (auto simp: dedup_inv_def)
  have tk: "take (Suc (Suc lst)) (v[Suc lst := u ! i]) = take (Suc lst) v @ [u ! i]"
    using l by (simp add: take_Suc_conv_app_nth)
  have srt: "sorted_wrt lt (take (Suc lst) v)" using inv by (simp add: dedup_inv_def)
  have "lt y (u ! i)" if y: "y \<in> set (take (Suc lst) v)" for y
  proof -
    obtain k where k: "k \<le> lst" "y = v ! k" using y l by (auto simp: in_set_conv_nth less_Suc_eq_le)
    show ?thesis
    proof (cases "k = lst")
      case False
      then have "lt (take (Suc lst) v ! k) (take (Suc lst) v ! lst)" using sorted_wrt_nth_less [OF srt] k l by simp
      then show ?thesis using lt_trans c k l False by fastforce
    qed (use c k in simp)
  qed
  then have "sorted_wrt lt (take (Suc (Suc lst)) (v[Suc lst := u ! i]))" using srt by (simp add: tk sorted_wrt_append)
  moreover have "drop (Suc i) (v[Suc lst := u ! i]) = drop (Suc i) u"
    using inv l(2) by (metis dedup_inv_def drop_Suc tl_drop drop_update_cancel Suc_less_SucD Suc_mono)
  moreover have "take (Suc i) u = take i u @ [u ! i]" using i by (simp add: take_Suc_conv_app_nth)
  ultimately show ?thesis using inv i irrefl unfolding dedup_inv_def tk by auto
qed

lemma dedup_skip:
  assumes inv: "dedup_inv u i lst v" and i: "i < length u" and c: "equiv (v ! lst) (u ! i)"
  shows "dedup_inv u (Suc i) lst v"
proof -
  have "drop (Suc i) v = drop (Suc i) u" using inv by (metis dedup_inv_def drop_Suc tl_drop)
  moreover have "take (Suc i) u = take i u @ [u ! i]" using i by (simp add: take_Suc_conv_app_nth)
  ultimately show ?thesis using inv i c dedup_inv_last [OF inv] unfolding dedup_inv_def by auto
qed

lemma dedup_loop_run:
  "ordered u \<Longrightarrow> dedup_inv u i lst v \<Longrightarrow>
    \<exists>lst' v'. dedup_loop lt [i..<length u] lst v = Some (lst', v') \<and> dedup_inv u (length u) lst' v'"
proof (induction "length u - i" arbitrary: i lst v)
  case 0
  then show ?case by (auto simp: dedup_inv_def)
next
  case (Suc n)
  then have i: "i < length u" and n: "n = length u - Suc i" by simp_all
  have eq: "[i..<length u] = i # [Suc i..<length u]" using i by (simp add: upt_conv_Cons)
  have vi: "v ! i = u ! i" by (rule dedup_inv_nth [OF Suc.prems(2) i])
  have "v ! lst \<in> set (take i u)" using dedup_inv_last [OF Suc.prems(2)] Suc.prems(2) by (auto simp: dedup_inv_def)
  then obtain k where "k < i" "v ! lst = u ! k" using i by (auto simp: in_set_conv_nth)
  then have ord: "\<not> lt (u ! i) (v ! lst)" using sorted_wrt_nth_less [OF Suc.prems(1), of k i] i by simp
  show ?case
  proof (cases "lt (v ! lst) (u ! i)")
    case True
    have "(if Suc lst \<noteq> i then v[Suc lst := u ! i] else v) = v[Suc lst := u ! i]" using list_update_id [of v i] vi by auto
    then have "dedup_loop lt [i..<length u] lst v = dedup_loop lt [Suc i..<length u] (Suc lst) (v[Suc lst := u ! i])"
      using True by (simp only: eq dedup_loop.simps vi if_True Let_def Suc_eq_plus1 [symmetric])
    then show ?thesis using Suc.hyps(1) [OF n Suc.prems(1) dedup_keep [OF Suc.prems(2) i True]] by simp
  next
    case False
    then show ?thesis using Suc.hyps(1) [OF n Suc.prems(1) dedup_skip [OF Suc.prems(2) i]] ord by (simp add: eq vi)
  qed
qed

lemma SortAndDedup_run:
  "\<exists>w. SortAndDedup lt v = Some w \<and> sorted_wrt lt w \<and> set w \<subseteq> set v \<and> (\<forall>x\<in>set v. \<exists>y\<in>set w. equiv x y)"
proof -
  let ?u = "Sort lt v"
  have st: "set ?u = set v" using Sort_mset by (metis set_mset_mset)
  show ?thesis
  proof (cases "length ?u < 2")
    case True
    then have "sorted_wrt lt ?u" by (cases ?u) auto
    then show ?thesis using True st irrefl by (auto simp: SortAndDedup_def)
  next
    case False
    then have "dedup_inv ?u 1 0 ?u" by (cases ?u) (auto simp: dedup_inv_def irrefl)
    then obtain lst w where run: "dedup_loop lt [1..<length ?u] 0 ?u = Some (lst, w)" "dedup_inv ?u (length ?u) lst w"
      using dedup_loop_run [OF Sort_ordered] by blast
    then show ?thesis using False st by (auto simp: SortAndDedup_def dedup_inv_def Let_def)
  qed
qed

end

section \<open>Binary search\<close>

lemma lower_bound_loop_spec:
  assumes "\<And>i j. i < j \<Longrightarrow> j < length v \<Longrightarrow> cmp (v ! j) val \<Longrightarrow> cmp (v ! i) val"
  shows "lo \<le> hi \<Longrightarrow> hi \<le> length v \<Longrightarrow> (\<forall>i<lo. cmp (v ! i) val) \<Longrightarrow> (\<forall>i. hi \<le> i \<and> i < length v \<longrightarrow> \<not> cmp (v ! i) val) \<Longrightarrow>
    lower_bound_loop cmp v val lo hi \<le> length v \<and> (\<forall>i<length v. cmp (v ! i) val \<longleftrightarrow> i < lower_bound_loop cmp v val lo hi)"
proof (induction "hi - lo" arbitrary: lo hi rule: less_induct)
  case less
  show ?case
  proof (cases "lo < hi")
    case True
    let ?mid = "(lo + hi) div 2"
    have mid: "lo \<le> ?mid" "?mid < hi" using True by auto
    show ?thesis
    proof (cases "cmp (v ! ?mid) val")
      case c: True
      have eq: "lower_bound_loop cmp v val lo hi = lower_bound_loop cmp v val (?mid + 1) hi"
        using True c by (subst lower_bound_loop.simps) (simp add: Let_def)
      have part: "\<forall>i<?mid + 1. cmp (v ! i) val"
        using c assms mid less.prems(2) by (auto simp: less_Suc_eq)
      show ?thesis unfolding eq by (rule less.hyps [OF _ _ less.prems(2) part less.prems(4)]) (use mid in simp_all)
    next
      case c: False
      have eq: "lower_bound_loop cmp v val lo hi = lower_bound_loop cmp v val lo ?mid"
        using True c by (subst lower_bound_loop.simps) (simp add: Let_def)
      have part: "\<forall>i. ?mid \<le> i \<and> i < length v \<longrightarrow> \<not> cmp (v ! i) val" using c assms by (auto simp: order_le_less)
      show ?thesis unfolding eq by (rule less.hyps [OF _ mid(1) _ less.prems(3) part]) (use mid less.prems(2) in simp_all)
    qed
  next
    case False
    then have "lower_bound_loop cmp v val lo hi = lo" by (subst lower_bound_loop.simps) simp
    then show ?thesis using False less.prems by (auto simp: not_less)
  qed
qed

section \<open>The default comparator\<close>

definition CompareLess :: "'a::linorder \<Rightarrow> 'a \<Rightarrow> bool" where
  "CompareLess a b \<longleftrightarrow> a < b"

interpretation compare_less: weak_order "CompareLess :: 'a::linorder \<Rightarrow> 'a \<Rightarrow> bool"
  by unfold_locales (auto simp: CompareLess_def)

text \<open>
  C27: The heap sort sorts: for every strict weak order the result is a permutation of the input in
  which no element precedes a smaller one.
\<close>

theorem Sort_correct:
  assumes "\<And>a b. cmp a b \<Longrightarrow> \<not> cmp b a" and "\<And>a b c. \<not> cmp a b \<Longrightarrow> \<not> cmp b c \<Longrightarrow> \<not> cmp a c"
  shows "mset (Sort cmp v) = mset v \<and> sorted_wrt (\<lambda>a b. \<not> cmp b a) (Sort cmp v)"
proof -
  have "weak_order cmp" by (rule weak_order.intro) (fact assms)+
  then show ?thesis using weak_order.Sort_ordered weak_order.Sort_mset by blast
qed

lemma Sort_correct_witness: "sorted_wrt (\<lambda>a b. \<not> CompareLess b a) (Sort CompareLess [3, 1, 2, 1 :: nat])"
  using Sort_correct [of CompareLess "[3, 1, 2, 1 :: nat]"] by (auto simp: CompareLess_def)

text \<open>
  \<^verbatim>\<open>SortAndDedup\<close> never fails its check, and its result is strictly increasing, holds only
  elements of the input, and one equivalent to each of them.
\<close>

theorem SortAndDedup_correct:
  assumes "\<And>a b. cmp a b \<Longrightarrow> \<not> cmp b a" and "\<And>a b c. \<not> cmp a b \<Longrightarrow> \<not> cmp b c \<Longrightarrow> \<not> cmp a c"
  shows "\<exists>w. SortAndDedup cmp v = Some w \<and> sorted_wrt cmp w \<and> set w \<subseteq> set v \<and> (\<forall>x\<in>set v. \<exists>y\<in>set w. \<not> cmp x y \<and> \<not> cmp y x)"
proof -
  have "weak_order cmp" by (rule weak_order.intro) (fact assms)+
  then show ?thesis by (rule weak_order.SortAndDedup_run)
qed

lemma SortAndDedup_correct_witness:
  "\<exists>w. SortAndDedup CompareLess [3, 1, 2, 1 :: nat] = Some w \<and> sorted_wrt (<) w \<and> set w = {1, 2, 3}"
proof -
  obtain w where w: "SortAndDedup CompareLess [3, 1, 2, 1 :: nat] = Some w" "sorted_wrt CompareLess w" "set w \<subseteq> {3, 1, 2}"
      "\<forall>x\<in>{3, 1, 2}. \<exists>y\<in>set w. \<not> CompareLess x y \<and> \<not> CompareLess y x"
    using SortAndDedup_correct [of CompareLess "[3, 1, 2, 1 :: nat]"] by (auto simp: CompareLess_def)
  have "x \<in> set w" if "x \<in> {3, 1, 2}" for x
    using bspec [OF w(4) that] by (auto simp: CompareLess_def)
  then show ?thesis using w(1-3) by (auto simp: CompareLess_def [abs_def])
qed

text \<open>
  \<^verbatim>\<open>InternalLowerBound\<close> finds the partition point of a sorted container: the elements before the
  returned index, and only they, are less than the value.
\<close>

theorem InternalLowerBound_correct:
  assumes "\<And>i j. i < j \<Longrightarrow> j < length v \<Longrightarrow> cmp (v ! j) val \<Longrightarrow> cmp (v ! i) val"
  shows "InternalLowerBound cmp v val \<le> length v \<and> (\<forall>i<length v. cmp (v ! i) val \<longleftrightarrow> i < InternalLowerBound cmp v val)"
  unfolding InternalLowerBound_def by (rule lower_bound_loop_spec) (use assms in auto)

lemma InternalLowerBound_correct_witness: "InternalLowerBound CompareLess [1, 4, 4 :: nat] 4 = 1"
proof -
  have "InternalLowerBound CompareLess [1, 4, 4 :: nat] 4 \<le> length [1, 4, 4 :: nat] \<and>
      (\<forall>i<length [1, 4, 4 :: nat]. CompareLess ([1, 4, 4 :: nat] ! i) 4 \<longleftrightarrow> i < InternalLowerBound CompareLess [1, 4, 4 :: nat] 4)"
  proof (rule InternalLowerBound_correct)
    fix i j assume "i < j" "j < length [1, 4, 4 :: nat]" "CompareLess ([1, 4, 4 :: nat] ! j) 4"
    then show "CompareLess ([1, 4, 4 :: nat] ! i) 4" by (auto simp: CompareLess_def less_Suc_eq nth_Cons')
  qed
  then show ?thesis by (auto simp: CompareLess_def less_Suc_eq all_conj_distrib)
qed

end
