(* ===== verification/San_Range.thy ===== *)
theory San_Range
  imports San_Sort
begin

text \<open>
  \<^verbatim>\<open>sanitizer_range.cpp\<close>: the intersection of two lists of address ranges by a sweep over the sorted
  end points. Addresses are only compared, so a \<^verbatim>\<open>uptr\<close> is a natural number here.
\<close>

section \<open>The code\<close>

record Range =
  rbegin :: nat
  rend :: nat

record Event =
  val :: nat
  diff1 :: int
  diff2 :: int

definition range_events :: "int \<Rightarrow> int \<Rightarrow> Range list \<Rightarrow> Event list" where
  "range_events d1 d2 rs = concat (map (\<lambda>r. [\<lparr>val = rbegin r, diff1 = d1, diff2 = d2\<rparr>, \<lparr>val = rend r, diff1 = - d1, diff2 = - d2\<rparr>]) rs)"

definition event_less :: "Event \<Rightarrow> Event \<Rightarrow> bool" where
  "event_less lh rh \<longleftrightarrow> val lh < val rh"

record Sweep =
  start :: nat
  state1 :: int
  state2 :: int
  routput :: "Range list"

definition emit_range :: "nat \<Rightarrow> Sweep \<Rightarrow> Range list" where
  "emit_range v s =
     (if state1 s \<noteq> 0 \<and> state2 s \<noteq> 0 then
        if routput s \<noteq> [] \<and> start s = rend (last (routput s))
        then butlast (routput s) @ [(last (routput s))\<lparr>rend := v\<rparr>]
        else routput s @ [\<lparr>rbegin = start s, rend = v\<rparr>]
      else routput s)"

definition sweep_event :: "Event \<Rightarrow> Sweep \<Rightarrow> Sweep" where
  "sweep_event e s =
     (let s = (if val e \<noteq> start s then s\<lparr>routput := emit_range (val e) s, start := val e\<rparr> else s)
      in s\<lparr>state1 := state1 s + diff1 e, state2 := state2 s + diff2 e\<rparr>)"

definition Intersect :: "Range list \<Rightarrow> Range list \<Rightarrow> Range list option" where
  "Intersect a b = do {
     CHECK (list_all (\<lambda>r. rbegin r \<le> rend r) a);
     CHECK (list_all (\<lambda>r. rbegin r \<le> rend r) b);
     let events = Sort event_less (range_events 1 0 a @ range_events 0 1 b);
     Some (routput (fold sweep_event events \<lparr>start = 0, state1 = 0, state2 = 0, routput = []\<rparr>))
   }"

section \<open>Coverage by counting events\<close>

interpretation event_order: weak_order event_less
  by unfold_locales (auto simp: event_less_def)

definition in_range :: "nat \<Rightarrow> Range \<Rightarrow> bool" where
  "in_range x r \<longleftrightarrow> rbegin r \<le> x \<and> x < rend r"

definition covers :: "Range list \<Rightarrow> nat \<Rightarrow> bool" where
  "covers rs x \<longleftrightarrow> (\<exists>r\<in>set rs. in_range x r)"

definition depth :: "(Event \<Rightarrow> int) \<Rightarrow> Event list \<Rightarrow> nat \<Rightarrow> int" where
  "depth d es x = (\<Sum>e\<leftarrow>filter (\<lambda>e. val e \<le> x) es. d e)"

lemma depth_append: "depth d (es @ fs) x = depth d es x + depth d fs x"
  by (simp add: depth_def)

lemma depth_mset: "mset es = mset fs \<Longrightarrow> depth d es x = depth d fs x"
proof -
  have "depth d es x = sum_mset (image_mset d (filter_mset (\<lambda>e. val e \<le> x) (mset es)))" for es
    by (simp add: depth_def flip: sum_mset_sum_list)
  then show "mset es = mset fs \<Longrightarrow> ?thesis" by simp
qed

lemma depth_all: "\<forall>e\<in>set es. val e \<le> x \<Longrightarrow> depth d es x = (\<Sum>e\<leftarrow>es. d e)"
  unfolding depth_def by (induction es) auto

lemma depth_none: "\<forall>e\<in>set es. x < val e \<Longrightarrow> depth d es x = 0"
  unfolding depth_def by (induction es) auto

lemma depth_range_events:
  assumes "list_all (\<lambda>r. rbegin r \<le> rend r) rs"
  shows "depth diff1 (range_events d1 d2 rs) x = d1 * int (length (filter (in_range x) rs))"
    and "depth diff2 (range_events d1 d2 rs) x = d2 * int (length (filter (in_range x) rs))"
  using assms by (induction rs) (auto simp: range_events_def depth_def in_range_def algebra_simps)

lemma covers_iff_length: "covers rs x \<longleftrightarrow> length (filter (in_range x) rs) \<noteq> 0"
  by (auto simp: covers_def filter_empty_conv)

section \<open>The sweep\<close>

definition sweep_inv :: "Event list \<Rightarrow> Event list \<Rightarrow> Sweep \<Rightarrow> bool" where
  "sweep_inv es ps s \<longleftrightarrow> (\<forall>e\<in>set ps. val e \<le> start s) \<and> (ps = [] \<longrightarrow> start s = 0) \<and> (ps \<noteq> [] \<longrightarrow> start s = val (last ps)) \<and>
     state1 s = (\<Sum>e\<leftarrow>ps. diff1 e) \<and> state2 s = (\<Sum>e\<leftarrow>ps. diff2 e) \<and>
     sorted_wrt (\<lambda>r t. rend r < rbegin t) (routput s) \<and> (\<forall>r\<in>set (routput s). rbegin r < rend r \<and> rend r \<le> start s) \<and>
     (\<forall>x. covers (routput s) x \<longleftrightarrow> x < start s \<and> depth diff1 es x \<noteq> 0 \<and> depth diff2 es x \<noteq> 0)"

lemma emit_range_ok:
  assumes srt: "sorted_wrt (\<lambda>r t. rend r < rbegin t) (routput s)" and ne: "\<forall>r\<in>set (routput s). rbegin r < rend r \<and> rend r \<le> start s"
    and v: "start s < v"
  shows "sorted_wrt (\<lambda>r t. rend r < rbegin t) (emit_range v s)" "\<forall>r\<in>set (emit_range v s). rbegin r < rend r \<and> rend r \<le> v"
    "covers (emit_range v s) x \<longleftrightarrow> covers (routput s) x \<or> (state1 s \<noteq> 0 \<and> state2 s \<noteq> 0 \<and> start s \<le> x \<and> x < v)"
proof -
  have "sorted_wrt (\<lambda>r t. rend r < rbegin t) (emit_range v s) \<and> (\<forall>r\<in>set (emit_range v s). rbegin r < rend r \<and> rend r \<le> v) \<and>
    (covers (emit_range v s) x \<longleftrightarrow> covers (routput s) x \<or> (state1 s \<noteq> 0 \<and> state2 s \<noteq> 0 \<and> start s \<le> x \<and> x < v))"
  proof (cases "state1 s \<noteq> 0 \<and> state2 s \<noteq> 0")
    case False
    then show ?thesis using assms by (auto simp: emit_range_def)
  next
    case st: True
    show ?thesis
    proof (cases "routput s \<noteq> [] \<and> start s = rend (last (routput s))")
      case True
      then obtain out r where out: "routput s = out @ [r]" "start s = rend r" by (metis append_butlast_last_id)
      then show ?thesis using assms st by (auto simp: emit_range_def sorted_wrt_append covers_def in_range_def)
    next
      case False
      have lt: "rend r < start s" if "r \<in> set (routput s)" for r
      proof -
        have out: "routput s = butlast (routput s) @ [last (routput s)]" using that by (cases "routput s" rule: rev_cases) auto
        have last: "rend (last (routput s)) < start s" "rbegin (last (routput s)) < rend (last (routput s))"
          using ne that False bspec [OF ne, of "last (routput s)"] by (fastforce intro: last_in_set)+
        have "r = last (routput s) \<or> r \<in> set (butlast (routput s))" using that out by (metis UnE set_append set_ConsD empty_iff list.set(1))
        moreover have "rend r < rbegin (last (routput s))" if "r \<in> set (butlast (routput s))"
          using srt that by (subst (asm) out) (simp add: sorted_wrt_append)
        ultimately show ?thesis using last by fastforce
      qed
      have "emit_range v s = routput s @ [\<lparr>rbegin = start s, rend = v\<rparr>]" using st False by (auto simp: emit_range_def)
      then show ?thesis using st v srt ne lt by (auto simp: sorted_wrt_append covers_def in_range_def)
    qed
  qed
  then show "sorted_wrt (\<lambda>r t. rend r < rbegin t) (emit_range v s)" "\<forall>r\<in>set (emit_range v s). rbegin r < rend r \<and> rend r \<le> v"
    "covers (emit_range v s) x \<longleftrightarrow> covers (routput s) x \<or> (state1 s \<noteq> 0 \<and> state2 s \<noteq> 0 \<and> start s \<le> x \<and> x < v)" by blast+
qed

lemma sweep_event_inv:
  assumes inv: "sweep_inv es ps s" and es: "es = ps @ e # qs" and srt: "sorted_wrt (\<lambda>a b. \<not> event_less b a) es"
  shows "sweep_inv es (ps @ [e]) (sweep_event e s)"
proof -
  have le: "start s \<le> val e"
    using inv srt es by (cases ps rule: rev_cases) (auto simp: sweep_inv_def sorted_wrt_append event_less_def)
  have later: "\<forall>f\<in>set (e # qs). val e \<le> val f" using srt es by (auto simp: sorted_wrt_append event_less_def not_less)
  show ?thesis
  proof (cases "val e = start s")
    case True
    then show ?thesis using inv by (auto simp: sweep_inv_def sweep_event_def)
  next
    case False
    then have v: "start s < val e" using le by simp
    have flat: "depth d es x = (\<Sum>e\<leftarrow>ps. d e)" if "start s \<le> x" "x < val e" for x d
    proof -
      have "depth d ps x = (\<Sum>e\<leftarrow>ps. d e)" using inv that by (intro depth_all) (auto simp: sweep_inv_def)
      moreover have "depth d (e # qs) x = 0" using later that by (intro depth_none) auto
      ultimately show ?thesis by (simp add: es depth_append)
    qed
    have o: "sorted_wrt (\<lambda>r t. rend r < rbegin t) (routput s)" "\<forall>r\<in>set (routput s). rbegin r < rend r \<and> rend r \<le> start s"
      "covers (routput s) x \<longleftrightarrow> x < start s \<and> depth diff1 es x \<noteq> 0 \<and> depth diff2 es x \<noteq> 0"
      "state1 s = (\<Sum>e\<leftarrow>ps. diff1 e)" "state2 s = (\<Sum>e\<leftarrow>ps. diff2 e)" for x
      using inv by (simp_all add: sweep_inv_def)
    note E = emit_range_ok [OF o(1,2) v]
    have "covers (emit_range (val e) s) x \<longleftrightarrow> x < val e \<and> depth diff1 es x \<noteq> 0 \<and> depth diff2 es x \<noteq> 0" for x
      using E(3) [of x] o(3) [of x] flat [of x] o(4,5) v by (cases "start s \<le> x") auto
    then show ?thesis using False E(1,2) inv le by (auto simp: sweep_inv_def sweep_event_def Let_def)
  qed
qed

lemma sweep_fold_inv:
  "sweep_inv es ps s \<Longrightarrow> es = ps @ qs \<Longrightarrow> sorted_wrt (\<lambda>a b. \<not> event_less b a) es \<Longrightarrow> sweep_inv es es (fold sweep_event qs s)"
proof (induction qs arbitrary: ps s)
  case (Cons e qs)
  have "sweep_inv es (ps @ [e]) (sweep_event e s)" by (rule sweep_event_inv [OF Cons.prems])
  then show ?case using Cons.IH [of "ps @ [e]"] Cons.prems(2,3) by simp
qed simp

text \<open>
  C25: \<^verbatim>\<open>Intersect\<close> computes the intersection: an address is in the output exactly if it is in some
  range of either input, whatever overlaps, repetitions and empty ranges the inputs have; and the
  output is canonical, its ranges non-empty, in order, and neither overlapping nor touching.
\<close>

theorem Intersect_correct:
  assumes "list_all (\<lambda>r. rbegin r \<le> rend r) a" and "list_all (\<lambda>r. rbegin r \<le> rend r) b"
  shows "\<exists>out. Intersect a b = Some out \<and> (\<forall>x. covers out x \<longleftrightarrow> covers a x \<and> covers b x) \<and>
    sorted_wrt (\<lambda>r t. rend r < rbegin t) out \<and> (\<forall>r\<in>set out. rbegin r < rend r)"
proof -
  let ?ev = "range_events 1 0 a @ range_events 0 1 b"
  let ?es = "Sort event_less ?ev" and ?s0 = "\<lparr>start = 0, state1 = 0, state2 = 0, routput = []\<rparr>"
  have "sweep_inv ?es [] ?s0" by (simp add: sweep_inv_def covers_def)
  then have inv: "sweep_inv ?es ?es (fold sweep_event ?es ?s0)"
    by (rule sweep_fold_inv) (simp_all add: event_order.Sort_ordered)
  let ?s = "fold sweep_event ?es ?s0"
  have m: "mset ?es = mset ?ev" by (rule event_order.Sort_mset)
  have d: "depth diff1 ?es x = int (length (filter (in_range x) a))" "depth diff2 ?es x = int (length (filter (in_range x) b))" for x
    using depth_mset [OF m] depth_range_events assms by (simp_all add: depth_append)
  have bound: "x < start ?s" if "covers a x" for x
  proof -
    obtain r where r: "r \<in> set a" "x < rend r" using \<open>covers a x\<close> by (auto simp: covers_def in_range_def)
    then have "\<exists>e\<in>set ?ev. val e = rend r" by (intro bexI [of _ "\<lparr>val = rend r, diff1 = - 1, diff2 = 0\<rparr>"]) (auto simp: range_events_def)
    moreover have "set ?es = set ?ev" using m by (metis set_mset_mset)
    moreover have "\<forall>e\<in>set ?es. val e \<le> start ?s" using inv by (simp add: sweep_inv_def)
    ultimately have "rend r \<le> start ?s" by metis
    then show ?thesis using r by simp
  qed
  have "covers (routput ?s) x \<longleftrightarrow> covers a x \<and> covers b x" for x
    using inv bound [of x] d [of x] covers_iff_length by (auto simp: sweep_inv_def)
  then show ?thesis using inv assms by (auto simp: Intersect_def sweep_inv_def)
qed

lemma Intersect_correct_witness:
  "\<exists>out. Intersect [\<lparr>rbegin = 1, rend = 5\<rparr>, \<lparr>rbegin = 4, rend = 9\<rparr>] [\<lparr>rbegin = 3, rend = 3\<rparr>, \<lparr>rbegin = 0, rend = 7\<rparr>] = Some out \<and> covers out 6"
  using Intersect_correct [of "[\<lparr>rbegin = 1, rend = 5\<rparr>, \<lparr>rbegin = 4, rend = 9\<rparr>]" "[\<lparr>rbegin = 3, rend = 3\<rparr>, \<lparr>rbegin = 0, rend = 7\<rparr>]"]
  by (auto simp: covers_def in_range_def)

end
