(* ===== verification/Leb128.thy ===== *)
theory Leb128
  imports San_Prelude
begin

text \<open>
  \<^verbatim>\<open>sanitizer_leb128.h\<close> for 64-bit values. The output range \<^verbatim>\<open>[begin, end)\<close> of an encoder is its
  capacity, and its result the bytes it writes; a decoder reads the bytes of its range and returns
  those it has not consumed, with \<^const>\<open>None\<close> for a value it has not stored because the
  input ended. Shifting by the width or more, which the language leaves undefined, is the outer
  \<^const>\<open>None\<close>.
\<close>

section \<open>The code\<close>

primrec EncodeULEB128 :: "nat \<Rightarrow> u64 \<Rightarrow> u8 list" where
  "EncodeULEB128 0 value = []"
| "EncodeULEB128 (Suc cap) value =
     (let byte = ucast (value AND 0x7f);
          value = drop_bit 7 value;
          byte = (if value \<noteq> 0 then byte OR 0x80 else byte)
      in byte # (if value \<noteq> 0 then EncodeULEB128 cap value else []))"

fun decode_uleb :: "u8 list \<Rightarrow> u64 \<Rightarrow> nat \<Rightarrow> (u8 list \<times> u64 option) option" where
  "decode_uleb [] value shift = Some ([], None)"
| "decode_uleb (byte # bs) value shift = do {
     CHECK (shift < 64);
     let slice = (ucast byte :: u64) AND 0x7f;
     let value = value + push_bit shift slice;
     if 128 \<le> byte then decode_uleb bs value (shift + 7) else Some (bs, Some value)
   }"

definition DecodeULEB128 :: "u8 list \<Rightarrow> (u8 list \<times> u64 option) option" where
  "DecodeULEB128 bs = decode_uleb bs 0 0"

primrec EncodeSLEB128 :: "nat \<Rightarrow> u64 \<Rightarrow> u8 list" where
  "EncodeSLEB128 0 value = []"
| "EncodeSLEB128 (Suc cap) value =
     (let byte = ucast (value AND 0x7f);
          value = signed_drop_bit 7 value;
          more = (\<not> ((value = 0 \<and> (byte AND 0x40) = 0) \<or> (value = -1 \<and> (byte AND 0x40) \<noteq> 0)));
          byte = (if more then byte OR 0x80 else byte)
      in byte # (if more then EncodeSLEB128 cap value else []))"

fun decode_sleb :: "u8 list \<Rightarrow> u64 \<Rightarrow> nat \<Rightarrow> (u8 list \<times> u64 option) option" where
  "decode_sleb [] value shift = Some ([], None)"
| "decode_sleb (byte # bs) value shift = do {
     CHECK (shift < 64);
     let slice = (ucast byte :: u64) AND 0x7f;
     let value = value OR push_bit shift slice;
     let shift = shift + 7;
     if 128 \<le> byte then decode_sleb bs value shift
     else Some (bs, Some (if shift < 64 \<and> (byte AND 0x40) \<noteq> 0 then value OR push_bit shift (-1) else value))
   }"

definition DecodeSLEB128 :: "u8 list \<Rightarrow> (u8 list \<times> u64 option) option" where
  "DecodeSLEB128 bs = decode_sleb bs 0 0"

section \<open>The bytes\<close>

lemma bit_7f_int: "bit (0x7f :: int) n \<longleftrightarrow> n < 7"
proof -
  have "(0x7f :: int) = mask 7" by (simp add: mask_eq_exp_minus_1)
  then show ?thesis by (simp only: bit_mask_iff possible_bit_int) simp
qed

lemma bit_80_int: "bit (0x80 :: int) n \<longleftrightarrow> n = 7"
proof -
  have "(0x80 :: int) = 2 ^ 7" by simp
  then show ?thesis by (simp only: bit_exp_iff possible_bit_int) simp
qed

lemma bit_40_int: "bit (0x40 :: int) n \<longleftrightarrow> n = 6"
proof -
  have "(0x40 :: int) = 2 ^ 6" by simp
  then show ?thesis by (simp only: bit_exp_iff possible_bit_int) simp
qed

lemmas leb_bits = bit_7f_int bit_80_int bit_40_int bit_simps

text \<open>The continuation bit, the sign bit and the payload of an encoded byte.\<close>

lemma byte_ge_128: "128 \<le> b \<longleftrightarrow> bit b 7" for b :: u8
proof -
  have "bit b 7 \<longleftrightarrow> bit (unat b) 7" by (simp add: bit_unsigned_iff)
  also have "\<dots> \<longleftrightarrow> odd (unat b div 128)" by (simp add: bit_iff_odd)
  finally have "bit b 7 \<longleftrightarrow> odd (unat b div 128)" .
  moreover have "unat b < 256" using unsigned_less [of b] by simp
  then have "unat b div 128 = (if 128 \<le> unat b then 1 else 0)" by (auto intro: div_nat_eqI)
  ultimately show ?thesis by (simp add: word_le_nat_alt)
qed

lemma sign_bit: "(b AND 0x40) \<noteq> 0 \<longleftrightarrow> bit b 6" for b :: u8
proof
  assume "bit b 6"
  then have "bit (b AND 0x40) 6" by (simp add: leb_bits)
  then show "(b AND 0x40) \<noteq> 0" by auto
next
  assume "(b AND 0x40) \<noteq> 0"
  then obtain n where "bit (b AND 0x40) n" by (metis bit_eqI bit_0_eq bot_apply bot_bool_def)
  then show "bit b 6" by (auto simp: leb_bits)
qed

lemma more_byte:
  fixes v :: u64
  defines "b \<equiv> ucast (v AND 0x7f) OR (0x80 :: u8)"
  shows "128 \<le> b" "(ucast b :: u64) AND 0x7f = v AND 0x7f"
proof -
  show "128 \<le> b" by (simp add: byte_ge_128 b_def leb_bits)
  show "(ucast b :: u64) AND 0x7f = v AND 0x7f" by (rule bit_word_eqI) (auto simp: b_def leb_bits)
qed

lemma last_byte:
  fixes v :: u64
  defines "b \<equiv> (ucast (v AND 0x7f) :: u8)"
  shows "\<not> 128 \<le> b" "(ucast b :: u64) AND 0x7f = v AND 0x7f" "(b AND 0x40) \<noteq> 0 \<longleftrightarrow> bit v 6"
proof -
  show "\<not> 128 \<le> b" by (simp add: byte_ge_128 b_def leb_bits)
  show "(ucast b :: u64) AND 0x7f = v AND 0x7f" by (rule bit_word_eqI) (auto simp: b_def leb_bits)
  show "(b AND 0x40) \<noteq> 0 \<longleftrightarrow> bit v 6" by (simp add: sign_bit b_def leb_bits)
qed

section \<open>Unsigned values\<close>

lemma split_7: "push_bit s (v AND 0x7f) + push_bit (s + 7) (drop_bit 7 v) = push_bit s v" for v :: u64
proof -
  have "(v AND 0x7f) + push_bit 7 (drop_bit 7 v) = v"
    using bits_ident [of 7 v] by (simp add: take_bit_eq_mask mask_eq_exp_minus_1 add.commute)
  then have "push_bit s (v AND 0x7f) + push_bit s (push_bit 7 (drop_bit 7 v)) = push_bit s v" by (metis push_bit_add)
  then show ?thesis by (simp add: add.commute)
qed

lemma unat_drop_7: "unat (drop_bit 7 v) = unat v div 128" for v :: u64
  unfolding unat_drop_bit_eq by (simp add: drop_bit_eq_div)

lemma uleb_roundtrip:
  assumes "unat v < 2 ^ (7 * k)" "k \<le> cap" "0 < k" "s + 7 * k \<le> 70"
  shows "decode_uleb (EncodeULEB128 cap v @ rest) a s = Some (rest, Some (a + push_bit s v))"
  using assms
proof (induction k arbitrary: cap v a s)
  case (Suc k)
  obtain c where cap: "cap = Suc c" using Suc.prems(2) by (cases cap) auto
  show ?case
  proof (cases "drop_bit 7 v = 0")
    case True
    then have "v AND 0x7f = v" using split_7 [of 0 v] by simp
    then show ?thesis using True last_byte [of v] Suc.prems(4) by (simp add: cap)
  next
    case False
    have v': "unat (drop_bit 7 v) < 2 ^ (7 * k)" using Suc.prems(1) unfolding unat_drop_7 by (simp add: power_add less_mult_imp_div_less)
    then have "0 < k" using False by (cases k) (auto simp: unat_eq_0)
    have "decode_uleb (EncodeULEB128 c (drop_bit 7 v) @ rest) (a + push_bit s (v AND 0x7f)) (s + 7) =
        Some (rest, Some (a + push_bit s (v AND 0x7f) + push_bit (s + 7) (drop_bit 7 v)))"
      by (rule Suc.IH) (use v' Suc.prems \<open>0 < k\<close> cap in auto)
    then show ?thesis using False more_byte [of v] Suc.prems(4) split_7 [of s v] by (simp add: cap Let_def add.assoc)
  qed
qed simp

text \<open>
  Unsigned LEB128 round trip: a 64-bit value encoded into a buffer of ten bytes or more decodes
  to itself, and the decoder stops exactly behind the encoding, whatever follows it.
\<close>

theorem ULEB128_roundtrip:
  assumes "10 \<le> cap"
  shows "DecodeULEB128 (EncodeULEB128 cap v @ rest) = Some (rest, Some v)"
proof -
  have "unat v < 2 ^ (7 * 10)" using uptr_bound [of v] by simp
  then show ?thesis using uleb_roundtrip [of v 10 cap 0 rest 0] assms by (simp add: DecodeULEB128_def)
qed

lemma ULEB128_roundtrip_witness: "DecodeULEB128 (EncodeULEB128 10 300 @ [7]) = Some ([7], Some 300)"
  using ULEB128_roundtrip [of 10 300 "[7]"] by simp

section \<open>Signed values\<close>

lemma sint_sdrop_7: "sint (signed_drop_bit 7 v) = sint v div 128" for v :: u64
  by (simp add: sint_signed_drop_bit_eq drop_bit_eq_div)

lemma bit6_sint: "bit v 6 \<longleftrightarrow> odd (sint v div 64)" for v :: u64
proof -
  have "bit v 6 \<longleftrightarrow> bit (sint v) 6" by (simp add: bit_sint_iff)
  also have "\<dots> \<longleftrightarrow> odd (sint v div 64)" by (simp add: bit_iff_odd)
  finally show ?thesis .
qed

text \<open>The condition on which the encoder stops: the rest of the value is the sign of this byte.\<close>

lemma small_stops: "-64 \<le> sint v \<Longrightarrow> sint v < 64 \<Longrightarrow> signed_drop_bit 7 v = (if bit v 6 then -1 else 0)" for v :: u64
proof -
  assume "-64 \<le> sint v" "sint v < 64"
  then have d: "sint v div 128 = (if sint v < 0 then -1 else 0)" "sint v div 64 = (if sint v < 0 then -1 else 0)"
    by (auto simp: div_eq_minus1 div_pos_pos_trivial)
  then show ?thesis using sint_sdrop_7 [of v] bit6_sint [of v] by (auto intro!: signed_word_eqI)
qed

lemma stop_bits:
  fixes v :: u64
  assumes "signed_drop_bit 7 v = (if bit v 6 then -1 else 0)" "6 \<le> m" "m < 64"
  shows "bit v m \<longleftrightarrow> bit v 6"
proof (cases "m = 6")
  case False
  then have "bit (signed_drop_bit 7 v) (m - 7) \<longleftrightarrow> bit v m" using assms(2,3) by (auto simp: bit_signed_drop_bit_iff)
  then show ?thesis using assms by (cases "bit v 6") auto
qed simp

lemma last_slice:
  fixes v :: u64
  assumes "signed_drop_bit 7 v = (if bit v 6 then -1 else 0)"
  shows "(if s + 7 < 64 \<and> bit v 6 then (a OR push_bit s (v AND 0x7f)) OR push_bit (s + 7) (-1) else a OR push_bit s (v AND 0x7f)) = a OR push_bit s v"
proof -
  have hi: "bit v (n - s) \<longleftrightarrow> bit v 6" if "s + 7 \<le> n" "n < 64" for n using stop_bits [OF assms, of "n - s"] that by auto
  show ?thesis
  proof (rule bit_word_eqI)
    fix n assume n: "n < LENGTH(64)"
    show "bit (if s + 7 < 64 \<and> bit v 6 then (a OR push_bit s (v AND 0x7f)) OR push_bit (s + 7) (-1) else a OR push_bit s (v AND 0x7f)) n =
        bit (a OR push_bit s v) n"
    proof (cases "s + 7 \<le> n")
      case True
      then show ?thesis using n hi [of n] by (auto simp: leb_bits)
    next
      case False
      then show ?thesis using n by (auto simp: leb_bits)
    qed
  qed
qed

lemma more_slice: "(a OR push_bit s (v AND 0x7f)) OR push_bit (s + 7) (signed_drop_bit 7 v) = a OR push_bit s v" for v :: u64
proof (rule bit_word_eqI)
  fix n assume n: "n < LENGTH(64)"
  show "bit ((a OR push_bit s (v AND 0x7f)) OR push_bit (s + 7) (signed_drop_bit 7 v)) n = bit (a OR push_bit s v) n"
  proof (cases "s + 7 \<le> n")
    case True
    then have "7 + (n - (s + 7)) = n - s" by simp
    then show ?thesis using True n by (auto simp: leb_bits)
  next
    case False
    then show ?thesis using n by (auto simp: leb_bits)
  qed
qed

lemma sleb_more_iff: "(\<not> ((signed_drop_bit 7 v = 0 \<and> (ucast (v AND 0x7f) AND (0x40 :: u8)) = 0) \<or>
    (signed_drop_bit 7 v = -1 \<and> (ucast (v AND 0x7f) AND (0x40 :: u8)) \<noteq> 0))) \<longleftrightarrow> signed_drop_bit 7 v \<noteq> (if bit v 6 then -1 else 0)" for v :: u64
  using last_byte(3) [of v] by auto

lemma sleb_roundtrip:
  assumes "- (2 ^ (7 * k - 1)) \<le> sint v" "sint v < 2 ^ (7 * k - 1)" "k \<le> cap" "0 < k" "s + 7 * k \<le> 70"
  shows "decode_sleb (EncodeSLEB128 cap v @ rest) a s = Some (rest, Some (a OR push_bit s v))"
  using assms
proof (induction k arbitrary: cap v a s)
  case (Suc k)
  obtain c where cap: "cap = Suc c" using Suc.prems(3) by (cases cap) auto
  show ?case
  proof (cases "signed_drop_bit 7 v = (if bit v 6 then -1 else 0)")
    case True
    then have "EncodeSLEB128 cap v = [ucast (v AND 0x7f)]" using sleb_more_iff [of v] unfolding cap EncodeSLEB128.simps Let_def by simp
    then have "decode_sleb (EncodeSLEB128 cap v @ rest) a s = Some (rest, Some (if s + 7 < 64 \<and> bit v 6
        then (a OR push_bit s (v AND 0x7f)) OR push_bit (s + 7) (-1) else a OR push_bit s (v AND 0x7f)))"
      using last_byte [of v] Suc.prems(5) by (simp add: Let_def)
    then show ?thesis unfolding last_slice [OF True, of s a] .
  next
    case False
    then have enc: "EncodeSLEB128 cap v = (ucast (v AND 0x7f) OR 0x80) # EncodeSLEB128 c (signed_drop_bit 7 v)"
      using sleb_more_iff [of v] unfolding cap EncodeSLEB128.simps Let_def by simp
    have k: "0 < k"
    proof (rule ccontr)
      assume "\<not> 0 < k"
      then show False using Suc.prems(1,2) small_stops [of v] False by simp
    qed
    have "7 * Suc k - 1 = 7 + (7 * k - 1)" using k by simp
    then have pw: "(2::int) ^ (7 * Suc k - 1) = 128 * 2 ^ (7 * k - 1)" by (simp only: power_add) simp
    have "decode_sleb (EncodeSLEB128 c (signed_drop_bit 7 v) @ rest) (a OR push_bit s (v AND 0x7f)) (s + 7) =
        Some (rest, Some ((a OR push_bit s (v AND 0x7f)) OR push_bit (s + 7) (signed_drop_bit 7 v)))"
    proof (rule Suc.IH)
      show "- (2 ^ (7 * k - 1)) \<le> sint (signed_drop_bit 7 v)" "sint (signed_drop_bit 7 v) < 2 ^ (7 * k - 1)"
        using Suc.prems(1,2) unfolding sint_sdrop_7 pw by auto
    qed (use Suc.prems k cap in auto)
    then show ?thesis using more_byte [of v] more_slice [of a s v] Suc.prems(5) by (simp add: enc)
  qed
qed simp

lemma sleb_full:
  assumes "10 \<le> cap"
  shows "DecodeSLEB128 (EncodeSLEB128 cap v @ rest) = Some (rest, Some v)"
proof -
  have "- (2 ^ (7 * 10 - 1)) \<le> sint v" "sint v < 2 ^ (7 * 10 - 1)" using sint_greater_eq [of v] sint_less [of v] by simp_all
  then show ?thesis using sleb_roundtrip [of 10 v cap 0 rest 0] assms by (simp add: DecodeSLEB128_def)
qed

text \<open>
  Signed LEB128 round trip: every 64-bit value, negative ones and the two extremes included,
  encoded into ten bytes or more, decodes to itself, and the decoder stops behind the encoding.
\<close>

theorem SLEB128_roundtrip:
  assumes "10 \<le> cap"
  shows "DecodeSLEB128 (EncodeSLEB128 cap v @ rest) = Some (rest, Some v)"
  by (rule sleb_full [OF assms])

lemma SLEB128_roundtrip_witness: "DecodeSLEB128 (EncodeSLEB128 10 (-300) @ [7]) = Some ([7], Some (-300))"
  using SLEB128_roundtrip [of 10 "-300" "[7]"] by simp

end
