(* ===== verification/Lzw.thy ===== *)
theory Lzw
  imports San_Sort
begin

text \<open>
  \<^verbatim>\<open>sanitizer_lzw.h\<close>, the compression of stack traces, for items of type \<^verbatim>\<open>uptr\<close> (which are only
  compared and copied, so natural numbers here). The sequence written through the output iterator
  is a list. The \<^verbatim>\<open>DenseMap\<close> from a prefix code and a next item to a code is a map with its size; the
  prefix \<^verbatim>\<open>kNoPrefix\<close> is \<^const>\<open>None\<close>. The decoder's result is \<^const>\<open>None\<close> when it reads beyond its
  input, its output or its dictionary.
\<close>

section \<open>The code\<close>

record LzwDict =
  p2c :: "nat option \<times> nat \<rightharpoonup> nat"
  p2c_size :: nat

definition try_emplace :: "nat option \<times> nat \<Rightarrow> nat \<Rightarrow> LzwDict \<Rightarrow> bool \<times> nat \<times> LzwDict" where
  "try_emplace k c m =
     (case p2c m k of Some c' \<Rightarrow> (False, c', m)
      | None \<Rightarrow> (True, c, m\<lparr>p2c := (p2c m)(k \<mapsto> c), p2c_size := p2c_size m + 1\<rparr>))"

fun lzw_collect :: "nat list \<Rightarrow> LzwDict \<Rightarrow> nat list \<Rightarrow> LzwDict \<times> nat list" where
  "lzw_collect [] m dict = (m, dict)"
| "lzw_collect (x # xs) m dict =
     (case try_emplace (None, x) 0 m of (new, _, m) \<Rightarrow> lzw_collect xs m (if new then dict @ [x] else dict))"

definition lzw_remap :: "nat list \<Rightarrow> LzwDict \<Rightarrow> LzwDict" where
  "lzw_remap dict m = fold (\<lambda>i m. m\<lparr>p2c := (p2c m)((None, dict ! i) \<mapsto> i)\<rparr>) [0..<length dict] m"

fun lzw_encode_loop :: "nat list \<Rightarrow> LzwDict \<Rightarrow> nat \<Rightarrow> nat list \<Rightarrow> nat list option" where
  "lzw_encode_loop [] m match out = Some (out @ [match])"
| "lzw_encode_loop (x # xs) m match out =
     (case try_emplace (Some match, x) (p2c_size m) m of (new, c, m) \<Rightarrow>
        if new then do {
          match' \<leftarrow> p2c m (None, x);
          lzw_encode_loop xs m match' (out @ [match])
        } else lzw_encode_loop xs m c out)"

definition LzwEncode :: "nat list \<Rightarrow> nat list option" where
  "LzwEncode xs = do {
     let (m, dict_len1) = lzw_collect xs \<lparr>p2c = Map.empty, p2c_size = 0\<rparr> [];
     let dict_len1 = Sort CompareLess dict_len1;
     let m = lzw_remap dict_len1 m;
     let out = length dict_len1 # dict_len1;
     CHECK (p2c_size m = length dict_len1);
     (case xs of [] \<Rightarrow> Some out
      | x # xs \<Rightarrow> do { match \<leftarrow> p2c m (None, x); lzw_encode_loop xs m match out })
   }"

text \<open>Reading an element of a vector, or of the output written so far.\<close>

definition at :: "'a list \<Rightarrow> nat \<Rightarrow> 'a option" where
  "at xs i = (if i < length xs then Some (xs ! i) else None)"

fun copy_loop :: "nat list \<Rightarrow> nat list \<Rightarrow> nat list option" where
  "copy_loop [] out = Some out"
| "copy_loop (i # ks) out = do { v \<leftarrow> at out i; copy_loop ks (out @ [v]) }"

definition lzw_copy :: "nat list \<Rightarrow> (nat \<times> nat) list \<Rightarrow> nat \<Rightarrow> nat list \<Rightarrow> nat list option" where
  "lzw_copy dict_len1 code_to_substr code out =
     (if code < length dict_len1 then Some (out @ [dict_len1 ! code])
      else do { (f, s) \<leftarrow> at code_to_substr (code - length dict_len1); copy_loop [f..<s] out })"

definition code_to_len :: "nat list \<Rightarrow> (nat \<times> nat) list \<Rightarrow> nat \<Rightarrow> nat option" where
  "code_to_len dict_len1 code_to_substr code =
     (if code < length dict_len1 then Some 1
      else do { (f, s) \<leftarrow> at code_to_substr (code - length dict_len1); Some (s - f) })"

fun lzw_decode_loop :: "nat list \<Rightarrow> nat list \<Rightarrow> (nat \<times> nat) list \<Rightarrow> nat \<Rightarrow> nat list \<Rightarrow> nat list option" where
  "lzw_decode_loop [] dict_len1 code_to_substr prev_code out = Some out"
| "lzw_decode_loop (code # codes) dict_len1 code_to_substr prev_code out = do {
     let start = length out;
     out \<leftarrow> (if code = length dict_len1 + length code_to_substr then do {
         out \<leftarrow> lzw_copy dict_len1 code_to_substr prev_code out;
         v \<leftarrow> at out start;
         Some (out @ [v])
       } else lzw_copy dict_len1 code_to_substr code out);
     len \<leftarrow> code_to_len dict_len1 code_to_substr prev_code;
     lzw_decode_loop codes dict_len1 (code_to_substr @ [(start - len, start + 1)]) code out
   }"

definition LzwDecode :: "nat list \<Rightarrow> nat list option" where
  "LzwDecode ys =
     (case ys of [] \<Rightarrow> Some []
      | n # ys \<Rightarrow>
          if ys = [] then Some []
          else do {
            CHECK (n \<le> length ys);
            let dict_len1 = take n ys;
            (case drop n ys of [] \<Rightarrow> None
             | prev_code # codes \<Rightarrow> do {
                 out \<leftarrow> lzw_copy dict_len1 [] prev_code [];
                 lzw_decode_loop codes dict_len1 [] prev_code out
               })
          })"

section \<open>Code sequences and the strings they stand for\<close>

text \<open>
  \<open>D\<close> lists the substrings by their codes: the single items, and then, for each code
  emitted but the last, the substring of that code with the first item of the next one.
\<close>

definition lzw_valid :: "nat list \<Rightarrow> nat list list \<Rightarrow> nat list \<Rightarrow> bool" where
  "lzw_valid dict D cs \<longleftrightarrow> cs \<noteq> [] \<and> length D + 1 = length dict + length cs \<and> (\<forall>i<length dict. D ! i = [dict ! i]) \<and>
     (\<forall>s\<in>set D. s \<noteq> []) \<and> (\<forall>k<length cs. cs ! k < length dict + k) \<and>
     (\<forall>k. 0 < k \<and> k < length cs \<longrightarrow> D ! (length dict + (k - 1)) = D ! (cs ! (k - 1)) @ [hd (D ! (cs ! k))])"

definition strs :: "nat list list \<Rightarrow> nat list \<Rightarrow> nat list" where
  "strs D cs = concat (map (\<lambda>c. D ! c) cs)"

lemma strs_simps [simp]: "strs D [] = []" "strs D (c # cs) = D ! c @ strs D cs" "strs D (as @ bs) = strs D as @ strs D bs"
  by (simp_all add: strs_def)

lemma strs_append_dict: "\<forall>c\<in>set cs. c < length D \<Longrightarrow> strs (D @ E) cs = strs D cs"
  by (induction cs) (auto simp: nth_append)

lemma lzw_valid_codes: "lzw_valid dict D cs \<Longrightarrow> c \<in> set cs \<Longrightarrow> c < length D"
  by (fastforce simp: lzw_valid_def in_set_conv_nth)

lemma lzw_valid_nonempty: "lzw_valid dict D cs \<Longrightarrow> c \<in> set cs \<Longrightarrow> D ! c \<noteq> []"
  using lzw_valid_codes nth_mem by (metis lzw_valid_def)

text \<open>Extending the current match by an item, when the longer substring has a code already \<dots>\<close>

lemma lzw_valid_extend:
  assumes v: "lzw_valid dict D (cs @ [m])" and c: "c < length D" "D ! c = D ! m @ [x]"
  shows "lzw_valid dict D (cs @ [c])"
proof -
  have "D ! m \<noteq> []" using lzw_valid_nonempty [OF v] by simp
  then have "hd (D ! c) = hd (D ! m)" by (simp add: c(2))
  then show ?thesis using v c(1) by (auto simp: lzw_valid_def nth_append less_Suc_eq)
qed

text \<open>\<dots> and when it has none: the match is emitted and the substring gets the next code.\<close>

lemma lzw_valid_emit:
  assumes v: "lzw_valid dict D (cs @ [m])" and m': "m' < length dict" "D ! m' = [x]"
  shows "lzw_valid dict (D @ [D ! m @ [x]]) ((cs @ [m]) @ [m'])"
proof -
  let ?D = "D @ [D ! m @ [x]]" and ?cs = "(cs @ [m]) @ [m']"
  have len: "length D = length dict + length cs" using v by (simp add: lzw_valid_def)
  have bnd: "(cs @ [m]) ! k < length dict + k" if "k < length (cs @ [m])" for k using v that by (simp add: lzw_valid_def)
  have low: "?D ! c = D ! c" if "c < length D" for c using that by (simp add: nth_append)
  have "?D ! (length dict + (k - 1)) = ?D ! (?cs ! (k - 1)) @ [hd (?D ! (?cs ! k))]" if k: "0 < k" "k < length ?cs" for k
  proof (cases "k = length (cs @ [m])")
    case True
    have "m < length D" "m' < length D" using bnd [of "length cs"] m' len by simp_all
    then show ?thesis using True m' len by (simp add: nth_append)
  next
    case False
    then have k': "k < length (cs @ [m])" using k by simp
    have "D ! (length dict + (k - 1)) = D ! ((cs @ [m]) ! (k - 1)) @ [hd (D ! ((cs @ [m]) ! k))]" using v k(1) k' by (simp add: lzw_valid_def)
    moreover have "(cs @ [m]) ! (k - 1) < length D" "(cs @ [m]) ! k < length D" "length dict + (k - 1) < length D"
      using bnd [of "k - 1"] bnd [OF k'] k(1) k' len by (simp_all, linarith)
    moreover have "?cs ! k = (cs @ [m]) ! k" "?cs ! (k - 1) = (cs @ [m]) ! (k - 1)" using k' less_imp_diff_less [OF k'] by (metis nth_append)+
    ultimately show ?thesis by (simp only: low)
  qed
  moreover have "?cs ! k < length dict + k" if "k < length ?cs" for k
    using bnd [of k] m'(1) that by (cases "k = length (cs @ [m])") (auto simp: nth_append less_Suc_eq)
  moreover have "?D ! i = [dict ! i]" if "i < length dict" for i using v that len by (simp add: lzw_valid_def nth_append)
  moreover have "\<forall>s\<in>set ?D. s \<noteq> []" using v by (auto simp: lzw_valid_def)
  ultimately show ?thesis using len by (simp add: lzw_valid_def)
qed

section \<open>The encoder\<close>

definition dict_inv :: "nat set \<Rightarrow> nat list \<Rightarrow> nat list list \<Rightarrow> LzwDict \<Rightarrow> bool" where
  "dict_inv X dict D m \<longleftrightarrow> p2c_size m = length D \<and>
     (\<forall>p x c. p2c m (Some p, x) = Some c \<longrightarrow> p < length D \<and> c < length D \<and> D ! c = D ! p @ [x]) \<and>
     (\<forall>x\<in>X. \<exists>c<length dict. p2c m (None, x) = Some c \<and> D ! c = [x])"

lemma dict_inv_add:
  assumes "dict_inv X dict D m" "p < length D" "length dict \<le> length D"
  shows "dict_inv X dict (D @ [D ! p @ [x]]) (m\<lparr>p2c := (p2c m)((Some p, x) \<mapsto> p2c_size m), p2c_size := p2c_size m + 1\<rparr>)"
  using assms by (fastforce simp: dict_inv_def nth_append)

lemma lzw_encode_loop_ok:
  "lzw_valid dict D (cs @ [match]) \<Longrightarrow> dict_inv X dict D m \<Longrightarrow> set xs \<subseteq> X \<Longrightarrow>
    \<exists>D' cs'. lzw_encode_loop xs m match (pre @ cs) = Some (pre @ cs') \<and> lzw_valid dict D' cs' \<and> strs D' cs' = strs D (cs @ [match]) @ xs"
proof (induction xs arbitrary: D cs match m)
  case Nil
  then show ?case by (intro exI [of _ D] exI [of _ "cs @ [match]"]) simp
next
  case (Cons x xs)
  have match: "match < length D" using lzw_valid_codes [OF Cons.prems(1)] by simp
  show ?case
  proof (cases "p2c m (Some match, x)")
    case (Some c)
    have c: "c < length D" "D ! c = D ! match @ [x]" using Cons.prems(2) Some by (simp_all add: dict_inv_def)
    show ?thesis using Cons.IH [OF lzw_valid_extend [OF Cons.prems(1) c] Cons.prems(2)] Cons.prems(3) Some c(2) by (simp add: try_emplace_def)
  next
    case None
    let ?m = "m\<lparr>p2c := (p2c m)((Some match, x) \<mapsto> p2c_size m), p2c_size := p2c_size m + 1\<rparr>" and ?D = "D @ [D ! match @ [x]]"
    obtain c where c: "c < length dict" "p2c m (None, x) = Some c" "D ! c = [x]" using Cons.prems(2,3) by (auto simp: dict_inv_def)
    have len: "length dict \<le> length D" using Cons.prems(1) by (simp add: lzw_valid_def)
    have inv: "dict_inv X dict ?D ?m" by (rule dict_inv_add [OF Cons.prems(2) match len])
    have "strs ?D ((cs @ [match]) @ [c]) = strs D (cs @ [match]) @ [x]"
      using strs_append_dict [of "cs @ [match]" D "[D ! match @ [x]]"] lzw_valid_codes [OF Cons.prems(1)] c len by (simp add: nth_append)
    moreover have "lzw_encode_loop (x # xs) m match (pre @ cs) = lzw_encode_loop xs ?m c (pre @ (cs @ [match]))"
      using None c(2) by (simp add: try_emplace_def)
    ultimately show ?thesis using Cons.IH [OF lzw_valid_emit [OF Cons.prems(1) c(1,3)] inv] Cons.prems(3) by simp
  qed
qed

lemma lzw_collect_ok:
  assumes "lzw_collect xs m dict = (m', dict')"
  shows "(\<forall>p x. p2c m' (Some p, x) = p2c m (Some p, x)) \<and> p2c_size m' + length dict = p2c_size m + length dict' \<and>
    (\<forall>x. x \<in> set dict' \<longleftrightarrow> x \<in> set dict \<or> (x \<in> set xs \<and> p2c m (None, x) = None))"
  using assms
proof (induction xs arbitrary: m dict)
  case (Cons x xs)
  show ?case
  proof (cases "p2c m (None, x)")
    case None
    let ?m = "m\<lparr>p2c := (p2c m)((None, x) \<mapsto> 0), p2c_size := p2c_size m + 1\<rparr>"
    have "lzw_collect xs ?m (dict @ [x]) = (m', dict')" using Cons.prems None by (simp add: try_emplace_def)
    from Cons.IH [OF this] None show ?thesis by auto
  next
    case (Some c)
    then have "lzw_collect xs m dict = (m', dict')" using Cons.prems by (simp add: try_emplace_def)
    from Cons.IH [OF this] Some show ?thesis by auto
  qed
qed auto

lemma lzw_collect_length:
  assumes "lzw_collect xs m dict = (m', dict')"
  shows "length dict' \<le> length dict + length xs"
  using assms by (induction xs arbitrary: m dict) (fastforce simp: try_emplace_def split: option.splits)+

lemma lzw_remap_ok:
  "n \<le> length dict \<Longrightarrow> fold (\<lambda>i m. m\<lparr>p2c := (p2c m)((None, dict ! i) \<mapsto> i)\<rparr>) [0..<n] m = m' \<Longrightarrow>
    p2c_size m' = p2c_size m \<and> (\<forall>p x. p2c m' (Some p, x) = p2c m (Some p, x)) \<and>
    (\<forall>i<n. \<exists>c<n. p2c m' (None, dict ! i) = Some c \<and> dict ! c = dict ! i)"
proof (induction n arbitrary: m')
  case (Suc n)
  define M where "M = fold (\<lambda>i m. m\<lparr>p2c := (p2c m)((None, dict ! i) \<mapsto> i)\<rparr>) [0..<n] m"
  have m': "m' = M\<lparr>p2c := (p2c M)((None, dict ! n) \<mapsto> n)\<rparr>" using Suc.prems(2) unfolding M_def by (simp only: upt_Suc zero_le if_True fold_append comp_apply fold.simps id_apply)
  have "p2c_size M = p2c_size m \<and> (\<forall>p x. p2c M (Some p, x) = p2c m (Some p, x)) \<and>
      (\<forall>i<n. \<exists>c<n. p2c M (None, dict ! i) = Some c \<and> dict ! c = dict ! i)"
    unfolding M_def by (rule Suc.IH [OF _ refl]) (use Suc.prems(1) in simp)
  then have IH: "p2c_size M = p2c_size m" "\<forall>p x. p2c M (Some p, x) = p2c m (Some p, x)"
    "\<forall>i<n. \<exists>c<n. p2c M (None, dict ! i) = Some c \<and> dict ! c = dict ! i" by auto
  have "\<exists>c<Suc n. p2c m' (None, dict ! i) = Some c \<and> dict ! c = dict ! i" if "i < Suc n" for i
    using IH(3) that by (cases "dict ! i = dict ! n") (auto simp: m' less_Suc_eq)
  then show ?case using IH(1,2) by (simp add: m')
qed simp

lemma LzwEncode_ok:
  "xs \<noteq> [] \<Longrightarrow> \<exists>dict D cs. LzwEncode xs = Some (length dict # dict @ cs) \<and> lzw_valid dict D cs \<and> strs D cs = xs \<and>
    set dict = set xs \<and> length dict \<le> length xs"
proof -
  assume ne: "xs \<noteq> []"
  obtain m0 d0 where col: "lzw_collect xs \<lparr>p2c = Map.empty, p2c_size = 0\<rparr> [] = (m0, d0)" by force
  have c0: "p2c m0 (Some p, x) = None" "p2c_size m0 = length d0" "set d0 = set xs" for p x using lzw_collect_ok [OF col] by auto
  have len: "length d0 \<le> length xs" using lzw_collect_length [OF col] by simp
  define dict where "dict = Sort CompareLess d0"
  have ms: "mset dict = mset d0" unfolding dict_def by (rule compare_less.Sort_mset)
  then have dict: "set dict = set xs" "length dict = length d0" using c0(3) by (metis set_mset_mset, metis size_mset)
  define m where "m = lzw_remap dict m0"
  have m: "p2c_size m = length dict" "p2c m (Some p, x) = None" "\<forall>i<length dict. \<exists>c<length dict. p2c m (None, dict ! i) = Some c \<and> dict ! c = dict ! i" for p x
    using lzw_remap_ok [OF order_refl refl, of dict m0] c0(1,2) dict(2) unfolding m_def lzw_remap_def by auto
  let ?D = "map (\<lambda>x. [x]) dict"
  have "\<exists>c<length dict. p2c m (None, x) = Some c \<and> ?D ! c = [x]" if x: "x \<in> set xs" for x
  proof -
    obtain i where i: "i < length dict" "x = dict ! i" using x dict(1) by (metis in_set_conv_nth)
    then show ?thesis using m(3) by auto
  qed
  then have inv: "dict_inv (set xs) dict ?D m" using m(1,2) by (simp add: dict_inv_def)
  obtain x ys where xs: "xs = x # ys" using ne by (cases xs) auto
  then obtain c where c: "c < length dict" "p2c m (None, x) = Some c" "dict ! c = x" using inv by (auto simp: dict_inv_def)
  have "lzw_valid dict ?D ([] @ [c])" using c by (auto simp: lzw_valid_def)
  then obtain D' cs' where run: "lzw_encode_loop ys m c ((length dict # dict) @ []) = Some ((length dict # dict) @ cs')" "lzw_valid dict D' cs'"
      "strs D' cs' = strs ?D ([] @ [c]) @ ys"
    using lzw_encode_loop_ok [OF _ inv, of "[]" c ys "length dict # dict"] xs by auto
  have "LzwEncode xs = lzw_encode_loop ys m c (length dict # dict)"
    using col c(2) m(1) xs by (simp add: LzwEncode_def dict_def [symmetric] m_def [symmetric])
  then show ?thesis using run c xs dict len by (intro exI [of _ dict] exI [of _ D'] exI [of _ cs']) simp
qed

text \<open>A code stands for at most one item more than there are codes before it.\<close>

lemma lzw_code_length:
  assumes "lzw_valid dict D cs" and "k < length cs"
  shows "length (D ! (cs ! k)) \<le> Suc k"
  using assms(2)
proof (induction k rule: less_induct)
  case (less k)
  show ?case
  proof (cases "cs ! k < length dict")
    case True
    then show ?thesis using assms(1) by (simp add: lzw_valid_def)
  next
    case False
    define j where "j = cs ! k - length dict"
    have j: "j < k" "cs ! k = length dict + j" using False assms(1) less.prems by (auto simp: lzw_valid_def j_def)
    then have "D ! (cs ! k) = D ! (cs ! j) @ [hd (D ! (cs ! Suc j))]"
      using assms(1) less.prems unfolding lzw_valid_def by (metis Suc_lessI diff_Suc_1 less_trans_Suc zero_less_Suc)
    then show ?thesis using less.IH [OF j(1)] j(1) less.prems by simp
  qed
qed

lemma strs_length:
  assumes "lzw_valid dict D cs"
  shows "length cs \<le> length (strs D cs)" and "length (strs D cs) \<le> length cs * length cs"
proof -
  have len: "length (strs D cs) = (\<Sum>k<length cs. length (D ! (cs ! k)))"
    by (simp add: strs_def length_concat sum_list_sum_nth comp_def atLeast0LessThan)
  have "1 \<le> length (D ! (cs ! k))" if "k < length cs" for k
    using lzw_valid_nonempty [OF assms, of "cs ! k"] that by (simp add: Suc_le_eq)
  then have "(\<Sum>k<length cs. 1) \<le> length (strs D cs)" unfolding len by (intro sum_mono) simp
  then show "length cs \<le> length (strs D cs)" by simp
  have "length (strs D cs) \<le> (\<Sum>k<length cs. length cs)"
    unfolding len using lzw_code_length [OF assms] by (intro sum_mono) (meson Suc_leI lessThan_iff order_trans)
  then show "length (strs D cs) \<le> length cs * length cs" by simp
qed

text \<open>What the encoder writes: items, and numbers of at most twice the length of its input; and how much.\<close>

lemma LzwEncode_bounds:
  assumes "LzwEncode xs = Some ys" and "xs \<noteq> []"
  shows "y \<in> set ys \<Longrightarrow> y \<in> set xs \<or> y \<le> 2 * length xs" and "length xs < length ys * length ys"
proof -
  obtain dict D cs where e: "ys = length dict # dict @ cs" "lzw_valid dict D cs" "strs D cs = xs" "set dict = set xs" "length dict \<le> length xs"
    using LzwEncode_ok [OF assms(2)] assms(1) by auto
  note l = strs_length [OF e(2), unfolded e(3)]
  have "c \<le> 2 * length xs" if mem: "c \<in> set cs" for c
  proof -
    obtain k where "k < length cs" "c = cs ! k" using mem unfolding in_set_conv_nth by blast
    then have "c < length dict + k" using e(2) by (simp add: lzw_valid_def)
    then show ?thesis using l(1) \<open>k < length cs\<close> e(5) by simp
  qed
  then show "y \<in> set xs \<or> y \<le> 2 * length xs" if "y \<in> set ys" using that e(1,4,5) by auto
  have "length cs < length ys" using e(1) by simp
  then have "length cs * length cs < length ys * length ys" using e(1) by (intro mult_strict_mono) simp_all
  then show "length xs < length ys * length ys" using l(2) by simp
qed

section \<open>The decoder\<close>

lemma copy_loop_run: "\<forall>i\<in>set ks. i < length out \<Longrightarrow> copy_loop ks out = Some (out @ map ((!) out) ks)"
proof (induction ks arbitrary: out)
  case (Cons i ks)
  then have "copy_loop ks (out @ [out ! i]) = Some ((out @ [out ! i]) @ map ((!) (out @ [out ! i])) ks)" by (intro Cons.IH) auto
  moreover have "map ((!) (out @ [out ! i])) ks = map ((!) out) ks" using Cons.prems by (auto simp: nth_append)
  ultimately show ?case using Cons.prems by (simp add: at_def)
qed simp

text \<open>Every known substring stands in the output, at the positions recorded for it.\<close>

definition substrs_ok :: "nat list \<Rightarrow> nat list list \<Rightarrow> (nat \<times> nat) list \<Rightarrow> nat list \<Rightarrow> bool" where
  "substrs_ok dict D c2s out \<longleftrightarrow> (\<forall>j<length c2s. snd (c2s ! j) \<le> length out \<and>
     map ((!) out) [fst (c2s ! j)..<snd (c2s ! j)] = D ! (length dict + j))"

lemma substrs_ok_out: "substrs_ok dict D c2s out \<Longrightarrow> substrs_ok dict D c2s (out @ out2)"
proof -
  assume ok: "substrs_ok dict D c2s out"
  have eq: "map ((!) (out @ out2)) [f..<e] = map ((!) out) [f..<e]" if "e \<le> length out" for f e using that by (auto simp: nth_append)
  show ?thesis unfolding substrs_ok_def
  proof (intro allI impI)
    fix j assume "j < length c2s"
    then have "snd (c2s ! j) \<le> length out" "map ((!) out) [fst (c2s ! j)..<snd (c2s ! j)] = D ! (length dict + j)"
      using ok by (simp_all add: substrs_ok_def)
    then show "snd (c2s ! j) \<le> length (out @ out2) \<and> map ((!) (out @ out2)) [fst (c2s ! j)..<snd (c2s ! j)] = D ! (length dict + j)"
      using eq [of "snd (c2s ! j)" "fst (c2s ! j)"] by (simp only: length_append) simp
  qed
qed

lemma lzw_copy_run:
  assumes "substrs_ok dict D c2s out" "\<forall>i<length dict. D ! i = [dict ! i]" "c < length dict + length c2s"
  shows "lzw_copy dict c2s c out = Some (out @ D ! c)" "code_to_len dict c2s c = Some (length (D ! c))"
proof -
  have "lzw_copy dict c2s c out = Some (out @ D ! c) \<and> code_to_len dict c2s c = Some (length (D ! c))"
  proof (cases "c < length dict")
    case True
    then show ?thesis using assms(2) by (simp add: lzw_copy_def code_to_len_def)
  next
    case False
    let ?j = "c - length dict"
    obtain f e where fe: "c2s ! ?j = (f, e)" by force
    have j: "?j < length c2s" "length dict + ?j = c" using False assms(3) by simp_all
    then have sub: "e \<le> length out" "map ((!) out) [f..<e] = D ! c" using assms(1) fe by (auto simp: substrs_ok_def)
    have "copy_loop [f..<e] out = Some (out @ D ! c)" using copy_loop_run [of "[f..<e]" out] sub by simp
    moreover have "length (D ! c) = e - f" unfolding sub(2) [symmetric] by simp
    ultimately show ?thesis using False j fe by (simp add: lzw_copy_def code_to_len_def at_def)
  qed
  then show "lzw_copy dict c2s c out = Some (out @ D ! c)" "code_to_len dict c2s c = Some (length (D ! c))" by simp_all
qed

lemma substrs_ok_add:
  assumes sub: "substrs_ok dict D c2s (out @ D ! c)" and out: "out = pre @ p" and ne: "D ! c \<noteq> []"
    and new: "D ! (length dict + length c2s) = p @ [hd (D ! c)]"
  shows "substrs_ok dict D (c2s @ [(length out - length p, length out + 1)]) (out @ D ! c)"
proof -
  have "map ((!) (out @ D ! c)) [length out - length p..<length out + 1] = p @ [hd (D ! c)]"
  proof (rule nth_equalityI)
    fix i assume "i < length (map ((!) (out @ D ! c)) [length out - length p..<length out + 1])"
    then have i: "i < length p + 1" using out by simp
    then have "map ((!) (out @ D ! c)) [length out - length p..<length out + 1] ! i = (out @ D ! c) ! (length pre + i)"
      using out by (simp del: upt_Suc)
    also have "\<dots> = (p @ [hd (D ! c)]) ! i"
      using i out ne by (cases "i < length p") (auto simp: nth_append hd_conv_nth less_Suc_eq)
    finally show "map ((!) (out @ D ! c)) [length out - length p..<length out + 1] ! i = (p @ [hd (D ! c)]) ! i" .
  qed (use out in simp)
  moreover have "Suc 0 \<le> length (D ! c)" using ne by (cases "D ! c") simp_all
  ultimately have "length out + 1 \<le> length (out @ D ! c) \<and> map ((!) (out @ D ! c)) [length out - length p..<length out + 1] = D ! (length dict + length c2s)"
    by (simp add: new)
  then show ?thesis using sub by (auto simp: substrs_ok_def nth_append less_Suc_eq)
qed

lemma lzw_decode_loop_ok:
  assumes v: "lzw_valid dict D cs"
  shows "cs = ps @ p # codes \<Longrightarrow> length c2s = length ps \<Longrightarrow> substrs_ok dict D c2s (strs D (ps @ [p])) \<Longrightarrow>
    lzw_decode_loop codes dict c2s p (strs D (ps @ [p])) = Some (strs D cs)"
proof (induction codes arbitrary: ps p c2s)
  case Nil
  then show ?case by simp
next
  case (Cons c codes)
  let ?out = "strs D (ps @ [p])" and ?k = "length ps + 1"
  have D: "\<forall>i<length dict. D ! i = [dict ! i]" using v by (simp add: lzw_valid_def)
  have ck: "cs ! ?k = c" "cs ! (?k - 1) = p" "?k < length cs" "length ps < length cs" using Cons.prems(1) by (simp_all add: nth_append)
  have "cs ! ?k < length dict + ?k" "cs ! length ps < length dict + length ps" using v ck(3,4) unfolding lzw_valid_def by blast+
  then have bnd: "c < length dict + ?k" "p < length dict + length c2s" using ck Cons.prems(2) by simp_all
  have new: "D ! (length dict + length c2s) = D ! p @ [hd (D ! c)]"
    using v ck Cons.prems(2) unfolding lzw_valid_def by (metis add_diff_cancel_right' add_gr_0 less_numeral_extra(1))
  have ne: "D ! c \<noteq> []" "D ! p \<noteq> []" using lzw_valid_nonempty [OF v] Cons.prems(1) by auto
  have cp: "lzw_copy dict c2s p out = Some (out @ D ! p)" "code_to_len dict c2s p = Some (length (D ! p))" if "substrs_ok dict D c2s out" for out
    using lzw_copy_run [OF that D bnd(2)] by simp_all
  have emit: "(if c = length dict + length c2s then do { out \<leftarrow> lzw_copy dict c2s p ?out; v \<leftarrow> at out (length ?out); Some (out @ [v]) }
      else lzw_copy dict c2s c ?out) = Some (?out @ D ! c)"
  proof (cases "c = length dict + length c2s")
    case True
    then have Dc: "D ! c = D ! p @ [hd (D ! p)]" using new ne by (metis hd_append2)
    have "at (?out @ D ! p) (length ?out) = Some (hd (D ! p))" using ne(2) by (simp add: at_def nth_append hd_conv_nth)
    then show ?thesis using True cp(1) [OF Cons.prems(3)] Dc by simp
  next
    case False
    then have "c < length dict + length c2s" using bnd(1) Cons.prems(2) by simp
    then show ?thesis using lzw_copy_run(1) [OF Cons.prems(3) D] False by simp
  qed
  have "substrs_ok dict D (c2s @ [(length ?out - length (D ! p), length ?out + 1)]) (?out @ D ! c)"
    by (rule substrs_ok_add [OF substrs_ok_out [OF Cons.prems(3)] _ ne(1) new, of "strs D ps"]) simp
  then have "lzw_decode_loop codes dict (c2s @ [(length ?out - length (D ! p), length ?out + 1)]) c (strs D ((ps @ [p]) @ [c])) = Some (strs D cs)"
    by (intro Cons.IH) (use Cons.prems in simp_all)
  then have "lzw_decode_loop codes dict (c2s @ [(length ?out - length (D ! p), length ?out + 1)]) c (?out @ D ! c) = Some (strs D cs)" by simp
  then show ?case unfolding lzw_decode_loop.simps Let_def emit bind.bind_lunit cp(2) [OF Cons.prems(3)] .
qed

lemma LzwDecode_ok:
  assumes v: "lzw_valid dict D cs"
  shows "LzwDecode (length dict # dict @ cs) = Some (strs D cs)"
proof -
  obtain p codes where cs: "cs = p # codes" using v by (cases cs) (auto simp: lzw_valid_def)
  have "p < length dict" "D ! p = [dict ! p]" using v cs by (auto simp: lzw_valid_def)
  then have "lzw_copy dict [] p [] = Some (strs D ([] @ [p]))" by (simp add: lzw_copy_def)
  then show ?thesis using lzw_decode_loop_ok [OF v, of "[]" p codes "[]"] cs by (simp add: LzwDecode_def substrs_ok_def)
qed


end
