(* ===== verification/Size_Class_Map.thy ===== *)
theory Size_Class_Map
  imports San_Math
begin

text \<open>
  \<^verbatim>\<open>SizeClassMap\<close> of \<^verbatim>\<open>sanitizer_allocator_size_class_map.h\<close>: the size classes of the primary
  allocators, for every choice of the template parameters. The sizes are at most
  \<^verbatim>\<open>kMaxSize\<close>, far below the width of \<^verbatim>\<open>uptr\<close>, and are natural numbers here.
\<close>

section \<open>The code\<close>

record SizeClassMap =
  kNumBits :: nat
  kMinSizeLog :: nat
  kMidSizeLog :: nat
  kMaxSizeLog :: nat
  kMaxNumCachedHint :: nat
  kMaxBytesCachedLog :: nat

definition kMinSize :: "SizeClassMap \<Rightarrow> nat" where "kMinSize m = 2 ^ kMinSizeLog m"
definition kMidSize :: "SizeClassMap \<Rightarrow> nat" where "kMidSize m = 2 ^ kMidSizeLog m"
definition kMidClass :: "SizeClassMap \<Rightarrow> nat" where "kMidClass m = kMidSize m div kMinSize m"
definition scm_S :: "SizeClassMap \<Rightarrow> nat" where "scm_S m = kNumBits m - 1"
definition kMaxSize :: "SizeClassMap \<Rightarrow> nat" where "kMaxSize m = 2 ^ kMaxSizeLog m"

definition kNumClasses :: "SizeClassMap \<Rightarrow> nat" where
  "kNumClasses m = kMidClass m + (kMaxSizeLog m - kMidSizeLog m) * 2 ^ scm_S m + 1 + 1"

definition kLargestClassID :: "SizeClassMap \<Rightarrow> nat" where "kLargestClassID m = kNumClasses m - 2"
definition kBatchClassID :: "SizeClassMap \<Rightarrow> nat" where "kBatchClassID m = kNumClasses m - 1"

definition kNumClassesRounded :: "SizeClassMap \<Rightarrow> nat" where
  "kNumClassesRounded m =
     (if kNumClasses m \<le> 32 then 32 else if kNumClasses m \<le> 64 then 64 else if kNumClasses m \<le> 128 then 128 else 256)"

definition scm_Size :: "SizeClassMap \<Rightarrow> nat \<Rightarrow> nat" where
  "scm_Size m class_id =
     (if class_id = kBatchClassID m then kMaxNumCachedHint m * 8
      else if class_id \<le> kMidClass m then kMinSize m * class_id
      else
        let class_id = class_id - kMidClass m;
            t = kMidSize m * 2 ^ (class_id div 2 ^ scm_S m)
        in t + (t div 2 ^ scm_S m) * (class_id mod 2 ^ scm_S m))"

definition ClassID :: "SizeClassMap \<Rightarrow> nat \<Rightarrow> nat option" where
  "ClassID m sz =
     (if sz > kMaxSize m then Some 0
      else if sz \<le> kMidSize m then Some ((sz + kMinSize m - 1) div 2 ^ kMinSizeLog m)
      else do {
        l \<leftarrow> MostSignificantSetBitIndex (of_nat sz);
        let hbits = (sz div 2 ^ (l - scm_S m)) mod 2 ^ scm_S m;
        let lbits = sz mod 2 ^ (l - scm_S m);
        let l1 = l - kMidSizeLog m;
        Some (kMidClass m + l1 * 2 ^ scm_S m + hbits + (if lbits > 0 then 1 else 0))
      })"

definition MaxCachedHint :: "SizeClassMap \<Rightarrow> nat \<Rightarrow> nat" where
  "MaxCachedHint m sz =
     (if sz = 0 then 0 else max 1 (min (kMaxNumCachedHint m) (2 ^ kMaxBytesCachedLog m div sz)))"

fun check_all :: "('a \<Rightarrow> unit option) \<Rightarrow> 'a list \<Rightarrow> unit option" where
  "check_all f [] = Some ()"
| "check_all f (x # xs) = do { f x; check_all f xs }"

definition validate_class :: "SizeClassMap \<Rightarrow> nat \<Rightarrow> unit option" where
  "validate_class m c = do {
     let s = scm_Size m c;
     CHECK (s \<noteq> 0);
     if c = kBatchClassID m then Some ()
     else do {
       c1 \<leftarrow> ClassID m s;
       CHECK (c1 = c);
       (if c < kLargestClassID m then do { c2 \<leftarrow> ClassID m (s + 1); CHECK (c2 = c + 1) } else Some ());
       c3 \<leftarrow> ClassID m (s - 1);
       CHECK (c3 = c);
       CHECK (scm_Size m c > scm_Size m (c - 1))
     }
   }"

definition validate_size :: "SizeClassMap \<Rightarrow> nat \<Rightarrow> unit option" where
  "validate_size m s = do {
     c \<leftarrow> ClassID m s;
     CHECK (c < kNumClasses m);
     CHECK (scm_Size m c \<ge> s);
     if c > 0 then CHECK (scm_Size m (c - 1) < s) else Some ()
   }"

definition Validate :: "SizeClassMap \<Rightarrow> unit option" where
  "Validate m = do {
     check_all (validate_class m) [1..<kNumClasses m];
     c \<leftarrow> ClassID m (kMaxSize m + 1);
     CHECK (c = 0);
     check_all (validate_size m) [1..<kMaxSize m + 1]
   }"

definition DefaultSizeClassMap :: SizeClassMap where
  "DefaultSizeClassMap = \<lparr>kNumBits = 3, kMinSizeLog = 4, kMidSizeLog = 8, kMaxSizeLog = 17, kMaxNumCachedHint = 128, kMaxBytesCachedLog = 16\<rparr>"

definition CompactSizeClassMap :: SizeClassMap where
  "CompactSizeClassMap = \<lparr>kNumBits = 3, kMinSizeLog = 4, kMidSizeLog = 8, kMaxSizeLog = 17, kMaxNumCachedHint = 64, kMaxBytesCachedLog = 14\<rparr>"

definition VeryCompactSizeClassMap :: SizeClassMap where
  "VeryCompactSizeClassMap = \<lparr>kNumBits = 2, kMinSizeLog = 5, kMidSizeLog = 9, kMaxSizeLog = 16, kMaxNumCachedHint = 64, kMaxBytesCachedLog = 14\<rparr>"

definition DenseSizeClassMap :: SizeClassMap where
  "DenseSizeClassMap = \<lparr>kNumBits = 3, kMinSizeLog = 4, kMidSizeLog = 8, kMaxSizeLog = 17, kMaxNumCachedHint = 8, kMaxBytesCachedLog = 10\<rparr>"

definition VeryDenseSizeClassMap :: SizeClassMap where
  "VeryDenseSizeClassMap = \<lparr>kNumBits = 2, kMinSizeLog = 5, kMidSizeLog = 9, kMaxSizeLog = 16, kMaxNumCachedHint = 8, kMaxBytesCachedLog = 10\<rparr>"

section \<open>The sizes of the classes increase\<close>

text \<open>What the templates assume of their parameters: the logarithms are in order, and the classes
  next to the middle size differ by two bytes or more.\<close>

definition scm_ok :: "SizeClassMap \<Rightarrow> bool" where
  "scm_ok m \<longleftrightarrow> 1 \<le> kMinSizeLog m \<and> kMinSizeLog m \<le> kMidSizeLog m \<and> kMidSizeLog m \<le> kMaxSizeLog m \<and>
     kMaxSizeLog m < 63 \<and> scm_S m + 1 \<le> kMidSizeLog m \<and> 0 < kMaxNumCachedHint m"

definition upper_size :: "SizeClassMap \<Rightarrow> nat \<Rightarrow> nat" where
  "upper_size m q = kMidSize m * 2 ^ (q div 2 ^ scm_S m) + 2 ^ (kMidSizeLog m - scm_S m) * 2 ^ (q div 2 ^ scm_S m) * (q mod 2 ^ scm_S m)"

lemma kMidClass_eq: "scm_ok m \<Longrightarrow> kMinSize m * kMidClass m = kMidSize m"
  by (simp add: scm_ok_def kMinSize_def kMidClass_def kMidSize_def le_imp_power_dvd)

lemma scm_Size_low: "scm_ok m \<Longrightarrow> c \<le> kMidClass m \<Longrightarrow> scm_Size m c = kMinSize m * c"
  by (auto simp: scm_Size_def kBatchClassID_def kNumClasses_def)

lemma scm_Size_high:
  assumes ok: "scm_ok m" and q: "kMidClass m + q \<le> kLargestClassID m"
  shows "scm_Size m (kMidClass m + q) = upper_size m q"
proof (cases "q = 0")
  case True
  then show ?thesis using scm_Size_low [OF ok] kMidClass_eq [OF ok] by (simp add: upper_size_def)
next
  case False
  have "kMidSize m * 2 ^ (q div 2 ^ scm_S m) div 2 ^ scm_S m = 2 ^ (kMidSizeLog m - scm_S m) * 2 ^ (q div 2 ^ scm_S m)"
    using ok by (simp add: kMidSize_def scm_ok_def power_diff div_mult_swap le_imp_power_dvd mult.commute)
  moreover have "kMidClass m + q \<noteq> kBatchClassID m"
    using q by (simp add: kLargestClassID_def kBatchClassID_def kNumClasses_def)
  ultimately show ?thesis using False by (simp add: scm_Size_def upper_size_def Let_def)
qed

text \<open>Within a power of two, the class sizes are an arithmetic progression.\<close>

lemma upper_size_split:
  assumes "scm_ok m" and "h \<le> 2 ^ scm_S m"
  shows "upper_size m (a * 2 ^ scm_S m + h) = 2 ^ (kMidSizeLog m + a) + 2 ^ (kMidSizeLog m + a - scm_S m) * h"
proof -
  let ?K = "2 ^ scm_S m :: nat"
  have p: "(2::nat) ^ (kMidSizeLog m + a - scm_S m) = 2 ^ (kMidSizeLog m - scm_S m) * 2 ^ a"
    using assms(1) by (simp add: scm_ok_def flip: power_add)
  show ?thesis
  proof (cases "h = ?K")
    case True
    have "2 ^ (kMidSizeLog m - scm_S m) * ?K = (2::nat) ^ kMidSizeLog m" using assms(1) by (simp add: scm_ok_def flip: power_add)
    moreover have "a * ?K + ?K = (a + 1) * ?K" by simp
    moreover have "(a * ?K + ?K) div ?K = a + 1" "(a * ?K + ?K) mod ?K = 0" by simp_all
    ultimately show ?thesis by (simp only: True upper_size_def kMidSize_def p power_add) (simp add: mult.commute mult.left_commute)
  next
    case False
    then have "(a * ?K + h) div ?K = a" "(a * ?K + h) mod ?K = h" using assms(2) by (auto intro: div_nat_eqI)
    then show ?thesis by (simp add: upper_size_def kMidSize_def p power_add mult.commute mult.left_commute)
  qed
qed

lemma upper_size_gap:
  assumes ok: "scm_ok m"
  shows "upper_size m q + 2 \<le> upper_size m (Suc q)"
proof -
  let ?K = "2 ^ scm_S m :: nat"
  define a h where "a = q div ?K" and "h = q mod ?K"
  have q: "q = a * ?K + h" and h: "h < ?K" by (simp_all only: a_def h_def div_mult_mod_eq) simp
  have "(2::nat) ^ 1 \<le> 2 ^ (kMidSizeLog m + a - scm_S m)" using ok by (intro power_increasing) (auto simp: scm_ok_def)
  then show ?thesis using upper_size_split [OF ok, of h a] upper_size_split [OF ok, of "Suc h" a] h by (simp add: q)
qed

lemma scm_Size_gap:
  assumes ok: "scm_ok m" and c: "c < kLargestClassID m"
  shows "scm_Size m c + 2 \<le> scm_Size m (Suc c)"
proof (cases "c < kMidClass m")
  case True
  have "(2::nat) ^ 1 \<le> 2 ^ kMinSizeLog m" using ok by (intro power_increasing) (auto simp: scm_ok_def)
  then show ?thesis using True scm_Size_low [OF ok] by (simp add: kMinSize_def)
next
  case False
  then obtain q where q: "c = kMidClass m + q" using le_Suc_ex not_less by blast
  then show ?thesis using scm_Size_high [OF ok, of q] scm_Size_high [OF ok, of "Suc q"] upper_size_gap [OF ok, of q] c by simp
qed

lemma scm_Size_less:
  assumes ok: "scm_ok m"
  shows "c < d \<Longrightarrow> d \<le> kLargestClassID m \<Longrightarrow> scm_Size m c + 2 \<le> scm_Size m d"
proof (induction d)
  case (Suc d)
  then have "scm_Size m d + 2 \<le> scm_Size m (Suc d)" using scm_Size_gap [OF ok] by simp
  then show ?case using Suc by (cases "c = d") (auto simp: less_Suc_eq)
qed simp

section \<open>The class of a size\<close>

text \<open>\<^verbatim>\<open>c\<close> is the smallest class whose blocks hold \<^verbatim>\<open>sz\<close> bytes.\<close>

definition smallest_class :: "SizeClassMap \<Rightarrow> nat \<Rightarrow> nat \<Rightarrow> bool" where
  "smallest_class m sz c \<longleftrightarrow> 0 < c \<and> c \<le> kLargestClassID m \<and> sz \<le> scm_Size m c \<and> scm_Size m (c - 1) < sz"

lemma smallest_class_unique:
  assumes ok: "scm_ok m" and "smallest_class m sz c" "smallest_class m sz d"
  shows "c = d"
proof (rule ccontr)
  assume "c \<noteq> d"
  have less: "\<not> a < b" if "smallest_class m sz a" "smallest_class m sz b" for a b
  proof
    assume "a < b"
    then have "a < b - 1 \<or> a = b - 1" by auto
    moreover have "b - 1 \<le> kLargestClassID m" using that(2) unfolding smallest_class_def by linarith
    ultimately have "scm_Size m a \<le> scm_Size m (b - 1)" using scm_Size_less [OF ok, of a "b - 1"] by auto
    then show False using that by (simp add: smallest_class_def)
  qed
  show False using less assms \<open>c \<noteq> d\<close> by (meson nat_neq_iff)
qed

lemma ClassID_low:
  assumes ok: "scm_ok m" and sz: "0 < sz" "sz \<le> kMidSize m"
  shows "\<exists>c. ClassID m sz = Some c \<and> smallest_class m sz c"
proof -
  let ?K = "kMinSize m" and ?c = "(sz + kMinSize m - 1) div kMinSize m"
  have K: "0 < ?K" by (simp add: kMinSize_def)
  have up: "sz \<le> ?K * ?c" "?K * ?c < sz + ?K"
    using round_up_div_bounds [OF K, of sz] K by (simp_all add: mult.commute)
  have "?K * ?c < ?K * (kMidClass m + 1)" using up(2) sz(2) kMidClass_eq [OF ok] by simp
  then have "?c < kMidClass m + 1" using mult_less_cancel1 by blast
  then have c: "?c \<le> kMidClass m" by simp
  have pos: "0 < ?c" using up(1) sz(1) by (cases "?c = 0") auto
  have "?K * 1 \<le> ?K * ?c" using pos by (intro mult_le_mono2) simp
  then have "?K * (?c - 1) < sz" using up(2) unfolding right_diff_distrib' by linarith
  then have "smallest_class m sz ?c"
    using up(1) c pos scm_Size_low [OF ok c] scm_Size_low [OF ok, of "?c - 1"] by (simp add: smallest_class_def kLargestClassID_def kNumClasses_def)
  moreover have "kMidSize m \<le> kMaxSize m" using ok by (simp add: kMidSize_def kMaxSize_def scm_ok_def)
  ultimately show ?thesis using sz by (simp add: ClassID_def kMinSize_def)
qed

text \<open>The upper classes: the bits below the highest one give the class and whether to round up.\<close>

lemma ClassID_high:
  assumes ok: "scm_ok m" and sz: "kMidSize m < sz" "sz \<le> kMaxSize m"
  shows "\<exists>c. ClassID m sz = Some c \<and> smallest_class m sz c"
proof -
  let ?S = "scm_S m" and ?K = "2 ^ scm_S m :: nat"
  have b64: "sz < 2 ^ 64" using sz(2) ok power_strict_increasing [of "kMaxSizeLog m" 64 "2::nat"] by (simp add: kMaxSize_def scm_ok_def)
  have u: "unat (of_nat sz :: uptr) = sz" by (rule unat_of_nat_uptr [OF b64])
  have "(of_nat sz :: uptr) \<noteq> 0" using u sz(1) by auto
  then obtain l where l: "MostSignificantSetBitIndex (of_nat sz) = Some l" using MostSignificantSetBitIndex_total by blast
  have lb: "2 ^ l \<le> sz" "sz < 2 ^ Suc l" using MostSignificantSetBitIndex_bounds(2,3) [OF l] u by simp_all
  have "2 ^ kMidSizeLog m < (2::nat) ^ Suc l" using sz(1) lb(2) by (simp add: kMidSize_def)
  then have mid: "kMidSizeLog m \<le> l" by (simp add: less_Suc_eq_le del: power_Suc)
  define B where "B = (2::nat) ^ (l - ?S)"
  define h r where "h = (sz div B) mod ?K" and "r = sz mod B"
  have BK: "B * ?K = 2 ^ l" using ok mid by (simp add: B_def scm_ok_def flip: power_add)
  have B: "0 < B" by (simp add: B_def)
  have h: "h < ?K" and r: "r < B" using B by (simp_all add: h_def r_def)
  have "sz div B div ?K = 1" unfolding div_mult2_eq [symmetric] BK using lb by (auto intro: div_nat_eqI)
  then have "sz div B = ?K + h" using div_mult_mod_eq [of "sz div B" ?K] by (simp add: h_def)
  then have szeq: "sz = 2 ^ l + B * h + r" using div_mult_mod_eq [of sz B] BK by (simp add: r_def algebra_simps)
  define a where "a = l - kMidSizeLog m"
  define q where "q = a * ?K + h"
  have la: "kMidSizeLog m + a = l" using mid by (simp add: a_def)
  have uq: "upper_size m q = 2 ^ l + B * h" and uq1: "upper_size m (Suc q) = 2 ^ l + B * Suc h"
    using upper_size_split [OF ok, of h a] upper_size_split [OF ok, of "Suc h" a] h la by (simp_all add: q_def B_def)
  have top: "upper_size m ((kMaxSizeLog m - kMidSizeLog m) * ?K) = kMaxSize m"
    using upper_size_split [OF ok, of 0 "kMaxSizeLog m - kMidSizeLog m"] ok by (simp add: kMaxSize_def scm_ok_def)
  have lg: "kLargestClassID m = kMidClass m + (kMaxSizeLog m - kMidSizeLog m) * ?K" by (simp add: kLargestClassID_def kNumClasses_def)
  have inc: "upper_size m i < upper_size m j" if "i < j" for i j
    using lift_Suc_mono_less [of "upper_size m", OF _ that] upper_size_gap [OF ok] by (meson add_le_same_cancel1 le_add1 not_numeral_le_zero order_less_le_trans leI less_le_trans)
  have cid: "ClassID m sz = Some (kMidClass m + q + (if 0 < r then 1 else 0))"
    using sz l by (simp add: ClassID_def h_def r_def B_def q_def a_def)
  have qmax: "q + (if 0 < r then 1 else 0) \<le> (kMaxSizeLog m - kMidSizeLog m) * ?K"
  proof (rule ccontr)
    assume "\<not> ?thesis"
    then have "(kMaxSizeLog m - kMidSizeLog m) * ?K < q + (if 0 < r then 1 else 0)" by simp
    then have "kMaxSize m < upper_size m q \<or> (0 < r \<and> kMaxSize m \<le> upper_size m q)"
      using inc [of "(kMaxSizeLog m - kMidSizeLog m) * ?K" q] top by (cases "(kMaxSizeLog m - kMidSizeLog m) * ?K = q") (auto split: if_splits)
    then show False using sz(2) szeq uq by auto
  qed
  have "smallest_class m sz (kMidClass m + q + (if 0 < r then 1 else 0))"
  proof (cases "0 < r")
    case True
    then have "scm_Size m (kMidClass m + Suc q) = upper_size m (Suc q)" "scm_Size m (kMidClass m + q) = upper_size m q"
      using scm_Size_high [OF ok, of "Suc q"] scm_Size_high [OF ok, of q] qmax lg by simp_all
    then show ?thesis using True szeq uq uq1 r qmax lg by (simp add: smallest_class_def)
  next
    case False
    have "q \<noteq> 0" using szeq uq False sz(1) by (cases "q = 0") (auto simp: upper_size_def)
    then have "scm_Size m (kMidClass m + q) = upper_size m q" "scm_Size m (kMidClass m + (q - 1)) = upper_size m (q - 1)"
      using scm_Size_high [OF ok, of q] scm_Size_high [OF ok, of "q - 1"] qmax lg False by simp_all
    moreover have "upper_size m (q - 1) < upper_size m q" using inc \<open>q \<noteq> 0\<close> by simp
    ultimately show ?thesis using False szeq uq qmax lg \<open>q \<noteq> 0\<close> by (simp add: smallest_class_def)
  qed
  then show ?thesis using cid by blast
qed

lemma ClassID_run:
  assumes "scm_ok m" and "0 < sz" "sz \<le> kMaxSize m"
  shows "\<exists>c. ClassID m sz = Some c \<and> smallest_class m sz c"
  using ClassID_low ClassID_high assms by (cases "sz \<le> kMidSize m") auto

lemma ClassID_too_big: "ClassID m (kMaxSize m + 1) = Some 0"
  by (simp add: ClassID_def)

lemma scm_Size_largest: "scm_ok m \<Longrightarrow> scm_Size m (kLargestClassID m) = kMaxSize m"
  using scm_Size_high [of m "(kMaxSizeLog m - kMidSizeLog m) * 2 ^ scm_S m"] upper_size_split [of m 0 "kMaxSizeLog m - kMidSizeLog m"]
  by (simp add: kLargestClassID_def kNumClasses_def kMaxSize_def scm_ok_def)

lemma ClassID_between:
  assumes ok: "scm_ok m" and c: "0 < c" "c \<le> kLargestClassID m" and sz: "scm_Size m (c - 1) < sz" "sz \<le> scm_Size m c"
  shows "ClassID m sz = Some c"
proof -
  have "scm_Size m c \<le> kMaxSize m"
    using scm_Size_less [OF ok, of c "kLargestClassID m"] scm_Size_largest [OF ok] c by (cases "c = kLargestClassID m") auto
  then obtain d where d: "ClassID m sz = Some d" "smallest_class m sz d" using ClassID_run [OF ok, of sz] sz by auto
  moreover have "smallest_class m sz c" using c sz by (simp add: smallest_class_def)
  ultimately show ?thesis using smallest_class_unique [OF ok] by blast
qed


lemma DefaultSizeClassMap_ok: "scm_ok DefaultSizeClassMap"
  by (simp add: scm_ok_def DefaultSizeClassMap_def scm_S_def)


lemma check_all_run: "(\<And>x. x \<in> set xs \<Longrightarrow> f x = Some ()) \<Longrightarrow> check_all f xs = Some ()"
  by (induction xs) auto

lemma validate_class_run:
  assumes ok: "scm_ok m" and c: "0 < c" "c < kNumClasses m"
  shows "validate_class m c = Some ()"
proof (cases "c = kBatchClassID m")
  case True
  then show ?thesis using ok by (simp add: validate_class_def scm_Size_def scm_ok_def)
next
  case False
  then have l: "c \<le> kLargestClassID m" using c by (simp add: kLargestClassID_def kBatchClassID_def)
  have gap: "scm_Size m (c - 1) + 2 \<le> scm_Size m c" using scm_Size_less [OF ok, of "c - 1" c] c l by simp
  have "ClassID m (scm_Size m c) = Some c" "ClassID m (scm_Size m c - 1) = Some c"
    by (rule ClassID_between [OF ok c(1) l]; use gap in simp)+
  moreover have "ClassID m (scm_Size m c + 1) = Some (c + 1)" if "c < kLargestClassID m"
    by (rule ClassID_between [OF ok]) (use that scm_Size_gap [OF ok that] in simp_all)
  ultimately show ?thesis using False gap by (simp add: validate_class_def)
qed

text \<open>
  The self check \<^verbatim>\<open>Validate\<close>, which the program can only run on the instances it has, succeeds for
  every choice of the parameters: the sizes of the classes strictly increase, \<^verbatim>\<open>ClassID\<close> inverts
  \<^verbatim>\<open>Size\<close> and rounds up to the next class, and sizes that are too big have no class.
\<close>

theorem Validate_succeeds:
  assumes "scm_ok m"
  shows "Validate m = Some ()"
proof -
  have "check_all (validate_class m) [1..<kNumClasses m] = Some ()"
    by (rule check_all_run) (use validate_class_run [OF assms] in auto)
  moreover have "check_all (validate_size m) [1..<kMaxSize m + 1] = Some ()"
  proof (rule check_all_run)
    fix s assume "s \<in> set [1..<kMaxSize m + 1]"
    then obtain c where "ClassID m s = Some c" "smallest_class m s c" using ClassID_run [OF assms, of s] by auto
    then show "validate_size m s = Some ()" by (auto simp: validate_size_def smallest_class_def kLargestClassID_def kNumClasses_def)
  qed
  ultimately show ?thesis using ClassID_too_big [of m] by (simp add: Validate_def)
qed

lemma Validate_succeeds_witness: "Validate VeryCompactSizeClassMap = Some ()"
  by (rule Validate_succeeds) (simp add: scm_ok_def VeryCompactSizeClassMap_def scm_S_def)

end
