(* ===== verification/Asan_Allocator.thy ===== *)
theory Asan_Allocator
  imports Asan_Shadow Quarantine Size_Class_Map
begin

text \<open>
  The allocator of \<^verbatim>\<open>asan_allocator.cpp\<close>: chunk headers, redzones, allocation, deallocation
  through the quarantine, and the entry points \<^verbatim>\<open>asan_malloc\<close> and so on.

  The underlying allocator (\<^verbatim>\<open>CombinedAllocator\<close>) appears through its answers: the block that a
  call of its \<^verbatim>\<open>Allocate\<close> returns is an argument (0 for a failure), and \<^verbatim>\<open>GetBlockBegin\<close>,
  \<^verbatim>\<open>FromPrimary\<close> and \<^verbatim>\<open>GetActuallyAllocatedSize\<close> are the fields of a record. A chunk header, a
  large chunk header and a user byte are kept in maps of their own, each by its address; the header
  of a chunk is not reached by writes to the user memory. A
  report is recorded; it ends the process (\<^const>\<open>None\<close>) if it is fatal or \<^verbatim>\<open>halt_on_error\<close> is set.
  The runtime is initialised, the platform is a 64-bit one other than Windows, and no malloc hooks
  are installed. \<^verbatim>\<open>RunFreeHooks\<close> is an answer too.
\<close>

unbundle bit_operations_syntax

section \<open>Chunks\<close>

datatype AllocType = FROM_MALLOC | FROM_NEW | FROM_NEW_BR

definition CHUNK_INVALID :: u8 where "CHUNK_INVALID = 0"
definition CHUNK_ALLOCATED :: u8 where "CHUNK_ALLOCATED = 2"
definition CHUNK_QUARANTINE :: u8 where "CHUNK_QUARANTINE = 3"

record ChunkHeader =
  chunk_state :: u8
  alloc_type :: AllocType
  lsan_tag :: nat
  user_requested_alignment_log :: nat
  user_requested_size_hi :: u16
  user_requested_size_lo :: u32
  alloc_context_id :: u64

definition AtomicContextStore :: "u32 \<Rightarrow> u32 \<Rightarrow> u64" where
  "AtomicContextStore tid stack = push_bit 32 (ucast tid) + ucast stack"

definition AtomicContextLoad :: "u64 \<Rightarrow> u32 \<times> u32" where
  "AtomicContextLoad context = (ucast (drop_bit 32 context), ucast context)"

definition UsedSize :: "ChunkHeader \<Rightarrow> uptr" where
  "UsedSize h = push_bit 32 (ucast (user_requested_size_hi h)) + ucast (user_requested_size_lo h)"

definition SetUsedSize :: "uptr \<Rightarrow> ChunkHeader \<Rightarrow> ChunkHeader option" where
  "SetUsedSize sz h = do {
     let h = h\<lparr>user_requested_size_lo := ucast sz\<rparr>;
     let h = h\<lparr>user_requested_size_hi := ucast (drop_bit 32 sz)\<rparr>;
     CHECK (UsedSize h = sz);
     Some h
   }"

definition SetAllocContext :: "u32 \<Rightarrow> u32 \<Rightarrow> ChunkHeader \<Rightarrow> ChunkHeader" where
  "SetAllocContext tid stack h = h\<lparr>alloc_context_id := AtomicContextStore tid stack\<rparr>"

definition GetAllocContext :: "ChunkHeader \<Rightarrow> u32 \<times> u32" where
  "GetAllocContext h = AtomicContextLoad (alloc_context_id h)"

definition kChunkHeaderSize :: uptr where "kChunkHeaderSize = 16"
definition kChunkHeader2Size :: uptr where "kChunkHeader2Size = 8"

definition chunk_Beg :: "uptr \<Rightarrow> uptr" where
  "chunk_Beg m = m + kChunkHeaderSize"

definition chunk_AddrIsInside :: "uptr \<Rightarrow> ChunkHeader \<Rightarrow> uptr \<Rightarrow> bool" where
  "chunk_AddrIsInside m h addr \<longleftrightarrow> addr \<ge> chunk_Beg m \<and> addr < chunk_Beg m + UsedSize h"

record LargeChunkHeader =
  lc_magic :: uptr
  lc_chunk_header :: uptr

definition kAllocBegMagic :: uptr where "kAllocBegMagic = 0xCC6E96B9CC6E96B9"

definition LargeChunkHeader_Get :: "LargeChunkHeader \<Rightarrow> uptr" where
  "LargeChunkHeader_Get l = (if lc_magic l = kAllocBegMagic then lc_chunk_header l else 0)"

definition LargeChunkHeader_Set :: "uptr \<Rightarrow> LargeChunkHeader \<Rightarrow> LargeChunkHeader option" where
  "LargeChunkHeader_Set p l =
     (if p \<noteq> 0 then Some (l\<lparr>lc_chunk_header := p, lc_magic := kAllocBegMagic\<rparr>)
      else if lc_magic l = kAllocBegMagic then Some (l\<lparr>lc_magic := 0\<rparr>)
      else do { CHECK (lc_magic l = kAllocBegMagic); Some l })"

section \<open>State\<close>

record AsanStats =
  mallocs :: uptr
  malloced :: uptr
  malloced_redzones :: uptr
  frees :: uptr
  freed :: uptr
  real_frees :: uptr
  really_freed :: uptr
  reallocs :: uptr
  realloced :: uptr
  mmaps :: uptr
  mmaped :: uptr
  munmaps :: uptr
  munmaped :: uptr
  malloc_large :: uptr
  malloced_by_size :: "nat \<Rightarrow> uptr"

datatype report =
    DoubleFree uptr
  | FreeNotMalloced uptr
  | AllocTypeMismatch uptr AllocType AllocType
  | NewDeleteTypeMismatch uptr uptr uptr
  | MallocUsableSizeNotOwned uptr
  | SanitizerGetAllocatedSizeNotOwned uptr
  | AllocationFailed uptr

record alloc_env =
  ae :: asan_env
  new_delete_type_mismatch :: bool
  max_malloc_fill_size :: uptr
  malloc_fill_byte :: u8
  max_free_fill_size :: uptr
  free_fill_byte :: u8
  frees_and_returns_null_on_realloc_zero :: bool
  check_malloc_usable_size :: bool
  max_allocation_size_mb :: uptr

record lower =
  GetBlockBegin :: "uptr \<Rightarrow> uptr"
  FromPrimary :: "uptr \<Rightarrow> bool"
  GetActuallyAllocatedSize :: "uptr \<Rightarrow> uptr"

text \<open>What a call depends on besides its arguments: the current thread, the id of its stack trace,
  and the results of the calls it makes to code that is not modelled.\<close>

record call_ctx =
  cc_thread :: "u32 option"
  cc_stack :: u32
  cc_rss_limit_exceeded :: bool
  cc_recycle_lock :: bool
  cc_batch :: "nat option"
  cc_free_hook_ignores :: bool
  cc_mismatch_suppressed :: bool
  cc_lsan_disabled :: bool

record heap =
  hs :: asan_state
  hmem :: mem
  header :: "uptr \<Rightarrow> ChunkHeader"
  large :: "uptr \<Rightarrow> LargeChunkHeader"
  hstats :: AsanStats
  hreports :: "report list"
  hquarantine :: "uptr Quarantine"
  hqcache :: "u32 option \<Rightarrow> QCache"
  hreleased :: "uptr list"
  herrno :: nat
  hout_of_memory :: bool
  hmay_return_null :: bool
  hmin_redzone :: u16
  hmax_redzone :: u16
  halloc_dealloc_mismatch :: u8
  max_user_defined_malloc_size :: uptr
  hrelease_interval :: "32 word"

definition kAsanHeapLeftRedzoneMagic :: u8 where "kAsanHeapLeftRedzoneMagic = 0xfa"

text \<open>A chunk header and a large chunk header at one address are the same 16 bytes: writing one
  is seen by the readers of the other, which look at the first word and the first byte.\<close>

fun alloc_type_bits :: "AllocType \<Rightarrow> nat" where
  "alloc_type_bits FROM_MALLOC = 1"
| "alloc_type_bits FROM_NEW = 2"
| "alloc_type_bits FROM_NEW_BR = 3"

definition header_word :: "ChunkHeader \<Rightarrow> uptr" where
  "header_word h = ucast (chunk_state h) OR push_bit 8 (of_nat (alloc_type_bits (alloc_type h)))
     OR push_bit 10 (of_nat (lsan_tag h)) OR push_bit 12 (of_nat (user_requested_alignment_log h))
     OR push_bit 16 (ucast (user_requested_size_hi h)) OR push_bit 32 (ucast (user_requested_size_lo h))"

definition set_header :: "uptr \<Rightarrow> ChunkHeader \<Rightarrow> heap \<Rightarrow> heap" where
  "set_header m h st = st\<lparr>header := (header st)(m := h),
     large := (large st)(m := \<lparr>lc_magic = header_word h, lc_chunk_header = alloc_context_id h\<rparr>)\<rparr>"

definition set_large :: "uptr \<Rightarrow> LargeChunkHeader \<Rightarrow> heap \<Rightarrow> heap" where
  "set_large p l st = st\<lparr>large := (large st)(p := l),
     header := (header st)(p := (header st p)\<lparr>chunk_state := ucast (lc_magic l)\<rparr>)\<rparr>"

definition heap_PoisonShadow :: "alloc_env \<Rightarrow> uptr \<Rightarrow> uptr \<Rightarrow> u8 \<Rightarrow> heap \<Rightarrow> heap option" where
  "heap_PoisonShadow env addr sz value st = do { s \<leftarrow> PoisonShadow (ae env) addr sz value (hs st); Some (st\<lparr>hs := s\<rparr>) }"

definition real_memset :: "uptr \<Rightarrow> u8 \<Rightarrow> uptr \<Rightarrow> heap \<Rightarrow> heap" where
  "real_memset p v n st = st\<lparr>hmem := memset (hmem st) p v n\<rparr>"

definition real_memcpy :: "uptr \<Rightarrow> uptr \<Rightarrow> uptr \<Rightarrow> heap \<Rightarrow> heap" where
  "real_memcpy d s n st = st\<lparr>hmem := (\<lambda>q. if q - d < n then hmem st (s + (q - d)) else hmem st q)\<rparr>"

definition make_report :: "alloc_env \<Rightarrow> report \<Rightarrow> heap \<Rightarrow> heap option" where
  "make_report env r st = (if halt_on_error (ae env) then None else Some (st\<lparr>hreports := hreports st @ [r]\<rparr>))"

text \<open>The field \<^verbatim>\<open>free_context_id\<close> of \<^verbatim>\<open>ChunkBase\<close> is the first word of the user memory.\<close>

definition SetFreeContext :: "u32 \<Rightarrow> u32 \<Rightarrow> uptr \<Rightarrow> heap \<Rightarrow> heap" where
  "SetFreeContext tid stack m st = st\<lparr>hmem := store64 (hmem st) (m + kChunkHeaderSize) (AtomicContextStore tid stack)\<rparr>"

definition GetFreeContext :: "uptr \<Rightarrow> heap \<Rightarrow> u32 \<times> u32" where
  "GetFreeContext m st = AtomicContextLoad (load64 (hmem st) (m + kChunkHeaderSize))"

section \<open>Redzones and alignment\<close>

definition RZLog2Size :: "nat \<Rightarrow> uptr option" where
  "RZLog2Size rz_log = do { CHECK (rz_log < 8); Some (push_bit rz_log 16) }"

definition RZSize2Log :: "uptr \<Rightarrow> nat option" where
  "RZSize2Log rz_size = do {
     CHECK (rz_size \<ge> 16);
     CHECK (rz_size \<le> 2048);
     CHECK (IsPowerOfTwo rz_size);
     l \<leftarrow> Log2 rz_size;
     let res = l - 4;
     s \<leftarrow> RZLog2Size res;
     CHECK (rz_size = s);
     Some res
   }"

definition size_rz_log :: "uptr \<Rightarrow> nat" where
  "size_rz_log user_requested_size =
     (if user_requested_size \<le> 64 - 16 then 0
      else if user_requested_size \<le> 128 - 32 then 1
      else if user_requested_size \<le> 512 - 64 then 2
      else if user_requested_size \<le> 4096 - 128 then 3
      else if user_requested_size \<le> 2 ^ 14 - 256 then 4
      else if user_requested_size \<le> 2 ^ 15 - 512 then 5
      else if user_requested_size \<le> 2 ^ 16 - 1024 then 6
      else 7)"

definition ComputeRZLog :: "heap \<Rightarrow> uptr \<Rightarrow> nat option" where
  "ComputeRZLog st user_requested_size = do {
     let rz_log = size_rz_log user_requested_size;
     hdr \<leftarrow> RoundUpToPowerOfTwo 16;
     hdr_log \<leftarrow> RZSize2Log hdr;
     min_log \<leftarrow> RZSize2Log (ucast (hmin_redzone st));
     max_log \<leftarrow> RZSize2Log (ucast (hmax_redzone st));
     Some (min (max rz_log (max min_log hdr_log)) (max max_log hdr_log))
   }"

definition ComputeUserRequestedAlignmentLog :: "uptr \<Rightarrow> nat option" where
  "ComputeUserRequestedAlignmentLog user_requested_alignment =
     (if user_requested_alignment < 8 then Some 0
      else do {
        l \<leftarrow> Log2 (if user_requested_alignment > 512 then 512 else user_requested_alignment);
        Some (l - 2)
      })"

definition ComputeUserAlignment :: "nat \<Rightarrow> uptr" where
  "ComputeUserAlignment align_log =
     (if align_log = 0 then 0 else push_bit (align_log + 2) 1)"

section \<open>Allocation\<close>

definition kMaxAllowedMallocSize :: uptr where "kMaxAllowedMallocSize = push_bit 40 1"

definition CanAllocate :: "uptr \<Rightarrow> uptr \<Rightarrow> bool" where
  "CanAllocate sz alignment \<longleftrightarrow> unat sz \<le> kMaxSize DefaultSizeClassMap \<and> unat alignment \<le> kMaxSize DefaultSizeClassMap"

text \<open>The first part of \<^verbatim>\<open>Allocate\<close>: the size of the redzone, the size to ask for, and from whom.\<close>

definition allocation_sizes :: "heap \<Rightarrow> uptr \<Rightarrow> uptr \<Rightarrow> (uptr \<times> uptr \<times> bool) option" where
  "allocation_sizes st sz alignment = do {
     CHECK (IsPowerOfTwo alignment);
     rz_log \<leftarrow> ComputeRZLog st sz;
     rz_size \<leftarrow> RZLog2Size rz_log;
     rounded_size \<leftarrow> RoundUpTo (max sz kChunkHeader2Size) alignment;
     let needed_size = rounded_size + rz_size;
     let needed_size = (if alignment > ASAN_SHADOW_GRANULARITY then needed_size + alignment else needed_size);
     let from_primary = CanAllocate needed_size alignment;
     let needed_size = (if \<not> from_primary then needed_size + rz_size else needed_size);
     CHECK (IsAligned needed_size ASAN_SHADOW_GRANULARITY);
     Some (rz_size, needed_size, from_primary)
   }"

definition poison_around :: "alloc_env \<Rightarrow> lower \<Rightarrow> uptr \<Rightarrow> uptr \<Rightarrow> uptr \<Rightarrow> heap \<Rightarrow> heap option" where
  "poison_around env low alloc_beg user_beg user_end st = do {
     tail_beg \<leftarrow> RoundUpTo user_end ASAN_SHADOW_GRANULARITY;
     let tail_end = alloc_beg + GetActuallyAllocatedSize low alloc_beg;
     st \<leftarrow> heap_PoisonShadow env alloc_beg (user_beg - alloc_beg) kAsanHeapLeftRedzoneMagic st;
     heap_PoisonShadow env tail_beg (tail_end - tail_beg) kAsanHeapLeftRedzoneMagic st
   }"

definition unpoison_user :: "alloc_env \<Rightarrow> uptr \<Rightarrow> uptr \<Rightarrow> heap \<Rightarrow> heap option" where
  "unpoison_user env user_beg sz st = do {
     let rounded_down = RoundDownTo sz ASAN_SHADOW_GRANULARITY;
     st \<leftarrow> (if rounded_down \<noteq> 0 then heap_PoisonShadow env user_beg rounded_down 0 st else Some st);
     if sz \<noteq> rounded_down \<and> CanPoisonMemory (hs st) then do {
       sh \<leftarrow> MemToShadow (mp (ae env)) (user_beg + rounded_down);
       Some (st\<lparr>hs := set_shadow sh (if poison_partial (ae env) then ucast (sz AND (ASAN_SHADOW_GRANULARITY - 1)) else 0) (hs st)\<rparr>)
     } else Some st
   }"

definition count_malloc :: "uptr \<Rightarrow> uptr \<Rightarrow> heap \<Rightarrow> heap option" where
  "count_malloc sz needed_size st = do {
     let s = hstats st;
     let s = s\<lparr>mallocs := mallocs s + 1, malloced := malloced s + sz, malloced_redzones := malloced_redzones s + (needed_size - sz)\<rparr>;
     s \<leftarrow> (if unat needed_size > kMaxSize DefaultSizeClassMap then Some (s\<lparr>malloc_large := malloc_large s + 1\<rparr>)
       else do {
         c \<leftarrow> ClassID DefaultSizeClassMap (unat needed_size);
         Some (s\<lparr>malloced_by_size := (malloced_by_size s)(c := malloced_by_size s c + 1)\<rparr>)
       });
     Some (st\<lparr>hstats := s\<rparr>)
   }"

definition kMainTid32 :: u32 where "kMainTid32 = 0"
definition kInvalidTid32 :: u32 where "kInvalidTid32 = -1"
definition kIgnored :: nat where "kIgnored = 3"
definition kDirectlyLeaked :: nat where "kDirectlyLeaked = 0"

text \<open>The second part of \<^verbatim>\<open>Allocate\<close>: what is done with the block \<open>allocated\<close>.\<close>

definition init_chunk ::
  "alloc_env \<Rightarrow> lower \<Rightarrow> call_ctx \<Rightarrow> uptr \<Rightarrow> uptr \<Rightarrow> uptr \<Rightarrow> nat \<Rightarrow> AllocType \<Rightarrow> bool \<Rightarrow> uptr \<Rightarrow> uptr \<Rightarrow> bool \<Rightarrow> heap \<Rightarrow>
     (uptr \<times> heap) option" where
  "init_chunk env low cc allocated sz alignment alignment_log ty can_fill rz_size needed_size from_primary st = do {
     let alloc_beg = allocated;
     let alloc_end = alloc_beg + needed_size;
     let user_beg = alloc_beg + rz_size;
     user_beg \<leftarrow> (if \<not> IsAligned user_beg alignment then RoundUpTo user_beg alignment else Some user_beg);
     let user_end = user_beg + sz;
     CHECK (user_end \<le> alloc_end);
     let m = user_beg - kChunkHeaderSize;
     let h = (header st m)\<lparr>alloc_type := ty\<rparr>;
     CHECK (sz \<noteq> 0);
     h \<leftarrow> SetUsedSize sz h;
     let h = h\<lparr>user_requested_alignment_log := alignment_log\<rparr>;
     let h = SetAllocContext (case cc_thread cc of Some t \<Rightarrow> t | None \<Rightarrow> kMainTid32) (cc_stack cc) h;
     st \<leftarrow> (if \<not> from_primary \<or> shadow (hs st) (MEM_TO_SHADOW (mp (ae env)) allocated) = 0
       then poison_around env low alloc_beg user_beg user_end st else Some st);
     st \<leftarrow> unpoison_user env user_beg sz st;
     st \<leftarrow> count_malloc sz needed_size st;
     let st = (if can_fill \<and> max_malloc_fill_size env \<noteq> 0
       then real_memset user_beg (malloc_fill_byte env) (min sz (max_malloc_fill_size env)) st else st);
     let h = h\<lparr>lsan_tag := (if cc_lsan_disabled cc then kIgnored else kDirectlyLeaked)\<rparr>;
     let h = h\<lparr>chunk_state := CHUNK_ALLOCATED\<rparr>;
     let st = set_header m h st;
     st \<leftarrow> (if alloc_beg \<noteq> m then do {
         CHECK (alloc_beg + 16 \<le> m);
         l \<leftarrow> LargeChunkHeader_Set m (large st alloc_beg);
         Some (set_large alloc_beg l st)
       } else Some st);
     Some (user_beg, st)
   }"

definition Allocator_Allocate ::
  "alloc_env \<Rightarrow> lower \<Rightarrow> call_ctx \<Rightarrow> uptr \<Rightarrow> uptr \<Rightarrow> uptr \<Rightarrow> AllocType \<Rightarrow> bool \<Rightarrow> heap \<Rightarrow> (uptr \<times> heap) option" where
  "Allocator_Allocate env low cc allocated sz alignment ty can_fill st =
     (if cc_rss_limit_exceeded cc then (if hmay_return_null st then Some (0, st) else None)
      else do {
        alignment_log \<leftarrow> ComputeUserRequestedAlignmentLog alignment;
        let alignment = (if alignment < ASAN_SHADOW_GRANULARITY then ASAN_SHADOW_GRANULARITY else alignment);
        let sz = (if sz = 0 then 1 else sz);
        (rz_size, needed_size, from_primary) \<leftarrow> allocation_sizes st sz alignment;
        if sz > kMaxAllowedMallocSize \<or> needed_size > kMaxAllowedMallocSize \<or> sz > max_user_defined_malloc_size st then
          (if hmay_return_null st then Some (0, st\<lparr>hreports := hreports st @ [AllocationFailed sz]\<rparr>) else None)
        else if allocated = 0 then (if hmay_return_null st then Some (0, st\<lparr>hout_of_memory := True\<rparr>) else None)
        else init_chunk env low cc allocated sz alignment alignment_log ty can_fill rz_size needed_size from_primary st
      })"

section \<open>Deallocation through the quarantine\<close>

definition FillChunk :: "alloc_env \<Rightarrow> uptr \<Rightarrow> heap \<Rightarrow> heap" where
  "FillChunk env m st =
     (if max_free_fill_size env > 0 then
        let scribble_start = m + kChunkHeaderSize + kChunkHeader2Size in
        if UsedSize (header st m) \<ge> kChunkHeader2Size then
          let size_to_fill = UsedSize (header st m) - kChunkHeader2Size;
              size_to_fill = min size_to_fill (max_free_fill_size env)
          in real_memset scribble_start (free_fill_byte env) size_to_fill st
        else st
      else st)"

definition cb_PreQuarantine :: "alloc_env \<Rightarrow> uptr \<Rightarrow> heap \<Rightarrow> heap option" where
  "cb_PreQuarantine env m st = do {
     let st = FillChunk env m st;
     n \<leftarrow> RoundUpTo (UsedSize (header st m)) ASAN_SHADOW_GRANULARITY;
     heap_PoisonShadow env (chunk_Beg m) n kAsanHeapFreeMagic st
   }"

definition cb_Recycle :: "alloc_env \<Rightarrow> lower \<Rightarrow> uptr \<Rightarrow> heap \<Rightarrow> heap option" where
  "cb_Recycle env low m st = do {
     let p = GetBlockBegin low m;
     st \<leftarrow> (if FromPrimary low p then do {
         st \<leftarrow> (if p \<noteq> m then do { l \<leftarrow> LargeChunkHeader_Set 0 (large st p); Some (set_large p l st) } else Some st);
         CHECK (chunk_state (header st m) = CHUNK_QUARANTINE);
         let st = set_header m ((header st m)\<lparr>chunk_state := CHUNK_INVALID\<rparr>) st;
         n \<leftarrow> RoundUpTo (UsedSize (header st m)) ASAN_SHADOW_GRANULARITY;
         heap_PoisonShadow env (chunk_Beg m) n kAsanHeapLeftRedzoneMagic st
       } else Some st);
     let s = hstats st;
     let st = st\<lparr>hstats := s\<lparr>real_frees := real_frees s + 1, really_freed := really_freed s + UsedSize (header st m)\<rparr>\<rparr>;
     Some (st\<lparr>hreleased := hreleased st @ [p]\<rparr>)
   }"

definition cb_RecyclePassThrough :: "alloc_env \<Rightarrow> lower \<Rightarrow> uptr \<Rightarrow> heap \<Rightarrow> heap option" where
  "cb_RecyclePassThrough env low m st = cb_Recycle env low m (if FromPrimary low m then FillChunk env m st else st)"

text \<open>The calls that the quarantine makes to its callback, in the order it makes them.\<close>

fun apply_events :: "alloc_env \<Rightarrow> lower \<Rightarrow> uptr QEvent list \<Rightarrow> heap \<Rightarrow> heap option" where
  "apply_events env low [] st = Some st"
| "apply_events env low (PreQuarantine m # es) st = do { st \<leftarrow> cb_PreQuarantine env m st; apply_events env low es st }"
| "apply_events env low (Recycle m # es) st = do { st \<leftarrow> cb_Recycle env low m st; apply_events env low es st }"
| "apply_events env low (RecyclePassThrough m # es) st = do { st \<leftarrow> cb_RecyclePassThrough env low m st; apply_events env low es st }"
| "apply_events env low (Deallocate b # es) st = apply_events env low es (st\<lparr>hreleased := hreleased st @ [of_nat b]\<rparr>)"

definition new_events :: "'p Quarantine \<Rightarrow> 'p Quarantine \<Rightarrow> 'p QEvent list" where
  "new_events q q' = drop (length (q_log q)) (q_log q')"

definition after_quarantine :: "alloc_env \<Rightarrow> lower \<Rightarrow> u32 option \<Rightarrow> (QCache \<times> uptr Quarantine) option \<Rightarrow> heap \<Rightarrow> heap option" where
  "after_quarantine env low t res st = do {
     (c, q) \<leftarrow> res;
     apply_events env low (new_events (hquarantine st) q) (st\<lparr>hquarantine := q, hqcache := (hqcache st)(t := c)\<rparr>)
   }"

definition QuarantineChunk :: "alloc_env \<Rightarrow> lower \<Rightarrow> call_ctx \<Rightarrow> uptr \<Rightarrow> heap \<Rightarrow> heap option" where
  "QuarantineChunk env low cc m st = do {
     CHECK (chunk_state (header st m) = CHUNK_QUARANTINE);
     let st = SetFreeContext (case cc_thread cc of Some t \<Rightarrow> t | None \<Rightarrow> 0) (cc_stack cc) m st;
     after_quarantine env low (cc_thread cc)
       (q_Put (cc_recycle_lock cc) (cc_batch cc) (hqcache st (cc_thread cc)) m (unat (UsedSize (header st m))) (hquarantine st)) st
   }"

definition ReportInvalidFree :: "alloc_env \<Rightarrow> uptr \<Rightarrow> u8 \<Rightarrow> heap \<Rightarrow> heap option" where
  "ReportInvalidFree env p state st =
     make_report env (if state = CHUNK_QUARANTINE then DoubleFree p else FreeNotMalloced p) st"

definition AtomicallySetQuarantineFlagIfAllocated :: "alloc_env \<Rightarrow> uptr \<Rightarrow> uptr \<Rightarrow> heap \<Rightarrow> (bool \<times> heap) option" where
  "AtomicallySetQuarantineFlagIfAllocated env m p st =
     (if chunk_state (header st m) \<noteq> CHUNK_ALLOCATED then do {
        st \<leftarrow> ReportInvalidFree env p (chunk_state (header st m)) st;
        Some (False, st)
      } else do {
        let h = (header st m)\<lparr>chunk_state := CHUNK_QUARANTINE\<rparr>;
        Some (True, SetFreeContext kInvalidTid32 0 m (set_header m h st))
      })"

definition check_dealloc_types :: "alloc_env \<Rightarrow> call_ctx \<Rightarrow> uptr \<Rightarrow> uptr \<Rightarrow> uptr \<Rightarrow> uptr \<Rightarrow> AllocType \<Rightarrow> heap \<Rightarrow> heap option" where
  "check_dealloc_types env cc m p delete_size delete_alignment ty st =
     (if alloc_type (header st m) \<noteq> ty then
        if halloc_dealloc_mismatch st \<noteq> 0 \<and> \<not> cc_mismatch_suppressed cc
        then make_report env (AllocTypeMismatch p (alloc_type (header st m)) ty) st else Some st
      else if new_delete_type_mismatch env \<and> (ty = FROM_NEW \<or> ty = FROM_NEW_BR) then do {
        mismatch \<leftarrow> (if delete_size \<noteq> 0 \<and> delete_size \<noteq> UsedSize (header st m) then Some True
          else do {
            l \<leftarrow> ComputeUserRequestedAlignmentLog delete_alignment;
            Some (l \<noteq> user_requested_alignment_log (header st m))
          });
        if mismatch then make_report env (NewDeleteTypeMismatch p delete_size delete_alignment) st else Some st
      } else Some st)"

definition Allocator_Deallocate ::
  "alloc_env \<Rightarrow> lower \<Rightarrow> call_ctx \<Rightarrow> uptr \<Rightarrow> uptr \<Rightarrow> uptr \<Rightarrow> AllocType \<Rightarrow> heap \<Rightarrow> heap option" where
  "Allocator_Deallocate env low cc p delete_size delete_alignment ty st =
     (if p = 0 then Some st
      else
        let m = p - kChunkHeaderSize in
        if cc_free_hook_ignores cc then Some (set_header m ((header st m)\<lparr>alloc_type := FROM_MALLOC\<rparr>) st)
        else do {
          (ok, st) \<leftarrow> AtomicallySetQuarantineFlagIfAllocated env m p st;
          if \<not> ok then Some st
          else do {
            st \<leftarrow> check_dealloc_types env cc m p delete_size delete_alignment ty st;
            let s = hstats st;
            let st = st\<lparr>hstats := s\<lparr>frees := frees s + 1, freed := freed s + UsedSize (header st m)\<rparr>\<rparr>;
            QuarantineChunk env low cc m st
          }
        })"

definition Allocator_Reallocate :: "alloc_env \<Rightarrow> lower \<Rightarrow> call_ctx \<Rightarrow> uptr \<Rightarrow> uptr \<Rightarrow> uptr \<Rightarrow> heap \<Rightarrow> (uptr \<times> heap) option" where
  "Allocator_Reallocate env low cc allocated old_ptr new_size st = do {
     CHECK (old_ptr \<noteq> 0 \<and> new_size \<noteq> 0);
     let m = old_ptr - kChunkHeaderSize;
     let s = hstats st;
     let st = st\<lparr>hstats := s\<lparr>reallocs := reallocs s + 1, realloced := realloced s + new_size\<rparr>\<rparr>;
     (new_ptr, st) \<leftarrow> Allocator_Allocate env low cc allocated new_size 8 FROM_MALLOC True st;
     if new_ptr \<noteq> 0 then do {
       st \<leftarrow> (if chunk_state (header st m) \<noteq> CHUNK_ALLOCATED then ReportInvalidFree env old_ptr (chunk_state (header st m)) st else Some st);
       let st = real_memcpy new_ptr old_ptr (min new_size (UsedSize (header st m))) st;
       st \<leftarrow> Allocator_Deallocate env low cc old_ptr 0 0 FROM_MALLOC st;
       Some (new_ptr, st)
     } else Some (new_ptr, st)
   }"

definition CheckForCallocOverflow :: "uptr \<Rightarrow> uptr \<Rightarrow> bool" where
  "CheckForCallocOverflow sz n = (if sz = 0 then False else (-1) div sz < n)"

definition Allocator_Calloc :: "alloc_env \<Rightarrow> lower \<Rightarrow> call_ctx \<Rightarrow> uptr \<Rightarrow> uptr \<Rightarrow> uptr \<Rightarrow> heap \<Rightarrow> (uptr \<times> heap) option" where
  "Allocator_Calloc env low cc allocated nmemb sz st =
     (if CheckForCallocOverflow sz nmemb then (if hmay_return_null st then Some (0, st) else None)
      else do {
        (p, st) \<leftarrow> Allocator_Allocate env low cc allocated (nmemb * sz) 8 FROM_MALLOC False st;
        Some (p, if p \<noteq> 0 \<and> FromPrimary low p then real_memset p 0 (nmemb * sz) st else st)
      })"

definition CommitBack :: "alloc_env \<Rightarrow> lower \<Rightarrow> call_ctx \<Rightarrow> heap \<Rightarrow> heap option" where
  "CommitBack env low cc st =
     after_quarantine env low (cc_thread cc) (q_Drain (cc_recycle_lock cc) (hqcache st (cc_thread cc)) (hquarantine st)) st"

definition Purge :: "alloc_env \<Rightarrow> lower \<Rightarrow> call_ctx \<Rightarrow> heap \<Rightarrow> heap option" where
  "Purge env low cc st = do {
     st \<leftarrow> (if cc_thread cc \<noteq> None
       then after_quarantine env low (cc_thread cc) (q_DrainAndRecycle (hqcache st (cc_thread cc)) (hquarantine st)) st else Some st);
     after_quarantine env low None (q_DrainAndRecycle (hqcache st None) (hquarantine st)) st
   }"

end
