(* ===== verification/Asan_Heap.thy ===== *)
theory Asan_Heap
  imports Asan_Allocator
begin

text \<open>
  The rest of \<^verbatim>\<open>asan_allocator.cpp\<close> above \<open>Asan_Allocator\<close>: the options of the allocator, the
  map and unmap callbacks, the lookup of chunks, the entry points behind \<^verbatim>\<open>malloc\<close> and its
  relatives, and the functions that the leak checker calls. A null pointer is the address 0.
\<close>

unbundle bit_operations_syntax

section \<open>Options\<close>

record AllocatorOptions =
  quarantine_size_mb :: u32
  thread_local_quarantine_size_kb :: u32
  min_redzone :: u16
  max_redzone :: u16
  may_return_null :: u8
  alloc_dealloc_mismatch :: u8
  release_to_os_interval_ms :: "32 word"

record alloc_flags =
  fl_quarantine_size_mb :: "32 word"
  fl_thread_local_quarantine_size_kb :: "32 word"
  fl_redzone :: "32 word"
  fl_max_redzone :: "32 word"
  fl_alloc_dealloc_mismatch :: bool
  cf_allocator_may_return_null :: bool
  cf_allocator_release_to_os_interval_ms :: "32 word"

definition SetFrom :: "alloc_flags \<Rightarrow> AllocatorOptions" where
  "SetFrom f = \<lparr>quarantine_size_mb = fl_quarantine_size_mb f,
     thread_local_quarantine_size_kb = fl_thread_local_quarantine_size_kb f,
     min_redzone = ucast (fl_redzone f), max_redzone = ucast (fl_max_redzone f),
     may_return_null = of_bool (cf_allocator_may_return_null f),
     alloc_dealloc_mismatch = of_bool (fl_alloc_dealloc_mismatch f),
     release_to_os_interval_ms = cf_allocator_release_to_os_interval_ms f\<rparr>"

definition CopyTo :: "AllocatorOptions \<Rightarrow> alloc_flags \<Rightarrow> alloc_flags" where
  "CopyTo options f = f\<lparr>fl_quarantine_size_mb := quarantine_size_mb options,
     fl_thread_local_quarantine_size_kb := thread_local_quarantine_size_kb options,
     fl_redzone := ucast (min_redzone options), fl_max_redzone := ucast (max_redzone options),
     cf_allocator_may_return_null := (may_return_null options \<noteq> 0),
     fl_alloc_dealloc_mismatch := (alloc_dealloc_mismatch options \<noteq> 0),
     cf_allocator_release_to_os_interval_ms := release_to_os_interval_ms options\<rparr>"

definition CheckOptions :: "AllocatorOptions \<Rightarrow> unit option" where
  "CheckOptions options = do {
     CHECK (min_redzone options \<ge> 16);
     CHECK (max_redzone options \<ge> min_redzone options);
     CHECK (max_redzone options \<le> 2048);
     CHECK (IsPowerOfTwo (ucast (min_redzone options)));
     CHECK (IsPowerOfTwo (ucast (max_redzone options)))
   }"

definition SharedInitCode :: "AllocatorOptions \<Rightarrow> heap \<Rightarrow> heap option" where
  "SharedInitCode options st = do {
     CheckOptions options;
     q \<leftarrow> q_Init (unat (push_bit 20 (ucast (quarantine_size_mb options) :: uptr)))
            (unat (push_bit 10 (ucast (thread_local_quarantine_size_kb options) :: uptr))) (hquarantine st);
     Some (st\<lparr>hquarantine := q, halloc_dealloc_mismatch := alloc_dealloc_mismatch options,
       hmin_redzone := min_redzone options, hmax_redzone := max_redzone options\<rparr>)
   }"

definition InitLinkerInitialized :: "alloc_env \<Rightarrow> AllocatorOptions \<Rightarrow> heap \<Rightarrow> heap option" where
  "InitLinkerInitialized env options st = do {
     let st = st\<lparr>hmay_return_null := (may_return_null options \<noteq> 0)\<rparr>;
     let st = st\<lparr>hrelease_interval := release_to_os_interval_ms options\<rparr>;
     st \<leftarrow> SharedInitCode options st;
     Some (st\<lparr>max_user_defined_malloc_size :=
       (if max_allocation_size_mb env \<noteq> 0 then push_bit 20 (max_allocation_size_mb env) else kMaxAllowedMallocSize)\<rparr>)
   }"

definition ApplyOptions :: "AllocatorOptions \<Rightarrow> heap \<Rightarrow> heap option" where
  "ApplyOptions options st = do {
     let st = st\<lparr>hmay_return_null := (may_return_null options \<noteq> 0)\<rparr>;
     let st = st\<lparr>hrelease_interval := release_to_os_interval_ms options\<rparr>;
     SharedInitCode options st
   }"

definition GetOptions :: "heap \<Rightarrow> AllocatorOptions" where
  "GetOptions st = \<lparr>
     quarantine_size_mb = ucast (drop_bit 20 (of_nat (q_max_size (hquarantine st)) :: uptr)),
     thread_local_quarantine_size_kb = ucast (drop_bit 10 (of_nat (q_max_cache_size (hquarantine st)) :: uptr)),
     min_redzone = hmin_redzone st, max_redzone = hmax_redzone st,
     may_return_null = of_bool (hmay_return_null st),
     alloc_dealloc_mismatch = halloc_dealloc_mismatch st,
     release_to_os_interval_ms = hrelease_interval st\<rparr>"

section \<open>Chunk lookup\<close>

definition GetAsanChunk :: "lower \<Rightarrow> heap \<Rightarrow> uptr \<Rightarrow> uptr" where
  "GetAsanChunk low st alloc_beg =
     (if alloc_beg = 0 then 0
      else
        let p = LargeChunkHeader_Get (large st alloc_beg) in
        if p = 0 \<and> \<not> FromPrimary low alloc_beg then 0
        else
          let p = (if p = 0 then alloc_beg else p);
              state = chunk_state (header st p)
          in if state = CHUNK_ALLOCATED \<or> state = CHUNK_QUARANTINE then p else 0)"

definition GetAsanChunkByAddr :: "lower \<Rightarrow> heap \<Rightarrow> uptr \<Rightarrow> uptr" where
  "GetAsanChunkByAddr low st p = GetAsanChunk low st (GetBlockBegin low p)"

definition AllocationSize :: "lower \<Rightarrow> heap \<Rightarrow> uptr \<Rightarrow> uptr" where
  "AllocationSize low st p =
     (let m = GetAsanChunkByAddr low st p in
      if m = 0 then 0
      else if chunk_state (header st m) \<noteq> CHUNK_ALLOCATED then 0
      else if chunk_Beg m \<noteq> p then 0
      else UsedSize (header st m))"

definition AllocationSizeFast :: "heap \<Rightarrow> uptr \<Rightarrow> uptr" where
  "AllocationSizeFast st p = UsedSize (header st (p - kChunkHeaderSize))"

definition view_IsValid :: "heap \<Rightarrow> uptr \<Rightarrow> bool" where
  "view_IsValid st cb \<longleftrightarrow> cb \<noteq> 0 \<and> chunk_state (header st cb) \<noteq> CHUNK_INVALID"

definition view_IsAllocated :: "heap \<Rightarrow> uptr \<Rightarrow> bool" where
  "view_IsAllocated st cb \<longleftrightarrow> cb \<noteq> 0 \<and> chunk_state (header st cb) = CHUNK_ALLOCATED"

definition view_IsQuarantined :: "heap \<Rightarrow> uptr \<Rightarrow> bool" where
  "view_IsQuarantined st cb \<longleftrightarrow> cb \<noteq> 0 \<and> chunk_state (header st cb) = CHUNK_QUARANTINE"

definition view_End :: "heap \<Rightarrow> uptr \<Rightarrow> uptr" where
  "view_End st cb = chunk_Beg cb + UsedSize (header st cb)"

definition view_UserRequestedAlignment :: "heap \<Rightarrow> uptr \<Rightarrow> u32" where
  "view_UserRequestedAlignment st cb = ucast (ComputeUserAlignment (user_requested_alignment_log (header st cb)))"

definition view_AllocTid :: "heap \<Rightarrow> uptr \<Rightarrow> uptr" where
  "view_AllocTid st cb = ucast (fst (GetAllocContext (header st cb)))"

definition view_FreeTid :: "heap \<Rightarrow> uptr \<Rightarrow> uptr" where
  "view_FreeTid st cb = (if \<not> view_IsQuarantined st cb then ucast kInvalidTid32 else ucast (fst (GetFreeContext cb st)))"

definition view_GetAllocStackId :: "heap \<Rightarrow> uptr \<Rightarrow> u32" where
  "view_GetAllocStackId st cb = snd (GetAllocContext (header st cb))"

definition view_GetFreeStackId :: "heap \<Rightarrow> uptr \<Rightarrow> u32" where
  "view_GetFreeStackId st cb = (if \<not> view_IsQuarantined st cb then 0 else snd (GetFreeContext cb st))"

definition view_AddrIsInside :: "heap \<Rightarrow> uptr \<Rightarrow> uptr \<Rightarrow> uptr \<Rightarrow> uptr option" where
  "view_AddrIsInside st cb addr asize =
     (if addr \<ge> chunk_Beg cb \<and> addr + asize \<le> view_End st cb then Some (addr - chunk_Beg cb) else None)"

definition view_AddrIsAtLeft :: "heap \<Rightarrow> uptr \<Rightarrow> uptr \<Rightarrow> uptr \<Rightarrow> uptr option" where
  "view_AddrIsAtLeft st cb addr asize =
     (if addr < chunk_Beg cb then Some (chunk_Beg cb - addr) else None)"

definition view_AddrIsAtRight :: "heap \<Rightarrow> uptr \<Rightarrow> uptr \<Rightarrow> uptr \<Rightarrow> uptr option" where
  "view_AddrIsAtRight st cb addr asize =
     (if addr + asize > view_End st cb then Some (addr - view_End st cb) else None)"

definition ChooseChunk :: "heap \<Rightarrow> uptr \<Rightarrow> uptr \<Rightarrow> uptr \<Rightarrow> uptr option" where
  "ChooseChunk st addr left_chunk right_chunk =
     (if left_chunk = 0 then Some right_chunk
      else if right_chunk = 0 then Some left_chunk
      else
        let left_state = chunk_state (header st left_chunk);
            right_state = chunk_state (header st right_chunk)
        in
        if left_state \<noteq> right_state \<and> left_state = CHUNK_ALLOCATED then Some left_chunk
        else if left_state \<noteq> right_state \<and> right_state = CHUNK_ALLOCATED then Some right_chunk
        else if left_state \<noteq> right_state \<and> left_state = CHUNK_QUARANTINE then Some left_chunk
        else if left_state \<noteq> right_state \<and> right_state = CHUNK_QUARANTINE then Some right_chunk
        else do {
          l_offset \<leftarrow> view_AddrIsAtRight st left_chunk addr 1;
          r_offset \<leftarrow> view_AddrIsAtLeft st right_chunk addr 1;
          Some (if l_offset <s r_offset then left_chunk else right_chunk)
        })"

text \<open>The loop that looks before \<open>addr\<close> for a chunk other than \<open>m1\<close>; \<open>m2\<close> is the last one seen.\<close>

function find_before :: "lower \<Rightarrow> heap \<Rightarrow> nat \<Rightarrow> uptr \<Rightarrow> uptr \<Rightarrow> nat \<Rightarrow> uptr \<Rightarrow> uptr" where
  "find_before low st page addr m1 l m2 =
     (if l < page then
        let m2 = GetAsanChunkByAddr low st (addr - of_nat l) in
        if m2 = m1 then find_before low st page addr m1 (l + 1) m2 else m2
      else m2)"
  by pat_completeness auto
termination
  by (relation "measure (\<lambda>(low, st, page, addr, m1, l, m2). page - l)") auto

declare find_before.simps [simp del]

definition FindHeapChunkByAddress :: "alloc_env \<Rightarrow> lower \<Rightarrow> heap \<Rightarrow> uptr \<Rightarrow> uptr option" where
  "FindHeapChunkByAddress env low st addr =
     (let m1 = GetAsanChunkByAddr low st addr in
      if m1 = 0 \<or> view_AddrIsAtLeft st m1 addr 1 \<noteq> None then
        let m2 = find_before low st (unat (page_size (ae env))) addr m1 1 0 in
        if m2 \<noteq> 0 \<and> view_AddrIsAtRight st m2 addr 1 \<noteq> None then ChooseChunk st addr m2 m1 else Some m1
      else Some m1)"

definition UpdateAllocationStack :: "lower \<Rightarrow> call_ctx \<Rightarrow> uptr \<Rightarrow> heap \<Rightarrow> bool \<times> heap" where
  "UpdateAllocationStack low cc addr st =
     (let m = GetAsanChunkByAddr low st addr in
      if m = 0 then (False, st)
      else if chunk_state (header st m) \<noteq> CHUNK_ALLOCATED then (False, st)
      else if chunk_Beg m \<noteq> addr then (False, st)
      else (True, set_header m (SetAllocContext (case cc_thread cc of Some t \<Rightarrow> t | None \<Rightarrow> kMainTid32) (cc_stack cc) (header st m)) st))"

definition AllocationBegin :: "lower \<Rightarrow> heap \<Rightarrow> uptr \<Rightarrow> uptr" where
  "AllocationBegin low st p =
     (let m = GetAsanChunkByAddr low st p in
      if m = 0 then 0
      else if chunk_state (header st m) \<noteq> CHUNK_ALLOCATED then 0
      else if UsedSize (header st m) = 0 then 0
      else chunk_Beg m)"

section \<open>Poisoning again after the options have changed\<close>

definition RePoisonChunk :: "alloc_env \<Rightarrow> lower \<Rightarrow> uptr \<Rightarrow> heap \<Rightarrow> heap option" where
  "RePoisonChunk env low cb st =
     (let ac = GetAsanChunk low st cb;
          allocated_size = GetActuallyAllocatedSize low cb;
          beg = chunk_Beg ac;
          fin = chunk_Beg ac + UsedSize (header st ac);
          chunk_end = cb + allocated_size
      in
      if ac \<noteq> 0 \<and> chunk_state (header st ac) = CHUNK_ALLOCATED \<and> cb < beg \<and> beg < fin \<and> fin \<le> chunk_end then do {
        st \<leftarrow> heap_PoisonShadow env cb (beg - cb) kAsanHeapLeftRedzoneMagic st;
        let end_aligned_down = RoundDownTo fin ASAN_SHADOW_GRANULARITY;
        Some (st\<lparr>hs := FastPoisonShadowPartialRightRedzone (ae env) end_aligned_down (fin - end_aligned_down)
          (chunk_end - end_aligned_down) kAsanHeapLeftRedzoneMagic (hs st)\<rparr>)
      } else heap_PoisonShadow env cb allocated_size kAsanHeapLeftRedzoneMagic st)"

fun RePoison_all :: "alloc_env \<Rightarrow> lower \<Rightarrow> uptr list \<Rightarrow> heap \<Rightarrow> heap option" where
  "RePoison_all env low [] st = Some st"
| "RePoison_all env low (c # cs) st = do { st \<leftarrow> RePoisonChunk env low c st; RePoison_all env low cs st }"

text \<open>\<open>chunks\<close> is what \<^verbatim>\<open>ForEachChunk\<close> of the underlying allocator enumerates.\<close>

definition ReInitialize :: "alloc_env \<Rightarrow> lower \<Rightarrow> uptr list \<Rightarrow> AllocatorOptions \<Rightarrow> heap \<Rightarrow> heap option" where
  "ReInitialize env low chunks options st = do {
     st \<leftarrow> ApplyOptions options st;
     if CanPoisonMemory (hs st) then RePoison_all env low chunks st else Some st
   }"

section \<open>Callbacks of the underlying allocator\<close>

definition OnMap :: "alloc_env \<Rightarrow> uptr \<Rightarrow> uptr \<Rightarrow> heap \<Rightarrow> heap option" where
  "OnMap env p sz st = do {
     st \<leftarrow> heap_PoisonShadow env p sz kAsanHeapLeftRedzoneMagic st;
     let s = hstats st;
     Some (st\<lparr>hstats := s\<lparr>mmaps := mmaps s + 1, mmaped := mmaped s + sz\<rparr>\<rparr>)
   }"

definition OnMapSecondary :: "alloc_env \<Rightarrow> uptr \<Rightarrow> uptr \<Rightarrow> uptr \<Rightarrow> uptr \<Rightarrow> heap \<Rightarrow> heap option" where
  "OnMapSecondary env p sz user_begin user_size st = do {
     let user_end = RoundDownTo (user_begin + user_size) ASAN_SHADOW_GRANULARITY;
     user_begin \<leftarrow> RoundUpTo user_begin ASAN_SHADOW_GRANULARITY;
     st \<leftarrow> heap_PoisonShadow env p (user_begin - p) kAsanHeapLeftRedzoneMagic st;
     st \<leftarrow> heap_PoisonShadow env user_end (sz - (user_end - p)) kAsanHeapLeftRedzoneMagic st;
     let s = hstats st;
     Some (st\<lparr>hstats := s\<lparr>mmaps := mmaps s + 1, mmaped := mmaped s + sz\<rparr>\<rparr>)
   }"

text \<open>\<open>release\<close> is the effect of \<^verbatim>\<open>ReleaseMemoryPagesToOS\<close> on the shadow memory.\<close>

definition FlushUnneededASanShadowMemory :: "(uptr \<Rightarrow> uptr \<Rightarrow> mem \<Rightarrow> mem) \<Rightarrow> asan_env \<Rightarrow> uptr \<Rightarrow> uptr \<Rightarrow> asan_state \<Rightarrow> asan_state option" where
  "FlushUnneededASanShadowMemory release env p sz s = do {
     a \<leftarrow> MemToShadow (mp env) p;
     b \<leftarrow> MemToShadow (mp env) (p + sz);
     Some (s\<lparr>shadow := release a b (shadow s)\<rparr>)
   }"

definition OnUnmap :: "(uptr \<Rightarrow> uptr \<Rightarrow> mem \<Rightarrow> mem) \<Rightarrow> alloc_env \<Rightarrow> uptr \<Rightarrow> uptr \<Rightarrow> heap \<Rightarrow> heap option" where
  "OnUnmap release env p sz st = do {
     st \<leftarrow> heap_PoisonShadow env p sz 0 st;
     s' \<leftarrow> FlushUnneededASanShadowMemory release (ae env) p sz (hs st);
     let st = st\<lparr>hs := s'\<rparr>;
     let s = hstats st;
     Some (st\<lparr>hstats := s\<lparr>munmaps := munmaps s + 1, munmaped := munmaped s + sz\<rparr>\<rparr>)
   }"

section \<open>Entry points\<close>

definition errno_ENOMEM :: nat where "errno_ENOMEM = 12"
definition errno_EINVAL :: nat where "errno_EINVAL = 22"

definition SetErrnoOnNull :: "uptr \<times> heap \<Rightarrow> uptr \<times> heap" where
  "SetErrnoOnNull r = (if fst r = 0 then (fst r, (snd r)\<lparr>herrno := errno_ENOMEM\<rparr>) else r)"

definition CheckAlignedAllocAlignmentAndSize :: "uptr \<Rightarrow> uptr \<Rightarrow> bool" where
  "CheckAlignedAllocAlignmentAndSize alignment sz \<longleftrightarrow>
     alignment \<noteq> 0 \<and> IsPowerOfTwo alignment \<and> sz AND (alignment - 1) = 0"

definition CheckPosixMemalignAlignment :: "uptr \<Rightarrow> bool" where
  "CheckPosixMemalignAlignment alignment \<longleftrightarrow> alignment \<noteq> 0 \<and> IsPowerOfTwo alignment \<and> alignment mod 8 = 0"

definition CheckForPvallocOverflow :: "uptr \<Rightarrow> uptr \<Rightarrow> bool option" where
  "CheckForPvallocOverflow sz page = do { r \<leftarrow> RoundUpTo sz page; Some (r < sz) }"

definition errno_Allocate ::
  "alloc_env \<Rightarrow> lower \<Rightarrow> call_ctx \<Rightarrow> uptr \<Rightarrow> uptr \<Rightarrow> uptr \<Rightarrow> AllocType \<Rightarrow> heap \<Rightarrow> (uptr \<times> heap) option" where
  "errno_Allocate env low cc allocated sz alignment ty st = do {
     r \<leftarrow> Allocator_Allocate env low cc allocated sz alignment ty True st;
     Some (SetErrnoOnNull r)
   }"

definition asan_free :: "alloc_env \<Rightarrow> lower \<Rightarrow> call_ctx \<Rightarrow> uptr \<Rightarrow> AllocType \<Rightarrow> heap \<Rightarrow> heap option" where
  "asan_free env low cc p ty st = Allocator_Deallocate env low cc p 0 0 ty st"

definition asan_delete :: "alloc_env \<Rightarrow> lower \<Rightarrow> call_ctx \<Rightarrow> uptr \<Rightarrow> uptr \<Rightarrow> uptr \<Rightarrow> AllocType \<Rightarrow> heap \<Rightarrow> heap option" where
  "asan_delete env low cc p sz alignment ty st = Allocator_Deallocate env low cc p sz alignment ty st"

definition asan_malloc :: "alloc_env \<Rightarrow> lower \<Rightarrow> call_ctx \<Rightarrow> uptr \<Rightarrow> uptr \<Rightarrow> heap \<Rightarrow> (uptr \<times> heap) option" where
  "asan_malloc env low cc allocated sz st = errno_Allocate env low cc allocated sz 8 FROM_MALLOC st"

definition asan_calloc :: "alloc_env \<Rightarrow> lower \<Rightarrow> call_ctx \<Rightarrow> uptr \<Rightarrow> uptr \<Rightarrow> uptr \<Rightarrow> heap \<Rightarrow> (uptr \<times> heap) option" where
  "asan_calloc env low cc allocated nmemb sz st = do {
     r \<leftarrow> Allocator_Calloc env low cc allocated nmemb sz st;
     Some (SetErrnoOnNull r)
   }"

definition asan_realloc :: "alloc_env \<Rightarrow> lower \<Rightarrow> call_ctx \<Rightarrow> uptr \<Rightarrow> uptr \<Rightarrow> uptr \<Rightarrow> heap \<Rightarrow> (uptr \<times> heap) option" where
  "asan_realloc env low cc allocated p sz st =
     (if p = 0 then errno_Allocate env low cc allocated sz 8 FROM_MALLOC st
      else if sz = 0 \<and> frees_and_returns_null_on_realloc_zero env then do {
        st \<leftarrow> Allocator_Deallocate env low cc p 0 0 FROM_MALLOC st;
        Some (0, st)
      } else do {
        r \<leftarrow> Allocator_Reallocate env low cc allocated p (if sz = 0 then 1 else sz) st;
        Some (SetErrnoOnNull r)
      })"

definition asan_reallocarray :: "alloc_env \<Rightarrow> lower \<Rightarrow> call_ctx \<Rightarrow> uptr \<Rightarrow> uptr \<Rightarrow> uptr \<Rightarrow> uptr \<Rightarrow> heap \<Rightarrow> (uptr \<times> heap) option" where
  "asan_reallocarray env low cc allocated p nmemb sz st =
     (if CheckForCallocOverflow sz nmemb then
        (if hmay_return_null st then Some (0, st\<lparr>herrno := errno_ENOMEM\<rparr>) else None)
      else asan_realloc env low cc allocated p (nmemb * sz) st)"

definition asan_valloc :: "alloc_env \<Rightarrow> lower \<Rightarrow> call_ctx \<Rightarrow> uptr \<Rightarrow> uptr \<Rightarrow> heap \<Rightarrow> (uptr \<times> heap) option" where
  "asan_valloc env low cc allocated sz st = errno_Allocate env low cc allocated sz (page_size (ae env)) FROM_MALLOC st"

definition asan_pvalloc :: "alloc_env \<Rightarrow> lower \<Rightarrow> call_ctx \<Rightarrow> uptr \<Rightarrow> uptr \<Rightarrow> heap \<Rightarrow> (uptr \<times> heap) option" where
  "asan_pvalloc env low cc allocated sz st = do {
     let PageSize = page_size (ae env);
     overflow \<leftarrow> CheckForPvallocOverflow sz PageSize;
     if overflow then (if hmay_return_null st then Some (0, st\<lparr>herrno := errno_ENOMEM\<rparr>) else None)
     else do {
       sz \<leftarrow> (if sz \<noteq> 0 then RoundUpTo sz PageSize else Some PageSize);
       errno_Allocate env low cc allocated sz PageSize FROM_MALLOC st
     }
   }"

definition asan_memalign :: "alloc_env \<Rightarrow> lower \<Rightarrow> call_ctx \<Rightarrow> uptr \<Rightarrow> uptr \<Rightarrow> uptr \<Rightarrow> AllocType \<Rightarrow> heap \<Rightarrow> (uptr \<times> heap) option" where
  "asan_memalign env low cc allocated alignment sz ty st =
     (if \<not> IsPowerOfTwo alignment then
        (if hmay_return_null st then Some (0, st\<lparr>herrno := errno_EINVAL\<rparr>) else None)
      else errno_Allocate env low cc allocated sz alignment ty st)"

definition asan_aligned_alloc :: "alloc_env \<Rightarrow> lower \<Rightarrow> call_ctx \<Rightarrow> uptr \<Rightarrow> uptr \<Rightarrow> uptr \<Rightarrow> heap \<Rightarrow> (uptr \<times> heap) option" where
  "asan_aligned_alloc env low cc allocated alignment sz st =
     (if \<not> CheckAlignedAllocAlignmentAndSize alignment sz then
        (if hmay_return_null st then Some (0, st\<lparr>herrno := errno_EINVAL\<rparr>) else None)
      else errno_Allocate env low cc allocated sz alignment FROM_MALLOC st)"

text \<open>The result is the error number, and the pointer to store if it is 0.\<close>

definition asan_posix_memalign :: "alloc_env \<Rightarrow> lower \<Rightarrow> call_ctx \<Rightarrow> uptr \<Rightarrow> uptr \<Rightarrow> uptr \<Rightarrow> heap \<Rightarrow> (nat \<times> uptr option \<times> heap) option" where
  "asan_posix_memalign env low cc allocated alignment sz st =
     (if \<not> CheckPosixMemalignAlignment alignment then
        (if hmay_return_null st then Some (errno_EINVAL, None, st) else None)
      else do {
        (p, st) \<leftarrow> Allocator_Allocate env low cc allocated sz alignment FROM_MALLOC True st;
        if p = 0 then Some (errno_ENOMEM, None, st)
        else do { CHECK (IsAligned p alignment); Some (0, Some p, st) }
      })"

definition asan_malloc_usable_size :: "alloc_env \<Rightarrow> lower \<Rightarrow> uptr \<Rightarrow> heap \<Rightarrow> (uptr \<times> heap) option" where
  "asan_malloc_usable_size env low p st =
     (if p = 0 then Some (0, st)
      else do {
        let usable_size = AllocationSize low st p;
        st \<leftarrow> (if check_malloc_usable_size env \<and> usable_size = 0 then make_report env (MallocUsableSizeNotOwned p) st else Some st);
        Some (usable_size, st)
      })"

definition sanitizer_get_ownership :: "lower \<Rightarrow> heap \<Rightarrow> uptr \<Rightarrow> bool" where
  "sanitizer_get_ownership low st p \<longleftrightarrow> AllocationSize low st p > 0"

definition sanitizer_get_allocated_size :: "alloc_env \<Rightarrow> lower \<Rightarrow> uptr \<Rightarrow> heap \<Rightarrow> (uptr \<times> heap) option" where
  "sanitizer_get_allocated_size env low p st =
     (if p = 0 then Some (0, st)
      else do {
        let allocated_size = AllocationSize low st p;
        st \<leftarrow> (if allocated_size = 0 then make_report env (SanitizerGetAllocatedSizeNotOwned p) st else Some st);
        Some (allocated_size, st)
      })"

section \<open>What the leak checker asks for\<close>

definition IsItaniumABIArrayCookie :: "heap \<Rightarrow> uptr \<Rightarrow> uptr \<Rightarrow> uptr \<Rightarrow> bool" where
  "IsItaniumABIArrayCookie st chunk_beg chunk_size addr \<longleftrightarrow>
     chunk_size = 8 \<and> chunk_beg + chunk_size = addr \<and> load64 (hmem st) chunk_beg = 0"

definition PointsIntoChunk :: "lower \<Rightarrow> heap \<Rightarrow> uptr \<Rightarrow> uptr" where
  "PointsIntoChunk low st addr =
     (let m = GetAsanChunkByAddr low st addr in
      if m = 0 \<or> chunk_state (header st m) \<noteq> CHUNK_ALLOCATED then 0
      else if chunk_AddrIsInside m (header st m) addr then chunk_Beg m
      else if IsItaniumABIArrayCookie st (chunk_Beg m) (UsedSize (header st m)) addr then chunk_Beg m
      else 0)"

definition GetUserBegin :: "lower \<Rightarrow> heap \<Rightarrow> uptr \<Rightarrow> uptr" where
  "GetUserBegin low st cb =
     (let m = GetAsanChunkByAddr low st cb in if m \<noteq> 0 then chunk_Beg m else 0)"

definition LsanMetadata :: "uptr \<Rightarrow> uptr" where
  "LsanMetadata cb = (if cb \<noteq> 0 then cb - kChunkHeaderSize else 0)"

definition metadata_allocated :: "heap \<Rightarrow> uptr \<Rightarrow> bool" where
  "metadata_allocated st metadata \<longleftrightarrow> metadata \<noteq> 0 \<and> chunk_state (header st metadata) = CHUNK_ALLOCATED"

definition metadata_set_tag :: "nat \<Rightarrow> uptr \<Rightarrow> heap \<Rightarrow> heap" where
  "metadata_set_tag tag metadata st = set_header metadata ((header st metadata)\<lparr>lsan_tag := tag\<rparr>) st"

definition metadata_requested_size :: "heap \<Rightarrow> uptr \<Rightarrow> uptr" where
  "metadata_requested_size st metadata = UsedSize (header st metadata)"

definition metadata_stack_trace_id :: "heap \<Rightarrow> uptr \<Rightarrow> u32" where
  "metadata_stack_trace_id st metadata = snd (GetAllocContext (header st metadata))"

datatype IgnoreObjectResult = kIgnoreObjectSuccess | kIgnoreObjectAlreadyIgnored | kIgnoreObjectInvalid

definition IgnoreObject :: "lower \<Rightarrow> uptr \<Rightarrow> heap \<Rightarrow> IgnoreObjectResult \<times> heap" where
  "IgnoreObject low addr st =
     (let m = GetAsanChunkByAddr low st addr in
      if m = 0 \<or> chunk_state (header st m) \<noteq> CHUNK_ALLOCATED \<or> \<not> chunk_AddrIsInside m (header st m) addr
      then (kIgnoreObjectInvalid, st)
      else if lsan_tag (header st m) = kIgnored then (kIgnoreObjectAlreadyIgnored, st)
      else (kIgnoreObjectSuccess, metadata_set_tag kIgnored m st))"

end
