(* ===== verification/Asan_Allocator_Proofs.thy ===== *)
theory Asan_Allocator_Proofs
  imports Asan_Heap
begin

text \<open>
  What the allocator guarantees: the codings of the chunk header are lossless, an allocated block
  is accessible exactly in the bytes the user asked for, a freed one not at all, and an invalid free
  is reported and changes nothing else.
\<close>

unbundle bit_operations_syntax

section \<open>Codings\<close>

lemma AtomicContext_roundtrip: "AtomicContextLoad (AtomicContextStore tid stack) = (tid, stack)"
proof -
  have t: "unat tid < 2 ^ 32" and s: "unat stack < 2 ^ 32"
    using unsigned_less [of tid] unsigned_less [of stack] by simp_all
  have ut: "unat (ucast tid :: u64) = unat tid" and us: "unat (ucast stack :: u64) = unat stack"
    using t s by (simp_all add: unsigned_ucast_eq take_bit_eq_mod)
  have "unat (push_bit 32 (ucast tid :: u64)) = unat tid * 2 ^ 32"
    using t by (simp add: push_bit_eq_mult unat_word_ariths ut)
  then have u: "unat (AtomicContextStore tid stack) = unat tid * 2 ^ 32 + unat stack"
    using t s by (simp add: AtomicContextStore_def unat_word_ariths us)
  have "ucast (drop_bit 32 (AtomicContextStore tid stack)) = tid"
    using t s by (simp add: word_unat_eq_iff unsigned_ucast_eq take_bit_eq_mod u drop_bit_eq_div unat_div)
  moreover have "ucast (AtomicContextStore tid stack) = stack"
    using s by (simp add: word_unat_eq_iff unsigned_ucast_eq take_bit_eq_mod u)
  ultimately show ?thesis by (simp add: AtomicContextLoad_def)
qed

lemma SetUsedSize_run:
  assumes "unat sz < 2 ^ 48"
  shows "\<exists>h'. SetUsedSize sz h = Some h' \<and> UsedSize h' = sz \<and> chunk_state h' = chunk_state h \<and>
    alloc_type h' = alloc_type h \<and> alloc_context_id h' = alloc_context_id h"
proof -
  let ?h = "h\<lparr>user_requested_size_lo := ucast sz, user_requested_size_hi := ucast (drop_bit 32 sz)\<rparr>"
  have d: "unat (drop_bit 32 sz) = unat sz div 2 ^ 32" by (simp add: drop_bit_eq_div unat_div)
  have hi2: "unat (ucast (ucast (drop_bit 32 sz) :: u16) :: uptr) = unat sz div 2 ^ 32"
    using assms d by (simp add: unsigned_ucast_eq take_bit_eq_mod unat_mod)
  have lo: "unat (ucast (ucast sz :: u32) :: uptr) = unat sz mod 2 ^ 32"
    by (simp add: unsigned_ucast_eq take_bit_eq_mod unat_mod)
  have "unat (push_bit 32 (ucast (ucast (drop_bit 32 sz) :: u16) :: uptr)) = unat sz div 2 ^ 32 * 2 ^ 32"
    using assms by (simp add: push_bit_eq_mult unat_word_ariths hi2)
  then have "unat (UsedSize ?h) = unat sz"
    using assms by (simp add: UsedSize_def unat_word_ariths lo)
  then have "UsedSize ?h = sz" by (simp add: word_unat_eq_iff)
  then show ?thesis by (intro exI [of _ ?h]) (simp add: SetUsedSize_def)
qed

lemma header_word_low: "ucast (header_word h) = chunk_state h"
  by (rule bit_word_eqI) (simp add: header_word_def bit_simps)

lemma header_word_not_magic:
  "chunk_state h \<in> {CHUNK_INVALID, CHUNK_ALLOCATED, CHUNK_QUARANTINE} \<Longrightarrow> header_word h \<noteq> kAllocBegMagic"
  using header_word_low [of h]
  by (auto simp: kAllocBegMagic_def CHUNK_INVALID_def CHUNK_ALLOCATED_def CHUNK_QUARANTINE_def)

section \<open>Redzones\<close>

lemma RZLog2Size_exp: "l < 8 \<Longrightarrow> RZLog2Size l = Some (2 ^ (l + 4))"
  by (simp add: RZLog2Size_def push_bit_eq_mult power_add)

lemma RZSize2Log_exp:
  assumes "l < 8"
  shows "RZSize2Log (2 ^ (l + 4)) = Some l"
proof -
  have "unat (2 ^ (l + 4) :: uptr) = 2 ^ (l + 4)" using assms by (simp add: unat_exp)
  moreover have "(2::nat) ^ 4 \<le> 2 ^ (l + 4)" "(2::nat) ^ (l + 4) \<le> 2 ^ 11"
    using assms by (intro power_increasing; simp)+
  ultimately have "16 \<le> (2 ^ (l + 4) :: uptr)" "(2 ^ (l + 4) :: uptr) \<le> 2048"
    by (simp_all add: word_le_nat_alt)
  then show ?thesis using assms
    by (simp add: RZSize2Log_def Log2_exp RZLog2Size_exp Let_def)
qed

definition opts_ok :: "heap \<Rightarrow> bool" where
  "opts_ok st \<longleftrightarrow> (\<exists>a b. a \<le> b \<and> b < 8 \<and> ucast (hmin_redzone st) = (2 ^ (a + 4) :: uptr) \<and>
     ucast (hmax_redzone st) = (2 ^ (b + 4) :: uptr))"

lemma size_rz_log_less: "size_rz_log sz < 8"
  by (simp add: size_rz_log_def)

lemma hdr_rz: "RoundUpToPowerOfTwo 16 = Some 16" "RZSize2Log 16 = Some 0"
proof -
  have "IsPowerOfTwo 16" using IsPowerOfTwo_exp [of 4] by simp
  then show "RoundUpToPowerOfTwo 16 = Some 16" by (simp add: RoundUpToPowerOfTwo_def)
  show "RZSize2Log 16 = Some 0" using RZSize2Log_exp [of 0] by simp
qed

lemma ComputeRZLog_run:
  assumes "opts_ok st"
  shows "\<exists>l<8. ComputeRZLog st sz = Some l"
proof -
  obtain a b where ab: "a \<le> b" "b < 8" "ucast (hmin_redzone st) = (2 ^ (a + 4) :: uptr)"
      "ucast (hmax_redzone st) = (2 ^ (b + 4) :: uptr)"
    using assms by (auto simp: opts_ok_def)
  then have "ComputeRZLog st sz = Some (min (max (size_rz_log sz) a) b)"
    by (simp add: ComputeRZLog_def hdr_rz RZSize2Log_exp)
  then show ?thesis using ab(2) by (intro exI [of _ "min (max (size_rz_log sz) a) b"]) auto
qed

lemma power_8_dvd: "3 \<le> k \<Longrightarrow> (8::nat) dvd 2 ^ k"
  using le_imp_power_dvd [of 3 k "2::nat"] by simp

lemma unat_redzone: "l < 8 \<Longrightarrow> unat (2 ^ (l + 4) :: uptr) = 2 ^ (l + 4)"
  by (simp add: unat_exp)

lemma redzone_bounds: "l < 8 \<Longrightarrow> 16 \<le> (2::nat) ^ (l + 4) \<and> (2::nat) ^ (l + 4) \<le> 2048"
  using power_increasing [of 4 "l + 4" "2::nat"] power_increasing [of "l + 4" 11 "2::nat"] by simp

lemma allocation_sizes_run:
  assumes "opts_ok st" and "3 \<le> k" and "k \<le> 32" and "unat sz \<le> 2 ^ 39"
  shows "\<exists>l needed prim. l < 8 \<and> allocation_sizes st sz (2 ^ k) = Some (2 ^ (l + 4), needed, prim) \<and>
    8 dvd unat needed \<and> unat needed \<le> 2 ^ 40 \<and>
    unat sz + 2 ^ (l + 4) + (if k = 3 then 0 else 2 ^ k) \<le> unat needed"
proof -
  obtain l where l: "l < 8" "ComputeRZLog st sz = Some l" using ComputeRZLog_run [OF assms(1)] by blast
  have k2: "(2::nat) ^ k \<le> 2 ^ 32" using assms(3) by (intro power_increasing) simp_all
  have uk: "unat (2 ^ k :: uptr) = 2 ^ k" using assms(3) by (simp add: unat_exp)
  define mx where "mx = max sz 8"
  have mx: "unat mx = max (unat sz) 8" by (auto simp: mx_def max_def word_le_nat_alt)
  have mxb: "unat mx \<le> 2 ^ 39" using assms(4) by (simp add: mx)
  obtain r where r: "RoundUpTo mx (2 ^ k) = Some r" using RoundUpTo_exp by blast
  have ur: "unat r = (unat mx + (2 ^ k - 1)) div 2 ^ k * 2 ^ k"
    by (rule unat_RoundUpTo [OF r]) (use assms(3) mxb k2 in simp_all)
  have rb: "unat mx \<le> unat r" "unat r < unat mx + 2 ^ k"
    unfolding ur using round_up_div_bounds [of "2 ^ k" "unat mx"] by simp_all
  have r8: "8 dvd unat r" unfolding ur by (rule dvd_mult [OF power_8_dvd [OF assms(2)]])
  have rz: "unat (2 ^ (l + 4) :: uptr) = 2 ^ (l + 4)" "(2::nat) ^ (l + 4) \<le> 2048" "8 dvd (2::nat) ^ (l + 4)"
    using unat_redzone [OF l(1)] redzone_bounds [OF l(1)] power_8_dvd [of "l + 4"] by simp_all
  have gt: "2 ^ k > ASAN_SHADOW_GRANULARITY \<longleftrightarrow> k \<noteq> 3"
    using assms(2) power_strict_increasing_iff [of "2::nat" 3 k] by (auto simp: word_less_nat_alt uk)
  define n1 where "n1 = r + 2 ^ (l + 4)"
  define n2 where "n2 = (if 2 ^ k > ASAN_SHADOW_GRANULARITY then n1 + 2 ^ k else n1)"
  define n3 where "n3 = (if \<not> CanAllocate n2 (2 ^ k) then n2 + 2 ^ (l + 4) else n2)"
  have u1: "unat n1 = unat r + 2 ^ (l + 4)"
    using rz rb(2) mxb k2 by (simp add: n1_def unat_word_ariths)
  have u2: "unat n2 = unat n1 + (if k = 3 then 0 else 2 ^ k)"
    unfolding n2_def gt using u1 uk rz rb(2) mxb k2 by (simp add: unat_word_ariths)
  have u3: "unat n3 = unat n2 + (if CanAllocate n2 (2 ^ k) then 0 else 2 ^ (l + 4))"
    unfolding n3_def using u1 u2 rz rb(2) mxb k2 by (simp add: unat_word_ariths split: if_splits)
  have d3: "8 dvd unat n3"
    unfolding u3 u2 u1 using r8 rz(3) power_8_dvd [OF assms(2)] by (auto intro!: dvd_add)
  have "unat sz + 2 ^ (l + 4) + (if k = 3 then 0 else 2 ^ k) \<le> unat n3"
    unfolding u3 u2 u1 using rb(1) mx by auto
  moreover have "unat n3 \<le> 2 ^ 40"
    unfolding u3 u2 u1 using rb(2) mxb k2 rz(2) by auto
  moreover have "allocation_sizes st sz (2 ^ k) = Option.bind (CHECK (IsAligned n3 8)) (\<lambda>u. Some (2 ^ (l + 4), n3, CanAllocate n2 (2 ^ k)))"
    unfolding n3_def n2_def n1_def using l r
    by (simp add: allocation_sizes_def RZLog2Size_exp kChunkHeader2Size_def Let_def flip: mx_def)
  moreover have "IsAligned n3 8" using d3 IsAligned_iff_dvd [of n3 3] by simp
  ultimately show ?thesis using d3 l(1) by (auto simp: san_check)
qed

section \<open>The shadow of an allocated block\<close>

lemma ceil_div_8: "((a::nat) + 7) div 8 = (if a mod 8 = 0 then a div 8 else a div 8 + 1)"
proof -
  have "(8 * g + r + 7) div 8 = (if r = 0 then g else g + 1)" if "r < 8" for g r :: nat
    using that by (cases r) simp_all
  from this [of "a mod 8" "a div 8"] show ?thesis by simp
qed

lemma ceil_bounds:
  assumes "t = ((u::nat) + s + 7) div 8 * 8" and "u + s \<le> f" and "f mod 8 = 0"
  shows "u \<le> t" and "t \<le> f"
proof -
  from assms(3) obtain g where g: "f = 8 * g" by (auto simp: mod_eq_0_iff_dvd dvd_def)
  have "(u + s + 7) div 8 \<le> (8 * g + 7) div 8" using assms(2) g by (intro div_le_mono) simp
  then show "t \<le> f" using assms(1) g by simp
  show "u \<le> t" using assms(1) by linarith
qed

definition block_ok :: "alloc_env \<Rightarrow> uptr \<Rightarrow> uptr \<Rightarrow> bool" where
  "block_ok env beg n \<longleftrightarrow> beg \<noteq> 0 \<and> goffset beg = 0 \<and> goffset n = 0 \<and> unat beg + unat n < 2 ^ 64 \<and>
     (\<forall>x. beg \<le> x \<and> x \<le> beg + n \<longrightarrow> AddrIsInMem (mp (ae env)) x)"

lemma block_okD:
  assumes "block_ok env beg n"
  shows "8 \<le> unat beg" and "unat (beg + n) = unat beg + unat n"
    and "\<And>x. unat beg \<le> unat x \<Longrightarrow> unat x \<le> unat beg + unat n \<Longrightarrow> AddrIsInMem (mp (ae env)) x"
proof -
  show u: "unat (beg + n) = unat beg + unat n" using assms by (simp add: block_ok_def unat_word_ariths)
  have "unat beg \<noteq> 0" "unat beg mod 8 = 0" using assms by (auto simp: block_ok_def goffset_def unat_eq_0)
  then show "8 \<le> unat beg" by presburger
  show "AddrIsInMem (mp (ae env)) x" if "unat beg \<le> unat x" "unat x \<le> unat beg + unat n" for x
    using assms that u by (simp add: block_ok_def word_le_nat_alt)
qed

lemma heap_PoisonShadow_run:
  assumes "block_ok env beg n" and "platform_ok (ae env)" and "can_poison_memory (hs st) \<or> v = 0"
    and "goffset a = 0" and "goffset b = 0" and "unat beg \<le> unat a" and "unat a \<le> unat b" and "unat b \<le> unat beg + unat n"
    and "unat beg < unat b"
  shows "\<exists>s. heap_PoisonShadow env a (b - a) v st = Some (st\<lparr>hs := s\<rparr>) \<and>
    can_poison_memory s = can_poison_memory (hs st) \<and>
    (\<forall>x. shadow s (MEM_TO_SHADOW (mp (ae env)) x) =
       (if granule a \<le> granule x \<and> granule x < granule b then v else shadow (hs st) (MEM_TO_SHADOW (mp (ae env)) x)))"
proof -
  note B = block_okD [OF assms(1)]
  have b8: "8 \<le> unat b" using B(1) assms(9) by simp
  have ub: "unat (b - 8) = unat b - 8" using unat_sub [of 8 b] b8 by (simp add: word_le_nat_alt)
  have "unat beg mod 8 = 0" "unat b mod 8 = 0" using assms(1,5) by (auto simp: block_ok_def goffset_def)
  then have "unat beg + 8 \<le> unat b" using assms(9) by presburger
  then have ib: "AddrIsInMem (mp (ae env)) (b - 8)" using assms(8) by (intro B(3)) (simp_all add: ub)
  have ia: "AddrIsInMem (mp (ae env)) a" using assms(6-8) by (intro B(3)) simp_all
  have "granule a \<le> granule b" using assms(7) by (simp add: granule_def div_le_mono)
  from PoisonShadow_run [OF assms(2-5) this b8 ia ib]
  show ?thesis by (auto simp: heap_PoisonShadow_def)
qed

text \<open>The user region \<open>u\<close>, \<open>sz\<close> of a block.\<close>

definition user_ok :: "uptr \<Rightarrow> uptr \<Rightarrow> uptr \<Rightarrow> uptr \<Rightarrow> bool" where
  "user_ok beg n u sz \<longleftrightarrow> goffset u = 0 \<and> unat beg + 16 \<le> unat u \<and> 0 < unat sz \<and> unat u + unat sz \<le> unat beg + unat n"

lemma granule_user:
  assumes "goffset u = 0" and "unat u + m < 2 ^ 64"
  shows "granule (u + of_nat m) = granule u + m div 8" and "goffset (u + of_nat m) = m mod 8"
proof -
  have "unat (u + of_nat m) = 8 * granule u + m"
    using unat_add_of_nat [OF assms(2)] unat_granule [of u] assms(1) by simp
  then show "granule (u + of_nat m) = granule u + m div 8" and "goffset (u + of_nat m) = m mod 8"
    by (simp_all add: granule_def goffset_def)
qed

lemma unpoison_user_run:
  assumes "block_ok env beg n" and "user_ok beg n u sz" and "platform_ok (ae env)" and "poison_partial (ae env)"
    and "can_poison_memory (hs st)"
  shows "\<exists>s. unpoison_user env u sz st = Some (st\<lparr>hs := s\<rparr>) \<and> can_poison_memory s \<and>
    (\<forall>x. shadow s (MEM_TO_SHADOW (mp (ae env)) x) =
       (if granule u \<le> granule x \<and> granule x < granule u + unat sz div 8 then 0
        else if unat sz mod 8 \<noteq> 0 \<and> granule x = granule u + unat sz div 8 then of_nat (unat sz mod 8)
        else shadow (hs st) (MEM_TO_SHADOW (mp (ae env)) x)))"
proof -
  let ?M = "MEM_TO_SHADOW (mp (ae env))"
  note B = block_okD [OF assms(1)]
  have U: "goffset u = 0" "unat beg + 16 \<le> unat u" "0 < unat sz" "unat u + unat sz \<le> unat beg + unat n"
    using assms(2) by (simp_all add: user_ok_def)
  have n64: "unat beg + unat n < 2 ^ 64" using assms(1) by (simp add: block_ok_def)
  define d where "d = unat sz div 8 * 8"
  have d: "d \<le> unat sz" "d mod 8 = 0" "d div 8 = unat sz div 8" by (simp_all add: d_def)
  have rd: "RoundDownTo sz 8 = of_nat d"
    using unat_RoundDownTo [of sz 3] unat_of_nat_uptr [of d] d(1) uptr_bound [of sz] by (simp add: word_unat_eq_iff flip: d_def)
  have dlt: "unat u + d < 2 ^ 64" using U(4) d(1) n64 by linarith
  note gd = granule_user [OF U(1) dlt] and ud = unat_add_of_nat [OF dlt]
  have d0: "(of_nat d :: uptr) = 0 \<longleftrightarrow> d = 0"
    using unat_of_nat_uptr [of d] dlt by (auto simp: word_unat_eq_iff)
  have a: "\<exists>s. (if of_nat d \<noteq> (0::uptr) then heap_PoisonShadow env u (of_nat d) 0 st else Some st) = Some (st\<lparr>hs := s\<rparr>) \<and>
      can_poison_memory s \<and> (\<forall>x. shadow s (?M x) =
        (if granule u \<le> granule x \<and> granule x < granule u + unat sz div 8 then 0 else shadow (hs st) (?M x)))"
  proof (cases "d = 0")
    case True
    then show ?thesis using d(3) assms(5) by (intro exI [of _ "hs st"]) auto
  next
    case False
    have "\<exists>s. heap_PoisonShadow env u (u + of_nat d - u) 0 st = Some (st\<lparr>hs := s\<rparr>) \<and>
      can_poison_memory s = can_poison_memory (hs st) \<and> (\<forall>x. shadow s (?M x) =
        (if granule u \<le> granule x \<and> granule x < granule (u + of_nat d) then 0 else shadow (hs st) (?M x)))"
      by (rule heap_PoisonShadow_run [OF assms(1,3)]) (use U gd ud d in simp_all)
    then show ?thesis using False d0 gd(1) d(3) assms(5) by simp
  qed
  then obtain s where s: "(if of_nat d \<noteq> (0::uptr) then heap_PoisonShadow env u (of_nat d) 0 st else Some st) = Some (st\<lparr>hs := s\<rparr>)"
    "can_poison_memory s" "\<And>x. shadow s (?M x) =
        (if granule u \<le> granule x \<and> granule x < granule u + unat sz div 8 then 0 else shadow (hs st) (?M x))"
    by blast
  have ne: "sz \<noteq> of_nat d \<longleftrightarrow> unat sz mod 8 \<noteq> 0"
  proof -
    have "sz = of_nat d \<longleftrightarrow> unat sz = d" using unat_of_nat_uptr [of d] dlt by (simp add: word_unat_eq_iff)
    then show ?thesis using div_mult_mod_eq [of "unat sz" 8] unfolding d_def by linarith
  qed
  have im: "AddrIsInMem (mp (ae env)) (u + of_nat d)" by (rule B(3)) (use U ud d in linarith)+
  have bv: "(ucast (sz AND 7) :: u8) = of_nat (unat sz mod 8)"
    using unat_and_7 [of sz] by (simp add: word_unat_eq_iff unsigned_ucast_eq take_bit_eq_mod goffset_def unat_of_nat)
  let ?s = "if unat sz mod 8 \<noteq> 0 then set_shadow (?M (u + of_nat d)) (of_nat (unat sz mod 8)) s else s"
  have "unpoison_user env u sz st = Some (st\<lparr>hs := ?s\<rparr>)"
    using s(1,2) im ne assms(4) by (simp add: unpoison_user_def rd MemToShadow_def CanPoisonMemory_def bv)
  moreover have "can_poison_memory ?s" using s(2) by simp
  moreover have "shadow ?s (?M x) =
       (if granule u \<le> granule x \<and> granule x < granule u + unat sz div 8 then 0
        else if unat sz mod 8 \<noteq> 0 \<and> granule x = granule u + unat sz div 8 then of_nat (unat sz mod 8)
        else shadow (hs st) (?M x))" for x
    using s(3) gd(1) d(3) by (auto simp: MEM_TO_SHADOW_eq_iff)
  ultimately show ?thesis by blast
qed

lemma poison_around_run:
  assumes "block_ok env beg (GetActuallyAllocatedSize low beg)" and "user_ok beg (GetActuallyAllocatedSize low beg) u sz"
    and "platform_ok (ae env)" and "can_poison_memory (hs st)"
  shows "\<exists>s. poison_around env low beg u (u + sz) st = Some (st\<lparr>hs := s\<rparr>) \<and> can_poison_memory s \<and>
    (\<forall>x. shadow s (MEM_TO_SHADOW (mp (ae env)) x) =
       (if granule beg \<le> granule x \<and> granule x < granule u \<or>
           granule u + (unat sz + 7) div 8 \<le> granule x \<and> granule x < granule beg + granule (GetActuallyAllocatedSize low beg)
        then kAsanHeapLeftRedzoneMagic
        else shadow (hs st) (MEM_TO_SHADOW (mp (ae env)) x)))"
proof -
  let ?M = "MEM_TO_SHADOW (mp (ae env))" and ?n = "GetActuallyAllocatedSize low beg"
  have n64: "unat beg + unat ?n < 2 ^ 64" "goffset beg = 0" "goffset ?n = 0" using assms(1) by (simp_all add: block_ok_def)
  have U: "goffset u = 0" "unat beg + 16 \<le> unat u" "0 < unat sz" "unat u + unat sz \<le> unat beg + unat ?n"
    using assms(2) by (simp_all add: user_ok_def)
  have fin: "unat (beg + ?n) = unat beg + unat ?n" by (rule block_okD(2) [OF assms(1)])
  have gfin: "granule (beg + ?n) = granule beg + granule ?n" "goffset (beg + ?n) = 0"
    using granule_user [OF n64(2,1)] n64(3) by (simp_all add: granule_def goffset_def)
  obtain t where t: "RoundUpTo (u + sz) 8 = Some t" using RoundUpTo_exp [of "u + sz" 3] by simp
  have us: "unat (u + sz) = unat u + unat sz" using U(4) n64(1) by (simp add: unat_word_ariths)
  have m8: "unat (beg + ?n) mod 8 = 0" "unat u mod 8 = 0" using gfin(2) U(1) by (simp_all add: goffset_def)
  have top: "unat u + unat sz + 7 < 2 ^ 64"
    using U(4) fin unat_granule [of "beg + ?n"] gfin(2) granule_bound [of "beg + ?n"] by simp
  have ut: "unat t = (unat u + unat sz + 7) div 8 * 8"
    using unat_RoundUpTo [of "u + sz" 3 t] t top us by simp
  have gt: "granule t = granule u + (unat sz + 7) div 8" "goffset t = 0"
    using unat_granule [of u] U(1) by (simp_all add: granule_def [of t] goffset_def [of t] ut)
  have tle: "unat u \<le> unat t" "unat t \<le> unat (beg + ?n)"
    using ceil_bounds [OF ut _ m8(1)] U(4) fin by simp_all
  have p1: "\<exists>s. heap_PoisonShadow env beg (u - beg) kAsanHeapLeftRedzoneMagic st = Some (st\<lparr>hs := s\<rparr>) \<and>
      can_poison_memory s = can_poison_memory (hs st) \<and> (\<forall>x. shadow s (?M x) =
        (if granule beg \<le> granule x \<and> granule x < granule u then kAsanHeapLeftRedzoneMagic else shadow (hs st) (?M x)))"
    by (rule heap_PoisonShadow_run [OF assms(1,3)]) (use U n64 assms(4) in simp_all)
  then obtain s1 where s1: "heap_PoisonShadow env beg (u - beg) kAsanHeapLeftRedzoneMagic st = Some (st\<lparr>hs := s1\<rparr>)"
      "can_poison_memory s1" "\<And>x. shadow s1 (?M x) =
        (if granule beg \<le> granule x \<and> granule x < granule u then kAsanHeapLeftRedzoneMagic else shadow (hs st) (?M x))"
    using assms(4) by blast
  have "\<exists>s. heap_PoisonShadow env t (beg + ?n - t) kAsanHeapLeftRedzoneMagic (st\<lparr>hs := s1\<rparr>) = Some (st\<lparr>hs := s1\<rparr>\<lparr>hs := s\<rparr>) \<and>
      can_poison_memory s = can_poison_memory (hs (st\<lparr>hs := s1\<rparr>)) \<and> (\<forall>x. shadow s (?M x) =
        (if granule t \<le> granule x \<and> granule x < granule (beg + ?n) then kAsanHeapLeftRedzoneMagic
         else shadow (hs (st\<lparr>hs := s1\<rparr>)) (?M x)))"
    by (rule heap_PoisonShadow_run [OF assms(1,3)]) (use U n64 gt gfin fin tle s1(2) in simp_all)
  then obtain s2 where s2: "heap_PoisonShadow env t (beg + ?n - t) kAsanHeapLeftRedzoneMagic (st\<lparr>hs := s1\<rparr>) = Some (st\<lparr>hs := s2\<rparr>)"
      "can_poison_memory s2" "\<And>x. shadow s2 (?M x) =
        (if granule t \<le> granule x \<and> granule x < granule (beg + ?n) then kAsanHeapLeftRedzoneMagic else shadow s1 (?M x))"
    using s1(2) by auto
  have "poison_around env low beg u (u + sz) st = Some (st\<lparr>hs := s2\<rparr>)"
    using t s1(1) s2(1) by (simp add: poison_around_def)
  moreover have "shadow s2 (?M x) =
      (if granule beg \<le> granule x \<and> granule x < granule u \<or>
          granule u + (unat sz + 7) div 8 \<le> granule x \<and> granule x < granule beg + granule ?n
       then kAsanHeapLeftRedzoneMagic else shadow (hs st) (?M x))" for x
    unfolding s2(3) s1(3) gt(1) gfin(1) by simp
  ultimately show ?thesis using s2(2) by blast
qed

definition in_block :: "uptr \<Rightarrow> uptr \<Rightarrow> uptr \<Rightarrow> bool" where
  "in_block beg n x \<longleftrightarrow> unat beg \<le> unat x \<and> unat x < unat beg + unat n"

text \<open>A byte of the block is poisoned iff it is not one of the user's, and no other byte has changed.\<close>

definition exactly_accessible :: "alloc_env \<Rightarrow> uptr \<Rightarrow> uptr \<Rightarrow> uptr \<Rightarrow> uptr \<Rightarrow> heap \<Rightarrow> heap \<Rightarrow> bool" where
  "exactly_accessible env beg n u sz st st' \<longleftrightarrow>
     (\<forall>x. poisoned (ae env) (hs st') x \<longleftrightarrow>
        (if in_block beg n x then \<not> in_block u sz x else poisoned (ae env) (hs st) x))"

lemma user_granules:
  fixes x u sz :: uptr
  assumes "goffset u = 0"
  shows "in_block u sz x \<longleftrightarrow> granule u \<le> granule x \<and> (granule x < granule u + unat sz div 8 \<or>
    (granule x = granule u + unat sz div 8 \<and> goffset x < unat sz mod 8))"
proof -
  have "8 * gu \<le> 8 * gx + j \<and> 8 * gx + j < 8 * gu + (8 * q + r) \<longleftrightarrow>
      gu \<le> gx \<and> (gx < gu + q \<or> (gx = gu + q \<and> j < r))" if "j < 8" "r < 8" for gu gx j q r :: nat
  proof -
    consider "gx < gu" | "gu \<le> gx" "gx < gu + q" | "gx = gu + q" | "gu + q < gx" by linarith
    then show ?thesis using that by cases linarith+
  qed
  from this [OF goffset_less(1) [of x], of "unat sz mod 8" "granule u" "granule x" "unat sz div 8"]
  show ?thesis using assms unat_granule [of u] unat_granule [of x] by (simp add: in_block_def)
qed

lemma user_granules_in_block:
  assumes "block_ok env beg n" and "user_ok beg n u sz"
    and "granule u \<le> granule x" and "granule x < granule u + (unat sz + 7) div 8"
  shows "in_block beg n x"
proof -
  have U: "goffset u = 0" "unat beg + 16 \<le> unat u" "unat u + unat sz \<le> unat beg + unat n"
    using assms(2) by (simp_all add: user_ok_def)
  have al: "unat beg = 8 * granule beg" "unat n = 8 * granule n"
    using assms(1) unat_granule [of beg] unat_granule [of n] by (simp_all add: block_ok_def)
  have uu: "unat u = 8 * granule u" using unat_granule [of u] U(1) by simp
  have "8 * ((unat sz + 7) div 8) \<le> 8 * (granule beg + granule n - granule u)"
    using ceil_bounds(2) [of "(0 + unat sz + 7) div 8 * 8" 0 "unat sz" "8 * (granule beg + granule n - granule u)"] U(3)
    unfolding al uu by simp
  moreover have "granule u \<le> granule beg + granule n" using U(3) unfolding al uu by linarith
  ultimately have "(unat sz + 7) div 8 + granule u \<le> granule beg + granule n" by linarith
  then have "granule x < granule beg + granule n" using assms(4) by linarith
  then show ?thesis
    using U(2) assms(3) unat_granule [of x] goffset_less(1) [of x] unfolding in_block_def al uu by linarith
qed

lemma unpoison_user_exact:
  assumes "block_ok env beg n" and "user_ok beg n u sz" and "platform_ok (ae env)" and "poison_partial (ae env)"
    and "can_poison_memory (hs st)"
    and pre: "\<And>x. in_block beg n x \<Longrightarrow> \<not> (granule u \<le> granule x \<and> granule x < granule u + (unat sz + 7) div 8) \<Longrightarrow>
      poisoned (ae env) (hs st) x"
  shows "\<exists>s. unpoison_user env u sz st = Some (st\<lparr>hs := s\<rparr>) \<and> can_poison_memory s \<and>
    (\<forall>x. poisoned (ae env) s x \<longleftrightarrow> (if in_block beg n x then \<not> in_block u sz x else poisoned (ae env) (hs st) x))"
proof -
  let ?M = "MEM_TO_SHADOW (mp (ae env))" and ?q = "unat sz div 8" and ?r = "unat sz mod 8"
  have U: "goffset u = 0" using assms(2) by (simp add: user_ok_def)
  obtain s where s: "unpoison_user env u sz st = Some (st\<lparr>hs := s\<rparr>)" "can_poison_memory s"
    "\<And>x. shadow s (?M x) =
       (if granule u \<le> granule x \<and> granule x < granule u + ?q then 0
        else if ?r \<noteq> 0 \<and> granule x = granule u + ?q then of_nat ?r else shadow (hs st) (?M x))"
    using unpoison_user_run [OF assms(1-5)] by blast
  have ceil: "(unat sz + 7) div 8 = (if ?r = 0 then ?q else ?q + 1)"
    by (rule ceil_div_8)
  have "poisoned (ae env) s x \<longleftrightarrow> (if in_block beg n x then \<not> in_block u sz x else poisoned (ae env) (hs st) x)" for x
  proof (cases "granule u \<le> granule x \<and> granule x < granule u + (unat sz + 7) div 8")
    case True
    then have b: "in_block beg n x" using user_granules_in_block [OF assms(1,2)] by blast
    show ?thesis
    proof (cases "granule x < granule u + ?q")
      case True
      then show ?thesis using b \<open>granule u \<le> granule x \<and> _\<close> user_granules [OF U, of sz x] s(3) [of x]
        by (simp add: poisoned_alt)
    next
      case False
      then have eq: "?r \<noteq> 0" "granule x = granule u + ?q" using True ceil by (auto split: if_splits)
      then have "sint (shadow s (?M x)) = int ?r" using s(3) [of x] by (simp add: sint_u8_of_nat)
      then show ?thesis using b eq user_granules [OF U, of sz x] by (auto simp: poisoned_alt)
    qed
  next
    case False
    then have "shadow s (?M x) = shadow (hs st) (?M x)" using s(3) [of x] ceil by (auto split: if_splits)
    moreover have "\<not> in_block u sz x"
      using False user_granules [OF U, of sz x] ceil by (auto split: if_splits)
    ultimately show ?thesis using pre [OF _ False] by (auto simp: poisoned_alt)
  qed
  then show ?thesis using s(1,2) by blast
qed

section \<open>Allocation\<close>

lemma count_malloc_run:
  assumes "0 < unat needed"
  shows "\<exists>s. count_malloc sz needed st = Some (st\<lparr>hstats := s\<rparr>)"
proof (cases "unat needed > kMaxSize DefaultSizeClassMap")
  case True
  then show ?thesis by (auto simp: count_malloc_def Let_def)
next
  case False
  then obtain c where "ClassID DefaultSizeClassMap (unat needed) = Some c"
    using ClassID_run [OF DefaultSizeClassMap_ok, of "unat needed"] assms by auto
  then show ?thesis using False by (auto simp: count_malloc_def Let_def)
qed

lemma user_beg_run:
  assumes "16 dvd unat beg" and "3 \<le> k" and "k \<le> 32" and "l < 8"
    and fit: "unat sz + 2 ^ (l + 4) + (if k = 3 then 0 else 2 ^ k) \<le> unat needed"
    and "unat beg + unat needed < 2 ^ 64"
  shows "\<exists>u. (if \<not> IsAligned (beg + 2 ^ (l + 4)) (2 ^ k) then RoundUpTo (beg + 2 ^ (l + 4)) (2 ^ k) else Some (beg + 2 ^ (l + 4))) = Some u \<and>
    16 dvd unat u \<and> 2 ^ k dvd unat u \<and> unat beg + 2 ^ (l + 4) \<le> unat u \<and> unat u + unat sz \<le> unat beg + unat needed \<and>
    (k = 3 \<longrightarrow> u = beg + 2 ^ (l + 4))"
proof -
  let ?a = "beg + 2 ^ (l + 4) :: uptr"
  have ua: "unat ?a = unat beg + 2 ^ (l + 4)"
    using unat_redzone [OF assms(4)] fit assms(6) by (simp add: unat_word_ariths)
  have a16: "16 dvd unat ?a" unfolding ua using assms(1) le_imp_power_dvd [of 4 "l + 4" "2::nat"] by (intro dvd_add) simp_all
  show ?thesis
  proof (cases "IsAligned ?a (2 ^ k)")
    case True
    then show ?thesis using a16 ua fit assms(6) IsAligned_iff_dvd [of ?a k] by (auto split: if_splits)
  next
    case False
    have "k \<noteq> 3"
    proof
      assume "k = 3"
      moreover have "8 dvd unat ?a" using a16 by (rule dvd_trans [rotated]) simp
      ultimately show False using False IsAligned_iff_dvd [of ?a 3] by simp
    qed
    then have k4: "4 \<le> k" and fit': "unat sz + 2 ^ (l + 4) + 2 ^ k \<le> unat needed" using assms(2) fit by simp_all
    obtain u where u: "RoundUpTo ?a (2 ^ k) = Some u" using RoundUpTo_exp by blast
    have uu: "unat u = (unat ?a + (2 ^ k - 1)) div 2 ^ k * 2 ^ k"
      by (rule unat_RoundUpTo [OF u]) (use assms(3,6) fit' ua in simp_all)
    have kd: "2 ^ k dvd unat u" unfolding uu by simp
    have "16 dvd unat u" using kd le_imp_power_dvd [OF k4, of "2::nat"] by (simp add: dvd_trans)
    moreover have "unat ?a \<le> unat u" "unat u < unat ?a + 2 ^ k"
      unfolding uu by (rule round_up_div_bounds; simp)+
    ultimately show ?thesis using u kd False fit' ua \<open>k \<noteq> 3\<close> by simp
  qed
qed

text \<open>What an allocation of \<open>sz\<close> bytes, aligned to \<open>al\<close>, in the block \<open>beg\<close> leaves behind: the
  pointer \<open>u\<close> and the heap \<open>st'\<close>.\<close>

definition allocated_ok ::
  "alloc_env \<Rightarrow> lower \<Rightarrow> call_ctx \<Rightarrow> uptr \<Rightarrow> uptr \<Rightarrow> uptr \<Rightarrow> AllocType \<Rightarrow> heap \<Rightarrow> uptr \<Rightarrow> heap \<Rightarrow> bool" where
  "allocated_ok env low cc beg sz al ty st u st' \<longleftrightarrow>
     unat al dvd unat u \<and> unat beg + 16 \<le> unat u \<and> unat u + unat sz \<le> unat beg + unat (GetActuallyAllocatedSize low beg) \<and>
     exactly_accessible env beg (GetActuallyAllocatedSize low beg) u sz st st' \<and>
     (let h = header st' (u - 16) in chunk_state h = CHUNK_ALLOCATED \<and> UsedSize h = sz \<and> alloc_type h = ty \<and>
        GetAllocContext h = (case cc_thread cc of Some t \<Rightarrow> t | None \<Rightarrow> kMainTid32, cc_stack cc)) \<and>
     GetAsanChunk low st' beg = (if FromPrimary low beg \<or> u \<noteq> beg + 16 then u - 16 else 0)"

lemma poison_step_run:
  assumes "block_ok env beg (GetActuallyAllocatedSize low beg)" and "user_ok beg (GetActuallyAllocatedSize low beg) u sz"
    and "platform_ok (ae env)" and "poison_partial (ae env)" and "can_poison_memory (hs st)"
    and pre: "c \<or> (\<forall>x. in_block beg (GetActuallyAllocatedSize low beg) x \<longrightarrow> poisoned (ae env) (hs st) x)"
  shows "\<exists>s s'. (if c then poison_around env low beg u (u + sz) st else Some st) = Some (st\<lparr>hs := s\<rparr>) \<and>
    unpoison_user env u sz (st\<lparr>hs := s\<rparr>) = Some (st\<lparr>hs := s'\<rparr>) \<and>
    (\<forall>x. poisoned (ae env) s' x \<longleftrightarrow> (if in_block beg (GetActuallyAllocatedSize low beg) x then \<not> in_block u sz x else poisoned (ae env) (hs st) x))"
proof -
  let ?n = "GetActuallyAllocatedSize low beg" and ?M = "MEM_TO_SHADOW (mp (ae env))"
  have U: "goffset u = 0" "unat beg + 16 \<le> unat u" "unat u + unat sz \<le> unat beg + unat ?n" "0 < unat sz"
    using assms(2) by (simp_all add: user_ok_def)
  have al: "unat beg = 8 * granule beg" "unat ?n = 8 * granule ?n"
    using assms(1) unat_granule [of beg] unat_granule [of ?n] by (simp_all add: block_ok_def)
  have gx: "granule beg \<le> granule x \<and> granule x < granule beg + granule ?n \<longleftrightarrow> in_block beg ?n x" for x
    using unat_granule [of x] goffset_less(1) [of x] unfolding in_block_def al by (auto intro: order_less_le_trans)
  have "\<exists>s. (if c then poison_around env low beg u (u + sz) st else Some st) = Some (st\<lparr>hs := s\<rparr>) \<and> can_poison_memory s \<and>
    (\<forall>x. in_block beg ?n x \<longrightarrow> \<not> (granule u \<le> granule x \<and> granule x < granule u + (unat sz + 7) div 8) \<longrightarrow> poisoned (ae env) s x) \<and>
    (\<forall>x. \<not> in_block beg ?n x \<longrightarrow> poisoned (ae env) s x = poisoned (ae env) (hs st) x)"
  proof (cases c)
    case False
    then show ?thesis using pre assms(5) by (intro exI [of _ "hs st"]) auto
  next
    case True
    obtain s where s: "poison_around env low beg u (u + sz) st = Some (st\<lparr>hs := s\<rparr>)" "can_poison_memory s"
      "\<And>x. shadow s (?M x) = (if granule beg \<le> granule x \<and> granule x < granule u \<or>
           granule u + (unat sz + 7) div 8 \<le> granule x \<and> granule x < granule beg + granule ?n
        then kAsanHeapLeftRedzoneMagic else shadow (hs st) (?M x))"
      using poison_around_run [OF assms(1,2,3,5)] by blast
    have "poisoned (ae env) s x" if "in_block beg ?n x" "\<not> (granule u \<le> granule x \<and> granule x < granule u + (unat sz + 7) div 8)" for x
      using s(3) [of x] gx [of x] that by (auto simp: poisoned_alt kAsanHeapLeftRedzoneMagic_def)
    moreover have "poisoned (ae env) s x = poisoned (ae env) (hs st) x" if "\<not> in_block beg ?n x" for x
    proof -
      have "granule u < granule beg + granule ?n" using U(3,4) unat_granule [of u] unfolding al by linarith
      then have "\<not> (granule beg \<le> granule x \<and> granule x < granule u)" using gx [of x] that by auto
      moreover have "\<not> (granule u + (unat sz + 7) div 8 \<le> granule x \<and> granule x < granule beg + granule ?n)"
        using gx [of x] that U(1,2) unat_granule [of u] unfolding al by auto
      ultimately have "shadow s (?M x) = shadow (hs st) (?M x)" unfolding s(3) [of x] by (simp only: simp_thms if_False)
      then show ?thesis by (simp add: poisoned_alt)
    qed
    ultimately show ?thesis using True s(1,2) by auto
  qed
  then obtain s where s: "(if c then poison_around env low beg u (u + sz) st else Some st) = Some (st\<lparr>hs := s\<rparr>)" "can_poison_memory s"
    "\<And>x. in_block beg ?n x \<Longrightarrow> \<not> (granule u \<le> granule x \<and> granule x < granule u + (unat sz + 7) div 8) \<Longrightarrow> poisoned (ae env) s x"
    "\<And>x. \<not> in_block beg ?n x \<Longrightarrow> poisoned (ae env) s x = poisoned (ae env) (hs st) x" by blast
  have "\<exists>s'. unpoison_user env u sz (st\<lparr>hs := s\<rparr>) = Some (st\<lparr>hs := s\<rparr>\<lparr>hs := s'\<rparr>) \<and> can_poison_memory s' \<and>
    (\<forall>x. poisoned (ae env) s' x \<longleftrightarrow> (if in_block beg ?n x then \<not> in_block u sz x else poisoned (ae env) (hs (st\<lparr>hs := s\<rparr>)) x))"
    by (rule unpoison_user_exact [OF assms(1-4)]) (use s in simp_all)
  then obtain s' where s': "unpoison_user env u sz (st\<lparr>hs := s\<rparr>) = Some (st\<lparr>hs := s'\<rparr>)"
    "\<And>x. poisoned (ae env) s' x \<longleftrightarrow> (if in_block beg ?n x then \<not> in_block u sz x else poisoned (ae env) s x)" by auto
  show ?thesis
    by (intro exI [of _ s] exI [of _ s'] conjI s(1) s'(1)) (use s'(2) s(4) in simp)
qed

lemma unat_chunk: "unat beg + 16 \<le> unat u \<Longrightarrow> unat (u - 16 :: uptr) = unat u - 16"
  using unat_sub [of 16 u] by (simp add: word_le_nat_alt)

text \<open>The lookup of a chunk just written: by the large header, or by its own if it starts the block.\<close>

lemma GetAsanChunk_large:
  assumes "beg \<noteq> 0" and "m \<noteq> 0" and "beg \<noteq> m" and "chunk_state h = CHUNK_ALLOCATED"
  shows "GetAsanChunk low (set_large beg (l\<lparr>lc_chunk_header := m, lc_magic := kAllocBegMagic\<rparr>) (set_header m h st)) beg = m"
  using assms by (simp add: GetAsanChunk_def set_large_def set_header_def LargeChunkHeader_Get_def Let_def)

lemma GetAsanChunk_small:
  assumes "m \<noteq> 0" and "chunk_state h = CHUNK_ALLOCATED"
  shows "GetAsanChunk low (set_header m h st) m = (if FromPrimary low m then m else 0)"
  using assms header_word_not_magic [of h]
  by (simp add: GetAsanChunk_def set_header_def LargeChunkHeader_Get_def Let_def)

lemma init_chunk_run:
  assumes blk: "block_ok env beg (GetActuallyAllocatedSize low beg)" and "16 dvd unat beg"
    and "platform_ok (ae env)" and "poison_partial (ae env)" and "can_poison_memory (hs st)"
    and k: "3 \<le> k" "k \<le> 32" and l: "l < 8" and sz: "0 < unat sz" "unat sz \<le> 2 ^ 39"
    and fit: "unat sz + 2 ^ (l + 4) + (if k = 3 then 0 else 2 ^ k) \<le> unat needed"
    and needed: "unat needed \<le> unat (GetActuallyAllocatedSize low beg)"
    and pre: "\<not> prim \<or> shadow (hs st) (MEM_TO_SHADOW (mp (ae env)) beg) = 0 \<or>
      (\<forall>x. in_block beg (GetActuallyAllocatedSize low beg) x \<longrightarrow> poisoned (ae env) (hs st) x)"
  shows "\<exists>u st'. init_chunk env low cc beg sz (2 ^ k) alog ty fill (2 ^ (l + 4)) needed prim st = Some (u, st') \<and>
    allocated_ok env low cc beg sz (2 ^ k) ty st u st' \<and> u \<noteq> 0 \<and> (k = 3 \<longrightarrow> u = beg + 2 ^ (l + 4))"
proof -
  let ?n = "GetActuallyAllocatedSize low beg"
  have n64: "unat beg + unat ?n < 2 ^ 64" "beg \<noteq> 0" using blk by (simp_all add: block_ok_def)
  have "unat beg + unat needed < 2 ^ 64" using n64(1) needed by linarith
  then obtain u where u: "(if \<not> IsAligned (beg + 2 ^ (l + 4)) (2 ^ k) then RoundUpTo (beg + 2 ^ (l + 4)) (2 ^ k)
        else Some (beg + 2 ^ (l + 4))) = Some u"
      "16 dvd unat u" "2 ^ k dvd unat u" "unat beg + 2 ^ (l + 4) \<le> unat u" "unat u + unat sz \<le> unat beg + unat needed"
      "k = 3 \<longrightarrow> u = beg + 2 ^ (l + 4)"
    using user_beg_run [OF assms(2) k l fit] by blast
  have u16: "unat beg + 16 \<le> unat u" using u(4) redzone_bounds [OF l] by linarith
  have "goffset u = 0" using u(2) by (simp add: goffset_def) presburger
  then have U: "user_ok beg ?n u sz" using u16 sz u(5) needed by (simp add: user_ok_def)
  let ?c = "\<not> prim \<or> shadow (hs st) (MEM_TO_SHADOW (mp (ae env)) beg) = 0"
  obtain s s' where s: "(if ?c then poison_around env low beg u (u + sz) st else Some st) = Some (st\<lparr>hs := s\<rparr>)"
      "unpoison_user env u sz (st\<lparr>hs := s\<rparr>) = Some (st\<lparr>hs := s'\<rparr>)"
      "\<And>x. poisoned (ae env) s' x \<longleftrightarrow> (if in_block beg ?n x then \<not> in_block u sz x else poisoned (ae env) (hs st) x)"
    using poison_step_run [OF blk U assms(3-5), of ?c] pre by blast
  obtain h where h: "SetUsedSize sz ((header st (u - 16))\<lparr>alloc_type := ty\<rparr>) = Some h" "UsedSize h = sz" "alloc_type h = ty"
    using SetUsedSize_run [of sz "(header st (u - 16))\<lparr>alloc_type := ty\<rparr>"] sz(2) by auto
  obtain t where t: "count_malloc sz needed (st\<lparr>hs := s'\<rparr>) = Some (st\<lparr>hs := s'\<rparr>\<lparr>hstats := t\<rparr>)"
    using count_malloc_run [of needed sz "st\<lparr>hs := s'\<rparr>"] fit sz(1) by auto
  have le: "u + sz \<le> beg + needed"
    using u(5) n64 needed by (simp add: word_le_nat_alt unat_word_ariths)
  have m: "unat (u - 16) = unat u - 16" by (rule unat_chunk [OF u16])
  have apart: "beg + 16 \<le> u - 16" if "beg \<noteq> u - 16"
  proof -
    have "unat beg \<noteq> unat u - 16" using that m by (simp add: word_unat_eq_iff)
    moreover obtain a b where "unat u = 16 * a" "unat beg = 16 * b" using u(2) assms(2) by (auto simp: dvd_def)
    ultimately have "b + 1 \<noteq> a" "b + 1 \<le> a" "unat u = 16 * a" "unat beg = 16 * b" using u16 by auto
    then have "unat beg + 32 \<le> unat u" by linarith
    then show ?thesis using m n64(1) needed u(5) by (simp add: word_le_nat_alt unat_word_ariths)
  qed
  let ?h = "(SetAllocContext (case cc_thread cc of Some t \<Rightarrow> t | None \<Rightarrow> kMainTid32) (cc_stack cc) (h\<lparr>user_requested_alignment_log := alog\<rparr>))
    \<lparr>lsan_tag := (if cc_lsan_disabled cc then kIgnored else kDirectlyLeaked), chunk_state := CHUNK_ALLOCATED\<rparr>"
  let ?f = "\<lambda>s. if fill \<and> max_malloc_fill_size env \<noteq> 0
       then real_memset u (malloc_fill_byte env) (min sz (max_malloc_fill_size env)) s else s"
  let ?st = "set_header (u - 16) ?h (?f (st\<lparr>hs := s'\<rparr>\<lparr>hstats := t\<rparr>))"
  let ?st' = "if beg \<noteq> u - 16 then set_large beg ((large ?st beg)\<lparr>lc_chunk_header := u - 16, lc_magic := kAllocBegMagic\<rparr>) ?st else ?st"
  have m0: "u - 16 \<noteq> 0" using m u16 n64(2) by (auto simp: unat_eq_0 [symmetric])
  have "init_chunk env low cc beg sz (2 ^ k) alog ty fill (2 ^ (l + 4)) needed prim st = Some (u, ?st')"
    unfolding init_chunk_def Let_def u(1)
    using le sz(1) h(1) s(1,2) t apart m0
    by (simp add: kChunkHeaderSize_def LargeChunkHeader_Set_def unat_gt_0)
  moreover have hs: "hs ?st' = s'"
    by (simp add: set_large_def set_header_def real_memset_def)
  then have "exactly_accessible env beg ?n u sz st ?st'"
    using s(3) by (simp add: exactly_accessible_def)
  moreover have "header ?st' (u - 16) = ?h" by (simp add: set_large_def set_header_def)
  moreover have "GetAsanChunk low ?st' beg = (if FromPrimary low beg \<or> u \<noteq> beg + 16 then u - 16 else 0)"
    using GetAsanChunk_large [OF n64(2) m0, of ?h] GetAsanChunk_small [OF m0, of ?h] by auto
  moreover have "u \<noteq> 0" using u16 by auto
  ultimately show ?thesis
    using u(3,5,6) u16 needed h k(2)
    by (intro exI [of _ u] exI [of _ ?st'])
      (simp add: allocated_ok_def Let_def SetAllocContext_def GetAllocContext_def AtomicContext_roundtrip UsedSize_def unat_exp)
qed

end
