(* ===== verification/Asan_Heap_Proofs.thy ===== *)
theory Asan_Heap_Proofs
  imports Asan_Allocator_Proofs
begin

text \<open>The theorems on \<^verbatim>\<open>Allocate\<close>, \<^verbatim>\<open>Deallocate\<close> and the lookup of chunks.\<close>

unbundle bit_operations_syntax

section \<open>Allocation\<close>

lemma ComputeUserRequestedAlignmentLog_run:
  "k < 64 \<Longrightarrow> \<exists>a. ComputeUserRequestedAlignmentLog (2 ^ k) = Some a"
  using Log2_exp [of 9] Log2_exp [of k] by (simp add: ComputeUserRequestedAlignmentLog_def)

lemma min_alignment:
  assumes "k \<le> 32"
  shows "(if (2 ^ k :: uptr) < ASAN_SHADOW_GRANULARITY then ASAN_SHADOW_GRANULARITY else 2 ^ k) = 2 ^ max 3 k"
proof -
  have "(2 ^ k :: uptr) < 8 \<longleftrightarrow> k < 3"
    using power_strict_increasing_iff [of "2::nat" k 3] assms by (simp add: word_less_nat_alt unat_exp)
  then show ?thesis by (auto simp: max_def)
qed

lemma Allocate_run:
  assumes "opts_ok st" and "\<not> cc_rss_limit_exceeded cc" and "k \<le> 32"
    and "sz' = (if sz = 0 then 1 else sz)" and "unat sz' \<le> 2 ^ 39" and "sz' \<le> max_user_defined_malloc_size st"
    and "beg \<noteq> 0"
  shows "\<exists>l needed prim a. l < 8 \<and> allocation_sizes st sz' (2 ^ max 3 k) = Some (2 ^ (l + 4), needed, prim) \<and>
    unat sz' + 2 ^ (l + 4) + (if max 3 k = 3 then 0 else 2 ^ max 3 k) \<le> unat needed \<and>
    Allocator_Allocate env low cc beg sz (2 ^ k) ty fill st =
      init_chunk env low cc beg sz' (2 ^ max 3 k) a ty fill (2 ^ (l + 4)) needed prim st"
proof -
  obtain l needed prim where a: "l < 8" "allocation_sizes st sz' (2 ^ max 3 k) = Some (2 ^ (l + 4), needed, prim)"
      "unat needed \<le> 2 ^ 40" "unat sz' + 2 ^ (l + 4) + (if max 3 k = 3 then 0 else 2 ^ max 3 k) \<le> unat needed"
    using allocation_sizes_run [OF assms(1) _ _ assms(5), of "max 3 k"] assms(3) by auto
  obtain c where c: "ComputeUserRequestedAlignmentLog (2 ^ k) = Some c"
    using ComputeUserRequestedAlignmentLog_run [of k] assms(3) by auto
  have big: "unat kMaxAllowedMallocSize = 2 ^ 40" by (simp add: kMaxAllowedMallocSize_def push_bit_eq_mult)
  have "Allocator_Allocate env low cc beg sz (2 ^ k) ty fill st =
      init_chunk env low cc beg sz' (2 ^ max 3 k) c ty fill (2 ^ (l + 4)) needed prim st"
    using assms(2,5-7) a(3) big
    unfolding Allocator_Allocate_def c Let_def min_alignment [OF assms(3)] assms(4) [symmetric]
    by (simp add: a(2) word_less_nat_alt word_le_nat_alt not_less)
  then show ?thesis using a by blast
qed

text \<open>
  C4: \<^verbatim>\<open>Allocate\<close>, given a block of the underlying allocator that is 16-aligned, large enough and
  either all poisoned or poisoned again by the code, returns a pointer with the requested
  alignment, leaving room for the chunk header before it and for the requested bytes after it; a byte of
  the block is then poisoned if and only if it is not one of those bytes, no byte outside the block changes,
  and the chunk's header records its state, size, type, thread and stack. The chunk is found again from
  the start of the block, unless it starts a block of the secondary allocator.
\<close>

theorem allocation_exact:
  assumes "platform_ok (ae env)" and "poison_partial (ae env)" and "can_poison_memory (hs st)"
    and "opts_ok st" and "\<not> cc_rss_limit_exceeded cc" and "k \<le> 32"
    and "sz' = (if sz = 0 then 1 else sz)" and "unat sz' \<le> 2 ^ 39" and "sz' \<le> max_user_defined_malloc_size st"
    and "allocation_sizes st sz' (2 ^ max 3 k) = Some (rz, needed, prim)"
    and "block_ok env beg (GetActuallyAllocatedSize low beg)" and "16 dvd unat beg"
    and "needed \<le> GetActuallyAllocatedSize low beg"
    and "\<not> prim \<or> shadow (hs st) (MEM_TO_SHADOW (mp (ae env)) beg) = 0 \<or>
      (\<forall>x. in_block beg (GetActuallyAllocatedSize low beg) x \<longrightarrow> poisoned (ae env) (hs st) x)"
  shows "\<exists>u st'. Allocator_Allocate env low cc beg sz (2 ^ k) ty fill st = Some (u, st') \<and> u \<noteq> 0 \<and>
    allocated_ok env low cc beg sz' (2 ^ max 3 k) ty st u st'"
proof -
  have "beg \<noteq> 0" using assms(11) by (simp add: block_ok_def)
  then obtain l needed' prim' a where a: "l < 8" "allocation_sizes st sz' (2 ^ max 3 k) = Some (2 ^ (l + 4), needed', prim')"
      "unat sz' + 2 ^ (l + 4) + (if max 3 k = 3 then 0 else 2 ^ max 3 k) \<le> unat needed'"
      "Allocator_Allocate env low cc beg sz (2 ^ k) ty fill st =
        init_chunk env low cc beg sz' (2 ^ max 3 k) a ty fill (2 ^ (l + 4)) needed' prim' st"
    using Allocate_run [OF assms(4-9)] by blast
  have eq: "needed' = needed" "prim' = prim" using a(2) assms(10) by simp_all
  have "0 < unat sz'" using assms(7) by (simp add: unat_gt_0)
  then have "\<exists>u st'. init_chunk env low cc beg sz' (2 ^ max 3 k) a ty fill (2 ^ (l + 4)) needed prim st = Some (u, st') \<and>
      allocated_ok env low cc beg sz' (2 ^ max 3 k) ty st u st' \<and> u \<noteq> 0 \<and> (max 3 k = 3 \<longrightarrow> u = beg + 2 ^ (l + 4))"
    using a(1,3) assms(6,8,13,14) unfolding eq
    by (intro init_chunk_run [OF assms(11,12,1-3)]) (simp_all add: word_le_nat_alt)
  then show ?thesis unfolding a(4) eq by blast
qed

section \<open>Deallocation\<close>

lemma new_events_emit: "q_log q' = q_log q @ es \<Longrightarrow> new_events q q' = es"
  by (simp add: new_events_def)

text \<open>A \<^verbatim>\<open>Put\<close> that fits in the cache of the thread makes one call, \<^verbatim>\<open>PreQuarantine\<close>.\<close>

lemma q_Put_fits:
  assumes "q_max_cache_size q \<noteq> 0" and "n \<le> q_max_size q" and "qc_Enqueue b m n (q_store q) c = Some (s, c')"
    and "qc_size c' \<le> q_max_cache_size q"
  shows "\<exists>q'. q_Put locked b c m n q = Some (c', q') \<and> new_events q q' = [PreQuarantine m]"
proof -
  have "q_Put locked b c m n q = Some (c', (q_emit [PreQuarantine m] q)\<lparr>q_store := s\<rparr>)"
    using assms by (simp add: q_Put_def q_emit_def)
  then show ?thesis by (auto intro!: new_events_emit simp: q_emit_def)
qed

lemma FillChunk_simps [simp]:
  "hs (FillChunk env m st) = hs st" "header (FillChunk env m st) = header st" "hreports (FillChunk env m st) = hreports st"
  by (simp_all add: FillChunk_def real_memset_def Let_def)

lemma PreQuarantine_run:
  assumes "block_ok env beg n" and "user_ok beg n (m + 16) sz" and "platform_ok (ae env)" and "can_poison_memory (hs st)"
    and "UsedSize (header st m) = sz"
  shows "\<exists>s. cb_PreQuarantine env m st = Some ((FillChunk env m st)\<lparr>hs := s\<rparr>) \<and>
    (\<forall>x. poisoned (ae env) s x \<longleftrightarrow>
       granule (m + 16) \<le> granule x \<and> granule x < granule (m + 16) + (unat sz + 7) div 8 \<or> poisoned (ae env) (hs st) x)"
proof -
  let ?M = "MEM_TO_SHADOW (mp (ae env))" and ?u = "m + 16" and ?d = "(unat sz + 7) div 8 * 8"
  have B: "unat beg + unat n < 2 ^ 64" "unat beg mod 8 = 0" "unat n mod 8 = 0"
    using assms(1) by (simp_all add: block_ok_def goffset_def)
  have U: "goffset ?u = 0" "unat beg + 16 \<le> unat ?u" "0 < unat sz" "unat ?u + unat sz \<le> unat beg + unat n"
    using assms(2) by (simp_all add: user_ok_def)
  have mod8: "unat ?u mod 8 = 0" using U(1) by (simp add: goffset_def)
  have "unat sz \<le> unat beg + unat n - unat ?u" "(unat beg + unat n - unat ?u) mod 8 = 0"
    using U(4) B(2,3) mod8 by (simp_all add: mod_diff_eq [symmetric] mod_eq_0_iff_dvd)
  then have dle: "unat ?u + ?d \<le> unat beg + unat n"
    using ceil_bounds(2) [of ?d 0 "unat sz" "unat beg + unat n - unat ?u"] U(4) by simp
  then have dlt: "unat ?u + ?d < 2 ^ 64" using B(1) by linarith
  obtain r where r: "RoundUpTo sz 8 = Some r" using RoundUpTo_exp [of sz 3] by simp
  have "unat r = ?d" using unat_RoundUpTo [of sz 3 r] r dlt U(2,3) ceil_bounds(1) [of ?d "unat sz" 0] by simp
  then have rd: "r = of_nat ?d" using unat_of_nat_uptr [of ?d] dlt by (simp only: word_unat_eq_iff)
  note gd = granule_user [OF U(1) dlt] and ud = unat_add_of_nat [OF dlt]
  have "\<exists>s. heap_PoisonShadow env ?u (?u + of_nat ?d - ?u) kAsanHeapFreeMagic (FillChunk env m st) = Some ((FillChunk env m st)\<lparr>hs := s\<rparr>) \<and>
      can_poison_memory s = can_poison_memory (hs (FillChunk env m st)) \<and> (\<forall>x. shadow s (?M x) =
        (if granule ?u \<le> granule x \<and> granule x < granule (?u + of_nat ?d) then kAsanHeapFreeMagic else shadow (hs (FillChunk env m st)) (?M x)))"
    by (rule heap_PoisonShadow_run [OF assms(1,3)]) (use U gd(2) ud dle assms(4) in simp_all)
  then obtain s where s: "heap_PoisonShadow env ?u r kAsanHeapFreeMagic (FillChunk env m st) = Some ((FillChunk env m st)\<lparr>hs := s\<rparr>)"
      "\<And>x. shadow s (?M x) = (if granule ?u \<le> granule x \<and> granule x < granule (?u + of_nat ?d) then kAsanHeapFreeMagic else shadow (hs st) (?M x))"
    using rd by auto
  have "cb_PreQuarantine env m st = Some ((FillChunk env m st)\<lparr>hs := s\<rparr>)"
    using r s(1) assms(5) by (simp add: cb_PreQuarantine_def chunk_Beg_def kChunkHeaderSize_def)
  moreover have "poisoned (ae env) s x \<longleftrightarrow>
      granule ?u \<le> granule x \<and> granule x < granule ?u + (unat sz + 7) div 8 \<or> poisoned (ae env) (hs st) x" for x
    using s(2) [of x] gd(1) by (auto simp: poisoned_alt kAsanHeapFreeMagic_def)
  ultimately show ?thesis by blast
qed

lemma FillChunk_free_context:
  "GetFreeContext m (FillChunk env m st) = GetFreeContext m st"
proof -
  let ?used = "UsedSize (header st m)"
  have "hmem (FillChunk env m st) (m + kChunkHeaderSize + of_nat j) = hmem st (m + kChunkHeaderSize + of_nat j)" if "j < 8" for j
  proof -
    have "unat (of_nat j - 8 :: uptr) = 2 ^ 64 - 8 + j"
      using that by (simp add: unat_sub_if_size word_size unat_of_nat)
    moreover have "unat (?used - 8) = unat ?used - 8" if "8 \<le> ?used" using unat_sub [OF that] by simp
    ultimately have "\<not> of_nat j - 8 < min (?used - 8) c" if "8 \<le> ?used" for c
      using uptr_bound [of ?used] that by (auto simp: min_def word_less_nat_alt word_le_nat_alt)
    then show ?thesis
      by (auto simp: FillChunk_def real_memset_def memset_def Let_def kChunkHeaderSize_def kChunkHeader2Size_def algebra_simps)
  qed
  then show ?thesis unfolding GetFreeContext_def by (intro arg_cong [where f = AtomicContextLoad] load64_cong)
qed

lemma SetFreeContext_simps [simp]:
  "hs (SetFreeContext t k m st) = hs st" "header (SetFreeContext t k m st) = header st"
  "hreports (SetFreeContext t k m st) = hreports st" "hquarantine (SetFreeContext t k m st) = hquarantine st"
  "hqcache (SetFreeContext t k m st) = hqcache st"
  by (simp_all add: SetFreeContext_def)

lemma Get_SetFreeContext: "GetFreeContext m (SetFreeContext t k m st) = (t, k)"
  by (simp add: GetFreeContext_def SetFreeContext_def load64_store64 AtomicContext_roundtrip)

lemma set_header_simps [simp]:
  "hs (set_header m h st) = hs st" "header (set_header m h st) = (header st)(m := h)"
  "hreports (set_header m h st) = hreports st" "hquarantine (set_header m h st) = hquarantine st"
  "hqcache (set_header m h st) = hqcache st"
  by (simp_all add: set_header_def)

lemma UsedSize_chunk_state [simp]: "UsedSize (h\<lparr>chunk_state := v\<rparr>) = UsedSize h"
  by (simp add: UsedSize_def)


section \<open>An example heap\<close>

text \<open>The flags' defaults, a block of 48 bytes of the primary allocator, and an empty heap.\<close>

definition example_env :: alloc_env where
  "example_env = \<lparr>ae = x86_64_env, new_delete_type_mismatch = True, max_malloc_fill_size = 0x1000, malloc_fill_byte = 0xbe,
     max_free_fill_size = 0, free_fill_byte = 0x55, frees_and_returns_null_on_realloc_zero = True,
     check_malloc_usable_size = True, max_allocation_size_mb = 0\<rparr>"

definition example_block :: uptr where "example_block = 0x602000000010"

definition example_lower :: lower where
  "example_lower = \<lparr>GetBlockBegin = (\<lambda>_. example_block), FromPrimary = (\<lambda>_. True), GetActuallyAllocatedSize = (\<lambda>_. 48)\<rparr>"

definition example_call :: call_ctx where
  "example_call = \<lparr>cc_thread = Some 1, cc_stack = 7, cc_rss_limit_exceeded = False, cc_recycle_lock = True, cc_batch = Some 100,
     cc_free_hook_ignores = False, cc_mismatch_suppressed = False, cc_lsan_disabled = False\<rparr>"

definition zero_header :: ChunkHeader where
  "zero_header = \<lparr>chunk_state = 0, alloc_type = FROM_MALLOC, lsan_tag = 0, user_requested_alignment_log = 0,
     user_requested_size_hi = 0, user_requested_size_lo = 0, alloc_context_id = 0\<rparr>"

definition zero_stats :: AsanStats where
  "zero_stats = \<lparr>mallocs = 0, malloced = 0, malloced_redzones = 0, frees = 0, freed = 0, real_frees = 0, really_freed = 0,
     reallocs = 0, realloced = 0, mmaps = 0, mmaped = 0, munmaps = 0, munmaped = 0, malloc_large = 0, malloced_by_size = (\<lambda>_. 0)\<rparr>"

definition example_heap :: heap where
  "example_heap = \<lparr>hs = clean_state, hmem = (\<lambda>_. 0), header = (\<lambda>_. zero_header),
     large = (\<lambda>_. \<lparr>lc_magic = 0, lc_chunk_header = 0\<rparr>), hstats = zero_stats, hreports = [],
     hquarantine = \<lparr>q_max_size = 2 ^ 28, q_min_size = 0, q_max_cache_size = 2 ^ 20, q_cache = qc_new,
       q_store = \<lparr>qs_next = (\<lambda>_. None), qs_batch = (\<lambda>_. \<lparr>qb_size = 0, qb_batch = []\<rparr>)\<rparr>, q_log = []\<rparr>,
     hqcache = (\<lambda>_. qc_new), hreleased = [], herrno = 0, hout_of_memory = False, hmay_return_null = False,
     hmin_redzone = 16, hmax_redzone = 2048, halloc_dealloc_mismatch = 1,
     max_user_defined_malloc_size = kMaxAllowedMallocSize, hrelease_interval = 5000\<rparr>"

lemma x86_64_poison_partial: "poison_partial x86_64_env"
  by (simp add: x86_64_env_def)

lemma example_opts_ok: "opts_ok example_heap"
  unfolding opts_ok_def by (intro exI [of _ 0] exI [of _ 7]) (simp add: example_heap_def)

lemma high_block_ok:
  assumes "0x10007fff8000 \<le> beg" and "unat beg + unat n \<le> 0x7fffffffffff" and "goffset beg = 0" and "goffset n = 0"
  shows "block_ok example_env beg n"
  unfolding block_ok_def
proof (intro conjI allI impI)
  have u: "unat (beg + n) = unat beg + unat n" using assms(2) by (simp add: unat_word_ariths)
  fix x assume "beg \<le> x \<and> x \<le> beg + n"
  then have "0x10007fff8000 \<le> x" "x \<le> 0x7fffffffffff"
    using assms(1,2) u by (simp_all add: word_le_nat_alt)
  then show "AddrIsInMem (mp (ae example_env)) x" by (simp add: example_env_def in_mem_eval)
qed (use assms in auto)

lemma example_block_ok: "block_ok example_env example_block 48"
  by (rule high_block_ok) (simp_all add: example_block_def goffset_def)

lemma example_sizes: "allocation_sizes example_heap 13 (2 ^ max 3 3) = Some (16, 32, True)"
proof -
  have "ComputeRZLog example_heap 13 = Some 0"
    using RZSize2Log_exp [of 0] RZSize2Log_exp [of 7]
    by (simp add: ComputeRZLog_def hdr_rz example_heap_def size_rz_log_def)
  then show ?thesis using IsPowerOfTwo_exp [of 3] RZLog2Size_exp [of 0] IsAligned_iff_dvd [of 32 3]
    by (simp add: allocation_sizes_def Let_def kChunkHeader2Size_def RoundUpTo_def CanAllocate_def kMaxSize_def
        DefaultSizeClassMap_def)
qed

theorem allocation_exact_witness:
  "\<exists>u st'. Allocator_Allocate example_env example_lower example_call example_block 13 (2 ^ 3) FROM_MALLOC True example_heap = Some (u, st') \<and>
    u \<noteq> 0 \<and> allocated_ok example_env example_lower example_call example_block 13 (2 ^ max 3 3) FROM_MALLOC example_heap u st'"
proof (rule allocation_exact [OF _ _ _ example_opts_ok])
  show "block_ok example_env example_block (GetActuallyAllocatedSize example_lower example_block)"
    using example_block_ok by (simp add: example_lower_def)
  show "allocation_sizes example_heap 13 (2 ^ max 3 3) = Some (16, 32, True)" by (rule example_sizes)
qed (simp_all add: example_env_def example_heap_def example_call_def example_lower_def example_block_def clean_state_def
    x86_64_poison_partial kMaxAllowedMallocSize_def)

definition example_used_heap :: heap where
  "example_used_heap = set_header example_block
     (zero_header\<lparr>chunk_state := CHUNK_ALLOCATED, user_requested_size_lo := 13\<rparr>) example_heap"

definition example_chunk_cache :: "uptr QStore \<times> QCache" where
  "example_chunk_cache = the (qc_Enqueue (Some 100) example_block 13 (q_store (hquarantine example_heap)) qc_new)"

lemma example_enqueue:
  "qc_Enqueue (Some 100) example_block 13 (q_store (hquarantine example_heap)) qc_new = Some (fst example_chunk_cache, snd example_chunk_cache)"
  "qc_size (snd example_chunk_cache) = 13 + sizeof_batch"
  by (simp_all add: example_chunk_cache_def qc_Enqueue_def qc_EnqueueBatch_def qc_new_def il_clear_def il_empty_def
      il_push_back_def qc_SizeAdd_def qs_set_def qb_init_def uptr_add_def sizeof_batch_def kSize_def example_heap_def)


section \<open>Chunks of the secondary allocator with the smallest redzone\<close>

text \<open>
  C40: with \<^verbatim>\<open>max_redzone=16\<close>, which the options allow, the chunk of an allocation from the
  secondary allocator starts its block and has no large chunk header, and \<^verbatim>\<open>GetAsanChunk\<close> returns
  null for it: the size of the allocation, which is in use and whose header records its
  size, is given as 0.
\<close>

theorem secondary_chunk_not_found:
  assumes "platform_ok (ae env)" and "poison_partial (ae env)" and "can_poison_memory (hs st)"
    and "hmin_redzone st = 16" and "hmax_redzone st = 16" and "\<not> cc_rss_limit_exceeded cc"
    and "sz \<noteq> 0" and "unat sz \<le> 2 ^ 39" and "sz \<le> max_user_defined_malloc_size st"
    and "allocation_sizes st sz 8 = Some (rz, needed, False)"
    and "block_ok env beg (GetActuallyAllocatedSize low beg)" and "16 dvd unat beg"
    and "needed \<le> GetActuallyAllocatedSize low beg"
    and "\<not> FromPrimary low beg" and "GetBlockBegin low (beg + 16) = beg"
  shows "\<exists>st'. Allocator_Allocate env low cc beg sz 8 ty fill st = Some (beg + 16, st') \<and>
    chunk_state (header st' beg) = CHUNK_ALLOCATED \<and> UsedSize (header st' beg) = sz \<and>
    AllocationSize low st' (beg + 16) = 0"
proof -
  have opts: "opts_ok st" unfolding opts_ok_def using assms(4,5) by (intro exI [of _ 0]) simp
  have b0: "beg \<noteq> 0" using assms(11) by (simp add: block_ok_def)
  obtain l needed' prim a where a: "l < 8" "allocation_sizes st sz (2 ^ max 3 3) = Some (2 ^ (l + 4), needed', prim)"
      "unat sz + 2 ^ (l + 4) + (if max 3 3 = (3::nat) then 0 else 2 ^ max 3 3) \<le> unat needed'"
      "Allocator_Allocate env low cc beg sz (2 ^ 3) ty fill st =
        init_chunk env low cc beg sz (2 ^ max 3 3) a ty fill (2 ^ (l + 4)) needed' prim st"
    using Allocate_run [OF opts assms(6), of 3 sz sz beg env low ty fill] assms(7-9) b0 by auto
  have rz: "2 ^ (l + 4) = (16 :: uptr)"
  proof -
    have "ComputeRZLog st sz = Some 0"
      using RZSize2Log_exp [of 0] assms(4,5) by (simp add: ComputeRZLog_def hdr_rz)
    then show ?thesis using a(2) RZLog2Size_exp [of 0] by (auto simp: allocation_sizes_def Let_def split: bind_splits)
  qed
  have eq: "needed' = needed" "prim = False" using a(2) assms(10) by simp_all
  have "0 < unat sz" using assms(7) by (simp add: unat_gt_0)
  then have "\<exists>u st'. init_chunk env low cc beg sz (2 ^ 3) a ty fill (2 ^ (l + 4)) needed False st = Some (u, st') \<and>
      allocated_ok env low cc beg sz (2 ^ 3) ty st u st' \<and> u \<noteq> 0 \<and> ((3::nat) = 3 \<longrightarrow> u = beg + 2 ^ (l + 4))"
    using a(1,3) assms(8,13) unfolding eq
    by (intro init_chunk_run [OF assms(11,12,1-3)]) (simp_all add: word_le_nat_alt)
  then obtain st' where st': "init_chunk env low cc beg sz (2 ^ 3) a ty fill (2 ^ (l + 4)) needed False st = Some (beg + 16, st')"
      "allocated_ok env low cc beg sz (2 ^ 3) ty st (beg + 16) st'"
    unfolding rz by blast
  have "AllocationSize low st' (beg + 16) = 0"
    using st'(2) assms(14,15) by (simp add: allocated_ok_def AllocationSize_def GetAsanChunkByAddr_def Let_def)
  moreover have "Allocator_Allocate env low cc beg sz 8 ty fill st = Some (beg + 16, st')"
    using a(4) st'(1) unfolding eq by simp
  ultimately show ?thesis using st'(2) by (simp add: allocated_ok_def Let_def)
qed

definition example_secondary :: lower where
  "example_secondary = \<lparr>GetBlockBegin = (\<lambda>_. 0x7f0000001000), FromPrimary = (\<lambda>_. False), GetActuallyAllocatedSize = (\<lambda>_. 0x101000)\<rparr>"

lemma example_secondary_sizes:
  "allocation_sizes (example_heap\<lparr>hmax_redzone := 16\<rparr>) 0x100000 8 = Some (16, 0x100020, False)"
proof -
  have "ComputeRZLog (example_heap\<lparr>hmax_redzone := 16\<rparr>) 0x100000 = Some 0"
    using RZSize2Log_exp [of 0] by (simp add: ComputeRZLog_def hdr_rz example_heap_def size_rz_log_def)
  then show ?thesis using IsPowerOfTwo_exp [of 3] RZLog2Size_exp [of 0] IsAligned_iff_dvd [of "0x100020" 3]
    by (simp add: allocation_sizes_def Let_def kChunkHeader2Size_def RoundUpTo_def CanAllocate_def kMaxSize_def
        DefaultSizeClassMap_def)
qed

theorem secondary_chunk_not_found_witness:
  "\<exists>st'. Allocator_Allocate example_env example_secondary example_call 0x7f0000001000 0x100000 8 FROM_MALLOC True (example_heap\<lparr>hmax_redzone := 16\<rparr>) =
      Some (0x7f0000001000 + 16, st') \<and>
    chunk_state (header st' 0x7f0000001000) = CHUNK_ALLOCATED \<and> UsedSize (header st' 0x7f0000001000) = 0x100000 \<and>
    AllocationSize example_secondary st' (0x7f0000001000 + 16) = 0"
proof (rule secondary_chunk_not_found)
  show "block_ok example_env 0x7f0000001000 (GetActuallyAllocatedSize example_secondary 0x7f0000001000)"
    by (rule high_block_ok) (simp_all add: example_secondary_def goffset_def)
  show "allocation_sizes (example_heap\<lparr>hmax_redzone := 16\<rparr>) 0x100000 8 = Some (16, 0x100020, False)"
    by (rule example_secondary_sizes)
qed (simp_all add: example_env_def example_heap_def example_call_def example_secondary_def clean_state_def
    x86_64_poison_partial kMaxAllowedMallocSize_def)

section \<open>Options\<close>

lemma unat_ucast_u16: "unat (ucast (r :: u16) :: uptr) = unat r"
proof -
  have "unat r < 65536" using unsigned_less [of r, where 'a = nat] by simp
  then show ?thesis by (simp add: unsigned_ucast_eq take_bit_eq_mod)
qed

lemma redzone_option:
  assumes "16 \<le> r" and "r \<le> 2048" and "IsPowerOfTwo (ucast (r :: u16))"
  shows "\<exists>a<8. ucast r = (2 ^ (a + 4) :: uptr)"
proof -
  note ur = unat_ucast_u16 [of r]
  have b: "16 \<le> unat r" "unat r \<le> 2048" using assms(1,2) by (simp_all add: word_le_nat_alt)
  then have "(ucast r :: uptr) \<noteq> 0" using ur by auto
  then obtain k where k: "k < 64" "ucast r = (2 ^ k :: uptr)" using assms(3) unfolding IsPowerOfTwo_iff by blast
  then have "(2::nat) ^ 4 \<le> 2 ^ k" "(2::nat) ^ k \<le> 2 ^ 11" using b ur unat_exp [OF k(1)] by simp_all
  then have "4 \<le> k" "k \<le> 11" using power_le_imp_le_exp [of "2::nat" 4 k] power_le_imp_le_exp [of "2::nat" k 11] by simp_all
  then show ?thesis using k(2) by (intro exI [of _ "k - 4"]) simp
qed

lemma drop_push_option:
  fixes w :: u32
  assumes "k \<le> 32"
  shows "ucast (drop_bit k (of_nat (unat (push_bit k (ucast w :: uptr))) :: uptr)) = w"
proof (rule bit_word_eqI)
  fix n assume "n < LENGTH(32)"
  then show "bit (ucast (drop_bit k (of_nat (unat (push_bit k (ucast w :: uptr))) :: uptr)) :: u32) n \<longleftrightarrow> bit w n"
    using assms by (simp add: bit_simps)
qed

lemma push_option_eq_0:
  fixes w :: u32
  assumes "k \<le> 32"
  shows "unat (push_bit k (ucast w :: uptr)) = 0 \<longleftrightarrow> w = 0"
proof
  assume "unat (push_bit k (ucast w :: uptr)) = 0"
  then show "w = 0" using drop_push_option [OF assms, of w] by simp
qed simp

text \<open>
  options that pass \<^verbatim>\<open>CheckOptions\<close>, with a cache for the quarantine if there is a quarantine
  at all, are applied, give redzones that \<^verbatim>\<open>Allocate\<close> can encode, and are what \<^verbatim>\<open>GetOptions\<close> then
  returns (the flag \<^verbatim>\<open>may_return_null\<close> as 0 or 1).
\<close>

theorem options_roundtrip:
  assumes "CheckOptions o1 = Some ()"
    and "thread_local_quarantine_size_kb o1 \<noteq> 0 \<or> quarantine_size_mb o1 = 0"
  shows "\<exists>st'. ApplyOptions o1 st = Some st' \<and> opts_ok st' \<and>
    GetOptions st' = o1\<lparr>may_return_null := of_bool (may_return_null o1 \<noteq> 0)\<rparr>"
proof -
  have c: "min_redzone o1 \<ge> 16" "min_redzone o1 \<le> max_redzone o1" "max_redzone o1 \<le> 2048"
    "IsPowerOfTwo (ucast (min_redzone o1))" "IsPowerOfTwo (ucast (max_redzone o1))"
    using assms(1) by (simp_all add: CheckOptions_def)
  obtain a b where ab: "a < 8" "ucast (min_redzone o1) = (2 ^ (a + 4) :: uptr)" "b < 8" "ucast (max_redzone o1) = (2 ^ (b + 4) :: uptr)"
    using redzone_option [OF c(1) _ c(4)] redzone_option [OF _ c(3,5)] c(1-3) by (meson order_trans)
  have "unat (ucast (min_redzone o1) :: uptr) \<le> unat (ucast (max_redzone o1) :: uptr)"
    using c(2) by (simp add: word_le_nat_alt unat_ucast_u16)
  then have le: "a \<le> b" using ab by (simp add: unat_redzone)
  show ?thesis
    using assms drop_push_option [of 20 "quarantine_size_mb o1"] drop_push_option [of 10 "thread_local_quarantine_size_kb o1"]
      push_option_eq_0 [of 20 "quarantine_size_mb o1"] push_option_eq_0 [of 10 "thread_local_quarantine_size_kb o1"] le ab
    by (auto simp: ApplyOptions_def SharedInitCode_def q_Init_def GetOptions_def opts_ok_def)
qed

definition example_options :: AllocatorOptions where
  "example_options = \<lparr>quarantine_size_mb = 256, thread_local_quarantine_size_kb = 1024, min_redzone = 16, max_redzone = 2048,
     may_return_null = 1, alloc_dealloc_mismatch = 1, release_to_os_interval_ms = 5000\<rparr>"

theorem options_roundtrip_witness:
  "\<exists>st'. ApplyOptions example_options example_heap = Some st' \<and> opts_ok st' \<and> GetOptions st' = example_options"
  using options_roundtrip [of example_options example_heap] IsPowerOfTwo_exp [of 4] IsPowerOfTwo_exp [of 11]
  by (simp add: example_options_def CheckOptions_def)

end
