(* ===== verification/San_Mutex.thy ===== *)
theory San_Mutex
  imports San_Math
begin

text \<open>
  \<^verbatim>\<open>Mutex\<close> and \<^verbatim>\<open>Semaphore\<close> of \<^verbatim>\<open>sanitizer_mutex.h\<close>: a reader-writer lock whose 64-bit state holds
  three counters of 20 bits and three flags, changed by compare-and-swap, with two semaphores for
  the threads that have stopped spinning. Any number of threads run the operations; a step of
  the system is one atomic access of one thread, on a sequentially consistent memory. A weak
  compare-and-swap may fail at any time. \<^verbatim>\<open>FutexWait\<close> may return at any time, as its callers
  expect. A thread calls \<^verbatim>\<open>Unlock\<close> and \<^verbatim>\<open>ReadUnlock\<close> only when it holds the lock that way.
\<close>

unbundle bit_operations_syntax

section \<open>The state word\<close>

definition kCounterWidth :: nat where "kCounterWidth = 20"
definition kReaderLockInc :: u64 where "kReaderLockInc = 1"
definition kReaderLockMask :: u64 where "kReaderLockMask = mask kCounterWidth"
definition kWaitingReaderShift :: nat where "kWaitingReaderShift = kCounterWidth"
definition kWaitingReaderInc :: u64 where "kWaitingReaderInc = push_bit kWaitingReaderShift 1"
definition kWaitingReaderMask :: u64 where "kWaitingReaderMask = push_bit kWaitingReaderShift (mask kCounterWidth)"
definition kWaitingWriterShift :: nat where "kWaitingWriterShift = 2 * kCounterWidth"
definition kWaitingWriterInc :: u64 where "kWaitingWriterInc = push_bit kWaitingWriterShift 1"
definition kWaitingWriterMask :: u64 where "kWaitingWriterMask = push_bit kWaitingWriterShift (mask kCounterWidth)"
definition kWriterLock :: u64 where "kWriterLock = push_bit (3 * kCounterWidth) 1"
definition kWriterSpinWait :: u64 where "kWriterSpinWait = push_bit (3 * kCounterWidth + 1) 1"
definition kReaderSpinWait :: u64 where "kReaderSpinWait = push_bit (3 * kCounterWidth + 2) 1"
definition kMaxSpinIters :: nat where "kMaxSpinIters = 1500"

section \<open>The bodies of the loops\<close>

text \<open>The new state that an iteration of \<^verbatim>\<open>Lock\<close> tries to store, or \<^const>\<open>None\<close> if it only spins.\<close>

definition lock_locked :: "u64 \<Rightarrow> bool" where
  "lock_locked state \<longleftrightarrow> state AND (kWriterLock OR kReaderLockMask) \<noteq> 0"

definition lock_new_state :: "u64 \<Rightarrow> nat \<Rightarrow> u64 \<Rightarrow> u64 option" where
  "lock_new_state reset_mask spin_iters state =
     (if \<not> lock_locked state then Some ((state OR kWriterLock) AND reset_mask)
      else if spin_iters > kMaxSpinIters then Some ((state + kWaitingWriterInc) AND reset_mask)
      else if state AND kWriterSpinWait = 0 then Some (state OR kWriterSpinWait)
      else None)"

definition read_locked :: "u64 \<Rightarrow> bool" where
  "read_locked state \<longleftrightarrow> state AND kWriterLock \<noteq> 0"

definition read_lock_new_state :: "u64 \<Rightarrow> nat \<Rightarrow> u64 \<Rightarrow> u64 option" where
  "read_lock_new_state reset_mask spin_iters state =
     (if \<not> read_locked state then Some ((state + kReaderLockInc) AND reset_mask)
      else if spin_iters > kMaxSpinIters then Some ((state + kWaitingReaderInc) AND reset_mask)
      else if state AND kReaderSpinWait = 0 then Some (state OR kReaderSpinWait)
      else None)"

definition unlock_new_state :: "u64 \<Rightarrow> u64 \<times> bool \<times> u64" where
  "unlock_new_state state =
     (let new_state = state AND NOT kWriterLock;
          wake_writer = (state AND (kWriterSpinWait OR kReaderSpinWait) = 0 \<and> state AND kWaitingWriterMask \<noteq> 0);
          new_state = (if wake_writer then (new_state - kWaitingWriterInc) OR kWriterSpinWait else new_state);
          wake_readers = (if wake_writer \<or> state AND kWriterSpinWait \<noteq> 0 then 0
                          else drop_bit kWaitingReaderShift (state AND kWaitingReaderMask));
          new_state = (if wake_readers \<noteq> 0 then (new_state AND NOT kWaitingReaderMask) OR kReaderSpinWait else new_state)
      in (new_state, wake_writer, wake_readers))"

definition read_unlock_new_state :: "u64 \<Rightarrow> u64 \<times> bool" where
  "read_unlock_new_state state =
     (let new_state = state - kReaderLockInc;
          wake = (new_state AND (kReaderLockMask OR kWriterSpinWait OR kReaderSpinWait) = 0 \<and>
                  new_state AND kWaitingWriterMask \<noteq> 0);
          new_state = (if wake then (new_state - kWaitingWriterInc) OR kWriterSpinWait else new_state)
      in (new_state, wake))"

section \<open>Threads\<close>

text \<open>Where a thread is, with its local variables: in a loop of \<^verbatim>\<open>Lock\<close> with \<^verbatim>\<open>reset_mask\<close>, \<^verbatim>\<open>state\<close> and
  \<^verbatim>\<open>spin_iters\<close>; in \<^verbatim>\<open>Semaphore::Wait\<close> with \<^verbatim>\<open>count\<close>, if it is loaded; about to load the state
  again; holding the lock; in a loop of \<^verbatim>\<open>Unlock\<close> with \<^verbatim>\<open>state\<close>; about to call \<^verbatim>\<open>Post\<close>.\<close>

datatype pc =
    Idle
  | Locking u64 u64 nat
  | LockWaiting "nat option"
  | LockReload nat
  | Writing
  | TryLocking u64
  | Unlocking u64
  | PostingWriter
  | PostingReaders nat
  | ReadLocking u64 u64 nat
  | ReadWaiting "nat option"
  | ReadReload nat
  | Reading
  | ReadUnlocking u64

record mutex =
  mx_state :: u64
  mx_writers :: nat
  mx_readers :: nat

inductive mutex_step :: "mutex \<Rightarrow> pc \<Rightarrow> mutex \<Rightarrow> pc \<Rightarrow> bool" where
  lock_load: "mutex_step g Idle g (Locking (-1) (mx_state g) 0)"
| lock_spin: "lock_new_state r n s = None \<Longrightarrow> mutex_step g (Locking r s n) g (Locking r (mx_state g) (n + 1))"
| lock_cas_fail: "lock_new_state r n s = Some s' \<Longrightarrow> mutex_step g (Locking r s n) g (Locking r (mx_state g) (n + 1))"
| lock_cas: "lock_new_state r n s = Some s' \<Longrightarrow> mx_state g = s \<Longrightarrow>
    mutex_step g (Locking r s n) (g\<lparr>mx_state := s'\<rparr>)
      (if \<not> lock_locked s then Writing else if n > kMaxSpinIters then LockWaiting None else LockReload n)"
| lock_wait_load: "mutex_step g (LockWaiting None) g (LockWaiting (Some (mx_writers g)))"
| lock_wait_futex: "mutex_step g (LockWaiting (Some 0)) g (LockWaiting None)"
| lock_wait_cas: "0 < c \<Longrightarrow> mx_writers g = c \<Longrightarrow>
    mutex_step g (LockWaiting (Some c)) (g\<lparr>mx_writers := c - 1\<rparr>) (LockReload 0)"
| lock_wait_cas_fail: "0 < c \<Longrightarrow> mutex_step g (LockWaiting (Some c)) g (LockWaiting (Some (mx_writers g)))"
| lock_reload: "mutex_step g (LockReload n) g (Locking (NOT kWriterSpinWait) (mx_state g) (n + 1))"
| try_load: "mutex_step g Idle g (TryLocking (mx_state g))"
| try_fails: "lock_locked s \<Longrightarrow> mutex_step g (TryLocking s) g Idle"
| try_cas: "\<not> lock_locked s \<Longrightarrow> mx_state g = s \<Longrightarrow> mutex_step g (TryLocking s) (g\<lparr>mx_state := s OR kWriterLock\<rparr>) Writing"
| try_cas_fail: "\<not> lock_locked s \<Longrightarrow> mutex_step g (TryLocking s) g (TryLocking (mx_state g))"
| unlock_load: "mutex_step g Writing g (Unlocking (mx_state g))"
| unlock_cas: "unlock_new_state s = (s', wake_writer, wake_readers) \<Longrightarrow> mx_state g = s \<Longrightarrow>
    mutex_step g (Unlocking s) (g\<lparr>mx_state := s'\<rparr>)
      (if wake_writer then PostingWriter else if wake_readers \<noteq> 0 then PostingReaders (unat wake_readers) else Idle)"
| unlock_cas_fail: "mutex_step g (Unlocking s) g (Unlocking (mx_state g))"
| post_writer: "mutex_step g PostingWriter (g\<lparr>mx_writers := mx_writers g + 1\<rparr>) Idle"
| post_readers: "mutex_step g (PostingReaders k) (g\<lparr>mx_readers := mx_readers g + k\<rparr>) Idle"
| read_load: "mutex_step g Idle g (ReadLocking (-1) (mx_state g) 0)"
| read_spin: "read_lock_new_state r n s = None \<Longrightarrow> mutex_step g (ReadLocking r s n) g (ReadLocking r (mx_state g) (n + 1))"
| read_cas_fail: "read_lock_new_state r n s = Some s' \<Longrightarrow> mutex_step g (ReadLocking r s n) g (ReadLocking r (mx_state g) (n + 1))"
| read_cas: "read_lock_new_state r n s = Some s' \<Longrightarrow> mx_state g = s \<Longrightarrow>
    mutex_step g (ReadLocking r s n) (g\<lparr>mx_state := s'\<rparr>)
      (if \<not> read_locked s then Reading else if n > kMaxSpinIters then ReadWaiting None else ReadReload n)"
| read_wait_load: "mutex_step g (ReadWaiting None) g (ReadWaiting (Some (mx_readers g)))"
| read_wait_futex: "mutex_step g (ReadWaiting (Some 0)) g (ReadWaiting None)"
| read_wait_cas: "0 < c \<Longrightarrow> mx_readers g = c \<Longrightarrow>
    mutex_step g (ReadWaiting (Some c)) (g\<lparr>mx_readers := c - 1\<rparr>) (ReadReload 0)"
| read_wait_cas_fail: "0 < c \<Longrightarrow> mutex_step g (ReadWaiting (Some c)) g (ReadWaiting (Some (mx_readers g)))"
| read_reload: "mutex_step g (ReadReload n) g (ReadLocking (NOT kReaderSpinWait) (mx_state g) (n + 1))"
| read_unlock_load: "mutex_step g Reading g (ReadUnlocking (mx_state g))"
| read_unlock_cas: "read_unlock_new_state s = (s', wake) \<Longrightarrow> mx_state g = s \<Longrightarrow>
    mutex_step g (ReadUnlocking s) (g\<lparr>mx_state := s'\<rparr>) (if wake then PostingWriter else Idle)"
| read_unlock_cas_fail: "mutex_step g (ReadUnlocking s) g (ReadUnlocking (mx_state g))"

text \<open>\<open>N\<close> threads share the mutex.\<close>

type_synonym mutex_system = "mutex \<times> (nat \<Rightarrow> pc)"

definition mutex_init :: mutex_system where
  "mutex_init = (\<lparr>mx_state = 0, mx_writers = 0, mx_readers = 0\<rparr>, \<lambda>_. Idle)"

inductive system_step :: "nat \<Rightarrow> mutex_system \<Rightarrow> mutex_system \<Rightarrow> bool" for N where
  "t < N \<Longrightarrow> mutex_step g (p t) g' q \<Longrightarrow> system_step N (g, p) (g', p(t := q))"

inductive mutex_reachable :: "nat \<Rightarrow> mutex_system \<Rightarrow> bool" for N where
  init: "mutex_reachable N mutex_init"
| step: "mutex_reachable N s \<Longrightarrow> system_step N s s' \<Longrightarrow> mutex_reachable N s'"

section \<open>The fields of the state word\<close>

record fields =
  rl :: nat
  wr :: nat
  ww :: nat
  wl :: bool
  ws :: bool
  rs :: bool

definition encn :: "fields \<Rightarrow> nat" where
  "encn f = rl f + 2 ^ 20 * wr f + 2 ^ 40 * ww f + 2 ^ 60 * (of_bool (wl f) + 2 * of_bool (ws f) + 4 * of_bool (rs f))"

definition enc :: "fields \<Rightarrow> u64" where
  "enc f = of_nat (encn f)"

definition fields_ok :: "fields \<Rightarrow> bool" where
  "fields_ok f \<longleftrightarrow> rl f < 2 ^ 20 \<and> wr f < 2 ^ 20 \<and> ww f < 2 ^ 20"

lemma encn_less: "fields_ok f \<Longrightarrow> encn f < 2 ^ 64"
  by (simp add: encn_def fields_ok_def of_bool_def)

lemma unat_enc: "fields_ok f \<Longrightarrow> unat (enc f) = encn f"
  using encn_less [of f] by (simp add: enc_def unat_of_nat_uptr)

definition flagn :: "fields \<Rightarrow> nat" where
  "flagn f = of_bool (wl f) + 2 * of_bool (ws f) + 4 * of_bool (rs f)"

lemma encn_parts:
  assumes "fields_ok f"
  shows "encn f div 2 ^ 60 = flagn f" and "encn f mod 2 ^ 20 = rl f"
    and "encn f div 2 ^ 20 mod 2 ^ 20 = wr f" and "encn f div 2 ^ 40 mod 2 ^ 20 = ww f"
proof -
  have parts: "a + 2 ^ 20 * (b + 2 ^ 20 * (c + 2 ^ 20 * d)) = encn f" if "a = rl f" "b = wr f" "c = ww f" "d = flagn f" for a b c d
    using that by (simp add: encn_def flagn_def algebra_simps)
  have low: "(a + 2 ^ 20 * x) div 2 ^ 20 = x" "(a + 2 ^ 20 * x) mod 2 ^ 20 = a" if "a < 2 ^ 20" for a x :: nat
    using that by simp_all
  note e = parts [symmetric, OF refl refl refl refl]
  have b: "rl f < 2 ^ 20" "wr f < 2 ^ 20" "ww f < 2 ^ 20" using assms by (simp_all add: fields_ok_def)
  have 1: "encn f div 2 ^ 20 = wr f + 2 ^ 20 * (ww f + 2 ^ 20 * flagn f)" unfolding e by (rule low(1) [OF b(1)])
  have "encn f div 2 ^ 40 = encn f div 2 ^ 20 div 2 ^ 20" by (simp add: div_mult2_eq [symmetric])
  then have 2: "encn f div 2 ^ 40 = ww f + 2 ^ 20 * flagn f" unfolding 1 low(1) [OF b(2)] .
  have "encn f div 2 ^ 60 = encn f div 2 ^ 40 div 2 ^ 20" by (simp add: div_mult2_eq [symmetric])
  then show "encn f div 2 ^ 60 = flagn f" unfolding 2 low(1) [OF b(3)] .
  show "encn f mod 2 ^ 20 = rl f" unfolding e by (rule low(2) [OF b(1)])
  show "encn f div 2 ^ 20 mod 2 ^ 20 = wr f" unfolding 1 by (rule low(2) [OF b(2)])
  show "encn f div 2 ^ 40 mod 2 ^ 20 = ww f" unfolding 2 by (rule low(2) [OF b(3)])
qed

lemma enc_bits:
  assumes "fields_ok f"
  shows "bit (enc f) 60 \<longleftrightarrow> wl f" and "bit (enc f) 61 \<longleftrightarrow> ws f" and "bit (enc f) 62 \<longleftrightarrow> rs f"
proof -
  have b: "bit (enc f) n \<longleftrightarrow> odd (encn f div 2 ^ n)" if "n < 64" for n
    using that bit_unsigned_iff [of "enc f" n, where 'a = nat] unat_enc [OF assms] by (simp add: bit_iff_odd)
  have d: "encn f div 2 ^ (60 + k) = flagn f div 2 ^ k" for k
    using encn_parts(1) [OF assms] by (simp add: power_add div_mult2_eq)
  show "bit (enc f) 60 \<longleftrightarrow> wl f" using b [of 60] d [of 0] by (simp add: flagn_def of_bool_def)
  show "bit (enc f) 61 \<longleftrightarrow> ws f" using b [of 61] d [of 1] by (simp add: flagn_def of_bool_def)
  show "bit (enc f) 62 \<longleftrightarrow> rs f" using b [of 62] d [of 2] by (simp add: flagn_def of_bool_def)
qed

text \<open>The constants as powers of two.\<close>

lemmas mutex_consts = kReaderLockInc_def kReaderLockMask_def kWaitingReaderShift_def kWaitingReaderInc_def
  kWaitingReaderMask_def kWaitingWriterShift_def kWaitingWriterInc_def kWaitingWriterMask_def kCounterWidth_def

lemma flag_consts: "kWriterLock = 2 ^ 60" "kWriterSpinWait = 2 ^ 61" "kReaderSpinWait = 2 ^ 62"
  "kWaitingReaderInc = 2 ^ 20" "kWaitingWriterInc = 2 ^ 40"
  by (simp_all add: kWriterLock_def kWriterSpinWait_def kReaderSpinWait_def mutex_consts push_bit_eq_mult)

lemma enc_flag_tests:
  assumes "fields_ok f"
  shows "enc f AND kWriterLock = 0 \<longleftrightarrow> \<not> wl f" and "enc f AND kWriterSpinWait = 0 \<longleftrightarrow> \<not> ws f"
    and "enc f AND kReaderSpinWait = 0 \<longleftrightarrow> \<not> rs f"
  unfolding flag_consts and_exp_eq_0_iff_not_bit using enc_bits [OF assms] by simp_all

lemma enc_counters:
  assumes "fields_ok f"
  shows "enc f AND kReaderLockMask = 0 \<longleftrightarrow> rl f = 0"
    and "unat (drop_bit 20 (enc f AND kWaitingReaderMask)) = wr f"
    and "enc f AND kWaitingWriterMask = 0 \<longleftrightarrow> ww f = 0"
proof -
  have field: "w AND push_bit k (mask 20) = push_bit k (take_bit 20 (drop_bit k w))" for w :: u64 and k
    by (rule bit_word_eqI) (auto simp: bit_simps)
  have u: "unat (take_bit 20 (drop_bit k (enc f))) = encn f div 2 ^ k mod 2 ^ 20" if "k < 64" for k
    using unat_enc [OF assms] unat_exp [OF that] by (simp add: take_bit_eq_mod drop_bit_eq_div unat_mod unat_div)
  have pd: "drop_bit k (push_bit k (take_bit 20 w)) = take_bit 20 w" if "k \<le> 40" for w :: u64 and k
    by (rule bit_word_eqI) (use that in \<open>auto simp: bit_simps\<close>)
  have "enc f AND kReaderLockMask = take_bit 20 (drop_bit 0 (enc f))" by (simp add: mutex_consts take_bit_eq_mask)
  then show "enc f AND kReaderLockMask = 0 \<longleftrightarrow> rl f = 0"
    using u [of 0] encn_parts(2) [OF assms] by (simp add: unat_eq_0 [symmetric])
  show "unat (drop_bit 20 (enc f AND kWaitingReaderMask)) = wr f"
    using u [of 20] encn_parts(3) [OF assms] pd [of 20] by (simp add: mutex_consts field)
  have "push_bit 40 (take_bit 20 w) = 0 \<longleftrightarrow> take_bit 20 w = 0" for w :: u64
    using pd [of 40 w] by (metis drop_bit_of_0 order_refl push_bit_of_0)
  then show "enc f AND kWaitingWriterMask = 0 \<longleftrightarrow> ww f = 0"
    using u [of 40] encn_parts(4) [OF assms] by (simp add: mutex_consts field unat_eq_0 [symmetric])
qed

text \<open>Setting and clearing flags, and counting.\<close>

lemma or_flag: "w OR 2 ^ k = (if bit w k then w else w + 2 ^ k)" for w :: u64
  using set_bit_eq [of k w] by (simp add: set_bit_eq_or)

lemma and_not_flag: "w AND NOT (2 ^ k) = (if bit w k then w - 2 ^ k else w)" for w :: u64
  using unset_bit_eq [of k w] by (simp add: unset_bit_eq_and_not)

lemma enc_set:
  assumes "fields_ok f"
  shows "enc f OR kWriterLock = enc (f\<lparr>wl := True\<rparr>)" and "enc f OR kWriterSpinWait = enc (f\<lparr>ws := True\<rparr>)"
    and "enc f OR kReaderSpinWait = enc (f\<lparr>rs := True\<rparr>)"
    and "enc f AND NOT kWriterLock = enc (f\<lparr>wl := False\<rparr>)" and "enc f AND NOT kWriterSpinWait = enc (f\<lparr>ws := False\<rparr>)"
    and "enc f AND NOT kReaderSpinWait = enc (f\<lparr>rs := False\<rparr>)"
  using enc_bits [OF assms] unfolding flag_consts or_flag and_not_flag
  by (simp_all add: enc_def encn_def of_bool_def)

lemma enc_count:
  "enc f + kReaderLockInc = enc (f\<lparr>rl := rl f + 1\<rparr>)" "enc f + kWaitingReaderInc = enc (f\<lparr>wr := wr f + 1\<rparr>)"
  "enc f + kWaitingWriterInc = enc (f\<lparr>ww := ww f + 1\<rparr>)"
  "0 < rl f \<Longrightarrow> enc f - kReaderLockInc = enc (f\<lparr>rl := rl f - 1\<rparr>)"
  "0 < ww f \<Longrightarrow> enc f - kWaitingWriterInc = enc (f\<lparr>ww := ww f - 1\<rparr>)"
  unfolding flag_consts by (simp_all add: enc_def encn_def mutex_consts algebra_simps of_nat_diff)

lemma enc_clear_waiting_readers:
  assumes "fields_ok f"
  shows "enc f AND NOT kWaitingReaderMask = enc (f\<lparr>wr := 0\<rparr>)"
proof -
  let ?m = "enc f AND kWaitingReaderMask"
  have split: "enc f = ?m + (enc f AND NOT kWaitingReaderMask)"
  proof -
    have "?m AND (enc f AND NOT kWaitingReaderMask) = 0" by (rule bit_word_eqI) (auto simp: bit_simps)
    then have "?m + (enc f AND NOT kWaitingReaderMask) = ?m OR (enc f AND NOT kWaitingReaderMask)"
      by (rule disjunctive_add_eq_or)
    also have "\<dots> = enc f" by (rule bit_word_eqI) (auto simp: bit_simps)
    finally show ?thesis by simp
  qed
  have "?m = push_bit 20 (drop_bit 20 ?m)"
    by (rule bit_word_eqI) (auto simp: mutex_consts bit_simps)
  also have "drop_bit 20 ?m = of_nat (wr f)"
    using enc_counters(2) [OF assms] unat_of_nat_uptr [of "wr f"] assms by (simp add: word_unat_eq_iff fields_ok_def)
  finally have "?m = 2 ^ 20 * of_nat (wr f)" by (simp add: push_bit_eq_mult)
  then show ?thesis using split by (simp add: enc_def encn_def algebra_simps)
qed

section \<open>The loops on fields\<close>

definition clear_ws :: "u64 \<Rightarrow> fields \<Rightarrow> fields" where
  "clear_ws r f = (if r = -1 then f else f\<lparr>ws := False\<rparr>)"

definition clear_rs :: "u64 \<Rightarrow> fields \<Rightarrow> fields" where
  "clear_rs r f = (if r = -1 then f else f\<lparr>rs := False\<rparr>)"

lemma fields_ok_upd [simp]:
  "fields_ok (f\<lparr>wl := b\<rparr>) = fields_ok f" "fields_ok (f\<lparr>ws := b\<rparr>) = fields_ok f" "fields_ok (f\<lparr>rs := b\<rparr>) = fields_ok f"
  by (simp_all add: fields_ok_def)

lemma enc_clear:
  assumes "fields_ok f"
  shows "r \<in> {-1, NOT kWriterSpinWait} \<Longrightarrow> enc f AND r = enc (clear_ws r f)"
    and "r \<in> {-1, NOT kReaderSpinWait} \<Longrightarrow> enc f AND r = enc (clear_rs r f)"
  using enc_set [OF assms] by (auto simp: clear_ws_def clear_rs_def flag_consts)

lemma lock_locked_enc: "fields_ok f \<Longrightarrow> lock_locked (enc f) \<longleftrightarrow> wl f \<or> 0 < rl f"
  by (simp add: lock_locked_def bit.conj_disj_distrib or_eq_0_iff enc_flag_tests enc_counters)

lemma read_locked_enc: "fields_ok f \<Longrightarrow> read_locked (enc f) \<longleftrightarrow> wl f"
  by (simp add: read_locked_def enc_flag_tests)

lemma lock_new_state_enc:
  assumes "fields_ok f" and "fields_ok (f\<lparr>ww := ww f + 1\<rparr>)" and "r \<in> {-1, NOT kWriterSpinWait}"
  shows "lock_new_state r n (enc f) =
    (if \<not> wl f \<and> rl f = 0 then Some (enc (clear_ws r (f\<lparr>wl := True\<rparr>)))
     else if n > kMaxSpinIters then Some (enc (clear_ws r (f\<lparr>ww := ww f + 1\<rparr>)))
     else if \<not> ws f then Some (enc (f\<lparr>ws := True\<rparr>)) else None)"
  using assms by (simp add: lock_new_state_def lock_locked_enc enc_set enc_count enc_flag_tests enc_clear(1))

lemma read_lock_new_state_enc:
  assumes "fields_ok f" and "fields_ok (f\<lparr>rl := rl f + 1\<rparr>)" and "fields_ok (f\<lparr>wr := wr f + 1\<rparr>)"
    and "r \<in> {-1, NOT kReaderSpinWait}"
  shows "read_lock_new_state r n (enc f) =
    (if \<not> wl f then Some (enc (clear_rs r (f\<lparr>rl := rl f + 1\<rparr>)))
     else if n > kMaxSpinIters then Some (enc (clear_rs r (f\<lparr>wr := wr f + 1\<rparr>)))
     else if \<not> rs f then Some (enc (f\<lparr>rs := True\<rparr>)) else None)"
  using assms by (simp add: read_lock_new_state_def read_locked_enc enc_set enc_count enc_flag_tests enc_clear(2))

definition unlock_fields :: "fields \<Rightarrow> fields \<times> bool \<times> nat" where
  "unlock_fields f =
     (if \<not> ws f \<and> \<not> rs f \<and> 0 < ww f then (f\<lparr>wl := False, ww := ww f - 1, ws := True\<rparr>, True, 0)
      else if \<not> ws f \<and> 0 < wr f then (f\<lparr>wl := False, wr := 0, rs := True\<rparr>, False, wr f)
      else (f\<lparr>wl := False\<rparr>, False, 0))"

lemma unlock_new_state_enc:
  assumes "fields_ok f" and "unlock_new_state (enc f) = (s', wake_writer, wake_readers)"
    and "unlock_fields f = (f', w, k)"
  shows "s' = enc f'" and "wake_writer = w" and "unat wake_readers = k"
proof -
  let ?f = "f\<lparr>wl := False\<rparr>"
  have ok: "fields_ok ?f" "0 < ww f \<Longrightarrow> fields_ok (?f\<lparr>ww := ww f - 1\<rparr>)" "fields_ok (?f\<lparr>wr := 0\<rparr>)"
    using assms(1) by (auto simp: fields_ok_def)
  have k0: "drop_bit kWaitingReaderShift (enc f AND kWaitingReaderMask) = 0 \<longleftrightarrow> wr f = 0"
    using enc_counters(2) [OF assms(1)] by (auto simp: unat_eq_0 [symmetric] kWaitingReaderShift_def kCounterWidth_def)
  have u: "unat (drop_bit kWaitingReaderShift (enc f AND kWaitingReaderMask)) = wr f"
    using enc_counters(2) [OF assms(1)] by (simp add: kWaitingReaderShift_def kCounterWidth_def)
  have s1: "0 < ww f \<Longrightarrow> (enc f AND NOT kWriterLock) - kWaitingWriterInc OR kWriterSpinWait = enc (?f\<lparr>ww := ww f - 1, ws := True\<rparr>)"
    using enc_set(4) [OF assms(1)] enc_count(5) [of ?f] enc_set(2) [OF ok(2)] by simp
  have s2: "(enc f AND NOT kWriterLock) AND NOT kWaitingReaderMask OR kReaderSpinWait = enc (?f\<lparr>wr := 0, rs := True\<rparr>)"
    using enc_set(4) [OF assms(1)] enc_clear_waiting_readers [OF ok(1)] enc_set(3) [OF ok(3)] by simp
  show "s' = enc f'" and "wake_writer = w" and "unat wake_readers = k"
    using assms(2,3) s1 s2 u k0 enc_set(4) [OF assms(1)] enc_flag_tests [OF assms(1)] enc_counters(3) [OF assms(1)]
    by (auto simp: unlock_new_state_def unlock_fields_def Let_def bit.conj_disj_distrib or_eq_0_iff split: if_splits)
qed

definition read_unlock_fields :: "fields \<Rightarrow> fields \<times> bool" where
  "read_unlock_fields f =
     (if rl f = 1 \<and> \<not> ws f \<and> \<not> rs f \<and> 0 < ww f then (f\<lparr>rl := 0, ww := ww f - 1, ws := True\<rparr>, True)
      else (f\<lparr>rl := rl f - 1\<rparr>, False))"

lemma read_unlock_new_state_enc:
  assumes "fields_ok f" and "0 < rl f" and "read_unlock_new_state (enc f) = (s', wake)"
    and "read_unlock_fields f = (f', w)"
  shows "s' = enc f'" and "wake = w"
proof -
  let ?f = "f\<lparr>rl := rl f - 1\<rparr>"
  have ok: "fields_ok ?f" "0 < ww f \<Longrightarrow> fields_ok (?f\<lparr>ww := ww f - 1\<rparr>)" using assms(1) by (auto simp: fields_ok_def)
  have e: "enc f - kReaderLockInc = enc ?f" by (rule enc_count(4) [OF assms(2)])
  have s1: "0 < ww f \<Longrightarrow> enc ?f - kWaitingWriterInc OR kWriterSpinWait = enc (?f\<lparr>ww := ww f - 1, ws := True\<rparr>)"
    using enc_count(5) [of ?f] enc_set(2) [OF ok(2)] by simp
  show "s' = enc f'" and "wake = w"
    using assms(2-4) s1 enc_flag_tests [OF ok(1)] enc_counters [OF ok(1)]
    by (auto simp: read_unlock_new_state_def read_unlock_fields_def Let_def e bit.conj_disj_distrib or_eq_0_iff split: if_splits)
qed

end
