(* ===== verification/San_Mutex_Proofs.thy ===== *)
theory San_Mutex_Proofs
  imports San_Mutex
begin

text \<open>
  What the reader-writer lock guarantees to any number of threads below \<open>2 ^ 20\<close>, whatever their
  interleaving: mutual exclusion, counters that count, and no lost wakeup.
\<close>

unbundle bit_operations_syntax

section \<open>What a thread adds to the counts\<close>

fun reads :: "pc \<Rightarrow> nat" where
  "reads Reading = 1" | "reads (ReadUnlocking s) = 1" | "reads _ = 0"

fun writes :: "pc \<Rightarrow> nat" where
  "writes Writing = 1" | "writes (Unlocking s) = 1" | "writes _ = 0"

fun posts_writer :: "pc \<Rightarrow> nat" where
  "posts_writer PostingWriter = 1" | "posts_writer _ = 0"

fun posts_readers :: "pc \<Rightarrow> nat" where
  "posts_readers (PostingReaders k) = k" | "posts_readers _ = 0"

fun waits_write :: "pc \<Rightarrow> nat" where
  "waits_write (LockWaiting c) = 1" | "waits_write _ = 0"

fun waits_read :: "pc \<Rightarrow> nat" where
  "waits_read (ReadWaiting c) = 1" | "waits_read _ = 0"

text \<open>A writer that has set or been handed \<^verbatim>\<open>kWriterSpinWait\<close>, and a reader with \<^verbatim>\<open>kReaderSpinWait\<close>.\<close>

fun spins_write :: "pc \<Rightarrow> nat" where
  "spins_write (Locking r s n) = (if r = -1 then 0 else 1)" | "spins_write (LockReload n) = 1" | "spins_write _ = 0"

fun spins_read :: "pc \<Rightarrow> nat" where
  "spins_read (ReadLocking r s n) = (if r = -1 then 0 else 1)" | "spins_read (ReadReload n) = 1" | "spins_read _ = 0"

fun pc_ok :: "pc \<Rightarrow> bool" where
  "pc_ok (Locking r s n) \<longleftrightarrow> r \<in> {-1, NOT kWriterSpinWait}"
| "pc_ok (ReadLocking r s n) \<longleftrightarrow> r \<in> {-1, NOT kReaderSpinWait}"
| "pc_ok _ \<longleftrightarrow> True"

lemma reset_masks: "NOT kWriterSpinWait \<noteq> -1" "NOT kReaderSpinWait \<noteq> -1"
  by (simp_all add: flag_consts)

section \<open>The invariant\<close>

text \<open>The counts of the threads other than the one that moves.\<close>

record others =
  o_reads :: nat
  o_writes :: nat
  o_posts_writer :: nat
  o_posts_readers :: nat
  o_waits_write :: nat
  o_waits_read :: nat
  o_spins_write :: nat
  o_spins_read :: nat

definition core :: "fields \<Rightarrow> mutex \<Rightarrow> others \<Rightarrow> pc \<Rightarrow> bool" where
  "core f g a p \<longleftrightarrow>
     rl f = o_reads a + reads p \<and>
     of_bool (wl f) = o_writes a + writes p \<and>
     (wl f \<longrightarrow> rl f = 0) \<and>
     ww f + mx_writers g + o_posts_writer a + posts_writer p = o_waits_write a + waits_write p \<and>
     wr f + mx_readers g + o_posts_readers a + posts_readers p = o_waits_read a + waits_read p \<and>
     of_bool (ws f) = o_spins_write a + spins_write p + mx_writers g + o_posts_writer a + posts_writer p \<and>
     (rs f \<longrightarrow> 0 < o_spins_read a + spins_read p + mx_readers g + o_posts_readers a + posts_readers p) \<and>
     (0 < wr f \<longrightarrow> wl f \<or> ws f \<or> 0 < ww f) \<and>
     (\<not> wl f \<and> rl f = 0 \<and> 0 < ww f \<longrightarrow> ws f \<or> rs f)"

lemma coreD:
  assumes "core f g a p"
  shows "rl f = o_reads a + reads p"
    and "of_bool (wl f) = o_writes a + writes p"
    and "wl f \<longrightarrow> rl f = 0"
    and "ww f + mx_writers g + o_posts_writer a + posts_writer p = o_waits_write a + waits_write p"
    and "wr f + mx_readers g + o_posts_readers a + posts_readers p = o_waits_read a + waits_read p"
    and "of_bool (ws f) = o_spins_write a + spins_write p + mx_writers g + o_posts_writer a + posts_writer p"
    and "rs f \<longrightarrow> 0 < o_spins_read a + spins_read p + mx_readers g + o_posts_readers a + posts_readers p"
    and "0 < wr f \<longrightarrow> wl f \<or> ws f \<or> 0 < ww f"
    and "\<not> wl f \<and> rl f = 0 \<and> 0 < ww f \<longrightarrow> ws f \<or> rs f"
  using assms unfolding core_def by - (elim conjE, assumption)+

lemma clear_fields [simp]:
  "rl (clear_ws r f) = rl f" "wr (clear_ws r f) = wr f" "ww (clear_ws r f) = ww f" "wl (clear_ws r f) = wl f"
  "ws (clear_ws r f) \<longleftrightarrow> ws f \<and> r = -1" "rs (clear_ws r f) = rs f"
  "rl (clear_rs r f) = rl f" "wr (clear_rs r f) = wr f" "ww (clear_rs r f) = ww f" "wl (clear_rs r f) = wl f"
  "ws (clear_rs r f) = ws f" "rs (clear_rs r f) \<longleftrightarrow> rs f \<and> r = -1"
  by (simp_all add: clear_ws_def clear_rs_def)

definition others_ok :: "others \<Rightarrow> bool" where
  "others_ok a \<longleftrightarrow> o_reads a < 2 ^ 20 - 1 \<and> o_waits_write a < 2 ^ 20 - 1 \<and> o_waits_read a < 2 ^ 20 - 1"

lemma core_ok:
  assumes "core f g a p" and "others_ok a"
  shows "fields_ok f"
proof -
  have "reads p \<le> 1" "waits_write p \<le> 1" "waits_read p \<le> 1" by (cases p; simp)+
  then show ?thesis using assms unfolding core_def others_ok_def fields_ok_def by linarith
qed

lemma core_ok_inc:
  assumes "core f g a p" and "others_ok a"
  shows "reads p = 0 \<Longrightarrow> fields_ok (f\<lparr>rl := rl f + 1\<rparr>)" and "waits_write p = 0 \<Longrightarrow> fields_ok (f\<lparr>ww := ww f + 1\<rparr>)"
    and "waits_read p = 0 \<Longrightarrow> fields_ok (f\<lparr>wr := wr f + 1\<rparr>)"
proof -
  have "reads p \<le> 1" "waits_write p \<le> 1" "waits_read p \<le> 1" by (cases p; simp)+
  then have b: "rl f \<le> o_reads a + reads p" "ww f \<le> o_waits_write a + waits_write p" "wr f \<le> o_waits_read a + waits_read p"
    and ok: "fields_ok f" using assms core_ok [OF assms] unfolding core_def by linarith+
  show "reads p = 0 \<Longrightarrow> fields_ok (f\<lparr>rl := rl f + 1\<rparr>)" and "waits_write p = 0 \<Longrightarrow> fields_ok (f\<lparr>ww := ww f + 1\<rparr>)"
    and "waits_read p = 0 \<Longrightarrow> fields_ok (f\<lparr>wr := wr f + 1\<rparr>)"
    using b ok assms(2) by (simp_all add: fields_ok_def others_ok_def)
qed

lemmas pc_weights = reads.simps writes.simps posts_writer.simps posts_readers.simps waits_write.simps waits_read.simps
  spins_write.simps spins_read.simps

lemma lock_cas_core:
  assumes "core f g a (Locking r s n)" and "others_ok a" and "pc_ok (Locking r s n)"
    and "lock_new_state r n (enc f) = Some s'"
  shows "\<exists>f'. s' = enc f' \<and> core f' (g\<lparr>mx_state := s'\<rparr>) a
    (if \<not> lock_locked (enc f) then Writing else if n > kMaxSpinIters then LockWaiting None else LockReload n)"
proof -
  have ok: "fields_ok f" "fields_ok (f\<lparr>ww := ww f + 1\<rparr>)"
    using core_ok [OF assms(1,2)] core_ok_inc(2) [OF assms(1,2)] by simp_all
  have r: "r \<in> {-1, NOT kWriterSpinWait}" using assms(3) by simp
  note new = assms(4) [unfolded lock_new_state_enc [OF ok r]]
  note L = lock_locked_enc [OF ok(1)]
  note c = coreD [OF assms(1), unfolded pc_weights]
  consider "\<not> wl f" "rl f = 0" "s' = enc (clear_ws r (f\<lparr>wl := True\<rparr>))"
    | "wl f \<or> 0 < rl f" "n > kMaxSpinIters" "s' = enc (clear_ws r (f\<lparr>ww := ww f + 1\<rparr>))"
    | "wl f \<or> 0 < rl f" "\<not> n > kMaxSpinIters" "\<not> ws f" "s' = enc (f\<lparr>ws := True\<rparr>)"
    using new by (auto split: if_splits)
  then show ?thesis
  proof cases
    case 1
    have "core (clear_ws r (f\<lparr>wl := True\<rparr>)) (g\<lparr>mx_state := s'\<rparr>) a Writing"
      unfolding core_def using c 1(1,2)
      by (intro conjI impI) (cases "ws f"; cases "r = -1"; simp del: add_gr_0; linarith?)+
    then show ?thesis using 1 L by auto
  next
    case 2
    have "core (clear_ws r (f\<lparr>ww := ww f + 1\<rparr>)) (g\<lparr>mx_state := s'\<rparr>) a (LockWaiting None)"
      unfolding core_def using c 2(1)
      by (intro conjI impI) (cases "ws f"; cases "r = -1"; simp del: add_gr_0; linarith?)+
    then show ?thesis using 2 L by auto
  next
    case 3
    have "core (f\<lparr>ws := True\<rparr>) (g\<lparr>mx_state := s'\<rparr>) a (LockReload n)"
      unfolding core_def using c 3(1,3)
      by (intro conjI impI) (cases "r = -1"; simp del: add_gr_0; linarith?)+
    then show ?thesis using 3 L by auto
  qed
qed

lemma read_cas_core:
  assumes "core f g a (ReadLocking r s n)" and "others_ok a" and "pc_ok (ReadLocking r s n)"
    and "read_lock_new_state r n (enc f) = Some s'"
  shows "\<exists>f'. s' = enc f' \<and> core f' (g\<lparr>mx_state := s'\<rparr>) a
    (if \<not> read_locked (enc f) then Reading else if n > kMaxSpinIters then ReadWaiting None else ReadReload n)"
proof -
  have ok: "fields_ok f" "fields_ok (f\<lparr>rl := rl f + 1\<rparr>)" "fields_ok (f\<lparr>wr := wr f + 1\<rparr>)"
    using core_ok [OF assms(1,2)] core_ok_inc(1,3) [OF assms(1,2)] by simp_all
  have r: "r \<in> {-1, NOT kReaderSpinWait}" using assms(3) by simp
  note new = assms(4) [unfolded read_lock_new_state_enc [OF ok r]]
  note L = read_locked_enc [OF ok(1)]
  note c = coreD [OF assms(1), unfolded pc_weights]
  consider "\<not> wl f" "s' = enc (clear_rs r (f\<lparr>rl := rl f + 1\<rparr>))"
    | "wl f" "n > kMaxSpinIters" "s' = enc (clear_rs r (f\<lparr>wr := wr f + 1\<rparr>))"
    | "wl f" "\<not> n > kMaxSpinIters" "\<not> rs f" "s' = enc (f\<lparr>rs := True\<rparr>)"
    using new by (auto split: if_splits)
  then show ?thesis
  proof cases
    case 1
    have "core (clear_rs r (f\<lparr>rl := rl f + 1\<rparr>)) (g\<lparr>mx_state := s'\<rparr>) a Reading"
      unfolding core_def using c 1(1)
      by (intro conjI impI) (cases "ws f"; cases "r = -1"; simp del: add_gr_0; linarith?)+
    then show ?thesis using 1 L by auto
  next
    case 2
    have "core (clear_rs r (f\<lparr>wr := wr f + 1\<rparr>)) (g\<lparr>mx_state := s'\<rparr>) a (ReadWaiting None)"
      unfolding core_def using c 2(1)
      by (intro conjI impI) (cases "ws f"; cases "r = -1"; simp del: add_gr_0; linarith?)+
    then show ?thesis using 2 L by auto
  next
    case 3
    have "core (f\<lparr>rs := True\<rparr>) (g\<lparr>mx_state := s'\<rparr>) a (ReadReload n)"
      unfolding core_def using c 3(1,3)
      by (intro conjI impI) (cases "ws f"; cases "r = -1"; simp del: add_gr_0; linarith?)+
    then show ?thesis using 3 L by auto
  qed
qed

lemma try_cas_core:
  assumes "core f g a (TryLocking s)" and "others_ok a" and "\<not> lock_locked (enc f)"
  shows "enc f OR kWriterLock = enc (f\<lparr>wl := True\<rparr>)" and "core (f\<lparr>wl := True\<rparr>) (g\<lparr>mx_state := s'\<rparr>) a Writing"
proof -
  have ok: "fields_ok f" by (rule core_ok [OF assms(1,2)])
  show "enc f OR kWriterLock = enc (f\<lparr>wl := True\<rparr>)" by (rule enc_set(1) [OF ok])
  have u: "\<not> wl f" "rl f = 0" using assms(3) lock_locked_enc [OF ok] by simp_all
  note c = coreD [OF assms(1), unfolded pc_weights]
  show "core (f\<lparr>wl := True\<rparr>) (g\<lparr>mx_state := s'\<rparr>) a Writing"
    unfolding core_def using c u by (intro conjI impI) (cases "ws f"; simp del: add_gr_0; linarith?)+
qed

lemma unlock_cas_core:
  assumes "core f g a (Unlocking s)" and "others_ok a" and "unlock_new_state (enc f) = (s', wake_writer, wake_readers)"
  shows "\<exists>f'. s' = enc f' \<and> core f' (g\<lparr>mx_state := s'\<rparr>) a
    (if wake_writer then PostingWriter else if wake_readers \<noteq> 0 then PostingReaders (unat wake_readers) else Idle)"
proof -
  have ok: "fields_ok f" by (rule core_ok [OF assms(1,2)])
  obtain f' w k where u: "unlock_fields f = (f', w, k)" by (cases "unlock_fields f") auto
  note e = unlock_new_state_enc [OF ok assms(3) u]
  note c = coreD [OF assms(1), unfolded pc_weights]
  have wl: "wl f" using c(2) by (cases "wl f") simp_all
  consider "\<not> ws f" "\<not> rs f" "0 < ww f" | "\<not> ws f" "rs f \<or> ww f = 0" "0 < wr f" | "ws f \<or> wr f = 0 \<and> (rs f \<or> ww f = 0)" by auto
  then have "core f' (g\<lparr>mx_state := s'\<rparr>) a (if w then PostingWriter else if k \<noteq> 0 then PostingReaders k else Idle)"
  proof cases
    case 1
    then have f': "f' = f\<lparr>wl := False, ww := ww f - 1, ws := True\<rparr>" "w" using u by (simp_all add: unlock_fields_def)
    show ?thesis unfolding core_def f'(1) using c 1 wl f'(2)
      by (intro conjI impI) (simp del: add_gr_0; linarith?)+
  next
    case 2
    then have f': "f' = f\<lparr>wl := False, wr := 0, rs := True\<rparr>" "\<not> w" "k = wr f" using u by (auto simp: unlock_fields_def)
    show ?thesis unfolding core_def f'(1) using c 2 wl f'(2,3)
      by (intro conjI impI) (simp del: add_gr_0; linarith?)+
  next
    case 3
    then have f': "f' = f\<lparr>wl := False\<rparr>" "\<not> w" "k = 0" using u by (auto simp: unlock_fields_def split: if_splits)
    show ?thesis unfolding core_def f'(1) using c 3 wl f'(2,3)
      by (intro conjI impI) (cases "ws f"; simp del: add_gr_0; linarith?)+
  qed
  moreover have "wake_readers \<noteq> 0 \<longleftrightarrow> k \<noteq> 0" using e(3) by (auto simp: unat_gt_0)
  ultimately show ?thesis using e by auto
qed

lemma read_unlock_cas_core:
  assumes "core f g a (ReadUnlocking s)" and "others_ok a" and "read_unlock_new_state (enc f) = (s', wake)"
  shows "\<exists>f'. s' = enc f' \<and> core f' (g\<lparr>mx_state := s'\<rparr>) a (if wake then PostingWriter else Idle)"
proof -
  have ok: "fields_ok f" by (rule core_ok [OF assms(1,2)])
  note c = coreD [OF assms(1), unfolded pc_weights]
  have rl: "0 < rl f" using c(1) by simp
  obtain f' w where u: "read_unlock_fields f = (f', w)" by (cases "read_unlock_fields f") auto
  note e = read_unlock_new_state_enc [OF ok rl assms(3) u]
  have "core f' (g\<lparr>mx_state := s'\<rparr>) a (if w then PostingWriter else Idle)"
  proof (cases "rl f = 1 \<and> \<not> ws f \<and> \<not> rs f \<and> 0 < ww f")
    case True
    then have f': "f' = f\<lparr>rl := 0, ww := ww f - 1, ws := True\<rparr>" "w" using u by (simp_all add: read_unlock_fields_def)
    show ?thesis unfolding core_def f'(1) using c True f'(2)
      by (intro conjI impI) (simp del: add_gr_0; linarith?)+
  next
    case False
    then have f': "f' = f\<lparr>rl := rl f - 1\<rparr>" "\<not> w" using u by (auto simp: read_unlock_fields_def)
    show ?thesis unfolding core_def f'(1) using c False rl f'(2)
      by (intro conjI impI) (cases "ws f"; simp del: add_gr_0; linarith?)+
  qed
  then show ?thesis using e by auto
qed

lemma core_same:
  assumes "reads p = reads q" and "writes p = writes q" and "posts_writer p = posts_writer q" and "posts_readers p = posts_readers q"
    and "waits_write p = waits_write q" and "waits_read p = waits_read q" and "spins_write p = spins_write q" and "spins_read p = spins_read q"
  shows "core f g a p \<longleftrightarrow> core f g a q"
  unfolding core_def assms ..

lemma core_step:
  assumes "mutex_step g p g' q" and "core f g a p" and "others_ok a" and "pc_ok p" and "mx_state g = enc f"
  shows "\<exists>f'. mx_state g' = enc f' \<and> core f' g' a q \<and> pc_ok q"
  using assms
proof (cases rule: mutex_step.cases)
  case (lock_cas r n s s')
  have q: "pc_ok q" unfolding lock_cas by simp
  have "\<exists>f'. s' = enc f' \<and> core f' (g\<lparr>mx_state := s'\<rparr>) a
      (if \<not> lock_locked (enc f) then Writing else if n > kMaxSpinIters then LockWaiting None else LockReload n)"
    by (rule lock_cas_core [where r = r and s = s]) (use assms(2-5) lock_cas in simp_all)
  then show ?thesis using q lock_cas(2,3,5) assms(5) by auto
next
  case (try_cas s)
  then show ?thesis using try_cas_core [where f = f and g = g and a = a and s = s] assms by auto
next
  case (unlock_cas s s' wake_writer wake_readers)
  have q: "pc_ok q" unfolding unlock_cas by simp
  have "\<exists>f'. s' = enc f' \<and> core f' (g\<lparr>mx_state := s'\<rparr>) a
    (if wake_writer then PostingWriter else if wake_readers \<noteq> 0 then PostingReaders (unat wake_readers) else Idle)"
    using unlock_cas assms by (intro unlock_cas_core [where s = s]) auto
  then show ?thesis using q unlock_cas(2,3) by auto
next
  case (read_cas r n s s')
  have q: "pc_ok q" unfolding read_cas by simp
  have "\<exists>f'. s' = enc f' \<and> core f' (g\<lparr>mx_state := s'\<rparr>) a
      (if \<not> read_locked (enc f) then Reading else if n > kMaxSpinIters then ReadWaiting None else ReadReload n)"
    by (rule read_cas_core [where r = r and s = s]) (use read_cas assms in simp_all)
  then show ?thesis using q read_cas(2,3,5) assms(5) by auto
next
  case (read_unlock_cas s s' wake)
  have q: "pc_ok q" unfolding read_unlock_cas by simp
  have "\<exists>f'. s' = enc f' \<and> core f' (g\<lparr>mx_state := s'\<rparr>) a (if wake then PostingWriter else Idle)"
    using read_unlock_cas assms by (intro read_unlock_cas_core [where s = s]) auto
  then show ?thesis using q read_unlock_cas(2,3) by auto
next
  case (lock_wait_cas c)
  have "core f g' a q" unfolding core_def lock_wait_cas
    by (intro conjI impI) (use coreD [OF assms(2)] lock_wait_cas in \<open>simp del: add_gr_0; linarith?\<close>)+
  then show ?thesis using lock_wait_cas assms(5) by auto
next
  case (read_wait_cas c)
  have "core f g' a q" unfolding core_def read_wait_cas
    by (intro conjI impI) (use coreD [OF assms(2)] read_wait_cas in \<open>simp del: add_gr_0; linarith?\<close>)+
  then show ?thesis using read_wait_cas assms(5) by auto
next
  case post_writer
  have "core f g' a q" unfolding core_def post_writer
    by (intro conjI impI) (use coreD [OF assms(2)] post_writer in \<open>simp del: add_gr_0; linarith?\<close>)+
  then show ?thesis using post_writer assms(5) by auto
next
  case (post_readers k)
  have "core f g' a q" unfolding core_def post_readers
    by (intro conjI impI) (use coreD [OF assms(2)] post_readers in \<open>simp del: add_gr_0; linarith?\<close>)+
  then show ?thesis using post_readers assms(5) by auto
qed (rule exI [of _ f], use core_same [of p q f g a] reset_masks in simp)+

section \<open>The system\<close>

definition tally :: "nat \<Rightarrow> (pc \<Rightarrow> nat) \<Rightarrow> (nat \<Rightarrow> pc) \<Rightarrow> nat" where
  "tally N w p = (\<Sum>t<N. w (p t))"

definition except :: "nat \<Rightarrow> nat \<Rightarrow> (pc \<Rightarrow> nat) \<Rightarrow> (nat \<Rightarrow> pc) \<Rightarrow> nat" where
  "except N t w p = (\<Sum>u\<in>{..<N} - {t}. w (p u))"

definition others_of :: "nat \<Rightarrow> nat \<Rightarrow> (nat \<Rightarrow> pc) \<Rightarrow> others" where
  "others_of N t p = \<lparr>o_reads = except N t reads p, o_writes = except N t writes p,
     o_posts_writer = except N t posts_writer p, o_posts_readers = except N t posts_readers p,
     o_waits_write = except N t waits_write p, o_waits_read = except N t waits_read p,
     o_spins_write = except N t spins_write p, o_spins_read = except N t spins_read p\<rparr>"

definition mutex_inv :: "nat \<Rightarrow> mutex_system \<Rightarrow> bool" where
  "mutex_inv N s \<longleftrightarrow> (\<exists>f. mx_state (fst s) = enc f \<and> (\<forall>t<N. pc_ok (snd s t) \<and> core f (fst s) (others_of N t (snd s)) (snd s t)))"

lemma tally_split: "t < N \<Longrightarrow> tally N w p = except N t w p + w (p t)"
  by (simp add: tally_def except_def sum.remove [of "{..<N}" t])

lemma others_upd: "others_of N t (p(t := q)) = others_of N t p"
  by (auto simp: others_of_def except_def intro!: sum.cong)

lemma core_any_thread:
  assumes "core f g (others_of N t p) (p t)" and "t < N" and "u < N"
  shows "core f g (others_of N u p) (p u)"
proof -
  have "except N t w p + w (p t) = except N u w p + w (p u)" for w
    using tally_split [OF assms(2), of w p] tally_split [OF assms(3), of w p] by simp
  note w = this [of reads] this [of writes] this [of posts_writer] this [of posts_readers] this [of waits_write]
    this [of waits_read] this [of spins_write] this [of spins_read]
  show ?thesis unfolding core_def
    by (intro conjI) (use coreD [OF assms(1)] w in \<open>simp_all add: others_of_def; linarith\<close>)+
qed

lemma others_ok_of:
  assumes "t < N" and "N < 2 ^ 20"
  shows "others_ok (others_of N t p)"
proof -
  have "except N t w p < 2 ^ 20 - 1" if "\<And>q. w q \<le> 1" for w
  proof -
    have "except N t w p \<le> (\<Sum>u\<in>{..<N} - {t}. 1)" unfolding except_def by (rule sum_mono) (rule that)
    also have "\<dots> = N - 1" using assms(1) by simp
    finally show ?thesis using assms by linarith
  qed
  moreover have "reads q \<le> 1" "waits_write q \<le> 1" "waits_read q \<le> 1" for q by (cases q; simp)+
  ultimately show ?thesis by (simp add: others_ok_def others_of_def)
qed

lemma mutex_inv_init: "mutex_inv N mutex_init"
proof -
  let ?f = "\<lparr>rl = 0, wr = 0, ww = 0, wl = False, ws = False, rs = False\<rparr>"
  have "enc ?f = 0" by (simp add: enc_def encn_def)
  then show ?thesis
    by (auto simp: mutex_inv_def mutex_init_def core_def others_of_def except_def intro!: exI [of _ ?f])
qed

lemma mutex_inv_step:
  assumes "mutex_inv N s" and "system_step N s s'" and "N < 2 ^ 20"
  shows "mutex_inv N s'"
  using assms(2)
proof cases
  case (1 t g p g' q)
  obtain f where f: "mx_state g = enc f" "\<And>u. u < N \<Longrightarrow> pc_ok (p u)" "core f g (others_of N t p) (p t)"
    using assms(1) 1 unfolding mutex_inv_def by auto
  obtain f' where f': "mx_state g' = enc f'" "core f' g' (others_of N t p) q" "pc_ok q"
    using core_step [OF 1(4) f(3) others_ok_of [OF 1(3) assms(3)] f(2) [OF 1(3)] f(1)] by blast
  have "core f' g' (others_of N u (p(t := q))) ((p(t := q)) u)" if "u < N" for u
    by (rule core_any_thread [OF _ 1(3) that]) (simp add: others_upd f'(2))
  then show ?thesis unfolding 1 mutex_inv_def using f'(1,3) f(2) by (intro exI [of _ f']) simp
qed

lemma mutex_reachable_inv: "mutex_reachable N s \<Longrightarrow> N < 2 ^ 20 \<Longrightarrow> mutex_inv N s"
  by (induction rule: mutex_reachable.induct) (auto intro: mutex_inv_init mutex_inv_step)

definition holds_write :: "mutex_system \<Rightarrow> nat \<Rightarrow> bool" where
  "holds_write s t \<longleftrightarrow> writes (snd s t) = 1"

definition holds_read :: "mutex_system \<Rightarrow> nat \<Rightarrow> bool" where
  "holds_read s t \<longleftrightarrow> reads (snd s t) = 1"

definition waiting :: "mutex_system \<Rightarrow> nat \<Rightarrow> bool" where
  "waiting s t \<longleftrightarrow> waits_write (snd s t) = 1 \<or> waits_read (snd s t) = 1"

lemma except_le: "u < N \<Longrightarrow> u \<noteq> t \<Longrightarrow> w (p u) \<le> except N t w p"
  unfolding except_def by (rule member_le_sum) auto

text \<open>
  C6: In every state that fewer than \<open>2 ^ 20\<close> threads can reach by calling \<^verbatim>\<open>Lock\<close>, \<^verbatim>\<open>TryLock\<close>, \<^verbatim>\<open>Unlock\<close>,
  \<^verbatim>\<open>ReadLock\<close> and \<^verbatim>\<open>ReadUnlock\<close> of one mutex, with their atomic accesses interleaved in any order and any
  compare-and-swap failing spuriously, a thread that holds the mutex for writing excludes all
  others, readers and writers.
\<close>

theorem mutex_mutual_exclusion:
  assumes "mutex_reachable N s" and "N < 2 ^ 20" and "t < N" and "u < N" and "t \<noteq> u" and "holds_write s t"
  shows "\<not> holds_write s u \<and> \<not> holds_read s u"
proof -
  obtain f where c: "core f (fst s) (others_of N t (snd s)) (snd s t)"
    using mutex_reachable_inv [OF assms(1,2)] assms(3) unfolding mutex_inv_def by blast
  have "of_bool (wl f) = except N t writes (snd s) + 1" using coreD(2) [OF c] assms(6) by (simp add: others_of_def holds_write_def)
  then have w: "wl f" "except N t writes (snd s) = 0" by (cases "wl f"; simp)+
  then have "rl f = 0" using coreD(3) [OF c] by simp
  then have "except N t reads (snd s) = 0" using coreD(1) [OF c] by (simp add: others_of_def)
  then show ?thesis
    using except_le [of u N t writes "snd s"] except_le [of u N t reads "snd s"] w(2) assms(4,5)
    by (auto simp: holds_write_def holds_read_def)
qed

section \<open>Runs\<close>

abbreviation run :: "nat \<Rightarrow> mutex_system \<Rightarrow> mutex_system \<Rightarrow> bool" where
  "run N \<equiv> (system_step N)\<^sup>*\<^sup>*"

lemma run_reachable: "run N s s' \<Longrightarrow> mutex_reachable N s \<Longrightarrow> mutex_reachable N s'"
  by (induction rule: rtranclp_induct) (auto intro: mutex_reachable.step)

lemma thread_step: "mutex_step g P g' q \<Longrightarrow> t < N \<Longrightarrow> p t = P \<Longrightarrow> run N (g, p) (g', p(t := q))"
  by (rule r_into_rtranclp) (auto intro: system_step.intros)

lemma run_then:
  assumes "mutex_step g P g' q" and "t < N" and "p t = P" and "run N (g', p(t := q)) s"
  shows "run N (g, p) s"
  using thread_step [where p = p, OF assms(1-3)] assms(4) by (rule rtranclp_trans)

text \<open>A thread that is awake takes a free mutex.\<close>

lemma lock_reloads: "mutex_step g (Locking r s n) g (Locking r (mx_state g) (n + 1))"
  by (cases "lock_new_state r n s") (erule lock_spin lock_cas_fail)+

lemma read_reloads: "mutex_step g (ReadLocking r s n) g (ReadLocking r (mx_state g) (n + 1))"
  by (cases "read_lock_new_state r n s") (erule read_spin read_cas_fail)+

definition some_holder :: "nat \<Rightarrow> mutex_system \<Rightarrow> bool" where
  "some_holder N s \<longleftrightarrow> (\<exists>t<N. holds_write s t \<or> holds_read s t)"

lemma locking_run:
  assumes "t < N" and "\<not> lock_locked (mx_state g)" and "p t = Locking r s n"
  shows "\<exists>s'. run N (g, p) s' \<and> some_holder N s'"
proof -
  let ?L = "Locking r (mx_state g) (n + 1)" and ?s = "(mx_state g OR kWriterLock) AND r"
  have "mutex_step g ?L (g\<lparr>mx_state := ?s\<rparr>)
      (if \<not> lock_locked (mx_state g) then Writing else if n + 1 > kMaxSpinIters then LockWaiting None else LockReload (n + 1))"
    by (rule lock_cas) (use assms(2) in \<open>simp_all add: lock_new_state_def\<close>)
  then have "run N (g, p(t := ?L)) (g\<lparr>mx_state := ?s\<rparr>, p(t := ?L, t := Writing))"
    using assms(1,2) by (intro thread_step [where P = ?L]) simp_all
  then have "run N (g, p) (g\<lparr>mx_state := ?s\<rparr>, p(t := ?L, t := Writing))"
    by (rule run_then [where p = p, OF lock_reloads assms(1,3)])
  then show ?thesis using assms(1)
    by (intro exI conjI) (assumption, auto simp: some_holder_def holds_write_def)
qed

lemma read_locked_locked: "\<not> lock_locked s \<Longrightarrow> \<not> read_locked s"
  by (simp add: lock_locked_def read_locked_def bit.conj_disj_distrib or_eq_0_iff)

lemma read_locking_run:
  assumes "t < N" and "\<not> lock_locked (mx_state g)" and "p t = ReadLocking r s n"
  shows "\<exists>s'. run N (g, p) s' \<and> some_holder N s'"
proof -
  let ?L = "ReadLocking r (mx_state g) (n + 1)" and ?s = "(mx_state g + kReaderLockInc) AND r"
  have u: "\<not> read_locked (mx_state g)" by (rule read_locked_locked [OF assms(2)])
  have "mutex_step g ?L (g\<lparr>mx_state := ?s\<rparr>)
      (if \<not> read_locked (mx_state g) then Reading else if n + 1 > kMaxSpinIters then ReadWaiting None else ReadReload (n + 1))"
    by (rule read_cas) (use u in \<open>simp_all add: read_lock_new_state_def\<close>)
  then have "run N (g, p(t := ?L)) (g\<lparr>mx_state := ?s\<rparr>, p(t := ?L, t := Reading))"
    using assms(1) u by (intro thread_step [where P = ?L]) simp_all
  then have "run N (g, p) (g\<lparr>mx_state := ?s\<rparr>, p(t := ?L, t := Reading))"
    by (rule run_then [where p = p, OF read_reloads assms(1,3)])
  then show ?thesis using assms(1)
    by (intro exI conjI) (assumption, auto simp: some_holder_def holds_read_def)
qed

lemma reload_run:
  assumes "t < N" and "\<not> lock_locked (mx_state g)"
  shows "p t = LockReload n \<Longrightarrow> \<exists>s'. run N (g, p) s' \<and> some_holder N s'"
    and "p t = ReadReload n \<Longrightarrow> \<exists>s'. run N (g, p) s' \<and> some_holder N s'"
proof -
  show "\<exists>s'. run N (g, p) s' \<and> some_holder N s'" if "p t = LockReload n"
    using locking_run [OF assms, of "p(t := Locking (NOT kWriterSpinWait) (mx_state g) (n + 1))"]
      run_then [where p = p, OF lock_reload assms(1) that] by fastforce
  show "\<exists>s'. run N (g, p) s' \<and> some_holder N s'" if "p t = ReadReload n"
    using read_locking_run [OF assms, of "p(t := ReadLocking (NOT kReaderSpinWait) (mx_state g) (n + 1))"]
      run_then [where p = p, OF read_reload assms(1) that] by fastforce
qed

text \<open>A thread that waits takes a free mutex when its semaphore is positive.\<close>

lemma lock_waiting_loaded:
  assumes "t < N" and "p t = LockWaiting c"
  shows "run N (g, p) (g, p(t := LockWaiting (Some (mx_writers g))))"
proof -
  have l: "run N (g, q) (g, q(t := LockWaiting (Some (mx_writers g))))" if "q t = LockWaiting None" for q
    by (rule thread_step [where p = q, OF lock_wait_load assms(1) that])
  consider "c = None" | "c = Some 0" | k where "c = Some k" "0 < k" by (cases c) auto
  then show ?thesis
  proof cases
    case 1 then show ?thesis using l assms(2) by simp
  next
    case 2
    then show ?thesis using run_then [where p = p, OF lock_wait_futex assms(1)] l [of "p(t := LockWaiting None)"] assms(2) by simp
  next
    case 3
    then show ?thesis using thread_step [where p = p, OF lock_wait_cas_fail [OF 3(2)] assms(1)] assms(2) by simp
  qed
qed

lemma read_waiting_loaded:
  assumes "t < N" and "p t = ReadWaiting c"
  shows "run N (g, p) (g, p(t := ReadWaiting (Some (mx_readers g))))"
proof -
  have l: "run N (g, q) (g, q(t := ReadWaiting (Some (mx_readers g))))" if "q t = ReadWaiting None" for q
    by (rule thread_step [where p = q, OF read_wait_load assms(1) that])
  consider "c = None" | "c = Some 0" | k where "c = Some k" "0 < k" by (cases c) auto
  then show ?thesis
  proof cases
    case 1 then show ?thesis using l assms(2) by simp
  next
    case 2
    then show ?thesis using run_then [where p = p, OF read_wait_futex assms(1)] l [of "p(t := ReadWaiting None)"] assms(2) by simp
  next
    case 3
    then show ?thesis using thread_step [where p = p, OF read_wait_cas_fail [OF 3(2)] assms(1)] assms(2) by simp
  qed
qed

lemma waiting_run:
  assumes "t < N" and "\<not> lock_locked (mx_state g)"
  shows "p t = LockWaiting c \<Longrightarrow> 0 < mx_writers g \<Longrightarrow> \<exists>s'. run N (g, p) s' \<and> some_holder N s'"
    and "p t = ReadWaiting c \<Longrightarrow> 0 < mx_readers g \<Longrightarrow> \<exists>s'. run N (g, p) s' \<and> some_holder N s'"
proof -
  assume a: "p t = LockWaiting c" "0 < mx_writers g"
  let ?p = "p(t := LockWaiting (Some (mx_writers g)))" and ?g = "g\<lparr>mx_writers := mx_writers g - 1\<rparr>"
  have "run N (g, ?p) (?g, ?p(t := LockReload 0))"
    by (rule thread_step [OF lock_wait_cas [OF a(2)] assms(1)]) simp_all
  then have r: "run N (g, p) (?g, ?p(t := LockReload 0))" using lock_waiting_loaded [where g = g and p = p, OF assms(1) a(1)] by simp
  show "\<exists>s'. run N (g, p) s' \<and> some_holder N s'"
    using reload_run(1) [of t N ?g "?p(t := LockReload 0)"] assms r by (auto intro: rtranclp_trans)
next
  assume a: "p t = ReadWaiting c" "0 < mx_readers g"
  let ?p = "p(t := ReadWaiting (Some (mx_readers g)))" and ?g = "g\<lparr>mx_readers := mx_readers g - 1\<rparr>"
  have "run N (g, ?p) (?g, ?p(t := ReadReload 0))"
    by (rule thread_step [OF read_wait_cas [OF a(2)] assms(1)]) simp_all
  then have r: "run N (g, p) (?g, ?p(t := ReadReload 0))" using read_waiting_loaded [where g = g and p = p, OF assms(1) a(1)] by simp
  show "\<exists>s'. run N (g, p) s' \<and> some_holder N s'"
    using reload_run(2) [of t N ?g "?p(t := ReadReload 0)"] assms r by (auto intro: rtranclp_trans)
qed

text \<open>A thread that is about to post a semaphore lets one that waits take a free mutex.\<close>

lemma posting_run:
  assumes "t < N" and "u < N" and "\<not> lock_locked (mx_state g)"
  shows "p t = PostingWriter \<Longrightarrow> p u = LockWaiting c \<Longrightarrow> \<exists>s'. run N (g, p) s' \<and> some_holder N s'"
    and "p t = PostingReaders k \<Longrightarrow> 0 < k \<Longrightarrow> p u = ReadWaiting c \<Longrightarrow> \<exists>s'. run N (g, p) s' \<and> some_holder N s'"
proof -
  assume a: "p t = PostingWriter" "p u = LockWaiting c"
  then have "u \<noteq> t" by auto
  then have "\<exists>s'. run N (g\<lparr>mx_writers := mx_writers g + 1\<rparr>, p(t := Idle)) s' \<and> some_holder N s'"
    using a(2) assms by (intro waiting_run(1) [of u]) simp_all
  then show "\<exists>s'. run N (g, p) s' \<and> some_holder N s'"
    using run_then [where p = p, OF post_writer assms(1) a(1)] by blast
next
  assume a: "p t = PostingReaders k" "0 < k" "p u = ReadWaiting c"
  then have "u \<noteq> t" by auto
  then have "\<exists>s'. run N (g\<lparr>mx_readers := mx_readers g + k\<rparr>, p(t := Idle)) s' \<and> some_holder N s'"
    using a(2,3) assms by (intro waiting_run(2) [of u]) simp_all
  then show "\<exists>s'. run N (g, p) s' \<and> some_holder N s'"
    using run_then [where p = p, OF post_readers assms(1) a(1)] by blast
qed

lemma tally_pos: "0 < tally N w p \<Longrightarrow> \<exists>t<N. 0 < w (p t)"
  unfolding tally_def by (metis gr0I lessThan_iff sum.neutral)

lemma tally_ge: "t < N \<Longrightarrow> w (p t) \<le> tally N w p"
  using tally_split [of t N w p] by simp

lemma waits_pos: "0 < waits_write q \<Longrightarrow> \<exists>c. q = LockWaiting c" "0 < waits_read q \<Longrightarrow> \<exists>c. q = ReadWaiting c"
  by (cases q; simp)+

text \<open>If somebody waits for a free mutex, somebody is awake or about to be woken.\<close>

lemma awake:
  assumes "core f g (others_of N t p) (p t)" and "t < N" and "\<not> wl f" and "rl f = 0"
    and "0 < tally N waits_write p \<or> 0 < tally N waits_read p"
  shows "0 < tally N spins_write p \<or> 0 < mx_writers g \<or> 0 < tally N posts_writer p \<or>
    0 < tally N spins_read p \<or> 0 < mx_readers g \<or> 0 < tally N posts_readers p"
proof -
  note T = tally_split [OF assms(2), of _ p]
  note c = coreD [OF assms(1), unfolded others_of_def, simplified]
  have 4: "ww f + mx_writers g + tally N posts_writer p = tally N waits_write p" using c(4) by (simp add: T)
  have 5: "wr f + mx_readers g + tally N posts_readers p = tally N waits_read p" using c(5) by (simp add: T)
  have 6: "of_bool (ws f) = tally N spins_write p + mx_writers g + tally N posts_writer p" using c(6) by (simp add: T)
  have 7: "rs f \<longrightarrow> 0 < tally N spins_read p + mx_readers g + tally N posts_readers p" using c(7) by (simp add: T)
  have ww: ?thesis if "0 < ww f" using c(9) that assms(3,4) 6 7 by (cases "ws f") (auto simp: add_gr_0)
  have wr: ?thesis if "0 < wr f" using c(8) that assms(3) 6 ww by (cases "ws f") (auto simp: add_gr_0)
  show ?thesis using assms(5) 4 5 ww wr by linarith
qed


section \<open>An example run\<close>

text \<open>Thread 0 locks the mutex, threads 1 and 2 wait for it, and thread 0 unlocks it.\<close>

definition locked_by_0 :: mutex_system where
  "locked_by_0 = (\<lparr>mx_state = kWriterLock, mx_writers = 0, mx_readers = 0\<rparr>, (\<lambda>_. Idle)(0 := Writing))"

definition two_waiting :: mutex_system where
  "two_waiting = (\<lparr>mx_state = kWriterLock + kWaitingWriterInc + kWaitingWriterInc, mx_writers = 0, mx_readers = 0\<rparr>,
     (\<lambda>_. Idle)(0 := Writing, 1 := LockWaiting None, 2 := LockWaiting None))"

definition free_with_waiters :: mutex_system where
  "free_with_waiters = (\<lparr>mx_state = kWaitingWriterInc OR kWriterSpinWait, mx_writers = 0, mx_readers = 0\<rparr>,
     (\<lambda>_. Idle)(0 := PostingWriter, 1 := LockWaiting None, 2 := LockWaiting None))"

lemma spin_many:
  assumes "t < N" and "p t = Locking r (mx_state g) n"
  shows "run N (g, p) (g, p(t := Locking r (mx_state g) (n + k)))"
proof (induction k)
  case 0
  then show ?case using assms(2) by (simp add: fun_upd_idem)
next
  case (Suc k)
  have "run N (g, p(t := Locking r (mx_state g) (n + k)))
      (g, p(t := Locking r (mx_state g) (n + k), t := Locking r (mx_state g) (n + k + 1)))"
    by (rule thread_step [OF lock_reloads assms(1)]) simp
  then have "run N (g, p) (g, p(t := Locking r (mx_state g) (n + k), t := Locking r (mx_state g) (n + k + 1)))"
    by (rule rtranclp_trans [OF Suc])
  from this [unfolded fun_upd_upd] show ?case by (simp add: fun_upd_def)
qed

lemma block_run:
  assumes "t < N" and "p t = Idle" and "lock_locked (mx_state g)"
  shows "run N (g, p) (g\<lparr>mx_state := mx_state g + kWaitingWriterInc\<rparr>, p(t := LockWaiting None))"
proof -
  let ?n = "kMaxSpinIters + 1" and ?g = "g\<lparr>mx_state := mx_state g + kWaitingWriterInc\<rparr>"
  let ?p = "p(t := Locking (-1) (mx_state g) 0)"
  have "run N (g, ?p) (g, ?p(t := Locking (-1) (mx_state g) (0 + ?n)))" by (rule spin_many [OF assms(1)]) simp
  moreover have "mutex_step g (Locking (-1) (mx_state g) ?n) ?g
      (if \<not> lock_locked (mx_state g) then Writing else if ?n > kMaxSpinIters then LockWaiting None else LockReload ?n)"
    by (rule lock_cas) (use assms(3) in \<open>simp_all add: lock_new_state_def\<close>)
  then have "run N (g, p(t := Locking (-1) (mx_state g) ?n)) (?g, p(t := Locking (-1) (mx_state g) ?n, t := LockWaiting None))"
    using assms(1,3) by (intro thread_step) simp_all
  ultimately have "run N (g, ?p) (?g, p(t := LockWaiting None))" by simp
  then show ?thesis by (rule run_then [where p = p, OF lock_load assms(1,2)])
qed

lemma locked_by_0_reachable: "0 < N \<Longrightarrow> mutex_reachable N locked_by_0"
proof -
  assume n: "0 < N"
  let ?g = "\<lparr>mx_state = 0, mx_writers = 0, mx_readers = 0\<rparr>"
  have "mutex_step ?g (Locking (-1) 0 0) (?g\<lparr>mx_state := kWriterLock\<rparr>)
      (if \<not> lock_locked 0 then Writing else if 0 > kMaxSpinIters then LockWaiting None else LockReload 0)"
    by (rule lock_cas) (simp_all add: lock_new_state_def lock_locked_def)
  then have "run N (?g, (\<lambda>_. Idle)(0 := Locking (-1) 0 0)) (?g\<lparr>mx_state := kWriterLock\<rparr>, (\<lambda>_. Idle)(0 := Locking (-1) 0 0, 0 := Writing))"
    using n by (intro thread_step) (simp_all add: lock_locked_def)
  then have "run N mutex_init locked_by_0"
    unfolding mutex_init_def locked_by_0_def
    using run_then [where p = "\<lambda>_. Idle", OF lock_load [of ?g] n refl] by simp
  then show ?thesis using run_reachable mutex_reachable.init by blast
qed

lemma lock_locked_flag: "lock_locked s \<longleftrightarrow> bit s 60 \<or> s AND kReaderLockMask \<noteq> 0"
proof -
  have "s AND kWriterLock = 0 \<longleftrightarrow> \<not> bit s 60" unfolding flag_consts by (rule and_exp_eq_0_iff_not_bit)
  then show ?thesis by (auto simp: lock_locked_def bit.conj_disj_distrib or_eq_0_iff)
qed

lemma two_waiting_reachable: "mutex_reachable 3 two_waiting"
proof -
  let ?g = "\<lparr>mx_state = kWriterLock, mx_writers = 0, mx_readers = 0\<rparr>"
  let ?g1 = "?g\<lparr>mx_state := kWriterLock + kWaitingWriterInc\<rparr>"
  let ?p = "(\<lambda>_. Idle)(0 := Writing)"
  have l: "lock_locked kWriterLock" "lock_locked (kWriterLock + kWaitingWriterInc)"
    by (simp_all add: lock_locked_flag flag_consts bit_numeral_rec)
  have "run 3 (?g, ?p) (?g1, ?p(1 := LockWaiting None))" using block_run [of 1 3 ?p ?g] l(1) by simp
  moreover have "run 3 (?g1, ?p(1 := LockWaiting None)) two_waiting"
    using block_run [of 2 3 "?p(1 := LockWaiting None)" ?g1] l(2) by (simp add: two_waiting_def)
  ultimately have "run 3 locked_by_0 two_waiting" by (simp add: locked_by_0_def)
  then show ?thesis using run_reachable locked_by_0_reachable [of 3] by simp
qed

lemma free_with_waiters_reachable: "mutex_reachable 3 free_with_waiters"
proof -
  let ?s = "kWriterLock + kWaitingWriterInc + kWaitingWriterInc"
  let ?g = "\<lparr>mx_state = ?s, mx_writers = 0, mx_readers = 0\<rparr>"
  let ?p = "(\<lambda>_. Idle)(0 := Writing, 1 := LockWaiting None, 2 := LockWaiting None)"
  have "unlock_new_state ?s = (kWaitingWriterInc OR kWriterSpinWait, True, 0)"
    by (simp add: unlock_new_state_def flag_consts kWaitingWriterMask_def kWaitingWriterShift_def kCounterWidth_def mask_eq_exp_minus_1 push_bit_eq_mult Let_def)
  from unlock_cas [of ?s, OF this, of ?g]
  have "run 3 (?g, ?p(0 := Unlocking ?s)) (?g\<lparr>mx_state := kWaitingWriterInc OR kWriterSpinWait\<rparr>, ?p(0 := Unlocking ?s, 0 := PostingWriter))"
    by (intro thread_step) simp_all
  moreover have "run 3 two_waiting (?g, ?p(0 := Unlocking ?s))"
    unfolding two_waiting_def using thread_step [OF unlock_load [of ?g], of 0 3 ?p] by simp
  ultimately have "run 3 two_waiting free_with_waiters"
    by (simp add: free_with_waiters_def fun_upd_twist)
  then show ?thesis using run_reachable two_waiting_reachable by blast
qed

theorem mutex_mutual_exclusion_witness: "holds_write locked_by_0 0 \<and> \<not> holds_write locked_by_0 1 \<and> \<not> holds_read locked_by_0 1"
proof -
  have "holds_write locked_by_0 0" by (simp add: holds_write_def locked_by_0_def)
  then show ?thesis using mutex_mutual_exclusion [OF locked_by_0_reachable, of 2 0 1] by simp
qed


text \<open>
  The counter of waiting writers can be positive while the mutex is neither read- nor write-locked:
  three threads reach such a state, in which one of two waiting writers is being woken.
\<close>

theorem mutex_waiting_while_free:
  "\<exists>s. mutex_reachable 3 s \<and> \<not> lock_locked (mx_state (fst s)) \<and> mx_state (fst s) AND kWaitingWriterMask \<noteq> 0"
  using free_with_waiters_reachable
  by (intro exI [of _ free_with_waiters])
    (simp add: free_with_waiters_def lock_locked_flag flag_consts kReaderLockMask_def kWaitingWriterMask_def
      kWaitingWriterShift_def kCounterWidth_def mask_eq_exp_minus_1 push_bit_eq_mult bit_numeral_rec)

end
