(* ===== verification/Fake_Stack.thy ===== *)
theory Fake_Stack
  imports Asan_Shadow
begin

text \<open>
  \<^verbatim>\<open>FakeStack\<close> of \<^verbatim>\<open>asan_fake_stack.{h,cpp}\<close>: the allocator of the fake frames that hold the locals
  of a function while use-after-return detection is on. The object, its allocation flags and the
  frames are parts of one mapping at \<^verbatim>\<open>this\<close>. The flags, the word \<^verbatim>\<open>real_stack\<close> of a frame and the
  saved flag address in its last word are bytes of the process memory, as in the code; the fields
  of the object itself are a record. The logarithms and the class numbers, which only serve
  as shift counts and indices, are natural numbers.
\<close>

unbundle bit_operations_syntax

section \<open>State\<close>

record FakeStack =
  fs_this :: uptr
  hint_position :: "uptr list"
  stack_size_log :: nat
  needs_gc :: bool

record fake_mem =
  fmem :: mem
  fasan :: asan_state

definition kAsanStackLeftRedzoneMagic :: u8 where "kAsanStackLeftRedzoneMagic = 0xf1"
definition kAsanStackMidRedzoneMagic :: u8 where "kAsanStackMidRedzoneMagic = 0xf2"
definition kAsanStackRightRedzoneMagic :: u8 where "kAsanStackRightRedzoneMagic = 0xf3"
definition kAsanStackAfterReturnMagic :: u8 where "kAsanStackAfterReturnMagic = 0xf5"
definition kAsanAllocaLeftMagic :: u8 where "kAsanAllocaLeftMagic = 0xca"
definition kAsanAllocaRightMagic :: u8 where "kAsanAllocaRightMagic = 0xcb"
definition kCurrentStackFrameMagic :: uptr where "kCurrentStackFrameMagic = 0x41B58AB3"

definition kMagic1 :: u64 where "kMagic1 = ucast kAsanStackAfterReturnMagic"
definition kMagic2 :: u64 where "kMagic2 = push_bit 8 kMagic1 OR kMagic1"
definition kMagic4 :: u64 where "kMagic4 = push_bit 16 kMagic2 OR kMagic2"
definition kMagic8 :: u64 where "kMagic8 = push_bit 32 kMagic4 OR kMagic4"

definition kAllocaRedzoneSize :: uptr where "kAllocaRedzoneSize = 32"
definition kAllocaRedzoneMask :: uptr where "kAllocaRedzoneMask = 31"

definition kMinStackFrameSizeLog :: nat where "kMinStackFrameSizeLog = 6"
definition kMaxStackFrameSizeLog :: nat where "kMaxStackFrameSizeLog = 16"
definition kNumberOfSizeClasses :: nat where
  "kNumberOfSizeClasses = kMaxStackFrameSizeLog - kMinStackFrameSizeLog + 1"
definition kFlagsOffset :: uptr where "kFlagsOffset = 4096"

section \<open>Layout\<close>

definition SizeRequiredForFlags :: "nat \<Rightarrow> uptr" where
  "SizeRequiredForFlags l = push_bit (l + 1 - kMinStackFrameSizeLog) 1"

definition SizeRequiredForFrames :: "nat \<Rightarrow> uptr" where
  "SizeRequiredForFrames l = push_bit l 1 * of_nat kNumberOfSizeClasses"

definition RequiredSize :: "nat \<Rightarrow> uptr" where
  "RequiredSize l = kFlagsOffset + SizeRequiredForFlags l + SizeRequiredForFrames l"

definition FlagsOffset :: "nat \<Rightarrow> nat \<Rightarrow> uptr" where
  "FlagsOffset l class_id =
     (let t = kNumberOfSizeClasses - 1 - class_id;
          all_ones = push_bit (kNumberOfSizeClasses - 1) 1 - 1
      in push_bit (l - 15) (push_bit t (drop_bit t all_ones)))"

definition NumberOfFrames :: "nat \<Rightarrow> nat \<Rightarrow> uptr" where
  "NumberOfFrames l class_id = push_bit (l - kMinStackFrameSizeLog - class_id) 1"

definition ModuloNumberOfFrames :: "nat \<Rightarrow> nat \<Rightarrow> uptr \<Rightarrow> uptr" where
  "ModuloNumberOfFrames l class_id n = n AND (NumberOfFrames l class_id - 1)"

definition BytesInSizeClass :: "nat \<Rightarrow> uptr" where
  "BytesInSizeClass class_id = push_bit (class_id + kMinStackFrameSizeLog) 1"

definition GetFlags :: "uptr \<Rightarrow> nat \<Rightarrow> nat \<Rightarrow> uptr" where
  "GetFlags this l class_id = this + kFlagsOffset + FlagsOffset l class_id"

definition GetFrame :: "uptr \<Rightarrow> nat \<Rightarrow> nat \<Rightarrow> uptr \<Rightarrow> uptr" where
  "GetFrame this l class_id pos =
     this + kFlagsOffset + SizeRequiredForFlags l + push_bit l 1 * of_nat class_id + BytesInSizeClass class_id * pos"

definition SavedFlagPtr :: "uptr \<Rightarrow> nat \<Rightarrow> uptr" where
  "SavedFlagPtr x class_id = x + BytesInSizeClass class_id - 8"

text \<open>The offset of \<^verbatim>\<open>real_stack\<close> in \<^verbatim>\<open>FakeFrame\<close>, after \<^verbatim>\<open>magic\<close>, \<^verbatim>\<open>descr\<close> and \<^verbatim>\<open>pc\<close>, and its size.\<close>

definition real_stack_offset :: uptr where "real_stack_offset = 24"
definition sizeof_FakeFrame :: uptr where "sizeof_FakeFrame = 32"

section \<open>Shadow of a frame\<close>

definition SetShadow :: "asan_env \<Rightarrow> uptr \<Rightarrow> uptr \<Rightarrow> nat \<Rightarrow> u64 \<Rightarrow> asan_state \<Rightarrow> asan_state option" where
  "SetShadow env ptr sz class_id magic st = do {
     CHECK (AddrIsAlignedByGranularity (ptr + sz));
     sh \<leftarrow> MemToShadow (mp env) ptr;
     st \<leftarrow> (if class_id \<le> 6
       then Some (fold (\<lambda>i st. st\<lparr>shadow := store64 (shadow st) (sh + 8 * of_nat i) magic\<rparr>) [0..<2 ^ class_id] st)
       else PoisonShadow env ptr sz (ucast magic) st);
     if magic = 0
     then PoisonShadow env (ptr + sz) (BytesInSizeClass class_id - sz) kAsanStackRightRedzoneMagic st
     else Some st
   }"

section \<open>Operations\<close>

text \<open>\<^verbatim>\<open>Create\<close> clamps the logarithm; \<open>mapped\<close> is the zeroed mapping of \<^verbatim>\<open>RequiredSize\<close> bytes.\<close>

definition clamp_stack_size_log :: "nat \<Rightarrow> nat" where
  "clamp_stack_size_log l = (let l = (if l < 16 then 16 else l) in if l > 28 then 28 else l)"

definition fs_Create :: "uptr \<Rightarrow> nat \<Rightarrow> fake_mem \<Rightarrow> FakeStack \<times> fake_mem" where
  "fs_Create mapped l st =
     (let l = clamp_stack_size_log l;
          sz = RequiredSize l
      in (\<lparr>fs_this = mapped, hint_position = replicate kNumberOfSizeClasses 0, stack_size_log = l, needs_gc = False\<rparr>,
          st\<lparr>fmem := memset (fmem st) mapped 0 sz\<rparr>))"

definition fs_PoisonAll :: "asan_env \<Rightarrow> u8 \<Rightarrow> FakeStack \<Rightarrow> asan_state \<Rightarrow> asan_state option" where
  "fs_PoisonAll env magic fs st = PoisonShadow env (fs_this fs) (RequiredSize (stack_size_log fs)) magic st"

text \<open>\<open>flush\<close> is \<^verbatim>\<open>FlushUnneededASanShadowMemory\<close>, which gives pages of the shadow back.\<close>

definition fs_Destroy :: "(uptr \<Rightarrow> uptr \<Rightarrow> asan_state \<Rightarrow> asan_state option) \<Rightarrow> asan_env \<Rightarrow> FakeStack \<Rightarrow> asan_state \<Rightarrow> asan_state option" where
  "fs_Destroy flush env fs st = do {
     st \<leftarrow> fs_PoisonAll env 0 fs st;
     flush (fs_this fs) (RequiredSize (stack_size_log fs)) st
   }"

definition frame_flag :: "FakeStack \<Rightarrow> nat \<Rightarrow> uptr \<Rightarrow> uptr" where
  "frame_flag fs class_id pos = GetFlags (fs_this fs) (stack_size_log fs) class_id + pos"

definition frame_addr :: "FakeStack \<Rightarrow> nat \<Rightarrow> uptr \<Rightarrow> uptr" where
  "frame_addr fs class_id pos = GetFrame (fs_this fs) (stack_size_log fs) class_id pos"

definition class_frames :: "FakeStack \<Rightarrow> nat \<Rightarrow> nat" where
  "class_frames fs class_id = unat (NumberOfFrames (stack_size_log fs) class_id)"

text \<open>The body of the loops of \<^verbatim>\<open>GC\<close>: one frame.\<close>

definition gc_frame :: "asan_env \<Rightarrow> uptr \<Rightarrow> uptr \<Rightarrow> FakeStack \<Rightarrow> nat \<Rightarrow> nat \<Rightarrow> fake_mem \<Rightarrow> fake_mem option" where
  "gc_frame env bottom real_stack fs class_id i st =
     (let flag = frame_flag fs class_id (of_nat i);
          ff = frame_addr fs class_id (of_nat i);
          rs = load64 (fmem st) (ff + real_stack_offset)
      in
      if fmem st flag = 0 then Some st
      else if bottom < rs \<and> rs < real_stack then do {
        s \<leftarrow> SetShadow env ff (BytesInSizeClass class_id) class_id kMagic8 (fasan st);
        Some (st\<lparr>fmem := (fmem st)(flag := 0), fasan := s\<rparr>)
      } else Some st)"

fun gc_frames :: "asan_env \<Rightarrow> uptr \<Rightarrow> uptr \<Rightarrow> FakeStack \<Rightarrow> (nat \<times> nat) list \<Rightarrow> fake_mem \<Rightarrow> fake_mem option" where
  "gc_frames env bottom real_stack fs [] st = Some st"
| "gc_frames env bottom real_stack fs ((c, i) # fr) st = do {
     st \<leftarrow> gc_frame env bottom real_stack fs c i st;
     gc_frames env bottom real_stack fs fr st
   }"

text \<open>The frames of all classes in the order of the two nested loops.\<close>

definition all_frames :: "FakeStack \<Rightarrow> (nat \<times> nat) list" where
  "all_frames fs = concat (map (\<lambda>c. map (Pair c) [0..<class_frames fs c]) [0..<kNumberOfSizeClasses])"

text \<open>\<open>bounds\<close> is the bottom and the top of the stack of the current thread, if there is one.\<close>

definition fs_GC :: "asan_env \<Rightarrow> (uptr \<times> uptr) option \<Rightarrow> uptr \<Rightarrow> FakeStack \<Rightarrow> fake_mem \<Rightarrow> (FakeStack \<times> fake_mem) option" where
  "fs_GC env bounds real_stack fs st =
     (case bounds of
        None \<Rightarrow> Some (fs, st)
      | Some (bottom, upper) \<Rightarrow>
          if real_stack < bottom \<or> upper < real_stack then Some (fs, st)
          else do {
            st \<leftarrow> gc_frames env bottom real_stack fs (all_frames fs) st;
            Some (fs\<lparr>needs_gc := False\<rparr>, st)
          })"

fun fs_Allocate_loop :: "nat \<Rightarrow> nat \<Rightarrow> uptr \<Rightarrow> FakeStack \<Rightarrow> mem \<Rightarrow> uptr \<times> FakeStack \<times> mem" where
  "fs_Allocate_loop 0 class_id real_stack fs m = (0, fs, m)"
| "fs_Allocate_loop (Suc n) class_id real_stack fs m =
     (let h = hint_position fs ! class_id;
          pos = ModuloNumberOfFrames (stack_size_log fs) class_id h;
          fs = fs\<lparr>hint_position := (hint_position fs)[class_id := h + 1]\<rparr>;
          flag = frame_flag fs class_id pos
      in
      if m flag \<noteq> 0 then fs_Allocate_loop n class_id real_stack fs m
      else
        let m = m(flag := 1);
            res = frame_addr fs class_id pos;
            m = store64 m (res + real_stack_offset) real_stack;
            m = store64 m (SavedFlagPtr res class_id) flag
        in (res, fs, m))"

definition fs_Allocate ::
  "asan_env \<Rightarrow> (uptr \<times> uptr) option \<Rightarrow> nat \<Rightarrow> uptr \<Rightarrow> FakeStack \<Rightarrow> fake_mem \<Rightarrow> (uptr \<times> FakeStack \<times> fake_mem) option" where
  "fs_Allocate env bounds class_id real_stack fs st = do {
     CHECK (class_id < kNumberOfSizeClasses);
     (fs, st) \<leftarrow> (if needs_gc fs then fs_GC env bounds real_stack fs st else Some (fs, st));
     let (res, fs, m) = fs_Allocate_loop (class_frames fs class_id) class_id real_stack fs (fmem st);
     Some (res, fs, st\<lparr>fmem := m\<rparr>)
   }"

definition fs_Deallocate :: "uptr \<Rightarrow> nat \<Rightarrow> mem \<Rightarrow> mem" where
  "fs_Deallocate x class_id m = m(load64 m (SavedFlagPtr x class_id) := 0)"

text \<open>The result is the frame, and the values stored through \<open>frame_beg\<close> and \<open>frame_end\<close>.\<close>

definition AddrIsInFakeStack3 :: "FakeStack \<Rightarrow> uptr \<Rightarrow> (uptr \<times> uptr \<times> uptr) option" where
  "AddrIsInFakeStack3 fs ptr = do {
     let l = stack_size_log fs;
     let beg = GetFrame (fs_this fs) l 0 0;
     let fin = fs_this fs + RequiredSize l;
     if ptr < beg \<or> ptr \<ge> fin then Some (0, 0, 0)
     else do {
       let class_id = unat (drop_bit l (ptr - beg));
       let base = beg + push_bit l (of_nat class_id);
       CHECK (base \<le> ptr);
       CHECK (ptr < base + push_bit l 1);
       let pos = drop_bit (kMinStackFrameSizeLog + class_id) (ptr - base);
       let res = base + pos * BytesInSizeClass class_id;
       Some (res, res + sizeof_FakeFrame, res + BytesInSizeClass class_id)
     }
   }"

definition AddrIsInFakeStack :: "FakeStack \<Rightarrow> uptr \<Rightarrow> uptr option" where
  "AddrIsInFakeStack fs ptr = map_option fst (AddrIsInFakeStack3 fs ptr)"

definition fs_HandleNoReturn :: "FakeStack \<Rightarrow> FakeStack" where
  "fs_HandleNoReturn fs = fs\<lparr>needs_gc := True\<rparr>"

text \<open>\<^verbatim>\<open>ForEachFakeFrame\<close>: the ranges of the allocated frames.\<close>

definition ForEachFakeFrame :: "FakeStack \<Rightarrow> mem \<Rightarrow> (uptr \<times> uptr) list" where
  "ForEachFakeFrame fs m =
     map (\<lambda>(c, i). (frame_addr fs c (of_nat i), frame_addr fs c (of_nat i) + BytesInSizeClass c))
       (filter (\<lambda>(c, i). m (frame_flag fs c (of_nat i)) \<noteq> 0) (all_frames fs))"

text \<open>\<^verbatim>\<open>OnMalloc\<close> and \<^verbatim>\<open>OnMallocAlways\<close> once the fake stack of the thread is known;
  \<open>frame\<close> is \<^verbatim>\<open>GET_CURRENT_FRAME()\<close>.\<close>

definition OnMalloc ::
  "asan_env \<Rightarrow> (uptr \<times> uptr) option \<Rightarrow> uptr \<Rightarrow> nat \<Rightarrow> uptr \<Rightarrow> FakeStack option \<Rightarrow> fake_mem \<Rightarrow> (uptr \<times> FakeStack option \<times> fake_mem) option" where
  "OnMalloc env bounds frame class_id sz fs st =
     (case fs of
        None \<Rightarrow> Some (0, None, st)
      | Some fs \<Rightarrow> do {
          (ff, fs, st) \<leftarrow> fs_Allocate env bounds class_id frame fs st;
          if ff = 0 then Some (0, Some fs, st)
          else do {
            s \<leftarrow> SetShadow env ff sz class_id 0 (fasan st);
            Some (ff, Some fs, st\<lparr>fasan := s\<rparr>)
          }
        })"

definition OnFree :: "asan_env \<Rightarrow> uptr \<Rightarrow> nat \<Rightarrow> uptr \<Rightarrow> fake_mem \<Rightarrow> fake_mem option" where
  "OnFree env ptr class_id sz st = do {
     let st = st\<lparr>fmem := fs_Deallocate ptr class_id (fmem st)\<rparr>;
     s \<leftarrow> SetShadow env ptr sz class_id kMagic8 (fasan st);
     Some (st\<lparr>fasan := s\<rparr>)
   }"

text \<open>The result is \<^verbatim>\<open>real_stack\<close> and the values for \<open>beg\<close> and \<open>end\<close>, or null.\<close>

definition asan_addr_is_in_fake_stack :: "FakeStack option \<Rightarrow> uptr \<Rightarrow> mem \<Rightarrow> (uptr \<times> uptr \<times> uptr) option option" where
  "asan_addr_is_in_fake_stack fs addr m =
     (case fs of
        None \<Rightarrow> Some None
      | Some fs \<Rightarrow> do {
          (frame, frame_beg, frame_end) \<leftarrow> AddrIsInFakeStack3 fs addr;
          Some (if frame = 0 then None
                else if load64 m frame \<noteq> kCurrentStackFrameMagic then None
                else Some (load64 m (frame + real_stack_offset), frame_beg, frame_end))
        })"

definition asan_alloca_poison :: "asan_env \<Rightarrow> uptr \<Rightarrow> uptr \<Rightarrow> asan_state \<Rightarrow> asan_state option" where
  "asan_alloca_poison env addr sz st = do {
     let LeftRedzoneAddr = addr - kAllocaRedzoneSize;
     let PartialRzAddr = addr + sz;
     let RightRzAddr = (PartialRzAddr + kAllocaRedzoneMask) AND NOT kAllocaRedzoneMask;
     let PartialRzAligned = PartialRzAddr AND NOT (ASAN_SHADOW_GRANULARITY - 1);
     st \<leftarrow> FastPoisonShadow env LeftRedzoneAddr kAllocaRedzoneSize kAsanAllocaLeftMagic st;
     let st = FastPoisonShadowPartialRightRedzone env PartialRzAligned (PartialRzAddr mod ASAN_SHADOW_GRANULARITY)
       (RightRzAddr - PartialRzAligned) kAsanAllocaRightMagic st;
     FastPoisonShadow env RightRzAddr kAllocaRedzoneSize kAsanAllocaRightMagic st
   }"

definition asan_allocas_unpoison :: "asan_env \<Rightarrow> uptr \<Rightarrow> uptr \<Rightarrow> asan_state \<Rightarrow> asan_state option" where
  "asan_allocas_unpoison env upper bottom st =
     (if upper = 0 \<or> upper > bottom then Some st
      else do {
        sh \<leftarrow> MemToShadow (mp env) upper;
        Some (memset_shadow sh 0 ((bottom - upper) div ASAN_SHADOW_GRANULARITY) st)
      })"

end
