(* ===== verification/Fake_Stack_Proofs.thy ===== *)
theory Fake_Stack_Proofs
  imports Fake_Stack
begin

text \<open>
  The layout of a fake stack (distinct frames are disjoint, distinct frames have distinct flags,
  and the address computation of \<^verbatim>\<open>AddrIsInFakeStack\<close> inverts \<^verbatim>\<open>GetFrame\<close>), its allocator as a
  pool of frames, and the shadow that the instrumentation sees.
\<close>

unbundle bit_operations_syntax

section \<open>Sizes\<close>

lemmas fs_consts = kNumberOfSizeClasses_def kMaxStackFrameSizeLog_def kMinStackFrameSizeLog_def kFlagsOffset_def

lemma unat_push_bit_uptr:
  assumes "unat w * 2 ^ n < 2 ^ 64"
  shows "unat (push_bit n (w::uptr)) = unat w * 2 ^ n"
proof -
  have "unat (push_bit n w) = take_bit 64 (push_bit n (unat w))" unfolding unsigned_push_bit_eq by simp
  also have "\<dots> = unat w * 2 ^ n" unfolding push_bit_eq_mult take_bit_eq_mod using assms by simp
  finally show ?thesis .
qed

lemma unat_drop_bit_div: "unat (drop_bit n (w::uptr)) = unat w div 2 ^ n"
  unfolding unat_drop_bit_eq unfolding drop_bit_eq_div by simp

lemma unat_BytesInSizeClass: "c < 11 \<Longrightarrow> unat (BytesInSizeClass c) = 2 ^ (c + 6)"
  unfolding BytesInSizeClass_def fs_consts push_bit_of_1 by (rule unat_exp) simp

lemma unat_NumberOfFrames: "l \<le> 28 \<Longrightarrow> unat (NumberOfFrames l c) = 2 ^ (l - 6 - c)"
  unfolding NumberOfFrames_def fs_consts push_bit_of_1 by (rule unat_exp) simp

lemma unat_SizeRequiredForFlags: "l \<le> 28 \<Longrightarrow> unat (SizeRequiredForFlags l) = 2 ^ (l - 5)"
  unfolding SizeRequiredForFlags_def fs_consts push_bit_of_1 using unat_exp [of "l - 5"] by simp

lemma flags_pattern:
  assumes "c < 11"
  shows "unat (push_bit (10 - c) (drop_bit (10 - c) (1023::uptr))) = 2 ^ 10 - 2 ^ (10 - c)"
proof -
  have "\<forall>c\<in>set [0..<11]. unat (push_bit (10 - c) (drop_bit (10 - c) (1023::uptr))) = 2 ^ 10 - 2 ^ (10 - c)"
    by code_simp
  then show ?thesis using assms by simp
qed

lemma unat_FlagsOffset:
  assumes "c < 11" and "16 \<le> l" and "l \<le> 28"
  shows "unat (FlagsOffset l c) = 2 ^ (l - 5) - 2 ^ (l - 5 - c)"
proof -
  let ?w = "push_bit (10 - c) (drop_bit (10 - c) (1023::uptr))"
  have w: "unat ?w = 2 ^ 10 - 2 ^ (10 - c)" by (rule flags_pattern) (fact assms(1))
  have "unat ?w * 2 ^ (l - 15) \<le> 2 ^ 10 * 2 ^ (l - 15)" unfolding w by (intro mult_right_mono) simp_all
  also have "\<dots> = 2 ^ (l - 5)" unfolding power_add [symmetric] using assms(2) by simp
  also have "\<dots> < (2::nat) ^ 64" using assms by (intro power_strict_increasing) simp_all
  finally have "unat (push_bit (l - 15) ?w) = (2 ^ 10 - 2 ^ (10 - c)) * 2 ^ (l - 15)"
    using unat_push_bit_uptr [of ?w "l - 15"] w by simp
  moreover have "(2 ^ 10 - 2 ^ (10 - c)) * 2 ^ (l - 15) = (2::nat) ^ (10 + (l - 15)) - 2 ^ (10 - c + (l - 15))"
    by (simp add: diff_mult_distrib power_add)
  moreover have "10 + (l - 15) = l - 5" "10 - c + (l - 15) = l - 5 - c" using assms by simp_all
  ultimately show ?thesis by (simp add: FlagsOffset_def fs_consts Let_def)
qed

section \<open>Layout\<close>

text \<open>What \<^verbatim>\<open>Create\<close> establishes: the logarithm is clamped, and the mapping is page aligned and does not wrap.\<close>

definition fs_ok :: "FakeStack \<Rightarrow> bool" where
  "fs_ok fs \<longleftrightarrow> 16 \<le> stack_size_log fs \<and> stack_size_log fs \<le> 28 \<and> length (hint_position fs) = 11 \<and>
     fs_this fs \<noteq> 0 \<and> unat (fs_this fs) mod 4096 = 0 \<and> unat (fs_this fs) + 2 ^ 32 < 2 ^ 64"

definition frame :: "FakeStack \<Rightarrow> nat \<Rightarrow> nat \<Rightarrow> bool" where
  "frame fs c i \<longleftrightarrow> c < 11 \<and> i < class_frames fs c"

lemma frameD:
  assumes "fs_ok fs" and "frame fs c i"
  shows "c < 11" and "i < 2 ^ (stack_size_log fs - 6 - c)" and "(i + 1) * 2 ^ (c + 6) \<le> 2 ^ stack_size_log fs"
    and "i < 2 ^ 28"
proof -
  let ?l = "stack_size_log fs"
  show c: "c < 11" using assms(2) by (simp add: frame_def)
  show i: "i < 2 ^ (?l - 6 - c)" using assms by (simp add: frame_def class_frames_def fs_ok_def unat_NumberOfFrames)
  have "(i + 1) * 2 ^ (c + 6) \<le> 2 ^ (?l - 6 - c) * 2 ^ (c + 6)" using i by (intro mult_right_mono) simp_all
  also have "\<dots> = 2 ^ ?l" using c assms(1) by (simp add: fs_ok_def flip: power_add)
  finally show "(i + 1) * 2 ^ (c + 6) \<le> 2 ^ ?l" .
  have "(2::nat) ^ (?l - 6 - c) \<le> 2 ^ 28" using assms(1) by (intro power_increasing) (auto simp: fs_ok_def)
  then show "i < 2 ^ 28" using i by linarith
qed

lemma log_bound: "fs_ok fs \<Longrightarrow> 2 ^ 16 \<le> (2::nat) ^ stack_size_log fs \<and> (2::nat) ^ stack_size_log fs \<le> 2 ^ 28 \<and> (2::nat) ^ (stack_size_log fs - 5) \<le> 2 ^ 23"
  unfolding fs_ok_def by (intro conjI power_increasing) auto

lemma unat_add_exact: "unat a = m \<Longrightarrow> unat b = n \<Longrightarrow> m + n < 2 ^ 64 \<Longrightarrow> unat (a + b :: uptr) = m + n"
  by (simp add: unat_word_ariths)

lemma unat_mult_exact: "unat a = m \<Longrightarrow> unat b = n \<Longrightarrow> m * n < 2 ^ 64 \<Longrightarrow> unat (a * b :: uptr) = m * n"
  by (simp add: unat_word_ariths)

text \<open>Where the frames begin.\<close>

definition frames_base :: "FakeStack \<Rightarrow> nat" where
  "frames_base fs = unat (fs_this fs) + 4096 + 2 ^ (stack_size_log fs - 5)"

lemma unat_frame_addr:
  assumes "fs_ok fs" and "frame fs c i"
  shows "unat (frame_addr fs c (of_nat i)) = frames_base fs + 2 ^ stack_size_log fs * c + 2 ^ (c + 6) * i"
    and "unat (frame_addr fs c (of_nat i)) + 2 ^ (c + 6) \<le> frames_base fs + 2 ^ stack_size_log fs * (c + 1)"
    and "frames_base fs + 2 ^ stack_size_log fs * (c + 1) < unat (fs_this fs) + 2 ^ 32"
proof -
  let ?l = "stack_size_log fs"
  note F = frameD [OF assms] and L = log_bound [OF assms(1)]
  have O: "16 \<le> ?l" "?l \<le> 28" "unat (fs_this fs) + 2 ^ 32 < 2 ^ 64" using assms(1) by (simp_all add: fs_ok_def)
  have i: "2 ^ (c + 6) * i + 2 ^ (c + 6) \<le> 2 ^ ?l" using F(3) by (simp add: mult.commute)
  have c: "2 ^ ?l * c + 2 ^ ?l \<le> 2 ^ ?l * 11" using F(1) by (simp flip: distrib_left)
  have cb: "2 ^ ?l * c + 2 ^ ?l \<le> 2 ^ 28 * 11" using c L by linarith
  have a1: "unat (fs_this fs + 4096 + SizeRequiredForFlags ?l) = frames_base fs"
    unfolding frames_base_def using L O by (intro unat_add_exact unat_SizeRequiredForFlags) (simp_all add: unat_add_exact)
  have a2: "unat (push_bit ?l 1 * of_nat c :: uptr) = 2 ^ ?l * c"
    using F(1) O cb by (intro unat_mult_exact) (simp_all add: unat_of_nat_uptr unat_exp)
  have a3: "unat (BytesInSizeClass c * of_nat i) = 2 ^ (c + 6) * i"
    using F(1,4) i L by (intro unat_mult_exact unat_BytesInSizeClass) (simp_all add: unat_of_nat_uptr)
  have "unat (fs_this fs + 4096 + SizeRequiredForFlags ?l + push_bit ?l 1 * of_nat c) = frames_base fs + 2 ^ ?l * c"
    using L O cb by (intro unat_add_exact a1 a2) (simp add: frames_base_def)
  then show e: "unat (frame_addr fs c (of_nat i)) = frames_base fs + 2 ^ ?l * c + 2 ^ (c + 6) * i"
    unfolding frame_addr_def GetFrame_def kFlagsOffset_def
    using L O cb i by (elim unat_add_exact [OF _ a3]) (simp add: frames_base_def)
  show "unat (frame_addr fs c (of_nat i)) + 2 ^ (c + 6) \<le> frames_base fs + 2 ^ ?l * (c + 1)"
    using i by (simp add: e distrib_left)
  show "frames_base fs + 2 ^ ?l * (c + 1) < unat (fs_this fs) + 2 ^ 32"
    using cb L by (simp add: frames_base_def distrib_left)
qed

lemma unat_frame_flag:
  assumes "fs_ok fs" and "frame fs c i"
  shows "unat (frame_flag fs c (of_nat i)) =
      unat (fs_this fs) + 4096 + (2 ^ (stack_size_log fs - 5) - 2 ^ (stack_size_log fs - 5 - c)) + i"
    and "unat (frame_flag fs c (of_nat i)) < unat (fs_this fs) + 4096 + (2 ^ (stack_size_log fs - 5) - 2 ^ (stack_size_log fs - 5 - (c + 1)))"
    and "unat (frame_flag fs c (of_nat i)) < frames_base fs"
proof -
  let ?l = "stack_size_log fs"
  note F = frameD [OF assms] and L = log_bound [OF assms(1)]
  have O: "16 \<le> ?l" "?l \<le> 28" "unat (fs_this fs) + 2 ^ 32 < 2 ^ 64" using assms(1) by (simp_all add: fs_ok_def)
  have half: "?l - 5 - c = Suc (?l - 6 - c)" "?l - 5 - (c + 1) = ?l - 6 - c" using O F(1) by simp_all
  have step: "2 ^ (?l - 5 - c) = 2 * (2::nat) ^ (?l - 6 - c)" unfolding half by simp
  have le: "(2::nat) ^ (?l - 5 - c) \<le> 2 ^ (?l - 5)" by (intro power_increasing) simp_all
  have f: "unat (FlagsOffset ?l c) = 2 ^ (?l - 5) - 2 ^ (?l - 5 - c)" using F(1) O by (intro unat_FlagsOffset) simp_all
  have fb: "unat (FlagsOffset ?l c) \<le> 2 ^ 23" using f L by linarith
  then have "unat (fs_this fs + 4096 + FlagsOffset ?l c) = unat (fs_this fs) + 4096 + unat (FlagsOffset ?l c)"
    using O by (intro unat_add_exact refl) simp_all
  then show e: "unat (frame_flag fs c (of_nat i)) = unat (fs_this fs) + 4096 + (2 ^ (?l - 5) - 2 ^ (?l - 5 - c)) + i"
    unfolding frame_flag_def GetFlags_def kFlagsOffset_def
    using O F(4) fb unfolding f [symmetric] by (elim unat_add_exact) (simp_all add: unat_of_nat_uptr)
  show "unat (frame_flag fs c (of_nat i)) < unat (fs_this fs) + 4096 + (2 ^ (?l - 5) - 2 ^ (?l - 5 - (c + 1)))"
    unfolding e half(2) using step le F(2) by linarith
  then show "unat (frame_flag fs c (of_nat i)) < frames_base fs" unfolding frames_base_def by linarith
qed

lemma frame_flag_less:
  assumes "fs_ok fs" and "frame fs c i" and "frame fs c' i'" and "c < c'"
  shows "unat (frame_flag fs c (of_nat i)) < unat (frame_flag fs c' (of_nat i'))"
proof -
  let ?l = "stack_size_log fs"
  have "(2::nat) ^ (?l - 5 - c') \<le> 2 ^ (?l - 5 - (c + 1))" using assms(4) by (intro power_increasing) simp_all
  then have "2 ^ (?l - 5) - 2 ^ (?l - 5 - (c + 1)) \<le> (2::nat) ^ (?l - 5) - 2 ^ (?l - 5 - c')" by (rule diff_le_mono2)
  then show ?thesis using unat_frame_flag(2) [OF assms(1,2)] unat_frame_flag(1) [OF assms(1,3)] by linarith
qed

lemma frame_flag_inj:
  assumes "fs_ok fs" and "frame fs c i" and "frame fs c' i'"
  shows "frame_flag fs c (of_nat i) = frame_flag fs c' (of_nat i') \<longleftrightarrow> c = c' \<and> i = i'"
proof -
  note lt = frame_flag_less [OF assms] frame_flag_less [OF assms(1,3,2)]
  show ?thesis
  proof (cases "c = c'")
    case True
    then show ?thesis
      using unat_frame_flag(1) [OF assms(1,2)] unat_frame_flag(1) [OF assms(1,3)] by (metis add_left_cancel)
  next
    case False
    then consider "c < c'" | "c' < c" by linarith
    then have "unat (frame_flag fs c (of_nat i)) \<noteq> unat (frame_flag fs c' (of_nat i'))" by cases (use lt in linarith)+
    then show ?thesis using False by (auto simp del: unat_frame_flag)
  qed
qed

lemma frames_apart:
  assumes "fs_ok fs" and "frame fs c i" and "frame fs c' i'" and "(c, i) \<noteq> (c', i')"
  shows "unat (frame_addr fs c (of_nat i)) + 2 ^ (c + 6) \<le> unat (frame_addr fs c' (of_nat i')) \<or>
    unat (frame_addr fs c' (of_nat i')) + 2 ^ (c' + 6) \<le> unat (frame_addr fs c (of_nat i))"
proof -
  note A = unat_frame_addr [OF assms(1,2)] and B = unat_frame_addr [OF assms(1,3)]
  have row: "2 ^ stack_size_log fs * (k + 1) \<le> (2::nat) ^ stack_size_log fs * k'" if "k < k'" for k k' :: nat
    using that by (intro mult_le_mono2) simp
  have pos: "2 ^ (c + 6) * k + 2 ^ (c + 6) \<le> 2 ^ (c + 6) * k'" if "k < k'" for k k' :: nat
    using mult_le_mono2 [of "k + 1" k' "2 ^ (c + 6)"] that by simp
  consider "c < c'" | "c' < c" | "c = c'" "i < i'" | "c = c'" "i' < i" using assms(4) by force
  then show ?thesis
  proof cases
    case 1 then show ?thesis using A(2) B(1) row by fastforce
  next
    case 2 then show ?thesis using A(1) B(2) row by fastforce
  next
    case 3 then show ?thesis using A(1) B(1) pos by fastforce
  next
    case 4 then show ?thesis using A(1) B(1) pos by fastforce
  qed
qed

lemma frame_0_0: "fs_ok fs \<Longrightarrow> frame fs 0 0"
  by (simp add: frame_def class_frames_def fs_ok_def unat_NumberOfFrames)

lemma unat_frames_end:
  assumes "fs_ok fs"
  shows "unat (fs_this fs + RequiredSize (stack_size_log fs)) = frames_base fs + 2 ^ stack_size_log fs * 11"
proof -
  let ?l = "stack_size_log fs"
  note L = log_bound [OF assms]
  have O: "16 \<le> ?l" "?l \<le> 28" "unat (fs_this fs) + 2 ^ 32 < 2 ^ 64" using assms by (simp_all add: fs_ok_def)
  have f: "unat (push_bit ?l 1 * of_nat 11 :: uptr) = 2 ^ ?l * 11"
    using O L by (intro unat_mult_exact) (simp_all add: unat_exp)
  have "unat (4096 + SizeRequiredForFlags ?l) = 4096 + 2 ^ (?l - 5)"
    using O L by (intro unat_add_exact) (simp_all add: unat_SizeRequiredForFlags)
  then have "unat (4096 + SizeRequiredForFlags ?l + push_bit ?l 1 * of_nat 11) = 4096 + 2 ^ (?l - 5) + 2 ^ ?l * 11"
    using L by (elim unat_add_exact [OF _ f]) simp
  then have "unat (fs_this fs + (4096 + SizeRequiredForFlags ?l + push_bit ?l 1 * of_nat 11)) =
      unat (fs_this fs) + (4096 + 2 ^ (?l - 5) + 2 ^ ?l * 11)"
    using L O by (elim unat_add_exact [OF refl]) simp
  then show ?thesis by (simp add: RequiredSize_def SizeRequiredForFrames_def fs_consts frames_base_def)
qed

lemma AddrIsInFakeStack3_frame:
  assumes "fs_ok fs" and "frame fs c i" and "unat (frame_addr fs c (of_nat i)) \<le> unat x"
    and "unat x < unat (frame_addr fs c (of_nat i)) + 2 ^ (c + 6)"
  shows "AddrIsInFakeStack3 fs x =
    Some (frame_addr fs c (of_nat i), frame_addr fs c (of_nat i) + sizeof_FakeFrame, frame_addr fs c (of_nat i) + BytesInSizeClass c)"
proof -
  let ?l = "stack_size_log fs"
  note F = frameD [OF assms(1,2)] and L = log_bound [OF assms(1)] and A = unat_frame_addr [OF assms(1,2)]
  have O: "16 \<le> ?l" "?l \<le> 28" "unat (fs_this fs) + 2 ^ 32 < 2 ^ 64" using assms(1) by (simp_all add: fs_ok_def)
  let ?beg = "GetFrame (fs_this fs) ?l 0 0"
  have beg: "unat ?beg = frames_base fs" using unat_frame_addr(1) [OF assms(1) frame_0_0 [OF assms(1)]] by (simp add: frame_addr_def)
  have c11: "2 ^ ?l * (c + 1) \<le> (2::nat) ^ ?l * 11" using F(1) by (intro mult_le_mono2) simp
  have x: "frames_base fs + 2 ^ ?l * c + 2 ^ (c + 6) * i \<le> unat x" "unat x < frames_base fs + 2 ^ ?l * c + 2 ^ (c + 6) * i + 2 ^ (c + 6)"
    "unat x < frames_base fs + 2 ^ ?l * (c + 1)"
    using A assms(3,4) by linarith+
  have lo: "\<not> x < ?beg" using x(1) beg by (simp add: word_less_nat_alt)
  have hi: "\<not> fs_this fs + RequiredSize ?l \<le> x"
    unfolding word_le_nat_alt unat_frames_end [OF assms(1)] using x(3) c11 by linarith
  have d: "unat (x - ?beg) = unat x - frames_base fs" using x(1) beg by (simp add: unat_sub word_le_nat_alt)
  have cls: "unat (drop_bit ?l (x - ?beg)) = c"
  proof -
    have "(unat x - frames_base fs) div 2 ^ ?l = c"
      using x(1,3) by (intro div_nat_eqI) (auto simp: mult.commute)
    then show ?thesis unfolding unat_drop_bit_div d .
  qed
  let ?base = "?beg + push_bit ?l (of_nat c)"
  have pb: "unat (push_bit ?l (of_nat c :: uptr)) = c * 2 ^ ?l"
  proof -
    have "c * 2 ^ ?l \<le> 11 * 2 ^ 28" using F(1) L by (intro mult_le_mono) simp_all
    then show ?thesis using F(1) by (subst unat_push_bit_uptr) (simp_all add: unat_of_nat_uptr)
  qed
  have base: "unat ?base = frames_base fs + 2 ^ ?l * c"
    using unat_add_exact [OF beg pb] A(3) O c11 by (simp add: mult.commute)
  have top: "unat (?base + push_bit ?l 1) = frames_base fs + 2 ^ ?l * (c + 1)"
    using unat_add_exact [OF base unat_exp [of ?l]] A(3) O by (simp add: distrib_left add_ac)
  have pos: "unat (drop_bit (6 + c) (x - ?base)) = i"
  proof -
    have "unat (x - ?base) = unat x - (frames_base fs + 2 ^ ?l * c)" using x(1) base by (simp add: unat_sub word_le_nat_alt)
    moreover have "(unat x - (frames_base fs + 2 ^ ?l * c)) div 2 ^ (6 + c) = i"
      using x(1,2) by (intro div_nat_eqI) (auto simp: mult.commute add.commute)
    ultimately show ?thesis unfolding unat_drop_bit_div by simp
  qed
  have "?base + drop_bit (6 + c) (x - ?base) * BytesInSizeClass c = frame_addr fs c (of_nat i)"
  proof -
    have "drop_bit (6 + c) (x - ?base) = of_nat i" unfolding pos [symmetric] by simp
    moreover have "push_bit ?l (of_nat c :: uptr) = push_bit ?l 1 * of_nat c" by (simp add: push_bit_eq_mult mult.commute)
    ultimately show ?thesis by (simp add: frame_addr_def GetFrame_def mult.commute)
  qed
  moreover have "?base \<le> x" "x < ?base + push_bit ?l 1" using x base top by (simp_all add: word_le_nat_alt word_less_nat_alt)
  ultimately show ?thesis using lo hi by (simp add: AddrIsInFakeStack3_def Let_def cls fs_consts)
qed

lemma in_window:
  fixes a x :: uptr
  assumes "unat a + n \<le> 2 ^ 64"
  shows "unat (x - a) < n \<longleftrightarrow> unat a \<le> unat x \<and> unat x < unat a + n"
  using assms uptr_bound [of x] by (auto simp: unat_sub_if')

lemma frame_window:
  assumes "fs_ok fs" and "frame fs c i"
  shows "unat (x - frame_addr fs c (of_nat i)) < 2 ^ (c + 6) \<longleftrightarrow>
    unat (frame_addr fs c (of_nat i)) \<le> unat x \<and> unat x < unat (frame_addr fs c (of_nat i)) + 2 ^ (c + 6)"
  using unat_frame_addr(2,3) [OF assms] assms(1) by (intro in_window) (simp add: fs_ok_def)

text \<open>
  C19: The layout of a fake stack: two different frames occupy disjoint ranges of memory and have
  different allocation flags, no flag lies in a frame, and \<^verbatim>\<open>AddrIsInFakeStack\<close> maps every address
  of a frame back to the frame, its first byte after the header and its end.
\<close>

theorem fake_stack_layout:
  assumes "fs_ok fs" and "frame fs c i" and "frame fs c' i'"
  shows "((c, i) \<noteq> (c', i') \<longrightarrow>
      (\<forall>x. unat (x - frame_addr fs c (of_nat i)) < 2 ^ (c + 6) \<longrightarrow> \<not> unat (x - frame_addr fs c' (of_nat i')) < 2 ^ (c' + 6)) \<and>
      frame_flag fs c (of_nat i) \<noteq> frame_flag fs c' (of_nat i')) \<and>
    \<not> unat (frame_flag fs c (of_nat i) - frame_addr fs c' (of_nat i')) < 2 ^ (c' + 6) \<and>
    (\<forall>x. unat (x - frame_addr fs c (of_nat i)) < 2 ^ (c + 6) \<longrightarrow>
      AddrIsInFakeStack3 fs x = Some (frame_addr fs c (of_nat i), frame_addr fs c (of_nat i) + sizeof_FakeFrame,
        frame_addr fs c (of_nat i) + BytesInSizeClass c))"
proof (intro conjI impI allI)
  note W = frame_window [OF assms(1,2)] frame_window [OF assms(1,3)]
  show "frame_flag fs c (of_nat i) \<noteq> frame_flag fs c' (of_nat i')" if "(c, i) \<noteq> (c', i')"
    using that frame_flag_inj [OF assms] by simp
  show "\<not> unat (x - frame_addr fs c' (of_nat i')) < 2 ^ (c' + 6)"
    if "(c, i) \<noteq> (c', i')" "unat (x - frame_addr fs c (of_nat i)) < 2 ^ (c + 6)" for x
    using that(2) frames_apart [OF assms that(1)] unfolding W by linarith
  show "\<not> unat (frame_flag fs c (of_nat i) - frame_addr fs c' (of_nat i')) < 2 ^ (c' + 6)"
    using unat_frame_flag(3) [OF assms(1,2)] unat_frame_addr(1) [OF assms(1,3)] unfolding W by linarith
  show "AddrIsInFakeStack3 fs x = Some (frame_addr fs c (of_nat i), frame_addr fs c (of_nat i) + sizeof_FakeFrame,
        frame_addr fs c (of_nat i) + BytesInSizeClass c)" if "unat (x - frame_addr fs c (of_nat i)) < 2 ^ (c + 6)" for x
    using that AddrIsInFakeStack3_frame [OF assms(1,2)] unfolding W by blast
qed


definition example_fake :: FakeStack where
  "example_fake = \<lparr>fs_this = 0x7f0000000000, hint_position = replicate 11 0, stack_size_log = 16, needs_gc = False\<rparr>"

lemma example_fake_ok: "fs_ok example_fake"
  by (simp add: fs_ok_def example_fake_def)

theorem fake_stack_layout_witness:
  "frame_flag example_fake 0 (of_nat 0) \<noteq> frame_flag example_fake 10 (of_nat 0) \<and>
    AddrIsInFakeStack3 example_fake (frame_addr example_fake 0 (of_nat 0) + 5) =
      Some (frame_addr example_fake 0 (of_nat 0), frame_addr example_fake 0 (of_nat 0) + sizeof_FakeFrame,
        frame_addr example_fake 0 (of_nat 0) + BytesInSizeClass 0)"
proof -
  have "frame example_fake 10 0" by (simp add: frame_def class_frames_def example_fake_def unat_NumberOfFrames)
  from fake_stack_layout [OF example_fake_ok frame_0_0 [OF example_fake_ok] this] show ?thesis by simp
qed

end
