(* ===== verification/Fake_Stack_Pool.thy ===== *)
theory Fake_Stack_Pool
  imports Fake_Stack_Proofs
begin

text \<open>
  The fake stack as a pool of frames: an allocation hands out a frame that is not in use, a
  deallocation gives back exactly its frame, a collection gives back the frames of abandoned calls,
  and the shadow of a frame follows its life.
\<close>

unbundle bit_operations_syntax

section \<open>The allocator as a pool of frames\<close>

definition live_frames :: "FakeStack \<Rightarrow> mem \<Rightarrow> (nat \<times> nat) set" where
  "live_frames fs m = {(c, i). frame fs c i \<and> m (frame_flag fs c (of_nat i)) \<noteq> 0}"

text \<open>The last word of an allocated frame holds the address of its flag; the program must not write there.\<close>

definition saved_ok :: "FakeStack \<Rightarrow> mem \<Rightarrow> bool" where
  "saved_ok fs m \<longleftrightarrow> (\<forall>c i. (c, i) \<in> live_frames fs m \<longrightarrow>
     load64 m (SavedFlagPtr (frame_addr fs c (of_nat i)) c) = frame_flag fs c (of_nat i))"

definition same_layout :: "FakeStack \<Rightarrow> FakeStack \<Rightarrow> bool" where
  "same_layout fs fs' \<longleftrightarrow> fs_this fs' = fs_this fs \<and> stack_size_log fs' = stack_size_log fs \<and>
     length (hint_position fs') = length (hint_position fs)"

lemma same_layoutD:
  assumes "same_layout fs fs'"
  shows "frame_flag fs' = frame_flag fs" and "frame_addr fs' = frame_addr fs" and "class_frames fs' = class_frames fs"
    and "frame fs' = frame fs" and "live_frames fs' = live_frames fs" and "saved_ok fs' = saved_ok fs" and "fs_ok fs' = fs_ok fs"
proof -
  show f: "frame_flag fs' = frame_flag fs" "frame_addr fs' = frame_addr fs" "class_frames fs' = class_frames fs"
    using assms by (simp_all add: same_layout_def fun_eq_iff frame_flag_def frame_addr_def class_frames_def)
  then show g: "frame fs' = frame fs" by (simp add: fun_eq_iff frame_def)
  with f show "live_frames fs' = live_frames fs" by (simp add: fun_eq_iff live_frames_def)
  with f show "saved_ok fs' = saved_ok fs" by (simp add: fun_eq_iff saved_ok_def)
  show "fs_ok fs' = fs_ok fs" using assms by (simp add: same_layout_def fs_ok_def)
qed

text \<open>What one allocation writes.\<close>

definition take_frame :: "FakeStack \<Rightarrow> nat \<Rightarrow> nat \<Rightarrow> uptr \<Rightarrow> mem \<Rightarrow> mem" where
  "take_frame fs c i real_stack m =
     store64 (store64 (m(frame_flag fs c (of_nat i) := 1)) (frame_addr fs c (of_nat i) + real_stack_offset) real_stack)
       (SavedFlagPtr (frame_addr fs c (of_nat i)) c) (frame_flag fs c (of_nat i))"

lemma unat_ModuloNumberOfFrames:
  assumes "fs_ok fs"
  shows "unat (ModuloNumberOfFrames (stack_size_log fs) c h) = unat h mod class_frames fs c"
proof -
  let ?k = "stack_size_log fs - 6 - c"
  have "?k < 64" using assms by (auto simp: fs_ok_def)
  then have "NumberOfFrames (stack_size_log fs) c - 1 = mask ?k"
    by (simp add: NumberOfFrames_def fs_consts mask_eq_decr_exp)
  then show ?thesis
    using assms by (simp add: ModuloNumberOfFrames_def class_frames_def unat_and_mask fs_ok_def unat_NumberOfFrames)
qed

lemma succ_mod_frames:
  assumes "fs_ok fs"
  shows "(unat (h + 1) + j) mod class_frames fs c = (unat (h::uptr) + Suc j) mod class_frames fs c"
proof -
  have "class_frames fs c dvd 2 ^ 64"
    using assms unfolding class_frames_def by (subst unat_NumberOfFrames) (auto simp only: fs_ok_def intro!: le_imp_power_dvd)
  then have "unat (h + 1) mod class_frames fs c = (unat h + 1) mod class_frames fs c"
    by (simp add: unat_word_ariths mod_mod_cancel)
  then show ?thesis by (metis add_Suc_shift mod_add_cong plus_1_eq_Suc add.commute)
qed

lemma fs_Allocate_loop_run:
  assumes "fs_ok fs" and "c < 11"
  shows "\<exists>fs'. same_layout fs fs' \<and> needs_gc fs' = needs_gc fs \<and>
    ((\<forall>j<n. m (frame_flag fs c (of_nat ((unat (hint_position fs ! c) + j) mod class_frames fs c))) \<noteq> 0) \<and>
       fs_Allocate_loop n c real_stack fs m = (0, fs', m) \<or>
     (\<exists>i<class_frames fs c. m (frame_flag fs c (of_nat i)) = 0 \<and>
       fs_Allocate_loop n c real_stack fs m = (frame_addr fs c (of_nat i), fs', take_frame fs c i real_stack m)))"
  using assms(1)
proof (induction n arbitrary: fs)
  case 0
  then show ?case by (intro exI [of _ fs]) (simp add: same_layout_def)
next
  case (Suc n)
  let ?h = "hint_position fs ! c"
  let ?i = "unat ?h mod class_frames fs c"
  define fs1 where "fs1 = fs\<lparr>hint_position := (hint_position fs)[c := ?h + 1]\<rparr>"
  have l: "same_layout fs fs1" by (simp add: same_layout_def fs1_def)
  note D = same_layoutD [OF l]
  have pos: "ModuloNumberOfFrames (stack_size_log fs) c ?h = of_nat ?i"
    unfolding unat_ModuloNumberOfFrames [OF Suc.prems, symmetric] by simp
  have N: "?i < class_frames fs c" using Suc.prems by (simp add: class_frames_def fs_ok_def unat_NumberOfFrames)
  have h1: "hint_position fs1 ! c = ?h + 1" "needs_gc fs1 = needs_gc fs"
    using Suc.prems assms(2) by (simp_all add: fs1_def fs_ok_def)
  have run: "fs_Allocate_loop (Suc n) c real_stack fs m =
      (if m (frame_flag fs c (of_nat ?i)) \<noteq> 0 then fs_Allocate_loop n c real_stack fs1 m
       else (frame_addr fs c (of_nat ?i), fs1, take_frame fs c ?i real_stack m))"
    by (simp add: Let_def pos fs1_def [symmetric] D take_frame_def)
  show ?case
  proof (cases "m (frame_flag fs c (of_nat ?i)) = 0")
    case True
    then show ?thesis using l N h1 run by (intro exI [of _ fs1]) auto
  next
    case False
    have "fs_ok fs1" using Suc.prems D(7) by simp
    from Suc.IH [OF this] obtain fs' where fs': "same_layout fs1 fs'" "needs_gc fs' = needs_gc fs"
      and alt: "(\<forall>j<n. m (frame_flag fs c (of_nat ((unat ?h + Suc j) mod class_frames fs c))) \<noteq> 0) \<and>
         fs_Allocate_loop n c real_stack fs1 m = (0, fs', m) \<or>
       (\<exists>i<class_frames fs c. m (frame_flag fs c (of_nat i)) = 0 \<and>
         fs_Allocate_loop n c real_stack fs1 m = (frame_addr fs c (of_nat i), fs', take_frame fs c i real_stack m))"
      unfolding h1 D take_frame_def succ_mod_frames [OF Suc.prems] by blast
    have "same_layout fs fs'" using l fs'(1) by (simp add: same_layout_def)
    moreover have "\<forall>j<Suc n. m (frame_flag fs c (of_nat ((unat ?h + j) mod class_frames fs c))) \<noteq> 0"
      if "\<forall>j<n. m (frame_flag fs c (of_nat ((unat ?h + Suc j) mod class_frames fs c))) \<noteq> 0"
      using that False by (simp add: All_less_Suc2)
    ultimately show ?thesis using fs'(2) alt run False by (intro exI [of _ fs']) auto
  qed
qed

lemma residues_covered:
  assumes "i < N"
  shows "\<exists>j<N. (h + j) mod N = (i::nat)"
proof -
  let ?r = "h mod N" and ?j = "if h mod N \<le> i then i - h mod N else N + i - h mod N"
  have r: "?r < N" using assms by simp
  then have "?j < N" using assms by auto
  moreover have "(h + ?j) mod N = (?r + ?j) mod N" by (rule mod_add_left_eq [symmetric])
  moreover have "?r + ?j = i \<or> ?r + ?j = N + i" using r by auto
  then have "(?r + ?j) mod N = i" using assms by (elim disjE) (simp_all only: mod_less mod_add_self1)
  ultimately show ?thesis by metis
qed


section \<open>Memory of a frame\<close>

lemma in_frame_offset:
  assumes "fs_ok fs" and "frame fs c i" and "unat k < 2 ^ (c + 6)"
  shows "unat (frame_addr fs c (of_nat i) + k - frame_addr fs c (of_nat i)) < 2 ^ (c + 6)"
  using assms(3) by simp

lemma saved_offset:
  assumes "fs_ok fs" and "frame fs c i" and "j < 8"
  shows "unat (SavedFlagPtr (frame_addr fs c (of_nat i)) c + of_nat j - frame_addr fs c (of_nat i)) < 2 ^ (c + 6)"
proof -
  have c: "c < 11" using frameD(1) [OF assms(1,2)] .
  have b: "(8::nat) \<le> 2 ^ (c + 6)" using power_increasing [of 3 "c + 6" "2::nat"] by simp
  have "(2::nat) ^ (c + 6) \<le> 2 ^ 16" using c by (intro power_increasing) simp_all
  moreover have "unat (BytesInSizeClass c - 8) = 2 ^ (c + 6) - 8"
    using b unat_BytesInSizeClass [OF c] by (simp add: unat_sub word_le_nat_alt)
  ultimately have "unat (BytesInSizeClass c - 8 + of_nat j) = 2 ^ (c + 6) - 8 + j"
    using assms(3) by (intro unat_add_exact) (simp_all add: unat_of_nat_uptr)
  then show ?thesis using assms(3) b by (simp add: SavedFlagPtr_def algebra_simps)
qed

lemma real_stack_in_frame:
  assumes "fs_ok fs" and "frame fs c i" and "j < 8"
  shows "unat (frame_addr fs c (of_nat i) + real_stack_offset + of_nat j - frame_addr fs c (of_nat i)) < 2 ^ (c + 6)"
proof -
  have "(64::nat) \<le> 2 ^ (c + 6)" using power_increasing [of 6 "c + 6" "2::nat"] by simp
  moreover have "unat (24 + of_nat j :: uptr) = 24 + j" using assms(3) by (intro unat_add_exact) (simp_all add: unat_of_nat_uptr)
  ultimately show ?thesis using assms(3) by (simp add: real_stack_offset_def algebra_simps)
qed

lemma offset_less_8: "q - p < (8::uptr) \<Longrightarrow> \<exists>j<8. q = p + of_nat j"
  by (intro exI [of _ "unat (q - p)"]) (simp add: word_less_nat_alt)

lemma take_frame_outside:
  assumes "fs_ok fs" and "frame fs c i" and "\<not> unat (q - frame_addr fs c (of_nat i)) < 2 ^ (c + 6)"
  shows "take_frame fs c i real_stack m q = (if q = frame_flag fs c (of_nat i) then 1 else m q)"
proof -
  have "\<not> q - SavedFlagPtr (frame_addr fs c (of_nat i)) c < 8"
    using assms(3) saved_offset [OF assms(1,2)] by (metis offset_less_8)
  moreover have "\<not> q - (frame_addr fs c (of_nat i) + real_stack_offset) < 8"
    using assms(3) real_stack_in_frame [OF assms(1,2)] by (metis offset_less_8)
  ultimately show ?thesis by (simp add: take_frame_def store64_def)
qed

text \<open>The flag of any frame lies outside every frame.\<close>

lemma flag_outside:
  assumes "fs_ok fs" and "frame fs c i" and "frame fs c' i'"
  shows "\<not> unat (frame_flag fs c (of_nat i) - frame_addr fs c' (of_nat i')) < 2 ^ (c' + 6)"
  using unat_frame_flag(3) [OF assms(1,2)] unat_frame_addr(1) [OF assms(1,3)]
  unfolding frame_window [OF assms(1,3)] by linarith

lemma frames_disjoint:
  assumes "fs_ok fs" and "frame fs c i" and "frame fs c' i'" and "(c, i) \<noteq> (c', i')"
    and "unat (x - frame_addr fs c (of_nat i)) < 2 ^ (c + 6)"
  shows "\<not> unat (x - frame_addr fs c' (of_nat i')) < 2 ^ (c' + 6)"
  using assms(5) frames_apart [OF assms(1-4)]
  unfolding frame_window [OF assms(1,2)] frame_window [OF assms(1,3)] by linarith

lemma live_take_frame:
  assumes "fs_ok fs" and "frame fs c i"
  shows "live_frames fs (take_frame fs c i real_stack m) = insert (c, i) (live_frames fs m)"
proof -
  have "take_frame fs c i real_stack m (frame_flag fs c' (of_nat i')) =
      (if c' = c \<and> i' = i then 1 else m (frame_flag fs c' (of_nat i')))" if "frame fs c' i'" for c' i'
    using take_frame_outside [OF assms flag_outside [OF assms(1) that assms(2)]] frame_flag_inj [OF assms(1) that assms(2)] by simp
  then show ?thesis using assms(2) by (auto simp: live_frames_def split: if_splits)
qed

lemma saved_take_frame:
  assumes "fs_ok fs" and "frame fs c i" and "saved_ok fs m"
  shows "saved_ok fs (take_frame fs c i real_stack m)"
  unfolding saved_ok_def live_take_frame [OF assms(1,2)]
proof (intro allI impI)
  fix c' i' assume l: "(c', i') \<in> insert (c, i) (live_frames fs m)"
  show "load64 (take_frame fs c i real_stack m) (SavedFlagPtr (frame_addr fs c' (of_nat i')) c') = frame_flag fs c' (of_nat i')"
  proof (cases "(c', i') = (c, i)")
    case True
    then show ?thesis by (simp add: take_frame_def load64_store64)
  next
    case False
    have f: "frame fs c' i'" and live: "(c', i') \<in> live_frames fs m" using l False by (auto simp: live_frames_def)
    have "load64 (take_frame fs c i real_stack m) (SavedFlagPtr (frame_addr fs c' (of_nat i')) c') =
        load64 m (SavedFlagPtr (frame_addr fs c' (of_nat i')) c')"
    proof (rule load64_cong)
      fix j :: nat assume "j < 8"
      note w = saved_offset [OF assms(1) f this]
      have "SavedFlagPtr (frame_addr fs c' (of_nat i')) c' + of_nat j \<noteq> frame_flag fs c (of_nat i)"
        using w flag_outside [OF assms(1,2) f] by metis
      then show "take_frame fs c i real_stack m (SavedFlagPtr (frame_addr fs c' (of_nat i')) c' + of_nat j) =
          m (SavedFlagPtr (frame_addr fs c' (of_nat i')) c' + of_nat j)"
        using take_frame_outside [OF assms(1,2) frames_disjoint [OF assms(1) f assms(2) False w]] by simp
    qed
    then show ?thesis using live assms(3) by (simp add: saved_ok_def)
  qed
qed

section \<open>Giving a frame back\<close>

lemma live_drop_flag:
  assumes "fs_ok fs" and "frame fs c i"
  shows "live_frames fs (m(frame_flag fs c (of_nat i) := 0)) = live_frames fs m - {(c, i)}"
  using frame_flag_inj [OF assms(1) _ assms(2)] by (auto simp: live_frames_def)

lemma load64_drop_flag:
  assumes "fs_ok fs" and "frame fs c i" and "frame fs c' i'"
    and "\<And>j. j < 8 \<Longrightarrow> unat (p + of_nat j - frame_addr fs c' (of_nat i')) < 2 ^ (c' + 6)"
  shows "load64 (m(frame_flag fs c (of_nat i) := 0)) p = load64 m p"
proof (rule load64_cong)
  fix j :: nat assume "j < 8"
  then have "p + of_nat j \<noteq> frame_flag fs c (of_nat i)" using assms(4) flag_outside [OF assms(1-3)] by metis
  then show "(m(frame_flag fs c (of_nat i) := 0)) (p + of_nat j) = m (p + of_nat j)" by simp
qed

lemma saved_drop_flag:
  assumes "fs_ok fs" and "frame fs c i" and "saved_ok fs m"
  shows "saved_ok fs (m(frame_flag fs c (of_nat i) := 0))"
  using assms(3) load64_drop_flag [OF assms(1,2) _ saved_offset [OF assms(1)]]
  unfolding saved_ok_def live_drop_flag [OF assms(1,2)] by (auto simp: live_frames_def)

lemma fs_Deallocate_run:
  assumes "saved_ok fs m" and "(c, i) \<in> live_frames fs m"
  shows "fs_Deallocate (frame_addr fs c (of_nat i)) c m = m(frame_flag fs c (of_nat i) := 0)"
  using assms by (simp add: fs_Deallocate_def saved_ok_def)

section \<open>The shadow of a frame\<close>

lemma kMagic8_replicate: "kMagic8 = replicate_byte 0xf5" "(0::u64) = replicate_byte 0"
  by (simp_all add: kMagic8_def kMagic4_def kMagic2_def kMagic1_def kAsanStackAfterReturnMagic_def replicate_byte_def)

lemma store_words_at:
  assumes "b < 256" and "8 * n < 2 ^ 64"
  shows "shadow (fold (\<lambda>i st. st\<lparr>shadow := store64 (shadow st) (sh + 8 * of_nat i) (replicate_byte b)\<rparr>) [0..<n] st) q =
      (if unat (q - sh) < 8 * n then ucast b else shadow st q)"
    and "can_poison_memory (fold (\<lambda>i st. st\<lparr>shadow := store64 (shadow st) (sh + 8 * of_nat i) (replicate_byte b)\<rparr>) [0..<n] st) =
      can_poison_memory st"
  using assms(2)
proof (induction n)
  case (Suc n)
  { case 1
    have u: "unat (8 * of_nat n :: uptr) = 8 * n" using 1 by (intro unat_mult_exact) (simp_all add: unat_of_nat_uptr)
    have "unat (q - (sh + 8 * of_nat n)) < 8 \<longleftrightarrow> 8 * n \<le> unat (q - sh) \<and> unat (q - sh) < 8 * n + 8"
      using in_window [of "8 * of_nat n" 8 "q - sh"] u 1 by (simp add: algebra_simps)
    then show ?case using 1 Suc.IH(1)
      by (auto simp: store64_replicate [OF assms(1)] word_less_nat_alt)
  next
    case 2
    then show ?case using Suc.IH(2) by simp
  }
qed simp_all

text \<open>The whole mapping is application memory.\<close>

definition fs_mapped :: "asan_env \<Rightarrow> FakeStack \<Rightarrow> bool" where
  "fs_mapped env fs \<longleftrightarrow> (\<forall>x. unat (fs_this fs) \<le> unat x \<and> unat x \<le> unat (fs_this fs) + 2 ^ 32 \<longrightarrow> AddrIsInMem (mp env) x)"

lemma frame_in_mem:
  assumes "fs_ok fs" and "fs_mapped env fs" and "frame fs c i"
    and "unat (frame_addr fs c (of_nat i)) \<le> unat x + 8" and "unat x \<le> unat (frame_addr fs c (of_nat i)) + 2 ^ (c + 6)"
  shows "AddrIsInMem (mp env) x"
  using assms(2) unat_frame_addr [OF assms(1,3)] assms(4,5) unfolding fs_mapped_def frames_base_def by fastforce

lemma frame_granule:
  assumes "fs_ok fs" and "frame fs c i"
  shows "goffset (frame_addr fs c (of_nat i)) = 0" and "8 \<le> unat (frame_addr fs c (of_nat i))"
    and "unat (BytesInSizeClass c) = 8 * (8 * 2 ^ c)"
    and "unat (frame_addr fs c (of_nat i)) + 2 ^ (c + 6) < 2 ^ 64"
proof -
  note A = unat_frame_addr [OF assms] and c = frameD(1) [OF assms]
  have l: "16 \<le> stack_size_log fs" "unat (fs_this fs) + 2 ^ 32 < 2 ^ 64" "unat (fs_this fs) mod 4096 = 0"
    using assms(1) by (simp_all add: fs_ok_def)
  have p: "2 ^ (stack_size_log fs - 5) = 8 * (2::nat) ^ (stack_size_log fs - 8)"
    "2 ^ stack_size_log fs = 8 * (2::nat) ^ (stack_size_log fs - 3)" "2 ^ (c + 6) = 8 * (2::nat) ^ (c + 3)"
    using l(1) power_add [of "2::nat" 3 "stack_size_log fs - 8"] power_add [of "2::nat" 3 "stack_size_log fs - 3"] by (simp_all add: power_add)
  have "8 dvd unat (fs_this fs)" using l(3) dvd_trans [of 8 4096 "unat (fs_this fs)"] by (simp add: mod_eq_0_iff_dvd)
  then have "8 dvd unat (frame_addr fs c (of_nat i))" unfolding A(1) frames_base_def p by simp
  then show "goffset (frame_addr fs c (of_nat i)) = 0" by (simp add: goffset_def)
  show "8 \<le> unat (frame_addr fs c (of_nat i))" unfolding A(1) frames_base_def by simp
  show "unat (BytesInSizeClass c) = 8 * (8 * 2 ^ c)" using unat_BytesInSizeClass [OF c] by (simp add: power_add)
  show "unat (frame_addr fs c (of_nat i)) + 2 ^ (c + 6) < 2 ^ 64" using A l(2) by linarith
qed

text \<open>The granules from \<open>a\<close> to \<open>b\<close>.\<close>

definition granules :: "uptr \<Rightarrow> uptr \<Rightarrow> uptr \<Rightarrow> bool" where
  "granules a b x \<longleftrightarrow> granule a \<le> granule x \<and> granule x < granule b"

lemma SetShadow_run:
  assumes "fs_ok fs" and "fs_mapped env fs" and "frame fs c i" and "platform_ok env" and "can_poison_memory st"
    and "goffset sz = 0" and "0 < unat sz" and "sz \<le> BytesInSizeClass c" and "b < 256"
  defines "ff \<equiv> frame_addr fs c (of_nat i)"
  shows "\<exists>st'. SetShadow env ff sz c (replicate_byte b) st = Some st' \<and> can_poison_memory st' \<and>
    (\<forall>x. shadow st' (MEM_TO_SHADOW (mp env) x) =
      (if replicate_byte b = 0 \<and> granules (ff + sz) (ff + BytesInSizeClass c) x then kAsanStackRightRedzoneMagic
       else if granules ff (ff + (if c \<le> 6 then BytesInSizeClass c else sz)) x then ucast b
       else shadow st (MEM_TO_SHADOW (mp env) x)))"
proof -
  note G = frame_granule [OF assms(1,3), folded ff_def] and c = frameD(1) [OF assms(1,3)]
  note inmem = frame_in_mem [OF assms(1-3), folded ff_def]
  have ok: "offset_ok (mp env)" by (rule platform_offset_ok [OF assms(4)])
  have B: "unat (BytesInSizeClass c) = 2 ^ (c + 6)" by (rule unat_BytesInSizeClass [OF c])
  have szB: "unat sz \<le> 2 ^ (c + 6)" using assms(8) B by (simp add: word_le_nat_alt)
  have ends: "unat (ff + BytesInSizeClass c) = unat ff + 2 ^ (c + 6)" "unat (ff + sz) = unat ff + unat sz"
    using G(4) B szB by (simp_all add: unat_word_ariths)
  have g8: "(8::nat) dvd 2 ^ (c + 6)" by (simp add: power_add)
  have off: "goffset (ff + sz) = 0" "goffset (ff + BytesInSizeClass c) = 0"
    using G(1) assms(6) g8 ends by (auto simp: goffset_def mod_eq_0_iff_dvd)
  have gr: "granule (ff + BytesInSizeClass c) = granule ff + 8 * 2 ^ c"
    using G(1,3) ends(1) B by (simp add: granule_def goffset_def power_add)
  have le: "granule (ff + sz) \<le> granule (ff + BytesInSizeClass c)" "granule ff \<le> granule (ff + sz)"
    using szB ends by (auto simp: granule_def intro: div_le_mono)
  have ff: "AddrIsInMem (mp env) ff" by (rule inmem) simp_all
  have window: "unat (MEM_TO_SHADOW (mp env) x - MEM_TO_SHADOW (mp env) ff) < 8 * 2 ^ c \<longleftrightarrow> granules ff (ff + BytesInSizeClass c) x" for x
  proof -
    have "(2::nat) ^ c \<le> 2 ^ 10" using c by (intro power_increasing) simp_all
    then have w: "unat (MEM_TO_SHADOW (mp env) ff) + 8 * 2 ^ c \<le> 2 ^ 64"
      using ok granule_bound [of "ff + BytesInSizeClass c"] gr by (simp add: unat_MEM_TO_SHADOW offset_ok_def)
    show ?thesis unfolding in_window [OF w] granules_def gr by (simp add: unat_MEM_TO_SHADOW ok)
  qed
  define st1 where "st1 = (if c \<le> 6
      then Some (fold (\<lambda>i st. st\<lparr>shadow := store64 (shadow st) (MEM_TO_SHADOW (mp env) ff + 8 * of_nat i) (replicate_byte b)\<rparr>) [0..<2 ^ c] st)
      else PoisonShadow env ff sz (ucast (replicate_byte b)) st)"
  have b8: "(ucast (replicate_byte b) :: u8) = ucast b" using replicate_byte_bytes [OF assms(9), of 0] by simp
  have "\<exists>s. st1 = Some s \<and> can_poison_memory s \<and> (\<forall>x. shadow s (MEM_TO_SHADOW (mp env) x) =
      (if granules ff (ff + (if c \<le> 6 then BytesInSizeClass c else sz)) x then ucast b else shadow st (MEM_TO_SHADOW (mp env) x)))"
  proof (cases "c \<le> 6")
    case True
    have "8 * (2::nat) ^ c \<le> 8 * 2 ^ 6" using True by (intro mult_le_mono2 power_increasing) simp_all
    then have "8 * (2::nat) ^ c < 2 ^ 64" by simp
    note W = store_words_at [OF assms(9) this, where sh = "MEM_TO_SHADOW (mp env) ff" and st = st]
    show ?thesis using True assms(5) unfolding st1_def by (simp add: W window)
  next
    case False
    have "unat (ff + sz - 8) = unat (ff + sz) - 8" using G(2) ends by (simp add: unat_sub word_le_nat_alt)
    then have "AddrIsInMem (mp env) (ff + sz - 8)" using szB ends by (intro inmem) simp_all
    then show ?thesis
      using False PoisonShadow_run [OF assms(4) disjI1 [OF assms(5)] G(1) off(1) le(2) _ ff, of "ucast (replicate_byte b)"] G(2) ends assms(5)
      by (auto simp: st1_def granules_def b8)
  qed
  then obtain s where s: "st1 = Some s" "can_poison_memory s"
    "\<And>x. shadow s (MEM_TO_SHADOW (mp env) x) =
      (if granules ff (ff + (if c \<le> 6 then BytesInSizeClass c else sz)) x then ucast b else shadow st (MEM_TO_SHADOW (mp env) x))"
    by blast
  have run: "SetShadow env ff sz c (replicate_byte b) st =
      (if replicate_byte b = 0 then PoisonShadow env (ff + sz) (BytesInSizeClass c - sz) kAsanStackRightRedzoneMagic s else Some s)"
    using s(1) off(1) ff by (simp add: SetShadow_def aligned_iff MemToShadow_def st1_def [symmetric])
  show ?thesis
  proof (cases "replicate_byte b = 0")
    case False
    then show ?thesis using run s by auto
  next
    case True
    have "unat (ff + BytesInSizeClass c - 8) = unat ff + 2 ^ (c + 6) - 8" using G(2) ends by (simp add: unat_sub word_le_nat_alt)
    then have e: "AddrIsInMem (mp env) (ff + BytesInSizeClass c - 8)" by (intro inmem) simp_all
    have m: "AddrIsInMem (mp env) (ff + sz)" using szB ends by (intro inmem) simp_all
    have "ff + BytesInSizeClass c - (ff + sz) = BytesInSizeClass c - sz" by simp
    then obtain s' where "PoisonShadow env (ff + sz) (BytesInSizeClass c - sz) kAsanStackRightRedzoneMagic s = Some s'"
      "can_poison_memory s' = can_poison_memory s"
      "\<And>x. shadow s' (MEM_TO_SHADOW (mp env) x) =
        (if granules (ff + sz) (ff + BytesInSizeClass c) x then kAsanStackRightRedzoneMagic else shadow s (MEM_TO_SHADOW (mp env) x))"
      using PoisonShadow_run [OF assms(4) disjI1 [OF s(2)] off le(1) _ m e, of kAsanStackRightRedzoneMagic] G(2) ends
      by (auto simp: granules_def)
    then show ?thesis using run True s(2,3) by auto
  qed
qed

section \<open>Collecting abandoned frames\<close>

definition abandoned :: "FakeStack \<Rightarrow> mem \<Rightarrow> uptr \<Rightarrow> uptr \<Rightarrow> (nat \<times> nat) set" where
  "abandoned fs m bottom real_stack = {(c, i). frame fs c i \<and>
     bottom < load64 m (frame_addr fs c (of_nat i) + real_stack_offset) \<and>
     load64 m (frame_addr fs c (of_nat i) + real_stack_offset) < real_stack}"

text \<open>What a call relies on: the mapping, and the words that the program must leave alone.\<close>

definition pool_ok :: "asan_env \<Rightarrow> FakeStack \<Rightarrow> fake_mem \<Rightarrow> bool" where
  "pool_ok env fs st \<longleftrightarrow> fs_ok fs \<and> fs_mapped env fs \<and> platform_ok env \<and> can_poison_memory (fasan st) \<and> saved_ok fs (fmem st)"

lemma abandoned_drop_flag:
  assumes "fs_ok fs" and "frame fs c i"
  shows "abandoned fs (m(frame_flag fs c (of_nat i) := 0)) b r = abandoned fs m b r"
proof -
  note rs = load64_drop_flag [OF assms _ real_stack_in_frame [OF assms(1)]]
  show ?thesis unfolding abandoned_def using rs by auto
qed

lemma full_frame_size:
  assumes "fs_ok fs" and "frame fs c i"
  shows "goffset (BytesInSizeClass c) = 0" and "0 < unat (BytesInSizeClass c)"
  using frame_granule(3) [OF assms] by (simp_all add: goffset_def)

lemma gc_frame_run:
  assumes "pool_ok env fs st" and "frame fs c i"
  shows "\<exists>st'. gc_frame env b r fs c i st = Some st' \<and> pool_ok env fs st' \<and>
    live_frames fs (fmem st') = live_frames fs (fmem st) - ({(c, i)} \<inter> abandoned fs (fmem st) b r) \<and>
    abandoned fs (fmem st') b r = abandoned fs (fmem st) b r"
proof -
  let ?flag = "frame_flag fs c (of_nat i)" and ?ff = "frame_addr fs c (of_nat i)"
  have P: "fs_ok fs" "fs_mapped env fs" "platform_ok env" "can_poison_memory (fasan st)" "saved_ok fs (fmem st)"
    using assms(1) by (simp_all add: pool_ok_def)
  obtain s where s: "SetShadow env ?ff (BytesInSizeClass c) c kMagic8 (fasan st) = Some s" "can_poison_memory s"
    using SetShadow_run [OF P(1,2) assms(2) P(3,4) full_frame_size [OF P(1) assms(2)] order_refl, of "0xf5"]
    unfolding kMagic8_replicate(1) by auto
  show ?thesis
  proof (cases "fmem st ?flag \<noteq> 0 \<and> (c, i) \<in> abandoned fs (fmem st) b r")
    case True
    then have "gc_frame env b r fs c i st = Some (st\<lparr>fmem := (fmem st)(?flag := 0), fasan := s\<rparr>)"
      using s(1) by (simp add: gc_frame_def Let_def abandoned_def)
    then show ?thesis
      using True P s(2) live_drop_flag [OF P(1) assms(2)] saved_drop_flag [OF P(1) assms(2) P(5)] abandoned_drop_flag [OF P(1) assms(2)]
      by (auto simp: pool_ok_def)
  next
    case False
    then have "gc_frame env b r fs c i st = Some st"
      using assms(2) by (auto simp: gc_frame_def Let_def abandoned_def)
    moreover have "(c, i) \<notin> live_frames fs (fmem st) \<inter> abandoned fs (fmem st) b r"
      using False by (auto simp: live_frames_def)
    ultimately show ?thesis using assms(1) by auto
  qed
qed

lemma gc_frames_run:
  assumes "pool_ok env fs st" and "\<And>c i. (c, i) \<in> set L \<Longrightarrow> frame fs c i"
  shows "\<exists>st'. gc_frames env b r fs L st = Some st' \<and> pool_ok env fs st' \<and>
    live_frames fs (fmem st') = live_frames fs (fmem st) - (set L \<inter> abandoned fs (fmem st) b r)"
  using assms
proof (induction L arbitrary: st)
  case (Cons x L)
  obtain c i where x: "x = (c, i)" by (cases x)
  obtain s where s: "gc_frame env b r fs c i st = Some s" "pool_ok env fs s"
    "live_frames fs (fmem s) = live_frames fs (fmem st) - ({(c, i)} \<inter> abandoned fs (fmem st) b r)"
    "abandoned fs (fmem s) b r = abandoned fs (fmem st) b r"
    using gc_frame_run [OF Cons.prems(1), of c i b r] Cons.prems(2) x by auto
  obtain s' where "gc_frames env b r fs L s = Some s'" "pool_ok env fs s'"
    "live_frames fs (fmem s') = live_frames fs (fmem s) - (set L \<inter> abandoned fs (fmem s) b r)"
    using Cons.IH [OF s(2)] Cons.prems(2) by auto
  then show ?case using s x by auto
qed simp

lemma all_frames_set: "(c, i) \<in> set (all_frames fs) \<longleftrightarrow> frame fs c i"
  by (auto simp: all_frames_def frame_def fs_consts intro!: bexI [of _ c])

definition collected :: "(uptr \<times> uptr) option \<Rightarrow> uptr \<Rightarrow> FakeStack \<Rightarrow> mem \<Rightarrow> (nat \<times> nat) set" where
  "collected bounds real_stack fs m =
     (case bounds of Some (bottom, upper) \<Rightarrow>
        if needs_gc fs \<and> bottom \<le> real_stack \<and> real_stack \<le> upper then abandoned fs m bottom real_stack else {}
      | None \<Rightarrow> {})"

lemma fs_GC_run:
  assumes "pool_ok env fs st" and "needs_gc fs"
  shows "\<exists>fs' st'. fs_GC env bounds r fs st = Some (fs', st') \<and> same_layout fs fs' \<and> pool_ok env fs st' \<and>
    live_frames fs (fmem st') = live_frames fs (fmem st) - collected bounds r fs (fmem st)"
proof (cases bounds)
  case None
  then show ?thesis using assms by (simp add: fs_GC_def collected_def same_layout_def)
next
  case (Some p)
  obtain b u where p: "p = (b, u)" by (cases p)
  show ?thesis
  proof (cases "r < b \<or> u < r")
    case True
    then show ?thesis using assms Some p by (auto simp: fs_GC_def collected_def same_layout_def)
  next
    case False
    obtain s where s: "gc_frames env b r fs (all_frames fs) st = Some s" "pool_ok env fs s"
      "live_frames fs (fmem s) = live_frames fs (fmem st) - (set (all_frames fs) \<inter> abandoned fs (fmem st) b r)"
      using gc_frames_run [OF assms(1), of "all_frames fs" b r] all_frames_set by blast
    have "set (all_frames fs) \<inter> abandoned fs (fmem st) b r = abandoned fs (fmem st) b r"
      by (auto simp: abandoned_def all_frames_set)
    then show ?thesis using s False assms(2) Some p by (auto simp: fs_GC_def collected_def same_layout_def not_less)
  qed
qed

lemma fs_Allocate_run:
  fixes bounds r
  assumes "pool_ok env fs st" and "c < 11"
  defines "L \<equiv> live_frames fs (fmem st) - collected bounds r fs (fmem st)"
  shows "\<exists>p fs' st'. fs_Allocate env bounds c r fs st = Some (p, fs', st') \<and> same_layout fs fs' \<and> pool_ok env fs st' \<and>
    (p = 0 \<and> live_frames fs (fmem st') = L \<and> (\<forall>i<class_frames fs c. (c, i) \<in> L) \<or>
     (\<exists>i. frame fs c i \<and> (c, i) \<notin> L \<and> p = frame_addr fs c (of_nat i) \<and> live_frames fs (fmem st') = insert (c, i) L))"
proof -
  have "\<exists>fs1 st1. (if needs_gc fs then fs_GC env bounds r fs st else Some (fs, st)) = Some (fs1, st1) \<and> same_layout fs fs1 \<and>
      pool_ok env fs st1 \<and> live_frames fs (fmem st1) = L"
    using assms(1) fs_GC_run [OF assms(1), of bounds r]
    by (cases "needs_gc fs") (auto simp: L_def collected_def same_layout_def split: option.split prod.split)
  then obtain fs1 st1 where 1: "(if needs_gc fs then fs_GC env bounds r fs st else Some (fs, st)) = Some (fs1, st1)" "same_layout fs fs1"
    "pool_ok env fs st1" "live_frames fs (fmem st1) = L" by blast
  note D = same_layoutD [OF 1(2)]
  have ok: "fs_ok fs" "saved_ok fs (fmem st1)" using 1(3) by (simp_all add: pool_ok_def)
  let ?N = "class_frames fs c"
  let ?fl = "\<lambda>i. fmem st1 (frame_flag fs c (of_nat i))"
  obtain fs2 where 2: "same_layout fs1 fs2" and alt: "(\<forall>j<?N. ?fl ((unat (hint_position fs1 ! c) + j) mod ?N) \<noteq> 0) \<and>
       fs_Allocate_loop ?N c r fs1 (fmem st1) = (0, fs2, fmem st1) \<or>
     (\<exists>i<?N. ?fl i = 0 \<and> fs_Allocate_loop ?N c r fs1 (fmem st1) = (frame_addr fs c (of_nat i), fs2, take_frame fs1 c i r (fmem st1)))"
    using fs_Allocate_loop_run [of fs1 c ?N "fmem st1" r] ok(1) assms(2) unfolding D by blast
  have l2: "same_layout fs fs2" using 1(2) 2 by (simp add: same_layout_def)
  have run: "fs_Allocate env bounds c r fs st =
      (let (res, fs, m) = fs_Allocate_loop ?N c r fs1 (fmem st1) in Some (res, fs, st1\<lparr>fmem := m\<rparr>))"
    using 1(1) assms(2) D(3) by (simp add: fs_Allocate_def fs_consts)
  have mem: "(c, i) \<in> L \<longleftrightarrow> ?fl i \<noteq> 0" if "i < ?N" for i
    using that assms(2) by (simp add: 1(4) [symmetric] live_frames_def frame_def)
  from alt show ?thesis
  proof (elim disjE conjE exE)
    assume all: "\<forall>j<?N. ?fl ((unat (hint_position fs1 ! c) + j) mod ?N) \<noteq> 0"
      and loop: "fs_Allocate_loop ?N c r fs1 (fmem st1) = (0, fs2, fmem st1)"
    have "\<forall>i<?N. (c, i) \<in> L" using all residues_covered mem by metis
    then show ?thesis using run loop l2 1(3,4) by (simp add: pool_ok_def)
  next
    fix i assume i: "i < ?N" "?fl i = 0"
      and loop: "fs_Allocate_loop ?N c r fs1 (fmem st1) = (frame_addr fs c (of_nat i), fs2, take_frame fs1 c i r (fmem st1))"
    have tf: "take_frame fs1 c i r (fmem st1) = take_frame fs c i r (fmem st1)" by (simp add: take_frame_def D)
    have f: "frame fs c i" using i assms(2) by (simp add: frame_def)
    show ?thesis
      using run loop l2 1(3,4) i mem f live_take_frame [OF ok(1) f] saved_take_frame [OF ok(1) f ok(2)]
      by (intro exI [of _ "frame_addr fs c (of_nat i)"] exI [of _ fs2] exI [of _ "st1\<lparr>fmem := take_frame fs c i r (fmem st1)\<rparr>"])
        (auto simp: tf pool_ok_def)
  qed
qed

section \<open>Correctness\<close>

lemma in_sub_frame:
  assumes "fs_ok fs" and "frame fs c i" and "goffset sz = 0" and "sz \<le> BytesInSizeClass c"
  shows "granules (frame_addr fs c (of_nat i)) (frame_addr fs c (of_nat i) + sz) x \<longleftrightarrow> unat (x - frame_addr fs c (of_nat i)) < unat sz"
proof -
  let ?ff = "frame_addr fs c (of_nat i)"
  note G = frame_granule [OF assms(1,2)]
  have le: "unat sz \<le> 2 ^ (c + 6)" using assms(4) unat_BytesInSizeClass [OF frameD(1) [OF assms(1,2)]] by (simp add: word_le_nat_alt)
  then have e: "unat (?ff + sz) = unat ?ff + unat sz" "unat ?ff + unat sz \<le> 2 ^ 64" using G(4) by (simp_all add: unat_word_ariths)
  have "8 * granule ?ff = unat ?ff" "8 * granule sz = unat sz" using G(1) assms(3) by (simp_all add: unat_granule [of ?ff] unat_granule [of sz])
  moreover have "granule (?ff + sz) = granule ?ff + granule sz"
    unfolding granule_def e(1) using G(1) by (intro div_plus_div_distrib_dvd_left) (simp add: goffset_def mod_eq_0_iff_dvd)
  ultimately show ?thesis unfolding in_window [OF e(2)] granules_def using unat_granule [of x] goffset_less(1) [of x] by linarith
qed

text \<open>
  C13: A function of class \<open>c\<close> that asks for a fake frame either gets none, when every frame of its
  class is in use, or gets a frame that was not in use, whose first \<open>sz\<close> bytes may be accessed
  and whose other bytes are poisoned. Before that, after a no-return event and on the thread's own stack,
  the frames whose call has been abandoned are given back. No other frame changes hands, and the words
  that deallocation relies on stay intact.
\<close>

theorem fake_stack_malloc:
  assumes "pool_ok env fs st" and "c < 11" and "goffset sz = 0" and "0 < unat sz" and "sz \<le> BytesInSizeClass c"
  shows "\<exists>p fs' st'. OnMalloc env bounds r c sz (Some fs) st = Some (p, Some fs', st') \<and> same_layout fs fs' \<and> pool_ok env fs' st' \<and>
    (let L = live_frames fs (fmem st) - collected bounds r fs (fmem st) in
     p = 0 \<and> live_frames fs (fmem st') = L \<and> (\<forall>i<class_frames fs c. (c, i) \<in> L) \<or>
     (\<exists>i. frame fs c i \<and> (c, i) \<notin> L \<and> p = frame_addr fs c (of_nat i) \<and> live_frames fs (fmem st') = insert (c, i) L \<and>
       (\<forall>x. unat (x - p) < 2 ^ (c + 6) \<longrightarrow> (poisoned env (fasan st') x \<longleftrightarrow> \<not> unat (x - p) < unat sz))))"
proof -
  let ?L = "live_frames fs (fmem st) - collected bounds r fs (fmem st)"
  obtain p fs' st' where run: "fs_Allocate env bounds c r fs st = Some (p, fs', st')" "same_layout fs fs'" "pool_ok env fs st'"
    and alt: "p = 0 \<and> live_frames fs (fmem st') = ?L \<and> (\<forall>i<class_frames fs c. (c, i) \<in> ?L) \<or>
     (\<exists>i. frame fs c i \<and> (c, i) \<notin> ?L \<and> p = frame_addr fs c (of_nat i) \<and> live_frames fs (fmem st') = insert (c, i) ?L)"
    using fs_Allocate_run [OF assms(1,2), of bounds r] by (elim exE conjE) (rule that; assumption)
  have ok': "pool_ok env fs' s \<longleftrightarrow> pool_ok env fs s" for s
    using run(2) same_layoutD [OF run(2)] by (simp add: pool_ok_def fs_mapped_def same_layout_def)
  from alt show ?thesis
  proof (elim disjE conjE exE)
    assume "p = 0" "live_frames fs (fmem st') = ?L" "\<forall>i<class_frames fs c. (c, i) \<in> ?L"
    then show ?thesis using run ok' by (simp add: OnMalloc_def Let_def)
  next
    fix i assume i: "frame fs c i" "(c, i) \<notin> ?L" "p = frame_addr fs c (of_nat i)" "live_frames fs (fmem st') = insert (c, i) ?L"
    have P: "fs_ok fs" "fs_mapped env fs" "platform_ok env" "can_poison_memory (fasan st')" using run(3) by (simp_all add: pool_ok_def)
    have ne: "p \<noteq> 0" using frame_granule(2) [OF P(1) i(1)] i(3) by (auto simp: unat_eq_0)
    let ?M = "MEM_TO_SHADOW (mp env)"
    obtain s where s: "SetShadow env p sz c 0 (fasan st') = Some s" "can_poison_memory s"
      "\<And>x. shadow s (?M x) =
      (if granules (p + sz) (p + BytesInSizeClass c) x then kAsanStackRightRedzoneMagic
       else if granules p (p + (if c \<le> 6 then BytesInSizeClass c else sz)) x then 0
       else shadow (fasan st') (?M x))"
      using SetShadow_run [OF P(1,2) i(1) P(3,4) assms(3-5), of 0, folded i(3)] unfolding kMagic8_replicate(2) [symmetric] by auto
    have "poisoned env s x \<longleftrightarrow> \<not> unat (x - p) < unat sz" if x: "unat (x - p) < 2 ^ (c + 6)" for x
    proof -
      note sub = in_sub_frame [OF P(1) i(1), folded i(3)]
      have B: "granules p (p + BytesInSizeClass c) x"
        using x sub [OF full_frame_size(1) [OF P(1) i(1)] order_refl] unat_BytesInSizeClass [OF assms(2)] by simp
      have sz: "granules p (p + sz) x \<longleftrightarrow> unat (x - p) < unat sz" by (rule sub [OF assms(3,5)])
      have "granules (p + sz) (p + BytesInSizeClass c) x \<longleftrightarrow> \<not> unat (x - p) < unat sz"
        using B sz by (auto simp: granules_def)
      then have "shadow s (?M x) = (if unat (x - p) < unat sz then 0 else kAsanStackRightRedzoneMagic)" using s(3) [of x] B sz by auto
      then show ?thesis by (simp add: poisoned_alt kAsanStackRightRedzoneMagic_def)
    qed
    then show ?thesis using run ok' i s(1,2) ne P
      by (intro exI [of _ p] exI [of _ fs'] exI [of _ "st'\<lparr>fasan := s\<rparr>"]) (auto simp: OnMalloc_def Let_def pool_ok_def)
  qed
qed

text \<open>
  C14: Leaving a function gives its frame back and no other one, and poisons the frame: until the
  frame is handed out again every access to the locals of the function is reported.
\<close>

theorem fake_stack_free:
  assumes "pool_ok env fs st" and "(c, i) \<in> live_frames fs (fmem st)" and "goffset sz = 0" and "0 < unat sz" and "sz \<le> BytesInSizeClass c"
  shows "\<exists>st'. OnFree env (frame_addr fs c (of_nat i)) c sz st = Some st' \<and> pool_ok env fs st' \<and>
    live_frames fs (fmem st') = live_frames fs (fmem st) - {(c, i)} \<and>
    (\<forall>x. unat (x - frame_addr fs c (of_nat i)) < unat sz \<longrightarrow> poisoned env (fasan st') x) \<and>
    (\<forall>x. \<not> unat (x - frame_addr fs c (of_nat i)) < 2 ^ (c + 6) \<longrightarrow> poisoned env (fasan st') x = poisoned env (fasan st) x)"
proof -
  let ?p = "frame_addr fs c (of_nat i)" and ?M = "MEM_TO_SHADOW (mp env)"
  have f: "frame fs c i" using assms(2) by (simp add: live_frames_def)
  have P: "fs_ok fs" "fs_mapped env fs" "platform_ok env" "can_poison_memory (fasan st)" "saved_ok fs (fmem st)"
    using assms(1) by (simp_all add: pool_ok_def)
  obtain s where s: "SetShadow env ?p sz c kMagic8 (fasan st) = Some s" "can_poison_memory s"
    "\<And>x. shadow s (?M x) = (if granules ?p (?p + (if c \<le> 6 then BytesInSizeClass c else sz)) x then 0xf5 else shadow (fasan st) (?M x))"
    using SetShadow_run [OF P(1,2) f P(3,4) assms(3-5), of "0xf5"] unfolding kMagic8_replicate(1)
    by (auto simp: replicate_byte_def)
  note sub = in_sub_frame [OF P(1) f]
  note full = sub [OF full_frame_size(1) [OF P(1) f] order_refl] and part = sub [OF assms(3,5)]
  have B: "unat (BytesInSizeClass c) = 2 ^ (c + 6)" by (rule unat_BytesInSizeClass [OF frameD(1) [OF P(1) f]])
  have le: "unat sz \<le> 2 ^ (c + 6)" using assms(5) B by (simp add: word_le_nat_alt)
  have "poisoned env s x" if "unat (x - ?p) < unat sz" for x
    using s(3) [of x] that le full part B by (simp add: poisoned_alt)
  moreover have "poisoned env s x = poisoned env (fasan st) x" if "\<not> unat (x - ?p) < 2 ^ (c + 6)" for x
    using s(3) [of x] that le full part B by (simp add: poisoned_alt)
  moreover have "OnFree env ?p c sz st = Some (st\<lparr>fmem := (fmem st)(frame_flag fs c (of_nat i) := 0), fasan := s\<rparr>)"
    using s(1) by (simp add: OnFree_def fs_Deallocate_run [OF P(5) assms(2)])
  ultimately show ?thesis
    using P s(2) live_drop_flag [OF P(1) f] saved_drop_flag [OF P(1) f P(5)]
    by (intro exI [of _ "st\<lparr>fmem := (fmem st)(frame_flag fs c (of_nat i) := 0), fasan := s\<rparr>"]) (auto simp: pool_ok_def)
qed

section \<open>A concrete fake stack\<close>

definition example_fake_mem :: fake_mem where
  "example_fake_mem = \<lparr>fmem = (\<lambda>_. 0), fasan = clean_state\<rparr>"

definition example_taken :: fake_mem where
  "example_taken = example_fake_mem\<lparr>fmem := take_frame example_fake 0 0 0x7fff00000000 (\<lambda>_. 0)\<rparr>"

lemma example_mapped: "fs_mapped x86_64_env example_fake"
  unfolding fs_mapped_def
proof (intro allI impI)
  fix x :: uptr assume "unat (fs_this example_fake) \<le> unat x \<and> unat x \<le> unat (fs_this example_fake) + 2 ^ 32"
  then have "0x10007fff8000 \<le> x" "x \<le> 0x7fffffffffff" by (simp_all add: example_fake_def word_le_nat_alt)
  then show "AddrIsInMem (mp x86_64_env) x" by (simp add: in_mem_eval)
qed

lemma example_pool_ok: "pool_ok x86_64_env example_fake example_fake_mem" "live_frames example_fake (fmem example_fake_mem) = {}"
  using example_fake_ok example_mapped
  by (simp_all add: pool_ok_def example_fake_mem_def clean_state_def saved_ok_def live_frames_def)

lemma example_taken_ok: "pool_ok x86_64_env example_fake example_taken" "live_frames example_fake (fmem example_taken) = {(0, 0)}"
  using live_take_frame [OF example_fake_ok frame_0_0 [OF example_fake_ok]]
    saved_take_frame [OF example_fake_ok frame_0_0 [OF example_fake_ok]] example_pool_ok
  by (simp_all add: pool_ok_def example_taken_def example_fake_mem_def)

theorem fake_stack_malloc_witness:
  "\<exists>p fs' st'. OnMalloc x86_64_env None 0x7fff00000000 0 32 (Some example_fake) example_fake_mem = Some (p, Some fs', st') \<and>
    p \<noteq> 0 \<and> \<not> poisoned x86_64_env (fasan st') (p + 31) \<and> poisoned x86_64_env (fasan st') (p + 32)"
proof -
  have N: "0 < class_frames example_fake 0" using frame_0_0 [OF example_fake_ok] by (simp add: frame_def)
  have "\<exists>p fs' st'. OnMalloc x86_64_env None 0x7fff00000000 0 32 (Some example_fake) example_fake_mem = Some (p, Some fs', st') \<and>
      (\<exists>i. frame example_fake 0 i \<and> p = frame_addr example_fake 0 (of_nat i) \<and>
        (\<forall>x. unat (x - p) < 2 ^ 6 \<longrightarrow> (poisoned x86_64_env (fasan st') x \<longleftrightarrow> \<not> unat (x - p) < 32)))"
    using fake_stack_malloc [where env = x86_64_env and fs = example_fake and st = example_fake_mem and c = 0 and sz = 32 and bounds = None and r = "0x7fff00000000", OF example_pool_ok(1)] N example_pool_ok(2) unat_BytesInSizeClass [of 0]
    by (auto simp: Let_def goffset_def word_le_nat_alt)
  then obtain p fs' st' i where r: "OnMalloc x86_64_env None 0x7fff00000000 0 32 (Some example_fake) example_fake_mem = Some (p, Some fs', st')"
    "frame example_fake 0 i" "p = frame_addr example_fake 0 (of_nat i)"
    "\<And>x. unat (x - p) < 2 ^ 6 \<Longrightarrow> poisoned x86_64_env (fasan st') x \<longleftrightarrow> \<not> unat (x - p) < 32" by blast
  have "p \<noteq> 0" using frame_granule(2) [OF example_fake_ok r(2)] r(3) by (auto simp: unat_eq_0)
  moreover have "\<not> poisoned x86_64_env (fasan st') (p + 31)" "poisoned x86_64_env (fasan st') (p + 32)"
    using r(4) [of "p + 31"] r(4) [of "p + 32"] by simp_all
  ultimately show ?thesis using r(1) by blast
qed

theorem fake_stack_free_witness:
  "\<exists>st'. OnFree x86_64_env (frame_addr example_fake 0 0) 0 32 example_taken = Some st' \<and>
    live_frames example_fake (fmem st') = {} \<and> poisoned x86_64_env (fasan st') (frame_addr example_fake 0 0 + 31)"
proof -
  have "\<exists>st'. OnFree x86_64_env (frame_addr example_fake 0 0) 0 32 example_taken = Some st' \<and>
      live_frames example_fake (fmem st') = {} \<and>
      (\<forall>x. unat (x - frame_addr example_fake 0 0) < 32 \<longrightarrow> poisoned x86_64_env (fasan st') x)"
    using fake_stack_free [where env = x86_64_env and fs = example_fake and st = example_taken and c = 0 and i = 0 and sz = 32, OF example_taken_ok(1)] example_taken_ok(2) unat_BytesInSizeClass [of 0]
    by (auto simp: goffset_def word_le_nat_alt)
  then obtain st' where "OnFree x86_64_env (frame_addr example_fake 0 0) 0 32 example_taken = Some st'"
    "live_frames example_fake (fmem st') = {}"
    "\<And>x. unat (x - frame_addr example_fake 0 0) < 32 \<Longrightarrow> poisoned x86_64_env (fasan st') x" by blast
  then show ?thesis by (intro exI [of _ st']) simp
qed

end
