(* ===== verification/Thread_Arg_Retval.thy ===== *)
theory Thread_Arg_Retval
  imports San_Prelude "HOL-Library.AList"
begin

text \<open>
  \<^verbatim>\<open>ThreadArgRetval\<close> of \<^verbatim>\<open>sanitizer_thread_arg_retval.{h,cpp}\<close>: it keeps the argument, later the return
  value, of every thread that can still be joined, for the leak checker. The map \<^verbatim>\<open>data_\<close> is an
  association list, whose order is the order of \<^verbatim>\<open>forEach\<close>. Every operation runs under the lock of
  the object. The calls \<^verbatim>\<open>fn()\<close> of \<^verbatim>\<open>Create\<close>, \<^verbatim>\<open>Detach\<close> and \<^verbatim>\<open>Join\<close> create, detach or join the thread; the
  operations here are what the object does before and after them.
\<close>

section \<open>Operations\<close>

record Args =
  routine :: uptr
  arg_retval :: uptr

record Data =
  args :: Args
  gen :: u32
  tdetached :: bool
  tdone :: bool

record ThreadArgRetval =
  data :: "(uptr \<times> Data) list"
  next_gen :: u32

definition kInvalidGen :: u32 where "kInvalidGen = 0xffffffff"

definition CreateLocked :: "uptr \<Rightarrow> bool \<Rightarrow> Args \<Rightarrow> ThreadArgRetval \<Rightarrow> ThreadArgRetval" where
  "CreateLocked thread det a t =
     (let d = \<lparr>args = a, gen = next_gen t, tdetached = det, tdone = False\<rparr>;
          g = next_gen t + 1
      in t\<lparr>data := AList.update thread d (data t), next_gen := (if g = kInvalidGen then 0 else g)\<rparr>)"

definition GetArgs :: "uptr \<Rightarrow> ThreadArgRetval \<Rightarrow> Args option" where
  "GetArgs thread t = do {
     d \<leftarrow> map_of (data t) thread;
     Some (if tdone d then \<lparr>routine = 0, arg_retval = 0\<rparr> else args d)
   }"

definition tar_Finish :: "uptr \<Rightarrow> uptr \<Rightarrow> ThreadArgRetval \<Rightarrow> ThreadArgRetval" where
  "tar_Finish thread retval t =
     (case map_of (data t) thread of
        None \<Rightarrow> t
      | Some d \<Rightarrow>
          if tdetached d then t\<lparr>data := AList.delete thread (data t)\<rparr>
          else t\<lparr>data := AList.update thread (d\<lparr>tdone := True, args := (args d)\<lparr>arg_retval := retval\<rparr>\<rparr>) (data t)\<rparr>)"

text \<open>\<^const>\<open>None\<close> is the report of an invalid join, after which the program dies.\<close>

definition BeforeJoin :: "bool \<Rightarrow> uptr \<Rightarrow> ThreadArgRetval \<Rightarrow> u32 option" where
  "BeforeJoin detect_invalid_join thread t =
     (case map_of (data t) thread of
        Some d \<Rightarrow> if \<not> tdetached d then Some (gen d)
          else if \<not> detect_invalid_join then Some kInvalidGen else None
      | None \<Rightarrow> if \<not> detect_invalid_join then Some kInvalidGen else None)"

definition AfterJoin :: "uptr \<Rightarrow> u32 \<Rightarrow> ThreadArgRetval \<Rightarrow> ThreadArgRetval option" where
  "AfterJoin thread g t =
     (case map_of (data t) thread of
        None \<Rightarrow> Some t
      | Some d \<Rightarrow>
          if g \<noteq> gen d then Some t
          else do {
            CHECK (\<not> tdetached d);
            Some (t\<lparr>data := AList.delete thread (data t)\<rparr>)
          })"

definition DetachLocked :: "uptr \<Rightarrow> ThreadArgRetval \<Rightarrow> ThreadArgRetval option" where
  "DetachLocked thread t = do {
     d \<leftarrow> map_of (data t) thread;
     CHECK (\<not> tdetached d);
     Some (if tdone d then t\<lparr>data := AList.delete thread (data t)\<rparr>
           else t\<lparr>data := AList.update thread (d\<lparr>tdetached := True\<rparr>) (data t)\<rparr>)
   }"

definition GetAllPtrsLocked :: "ThreadArgRetval \<Rightarrow> uptr list" where
  "GetAllPtrsLocked t = map (\<lambda>(thread, d). arg_retval (args d)) (data t)"

section \<open>What is kept\<close>

text \<open>The life of threads: each event is what the program does, with the handle it uses. A handle
  may be used again for a new thread once the old one is joined, or detached and finished.\<close>

datatype tar_event =
    Created uptr bool Args
  | Finished uptr uptr
  | Joined uptr
  | Detached uptr

fun tar_step :: "tar_event \<Rightarrow> ThreadArgRetval \<Rightarrow> ThreadArgRetval option" where
  "tar_step (Created thread det a) t = Some (CreateLocked thread det a t)"
| "tar_step (Finished thread retval) t = Some (tar_Finish thread retval t)"
| "tar_step (Joined thread) t = do { g \<leftarrow> BeforeJoin True thread t; AfterJoin thread g t }"
| "tar_step (Detached thread) t = DetachLocked thread t"

text \<open>The specification: the state of the threads whose argument or return value can still be needed.\<close>

datatype tar_status = Running uptr | RunningDetached uptr | Exited uptr

fun spec_step :: "tar_event \<Rightarrow> (uptr \<rightharpoonup> tar_status) \<Rightarrow> (uptr \<rightharpoonup> tar_status) option" where
  "spec_step (Created thread det a) s = Some (s(thread \<mapsto> (if det then RunningDetached else Running) (arg_retval a)))"
| "spec_step (Finished thread retval) s =
     (case s thread of
        Some (RunningDetached _) \<Rightarrow> Some (s(thread := None))
      | Some _ \<Rightarrow> Some (s(thread \<mapsto> Exited retval))
      | None \<Rightarrow> Some s)"
| "spec_step (Joined thread) s =
     (case s thread of
        Some (Running _) \<Rightarrow> Some (s(thread := None))
      | Some (Exited _) \<Rightarrow> Some (s(thread := None))
      | _ \<Rightarrow> None)"
| "spec_step (Detached thread) s =
     (case s thread of
        Some (Running p) \<Rightarrow> Some (s(thread \<mapsto> RunningDetached p))
      | Some (Exited _) \<Rightarrow> Some (s(thread := None))
      | _ \<Rightarrow> None)"

fun status_ptr :: "tar_status \<Rightarrow> uptr" where
  "status_ptr (Running p) = p"
| "status_ptr (RunningDetached p) = p"
| "status_ptr (Exited p) = p"

fun tar_run :: "tar_event list \<Rightarrow> ThreadArgRetval \<Rightarrow> ThreadArgRetval option" where
  "tar_run [] t = Some t"
| "tar_run (e # es) t = do { t \<leftarrow> tar_step e t; tar_run es t }"

fun spec_run :: "tar_event list \<Rightarrow> (uptr \<rightharpoonup> tar_status) \<Rightarrow> (uptr \<rightharpoonup> tar_status) option" where
  "spec_run [] s = Some s"
| "spec_run (e # es) s = do { s \<leftarrow> spec_step e s; spec_run es s }"

definition data_status :: "Data \<Rightarrow> tar_status" where
  "data_status d = (if tdone d then Exited else if tdetached d then RunningDetached else Running) (arg_retval (args d))"

definition tar_rel :: "ThreadArgRetval \<Rightarrow> (uptr \<rightharpoonup> tar_status) \<Rightarrow> bool" where
  "tar_rel t s \<longleftrightarrow> distinct (map fst (data t)) \<and> (\<forall>th. s th = map_option data_status (map_of (data t) th)) \<and>
     (\<forall>th d. map_of (data t) th = Some d \<longrightarrow> \<not> (tdone d \<and> tdetached d))"

definition tar_empty :: ThreadArgRetval where
  "tar_empty = \<lparr>data = [], next_gen = 0\<rparr>"

lemmas tar_data_simps = distinct_update distinct_delete update_conv' delete_conv' update_keys

lemma tar_rel_update:
  assumes "tar_rel t s" and "\<not> (tdone d \<and> tdetached d)"
  shows "tar_rel (t\<lparr>data := AList.update th d (data t), next_gen := g\<rparr>) (s(th \<mapsto> data_status d))"
    and "tar_rel (t\<lparr>data := AList.update th d (data t)\<rparr>) (s(th \<mapsto> data_status d))"
  using assms by (auto simp: tar_rel_def update_conv' distinct_update split: if_splits)

lemma tar_rel_delete:
  assumes "tar_rel t s"
  shows "tar_rel (t\<lparr>data := AList.delete th (data t)\<rparr>) (s(th := None))"
  using assms by (auto simp: tar_rel_def delete_conv' distinct_delete split: if_splits)

lemma tar_relD:
  assumes "tar_rel t s"
  shows "s th = map_option data_status (map_of (data t) th)" and "map_of (data t) th = Some d \<Longrightarrow> \<not> (tdone d \<and> tdetached d)"
  using assms by (auto simp: tar_rel_def)

lemma tar_step_refines:
  assumes "tar_rel t s"
  shows "rel_option tar_rel (tar_step e t) (spec_step e s)"
proof (cases e)
  case (Created th det a)
  let ?d = "\<lparr>args = a, gen = next_gen t, tdetached = det, tdone = False\<rparr>"
  have "data_status ?d = (if det then RunningDetached else Running) (arg_retval a)" by (simp add: data_status_def)
  then show ?thesis using Created tar_rel_update(1) [OF assms, where d = ?d and th = th] by (simp add: CreateLocked_def Let_def)
next
  case (Finished th r)
  show ?thesis
  proof (cases "map_of (data t) th")
    case None
    then show ?thesis using Finished assms tar_relD(1) [OF assms, of th] by (simp add: tar_Finish_def)
  next
    case (Some d)
    let ?d = "d\<lparr>tdone := True, args := (args d)\<lparr>arg_retval := r\<rparr>\<rparr>"
    show ?thesis
    proof (cases "tdetached d")
      case True
      then have "\<not> tdone d" using tar_relD(2) [OF assms Some] by simp
      then show ?thesis using True Some Finished tar_relD(1) [OF assms, of th] tar_rel_delete [OF assms, of th]
        by (simp add: tar_Finish_def data_status_def)
    next
      case False
      then have "tar_rel (t\<lparr>data := AList.update th ?d (data t)\<rparr>) (s(th \<mapsto> Exited r))"
        using tar_rel_update(2) [OF assms, where d = ?d and th = th] by (simp add: data_status_def)
      then show ?thesis using False Some Finished tar_relD(1) [OF assms, of th]
        by (simp add: tar_Finish_def data_status_def)
    qed
  qed
next
  case (Joined th)
  show ?thesis
  proof (cases "map_of (data t) th")
    case None
    then show ?thesis using Joined tar_relD(1) [OF assms, of th] by (simp add: BeforeJoin_def)
  next
    case (Some d)
    then show ?thesis using Joined tar_relD(1) [OF assms, of th] tar_relD(2) [OF assms Some] tar_rel_delete [OF assms, of th]
      by (cases "tdetached d") (simp_all add: BeforeJoin_def AfterJoin_def data_status_def)
  qed
next
  case (Detached th)
  show ?thesis
  proof (cases "map_of (data t) th")
    case None
    then show ?thesis using Detached tar_relD(1) [OF assms, of th] by (simp add: DetachLocked_def)
  next
    case (Some d)
    then show ?thesis
      using Detached tar_relD(1) [OF assms, of th] tar_relD(2) [OF assms Some] tar_rel_delete [OF assms, of th]
        tar_rel_update(2) [OF assms, where d = "d\<lparr>tdetached := True\<rparr>" and th = th]
      by (cases "tdetached d"; cases "tdone d") (simp_all add: DetachLocked_def data_status_def)
  qed
qed

lemma tar_run_refines: "tar_rel t s \<Longrightarrow> rel_option tar_rel (tar_run es t) (spec_run es s)"
proof (induction es arbitrary: t s)
  case (Cons e es)
  from tar_step_refines [OF Cons.prems, of e] show ?case by (cases rule: option.rel_cases) (use Cons.IH in auto)
qed simp


end
