(* ===== verification/Asan_Thread.thy ===== *)
theory Asan_Thread
  imports Fake_Stack Thread_Registry Thread_Arg_Retval
begin

text \<open>
  \<^verbatim>\<open>AsanThread\<close> of \<^verbatim>\<open>asan_thread.{h,cpp}\<close>: the stack bounds of a thread and their change when the program
  switches fibers, its fake stack, the search for the frame of a stack address, and the functions through
  which the leak checker looks at threads. Fake stacks are objects of a store, since the thread, its
  thread-local variable and a suspended fiber may all point to one. A pointer to a fake stack is an address:
  0 is null, and 1 marks a fake stack that is being created. \<^verbatim>\<open>cur\<close> is the address of a local variable,
  from which the code learns on which stack it runs.
\<close>

unbundle bit_operations_syntax

section \<open>State\<close>

record AsanThread =
  at_tid :: nat
  stack_top_ptr :: uptr
  stack_bottom_ptr :: uptr
  next_stack_top :: uptr
  next_stack_bottom :: uptr
  stack_switching :: bool
  tls_begin :: uptr
  tls_end :: uptr
  dtls :: "(uptr \<times> uptr) list option"
  fake_stack_ptr :: uptr

record thread_world =
  tw_mem :: fake_mem
  fakes :: "uptr \<rightharpoonup> FakeStack"
  fake_stack_tls :: uptr

record thread_env =
  te_asan :: asan_env
  min_uar_stack_size_log :: nat
  max_uar_stack_size_log :: nat
  detect_stack_use_after_return :: bool
  flush_shadow :: "uptr \<Rightarrow> uptr \<Rightarrow> asan_state \<Rightarrow> asan_state option"

section \<open>Stack bounds and fibers\<close>

definition GetStackBounds :: "uptr \<Rightarrow> AsanThread \<Rightarrow> uptr \<times> uptr" where
  "GetStackBounds cur t =
     (if \<not> stack_switching t then
        (if stack_bottom_ptr t \<ge> stack_top_ptr t then (0, 0) else (stack_bottom_ptr t, stack_top_ptr t))
      else if cur \<ge> next_stack_bottom t \<and> cur < next_stack_top t then (next_stack_bottom t, next_stack_top t)
      else (stack_bottom_ptr t, stack_top_ptr t))"

definition stack_top :: "uptr \<Rightarrow> AsanThread \<Rightarrow> uptr" where
  "stack_top cur t = snd (GetStackBounds cur t)"

definition stack_bottom :: "uptr \<Rightarrow> AsanThread \<Rightarrow> uptr" where
  "stack_bottom cur t = fst (GetStackBounds cur t)"

definition stack_size :: "uptr \<Rightarrow> AsanThread \<Rightarrow> uptr" where
  "stack_size cur t = (let (b, u) = GetStackBounds cur t in u - b)"

definition AddrIsInStack :: "uptr \<Rightarrow> AsanThread \<Rightarrow> uptr \<Rightarrow> bool" where
  "AddrIsInStack cur t addr = (let (b, u) = GetStackBounds cur t in addr \<ge> b \<and> addr < u)"

definition SetTLSFakeStack :: "uptr \<Rightarrow> thread_world \<Rightarrow> thread_world" where
  "SetTLSFakeStack fs w = w\<lparr>fake_stack_tls := fs\<rparr>"

text \<open>\<^verbatim>\<open>FakeStack::Destroy\<close> unmaps the object: it leaves the store.\<close>

definition destroy_fake :: "thread_env \<Rightarrow> uptr \<Rightarrow> thread_world \<Rightarrow> thread_world option" where
  "destroy_fake env p w = do {
     fs \<leftarrow> fakes w p;
     s \<leftarrow> fs_Destroy (flush_shadow env) (te_asan env) fs (fasan (tw_mem w));
     Some (w\<lparr>tw_mem := (tw_mem w)\<lparr>fasan := s\<rparr>, fakes := (fakes w)(p := None)\<rparr>)
   }"

text \<open>\<open>save\<close> says whether \<open>fake_stack_save\<close> is given; the result is what is stored through it.\<close>

definition StartSwitchFiber ::
  "thread_env \<Rightarrow> bool \<Rightarrow> uptr \<Rightarrow> uptr \<Rightarrow> AsanThread \<Rightarrow> thread_world \<Rightarrow> (uptr option \<times> AsanThread \<times> thread_world) option" where
  "StartSwitchFiber env save bottom sz t w = do {
     CHECK (\<not> stack_switching t);
     let t = t\<lparr>next_stack_bottom := bottom, next_stack_top := bottom + sz, stack_switching := True\<rparr>;
     let current_fake_stack = fake_stack_ptr t;
     let saved = (if save then Some (fake_stack_ptr t) else None);
     let t = t\<lparr>fake_stack_ptr := 0\<rparr>;
     let w = SetTLSFakeStack 0 w;
     w \<leftarrow> (if \<not> save \<and> current_fake_stack \<noteq> 0 then destroy_fake env current_fake_stack w else Some w);
     Some (saved, t, w)
   }"

text \<open>The result also has the old bottom and the old size.\<close>

definition FinishSwitchFiber :: "uptr \<Rightarrow> AsanThread \<Rightarrow> thread_world \<Rightarrow> ((uptr \<times> uptr) \<times> AsanThread \<times> thread_world) option" where
  "FinishSwitchFiber fake_stack_save t w = do {
     CHECK (stack_switching t);
     let (t, w) = (if fake_stack_save \<noteq> 0 then (t\<lparr>fake_stack_ptr := fake_stack_save\<rparr>, SetTLSFakeStack fake_stack_save w) else (t, w));
     let old = (stack_bottom_ptr t, stack_top_ptr t - stack_bottom_ptr t);
     let t = t\<lparr>stack_bottom_ptr := next_stack_bottom t, stack_top_ptr := next_stack_top t\<rparr>;
     let t = t\<lparr>stack_switching := False\<rparr>;
     Some (old, t\<lparr>next_stack_top := 0, next_stack_bottom := 0\<rparr>, w)
   }"

section \<open>Fake stack of a thread\<close>

text \<open>\<open>mapped\<close> is the address of the mapping that \<^verbatim>\<open>FakeStack::Create\<close> makes.\<close>

definition AsyncSignalSafeLazyInitFakeStack ::
  "thread_env \<Rightarrow> uptr \<Rightarrow> uptr \<Rightarrow> AsanThread \<Rightarrow> thread_world \<Rightarrow> (uptr \<times> AsanThread \<times> thread_world) option" where
  "AsyncSignalSafeLazyInitFakeStack env mapped cur t w =
     (if stack_size cur t = 0 then Some (0, t, w)
      else if fake_stack_ptr t = 0 then do {
        r \<leftarrow> RoundUpToPowerOfTwo (stack_size cur t);
        l \<leftarrow> Log2 r;
        CHECK (min_uar_stack_size_log env \<le> max_uar_stack_size_log env);
        let l = min l (max_uar_stack_size_log env);
        let l = max l (min_uar_stack_size_log env);
        let (fs, m) = fs_Create mapped l (tw_mem w);
        let w = w\<lparr>tw_mem := m, fakes := (fakes w)(mapped \<mapsto> fs)\<rparr>;
        let t = t\<lparr>fake_stack_ptr := mapped\<rparr>;
        Some (mapped, t, SetTLSFakeStack mapped w)
      } else Some (0, t, w))"

definition get_fake_stack :: "AsanThread \<Rightarrow> uptr" where
  "get_fake_stack t = (if stack_switching t then 0 else if fake_stack_ptr t \<le> 1 then 0 else fake_stack_ptr t)"

definition get_or_create_fake_stack ::
  "thread_env \<Rightarrow> uptr \<Rightarrow> uptr \<Rightarrow> AsanThread \<Rightarrow> thread_world \<Rightarrow> (uptr \<times> AsanThread \<times> thread_world) option" where
  "get_or_create_fake_stack env mapped cur t w =
     (if stack_switching t then Some (0, t, w)
      else if fake_stack_ptr t \<le> 1 then AsyncSignalSafeLazyInitFakeStack env mapped cur t w
      else Some (fake_stack_ptr t, t, w))"

definition DeleteFakeStack :: "thread_env \<Rightarrow> AsanThread \<Rightarrow> thread_world \<Rightarrow> (AsanThread \<times> thread_world) option" where
  "DeleteFakeStack env t w =
     (if fake_stack_ptr t = 0 then Some (t, w)
      else do {
        let p = fake_stack_ptr t;
        w \<leftarrow> destroy_fake env p (SetTLSFakeStack 0 w);
        Some (t\<lparr>fake_stack_ptr := 0\<rparr>, w)
      })"

text \<open>\<^verbatim>\<open>GetFakeStackFast\<close> and \<^verbatim>\<open>GetFakeStackFastAlways\<close>, for the current thread if there is one.\<close>

definition GetFakeStackFast ::
  "thread_env \<Rightarrow> bool \<Rightarrow> uptr \<Rightarrow> uptr \<Rightarrow> AsanThread option \<Rightarrow> thread_world \<Rightarrow> (uptr \<times> AsanThread option \<times> thread_world) option" where
  "GetFakeStackFast env always mapped cur t w =
     (if fake_stack_tls w \<noteq> 0 then Some (fake_stack_tls w, t, w)
      else if \<not> always \<and> \<not> detect_stack_use_after_return env then Some (0, t, w)
      else (case t of
          None \<Rightarrow> Some (0, None, w)
        | Some t \<Rightarrow> do { (p, t, w) \<leftarrow> get_or_create_fake_stack env mapped cur t w; Some (p, Some t, w) }))"

text \<open>\<^verbatim>\<open>__asan_stack_malloc_N\<close> and \<^verbatim>\<open>__asan_stack_malloc_always_N\<close> of the current thread.\<close>

definition asan_stack_malloc ::
  "thread_env \<Rightarrow> bool \<Rightarrow> uptr \<Rightarrow> uptr \<Rightarrow> nat \<Rightarrow> uptr \<Rightarrow> AsanThread option \<Rightarrow> thread_world \<Rightarrow>
     (uptr \<times> AsanThread option \<times> thread_world) option" where
  "asan_stack_malloc env always mapped cur class_id sz t w = do {
     (p, t, w) \<leftarrow> GetFakeStackFast env always mapped cur t w;
     if p = 0 then Some (0, t, w)
     else do {
       fs \<leftarrow> fakes w p;
       (ff, fs', m) \<leftarrow> OnMalloc (te_asan env) (map_option (GetStackBounds cur) t) cur class_id sz (Some fs) (tw_mem w);
       Some (ff, t, w\<lparr>tw_mem := m, fakes := (fakes w)(p := fs')\<rparr>)
     }
   }"

definition asan_stack_free :: "thread_env \<Rightarrow> uptr \<Rightarrow> nat \<Rightarrow> uptr \<Rightarrow> thread_world \<Rightarrow> thread_world option" where
  "asan_stack_free env ptr class_id sz w = do {
     m \<leftarrow> OnFree (te_asan env) ptr class_id sz (tw_mem w);
     Some (w\<lparr>tw_mem := m\<rparr>)
   }"

section \<open>Start of a thread\<close>

definition ClearShadowForThreadStackAndTLS :: "thread_env \<Rightarrow> AsanThread \<Rightarrow> asan_state \<Rightarrow> asan_state option" where
  "ClearShadowForThreadStackAndTLS env t s = do {
     s \<leftarrow> (if stack_top_ptr t \<noteq> stack_bottom_ptr t
           then PoisonShadow (te_asan env) (stack_bottom_ptr t) (stack_top_ptr t - stack_bottom_ptr t) 0 s else Some s);
     if tls_begin t \<noteq> tls_end t then do {
       let tls_begin_aligned = RoundDownTo (tls_begin t) ASAN_SHADOW_GRANULARITY;
       tls_end_aligned \<leftarrow> RoundUpTo (tls_end t) ASAN_SHADOW_GRANULARITY;
       FastPoisonShadow (te_asan env) tls_begin_aligned (tls_end_aligned - tls_begin_aligned) 0 s
     } else Some s
   }"

text \<open>What the platform says about the thread: bottom and top of the stack, the TLS range, the
  dynamic TLS blocks.\<close>

record platform_ranges =
  pr_stack :: "uptr \<times> uptr"
  pr_tls :: "uptr \<times> uptr"
  pr_dtls :: "(uptr \<times> uptr) list option"

definition SetThreadStackAndTls :: "platform_ranges \<Rightarrow> uptr \<Rightarrow> AsanThread \<Rightarrow> AsanThread option" where
  "SetThreadStackAndTls pr cur t = do {
     let (bottom, upper) = pr_stack pr;
     let t = t\<lparr>tls_begin := fst (pr_tls pr), tls_end := snd (pr_tls pr)\<rparr>;
     let t = t\<lparr>stack_top_ptr := RoundDownTo upper ASAN_SHADOW_GRANULARITY,
               stack_bottom_ptr := RoundDownTo bottom ASAN_SHADOW_GRANULARITY, dtls := pr_dtls pr\<rparr>;
     CHECK (stack_top_ptr t \<noteq> stack_bottom_ptr t \<longrightarrow> AddrIsInStack cur t cur);
     Some t
   }"

text \<open>\<open>is_current\<close> says that the initialised thread is the one that runs.\<close>

definition at_Init ::
  "thread_env \<Rightarrow> platform_ranges \<Rightarrow> uptr \<Rightarrow> uptr \<Rightarrow> bool \<Rightarrow> AsanThread \<Rightarrow> thread_world \<Rightarrow> (AsanThread \<times> thread_world) option" where
  "at_Init env pr mapped cur is_current t w = do {
     let t = t\<lparr>next_stack_top := 0, next_stack_bottom := 0, stack_switching := False\<rparr>;
     CHECK (stack_size cur t = 0);
     t \<leftarrow> SetThreadStackAndTls pr cur t;
     CHECK (stack_top_ptr t \<noteq> stack_bottom_ptr t \<longrightarrow>
       stack_size cur t > 0 \<and> AddrIsInMem (mp (te_asan env)) (stack_bottom_ptr t) \<and> AddrIsInMem (mp (te_asan env)) (stack_top_ptr t - 1));
     s \<leftarrow> ClearShadowForThreadStackAndTLS env t (fasan (tw_mem w));
     let w = w\<lparr>tw_mem := (tw_mem w)\<lparr>fasan := s\<rparr>\<rparr>;
     let t = t\<lparr>fake_stack_ptr := 0\<rparr>;
     if detect_stack_use_after_return env \<and> is_current then do {
       (p, t, w) \<leftarrow> AsyncSignalSafeLazyInitFakeStack env mapped cur t w;
       Some (t, w)
     } else Some (t, w)
   }"

definition ThreadStart ::
  "thread_env \<Rightarrow> platform_ranges \<Rightarrow> uptr \<Rightarrow> uptr \<Rightarrow> nat \<Rightarrow> AsanThread \<Rightarrow> thread_world \<Rightarrow> Registry \<Rightarrow> (AsanThread \<times> thread_world \<times> Registry) option" where
  "ThreadStart env pr mapped cur os t w r = do {
     (t, w) \<leftarrow> at_Init env pr mapped cur True t w;
     r \<leftarrow> StartThread (at_tid t) os Regular r;
     Some (t, w, r)
   }"

section \<open>Frames and variables of a stack address\<close>

record StackFrameAccess =
  sfa_offset :: uptr
  frame_pc :: uptr
  frame_descr :: uptr

text \<open>The loops move the shadow pointer down while it is above the bottom and the shadow byte satisfies \<open>go\<close>.\<close>

function shadow_down :: "(u8 \<Rightarrow> bool) \<Rightarrow> mem \<Rightarrow> uptr \<Rightarrow> uptr \<Rightarrow> uptr" where
  \<comment> \<open>shadow memory does not begin at address 0\<close>
  "shadow_down go sh bottom p =
     (if p \<ge> bottom \<and> p \<noteq> 0 \<and> go (sh p) then shadow_down go sh bottom (p - 1) else p)"
  by pat_completeness auto
termination
  by (relation "measure (\<lambda>(go, sh, bottom, p). unat p)") (auto simp: unat_minus_1 unat_gt_0)

declare shadow_down.simps [simp del]

definition GetStackFrameAccessByAddr ::
  "thread_env \<Rightarrow> uptr \<Rightarrow> uptr \<Rightarrow> AsanThread \<Rightarrow> thread_world \<Rightarrow> StackFrameAccess option option" where
  "GetStackFrameAccessByAddr env cur addr t w =
     (let m = fmem (tw_mem w); sh = shadow (fasan (tw_mem w)) in
      if stack_top_ptr t = stack_bottom_ptr t then Some None
      else if \<not> AddrIsInStack cur t addr \<and> get_fake_stack t \<noteq> 0 then do {
        fs \<leftarrow> fakes w (get_fake_stack t);
        bottom \<leftarrow> AddrIsInFakeStack fs addr;
        CHECK (bottom \<noteq> 0);
        Some (Some \<lparr>sfa_offset = addr - bottom, frame_pc = load64 m (bottom + 16), frame_descr = load64 m (bottom + 8)\<rparr>)
      } else do {
        let bottom = (if AddrIsInStack cur t addr then stack_bottom cur t else 0);
        let aligned_addr = RoundDownTo addr 8;
        let mem_ptr = RoundDownTo aligned_addr ASAN_SHADOW_GRANULARITY;
        shadow_ptr \<leftarrow> MemToShadow (mp (te_asan env)) aligned_addr;
        shadow_bottom \<leftarrow> MemToShadow (mp (te_asan env)) bottom;
        let p1 = shadow_down (\<lambda>v. v \<noteq> kAsanStackLeftRedzoneMagic) sh shadow_bottom shadow_ptr;
        let p2 = shadow_down (\<lambda>v. v = kAsanStackLeftRedzoneMagic) sh shadow_bottom p1;
        let mem_ptr = mem_ptr - ASAN_SHADOW_GRANULARITY * (shadow_ptr - p2);
        if p2 < shadow_bottom then Some None
        else do {
          let ptr = mem_ptr + ASAN_SHADOW_GRANULARITY;
          CHECK (load64 m ptr = kCurrentStackFrameMagic);
          Some (Some \<lparr>sfa_offset = addr - ptr, frame_pc = load64 m (ptr + 16), frame_descr = load64 m (ptr + 8)\<rparr>)
        }
      })"

definition GetStackVariableShadowStart :: "thread_env \<Rightarrow> uptr \<Rightarrow> uptr \<Rightarrow> AsanThread \<Rightarrow> thread_world \<Rightarrow> uptr option" where
  "GetStackVariableShadowStart env cur addr t w = do {
     bottom \<leftarrow> (if AddrIsInStack cur t addr then Some (Some (stack_bottom cur t))
       else if get_fake_stack t \<noteq> 0 then do {
         fs \<leftarrow> fakes w (get_fake_stack t);
         b \<leftarrow> AddrIsInFakeStack fs addr;
         Some (if b = 0 then None else Some b)
       } else Some None);
     (case bottom of
        None \<Rightarrow> Some 0
      | Some bottom \<Rightarrow> do {
          let aligned_addr = RoundDownTo addr 8;
          shadow_ptr \<leftarrow> MemToShadow (mp (te_asan env)) aligned_addr;
          shadow_bottom \<leftarrow> MemToShadow (mp (te_asan env)) bottom;
          Some (shadow_down (\<lambda>v. v \<noteq> kAsanStackLeftRedzoneMagic \<and> v \<noteq> kAsanStackMidRedzoneMagic \<and> v \<noteq> kAsanStackRightRedzoneMagic)
            (shadow (fasan (tw_mem w))) shadow_bottom shadow_ptr + 1)
        })
   }"

section \<open>Threads of the registry\<close>

text \<open>\<open>ths\<close> gives the \<^verbatim>\<open>AsanThread\<close> that the context of a tid points to; a finished thread has none.\<close>

definition ThreadStackContainsAddress ::
  "uptr \<Rightarrow> (nat \<rightharpoonup> AsanThread) \<Rightarrow> thread_world \<Rightarrow> uptr \<Rightarrow> ThreadContext \<Rightarrow> bool" where
  "ThreadStackContainsAddress cur ths w addr c =
     (case ths (tid c) of
        None \<Rightarrow> False
      | Some t \<Rightarrow> AddrIsInStack cur t addr \<or>
          (case fakes w (get_fake_stack t) of
             None \<Rightarrow> False
           | Some fs \<Rightarrow> get_fake_stack t \<noteq> 0 \<and> (case AddrIsInFakeStack fs addr of Some p \<Rightarrow> p \<noteq> 0 | None \<Rightarrow> False)))"

definition FindThreadByStackAddress ::
  "uptr \<Rightarrow> (nat \<rightharpoonup> AsanThread) \<Rightarrow> thread_world \<Rightarrow> uptr \<Rightarrow> Registry \<Rightarrow> AsanThread option" where
  "FindThreadByStackAddress cur ths w addr r = do {
     c \<leftarrow> FindThreadContextLocked (ThreadStackContainsAddress cur ths w addr) r;
     ths (tid c)
   }"

definition GetAsanThreadByOsIDLocked :: "(nat \<rightharpoonup> AsanThread) \<Rightarrow> nat \<Rightarrow> Registry \<Rightarrow> AsanThread option" where
  "GetAsanThreadByOsIDLocked ths os r = do {
     c \<leftarrow> FindThreadContextByOsIDLocked os r;
     ths (tid c)
   }"

record thread_ranges =
  tr_stack :: "uptr \<times> uptr"
  tr_tls :: "uptr \<times> uptr"
  tr_cache :: "uptr \<times> uptr"
  tr_dtls :: "(uptr \<times> uptr) list option"

definition GetThreadRangesLocked :: "uptr \<Rightarrow> (nat \<rightharpoonup> AsanThread) \<Rightarrow> Registry \<Rightarrow> nat \<Rightarrow> thread_ranges option" where
  "GetThreadRangesLocked cur ths r os = do {
     t \<leftarrow> GetAsanThreadByOsIDLocked ths os r;
     Some \<lparr>tr_stack = (stack_bottom cur t, stack_top cur t), tr_tls = (tls_begin t, tls_end t), tr_cache = (0, 0),
       tr_dtls = dtls t\<rparr>
   }"

definition GetThreadExtraStackRangesLocked :: "(nat \<rightharpoonup> AsanThread) \<Rightarrow> thread_world \<Rightarrow> Registry \<Rightarrow> nat \<Rightarrow> (uptr \<times> uptr) list" where
  "GetThreadExtraStackRangesLocked ths w r os =
     (case GetAsanThreadByOsIDLocked ths os r of
        None \<Rightarrow> []
      | Some t \<Rightarrow> (case (if get_fake_stack t = 0 then None else fakes w (get_fake_stack t)) of
          None \<Rightarrow> []
        | Some fs \<Rightarrow> ForEachFakeFrame fs (fmem (tw_mem w))))"

definition GetRunningThreadsLocked :: "Registry \<Rightarrow> nat list" where
  "GetRunningThreadsLocked r = map os_id (filter (\<lambda>c. status c = StatusRunning) (threads r))"

definition EnsureMainThreadIDIsCorrect :: "nat option \<Rightarrow> nat \<Rightarrow> Registry \<Rightarrow> Registry option" where
  "EnsureMainThreadIDIsCorrect current os r =
     (if current = Some kMainTid then do {
        c \<leftarrow> get_ctx r kMainTid;
        Some (set_ctx kMainTid (c\<lparr>os_id := os\<rparr>) r)
      } else Some r)"

end
