(* ===== verification/Marking.thy ===== *)
theory Marking
  imports San_Prelude
begin

text \<open>
  The interface of a marking phase: a scan of an object marks its successors and appends those
  that were not marked before to the frontier. Any loop that scans the last object of the frontier
  until the frontier is empty then terminates with the closure of the marked objects under successors marked.
\<close>

locale marking =
  fixes scan :: "'c::finite \<Rightarrow> 's \<Rightarrow> 'c list \<Rightarrow> ('s \<times> 'c list) option"
    and flood :: "'s \<Rightarrow> 'c list \<Rightarrow> 's option"
    and marked :: "'s \<Rightarrow> 'c set"
    and succs :: "'c \<Rightarrow> 'c set"
    and inv :: "'s \<Rightarrow> bool"
  assumes scan_marks: "inv s \<Longrightarrow> c \<in> marked s \<Longrightarrow>
      \<exists>s' new. scan c s fr = Some (s', fr @ new) \<and> inv s' \<and> marked s' = marked s \<union> succs c \<and> set new = succs c - marked s"
    and flood_Nil: "flood s [] = Some s"
    and flood_step: "fr \<noteq> [] \<Longrightarrow> flood s fr = Option.bind (scan (last fr) s (butlast fr)) (\<lambda>(s, fr). flood s fr)"
begin

definition edges :: "('c \<times> 'c) set" where
  "edges = {(c, d). d \<in> succs c}"

lemma closed_closure:
  assumes "edges `` M \<subseteq> M"
  shows "edges\<^sup>* `` M = M"
  using assms by (simp add: Image_closed_trancl)

lemma closure_step:
  assumes "M \<subseteq> N" and "N \<subseteq> edges\<^sup>* `` M"
  shows "edges\<^sup>* `` N = edges\<^sup>* `` M"
proof
  show "edges\<^sup>* `` M \<subseteq> edges\<^sup>* `` N" using assms(1) by blast
  have "edges\<^sup>* `` N \<subseteq> edges\<^sup>* `` (edges\<^sup>* `` M)" using assms(2) by blast
  also have "\<dots> = edges\<^sup>* `` M" by (metis relcomp_Image rtrancl_idemp_self_comp)
  finally show "edges\<^sup>* `` N \<subseteq> edges\<^sup>* `` M" .
qed

lemma flood_closure:
  assumes "inv s" and "set fr \<subseteq> marked s" and "\<And>c. c \<in> marked s \<Longrightarrow> c \<notin> set fr \<Longrightarrow> succs c \<subseteq> marked s"
  shows "\<exists>s'. flood s fr = Some s' \<and> inv s' \<and> marked s' = edges\<^sup>* `` marked s"
  using assms
proof (induction "(card (- marked s), length fr)" arbitrary: s fr rule: wf_induct [OF wf_lex_prod [OF wf_less wf_less]])
  case 1
  show ?case
  proof (cases "fr = []")
    case True
    have "edges `` marked s \<subseteq> marked s" using 1(4) True by (auto simp: edges_def)
    then show ?thesis using True 1(2) flood_Nil by (simp add: closed_closure)
  next
    case False
    let ?c = "last fr"
    have c: "?c \<in> marked s" using False 1(3) last_in_set by blast
    obtain s1 new where r: "scan ?c s (butlast fr) = Some (s1, butlast fr @ new)" "inv s1"
      "marked s1 = marked s \<union> succs ?c" "set new = succs ?c - marked s"
      using scan_marks [OF 1(2) c, of "butlast fr"] by blast
    have fr: "set fr = insert ?c (set (butlast fr))" using False by (cases fr rule: rev_cases) simp_all
    have "((card (- marked s1), length (butlast fr @ new)), card (- marked s), length fr) \<in> {(x, y). x < y} <*lex*> {(x, y). x < y}"
    proof (cases "set new = {}")
      case True
      then have "marked s1 = marked s" using r(3,4) by auto
      then show ?thesis using True False by simp
    next
      case False
      then obtain d where "d \<in> succs ?c" "d \<notin> marked s" using r(4) by auto
      then have "- marked s1 \<subset> - marked s" unfolding r(3) by auto
      then show ?thesis using psubset_card_mono [of "- marked s"] by simp
    qed
    moreover have "set (butlast fr @ new) \<subseteq> marked s1" using fr 1(3) r(3,4) by auto
    moreover have "succs d \<subseteq> marked s1" if "d \<in> marked s1" "d \<notin> set (butlast fr @ new)" for d
      using that fr 1(4) r(3,4) by auto
    ultimately obtain s' where s': "flood s1 (butlast fr @ new) = Some s'" "inv s'" "marked s' = edges\<^sup>* `` marked s1"
      using 1(1) r(2) by blast
    have "marked s1 \<subseteq> edges\<^sup>* `` marked s" using r(3) c by (auto simp: edges_def intro: rtrancl_into_rtrancl)
    then have "edges\<^sup>* `` marked s1 = edges\<^sup>* `` marked s" using r(3) by (intro closure_step) auto
    then show ?thesis using s' flood_step [OF False] r(1) by simp
  qed
qed

end

end
