(* ===== verification/Lsan.thy ===== *)
theory Lsan
  imports Asan_Heap Asan_Thread San_Range
begin

text \<open>
  The leak checker, \<^verbatim>\<open>lsan_common.{h,cpp}\<close> with the Linux parts of \<^verbatim>\<open>lsan_common_linux.cpp\<close>, over the
  AddressSanitizer allocator and threads. It runs while all threads are stopped: it tags every chunk that the
  program can still reach from globals, stacks, registers, thread-local storage and registered root regions,
  and collects the others. The tags live in the chunk headers of the heap; the frontier is a vector
  of chunk addresses. What the operating system and the dynamic linker report (program headers, mapped segments,
  suspended threads and their registers, readability of memory) is given by the record \<open>lsan_env\<close>.
\<close>

unbundle bit_operations_syntax

section \<open>State and environment\<close>

definition kIndirectlyLeaked :: nat where "kIndirectlyLeaked = 1"
definition kReachable :: nat where "kReachable = 2"

record lsan_flags =
  report_objects :: bool
  resolution :: nat
  max_leaks :: nat
  use_globals :: bool
  use_stacks :: bool
  use_registers :: bool
  use_tls :: bool
  use_root_regions :: bool
  use_ld_allocations :: bool
  use_unaligned :: bool
  use_poisoned :: bool
  use_detached :: bool
  tries :: nat
  thread_suspend_fail :: nat

definition lsan_SetDefaults :: lsan_flags where
  "lsan_SetDefaults = \<lparr>report_objects = False, resolution = 0, max_leaks = 0, use_globals = True, use_stacks = True,
     use_registers = True, use_tls = True, use_root_regions = True, use_ld_allocations = True, use_unaligned = False,
     use_poisoned = False, use_detached = False, tries = 1, thread_suspend_fail = 1\<rparr>"

definition pointer_alignment :: "lsan_flags \<Rightarrow> uptr" where
  "pointer_alignment f = (if use_unaligned f then 1 else 8)"

record Phdr =
  p_writable :: bool
  p_load :: bool
  p_vaddr :: uptr
  p_memsz :: uptr

datatype PtraceRegistersStatus = REGISTERS_AVAILABLE | REGISTERS_UNAVAILABLE | REGISTERS_UNAVAILABLE_FATAL

text \<open>A suspended thread: its id, whether its registers were read, the vector that holds them
  (its bounds and its bytes), and its stack pointer.\<close>

record suspended =
  su_tid :: nat
  su_status :: PtraceRegistersStatus
  su_regs :: "uptr \<times> uptr"
  su_reg_bytes :: mem
  su_sp :: uptr

record lsan_env =
  le_env :: alloc_env
  le_flags :: lsan_flags
  le_low :: lower
  le_chunks :: "uptr list"
  le_allocator_range :: "uptr \<times> uptr"
  le_modules :: "(uptr \<times> Phdr list) list"
  le_segments :: "((uptr \<times> uptr) \<times> bool) list"
  le_root_regions :: "((uptr \<times> uptr) \<times> uptr) list"
  le_suspended :: "suspended list"
  le_registry :: Registry
  le_threads :: "nat \<rightharpoonup> AsanThread"
  le_fakes :: "uptr \<rightharpoonup> FakeStack"
  le_args :: ThreadArgRetval
  le_cur :: uptr
  le_caller :: "nat \<times> uptr"
  le_accessible :: "uptr \<Rightarrow> bool"
  le_try_copy :: "uptr \<Rightarrow> uptr \<Rightarrow> bool"
  le_suppressed :: "u32 list"

section \<open>Copying memory that may be unreadable\<close>

text \<open>\<^verbatim>\<open>MemCpyAccessible\<close> of \<^verbatim>\<open>sanitizer_common_libcdep.cpp\<close>. \<open>ok b n\<close> says whether \<^verbatim>\<open>TryMemCpy\<close> can read \<open>n\<close> bytes
  at \<open>b\<close>; when it fails the bytes it may have written are overwritten by what follows. \<open>src\<close> is read from \<open>m\<close>,
  the destination \<open>d\<close> lies in \<open>buf\<close>.\<close>

definition copy_bytes :: "mem \<Rightarrow> uptr \<Rightarrow> uptr \<Rightarrow> uptr \<Rightarrow> mem \<Rightarrow> mem" where
  "copy_bytes m d b n buf = (\<lambda>q. if q - d < n then m (b + (q - d)) else buf q)"

definition copy_or_zero :: "(uptr \<Rightarrow> uptr \<Rightarrow> bool) \<Rightarrow> mem \<Rightarrow> uptr \<Rightarrow> uptr \<Rightarrow> uptr \<Rightarrow> uptr \<Rightarrow> mem \<Rightarrow> mem" where
  "copy_or_zero ok m dest src b e buf =
     (let d = dest + (b - src); n = e - b in
      if n = 0 \<or> ok b n then copy_bytes m d b n buf else memset buf d 0 n)"

function copy_pages :: "(uptr \<Rightarrow> uptr \<Rightarrow> bool) \<Rightarrow> mem \<Rightarrow> uptr \<Rightarrow> uptr \<Rightarrow> uptr \<Rightarrow> uptr \<Rightarrow> uptr \<Rightarrow> mem \<Rightarrow> mem" where
  \<comment> \<open>\<open>p\<close> and \<open>e_down\<close> are multiples of the page size, so the pointer does not wrap\<close>
  "copy_pages ok m dest src page p e_down buf =
     (if p < e_down \<and> p < p + page
      then copy_pages ok m dest src page (p + page) e_down (copy_or_zero ok m dest src p (p + page) buf)
      else buf)"
  by pat_completeness auto
termination
  by (relation "measure (\<lambda>(ok, m, dest, src, page, p, e_down, buf). unat e_down - unat p)")
    (auto simp: word_less_nat_alt)

declare copy_pages.simps [simp del]

definition MemCpyAccessible :: "(uptr \<Rightarrow> uptr \<Rightarrow> bool) \<Rightarrow> uptr \<Rightarrow> mem \<Rightarrow> uptr \<Rightarrow> uptr \<Rightarrow> uptr \<Rightarrow> mem \<Rightarrow> mem option" where
  "MemCpyAccessible ok page m dest src n buf =
     (if n = 0 \<or> ok src n then Some (copy_bytes m dest src n buf)
      else do {
        let b = src;
        b_up \<leftarrow> RoundUpTo b page;
        let e = src + n;
        let e_down = RoundDownTo e page;
        let buf = copy_or_zero ok m dest src b b_up buf;
        let buf = copy_pages ok m dest src page b_up e_down buf;
        Some (copy_or_zero ok m dest src e_down e buf)
      })"

section \<open>Scanning memory\<close>

definition MaybeUserPointer :: "uptr \<Rightarrow> bool" where
  \<comment> \<open>x86-64\<close>
  "MaybeUserPointer p =
     (let kMinAddress = 4 * 4096; kLAM_U57Mask = 0x81ff80; kPointerMask = push_bit 40 kLAM_U57Mask
      in if p < kMinAddress then False else p AND kPointerMask = 0)"

text \<open>The accessors: \<^verbatim>\<open>Init\<close> for a range gives \<^verbatim>\<open>LoadPtr\<close>. The buffer of the copying one begins at \<^verbatim>\<open>data()\<close>,
  address 0 of a memory of its own.\<close>

datatype Accessor = DirectMemoryAccessor | CopyMemoryAccessor

definition accessor_Init :: "lsan_env \<Rightarrow> Accessor \<Rightarrow> uptr \<Rightarrow> uptr \<Rightarrow> mem \<Rightarrow> mem option" where
  "accessor_Init env acc b e m =
     (case acc of DirectMemoryAccessor \<Rightarrow> Some m
      | CopyMemoryAccessor \<Rightarrow> MemCpyAccessible (le_try_copy env) (page_size (ae (le_env env))) m 0 b (e - b) (\<lambda>_. 0))"

definition accessor_LoadPtr :: "Accessor \<Rightarrow> uptr \<Rightarrow> uptr \<Rightarrow> mem \<Rightarrow> uptr \<Rightarrow> uptr option" where
  "accessor_LoadPtr acc b e m p =
     (case acc of DirectMemoryAccessor \<Rightarrow> Some (load64 m p)
      | CopyMemoryAccessor \<Rightarrow> do {
          let off = p - b;
          CHECK (off + 8 \<le> e - b);
          Some (load64 m off)
        })"

type_synonym scan_state = "heap \<times> uptr list option"

text \<open>The body of the loop of \<^verbatim>\<open>ScanForPointers\<close>: one word, at \<open>pp\<close>.\<close>

definition scan_word :: "lsan_env \<Rightarrow> (uptr \<Rightarrow> uptr option) \<Rightarrow> uptr \<Rightarrow> nat \<Rightarrow> uptr \<Rightarrow> scan_state \<Rightarrow> scan_state option" where
  "scan_word env load begin_addr tag pp s = do {
     let (st, frontier) = s;
     p \<leftarrow> load pp;
     if \<not> MaybeUserPointer p then Some s
     else do {
       let chk = PointsIntoChunk (le_low env) st p;
       if chk = 0 then Some s
       else if chk = begin_addr then Some s
       else do {
         let m = LsanMetadata chk;
         let t = lsan_tag (header st m);
         if t = kReachable \<or> t = kIgnored then Some s
         else do {
           skip \<leftarrow> (if use_poisoned (le_flags env) then Some False else WordIsPoisoned (ae (le_env env)) (hs st) pp);
           if skip then Some s
           else Some (metadata_set_tag tag m st, map_option (\<lambda>f. f @ [chk]) frontier)
         }
       }
     }
   }"

partial_function (option) scan_loop ::
  "lsan_env \<Rightarrow> (uptr \<Rightarrow> uptr option) \<Rightarrow> uptr \<Rightarrow> nat \<Rightarrow> uptr \<Rightarrow> uptr \<Rightarrow> scan_state \<Rightarrow> scan_state option" where
  "scan_loop env load begin_addr tag e pp s =
     (if pp + 8 \<le> e then do {
        s \<leftarrow> scan_word env load begin_addr tag pp s;
        scan_loop env load begin_addr tag e (pp + pointer_alignment (le_flags env)) s
      } else Some s)"

definition ScanForPointers :: "lsan_env \<Rightarrow> uptr \<Rightarrow> uptr \<Rightarrow> nat \<Rightarrow> Accessor \<Rightarrow> mem \<Rightarrow> scan_state \<Rightarrow> scan_state option" where
  "ScanForPointers env b e tag acc m s = do {
     CHECK (tag = kReachable \<or> tag = kIndirectlyLeaked);
     let alignment = pointer_alignment (le_flags env);
     m \<leftarrow> accessor_Init env acc b e m;
     let pp = (if b mod alignment \<noteq> 0 then b + alignment - b mod alignment else b);
     scan_loop env (accessor_LoadPtr acc b e m) b tag e pp s
   }"

definition ScanRangeForPointers :: "lsan_env \<Rightarrow> uptr \<Rightarrow> uptr \<Rightarrow> nat \<Rightarrow> scan_state \<Rightarrow> scan_state option" where
  "ScanRangeForPointers env b e tag s = ScanForPointers env b e tag DirectMemoryAccessor (hmem (fst s)) s"

definition ScanGlobalRange :: "lsan_env \<Rightarrow> uptr \<Rightarrow> uptr \<Rightarrow> scan_state \<Rightarrow> scan_state option" where
  "ScanGlobalRange env b e s =
     (let (allocator_begin, allocator_end) = le_allocator_range env in
      if b \<le> allocator_begin \<and> allocator_begin < e then do {
        CHECK (allocator_begin \<le> allocator_end);
        CHECK (allocator_end \<le> e);
        s \<leftarrow> (if b < allocator_begin then ScanRangeForPointers env b allocator_begin kReachable s else Some s);
        if allocator_end < e then ScanRangeForPointers env allocator_end e kReachable s else Some s
      } else ScanRangeForPointers env b e kReachable s)"

fun ScanRanges :: "lsan_env \<Rightarrow> Accessor \<Rightarrow> (uptr \<times> uptr) list \<Rightarrow> scan_state \<Rightarrow> scan_state option" where
  "ScanRanges env acc [] s = Some s"
| "ScanRanges env acc ((b, e) # rs) s = do {
     s \<leftarrow> ScanForPointers env b e kReachable acc (hmem (fst s)) s;
     ScanRanges env acc rs s
   }"

section \<open>Global variables\<close>

fun scan_phdrs :: "lsan_env \<Rightarrow> uptr \<Rightarrow> Phdr list \<Rightarrow> scan_state \<Rightarrow> scan_state option" where
  "scan_phdrs env dlpi_addr [] s = Some s"
| "scan_phdrs env dlpi_addr (ph # phs) s =
     (if \<not> p_writable ph \<or> \<not> p_load ph \<or> p_memsz ph = 0 then scan_phdrs env dlpi_addr phs s
      else do {
        let b = dlpi_addr + p_vaddr ph;
        let e = b + p_memsz ph;
        s \<leftarrow> ScanGlobalRange env b e s;
        scan_phdrs env dlpi_addr phs s
      })"

fun scan_modules :: "lsan_env \<Rightarrow> (uptr \<times> Phdr list) list \<Rightarrow> scan_state \<Rightarrow> scan_state option" where
  "scan_modules env [] s = Some s"
| "scan_modules env ((a, phs) # ms) s = do { s \<leftarrow> scan_phdrs env a phs s; scan_modules env ms s }"

definition ProcessGlobalRegions :: "lsan_env \<Rightarrow> scan_state \<Rightarrow> scan_state option" where
  "ProcessGlobalRegions env s =
     (if \<not> use_globals (le_flags env) then Some s else scan_modules env (le_modules env) s)"

section \<open>Threads\<close>

text \<open>The pages at the low end of a stack that cannot be read, guard pages, are skipped.\<close>

partial_function (option) skip_guard_pages :: "lsan_env \<Rightarrow> uptr \<Rightarrow> uptr \<Rightarrow> uptr option" where
  "skip_guard_pages env b e =
     (if b < e \<and> \<not> le_accessible env b then skip_guard_pages env (b + page_size (ae (le_env env))) e else Some b)"

definition scan_registers :: "lsan_env \<Rightarrow> Accessor \<Rightarrow> (uptr \<times> uptr) \<times> mem \<Rightarrow> scan_state \<Rightarrow> scan_state option" where
  "scan_registers env acc regs s =
     (if use_registers (le_flags env) then ScanForPointers env (fst (fst regs)) (snd (fst regs)) kReachable acc (snd regs) s else Some s)"

definition scan_stack :: "lsan_env \<Rightarrow> Accessor \<Rightarrow> nat \<Rightarrow> uptr \<Rightarrow> uptr \<times> uptr \<Rightarrow> scan_state \<Rightarrow> scan_state option" where
  "scan_stack env acc os sp stack s =
     (if use_stacks (le_flags env) then do {
        let (stack_begin, stack_end) = stack;
        stack_begin \<leftarrow> (if sp < stack_begin \<or> sp \<ge> stack_end then skip_guard_pages env stack_begin stack_end else Some sp);
        s \<leftarrow> ScanForPointers env stack_begin stack_end kReachable acc (hmem (fst s)) s;
        let w = \<lparr>tw_mem = \<lparr>fmem = hmem (fst s), fasan = hs (fst s)\<rparr>, fakes = le_fakes env, fake_stack_tls = 0\<rparr>;
        ScanRanges env acc (GetThreadExtraStackRangesLocked (le_threads env) w (le_registry env) os) s
      } else Some s)"

fun scan_dtls :: "lsan_env \<Rightarrow> Accessor \<Rightarrow> (uptr \<times> uptr) list \<Rightarrow> scan_state \<Rightarrow> scan_state option" where
  \<comment> \<open>each block is its address and its size\<close>
  "scan_dtls env acc [] s = Some s"
| "scan_dtls env acc ((b, n) # ds) s = do {
     s \<leftarrow> (if b < b + n then ScanForPointers env b (b + n) kReachable acc (hmem (fst s)) s else Some s);
     scan_dtls env acc ds s
   }"

definition scan_tls :: "lsan_env \<Rightarrow> Accessor \<Rightarrow> thread_ranges \<Rightarrow> scan_state \<Rightarrow> scan_state option" where
  "scan_tls env acc tr s =
     (if use_tls (le_flags env) then do {
        let (tls_b, tls_e) = tr_tls tr;
        let (cache_b, cache_e) = tr_cache tr;
        s \<leftarrow> (if tls_b \<noteq> 0 then
               (if cache_b = cache_e \<or> tls_e < cache_b \<or> tls_b > cache_e
                then ScanForPointers env tls_b tls_e kReachable acc (hmem (fst s)) s
                else do {
                  s \<leftarrow> (if tls_b < cache_b then ScanForPointers env tls_b cache_b kReachable acc (hmem (fst s)) s else Some s);
                  if tls_e > cache_e then ScanForPointers env cache_e tls_e kReachable acc (hmem (fst s)) s else Some s
                })
             else Some s);
        (case tr_dtls tr of Some ds \<Rightarrow> scan_dtls env acc ds s | None \<Rightarrow> Some s)
      } else Some s)"

definition ProcessThread :: "lsan_env \<Rightarrow> nat \<Rightarrow> uptr \<Rightarrow> (uptr \<times> uptr) \<times> mem \<Rightarrow> Accessor \<Rightarrow> scan_state \<Rightarrow> scan_state option" where
  "ProcessThread env os sp regs acc s =
     (case GetThreadRangesLocked (le_cur env) (le_threads env) (le_registry env) os of
        None \<Rightarrow> Some s
      | Some tr \<Rightarrow> do {
          let sp = (if sp = 0 then fst (tr_stack tr) else sp);
          s \<leftarrow> scan_registers env acc regs s;
          s \<leftarrow> scan_stack env acc os sp (tr_stack tr) s;
          scan_tls env acc tr s
        })"

fun process_pointers :: "lsan_env \<Rightarrow> uptr list \<Rightarrow> scan_state \<Rightarrow> scan_state" where
  "process_pointers env [] s = s"
| "process_pointers env (p # ps) (st, frontier) =
     (let chk = PointsIntoChunk (le_low env) st p; m = LsanMetadata chk in
      if chk = 0 \<or> \<not> metadata_allocated st m then process_pointers env ps (st, frontier)
      else process_pointers env ps (metadata_set_tag kReachable m st, map_option (\<lambda>f. f @ [chk]) frontier))"

definition ProcessThreadRegistry :: "lsan_env \<Rightarrow> scan_state \<Rightarrow> scan_state" where
  "ProcessThreadRegistry env s = process_pointers env (GetAllPtrsLocked (le_args env)) s"

text \<open>The suspended threads; the result also has the ids of the threads processed.\<close>

fun process_suspended :: "lsan_env \<Rightarrow> suspended list \<Rightarrow> scan_state \<Rightarrow> (nat list \<times> scan_state) option" where
  "process_suspended env [] s = Some ([], s)"
| "process_suspended env (su # sus) s =
     (if su_status su = REGISTERS_UNAVAILABLE_FATAL then process_suspended env sus s
      else do {
        let os = su_tid su;
        let sp = (if su_status su = REGISTERS_AVAILABLE then su_sp su else 0);
        let sp = (if os = fst (le_caller env) then snd (le_caller env) else sp);
        s \<leftarrow> ProcessThread env os sp (su_regs su, su_reg_bytes su) DirectMemoryAccessor s;
        (done_threads, s) \<leftarrow> process_suspended env sus s;
        Some (if use_detached (le_flags env) then os # done_threads else done_threads, s)
      })"

text \<open>The running threads that could not be suspended; the register vector is empty for them.\<close>

fun process_known :: "lsan_env \<Rightarrow> nat list \<Rightarrow> nat list \<Rightarrow> scan_state \<Rightarrow> scan_state option" where
  "process_known env done_threads [] s = Some s"
| "process_known env done_threads (os # ks) s = do {
     let i = InternalLowerBound (<) done_threads os;
     s \<leftarrow> (if i \<ge> length done_threads \<or> done_threads ! i \<noteq> os
           then ProcessThread env os (if os = fst (le_caller env) then snd (le_caller env) else 0) ((0, 0), \<lambda>_. 0) CopyMemoryAccessor s
           else Some s);
     process_known env done_threads ks s
   }"

definition ProcessThreads :: "lsan_env \<Rightarrow> scan_state \<Rightarrow> scan_state option" where
  "ProcessThreads env s = do {
     (done_threads, s) \<leftarrow> process_suspended env (le_suspended env) s;
     s \<leftarrow> (if use_detached (le_flags env)
           then process_known env (Sort (<) done_threads) (GetRunningThreadsLocked (le_registry env)) s else Some s);
     Some (ProcessThreadRegistry env s)
   }"

section \<open>Root regions\<close>

definition lsan_register_root_region :: "uptr \<Rightarrow> uptr \<Rightarrow> ((uptr \<times> uptr) \<times> uptr) list \<Rightarrow> ((uptr \<times> uptr) \<times> uptr) list option" where
  "lsan_register_root_region b sz rr = do {
     CHECK (b < b + sz);
     Some (AList.update (b, b + sz) ((case map_of rr (b, b + sz) of Some n \<Rightarrow> n | None \<Rightarrow> 0) + 1) rr)
   }"

text \<open>Unregistering a region that is not registered is fatal.\<close>

definition lsan_unregister_root_region :: "uptr \<Rightarrow> uptr \<Rightarrow> ((uptr \<times> uptr) \<times> uptr) list \<Rightarrow> ((uptr \<times> uptr) \<times> uptr) list option" where
  "lsan_unregister_root_region b sz rr = do {
     CHECK (b < b + sz);
     n \<leftarrow> map_of rr (b, b + sz);
     Some (if n - 1 = 0 then AList.delete (b, b + sz) rr else AList.update (b, b + sz) (n - 1) rr)
   }"

definition HasRootRegions :: "lsan_env \<Rightarrow> bool" where
  "HasRootRegions env \<longleftrightarrow> le_root_regions env \<noteq> []"

definition to_range :: "uptr \<times> uptr \<Rightarrow> Range" where
  "to_range r = \<lparr>rbegin = unat (fst r), rend = unat (snd r)\<rparr>"

definition of_range :: "Range \<Rightarrow> uptr \<times> uptr" where
  "of_range r = (of_nat (rbegin r), of_nat (rend r))"

fun scan_regions :: "lsan_env \<Rightarrow> (uptr \<times> uptr) list \<Rightarrow> scan_state \<Rightarrow> scan_state option" where
  "scan_regions env [] s = Some s"
| "scan_regions env ((b, e) # rs) s = do { s \<leftarrow> ScanRangeForPointers env b e kReachable s; scan_regions env rs s }"

definition ScanRootRegions :: "lsan_env \<Rightarrow> (uptr \<times> uptr) list \<Rightarrow> scan_state \<Rightarrow> scan_state option" where
  "ScanRootRegions env mapped_regions s =
     (if \<not> use_root_regions (le_flags env) then Some s
      else do {
        let regions = map fst (le_root_regions env);
        intersection \<leftarrow> Intersect (map to_range mapped_regions) (map to_range regions);
        scan_regions env (map of_range intersection) s
      })"

definition ProcessRootRegions :: "lsan_env \<Rightarrow> scan_state \<Rightarrow> scan_state option" where
  "ProcessRootRegions env s =
     (if \<not> use_root_regions (le_flags env) \<or> \<not> HasRootRegions env then Some s
      else ScanRootRegions env (map fst (filter snd (le_segments env))) s)"

section \<open>Classifying the chunks\<close>

partial_function (option) FloodFillTag :: "lsan_env \<Rightarrow> nat \<Rightarrow> heap \<Rightarrow> uptr list \<Rightarrow> heap option" where
  "FloodFillTag env tag st frontier =
     (if frontier = [] then Some st
      else do {
        let next_chunk = last frontier;
        let frontier = butlast frontier;
        (st, fr) \<leftarrow> ScanRangeForPointers env next_chunk (next_chunk + metadata_requested_size st (LsanMetadata next_chunk)) tag (st, Some frontier);
        frontier \<leftarrow> fr;
        FloodFillTag env tag st frontier
      })"

definition MarkIndirectlyLeakedCb :: "lsan_env \<Rightarrow> uptr \<Rightarrow> heap \<Rightarrow> heap option" where
  "MarkIndirectlyLeakedCb env cb st = do {
     let chk = GetUserBegin (le_low env) st cb;
     let m = LsanMetadata chk;
     if metadata_allocated st m \<and> lsan_tag (header st m) \<noteq> kReachable
     then map_option fst (ScanRangeForPointers env chk (chk + metadata_requested_size st m) kIndirectlyLeaked (st, None))
     else Some st
   }"

definition IgnoredSuppressedCb :: "lsan_env \<Rightarrow> u32 list \<Rightarrow> uptr \<Rightarrow> heap \<Rightarrow> heap" where
  "IgnoredSuppressedCb env suppressed cb st =
     (let chk = GetUserBegin (le_low env) st cb; m = LsanMetadata chk in
      if \<not> metadata_allocated st m \<or> lsan_tag (header st m) = kIgnored then st
      else
        let idx = InternalLowerBound (<) suppressed (metadata_stack_trace_id st m) in
        if idx \<ge> length suppressed \<or> metadata_stack_trace_id st m \<noteq> suppressed ! idx then st
        else metadata_set_tag kIgnored m st)"

definition CollectIgnoredCb :: "lsan_env \<Rightarrow> heap \<Rightarrow> uptr \<Rightarrow> uptr list \<Rightarrow> uptr list" where
  "CollectIgnoredCb env st cb frontier =
     (let chk = GetUserBegin (le_low env) st cb; m = LsanMetadata chk in
      if metadata_allocated st m \<and> lsan_tag (header st m) = kIgnored then frontier @ [chk] else frontier)"

definition ResetTagsCb :: "lsan_env \<Rightarrow> uptr \<Rightarrow> heap \<Rightarrow> heap" where
  "ResetTagsCb env cb st =
     (let chk = GetUserBegin (le_low env) st cb; m = LsanMetadata chk in
      if metadata_allocated st m \<and> lsan_tag (header st m) \<noteq> kIgnored then metadata_set_tag kDirectlyLeaked m st else st)"

record LeakedChunk =
  lk_chunk :: uptr
  lk_stack_trace_id :: u32
  lk_size :: uptr
  lk_tag :: nat

definition CollectLeaksCb :: "lsan_env \<Rightarrow> heap \<Rightarrow> uptr \<Rightarrow> LeakedChunk list \<Rightarrow> LeakedChunk list" where
  "CollectLeaksCb env st cb leaks =
     (let chk = GetUserBegin (le_low env) st cb; m = LsanMetadata chk in
      if \<not> metadata_allocated st m then leaks
      else if lsan_tag (header st m) = kDirectlyLeaked \<or> lsan_tag (header st m) = kIndirectlyLeaked
      then leaks @ [\<lparr>lk_chunk = chk, lk_stack_trace_id = metadata_stack_trace_id st m, lk_size = metadata_requested_size st m,
        lk_tag = lsan_tag (header st m)\<rparr>]
      else leaks)"

fun mark_indirect :: "lsan_env \<Rightarrow> uptr list \<Rightarrow> heap \<Rightarrow> heap option" where
  "mark_indirect env [] st = Some st"
| "mark_indirect env (c # cs) st = do { st \<leftarrow> MarkIndirectlyLeakedCb env c st; mark_indirect env cs st }"

text \<open>\<^verbatim>\<open>ProcessPlatformSpecificAllocations\<close> is empty on Linux, so the second flood fill starts from what the first one
  left in the frontier: nothing.\<close>

definition ClassifyAllChunks :: "lsan_env \<Rightarrow> heap \<Rightarrow> heap option" where
  "ClassifyAllChunks env st = do {
     let st = (if le_suppressed env \<noteq> [] then fold (IgnoredSuppressedCb env (le_suppressed env)) (le_chunks env) st else st);
     let frontier = fold (CollectIgnoredCb env st) (le_chunks env) [];
     s \<leftarrow> ProcessGlobalRegions env (st, Some frontier);
     s \<leftarrow> ProcessThreads env s;
     s \<leftarrow> ProcessRootRegions env s;
     frontier \<leftarrow> snd s;
     st \<leftarrow> FloodFillTag env kReachable (fst s) frontier;
     st \<leftarrow> FloodFillTag env kReachable st [];
     mark_indirect env (le_chunks env) st
   }"

section \<open>The check\<close>

fun all_known_suspended :: "nat list \<Rightarrow> nat list \<Rightarrow> bool" where
  "all_known_suspended ths [] = True"
| "all_known_suspended ths (os # ks) =
     (let i = InternalLowerBound (<) ths os; rest = all_known_suspended ths ks in
      if i \<ge> length ths \<or> ths ! i \<noteq> os then False else rest)"

definition ReportUnsuspendedThreads :: "lsan_env \<Rightarrow> bool" where
  "ReportUnsuspendedThreads env =
     all_known_suspended (Sort (<) (map su_tid (le_suspended env))) (GetRunningThreadsLocked (le_registry env))"

text \<open>The result: whether the check succeeded, the leaks, and the heap.\<close>

definition CheckForLeaksCallback :: "lsan_env \<Rightarrow> heap \<Rightarrow> (bool \<times> LeakedChunk list \<times> heap) option" where
  "CheckForLeaksCallback env st = do {
     let reported = ReportUnsuspendedThreads env;
     if \<not> reported \<and> thread_suspend_fail (le_flags env) = 0 then Some (True, [], st)
     else if \<not> reported \<and> thread_suspend_fail (le_flags env) = 2 then Some (False, [], st)
     else do {
       st \<leftarrow> ClassifyAllChunks env st;
       let leaks = fold (CollectLeaksCb env st) (le_chunks env) [];
       Some (True, leaks, fold (ResetTagsCb env) (le_chunks env) st)
     }
   }"

end
