(* ===== verification/Lsan_Scan.thy ===== *)
theory Lsan_Scan
  imports Lsan Marking Asan_Allocator_Proofs
begin

text \<open>
  Scanning for the leak checker: heaps that differ in tags only look the same to the scanner, and a scan of
  a range tags exactly the chunks that the words of the range point into and that are not yet tagged.
\<close>

unbundle bit_operations_syntax

section \<open>Heaps that differ in their tags\<close>

definition notag :: "ChunkHeader \<Rightarrow> ChunkHeader" where
  "notag h = h\<lparr>lsan_tag := 0\<rparr>"

definition same_heap :: "heap \<Rightarrow> heap \<Rightarrow> bool" where
  "same_heap st st' \<longleftrightarrow> hmem st' = hmem st \<and> hs st' = hs st \<and> (\<forall>m. notag (header st' m) = notag (header st m)) \<and>
     (\<forall>m. LargeChunkHeader_Get (large st' m) = LargeChunkHeader_Get (large st m))"

lemma same_heap_refl [simp]: "same_heap st st"
  by (simp add: same_heap_def)

lemma same_heap_trans: "same_heap a b \<Longrightarrow> same_heap b c \<Longrightarrow> same_heap a c"
  by (simp add: same_heap_def)

lemma notagD:
  assumes "notag h' = notag h"
  shows "chunk_state h' = chunk_state h" and "UsedSize h' = UsedSize h" and "alloc_context_id h' = alloc_context_id h"
proof -
  have "chunk_state (notag h') = chunk_state (notag h)" "UsedSize (notag h') = UsedSize (notag h)"
    "alloc_context_id (notag h') = alloc_context_id (notag h)" using assms by simp_all
  then show "chunk_state h' = chunk_state h" "UsedSize h' = UsedSize h" "alloc_context_id h' = alloc_context_id h"
    by (simp_all add: notag_def UsedSize_def)
qed

lemma same_heapD:
  assumes "same_heap st st'"
  shows "hmem st' = hmem st" and "hs st' = hs st"
    and "chunk_state (header st' m) = chunk_state (header st m)" and "UsedSize (header st' m) = UsedSize (header st m)"
    and "alloc_context_id (header st' m) = alloc_context_id (header st m)"
    and "LargeChunkHeader_Get (large st' m) = LargeChunkHeader_Get (large st m)"
  using assms notagD [of "header st' m" "header st m"] by (simp_all add: same_heap_def)

lemma same_lookup:
  assumes "same_heap st st'"
  shows "GetAsanChunk low st' a = GetAsanChunk low st a" and "PointsIntoChunk low st' a = PointsIntoChunk low st a"
    and "GetUserBegin low st' a = GetUserBegin low st a" and "metadata_allocated st' m = metadata_allocated st m"
    and "metadata_requested_size st' m = metadata_requested_size st m" and "metadata_stack_trace_id st' m = metadata_stack_trace_id st m"
proof -
  note D = same_heapD [OF assms]
  have g: "GetAsanChunk low st' a = GetAsanChunk low st a" for a by (simp add: GetAsanChunk_def D Let_def)
  then show "GetAsanChunk low st' a = GetAsanChunk low st a" .
  show "PointsIntoChunk low st' a = PointsIntoChunk low st a"
    unfolding PointsIntoChunk_def GetAsanChunkByAddr_def chunk_AddrIsInside_def IsItaniumABIArrayCookie_def Let_def g D ..
  show "GetUserBegin low st' a = GetUserBegin low st a" by (simp add: GetUserBegin_def GetAsanChunkByAddr_def g)
  show "metadata_allocated st' m = metadata_allocated st m" by (simp add: metadata_allocated_def D)
  show "metadata_requested_size st' m = metadata_requested_size st m" by (simp add: metadata_requested_size_def D)
  show "metadata_stack_trace_id st' m = metadata_stack_trace_id st m"
    by (simp add: metadata_stack_trace_id_def GetAllocContext_def D)
qed

text \<open>A header of an allocated chunk is not the magic of a large chunk header.\<close>

definition consistent :: "heap \<Rightarrow> bool" where
  "consistent st \<longleftrightarrow> (\<forall>m. chunk_state (header st m) = CHUNK_ALLOCATED \<longrightarrow> LargeChunkHeader_Get (large st m) = 0)"

lemma same_heap_set_tag:
  assumes "consistent st" and "chunk_state (header st m) = CHUNK_ALLOCATED"
  shows "same_heap st (metadata_set_tag t m st)"
proof -
  have "header_word ((header st m)\<lparr>lsan_tag := t\<rparr>) \<noteq> kAllocBegMagic" by (rule header_word_not_magic) (simp add: assms(2))
  then show ?thesis using assms
    by (auto simp: same_heap_def metadata_set_tag_def set_header_def notag_def consistent_def LargeChunkHeader_Get_def)
qed

section \<open>Chunks and their tags\<close>

definition chunks :: "lsan_env \<Rightarrow> heap \<Rightarrow> uptr set" where
  "chunks env st = {c. c \<noteq> 0 \<and> c \<in> GetUserBegin (le_low env) st ` set (le_chunks env) \<and> metadata_allocated st (LsanMetadata c)}"

definition chunk_tag :: "heap \<Rightarrow> uptr \<Rightarrow> nat" where
  "chunk_tag st c = lsan_tag (header st (LsanMetadata c))"

definition marked :: "lsan_env \<Rightarrow> heap \<Rightarrow> uptr set" where
  "marked env st = {c \<in> chunks env st. chunk_tag st c = kReachable \<or> chunk_tag st c = kIgnored}"

definition chunk_end :: "heap \<Rightarrow> uptr \<Rightarrow> uptr" where
  "chunk_end st c = c + metadata_requested_size st (LsanMetadata c)"

text \<open>What the leak checker relies on: the allocator enumerates every chunk that a pointer can lead
  to, no chunk reaches the end of the address space, and the shadow can be read.\<close>

definition lsan_ok :: "lsan_env \<Rightarrow> heap \<Rightarrow> bool" where
  "lsan_ok env st \<longleftrightarrow> consistent st \<and>
     (\<forall>p. PointsIntoChunk (le_low env) st p \<noteq> 0 \<longrightarrow> PointsIntoChunk (le_low env) st p \<in> chunks env st) \<and>
     (\<forall>c\<in>chunks env st. unat c + unat (metadata_requested_size st (LsanMetadata c)) + 80 \<le> 2 ^ 64) \<and>
     (use_poisoned (le_flags env) \<or> \<not> use_unaligned (le_flags env) \<and> offset_ok (mp (ae (le_env env))) \<and> shadow_ok (hs st))"

lemma same_chunks:
  assumes "same_heap st st'"
  shows "chunks env st' = chunks env st" and "chunk_end st' = chunk_end st" and "lsan_ok env st' = lsan_ok env st"
proof -
  note L = same_lookup [OF assms] and D = same_heapD [OF assms]
  show c: "chunks env st' = chunks env st" by (auto simp: chunks_def L)
  show "chunk_end st' = chunk_end st" by (simp add: chunk_end_def fun_eq_iff L)
  show "lsan_ok env st' = lsan_ok env st" by (simp add: lsan_ok_def c L D consistent_def)
qed

lemma LsanMetadata_inj: "c \<noteq> 0 \<Longrightarrow> c' \<noteq> 0 \<Longrightarrow> LsanMetadata c = LsanMetadata c' \<longleftrightarrow> c = c'"
  by (simp add: LsanMetadata_def)

lemma chunksD:
  assumes "c \<in> chunks env st"
  shows "c \<noteq> 0" and "chunk_state (header st (LsanMetadata c)) = CHUNK_ALLOCATED" and "metadata_allocated st (LsanMetadata c)"
  using assms by (simp_all add: chunks_def metadata_allocated_def)

text \<open>Tagging a chunk.\<close>

definition tag_chunk :: "nat \<Rightarrow> uptr \<Rightarrow> heap \<Rightarrow> heap" where
  "tag_chunk t c st = metadata_set_tag t (LsanMetadata c) st"

lemma tag_chunk_same:
  assumes "lsan_ok env st" and "c \<in> chunks env st"
  shows "same_heap st (tag_chunk t c st)"
  unfolding tag_chunk_def using assms chunksD(2) [OF assms(2)] by (intro same_heap_set_tag) (simp_all add: lsan_ok_def)

lemma tag_chunk_tag:
  "c \<noteq> 0 \<Longrightarrow> c' \<noteq> 0 \<Longrightarrow> chunk_tag (tag_chunk t c st) c' = (if c' = c then t else chunk_tag st c')"
  by (simp add: chunk_tag_def tag_chunk_def metadata_set_tag_def set_header_def LsanMetadata_inj)

section \<open>Words\<close>

definition readable_word :: "lsan_env \<Rightarrow> heap \<Rightarrow> uptr \<Rightarrow> bool" where
  "readable_word env st pp \<longleftrightarrow> use_poisoned (le_flags env) \<or> WordIsPoisoned (ae (le_env env)) (hs st) pp = Some False"

text \<open>The chunk that the word at \<open>pp\<close> of a range that starts at \<open>b\<close> leads to.\<close>

definition word_target :: "lsan_env \<Rightarrow> heap \<Rightarrow> (uptr \<Rightarrow> uptr option) \<Rightarrow> uptr \<Rightarrow> uptr \<Rightarrow> uptr option" where
  "word_target env st load b pp =
     (case load pp of None \<Rightarrow> None
      | Some p \<Rightarrow>
          let c = PointsIntoChunk (le_low env) st p in
          if MaybeUserPointer p \<and> c \<noteq> 0 \<and> c \<noteq> b \<and> readable_word env st pp then Some c else None)"

lemma same_word_target: "same_heap st st' \<Longrightarrow> word_target env st' = word_target env st"
  by (simp add: fun_eq_iff word_target_def readable_word_def same_lookup same_heapD split: option.split)

lemma word_target_chunk: "lsan_ok env st \<Longrightarrow> word_target env st load b pp = Some c \<Longrightarrow> c \<in> chunks env st"
  by (auto simp: word_target_def lsan_ok_def Let_def split: option.splits if_splits)

lemma word_poison_total:
  assumes "offset_ok (mp env)" and "shadow_ok st" and "goffset pp = 0" and "unat pp + 80 \<le> 2 ^ 64"
  shows "WordIsPoisoned env st pp \<noteq> None"
proof (cases "AddrIsInMem (mp env) pp \<and> AddrIsInMem (mp env) (pp + 8)")
  case False
  then have "asan_region_is_poisoned env st pp 8 \<noteq> None" by (auto simp: asan_region_is_poisoned_def Let_def)
  then show ?thesis by (simp add: WordIsPoisoned_def)
next
  case True
  obtain ab where ab: "RoundUpTo pp 8 = Some ab" using RoundUpTo_exp [of pp 3] by simp
  have "ab = pp" using RoundUpTo_granule [OF _ ab] assms(3,4) by (simp add: addr_eq_iff)
  moreover have "unat (pp + 8) = unat pp + 8" using assms(4) by (simp add: unat_word_ariths)
  then have "goffset (pp + 8) = 0" using assms(3) by (simp add: goffset_def)
  then have "RoundDownTo (pp + 8) 8 = pp + 8" by (simp add: addr_eq_iff)
  ultimately have "\<exists>r. asan_region_is_poisoned env st pp 8 = Some r"
    using region_query [OF assms(1,2), where beg = pp and sz = 8 and ab = ab] ab True assms(4) by auto
  then show ?thesis by (auto simp: WordIsPoisoned_def)
qed

section \<open>Scanning a range\<close>

definition range_ok :: "uptr \<Rightarrow> uptr \<Rightarrow> bool" where
  "range_ok b e \<longleftrightarrow> unat b + 16 \<le> 2 ^ 64 \<and> unat e + 80 \<le> 2 ^ 64"

definition word_at :: "lsan_env \<Rightarrow> uptr \<Rightarrow> uptr \<Rightarrow> uptr \<Rightarrow> bool" where
  "word_at env b e q \<longleftrightarrow> unat b \<le> unat q \<and> unat q + 8 \<le> unat e \<and> (use_unaligned (le_flags env) \<or> goffset q = 0)"

text \<open>The effect of scanning with the tag \<open>t\<close> when the words lead to the chunks \<open>T\<close>.\<close>

definition scanned :: "lsan_env \<Rightarrow> nat \<Rightarrow> uptr set \<Rightarrow> scan_state \<Rightarrow> scan_state \<Rightarrow> bool" where
  "scanned env t T s s' \<longleftrightarrow> same_heap (fst s) (fst s') \<and>
     (\<forall>c\<in>chunks env (fst s). chunk_tag (fst s') c = (if c \<in> T - marked env (fst s) then t else chunk_tag (fst s) c)) \<and>
     (\<exists>new. snd s' = map_option (\<lambda>f. f @ new) (snd s) \<and> (t = kReachable \<longrightarrow> set new = T - marked env (fst s)))"

lemma scanned_marked:
  assumes "scanned env t T s s'" and "T \<subseteq> chunks env (fst s)"
  shows "marked env (fst s') = marked env (fst s) \<union> (if t = kReachable \<or> t = kIgnored then T else {})"
proof -
  have c: "chunks env (fst s') = chunks env (fst s)" using assms(1) by (simp add: scanned_def same_chunks)
  have "c \<in> marked env (fst s') \<longleftrightarrow> c \<in> marked env (fst s) \<union> (if t = kReachable \<or> t = kIgnored then T else {})" for c
  proof (cases "c \<in> chunks env (fst s)")
    case True
    then have m: "c \<in> marked env (fst x) \<longleftrightarrow> chunk_tag (fst x) c = kReachable \<or> chunk_tag (fst x) c = kIgnored" if "x = s \<or> x = s'" for x
      using that c by (auto simp: marked_def)
    have "chunk_tag (fst s') c = (if c \<in> T - marked env (fst s) then t else chunk_tag (fst s) c)"
      using assms(1) True by (simp add: scanned_def)
    then show ?thesis using m [of s] m [of s'] by auto
  next
    case False
    then show ?thesis using assms(2) c by (auto simp: marked_def)
  qed
  then show ?thesis by blast
qed

lemma scanned_refl: "scanned env t {} s s"
  by (auto simp: scanned_def intro!: exI [of _ "[]"] option.map_ident [symmetric])

lemma scanned_trans:
  assumes "scanned env t T s s1" and "scanned env t U s1 s2" and "T \<subseteq> chunks env (fst s)" and "U \<subseteq> chunks env (fst s)"
    and t: "t = kReachable \<or> t = kIndirectlyLeaked"
  shows "scanned env t (T \<union> U) s s2"
proof -
  have h: "same_heap (fst s) (fst s1)" "same_heap (fst s1) (fst s2)" using assms(1,2) by (simp_all add: scanned_def)
  note c = same_chunks(1) [OF h(1), of env] and m = scanned_marked [OF assms(1,3)]
  obtain n1 where n1: "snd s1 = map_option (\<lambda>f. f @ n1) (snd s)" "t = kReachable \<longrightarrow> set n1 = T - marked env (fst s)"
    using assms(1) by (auto simp: scanned_def)
  obtain n2 where n2: "snd s2 = map_option (\<lambda>f. f @ n2) (snd s1)" "t = kReachable \<longrightarrow> set n2 = U - marked env (fst s1)"
    using assms(2) by (auto simp: scanned_def)
  have "snd s2 = map_option (\<lambda>f. f @ (n1 @ n2)) (snd s)" using n1(1) n2(1) by (cases "snd s") simp_all
  moreover have "t = kReachable \<longrightarrow> set (n1 @ n2) = T \<union> U - marked env (fst s)" using n1(2) n2(2) m by auto
  moreover have "chunk_tag (fst s2) d = (if d \<in> T \<union> U - marked env (fst s) then t else chunk_tag (fst s) d)" if d: "d \<in> chunks env (fst s)" for d
  proof -
    have "chunk_tag (fst s1) d = (if d \<in> T - marked env (fst s) then t else chunk_tag (fst s) d)"
      using assms(1) d by (simp add: scanned_def)
    moreover have "chunk_tag (fst s2) d = (if d \<in> U - marked env (fst s1) then t else chunk_tag (fst s1) d)"
      using assms(2) d by (simp add: scanned_def c)
    ultimately show ?thesis using m by auto
  qed
  ultimately show ?thesis using same_heap_trans [OF h] by (auto simp: scanned_def)
qed

lemma scan_word_run:
  assumes "lsan_ok env (fst s)" and "load pp = Some p"
    and "use_poisoned (le_flags env) \<or> WordIsPoisoned (ae (le_env env)) (hs (fst s)) pp \<noteq> None"
  shows "\<exists>s'. scan_word env load b t pp s = Some s' \<and> scanned env t (set_option (word_target env (fst s) load b pp)) s s'"
proof -
  obtain st fr where s: "s = (st, fr)" by (cases s)
  let ?c = "PointsIntoChunk (le_low env) st p"
  let ?ms = "marked env st"
  note refl = scanned_refl [of env t s]
  show ?thesis
  proof (cases "word_target env st load b pp")
    case None
    have "scan_word env load b t pp s = Some s"
      using None assms(2,3)
      by (auto simp: scan_word_def s Let_def word_target_def readable_word_def split: if_splits)
    then show ?thesis using None refl by (auto simp: s)
  next
    case (Some c)
    have c: "c = ?c" "MaybeUserPointer p" "?c \<noteq> 0" "?c \<noteq> b" "readable_word env st pp"
      using Some assms(2) by (auto simp: word_target_def Let_def split: if_splits)
    have ch: "c \<in> chunks env st" using word_target_chunk Some assms(1) by (auto simp: s)
    have skip: "(if use_poisoned (le_flags env) then Some False else WordIsPoisoned (ae (le_env env)) (hs st) pp) = Some False"
      using c(5) by (auto simp: readable_word_def)
    show ?thesis
    proof (cases "c \<in> ?ms")
      case True
      then have "scan_word env load b t pp s = Some s"
        using c assms(2) by (simp add: scan_word_def s Let_def marked_def chunk_tag_def)
      moreover have "scanned env t {c} s s"
        using True by (auto simp: scanned_def s intro!: exI [of _ "[]"] option.map_ident [symmetric])
      ultimately show ?thesis using Some by (auto simp: s)
    next
      case False
      then have t: "\<not> (chunk_tag st c = kReachable \<or> chunk_tag st c = kIgnored)" using ch by (simp add: marked_def)
      have "scan_word env load b t pp s = Some (tag_chunk t c st, map_option (\<lambda>f. f @ [c]) fr)"
        using c(2-4) c(1) [symmetric] assms(2) t skip by (simp add: scan_word_def s Let_def chunk_tag_def tag_chunk_def)
      moreover have "scanned env t {c} s (tag_chunk t c st, map_option (\<lambda>f. f @ [c]) fr)"
        unfolding scanned_def s fst_conv snd_conv
      proof (intro conjI ballI)
        show "same_heap st (tag_chunk t c st)" using tag_chunk_same ch assms(1) by (simp add: s)
        show "\<exists>new. map_option (\<lambda>f. f @ [c]) fr = map_option (\<lambda>f. f @ new) fr \<and> (t = kReachable \<longrightarrow> set new = {c} - ?ms)"
          using False by (intro exI [of _ "[c]"]) auto
        show "chunk_tag (tag_chunk t c st) d = (if d \<in> {c} - ?ms then t else chunk_tag st d)" if "d \<in> chunks env st" for d
          using that ch False chunksD(1) by (subst tag_chunk_tag) auto
      qed
      ultimately show ?thesis using Some by (auto simp: s)
    qed
  qed
qed

definition range_targets :: "lsan_env \<Rightarrow> heap \<Rightarrow> (uptr \<Rightarrow> uptr option) \<Rightarrow> uptr \<Rightarrow> uptr \<Rightarrow> uptr \<Rightarrow> uptr set" where
  "range_targets env st load b pp e = {c. \<exists>q. word_at env pp e q \<and> word_target env st load b q = Some c}"

lemma range_targets_chunks: "lsan_ok env st \<Longrightarrow> range_targets env st load b pp e \<subseteq> chunks env st"
  by (auto simp: range_targets_def word_target_chunk)

lemma same_range_targets: "same_heap st st' \<Longrightarrow> range_targets env st' = range_targets env st"
  by (simp add: fun_eq_iff range_targets_def same_word_target)

lemma scan_loop_run:
  assumes "lsan_ok env (fst s)" and "range_ok pp e" and t: "t = kReachable \<or> t = kIndirectlyLeaked"
    and "use_unaligned (le_flags env) \<or> goffset pp = 0"
    and "\<And>q. word_at env pp e q \<Longrightarrow> load q \<noteq> None"
  shows "\<exists>s'. scan_loop env load b t e pp s = Some s' \<and> scanned env t (range_targets env (fst s) load b pp e) s s'"
  using assms(1,2,4,5)
proof (induction "unat e - unat pp" arbitrary: pp s rule: less_induct)
  case less
  let ?a = "pointer_alignment (le_flags env)"
  have a: "unat ?a = (if use_unaligned (le_flags env) then 1 else 8)" by (simp add: pointer_alignment_def)
  have bnd: "unat pp + 16 \<le> 2 ^ 64" "unat e + 80 \<le> 2 ^ 64" using less.prems(2) by (simp_all add: range_ok_def)
  have p8: "unat (pp + 8) = unat pp + 8" using bnd by (simp add: unat_word_ariths)
  show ?case
  proof (cases "pp + 8 \<le> e")
    case False
    then have "range_targets env (fst s) load b pp e = {}"
      using p8 by (auto simp: range_targets_def word_at_def word_le_nat_alt)
    then show ?thesis using False scanned_refl [of env t s] by (subst scan_loop.simps) simp
  next
    case True
    then have le: "unat pp + 8 \<le> unat e" using p8 by (simp add: word_le_nat_alt)
    have here: "word_at env pp e pp" using le less.prems(3) by (auto simp: word_at_def)
    then obtain p where p: "load pp = Some p" using less.prems(4) by blast
    have rd: "use_poisoned (le_flags env) \<or> WordIsPoisoned (ae (le_env env)) (hs (fst s)) pp \<noteq> None"
      using less.prems(1,3) word_poison_total bnd le unfolding lsan_ok_def by fastforce
    obtain s1 where s1: "scan_word env load b t pp s = Some s1"
      "scanned env t (set_option (word_target env (fst s) load b pp)) s s1"
      using scan_word_run [of env s load pp p b t] less.prems(1) p rd by blast
    have h: "same_heap (fst s) (fst s1)" using s1(2) by (simp add: scanned_def)
    have ua: "unat (pp + ?a) = unat pp + unat ?a" using a bnd by (simp add: unat_word_ariths)
    have sub: "word_at env (pp + ?a) e q \<Longrightarrow> word_at env pp e q" for q using ua by (simp add: word_at_def)
    have split: "word_at env pp e q \<longleftrightarrow> q = pp \<or> word_at env (pp + ?a) e q" for q
    proof
      assume q: "word_at env pp e q"
      show "q = pp \<or> word_at env (pp + ?a) e q"
      proof (cases "unat q = unat pp")
        case False
        then have lt: "unat pp < unat q" using q by (simp add: word_at_def)
        have "unat pp + unat ?a \<le> unat q"
        proof (cases "use_unaligned (le_flags env)")
          case True
          then show ?thesis using a lt by simp
        next
          case False
          then have "goffset q = 0" "goffset pp = 0" using q less.prems(3) by (simp_all add: word_at_def)
          then have "granule pp < granule q" using lt unat_granule [of pp] unat_granule [of q] by simp
          then show ?thesis using a False \<open>goffset q = 0\<close> \<open>goffset pp = 0\<close> unat_granule [of pp] unat_granule [of q] by simp
        qed
        then show ?thesis using q ua by (simp add: word_at_def)
      qed (simp add: word_unat_eq_iff)
    qed (use here sub in auto)
    have "\<exists>s'. scan_loop env load b t e (pp + ?a) s1 = Some s' \<and>
        scanned env t (range_targets env (fst s1) load b (pp + ?a) e) s1 s'"
    proof (rule less.hyps)
      show "unat e - unat (pp + ?a) < unat e - unat pp" 
      proof -
        have "0 < unat ?a" by (simp add: a)
        then show ?thesis using ua le by linarith
      qed
      show "lsan_ok env (fst s1)" using less.prems(1) same_chunks(3) [OF h] by simp
      show "range_ok (pp + ?a) e" using bnd ua a le by (simp add: range_ok_def)
      show "use_unaligned (le_flags env) \<or> goffset (pp + ?a) = 0" using less.prems(3) ua a by (auto simp: goffset_def)
      show "load q \<noteq> None" if "word_at env (pp + ?a) e q" for q using that sub less.prems(4) by blast
    qed
    then obtain s' where s': "scan_loop env load b t e (pp + ?a) s1 = Some s'"
      "scanned env t (range_targets env (fst s) load b (pp + ?a) e) s1 s'"
      unfolding same_range_targets [OF h] by blast
    have T: "range_targets env (fst s) load b pp e =
        set_option (word_target env (fst s) load b pp) \<union> range_targets env (fst s) load b (pp + ?a) e"
      unfolding range_targets_def split by auto
    have "scanned env t (range_targets env (fst s) load b pp e) s s'"
      unfolding T using less.prems(1) range_targets_chunks word_target_chunk
      by (intro scanned_trans [OF s1(2) s'(2) _ _ t]) auto
    then show ?thesis using True s1(1) s'(1) by (subst scan_loop.simps) simp
  qed
qed

section \<open>Ranges\<close>

text \<open>What the accessor shows of memory \<open>m\<close> in the range from \<open>b\<close> to \<open>e\<close>, seen by address.\<close>

definition seen :: "lsan_env \<Rightarrow> Accessor \<Rightarrow> uptr \<Rightarrow> uptr \<Rightarrow> mem \<Rightarrow> uptr \<Rightarrow> uptr option" where
  "seen env acc b e m q = Option.bind (accessor_Init env acc b e m) (\<lambda>m. accessor_LoadPtr acc b e m q)"

definition targets :: "lsan_env \<Rightarrow> heap \<Rightarrow> Accessor \<Rightarrow> mem \<Rightarrow> uptr \<times> uptr \<Rightarrow> uptr set" where
  "targets env st acc m r = {c. \<exists>q. word_at env (fst r) (snd r) q \<and> word_target env st (seen env acc (fst r) (snd r) m) (fst r) q = Some c}"

lemma targets_chunks: "lsan_ok env st \<Longrightarrow> targets env st acc m r \<subseteq> chunks env st"
  by (auto simp: targets_def word_target_chunk)

lemma same_targets: "same_heap st st' \<Longrightarrow> targets env st' = targets env st"
  by (simp add: fun_eq_iff targets_def same_word_target)

lemma first_word:
  assumes "range_ok b e" and "a = pointer_alignment (le_flags env)"
  defines "pp \<equiv> if b mod a \<noteq> 0 then b + a - b mod a else b"
  shows "unat b \<le> unat pp" and "unat pp + 8 < 2 ^ 64" and "use_unaligned (le_flags env) \<or> goffset pp = 0"
    and "word_at env b e q \<Longrightarrow> unat pp \<le> unat q"
proof -
  have b: "unat b + 16 \<le> 2 ^ 64" using assms(1) by (simp add: range_ok_def)
  have *: "unat b \<le> unat pp \<and> unat pp + 8 < 2 ^ 64 \<and> (use_unaligned (le_flags env) \<or> goffset pp = 0) \<and>
      (word_at env b e q \<longrightarrow> unat pp \<le> unat q)"
  proof (cases "use_unaligned (le_flags env) \<or> goffset b = 0")
    case True
    have "pp = b"
    proof (cases "use_unaligned (le_flags env)")
      case False
      then have "unat (b mod 8) = 0" using True by (simp add: goffset_def unat_mod_distrib)
      then show ?thesis using False assms(2) by (simp add: pp_def pointer_alignment_def unat_eq_0)
    qed (simp add: pp_def assms(2) pointer_alignment_def)
    then show ?thesis using b True by (simp add: word_at_def)
  next
    case False
    have m: "unat (b mod 8) = goffset b" by (simp add: goffset_def unat_mod_distrib)
    then have "b mod 8 \<noteq> 0" using False by (metis unat_0)
    then have pp: "pp = b + 8 - b mod 8" using False assms(2) by (simp add: pp_def pointer_alignment_def)
    have "unat (b + 8) = unat b + 8" using b by (simp add: unat_word_ariths)
    then have "unat pp = unat b + 8 - goffset b" unfolding pp using m goffset_less [of b] by (subst unat_sub) (simp_all add: word_le_nat_alt)
    then have u: "unat pp = 8 * (granule b + 1)" using unat_granule [of b] by simp
    have "unat pp \<le> unat q" if "word_at env b e q"
    proof -
      have "goffset q = 0" "unat b \<le> unat q" using that False by (simp_all add: word_at_def)
      then have "granule b < granule q" using False unat_granule [of b] unat_granule [of q] by simp
      then show ?thesis using u \<open>goffset q = 0\<close> unat_granule [of q] by simp
    qed
    moreover have "goffset pp = 0" by (simp add: goffset_def u)
    moreover have "unat b \<le> unat pp" "unat pp + 8 < 2 ^ 64" using u b unat_granule [of b] goffset_less [of b] False by simp_all
    ultimately show ?thesis by blast
  qed
  then show "unat b \<le> unat pp" "unat pp + 8 < 2 ^ 64" "use_unaligned (le_flags env) \<or> goffset pp = 0" by simp_all
  show "unat pp \<le> unat q" if "word_at env b e q" using * that by blast
qed

lemma ScanForPointers_run:
  assumes "lsan_ok env (fst s)" and "range_ok b e" and t: "t = kReachable \<or> t = kIndirectlyLeaked"
    and "accessor_Init env acc b e m = Some m'"
  shows "\<exists>s'. ScanForPointers env b e t acc m s = Some s' \<and> scanned env t (targets env (fst s) acc m (b, e)) s s'"
proof -
  define a where "a = pointer_alignment (le_flags env)"
  define pp where "pp = (if b mod a \<noteq> 0 then b + a - b mod a else b)"
  note F = first_word [OF assms(2) a_def, folded pp_def]
  have e: "unat e + 80 \<le> 2 ^ 64" using assms(2) by (simp add: range_ok_def)
  have at: "word_at env pp e q \<longleftrightarrow> word_at env b e q" for q using F(1,4) by (auto simp: word_at_def)
  have load: "accessor_LoadPtr acc b e m' q \<noteq> None" if "word_at env pp e q" for q
  proof -
    have q: "unat b \<le> unat q" "unat q + 8 \<le> unat e" using that unfolding at by (simp_all add: word_at_def)
    then have "unat (q - b) = unat q - unat b" "unat (e - b) = unat e - unat b" by (simp_all add: unat_sub word_le_nat_alt)
    then have "q - b + 8 \<le> e - b" using q uptr_bound [of e] by (simp add: word_le_nat_alt unat_word_ariths)
    then show ?thesis by (cases acc) (simp_all add: accessor_LoadPtr_def)
  qed
  show ?thesis
  proof (cases "unat pp + 16 \<le> 2 ^ 64")
    case True
    then have r: "range_ok pp e" using e by (simp add: range_ok_def)
    obtain s' where s': "scan_loop env (accessor_LoadPtr acc b e m') b t e pp s = Some s'"
      "scanned env t (range_targets env (fst s) (accessor_LoadPtr acc b e m') b pp e) s s'"
      using scan_loop_run [where b = b and load = "accessor_LoadPtr acc b e m'", OF assms(1) r t F(3) load] by blast
    have "seen env acc b e m = accessor_LoadPtr acc b e m'" using assms(4) by (simp add: seen_def fun_eq_iff)
    then have "range_targets env (fst s) (accessor_LoadPtr acc b e m') b pp e = targets env (fst s) acc m (b, e)"
      by (simp add: range_targets_def targets_def at)
    then show ?thesis using s' assms(4) t by (simp add: ScanForPointers_def Let_def a_def [symmetric] pp_def [symmetric])
  next
    case False
    have "unat (pp + 8) = unat pp + 8" using F(2) by (simp add: unat_word_ariths)
    then have stop: "\<not> pp + 8 \<le> e" using False e by (simp add: word_le_nat_alt)
    have "\<not> word_at env b e q" for q unfolding at [symmetric] using False e by (auto simp: word_at_def)
    then have "targets env (fst s) acc m (b, e) = {}" by (auto simp: targets_def)
    moreover have "scan_loop env (accessor_LoadPtr acc b e m') b t e pp s = Some s" using stop by (subst scan_loop.simps) simp
    ultimately show ?thesis using scanned_refl [of env t s] assms(4) t
      by (simp add: ScanForPointers_def Let_def a_def [symmetric] pp_def [symmetric])
  qed
qed

end
