(* ===== verification/Lsan_Roots.thy ===== *)
theory Lsan_Roots
  imports Lsan_Scan
begin

text \<open>
  The root set of the leak checker as a list of scanning jobs, and the proof that the functions that process
  globals, threads and root regions run exactly these jobs: they add to the frontier the chunks that the words
  of the jobs point into.
\<close>

unbundle bit_operations_syntax

section \<open>Searching a sorted vector\<close>

interpretation linorder_sort: weak_order "(<) :: 'a::linorder \<Rightarrow> 'a \<Rightarrow> bool"
  by unfold_locales auto

lemma Sort_linorder: "sorted (Sort (<) v)" "set (Sort (<) v) = set (v :: 'a::linorder list)"
  using linorder_sort.Sort_ordered [of v] mset_eq_setD [OF linorder_sort.Sort_mset [of v]] unfolding not_less by simp_all

lemma lower_bound_member:
  fixes v :: "'a::linorder list"
  assumes "sorted v"
  shows "(length v \<le> InternalLowerBound (<) v x \<or> v ! InternalLowerBound (<) v x \<noteq> x) \<longleftrightarrow> x \<notin> set v"
proof -
  let ?i = "InternalLowerBound (<) v x"
  have mono: "v ! i < x" if "i < j" "j < length v" "v ! j < x" for i j
    using that sorted_nth_mono [OF assms, of i j] by simp
  have le: "?i \<le> length v" and lt: "\<And>i. i < length v \<Longrightarrow> v ! i < x \<longleftrightarrow> i < ?i"
    using InternalLowerBound_correct [where cmp = "(<)" and v = v and val = x, OF mono] by auto
  show ?thesis
  proof
    assume miss: "length v \<le> ?i \<or> v ! ?i \<noteq> x"
    show "x \<notin> set v"
    proof
      assume "x \<in> set v"
      then obtain j where j: "j < length v" "v ! j = x" by (auto simp: in_set_conv_nth)
      then have "?i \<le> j" using lt [of j] by simp
      then have "?i < length v" "v ! ?i \<le> x" using j sorted_nth_mono [OF assms, of ?i j] by simp_all
      then show False using miss lt [of ?i] by simp
    qed
  next
    assume "x \<notin> set v"
    then show "length v \<le> ?i \<or> v ! ?i \<noteq> x" using nth_mem [of ?i v] by force
  qed
qed

section \<open>Jobs\<close>

text \<open>A job is a range, the memory it is read from if it is not the memory of the process, and the accessor.\<close>

type_synonym job = "Accessor \<times> mem option \<times> uptr \<times> uptr"

definition job_targets :: "lsan_env \<Rightarrow> heap \<Rightarrow> job \<Rightarrow> uptr set" where
  "job_targets env st j = (case j of (acc, mo, r) \<Rightarrow> targets env st acc (case mo of None \<Rightarrow> hmem st | Some m \<Rightarrow> m) r)"

definition job_ok :: "lsan_env \<Rightarrow> heap \<Rightarrow> job \<Rightarrow> bool" where
  "job_ok env st j = (case j of (acc, mo, b, e) \<Rightarrow> range_ok b e \<and>
     accessor_Init env acc b e (case mo of None \<Rightarrow> hmem st | Some m \<Rightarrow> m) \<noteq> None)"

definition jobs_targets :: "lsan_env \<Rightarrow> heap \<Rightarrow> job list \<Rightarrow> uptr set" where
  "jobs_targets env st js = (\<Union>j\<in>set js. job_targets env st j)"

text \<open>The state while the roots are collected: the frontier holds the chunks \<open>R\<close>, and these are the marked ones.
  A chunk that was marked before keeps its tag unless it is in \<open>A\<close>, the chunks that are tagged whatever their tag.\<close>

definition roots_inv :: "lsan_env \<Rightarrow> heap \<Rightarrow> uptr set \<Rightarrow> uptr set \<Rightarrow> scan_state \<Rightarrow> bool" where
  "roots_inv env st A R s \<longleftrightarrow> same_heap st (fst s) \<and> A \<subseteq> R \<and> marked env st \<subseteq> R \<and> R \<subseteq> chunks env st \<and>
     (\<exists>fr. snd s = Some fr \<and> set fr = R) \<and>
     (\<forall>c\<in>chunks env st. chunk_tag (fst s) c = (if c \<in> A \<union> (R - marked env st) then kReachable else chunk_tag st c))"

lemma roots_inv_same: "roots_inv env st A R s \<Longrightarrow> same_heap st (fst s)" "roots_inv env st A R s \<Longrightarrow> hmem (fst s) = hmem st"
    "roots_inv env st A R s \<Longrightarrow> hs (fst s) = hs st"
  by (simp_all add: roots_inv_def same_heapD)

lemma in_marked: "c \<in> chunks env st \<Longrightarrow> c \<in> marked env st \<longleftrightarrow> chunk_tag st c = kReachable \<or> chunk_tag st c = kIgnored"
  by (simp add: marked_def)

lemma roots_inv_marked:
  assumes "roots_inv env st A R s"
  shows "marked env (fst s) = R"
proof -
  have sub: "A \<subseteq> R" "marked env st \<subseteq> R" "R \<subseteq> chunks env st" and c: "chunks env (fst s) = chunks env st"
    using assms same_chunks(1) by (simp_all add: roots_inv_def)
  have "c \<in> marked env (fst s) \<longleftrightarrow> c \<in> R" for c
  proof (cases "c \<in> chunks env st")
    case True
    have "chunk_tag (fst s) c = (if c \<in> A \<union> (R - marked env st) then kReachable else chunk_tag st c)"
      using assms True by (simp add: roots_inv_def)
    then show ?thesis using in_marked [OF True] in_marked [of c env "fst s"] True c sub by auto
  next
    case False
    then show ?thesis using sub(3) c by (auto simp: marked_def)
  qed
  then show ?thesis by blast
qed

lemma roots_scanned:
  assumes "roots_inv env st A R s" and "scanned env kReachable T s s'" and "T \<subseteq> chunks env st"
  shows "roots_inv env st A (R \<union> T) s'"
proof -
  have h: "same_heap st (fst s)" "same_heap (fst s) (fst s')" using assms(1,2) by (simp_all add: roots_inv_def scanned_def)
  have c: "chunks env (fst s) = chunks env st" by (rule same_chunks(1) [OF h(1)])
  have sub: "A \<subseteq> R" "marked env st \<subseteq> R" "R \<subseteq> chunks env st" using assms(1) by (simp_all add: roots_inv_def)
  note m = roots_inv_marked [OF assms(1)]
  obtain fr new where "snd s = Some fr" "set fr = R" "snd s' = Some (fr @ new)" "set new = T - R"
    using assms(1,2) m by (auto simp: roots_inv_def scanned_def)
  then have "\<exists>fr. snd s' = Some fr \<and> set fr = R \<union> T" by auto
  moreover have "chunk_tag (fst s') d = (if d \<in> A \<union> (R \<union> T - marked env st) then kReachable else chunk_tag st d)"
    if d: "d \<in> chunks env st" for d
  proof -
    have "chunk_tag (fst s') d = (if d \<in> T - R then kReachable else chunk_tag (fst s) d)"
      using d assms(2) c m by (simp add: scanned_def)
    moreover have "chunk_tag (fst s) d = (if d \<in> A \<union> (R - marked env st) then kReachable else chunk_tag st d)"
      using d assms(1) by (simp add: roots_inv_def)
    ultimately show ?thesis using sub by auto
  qed
  ultimately show ?thesis using same_heap_trans [OF h] sub assms(3) by (auto simp: roots_inv_def)
qed

text \<open>\<open>f\<close> runs the jobs \<open>js\<close>.\<close>

definition runs :: "lsan_env \<Rightarrow> heap \<Rightarrow> (scan_state \<Rightarrow> scan_state option) \<Rightarrow> job list \<Rightarrow> bool" where
  "runs env st f js \<longleftrightarrow> ((\<forall>j\<in>set js. job_ok env st j) \<longrightarrow>
     (\<forall>A R s. roots_inv env st A R s \<longrightarrow> (\<exists>s'. f s = Some s' \<and> roots_inv env st A (R \<union> jobs_targets env st js) s')))"

lemma runsD:
  assumes "runs env st f js" and "\<forall>j\<in>set js. job_ok env st j" and "roots_inv env st A R s"
  obtains s' where "f s = Some s'" and "roots_inv env st A (R \<union> jobs_targets env st js) s'"
  using assms unfolding runs_def by blast

lemma runs_skip: "runs env st Some []"
  by (simp add: runs_def jobs_targets_def)

lemma runs_bind:
  assumes "runs env st f js" and "runs env st g ks"
  shows "runs env st (\<lambda>s. Option.bind (f s) g) (js @ ks)"
  unfolding runs_def
proof (intro impI allI)
  fix A R s assume ok: "\<forall>j\<in>set (js @ ks). job_ok env st j" and R: "roots_inv env st A R s"
  obtain s1 where s1: "f s = Some s1" "roots_inv env st A (R \<union> jobs_targets env st js) s1"
    using runsD [OF assms(1) _ R] ok by auto
  obtain s2 where s2: "g s1 = Some s2" "roots_inv env st A (R \<union> jobs_targets env st js \<union> jobs_targets env st ks) s2"
    using runsD [OF assms(2) _ s1(2)] ok by auto
  have "R \<union> jobs_targets env st js \<union> jobs_targets env st ks = R \<union> jobs_targets env st (js @ ks)" by (auto simp: jobs_targets_def)
  then show "\<exists>s'. Option.bind (f s) g = Some s' \<and> roots_inv env st A (R \<union> jobs_targets env st (js @ ks)) s'"
    using s1(1) s2 by simp
qed

lemma runs_cong:
  assumes "runs env st f js" and "\<And>A R s. roots_inv env st A R s \<Longrightarrow> g s = f s"
  shows "runs env st g js"
  using assms unfolding runs_def by metis

lemma runs_if: "(c \<Longrightarrow> runs env st f js) \<Longrightarrow> (\<not> c \<Longrightarrow> runs env st g ks) \<Longrightarrow> runs env st (\<lambda>s. if c then f s else g s) (if c then js else ks)"
  by simp

lemma runs_scan:
  assumes "lsan_ok env st"
  shows "runs env st (\<lambda>s. ScanForPointers env b e kReachable acc (hmem (fst s)) s) [(acc, None, b, e)]"
    and "runs env st (ScanForPointers env b e kReachable acc m) [(acc, Some m, b, e)]"
    and "runs env st (ScanRangeForPointers env b e kReachable) [(DirectMemoryAccessor, None, b, e)]"
proof -
  have run: "\<exists>s'. ScanForPointers env b e kReachable acc m s = Some s' \<and> roots_inv env st A (R \<union> targets env st acc m (b, e)) s'"
    if inv: "roots_inv env st A R s" and rng: "range_ok b e" and ini: "accessor_Init env acc b e m \<noteq> None" for A R s m acc
  proof -
    note h = roots_inv_same(1) [OF inv]
    have ok: "lsan_ok env (fst s)" using assms same_chunks(3) [OF h] by simp
    obtain m' where "accessor_Init env acc b e m = Some m'" using ini by blast
    then obtain s' where s': "ScanForPointers env b e kReachable acc m s = Some s'"
      "scanned env kReachable (targets env st acc m (b, e)) s s'"
      using ScanForPointers_run [OF ok rng disjI1 [OF refl]] unfolding same_targets [OF h] by blast
    then show ?thesis using roots_scanned [OF inv s'(2) targets_chunks [OF assms]] by blast
  qed
  show "runs env st (\<lambda>s. ScanForPointers env b e kReachable acc (hmem (fst s)) s) [(acc, None, b, e)]"
    unfolding runs_def jobs_targets_def job_targets_def job_ok_def using run [of _ _ _ acc "hmem st"] by (simp add: roots_inv_same)
  then show "runs env st (ScanRangeForPointers env b e kReachable) [(DirectMemoryAccessor, None, b, e)]"
    unfolding runs_def jobs_targets_def job_targets_def job_ok_def ScanRangeForPointers_def
    using run [of _ _ _ DirectMemoryAccessor "hmem st"] by (simp add: roots_inv_same)
  show "runs env st (ScanForPointers env b e kReachable acc m) [(acc, Some m, b, e)]"
    unfolding runs_def jobs_targets_def job_targets_def job_ok_def using run [of _ _ _ acc m] by simp
qed

lemma runs_ranges:
  assumes "lsan_ok env st"
  shows "runs env st (ScanRanges env acc rs) (map (\<lambda>r. (acc, None, r)) rs)"
proof (induction rs)
  case Nil
  then show ?case using runs_skip by (simp add: fun_eq_iff)
next
  case (Cons r rs)
  obtain b e where r: "r = (b, e)" by (cases r)
  show ?case using runs_bind [OF runs_scan(1) [OF assms, of b e acc] Cons.IH] by (auto simp: r intro: runs_cong)
qed

section \<open>Globals\<close>

definition split_range :: "uptr \<times> uptr \<Rightarrow> uptr \<times> uptr \<Rightarrow> (uptr \<times> uptr) list" where
  "split_range a r = (if fst r \<le> fst a \<and> fst a < snd r
     then (if fst r < fst a then [(fst r, fst a)] else []) @ (if snd a < snd r then [(snd a, snd r)] else []) else [r])"

text \<open>The allocator object lies in the segment that holds its start.\<close>

definition allocator_inside :: "lsan_env \<Rightarrow> uptr \<times> uptr \<Rightarrow> bool" where
  "allocator_inside env r \<longleftrightarrow> (fst r \<le> fst (le_allocator_range env) \<and> fst (le_allocator_range env) < snd r \<longrightarrow>
     fst (le_allocator_range env) \<le> snd (le_allocator_range env) \<and> snd (le_allocator_range env) \<le> snd r)"

definition segment :: "uptr \<Rightarrow> Phdr \<Rightarrow> uptr \<times> uptr" where
  "segment a ph = (a + p_vaddr ph, a + p_vaddr ph + p_memsz ph)"

definition data_segments :: "(uptr \<times> Phdr list) list \<Rightarrow> (uptr \<times> uptr) list" where
  "data_segments ms = concat (map (\<lambda>(a, phs). map (segment a) (filter (\<lambda>ph. p_writable ph \<and> p_load ph \<and> p_memsz ph \<noteq> 0) phs)) ms)"

definition direct_jobs :: "(uptr \<times> uptr) list \<Rightarrow> job list" where
  "direct_jobs rs = map (\<lambda>r. (DirectMemoryAccessor, None, r)) rs"

definition segment_jobs :: "lsan_env \<Rightarrow> (uptr \<times> uptr) list \<Rightarrow> job list" where
  "segment_jobs env rs = direct_jobs (concat (map (split_range (le_allocator_range env)) rs))"

definition global_jobs :: "lsan_env \<Rightarrow> job list" where
  "global_jobs env = (if use_globals (le_flags env) then segment_jobs env (data_segments (le_modules env)) else [])"

lemma runs_ScanGlobalRange:
  assumes "lsan_ok env st" and "allocator_inside env (b, e)"
  shows "runs env st (ScanGlobalRange env b e) (segment_jobs env [(b, e)])"
proof -
  obtain x y where a: "le_allocator_range env = (x, y)" by (cases "le_allocator_range env")
  note S = runs_scan(3) [OF assms(1)]
  show ?thesis
  proof (cases "b \<le> x \<and> x < e")
    case False
    then have "ScanGlobalRange env b e = ScanRangeForPointers env b e kReachable" by (auto simp: fun_eq_iff ScanGlobalRange_def a)
    moreover have "split_range (x, y) (b, e) = [(b, e)]" using False by (auto simp: split_range_def)
    ultimately show ?thesis using S [of b e] by (simp add: segment_jobs_def direct_jobs_def a)
  next
    case True
    have I: "x \<le> y" "y \<le> e" using assms(2) True by (simp_all add: allocator_inside_def a)
    have r: "runs env st (\<lambda>s. Option.bind (if b < x then ScanRangeForPointers env b x kReachable s else Some s)
        (\<lambda>s. if y < e then ScanRangeForPointers env y e kReachable s else Some s))
        ((if b < x then [(DirectMemoryAccessor, None, b, x)] else []) @ (if y < e then [(DirectMemoryAccessor, None, y, e)] else []))"
      by (rule runs_bind; rule runs_if) (rule S runs_skip)+
    have j: "segment_jobs env [(b, e)] =
        (if b < x then [(DirectMemoryAccessor, None, b, x)] else []) @ (if y < e then [(DirectMemoryAccessor, None, y, e)] else [])"
      using True by (simp add: segment_jobs_def direct_jobs_def split_range_def a)
    have q: "ScanGlobalRange env b e s = Option.bind (if b < x then ScanRangeForPointers env b x kReachable s else Some s)
        (\<lambda>s. if y < e then ScanRangeForPointers env y e kReachable s else Some s)" for s
      using True I by (simp add: ScanGlobalRange_def a)
    show ?thesis unfolding j using r by (rule runs_cong) (rule q)
  qed
qed

lemma segment_jobs_Cons: "segment_jobs env (r # rs) = segment_jobs env [r] @ segment_jobs env rs"
  by (simp add: segment_jobs_def direct_jobs_def)

lemma segment_jobs_append: "segment_jobs env (rs @ rs') = segment_jobs env rs @ segment_jobs env rs'"
  by (simp add: segment_jobs_def direct_jobs_def)

lemma runs_scan_phdrs:
  assumes "lsan_ok env st" and "\<forall>r\<in>set (data_segments [(a, phs)]). allocator_inside env r"
  shows "runs env st (scan_phdrs env a phs) (segment_jobs env (data_segments [(a, phs)]))"
  using assms(2)
proof (induction phs)
  case Nil
  then show ?case using runs_skip by (auto simp: segment_jobs_def direct_jobs_def data_segments_def intro: runs_cong)
next
  case (Cons ph phs)
  show ?case
  proof (cases "p_writable ph \<and> p_load ph \<and> p_memsz ph \<noteq> 0")
    case False
    then show ?thesis using Cons by (auto simp: data_segments_def intro!: runs_cong)
  next
    case True
    obtain b e where be: "segment a ph = (b, e)" by (cases "segment a ph")
    have eq: "data_segments [(a, ph # phs)] = (b, e) # data_segments [(a, phs)]" using True be by (simp add: data_segments_def)
    note j = segment_jobs_Cons [of env "(b, e)" "data_segments [(a, phs)]"]
    have "runs env st (\<lambda>s. Option.bind (ScanGlobalRange env b e s) (scan_phdrs env a phs)) (segment_jobs env (data_segments [(a, ph # phs)]))"
      unfolding eq j
      using Cons.prems unfolding eq by (intro runs_bind runs_ScanGlobalRange [OF assms(1)] Cons.IH) auto
    then show ?thesis by (rule runs_cong) (use True be in \<open>auto simp: segment_def Let_def\<close>)
  qed
qed

lemma runs_scan_modules:
  assumes "lsan_ok env st" and "\<forall>r\<in>set (data_segments ms). allocator_inside env r"
  shows "runs env st (scan_modules env ms) (segment_jobs env (data_segments ms))"
  using assms(2)
proof (induction ms)
  case Nil
  then show ?case using runs_skip by (auto simp: segment_jobs_def direct_jobs_def data_segments_def intro: runs_cong)
next
  case (Cons x ms)
  obtain a phs where x: "x = (a, phs)" by (cases x)
  have eq: "data_segments (x # ms) = data_segments [(a, phs)] @ data_segments ms" by (simp add: x data_segments_def)
  have "runs env st (\<lambda>s. Option.bind (scan_phdrs env a phs s) (scan_modules env ms)) (segment_jobs env (data_segments (x # ms)))"
    unfolding eq segment_jobs_append using Cons.prems unfolding eq by (intro runs_bind runs_scan_phdrs [OF assms(1)] Cons.IH) auto
  then show ?case by (rule runs_cong) (simp add: x)
qed

definition allocator_ok :: "lsan_env \<Rightarrow> bool" where
  "allocator_ok env \<longleftrightarrow> (\<forall>r\<in>set (data_segments (le_modules env)). allocator_inside env r)"

lemma runs_globals:
  assumes "lsan_ok env st" and "allocator_ok env"
  shows "runs env st (ProcessGlobalRegions env) (global_jobs env)"
proof -
  have "runs env st (\<lambda>s. if use_globals (le_flags env) then scan_modules env (le_modules env) s else Some s)
      (if use_globals (le_flags env) then segment_jobs env (data_segments (le_modules env)) else [])"
    using assms by (intro runs_if runs_scan_modules runs_skip) (simp_all add: allocator_ok_def)
  then show ?thesis unfolding global_jobs_def by (rule runs_cong) (simp add: ProcessGlobalRegions_def)
qed

section \<open>Threads\<close>

definition register_jobs :: "lsan_env \<Rightarrow> Accessor \<Rightarrow> (uptr \<times> uptr) \<times> mem \<Rightarrow> job list" where
  "register_jobs env acc regs = (if use_registers (le_flags env) then [(acc, Some (snd regs), fst regs)] else [])"

lemma runs_registers:
  assumes "lsan_ok env st"
  shows "runs env st (scan_registers env acc regs) (register_jobs env acc regs)"
proof -
  obtain b e m where r: "regs = ((b, e), m)" by (metis surj_pair)
  have "runs env st (\<lambda>s. if use_registers (le_flags env) then ScanForPointers env b e kReachable acc m s else Some s)
      (if use_registers (le_flags env) then [(acc, Some m, b, e)] else [])"
    by (intro runs_if runs_scan(2) [OF assms] runs_skip)
  then show ?thesis unfolding register_jobs_def r fst_conv snd_conv by (rule runs_cong) (simp add: scan_registers_def)
qed

text \<open>Where the scan of a stack begins.\<close>

definition stack_scan_begin :: "lsan_env \<Rightarrow> uptr \<Rightarrow> uptr \<times> uptr \<Rightarrow> uptr option" where
  "stack_scan_begin env sp stack =
     (if sp < fst stack \<or> sp \<ge> snd stack then skip_guard_pages env (fst stack) (snd stack) else Some sp)"

definition lsan_world :: "lsan_env \<Rightarrow> heap \<Rightarrow> thread_world" where
  "lsan_world env st = \<lparr>tw_mem = \<lparr>fmem = hmem st, fasan = hs st\<rparr>, fakes = le_fakes env, fake_stack_tls = 0\<rparr>"

definition stack_jobs :: "lsan_env \<Rightarrow> heap \<Rightarrow> Accessor \<Rightarrow> nat \<Rightarrow> uptr \<Rightarrow> uptr \<times> uptr \<Rightarrow> job list option" where
  "stack_jobs env st acc os sp stack =
     (if use_stacks (le_flags env)
      then map_option (\<lambda>b. map (\<lambda>r. (acc, None, r)) ((b, snd stack) #
        GetThreadExtraStackRangesLocked (le_threads env) (lsan_world env st) (le_registry env) os)) (stack_scan_begin env sp stack)
      else Some [])"

lemma runs_stack:
  assumes "lsan_ok env st" and "stack_jobs env st acc os sp stack = Some js"
  shows "runs env st (scan_stack env acc os sp stack) js"
proof (cases "use_stacks (le_flags env)")
  case False
  then show ?thesis using assms(2) runs_skip by (auto simp: scan_stack_def stack_jobs_def intro!: runs_cong [OF runs_skip])
next
  case True
  let ?ex = "GetThreadExtraStackRangesLocked (le_threads env) (lsan_world env st) (le_registry env) os"
  obtain b where b: "stack_scan_begin env sp stack = Some b" and js: "js = map (\<lambda>r. (acc, None, r)) ((b, snd stack) # ?ex)"
    using assms(2) True by (auto simp: stack_jobs_def)
  have js': "js = [(acc, None, b, snd stack)] @ map (\<lambda>r. (acc, None, r)) ?ex" by (simp add: js)
  have "runs env st (\<lambda>s. Option.bind (ScanForPointers env b (snd stack) kReachable acc (hmem (fst s)) s)
      (\<lambda>s. ScanRanges env acc (GetThreadExtraStackRangesLocked (le_threads env) (lsan_world env (fst s)) (le_registry env) os) s)) js"
    unfolding js' by (intro runs_bind runs_scan(1) [OF assms(1)] runs_cong [OF runs_ranges [OF assms(1)]]) (simp add: lsan_world_def roots_inv_same)
  moreover have "scan_stack env acc os sp stack s = Option.bind (stack_scan_begin env sp stack) (\<lambda>b.
      Option.bind (ScanForPointers env b (snd stack) kReachable acc (hmem (fst s)) s)
      (\<lambda>s. ScanRanges env acc (GetThreadExtraStackRangesLocked (le_threads env) (lsan_world env (fst s)) (le_registry env) os) s))" for s
    unfolding scan_stack_def stack_scan_begin_def lsan_world_def Let_def split_beta using True by (simp only: if_True)
  ultimately show ?thesis by (elim runs_cong) (simp only: b Option.bind.bind_lunit)
qed

definition tls_jobs :: "lsan_env \<Rightarrow> Accessor \<Rightarrow> thread_ranges \<Rightarrow> job list" where
  "tls_jobs env acc tr =
     (if use_tls (le_flags env) then
        map (\<lambda>r. (acc, None, r))
          ((if fst (tr_tls tr) = 0 then []
            else if fst (tr_cache tr) = snd (tr_cache tr) \<or> snd (tr_tls tr) < fst (tr_cache tr) \<or> fst (tr_tls tr) > snd (tr_cache tr)
            then [tr_tls tr]
            else (if fst (tr_tls tr) < fst (tr_cache tr) then [(fst (tr_tls tr), fst (tr_cache tr))] else []) @
              (if snd (tr_tls tr) > snd (tr_cache tr) then [(snd (tr_cache tr), snd (tr_tls tr))] else [])) @
           (case tr_dtls tr of None \<Rightarrow> []
            | Some ds \<Rightarrow> map (\<lambda>(b, n). (b, b + n)) (filter (\<lambda>(b, n). b < b + n) ds)))
      else [])"

lemma runs_dtls:
  assumes "lsan_ok env st"
  shows "runs env st (scan_dtls env acc ds) (map (\<lambda>r. (acc, None, r)) (map (\<lambda>(b, n). (b, b + n)) (filter (\<lambda>(b, n). b < b + n) ds)))"
proof (induction ds)
  case Nil
  then show ?case using runs_skip by (auto intro: runs_cong)
next
  case (Cons d ds)
  obtain b n where d: "d = (b, n)" by (cases d)
  have "runs env st (\<lambda>s. Option.bind (if b < b + n then ScanForPointers env b (b + n) kReachable acc (hmem (fst s)) s else Some s) (scan_dtls env acc ds))
     ((if b < b + n then [(acc, None, b, b + n)] else []) @ map (\<lambda>r. (acc, None, r)) (map (\<lambda>(b, n). (b, b + n)) (filter (\<lambda>(b, n). b < b + n) ds)))"
    by (intro runs_bind runs_if runs_scan(1) [OF assms] runs_skip Cons.IH)
  then show ?case by (auto simp: d intro!: runs_cong split: if_splits)
qed

lemma runs_tls:
  assumes "lsan_ok env st"
  shows "runs env st (scan_tls env acc tr) (tls_jobs env acc tr)"
proof (cases "use_tls (le_flags env)")
  case False
  then show ?thesis by (auto simp: scan_tls_def tls_jobs_def intro!: runs_cong [OF runs_skip])
next
  case True
  obtain tb te cb ce where r: "tr_tls tr = (tb, te)" "tr_cache tr = (cb, ce)" by (metis surj_pair)
  let ?apart = "cb = ce \<or> te < cb \<or> tb > ce"
  let ?f = "\<lambda>s. if tb \<noteq> 0 then (if ?apart then ScanForPointers env tb te kReachable acc (hmem (fst s)) s
      else Option.bind (if tb < cb then ScanForPointers env tb cb kReachable acc (hmem (fst s)) s else Some s)
        (\<lambda>s. if te > ce then ScanForPointers env ce te kReachable acc (hmem (fst s)) s else Some s)) else Some s"
  let ?js = "if tb \<noteq> 0 then (if ?apart then [(acc, None, tb, te)]
      else (if tb < cb then [(acc, None, tb, cb)] else []) @ (if te > ce then [(acc, None, ce, te)] else [])) else []"
  let ?g = "\<lambda>s. case tr_dtls tr of Some ds \<Rightarrow> scan_dtls env acc ds s | None \<Rightarrow> Some s"
  let ?ks = "map (\<lambda>r. (acc, None, r)) (case tr_dtls tr of None \<Rightarrow> [] | Some ds \<Rightarrow> map (\<lambda>(b, n). (b, b + n)) (filter (\<lambda>(b, n). b < b + n) ds))"
  have f: "runs env st ?f ?js" by (intro runs_if runs_bind runs_scan(1) [OF assms] runs_skip)
  have g: "runs env st ?g ?ks" using runs_dtls [OF assms, of acc] runs_skip by (cases "tr_dtls tr") simp_all
  have js: "tls_jobs env acc tr = ?js @ ?ks" using True by (simp add: tls_jobs_def r)
  have eq: "scan_tls env acc tr s = Option.bind (?f s) ?g" for s using True by (simp add: scan_tls_def r)
  show ?thesis unfolding js using runs_bind [OF f g] by (rule runs_cong) (rule eq)
qed

definition thread_jobs :: "lsan_env \<Rightarrow> heap \<Rightarrow> nat \<Rightarrow> uptr \<Rightarrow> (uptr \<times> uptr) \<times> mem \<Rightarrow> Accessor \<Rightarrow> job list option" where
  "thread_jobs env st os sp regs acc =
     (case GetThreadRangesLocked (le_cur env) (le_threads env) (le_registry env) os of
        None \<Rightarrow> Some []
      | Some tr \<Rightarrow> map_option (\<lambda>js. register_jobs env acc regs @ js @ tls_jobs env acc tr)
          (stack_jobs env st acc os (if sp = 0 then fst (tr_stack tr) else sp) (tr_stack tr)))"

lemma runs_thread:
  assumes "lsan_ok env st" and "thread_jobs env st os sp regs acc = Some js"
  shows "runs env st (ProcessThread env os sp regs acc) js"
proof (cases "GetThreadRangesLocked (le_cur env) (le_threads env) (le_registry env) os")
  case None
  then show ?thesis using assms(2) by (auto simp: ProcessThread_def thread_jobs_def intro!: runs_cong [OF runs_skip])
next
  case (Some tr)
  let ?sp = "if sp = 0 then fst (tr_stack tr) else sp"
  obtain ks where ks: "stack_jobs env st acc os ?sp (tr_stack tr) = Some ks" "js = register_jobs env acc regs @ ks @ tls_jobs env acc tr"
    using assms(2) Some by (auto simp: thread_jobs_def)
  have "runs env st (\<lambda>s. Option.bind (scan_registers env acc regs s) (\<lambda>s. Option.bind (scan_stack env acc os ?sp (tr_stack tr) s) (scan_tls env acc tr))) js"
    unfolding ks(2) by (intro runs_bind runs_registers runs_stack runs_tls assms(1) ks(1))
  then show ?thesis by (rule runs_cong) (simp add: ProcessThread_def Some)
qed

definition suspended_sp :: "lsan_env \<Rightarrow> suspended \<Rightarrow> uptr" where
  "suspended_sp env su = (if su_tid su = fst (le_caller env) then snd (le_caller env)
     else if su_status su = REGISTERS_AVAILABLE then su_sp su else 0)"

text \<open>The jobs of several threads.\<close>

fun gather :: "job list option list \<Rightarrow> job list option" where
  "gather [] = Some []"
| "gather (x # xs) = Option.bind x (\<lambda>js. map_option ((@) js) (gather xs))"

definition scanned_threads :: "lsan_env \<Rightarrow> suspended list" where
  "scanned_threads env = filter (\<lambda>su. su_status su \<noteq> REGISTERS_UNAVAILABLE_FATAL) (le_suspended env)"

definition suspended_jobs :: "lsan_env \<Rightarrow> heap \<Rightarrow> suspended list \<Rightarrow> job list option" where
  "suspended_jobs env st sus = gather (map (\<lambda>su.
     thread_jobs env st (su_tid su) (suspended_sp env su) (su_regs su, su_reg_bytes su) DirectMemoryAccessor) sus)"

lemma process_suspended_run:
  assumes "lsan_ok env st" and "suspended_jobs env st (filter (\<lambda>su. su_status su \<noteq> REGISTERS_UNAVAILABLE_FATAL) sus) = Some js"
    and "\<forall>j\<in>set js. job_ok env st j" and "roots_inv env st A R s"
  shows "\<exists>s'. process_suspended env sus s =
      Some (if use_detached (le_flags env) then map su_tid (filter (\<lambda>su. su_status su \<noteq> REGISTERS_UNAVAILABLE_FATAL) sus) else [], s') \<and>
    roots_inv env st A (R \<union> jobs_targets env st js) s'"
  using assms(2-4)
proof (induction sus arbitrary: R s js)
  case Nil
  then show ?case by (simp add: suspended_jobs_def jobs_targets_def)
next
  case (Cons su sus)
  show ?case
  proof (cases "su_status su = REGISTERS_UNAVAILABLE_FATAL")
    case True
    then have "filter (\<lambda>su. su_status su \<noteq> REGISTERS_UNAVAILABLE_FATAL) (su # sus) =
        filter (\<lambda>su. su_status su \<noteq> REGISTERS_UNAVAILABLE_FATAL) sus"
      and "process_suspended env (su # sus) s = process_suspended env sus s" by simp_all
    then show ?thesis using Cons.IH [OF _ Cons.prems(2,3)] Cons.prems(1) by metis
  next
    case False
    obtain ks ls where ks: "thread_jobs env st (su_tid su) (suspended_sp env su) (su_regs su, su_reg_bytes su) DirectMemoryAccessor = Some ks"
      "suspended_jobs env st (filter (\<lambda>su. su_status su \<noteq> REGISTERS_UNAVAILABLE_FATAL) sus) = Some ls" "js = ks @ ls"
      using Cons.prems(1) False by (auto simp: suspended_jobs_def split: bind_splits)
    obtain s1 where s1: "ProcessThread env (su_tid su) (suspended_sp env su) (su_regs su, su_reg_bytes su) DirectMemoryAccessor s = Some s1"
      "roots_inv env st A (R \<union> jobs_targets env st ks) s1"
      using runsD [OF runs_thread [OF assms(1) ks(1)] _ Cons.prems(3)] Cons.prems(2) ks(3) by auto
    obtain s2 where s2: "process_suspended env sus s1 =
        Some (if use_detached (le_flags env) then map su_tid (filter (\<lambda>su. su_status su \<noteq> REGISTERS_UNAVAILABLE_FATAL) sus) else [], s2)"
      "roots_inv env st A (R \<union> jobs_targets env st ks \<union> jobs_targets env st ls) s2"
      using Cons.IH [OF ks(2) _ s1(2)] Cons.prems(2) ks(3) by auto
    have "R \<union> jobs_targets env st ks \<union> jobs_targets env st ls = R \<union> jobs_targets env st js" by (auto simp: ks(3) jobs_targets_def)
    then show ?thesis using False s1(1) s2 by (simp add: suspended_sp_def Let_def cong: if_cong)
  qed
qed

definition known_jobs :: "lsan_env \<Rightarrow> heap \<Rightarrow> nat list \<Rightarrow> job list option" where
  "known_jobs env st ks = gather (map (\<lambda>os.
     thread_jobs env st os (if os = fst (le_caller env) then snd (le_caller env) else 0) ((0, 0), \<lambda>_. 0) CopyMemoryAccessor) ks)"

lemma runs_known:
  assumes "lsan_ok env st" and "sorted ds" and "known_jobs env st (filter (\<lambda>os. os \<notin> set ds) ks) = Some js"
  shows "runs env st (process_known env ds ks) js"
  using assms(3)
proof (induction ks arbitrary: js)
  case Nil
  then show ?case by (auto simp: known_jobs_def intro!: runs_cong [OF runs_skip])
next
  case (Cons os ks)
  note mem = lower_bound_member [OF assms(2), of os]
  let ?p = "ProcessThread env os (if os = fst (le_caller env) then snd (le_caller env) else 0) ((0, 0), \<lambda>_. 0) CopyMemoryAccessor"
  have step: "process_known env ds (os # ks) s = Option.bind (if os \<notin> set ds then ?p s else Some s) (process_known env ds ks)" for s
    unfolding process_known.simps Let_def mem ..
  show ?case
  proof (cases "os \<in> set ds")
    case True
    then show ?thesis using Cons step by (auto intro!: runs_cong [OF Cons.IH])
  next
    case False
    obtain a b where ab: "thread_jobs env st os (if os = fst (le_caller env) then snd (le_caller env) else 0) ((0, 0), \<lambda>_. 0) CopyMemoryAccessor = Some a"
      "known_jobs env st (filter (\<lambda>os. os \<notin> set ds) ks) = Some b" "js = a @ b"
      using Cons.prems False by (auto simp: known_jobs_def split: bind_splits)
    have "runs env st (\<lambda>s. Option.bind (?p s) (process_known env ds ks)) js"
      unfolding ab(3) by (intro runs_bind runs_thread assms(1) ab(1) Cons.IH ab(2))
    then show ?thesis by (rule runs_cong) (use step False in simp)
  qed
qed

section \<open>Pointers kept for threads\<close>

definition arg_targets :: "lsan_env \<Rightarrow> heap \<Rightarrow> uptr set" where
  "arg_targets env st = PointsIntoChunk (le_low env) st ` set (GetAllPtrsLocked (le_args env)) - {0}"

lemma roots_forced:
  assumes "lsan_ok env st" and "roots_inv env st A R (st1, Some fr)" and "c \<in> chunks env st"
  shows "roots_inv env st (insert c A) (insert c R) (tag_chunk kReachable c st1, Some (fr @ [c]))"
proof -
  have h: "same_heap st st1" using roots_inv_same(1) [OF assms(2)] by simp
  have ok: "lsan_ok env st1" and c1: "c \<in> chunks env st1" using assms(1,3) same_chunks [OF h] by simp_all
  have sub: "A \<subseteq> R" "marked env st \<subseteq> R" "R \<subseteq> chunks env st" "set fr = R" using assms(2) by (auto simp: roots_inv_def)
  have "chunk_tag (tag_chunk kReachable c st1) d =
      (if d \<in> insert c A \<union> (insert c R - marked env st) then kReachable else chunk_tag st d)" if d: "d \<in> chunks env st" for d
  proof -
    have "chunk_tag st1 d = (if d \<in> A \<union> (R - marked env st) then kReachable else chunk_tag st d)"
      using assms(2) d by (simp add: roots_inv_def)
    then show ?thesis using tag_chunk_tag [OF chunksD(1) [OF assms(3)] chunksD(1) [OF d]] by auto
  qed
  then show ?thesis using same_heap_trans [OF h tag_chunk_same [OF ok c1]] sub assms(3) by (auto simp: roots_inv_def)
qed

lemma process_pointers_run:
  assumes "lsan_ok env st" and "roots_inv env st A R s"
  defines "X ps \<equiv> PointsIntoChunk (le_low env) st ` set ps - {0}"
  shows "roots_inv env st (A \<union> X ps) (R \<union> X ps) (process_pointers env ps s)"
  using assms(2)
proof (induction ps arbitrary: A R s)
  case Nil
  then show ?case by (simp add: X_def)
next
  case (Cons p ps)
  obtain st1 fr where s: "s = (st1, Some fr)" using Cons.prems by (cases s) (auto simp: roots_inv_def)
  have h: "same_heap st st1" using roots_inv_same(1) [OF Cons.prems] s by simp
  let ?c = "PointsIntoChunk (le_low env) st p"
  show ?case
  proof (cases "?c = 0")
    case True
    then have "process_pointers env (p # ps) s = process_pointers env ps s" by (simp add: s Let_def same_lookup(2) [OF h])
    moreover have "X (p # ps) = X ps" using True by (auto simp: X_def)
    ultimately show ?thesis using Cons.IH [OF Cons.prems] by simp
  next
    case False
    have c: "?c \<in> chunks env st" using False assms(1) by (simp add: lsan_ok_def)
    have "process_pointers env (p # ps) s = process_pointers env ps (tag_chunk kReachable ?c st1, Some (fr @ [?c]))"
      using False chunksD(3) [OF c] by (simp add: s Let_def same_lookup [OF h] tag_chunk_def)
    moreover have "X (p # ps) = insert ?c (X ps)" using False by (auto simp: X_def)
    ultimately show ?thesis using Cons.IH [OF roots_forced [OF assms(1) Cons.prems [unfolded s] c]] by simp
  qed
qed

section \<open>Root regions\<close>

definition region_jobs :: "lsan_env \<Rightarrow> job list option" where
  "region_jobs env =
     (if use_root_regions (le_flags env) \<and> HasRootRegions env
      then map_option (\<lambda>rs. direct_jobs (map of_range rs))
        (Intersect (map to_range (map fst (filter snd (le_segments env)))) (map to_range (map fst (le_root_regions env))))
      else Some [])"

lemma runs_scan_regions:
  assumes "lsan_ok env st"
  shows "runs env st (scan_regions env rs) (direct_jobs rs)"
proof (induction rs)
  case Nil
  then show ?case by (auto simp: direct_jobs_def intro!: runs_cong [OF runs_skip])
next
  case (Cons r rs)
  obtain b e where r: "r = (b, e)" by (cases r)
  have "runs env st (\<lambda>s. Option.bind (ScanRangeForPointers env b e kReachable s) (scan_regions env rs)) ([(DirectMemoryAccessor, None, b, e)] @ direct_jobs rs)"
    by (intro runs_bind runs_scan(3) [OF assms] Cons.IH)
  then show ?case by (auto simp: r direct_jobs_def intro: runs_cong)
qed

lemma runs_regions:
  assumes "lsan_ok env st" and "region_jobs env = Some js"
  shows "runs env st (ProcessRootRegions env) js"
proof (cases "use_root_regions (le_flags env) \<and> HasRootRegions env")
  case False
  then show ?thesis using assms(2) by (auto simp: ProcessRootRegions_def region_jobs_def intro!: runs_cong [OF runs_skip])
next
  case True
  then obtain rs where rs: "Intersect (map to_range (map fst (filter snd (le_segments env)))) (map to_range (map fst (le_root_regions env))) = Some rs"
    "js = direct_jobs (map of_range rs)"
    using assms(2) by (auto simp: region_jobs_def)
  show ?thesis unfolding rs(2) using runs_scan_regions [OF assms(1)]
    by (rule runs_cong) (use True rs(1) in \<open>simp add: ProcessRootRegions_def ScanRootRegions_def\<close>)
qed

section \<open>All roots\<close>

definition thread_root_jobs :: "lsan_env \<Rightarrow> heap \<Rightarrow> job list option" where
  "thread_root_jobs env st = do {
     js \<leftarrow> suspended_jobs env st (scanned_threads env);
     ks \<leftarrow> (if use_detached (le_flags env)
       then known_jobs env st (filter (\<lambda>os. os \<notin> su_tid ` set (scanned_threads env)) (GetRunningThreadsLocked (le_registry env)))
       else Some []);
     Some (js @ ks)
   }"

definition root_jobs :: "lsan_env \<Rightarrow> heap \<Rightarrow> job list option" where
  "root_jobs env st = do {
     ts \<leftarrow> thread_root_jobs env st;
     rs \<leftarrow> region_jobs env;
     Some (global_jobs env @ ts @ rs)
   }"

lemma ProcessThreads_run:
  assumes "lsan_ok env st" and "thread_root_jobs env st = Some js" and "\<forall>j\<in>set js. job_ok env st j" and "roots_inv env st A R s"
  shows "\<exists>s'. ProcessThreads env s = Some s' \<and> roots_inv env st (A \<union> arg_targets env st) (R \<union> jobs_targets env st js \<union> arg_targets env st) s'"
proof -
  let ?known = "filter (\<lambda>os. os \<notin> su_tid ` set (scanned_threads env)) (GetRunningThreadsLocked (le_registry env))"
  obtain as ks where a: "suspended_jobs env st (scanned_threads env) = Some as" "js = as @ ks"
    "(if use_detached (le_flags env) then known_jobs env st ?known else Some []) = Some ks"
    using assms(2) by (auto simp: thread_root_jobs_def split: bind_splits)
  let ?done = "if use_detached (le_flags env) then map su_tid (scanned_threads env) else []"
  obtain s1 where s1: "process_suspended env (le_suspended env) s = Some (?done, s1)" "roots_inv env st A (R \<union> jobs_targets env st as) s1"
    using process_suspended_run [OF assms(1) a(1) [unfolded scanned_threads_def] _ assms(4)] assms(3) a(2)
    unfolding scanned_threads_def by auto
  let ?f = "\<lambda>s. if use_detached (le_flags env) then process_known env (Sort (<) ?done) (GetRunningThreadsLocked (le_registry env)) s else Some s"
  have "runs env st ?f ks"
  proof (cases "use_detached (le_flags env)")
    case True
    have "set (Sort (<) (map su_tid (scanned_threads env))) = su_tid ` set (scanned_threads env)" unfolding Sort_linorder by simp
    then show ?thesis using True a(3) by (auto intro!: runs_known [OF assms(1) Sort_linorder(1)])
  next
    case False
    then show ?thesis using a(3) by (auto intro!: runs_cong [OF runs_skip])
  qed
  moreover have "\<forall>j\<in>set ks. job_ok env st j" using assms(3) a(2) by simp
  ultimately obtain s2 where s2: "?f s1 = Some s2" "roots_inv env st A (R \<union> jobs_targets env st as \<union> jobs_targets env st ks) s2"
    using s1(2) by (rule runsD)
  have "ProcessThreads env s = Some (ProcessThreadRegistry env s2)"
    using s1(1) s2(1) by (simp add: ProcessThreads_def cong: if_cong)
  moreover have "R \<union> jobs_targets env st as \<union> jobs_targets env st ks = R \<union> jobs_targets env st js" by (auto simp: a(2) jobs_targets_def)
  ultimately show ?thesis
    using process_pointers_run [OF assms(1) s2(2), of "GetAllPtrsLocked (le_args env)"] by (simp add: ProcessThreadRegistry_def arg_targets_def)
qed

lemma all_roots_run:
  assumes "lsan_ok env st" and "allocator_ok env" and "root_jobs env st = Some js" and "\<forall>j\<in>set js. job_ok env st j" and "roots_inv env st A R s"
  shows "\<exists>s'. Option.bind (ProcessGlobalRegions env s) (\<lambda>s. Option.bind (ProcessThreads env s) (ProcessRootRegions env)) = Some s' \<and>
    roots_inv env st (A \<union> arg_targets env st) (R \<union> jobs_targets env st js \<union> arg_targets env st) s'"
proof -
  obtain ts rs where j: "thread_root_jobs env st = Some ts" "region_jobs env = Some rs" "js = global_jobs env @ ts @ rs"
    using assms(3) by (auto simp: root_jobs_def split: bind_splits)
  have ok: "\<forall>j\<in>set (global_jobs env). job_ok env st j" "\<forall>j\<in>set ts. job_ok env st j" "\<forall>j\<in>set rs. job_ok env st j"
    using assms(4) j(3) by auto
  obtain s1 where s1: "ProcessGlobalRegions env s = Some s1" "roots_inv env st A (R \<union> jobs_targets env st (global_jobs env)) s1"
    by (rule runsD [OF runs_globals [OF assms(1,2)] ok(1) assms(5)])
  obtain s2 where s2: "ProcessThreads env s1 = Some s2"
    "roots_inv env st (A \<union> arg_targets env st) (R \<union> jobs_targets env st (global_jobs env) \<union> jobs_targets env st ts \<union> arg_targets env st) s2"
    using ProcessThreads_run [OF assms(1) j(1) ok(2) s1(2)] by blast
  obtain s3 where s3: "ProcessRootRegions env s2 = Some s3"
    "roots_inv env st (A \<union> arg_targets env st) (R \<union> jobs_targets env st (global_jobs env) \<union> jobs_targets env st ts \<union> arg_targets env st \<union> jobs_targets env st rs) s3"
    by (rule runsD [OF runs_regions [OF assms(1) j(2)] ok(3) s2(2)])
  have "R \<union> jobs_targets env st (global_jobs env) \<union> jobs_targets env st ts \<union> arg_targets env st \<union> jobs_targets env st rs =
      R \<union> jobs_targets env st js \<union> arg_targets env st" by (auto simp: j(3) jobs_targets_def)
  then show ?thesis using s1(1) s2(1) s3 by simp
qed

end
