(* ===== verification/Lsan_Proofs.thy ===== *)
theory Lsan_Proofs
  imports Lsan_Roots Asan_Heap_Proofs
begin

text \<open>
  The leak check as a whole: the flood fill is an instance of the marking interface, so it marks everything that
  can be reached from the roots, and the leaks reported are the chunks that cannot.
\<close>

unbundle bit_operations_syntax

section \<open>Reachability\<close>

text \<open>The chunks that the words of a chunk lead to.\<close>

definition chunk_succs :: "lsan_env \<Rightarrow> heap \<Rightarrow> uptr \<Rightarrow> uptr set" where
  "chunk_succs env st c = targets env st DirectMemoryAccessor (hmem st) (c, chunk_end st c)"

definition leak_graph :: "lsan_env \<Rightarrow> heap \<Rightarrow> (uptr \<times> uptr) set" where
  "leak_graph env st = {(c, d). d \<in> chunk_succs env st c}"

lemma same_chunk_succs: "same_heap st st' \<Longrightarrow> chunk_succs env st' = chunk_succs env st"
  by (simp add: fun_eq_iff chunk_succs_def same_targets same_chunks same_heapD)

text \<open>The state while the frontier is worked off: chunks are tagged reachable, no other tag changes.\<close>

definition flooded :: "lsan_env \<Rightarrow> heap \<Rightarrow> heap \<Rightarrow> bool" where
  "flooded env st0 st \<longleftrightarrow> lsan_ok env st0 \<and> same_heap st0 st \<and>
     (\<forall>c\<in>chunks env st0. chunk_tag st c = (if c \<in> marked env st - marked env st0 then kReachable else chunk_tag st0 c))"

lemma chunk_range_ok:
  assumes "lsan_ok env st" and "c \<in> chunks env st"
  shows "range_ok c (chunk_end st c)"
proof -
  have "unat c + unat (metadata_requested_size st (LsanMetadata c)) + 80 \<le> 2 ^ 64" using assms by (simp add: lsan_ok_def)
  then show ?thesis by (simp add: range_ok_def chunk_end_def unat_word_ariths)
qed

lemma scan_chunk:
  assumes "lsan_ok env st" and "c \<in> chunks env st" and "t = kReachable \<or> t = kIndirectlyLeaked"
  shows "\<exists>s'. ScanRangeForPointers env c (chunk_end st c) t (st, fr) = Some s' \<and> scanned env t (chunk_succs env st c) (st, fr) s'"
  using ScanForPointers_run [where s = "(st, fr)" and acc = DirectMemoryAccessor and m = "hmem st", OF _ chunk_range_ok [OF assms(1,2)] assms(3)] assms(1)
  by (simp add: ScanRangeForPointers_def accessor_Init_def chunk_succs_def)

lemma flooded_scan:
  assumes "flooded env st0 st" and "scanned env kReachable T (st, Some fr) s'" and "T \<subseteq> chunks env st0"
  shows "flooded env st0 (fst s')" and "marked env (fst s') = marked env st \<union> T"
proof -
  have h: "same_heap st0 st" "same_heap st (fst s')" using assms(1,2) by (simp_all add: flooded_def scanned_def)
  note c = same_chunks(1) [OF h(1), of env]
  show m: "marked env (fst s') = marked env st \<union> T" using scanned_marked [OF assms(2)] assms(3) c by simp
  have "chunk_tag (fst s') d = (if d \<in> marked env (fst s') - marked env st0 then kReachable else chunk_tag st0 d)"
    if d: "d \<in> chunks env st0" for d
  proof -
    have "chunk_tag (fst s') d = (if d \<in> T - marked env st then kReachable else chunk_tag st d)"
      using assms(2) c d by (simp add: scanned_def)
    moreover have t: "chunk_tag st d = (if d \<in> marked env st - marked env st0 then kReachable else chunk_tag st0 d)"
      using assms(1) d by (simp add: flooded_def)
    moreover have "d \<in> marked env st0 \<Longrightarrow> d \<in> marked env st" using t in_marked [OF d] in_marked [of d env st] d c by auto
    ultimately show ?thesis using m by auto
  qed
  then show "flooded env st0 (fst s')" using assms(1) same_heap_trans [OF h] by (simp add: flooded_def)
qed

interpretation flood: marking
  "\<lambda>c st fr. Option.bind (ScanRangeForPointers env c (chunk_end st c) kReachable (st, Some fr)) (\<lambda>(st, fr). map_option (Pair st) fr)"
  "FloodFillTag env kReachable" "marked env" "chunk_succs env st0" "flooded env st0" for env st0
proof
  fix st c fr assume inv: "flooded env st0 st" and c: "c \<in> marked env st"
  have h: "same_heap st0 st" using inv by (simp add: flooded_def)
  have ok: "lsan_ok env st" using inv same_chunks(3) [OF h] by (simp add: flooded_def)
  obtain s' where s': "ScanRangeForPointers env c (chunk_end st c) kReachable (st, Some fr) = Some s'"
    "scanned env kReachable (chunk_succs env st0 c) (st, Some fr) s'"
    using scan_chunk [OF ok, of c kReachable "Some fr"] c unfolding same_chunk_succs [OF h] by (auto simp: marked_def)
  have T: "chunk_succs env st0 c \<subseteq> chunks env st0" using targets_chunks inv by (simp add: chunk_succs_def flooded_def)
  obtain new where "snd s' = Some (fr @ new)" "set new = chunk_succs env st0 c - marked env st" using s'(2) by (auto simp: scanned_def)
  then show "\<exists>s' new. Option.bind (ScanRangeForPointers env c (chunk_end st c) kReachable (st, Some fr)) (\<lambda>(st, fr). map_option (Pair st) fr) =
      Some (s', fr @ new) \<and> flooded env st0 s' \<and> marked env s' = marked env st \<union> chunk_succs env st0 c \<and>
      set new = chunk_succs env st0 c - marked env st"
    using s'(1) flooded_scan [OF inv s'(2) T] by (auto simp: split_beta)
next
  show "FloodFillTag env kReachable st [] = Some st" for st by (subst FloodFillTag.simps) simp
next
  fix fr :: "uptr list" and st assume fr: "fr \<noteq> []"
  have b: "Option.bind (Option.bind x (\<lambda>(st, fr). map_option (Pair st) fr)) (\<lambda>(st, fr). FloodFillTag env kReachable st fr) =
      Option.bind x (\<lambda>(st, fr). Option.bind fr (FloodFillTag env kReachable st))" for x :: "scan_state option"
    by (cases x rule: option.exhaust; cases "snd (the x)") (simp_all add: split_beta)
  show "FloodFillTag env kReachable st fr = Option.bind (Option.bind (ScanRangeForPointers env (last fr) (chunk_end st (last fr)) kReachable (st, Some (butlast fr)))
      (\<lambda>(st, fr). map_option (Pair st) fr)) (\<lambda>(st, fr). FloodFillTag env kReachable st fr)"
    unfolding b using fr by (subst FloodFillTag.simps) (simp add: chunk_end_def Let_def)
qed

lemma flood_edges: "flood.edges env st = leak_graph env st"
  by (simp add: flood.edges_def leak_graph_def)

section \<open>Passing over the chunks\<close>

text \<open>A callback of \<^verbatim>\<open>ForEachChunk\<close> that tags some of the chunks.\<close>

definition retagged :: "lsan_env \<Rightarrow> heap \<Rightarrow> (uptr \<Rightarrow> nat) \<Rightarrow> heap \<Rightarrow> bool" where
  "retagged env st f st' \<longleftrightarrow> same_heap st st' \<and> (\<forall>c\<in>chunks env st. chunk_tag st' c = f c)"

lemma enumerated:
  assumes "b \<in> set (le_chunks env)"
  shows "metadata_allocated st (LsanMetadata (GetUserBegin (le_low env) st b)) \<longleftrightarrow> GetUserBegin (le_low env) st b \<in> chunks env st"
  using assms by (auto simp: chunks_def metadata_allocated_def LsanMetadata_def)

lemma chunks_enumerated: "c \<in> chunks env st \<longleftrightarrow> c \<in> GetUserBegin (le_low env) st ` set (le_chunks env) \<and> c \<in> chunks env st"
  by (auto simp: chunks_def)

lemma retag_fold:
  assumes ok: "lsan_ok env st" and "set bs \<subseteq> set (le_chunks env)"
    and cb: "\<And>b st'. b \<in> set (le_chunks env) \<Longrightarrow> same_heap st st' \<Longrightarrow>
      cb b st' = (let c = GetUserBegin (le_low env) st b in if c \<in> chunks env st \<and> P c (chunk_tag st' c) then tag_chunk t c st' else st')"
  shows "retagged env st (\<lambda>c. if c \<in> GetUserBegin (le_low env) st ` set bs \<and> P c (chunk_tag st c) then t else chunk_tag st c) (fold cb bs st)"
  using assms(2)
proof (induction bs rule: rev_induct)
  case Nil
  then show ?case by (simp add: retagged_def)
next
  case (snoc b bs)
  let ?u = "GetUserBegin (le_low env) st" and ?s = "fold cb bs st"
  have IH: "same_heap st ?s" "\<And>c. c \<in> chunks env st \<Longrightarrow> chunk_tag ?s c = (if c \<in> ?u ` set bs \<and> P c (chunk_tag st c) then t else chunk_tag st c)"
    using snoc by (simp_all add: retagged_def)
  have ok1: "lsan_ok env ?s" and ch: "chunks env ?s = chunks env st" using ok same_chunks [OF IH(1)] by simp_all
  have step: "fold cb (bs @ [b]) st = (if ?u b \<in> chunks env st \<and> P (?u b) (chunk_tag ?s (?u b)) then tag_chunk t (?u b) ?s else ?s)"
    using cb [of b ?s] snoc.prems IH(1) by (simp add: Let_def)
  have tag: "chunk_tag (fold cb (bs @ [b]) st) c = (if c = ?u b \<and> P c (chunk_tag ?s c) then t else chunk_tag ?s c)"
    if c: "c \<in> chunks env st" for c
    unfolding step using tag_chunk_tag [OF chunksD(1) chunksD(1) [OF c]] c by auto
  have "same_heap st (fold cb (bs @ [b]) st)"
    unfolding step using same_heap_trans [OF IH(1)] tag_chunk_same [OF ok1] ch IH(1) by simp
  moreover have "chunk_tag (fold cb (bs @ [b]) st) c = (if c \<in> ?u ` set (bs @ [b]) \<and> P c (chunk_tag st c) then t else chunk_tag st c)"
    if c: "c \<in> chunks env st" for c
    unfolding tag [OF c] IH(2) [OF c] by auto
  ultimately show ?case by (simp add: retagged_def)
qed

lemma retag_all:
  assumes "lsan_ok env st"
    and "\<And>b st'. b \<in> set (le_chunks env) \<Longrightarrow> same_heap st st' \<Longrightarrow>
      cb b st' = (let c = GetUserBegin (le_low env) st b in if c \<in> chunks env st \<and> P c (chunk_tag st' c) then tag_chunk t c st' else st')"
  shows "retagged env st (\<lambda>c. if P c (chunk_tag st c) then t else chunk_tag st c) (fold cb (le_chunks env) st)"
  using retag_fold [OF assms(1) subset_refl assms(2)] chunks_enumerated [of _ env st] by (auto simp: retagged_def)

lemma IgnoredSuppressed_fold:
  assumes "lsan_ok env st" and "sorted ids"
  shows "retagged env st (\<lambda>c. if chunk_tag st c \<noteq> kIgnored \<and> metadata_stack_trace_id st (LsanMetadata c) \<in> set ids then kIgnored else chunk_tag st c)
    (fold (IgnoredSuppressedCb env ids) (le_chunks env) st)"
proof -
  let ?P = "\<lambda>c t. t \<noteq> kIgnored \<and> metadata_stack_trace_id st (LsanMetadata c) \<in> set ids"
  have "IgnoredSuppressedCb env ids b st' =
      (let c = GetUserBegin (le_low env) st b in if c \<in> chunks env st \<and> ?P c (chunk_tag st' c) then tag_chunk kIgnored c st' else st')"
    if "b \<in> set (le_chunks env)" "same_heap st st'" for b st'
    using enumerated [OF that(1), of st] lower_bound_member [OF assms(2), of "metadata_stack_trace_id st (LsanMetadata (GetUserBegin (le_low env) st b))"]
    unfolding IgnoredSuppressedCb_def Let_def same_lookup [OF that(2)] chunk_tag_def tag_chunk_def by auto
  from retag_all [OF assms(1), of _ ?P, OF this] show ?thesis by simp
qed

lemma ResetTags_fold:
  assumes "lsan_ok env st"
  shows "retagged env st (\<lambda>c. if chunk_tag st c \<noteq> kIgnored then kDirectlyLeaked else chunk_tag st c) (fold (ResetTagsCb env) (le_chunks env) st)"
proof (rule retag_all [OF assms])
  show "ResetTagsCb env b st' = (let c = GetUserBegin (le_low env) st b in
      if c \<in> chunks env st \<and> chunk_tag st' c \<noteq> kIgnored then tag_chunk kDirectlyLeaked c st' else st')"
    if "b \<in> set (le_chunks env)" "same_heap st st'" for b st'
    using enumerated [OF that(1), of st] unfolding ResetTagsCb_def Let_def same_lookup [OF that(2)] chunk_tag_def tag_chunk_def by auto
qed

lemma CollectIgnored_fold:
  "set bs \<subseteq> set (le_chunks env) \<Longrightarrow> fold (CollectIgnoredCb env st) bs fr =
    fr @ filter (\<lambda>c. c \<in> chunks env st \<and> chunk_tag st c = kIgnored) (map (GetUserBegin (le_low env) st) bs)"
  by (induction bs arbitrary: fr) (simp_all add: CollectIgnoredCb_def Let_def enumerated chunk_tag_def)

lemma kinds [simp]: "kIndirectlyLeaked \<noteq> kReachable" "kIndirectlyLeaked \<noteq> kIgnored" "kReachable \<noteq> kIgnored"
    "kDirectlyLeaked \<noteq> kReachable" "kDirectlyLeaked \<noteq> kIgnored" "kDirectlyLeaked \<noteq> kIndirectlyLeaked"
    "kReachable \<noteq> kIndirectlyLeaked" "kIgnored \<noteq> kIndirectlyLeaked" "kIgnored \<noteq> kReachable"
    "kReachable \<noteq> kDirectlyLeaked" "kIgnored \<noteq> kDirectlyLeaked" "kIndirectlyLeaked \<noteq> kDirectlyLeaked"
  by (simp_all add: kIndirectlyLeaked_def kReachable_def kIgnored_def kDirectlyLeaked_def)

text \<open>While leaked chunks are scanned, those of \<open>I\<close> that are not marked are tagged as indirectly leaked.\<close>

definition indirect :: "lsan_env \<Rightarrow> heap \<Rightarrow> uptr set \<Rightarrow> heap \<Rightarrow> bool" where
  "indirect env st I = retagged env st (\<lambda>c. if c \<in> I - marked env st then kIndirectlyLeaked else chunk_tag st c)"

lemma indirect_marked:
  assumes "indirect env st0 I st"
  shows "marked env st = marked env st0"
proof -
  have c: "chunks env st = chunks env st0" using assms same_chunks(1) by (simp add: indirect_def retagged_def)
  have "d \<in> marked env st \<longleftrightarrow> d \<in> marked env st0" for d
  proof (cases "d \<in> chunks env st0")
    case True
    then show ?thesis using assms in_marked [OF True] in_marked [of d env st] c by (auto simp: indirect_def retagged_def)
  qed (simp add: marked_def c)
  then show ?thesis by blast
qed

lemma indirect_scanned:
  assumes "indirect env st0 I st" and "scanned env kIndirectlyLeaked T (st, None) s'" and "T - marked env st0 = J - marked env st0"
  shows "indirect env st0 (I \<union> J) (fst s')"
proof -
  have h: "same_heap st0 st" "same_heap st (fst s')" using assms(1,2) by (simp_all add: indirect_def retagged_def scanned_def)
  note c = same_chunks(1) [OF h(1), of env] and m = indirect_marked [OF assms(1)]
  have "chunk_tag (fst s') d = (if d \<in> I \<union> J - marked env st0 then kIndirectlyLeaked else chunk_tag st0 d)" if d: "d \<in> chunks env st0" for d
  proof -
    have "chunk_tag (fst s') d = (if d \<in> J - marked env st0 then kIndirectlyLeaked else chunk_tag st d)"
      using assms(2,3) c d m by (simp add: scanned_def)
    moreover have "chunk_tag st d = (if d \<in> I - marked env st0 then kIndirectlyLeaked else chunk_tag st0 d)"
      using assms(1) d by (simp add: indirect_def retagged_def)
    ultimately show ?thesis by auto
  qed
  then show ?thesis using same_heap_trans [OF h] by (simp add: indirect_def retagged_def)
qed

lemma MarkIndirectly_run:
  assumes ok: "lsan_ok env st0" and closed: "\<And>c. c \<in> marked env st0 \<Longrightarrow> chunk_succs env st0 c \<subseteq> marked env st0"
    and inv: "indirect env st0 I st" and b: "b \<in> set (le_chunks env)"
  defines "c \<equiv> GetUserBegin (le_low env) st0 b"
  shows "\<exists>st'. MarkIndirectlyLeakedCb env b st = Some st' \<and>
    indirect env st0 (I \<union> (if c \<in> chunks env st0 - marked env st0 then chunk_succs env st0 c else {})) st'"
proof -
  have h: "same_heap st0 st" using inv by (simp add: indirect_def retagged_def)
  note L = same_lookup [OF h] and ch = same_chunks(1) [OF h, of env] and m = indirect_marked [OF inv]
  have eq: "MarkIndirectlyLeakedCb env b st = (if c \<in> chunks env st0 \<and> chunk_tag st c \<noteq> kReachable
      then map_option fst (ScanRangeForPointers env c (chunk_end st c) kIndirectlyLeaked (st, None)) else Some st)"
    using enumerated [OF b, of st0] by (simp add: MarkIndirectlyLeakedCb_def Let_def L c_def chunk_tag_def chunk_end_def)
  show ?thesis
  proof (cases "c \<in> chunks env st0 \<and> chunk_tag st c \<noteq> kReachable")
    case True
    have "lsan_ok env st" using ok same_chunks(3) [OF h] by simp
    then obtain s' where s': "ScanRangeForPointers env c (chunk_end st c) kIndirectlyLeaked (st, None) = Some s'"
      "scanned env kIndirectlyLeaked (chunk_succs env st0 c) (st, None) s'"
      using scan_chunk [of env st c kIndirectlyLeaked None] True ch unfolding same_chunk_succs [OF h] by auto
    have "chunk_succs env st0 c - marked env st0 = (if c \<in> chunks env st0 - marked env st0 then chunk_succs env st0 c else {}) - marked env st0"
      using closed [of c] True by auto
    then show ?thesis using eq True s'(1) indirect_scanned [OF inv s'(2)] by simp
  next
    case False
    then have "c \<notin> chunks env st0 - marked env st0" using in_marked [of c env st] ch m by auto
    then have e: "(if c \<in> chunks env st0 - marked env st0 then chunk_succs env st0 c else {}) = {}" by (rule if_not_P)
    show ?thesis unfolding e using eq False inv by auto
  qed
qed

lemma mark_indirect_run:
  assumes ok: "lsan_ok env st0" and closed: "\<And>c. c \<in> marked env st0 \<Longrightarrow> chunk_succs env st0 c \<subseteq> marked env st0"
    and "indirect env st0 I st" and "set bs \<subseteq> set (le_chunks env)"
  shows "\<exists>st'. mark_indirect env bs st = Some st' \<and>
    indirect env st0 (I \<union> (\<Union>c \<in> GetUserBegin (le_low env) st0 ` set bs \<inter> (chunks env st0 - marked env st0). chunk_succs env st0 c)) st'"
  using assms(3,4)
proof (induction bs arbitrary: I st)
  case (Cons b bs)
  let ?c = "GetUserBegin (le_low env) st0 b"
  obtain st1 where st1: "MarkIndirectlyLeakedCb env b st = Some st1"
    "indirect env st0 (I \<union> (if ?c \<in> chunks env st0 - marked env st0 then chunk_succs env st0 ?c else {})) st1"
    using MarkIndirectly_run [OF ok closed Cons.prems(1)] Cons.prems(2) by auto
  have "I \<union> (if ?c \<in> chunks env st0 - marked env st0 then chunk_succs env st0 ?c else {}) \<union>
      (\<Union>c \<in> GetUserBegin (le_low env) st0 ` set bs \<inter> (chunks env st0 - marked env st0). chunk_succs env st0 c) =
      I \<union> (\<Union>c \<in> GetUserBegin (le_low env) st0 ` set (b # bs) \<inter> (chunks env st0 - marked env st0). chunk_succs env st0 c)" by auto
  then show ?case using Cons.IH [OF st1(2)] Cons.prems(2) st1(1) by simp
qed simp

section \<open>What is leaked\<close>

definition ignored_chunks :: "lsan_env \<Rightarrow> heap \<Rightarrow> uptr set" where
  "ignored_chunks env st = {c \<in> chunks env st. chunk_tag st c = kIgnored \<or> metadata_stack_trace_id st (LsanMetadata c) \<in> set (le_suppressed env)}"

definition leak_roots :: "lsan_env \<Rightarrow> heap \<Rightarrow> job list \<Rightarrow> uptr set" where
  "leak_roots env st js = ignored_chunks env st \<union> jobs_targets env st js \<union> arg_targets env st"

definition leaked :: "lsan_env \<Rightarrow> heap \<Rightarrow> job list \<Rightarrow> uptr set" where
  "leaked env st js = chunks env st - (leak_graph env st)\<^sup>* `` leak_roots env st js"

definition leak_kind :: "lsan_env \<Rightarrow> heap \<Rightarrow> job list \<Rightarrow> uptr \<Rightarrow> nat" where
  "leak_kind env st js c = (if c \<in> leak_graph env st `` leaked env st js then kIndirectlyLeaked else kDirectlyLeaked)"

text \<open>The tags that the classification leaves.\<close>

definition classified :: "lsan_env \<Rightarrow> heap \<Rightarrow> job list \<Rightarrow> uptr \<Rightarrow> nat" where
  "classified env st js c =
     (if c \<in> leaked env st js then leak_kind env st js c
      else if c \<in> ignored_chunks env st - arg_targets env st then kIgnored else kReachable)"

text \<open>Between checks every chunk has the tag of a fresh chunk or is ignored.\<close>

definition fresh_tags :: "lsan_env \<Rightarrow> heap \<Rightarrow> bool" where
  "fresh_tags env st \<longleftrightarrow> (\<forall>c\<in>chunks env st. chunk_tag st c = kDirectlyLeaked \<or> chunk_tag st c = kIgnored)"

lemma same_jobs:
  assumes "same_heap st st'"
  shows "root_jobs env st' = root_jobs env st" and "job_ok env st' = job_ok env st" and "jobs_targets env st' = jobs_targets env st"
    and "arg_targets env st' = arg_targets env st" and "leak_graph env st' = leak_graph env st"
proof -
  note D = same_heapD [OF assms] and L = same_lookup [OF assms]
  have "lsan_world env st' = lsan_world env st" by (simp add: lsan_world_def D)
  then have "stack_jobs env st' = stack_jobs env st" by (simp add: stack_jobs_def fun_eq_iff)
  then have "thread_jobs env st' = thread_jobs env st" by (intro ext) (simp only: thread_jobs_def)
  then show "root_jobs env st' = root_jobs env st"
    by (simp add: root_jobs_def thread_root_jobs_def suspended_jobs_def known_jobs_def)
  show "job_ok env st' = job_ok env st" by (intro ext) (simp only: job_ok_def D)
  show "jobs_targets env st' = jobs_targets env st"
    by (intro ext) (simp only: jobs_targets_def job_targets_def D same_targets [OF assms])
  show "arg_targets env st' = arg_targets env st" by (simp add: arg_targets_def L)
  show "leak_graph env st' = leak_graph env st" by (simp add: leak_graph_def same_chunk_succs [OF assms])
qed

lemma root_sets:
  assumes "lsan_ok env st"
  shows "jobs_targets env st js \<subseteq> chunks env st" and "arg_targets env st \<subseteq> chunks env st"
proof -
  have "job_targets env st j \<subseteq> chunks env st" for j
    unfolding job_targets_def split_beta by (rule targets_chunks [OF assms])
  then show "jobs_targets env st js \<subseteq> chunks env st" unfolding jobs_targets_def by blast
  show "arg_targets env st \<subseteq> chunks env st" using assms by (auto simp: arg_targets_def lsan_ok_def)
qed

lemma leak_graph_chunks: "lsan_ok env st \<Longrightarrow> (c, d) \<in> leak_graph env st \<Longrightarrow> d \<in> chunks env st"
  using targets_chunks [of env st DirectMemoryAccessor "hmem st" "(c, chunk_end st c)"] by (auto simp: leak_graph_def chunk_succs_def)

lemma suppress_run:
  assumes "lsan_ok env st" and "sorted (le_suppressed env)"
  shows "retagged env st (\<lambda>c. if c \<in> ignored_chunks env st then kIgnored else chunk_tag st c)
    (if le_suppressed env \<noteq> [] then fold (IgnoredSuppressedCb env (le_suppressed env)) (le_chunks env) st else st)"
proof (cases "le_suppressed env = []")
  case True
  then show ?thesis by (simp add: retagged_def ignored_chunks_def)
next
  case False
  then show ?thesis using IgnoredSuppressed_fold [OF assms] by (auto simp: retagged_def ignored_chunks_def)
qed

text \<open>The two steps of the classification: the roots, then what they reach.\<close>

lemma roots_run:
  assumes "lsan_ok env st" and "fresh_tags env st" and "sorted (le_suppressed env)" and "allocator_ok env"
    and "root_jobs env st = Some js" and "\<forall>j\<in>set js. job_ok env st j"
  defines "st1 \<equiv> if le_suppressed env \<noteq> [] then fold (IgnoredSuppressedCb env (le_suppressed env)) (le_chunks env) st else st"
  shows "\<exists>st2 fr. Option.bind (ProcessGlobalRegions env (st1, Some (fold (CollectIgnoredCb env st1) (le_chunks env) [])))
      (\<lambda>s. Option.bind (ProcessThreads env s) (ProcessRootRegions env)) = Some (st2, Some fr) \<and> set fr = leak_roots env st js \<and> marked env st2 = leak_roots env st js \<and>
    retagged env st (\<lambda>c. if c \<in> arg_targets env st \<union> (leak_roots env st js - ignored_chunks env st) then kReachable
      else if c \<in> ignored_chunks env st then kIgnored else kDirectlyLeaked) st2"
proof -
  have t1: "retagged env st (\<lambda>c. if c \<in> ignored_chunks env st then kIgnored else chunk_tag st c) st1"
    unfolding st1_def by (rule suppress_run [OF assms(1,3)])
  then have h: "same_heap st st1" by (simp add: retagged_def)
  note J = same_jobs [OF h]
  have ok: "lsan_ok env st1" and ch: "chunks env st1 = chunks env st" using assms(1) same_chunks [OF h] by simp_all
  have m: "marked env st1 = ignored_chunks env st"
    using t1 assms(2) ch by (auto simp: marked_def retagged_def fresh_tags_def ignored_chunks_def)
  let ?fr = "fold (CollectIgnoredCb env st1) (le_chunks env) []"
  have "set ?fr = {c \<in> chunks env st. chunk_tag st1 c = kIgnored}"
    using CollectIgnored_fold [of "le_chunks env" env st1] chunks_enumerated [of _ env st1] ch by auto
  moreover have "{c \<in> chunks env st. chunk_tag st1 c = kIgnored} = ignored_chunks env st"
    using t1 by (auto simp: retagged_def ignored_chunks_def)
  ultimately have inv: "roots_inv env st1 {} (ignored_chunks env st) (st1, Some ?fr)"
    using m by (auto simp: roots_inv_def ch ignored_chunks_def)
  obtain s where s: "Option.bind (ProcessGlobalRegions env (st1, Some ?fr)) (\<lambda>s. Option.bind (ProcessThreads env s) (ProcessRootRegions env)) = Some s"
    "roots_inv env st1 (arg_targets env st) (leak_roots env st js) s"
    using all_roots_run [OF ok assms(4) _ _ inv] assms(5,6) unfolding J leak_roots_def Un_empty_left by blast
  obtain st2 fr where s2: "s = (st2, Some fr)" "set fr = leak_roots env st js" using s(2) by (cases s) (auto simp: roots_inv_def)
  have "same_heap st st2" using same_heap_trans [OF h] roots_inv_same(1) [OF s(2)] s2(1) by simp
  moreover have "chunk_tag st2 c = (if c \<in> arg_targets env st \<union> (leak_roots env st js - ignored_chunks env st) then kReachable
      else if c \<in> ignored_chunks env st then kIgnored else kDirectlyLeaked)" if c: "c \<in> chunks env st" for c
  proof -
    have "chunk_tag st2 c = (if c \<in> arg_targets env st \<union> (leak_roots env st js - ignored_chunks env st) then kReachable else chunk_tag st1 c)"
      using s(2) c by (simp add: roots_inv_def s2(1) ch m)
    moreover have "chunk_tag st1 c = (if c \<in> ignored_chunks env st then kIgnored else kDirectlyLeaked)"
      using t1 c assms(2) by (auto simp: retagged_def fresh_tags_def ignored_chunks_def)
    ultimately show ?thesis by simp
  qed
  ultimately show ?thesis using s(1) s2 roots_inv_marked [OF s(2)] by (simp add: retagged_def)
qed

lemma leaked_closed:
  assumes "c \<in> (leak_graph env st)\<^sup>* `` R"
  shows "chunk_succs env st c \<subseteq> (leak_graph env st)\<^sup>* `` R"
  using assms by (auto simp: leak_graph_def intro: rtrancl_into_rtrancl)

lemma flood_and_indirect_run:
  assumes "lsan_ok env st" and "set fr = marked env st"
  defines "M \<equiv> (leak_graph env st)\<^sup>* `` marked env st"
  shows "\<exists>st'. Option.bind (FloodFillTag env kReachable st fr) (\<lambda>st. Option.bind (FloodFillTag env kReachable st []) (mark_indirect env (le_chunks env))) = Some st' \<and>
    retagged env st (\<lambda>c. if c \<in> M then (if c \<in> marked env st then chunk_tag st c else kReachable)
      else if c \<in> leak_graph env st `` (chunks env st - M) then kIndirectlyLeaked else chunk_tag st c) st'"
proof -
  have "flooded env st st" using assms(1) by (simp add: flooded_def)
  then obtain st3 where f: "FloodFillTag env kReachable st fr = Some st3" "flooded env st st3" "marked env st3 = M"
    using flood.flood_closure [where env = env and ?st0.0 = st and s = st and fr = fr] assms(2) unfolding flood_edges M_def by auto
  have h: "same_heap st st3" using f(2) by (simp add: flooded_def)
  note ch = same_chunks(1) [OF h, of env] and succ = same_chunk_succs [OF h, of env]
  have ok: "lsan_ok env st3" using assms(1) same_chunks(3) [OF h] by simp
  have closed: "chunk_succs env st3 c \<subseteq> marked env st3" if "c \<in> marked env st3" for c
    using leaked_closed that unfolding succ f(3) M_def by blast
  let ?I = "\<Union>c \<in> GetUserBegin (le_low env) st3 ` set (le_chunks env) \<inter> (chunks env st3 - marked env st3). chunk_succs env st3 c"
  have "indirect env st3 {} st3" by (simp add: indirect_def retagged_def)
  from mark_indirect_run [OF ok closed this subset_refl]
  obtain st4 where g: "mark_indirect env (le_chunks env) st3 = Some st4" "indirect env st3 ?I st4"
    unfolding Un_empty_left by blast
  have "GetUserBegin (le_low env) st3 ` set (le_chunks env) \<inter> (chunks env st3 - marked env st3) = chunks env st - M"
    using chunks_enumerated [of _ env st3] unfolding f(3) ch by blast
  then have I: "?I = leak_graph env st `` (chunks env st - M)" by (auto simp: succ leak_graph_def)
  have sub: "marked env st \<subseteq> M" by (auto simp: M_def)
  have "chunk_tag st4 c = (if c \<in> M then (if c \<in> marked env st then chunk_tag st c else kReachable)
      else if c \<in> leak_graph env st `` (chunks env st - M) then kIndirectlyLeaked else chunk_tag st c)" if c: "c \<in> chunks env st" for c
  proof -
    have "chunk_tag st4 c = (if c \<in> leak_graph env st `` (chunks env st - M) - M then kIndirectlyLeaked else chunk_tag st3 c)"
      using g(2) [unfolded I] c ch unfolding indirect_def retagged_def f(3) by blast
    moreover have "chunk_tag st3 c = (if c \<in> M - marked env st then kReachable else chunk_tag st c)"
      using f(2,3) c by (simp add: flooded_def)
    ultimately show ?thesis using sub by auto
  qed
  moreover have "same_heap st st4" using same_heap_trans [OF h] g(2) by (simp add: indirect_def retagged_def)
  ultimately show ?thesis using f(1) g(1) flood.flood_Nil [of env st3] by (simp add: retagged_def)
qed

lemma ClassifyAllChunks_run:
  assumes "lsan_ok env st" and "fresh_tags env st" and "sorted (le_suppressed env)" and "allocator_ok env"
    and "root_jobs env st = Some js" and "\<forall>j\<in>set js. job_ok env st j"
  shows "\<exists>st'. ClassifyAllChunks env st = Some st' \<and> retagged env st (classified env st js) st'"
proof -
  define st1 where "st1 = (if le_suppressed env \<noteq> [] then fold (IgnoredSuppressedCb env (le_suppressed env)) (le_chunks env) st else st)"
  obtain st2 fr where r: "Option.bind (ProcessGlobalRegions env (st1, Some (fold (CollectIgnoredCb env st1) (le_chunks env) [])))
      (\<lambda>s. Option.bind (ProcessThreads env s) (ProcessRootRegions env)) = Some (st2, Some fr)"
    "set fr = leak_roots env st js" "marked env st2 = leak_roots env st js"
    "retagged env st (\<lambda>c. if c \<in> arg_targets env st \<union> (leak_roots env st js - ignored_chunks env st) then kReachable
      else if c \<in> ignored_chunks env st then kIgnored else kDirectlyLeaked) st2"
    using roots_run [OF assms] unfolding st1_def [symmetric] by blast
  have h: "same_heap st st2" using r(4) by (simp add: retagged_def)
  have ok: "lsan_ok env st2" and ch: "chunks env st2 = chunks env st" using assms(1) same_chunks [OF h] by simp_all
  define M where "M = (leak_graph env st)\<^sup>* `` leak_roots env st js"
  obtain st' where f: "Option.bind (FloodFillTag env kReachable st2 fr) (\<lambda>st. Option.bind (FloodFillTag env kReachable st []) (mark_indirect env (le_chunks env))) = Some st'"
    "retagged env st2 (\<lambda>c. if c \<in> M then (if c \<in> leak_roots env st js then chunk_tag st2 c else kReachable)
      else if c \<in> leak_graph env st `` (chunks env st - M) then kIndirectlyLeaked else chunk_tag st2 c) st'"
    using flood_and_indirect_run [OF ok r(2) [folded r(3)]] unfolding same_jobs(5) [OF h] ch r(3) M_def by blast
  have sub: "leak_roots env st js \<subseteq> M" by (auto simp: M_def)
  have roots: "ignored_chunks env st \<subseteq> leak_roots env st js" "arg_targets env st \<subseteq> leak_roots env st js" by (auto simp: leak_roots_def)
  have leaked: "leaked env st js = chunks env st - M" by (simp add: leaked_def M_def)
  have "chunk_tag st' c = classified env st js c" if c: "c \<in> chunks env st" for c
  proof -
    have t2: "chunk_tag st2 c = (if c \<in> arg_targets env st \<union> (leak_roots env st js - ignored_chunks env st) then kReachable
        else if c \<in> ignored_chunks env st then kIgnored else kDirectlyLeaked)" using r(4) c by (simp add: retagged_def)
    have t': "chunk_tag st' c = (if c \<in> M then (if c \<in> leak_roots env st js then chunk_tag st2 c else kReachable)
        else if c \<in> leak_graph env st `` (chunks env st - M) then kIndirectlyLeaked else chunk_tag st2 c)"
      using f(2) c ch by (simp add: retagged_def)
    show ?thesis unfolding classified_def leak_kind_def leaked t' t2 using sub roots c by auto
  qed
  moreover have "same_heap st st'" using same_heap_trans [OF h] f(2) by (simp add: retagged_def)
  moreover have "ClassifyAllChunks env st = Some st'"
    using r(1) f(1) unfolding ClassifyAllChunks_def Let_def st1_def [symmetric] by (auto split: bind_splits)
  ultimately show ?thesis by (auto simp: retagged_def)
qed

section \<open>The check\<close>

definition leak_record :: "lsan_env \<Rightarrow> heap \<Rightarrow> job list \<Rightarrow> uptr \<Rightarrow> LeakedChunk" where
  "leak_record env st js c = \<lparr>lk_chunk = c, lk_stack_trace_id = metadata_stack_trace_id st (LsanMetadata c),
     lk_size = metadata_requested_size st (LsanMetadata c), lk_tag = leak_kind env st js c\<rparr>"

lemma CollectLeaks_fold:
  assumes "retagged env st (classified env st js) st'" and "set bs \<subseteq> set (le_chunks env)"
  shows "fold (CollectLeaksCb env st') bs ls =
    ls @ map (leak_record env st js) (filter (\<lambda>c. c \<in> leaked env st js) (map (GetUserBegin (le_low env) st) bs))"
  using assms(2)
proof (induction bs arbitrary: ls)
  case (Cons b bs)
  let ?c = "GetUserBegin (le_low env) st b"
  have h: "same_heap st st'" using assms(1) by (simp add: retagged_def)
  note L = same_lookup [OF h]
  have b: "b \<in> set (le_chunks env)" using Cons.prems by simp
  have "CollectLeaksCb env st' b ls = ls @ (if ?c \<in> leaked env st js then [leak_record env st js ?c] else [])"
  proof (cases "?c \<in> chunks env st")
    case True
    then have t: "lsan_tag (header st' (LsanMetadata ?c)) = classified env st js ?c"
      using assms(1) by (simp add: retagged_def chunk_tag_def)
    show ?thesis using enumerated [OF b, of st] True
      by (simp add: CollectLeaksCb_def Let_def L t classified_def leak_kind_def leak_record_def)
  next
    case False
    then show ?thesis using enumerated [OF b, of st] by (simp add: CollectLeaksCb_def Let_def L leaked_def)
  qed
  then show ?case using Cons.IH Cons.prems by simp
qed simp

text \<open>
  C3: The leak check returns, and what it reports is exact: the leaks are the allocated chunks, in the order of
  \<^verbatim>\<open>ForEachChunk\<close> and with their stack, size and kind, that cannot be reached through words of chunks
  from the ignored chunks, from words of the globals, registers, stacks, thread-local storage and root regions that are scanned, or from
  the pointers kept for threads; a leak is indirect when another leaked chunk points to it. The heap is
  unchanged but for the tags, and afterwards every chunk has the tag of a fresh chunk but for the ignored chunks to which no pointer kept for a thread leads:
  an ignored chunk that is the argument of a thread is no longer ignored in the next check.
\<close>

theorem leak_check_exact:
  assumes "lsan_ok env st" and "fresh_tags env st" and "sorted (le_suppressed env)" and "allocator_ok env"
    and "root_jobs env st = Some js" and "\<forall>j\<in>set js. job_ok env st j"
    and "ReportUnsuspendedThreads env \<or> thread_suspend_fail (le_flags env) \<notin> {0, 2}"
  shows "\<exists>st'. CheckForLeaksCallback env st =
      Some (True, map (leak_record env st js) (filter (\<lambda>c. c \<in> leaked env st js) (map (GetUserBegin (le_low env) st) (le_chunks env))), st') \<and>
    same_heap st st' \<and>
    (\<forall>c\<in>chunks env st. chunk_tag st' c = (if c \<in> ignored_chunks env st - arg_targets env st then kIgnored else kDirectlyLeaked))"
proof -
  obtain st1 where c: "ClassifyAllChunks env st = Some st1" "retagged env st (classified env st js) st1"
    using ClassifyAllChunks_run [OF assms(1-6)] by blast
  have h: "same_heap st st1" using c(2) by (simp add: retagged_def)
  have ok: "lsan_ok env st1" and ch: "chunks env st1 = chunks env st" using assms(1) same_chunks [OF h] by simp_all
  let ?st' = "fold (ResetTagsCb env) (le_chunks env) st1"
  have r: "retagged env st1 (\<lambda>c. if chunk_tag st1 c \<noteq> kIgnored then kDirectlyLeaked else chunk_tag st1 c) ?st'"
    by (rule ResetTags_fold [OF ok])
  have "chunk_tag ?st' d = (if d \<in> ignored_chunks env st - arg_targets env st then kIgnored else kDirectlyLeaked)" if d: "d \<in> chunks env st" for d
  proof -
    have "chunk_tag st1 d = classified env st js d" using c(2) d by (simp add: retagged_def)
    moreover have "d \<notin> leaked env st js" if "d \<in> ignored_chunks env st" using that by (auto simp: leaked_def leak_roots_def)
    ultimately show ?thesis using r d ch by (auto simp: retagged_def classified_def leak_kind_def)
  qed
  moreover have "same_heap st ?st'" using same_heap_trans [OF h] r by (simp add: retagged_def)
  moreover have "CheckForLeaksCallback env st = Some (True, fold (CollectLeaksCb env st1) (le_chunks env) [], ?st')"
    using assms(7) c(1) by (auto simp: CheckForLeaksCallback_def Let_def)
  ultimately show ?thesis using CollectLeaks_fold [OF c(2) subset_refl, of "[]"] by simp
qed

definition example_lsan :: lsan_env where
  "example_lsan = \<lparr>le_env = example_env, le_flags = lsan_SetDefaults, le_low = example_lower, le_chunks = [example_block],
     le_allocator_range = (0, 0), le_modules = [], le_segments = [], le_root_regions = [], le_suspended = [],
     le_registry = mk_ThreadRegistry 4 4 4, le_threads = (\<lambda>_. None), le_fakes = (\<lambda>_. None), le_args = tar_empty,
     le_cur = 0, le_caller = (1, 0), le_accessible = (\<lambda>_. True), le_try_copy = (\<lambda>_ _. True), le_suppressed = []\<rparr>"

lemma example_lookup:
  "GetUserBegin example_lower example_used_heap p = example_block + 16"
  "PointsIntoChunk example_lower example_used_heap p \<in> {0, example_block + 16}"
  "metadata_allocated example_used_heap (LsanMetadata (example_block + 16))"
  by (simp_all add: GetUserBegin_def PointsIntoChunk_def GetAsanChunkByAddr_def GetAsanChunk_def LargeChunkHeader_Get_def
      example_lower_def example_used_heap_def set_header_def example_block_def chunk_Beg_def kChunkHeaderSize_def LsanMetadata_def
      metadata_allocated_def header_word_not_magic Let_def)

lemma example_chunks: "chunks example_lsan example_used_heap = {example_block + 16}"
  using example_lookup by (auto simp: chunks_def example_lsan_def example_block_def)

lemma example_lsan_ok: "lsan_ok example_lsan example_used_heap"
proof -
  have "consistent example_used_heap"
    by (simp add: consistent_def example_used_heap_def set_header_def example_heap_def LargeChunkHeader_Get_def zero_header_def)
  moreover have "offset_ok (mp x86_64_env)" "shadow_ok (hs example_used_heap)"
    by (simp_all add: offset_ok_def x86_64_env_def x86_64_mapping_def shadow_ok_def example_used_heap_def set_header_def example_heap_def clean_state_def)
  moreover have "unat (example_block + 16) + unat (metadata_requested_size example_used_heap (LsanMetadata (example_block + 16))) + 80 \<le> 2 ^ 64"
    by (simp add: metadata_requested_size_def LsanMetadata_def example_used_heap_def set_header_def zero_header_def UsedSize_def
        kChunkHeaderSize_def example_block_def)
  ultimately show ?thesis using example_chunks example_lookup(2)
    by (auto simp: lsan_ok_def example_lsan_def example_env_def lsan_SetDefaults_def)
qed

lemma example_graph: "leak_graph example_lsan example_used_heap = {}"
proof -
  have "load64 (hmem example_used_heap) q = 0" for q
    by (simp add: load64_eq_0_iff example_used_heap_def set_header_def example_heap_def)
  then have "word_target example_lsan example_used_heap (seen example_lsan DirectMemoryAccessor b e (hmem example_used_heap)) b' q = None" for b e b' q
    by (simp add: word_target_def seen_def accessor_Init_def accessor_LoadPtr_def MaybeUserPointer_def)
  then show ?thesis by (simp add: leak_graph_def chunk_succs_def targets_def)
qed

theorem leak_check_exact_witness:
  "\<exists>st'. CheckForLeaksCallback example_lsan example_used_heap =
     Some (True, [\<lparr>lk_chunk = example_block + 16, lk_stack_trace_id = 0, lk_size = 13, lk_tag = kDirectlyLeaked\<rparr>], st')"
proof -
  have j: "root_jobs example_lsan example_used_heap = Some []"
    by (simp add: root_jobs_def thread_root_jobs_def suspended_jobs_def scanned_threads_def region_jobs_def HasRootRegions_def global_jobs_def
        segment_jobs_def direct_jobs_def data_segments_def example_lsan_def lsan_SetDefaults_def)
  have t: "chunk_tag example_used_heap (example_block + 16) = kDirectlyLeaked"
    by (simp add: chunk_tag_def LsanMetadata_def kChunkHeaderSize_def example_used_heap_def set_header_def zero_header_def
        example_block_def kDirectlyLeaked_def)
  have "leak_roots example_lsan example_used_heap [] = {}"
    using t example_chunks by (auto simp: leak_roots_def ignored_chunks_def jobs_targets_def arg_targets_def example_lsan_def tar_empty_def GetAllPtrsLocked_def)
  then have l: "leaked example_lsan example_used_heap [] = {example_block + 16}" by (simp add: leaked_def example_chunks)
  have k: "leak_kind example_lsan example_used_heap [] (example_block + 16) = kDirectlyLeaked" by (simp add: leak_kind_def example_graph)
  have r: "leak_record example_lsan example_used_heap [] (example_block + 16) =
      \<lparr>lk_chunk = example_block + 16, lk_stack_trace_id = 0, lk_size = 13, lk_tag = kDirectlyLeaked\<rparr>"
    unfolding leak_record_def k
    by (simp add: metadata_stack_trace_id_def metadata_requested_size_def GetAllocContext_def
        AtomicContextLoad_def LsanMetadata_def kChunkHeaderSize_def example_used_heap_def set_header_def zero_header_def UsedSize_def example_block_def)
  have "fresh_tags example_lsan example_used_heap" by (simp add: fresh_tags_def example_chunks t)
  from leak_check_exact [OF example_lsan_ok this _ _ j] l r example_lookup(1)
  show ?thesis by (simp add: example_lsan_def allocator_ok_def data_segments_def lsan_SetDefaults_def) blast
qed

end
