(* ===== verification/Lsan_Report.thy ===== *)
theory Lsan_Report
  imports Lsan
begin

text \<open>
  The report of the leak checker, the rest of \<^verbatim>\<open>lsan_common.cpp\<close>: \<^verbatim>\<open>LeakReport\<close> merges leaked chunks with the same stack
  and kind, \<^verbatim>\<open>LeakSuppressionContext\<close> keeps the stacks that were suppressed, and \<^verbatim>\<open>CheckForLeaksOnce\<close> repeats the check
  while new suppressed stacks may hide indirect leaks. Printing is modelled by the values that are printed. Matching
  a stack against the suppression rules needs the symbolizer: \<open>matches\<close> says whether a stack is suppressed. \<open>prefix_id n i\<close> stands for the
  stack depot: the id of the stack made of the first \<open>n\<close> frames of the stack \<open>i\<close>.
\<close>

section \<open>Merging leaks\<close>

record Leak =
  leak_id :: u32
  leak_hits :: uptr
  leak_total :: uptr
  leak_stack :: u32
  is_directly_leaked :: bool
  is_suppressed :: bool

record LeakedObject =
  lo_leak_id :: u32
  lo_addr :: uptr
  lo_size :: uptr

record LeakReport =
  next_id :: u32
  leaks :: "Leak list"
  leaked_objects :: "LeakedObject list"

definition empty_report :: LeakReport where
  "empty_report = \<lparr>next_id = 0, leaks = [], leaked_objects = []\<rparr>"

definition kMaxLeaksConsidered :: nat where "kMaxLeaksConsidered = 5000"

text \<open>The index at which the loop over the leaks stops.\<close>

fun find_leak :: "u32 \<Rightarrow> bool \<Rightarrow> Leak list \<Rightarrow> nat" where
  "find_leak s d [] = 0"
| "find_leak s d (l # ls) = (if leak_stack l = s \<and> is_directly_leaked l = d then 0 else Suc (find_leak s d ls))"

definition chunk_stack :: "lsan_flags \<Rightarrow> (nat \<Rightarrow> u32 \<Rightarrow> u32) \<Rightarrow> LeakedChunk \<Rightarrow> u32" where
  "chunk_stack f prefix_id c = (if resolution f \<noteq> 0 then prefix_id (resolution f) (lk_stack_trace_id c) else lk_stack_trace_id c)"

fun AddLeakedChunks :: "lsan_flags \<Rightarrow> (nat \<Rightarrow> u32 \<Rightarrow> u32) \<Rightarrow> LeakedChunk list \<Rightarrow> LeakReport \<Rightarrow> LeakReport option" where
  "AddLeakedChunks f prefix_id [] r = Some r"
| "AddLeakedChunks f prefix_id (c # cs) r = do {
     CHECK (lk_tag c = kDirectlyLeaked \<or> lk_tag c = kIndirectlyLeaked);
     let s = chunk_stack f prefix_id c;
     let d = (lk_tag c = kDirectlyLeaked);
     let i = find_leak s d (leaks r);
     if i = length (leaks r) \<and> length (leaks r) = kMaxLeaksConsidered then Some r
     else do {
       let r = (if i = length (leaks r)
         then r\<lparr>next_id := next_id r + 1, leaks := leaks r @ [\<lparr>leak_id = next_id r, leak_hits = 1, leak_total = lk_size c, leak_stack = s,
           is_directly_leaked = d, is_suppressed = False\<rparr>]\<rparr>
         else r\<lparr>leaks := (leaks r)[i := (leaks r ! i)\<lparr>leak_hits := leak_hits (leaks r ! i) + 1, leak_total := leak_total (leaks r ! i) + lk_size c\<rparr>]\<rparr>);
       let r = (if report_objects f
         then r\<lparr>leaked_objects := leaked_objects r @ [\<lparr>lo_leak_id = leak_id (leaks r ! i), lo_addr = lk_chunk c, lo_size = lk_size c\<rparr>]\<rparr>
         else r);
       AddLeakedChunks f prefix_id cs r
     }
   }"

definition LeakComparator :: "Leak \<Rightarrow> Leak \<Rightarrow> bool" where
  "LeakComparator l1 l2 =
     (if is_directly_leaked l1 = is_directly_leaked l2 then leak_total l1 > leak_total l2 else is_directly_leaked l1)"

definition UnsuppressedLeakCount :: "LeakReport \<Rightarrow> nat" where
  "UnsuppressedLeakCount r = length (filter (\<lambda>l. \<not> is_suppressed l) (leaks r))"

definition IndirectUnsuppressedLeakCount :: "LeakReport \<Rightarrow> nat" where
  "IndirectUnsuppressedLeakCount r = length (filter (\<lambda>l. \<not> is_suppressed l \<and> \<not> is_directly_leaked l) (leaks r))"

section \<open>Printing\<close>

text \<open>What is printed of a leak: the leak, and the objects when they are reported.\<close>

definition PrintReportForLeak :: "lsan_flags \<Rightarrow> LeakReport \<Rightarrow> Leak \<Rightarrow> (Leak \<times> LeakedObject list) option" where
  "PrintReportForLeak f r l = do {
     CHECK (leak_stack l \<noteq> 0);
     Some (l, if report_objects f then filter (\<lambda>x. lo_leak_id x = leak_id l) (leaked_objects r) else [])
   }"

fun report_leaks :: "lsan_flags \<Rightarrow> LeakReport \<Rightarrow> nat \<Rightarrow> nat \<Rightarrow> Leak list \<Rightarrow> (Leak \<times> LeakedObject list) list option" where
  \<comment> \<open>\<open>k\<close> leaks were printed so far, and \<open>n\<close> are wanted\<close>
  "report_leaks f r n k [] = Some []"
| "report_leaks f r n k (l # ls) =
     (if is_suppressed l then report_leaks f r n k ls
      else do {
        p \<leftarrow> PrintReportForLeak f r l;
        if k + 1 = n then Some [p]
        else do { ps \<leftarrow> report_leaks f r n (k + 1) ls; Some (p # ps) }
      })"

text \<open>The result: the sorted report, what is printed, and the number of leaks that are omitted.\<close>

definition ReportTopLeaks :: "lsan_flags \<Rightarrow> nat \<Rightarrow> LeakReport \<Rightarrow> (LeakReport \<times> (Leak \<times> LeakedObject list) list \<times> nat) option" where
  "ReportTopLeaks f n r = do {
     CHECK (length (leaks r) \<le> kMaxLeaksConsidered);
     let unsuppressed_count = UnsuppressedLeakCount r;
     let r = r\<lparr>leaks := Sort LeakComparator (leaks r)\<rparr>;
     ps \<leftarrow> report_leaks f r n 0 (leaks r);
     Some (r, ps, unsuppressed_count - length ps)
   }"

text \<open>The sums that \<^verbatim>\<open>PrintSummary\<close> prints, in bytes and allocations.\<close>

definition PrintSummary :: "LeakReport \<Rightarrow> (uptr \<times> uptr) option" where
  "PrintSummary r = do {
     CHECK (length (leaks r) \<le> kMaxLeaksConsidered);
     Some (fold (\<lambda>l (bytes, allocations). if is_suppressed l then (bytes, allocations)
       else (bytes + leak_total l, allocations + leak_hits l)) (leaks r) (0, 0))
   }"

definition PrintResults :: "lsan_flags \<Rightarrow> LeakReport \<Rightarrow> (bool \<times> (Leak \<times> LeakedObject list) list \<times> (uptr \<times> uptr) option) option" where
  "PrintResults f r =
     (if UnsuppressedLeakCount r \<noteq> 0 then do {
        (r, ps, _) \<leftarrow> ReportTopLeaks f (max_leaks f) r;
        s \<leftarrow> PrintSummary r;
        Some (True, ps, Some s)
      } else Some (False, [], None))"

section \<open>Suppressions\<close>

record LeakSuppressionContext =
  suppressed_stacks_sorted :: bool
  suppressed_stacks :: "u32 list"

definition new_suppressions :: LeakSuppressionContext where
  "new_suppressions = \<lparr>suppressed_stacks_sorted = True, suppressed_stacks = []\<rparr>"

definition Suppress :: "(u32 \<Rightarrow> bool) \<Rightarrow> u32 \<Rightarrow> LeakSuppressionContext \<Rightarrow> bool \<times> LeakSuppressionContext" where
  "Suppress matches s ctx =
     (if \<not> matches s then (False, ctx)
      else (True, ctx\<lparr>suppressed_stacks_sorted := False, suppressed_stacks := suppressed_stacks ctx @ [s]\<rparr>))"

definition GetSortedSuppressedStacks :: "LeakSuppressionContext \<Rightarrow> (u32 list \<times> LeakSuppressionContext) option" where
  "GetSortedSuppressedStacks ctx =
     (if \<not> suppressed_stacks_sorted ctx then do {
        v \<leftarrow> SortAndDedup (<) (suppressed_stacks ctx);
        Some (v, \<lparr>suppressed_stacks_sorted = True, suppressed_stacks = v\<rparr>)
      } else Some (suppressed_stacks ctx, ctx))"

fun apply_suppressions :: "(u32 \<Rightarrow> bool) \<Rightarrow> Leak list \<Rightarrow> LeakSuppressionContext \<Rightarrow> nat \<times> Leak list \<times> LeakSuppressionContext" where
  "apply_suppressions matches [] ctx = (0, [], ctx)"
| "apply_suppressions matches (l # ls) ctx =
     (let (b, ctx) = Suppress matches (leak_stack l) ctx;
          (n, ls, ctx) = apply_suppressions matches ls ctx
      in if b then (n + 1, l\<lparr>is_suppressed := True\<rparr> # ls, ctx) else (n, l # ls, ctx))"

definition ApplySuppressions :: "(u32 \<Rightarrow> bool) \<Rightarrow> LeakReport \<Rightarrow> LeakSuppressionContext \<Rightarrow> nat \<times> LeakReport \<times> LeakSuppressionContext" where
  "ApplySuppressions matches r ctx =
     (let (n, ls, ctx) = apply_suppressions matches (leaks r) ctx in (n, r\<lparr>leaks := ls\<rparr>, ctx))"

section \<open>Checks\<close>

text \<open>What a check works with: the world at the time of the \<open>i\<close>-th stop, whether leak checking is turned off, the rules
  and the stack depot.\<close>

record lsan_params =
  world :: "nat \<Rightarrow> lsan_env"
  is_turned_off :: bool
  matches :: "u32 \<Rightarrow> bool"
  prefix_id :: "nat \<Rightarrow> u32 \<Rightarrow> u32"

type_synonym check_result = "(bool \<times> (Leak \<times> LeakedObject list) list \<times> (uptr \<times> uptr) option) \<times> LeakReport \<times> LeakSuppressionContext \<times> heap"

text \<open>The loop of \<^verbatim>\<open>CheckForLeaksOnce\<close>: \<open>i\<close> counts its rounds, \<open>None\<close> is a failed check.\<close>

function check_rounds :: "lsan_params \<Rightarrow> nat \<Rightarrow> LeakSuppressionContext \<Rightarrow> heap \<Rightarrow> check_result option" where
  "check_rounds p i ctx st = do {
     (stacks, ctx) \<leftarrow> GetSortedSuppressedStacks ctx;
     let env = (world p i)\<lparr>le_suppressed := stacks\<rparr>;
     (success, chunks, st) \<leftarrow> CheckForLeaksCallback env st;
     CHECK success;
     r \<leftarrow> AddLeakedChunks (le_flags env) (prefix_id p) chunks empty_report;
     let (n, r, ctx) = ApplySuppressions (matches p) r ctx;
     if n = 0 \<or> IndirectUnsuppressedLeakCount r = 0 \<or> i \<ge> 8
     then do { out \<leftarrow> PrintResults (le_flags env) r; Some (out, r, ctx, st) }
     else check_rounds p (i + 1) ctx st
   }"
  by pat_completeness auto
termination by (relation "measure (\<lambda>(p, i, ctx, st). 9 - i)") auto

declare check_rounds.simps [simp del]

definition CheckForLeaksOnce :: "lsan_params \<Rightarrow> LeakSuppressionContext \<Rightarrow> heap \<Rightarrow> (bool \<times> LeakSuppressionContext \<times> heap) option" where
  "CheckForLeaksOnce p ctx st =
     (if is_turned_off p then Some (False, ctx, st)
      else do {
        (out, r, ctx, st) \<leftarrow> check_rounds p 0 ctx st;
        Some (fst out, ctx, st)
      })"

text \<open>\<open>ps\<close> has the parameters of each try.\<close>

fun count_tries :: "lsan_params list \<Rightarrow> LeakSuppressionContext \<Rightarrow> heap \<Rightarrow> (nat \<times> LeakSuppressionContext \<times> heap) option" where
  "count_tries [] ctx st = Some (0, ctx, st)"
| "count_tries (p # ps) ctx st = do {
     (b, ctx, st) \<leftarrow> CheckForLeaksOnce p ctx st;
     (n, ctx, st) \<leftarrow> count_tries ps ctx st;
     Some (of_bool b + n, ctx, st)
   }"

definition CheckForLeaks :: "lsan_params list \<Rightarrow> LeakSuppressionContext \<Rightarrow> heap \<Rightarrow> (bool \<times> LeakSuppressionContext \<times> heap) option" where
  "CheckForLeaks ps ctx st = do {
     (n, ctx, st) \<leftarrow> count_tries ps ctx st;
     Some (n = length ps, ctx, st)
   }"

record lsan_global =
  already_done :: bool
  has_reported_leaks :: bool
  g_suppressions :: LeakSuppressionContext
  g_heap :: heap

text \<open>The check at exit; the first component of the result tells whether \<^verbatim>\<open>HandleLeaks\<close> is called.\<close>

definition DoLeakCheck :: "lsan_params list \<Rightarrow> lsan_global \<Rightarrow> (bool \<times> lsan_global) option" where
  "DoLeakCheck ps g =
     (if already_done g then Some (False, g)
      else do {
        (b, ctx, st) \<leftarrow> CheckForLeaks ps (g_suppressions g) (g_heap g);
        Some (b, g\<lparr>already_done := True, has_reported_leaks := b, g_suppressions := ctx, g_heap := st\<rparr>)
      })"

definition DoRecoverableLeakCheck :: "lsan_params list \<Rightarrow> lsan_global \<Rightarrow> (int \<times> lsan_global) option" where
  "DoRecoverableLeakCheck ps g = do {
     (b, ctx, st) \<leftarrow> CheckForLeaks ps (g_suppressions g) (g_heap g);
     Some (if b then 1 else 0, g\<lparr>g_suppressions := ctx, g_heap := st\<rparr>)
   }"

definition lsan_do_leak_check :: "bool \<Rightarrow> lsan_params list \<Rightarrow> lsan_global \<Rightarrow> (bool \<times> lsan_global) option" where
  "lsan_do_leak_check detect_leaks ps g = (if detect_leaks then DoLeakCheck ps g else Some (False, g))"

definition lsan_do_recoverable_leak_check :: "bool \<Rightarrow> lsan_params list \<Rightarrow> lsan_global \<Rightarrow> (int \<times> lsan_global) option" where
  "lsan_do_recoverable_leak_check detect_leaks ps g = (if detect_leaks then DoRecoverableLeakCheck ps g else Some (0, g))"

definition lsan_ignore_object :: "bool \<Rightarrow> lower \<Rightarrow> uptr \<Rightarrow> heap \<Rightarrow> heap" where
  "lsan_ignore_object detect_leaks low p st = (if \<not> detect_leaks then st else snd (IgnoreObject low p st))"

end
