(* ===== verification/Lsan_Report_Proofs.thy ===== *)
theory Lsan_Report_Proofs
  imports Lsan_Report
begin

text \<open>
  The report against its specification: leaks are the groups of the leaked chunks with the same stack and kind.
\<close>

section \<open>The groups\<close>

type_synonym leak_key = "u32 \<times> bool"

definition leak_key :: "lsan_flags \<Rightarrow> (nat \<Rightarrow> u32 \<Rightarrow> u32) \<Rightarrow> LeakedChunk \<Rightarrow> leak_key" where
  "leak_key f p c = (chunk_stack f p c, lk_tag c = kDirectlyLeaked)"

text \<open>The keys in the order in which they occur first, and the position of a key.\<close>

definition leak_keys :: "lsan_flags \<Rightarrow> (nat \<Rightarrow> u32 \<Rightarrow> u32) \<Rightarrow> LeakedChunk list \<Rightarrow> leak_key list" where
  "leak_keys f p cs = rev (remdups (rev (map (leak_key f p) cs)))"

definition position :: "'a \<Rightarrow> 'a list \<Rightarrow> nat" where
  "position k ks = length (takeWhile (\<lambda>x. x \<noteq> k) ks)"

definition group :: "lsan_flags \<Rightarrow> (nat \<Rightarrow> u32 \<Rightarrow> u32) \<Rightarrow> LeakedChunk list \<Rightarrow> leak_key \<Rightarrow> LeakedChunk list" where
  "group f p cs k = filter (\<lambda>c. leak_key f p c = k) cs"

definition leak_of :: "lsan_flags \<Rightarrow> (nat \<Rightarrow> u32 \<Rightarrow> u32) \<Rightarrow> LeakedChunk list \<Rightarrow> nat \<Rightarrow> leak_key \<Rightarrow> Leak" where
  "leak_of f p cs i k = \<lparr>leak_id = of_nat i, leak_hits = of_nat (length (group f p cs k)), leak_total = sum_list (map lk_size (group f p cs k)),
     leak_stack = fst k, is_directly_leaked = snd k, is_suppressed = False\<rparr>"

definition object_of :: "lsan_flags \<Rightarrow> (nat \<Rightarrow> u32 \<Rightarrow> u32) \<Rightarrow> leak_key list \<Rightarrow> LeakedChunk \<Rightarrow> LeakedObject" where
  "object_of f p ks c = \<lparr>lo_leak_id = of_nat (position (leak_key f p c) ks), lo_addr = lk_chunk c, lo_size = lk_size c\<rparr>"

definition report_of :: "lsan_flags \<Rightarrow> (nat \<Rightarrow> u32 \<Rightarrow> u32) \<Rightarrow> LeakedChunk list \<Rightarrow> LeakReport" where
  "report_of f p cs = (let ks = leak_keys f p cs in
     \<lparr>next_id = of_nat (length ks), leaks = map (\<lambda>i. leak_of f p cs i (ks ! i)) [0..<length ks],
      leaked_objects = (if report_objects f then map (object_of f p ks) cs else [])\<rparr>)"

lemma leak_keys_facts [simp]: "set (leak_keys f p cs) = leak_key f p ` set cs" "distinct (leak_keys f p cs)"
  by (simp_all add: leak_keys_def)

lemma leak_keys_snoc:
  "leak_keys f p (cs @ [c]) = (if leak_key f p c \<in> leak_key f p ` set cs then leak_keys f p cs else leak_keys f p cs @ [leak_key f p c])"
  by (simp add: leak_keys_def)

lemma position_found: "k \<in> set ks \<Longrightarrow> position k ks < length ks \<and> ks ! position k ks = k"
  unfolding position_def by (induction ks) auto

lemma position_missing: "k \<notin> set ks \<Longrightarrow> position k ks = length ks"
  unfolding position_def by (subst takeWhile_eq_all_conv [THEN iffD2]) auto

lemma position_append: "k \<in> set ks \<Longrightarrow> position k (ks @ ks') = position k ks"
  unfolding position_def by (subst takeWhile_append1) auto

lemma position_snoc: "k \<notin> set ks \<Longrightarrow> position k (ks @ [k]) = length ks"
  unfolding position_def by (subst takeWhile_append2) auto

lemma find_leak_position: "find_leak s d (map (\<lambda>i. leak_of f p cs i (ks ! i)) [0..<length ks]) = position (s, d) ks"
proof -
  have "find_leak s d ls = position (s, d) (map (\<lambda>l. (leak_stack l, is_directly_leaked l)) ls)" for ls
    by (induction ls) (auto simp: position_def)
  then show ?thesis by (simp add: leak_of_def comp_def map_nth)
qed

lemma leak_of_snoc:
  "leak_of f p (cs @ [c]) i k = (if leak_key f p c = k
    then (leak_of f p cs i k)\<lparr>leak_hits := leak_hits (leak_of f p cs i k) + 1, leak_total := leak_total (leak_of f p cs i k) + lk_size c\<rparr>
    else leak_of f p cs i k)"
  by (simp add: leak_of_def group_def)

section \<open>One chunk\<close>

text \<open>What one more chunk changes: a new group, or one more member of its group.\<close>

lemma report_of_new:
  assumes "leak_key f p c \<notin> leak_key f p ` set ds"
  defines "ks \<equiv> leak_keys f p ds"
  shows "leaks (report_of f p (ds @ [c])) = leaks (report_of f p ds) @ [\<lparr>leak_id = of_nat (length ks), leak_hits = 1, leak_total = lk_size c,
      leak_stack = chunk_stack f p c, is_directly_leaked = (lk_tag c = kDirectlyLeaked), is_suppressed = False\<rparr>]"
    and "next_id (report_of f p (ds @ [c])) = of_nat (length ks) + 1"
proof -
  have k: "leak_keys f p (ds @ [c]) = ks @ [leak_key f p c]" using assms(1) by (simp add: leak_keys_snoc ks_def)
  have "leak_of f p (ds @ [c]) i (ks ! i) = leak_of f p ds i (ks ! i)" if "i < length ks" for i
    using assms(1) nth_mem [OF that] by (auto simp: leak_of_snoc ks_def)
  moreover have "group f p ds (leak_key f p c) = []" using assms(1) unfolding group_def filter_empty_conv by (metis imageI)
  then have "leak_of f p (ds @ [c]) i (leak_key f p c) = \<lparr>leak_id = of_nat i, leak_hits = 1, leak_total = lk_size c,
      leak_stack = chunk_stack f p c, is_directly_leaked = (lk_tag c = kDirectlyLeaked), is_suppressed = False\<rparr>" for i
    unfolding leak_of_snoc by (simp add: leak_of_def leak_key_def)
  ultimately show "leaks (report_of f p (ds @ [c])) = leaks (report_of f p ds) @ [\<lparr>leak_id = of_nat (length ks), leak_hits = 1, leak_total = lk_size c,
      leak_stack = chunk_stack f p c, is_directly_leaked = (lk_tag c = kDirectlyLeaked), is_suppressed = False\<rparr>]"
    by (simp add: report_of_def Let_def k nth_append ks_def [symmetric])
  show "next_id (report_of f p (ds @ [c])) = of_nat (length ks) + 1" by (simp add: report_of_def Let_def k)
qed

lemma report_of_old:
  assumes "leak_key f p c \<in> leak_key f p ` set ds"
  defines "i \<equiv> position (leak_key f p c) (leak_keys f p ds)" and "ls \<equiv> leaks (report_of f p ds)"
  shows "leaks (report_of f p (ds @ [c])) =
      ls[i := (ls ! i)\<lparr>leak_hits := leak_hits (ls ! i) + 1, leak_total := leak_total (ls ! i) + lk_size c\<rparr>]"
    and "next_id (report_of f p (ds @ [c])) = next_id (report_of f p ds)"
proof -
  let ?ks = "leak_keys f p ds"
  have k: "leak_keys f p (ds @ [c]) = ?ks" using assms(1) by (simp add: leak_keys_snoc)
  have i: "i < length ?ks" "?ks ! i = leak_key f p c" using position_found [of "leak_key f p c" ?ks] assms(1) by (simp_all add: i_def)
  have ls: "ls = map (\<lambda>i. leak_of f p ds i (?ks ! i)) [0..<length ?ks]" by (simp add: ls_def report_of_def Let_def)
  have "leak_of f p (ds @ [c]) j (?ks ! j) = (ls[i := (ls ! i)\<lparr>leak_hits := leak_hits (ls ! i) + 1, leak_total := leak_total (ls ! i) + lk_size c\<rparr>]) ! j"
    if "j < length ?ks" for j
    using that i nth_eq_iff_index_eq [OF leak_keys_facts(2) that i(1)] by (auto simp: leak_of_snoc ls nth_list_update)
  then show "leaks (report_of f p (ds @ [c])) =
      ls[i := (ls ! i)\<lparr>leak_hits := leak_hits (ls ! i) + 1, leak_total := leak_total (ls ! i) + lk_size c\<rparr>]"
    by (intro nth_equalityI) (simp_all add: report_of_def Let_def k ls)
  show "next_id (report_of f p (ds @ [c])) = next_id (report_of f p ds)" by (simp add: report_of_def Let_def k)
qed

lemma report_of_objects:
  "leaked_objects (report_of f p (ds @ [c])) = (if report_objects f then leaked_objects (report_of f p ds) @
    [\<lparr>lo_leak_id = of_nat (position (leak_key f p c) (leak_keys f p ds)), lo_addr = lk_chunk c, lo_size = lk_size c\<rparr>] else [])"
proof -
  let ?ks = "leak_keys f p ds"
  have "position (leak_key f p d) (leak_keys f p (ds @ [c])) = position (leak_key f p d) ?ks" if "d \<in> set ds" for d
    using that position_append [of "leak_key f p d" ?ks] by (auto simp: leak_keys_snoc)
  moreover have "position (leak_key f p c) (leak_keys f p (ds @ [c])) = position (leak_key f p c) ?ks"
    using position_missing [of "leak_key f p c" ?ks] position_snoc [of "leak_key f p c" ?ks] by (auto simp: leak_keys_snoc)
  ultimately show ?thesis by (simp add: report_of_def Let_def object_of_def)
qed

lemma AddLeakedChunks_step:
  assumes t: "lk_tag c = kDirectlyLeaked \<or> lk_tag c = kIndirectlyLeaked"
  shows "AddLeakedChunks f p (c # cs) (report_of f p ds) =
    (if leak_key f p c \<notin> leak_key f p ` set ds \<and> length (leak_keys f p ds) = kMaxLeaksConsidered then Some (report_of f p ds)
     else AddLeakedChunks f p cs (report_of f p (ds @ [c])))"
proof -
  let ?ks = "leak_keys f p ds" and ?r = "report_of f p ds"
  let ?i = "position (leak_key f p c) ?ks"
  have r: "length (leaks ?r) = length ?ks" "next_id ?r = of_nat (length ?ks)" by (simp_all add: report_of_def Let_def)
  have find: "find_leak (chunk_stack f p c) (lk_tag c = kDirectlyLeaked) (leaks ?r) = ?i"
    unfolding report_of_def Let_def LeakReport.simps find_leak_position by (simp add: leak_key_def)
  have ident: "leak_id (leaks (report_of f p (ds @ [c])) ! ?i) = of_nat ?i"
    using position_found [of "leak_key f p c" ?ks] position_missing [of "leak_key f p c" ?ks]
    by (auto simp: report_of_def Let_def leak_of_def leak_keys_snoc nth_append)
  have none: "\<not> report_objects f \<Longrightarrow> leaked_objects (report_of f p xs) = []" for xs by (simp add: report_of_def Let_def)
  have obs: "(if report_objects f then r\<lparr>leaked_objects := leaked_objects ?r @
        [\<lparr>lo_leak_id = leak_id (leaks r ! ?i), lo_addr = lk_chunk c, lo_size = lk_size c\<rparr>]\<rparr> else r) = report_of f p (ds @ [c])"
    if "leaks r = leaks (report_of f p (ds @ [c]))" "next_id r = next_id (report_of f p (ds @ [c]))" "leaked_objects r = leaked_objects ?r" for r
    using that ident none by (intro LeakReport.equality) (simp_all add: report_of_objects)
  show ?thesis
  proof (cases "leak_key f p c \<in> leak_key f p ` set ds")
    case True
    then have i: "?i < length ?ks" using position_found [of "leak_key f p c" ?ks] by simp
    note o = obs [of "?r\<lparr>leaks := (leaks ?r)[?i := (leaks ?r ! ?i)\<lparr>leak_hits := leak_hits (leaks ?r ! ?i) + 1, leak_total := leak_total (leaks ?r ! ?i) + lk_size c\<rparr>]\<rparr>"]
    show ?thesis unfolding AddLeakedChunks.simps Let_def find r
      using t True i o report_of_old [OF True] by (simp del: AddLeakedChunks.simps cong: if_cong)
  next
    case False
    then have i: "?i = length ?ks" using position_missing [of "leak_key f p c" ?ks] by simp
    note o = obs [of "?r\<lparr>next_id := of_nat (length ?ks) + 1, leaks := leaks ?r @ [\<lparr>leak_id = of_nat (length ?ks), leak_hits = 1, leak_total = lk_size c,
      leak_stack = chunk_stack f p c, is_directly_leaked = (lk_tag c = kDirectlyLeaked), is_suppressed = False\<rparr>]\<rparr>"]
    show ?thesis unfolding AddLeakedChunks.simps Let_def find r
      using t False i o report_of_new [OF False] by (simp del: AddLeakedChunks.simps cong: if_cong)
  qed
qed

lemma AddLeakedChunks_run:
  assumes "\<forall>c\<in>set cs. lk_tag c = kDirectlyLeaked \<or> lk_tag c = kIndirectlyLeaked" and "length (leak_keys f p ds) \<le> kMaxLeaksConsidered"
  shows "\<exists>n\<le>length cs. AddLeakedChunks f p cs (report_of f p ds) = Some (report_of f p (ds @ take n cs)) \<and>
    length (leak_keys f p (ds @ take n cs)) \<le> kMaxLeaksConsidered \<and>
    (n < length cs \<longrightarrow> length (leak_keys f p (ds @ take n cs)) = kMaxLeaksConsidered \<and> leak_key f p (cs ! n) \<notin> leak_key f p ` set (ds @ take n cs))"
  using assms
proof (induction cs arbitrary: ds)
  case Nil
  then show ?case by simp
next
  case (Cons c cs)
  have t: "lk_tag c = kDirectlyLeaked \<or> lk_tag c = kIndirectlyLeaked" using Cons.prems(1) by simp
  note step = AddLeakedChunks_step [OF t, of f p cs ds]
  show ?case
  proof (cases "leak_key f p c \<notin> leak_key f p ` set ds \<and> length (leak_keys f p ds) = kMaxLeaksConsidered")
    case True
    then show ?thesis using step by (intro exI [of _ 0]) simp
  next
    case False
    then have "length (leak_keys f p (ds @ [c])) \<le> kMaxLeaksConsidered" using Cons.prems(2) by (auto simp: leak_keys_snoc)
    then obtain n where n: "n \<le> length cs" "AddLeakedChunks f p cs (report_of f p (ds @ [c])) = Some (report_of f p ((ds @ [c]) @ take n cs))"
      "length (leak_keys f p ((ds @ [c]) @ take n cs)) \<le> kMaxLeaksConsidered"
      "n < length cs \<longrightarrow> length (leak_keys f p ((ds @ [c]) @ take n cs)) = kMaxLeaksConsidered \<and> leak_key f p (cs ! n) \<notin> leak_key f p ` set ((ds @ [c]) @ take n cs)"
      using Cons.IH [of "ds @ [c]"] Cons.prems(1) by auto
    then show ?thesis using step False by (intro exI [of _ "Suc n"]) (simp del: AddLeakedChunks.simps)
  qed
qed

text \<open>
  C26: \<^verbatim>\<open>AddLeakedChunks\<close> merges the leaked chunks by stack and kind: in the order of first occurrence each group becomes one leak with its
  position as id, the number of its chunks as hit count and the sum of their sizes, and with \<^verbatim>\<open>report_objects\<close> each chunk becomes one object with the
  id of its group. With more than 5000 groups the chunks from the first one of the group 5001 on are dropped.
\<close>

theorem leak_report_groups:
  assumes "\<forall>c\<in>set cs. lk_tag c = kDirectlyLeaked \<or> lk_tag c = kIndirectlyLeaked"
  shows "\<exists>n\<le>length cs. AddLeakedChunks f p cs empty_report = Some (report_of f p (take n cs)) \<and>
    length (leak_keys f p (take n cs)) \<le> 5000 \<and>
    (n < length cs \<longrightarrow> length (leak_keys f p (take n cs)) = 5000 \<and> leak_key f p (cs ! n) \<notin> leak_key f p ` set (take n cs))"
proof -
  have "report_of f p [] = empty_report" by (simp add: report_of_def empty_report_def leak_keys_def)
  then show ?thesis using AddLeakedChunks_run [OF assms, of f p "[]"] by (simp add: leak_keys_def kMaxLeaksConsidered_def)
qed

definition example_leaks :: "LeakedChunk list" where
  "example_leaks = [\<lparr>lk_chunk = 0x602000000020, lk_stack_trace_id = 7, lk_size = 13, lk_tag = kDirectlyLeaked\<rparr>,
     \<lparr>lk_chunk = 0x602000000060, lk_stack_trace_id = 7, lk_size = 5, lk_tag = kDirectlyLeaked\<rparr>]"

theorem leak_report_groups_witness:
  "AddLeakedChunks lsan_SetDefaults (\<lambda>_ i. i) example_leaks empty_report = Some \<lparr>next_id = 1,
     leaks = [\<lparr>leak_id = 0, leak_hits = 2, leak_total = 18, leak_stack = 7, is_directly_leaked = True, is_suppressed = False\<rparr>], leaked_objects = []\<rparr>"
proof -
  have "\<forall>c\<in>set example_leaks. lk_tag c = kDirectlyLeaked \<or> lk_tag c = kIndirectlyLeaked" by (simp add: example_leaks_def)
  moreover have l: "length example_leaks = 2" by (simp add: example_leaks_def)
  ultimately obtain n where n: "n \<le> 2" "AddLeakedChunks lsan_SetDefaults (\<lambda>_ i. i) example_leaks empty_report = Some (report_of lsan_SetDefaults (\<lambda>_ i. i) (take n example_leaks))"
    "n < 2 \<Longrightarrow> length (leak_keys lsan_SetDefaults (\<lambda>_ i. i) (take n example_leaks)) = 5000"
    using leak_report_groups [of example_leaks lsan_SetDefaults "\<lambda>_ i. i"] by metis
  have "length (leak_keys lsan_SetDefaults (\<lambda>_ i. i) (take n example_leaks)) \<le> 2"
    unfolding leak_keys_def using l by (auto intro!: order_trans [OF length_remdups_leq])
  then have "n = 2" using n by fastforce
  then show ?thesis using n(2)
    by (simp add: report_of_def Let_def leak_keys_def leak_of_def group_def leak_key_def chunk_stack_def lsan_SetDefaults_def example_leaks_def)
qed

end
