(* ===== verification/Stack_Store.thy ===== *)
theory Stack_Store
  imports Lzw Leb128 San_Math
begin

text \<open>
  \<^verbatim>\<open>sanitizer_stack_store.{h,cpp}\<close>: stack traces are written one behind the other into blocks of \<^verbatim>\<open>kBlockSizeFrames\<close> words;
  the id of a trace is its position plus one. A block into which nothing more can be written may be packed, as deltas or by LZW, and is unpacked
  when a trace of it is loaded. One operation runs at a time here (the code uses atomic counters and a lock per block).
  The memory of a block is a function from the index of a word; \<open>None\<close> is a failed check or an access outside of the array of blocks or of a block.
\<close>

unbundle bit_operations_syntax

section \<open>Data\<close>

definition kBlockSizeFrames :: nat where "kBlockSizeFrames = 0x100000"
definition kBlockCount :: nat where "kBlockCount = 0x1000"
definition kBlockSizeBytes :: nat where "kBlockSizeBytes = kBlockSizeFrames * 8"

datatype Compression = NoCompression | Delta | LZW

record StackTrace =
  trace :: "uptr list"
  tag :: u32

definition empty_trace :: StackTrace where
  "empty_trace = \<lparr>trace = [], tag = 0\<rparr>"

text \<open>The header of a stored trace.\<close>

definition header_of :: "StackTrace \<Rightarrow> (nat \<times> u8) option" where
  "header_of t = do {
     let size = min (length (trace t)) 255;
     let tg = ucast (tag t);
     CHECK (tag t = ucast tg);
     Some (size, tg)
   }"

definition header_ToUptr :: "nat \<times> u8 \<Rightarrow> uptr" where
  "header_ToUptr h = of_nat (fst h) OR push_bit 8 (ucast (snd h))"

definition header_of_uptr :: "uptr \<Rightarrow> nat \<times> u8" where
  "header_of_uptr h = (unat (h AND 0xff), ucast (drop_bit 8 h))"

text \<open>What the pointer of a block points to: nothing yet, its words, or the packed block with its size, the header included.
  The data begin 9 bytes behind the start of the packed header, which has 16 bytes.\<close>

datatype block_data = NoData | Frames "nat \<Rightarrow> uptr" | PackedBytes nat Compression "u8 list"

datatype block_state = Storing | Packed | Unpacked

record BlockInfo =
  bdata :: block_data
  stored :: u32
  bstate :: block_state

record StackStore =
  total_frames :: uptr
  allocated :: uptr
  blocks :: "nat \<Rightarrow> BlockInfo"

definition new_store :: StackStore where
  "new_store = \<lparr>total_frames = 0, allocated = 0, blocks = (\<lambda>_. \<lparr>bdata = NoData, stored = 0, bstate = Storing\<rparr>)\<rparr>"

definition GetBlockIdx :: "nat \<Rightarrow> nat" where "GetBlockIdx i = i div kBlockSizeFrames"
definition GetInBlockIdx :: "nat \<Rightarrow> nat" where "GetInBlockIdx i = i mod kBlockSizeFrames"

definition IdToOffset :: "u32 \<Rightarrow> nat option" where
  "IdToOffset i = do { CHECK (i \<noteq> 0); Some (unat i - 1) }"

definition OffsetToId :: "nat \<Rightarrow> u32" where
  "OffsetToId i = of_nat i + 1"

definition set_block :: "nat \<Rightarrow> BlockInfo \<Rightarrow> StackStore \<Rightarrow> StackStore" where
  "set_block i b st = st\<lparr>blocks := (blocks st)(i := b)\<rparr>"

definition store_Map :: "nat \<Rightarrow> StackStore \<Rightarrow> StackStore" where
  "store_Map n st = st\<lparr>allocated := allocated st + of_nat n\<rparr>"

definition store_Unmap :: "nat \<Rightarrow> StackStore \<Rightarrow> StackStore" where
  "store_Unmap n st = st\<lparr>allocated := allocated st - of_nat n\<rparr>"

section \<open>Compression\<close>

text \<open>\<^verbatim>\<open>SLeb128Encoder\<close>: each value is written as its difference to the previous one, while there is room for \<open>cap\<close> bytes.\<close>

fun sleb_encode :: "nat \<Rightarrow> uptr \<Rightarrow> uptr list \<Rightarrow> u8 list" where
  "sleb_encode cap prev [] = []"
| "sleb_encode cap prev (v # vs) = (let bs = EncodeSLEB128 cap (v - prev) in bs @ sleb_encode (cap - length bs) v vs)"

text \<open>\<^verbatim>\<open>SLeb128Decoder\<close>, read to its end. A value that is cut off is not initialised in the code; there is no result then. A
  decoder always moves on, so the bytes left become fewer.\<close>

function sleb_decode :: "uptr \<Rightarrow> u8 list \<Rightarrow> uptr list option" where
  "sleb_decode prev bs =
     (if bs = [] then Some []
      else case DecodeSLEB128 bs of
        Some (rest, Some d) \<Rightarrow>
          if length rest < length bs then map_option ((#) (prev + d)) (sleb_decode (prev + d) rest) else None
      | _ \<Rightarrow> None)"
  by pat_completeness auto
termination by (relation "measure (\<lambda>(prev, bs). length bs)") auto

declare sleb_decode.simps [simp del]

definition CompressDelta :: "uptr list \<Rightarrow> nat \<Rightarrow> u8 list" where
  "CompressDelta xs cap = sleb_encode cap 0 xs"

definition UncompressDelta :: "u8 list \<Rightarrow> uptr list option" where
  "UncompressDelta bs = do {
     vs \<leftarrow> sleb_decode 0 bs;
     CHECK (length vs = kBlockSizeFrames);
     Some vs
   }"

definition CompressLzw :: "uptr list \<Rightarrow> nat \<Rightarrow> u8 list option" where
  "CompressLzw xs cap = do {
     ys \<leftarrow> LzwEncode (map unat xs);
     Some (sleb_encode cap 0 (map of_nat ys))
   }"

definition UncompressLzw :: "u8 list \<Rightarrow> uptr list option" where
  "UncompressLzw bs = do {
     ys \<leftarrow> sleb_decode 0 bs;
     vs \<leftarrow> LzwDecode (map unat ys);
     CHECK (length vs = kBlockSizeFrames);
     Some (map of_nat vs)
   }"

section \<open>Blocks\<close>

text \<open>\<open>Stored\<close> counts words as written; the result says whether that completes the block.\<close>

definition Stored :: "nat \<Rightarrow> nat \<Rightarrow> StackStore \<Rightarrow> (bool \<times> StackStore) option" where
  "Stored i n st = do {
     CHECK (i < kBlockCount);
     let b = blocks st i;
     Some (n + unat (stored b) = kBlockSizeFrames, set_block i (b\<lparr>stored := stored b + of_nat n\<rparr>) st)
   }"

definition GetOrCreate :: "nat \<Rightarrow> StackStore \<Rightarrow> StackStore" where
  "GetOrCreate i st =
     (if bdata (blocks st i) = NoData
      then store_Map kBlockSizeBytes (set_block i ((blocks st i)\<lparr>bdata := Frames (\<lambda>_. 0)\<rparr>) st) else st)"

definition unpack_data :: "Compression \<Rightarrow> u8 list \<Rightarrow> uptr list option" where
  "unpack_data c bs = (case c of Delta \<Rightarrow> UncompressDelta bs | LZW \<Rightarrow> UncompressLzw bs | NoCompression \<Rightarrow> None)"

definition GetOrUnpack :: "uptr \<Rightarrow> nat \<Rightarrow> StackStore \<Rightarrow> (block_data \<times> StackStore) option" where
  "GetOrUnpack page i st =
     (let b = blocks st i in
      case bstate b of
        Storing \<Rightarrow> Some (bdata b, set_block i (b\<lparr>bstate := Unpacked\<rparr>) st)
      | Unpacked \<Rightarrow> Some (bdata b, st)
      | Packed \<Rightarrow>
          (case bdata b of
             PackedBytes sz c bs \<Rightarrow> do {
               CHECK (sz \<le> kBlockSizeBytes);
               CHECK (sz \<ge> 16);
               packed_size_aligned \<leftarrow> RoundUpTo (of_nat sz) page;
               let st = store_Map kBlockSizeBytes st;
               vs \<leftarrow> unpack_data c bs;
               CHECK (length vs = kBlockSizeFrames);
               let d = Frames ((!) vs);
               let st = set_block i (b\<lparr>bdata := d, bstate := Unpacked\<rparr>) st;
               Some (d, store_Unmap (unat packed_size_aligned) st)
             }
           | _ \<Rightarrow> None))"

definition pack_data :: "Compression \<Rightarrow> uptr list \<Rightarrow> nat \<Rightarrow> u8 list option" where
  "pack_data c xs cap = (case c of Delta \<Rightarrow> Some (CompressDelta xs cap) | LZW \<Rightarrow> CompressLzw xs cap | NoCompression \<Rightarrow> None)"

text \<open>The number of bytes released, and the store.\<close>

definition block_Pack :: "uptr \<Rightarrow> Compression \<Rightarrow> nat \<Rightarrow> StackStore \<Rightarrow> (nat \<times> StackStore) option" where
  "block_Pack page c i st =
     (let b = blocks st i in
      if c = NoCompression then Some (0, st)
      else if bstate b \<noteq> Storing then Some (0, st)
      else
        (case bdata b of
           Frames f \<Rightarrow>
             if unat (stored b) \<noteq> kBlockSizeFrames then Some (0, st)
             else do {
               let st = store_Map kBlockSizeBytes st;
               bs \<leftarrow> pack_data c (map f [0..<kBlockSizeFrames]) (kBlockSizeBytes - 9);
               let sz = 9 + length bs;
               if kBlockSizeBytes - sz < kBlockSizeBytes div 8
               then Some (0, store_Unmap kBlockSizeBytes (set_block i (b\<lparr>bstate := Unpacked\<rparr>) st))
               else do {
                 packed_size_aligned \<leftarrow> RoundUpTo (of_nat sz) page;
                 let st = store_Unmap (kBlockSizeBytes - unat packed_size_aligned) st;
                 let st = set_block i (b\<lparr>bdata := PackedBytes sz c bs, bstate := Packed\<rparr>) st;
                 let st = store_Unmap kBlockSizeBytes st;
                 Some (kBlockSizeBytes - unat packed_size_aligned, st)
               }
             }
         | _ \<Rightarrow> Some (0, st)))"

section \<open>The store\<close>

text \<open>The position of the words allocated, or \<open>None\<close> when the store is full, and the number of blocks that were completed.\<close>

partial_function (option) store_Alloc :: "nat \<Rightarrow> nat \<Rightarrow> StackStore \<Rightarrow> (nat option \<times> nat \<times> StackStore) option" where
  "store_Alloc n pack st = do {
     let start = unat (total_frames st);
     let st = st\<lparr>total_frames := total_frames st + of_nat n\<rparr>;
     let block_idx = GetBlockIdx start;
     let last_idx = GetBlockIdx (start + n - 1);
     if block_idx = last_idx then
       (if block_idx \<ge> kBlockCount then Some (None, pack, st)
        else Some (Some start, pack, GetOrCreate block_idx st))
     else do {
       CHECK (n \<le> kBlockSizeFrames);
       let in_first = kBlockSizeFrames - GetInBlockIdx start;
       (p1, st) \<leftarrow> Stored block_idx in_first st;
       (p2, st) \<leftarrow> Stored last_idx (n - in_first) st;
       store_Alloc n (pack + of_bool p1 + of_bool p2) st
     }
   }"

definition write_frames :: "nat \<Rightarrow> uptr list \<Rightarrow> (nat \<Rightarrow> uptr) \<Rightarrow> nat \<Rightarrow> uptr" where
  "write_frames k vs f = (\<lambda>j. if k \<le> j \<and> j < k + length vs then vs ! (j - k) else f j)"

definition Store :: "StackTrace \<Rightarrow> StackStore \<Rightarrow> (u32 \<times> nat \<times> StackStore) option" where
  "Store t st =
     (if trace t = [] \<and> tag t = 0 then Some (0, 0, st)
      else do {
        h \<leftarrow> header_of t;
        (slot, pack, st) \<leftarrow> store_Alloc (fst h + 1) 0 st;
        (case slot of
           None \<Rightarrow> Some (0, pack, st)
         | Some idx \<Rightarrow> do {
             let i = GetBlockIdx idx;
             f \<leftarrow> (case bdata (blocks st i) of Frames f \<Rightarrow> Some f | _ \<Rightarrow> None);
             let f = write_frames (GetInBlockIdx idx) (header_ToUptr h # take (fst h) (trace t)) f;
             let st = set_block i ((blocks st i)\<lparr>bdata := Frames f\<rparr>) st;
             (p, st) \<leftarrow> Stored i (fst h + 1) st;
             Some (OffsetToId idx, pack + of_bool p, st)
           })
      })"

definition Load :: "uptr \<Rightarrow> u32 \<Rightarrow> StackStore \<Rightarrow> (StackTrace \<times> StackStore) option" where
  "Load page i st =
     (if i = 0 then Some (empty_trace, st)
      else do {
        idx \<leftarrow> IdToOffset i;
        let block_idx = GetBlockIdx idx;
        CHECK (block_idx < kBlockCount);
        (d, st) \<leftarrow> GetOrUnpack page block_idx st;
        (case d of
           NoData \<Rightarrow> Some (empty_trace, st)
         | PackedBytes _ _ _ \<Rightarrow> None
         | Frames f \<Rightarrow> do {
             let k = GetInBlockIdx idx;
             let (size, tg) = header_of_uptr (f k);
             CHECK (k + 1 + size \<le> kBlockSizeFrames);
             Some (\<lparr>trace = map f [k + 1..<k + 1 + size], tag = ucast tg\<rparr>, st)
           })
      })"

fun pack_blocks :: "uptr \<Rightarrow> Compression \<Rightarrow> nat list \<Rightarrow> StackStore \<Rightarrow> (nat \<times> StackStore) option" where
  "pack_blocks page c [] st = Some (0, st)"
| "pack_blocks page c (i # ks) st = do {
     (n, st) \<leftarrow> block_Pack page c i st;
     (m, st) \<leftarrow> pack_blocks page c ks st;
     Some (n + m, st)
   }"

definition store_Pack :: "uptr \<Rightarrow> Compression \<Rightarrow> StackStore \<Rightarrow> (nat \<times> StackStore) option" where
  "store_Pack page c st = pack_blocks page c [0..<kBlockCount] st"

definition store_Allocated :: "uptr \<Rightarrow> StackStore \<Rightarrow> uptr" where
  \<comment> \<open>\<open>sz\<close> is the size of the object itself\<close>
  "store_Allocated sz st = allocated st + sz"

definition IsPacked :: "nat \<Rightarrow> StackStore \<Rightarrow> bool" where
  "IsPacked i st \<longleftrightarrow> bstate (blocks st i) = Packed"

end
