(* ===== verification/Stack_Store_Proofs.thy ===== *)
theory Stack_Store_Proofs
  imports Stack_Store
begin

text \<open>
  The stack store keeps what is stored in it: whatever is stored, loaded and packed later, an id loads its trace. The compression is the
  composition of the LZW and the LEB128 codecs; a block that does not fit into the buffer for its packed form is never used
  packed, since it is not an eighth smaller.
\<close>

unbundle bit_operations_syntax

abbreviation KF :: nat where "KF \<equiv> kBlockSizeFrames"

lemma KF_val: "KF = 2 ^ 20" "kBlockCount = 2 ^ 12" "kBlockSizeBytes = 2 ^ 23"
  by (simp_all add: kBlockSizeFrames_def kBlockCount_def kBlockSizeBytes_def)

section \<open>Compression\<close>

lemma sleb_more_room: "length (EncodeSLEB128 cap v) < cap \<Longrightarrow> cap \<le> cap' \<Longrightarrow> EncodeSLEB128 cap' v = EncodeSLEB128 cap v"
proof (induction cap arbitrary: v cap')
  case (Suc cap)
  obtain c where c: "cap' = Suc c" using Suc.prems(2) by (cases cap') auto
  show ?case using Suc.IH [of "signed_drop_bit 7 v" c] Suc.prems unfolding c EncodeSLEB128.simps Let_def by (auto split: if_splits)
qed simp

lemma sleb_nonempty: "0 < cap \<Longrightarrow> EncodeSLEB128 cap v \<noteq> []"
  by (cases cap) (simp_all add: Let_def)

lemma sleb_fits:
  assumes "length (EncodeSLEB128 cap v) < cap"
  shows "DecodeSLEB128 (EncodeSLEB128 cap v @ rest) = Some (rest, Some v)"
  using sleb_full [of "max cap 10" v rest] sleb_more_room [OF assms, of "max cap 10"] by simp

lemma sleb_sequence:
  assumes "length (sleb_encode cap prev vs) < cap"
  shows "sleb_decode prev (sleb_encode cap prev vs) = Some vs \<and> length vs \<le> length (sleb_encode cap prev vs)"
  using assms
proof (induction vs arbitrary: cap prev)
  case Nil
  then show ?case by (simp add: sleb_decode.simps)
next
  case (Cons v vs)
  let ?bs = "EncodeSLEB128 cap (v - prev)"
  let ?rest = "sleb_encode (cap - length ?bs) v vs"
  have enc: "sleb_encode cap prev (v # vs) = ?bs @ ?rest" by (simp add: Let_def)
  have len: "length ?bs < cap" "length ?rest < cap - length ?bs" using Cons.prems unfolding enc by simp_all
  have ne: "?bs \<noteq> []" using sleb_nonempty len(1) by simp
  have "sleb_decode prev (?bs @ ?rest) = map_option ((#) v) (sleb_decode v ?rest)"
    using sleb_fits [OF len(1), of ?rest] ne by (subst sleb_decode.simps) simp
  moreover have "Suc (length vs) \<le> length (?bs @ ?rest)" using ne Cons.IH [OF len(2)] by (cases ?bs) simp_all
  ultimately show ?case unfolding enc using Cons.IH [OF len(2)] by simp
qed

lemma lzw_words:
  fixes xs :: "uptr list"
  assumes "xs \<noteq> []" and "length xs = KF"
  shows "\<exists>ys. LzwEncode (map unat xs) = Some (map unat ys) \<and> LzwDecode (map unat ys) = Some (map unat xs) \<and> 7 \<le> length (ys :: uptr list)"
proof -
  have ne: "map unat xs \<noteq> []" using assms(1) by simp
  obtain zs where z: "LzwEncode (map unat xs) = Some zs" "LzwDecode zs = Some (map unat xs)"
    using LzwEncode_ok [OF ne] LzwDecode_ok by metis
  have "z < 2 ^ 64" if "z \<in> set zs" for z
    using LzwEncode_bounds(1) [OF z(1) ne that] uptr_bound assms(2) by (auto simp: KF_val)
  then have w: "map unat (map (of_nat :: nat \<Rightarrow> uptr) zs) = zs" by (simp add: comp_def unat_of_nat map_idI)
  have "7 \<le> length zs"
  proof (rule ccontr)
    assume "\<not> 7 \<le> length zs"
    then have "length zs * length zs \<le> 6 * 6" by (intro mult_mono) simp_all
    then show False using LzwEncode_bounds(2) [OF z(1) ne] assms(2) by (simp add: KF_val)
  qed
  then show ?thesis using z w by (intro exI [of _ "map of_nat zs"]) (simp del: map_map)
qed

lemma pack_unpack:
  assumes "c \<noteq> NoCompression" and "length xs = KF"
  shows "\<exists>bs. pack_data c xs cap = Some bs \<and> (length bs < cap \<longrightarrow> unpack_data c bs = Some xs \<and> 7 \<le> length bs)"
proof (cases c)
  case NoCompression
  then show ?thesis using assms(1) by simp
next
  case Delta
  then show ?thesis using sleb_sequence [of cap 0 xs] assms(2)
    by (auto simp: pack_data_def unpack_data_def CompressDelta_def UncompressDelta_def KF_val)
next
  case LZW
  have "xs \<noteq> []" using assms(2) by (auto simp: KF_val)
  then obtain ys where ys: "LzwEncode (map unat xs) = Some (map unat ys)" "LzwDecode (map unat ys) = Some (map unat xs)" "7 \<le> length (ys :: uptr list)"
    using lzw_words assms(2) by blast
  have id: "map of_nat (map unat zs) = zs" for zs :: "uptr list" by (simp add: comp_def map_idI)
  show ?thesis using ys sleb_sequence [of cap 0 ys] assms(2) LZW id
    by (auto simp: pack_data_def unpack_data_def CompressLzw_def UncompressLzw_def simp del: map_map)
qed

section \<open>The state of the store\<close>

text \<open>The words of a block, packed or not.\<close>

definition contents :: "BlockInfo \<Rightarrow> (nat \<Rightarrow> uptr) option" where
  "contents b = (case bdata b of NoData \<Rightarrow> None | Frames f \<Rightarrow> Some f | PackedBytes sz c bs \<Rightarrow> map_option (!) (unpack_data c bs))"

text \<open>The block \<open>i\<close> when \<open>T\<close> words are written: it counts its words, and it is packed only when it is full, and can be unpacked then.\<close>

definition block_ok :: "nat \<Rightarrow> nat \<Rightarrow> BlockInfo \<Rightarrow> bool" where
  "block_ok T i b \<longleftrightarrow> unat (stored b) = min KF (T - i * KF) \<and>
     (case bdata b of PackedBytes sz c bs \<Rightarrow> bstate b = Packed \<and> (i + 1) * KF \<le> T \<and> 16 \<le> sz \<and> sz \<le> kBlockSizeBytes \<and>
        (\<exists>vs. unpack_data c bs = Some vs \<and> length vs = KF) | _ \<Rightarrow> bstate b \<noteq> Packed)"

definition store_ok :: "StackStore \<Rightarrow> bool" where
  "store_ok st \<longleftrightarrow> (\<forall>i<kBlockCount. block_ok (unat (total_frames st)) i (blocks st i))"

text \<open>Words that are written keep their values.\<close>

definition keeps :: "StackStore \<Rightarrow> StackStore \<Rightarrow> bool" where
  "keeps st st' \<longleftrightarrow> unat (total_frames st) \<le> unat (total_frames st') \<and>
     (\<forall>i f. contents (blocks st i) = Some f \<longrightarrow>
       (\<exists>f'. contents (blocks st' i) = Some f' \<and> (\<forall>j<KF. i * KF + j < unat (total_frames st) \<longrightarrow> f' j = f j)))"

lemma keeps_refl [simp]: "keeps st st"
  by (simp add: keeps_def)

lemma keeps_trans:
  assumes "keeps a b" and "keeps b c"
  shows "keeps a c"
  unfolding keeps_def
proof (intro conjI allI impI)
  show "unat (total_frames a) \<le> unat (total_frames c)" using assms by (simp add: keeps_def)
  fix i f assume f: "contents (blocks a i) = Some f"
  obtain g where g: "contents (blocks b i) = Some g" "\<forall>j<KF. i * KF + j < unat (total_frames a) \<longrightarrow> g j = f j"
    using assms(1) f unfolding keeps_def by blast
  obtain h where h: "contents (blocks c i) = Some h" "\<forall>j<KF. i * KF + j < unat (total_frames b) \<longrightarrow> h j = g j"
    using assms(2) g(1) unfolding keeps_def by blast
  have "unat (total_frames a) \<le> unat (total_frames b)" using assms(1) by (simp add: keeps_def)
  then show "\<exists>f'. contents (blocks c i) = Some f' \<and> (\<forall>j<KF. i * KF + j < unat (total_frames a) \<longrightarrow> f' j = f j)"
    using g(2) h by (intro exI [of _ h]) auto
qed

text \<open>Replacing a block.\<close>

lemma keeps_set_block:
  assumes "contents (blocks st i) = None \<or> (\<exists>f f'. contents (blocks st i) = Some f \<and> contents b = Some f' \<and>
      (\<forall>j<KF. i * KF + j < unat (total_frames st) \<longrightarrow> f' j = f j))"
    and "total_frames st' = total_frames st" and "blocks st' = (blocks st)(i := b)"
  shows "keeps st st'"
  using assms by (auto simp: keeps_def)

lemma store_ok_set_block:
  assumes "store_ok st" and "block_ok (unat (total_frames st)) i b" and "total_frames st' = total_frames st" and "blocks st' = (blocks st)(i := b)"
  shows "store_ok st'"
  using assms by (simp add: store_ok_def)

lemmas store_simps = set_block_def store_Map_def store_Unmap_def

section \<open>Packing and unpacking\<close>

lemma block_Pack_ok:
  assumes "store_ok st" and i: "i < kBlockCount"
  shows "\<exists>n st'. block_Pack (2 ^ p) c i st = Some (n, st') \<and> store_ok st' \<and> keeps st st' \<and> total_frames st' = total_frames st"
proof -
  let ?b = "blocks st i" and ?T = "unat (total_frames st)"
  have b: "block_ok ?T i ?b" using assms by (simp add: store_ok_def)
  show ?thesis
  proof (cases "c = NoCompression \<or> bstate ?b \<noteq> Storing \<or> (\<forall>f. bdata ?b \<noteq> Frames f) \<or> unat (stored ?b) \<noteq> KF")
    case True
    then have "block_Pack (2 ^ p) c i st = Some (0, st)" by (auto simp: block_Pack_def Let_def split: block_data.split)
    then show ?thesis using assms(1) by simp
  next
    case False
    then obtain f where f: "c \<noteq> NoCompression" "bstate ?b = Storing" "bdata ?b = Frames f" "unat (stored ?b) = KF" by auto
    let ?xs = "map f [0..<KF]"
    have full: "(i + 1) * KF \<le> ?T" using b f(4) by (auto simp: block_ok_def KF_val)
    obtain bs where bs: "pack_data c ?xs (kBlockSizeBytes - 9) = Some bs"
      "length bs < kBlockSizeBytes - 9 \<Longrightarrow> unpack_data c bs = Some ?xs \<and> 7 \<le> length bs"
      using pack_unpack [OF f(1), of ?xs "kBlockSizeBytes - 9"] by auto
    show ?thesis
    proof (cases "kBlockSizeBytes - (9 + length bs) < kBlockSizeBytes div 8")
      case True
      let ?st = "store_Unmap kBlockSizeBytes (set_block i (?b\<lparr>bstate := Unpacked\<rparr>) (store_Map kBlockSizeBytes st))"
      have "block_Pack (2 ^ p) c i st = Some (0, ?st)" using f bs(1) True by (simp add: block_Pack_def Let_def)
      moreover have "store_ok ?st" using b f(3) by (intro store_ok_set_block [OF assms(1)]) (auto simp: store_simps block_ok_def)
      moreover have "keeps st ?st" by (rule keeps_set_block [where i = i and b = "?b\<lparr>bstate := Unpacked\<rparr>"]) (auto simp: store_simps contents_def f(3))
      ultimately show ?thesis by (simp add: store_simps)
    next
      case False
      then have u: "unpack_data c bs = Some ?xs" "7 \<le> length bs" using bs(2) by (simp_all add: KF_val)
      obtain al where al: "RoundUpTo (of_nat (9 + length bs)) (2 ^ p) = Some al" using RoundUpTo_exp by blast
      let ?n = "kBlockSizeBytes - unat al" and ?nb = "?b\<lparr>bdata := PackedBytes (9 + length bs) c bs, bstate := Packed\<rparr>"
      let ?st = "store_Unmap kBlockSizeBytes (set_block i ?nb (store_Unmap ?n (store_Map kBlockSizeBytes st)))"
      have "block_Pack (2 ^ p) c i st = Some (?n, ?st)" using f bs(1) False al by (simp add: block_Pack_def Let_def)
      moreover have "block_ok ?T i ?nb" using b full u False by (auto simp: block_ok_def KF_val)
      then have "store_ok ?st" by (rule store_ok_set_block [OF assms(1)]) (simp_all add: store_simps)
      moreover have "keeps st ?st" by (rule keeps_set_block [where i = i and b = ?nb]) (auto simp: store_simps contents_def f(3) u(1))
      ultimately show ?thesis by (simp add: store_simps)
    qed
  qed
qed

lemma pack_blocks_ok:
  assumes "store_ok st" and "set ks \<subseteq> {..<kBlockCount}"
  shows "\<exists>n st'. pack_blocks (2 ^ p) c ks st = Some (n, st') \<and> store_ok st' \<and> keeps st st' \<and> total_frames st' = total_frames st"
  using assms
proof (induction ks arbitrary: st)
  case (Cons i ks)
  obtain n st1 where 1: "block_Pack (2 ^ p) c i st = Some (n, st1)" "store_ok st1" "keeps st st1" "total_frames st1 = total_frames st"
    using block_Pack_ok [OF Cons.prems(1)] Cons.prems(2) by (metis insert_subset lessThan_iff list.simps(15))
  obtain m st2 where 2: "pack_blocks (2 ^ p) c ks st1 = Some (m, st2)" "store_ok st2" "keeps st1 st2" "total_frames st2 = total_frames st1"
    using Cons.IH [OF 1(2)] Cons.prems(2) by auto
  show ?case using 1 2 keeps_trans [OF 1(3) 2(3)] by simp
qed simp

lemma GetOrUnpack_ok:
  assumes "store_ok st" and i: "i < kBlockCount" and f: "contents (blocks st i) = Some f"
  shows "\<exists>g st'. GetOrUnpack (2 ^ p) i st = Some (Frames g, st') \<and> store_ok st' \<and> keeps st st' \<and> (\<forall>j<KF. g j = f j) \<and>
    total_frames st' = total_frames st"
proof -
  let ?b = "blocks st i" and ?T = "unat (total_frames st)"
  have b: "block_ok ?T i ?b" using assms by (simp add: store_ok_def)
  show ?thesis
  proof (cases "bdata ?b")
    case NoData
    then show ?thesis using f by (simp add: contents_def)
  next
    case (Frames g)
    then have g: "g = f" using f by (simp add: contents_def)
    let ?st = "if bstate ?b = Storing then set_block i (?b\<lparr>bstate := Unpacked\<rparr>) st else st"
    have "GetOrUnpack (2 ^ p) i st = Some (Frames g, ?st)"
      using Frames b by (cases "bstate ?b") (simp_all add: GetOrUnpack_def Let_def block_ok_def)
    moreover have "store_ok ?st"
    proof (cases "bstate ?b = Storing")
      case True
      have "block_ok ?T i (?b\<lparr>bstate := Unpacked\<rparr>)" using b Frames by (simp add: block_ok_def)
      then show ?thesis using True store_ok_set_block [OF assms(1)] by (simp add: store_simps)
    qed (use assms(1) in simp)
    moreover have "keeps st ?st" by (rule keeps_set_block [where i = i and b = "?b\<lparr>bstate := if bstate ?b = Storing then Unpacked else bstate ?b\<rparr>"])
        (auto simp: store_simps contents_def Frames)
    ultimately show ?thesis using g by (auto simp: store_simps)
  next
    case (PackedBytes sz c bs)
    then obtain vs where v: "bstate ?b = Packed" "16 \<le> sz" "sz \<le> kBlockSizeBytes" "unpack_data c bs = Some vs" "length vs = KF"
      using b by (auto simp: block_ok_def)
    have fv: "f = (!) vs" using f PackedBytes v(4) by (simp add: contents_def)
    obtain al where al: "RoundUpTo (of_nat sz) (2 ^ p) = Some al" using RoundUpTo_exp by blast
    let ?nb = "?b\<lparr>bdata := Frames ((!) vs), bstate := Unpacked\<rparr>"
    let ?st = "store_Unmap (unat al) (set_block i ?nb (store_Map kBlockSizeBytes st))"
    have "GetOrUnpack (2 ^ p) i st = Some (Frames ((!) vs), ?st)"
      using PackedBytes v al by (simp add: GetOrUnpack_def Let_def)
    moreover have "block_ok ?T i ?nb" using b by (simp add: block_ok_def)
    then have "store_ok ?st" by (rule store_ok_set_block [OF assms(1)]) (simp_all add: store_simps)
    moreover have "keeps st ?st" by (rule keeps_set_block [where i = i and b = ?nb]) (auto simp: store_simps contents_def PackedBytes v(4))
    ultimately show ?thesis using fv by (auto simp: store_simps)
  qed
qed

section \<open>Allocation\<close>

lemma kf_div: "r < KF \<Longrightarrow> (q * KF + r) div KF = q" "r < KF \<Longrightarrow> (q * KF + r) mod KF = r"
  by simp_all

lemma straddle:
  assumes "T div KF \<noteq> (T + n - 1) div KF" and "0 < n" and "n \<le> 256"
  defines "k \<equiv> KF - T mod KF"
  shows "(T + n - 1) div KF = T div KF + 1" and "k < n" and "T + n = (T div KF + 1) * KF + (n - k)" and "T + k = (T div KF + 1) * KF"
proof -
  define q r where "q = T div KF" and "r = T mod KF"
  have T: "T = q * KF + r" and r: "r < KF" by (simp_all add: q_def r_def KF_val)
  have k: "k = KF - r" by (simp add: k_def r_def)
  have "\<not> r + n - 1 < KF"
  proof
    assume "r + n - 1 < KF"
    then have "(q * KF + (r + n - 1)) div KF = q" by (rule kf_div)
    moreover have "q * KF + (r + n - 1) = T + n - 1" using T assms(2) by simp
    ultimately show False using assms(1) by (simp add: q_def)
  qed
  then have n: "r + n - 1 = KF + (n - k - 1)" "k < n" using assms(2) r k by linarith+
  then have "T + n - 1 = (q + 1) * KF + (n - k - 1)" using T assms(2) by simp
  then have "(T + n - 1) div KF = q + 1" using kf_div(1) [of "n - k - 1" "q + 1"] assms(3) by (simp add: KF_val)
  then show "(T + n - 1) div KF = T div KF + 1" "k < n" using n by (simp_all add: q_def)
  show "T + n = (T div KF + 1) * KF + (n - k)" "T + k = (T div KF + 1) * KF"
    using T n r k assms(2) by (simp_all add: q_def [symmetric] algebra_simps)
qed

text \<open>Words that fit into the current block.\<close>

lemma Alloc_fits:
  assumes "store_ok st" and "0 < n" and "n \<le> 256" and "unat (total_frames st) + n \<le> 2 ^ 32"
    and one: "unat (total_frames st) div KF = (unat (total_frames st) + n - 1) div KF"
  defines "T \<equiv> unat (total_frames st)"
  shows "\<exists>st'. store_Alloc n a st = Some (Some T, a, st') \<and> unat (total_frames st') = T + n \<and>
    (\<forall>i<kBlockCount. block_ok T i (blocks st' i)) \<and> keeps st st' \<and> (\<exists>f. bdata (blocks st' (T div KF)) = Frames f)"
proof -
  let ?i = "T div KF" and ?s = "st\<lparr>total_frames := total_frames st + of_nat n\<rparr>"
  have T: "T + n \<le> 2 ^ 32" using assms(4) by (simp add: T_def)
  then have "?i * KF < 2 ^ 32" using div_times_less_eq_dividend [of T KF] assms(2) by linarith
  then have i: "?i < kBlockCount" by (simp add: KF_val)
  have tot: "unat (total_frames ?s) = T + n" using T by (simp add: T_def unat_word_ariths unat_of_nat)
  have b: "block_ok T j (blocks st j)" if "j < kBlockCount" for j using assms(1) that by (simp add: store_ok_def T_def)
  have notfull: "\<not> (?i + 1) * KF \<le> T" using div_mult_mod_eq [of T KF] mod_less_divisor [of KF T] by (simp add: KF_val)
  have np: "bdata (blocks st ?i) \<noteq> PackedBytes sz c bs" for sz c bs using b [OF i] notfull by (auto simp: block_ok_def)
  have "store_Alloc n a st = Some (Some T, a, GetOrCreate ?i ?s)"
    using one i by (subst store_Alloc.simps) (simp add: Let_def GetBlockIdx_def T_def)
  moreover have "block_ok T j (blocks (GetOrCreate ?i ?s) j)" if "j < kBlockCount" for j
  proof (cases "j = ?i \<and> bdata (blocks st ?i) = NoData")
    case True
    then have "blocks (GetOrCreate ?i ?s) j = (blocks st j)\<lparr>bdata := Frames (\<lambda>_. 0)\<rparr>" by (simp add: GetOrCreate_def store_simps)
    then show ?thesis using b [OF that] True by (simp add: block_ok_def)
  next
    case False
    then have "blocks (GetOrCreate ?i ?s) j = blocks st j" by (auto simp: GetOrCreate_def store_simps)
    then show ?thesis using b [OF that] by simp
  qed
  moreover have "keeps st (GetOrCreate ?i ?s)"
    using tot by (auto simp: keeps_def GetOrCreate_def store_simps T_def contents_def)
  moreover have "\<exists>f. bdata (blocks (GetOrCreate ?i ?s) ?i) = Frames f"
    using np by (cases "bdata (blocks st ?i)") (auto simp: GetOrCreate_def store_simps)
  moreover have "unat (total_frames (GetOrCreate ?i ?s)) = T + n" using tot by (simp add: GetOrCreate_def store_simps)
  ultimately show ?thesis by blast
qed

lemma Stored_run: "i < kBlockCount \<Longrightarrow> Stored i n st =
    Some (n + unat (stored (blocks st i)) = KF, set_block i ((blocks st i)\<lparr>stored := stored (blocks st i) + of_nat n\<rparr>) st)"
  by (simp add: Stored_def Let_def)

lemma block_ok_stored:
  assumes "block_ok T i b" and "min KF (T - i * KF) + n = min KF (T' - i * KF)" and "T \<le> T'"
  shows "block_ok T' i (b\<lparr>stored := stored b + of_nat n\<rparr>)"
proof -
  have "unat (stored b) = min KF (T - i * KF)" using assms(1) by (simp add: block_ok_def)
  then have "unat (stored b + of_nat n) = min KF (T' - i * KF)"
    using assms(2) by (simp add: unat_word_ariths unat_of_nat KF_val mod_add_right_eq)
  then show ?thesis using assms(1,3) by (auto simp: block_ok_def split: block_data.splits)
qed

lemma block_ok_later:
  assumes "block_ok T i b" and "min KF (T - i * KF) = min KF (T' - i * KF)" and "T \<le> T'"
  shows "block_ok T' i b"
  using block_ok_stored [OF assms(1), of 0 T'] assms(2,3) by simp

text \<open>Words that do not fit: the rest of the block and the same number of words of the next one are skipped.\<close>

lemma Alloc_retries:
  assumes "store_ok st" and "0 < n" and "n \<le> 256" and "unat (total_frames st) + n < 2 ^ 32"
    and two: "unat (total_frames st) div KF \<noteq> (unat (total_frames st) + n - 1) div KF"
  defines "T \<equiv> unat (total_frames st)"
  shows "\<exists>a' st'. store_Alloc n a st = store_Alloc n a' st' \<and> store_ok st' \<and> keeps st st' \<and> unat (total_frames st') = T + n \<and>
    (T + n) div KF = (T + n + n - 1) div KF"
proof -
  define q k where "q = T div KF" and "k = KF - T mod KF"
  have S: "(T + n - 1) div KF = q + 1" "k < n" "T + n = (q + 1) * KF + (n - k)" "T + k = (q + 1) * KF"
    using straddle [of T n] two assms(2,3) by (simp_all add: T_def q_def k_def)
  have qT: "q * KF \<le> T" by (simp add: q_def)
  have "(q + 1) * KF < 2 ^ 32" using S(3) assms(4) by (simp add: T_def)
  then have q1: "q + 1 < kBlockCount" by (simp add: KF_val)
  let ?b0 = "(blocks st q)\<lparr>stored := stored (blocks st q) + of_nat k\<rparr>"
  let ?b1 = "(blocks st (q + 1))\<lparr>stored := stored (blocks st (q + 1)) + of_nat (n - k)\<rparr>"
  let ?st = "set_block (q + 1) ?b1 (set_block q ?b0 (st\<lparr>total_frames := total_frames st + of_nat n\<rparr>))"
  have tot: "unat (total_frames ?st) = T + n" using assms(4) by (simp add: store_simps T_def unat_word_ariths unat_of_nat)
  have b: "block_ok T i (blocks st i)" if "i < kBlockCount" for i using assms(1) that by (simp add: store_ok_def T_def)
  have "block_ok (T + n) i (blocks ?st i)" if i: "i < kBlockCount" for i
  proof -
    consider "i = q" | "i = q + 1" | "i < q" | "i > q + 1" by linarith
    then show ?thesis
    proof cases
      case 1
      have "min KF (T - i * KF) + k = min KF (T + n - i * KF)" using 1 S(2-4) qT by (simp add: algebra_simps)
      then show ?thesis using block_ok_stored [OF b [OF i]] 1 by (simp add: store_simps)
    next
      case 2
      have "T - i * KF = 0" "T + n - i * KF = n - k" using 2 S(3,4) by simp_all
      then have "min KF (T - i * KF) + (n - k) = min KF (T + n - i * KF)" using assms(3) by (simp add: KF_val)
      then show ?thesis using block_ok_stored [OF b [OF i]] 2 by (simp add: store_simps)
    next
      case 3
      then have "(i + 1) * KF \<le> q * KF" by (intro mult_le_mono1) simp
      then have "i * KF + KF \<le> T" using qT by simp
      then show ?thesis using block_ok_later [OF b [OF i], of "T + n"] 3 by (simp add: store_simps)
    next
      case 4
      then have "(q + 2) * KF \<le> i * KF" by (intro mult_le_mono1) simp
      then have "T - i * KF = 0" "T + n - i * KF = 0" using S(3) assms(3) by (simp_all add: KF_val)
      then show ?thesis using block_ok_later [OF b [OF i], of "T + n"] 4 by (simp add: store_simps)
    qed
  qed
  then have ok: "store_ok ?st" using tot by (simp add: store_ok_def)
  have "contents (blocks ?st i) = contents (blocks st i)" for i by (simp add: store_simps contents_def)
  then have keep: "keeps st ?st" using tot by (simp add: keeps_def T_def)
  have "(T + n + n - 1) = (q + 1) * KF + (n - k + n - 1)" using S(3) assms(2) by simp
  moreover have "n - k + n - 1 < KF" "n - k < KF" using assms(3) by (simp_all add: KF_val)
  ultimately have one: "(T + n) div KF = (T + n + n - 1) div KF" unfolding S(3) using kf_div(1) by metis
  have "store_Alloc n a st = store_Alloc n (a + of_bool (k + unat (stored (blocks st q)) = KF) +
      of_bool (n - k + unat (stored (blocks st (q + 1))) = KF)) ?st"
    using two S(1) q1 assms(3) by (subst store_Alloc.simps)
      (simp add: Let_def GetBlockIdx_def GetInBlockIdx_def Stored_run T_def q_def k_def store_simps KF_val)
  then show ?thesis using ok keep tot one by blast
qed

lemma Alloc_ok:
  assumes "store_ok st" and "0 < n" and "n \<le> 256" and "unat (total_frames st) + 2 * n \<le> 2 ^ 32"
  defines "T \<equiv> unat (total_frames st)"
  shows "\<exists>k a' st'. store_Alloc n a st = Some (Some k, a', st') \<and> T \<le> k \<and> k \<le> T + n \<and> k div KF = (k + n - 1) div KF \<and>
    unat (total_frames st') = k + n \<and> (\<forall>i<kBlockCount. block_ok k i (blocks st' i)) \<and> keeps st st' \<and>
    (\<exists>f. bdata (blocks st' (k div KF)) = Frames f)"
proof (cases "T div KF = (T + n - 1) div KF")
  case True
  have "unat (total_frames st) + n \<le> 2 ^ 32" using assms(4) by simp
  from Alloc_fits [OF assms(1-3) this, folded T_def, OF True, of a] obtain st' where
    "store_Alloc n a st = Some (Some T, a, st')" "unat (total_frames st') = T + n"
    "\<forall>i<kBlockCount. block_ok T i (blocks st' i)" "keeps st st'" "\<exists>f. bdata (blocks st' (T div KF)) = Frames f" by blast
  then show ?thesis using True by (intro exI [of _ T] exI [of _ a] exI [of _ st']) simp
next
  case False
  have "unat (total_frames st) + n < 2 ^ 32" using assms(2,4) by simp
  from Alloc_retries [OF assms(1-3) this, folded T_def, OF False, of a] obtain a' st1 where
    1: "store_Alloc n a st = store_Alloc n a' st1" "store_ok st1" "keeps st st1" "unat (total_frames st1) = T + n"
      "(T + n) div KF = (T + n + n - 1) div KF" by blast
  have "unat (total_frames st1) + n \<le> 2 ^ 32" using 1(4) assms(4) by (simp add: T_def)
  from Alloc_fits [OF 1(2) assms(2,3) this, unfolded 1(4), OF 1(5), of a'] obtain st' where
    2: "store_Alloc n a' st1 = Some (Some (T + n), a', st')" "unat (total_frames st') = T + n + n"
      "\<forall>i<kBlockCount. block_ok (T + n) i (blocks st' i)" "keeps st1 st'" "\<exists>f. bdata (blocks st' ((T + n) div KF)) = Frames f" by blast
  show ?thesis using 1(1,5) 2 keeps_trans [OF 1(3) 2(4)]
    by (intro exI [of _ "T + n"] exI [of _ a'] exI [of _ st']) simp
qed

section \<open>Traces in the store\<close>

text \<open>At most 255 frames of a trace are kept.\<close>

definition cut :: "StackTrace \<Rightarrow> StackTrace" where
  "cut t = t\<lparr>trace := take 255 (trace t)\<rparr>"

definition trace_size :: "StackTrace \<Rightarrow> nat" where
  "trace_size t = min (length (trace t)) 255"

definition holds_at :: "StackStore \<Rightarrow> nat \<Rightarrow> StackTrace \<Rightarrow> bool" where
  "holds_at st k t \<longleftrightarrow> tag t < 256 \<and> k + 1 < 2 ^ 32 \<and> k + trace_size t + 1 \<le> unat (total_frames st) \<and> k mod KF + trace_size t + 1 \<le> KF \<and>
     (\<exists>f. contents (blocks st (k div KF)) = Some f \<and> f (k mod KF) = header_ToUptr (trace_size t, ucast (tag t)) \<and>
       (\<forall>j<trace_size t. f (k mod KF + 1 + j) = trace t ! j))"

lemma header_roundtrip:
  assumes "n \<le> 255"
  shows "header_of_uptr (header_ToUptr (n, tg)) = (n, tg)"
proof -
  have u: "unat (of_nat n :: uptr) = n" using assms by (simp add: unat_of_nat)
  have n: "take_bit 8 (of_nat n :: uptr) = of_nat n" using assms by (simp add: take_bit_of_nat take_bit_nat_eq_self)
  have d: "drop_bit 8 (of_nat n :: uptr) = 0"
    unfolding word_unat_eq_iff unsigned_drop_bit_eq u using assms by (simp add: drop_bit_eq_div take_bit_nat_eq_self)
  have "header_ToUptr (n, tg) AND mask 8 = of_nat n"
    unfolding header_ToUptr_def fst_conv snd_conv take_bit_eq_mask [symmetric] take_bit_or n by (simp add: take_bit_push_bit)
  moreover have "(0xff :: uptr) = mask 8" by (simp add: mask_eq_exp_minus_1)
  moreover have "drop_bit 8 (header_ToUptr (n, tg)) = ucast tg"
    unfolding header_ToUptr_def fst_conv snd_conv drop_bit_or d by (rule bit_word_eqI) (auto simp: bit_simps dest: bit_imp_le_length)
  moreover have "ucast (ucast tg :: uptr) = tg" by (rule bit_word_eqI) (auto simp: bit_simps)
  ultimately show ?thesis using assms by (simp add: header_of_uptr_def unat_of_nat)
qed

lemma small_tag:
  fixes x :: u32
  assumes "x < 256"
  shows "ucast (ucast x :: u8) = x"
proof -
  have "unat x < 256" using assms by (simp add: word_less_nat_alt)
  then show ?thesis unfolding word_unat_eq_iff unsigned_ucast_eq by (simp add: unsigned_take_bit_eq take_bit_nat_eq_self)
qed

lemma holds_kept:
  assumes "holds_at st k t" and "keeps st st'"
  shows "holds_at st' k t"
proof -
  obtain f where f: "contents (blocks st (k div KF)) = Some f" "f (k mod KF) = header_ToUptr (trace_size t, ucast (tag t))"
    "\<forall>j<trace_size t. f (k mod KF + 1 + j) = trace t ! j" using assms(1) by (auto simp: holds_at_def)
  obtain g where g: "contents (blocks st' (k div KF)) = Some g" "\<forall>j<KF. k div KF * KF + j < unat (total_frames st) \<longrightarrow> g j = f j"
    using assms(2) f(1) unfolding keeps_def by blast
  have bnd: "k + trace_size t + 1 \<le> unat (total_frames st)" "k mod KF + trace_size t + 1 \<le> KF" using assms(1) by (simp_all add: holds_at_def)
  have "g (k mod KF + j) = f (k mod KF + j)" if "j \<le> trace_size t" for j
  proof -
    have "k div KF * KF + (k mod KF + j) = k + j" by simp
    then show ?thesis using g(2) bnd that by simp
  qed
  then have "g (k mod KF) = f (k mod KF)" "\<forall>j<trace_size t. g (k mod KF + 1 + j) = f (k mod KF + 1 + j)"
    by (metis add.right_neutral zero_le, metis Suc_eq_plus1_left Suc_leI add.assoc)
  then show ?thesis using assms f g(1) by (auto simp: holds_at_def keeps_def)
qed

lemma OffsetToId_inverse:
  assumes "k + 1 < 2 ^ 32"
  shows "OffsetToId k \<noteq> 0" and "IdToOffset (OffsetToId k) = Some k"
proof -
  have "unat (OffsetToId k) = k + 1" using assms by (simp add: OffsetToId_def unat_word_ariths unat_of_nat)
  then show "OffsetToId k \<noteq> 0" "IdToOffset (OffsetToId k) = Some k" by (auto simp: IdToOffset_def)
qed

lemma Load_ok:
  assumes "store_ok st" and "holds_at st k t"
  shows "\<exists>st'. Load (2 ^ p) (OffsetToId k) st = Some (cut t, st') \<and> store_ok st' \<and> keeps st st' \<and> total_frames st' = total_frames st"
proof -
  have k: "k + 1 < 2 ^ 32" "tag t < 256" "k mod KF + trace_size t + 1 \<le> KF" using assms(2) by (simp_all add: holds_at_def)
  obtain f where f: "contents (blocks st (k div KF)) = Some f" "f (k mod KF) = header_ToUptr (trace_size t, ucast (tag t))"
    "\<forall>j<trace_size t. f (k mod KF + 1 + j) = trace t ! j" using assms(2) by (auto simp: holds_at_def)
  have "k div KF * KF < 2 ^ 32" using k(1) div_times_less_eq_dividend [of k KF] by linarith
  then have i: "k div KF < kBlockCount" by (simp add: KF_val)
  obtain g st' where g: "GetOrUnpack (2 ^ p) (k div KF) st = Some (Frames g, st')" "store_ok st'" "keeps st st'" "\<forall>j<KF. g j = f j"
    "total_frames st' = total_frames st" using GetOrUnpack_ok [OF assms(1) i f(1)] by blast
  have h: "header_of_uptr (g (k mod KF)) = (trace_size t, ucast (tag t))"
    using g(4) f(2) k(3) header_roundtrip [of "trace_size t"] by (simp add: trace_size_def)
  have "g (k mod KF + 1 + j) = trace t ! j" if "j < trace_size t" for j using g(4) f(3) k(3) that by simp
  then have "map g [k mod KF + 1..<k mod KF + 1 + trace_size t] = take 255 (trace t)"
    by (intro nth_equalityI) (simp_all add: trace_size_def del: upt_Suc)
  then have "Load (2 ^ p) (OffsetToId k) st = Some (cut t, st')"
    using OffsetToId_inverse [OF k(1)] i g(1) h k(3) small_tag [OF k(2)]
    by (simp add: Load_def Let_def GetBlockIdx_def GetInBlockIdx_def cut_def)
  then show ?thesis using g by blast
qed

lemma one_block:
  assumes "k div KF = (k + n - 1) div KF" and "0 < n"
  shows "k mod KF + n \<le> KF"
proof (rule ccontr)
  assume "\<not> ?thesis"
  moreover have "k = k div KF * KF + k mod KF" by simp
  ultimately have "(k div KF + 1) * KF \<le> k + n - 1" unfolding add_mult_distrib by linarith
  then have "(k div KF + 1) * KF div KF \<le> (k + n - 1) div KF" by (rule div_le_mono)
  then show False using assms(1) by (simp add: KF_val)
qed

lemma Store_ok:
  assumes "store_ok st" and "tag t < 256" and "\<not> (trace t = [] \<and> tag t = 0)" and "unat (total_frames st) + 2 * (trace_size t + 1) < 2 ^ 32"
  shows "\<exists>k a st'. Store t st = Some (OffsetToId k, a, st') \<and> store_ok st' \<and> keeps st st' \<and> holds_at st' k t \<and>
    unat (total_frames st') \<le> unat (total_frames st) + 2 * (trace_size t + 1)"
proof -
  define n where "n = trace_size t + 1"
  let ?T = "unat (total_frames st)" and ?h = "(trace_size t, ucast (tag t) :: u8)"
  have hd: "header_of t = Some ?h" using small_tag [OF assms(2)] by (simp add: header_of_def Let_def trace_size_def)
  have n: "0 < n" "n \<le> 256" "?T + 2 * n \<le> 2 ^ 32" using assms(4) by (simp_all add: n_def trace_size_def)
  obtain k a st1 where A: "store_Alloc n 0 st = Some (Some k, a, st1)" "?T \<le> k" "k \<le> ?T + n" "k div KF = (k + n - 1) div KF"
    "unat (total_frames st1) = k + n" "\<forall>i<kBlockCount. block_ok k i (blocks st1 i)" "keeps st st1" "\<exists>f. bdata (blocks st1 (k div KF)) = Frames f"
    using Alloc_ok [OF assms(1) n, of 0] by blast
  let ?i = "k div KF" and ?r = "k mod KF"
  obtain f where f: "bdata (blocks st1 ?i) = Frames f" using A(8) by blast
  have r: "?r + n \<le> KF" by (rule one_block [OF A(4) n(1)])
  have k: "k + 1 < 2 ^ 32" using A(3) assms(4) by (simp add: n_def)
  then have "?i * KF < 2 ^ 32" using div_times_less_eq_dividend [of k KF] by linarith
  then have i: "?i < kBlockCount" by (simp add: KF_val)
  define g where "g = write_frames ?r (header_ToUptr ?h # take (trace_size t) (trace t)) f"
  let ?b = "(blocks st1 ?i)\<lparr>bdata := Frames g, stored := stored (blocks st1 ?i) + of_nat n\<rparr>"
  let ?st = "set_block ?i ?b st1"
  have "Store t st = Some (OffsetToId k, a + of_bool (n + unat (stored (blocks st1 ?i)) = KF), ?st)"
    using assms(3) hd A(1) f i unfolding Store_def if_not_P [OF assms(3)] by (simp add: n_def Let_def GetBlockIdx_def GetInBlockIdx_def Stored_run store_simps g_def)
  moreover have "store_ok ?st"
  proof -
    have "block_ok (k + n) j (blocks ?st j)" if j: "j < kBlockCount" for j
    proof -
      note b = A(6) [rule_format, OF j]
      consider "j = ?i" | "j < ?i" | "j > ?i" by linarith
      then show ?thesis
      proof cases
        case 1
        have "k = ?i * KF + ?r" by simp
        then have "min KF (k - ?i * KF) + n = min KF (k + n - ?i * KF)" using r by linarith
        moreover have "block_ok k ?i ((blocks st1 ?i)\<lparr>bdata := Frames g\<rparr>)" using b f 1 by (simp add: block_ok_def)
        ultimately show ?thesis using block_ok_stored [where b = "(blocks st1 ?i)\<lparr>bdata := Frames g\<rparr>" and T = k and T' = "k + n" and i = ?i and n = n] 1
          by (simp add: store_simps)
      next
        case 2
        then have "(j + 1) * KF \<le> ?i * KF" by (intro mult_le_mono1) simp
        then have "j * KF + KF \<le> k" using div_times_less_eq_dividend [of k KF] unfolding add_mult_distrib by linarith
        then show ?thesis using block_ok_later [OF b, of "k + n"] 2 by (simp add: store_simps)
      next
        case 3
        then have "(?i + 1) * KF \<le> j * KF" by (intro mult_le_mono1) simp
        then have "k + n \<le> j * KF" using r div_mult_mod_eq [of k KF] unfolding add_mult_distrib by linarith
        then show ?thesis using block_ok_later [OF b, of "k + n"] 3 by (simp add: store_simps)
      qed
    qed
    then show ?thesis using A(5) by (simp add: store_ok_def store_simps)
  qed
  moreover have "keeps st ?st"
    unfolding keeps_def
  proof (intro conjI allI impI)
    show "?T \<le> unat (total_frames ?st)" using A(2,5) by (simp add: store_simps)
    fix j f0 assume "contents (blocks st j) = Some f0"
    then obtain f1 where f1: "contents (blocks st1 j) = Some f1" "\<forall>x<KF. j * KF + x < ?T \<longrightarrow> f1 x = f0 x"
      using A(7) unfolding keeps_def by blast
    have "g x = f x" if "?i * KF + x < ?T" for x
    proof -
      have "k = ?i * KF + ?r" by simp
      then have "x < ?r" using that A(2) by linarith
      then show ?thesis by (simp add: g_def write_frames_def)
    qed
    then show "\<exists>f'. contents (blocks ?st j) = Some f' \<and> (\<forall>x<KF. j * KF + x < ?T \<longrightarrow> f' x = f0 x)"
      using f1 f by (cases "j = ?i") (auto simp: store_simps contents_def)
  qed
  moreover have "g ?r = header_ToUptr ?h" "\<forall>j<trace_size t. g (?r + 1 + j) = trace t ! j"
    by (simp_all add: g_def write_frames_def trace_size_def)
  then have "holds_at ?st k t" using assms(2) k A(5) r by (simp add: holds_at_def store_simps contents_def n_def)
  moreover have "unat (total_frames ?st) \<le> ?T + 2 * (trace_size t + 1)" using A(3,5) by (simp add: store_simps n_def)
  ultimately show ?thesis by blast
qed

section \<open>Any sequence of operations\<close>

text \<open>The operations of a client: storing a trace, loading the trace of the \<open>n\<close>-th id it got, and packing.\<close>

datatype store_op = OStore StackTrace | OLoad nat | OPack Compression

fun store_run :: "uptr \<Rightarrow> store_op list \<Rightarrow> u32 list \<times> StackStore \<Rightarrow> (u32 list \<times> StackStore) option" where
  "store_run page [] s = Some s"
| "store_run page (OStore t # ops) (ids, st) = do { (i, _, st) \<leftarrow> Store t st; store_run page ops (ids @ [i], st) }"
| "store_run page (OLoad n # ops) (ids, st) =
     (if n < length ids then do { (_, st) \<leftarrow> Load page (ids ! n) st; store_run page ops (ids, st) } else store_run page ops (ids, st))"
| "store_run page (OPack c # ops) (ids, st) = do { (_, st) \<leftarrow> store_Pack page c st; store_run page ops (ids, st) }"

fun stored_traces :: "store_op list \<Rightarrow> StackTrace list" where
  "stored_traces [] = []"
| "stored_traces (OStore t # ops) = t # stored_traces ops"
| "stored_traces (_ # ops) = stored_traces ops"

text \<open>Room for the words of the traces, and as many that may be skipped at the ends of blocks.\<close>

definition room_for :: "StackTrace list \<Rightarrow> nat" where
  "room_for ts = sum_list (map (\<lambda>t. 2 * (trace_size t + 1)) ts)"

definition id_ok :: "StackStore \<Rightarrow> u32 \<Rightarrow> StackTrace \<Rightarrow> bool" where
  "id_ok st i t \<longleftrightarrow> i = 0 \<and> cut t = empty_trace \<or> (\<exists>k. i = OffsetToId k \<and> holds_at st k t)"

lemma id_ok_kept: "keeps st st' \<Longrightarrow> list_all2 (id_ok st) ids ts \<Longrightarrow> list_all2 (id_ok st') ids ts"
  using holds_kept by (elim list_all2_mono) (auto simp: id_ok_def)

lemma Load_id:
  assumes "store_ok st" and "id_ok st i t"
  shows "\<exists>st'. Load (2 ^ p) i st = Some (cut t, st') \<and> store_ok st' \<and> keeps st st' \<and> total_frames st' = total_frames st"
proof (cases "i = 0 \<and> cut t = empty_trace")
  case True
  then show ?thesis using assms(1) by (simp add: Load_def)
next
  case False
  then show ?thesis using assms Load_ok by (auto simp: id_ok_def)
qed

lemma store_run_ok:
  assumes "store_ok st" and "list_all2 (id_ok st) ids ts" and "\<forall>t\<in>set (stored_traces ops). tag t < 256"
    and "unat (total_frames st) + room_for (stored_traces ops) < 2 ^ 32"
  shows "\<exists>ids' st'. store_run (2 ^ p) ops (ids, st) = Some (ids', st') \<and> store_ok st' \<and> list_all2 (id_ok st') ids' (ts @ stored_traces ops)"
  using assms
proof (induction ops arbitrary: ids st ts)
  case Nil
  then show ?case by simp
next
  case (Cons x ops)
  show ?case
  proof (cases x)
    case (OStore t)
    have step: "\<exists>i a st'. Store t st = Some (i, a, st') \<and> store_ok st' \<and> keeps st st' \<and> id_ok st' i t \<and>
        unat (total_frames st') \<le> unat (total_frames st) + 2 * (trace_size t + 1)"
    proof (cases "trace t = [] \<and> tag t = 0")
      case True
      then show ?thesis using Cons.prems(1) by (simp add: Store_def id_ok_def cut_def empty_trace_def)
    next
      case False
      have "tag t < 256" "unat (total_frames st) + 2 * (trace_size t + 1) < 2 ^ 32" using Cons.prems(3,4) OStore by (simp_all add: room_for_def)
      then show ?thesis using Store_ok [OF Cons.prems(1) _ False] unfolding id_ok_def by blast
    qed
    then obtain i a st1 where 1: "Store t st = Some (i, a, st1)" "store_ok st1" "keeps st st1" "id_ok st1 i t"
      "unat (total_frames st1) \<le> unat (total_frames st) + 2 * (trace_size t + 1)" by blast
    have "list_all2 (id_ok st1) (ids @ [i]) (ts @ [t])" using id_ok_kept [OF 1(3) Cons.prems(2)] 1(4) by (simp add: list_all2_appendI)
    moreover have "unat (total_frames st1) + room_for (stored_traces ops) < 2 ^ 32" using Cons.prems(4) 1(5) OStore by (simp add: room_for_def)
    ultimately show ?thesis using Cons.IH [OF 1(2), of "ids @ [i]" "ts @ [t]"] Cons.prems(3) 1(1) OStore by simp
  next
    case (OLoad n)
    show ?thesis
    proof (cases "n < length ids")
      case True
      then have "id_ok st (ids ! n) (ts ! n)" using Cons.prems(2) by (simp add: list_all2_conv_all_nth)
      then obtain st1 where 1: "Load (2 ^ p) (ids ! n) st = Some (cut (ts ! n), st1)" "store_ok st1" "keeps st st1" "total_frames st1 = total_frames st"
        using Load_id [OF Cons.prems(1)] by blast
      show ?thesis using Cons.IH [OF 1(2) id_ok_kept [OF 1(3) Cons.prems(2)]] Cons.prems(3,4) 1 OLoad True by simp
    qed (use Cons OLoad in simp)
  next
    case (OPack c)
    obtain m st1 where 1: "store_Pack (2 ^ p) c st = Some (m, st1)" "store_ok st1" "keeps st st1" "total_frames st1 = total_frames st"
      using pack_blocks_ok [OF Cons.prems(1), of "[0..<kBlockCount]" p c] by (auto simp: store_Pack_def atLeast0LessThan)
    show ?thesis using Cons.IH [OF 1(2) id_ok_kept [OF 1(3) Cons.prems(2)]] Cons.prems(3,4) 1 OPack by simp
  qed
qed

lemma new_store_ok: "store_ok new_store"
  by (simp add: store_ok_def block_ok_def new_store_def)

text \<open>
  C11: The stack store keeps every trace: however traces are stored, loaded and packed, as long as the store has room no check fails, and the id that \<^verbatim>\<open>Store\<close> returned
  for a trace loads its first 255 frames and its tag, also from blocks that were packed as deltas or by LZW and from blocks whose packing was undone.
\<close>

theorem stack_store_roundtrip:
  assumes "\<forall>t\<in>set (stored_traces ops). tag t < 256" and "room_for (stored_traces ops) < 2 ^ 32"
  shows "\<exists>ids st. store_run (2 ^ p) ops ([], new_store) = Some (ids, st) \<and> length ids = length (stored_traces ops) \<and>
    (\<forall>n<length ids. \<exists>st'. Load (2 ^ p) (ids ! n) st = Some (cut (stored_traces ops ! n), st'))"
proof -
  have "unat (total_frames new_store) + room_for (stored_traces ops) < 2 ^ 32" using assms(2) by (simp add: new_store_def)
  then obtain ids st where r: "store_run (2 ^ p) ops ([], new_store) = Some (ids, st)" "store_ok st" "list_all2 (id_ok st) ids (stored_traces ops)"
    using store_run_ok [OF new_store_ok, of "[]" "[]" ops p] assms(1) by auto
  have "\<exists>st'. Load (2 ^ p) (ids ! n) st = Some (cut (stored_traces ops ! n), st')" if "n < length ids" for n
    using Load_id [OF r(2)] r(3) that unfolding list_all2_conv_all_nth by blast
  then show ?thesis using r(1) list_all2_lengthD [OF r(3)] by blast
qed

definition example_ops :: "store_op list" where
  "example_ops = [OStore \<lparr>trace = [0x400123, 0x400456], tag = 0\<rparr>, OStore empty_trace, OPack LZW, OLoad 0, OStore \<lparr>trace = [0x400789], tag = 3\<rparr>]"

theorem stack_store_roundtrip_witness:
  "\<exists>ids st st'. store_run 4096 example_ops ([], new_store) = Some (ids, st) \<and> Load 4096 (ids ! 2) st = Some (\<lparr>trace = [0x400789], tag = 3\<rparr>, st')"
proof -
  have t: "stored_traces example_ops = [\<lparr>trace = [0x400123, 0x400456], tag = 0\<rparr>, empty_trace, \<lparr>trace = [0x400789], tag = 3\<rparr>]"
    by (simp add: example_ops_def)
  have "\<forall>t\<in>set (stored_traces example_ops). tag t < 256" "room_for (stored_traces example_ops) < 2 ^ 32"
    unfolding t by (simp_all add: empty_trace_def room_for_def trace_size_def)
  from stack_store_roundtrip [OF this, of 12] obtain ids st where r: "store_run 4096 example_ops ([], new_store) = Some (ids, st)" "length ids = 3"
    "\<And>n. n < length ids \<Longrightarrow> \<exists>st'. Load 4096 (ids ! n) st = Some (cut (stored_traces example_ops ! n), st')" by (auto simp: t)
  from r(3) [of 2] r(1,2) show ?thesis by (auto simp: t cut_def)
qed

end
