(* ===== verification/Stack_Depot.thy ===== *)
theory Stack_Depot
  imports Stack_Store
begin

text \<open>
  The stack depot, \<^verbatim>\<open>sanitizer_stackdepotbase.h\<close> and \<^verbatim>\<open>sanitizer_stackdepot.cpp\<close>, with the hashes of \<^verbatim>\<open>sanitizer_hash.h\<close> and the lazily
  created second level of \<^verbatim>\<open>TwoLevelMap\<close>: a hash table of chains of nodes that maps stack traces to ids. \<^verbatim>\<open>Put\<close> is given by its atomic steps, so that
  threads interleave: it looks for the trace without a lock, then locks the bucket (the top bit of the table entry), looks again if the
  chain has changed, and publishes a new node. The stack store below it works in one step, and the compression thread may
  pack it at any time.
\<close>

unbundle bit_operations_syntax

section \<open>Hashes\<close>

definition murmur32_init :: "u32 \<Rightarrow> u32" where "murmur32_init i = 0x9747b28c XOR i"

definition murmur32_add :: "u32 \<Rightarrow> u32 \<Rightarrow> u32" where
  "murmur32_add k h =
     (let m = 0x5bd1e995;
          k = k * m;
          k = k XOR drop_bit 24 k;
          k = k * m;
          h = h * m
      in h XOR k)"

definition murmur32_get :: "u32 \<Rightarrow> u32" where
  "murmur32_get h =
     (let m = 0x5bd1e995;
          x = h XOR drop_bit 13 h;
          x = x * m
      in x XOR drop_bit 15 x)"

definition murmur64_init :: "u64 \<Rightarrow> u64" where
  "murmur64_init i = 0x9747b28c9747b28c XOR (i * 0xc6a4a7935bd1e995)"

definition murmur64_add :: "u64 \<Rightarrow> u64 \<Rightarrow> u64" where
  "murmur64_add k h =
     (let m = 0xc6a4a7935bd1e995;
          k = k * m;
          k = k XOR drop_bit 47 k;
          k = k * m;
          h = h XOR k
      in h * m)"

definition murmur64_get :: "u64 \<Rightarrow> u64" where
  "murmur64_get h =
     (let x = h XOR drop_bit 47 h;
          x = x * 0xc6a4a7935bd1e995
      in x XOR drop_bit 47 x)"

definition trace_hash :: "StackTrace \<Rightarrow> u64" where
  "trace_hash t =
     (let h = murmur64_init (of_nat (length (trace t)) * 8);
          h = fold murmur64_add (trace t) h
      in murmur64_get (murmur64_add (ucast (tag t)) h))"

section \<open>The depot\<close>

definition kTabSize :: nat where "kTabSize = 2 ^ 20"
definition kUnlockMask :: u32 where "kUnlockMask = 0x7fffffff"
definition kLockMask :: u32 where "kLockMask = 0x80000000"
definition kNodesSize1 :: nat where "kNodesSize1 = 2 ^ 15"
definition kNodesSize2 :: nat where "kNodesSize2 = 2 ^ 16"

record StackDepotNode =
  stack_hash :: u64
  link :: u32
  store_id :: u32

text \<open>\<open>created\<close> tells which arrays of the second level of the map of nodes exist.\<close>

record StackDepot =
  tab :: "nat \<Rightarrow> u32"
  n_uniq_ids :: u32
  nodes :: "u32 \<Rightarrow> StackDepotNode"
  created :: "nat \<Rightarrow> bool"
  stackStore :: StackStore

definition new_depot :: StackDepot where
  "new_depot = \<lparr>tab = (\<lambda>_. 0), n_uniq_ids = 0, nodes = (\<lambda>_. \<lparr>stack_hash = 0, link = 0, store_id = 0\<rparr>),
     created = (\<lambda>_. False), stackStore = new_store\<rparr>"

definition nodes_contains :: "StackDepot \<Rightarrow> u32 \<Rightarrow> bool option" where
  "nodes_contains d i = do {
     CHECK (unat i < kNodesSize1 * kNodesSize2);
     Some (created d (unat i div kNodesSize2))
   }"

definition set_node :: "u32 \<Rightarrow> StackDepotNode \<Rightarrow> StackDepot \<Rightarrow> StackDepot" where
  "set_node i n d = d\<lparr>nodes := (nodes d)(i := n), created := (created d)(unat i div kNodesSize2 := True)\<rparr>"

partial_function (option) depot_find :: "(u32 \<Rightarrow> StackDepotNode) \<Rightarrow> u32 \<Rightarrow> u64 \<Rightarrow> u32 option" where
  "depot_find N s h =
     (if s = 0 then Some 0
      else if h = stack_hash (N s) then Some s
      else depot_find N (link (N s)) h)"

definition bucket :: "StackTrace \<Rightarrow> nat" where
  "bucket t = unat (trace_hash t) mod kTabSize"

text \<open>\<^verbatim>\<open>StackDepotNode::store\<close>; the notification of the compression thread is the step \<open>compress\<close> below.\<close>

definition node_store :: "u32 \<Rightarrow> StackTrace \<Rightarrow> u32 \<Rightarrow> StackDepot \<Rightarrow> StackDepot option" where
  "node_store i t l d = do {
     (sid, pack, st) \<leftarrow> Store t (stackStore d);
     Some (set_node i \<lparr>stack_hash = trace_hash t, link = l, store_id = sid\<rparr> (d\<lparr>stackStore := st\<rparr>))
   }"

section \<open>Putting a trace\<close>

text \<open>Where a thread is in \<^verbatim>\<open>Put\<close>: before reading the bucket, before the first search from \<open>s\<close>, before locking, before the second search, before
  taking an id, before writing the node \<open>i\<close>, before publishing it, at the end with the id.\<close>

datatype put_pc =
    PStart StackTrace
  | PFind StackTrace u32
  | PLock StackTrace u32
  | PFindAgain StackTrace u32
  | PAlloc StackTrace u32
  | PStore StackTrace u32 u32
  | PUnlock StackTrace u32
  | PDone StackTrace u32

fun put_step :: "put_pc \<Rightarrow> StackDepot \<Rightarrow> (put_pc \<times> StackDepot) option" where
  "put_step (PStart t) d =
     (if trace t = [] then Some (PDone t 0, d) else Some (PFind t (tab d (bucket t) AND kUnlockMask), d))"
| "put_step (PFind t s) d = do {
     node \<leftarrow> depot_find (nodes d) s (trace_hash t);
     Some (if node \<noteq> 0 then PDone t node else PLock t s, d)
   }"
| "put_step (PLock t s) d =
     (let s2 = tab d (bucket t) in
      if s2 AND kLockMask = 0
      then Some (if s2 \<noteq> s then PFindAgain t s2 else PAlloc t s2, d\<lparr>tab := (tab d)(bucket t := s2 OR kLockMask)\<rparr>)
      else None)"
| "put_step (PFindAgain t s2) d = do {
     node \<leftarrow> depot_find (nodes d) s2 (trace_hash t);
     Some (if node \<noteq> 0 then (PDone t node, d\<lparr>tab := (tab d)(bucket t := s2)\<rparr>) else (PAlloc t s2, d))
   }"
| "put_step (PAlloc t s2) d = do {
     let s = n_uniq_ids d + 1;
     CHECK (s AND kUnlockMask = s);
     Some (PStore t s2 s, d\<lparr>n_uniq_ids := s\<rparr>)
   }"
| "put_step (PStore t s2 s) d = do {
     d \<leftarrow> node_store s t s2 d;
     Some (PUnlock t s, d)
   }"
| "put_step (PUnlock t s) d = Some (PDone t s, d\<lparr>tab := (tab d)(bucket t := s)\<rparr>)"
| "put_step (PDone t i) d = None"

text \<open>Many threads, and the compression thread.\<close>

inductive depot_step :: "uptr \<Rightarrow> StackDepot \<times> (nat \<Rightarrow> put_pc) \<Rightarrow> StackDepot \<times> (nat \<Rightarrow> put_pc) \<Rightarrow> bool" for page where
  put: "put_step (pcs p) d = Some (c, d') \<Longrightarrow> depot_step page (d, pcs) (d', pcs(p := c))"
| compress: "store_Pack page c (stackStore d) = Some (n, st) \<Longrightarrow> depot_step page (d, pcs) (d\<lparr>stackStore := st\<rparr>, pcs)"

inductive depot_reach :: "uptr \<Rightarrow> (nat \<Rightarrow> put_pc) \<Rightarrow> StackDepot \<times> (nat \<Rightarrow> put_pc) \<Rightarrow> bool" for page pcs0 where
  init: "depot_reach page pcs0 (new_depot, pcs0)"
| step: "depot_reach page pcs0 s \<Longrightarrow> depot_step page s s' \<Longrightarrow> depot_reach page pcs0 s'"

text \<open>One thread alone: \<^verbatim>\<open>Put\<close> as a function.\<close>

partial_function (option) put_loop :: "put_pc \<Rightarrow> StackDepot \<Rightarrow> (u32 \<times> StackDepot) option" where
  "put_loop c d = (case c of PDone t i \<Rightarrow> Some (i, d) | _ \<Rightarrow> Option.bind (put_step c d) (\<lambda>(c, d). put_loop c d))"

definition StackDepotPut :: "StackTrace \<Rightarrow> StackDepot \<Rightarrow> (u32 \<times> StackDepot) option" where
  "StackDepotPut t d = put_loop (PStart t) d"

section \<open>Getting a trace\<close>

definition StackDepotGet :: "uptr \<Rightarrow> u32 \<Rightarrow> StackDepot \<Rightarrow> (StackTrace \<times> StackDepot) option" where
  "StackDepotGet page i d =
     (if i = 0 then Some (empty_trace, d)
      else do {
        CHECK (i AND drop_bit 1 (-1) = i);
        b \<leftarrow> nodes_contains d i;
        if \<not> b then Some (empty_trace, d)
        else if store_id (nodes d i) = 0 then Some (empty_trace, d)
        else do {
          (t, st) \<leftarrow> Load page (store_id (nodes d i)) (stackStore d);
          Some (t, d\<lparr>stackStore := st\<rparr>)
        }
      })"

text \<open>In a child after \<^verbatim>\<open>fork\<close> the locks of the buckets are released.\<close>

definition depot_UnlockAfterFork :: "bool \<Rightarrow> StackDepot \<Rightarrow> StackDepot" where
  "depot_UnlockAfterFork fork_child d =
     (if \<not> fork_child then d
      else d\<lparr>tab := (\<lambda>i. if i < kTabSize \<and> tab d i AND kLockMask \<noteq> 0 then tab d i AND kUnlockMask else tab d i)\<rparr>)"

end
