(* ===== verification/Stack_Depot_Proofs.thy ===== *)
theory Stack_Depot_Proofs
  imports Stack_Depot Stack_Store_Proofs
begin

text \<open>
  The stack depot under any interleaving of threads that put traces, with the compression thread: ids and hashes
  correspond one to one, an id gives a trace with its hash, and no thread waits for ever.
\<close>

unbundle bit_operations_syntax

section \<open>Chains\<close>

fun chain :: "(u32 \<Rightarrow> StackDepotNode) \<Rightarrow> u32 \<Rightarrow> u32 list \<Rightarrow> bool" where
  "chain N s [] \<longleftrightarrow> s = 0"
| "chain N s (x # xs) \<longleftrightarrow> s = x \<and> x \<noteq> 0 \<and> chain N (link (N x)) xs"

lemma chain_cong: "(\<And>x. x \<in> set xs \<Longrightarrow> N' x = N x) \<Longrightarrow> chain N' s xs = chain N s xs"
  by (induction xs arbitrary: s) auto

lemma chain_unique: "chain N s xs \<Longrightarrow> chain N s ys \<Longrightarrow> xs = ys"
proof (induction xs arbitrary: s ys)
  case Nil
  then show ?case by (cases ys) auto
next
  case (Cons x xs)
  then show ?case by (cases ys) auto
qed

lemma find_chain:
  "chain N s xs \<Longrightarrow> \<exists>r. depot_find N s h = Some r \<and>
    (if r = 0 then \<forall>x\<in>set xs. stack_hash (N x) \<noteq> h else r \<in> set xs \<and> stack_hash (N r) = h)"
proof (induction xs arbitrary: s)
  case Nil
  then show ?case by (subst depot_find.simps) simp
next
  case (Cons x xs)
  show ?case
  proof (cases "stack_hash (N x) = h")
    case True
    then show ?thesis using Cons.prems by (subst depot_find.simps) simp
  next
    case False
    obtain r where r: "depot_find N (link (N x)) h = Some r"
      "if r = 0 then \<forall>x\<in>set xs. stack_hash (N x) \<noteq> h else r \<in> set xs \<and> stack_hash (N r) = h"
      using Cons.IH Cons.prems by auto
    have "depot_find N s h = depot_find N (link (N x)) h" using Cons.prems False by (subst depot_find.simps) simp
    then show ?thesis using r False by (intro exI [of _ r]) (auto split: if_splits)
  qed
qed

lemma mask_bits: "bit kLockMask n \<longleftrightarrow> n = 31" "bit kUnlockMask n \<longleftrightarrow> n < 31"
proof -
  have "kLockMask = 2 ^ 31" by (simp add: kLockMask_def)
  then have "bit kLockMask n = bit (2 ^ 31 :: u32) n" by (simp only:)
  then show "bit kLockMask n \<longleftrightarrow> n = 31" unfolding bit_exp_iff possible_bit_word by auto
  have "kUnlockMask = mask 31" by (simp add: kUnlockMask_def mask_eq_exp_minus_1)
  then have "bit kUnlockMask n = bit (mask 31 :: u32) n" by (simp only:)
  then show "bit kUnlockMask n \<longleftrightarrow> n < 31" unfolding bit_mask_iff possible_bit_word by auto
qed

lemma masks: "(s OR kLockMask) AND kUnlockMask = s AND kUnlockMask" "(s OR kLockMask) AND kLockMask \<noteq> 0"
    "s AND kLockMask = 0 \<longleftrightarrow> s AND kUnlockMask = s" "s AND kUnlockMask = s \<longleftrightarrow> unat s < 2 ^ 31" for s :: u32
proof -
  show "(s OR kLockMask) AND kUnlockMask = s AND kUnlockMask" by (rule bit_word_eqI) (auto simp: bit_simps mask_bits)
  have "bit ((s OR kLockMask) AND kLockMask) 31" by (simp add: bit_simps mask_bits)
  then show "(s OR kLockMask) AND kLockMask \<noteq> 0" by auto
  have l: "bit (s AND kLockMask) n \<longleftrightarrow> bit s 31 \<and> n = 31" for n by (auto simp: bit_and_iff mask_bits)
  have "s AND kLockMask = 0 \<longleftrightarrow> \<not> bit s 31"
  proof
    show "\<not> bit s 31" if "s AND kLockMask = 0" using l [of 31] that by simp
    show "s AND kLockMask = 0" if "\<not> bit s 31" by (rule bit_word_eqI) (simp add: l that)
  qed
  moreover have "n < 31" if "bit s n" "\<not> bit s 31" for n using bit_imp_le_length [OF that(1)] that by (cases "n = 31") auto
  then have "s AND kUnlockMask = s \<longleftrightarrow> \<not> bit s 31" unfolding bit_eq_iff [of "s AND kUnlockMask"] by (auto simp: bit_and_iff mask_bits dest: spec [of _ 31])
  ultimately show "s AND kLockMask = 0 \<longleftrightarrow> s AND kUnlockMask = s" by simp
  have "s AND kUnlockMask = take_bit 31 s" by (simp add: kUnlockMask_def take_bit_eq_mask mask_eq_exp_minus_1)
  then show "s AND kUnlockMask = s \<longleftrightarrow> unat s < 2 ^ 31" unfolding word_unat_eq_iff by (simp add: unsigned_take_bit_eq take_bit_nat_eq_self_iff)
qed

section \<open>The invariant\<close>

fun trace_of :: "put_pc \<Rightarrow> StackTrace" where
  "trace_of (PStart t) = t" | "trace_of (PFind t s) = t" | "trace_of (PLock t s) = t" | "trace_of (PFindAgain t s) = t"
| "trace_of (PAlloc t s) = t" | "trace_of (PStore t s i) = t" | "trace_of (PUnlock t i) = t" | "trace_of (PDone t i) = t"

text \<open>The bucket a thread has locked, and the id it has taken but not published.\<close>

fun holds_lock :: "put_pc \<Rightarrow> nat option" where
  "holds_lock (PFindAgain t s) = Some (bucket t)" | "holds_lock (PAlloc t s) = Some (bucket t)"
| "holds_lock (PStore t s i) = Some (bucket t)" | "holds_lock (PUnlock t i) = Some (bucket t)" | "holds_lock _ = None"

fun pending :: "put_pc \<Rightarrow> u32 option" where
  "pending (PStore t s i) = Some i" | "pending (PUnlock t i) = Some i" | "pending _ = None"

fun numbered :: "put_pc \<Rightarrow> bool" where
  "numbered (PStore t s i) = True" | "numbered (PUnlock t i) = True" | "numbered (PDone t i) = True" | "numbered _ = False"

fun written :: "put_pc \<Rightarrow> bool" where
  "written (PUnlock t i) = True" | "written (PDone t i) = True" | "written _ = False"

text \<open>A node is the node of one of the traces, which its store id gives back.\<close>

definition node_ok :: "StackTrace list \<Rightarrow> StackDepot \<Rightarrow> u32 \<Rightarrow> bool" where
  "node_ok ts d x \<longleftrightarrow> created d (unat x div kNodesSize2) \<and>
     (\<exists>u\<in>set ts. trace u \<noteq> [] \<and> trace_hash u = stack_hash (nodes d x) \<and> id_ok (stackStore d) (store_id (nodes d x)) u)"

definition no_hash :: "StackDepot \<Rightarrow> u32 list \<Rightarrow> u64 \<Rightarrow> bool" where
  "no_hash d xs h \<longleftrightarrow> (\<forall>x\<in>set xs. stack_hash (nodes d x) \<noteq> h)"

fun pc_ok :: "StackTrace list \<Rightarrow> StackDepot \<Rightarrow> (nat \<Rightarrow> u32 list) \<Rightarrow> put_pc \<Rightarrow> bool" where
  "pc_ok ts d C (PStart t) \<longleftrightarrow> True"
| "pc_ok ts d C (PFind t s) \<longleftrightarrow> trace t \<noteq> [] \<and> (\<exists>ys zs. C (bucket t) = ys @ zs \<and> chain (nodes d) s zs)"
| "pc_ok ts d C (PLock t s) \<longleftrightarrow> trace t \<noteq> [] \<and> (\<exists>ys zs. C (bucket t) = ys @ zs \<and> chain (nodes d) s zs \<and> no_hash d zs (trace_hash t))"
| "pc_ok ts d C (PFindAgain t s) \<longleftrightarrow> trace t \<noteq> [] \<and> s = tab d (bucket t) AND kUnlockMask"
| "pc_ok ts d C (PAlloc t s) \<longleftrightarrow> trace t \<noteq> [] \<and> s = tab d (bucket t) AND kUnlockMask \<and> no_hash d (C (bucket t)) (trace_hash t)"
| "pc_ok ts d C (PStore t s i) \<longleftrightarrow> trace t \<noteq> [] \<and> s = tab d (bucket t) AND kUnlockMask \<and> no_hash d (C (bucket t)) (trace_hash t)"
| "pc_ok ts d C (PUnlock t i) \<longleftrightarrow> trace t \<noteq> [] \<and> no_hash d (C (bucket t)) (trace_hash t) \<and> stack_hash (nodes d i) = trace_hash t \<and>
     link (nodes d i) = tab d (bucket t) AND kUnlockMask \<and> node_ok ts d i"
| "pc_ok ts d C (PDone t i) \<longleftrightarrow> (if trace t = [] then i = 0 else i \<in> set (C (bucket t)) \<and> stack_hash (nodes d i) = trace_hash t)"

definition chains_ok :: "StackTrace list \<Rightarrow> StackDepot \<Rightarrow> (nat \<Rightarrow> u32 list) \<Rightarrow> bool" where
  "chains_ok ts d C \<longleftrightarrow> (\<forall>b. chain (nodes d) (tab d b AND kUnlockMask) (C b) \<and> distinct (map (\<lambda>x. stack_hash (nodes d x)) (C b)) \<and>
     (\<forall>x\<in>set (C b). unat (stack_hash (nodes d x)) mod kTabSize = b \<and> unat x \<le> unat (n_uniq_ids d) \<and> node_ok ts d x))"

definition locks_ok :: "StackDepot \<Rightarrow> (nat \<Rightarrow> put_pc) \<Rightarrow> bool" where
  "locks_ok d pcs \<longleftrightarrow> (\<forall>b. tab d b AND kLockMask \<noteq> 0 \<longleftrightarrow> (\<exists>p. holds_lock (pcs p) = Some b)) \<and>
     (\<forall>p q b. holds_lock (pcs p) = Some b \<and> holds_lock (pcs q) = Some b \<longrightarrow> p = q)"

definition ids_ok :: "StackDepot \<Rightarrow> (nat \<Rightarrow> u32 list) \<Rightarrow> (nat \<Rightarrow> put_pc) \<Rightarrow> bool" where
  "ids_ok d C pcs \<longleftrightarrow> (\<forall>p i. pending (pcs p) = Some i \<longrightarrow> i \<noteq> 0 \<and> unat i \<le> unat (n_uniq_ids d) \<and> (\<forall>b. i \<notin> set (C b))) \<and>
     (\<forall>p q i. pending (pcs p) = Some i \<and> pending (pcs q) = Some i \<longrightarrow> p = q)"

definition traces_ok :: "StackTrace list \<Rightarrow> (nat \<Rightarrow> put_pc) \<Rightarrow> bool" where
  "traces_ok ts pcs \<longleftrightarrow> (\<forall>p. if p < length ts then trace_of (pcs p) = ts ! p else pcs p = PDone empty_trace 0)"

definition counts_ok :: "StackTrace list \<Rightarrow> StackDepot \<Rightarrow> (nat \<Rightarrow> put_pc) \<Rightarrow> bool" where
  "counts_ok ts d pcs \<longleftrightarrow> store_ok (stackStore d) \<and>
     unat (total_frames (stackStore d)) \<le> 512 * card {p. p < length ts \<and> written (pcs p)} \<and>
     unat (n_uniq_ids d) \<le> card {p. p < length ts \<and> numbered (pcs p)}"

definition depot_inv :: "StackTrace list \<Rightarrow> (nat \<Rightarrow> u32 list) \<Rightarrow> StackDepot \<times> (nat \<Rightarrow> put_pc) \<Rightarrow> bool" where
  "depot_inv ts C s \<longleftrightarrow> (case s of (d, pcs) \<Rightarrow> chains_ok ts d C \<and> (\<forall>p. pc_ok ts d C (pcs p)) \<and> locks_ok d pcs \<and> ids_ok d C pcs \<and>
     traces_ok ts pcs \<and> counts_ok ts d pcs)"

section \<open>Frame lemmas\<close>

text \<open>A depot in which the nodes of the chains are kept.\<close>

definition extends :: "StackDepot \<Rightarrow> StackDepot \<Rightarrow> u32 set \<Rightarrow> bool" where
  "extends d d' X \<longleftrightarrow> (\<forall>x\<in>X. nodes d' x = nodes d x) \<and> keeps (stackStore d) (stackStore d') \<and> (\<forall>j. created d j \<longrightarrow> created d' j) \<and>
     unat (n_uniq_ids d) \<le> unat (n_uniq_ids d')"

lemma id_ok_keep: "keeps st st' \<Longrightarrow> id_ok st i t \<Longrightarrow> id_ok st' i t"
  using id_ok_kept [of st st' "[i]" "[t]"] by simp

lemma node_ok_ext: "extends d d' X \<Longrightarrow> x \<in> X \<Longrightarrow> node_ok ts d x \<Longrightarrow> node_ok ts d' x"
  unfolding node_ok_def extends_def using id_ok_keep by metis

lemma no_hash_ext: "extends d d' X \<Longrightarrow> set xs \<subseteq> X \<Longrightarrow> no_hash d xs h \<Longrightarrow> no_hash d' xs h"
  unfolding no_hash_def extends_def by (metis subsetD)

lemma chain_ext: "extends d d' X \<Longrightarrow> set xs \<subseteq> X \<Longrightarrow> chain (nodes d') s xs = chain (nodes d) s xs"
  by (rule chain_cong) (auto simp: extends_def)

lemma pc_ok_ext:
  assumes c: "pc_ok ts d C c" and e: "extends d d' X" and X: "\<And>b. set (C b) \<subseteq> X" "\<And>i. pending c = Some i \<Longrightarrow> i \<in> X"
    and C': "\<And>b. \<exists>new. C' b = new @ C b" "\<And>b. holds_lock c = Some b \<Longrightarrow> C' b = C b \<and> tab d' b AND kUnlockMask = tab d b AND kUnlockMask"
  shows "pc_ok ts d' C' c"
proof (cases c)
  case (PFind t s)
  then obtain ys zs where z: "C (bucket t) = ys @ zs" "chain (nodes d) s zs" using c by auto
  obtain new where n: "C' (bucket t) = new @ C (bucket t)" using C'(1) by blast
  have "set zs \<subseteq> X" using X(1) [of "bucket t"] z(1) by auto
  then have "C' (bucket t) = (new @ ys) @ zs \<and> chain (nodes d') s zs" using n z chain_ext [OF e] by simp
  then show ?thesis using PFind c unfolding PFind pc_ok.simps by blast
next
  case (PLock t s)
  then obtain ys zs where z: "C (bucket t) = ys @ zs" "chain (nodes d) s zs" "no_hash d zs (trace_hash t)" using c by auto
  obtain new where n: "C' (bucket t) = new @ C (bucket t)" using C'(1) by blast
  have x: "set zs \<subseteq> X" using X(1) [of "bucket t"] z(1) by auto
  have "C' (bucket t) = (new @ ys) @ zs \<and> chain (nodes d') s zs \<and> no_hash d' zs (trace_hash t)"
    using n z chain_ext [OF e x] no_hash_ext [OF e x] by simp
  then show ?thesis using PLock c unfolding PLock pc_ok.simps by blast
next
  case (PUnlock t i)
  have i: "i \<in> X" using X(2) PUnlock by simp
  then have "nodes d' i = nodes d i" using e by (simp add: extends_def)
  then show ?thesis using c C'(2) [of "bucket t"] PUnlock node_ok_ext [OF e i] no_hash_ext [OF e X(1)] by simp
next
  case (PDone t i)
  have "nodes d' i = nodes d i" if "i \<in> set (C (bucket t))" using that e X(1) by (auto simp: extends_def)
  moreover have "set (C (bucket t)) \<subseteq> set (C' (bucket t))" using C'(1) [of "bucket t"] by auto
  ultimately show ?thesis using c PDone by auto
qed (use c C'(2) no_hash_ext [OF e X(1)] in \<open>auto\<close>)

lemma chains_ok_ext:
  assumes "chains_ok ts d C" and e: "extends d d' X" and X: "\<And>b. set (C b) \<subseteq> X"
    and t: "\<And>b. tab d' b AND kUnlockMask = tab d b AND kUnlockMask"
  shows "chains_ok ts d' C"
  unfolding chains_ok_def
proof (intro allI conjI ballI)
  fix b
  have N: "nodes d' x = nodes d x" if "x \<in> set (C b)" for x using that e X by (auto simp: extends_def)
  have A: "chain (nodes d) (tab d b AND kUnlockMask) (C b)" "distinct (map (\<lambda>x. stack_hash (nodes d x)) (C b))"
    "\<And>x. x \<in> set (C b) \<Longrightarrow> unat (stack_hash (nodes d x)) mod kTabSize = b \<and> unat x \<le> unat (n_uniq_ids d) \<and> node_ok ts d x"
    using assms(1) by (simp_all add: chains_ok_def)
  show "chain (nodes d') (tab d' b AND kUnlockMask) (C b)" using A(1) chain_ext [OF e X] t by simp
  show "distinct (map (\<lambda>x. stack_hash (nodes d' x)) (C b))" using A(2) N by (simp cong: map_cong)
  fix x assume x: "x \<in> set (C b)"
  then show "unat (stack_hash (nodes d' x)) mod kTabSize = b" using A(3) N by simp
  show "unat x \<le> unat (n_uniq_ids d')" using A(3) [OF x] e by (simp add: extends_def)
  show "node_ok ts d' x" using A(3) [OF x] node_ok_ext [OF e, of x] X x by auto
qed

lemma locks_same:
  assumes "locks_ok d pcs" and "holds_lock c = holds_lock (pcs p)" and "\<And>b. tab d' b AND kLockMask = 0 \<longleftrightarrow> tab d b AND kLockMask = 0"
  shows "locks_ok d' (pcs(p := c))"
proof -
  have "holds_lock ((pcs(p := c)) q) = holds_lock (pcs q)" for q using assms(2) by simp
  then show ?thesis using assms(1,3) by (simp add: locks_ok_def)
qed

lemma locks_take:
  assumes "locks_ok d pcs" and "tab d b AND kLockMask = 0" and "holds_lock c = Some b" and "holds_lock (pcs p) = None"
    and "tab d' = (tab d)(b := v)" and "v AND kLockMask \<noteq> 0"
  shows "locks_ok d' (pcs(p := c))"
proof -
  have n: "holds_lock (pcs q) \<noteq> Some b" for q using assms(1,2) by (auto simp: locks_ok_def)
  have eq: "holds_lock ((pcs(p := c)) q) = Some b' \<longleftrightarrow> (if q = p then b' = b else holds_lock (pcs q) = Some b')" for q b'
    using assms(3) by auto
  have L: "tab d b' AND kLockMask \<noteq> 0 \<longleftrightarrow> (\<exists>q. holds_lock (pcs q) = Some b')" for b' using assms(1) by (simp add: locks_ok_def)
  have "tab d' b' AND kLockMask \<noteq> 0 \<longleftrightarrow> (\<exists>q. holds_lock ((pcs(p := c)) q) = Some b')" for b'
  proof (cases "b' = b")
    case True
    then show ?thesis unfolding eq using assms(5,6) by (intro iffI exI [of _ p]) simp_all
  next
    case False
    then have "tab d' b' = tab d b'" using assms(5) by simp
    moreover have "(\<exists>q. if q = p then b' = b else holds_lock (pcs q) = Some b') \<longleftrightarrow> (\<exists>q. holds_lock (pcs q) = Some b')"
      using False assms(4) by (metis option.distinct(1))
    ultimately show ?thesis unfolding eq using L [of b'] by simp
  qed
  moreover have "q = r" if "holds_lock ((pcs(p := c)) q) = Some b'" "holds_lock ((pcs(p := c)) r) = Some b'" for q r b'
  proof -
    have u: "\<And>q r. holds_lock (pcs q) = Some b' \<Longrightarrow> holds_lock (pcs r) = Some b' \<Longrightarrow> q = r" using assms(1) unfolding locks_ok_def by blast
    show ?thesis using that n u [of q r] unfolding eq by (cases "q = p"; cases "r = p") auto
  qed
  ultimately show ?thesis unfolding locks_ok_def by blast
qed

lemma locks_release:
  assumes "locks_ok d pcs" and "holds_lock (pcs p) = Some b" and "holds_lock c = None" and "tab d' = (tab d)(b := v)" and "v AND kLockMask = 0"
  shows "locks_ok d' (pcs(p := c))"
proof -
  have u: "holds_lock (pcs q) = Some b \<Longrightarrow> q = p" for q using assms(1,2) unfolding locks_ok_def by blast
  have eq: "holds_lock ((pcs(p := c)) q) = Some b' \<longleftrightarrow> b' \<noteq> b \<and> holds_lock (pcs q) = Some b'" for q b'
  proof (cases "q = p")
    case False
    then show ?thesis using u [of q] by (cases "b' = b") auto
  qed (use assms(2,3) in auto)
  have L: "tab d b' AND kLockMask \<noteq> 0 \<longleftrightarrow> (\<exists>q. holds_lock (pcs q) = Some b')" for b' using assms(1) by (simp add: locks_ok_def)
  have "tab d' b' AND kLockMask \<noteq> 0 \<longleftrightarrow> (\<exists>q. holds_lock ((pcs(p := c)) q) = Some b')" for b'
    unfolding eq using assms(4,5) L [of b'] by (cases "b' = b") simp_all
  moreover have "q = r" if "holds_lock ((pcs(p := c)) q) = Some b'" "holds_lock ((pcs(p := c)) r) = Some b'" for q r b'
    using that assms(1) unfolding eq locks_ok_def by blast
  ultimately show ?thesis unfolding locks_ok_def by blast
qed

lemma ids_drop:
  assumes "ids_ok d C pcs" and "pending c = None \<or> pending c = pending (pcs p)" and "unat (n_uniq_ids d) \<le> unat (n_uniq_ids d')"
    and "\<And>q i b. q \<noteq> p \<or> pending c = Some i \<Longrightarrow> pending (pcs q) = Some i \<Longrightarrow> i \<in> set (C' b) \<Longrightarrow> i \<in> set (C b)"
  shows "ids_ok d' C' (pcs(p := c))"
proof -
  have old: "pending (pcs q) = Some i \<and> (q \<noteq> p \<or> pending c = Some i)" if "pending ((pcs(p := c)) q) = Some i" for q i
    using that assms(2) by (cases "q = p") auto
  show ?thesis
    unfolding ids_ok_def
  proof (intro conjI allI impI)
    fix q i assume q: "pending ((pcs(p := c)) q) = Some i"
    note A = old [OF q]
    have B: "i \<noteq> 0" "unat i \<le> unat (n_uniq_ids d)" "\<And>b. i \<notin> set (C b)" using assms(1) A unfolding ids_ok_def by blast+
    show "i \<noteq> 0" "unat i \<le> unat (n_uniq_ids d')" using B assms(3) by auto
    show "i \<notin> set (C' b)" for b using assms(4) [of q i b] A B(3) by blast
  next
    fix q r i assume "pending ((pcs(p := c)) q) = Some i \<and> pending ((pcs(p := c)) r) = Some i"
    then show "q = r" using old [of q i] old [of r i] assms(1) unfolding ids_ok_def by blast
  qed
qed

lemma count_mono: "(P (pcs p) \<Longrightarrow> P c) \<Longrightarrow> card {q. q < n \<and> P (pcs q)} \<le> card {q. q < (n::nat) \<and> P ((pcs(p := c)) q)}"
  by (rule card_mono) auto

lemma count_add:
  assumes "p < (n::nat)" and "\<not> P (pcs p)" and "P c"
  shows "card {q. q < n \<and> P ((pcs(p := c)) q)} = card {q. q < n \<and> P (pcs q)} + 1"
proof -
  have "{q. q < n \<and> P ((pcs(p := c)) q)} = insert p {q. q < n \<and> P (pcs q)}" using assms by auto
  then show ?thesis using assms(2) by simp
qed

lemma count_bound: "p < (n::nat) \<Longrightarrow> \<not> P (pcs p) \<Longrightarrow> card {q. q < n \<and> P (pcs q)} < n"
  using psubset_card_mono [of "{..<n}" "{q. q < n \<and> P (pcs q)}"] by auto

lemma counts_same:
  assumes "counts_ok ts d pcs" and "written (pcs p) \<Longrightarrow> written c" and "numbered (pcs p) \<Longrightarrow> numbered c"
    and "stackStore d' = stackStore d" and "n_uniq_ids d' = n_uniq_ids d"
  shows "counts_ok ts d' (pcs(p := c))"
  using assms(1,4,5) count_mono [of written pcs p c "length ts", OF assms(2)] count_mono [of numbered pcs p c "length ts", OF assms(3)]
  by (simp add: counts_ok_def)

text \<open>A step that publishes nothing.\<close>

lemma inv_local:
  assumes inv: "depot_inv ts C (d, pcs)" and "p < length ts" and "trace_of c = trace_of (pcs p)"
    and e: "extends d d' X" and X: "\<And>b. set (C b) \<subseteq> X" "\<And>q i. q \<noteq> p \<Longrightarrow> pending (pcs q) = Some i \<Longrightarrow> i \<in> X"
    and t: "\<And>b. tab d' b AND kUnlockMask = tab d b AND kUnlockMask" and "pc_ok ts d' C c"
    and "locks_ok d' (pcs(p := c))" and "ids_ok d' C (pcs(p := c))" and "counts_ok ts d' (pcs(p := c))"
  shows "depot_inv ts C (d', pcs(p := c))"
proof -
  have I: "chains_ok ts d C" "\<And>q. pc_ok ts d C (pcs q)" "traces_ok ts pcs" using inv by (simp_all add: depot_inv_def)
  have "pc_ok ts d' C ((pcs(p := c)) q)" for q
  proof (cases "q = p")
    case False
    have "pc_ok ts d' C (pcs q)" by (rule pc_ok_ext [OF I(2) e X(1) X(2) [OF False]]) (simp_all add: t)
    then show ?thesis using False by simp
  qed (use assms(8) in simp)
  moreover have "traces_ok ts (pcs(p := c))" using I(3) assms(2,3) by (auto simp: traces_ok_def)
  ultimately show ?thesis using chains_ok_ext [OF I(1) e X(1) t] assms(9-11) by (simp add: depot_inv_def)
qed

lemma extends_refl [simp]: "extends d d X"
  by (simp add: extends_def)

lemma extends_tab [simp]: "extends d (d\<lparr>tab := f\<rparr>) X"
  by (simp add: extends_def)

section \<open>Steps\<close>

lemma invD:
  assumes "depot_inv ts C (d, pcs)"
  shows "chains_ok ts d C" "pc_ok ts d C (pcs p)" "locks_ok d pcs" "ids_ok d C pcs" "traces_ok ts pcs" "counts_ok ts d pcs"
  using assms by (simp_all add: depot_inv_def)

text \<open>A step that changes only where a thread is, or the lock bit.\<close>

lemma inv_move:
  assumes inv: "depot_inv ts C (d, pcs)" and "p < length ts" and "trace_of c = trace_of (pcs p)" and "pc_ok ts (d\<lparr>tab := f\<rparr>) C c"
    and "\<And>b. f b AND kUnlockMask = tab d b AND kUnlockMask" and "locks_ok (d\<lparr>tab := f\<rparr>) (pcs(p := c))"
    and "pending c = None" and "written (pcs p) \<Longrightarrow> written c" and "numbered (pcs p) \<Longrightarrow> numbered c"
  shows "depot_inv ts C (d\<lparr>tab := f\<rparr>, pcs(p := c))"
proof (rule inv_local [OF inv assms(2,3) extends_tab [where X = UNIV]])
  show "ids_ok (d\<lparr>tab := f\<rparr>) C (pcs(p := c))" by (rule ids_drop [OF invD(4) [OF inv]]) (use assms(7) in simp_all)
  show "counts_ok ts (d\<lparr>tab := f\<rparr>) (pcs(p := c))" by (rule counts_same [OF invD(6) [OF inv]]) (use assms(8,9) in simp_all)
qed (use assms in simp_all)

lemma inv_pc:
  assumes inv: "depot_inv ts C (d, pcs)" and "p < length ts" and "trace_of c = trace_of (pcs p)" and "pc_ok ts d C c"
    and "holds_lock c = holds_lock (pcs p)" and "pending c = None" and "written (pcs p) \<Longrightarrow> written c" and "numbered (pcs p) \<Longrightarrow> numbered c"
  shows "depot_inv ts C (d, pcs(p := c))"
proof -
  have d: "d\<lparr>tab := tab d\<rparr> = d" by simp
  have "locks_ok d (pcs(p := c))" by (rule locks_same [OF invD(3) [OF inv] assms(5)]) simp
  then show ?thesis using inv_move [OF inv assms(2,3), of "tab d"] assms(4,6-8) unfolding d by simp
qed

lemma step_search:
  assumes inv: "depot_inv ts C (d, pcs)" and "p < length ts" and "put_step (pcs p) d = Some (c, d')"
    and "pcs p = PStart t \<or> pcs p = PFind t s"
  shows "depot_inv ts C (d', pcs(p := c))"
  using assms(4)
proof
  assume pc: "pcs p = PStart t"
  have ch: "chain (nodes d) (tab d b AND kUnlockMask) (C b)" for b using invD(1) [OF inv] by (simp add: chains_ok_def)
  have c: "d' = d" "c = (if trace t = [] then PDone t 0 else PFind t (tab d (bucket t) AND kUnlockMask))"
    using assms(3) pc by (auto split: if_splits)
  have "\<exists>ys zs. C (bucket t) = ys @ zs \<and> chain (nodes d) (tab d (bucket t) AND kUnlockMask) zs"
    using ch [of "bucket t"] by (intro exI [of _ "[]"] exI [of _ "C (bucket t)"]) simp
  then have "pc_ok ts d C c" by (simp add: c(2))
  then show ?thesis unfolding c(1) by (intro inv_pc [OF inv assms(2)]) (simp_all add: pc c(2))
next
  assume pc: "pcs p = PFind t s"
  obtain ys zs where z: "trace t \<noteq> []" "C (bucket t) = ys @ zs" "chain (nodes d) s zs" using invD(2) [OF inv, of p] pc by auto
  obtain r where r: "depot_find (nodes d) s (trace_hash t) = Some r"
    "if r = 0 then \<forall>x\<in>set zs. stack_hash (nodes d x) \<noteq> trace_hash t else r \<in> set zs \<and> stack_hash (nodes d r) = trace_hash t"
    using find_chain [OF z(3)] by blast
  have c: "d' = d" "c = (if r \<noteq> 0 then PDone t r else PLock t s)" using assms(3) pc r(1) by (simp_all split: if_splits)
  have "pc_ok ts d C c"
  proof (cases "r = 0")
    case True
    then have "no_hash d zs (trace_hash t)" using r(2) by (simp add: no_hash_def)
    then show ?thesis using z True unfolding c(2) by auto
  next
    case False
    then show ?thesis using r(2) z(1,2) by (simp add: c(2))
  qed
  then show ?thesis unfolding c(1) by (intro inv_pc [OF inv assms(2)]) (simp_all add: pc c(2))
qed

lemma step_lock:
  assumes inv: "depot_inv ts C (d, pcs)" and "p < length ts" and "put_step (pcs p) d = Some (c, d')" and pc: "pcs p = PLock t s"
  shows "depot_inv ts C (d', pcs(p := c))"
proof -
  let ?b = "bucket t" and ?s = "tab d (bucket t)"
  obtain ys zs where z: "trace t \<noteq> []" "C ?b = ys @ zs" "chain (nodes d) s zs" "no_hash d zs (trace_hash t)" using invD(2) [OF inv, of p] pc by auto
  have free: "?s AND kLockMask = 0" and c: "d' = d\<lparr>tab := (tab d)(?b := ?s OR kLockMask)\<rparr>" "c = (if ?s \<noteq> s then PFindAgain t ?s else PAlloc t ?s)"
    using assms(3) pc by (simp_all add: Let_def split: if_splits)
  have s: "?s AND kUnlockMask = ?s" using free masks(3) by blast
  have ch: "chain (nodes d) ?s (C ?b)" using invD(1) [OF inv] s unfolding chains_ok_def by metis
  have "C ?b = zs" if "?s = s" using chain_unique [OF ch] z(3) that by simp
  then have "pc_ok ts d' C c" using z(1,4) s by (auto simp: c masks(1) no_hash_def)
  moreover have "locks_ok d' (pcs(p := c))" using masks(2) [of ?s] by (intro locks_take [OF invD(3) [OF inv] free, where v = "?s OR kLockMask"]) (simp_all add: c pc)
  ultimately show ?thesis unfolding c(1) by (intro inv_move [OF inv assms(2)]) (simp_all add: pc c(2) masks(1))
qed

lemma step_again:
  assumes inv: "depot_inv ts C (d, pcs)" and "p < length ts" and "put_step (pcs p) d = Some (c, d')" and pc: "pcs p = PFindAgain t s"
  shows "depot_inv ts C (d', pcs(p := c))"
proof -
  let ?b = "bucket t"
  have z: "trace t \<noteq> []" "s = tab d ?b AND kUnlockMask" using invD(2) [OF inv, of p] pc by simp_all
  have ch: "chain (nodes d) s (C ?b)" using invD(1) [OF inv] z(2) by (simp add: chains_ok_def)
  obtain r where r: "depot_find (nodes d) s (trace_hash t) = Some r"
    "if r = 0 then \<forall>x\<in>set (C ?b). stack_hash (nodes d x) \<noteq> trace_hash t else r \<in> set (C ?b) \<and> stack_hash (nodes d r) = trace_hash t"
    using find_chain [OF ch] by blast
  show ?thesis
  proof (cases "r = 0")
    case True
    then have c: "d' = d" "c = PAlloc t s" using assms(3) pc r(1) by simp_all
    have "pc_ok ts d C c" using z r(2) True by (simp add: c no_hash_def)
    then show ?thesis unfolding c(1) by (intro inv_pc [OF inv assms(2)]) (simp_all add: pc c(2))
  next
    case False
    have s: "s AND kUnlockMask = s" by (simp add: z(2) and.assoc)
    have c: "d' = d\<lparr>tab := (tab d)(?b := s)\<rparr>" "c = PDone t r" using assms(3) pc r(1) False by simp_all
    have "pc_ok ts d' C c" using z r(2) False by (simp add: c)
    moreover have "locks_ok d' (pcs(p := c))" using masks(3) s by (intro locks_release [OF invD(3) [OF inv], of p ?b]) (simp_all add: c pc)
    ultimately show ?thesis unfolding c(1) using s z(2) by (intro inv_move [OF inv assms(2)]) (simp_all add: pc c(2))
  qed
qed

definition small_run :: "StackTrace list \<Rightarrow> bool" where
  "small_run ts \<longleftrightarrow> 512 * length ts < 2 ^ 32 \<and> (\<forall>t\<in>set ts. tag t < 256)"

lemma ids_small:
  assumes "depot_inv ts C (d, pcs)" and "small_run ts"
  shows "unat (n_uniq_ids d) \<le> length ts" and "unat (n_uniq_ids d) < 2 ^ 23"
proof -
  have "card {p. p < length ts \<and> numbered (pcs p)} \<le> card {..<length ts}" by (rule card_mono) auto
  then show "unat (n_uniq_ids d) \<le> length ts" using invD(6) [OF assms(1)] by (simp add: counts_ok_def)
  then show "unat (n_uniq_ids d) < 2 ^ 23" using assms(2) by (simp add: small_run_def)
qed

lemma step_alloc:
  assumes inv: "depot_inv ts C (d, pcs)" and p: "p < length ts" and "put_step (pcs p) d = Some (c, d')" and pc: "pcs p = PAlloc t s" and "small_run ts"
  shows "depot_inv ts C (d', pcs(p := c))"
proof -
  let ?i = "n_uniq_ids d + 1"
  have c: "d' = d\<lparr>n_uniq_ids := ?i\<rparr>" "c = PStore t s ?i" using assms(3) pc by (simp_all add: Let_def split: if_splits)
  have i: "unat ?i = unat (n_uniq_ids d) + 1" using ids_small(2) [OF inv assms(5)] by (simp add: unat_word_ariths)
  have "unat x \<le> unat (n_uniq_ids d)" if "x \<in> set (C b)" for x b using invD(1) [OF inv] that unfolding chains_ok_def by blast
  then have C: "?i \<notin> set (C b)" for b using i by force
  have I: "\<And>q j. pending (pcs q) = Some j \<Longrightarrow> j \<noteq> 0 \<and> unat j \<le> unat (n_uniq_ids d) \<and> (\<forall>b. j \<notin> set (C b))"
    "\<And>q r j. pending (pcs q) = Some j \<Longrightarrow> pending (pcs r) = Some j \<Longrightarrow> q = r" using invD(4) [OF inv] unfolding ids_ok_def by blast+
  have pend: "pending ((pcs(p := c)) q) = Some j \<longleftrightarrow> (if q = p then j = ?i else pending (pcs q) = Some j)" for q j by (auto simp: c(2))
  have e: "extends d d' UNIV" by (simp add: extends_def c(1) i)
  show ?thesis
  proof (rule inv_local [OF inv p _ e])
    show "trace_of c = trace_of (pcs p)" by (simp add: c(2) pc)
    show "pc_ok ts d' C c" using invD(2) [OF inv, of p] pc by (simp add: c no_hash_def)
    show "locks_ok d' (pcs(p := c))" by (rule locks_same [OF invD(3) [OF inv]]) (simp_all add: c pc)
    show "ids_ok d' C (pcs(p := c))"
      unfolding ids_ok_def pend
    proof (intro conjI allI impI)
      fix q j assume q: "if q = p then j = ?i else pending (pcs q) = Some j"
      show "j \<noteq> 0" "unat j \<le> unat (n_uniq_ids d')" using q I(1) [of q j] i by (auto simp: c(1) split: if_splits)
      show "j \<notin> set (C b)" for b using q I(1) [of q j] C by (auto split: if_splits)
    next
      fix q r j assume "(if q = p then j = ?i else pending (pcs q) = Some j) \<and> (if r = p then j = ?i else pending (pcs r) = Some j)"
      then show "q = r" using I(1) [of q j] I(1) [of r j] I(2) [of q j r] i by (auto split: if_splits)
    qed
    have "card {q. q < length ts \<and> numbered ((pcs(p := c)) q)} = card {q. q < length ts \<and> numbered (pcs q)} + 1"
      by (rule count_add [OF p]) (simp_all add: pc c(2))
    then show "counts_ok ts d' (pcs(p := c))"
      using invD(6) [OF inv] count_mono [of written pcs p c "length ts"] i by (simp add: counts_ok_def c pc)
  qed (simp_all add: c)
qed

lemma store_room:
  assumes inv: "depot_inv ts C (d, pcs)" and p: "p < length ts" and "\<not> written (pcs p)" and "small_run ts"
  shows "unat (total_frames (stackStore d)) + 2 * (trace_size t + 1) < 2 ^ 32"
proof -
  have "card {q. q < length ts \<and> written (pcs q)} < length ts" using count_bound [where P = written and pcs = pcs, OF p] assms(3) by blast
  then have "512 * card {q. q < length ts \<and> written (pcs q)} + 512 \<le> 512 * length ts" by simp
  moreover have "2 * (trace_size t + 1) \<le> 512" by (simp add: trace_size_def)
  ultimately show ?thesis using invD(6) [OF inv] assms(4) by (simp add: counts_ok_def small_run_def)
qed

lemma step_store:
  assumes inv: "depot_inv ts C (d, pcs)" and p: "p < length ts" and "put_step (pcs p) d = Some (c, d')" and pc: "pcs p = PStore t s i" and sm: "small_run ts"
  shows "depot_inv ts C (d', pcs(p := c))"
proof -
  have t: "t = ts ! p" "trace t \<noteq> []" and s: "s = tab d (bucket t) AND kUnlockMask" "no_hash d (C (bucket t)) (trace_hash t)"
    using spec [OF invD(5) [OF inv, unfolded traces_ok_def], of p] invD(2) [OF inv, of p] p pc by auto
  have mem: "t \<in> set ts" "tag t < 256" using t(1) p sm by (auto simp: small_run_def)
  obtain k a st where S: "Store t (stackStore d) = Some (OffsetToId k, a, st)" "store_ok st" "keeps (stackStore d) st" "holds_at st k t"
    "unat (total_frames st) \<le> unat (total_frames (stackStore d)) + 2 * (trace_size t + 1)"
    using Store_ok [OF _ mem(2) _ store_room [OF inv p _ sm]] invD(6) [OF inv] t(2) pc by (auto simp: counts_ok_def)
  let ?n = "\<lparr>stack_hash = trace_hash t, link = s, store_id = OffsetToId k\<rparr>"
  have c: "d' = set_node i ?n (d\<lparr>stackStore := st\<rparr>)" "c = PUnlock t i" using assms(3) pc S(1) by (simp_all add: node_store_def)
  have i: "\<And>b. i \<notin> set (C b)" "\<And>q. pending (pcs q) = Some i \<Longrightarrow> q = p" using invD(4) [OF inv] pc unfolding ids_ok_def by (metis pending.simps(1))+
  have e: "extends d d' (- {i})" using S(3) by (simp add: extends_def c(1) set_node_def)
  show ?thesis
  proof (rule inv_local [OF inv p _ e])
    show "trace_of c = trace_of (pcs p)" by (simp add: c(2) pc)
    show X: "\<And>b. set (C b) \<subseteq> - {i}" using i(1) by auto
    show "q \<noteq> p \<Longrightarrow> pending (pcs q) = Some j \<Longrightarrow> j \<in> - {i}" for q j using i(2) [of q] by auto
    show "\<And>b. tab d' b AND kUnlockMask = tab d b AND kUnlockMask" by (simp add: c(1) set_node_def)
    have "node_ok ts d' i" using mem(1) t(2) S(4) by (auto simp: node_ok_def c(1) set_node_def id_ok_def)
    then show "pc_ok ts d' C c" using t(2) s no_hash_ext [OF e X s(2)] by (simp add: c set_node_def)
    show "locks_ok d' (pcs(p := c))" by (rule locks_same [OF invD(3) [OF inv]]) (simp_all add: c pc set_node_def)
    show "ids_ok d' C (pcs(p := c))" by (rule ids_drop [OF invD(4) [OF inv]]) (simp_all add: c pc set_node_def)
    have "card {q. q < length ts \<and> written ((pcs(p := c)) q)} = card {q. q < length ts \<and> written (pcs q)} + 1"
      by (rule count_add [OF p]) (simp_all add: pc c(2))
    moreover have "2 * (trace_size t + 1) \<le> 512" by (simp add: trace_size_def)
    ultimately show "counts_ok ts d' (pcs(p := c))"
      using invD(6) [OF inv] count_mono [of numbered pcs p c "length ts"] S(2,5) by (simp add: counts_ok_def c pc set_node_def)
  qed
qed

lemma step_unlock:
  assumes inv: "depot_inv ts C (d, pcs)" and p: "p < length ts" and "put_step (pcs p) d = Some (c, d')" and pc: "pcs p = PUnlock t i" and sm: "small_run ts"
  defines "C' \<equiv> C(bucket t := i # C (bucket t))"
  shows "depot_inv ts C' (d', pcs(p := c))"
proof -
  let ?b = "bucket t"
  have c: "d' = d\<lparr>tab := (tab d)(?b := i)\<rparr>" "c = PDone t i" using assms(3) pc by simp_all
  have U: "trace t \<noteq> []" "no_hash d (C ?b) (trace_hash t)" "stack_hash (nodes d i) = trace_hash t" "link (nodes d i) = tab d ?b AND kUnlockMask" "node_ok ts d i"
    using invD(2) [OF inv, of p] pc by simp_all
  have i: "i \<noteq> 0" "unat i \<le> unat (n_uniq_ids d)" "\<And>q. pending (pcs q) = Some i \<Longrightarrow> q = p"
    using invD(4) [OF inv] pc unfolding ids_ok_def by (metis pending.simps(2))+
  have "unat i < 2 ^ 31" using i(2) ids_small(2) [OF inv sm] by simp
  then have m: "i AND kUnlockMask = i" "i AND kLockMask = 0" using masks(3,4) by blast+
  have e: "extends d d' UNIV" by (simp add: c(1))
  have A: "chain (nodes d) (tab d b AND kUnlockMask) (C b)" "distinct (map (\<lambda>x. stack_hash (nodes d x)) (C b))"
    "\<And>x. x \<in> set (C b) \<Longrightarrow> unat (stack_hash (nodes d x)) mod kTabSize = b \<and> unat x \<le> unat (n_uniq_ids d) \<and> node_ok ts d x" for b
    using invD(1) [OF inv] by (simp_all add: chains_ok_def)
  have nok: "node_ok ts d' x" if "node_ok ts d x" for x using node_ok_ext [OF e _ that] by simp
  have "chains_ok ts d' C'"
    unfolding chains_ok_def
  proof (intro allI conjI ballI)
    fix b
    show "chain (nodes d') (tab d' b AND kUnlockMask) (C' b)" using A(1) [of b] U(4) m(1) i(1) by (cases "b = ?b") (simp_all add: c(1) C'_def)
    show "distinct (map (\<lambda>x. stack_hash (nodes d' x)) (C' b))" using A(2) [of b] U(2,3) by (auto simp: c(1) C'_def no_hash_def)
    fix x assume "x \<in> set (C' b)"
    then consider "x = i" "b = ?b" | "x \<in> set (C b)" by (auto simp: C'_def split: if_splits)
    then have "unat (stack_hash (nodes d x)) mod kTabSize = b \<and> unat x \<le> unat (n_uniq_ids d) \<and> node_ok ts d x"
      by cases (use U(3,5) i(2) A(3) in \<open>simp_all add: bucket_def\<close>)
    then show "unat (stack_hash (nodes d' x)) mod kTabSize = b" "unat x \<le> unat (n_uniq_ids d')" "node_ok ts d' x"
      using nok by (simp_all add: c(1))
  qed
  moreover have "pc_ok ts d' C' ((pcs(p := c)) q)" for q
  proof (cases "q = p")
    case False
    have "holds_lock (pcs q) = Some b \<Longrightarrow> b \<noteq> ?b" for b using invD(3) [OF inv] False pc unfolding locks_ok_def by (metis holds_lock.simps(4))
    then have "pc_ok ts d' C' (pcs q)"
      by (intro pc_ok_ext [OF invD(2) [OF inv] e]) (auto simp: C'_def c(1))
    then show ?thesis using False by simp
  qed (use U(1,3) in \<open>simp add: c C'_def\<close>)
  moreover have "locks_ok d' (pcs(p := c))" by (rule locks_release [OF invD(3) [OF inv], of p ?b c d' i]) (simp_all add: c pc m)
  moreover have "ids_ok d' C' (pcs(p := c))"
  proof (rule ids_drop [OF invD(4) [OF inv]])
    show "pending c = None \<or> pending c = pending (pcs p)" "unat (n_uniq_ids d) \<le> unat (n_uniq_ids d')" by (simp_all add: c)
    show "j \<in> set (C b)" if "q \<noteq> p \<or> pending c = Some j" "pending (pcs q) = Some j" "j \<in> set (C' b)" for q j b
      using that i(3) [of q] by (auto simp: c(2) C'_def split: if_splits)
  qed
  moreover have "counts_ok ts d' (pcs(p := c))" by (rule counts_same [OF invD(6) [OF inv]]) (simp_all add: c)
  moreover have "traces_ok ts (pcs(p := c))" using invD(5) [OF inv] spec [OF invD(5) [OF inv, unfolded traces_ok_def], of p] p pc by (simp add: traces_ok_def c(2))
  ultimately show ?thesis by (simp add: depot_inv_def)
qed

lemma idle_thread: "depot_inv ts C (d, pcs) \<Longrightarrow> \<not> p < length ts \<Longrightarrow> pcs p = PDone empty_trace 0"
  using invD(5) [of ts C d pcs] unfolding traces_ok_def by metis

lemma inv_step:
  assumes inv: "depot_inv ts C (d, pcs)" and sm: "small_run ts" and "depot_step (2 ^ k) (d, pcs) (d', pcs')"
  shows "\<exists>C'. depot_inv ts C' (d', pcs')"
  using assms(3)
proof cases
  case (put p c)
  have p: "p < length ts" using idle_thread [OF inv] put(2) by fastforce
  show ?thesis unfolding put(1)
  proof (cases "pcs p")
    case (PStore t s i)
    then show "\<exists>C'. depot_inv ts C' (d', pcs(p := c))" using step_store [OF inv p put(2) PStore sm] by blast
  qed (use step_search [OF inv p put(2)] step_lock [OF inv p put(2)] step_again [OF inv p put(2)] step_alloc [OF inv p put(2) _ sm]
      step_unlock [OF inv p put(2) _ sm] put(2) in \<open>blast | simp\<close>)+
next
  case (compress c n st)
  obtain m st' where P: "store_Pack (2 ^ k) c (stackStore d) = Some (m, st')" "store_ok st'" "keeps (stackStore d) st'" "total_frames st' = total_frames (stackStore d)"
    using pack_blocks_ok [of "stackStore d" "[0..<kBlockCount]" k c] invD(6) [OF inv] by (auto simp: store_Pack_def counts_ok_def atLeast0LessThan)
  then have d': "d' = d\<lparr>stackStore := st'\<rparr>" using compress by simp
  have e: "extends d d' UNIV" using P(3) by (simp add: extends_def d')
  have "pc_ok ts d' C (pcs p)" for p by (rule pc_ok_ext [OF invD(2) [OF inv] e]) (simp_all add: d')
  moreover have "chains_ok ts d' C" by (rule chains_ok_ext [OF invD(1) [OF inv] e]) (simp_all add: d')
  moreover have "locks_ok d' pcs" "ids_ok d' C pcs" using invD(3,4) [OF inv] by (simp_all add: locks_ok_def ids_ok_def d')
  moreover have "counts_ok ts d' pcs" using invD(6) [OF inv] P(2,4) by (simp add: counts_ok_def d')
  ultimately have "depot_inv ts C (d', pcs)" using invD(5) [OF inv] by (simp add: depot_inv_def)
  then show ?thesis using compress by blast
qed

section \<open>Reachable states\<close>

definition putters :: "StackTrace list \<Rightarrow> nat \<Rightarrow> put_pc" where
  "putters ts p = (if p < length ts then PStart (ts ! p) else PDone empty_trace 0)"

lemma inv_init: "depot_inv ts (\<lambda>_. []) (new_depot, putters ts)"
proof -
  have n: "holds_lock (putters ts p) = None" "pending (putters ts p) = None" for p by (simp_all add: putters_def)
  have "pc_ok ts new_depot (\<lambda>_. []) (putters ts p)" for p by (simp add: putters_def empty_trace_def)
  moreover have "chains_ok ts new_depot (\<lambda>_. [])" by (simp add: chains_ok_def new_depot_def)
  moreover have "locks_ok new_depot (putters ts)" by (simp add: locks_ok_def n) (simp add: new_depot_def)
  moreover have "ids_ok new_depot (\<lambda>_. []) (putters ts)" by (simp add: ids_ok_def n)
  moreover have "traces_ok ts (putters ts)" by (simp add: traces_ok_def putters_def)
  moreover have "counts_ok ts new_depot (putters ts)" using new_store_ok by (simp add: counts_ok_def new_depot_def new_store_def)
  ultimately show ?thesis by (simp add: depot_inv_def)
qed

lemma depot_reach_inv:
  assumes "depot_reach (2 ^ k) (putters ts) s" and "small_run ts"
  shows "\<exists>C. depot_inv ts C s"
  using assms(1)
proof induction
  case init
  then show ?case using inv_init by blast
next
  case (step s s')
  then show ?case using inv_step [OF _ assms(2)] by (cases s; cases s') blast
qed

text \<open>Some thread can always go on: a locked bucket belongs to a thread that can.\<close>

lemma holder_moves:
  assumes inv: "depot_inv ts C (d, pcs)" and sm: "small_run ts" and h: "holds_lock (pcs q) = Some b"
  shows "put_step (pcs q) d \<noteq> None"
proof -
  have q: "q < length ts" using idle_thread [OF inv, of q] h by fastforce
  show ?thesis
  proof (cases "pcs q")
    case (PFindAgain t s)
    have "chain (nodes d) s (C (bucket t))" using invD(1) [OF inv] invD(2) [OF inv, of q] PFindAgain by (simp add: chains_ok_def)
    then show ?thesis using find_chain [of "nodes d" s "C (bucket t)" "trace_hash t"] PFindAgain by auto
  next
    case (PAlloc t s)
    have "unat (n_uniq_ids d + 1) < 2 ^ 31" using ids_small(2) [OF inv sm] by (simp add: unat_word_ariths)
    then show ?thesis using masks(4) PAlloc by (simp add: Let_def)
  next
    case (PStore t s i)
    have t: "t = ts ! q" "trace t \<noteq> []" using spec [OF invD(5) [OF inv, unfolded traces_ok_def], of q] invD(2) [OF inv, of q] q PStore by auto
    then have "tag t < 256" using q sm by (auto simp: small_run_def)
    then have "Store t (stackStore d) \<noteq> None"
      using Store_ok [OF _ _ _ store_room [OF inv q _ sm], of t] invD(6) [OF inv] t(2) PStore by (fastforce simp: counts_ok_def)
    then show ?thesis using PStore by (auto simp: node_store_def)
  qed (use h in simp_all)
qed

lemma not_stuck:
  assumes inv: "depot_inv ts C (d, pcs)" and sm: "small_run ts" and p: "\<And>t i. pcs p \<noteq> PDone t i"
  shows "\<exists>q c d'. put_step (pcs q) d = Some (c, d')"
proof (cases "holds_lock (pcs p)")
  case (Some b)
  then show ?thesis using holder_moves [OF inv sm] by fast
next
  case None
  show ?thesis
  proof (cases "pcs p")
    case (PStart t)
    then show ?thesis by (intro exI [of _ p]) simp
  next
    case (PFind t s)
    then obtain zs where "chain (nodes d) s zs" using invD(2) [OF inv, of p] by auto
    then show ?thesis using find_chain [of "nodes d" s zs "trace_hash t"] PFind by (intro exI [of _ p]) auto
  next
    case (PLock t s)
    show ?thesis
    proof (cases "tab d (bucket t) AND kLockMask = 0")
      case True
      then show ?thesis using PLock by (intro exI [of _ p]) (simp add: Let_def)
    next
      case False
      then obtain q where "holds_lock (pcs q) = Some (bucket t)" using invD(3) [OF inv] by (auto simp: locks_ok_def)
      then show ?thesis using holder_moves [OF inv sm] by fast
    qed
  qed (use None p in simp_all)
qed

lemma published:
  assumes inv: "depot_inv ts C (d, pcs)" and sm: "small_run ts" and i: "i \<in> set (C b)"
  shows "i \<noteq> 0" and "\<exists>u\<in>set ts. trace_hash u = stack_hash (nodes d i) \<and> (\<exists>d'. StackDepotGet (2 ^ k) i d = Some (cut u, d'))"
proof -
  have A: "chain (nodes d) (tab d b AND kUnlockMask) (C b)" "unat i \<le> unat (n_uniq_ids d)" "node_ok ts d i"
    using invD(1) [OF inv] i by (simp_all add: chains_ok_def)
  have nz: "chain N s xs \<Longrightarrow> x \<in> set xs \<Longrightarrow> x \<noteq> 0" for N s xs and x :: u32 by (induction xs arbitrary: s) auto
  show i0: "i \<noteq> 0" by (rule nz [OF A(1) i])
  obtain u where u: "u \<in> set ts" "trace u \<noteq> []" "trace_hash u = stack_hash (nodes d i)" "id_ok (stackStore d) (store_id (nodes d i)) u"
    "created d (unat i div kNodesSize2)" using A(3) by (auto simp: node_ok_def)
  have "trace (cut u) \<noteq> trace empty_trace" using u(2) by (simp add: cut_def empty_trace_def)
  then have "cut u \<noteq> empty_trace" by auto
  then have s: "store_id (nodes d i) \<noteq> 0" using u(4) OffsetToId_inverse(1) by (auto simp: id_ok_def holds_at_def)
  have "store_ok (stackStore d)" using invD(6) [OF inv] by (simp add: counts_ok_def)
  then obtain st where L: "Load (2 ^ k) (store_id (nodes d i)) (stackStore d) = Some (cut u, st)" using Load_id u(4) by blast
  have small: "unat i < 2 ^ 31" using A(2) ids_small(2) [OF inv sm] by simp
  then have m: "i AND drop_bit 1 (- 1) = i" using masks(4) [of i] by (simp add: kUnlockMask_def mask_eq_exp_minus_1)
  have "nodes_contains d i = Some True" using small u(5) by (simp add: nodes_contains_def kNodesSize1_def kNodesSize2_def)
  then have "StackDepotGet (2 ^ k) i d = Some (cut u, d\<lparr>stackStore := st\<rparr>)" using i0 m s L by (simp add: StackDepotGet_def)
  then show "\<exists>u\<in>set ts. trace_hash u = stack_hash (nodes d i) \<and> (\<exists>d'. StackDepotGet (2 ^ k) i d = Some (cut u, d'))" using u(1,3) by blast
qed

text \<open>
  C10: The stack depot under any interleaving of threads that put traces and of the compression thread: the id that \<^verbatim>\<open>Put\<close> returns for a trace
  gives back a trace of the same hash; two puts return the same id exactly if the hashes are equal; and as long as a thread has not returned,
  some thread can go on.
\<close>

theorem depot_put_get:
  assumes "small_run ts" and "depot_reach (2 ^ k) (putters ts) (d, pcs)"
  shows "(\<forall>p t i. pcs p = PDone t i \<longrightarrow> trace t \<noteq> [] \<longrightarrow> t = ts ! p \<and> i \<noteq> 0 \<and>
      (\<exists>u\<in>set ts. trace_hash u = trace_hash t \<and> (\<exists>d'. StackDepotGet (2 ^ k) i d = Some (cut u, d')))) \<and>
    (\<forall>p q t u i j. pcs p = PDone t i \<longrightarrow> pcs q = PDone u j \<longrightarrow> trace t \<noteq> [] \<longrightarrow> trace u \<noteq> [] \<longrightarrow> (i = j \<longleftrightarrow> trace_hash t = trace_hash u)) \<and>
    (\<forall>p. (\<forall>t i. pcs p \<noteq> PDone t i) \<longrightarrow> (\<exists>q c d'. put_step (pcs q) d = Some (c, d')))"
proof -
  obtain C where inv: "depot_inv ts C (d, pcs)" using depot_reach_inv [OF assms(2,1)] by blast
  have D: "i \<in> set (C (bucket t))" "stack_hash (nodes d i) = trace_hash t" if "pcs p = PDone t i" "trace t \<noteq> []" for p t i
    using invD(2) [OF inv, of p] that by simp_all
  have "t = ts ! p" if "pcs p = PDone t i" "trace t \<noteq> []" for p t i
    using spec [OF invD(5) [OF inv, unfolded traces_ok_def], of p] that by (auto simp: empty_trace_def split: if_splits)
  moreover have "i = j \<longleftrightarrow> trace_hash t = trace_hash u"
    if "pcs p = PDone t i" "pcs q = PDone u j" "trace t \<noteq> []" "trace u \<noteq> []" for p q t u i j
  proof
    show "trace_hash t = trace_hash u" if "i = j" using D that \<open>pcs p = _\<close> \<open>pcs q = _\<close> \<open>trace t \<noteq> []\<close> \<open>trace u \<noteq> []\<close> by metis
    assume h: "trace_hash t = trace_hash u"
    have "distinct (map (\<lambda>x. stack_hash (nodes d x)) (C (bucket t)))" using invD(1) [OF inv] by (simp add: chains_ok_def)
    moreover have "bucket u = bucket t" using h by (simp add: bucket_def)
    ultimately show "i = j" using D [OF that(1,3)] D [OF that(2,4)] h by (auto simp: distinct_map inj_on_def)
  qed
  moreover have "i \<noteq> 0 \<and> (\<exists>u\<in>set ts. trace_hash u = trace_hash t \<and> (\<exists>d'. StackDepotGet (2 ^ k) i d = Some (cut u, d')))"
    if "pcs p = PDone t i" "trace t \<noteq> []" for p t i
    using published [OF inv assms(1) D(1) [OF that]] D(2) [OF that] by simp
  ultimately show ?thesis using not_stuck [OF inv assms(1)] by (intro conjI allI impI) blast+
qed

definition example_trace :: StackTrace where
  "example_trace = \<lparr>trace = [0x400123, 0x400456], tag = 0\<rparr>"

lemma example_run:
  "\<exists>d. depot_reach (2 ^ 12) (putters [example_trace]) (d, (putters [example_trace])(0 := PDone example_trace 1))"
proof -
  let ?t = "example_trace" and ?P = "\<lambda>c. (putters [example_trace])(0 := c)"
  have t: "trace ?t \<noteq> []" "tag ?t < 256" "\<not> (trace ?t = [] \<and> tag ?t = 0)" by (simp_all add: example_trace_def)
  have s: "stackStore new_depot = new_store" "tab new_depot b = 0" "n_uniq_ids new_depot = 0" for b by (simp_all add: new_depot_def)
  obtain k a st where S: "Store ?t new_store = Some (OffsetToId k, a, st)"
    using Store_ok [OF new_store_ok t(2,3)] by (auto simp: new_store_def trace_size_def example_trace_def)
  have z: "depot_find N 0 h = Some 0" for N h by (subst depot_find.simps) simp
  let ?d1 = "new_depot\<lparr>tab := (tab new_depot)(bucket ?t := kLockMask)\<rparr>"
  let ?d2 = "?d1\<lparr>n_uniq_ids := 1\<rparr>"
  let ?d3 = "set_node 1 \<lparr>stack_hash = trace_hash ?t, link = 0, store_id = OffsetToId k\<rparr> (?d2\<lparr>stackStore := st\<rparr>)"
  let ?d4 = "?d3\<lparr>tab := (tab ?d3)(bucket ?t := 1)\<rparr>"
  have go: "depot_reach (2 ^ 12) (putters [?t]) (d, ?P c) \<Longrightarrow> put_step c d = Some (c', d') \<Longrightarrow> depot_reach (2 ^ 12) (putters [?t]) (d', ?P c')" for d d' c c'
    using depot_reach.step [OF _ depot_step.put [where pcs = "?P c" and p = 0 and c = c']] by simp
  have "putters [?t] = ?P (PStart ?t)" by (auto simp: putters_def)
  then have "depot_reach (2 ^ 12) (putters [?t]) (new_depot, ?P (PStart ?t))" using depot_reach.init [of "2 ^ 12" "putters [?t]"] by simp
  then have "depot_reach (2 ^ 12) (putters [?t]) (new_depot, ?P (PFind ?t 0))" by (rule go) (simp add: t s)
  then have "depot_reach (2 ^ 12) (putters [?t]) (new_depot, ?P (PLock ?t 0))" by (rule go) (simp add: z)
  then have "depot_reach (2 ^ 12) (putters [?t]) (?d1, ?P (PAlloc ?t 0))" by (rule go) (simp add: s)
  then have "depot_reach (2 ^ 12) (putters [?t]) (?d2, ?P (PStore ?t 0 1))" by (rule go) (simp add: s kUnlockMask_def)
  then have "depot_reach (2 ^ 12) (putters [?t]) (?d3, ?P (PUnlock ?t 1))" by (rule go) (simp add: node_store_def s S)
  then have "depot_reach (2 ^ 12) (putters [?t]) (?d4, ?P (PDone ?t 1))" by (rule go) simp
  then show ?thesis by blast
qed

theorem depot_put_get_witness:
  "\<exists>d d'. depot_reach (2 ^ 12) (putters [example_trace]) (d, (putters [example_trace])(0 := PDone example_trace 1)) \<and>
     StackDepotGet (2 ^ 12) 1 d = Some (cut example_trace, d')"
proof -
  obtain d where d: "depot_reach (2 ^ 12) (putters [example_trace]) (d, (putters [example_trace])(0 := PDone example_trace 1))"
    using example_run by blast
  have "small_run [example_trace]" by (simp add: small_run_def example_trace_def)
  from conjunct1 [OF depot_put_get [OF this d], rule_format, of 0 example_trace 1] d show ?thesis by (auto simp: example_trace_def)
qed

end
