(* ===== verification/Dense_Map.thy ===== *)
theory Dense_Map
  imports San_Math
begin

text \<open>
  \<^verbatim>\<open>DenseMap\<close> of \<^verbatim>\<open>sanitizer_dense_map.h\<close>, with the key traits of \<^verbatim>\<open>sanitizer_dense_map_info.h\<close>: a hash table with
  triangular probing in one array of buckets. Two key values are reserved, for a bucket that has never
  been used and for one whose entry was erased (a tombstone). The counters are 32-bit and wrap. A pointer to a bucket is its index, null is
  \<^const>\<open>None\<close>; the value of a bucket is \<^const>\<open>None\<close> while no value is constructed in it. The result \<^const>\<open>None\<close> of an operation is a failed check or a
  probe sequence that never ends. Keys are compared with \<open>=\<close>, as every \<^verbatim>\<open>isEqual\<close> of the traits does.
\<close>

section \<open>Key traits\<close>

text \<open>\<open>zero_key\<close> is the key that freshly mapped memory holds; the last two fields are \<^verbatim>\<open>sizeof(BucketT)\<close> and the page size.\<close>

record 'k dense_info =
  getEmptyKey :: 'k
  getTombstoneKey :: 'k
  getHashValue :: "'k \<Rightarrow> u32"
  zero_key :: 'k
  sizeof_BucketT :: uptr
  GetPageSizeCached :: uptr

definition combineHashValue :: "u32 \<Rightarrow> u32 \<Rightarrow> u32" where
  "combineHashValue a b =
     (let key = push_bit 32 (ucast a :: u64) OR ucast b;
          key = key + NOT (push_bit 32 key);
          key = key XOR drop_bit 22 key;
          key = key + NOT (push_bit 13 key);
          key = key XOR drop_bit 8 key;
          key = key + push_bit 3 key;
          key = key XOR drop_bit 15 key;
          key = key + NOT (push_bit 27 key);
          key = key XOR drop_bit 31 key
      in ucast key)"

definition DenseMapInfo_pointer :: "uptr \<Rightarrow> uptr \<Rightarrow> uptr dense_info" where
  "DenseMapInfo_pointer sz page = \<lparr>getEmptyKey = push_bit 12 (-1), getTombstoneKey = push_bit 12 (-2),
     getHashValue = (\<lambda>p. drop_bit 4 (ucast p) XOR drop_bit 9 (ucast p)), zero_key = 0, sizeof_BucketT = sz, GetPageSizeCached = page\<rparr>"

definition DenseMapInfo_unsigned :: "uptr \<Rightarrow> uptr \<Rightarrow> u32 dense_info" where
  "DenseMapInfo_unsigned sz page = \<lparr>getEmptyKey = -1, getTombstoneKey = -1 - 1,
     getHashValue = (\<lambda>v. v * 37), zero_key = 0, sizeof_BucketT = sz, GetPageSizeCached = page\<rparr>"

definition DenseMapInfo_unsigned_long :: "uptr \<Rightarrow> uptr \<Rightarrow> uptr dense_info" where
  "DenseMapInfo_unsigned_long sz page = \<lparr>getEmptyKey = -1, getTombstoneKey = -1 - 1,
     getHashValue = (\<lambda>v. ucast (v * 37)), zero_key = 0, sizeof_BucketT = sz, GetPageSizeCached = page\<rparr>"

definition DenseMapInfo_pair :: "'a dense_info \<Rightarrow> 'b dense_info \<Rightarrow> uptr \<Rightarrow> uptr \<Rightarrow> ('a \<times> 'b) dense_info" where
  "DenseMapInfo_pair A B sz page = \<lparr>getEmptyKey = (getEmptyKey A, getEmptyKey B), getTombstoneKey = (getTombstoneKey A, getTombstoneKey B),
     getHashValue = (\<lambda>(a, b). combineHashValue (getHashValue A a) (getHashValue B b)), zero_key = (zero_key A, zero_key B),
     sizeof_BucketT = sz, GetPageSizeCached = page\<rparr>"

section \<open>The table\<close>

type_synonym ('k, 'v) dense_bucket = "'k \<times> 'v option"

record ('k, 'v) DenseMap =
  Buckets :: "('k, 'v) dense_bucket list"
  NumEntries :: u32
  NumTombstones :: u32
  NumBuckets :: u32

definition new_DenseMap :: "('k, 'v) DenseMap" where
  "new_DenseMap = \<lparr>Buckets = [], NumEntries = 0, NumTombstones = 0, NumBuckets = 0\<rparr>"

definition is_live :: "'k dense_info \<Rightarrow> 'k \<Rightarrow> bool" where
  "is_live I k \<longleftrightarrow> k \<noteq> getEmptyKey I \<and> k \<noteq> getTombstoneKey I"

definition dm_empty :: "('k, 'v) DenseMap \<Rightarrow> bool" where "dm_empty m \<longleftrightarrow> NumEntries m = 0"

text \<open>\<^verbatim>\<open>initEmpty\<close>, \<^verbatim>\<open>allocateBuckets\<close> (its result says whether there is an array) and the number of buckets for a number of entries.\<close>

definition initEmpty :: "'k dense_info \<Rightarrow> ('k, 'v) DenseMap \<Rightarrow> ('k, 'v) DenseMap option" where
  "initEmpty I m = do {
     let m = m\<lparr>NumEntries := 0, NumTombstones := 0\<rparr>;
     CHECK (NumBuckets m AND (NumBuckets m - 1) = 0);
     Some (m\<lparr>Buckets := map (\<lambda>(k, v). (getEmptyKey I, v)) (Buckets m)\<rparr>)
   }"

definition allocateBuckets :: "'k dense_info \<Rightarrow> u32 \<Rightarrow> ('k, 'v) DenseMap \<Rightarrow> (bool \<times> ('k, 'v) DenseMap) option" where
  "allocateBuckets I num m =
     (if num = 0 then Some (False, m\<lparr>NumBuckets := num, Buckets := []\<rparr>)
      else do {
        let size = sizeof_BucketT I * ucast num;
        num \<leftarrow> (if size * 2 \<le> GetPageSizeCached I then do {
            k \<leftarrow> MostSignificantSetBitIndex (GetPageSizeCached I div size);
            let size = push_bit k size;
            let num = push_bit k num;
            CHECK (size = sizeof_BucketT I * ucast num);
            CHECK (size * 2 > GetPageSizeCached I);
            Some num
          } else Some num);
        Some (True, m\<lparr>NumBuckets := num, Buckets := replicate (unat num) (zero_key I, None)\<rparr>)
      })"

definition getMinBucketToReserveForEntries :: "u32 \<Rightarrow> u32 option" where
  "getMinBucketToReserveForEntries n =
     (if n = 0 then Some 0 else map_option ucast (RoundUpToPowerOfTwo (ucast (n * 4 div 3 + 1 + 1))))"

definition dm_init :: "'k dense_info \<Rightarrow> u32 \<Rightarrow> ('k, 'v) DenseMap \<Rightarrow> ('k, 'v) DenseMap option" where
  "dm_init I n m = do {
     b \<leftarrow> getMinBucketToReserveForEntries n;
     (ok, m) \<leftarrow> allocateBuckets I b m;
     if ok then initEmpty I m else Some (m\<lparr>NumEntries := 0, NumTombstones := 0\<rparr>)
   }"

section \<open>Lookup\<close>

partial_function (option) find_loop :: "'k dense_info \<Rightarrow> ('k, 'v) dense_bucket list \<Rightarrow> u32 \<Rightarrow> 'k \<Rightarrow> u32 \<Rightarrow> u32 \<Rightarrow> nat option option" where
  "find_loop I bs n val b probe =
     (if unat b \<ge> length bs then None
      else if val = fst (bs ! unat b) then Some (Some (unat b))
      else if fst (bs ! unat b) = getEmptyKey I then Some None
      else find_loop I bs n val ((b + probe) AND (n - 1)) (probe + 1))"

definition doFind :: "'k dense_info \<Rightarrow> 'k \<Rightarrow> ('k, 'v) DenseMap \<Rightarrow> nat option option" where
  "doFind I val m =
     (if NumBuckets m = 0 then Some None
      else find_loop I (Buckets m) (NumBuckets m) val (getHashValue I val AND (NumBuckets m - 1)) 1)"

partial_function (option) lookup_loop ::
  "'k dense_info \<Rightarrow> ('k, 'v) dense_bucket list \<Rightarrow> u32 \<Rightarrow> 'k \<Rightarrow> u32 \<Rightarrow> u32 \<Rightarrow> nat option \<Rightarrow> (bool \<times> nat option) option" where
  "lookup_loop I bs n val b probe tomb =
     (if unat b \<ge> length bs then None
      else if val = fst (bs ! unat b) then Some (True, Some (unat b))
      else if fst (bs ! unat b) = getEmptyKey I then Some (False, Some (case tomb of Some t \<Rightarrow> t | None \<Rightarrow> unat b))
      else lookup_loop I bs n val ((b + probe) AND (n - 1)) (probe + 1)
        (if fst (bs ! unat b) = getTombstoneKey I \<and> tomb = None then Some (unat b) else tomb))"

definition LookupBucketFor :: "'k dense_info \<Rightarrow> 'k \<Rightarrow> ('k, 'v) DenseMap \<Rightarrow> (bool \<times> nat option) option" where
  "LookupBucketFor I val m =
     (if NumBuckets m = 0 then Some (False, None)
      else do {
        CHECK (val \<noteq> getEmptyKey I);
        CHECK (val \<noteq> getTombstoneKey I);
        lookup_loop I (Buckets m) (NumBuckets m) val (getHashValue I val AND (NumBuckets m - 1)) 1 None
      })"

definition dm_contains :: "'k dense_info \<Rightarrow> 'k \<Rightarrow> ('k, 'v) DenseMap \<Rightarrow> bool option" where
  "dm_contains I k m = map_option (\<lambda>b. b \<noteq> None) (doFind I k m)"

text \<open>\<open>dflt\<close> is \<^verbatim>\<open>ValueT()\<close>.\<close>

definition dm_lookup :: "'k dense_info \<Rightarrow> 'v \<Rightarrow> 'k \<Rightarrow> ('k, 'v) DenseMap \<Rightarrow> 'v option" where
  "dm_lookup I dflt k m = do {
     b \<leftarrow> doFind I k m;
     (case b of Some i \<Rightarrow> snd (Buckets m ! i) | None \<Rightarrow> Some dflt)
   }"

section \<open>Growing\<close>

definition set_bucket :: "nat \<Rightarrow> ('k, 'v) dense_bucket \<Rightarrow> ('k, 'v) DenseMap \<Rightarrow> ('k, 'v) DenseMap" where
  "set_bucket i b m = m\<lparr>Buckets := (Buckets m)[i := b]\<rparr>"

fun move_buckets :: "'k dense_info \<Rightarrow> ('k, 'v) dense_bucket list \<Rightarrow> ('k, 'v) DenseMap \<Rightarrow> ('k, 'v) DenseMap option" where
  "move_buckets I [] m = Some m"
| "move_buckets I ((k, v) # bs) m =
     (if is_live I k then do {
        (found, dest) \<leftarrow> LookupBucketFor I k m;
        CHECK (\<not> found);
        i \<leftarrow> dest;
        move_buckets I bs ((set_bucket i (k, v) m)\<lparr>NumEntries := NumEntries m + 1\<rparr>)
      } else move_buckets I bs m)"

definition moveFromOldBuckets :: "'k dense_info \<Rightarrow> ('k, 'v) dense_bucket list \<Rightarrow> ('k, 'v) DenseMap \<Rightarrow> ('k, 'v) DenseMap option" where
  "moveFromOldBuckets I old m = Option.bind (initEmpty I m) (move_buckets I old)"

definition grow :: "'k dense_info \<Rightarrow> u32 \<Rightarrow> ('k, 'v) DenseMap \<Rightarrow> ('k, 'v) DenseMap option" where
  "grow I at_least m = do {
     let old = Buckets m;
     n \<leftarrow> RoundUpToPowerOfTwo (ucast (max 64 at_least));
     (ok, m) \<leftarrow> allocateBuckets I (ucast n) m;
     CHECK ok;
     if old = [] then initEmpty I m else moveFromOldBuckets I old m
   }"

definition dm_reserve :: "'k dense_info \<Rightarrow> u32 \<Rightarrow> ('k, 'v) DenseMap \<Rightarrow> ('k, 'v) DenseMap option" where
  "dm_reserve I n m = do {
     b \<leftarrow> getMinBucketToReserveForEntries n;
     if b > NumBuckets m then grow I b m else Some m
   }"

section \<open>Insertion and removal\<close>

definition InsertIntoBucketImpl :: "'k dense_info \<Rightarrow> 'k \<Rightarrow> nat option \<Rightarrow> ('k, 'v) DenseMap \<Rightarrow> (nat \<times> ('k, 'v) DenseMap) option" where
  "InsertIntoBucketImpl I lookup b m = do {
     let new_entries = NumEntries m + 1;
     let n = NumBuckets m;
     (b, m) \<leftarrow> (if new_entries * 4 \<ge> n * 3 then do {
         m \<leftarrow> grow I (n * 2) m;
         (_, b) \<leftarrow> LookupBucketFor I lookup m;
         Some (b, m)
       } else if n - (new_entries + NumTombstones m) \<le> n div 8 then do {
         m \<leftarrow> grow I n m;
         (_, b) \<leftarrow> LookupBucketFor I lookup m;
         Some (b, m)
       } else Some (b, m));
     i \<leftarrow> b;
     let m = m\<lparr>NumEntries := NumEntries m + 1\<rparr>;
     Some (i, if fst (Buckets m ! i) \<noteq> getEmptyKey I then m\<lparr>NumTombstones := NumTombstones m - 1\<rparr> else m)
   }"

definition InsertIntoBucket :: "'k dense_info \<Rightarrow> nat option \<Rightarrow> 'k \<Rightarrow> 'v \<Rightarrow> ('k, 'v) DenseMap \<Rightarrow> (nat \<times> ('k, 'v) DenseMap) option" where
  "InsertIntoBucket I b key v m = do {
     (i, m) \<leftarrow> InsertIntoBucketImpl I key b m;
     Some (i, set_bucket i (key, Some v) m)
   }"

definition try_emplace :: "'k dense_info \<Rightarrow> 'k \<Rightarrow> 'v \<Rightarrow> ('k, 'v) DenseMap \<Rightarrow> ((nat \<times> bool) \<times> ('k, 'v) DenseMap) option" where
  "try_emplace I key v m = do {
     (found, b) \<leftarrow> LookupBucketFor I key m;
     if found then do { i \<leftarrow> b; Some ((i, False), m) }
     else do {
       (i, m) \<leftarrow> InsertIntoBucket I b key v m;
       Some ((i, True), m)
     }
   }"

definition dm_insert :: "'k dense_info \<Rightarrow> 'k \<times> 'v \<Rightarrow> ('k, 'v) DenseMap \<Rightarrow> ((nat \<times> bool) \<times> ('k, 'v) DenseMap) option" where
  "dm_insert I kv m = try_emplace I (fst kv) (snd kv) m"

definition FindAndConstruct :: "'k dense_info \<Rightarrow> 'v \<Rightarrow> 'k \<Rightarrow> ('k, 'v) DenseMap \<Rightarrow> (nat \<times> ('k, 'v) DenseMap) option" where
  "FindAndConstruct I dflt key m = do {
     (found, b) \<leftarrow> LookupBucketFor I key m;
     if found then do { i \<leftarrow> b; Some (i, m) }
     else InsertIntoBucket I b key dflt m
   }"

text \<open>An assignment \<open>m[key] = v\<close> through the reference that \<^verbatim>\<open>operator[]\<close> returns.\<close>

definition dm_assign :: "'k dense_info \<Rightarrow> 'v \<Rightarrow> 'k \<Rightarrow> 'v \<Rightarrow> ('k, 'v) DenseMap \<Rightarrow> ('k, 'v) DenseMap option" where
  "dm_assign I dflt key v m = do {
     (i, m) \<leftarrow> FindAndConstruct I dflt key m;
     Some (set_bucket i (fst (Buckets m ! i), Some v) m)
   }"

definition erase_bucket :: "'k dense_info \<Rightarrow> nat \<Rightarrow> ('k, 'v) DenseMap \<Rightarrow> ('k, 'v) DenseMap" where
  "erase_bucket I i m = (set_bucket i (getTombstoneKey I, None) m)\<lparr>NumEntries := NumEntries m - 1, NumTombstones := NumTombstones m + 1\<rparr>"

definition dm_erase :: "'k dense_info \<Rightarrow> 'k \<Rightarrow> ('k, 'v) DenseMap \<Rightarrow> (bool \<times> ('k, 'v) DenseMap) option" where
  "dm_erase I val m = do {
     b \<leftarrow> doFind I val m;
     Some (case b of None \<Rightarrow> (False, m) | Some i \<Rightarrow> (True, erase_bucket I i m))
   }"

text \<open>\<open>trivial\<close> says whether the values are trivially destructible.\<close>

fun clear_buckets :: "'k dense_info \<Rightarrow> ('k, 'v) dense_bucket list \<Rightarrow> u32 \<Rightarrow> ('k, 'v) dense_bucket list \<times> u32" where
  "clear_buckets I [] n = ([], n)"
| "clear_buckets I ((k, v) # bs) n =
     (if k \<noteq> getEmptyKey I then
        if k \<noteq> getTombstoneKey I then let (bs, n) = clear_buckets I bs (n - 1) in ((getEmptyKey I, None) # bs, n)
        else let (bs, n) = clear_buckets I bs n in ((getEmptyKey I, v) # bs, n)
      else let (bs, n) = clear_buckets I bs n in ((k, v) # bs, n))"

definition dm_clear :: "bool \<Rightarrow> 'k dense_info \<Rightarrow> ('k, 'v) DenseMap \<Rightarrow> ('k, 'v) DenseMap option" where
  "dm_clear trivial I m =
     (if NumEntries m = 0 \<and> NumTombstones m = 0 then Some m
      else do {
        bs \<leftarrow> (if trivial then Some (map (\<lambda>(k, v). (getEmptyKey I, v)) (Buckets m))
               else do {
                 let (bs, n) = clear_buckets I (Buckets m) (NumEntries m);
                 CHECK (n = 0);
                 Some bs
               });
        Some (m\<lparr>Buckets := bs, NumEntries := 0, NumTombstones := 0\<rparr>)
      })"

section \<open>Iteration, copying and comparison\<close>

fun forEach :: "'k dense_info \<Rightarrow> ('k \<Rightarrow> 'v option \<Rightarrow> 's \<Rightarrow> (bool \<times> 's) option) \<Rightarrow> ('k, 'v) dense_bucket list \<Rightarrow> 's \<Rightarrow> 's option" where
  "forEach I fn [] s = Some s"
| "forEach I fn ((k, v) # bs) s =
     (if is_live I k then do {
        (go, s) \<leftarrow> fn k v s;
        if go then forEach I fn bs s else Some s
      } else forEach I fn bs s)"

definition dm_forEach :: "'k dense_info \<Rightarrow> ('k \<Rightarrow> 'v option \<Rightarrow> 's \<Rightarrow> (bool \<times> 's) option) \<Rightarrow> ('k, 'v) DenseMap \<Rightarrow> 's \<Rightarrow> 's option" where
  "dm_forEach I fn m s = forEach I fn (Buckets m) s"

text \<open>Copying; the base class copies the keys of all buckets and the values of those with an entry (for trivial types, all bytes).\<close>

definition base_copyFrom :: "bool \<Rightarrow> 'k dense_info \<Rightarrow> ('k, 'v) DenseMap \<Rightarrow> ('k, 'v) DenseMap \<Rightarrow> ('k, 'v) DenseMap option" where
  "base_copyFrom trivial I other m = do {
     CHECK (NumBuckets m = NumBuckets other);
     let m = m\<lparr>NumEntries := NumEntries other, NumTombstones := NumTombstones other\<rparr>;
     Some (m\<lparr>Buckets :=
       if trivial then Buckets other
       else map (\<lambda>((_, old), (k, v)). (k, if is_live I k then v else old)) (zip (Buckets m) (Buckets other))\<rparr>)
   }"

definition dm_copyFrom :: "bool \<Rightarrow> 'k dense_info \<Rightarrow> ('k, 'v) DenseMap \<Rightarrow> ('k, 'v) DenseMap \<Rightarrow> ('k, 'v) DenseMap option" where
  "dm_copyFrom trivial I other m = do {
     (ok, m) \<leftarrow> allocateBuckets I (NumBuckets other) m;
     if ok then base_copyFrom trivial I other m else Some (m\<lparr>NumEntries := 0, NumTombstones := 0\<rparr>)
   }"

definition dm_swap :: "('k, 'v) DenseMap \<Rightarrow> ('k, 'v) DenseMap \<Rightarrow> ('k, 'v) DenseMap \<times> ('k, 'v) DenseMap" where
  "dm_swap l r =
     (l\<lparr>Buckets := Buckets r, NumEntries := NumEntries r, NumTombstones := NumTombstones r, NumBuckets := NumBuckets r\<rparr>,
      r\<lparr>Buckets := Buckets l, NumEntries := NumEntries l, NumTombstones := NumTombstones l, NumBuckets := NumBuckets l\<rparr>)"

definition eq_step :: "'k dense_info \<Rightarrow> ('k, 'v) DenseMap \<Rightarrow> 'k \<Rightarrow> 'v option \<Rightarrow> bool \<Rightarrow> (bool \<times> bool) option" where
  "eq_step I rhs k v r = do {
     b \<leftarrow> doFind I k rhs;
     (case b of
        None \<Rightarrow> Some (False, False)
      | Some i \<Rightarrow> if snd (Buckets rhs ! i) \<noteq> v then Some (False, False) else Some (True, r))
   }"

definition dm_eq :: "'k dense_info \<Rightarrow> ('k, 'v) DenseMap \<Rightarrow> ('k, 'v) DenseMap \<Rightarrow> bool option" where
  "dm_eq I lhs rhs =
     (if NumEntries lhs \<noteq> NumEntries rhs then Some False
      else dm_forEach I (eq_step I rhs) lhs True)"

definition getMemorySize :: "'k dense_info \<Rightarrow> ('k, 'v) DenseMap \<Rightarrow> uptr option" where
  "getMemorySize I m = RoundUpTo (ucast (NumBuckets m) * sizeof_BucketT I) (GetPageSizeCached I)"

end
