(* ===== verification/Dense_Map_Proofs.thy ===== *)
theory Dense_Map_Proofs
  imports Dense_Map
begin

text \<open>
  The dense map as a finite map. Triangular probing visits every bucket, so a lookup ends as long as one bucket was never used; the
  rule for growing keeps such a bucket, and the operations refine those of a map.
\<close>

section \<open>Triangular probing\<close>

definition tri :: "nat \<Rightarrow> nat" where "tri i = i * (i + 1) div 2"

lemma tri_double: "2 * tri i = i * (i + 1)"
  unfolding tri_def by (rule dvd_mult_div_cancel) (cases "even i"; simp)

lemma tri_0 [simp]: "tri 0 = 0" by (simp add: tri_def)

lemma tri_Suc [simp]: "tri (Suc i) = tri i + Suc i"
  using tri_double [of i] tri_double [of "Suc i"] by (simp add: algebra_simps)

lemma odd_factor_dvd:
  assumes "2 ^ n dvd a * b" and "odd (a + b)"
  shows "2 ^ n dvd a \<or> 2 ^ n dvd (b::nat)"
proof (cases "odd a")
  case True
  then have "coprime (2 ^ n) a" by simp
  then show ?thesis using assms(1) by (simp add: coprime_dvd_mult_right_iff)
next
  case False
  with assms(2) have "coprime (2 ^ n) b" by simp
  then show ?thesis using assms(1) by (simp add: coprime_dvd_mult_left_iff)
qed

lemma tri_inj:
  assumes "i < j" and "j < 2 ^ k" and "(h + tri i) mod 2 ^ k = (h + tri j) mod 2 ^ k"
  shows False
proof -
  have le: "h + tri i \<le> h + tri j" using tri_double [of i] tri_double [of j] assms(1)
    by (metis add_left_mono le_add1 less_imp_le_nat mult_le_mono mult_le_cancel1 add_le_mono1 zero_less_numeral)
  have "2 ^ k dvd (h + tri j) - (h + tri i)" using assms(3) le by (metis mod_eq_dvd_iff_nat)
  then have "2 ^ Suc k dvd 2 * (tri j - tri i)" by (simp add: mult_dvd_mono)
  also have "2 * (tri j - tri i) = (j - i) * (i + j + 1)"
  proof -
    obtain d where d: "j = i + d" using assms(1) less_imp_add_positive by blast
    show ?thesis unfolding diff_mult_distrib2 tri_double d by (simp add: algebra_simps)
  qed
  finally have "2 ^ Suc k dvd (j - i) * (i + j + 1)" .
  moreover have "odd ((j - i) + (i + j + 1))" using assms(1) by simp
  ultimately consider "2 ^ Suc k dvd j - i" | "2 ^ Suc k dvd i + j + 1" using odd_factor_dvd by blast
  then show False
  proof cases
    case 1
    then have "2 ^ Suc k \<le> j - i" using assms(1) by (simp add: dvd_imp_le)
    with assms(2) show False by simp
  next
    case 2
    then have "2 ^ Suc k \<le> i + j + 1" by (simp add: dvd_imp_le)
    with assms(1,2) show False by simp
  qed
qed

definition pos :: "nat \<Rightarrow> u32 \<Rightarrow> nat \<Rightarrow> nat" where
  "pos n h i = (unat h + tri i) mod n"

lemma pos_less [simp]: "0 < n \<Longrightarrow> pos n h i < n" by (simp add: pos_def)

lemma pos_not_ge [simp]: "\<not> 2 ^ k \<le> pos (2 ^ k) h i" by (simp add: not_le)

lemma probing_visits_all:
  assumes "j < 2 ^ k"
  obtains i where "i < 2 ^ k" and "pos (2 ^ k) h i = j"
proof -
  let ?S = "{..<2 ^ k :: nat}"
  have "inj_on (pos (2 ^ k) h) ?S"
    by (rule linorder_inj_onI) (auto simp: pos_def dest: tri_inj)
  moreover have "pos (2 ^ k) h ` ?S \<subseteq> ?S" by (auto simp: pos_def)
  ultimately have "pos (2 ^ k) h ` ?S = ?S" by (simp add: endo_inj_surj)
  with assms that show ?thesis by (metis imageE lessThan_iff)
qed

text \<open>The loop variables of the code after \<open>i\<close> probes.\<close>

lemma unat_exp32: "k < 32 \<Longrightarrow> unat (2 ^ k :: u32) = 2 ^ k"
proof -
  assume k: "k < 32"
  have "unat (of_nat (2 ^ k) :: u32) = 2 ^ k mod 2 ^ 32" unfolding unat_of_nat by simp
  moreover have "(2::nat) ^ k < 2 ^ 32" using k by (intro power_strict_increasing) simp_all
  ultimately show ?thesis by simp
qed

lemma unat_and_mask32: "k < 32 \<Longrightarrow> unat (x AND (2 ^ k - 1)) = unat (x :: u32) mod 2 ^ k"
  by (simp flip: mask_eq_exp_minus_1 add: unat_and_mask)

lemma pos_start: "k < 32 \<Longrightarrow> unat (h AND (2 ^ k - 1)) = pos (2 ^ k) h 0"
  by (simp add: unat_and_mask32 pos_def)

lemma pos_step:
  assumes k: "k < 32" and b: "unat (b :: u32) = pos (2 ^ k) h i"
  shows "unat ((b + of_nat (Suc i)) AND (2 ^ k - 1)) = pos (2 ^ k) h (Suc i)"
proof -
  have d: "(2::nat) ^ k dvd 2 ^ 32" using k by (intro le_imp_power_dvd) simp
  have "unat (b + of_nat (Suc i)) mod 2 ^ k = (unat b + Suc i) mod 2 ^ k"
    using d by (simp add: unat_word_ariths unat_of_nat mod_mod_cancel mod_add_right_eq del: of_nat_Suc)
  also have "\<dots> = (unat h + tri (Suc i)) mod 2 ^ k" unfolding b pos_def using mod_add_left_eq [of "unat h + tri i" "2 ^ k" "Suc i"] by (simp add: add.assoc)
  finally show ?thesis using unat_and_mask32 [OF k] by (simp add: pos_def)
qed

section \<open>The invariant\<close>

text \<open>What the code relies on: the reserved keys differ, and the sizes are those of real buckets and pages.\<close>

definition info_ok :: "'k dense_info \<Rightarrow> bool" where
  "info_ok I \<longleftrightarrow> getEmptyKey I \<noteq> getTombstoneKey I \<and> 0 < sizeof_BucketT I \<and> sizeof_BucketT I \<le> 2 ^ 16 \<and>
     (\<exists>p\<le>16. GetPageSizeCached I = 2 ^ p)"

text \<open>The bucket at \<open>j\<close> is on the probe sequence of key \<open>k\<close>, before any empty bucket.\<close>

definition reaches :: "'k dense_info \<Rightarrow> ('k, 'v) dense_bucket list \<Rightarrow> 'k \<Rightarrow> nat \<Rightarrow> bool" where
  "reaches I bs k j \<longleftrightarrow> (\<exists>i. pos (length bs) (getHashValue I k) i = j \<and>
     (\<forall>i'<i. fst (bs ! pos (length bs) (getHashValue I k) i') \<noteq> getEmptyKey I))"

definition table_ok :: "'k dense_info \<Rightarrow> ('k, 'v) dense_bucket list \<Rightarrow> bool" where
  "table_ok I bs \<longleftrightarrow>
     (\<exists>k<31. length bs = 2 ^ k) \<and>
     (\<exists>j<length bs. fst (bs ! j) = getEmptyKey I) \<and>
     (\<forall>i<length bs. \<forall>j<length bs. is_live I (fst (bs ! i)) \<and> fst (bs ! i) = fst (bs ! j) \<longrightarrow> i = j) \<and>
     (\<forall>j<length bs. is_live I (fst (bs ! j)) \<longrightarrow> snd (bs ! j) \<noteq> None \<and> reaches I bs (fst (bs ! j)) j)"

lemma table_unique: "table_ok I bs \<Longrightarrow> i < length bs \<Longrightarrow> j < length bs \<Longrightarrow> is_live I (fst (bs ! i)) \<Longrightarrow> fst (bs ! i) = fst (bs ! j) \<Longrightarrow> i = j"
  by (simp add: table_ok_def)

text \<open>The first probe that ends a search.\<close>

lemma search_ends:
  assumes "table_ok I bs"
  obtains i0 where "i0 < length bs"
    and "fst (bs ! pos (length bs) h i0) = val \<or> fst (bs ! pos (length bs) h i0) = getEmptyKey I"
    and "\<forall>i<i0. fst (bs ! pos (length bs) h i) \<noteq> val \<and> fst (bs ! pos (length bs) h i) \<noteq> getEmptyKey I"
proof -
  let ?P = "\<lambda>i. fst (bs ! pos (length bs) h i) = val \<or> fst (bs ! pos (length bs) h i) = getEmptyKey I"
  obtain k j where k: "length bs = 2 ^ k" and j: "j < length bs" "fst (bs ! j) = getEmptyKey I"
    using assms by (auto simp: table_ok_def)
  obtain i where i: "i < length bs" "pos (length bs) h i = j" using probing_visits_all [of j k h] j(1) k by auto
  then have "?P i" using j(2) by simp
  with that [of "LEAST i. ?P i"] i(1) LeastI [of ?P i] not_less_Least [of _ ?P] Least_le [of ?P i] show ?thesis
    by (meson le_less_trans)
qed

lemma find_loop_at:
  assumes "length bs = 2 ^ k" and "k < 32"
    and "fst (bs ! pos (length bs) h i0) = val \<or> fst (bs ! pos (length bs) h i0) = getEmptyKey I"
    and "\<forall>i<i0. fst (bs ! pos (length bs) h i) \<noteq> val \<and> fst (bs ! pos (length bs) h i) \<noteq> getEmptyKey I"
    and "i \<le> i0" and "unat b = pos (length bs) h i"
  shows "find_loop I bs (2 ^ k) val b (of_nat (Suc i)) =
    Some (if fst (bs ! pos (length bs) h i0) = val then Some (pos (length bs) h i0) else None)"
  using assms(5,6)
proof (induction "i0 - i" arbitrary: i b)
  case 0
  then have "i = i0" by simp
  then show ?case using 0 assms(1,3) by (subst find_loop.simps) auto
next
  case (Suc d)
  then have "i < i0" by simp
  have "find_loop I bs (2 ^ k) val ((b + of_nat (Suc i)) AND (2 ^ k - 1)) (of_nat (Suc (Suc i))) =
      Some (if fst (bs ! pos (length bs) h i0) = val then Some (pos (length bs) h i0) else None)"
    using Suc pos_step [OF assms(2), of b h i] assms(1) by (intro Suc.hyps) auto
  then show ?case using assms(1,4) \<open>i < i0\<close> Suc.prems
    by (subst find_loop.simps) (auto simp: add.commute)
qed

lemma lookup_loop_at:
  assumes "length bs = 2 ^ k" and "k < 32"
    and "fst (bs ! pos (length bs) h i0) = val \<or> fst (bs ! pos (length bs) h i0) = getEmptyKey I"
    and "\<forall>i<i0. fst (bs ! pos (length bs) h i) \<noteq> val \<and> fst (bs ! pos (length bs) h i) \<noteq> getEmptyKey I"
    and "i \<le> i0" and "unat b = pos (length bs) h i"
  shows "\<exists>f j. lookup_loop I bs (2 ^ k) val b (of_nat (Suc i)) tomb = Some (f, Some j) \<and>
    (if fst (bs ! pos (length bs) h i0) = val then f \<and> j = pos (length bs) h i0
     else \<not> f \<and> (case tomb of Some t \<Rightarrow> j = t
       | None \<Rightarrow> (\<exists>i1\<le>i0. j = pos (length bs) h i1 \<and> fst (bs ! j) \<in> {getEmptyKey I, getTombstoneKey I})))"
  using assms(5,6)
proof (induction "i0 - i" arbitrary: i b tomb)
  case 0
  then have "i = i0" by simp
  then show ?case using 0 assms(1,3) by (subst lookup_loop.simps) (auto split: option.split)
next
  case (Suc d)
  then have lt: "i < i0" by simp
  let ?t = "if fst (bs ! unat b) = getTombstoneKey I \<and> tomb = None then Some (unat b) else tomb"
  have "\<exists>f j. lookup_loop I bs (2 ^ k) val ((b + of_nat (Suc i)) AND (2 ^ k - 1)) (of_nat (Suc (Suc i))) ?t = Some (f, Some j) \<and>
    (if fst (bs ! pos (length bs) h i0) = val then f \<and> j = pos (length bs) h i0
     else \<not> f \<and> (case ?t of Some t \<Rightarrow> j = t
       | None \<Rightarrow> (\<exists>i1\<le>i0. j = pos (length bs) h i1 \<and> fst (bs ! j) \<in> {getEmptyKey I, getTombstoneKey I})))"
    using Suc pos_step [OF assms(2), of b h i] assms(1) by (intro Suc.hyps) auto
  then obtain f j where fj: "lookup_loop I bs (2 ^ k) val ((b + of_nat (Suc i)) AND (2 ^ k - 1)) (of_nat (Suc (Suc i))) ?t = Some (f, Some j)"
    and j: "if fst (bs ! pos (length bs) h i0) = val then f \<and> j = pos (length bs) h i0
     else \<not> f \<and> (case ?t of Some t \<Rightarrow> j = t
       | None \<Rightarrow> (\<exists>i1\<le>i0. j = pos (length bs) h i1 \<and> fst (bs ! j) \<in> {getEmptyKey I, getTombstoneKey I}))" by blast
  have "lookup_loop I bs (2 ^ k) val b (of_nat (Suc i)) tomb = Some (f, Some j)"
    using assms(1,4) lt Suc.prems fj by (subst lookup_loop.simps) (auto simp: add.commute)
  moreover have "if fst (bs ! pos (length bs) h i0) = val then f \<and> j = pos (length bs) h i0
     else \<not> f \<and> (case tomb of Some t \<Rightarrow> j = t
       | None \<Rightarrow> (\<exists>i1\<le>i0. j = pos (length bs) h i1 \<and> fst (bs ! j) \<in> {getEmptyKey I, getTombstoneKey I}))"
    using j lt Suc.prems by (auto split: if_splits option.splits intro: less_imp_le)
  ultimately show ?case by blast
qed

definition buckets_ok :: "'k dense_info \<Rightarrow> ('k, 'v) DenseMap \<Rightarrow> bool" where
  "buckets_ok I m \<longleftrightarrow> unat (NumBuckets m) = length (Buckets m) \<and> (Buckets m \<noteq> [] \<longrightarrow> table_ok I (Buckets m))"

lemma buckets_okD:
  assumes "buckets_ok I m" and "NumBuckets m \<noteq> 0"
  obtains k where "k < 31" and "NumBuckets m = 2 ^ k" and "length (Buckets m) = 2 ^ k" and "table_ok I (Buckets m)"
proof -
  have t: "table_ok I (Buckets m)" using assms by (auto simp: buckets_ok_def unat_eq_0)
  then obtain k where k: "k < 31" "length (Buckets m) = 2 ^ k" by (auto simp: table_ok_def)
  then have "NumBuckets m = 2 ^ k" using assms(1) by (simp add: word_unat_eq_iff buckets_ok_def unat_exp32)
  with that k t show ?thesis by blast
qed

text \<open>A search, for either loop.\<close>

lemma present_at_first:
  assumes "table_ok I bs" and "is_live I val" and "j < length bs" and "fst (bs ! j) = val"
    and "fst (bs ! pos (length bs) (getHashValue I val) i0) = val \<or> fst (bs ! pos (length bs) (getHashValue I val) i0) = getEmptyKey I"
    and "\<forall>i<i0. fst (bs ! pos (length bs) (getHashValue I val) i) \<noteq> val \<and> fst (bs ! pos (length bs) (getHashValue I val) i) \<noteq> getEmptyKey I"
  shows "pos (length bs) (getHashValue I val) i0 = j"
proof -
  obtain i where i: "pos (length bs) (getHashValue I val) i = j"
    "\<forall>i'<i. fst (bs ! pos (length bs) (getHashValue I val) i') \<noteq> getEmptyKey I"
    using assms(1-4) by (auto simp: table_ok_def reaches_def)
  have "i0 \<le> i" using i(1) assms(4,6) by (meson not_le)
  then have "fst (bs ! pos (length bs) (getHashValue I val) i0) = val"
    using i assms(2,4,5) by (cases "i0 = i") auto
  moreover have "pos (length bs) (getHashValue I val) i0 < length bs" using assms(3) by (intro pos_less) auto
  ultimately show ?thesis using table_unique [OF assms(1) assms(3), of "pos (length bs) (getHashValue I val) i0"] assms(2,4) by simp
qed

lemma doFind_ok:
  assumes "buckets_ok I m" and "is_live I val"
  obtains (present) j where "doFind I val m = Some (Some j)" and "j < length (Buckets m)" and "fst (Buckets m ! j) = val"
  | (absent) "doFind I val m = Some None" and "\<forall>j<length (Buckets m). fst (Buckets m ! j) \<noteq> val"
proof (cases "NumBuckets m = 0")
  case True
  then show ?thesis using absent assms(1) by (simp add: doFind_def buckets_ok_def)
next
  case False
  then obtain k where k: "k < 31" "NumBuckets m = 2 ^ k" "length (Buckets m) = 2 ^ k" "table_ok I (Buckets m)"
    using buckets_okD [OF assms(1)] by blast
  let ?bs = "Buckets m" and ?h = "getHashValue I val"
  obtain i0 where i0: "fst (?bs ! pos (length ?bs) ?h i0) = val \<or> fst (?bs ! pos (length ?bs) ?h i0) = getEmptyKey I"
    "\<forall>i<i0. fst (?bs ! pos (length ?bs) ?h i) \<noteq> val \<and> fst (?bs ! pos (length ?bs) ?h i) \<noteq> getEmptyKey I"
    by (rule search_ends [OF k(4)])
  have e: "doFind I val m = Some (if fst (?bs ! pos (length ?bs) ?h i0) = val then Some (pos (length ?bs) ?h i0) else None)"
    using find_loop_at [OF k(3) _ i0, of 0 "?h AND (2 ^ k - 1)"] pos_start [of k ?h] k False by (simp add: doFind_def)
  show ?thesis
  proof (cases "fst (?bs ! pos (length ?bs) ?h i0) = val")
    case True
    then show ?thesis using present [of "pos (length ?bs) ?h i0"] e k(3) by simp
  next
    case False
    have "fst (?bs ! j) \<noteq> val" if "j < length ?bs" for j using present_at_first [OF k(4) assms(2) that _ i0] False by metis
    then show ?thesis using absent e False by simp
  qed
qed

lemma LookupBucketFor_ok:
  assumes "buckets_ok I m" and "is_live I val" and "NumBuckets m \<noteq> 0"
  obtains (present) j where "LookupBucketFor I val m = Some (True, Some j)" and "j < length (Buckets m)" and "fst (Buckets m ! j) = val"
  | (absent) j where "LookupBucketFor I val m = Some (False, Some j)" and "j < length (Buckets m)"
      and "fst (Buckets m ! j) \<in> {getEmptyKey I, getTombstoneKey I}" and "reaches I (Buckets m) val j"
      and "\<forall>j<length (Buckets m). fst (Buckets m ! j) \<noteq> val"
proof -
  obtain k where k: "k < 31" "NumBuckets m = 2 ^ k" "length (Buckets m) = 2 ^ k" "table_ok I (Buckets m)"
    using buckets_okD [OF assms(1,3)] by blast
  let ?bs = "Buckets m" and ?h = "getHashValue I val"
  obtain i0 where i0: "fst (?bs ! pos (length ?bs) ?h i0) = val \<or> fst (?bs ! pos (length ?bs) ?h i0) = getEmptyKey I"
    "\<forall>i<i0. fst (?bs ! pos (length ?bs) ?h i) \<noteq> val \<and> fst (?bs ! pos (length ?bs) ?h i) \<noteq> getEmptyKey I"
    by (rule search_ends [OF k(4)])
  have k32: "k < 32" and le0: "0 \<le> i0" and st: "unat (?h AND (2 ^ k - 1)) = pos (length ?bs) ?h 0"
    using k(1,3) pos_start [of k ?h] by simp_all
  have e: "LookupBucketFor I val m = lookup_loop I ?bs (2 ^ k) val (?h AND (2 ^ k - 1)) (of_nat (Suc 0)) None"
    using k(2) assms(2,3) by (simp add: LookupBucketFor_def is_live_def)
  have "\<exists>f j. LookupBucketFor I val m = Some (f, Some j) \<and>
    (if fst (?bs ! pos (length ?bs) ?h i0) = val then f \<and> j = pos (length ?bs) ?h i0
     else \<not> f \<and> (\<exists>i1\<le>i0. j = pos (length ?bs) ?h i1 \<and> fst (?bs ! j) \<in> {getEmptyKey I, getTombstoneKey I}))"
    using lookup_loop_at [OF k(3) k32 i0 le0 st, of None] unfolding e option.case .
  then obtain f j where fj: "LookupBucketFor I val m = Some (f, Some j)"
    and j: "if fst (?bs ! pos (length ?bs) ?h i0) = val then f \<and> j = pos (length ?bs) ?h i0
     else \<not> f \<and> (\<exists>i1\<le>i0. j = pos (length ?bs) ?h i1 \<and> fst (?bs ! j) \<in> {getEmptyKey I, getTombstoneKey I})" by blast
  show ?thesis
  proof (cases "fst (?bs ! pos (length ?bs) ?h i0) = val")
    case True
    then show ?thesis using present [of j] fj j k(3) by simp
  next
    case False
    then obtain i1 where i1: "i1 \<le> i0" "j = pos (length ?bs) ?h i1" "fst (?bs ! j) \<in> {getEmptyKey I, getTombstoneKey I}" "\<not> f" using j by auto
    have "reaches I ?bs val j" unfolding reaches_def using i1(1,2) i0(2) by (intro exI [of _ i1]) auto
    moreover have "fst (?bs ! j) \<noteq> val" if "j < length ?bs" for j using present_at_first [OF k(4) assms(2) that _ i0] False by metis
    ultimately show ?thesis using absent [of j] fj i1 k(3) by simp
  qed
qed

section \<open>Changing one bucket\<close>

definition tbl_map :: "'k dense_info \<Rightarrow> ('k, 'v) dense_bucket list \<Rightarrow> 'k \<Rightarrow> 'v option" where
  "tbl_map I bs k = (if is_live I k then (case find (\<lambda>b. fst b = k) bs of Some b \<Rightarrow> snd b | None \<Rightarrow> None) else None)"

definition live_count :: "'k dense_info \<Rightarrow> ('k, 'v) dense_bucket list \<Rightarrow> nat" where
  "live_count I bs = length (filter (\<lambda>b. is_live I (fst b)) bs)"

definition key_count :: "'k \<Rightarrow> ('k, 'v) dense_bucket list \<Rightarrow> nat" where
  "key_count k bs = length (filter (\<lambda>b. fst b = k) bs)"

lemma live_count_update: "i < length bs \<Longrightarrow> live_count I (bs[i := b]) + of_bool (is_live I (fst (bs ! i))) = live_count I bs + of_bool (is_live I (fst b))"
  unfolding live_count_def of_bool_def by (rule length_filter_update)

lemma key_count_update: "i < length bs \<Longrightarrow> key_count k (bs[i := b]) + of_bool (fst (bs ! i) = k) = key_count k bs + of_bool (fst b = k)"
  unfolding key_count_def of_bool_def by (rule length_filter_update)

lemma key_count_pos: "0 < key_count k bs \<longleftrightarrow> (\<exists>j<length bs. fst (bs ! j) = k)"
  unfolding key_count_def length_greater_0_conv filter_empty_conv by (metis in_set_conv_nth)

lemma counts_add:
  assumes "getEmptyKey I \<noteq> getTombstoneKey I"
  shows "live_count I bs + key_count (getTombstoneKey I) bs + key_count (getEmptyKey I) bs = length bs"
  using assms by (induction bs) (auto simp: live_count_def key_count_def is_live_def)

lemma tbl_map_at:
  assumes "table_ok I bs" and "j < length bs" and "fst (bs ! j) = k" and "is_live I k"
  shows "tbl_map I bs k = snd (bs ! j)"
proof -
  have "fst (bs ! i) \<noteq> k" if "i < j" for i using table_unique [OF assms(1,2), of i] assms(2-4) that by auto
  then have "find (\<lambda>b. fst b = k) bs = Some (bs ! j)" unfolding find_Some_iff using assms(2,3) by blast
  then show ?thesis using assms(4) by (simp add: tbl_map_def)
qed

lemma tbl_map_absent:
  assumes "\<forall>j<length bs. fst (bs ! j) \<noteq> k"
  shows "tbl_map I bs k = None"
proof -
  have "find (\<lambda>b. fst b = k) bs = None" using assms by (auto simp: find_None_iff in_set_conv_nth)
  then show ?thesis by (simp add: tbl_map_def)
qed

lemma tbl_map_Some_iff:
  assumes "table_ok I bs"
  shows "tbl_map I bs k = Some v \<longleftrightarrow> is_live I k \<and> (\<exists>j<length bs. bs ! j = (k, Some v))"
proof (cases "is_live I k \<and> (\<exists>j<length bs. fst (bs ! j) = k)")
  case True
  then obtain j where j: "is_live I k" "j < length bs" "fst (bs ! j) = k" by blast
  have "(\<exists>i<length bs. bs ! i = (k, Some v)) \<longleftrightarrow> bs ! j = (k, Some v)"
    using table_unique [OF assms j(2)] j by (metis fst_conv)
  then show ?thesis using tbl_map_at [OF assms j(2,3,1)] j(1,3) by (cases "bs ! j") simp
next
  case False
  then have "tbl_map I bs k = None" using tbl_map_absent [of bs k I] by (auto simp: tbl_map_def)
  then show ?thesis using False by auto
qed

lemma reaches_update:
  assumes "reaches I bs k j'" and "x \<noteq> getEmptyKey I"
  shows "reaches I (bs[j := (x, v)]) k j'"
proof -
  obtain i where i: "pos (length bs) (getHashValue I k) i = j'"
    "\<forall>i'<i. fst (bs ! pos (length bs) (getHashValue I k) i') \<noteq> getEmptyKey I" using assms(1) by (auto simp: reaches_def)
  have "fst (bs[j := (x, v)] ! p) \<noteq> getEmptyKey I" if "fst (bs ! p) \<noteq> getEmptyKey I" for p
    using that assms(2) by (cases "p = j \<and> j < length bs") (auto simp: nth_list_update list_update_beyond not_less)
  then show ?thesis unfolding reaches_def using i by (intro exI [of _ i]) simp
qed

text \<open>Putting a key that is not a duplicate, not reserved as empty, into a bucket, as long as another bucket stays empty.\<close>

lemma table_update:
  assumes t: "table_ok I bs" and j: "j < length bs" and x: "x \<noteq> getEmptyKey I"
    and e: "\<exists>j'<length bs. j' \<noteq> j \<and> fst (bs ! j') = getEmptyKey I"
    and live: "is_live I x \<Longrightarrow> v \<noteq> None \<and> reaches I bs x j \<and> (\<forall>j'<length bs. fst (bs ! j') = x \<longrightarrow> j' = j)"
  shows "table_ok I (bs[j := (x, v)])"
proof -
  let ?bs = "bs[j := (x, v)]"
  have u: "i = i'" if i: "i < length bs" "i' < length bs" "is_live I (fst (?bs ! i))" "fst (?bs ! i) = fst (?bs ! i')" for i i'
  proof -
    consider "i = j" | "i \<noteq> j" "i' = j" | "i \<noteq> j" "i' \<noteq> j" by blast
    then show ?thesis
    proof cases
      case 1
      then have "is_live I x" "i' \<noteq> j \<Longrightarrow> fst (bs ! i') = x" using i j by auto
      then show ?thesis using live 1 i(2) by blast
    next
      case 2
      then have "is_live I x" "fst (bs ! i) = x" using i j by auto
      then show ?thesis using live 2 i(1) by blast
    next
      case 3
      then show ?thesis using table_unique [OF t i(1,2)] i(3,4) by simp
    qed
  qed
  have r: "snd (?bs ! i) \<noteq> None \<and> reaches I ?bs (fst (?bs ! i)) i" if i: "i < length bs" "is_live I (fst (?bs ! i))" for i
  proof (cases "i = j")
    case True
    then have "is_live I x" using i j by simp
    then have "v \<noteq> None" "reaches I bs x j" using live by auto
    then show ?thesis using True j reaches_update [OF \<open>reaches I bs x j\<close> x] by simp
  next
    case False
    then have "snd (bs ! i) \<noteq> None" and ri: "reaches I bs (fst (bs ! i)) i" using i t by (simp_all add: table_ok_def)
    then show ?thesis using False reaches_update [OF ri x] by simp
  qed
  show ?thesis unfolding table_ok_def
  proof (intro conjI allI impI)
    show "\<exists>k<31. length ?bs = 2 ^ k" using t by (simp add: table_ok_def)
    show "\<exists>j<length ?bs. fst (?bs ! j) = getEmptyKey I" using e by (metis length_list_update nth_list_update_neq)
  qed (use u r in auto)
qed

lemma tbl_map_update_other:
  assumes "table_ok I bs" and "table_ok I (bs[j := (x, v)])" and "j < length bs" and "k \<noteq> x" and "k \<noteq> fst (bs ! j)"
  shows "tbl_map I (bs[j := (x, v)]) k = tbl_map I bs k"
proof -
  have e: "(bs[j := (x, v)] ! i = (k, Some w)) = (bs ! i = (k, Some w))" for i w
    using assms(3-5) by (cases "i = j") auto
  have "tbl_map I (bs[j := (x, v)]) k = Some w \<longleftrightarrow> tbl_map I bs k = Some w" for w
    unfolding tbl_map_Some_iff [OF assms(1)] tbl_map_Some_iff [OF assms(2)] e by simp
  then show ?thesis by (metis option.exhaust)
qed

text \<open>The three changes the operations make.\<close>

lemma table_put:
  assumes t: "table_ok I bs" and j: "j < length bs" and k: "is_live I k" and v: "v \<noteq> None"
    and f: "fst (bs ! j) = getEmptyKey I \<Longrightarrow> 1 < key_count (getEmptyKey I) bs"
    and r: "fst (bs ! j) = k \<or> \<not> is_live I (fst (bs ! j)) \<and> reaches I bs k j \<and> (\<forall>i<length bs. fst (bs ! i) \<noteq> k)"
  shows "table_ok I (bs[j := (k, v)])" and "tbl_map I (bs[j := (k, v)]) = (tbl_map I bs)(k := v)"
proof -
  have ne: "k \<noteq> getEmptyKey I" using k by (simp add: is_live_def)
  have "0 < key_count (getEmptyKey I) (bs[j := (k, v)])"
    using key_count_update [OF j, of "getEmptyKey I" "(k, v)"] f ne t key_count_pos [of "getEmptyKey I" bs]
    by (cases "fst (bs ! j) = getEmptyKey I") (auto simp: table_ok_def)
  then have e: "\<exists>j'<length bs. j' \<noteq> j \<and> fst (bs ! j') = getEmptyKey I"
    unfolding key_count_pos using ne by (metis fst_conv length_list_update nth_list_update_eq nth_list_update_neq)
  have l: "v \<noteq> None \<and> reaches I bs k j \<and> (\<forall>i<length bs. fst (bs ! i) = k \<longrightarrow> i = j)"
    using r v k t j table_unique [OF t] by (auto simp: table_ok_def)
  show ok: "table_ok I (bs[j := (k, v)])" by (rule table_update [OF t j ne e l])
  show "tbl_map I (bs[j := (k, v)]) = (tbl_map I bs)(k := v)"
  proof
    fix x
    consider "x = k" | "x \<noteq> k" "x \<noteq> fst (bs ! j)" | "x \<noteq> k" "x = fst (bs ! j)" "\<not> is_live I x" using r by auto
    then show "tbl_map I (bs[j := (k, v)]) x = ((tbl_map I bs)(k := v)) x"
    proof cases
      case 1 then show ?thesis using tbl_map_at [OF ok, of j k] j k by simp
    next
      case 2 then show ?thesis using tbl_map_update_other [OF t ok j] by simp
    next
      case 3 then show ?thesis by (simp add: tbl_map_def)
    qed
  qed
qed

lemma table_erase:
  assumes t: "table_ok I bs" and j: "j < length bs" and k: "is_live I (fst (bs ! j))" and I: "getEmptyKey I \<noteq> getTombstoneKey I"
  shows "table_ok I (bs[j := (getTombstoneKey I, None)])"
    and "tbl_map I (bs[j := (getTombstoneKey I, None)]) = (tbl_map I bs)(fst (bs ! j) := None)"
proof -
  have e: "\<exists>j'<length bs. j' \<noteq> j \<and> fst (bs ! j') = getEmptyKey I" using t k by (auto simp: table_ok_def is_live_def)
  show ok: "table_ok I (bs[j := (getTombstoneKey I, None)])"
    using I by (intro table_update [OF t j _ e]) (auto simp: is_live_def)
  show "tbl_map I (bs[j := (getTombstoneKey I, None)]) = (tbl_map I bs)(fst (bs ! j) := None)"
  proof
    fix x
    have "tbl_map I (bs[j := (getTombstoneKey I, None)]) (fst (bs ! j)) = None"
    proof (intro tbl_map_absent allI impI)
      fix i assume i: "i < length (bs[j := (getTombstoneKey I, None)])"
      show "fst (bs[j := (getTombstoneKey I, None)] ! i) \<noteq> fst (bs ! j)"
      proof (cases "i = j")
        case True then show ?thesis using j k by (auto simp: is_live_def)
      next
        case False
        have "i < length bs" using i by simp
        from table_unique [OF t j this k] False have "fst (bs ! i) \<noteq> fst (bs ! j)" by metis
        then show ?thesis using False by simp
      qed
    qed
    moreover have "tbl_map I (bs[j := (getTombstoneKey I, None)]) x = tbl_map I bs x" if "x \<noteq> fst (bs ! j)"
    proof (cases "x = getTombstoneKey I")
      case False
      then show ?thesis using tbl_map_update_other [OF t ok j] that by simp
    qed (simp add: tbl_map_def is_live_def)
    ultimately show "tbl_map I (bs[j := (getTombstoneKey I, None)]) x = ((tbl_map I bs)(fst (bs ! j) := None)) x" by simp
  qed
qed

end
