(* ===== verification/Dense_Map_Ops.thy ===== *)
theory Dense_Map_Ops
  imports Dense_Map_Proofs
begin

text \<open>
  The operations of the dense map keep its invariant and refine those of a finite map. The table doubles before it is three quarters
  full and is rebuilt before the tombstones leave less than an eighth of it empty.
\<close>

section \<open>Allocation\<close>

definition dm_inv :: "'k dense_info \<Rightarrow> ('k, 'v) DenseMap \<Rightarrow> bool" where
  "dm_inv I m \<longleftrightarrow> buckets_ok I m \<and> unat (NumEntries m) = live_count I (Buckets m) \<and>
     unat (NumTombstones m) = key_count (getTombstoneKey I) (Buckets m)"

definition dm_map :: "'k dense_info \<Rightarrow> ('k, 'v) DenseMap \<Rightarrow> 'k \<Rightarrow> 'v option" where
  "dm_map I m = tbl_map I (Buckets m)"

lemma unat_shift_small:
  "unat (x :: 'a::len word) * 2 ^ k < 2 ^ LENGTH('a) \<Longrightarrow> unat (push_bit k x) = unat x * 2 ^ k"
  by (subst unsigned_push_bit_eq) (simp add: push_bit_nat_def take_bit_nat_eq_self)

lemma allocateBuckets_ok:
  fixes m :: "('k, 'v) DenseMap"
  assumes "info_ok I" and "k < 31"
  obtains k' where "k \<le> k'" and "k' < 31"
    and "allocateBuckets I (2 ^ k) m = Some (True, m\<lparr>NumBuckets := 2 ^ k', Buckets := replicate (2 ^ k') (zero_key I, None)\<rparr>)"
proof -
  let ?sz = "unat (sizeof_BucketT I)" and ?size = "sizeof_BucketT I * ucast (2 ^ k :: u32)"
  obtain p where p: "p \<le> 16" "GetPageSizeCached I = 2 ^ p" and sz: "0 < ?sz" "?sz \<le> 2 ^ 16"
    using assms(1) by (auto simp: info_ok_def word_less_nat_alt word_le_nat_alt)
  have page: "unat (GetPageSizeCached I) = 2 ^ p" using p unat_exp [of p] by simp
  have num: "unat (2 ^ k :: u32) = 2 ^ k" using assms(2) unat_exp32 [of k] by simp
  have k30: "(2::nat) ^ k \<le> 2 ^ 30" using assms(2) by (intro power_increasing) simp_all
  have "?sz * 2 ^ k \<le> 2 ^ 16 * 2 ^ 30" using sz(2) k30 by (intro mult_le_mono)
  then have size: "unat ?size = ?sz * 2 ^ k" "unat (?size * 2) = ?sz * 2 ^ k * 2"
    using num assms(2) by (simp_all add: unat_word_ariths unsigned_ucast_eq take_bit_nat_eq_self)
  have n0: "(2 ^ k :: u32) \<noteq> 0" using assms(2) by simp
  show ?thesis
  proof (cases "?size * 2 \<le> GetPageSizeCached I")
    case False
    then show ?thesis using that [of k] assms(2) n0 num by (simp add: allocateBuckets_def Let_def)
  next
    case True
    then have le: "?sz * 2 ^ k * 2 \<le> 2 ^ p" using size page by (simp add: word_le_nat_alt)
    let ?q = "2 ^ p div (?sz * 2 ^ k)"
    have q: "unat (GetPageSizeCached I div ?size) = ?q" using size page by (simp add: unat_div)
    have "0 < ?q" using le sz(1) by (simp add: div_greater_zero_iff)
    then obtain l where l: "MostSignificantSetBitIndex (GetPageSizeCached I div ?size) = Some l"
      using MostSignificantSetBitIndex_total [of "GetPageSizeCached I div ?size"] q by (metis unat_0 neq0_conv)
    have b: "2 ^ l \<le> ?q" "?q < 2 ^ Suc l" using MostSignificantSetBitIndex_bounds(2,3) [OF l] q by simp_all
    have lo: "?sz * 2 ^ k * 2 ^ l \<le> 2 ^ p"
      using b(1) sz(1) by (metis mult.commute mult_le_mono2 le_trans times_div_less_eq_dividend)
    have hi: "2 ^ p < ?sz * 2 ^ k * 2 ^ l * 2"
    proof -
      have "2 ^ p < (?q + 1) * (?sz * 2 ^ k)" using sz(1) dividend_less_div_times [of "?sz * 2 ^ k" "2 ^ p"] by (simp add: algebra_simps)
      also have "\<dots> \<le> 2 ^ Suc l * (?sz * 2 ^ k)" using b(2) by (intro mult_le_mono1) simp
      finally show ?thesis by (simp add: algebra_simps)
    qed
    have "2 ^ (k + l) \<le> ?sz * 2 ^ k * 2 ^ l" using sz(1) by (simp add: power_add)
    then have kl: "2 ^ (k + l) \<le> (2::nat) ^ p" using lo by linarith
    then have "k + l \<le> p" by (simp add: power_increasing_iff)
    have p16: "(2::nat) ^ p \<le> 2 ^ 16" using p(1) by (intro power_increasing) simp_all
    have s: "unat (push_bit l ?size) = ?sz * 2 ^ k * 2 ^ l" using size(1) lo p16 by (subst unat_shift_small) auto
    have n: "push_bit l (2 ^ k :: u32) = 2 ^ (k + l)" by (simp add: push_bit_eq_mult power_add mult.commute)
    have n': "unat (2 ^ (k + l) :: u32) = 2 ^ (k + l)" using \<open>k + l \<le> p\<close> p(1) by (intro unat_exp32) simp
    have "unat (sizeof_BucketT I * ucast (2 ^ (k + l) :: u32)) = ?sz * 2 ^ (k + l)"
      using n' lo p16 by (simp add: unat_word_ariths unsigned_ucast_eq take_bit_nat_eq_self power_add mult.assoc)
    then have c1: "push_bit l ?size = sizeof_BucketT I * ucast (2 ^ (k + l) :: u32)"
      using s by (simp add: word_unat_eq_iff power_add mult.assoc)
    have c2: "GetPageSizeCached I < push_bit l ?size * 2"
      using s lo hi p16 page by (simp add: word_less_nat_alt unat_word_ariths)
    show ?thesis using that [of "k + l"] True n0 l c1 c2 n n' \<open>k + l \<le> p\<close> p(1) by (simp add: allocateBuckets_def Let_def)
  qed
qed

text \<open>A table in which nothing was ever stored; the values of its buckets do not matter.\<close>

definition all_empty :: "'k dense_info \<Rightarrow> ('k, 'v) dense_bucket list \<Rightarrow> bool" where
  "all_empty I bs \<longleftrightarrow> (\<forall>b\<in>set bs. fst b = getEmptyKey I)"

lemma all_empty_counts:
  assumes "all_empty I bs" and "getEmptyKey I \<noteq> getTombstoneKey I"
  shows "live_count I bs = 0" and "key_count (getTombstoneKey I) bs = 0"
  using assms by (auto simp: live_count_def key_count_def all_empty_def is_live_def filter_empty_conv)

lemma all_empty_table:
  assumes "all_empty I bs" and "length bs = 2 ^ k" and "k < 31"
  shows "table_ok I bs" and "tbl_map I bs = Map.empty"
proof -
  have e: "\<forall>j<length bs. fst (bs ! j) = getEmptyKey I" using assms(1) by (simp add: all_empty_def)
  moreover have "0 < length bs" using assms(2) by simp
  ultimately show "table_ok I bs" using assms(2,3) unfolding table_ok_def is_live_def by metis
  show "tbl_map I bs = Map.empty"
  proof
    fix k show "tbl_map I bs k = None"
      using tbl_map_absent [of bs k I] e by (cases "is_live I k") (auto simp: tbl_map_def is_live_def)
  qed
qed

lemma initEmpty_ok:
  assumes "NumBuckets m = 2 ^ k" and "length (Buckets m) = 2 ^ k" and "k < 31" and "info_ok I"
  obtains m' where "initEmpty I m = Some m'" and "dm_inv I m'" and "dm_map I m' = Map.empty"
    and "length (Buckets m') = 2 ^ k" and "NumBuckets m' = 2 ^ k"
    and "live_count I (Buckets m') = 0" and "key_count (getTombstoneKey I) (Buckets m') = 0"
proof -
  let ?m = "m\<lparr>NumEntries := 0, NumTombstones := 0, Buckets := map (\<lambda>(k, v). (getEmptyKey I, v)) (Buckets m)\<rparr>"
  have "(2 ^ k :: u32) AND (2 ^ k - 1) = 0" by (simp flip: mask_eq_exp_minus_1 take_bit_eq_mask add: take_bit_eq_mod)
  then have i: "initEmpty I m = Some ?m" using assms(1) by (simp add: initEmpty_def Let_def)
  have e: "all_empty I (Buckets ?m)" by (auto simp: all_empty_def)
  have l: "length (Buckets ?m) = 2 ^ k" using assms(2) by simp
  have ne: "getEmptyKey I \<noteq> getTombstoneKey I" using assms(4) by (simp add: info_ok_def)
  have "unat (NumBuckets ?m) = length (Buckets ?m)" using assms(1-3) by (simp add: unat_exp32)
  then have "dm_inv I ?m" using all_empty_counts [OF e ne] all_empty_table(1) [OF e l assms(3)]
    by (simp add: dm_inv_def buckets_ok_def)
  with that [OF i] l assms(1) all_empty_counts [OF e ne] all_empty_table(2) [OF e l assms(3)] show ?thesis
    by (simp add: dm_map_def)
qed

section \<open>Storing a new key\<close>

lemma dm_inv_buckets: "dm_inv I m \<Longrightarrow> buckets_ok I m" by (simp add: dm_inv_def)

lemma dm_inv_length: "dm_inv I m \<Longrightarrow> length (Buckets m) \<le> 2 ^ 30"
proof (cases "Buckets m = []")
  case False
  assume "dm_inv I m"
  then obtain k where "k < 31" "length (Buckets m) = 2 ^ k" using False by (auto simp: dm_inv_def buckets_ok_def table_ok_def)
  then show ?thesis using power_increasing [of k 30 "2::nat"] by simp
qed simp

lemma live_count_le: "live_count I bs \<le> length bs" by (simp add: live_count_def)

text \<open>Writing a new key into the bucket that the lookup gave, with the changes of the counters.\<close>

definition stored :: "'k dense_info \<Rightarrow> nat \<Rightarrow> 'k \<Rightarrow> 'v option \<Rightarrow> ('k, 'v) DenseMap \<Rightarrow> ('k, 'v) DenseMap" where
  "stored I j k v m = (set_bucket j (k, v) m)\<lparr>NumEntries := NumEntries m + 1,
     NumTombstones := NumTombstones m - (if fst (Buckets m ! j) \<noteq> getEmptyKey I then 1 else 0)\<rparr>"

lemma stored_ok:
  assumes m: "dm_inv I m" and I: "getEmptyKey I \<noteq> getTombstoneKey I" and k: "is_live I k" and v: "v \<noteq> None"
    and j: "j < length (Buckets m)" "fst (Buckets m ! j) \<in> {getEmptyKey I, getTombstoneKey I}" "reaches I (Buckets m) k j"
      "\<forall>j<length (Buckets m). fst (Buckets m ! j) \<noteq> k"
    and e: "1 < key_count (getEmptyKey I) (Buckets m)"
  shows "dm_inv I (stored I j k v m)" and "dm_map I (stored I j k v m) = (dm_map I m)(k := v)"
    and "live_count I (Buckets (stored I j k v m)) = live_count I (Buckets m) + 1"
    and "key_count (getTombstoneKey I) (Buckets (stored I j k v m)) \<le> key_count (getTombstoneKey I) (Buckets m)"
proof -
  let ?bs = "Buckets m"
  have t: "table_ok I ?bs" and u: "unat (NumBuckets m) = length ?bs"
    and c: "unat (NumEntries m) = live_count I ?bs" "unat (NumTombstones m) = key_count (getTombstoneKey I) ?bs"
    using m j(1) by (auto simp: dm_inv_def buckets_ok_def)
  have nl: "\<not> is_live I (fst (?bs ! j))" using j(2) by (auto simp: is_live_def)
  have kt: "k \<noteq> getTombstoneKey I" using k by (simp add: is_live_def)
  note put = table_put [OF t j(1) k v e, OF disjI2]
  have p: "table_ok I (?bs[j := (k, v)])" "tbl_map I (?bs[j := (k, v)]) = (tbl_map I ?bs)(k := v)" using put nl j(3,4) by blast+
  have l: "live_count I (?bs[j := (k, v)]) = live_count I ?bs + 1" using live_count_update [OF j(1), of I "(k, v)"] nl k by simp
  have tb: "key_count (getTombstoneKey I) (?bs[j := (k, v)]) + of_bool (fst (?bs ! j) = getTombstoneKey I) = key_count (getTombstoneKey I) ?bs"
    using key_count_update [OF j(1), of "getTombstoneKey I" "(k, v)"] kt by simp
  have small: "length ?bs \<le> 2 ^ 30" by (rule dm_inv_length [OF m])
  have "unat (NumEntries m + 1) = live_count I ?bs + 1"
    using c(1) live_count_le [of I ?bs] small by (simp add: unat_word_ariths)
  moreover have "unat (NumTombstones m - (if fst (?bs ! j) \<noteq> getEmptyKey I then 1 else 0)) = key_count (getTombstoneKey I) (?bs[j := (k, v)])"
  proof (cases "fst (?bs ! j) = getEmptyKey I")
    case True
    then show ?thesis using tb c(2) I by simp
  next
    case False
    then have f: "fst (?bs ! j) = getTombstoneKey I" using j(2) by simp
    then have "0 < unat (NumTombstones m)" using tb c(2) by simp
    then have "unat (NumTombstones m - 1) = unat (NumTombstones m) - 1" by (intro unat_minus_one) auto
    then show ?thesis using f tb c(2) I by simp
  qed
  ultimately show "dm_inv I (stored I j k v m)"
    using p(1) u l by (simp add: dm_inv_def buckets_ok_def stored_def set_bucket_def)
  show "dm_map I (stored I j k v m) = (dm_map I m)(k := v)" using p(2) by (simp add: dm_map_def stored_def set_bucket_def)
  show "live_count I (Buckets (stored I j k v m)) = live_count I ?bs + 1" using l by (simp add: stored_def set_bucket_def)
  show "key_count (getTombstoneKey I) (Buckets (stored I j k v m)) \<le> key_count (getTombstoneKey I) ?bs"
    using tb by (simp add: stored_def set_bucket_def)
qed

section \<open>Growing\<close>

definition keys_unique :: "'k dense_info \<Rightarrow> ('k, 'v) dense_bucket list \<Rightarrow> bool" where
  "keys_unique I bs \<longleftrightarrow> (\<forall>i<length bs. \<forall>j<length bs. is_live I (fst (bs ! i)) \<and> fst (bs ! i) = fst (bs ! j) \<longrightarrow> i = j)"

lemma keys_unique_Cons:
  assumes "keys_unique I (b # bs)"
  shows "keys_unique I bs" and "is_live I (fst b) \<Longrightarrow> c \<in> set bs \<Longrightarrow> fst c \<noteq> fst b"
proof -
  show "keys_unique I bs" unfolding keys_unique_def
  proof (intro allI impI)
    fix i j assume "i < length bs" "j < length bs" "is_live I (fst (bs ! i)) \<and> fst (bs ! i) = fst (bs ! j)"
    then have "Suc i = Suc j" using assms unfolding keys_unique_def by (metis length_Cons nth_Cons_Suc Suc_less_eq)
    then show "i = j" by simp
  qed
  assume b: "is_live I (fst b)" and c: "c \<in> set bs"
  then obtain i where i: "i < length bs" "c = bs ! i" by (metis in_set_conv_nth)
  have "0 < length (b # bs)" "Suc i < length (b # bs)" using i(1) by simp_all
  then have "is_live I (fst ((b # bs) ! 0)) \<and> fst ((b # bs) ! 0) = fst ((b # bs) ! Suc i) \<longrightarrow> 0 = Suc i"
    using assms unfolding keys_unique_def by blast
  then show "fst c \<noteq> fst b" using b i(2) by auto
qed

lemma tbl_map_Cons: "tbl_map I ((k, v) # bs) = (if is_live I k then (tbl_map I bs)(k := v) else tbl_map I bs)"
  by (auto simp: tbl_map_def fun_eq_iff)

lemma empties_left:
  assumes "info_ok I" and "key_count (getTombstoneKey I) bs = 0" and "live_count I bs + 1 < length bs"
  shows "1 < key_count (getEmptyKey I) bs"
  using counts_add [of I bs] assms by (simp add: info_ok_def)

lemma move_buckets_ok:
  fixes m :: "('k, 'v) DenseMap"
  assumes "info_ok I" and "keys_unique I bs" and "\<forall>b\<in>set bs. is_live I (fst b) \<longrightarrow> snd b \<noteq> None \<and> dm_map I m (fst b) = None"
    and "dm_inv I m" and "key_count (getTombstoneKey I) (Buckets m) = 0" and "live_count I (Buckets m) + live_count I bs < length (Buckets m)"
  shows "\<exists>m'. move_buckets I bs m = Some m' \<and> dm_inv I m' \<and> dm_map I m' = dm_map I m ++ tbl_map I bs \<and>
    length (Buckets m') = length (Buckets m) \<and> key_count (getTombstoneKey I) (Buckets m') = 0 \<and>
    live_count I (Buckets m') = live_count I (Buckets m) + live_count I bs"
  using assms(2-)
proof (induction bs arbitrary: m)
  case Nil
  have "tbl_map I ([] :: ('k, 'v) dense_bucket list) = Map.empty" by (auto simp: tbl_map_def)
  then show ?case using Nil by (auto simp: live_count_def)
next
  case (Cons b bs)
  obtain k v where b: "b = (k, v)" by (cases b)
  note u = keys_unique_Cons [OF Cons.prems(1)]
  show ?case
  proof (cases "is_live I k")
    case False
    have "\<exists>m'. move_buckets I bs m = Some m' \<and> dm_inv I m' \<and> dm_map I m' = dm_map I m ++ tbl_map I bs \<and>
      length (Buckets m') = length (Buckets m) \<and> key_count (getTombstoneKey I) (Buckets m') = 0 \<and>
      live_count I (Buckets m') = live_count I (Buckets m) + live_count I bs"
      using Cons.prems False b by (intro Cons.IH u(1)) (auto simp: live_count_def)
    then show ?thesis using False b by (simp add: tbl_map_Cons live_count_def)
  next
    case True
    have lc: "live_count I (b # bs) = live_count I bs + 1" using True b by (simp add: live_count_def)
    have v: "v \<noteq> None" and new: "dm_map I m k = None" using Cons.prems(2) True b by auto
    have ne: "getEmptyKey I \<noteq> getTombstoneKey I" using assms(1) by (simp add: info_ok_def)
    have t: "table_ok I (Buckets m)" "NumBuckets m \<noteq> 0" using Cons.prems(3,5) by (auto simp: dm_inv_def buckets_ok_def)
    have e: "1 < key_count (getEmptyKey I) (Buckets m)" using empties_left [OF assms(1) Cons.prems(4)] Cons.prems(5) lc by simp
    show ?thesis
    proof (cases rule: LookupBucketFor_ok [OF dm_inv_buckets [OF Cons.prems(3)] True t(2), case_names present absent])
      case (present j)
      then have "snd (Buckets m ! j) = None" using new tbl_map_at [OF t(1) present(2,3) True] by (simp add: dm_map_def)
      moreover have "snd (Buckets m ! j) \<noteq> None" using t(1) present(2,3) True by (simp add: table_ok_def)
      ultimately show ?thesis by contradiction
    next
      case (absent j)
      have f: "fst (Buckets m ! j) = getEmptyKey I"
        using absent(2,3) Cons.prems(4) key_count_pos [of "getTombstoneKey I" "Buckets m"] by auto
      let ?m = "stored I j k v m"
      note st = stored_ok [OF Cons.prems(3) ne True v absent(2-5) e]
      have fresh: "\<forall>b\<in>set bs. is_live I (fst b) \<longrightarrow> snd b \<noteq> None \<and> dm_map I ?m (fst b) = None"
        using Cons.prems(2) u(2) b True st(2) by auto
      have len: "length (Buckets ?m) = length (Buckets m)" by (simp add: stored_def set_bucket_def)
      have "\<exists>m'. move_buckets I bs ?m = Some m' \<and> dm_inv I m' \<and> dm_map I m' = dm_map I ?m ++ tbl_map I bs \<and>
        length (Buckets m') = length (Buckets ?m) \<and> key_count (getTombstoneKey I) (Buckets m') = 0 \<and>
        live_count I (Buckets m') = live_count I (Buckets ?m) + live_count I bs"
        using st(3,4) Cons.prems(4,5) lc len by (intro Cons.IH u(1) fresh st(1)) simp_all
      moreover have "move_buckets I (b # bs) m = move_buckets I bs ?m"
        using b True absent(1) f by (simp add: stored_def set_bucket_def)
      moreover have "dm_map I ?m ++ tbl_map I bs = dm_map I m ++ tbl_map I (b # bs)"
      proof -
        have "tbl_map I bs k = None" using u(2) b True by (intro tbl_map_absent) (metis fst_conv nth_mem)
        then show ?thesis using v unfolding st(2) b tbl_map_Cons by (auto simp: True map_add_def fun_eq_iff split: option.splits)
      qed
      ultimately show ?thesis using st(3) lc len by simp
    qed
  qed
qed

lemma ucast_exp32: "k < 32 \<Longrightarrow> ucast (2 ^ k :: uptr) = (2 ^ k :: u32)"
  by (simp add: word_unat_eq_iff unat_exp32 unsigned_ucast_eq unat_exp take_bit_nat_eq_self)

lemma RoundUp_small:
  assumes "0 < unat (x :: u32)" and "unat x \<le> 2 ^ 30"
  obtains k where "k < 31" and "unat x \<le> 2 ^ k" and "RoundUpToPowerOfTwo (ucast x) = Some (2 ^ k)"
proof -
  have u: "unat (ucast x :: uptr) = unat x"
    using assms(2) by (simp add: unsigned_ucast_eq take_bit_nat_eq_self)
  obtain r where r: "RoundUpToPowerOfTwo (ucast x) = Some r"
    using RoundUpToPowerOfTwo_total [of "ucast x :: uptr"] assms u by fastforce
  from RoundUpToPowerOfTwo_Some [OF r] obtain k where k: "r = 2 ^ k" "unat x \<le> 2 ^ k" "\<forall>j. unat x \<le> 2 ^ j \<longrightarrow> k \<le> j"
    unfolding u by metis
  then have "k \<le> 30" using assms(2) by blast
  then show ?thesis using that [of k] k(1,2) r by simp
qed

lemma table_keys_unique: "table_ok I bs \<Longrightarrow> keys_unique I bs"
  unfolding table_ok_def keys_unique_def by (elim conjE)

lemma grow_ok:
  assumes I: "info_ok I" and m: "dm_inv I m" and a: "unat a \<le> 2 ^ 30" and c: "live_count I (Buckets m) < max 64 (unat a)"
  obtains m' where "grow I a m = Some m'" and "dm_inv I m'" and "dm_map I m' = dm_map I m"
    and "max 64 (unat a) \<le> length (Buckets m')" and "key_count (getTombstoneKey I) (Buckets m') = 0"
    and "live_count I (Buckets m') = live_count I (Buckets m)"
proof -
  have mx: "unat (max 64 a) = max 64 (unat a)" by (simp add: max_def word_le_nat_alt)
  have "0 < unat (max 64 a)" "unat (max 64 a) \<le> 2 ^ 30" using a unfolding mx by simp_all
  then obtain k where k: "k < 31" "max 64 (unat a) \<le> 2 ^ k" "RoundUpToPowerOfTwo (ucast (max 64 a)) = Some (2 ^ k)"
    using RoundUp_small [of "max 64 a"] unfolding mx by blast
  obtain k' where k': "k \<le> k'" "k' < 31"
    "allocateBuckets I (2 ^ k) m = Some (True, m\<lparr>NumBuckets := 2 ^ k', Buckets := replicate (2 ^ k') (zero_key I, None)\<rparr>)"
    using allocateBuckets_ok [OF I k(1)] by blast
  let ?m = "m\<lparr>NumBuckets := 2 ^ k', Buckets := replicate (2 ^ k') (zero_key I, None)\<rparr>"
  obtain m0 where m0: "initEmpty I ?m = Some m0" "dm_inv I m0" "dm_map I m0 = Map.empty" "length (Buckets m0) = 2 ^ k'"
    "live_count I (Buckets m0) = 0" "key_count (getTombstoneKey I) (Buckets m0) = 0"
    using initEmpty_ok [of ?m k' I] k'(2) I by auto
  have "(2::nat) ^ k \<le> 2 ^ k'" using k'(1) by (intro power_increasing) simp_all
  then have len: "max 64 (unat a) \<le> length (Buckets m0)" using k(2) m0(4) by linarith
  have g: "grow I a m = (if Buckets m = [] then Some m0 else move_buckets I (Buckets m) m0)"
    using k(1,3) k'(3) m0(1) ucast_exp32 [of k] by (simp add: grow_def moveFromOldBuckets_def Let_def)
  show ?thesis
  proof (cases "Buckets m = []")
    case True
    then have "dm_map I m = Map.empty" "live_count I (Buckets m) = 0" by (auto simp: dm_map_def tbl_map_def live_count_def)
    then show ?thesis using that [of m0] g True m0 len by simp
  next
    case False
    then have t: "table_ok I (Buckets m)" using m by (simp add: dm_inv_def buckets_ok_def)
    have "\<forall>b\<in>set (Buckets m). is_live I (fst b) \<longrightarrow> snd b \<noteq> None \<and> dm_map I m0 (fst b) = None"
    proof (intro ballI impI conjI)
      fix b assume "b \<in> set (Buckets m)" "is_live I (fst b)"
      then show "snd b \<noteq> None" using t unfolding table_ok_def by (metis in_set_conv_nth)
    qed (simp add: m0(3))
    from move_buckets_ok [OF I table_keys_unique [OF t] this m0(2,6)] m0(5) c len
    obtain m' where "move_buckets I (Buckets m) m0 = Some m'" "dm_inv I m'" "dm_map I m' = dm_map I m0 ++ tbl_map I (Buckets m)"
      "length (Buckets m') = length (Buckets m0)" "key_count (getTombstoneKey I) (Buckets m') = 0"
      "live_count I (Buckets m') = live_count I (Buckets m)" by auto
    then show ?thesis using that [of m'] g False m0(3) len by (simp add: dm_map_def)
  qed
qed

section \<open>Insertion\<close>

text \<open>The state in which the bucket for a new key is chosen: the table has grown if it had to.\<close>

definition make_room :: "'k dense_info \<Rightarrow> 'k \<Rightarrow> nat option \<Rightarrow> ('k, 'v) DenseMap \<Rightarrow> (nat option \<times> ('k, 'v) DenseMap) option" where
  "make_room I k b m =
     (let n = NumBuckets m; e = NumEntries m + 1; again = \<lambda>m. do { (_, b) \<leftarrow> LookupBucketFor I k m; Some (b, m) } in
      if e * 4 \<ge> n * 3 then Option.bind (grow I (n * 2) m) again
      else if n - (e + NumTombstones m) \<le> n div 8 then Option.bind (grow I n m) again
      else Some (b, m))"

lemma InsertIntoBucket_eq:
  "InsertIntoBucket I b k v m = do {
     (b, m) \<leftarrow> make_room I k b m;
     i \<leftarrow> b;
     Some (i, stored I i k (Some v) m)
   }"
proof -
  have r: "make_room I k b m =
     (if (NumEntries m + 1) * 4 \<ge> NumBuckets m * 3 then do {
         m \<leftarrow> grow I (NumBuckets m * 2) m;
         (_, b) \<leftarrow> LookupBucketFor I k m;
         Some (b, m)
       } else if NumBuckets m - (NumEntries m + 1 + NumTombstones m) \<le> NumBuckets m div 8 then do {
         m \<leftarrow> grow I (NumBuckets m) m;
         (_, b) \<leftarrow> LookupBucketFor I k m;
         Some (b, m)
       } else Some (b, m))"
    by (simp only: make_room_def Let_def)
  show ?thesis unfolding InsertIntoBucket_def InsertIntoBucketImpl_def Let_def r [symmetric]
  proof (cases "make_room I k b m")
    case (Some x)
    obtain b' m' where "x = (b', m')" by (cases x)
    then show "do { (i, m) \<leftarrow> do { (b, m) \<leftarrow> make_room I k b m; i \<leftarrow> b;
          Some (i, if fst (Buckets (m\<lparr>NumEntries := NumEntries m + 1\<rparr>) ! i) \<noteq> getEmptyKey I
            then m\<lparr>NumEntries := NumEntries m + 1, NumTombstones := NumTombstones (m\<lparr>NumEntries := NumEntries m + 1\<rparr>) - 1\<rparr>
            else m\<lparr>NumEntries := NumEntries m + 1\<rparr>) };
        Some (i, set_bucket i (k, Some v) m) } =
      do { (b, m) \<leftarrow> make_room I k b m; i \<leftarrow> b; Some (i, stored I i k (Some v) m) }"
      using Some by (cases b') (auto simp: stored_def set_bucket_def)
  qed simp
qed

lemma make_room_ok:
  assumes I: "info_ok I" and m: "dm_inv I m" and k: "is_live I k" "dm_map I m k = None" and c: "live_count I (Buckets m) < 2 ^ 28"
    and b: "NumBuckets m \<noteq> 0 \<Longrightarrow> LookupBucketFor I k m = Some (False, b)"
  obtains j m' where "make_room I k b m = Some (Some j, m')" and "dm_inv I m'" and "dm_map I m' = dm_map I m"
    and "live_count I (Buckets m') = live_count I (Buckets m)" and "LookupBucketFor I k m' = Some (False, Some j)"
    and "1 < key_count (getEmptyKey I) (Buckets m')"
proof -
  note result = that
  let ?e = "live_count I (Buckets m)" and ?n = "length (Buckets m)" and ?t = "key_count (getTombstoneKey I) (Buckets m)"
  have n: "unat (NumBuckets m) = ?n" and e: "unat (NumEntries m) = ?e" and t: "unat (NumTombstones m) = ?t"
    using m by (auto simp: dm_inv_def buckets_ok_def)
  have n30: "?n \<le> 2 ^ 30" by (rule dm_inv_length [OF m])
  have cnt: "?e + ?t + key_count (getEmptyKey I) (Buckets m) = ?n" using counts_add [of I "Buckets m"] I by (simp add: info_ok_def)
  have w: "unat ((NumEntries m + 1) * 4) = (?e + 1) * 4" "unat (NumBuckets m * 3) = ?n * 3" "unat (NumBuckets m * 2) = ?n * 2"
    using n e n30 c by (simp_all add: unat_word_ariths)
  have diff: "unat (NumBuckets m - (NumEntries m + 1 + NumTombstones m)) = ?n - (?e + 1 + ?t)" if ne: "\<not> (?e + 1) * 4 \<ge> ?n * 3"
  proof -
    have "Buckets m \<noteq> []" using ne by auto
    then have "0 < key_count (getEmptyKey I) (Buckets m)" using m by (auto simp: key_count_pos dm_inv_def buckets_ok_def table_ok_def)
    then have le: "?e + 1 + ?t \<le> ?n" using cnt by simp
    have s: "unat (NumEntries m + 1 + NumTombstones m) = ?e + 1 + ?t" using e t le n30 by (simp add: unat_word_ariths)
    then have "NumEntries m + 1 + NumTombstones m \<le> NumBuckets m" using n le by (simp add: word_le_nat_alt)
    then show ?thesis using s n by (simp add: unat_sub)
  qed
  have found: "\<exists>j. LookupBucketFor I k m' = Some (False, Some j)" if m': "dm_inv I m'" "dm_map I m' = dm_map I m" "Buckets m' \<noteq> []" for m'
  proof -
    have nb: "NumBuckets m' \<noteq> 0" and t': "table_ok I (Buckets m')" using m'(1,3) by (auto simp: dm_inv_def buckets_ok_def)
    show ?thesis
    proof (cases rule: LookupBucketFor_ok [OF dm_inv_buckets [OF m'(1)] k(1) nb, case_names present absent])
      case (present j)
      then have "snd (Buckets m' ! j) = None" using k m'(2) tbl_map_at [OF t' present(2,3) k(1)] by (simp add: dm_map_def)
      moreover have "snd (Buckets m' ! j) \<noteq> None" using t' present(2,3) k(1) by (simp add: table_ok_def)
      ultimately show ?thesis by contradiction
    qed blast
  qed
  have grown: thesis if mr: "make_room I k b m = do { m \<leftarrow> grow I a m; (_, b) \<leftarrow> LookupBucketFor I k m; Some (b, m) }"
    and a: "unat a \<le> 2 ^ 30" "?e + 1 < max 64 (unat a)" for a
  proof -
    obtain m' where m': "grow I a m = Some m'" "dm_inv I m'" "dm_map I m' = dm_map I m"
      "max 64 (unat a) \<le> length (Buckets m')" "key_count (getTombstoneKey I) (Buckets m') = 0" "live_count I (Buckets m') = ?e"
      using grow_ok [OF I m a(1)] a(2) by auto
    then have "Buckets m' \<noteq> []" by auto
    then obtain j where j: "LookupBucketFor I k m' = Some (False, Some j)" using found m'(2,3) by blast
    have "1 < key_count (getEmptyKey I) (Buckets m')" using empties_left [OF I m'(5)] m'(4,6) a(2) by simp
    then show thesis using result m' j mr by simp
  qed
  consider (full) "(?e + 1) * 4 \<ge> ?n * 3"
    | (tombs) "\<not> (?e + 1) * 4 \<ge> ?n * 3" "?n - (?e + 1 + ?t) \<le> ?n div 8"
    | (free) "\<not> (?e + 1) * 4 \<ge> ?n * 3" "\<not> ?n - (?e + 1 + ?t) \<le> ?n div 8" by blast
  then show thesis
  proof cases
    case full
    then show thesis using c w cnt by (intro grown [of "NumBuckets m * 2"]) (auto simp: make_room_def Let_def word_le_nat_alt)
  next
    case tombs
    then show thesis using c w(1,2) n n30 diff cnt
      by (intro grown [of "NumBuckets m"]) (auto simp: make_room_def Let_def word_le_nat_alt unat_div)
  next
    case free
    then have ne: "Buckets m \<noteq> []" by auto
    then obtain j where j: "LookupBucketFor I k m = Some (False, Some j)" using found [OF m] by blast
    have "NumBuckets m \<noteq> 0" using ne n by auto
    then have "b = Some j" using b j by simp
    then have "make_room I k b m = Some (Some j, m)" using free w(1,2) n diff by (auto simp: make_room_def Let_def word_le_nat_alt unat_div)
    then show thesis using result m j free cnt by simp
  qed
qed

end
