(* ===== verification/Dense_Map_Spec.thy ===== *)
theory Dense_Map_Spec
  imports Dense_Map_Ops
begin

text \<open>
  The dense map against its specification, a partial function: each operation, then any sequence of operations from the empty map;
  comparison and iteration. The interface is the locale \<open>map_simulation\<close>; it holds of the dense map for all key traits that satisfy
  \<open>info_ok\<close>, among them those the runtime instantiates.
\<close>

section \<open>Operations\<close>

lemma dm_map_live: "dm_map I m k = Some v \<Longrightarrow> is_live I k"
  by (auto simp: dm_map_def tbl_map_def split: if_splits)

lemma doFind_map:
  assumes "dm_inv I m" and "is_live I k"
  obtains (present) j v where "doFind I k m = Some (Some j)" and "dm_map I m k = Some v" and "j < length (Buckets m)"
      and "Buckets m ! j = (k, Some v)" and "table_ok I (Buckets m)"
  | (absent) "doFind I k m = Some None" and "dm_map I m k = None"
proof (cases rule: doFind_ok [OF dm_inv_buckets [OF assms(1)] assms(2), case_names present absent])
  case (present j)
  then have t: "table_ok I (Buckets m)" using assms(1) by (auto simp: dm_inv_def buckets_ok_def)
  then obtain v where v: "snd (Buckets m ! j) = Some v" using present(2,3) assms(2) by (auto simp: table_ok_def)
  then have "Buckets m ! j = (k, Some v)" using present(3) by (simp add: prod_eq_iff)
  then show ?thesis using that(1) [of j v] present t tbl_map_at [OF t present(2,3) assms(2)] v by (simp add: dm_map_def)
next
  case absent
  then show ?thesis using that(2) tbl_map_absent [OF absent(2), of I] by (simp add: dm_map_def)
qed

lemma dm_lookup_ok:
  assumes "dm_inv I m" and "is_live I k"
  shows "dm_lookup I d k m = Some (case dm_map I m k of Some v \<Rightarrow> v | None \<Rightarrow> d)"
  by (cases rule: doFind_map [OF assms]) (auto simp: dm_lookup_def)

lemma dm_contains_ok:
  assumes "dm_inv I m" and "is_live I k"
  shows "dm_contains I k m = Some (dm_map I m k \<noteq> None)"
  by (cases rule: doFind_map [OF assms]) (auto simp: dm_contains_def)

text \<open>
  The search for the reserved key of empty buckets, which \<^verbatim>\<open>doFind\<close> does not exclude, succeeds.
\<close>

lemma contains_empty_key:
  assumes "dm_inv I m" and "NumBuckets m \<noteq> 0"
  shows "dm_contains I (getEmptyKey I) m = Some True"
proof -
  obtain k where k: "k < 31" "NumBuckets m = 2 ^ k" "length (Buckets m) = 2 ^ k" "table_ok I (Buckets m)"
    using buckets_okD [OF dm_inv_buckets [OF assms(1)] assms(2)] by blast
  let ?bs = "Buckets m" and ?h = "getHashValue I (getEmptyKey I)"
  obtain i0 where i0: "fst (?bs ! pos (length ?bs) ?h i0) = getEmptyKey I \<or> fst (?bs ! pos (length ?bs) ?h i0) = getEmptyKey I"
    "\<forall>i<i0. fst (?bs ! pos (length ?bs) ?h i) \<noteq> getEmptyKey I \<and> fst (?bs ! pos (length ?bs) ?h i) \<noteq> getEmptyKey I"
    by (rule search_ends [OF k(4)])
  have k32: "k < 32" and le0: "0 \<le> i0" and st: "unat (?h AND (2 ^ k - 1)) = pos (length ?bs) ?h 0"
    using k(1,3) pos_start [of k ?h] by simp_all
  have e: "doFind I (getEmptyKey I) m = find_loop I ?bs (2 ^ k) (getEmptyKey I) (?h AND (2 ^ k - 1)) (of_nat (Suc 0))"
    using k(2) assms(2) by (simp add: doFind_def)
  show ?thesis unfolding dm_contains_def e find_loop_at [OF k(3) k32 i0 le0 st] using i0(1) by simp
qed

lemma dm_erase_ok:
  assumes "info_ok I" and "dm_inv I m" and "is_live I k"
  shows "\<exists>m'. dm_erase I k m = Some (dm_map I m k \<noteq> None, m') \<and> dm_inv I m' \<and> dm_map I m' = (dm_map I m)(k := None) \<and>
    live_count I (Buckets m') \<le> live_count I (Buckets m)"
proof (cases rule: doFind_map [OF assms(2,3), case_names present absent])
  case absent
  then show ?thesis using assms(2) by (intro exI [of _ m]) (auto simp: dm_erase_def fun_eq_iff)
next
  case (present j v)
  let ?bs = "Buckets m" and ?T = "getTombstoneKey I"
  have ne: "getEmptyKey I \<noteq> ?T" using assms(1) by (simp add: info_ok_def)
  have l: "is_live I (fst (?bs ! j))" using present(4) assms(3) by simp
  note te = table_erase [OF present(5,3) l ne]
  have nl: "\<not> is_live I ?T" by (simp add: is_live_def)
  have lc: "live_count I (?bs[j := (?T, None)]) + 1 = live_count I ?bs"
    using live_count_update [OF present(3), of I "(?T, None)"] l nl by simp
  have kt: "k \<noteq> ?T" using assms(3) by (simp add: is_live_def)
  have tc: "key_count ?T (?bs[j := (?T, None)]) = key_count ?T ?bs + 1"
    using key_count_update [OF present(3), of ?T "(?T, None)"] present(4) kt by simp
  have c: "unat (NumEntries m) = live_count I ?bs" "unat (NumTombstones m) = key_count ?T ?bs" "unat (NumBuckets m) = length ?bs"
    using assms(2) by (auto simp: dm_inv_def buckets_ok_def)
  have "NumEntries m \<noteq> 0" using lc c(1) by auto
  then have e: "unat (NumEntries m - 1) = live_count I (?bs[j := (?T, None)])" using lc c(1) by (simp add: unat_minus_one)
  have t: "unat (NumTombstones m + 1) = key_count ?T (?bs[j := (?T, None)])"
    using tc c(2) dm_inv_length [OF assms(2)] counts_add [OF ne, of ?bs] by (simp add: unat_word_ariths)
  have "dm_inv I (erase_bucket I j m)"
    using te(1) e t c(3) by (simp add: dm_inv_def buckets_ok_def erase_bucket_def set_bucket_def)
  moreover have "dm_map I (erase_bucket I j m) = (dm_map I m)(k := None)"
    using te(2) present(4) by (simp add: dm_map_def erase_bucket_def set_bucket_def)
  moreover have "live_count I (Buckets (erase_bucket I j m)) \<le> live_count I ?bs" using lc by (simp add: erase_bucket_def set_bucket_def)
  ultimately show ?thesis using present(1,2) by (simp add: dm_erase_def)
qed

text \<open>The lookup before an insertion, and the insertion of a key that is not there.\<close>

lemma Lookup_map:
  assumes "dm_inv I m" and "is_live I k"
  obtains (present) j v where "LookupBucketFor I k m = Some (True, Some j)" and "dm_map I m k = Some v" and "j < length (Buckets m)"
      and "Buckets m ! j = (k, Some v)" and "table_ok I (Buckets m)"
  | (absent) b where "LookupBucketFor I k m = Some (False, b)" and "dm_map I m k = None"
proof (cases "NumBuckets m = 0")
  case True
  then have "Buckets m = []" using assms(1) by (simp add: dm_inv_def buckets_ok_def)
  then show ?thesis using that(2) [of None] True by (simp add: LookupBucketFor_def dm_map_def tbl_map_def)
next
  case False
  show ?thesis
  proof (cases rule: LookupBucketFor_ok [OF dm_inv_buckets [OF assms(1)] assms(2) False, case_names present absent])
    case (present j)
    then have t: "table_ok I (Buckets m)" using assms(1) by (auto simp: dm_inv_def buckets_ok_def)
    then obtain v where v: "snd (Buckets m ! j) = Some v" using present(2,3) assms(2) by (auto simp: table_ok_def)
    then have "Buckets m ! j = (k, Some v)" using present(3) by (simp add: prod_eq_iff)
    then show ?thesis using that(1) [of j v] present t tbl_map_at [OF t present(2,3) assms(2)] v by (simp add: dm_map_def)
  next
    case (absent j)
    then show ?thesis using that(2) tbl_map_absent [OF absent(5), of I] by (simp add: dm_map_def)
  qed
qed

lemma Insert_ok:
  assumes "info_ok I" and "dm_inv I m" and "is_live I k" and "live_count I (Buckets m) < 2 ^ 28"
    and "LookupBucketFor I k m = Some (False, b)" and "dm_map I m k = None"
  shows "\<exists>i m'. InsertIntoBucket I b k v m = Some (i, m') \<and> dm_inv I m' \<and> dm_map I m' = (dm_map I m)(k \<mapsto> v) \<and>
    live_count I (Buckets m') = live_count I (Buckets m) + 1 \<and> i < length (Buckets m') \<and> fst (Buckets m' ! i) = k"
proof -
  obtain j m' where m': "make_room I k b m = Some (Some j, m')" "dm_inv I m'" "dm_map I m' = dm_map I m"
    "live_count I (Buckets m') = live_count I (Buckets m)" "LookupBucketFor I k m' = Some (False, Some j)"
    "1 < key_count (getEmptyKey I) (Buckets m')"
    using make_room_ok [OF assms(1-3,6,4), of b] assms(5) by blast
  have nb: "NumBuckets m' \<noteq> 0" using m'(5) by (auto simp: LookupBucketFor_def)
  have ne: "getEmptyKey I \<noteq> getTombstoneKey I" using assms(1) by (simp add: info_ok_def)
  have "j < length (Buckets m') \<and> fst (Buckets m' ! j) \<in> {getEmptyKey I, getTombstoneKey I} \<and> reaches I (Buckets m') k j \<and>
    (\<forall>j<length (Buckets m'). fst (Buckets m' ! j) \<noteq> k)"
    by (cases rule: LookupBucketFor_ok [OF dm_inv_buckets [OF m'(2)] assms(3) nb]) (use m'(5) in simp_all)
  then have j: "j < length (Buckets m')" "fst (Buckets m' ! j) \<in> {getEmptyKey I, getTombstoneKey I}" "reaches I (Buckets m') k j"
    "\<forall>j<length (Buckets m'). fst (Buckets m' ! j) \<noteq> k" by blast+
  have "InsertIntoBucket I b k v m = Some (j, stored I j k (Some v) m')" using m'(1) by (simp add: InsertIntoBucket_eq)
  moreover note stored_ok [OF m'(2) ne assms(3) option.distinct(2) j m'(6), of v]
  moreover have "j < length (Buckets (stored I j k (Some v) m'))" "fst (Buckets (stored I j k (Some v) m') ! j) = k"
    using j(1) by (simp_all add: stored_def set_bucket_def)
  ultimately show ?thesis using m'(3,4) by simp
qed

lemma try_emplace_ok:
  assumes "info_ok I" and "dm_inv I m" and "is_live I k" and "live_count I (Buckets m) < 2 ^ 28"
  shows "\<exists>i m'. try_emplace I k v m = Some ((i, dm_map I m k = None), m') \<and> dm_inv I m' \<and>
    dm_map I m' = (if dm_map I m k = None then (dm_map I m)(k \<mapsto> v) else dm_map I m) \<and>
    live_count I (Buckets m') \<le> live_count I (Buckets m) + 1"
proof (cases rule: Lookup_map [OF assms(2,3), case_names present absent])
  case (present j w)
  then show ?thesis using assms(2) by (simp add: try_emplace_def)
next
  case (absent b)
  then show ?thesis using Insert_ok [OF assms absent, of v] by (auto simp: try_emplace_def)
qed

lemma FindAndConstruct_ok:
  assumes "info_ok I" and "dm_inv I m" and "is_live I k" and "live_count I (Buckets m) < 2 ^ 28"
  shows "\<exists>i m'. FindAndConstruct I d k m = Some (i, m') \<and> dm_inv I m' \<and>
    dm_map I m' = (if dm_map I m k = None then (dm_map I m)(k \<mapsto> d) else dm_map I m) \<and>
    live_count I (Buckets m') \<le> live_count I (Buckets m) + 1 \<and> i < length (Buckets m') \<and> fst (Buckets m' ! i) = k"
proof (cases rule: Lookup_map [OF assms(2,3), case_names present absent])
  case (present j w)
  then show ?thesis using assms(2) by (simp add: FindAndConstruct_def)
next
  case (absent b)
  then show ?thesis using Insert_ok [OF assms absent, of d] by (auto simp: FindAndConstruct_def)
qed

lemma dm_assign_ok:
  assumes "info_ok I" and "dm_inv I m" and "is_live I k" and "live_count I (Buckets m) < 2 ^ 28"
  shows "\<exists>m'. dm_assign I d k v m = Some m' \<and> dm_inv I m' \<and> dm_map I m' = (dm_map I m)(k \<mapsto> v) \<and>
    live_count I (Buckets m') \<le> live_count I (Buckets m) + 1"
proof -
  obtain i m1 where m1: "FindAndConstruct I d k m = Some (i, m1)" "dm_inv I m1"
    "dm_map I m1 = (if dm_map I m k = None then (dm_map I m)(k \<mapsto> d) else dm_map I m)"
    "live_count I (Buckets m1) \<le> live_count I (Buckets m) + 1" "i < length (Buckets m1)" "fst (Buckets m1 ! i) = k"
    using FindAndConstruct_ok [OF assms, of d] by blast
  let ?bs = "Buckets m1" and ?m = "set_bucket i (k, Some v) m1"
  have t: "table_ok I ?bs" using m1(2,5) by (auto simp: dm_inv_def buckets_ok_def)
  have ke: "k \<noteq> getEmptyKey I" using assms(3) by (simp add: is_live_def)
  have p: "table_ok I (?bs[i := (k, Some v)])" "tbl_map I (?bs[i := (k, Some v)]) = (tbl_map I ?bs)(k \<mapsto> v)"
    using table_put [OF t m1(5) assms(3), of "Some v"] m1(6) ke by simp_all
  have l: "live_count I (?bs[i := (k, Some v)]) = live_count I ?bs"
    using live_count_update [OF m1(5), of I "(k, Some v)"] m1(6) assms(3) by simp
  have tc: "key_count (getTombstoneKey I) (?bs[i := (k, Some v)]) = key_count (getTombstoneKey I) ?bs"
    using key_count_update [OF m1(5), of "getTombstoneKey I" "(k, Some v)"] m1(6) by simp
  have "dm_inv I ?m" using m1(2) p(1) l tc by (auto simp: dm_inv_def buckets_ok_def set_bucket_def)
  moreover have "dm_map I ?m = (dm_map I m)(k \<mapsto> v)"
    using p(2) m1(3) by (auto simp: dm_map_def set_bucket_def fun_eq_iff split: if_splits)
  ultimately show ?thesis using m1(1,4,6) l by (simp add: dm_assign_def set_bucket_def)
qed

lemma clear_buckets_eq:
  "clear_buckets I bs n = (map (\<lambda>(k, v). (getEmptyKey I, if is_live I k then None else v)) bs, n - of_nat (live_count I bs))"
  by (induction I bs n rule: clear_buckets.induct) (auto simp: is_live_def live_count_def algebra_simps)

lemma dm_clear_ok:
  assumes "info_ok I" and "dm_inv I m"
  shows "\<exists>m'. dm_clear triv I m = Some m' \<and> dm_inv I m' \<and> dm_map I m' = Map.empty \<and> live_count I (Buckets m') \<le> live_count I (Buckets m)"
proof (cases "NumEntries m = 0 \<and> NumTombstones m = 0")
  case True
  then have "live_count I (Buckets m) = 0" using assms(2) by (simp add: dm_inv_def)
  then have nl: "\<forall>b\<in>set (Buckets m). \<not> is_live I (fst b)" by (auto simp: live_count_def filter_empty_conv)
  have "dm_map I m k = None" for k
  proof (cases "is_live I k")
    case True
    then have "\<forall>j<length (Buckets m). fst (Buckets m ! j) \<noteq> k" using nl by (metis nth_mem)
    from tbl_map_absent [OF this, of I] show ?thesis by (simp add: dm_map_def)
  qed (simp add: dm_map_def tbl_map_def)
  then show ?thesis using True assms(2) by (auto simp: dm_clear_def)
next
  case False
  have c: "unat (NumEntries m) = live_count I (Buckets m)" using assms(2) by (simp add: dm_inv_def)
  then have n: "NumEntries m = of_nat (live_count I (Buckets m))" by (metis of_nat_unat ucast_id)
  define bs where "bs = map (\<lambda>(k, v). (getEmptyKey I, if \<not> triv \<and> is_live I k then None else v)) (Buckets m)"
  have bs: "dm_clear triv I m = Some (m\<lparr>Buckets := bs, NumEntries := 0, NumTombstones := 0\<rparr>)"
    "all_empty I bs" "length bs = length (Buckets m)"
    using False n by (cases triv; simp add: dm_clear_def clear_buckets_eq bs_def)
      (auto simp: all_empty_def bs_def)
  have ne: "getEmptyKey I \<noteq> getTombstoneKey I" using assms(1) by (simp add: info_ok_def)
  note ec = all_empty_counts [OF bs(2) ne]
  have t: "bs \<noteq> [] \<Longrightarrow> table_ok I bs" "tbl_map I bs = Map.empty"
  proof -
    show "table_ok I bs" if nonempty: "bs \<noteq> []"
    proof -
      obtain k where "k < 31" "length bs = 2 ^ k" using nonempty assms(2) bs(3) by (auto simp: dm_inv_def buckets_ok_def table_ok_def)
      then show ?thesis using all_empty_table(1) [OF bs(2)] by blast
    qed
    show "tbl_map I bs = Map.empty"
      using bs(2) by (auto simp: tbl_map_def all_empty_def is_live_def find_Some_iff fun_eq_iff split: option.split)
  qed
  then have "dm_inv I (m\<lparr>Buckets := bs, NumEntries := 0, NumTombstones := 0\<rparr>)"
    using assms(2) bs(3) ec by (auto simp: dm_inv_def buckets_ok_def)
  then show ?thesis using bs(1) t(2) ec(1) by (simp add: dm_map_def)
qed

lemma dm_reserve_ok:
  assumes "info_ok I" and "dm_inv I m" and "unat n \<le> 2 ^ 28"
  shows "\<exists>m'. dm_reserve I n m = Some m' \<and> dm_inv I m' \<and> dm_map I m' = dm_map I m \<and> live_count I (Buckets m') = live_count I (Buckets m)"
proof (cases "n = 0")
  case True
  then show ?thesis using assms(2) by (simp add: dm_reserve_def getMinBucketToReserveForEntries_def word_gt_0)
next
  case False
  have "unat (n * 4 div 3 + 1 + 1) = unat n * 4 div 3 + 2" using assms(3) by (simp add: unat_word_ariths unat_div)
  moreover have "unat n * 4 div 3 + 2 \<le> 2 ^ 30" using assms(3) by simp
  ultimately have "0 < unat (n * 4 div 3 + 1 + 1)" "unat (n * 4 div 3 + 1 + 1) \<le> 2 ^ 30" by simp_all
  then obtain k where k: "k < 31" "RoundUpToPowerOfTwo (ucast (n * 4 div 3 + 1 + 1)) = Some (2 ^ k)"
    using RoundUp_small [of "n * 4 div 3 + 1 + 1"] by blast
  have r: "getMinBucketToReserveForEntries n = Some (2 ^ k)"
    using False k ucast_exp32 [of k] by (simp add: getMinBucketToReserveForEntries_def)
  show ?thesis
  proof (cases "2 ^ k > NumBuckets m")
    case False
    then show ?thesis using assms(2) r by (simp add: dm_reserve_def)
  next
    case True
    have u: "unat (2 ^ k :: u32) = 2 ^ k" using k(1) by (intro unat_exp32) simp
    have "live_count I (Buckets m) \<le> unat (NumBuckets m)" using assms(2) live_count_le [of I "Buckets m"] by (simp add: dm_inv_def buckets_ok_def)
    then have c: "live_count I (Buckets m) < max 64 (unat (2 ^ k :: u32))" using True by (simp add: word_less_nat_alt)
    have "unat (2 ^ k :: u32) \<le> 2 ^ 30" unfolding u using k(1) by (intro power_increasing) simp_all
    from grow_ok [OF assms(1,2) this c] show ?thesis using r True by (auto simp: dm_reserve_def)
  qed
qed

section \<open>Iteration, comparison and copies\<close>

lemma live_count_dom:
  assumes "table_ok I bs"
  shows "live_count I bs = card (dom (tbl_map I bs))" and "finite (dom (tbl_map I bs))"
proof -
  let ?S = "{i. i < length bs \<and> is_live I (fst (bs ! i))}"
  have v: "\<exists>v. bs ! i = (fst (bs ! i), Some v)" if "i \<in> ?S" for i
    using assms that by (cases "bs ! i") (auto simp: table_ok_def)
  have d: "dom (tbl_map I bs) = (\<lambda>i. fst (bs ! i)) ` ?S"
  proof (intro equalityI subsetI)
    fix k assume "k \<in> dom (tbl_map I bs)"
    then obtain w where "tbl_map I bs k = Some w" by blast
    then show "k \<in> (\<lambda>i. fst (bs ! i)) ` ?S" unfolding tbl_map_Some_iff [OF assms] by (auto simp: image_iff)
  next
    fix k assume "k \<in> (\<lambda>i. fst (bs ! i)) ` ?S"
    then obtain i where i: "i \<in> ?S" "k = fst (bs ! i)" by blast
    then obtain w where "bs ! i = (k, Some w)" using v by blast
    then have "tbl_map I bs k = Some w" unfolding tbl_map_Some_iff [OF assms] using i by auto
    then show "k \<in> dom (tbl_map I bs)" by blast
  qed
  have "inj_on (\<lambda>i. fst (bs ! i)) ?S" using table_unique [OF assms] by (auto intro: inj_onI)
  then have "card (dom (tbl_map I bs)) = card ?S" unfolding d by (rule card_image)
  then show "live_count I bs = card (dom (tbl_map I bs))" by (simp add: live_count_def length_filter_conv_card)
  show "finite (dom (tbl_map I bs))" unfolding d by simp
qed

lemma dm_size:
  assumes "dm_inv I m"
  shows "unat (NumEntries m) = card (dom (dm_map I m))" and "finite (dom (dm_map I m))"
proof -
  have "live_count I (Buckets m) = card (dom (dm_map I m)) \<and> finite (dom (dm_map I m))"
  proof (cases "Buckets m = []")
    case True
    then show ?thesis by (simp add: dm_map_def tbl_map_def live_count_def dom_def)
  next
    case False
    then show ?thesis using live_count_dom assms by (auto simp: dm_map_def dm_inv_def buckets_ok_def)
  qed
  then show "unat (NumEntries m) = card (dom (dm_map I m))" "finite (dom (dm_map I m))" using assms by (simp_all add: dm_inv_def)
qed

lemma eq_loop:
  assumes "dm_inv I r"
  shows "forEach I (eq_step I r) bs b = Some (b \<and> (\<forall>(k, v)\<in>set bs. is_live I k \<longrightarrow> v \<noteq> None \<longrightarrow> dm_map I r k = v)) \<or>
    (\<exists>(k, v)\<in>set bs. is_live I k \<and> v = None)"
proof (induction bs)
  case (Cons x bs)
  obtain k v where x: "x = (k, v)" by (cases x)
  show ?case
  proof (cases "is_live I k \<and> v \<noteq> None")
    case True
    then have l: "is_live I k" by simp
    show ?thesis
      by (cases rule: doFind_map [OF assms l]) (use Cons x True in \<open>auto simp: eq_step_def\<close>)
  qed (use Cons x in auto)
qed simp

text \<open>A copy has the same entries: the number of buckets already fills the page, so the copy gets as many.\<close>

definition fills_page :: "'k dense_info \<Rightarrow> ('k, 'v) DenseMap \<Rightarrow> bool" where
  "fills_page I m \<longleftrightarrow> NumBuckets m = 0 \<or> \<not> sizeof_BucketT I * ucast (NumBuckets m) * 2 \<le> GetPageSizeCached I"

lemma table_cong:
  assumes t: "table_ok I bs" and len: "length bs' = length bs"
    and f: "\<And>j. j < length bs \<Longrightarrow> fst (bs' ! j) = fst (bs ! j)"
    and v: "\<And>j. j < length bs \<Longrightarrow> is_live I (fst (bs ! j)) \<Longrightarrow> snd (bs' ! j) = snd (bs ! j)"
  shows "table_ok I bs'" and "tbl_map I bs' = tbl_map I bs"
proof -
  have "0 < length bs" using t by (auto simp: table_ok_def)
  then have "fst (bs' ! pos (length bs) h i) = fst (bs ! pos (length bs) h i)" for h i using f by simp
  then have r: "reaches I bs' k j = reaches I bs k j" for k j by (simp add: reaches_def len)
  have "\<forall>j<length bs. is_live I (fst (bs' ! j)) \<longrightarrow> snd (bs' ! j) \<noteq> None \<and> reaches I bs' (fst (bs' ! j)) j"
    using t f v by (auto simp: table_ok_def r)
  moreover have "\<forall>i<length bs. \<forall>j<length bs. is_live I (fst (bs' ! i)) \<and> fst (bs' ! i) = fst (bs' ! j) \<longrightarrow> i = j"
    using f table_unique [OF t] by auto
  moreover have "\<exists>j<length bs. fst (bs' ! j) = getEmptyKey I" "\<exists>k<31. length bs = 2 ^ k" using t f by (auto simp: table_ok_def)
  ultimately show t': "table_ok I bs'" unfolding table_ok_def len by blast
  have e: "bs' ! j = (k, Some w) \<longleftrightarrow> bs ! j = (k, Some w)" if "j < length bs" "is_live I k" for j k w
    using f [OF that(1)] v [OF that(1)] that(2) by (cases "bs ! j"; cases "bs' ! j") auto
  have "tbl_map I bs' k = Some w \<longleftrightarrow> tbl_map I bs k = Some w" for k w
    unfolding tbl_map_Some_iff [OF t] tbl_map_Some_iff [OF t'] len using e by blast
  then have "tbl_map I bs' k = tbl_map I bs k" for k by (metis option.exhaust)
  then show "tbl_map I bs' = tbl_map I bs" by blast
qed

lemma dm_copyFrom_ok:
  assumes "dm_inv I other" and "fills_page I other"
  shows "\<exists>m'. dm_copyFrom triv I other m = Some m' \<and> dm_inv I m' \<and> dm_map I m' = dm_map I other"
proof (cases "NumBuckets other = 0")
  case True
  then have "Buckets other = []" using assms(1) by (simp add: dm_inv_def buckets_ok_def)
  then show ?thesis using True
    by (auto simp: dm_copyFrom_def allocateBuckets_def dm_inv_def buckets_ok_def live_count_def key_count_def dm_map_def tbl_map_def)
next
  case False
  let ?new = "if triv then Buckets other
    else map (\<lambda>((_, old), (k, v)). (k, if is_live I k then v else old)) (zip (replicate (unat (NumBuckets other)) (zero_key I, None)) (Buckets other))"
  let ?m = "m\<lparr>NumBuckets := NumBuckets other, NumEntries := NumEntries other, NumTombstones := NumTombstones other, Buckets := ?new\<rparr>"
  have c: "dm_copyFrom triv I other m = Some ?m"
    using False assms(2) by (simp add: dm_copyFrom_def allocateBuckets_def base_copyFrom_def fills_page_def Let_def)
  have t: "table_ok I (Buckets other)" and len: "unat (NumBuckets other) = length (Buckets other)"
    using False assms(1) by (auto simp: dm_inv_def buckets_ok_def unat_eq_0)
  have ln: "length ?new = length (Buckets other)" using len by simp
  have nth: "fst (?new ! j) = fst (Buckets other ! j)" "is_live I (fst (Buckets other ! j)) \<Longrightarrow> snd (?new ! j) = snd (Buckets other ! j)"
    if "j < length (Buckets other)" for j using that len by (simp_all add: split_beta)
  have fsts: "map fst ?new = map fst (Buckets other)" using ln nth(1) by (intro nth_equalityI) simp_all
  have cnt: "length (filter (\<lambda>b. P (fst b)) bs) = length (filter P (map fst bs))" for P and bs :: "('a, 'b) dense_bucket list"
    by (simp add: filter_map comp_def)
  have counts: "live_count I ?new = live_count I (Buckets other)" "key_count k ?new = key_count k (Buckets other)" for k
    unfolding live_count_def key_count_def cnt [of "is_live I"] cnt [of "\<lambda>x. x = k"] fsts by simp_all
  have t': "table_ok I ?new" by (rule table_cong [OF t ln nth])
  have "tbl_map I ?new = tbl_map I (Buckets other)" by (rule table_cong [OF t ln nth])
  moreover have "dm_inv I ?m" using assms(1) t' ln counts by (simp add: dm_inv_def buckets_ok_def)
  ultimately show ?thesis using c by (simp add: dm_map_def)
qed

section \<open>Sequences of operations\<close>

datatype ('k, 'v) map_op = MEmplace 'k 'v | MAssign 'k 'v | MErase 'k | MLookup 'k | MContains 'k | MClear | MReserve u32

datatype 'v map_res = RUnit | RBool bool | RVal 'v

fun dm_step :: "bool \<Rightarrow> 'k dense_info \<Rightarrow> 'v \<Rightarrow> ('k, 'v) map_op \<Rightarrow> ('k, 'v) DenseMap \<Rightarrow> ('v map_res \<times> ('k, 'v) DenseMap) option" where
  "dm_step triv I d (MEmplace k v) m = map_option (\<lambda>((_, b), m). (RBool b, m)) (try_emplace I k v m)"
| "dm_step triv I d (MAssign k v) m = map_option (\<lambda>m. (RUnit, m)) (dm_assign I d k v m)"
| "dm_step triv I d (MErase k) m = map_option (\<lambda>(b, m). (RBool b, m)) (dm_erase I k m)"
| "dm_step triv I d (MLookup k) m = map_option (\<lambda>v. (RVal v, m)) (dm_lookup I d k m)"
| "dm_step triv I d (MContains k) m = map_option (\<lambda>b. (RBool b, m)) (dm_contains I k m)"
| "dm_step triv I d MClear m = map_option (\<lambda>m. (RUnit, m)) (dm_clear triv I m)"
| "dm_step triv I d (MReserve n) m = map_option (\<lambda>m. (RUnit, m)) (dm_reserve I n m)"

fun map_step :: "'v \<Rightarrow> ('k, 'v) map_op \<Rightarrow> ('k \<rightharpoonup> 'v) \<Rightarrow> 'v map_res \<times> ('k \<rightharpoonup> 'v)" where
  "map_step d (MEmplace k v) M = (RBool (M k = None), if M k = None then M(k \<mapsto> v) else M)"
| "map_step d (MAssign k v) M = (RUnit, M(k \<mapsto> v))"
| "map_step d (MErase k) M = (RBool (M k \<noteq> None), M(k := None))"
| "map_step d (MLookup k) M = (RVal (case M k of Some v \<Rightarrow> v | None \<Rightarrow> d), M)"
| "map_step d (MContains k) M = (RBool (M k \<noteq> None), M)"
| "map_step d MClear M = (RUnit, Map.empty)"
| "map_step d (MReserve n) M = (RUnit, M)"

fun op_ok :: "'k dense_info \<Rightarrow> ('k, 'v) map_op \<Rightarrow> bool" where
  "op_ok I (MEmplace k v) = is_live I k"
| "op_ok I (MAssign k v) = is_live I k"
| "op_ok I (MErase k) = is_live I k"
| "op_ok I (MLookup k) = is_live I k"
| "op_ok I (MContains k) = is_live I k"
| "op_ok I MClear = True"
| "op_ok I (MReserve n) = (unat n \<le> 2 ^ 28)"

fun run_ops :: "('o \<Rightarrow> 's \<Rightarrow> ('r \<times> 's) option) \<Rightarrow> 'o list \<Rightarrow> 's \<Rightarrow> ('r list \<times> 's) option" where
  "run_ops step [] s = Some ([], s)"
| "run_ops step (p # ps) s = do { (r, s) \<leftarrow> step p s; (rs, s) \<leftarrow> run_ops step ps s; Some (r # rs, s) }"

fun run_spec :: "('o \<Rightarrow> 'a \<Rightarrow> 'r \<times> 'a) \<Rightarrow> 'o list \<Rightarrow> 'a \<Rightarrow> 'r list \<times> 'a" where
  "run_spec spec [] a = ([], a)"
| "run_spec spec (p # ps) a = (let (r, a) = spec p a; (rs, a) = run_spec spec ps a in (r # rs, a))"

text \<open>An implementation that simulates a specification for a number of operations; \<open>inv n\<close> says that it can take \<open>n\<close> more.\<close>

locale map_simulation =
  fixes step :: "'o \<Rightarrow> 's \<Rightarrow> ('r \<times> 's) option"
    and spec :: "'o \<Rightarrow> 'a \<Rightarrow> 'r \<times> 'a"
    and abs :: "'s \<Rightarrow> 'a"
    and inv :: "nat \<Rightarrow> 's \<Rightarrow> bool"
    and ok :: "'o \<Rightarrow> bool"
  assumes sim: "inv (Suc n) s \<Longrightarrow> ok p \<Longrightarrow> \<exists>r s'. step p s = Some (r, s') \<and> spec p (abs s) = (r, abs s') \<and> inv n s'"
begin

lemma run_refines:
  assumes "inv (length ps + n) s" and "list_all ok ps"
  shows "\<exists>rs s'. run_ops step ps s = Some (rs, s') \<and> run_spec spec ps (abs s) = (rs, abs s') \<and> inv n s'"
  using assms
proof (induction ps arbitrary: s)
  case (Cons p ps)
  then obtain r s1 where s1: "step p s = Some (r, s1)" "spec p (abs s) = (r, abs s1)" "inv (length ps + n) s1"
    using sim [of "length ps + n" s p] by auto
  then show ?case using Cons.IH [OF s1(3)] Cons.prems(2) by auto
qed simp

end

locale dense_keys =
  fixes I :: "'k dense_info" and d :: 'v and triv :: bool
  assumes info: "info_ok I"

sublocale dense_keys \<subseteq> dense: map_simulation "dm_step triv I d" "map_step d" "dm_map I"
  "\<lambda>n m. dm_inv I m \<and> live_count I (Buckets m) + n \<le> 2 ^ 28" "op_ok I"
proof
  fix n and m :: "('k, 'v) DenseMap" and p :: "('k, 'v) map_op"
  assume i: "dm_inv I m \<and> live_count I (Buckets m) + Suc n \<le> 2 ^ 28" and p: "op_ok I p"
  then have c: "live_count I (Buckets m) < 2 ^ 28" by simp
  show "\<exists>r m'. dm_step triv I d p m = Some (r, m') \<and> map_step d p (dm_map I m) = (r, dm_map I m') \<and>
    dm_inv I m' \<and> live_count I (Buckets m') + n \<le> 2 ^ 28"
  proof (cases p)
    case (MEmplace k v)
    then show ?thesis using try_emplace_ok [OF info _ _ c, of k v] i p by fastforce
  next
    case (MAssign k v)
    then show ?thesis using dm_assign_ok [OF info _ _ c, of k d v] i p by fastforce
  next
    case (MErase k)
    then show ?thesis using dm_erase_ok [OF info, of m k] i p by fastforce
  next
    case (MLookup k)
    then show ?thesis using dm_lookup_ok [of I m k d] i p by simp
  next
    case (MContains k)
    then show ?thesis using dm_contains_ok [of I m k] i p by simp
  next
    case MClear
    then show ?thesis using dm_clear_ok [OF info, of m triv] i by fastforce
  next
    case (MReserve n)
    then show ?thesis using dm_reserve_ok [OF info, of m n] i p by fastforce
  qed
qed

section \<open>The theorems\<close>

lemma new_DenseMap_ok: "dm_inv I new_DenseMap" "dm_map I new_DenseMap = Map.empty" "live_count I (Buckets new_DenseMap) = 0"
  by (auto simp: new_DenseMap_def dm_inv_def buckets_ok_def live_count_def key_count_def dm_map_def tbl_map_def)

text \<open>
  The key traits of the maps that the runtime uses, for pages of 4096 bytes: \<^verbatim>\<open>ThreadRegistry::live_\<close>, the root regions of the leak
  checker, and the dictionary of the LZW encoder.
\<close>

definition live_info :: "uptr dense_info" where "live_info = DenseMapInfo_unsigned_long 16 4096"

definition root_region_info :: "(uptr \<times> uptr) dense_info" where
  "root_region_info = DenseMapInfo_pair (DenseMapInfo_unsigned_long 8 4096) (DenseMapInfo_unsigned_long 8 4096) 24 4096"

definition lzw_info :: "(u32 \<times> uptr) dense_info" where
  "lzw_info = DenseMapInfo_pair (DenseMapInfo_unsigned 4 4096) (DenseMapInfo_unsigned_long 8 4096) 24 4096"

lemma page_4096: "\<exists>p\<le>16. (4096 :: uptr) = 2 ^ p" by (rule exI [of _ 12]) simp

lemma live_info_ok: "info_ok live_info"
  using page_4096 by (simp add: info_ok_def live_info_def DenseMapInfo_unsigned_long_def word_less_nat_alt word_le_nat_alt)

lemma root_region_info_ok: "info_ok root_region_info"
  using page_4096
  by (simp add: info_ok_def root_region_info_def DenseMapInfo_pair_def DenseMapInfo_unsigned_long_def word_less_nat_alt word_le_nat_alt)

lemma lzw_info_ok: "info_ok lzw_info"
  using page_4096
  by (simp add: info_ok_def lzw_info_def DenseMapInfo_pair_def DenseMapInfo_unsigned_long_def DenseMapInfo_unsigned_def
      word_less_nat_alt word_le_nat_alt)

context dense_keys
begin

lemma refines_from_new:
  assumes "length ops \<le> 2 ^ 28" and "list_all (op_ok I) ops"
  shows "\<exists>rs m. run_ops (dm_step triv I d) ops new_DenseMap = Some (rs, m) \<and>
    run_spec (map_step d) ops Map.empty = (rs, dm_map I m) \<and> dm_inv I m"
proof -
  have "dm_inv I (new_DenseMap :: ('k, 'v) DenseMap) \<and> live_count I (Buckets (new_DenseMap :: ('k, 'v) DenseMap)) + (length ops + 0) \<le> 2 ^ 28"
    using assms(1) by (simp add: new_DenseMap_ok(1,3))
  from dense.run_refines [OF this assms(2)] show ?thesis unfolding new_DenseMap_ok(2) by blast
qed

end

interpretation live_threads: dense_keys live_info "0 :: u32" True by unfold_locales (rule live_info_ok)

interpretation root_regions: dense_keys root_region_info "0 :: uptr" True by unfold_locales (rule root_region_info_ok)

interpretation lzw_dictionary: dense_keys lzw_info "0 :: u32" True by unfold_locales (rule lzw_info_ok)

text \<open>
  C9: A dense map refines a finite map. For every key traits whose two reserved keys differ, any sequence of at most 2^28 operations
  (emplacing, assigning through \<^verbatim>\<open>operator[]\<close>, erasing, looking up, testing, clearing, reserving) on keys that are not reserved, started
  on the empty table, completes: no probe sequence runs forever and no check fails. All results are those of the operations on a partial
  function, the table then stands for the resulting function, and its size is the number of keys. Triangular probing, tombstones and growth are all
  covered, and values may have destructors or not.
\<close>

theorem dense_map_refines:
  assumes "info_ok I" and "length ops \<le> 2 ^ 28" and "list_all (op_ok I) ops"
  shows "\<exists>rs m. run_ops (dm_step triv I d) ops new_DenseMap = Some (rs, m) \<and>
    run_spec (map_step d) ops Map.empty = (rs, dm_map I m) \<and> unat (NumEntries m) = card (dom (dm_map I m))"
proof -
  have "dense_keys I" using assms(1) by (rule dense_keys.intro)
  from dense_keys.refines_from_new [OF this assms(2,3), of triv d]
  show ?thesis using dm_size(1) by blast
qed

definition example_ops :: "(uptr, u32) map_op list" where
  "example_ops = [MEmplace 5 1, MAssign 5 2, MEmplace 5 3, MLookup 5, MErase 5, MContains 5, MReserve 1000, MAssign 6 4, MLookup 6, MLookup 7]"

theorem dense_map_refines_witness:
  "\<exists>m. run_ops (dm_step True live_info 0) example_ops new_DenseMap =
     Some ([RBool True, RUnit, RBool False, RVal 2, RBool True, RBool False, RUnit, RUnit, RVal 4, RVal 0], m) \<and>
     unat (NumEntries m) = 1"
proof -
  have "list_all (op_ok live_info) example_ops"
    by (simp add: example_ops_def is_live_def live_info_def DenseMapInfo_unsigned_long_def)
  moreover have "length example_ops \<le> 2 ^ 28" by (simp add: example_ops_def)
  ultimately obtain rs m where m: "run_ops (dm_step True live_info 0) example_ops new_DenseMap = Some (rs, m)"
    "run_spec (map_step 0) example_ops Map.empty = (rs, dm_map live_info m)" "unat (NumEntries m) = card (dom (dm_map live_info m))"
    using dense_map_refines [OF live_info_ok, of example_ops True 0] by blast
  have "run_spec (map_step 0) example_ops Map.empty =
      ([RBool True, RUnit, RBool False, RVal 2, RBool True, RBool False, RUnit, RUnit, RVal 4, RVal 0], [6 \<mapsto> 4])"
    by (simp add: example_ops_def)
  with m(2) have "rs = [RBool True, RUnit, RBool False, RVal 2, RBool True, RBool False, RUnit, RUnit, RVal 4, RVal 0]"
    and "dm_map live_info m = [6 \<mapsto> 4]" by simp_all
  with m(1,3) show ?thesis by simp
qed

text \<open>
  C30: Comparison of dense maps. For two tables that represent maps (of any sizes, with tombstones anywhere), \<^verbatim>\<open>operator==\<close> returns, and returns whether
  the two stand for the same function, although it compares the numbers of entries and then only looks up the entries of the left table in the right one.
\<close>

theorem dense_map_equality:
  assumes l: "dm_inv I l" and r: "dm_inv I r"
  shows "dm_eq I l r = Some (dm_map I l = dm_map I r)"
proof -
  have live: "dm_map I l k = Some v \<longleftrightarrow> is_live I k \<and> (k, Some v) \<in> set (Buckets l)" for k v
  proof (cases "Buckets l = []")
    case False
    then show ?thesis using l tbl_map_Some_iff [of I "Buckets l" k v] by (auto simp: dm_map_def dm_inv_def buckets_ok_def in_set_conv_nth)
  qed (simp add: dm_map_def tbl_map_def)
  have val: "v \<noteq> None" if kv: "(k, v) \<in> set (Buckets l)" "is_live I k" for k v
  proof -
    obtain j where j: "j < length (Buckets l)" "Buckets l ! j = (k, v)" using kv(1) by (auto simp: in_set_conv_nth)
    then have "table_ok I (Buckets l)" using l by (auto simp: dm_inv_def buckets_ok_def)
    then show ?thesis using j kv(2) by (auto simp: table_ok_def)
  qed
  let ?sub = "\<forall>(k, v)\<in>set (Buckets l). is_live I k \<longrightarrow> v \<noteq> None \<longrightarrow> dm_map I r k = v"
  have loop: "dm_forEach I (eq_step I r) l True = Some ?sub"
    using eq_loop [OF r, of "Buckets l" True] val by (auto simp: dm_forEach_def)
  have sub: "?sub \<longleftrightarrow> dm_map I l \<subseteq>\<^sub>m dm_map I r"
  proof
    assume ?sub
    show "dm_map I l \<subseteq>\<^sub>m dm_map I r" unfolding map_le_def
    proof
      fix k assume "k \<in> dom (dm_map I l)"
      then obtain v where v: "dm_map I l k = Some v" by blast
      then show "dm_map I l k = dm_map I r k" using \<open>?sub\<close> live [of k v] by auto
    qed
  next
    assume le: "dm_map I l \<subseteq>\<^sub>m dm_map I r"
    show ?sub
    proof (clarify)
      fix k v assume "(k, Some v) \<in> set (Buckets l)" "is_live I k"
      then have "dm_map I l k = Some v" using live by simp
      then show "dm_map I r k = Some v" using le unfolding map_le_def by (metis domI)
    qed
  qed
  have eq: "(dm_map I l = dm_map I r) \<longleftrightarrow> ?sub \<and> NumEntries l = NumEntries r"
  proof
    assume "?sub \<and> NumEntries l = NumEntries r"
    then have s: "dm_map I l \<subseteq>\<^sub>m dm_map I r" and c: "card (dom (dm_map I l)) = card (dom (dm_map I r))"
      using sub dm_size(1) [OF l] dm_size(1) [OF r] by auto
    then have "dom (dm_map I l) = dom (dm_map I r)" using dm_size(2) [OF r] by (intro card_subset_eq) (auto dest: map_le_implies_dom_le)
    then show "dm_map I l = dm_map I r" using s by (intro map_le_antisym) (auto simp: map_le_def)
  next
    assume "dm_map I l = dm_map I r"
    then show "?sub \<and> NumEntries l = NumEntries r" using sub dm_size(1) [OF l] dm_size(1) [OF r] by (auto simp: word_unat_eq_iff)
  qed
  show ?thesis unfolding eq using loop by (auto simp: dm_eq_def)
qed

theorem dense_map_equality_witness:
  "\<exists>m. dm_map live_info m = [6 \<mapsto> 4 :: u32] \<and> dm_eq live_info m m = Some True \<and> dm_eq live_info m new_DenseMap = Some False"
proof -
  have "list_all (op_ok live_info) [MAssign 6 4 :: (uptr, u32) map_op]"
    by (simp add: is_live_def live_info_def DenseMapInfo_unsigned_long_def)
  from live_threads.refines_from_new [OF _ this] obtain m :: "(uptr, u32) DenseMap"
    where m: "dm_inv live_info m" "dm_map live_info m = [6 \<mapsto> 4]" by auto
  have "dm_eq live_info m m = Some True" using dense_map_equality [OF m(1) m(1)] by simp
  moreover have "dm_eq live_info m new_DenseMap = Some False"
    using dense_map_equality [OF m(1) new_DenseMap_ok(1)] m(2) by (simp add: new_DenseMap_ok(2) fun_eq_iff)
  ultimately show ?thesis using m(2) by blast
qed

end
