(* ===== verification/Spec2Isabelle.thy ===== *)
theory Spec2Isabelle
  imports San_Prelude San_Math San_Libc Ring_Buffer Asan_Mapping Asan_Poison Asan_Region
    Asan_Shadow Asan_Container Asan_Container_Proofs Bit_Vector Two_Level_Bit_Vector
    Bv_Graph Deadlock_Detector Deadlock_Proofs Dd_Mutex Thread_Registry Thread_Registry_Proofs
    Intrusive_List Quarantine Quarantine_Proofs San_Sort San_Range Leb128 Lzw
    Size_Class_Map
    Asan_Allocator
    Asan_Heap
    Asan_Allocator_Proofs
    Asan_Heap_Proofs
    San_Mutex
    San_Mutex_Proofs
    Fake_Stack
    Fake_Stack_Proofs
    Fake_Stack_Pool
    Thread_Arg_Retval
    Asan_Thread
    Marking
    Lsan
    Lsan_Scan
    Lsan_Roots
    Lsan_Proofs
    Lsan_Report
    Lsan_Report_Proofs
    Stack_Store
    Stack_Store_Proofs
    Stack_Depot
    Stack_Depot_Proofs
    Dense_Map
    Dense_Map_Proofs
    Dense_Map_Ops
    Dense_Map_Spec
begin

text \<open>
  \<^bold>\<open>The AddressSanitizer and LeakSanitizer runtime\<close>

  The repository is a runtime library that is linked into programs the compiler has instrumented. A
  byte of shadow memory describes eight bytes of application memory; instrumented code reads it before
  every access, and the runtime writes it: when heap memory is allocated and freed, when stack
  frames are entered and left, when a container or the user says so. At exit the runtime looks for
  heap blocks that the program can no longer reach. The library proper is under \<^verbatim>\<open>src/asan\<close> and
  \<^verbatim>\<open>src/lsan\<close>; both stand on \<^verbatim>\<open>src/sanitizer_common\<close>, which has containers, locks, thread bookkeeping,
  a deadlock detector and the storage of stack traces, written without the C++ library since the runtime
  must not call the functions it intercepts.

  \<^bold>\<open>Conventions\<close> (\<open>San_Prelude\<close>)

  The target is a 64-bit machine. Integers have their width (\<open>uptr\<close>, \<open>u64\<close>, \<open>u32\<close>, \<open>u16\<close>, \<open>u8\<close> are words) and
  wrap; where the code bounds a quantity far below its width (indices, size classes, lengths of lists) the model uses
  natural numbers and says so in its theory. A failing \<^verbatim>\<open>CHECK\<close>, \<^verbatim>\<open>Die\<close>, a null dereference or an access outside
  an array makes a function return \<^const>\<open>None\<close>; a claim that a function returns is stated with \<^const>\<open>Some\<close>.
  Objects with a state are records, passed and returned. Memory is a function from addresses to bytes where
  addresses matter (shadow, heap, fake stacks), a store of linked nodes where only links matter.
  The collections \<open>san_check\<close> and \<open>san_unat\<close> hold the rewrite rules for checks and for words read as numbers.

  \<^bold>\<open>Shared helpers\<close>

  \<^item> \<open>San_Math\<close> (\<^verbatim>\<open>sanitizer_common.h\<close>): bit scans, powers of two, rounding to an alignment, character classes; each
    is proved equal to its arithmetic meaning.
  \<^item> \<open>San_Libc\<close> (\<^verbatim>\<open>sanitizer_libc.cpp\<close>): the memory functions over a byte memory. Overlapping moves copy the old contents;
    the fast path of \<^verbatim>\<open>internal_memset\<close> agrees with the byte loop for byte values, and only for those.
  \<^item> \<open>San_Sort\<close> (\<^verbatim>\<open>sanitizer_common.h\<close>): heap sort, binary search and deduplication. The locale \<open>weak_order\<close> is what they need of a
    comparator; it is interpreted for \<^verbatim>\<open>CompareLess\<close>, for the events of \<open>San_Range\<close>, and for linear orders in \<open>Lsan_Roots\<close>.
  \<^item> \<open>San_Range\<close> (\<^verbatim>\<open>sanitizer_range.cpp\<close>): \<^verbatim>\<open>Intersect\<close> returns the maximal ranges common to two lists of ranges.
  \<^item> \<open>Ring_Buffer\<close> (\<^verbatim>\<open>sanitizer_ring_buffer.h\<close>): \<^verbatim>\<open>RingBuffer\<close> implements the locale \<open>bounded_history\<close>: it keeps the last
    elements pushed. The records of poisoning use it.
  \<^item> \<open>Intrusive_List\<close> (\<^verbatim>\<open>sanitizer_list.h\<close>): every list operation refines the operation on HOL lists, and lists over
    one store do not disturb each other.
  \<^item> \<open>Leb128\<close>, \<open>Lzw\<close> (\<^verbatim>\<open>sanitizer_leb128.h\<close>, \<^verbatim>\<open>sanitizer_lzw.h\<close>): codecs with their round trips and size bounds.
  \<^item> \<open>Size_Class_Map\<close> (\<^verbatim>\<open>sanitizer_allocator_size_class_map.h\<close>): \<^verbatim>\<open>ClassID\<close> finds the smallest class that fits.
  \<^item> \<open>Dense_Map\<close>, \<open>Dense_Map_Proofs\<close>, \<open>Dense_Map_Ops\<close>, \<open>Dense_Map_Spec\<close> (\<^verbatim>\<open>sanitizer_dense_map.h\<close>, \<^verbatim>\<open>sanitizer_dense_map_info.h\<close>): the hash table behind
    the thread registry, the arguments of threads, the root regions and the LZW dictionary. Triangular probing visits every bucket, so searches end; any sequence
    of operations refines a partial function (the locales \<open>map_simulation\<close> and \<open>dense_keys\<close>, interpreted for the traits of these maps).
    The components that use it represent it by its contents.

  \<^bold>\<open>Shadow memory\<close> (\<^verbatim>\<open>src/asan\<close>)

  \<^item> \<open>Asan_Mapping\<close> (\<^verbatim>\<open>asan_mapping.h\<close>): address to shadow and back, the partition of the address space, \<^verbatim>\<open>AddressIsPoisoned\<close>.
  \<^item> \<open>Asan_Poison\<close>, \<open>Asan_Region\<close>, \<open>Asan_Shadow\<close> (\<^verbatim>\<open>asan_poisoning.{h,cpp}\<close>): \<^verbatim>\<open>PoisonShadow\<close>,
    \<^verbatim>\<open>FastPoisonShadow\<close>, the user's poisoning and unpoisoning, region queries, the checks and reports of access to a range.
    They say exactly which bytes are poisoned afterwards, as a function of the bytes poisoned before.
  \<^item> \<open>Asan_Container\<close>, \<open>Asan_Container_Proofs\<close> (\<^verbatim>\<open>asan_poisoning.cpp\<close>): container annotations; the verification functions
    decide a predicate on the shadow that the annotation functions keep.

  \<^bold>\<open>Heap\<close>

  \<^item> \<open>Quarantine\<close>, \<open>Quarantine_Proofs\<close> (\<^verbatim>\<open>sanitizer_quarantine.h\<close>): batches, caches and the global queue. The
    step relation \<open>qstep\<close> lets threads put, drain and recycle in any order; chunks leave in the order in which they came,
    each once, and the bounds on the size hold after each \<^verbatim>\<open>Put\<close>.
  \<^item> \<open>Asan_Allocator\<close>, \<open>Asan_Heap\<close> with their theories of proofs (\<^verbatim>\<open>asan_allocator.{h,cpp}\<close>): headers, redzones, allocation, deallocation,
    reallocation, chunk lookup. They call the shadow writers, the quarantine and the size classes. The allocator of pages below is the record
    \<open>lower\<close> of its answers. An allocated block is accessible in exactly the bytes asked for, a freed one in none.

  \<^bold>\<open>Threads and stacks\<close>

  \<^item> \<open>Thread_Registry\<close>, \<open>Thread_Registry_Proofs\<close> (\<^verbatim>\<open>sanitizer_thread_registry.{h,cpp}\<close>): thread contexts as state machines; \<open>registry_step\<close>
    is any operation under the lock; the invariant gives the counters, the lookup of user ids and that joining does not fail a check.
  \<^item> \<open>Thread_Arg_Retval\<close> (\<^verbatim>\<open>sanitizer_thread_arg_retval.{h,cpp}\<close>): arguments and return values kept alive for the leak checker.
  \<^item> \<open>Fake_Stack\<close>, \<open>Fake_Stack_Proofs\<close>, \<open>Fake_Stack_Pool\<close> (\<^verbatim>\<open>asan_fake_stack.{h,cpp}\<close>): frames of
    functions whose locals may outlive them: layout, allocation, garbage collection, shadow.
  \<^item> \<open>Asan_Thread\<close> (\<^verbatim>\<open>asan_thread.{h,cpp}\<close>): stack bounds, fibers, fake stacks of threads, lookups for the leak checker.
  \<^item> \<open>San_Mutex\<close>, \<open>San_Mutex_Proofs\<close> (\<^verbatim>\<open>sanitizer_mutex.h\<close>): the reader-writer lock as a step relation, one atomic access per step; mutual
    exclusion and the absence of lost wake-ups by an invariant of the reachable states.

  \<^bold>\<open>Deadlock detector\<close>

  \<^item> \<open>Bit_Vector\<close>, \<open>Two_Level_Bit_Vector\<close> (\<^verbatim>\<open>sanitizer_bitvector.h\<close>): the locale \<open>bitvec\<close> is the interface that the templates above
    use; both classes interpret it.
  \<^item> \<open>Bv_Graph\<close> (\<^verbatim>\<open>sanitizer_bvgraph.h\<close>): reachability and paths in a graph of bit vectors.
  \<^item> \<open>Deadlock_Detector\<close>, \<open>Deadlock_Proofs\<close>, \<open>Dd_Mutex\<close> (\<^verbatim>\<open>sanitizer_deadlock_detector.h\<close>,
    \<^verbatim>\<open>sanitizer_deadlock_detector1.cpp\<close>): a report is made exactly when a lock closes a cycle in the order of locks (\<open>dd_step\<close>, the locale
    \<open>dd_bitvec\<close>), and the report names the cycle.

  \<^bold>\<open>Stack traces\<close>

  \<^item> \<open>Stack_Store\<close>, \<open>Stack_Store_Proofs\<close> (\<^verbatim>\<open>sanitizer_stack_store.{h,cpp}\<close>): traces in blocks that are compressed with \<open>Lzw\<close> and \<open>Leb128\<close>; an id loads its
    trace, whatever is stored or packed in between.
  \<^item> \<open>Stack_Depot\<close>, \<open>Stack_Depot_Proofs\<close> (\<^verbatim>\<open>sanitizer_stackdepotbase.h\<close>, \<^verbatim>\<open>sanitizer_stackdepot.cpp\<close>): the concurrent table of
    traces; threads take steps of \<^verbatim>\<open>Put\<close> in any order (\<open>depot_step\<close>).

  \<^bold>\<open>Leak checker\<close> (\<^verbatim>\<open>src/lsan/lsan_common.cpp\<close>, \<^verbatim>\<open>lsan_common_linux.cpp\<close>)

  \<^item> \<open>Lsan\<close>: scanning, root set, flood fill, classification, collection. It reads the heap of \<open>Asan_Heap\<close>, the threads
    of \<open>Asan_Thread\<close> and the ranges of \<open>San_Range\<close>; the operating system is the record \<open>lsan_env\<close>.
  \<^item> \<open>Marking\<close>: the locale \<open>marking\<close>, a flood fill over a finite graph; \<open>Lsan_Scan\<close> shows what one scan does, \<open>Lsan_Roots\<close> what the
    root set is, \<open>Lsan_Proofs\<close> interprets the locale and gives that the leaks are exactly the chunks that cannot be reached.
  \<^item> \<open>Lsan_Report\<close>, \<open>Lsan_Report_Proofs\<close>: grouping of leaks by stack, suppression, the repeated check.

  \<^bold>\<open>Loops and bounds\<close>

  There is no fuel. Loops are structural or have a measure; those that the types do not bound are \<^theory_text>\<open>partial_function (option)\<close>
  (scans of memory, the flood fill, the search in a bucket, the eviction of the quarantine, walks over links), and the lemmas about them show that they return.
  The mutex is proved for fewer than \<open>2 ^ 20\<close> threads, which is the width of its counters; the LZW codec for fewer than
  \<open>2 ^ 32 - 3\<close> codes, so that a code is never the sentinel; the dense map for up to \<open>2 ^ 28\<close> operations, before its 32-bit products wrap; the deadlock detector for
  \<^verbatim>\<open>TwoLevelBitVector<>\<close> of 4096 nodes, as instantiated.

  \<^bold>\<open>Not modelled\<close>

  Interception of library functions and the interceptors (machine code and the dynamic linker; the wrapped functions are not in
  the repository), the tables of system call hooks and of platform structure sizes, the operating system layers, the symbolizer, unwinding, text output and
  error reports, parsing of flags and suppressions, coverage, the undefined behaviour sanitizer's handlers, registration of globals, statistics, the page
  allocators below the heap. The models take the answers of these parts as arguments. Concurrency is sequentially consistent and is modelled where the code is lock-free (mutex, stack depot);
  operations under a lock are single steps. In the components that are modelled, printing is left out.
\<close>

end
